(* ===== verification/Prelude.thy ===== *)
theory Prelude
  imports Main "HOL-Library.Word" "HOL-Library.Multiset"
begin

text \<open>
  Shared vocabulary of the DeskHop development: the fixed-width integer types of the C code,
  little-endian byte access, C array reads and writes, generic facts on words and lists, and
  the two interfaces several components implement: \<open>packet_codec\<close> (an eight-byte or raw wire
  format with its encoder and validating decoder) and \<open>machine\<close> (a deterministic state
  machine with an invariant, run over a list of inputs).
\<close>

unbundle bit_operations_syntax

named_theorems layout_simps \<open>equations that read a field of an encoded byte layout\<close>
named_theorems inv_simps \<open>definitions of the component invariants\<close>

type_synonym u8 = "8 word"
type_synonym u16 = "16 word"
type_synonym u32 = "32 word"
type_synonym u64 = "64 word"
type_synonym bytes = "u8 list"

subsection \<open>Little-endian access\<close>

text \<open>The four bytes of a 32-bit value, least significant first, and the two of a 16-bit one.\<close>

definition le32 :: "u32 \<Rightarrow> bytes" where
  "le32 v = [ucast v, ucast (drop_bit 8 v), ucast (drop_bit 16 v), ucast (drop_bit 24 v)]"

definition get32 :: "bytes \<Rightarrow> nat \<Rightarrow> u32" where
  "get32 p i = ucast (p ! i) OR push_bit 8 (ucast (p ! (i + 1)))
     OR push_bit 16 (ucast (p ! (i + 2))) OR push_bit 24 (ucast (p ! (i + 3)))"

definition le16 :: "u16 \<Rightarrow> bytes" where
  "le16 v = [ucast v, ucast (drop_bit 8 v)]"

definition get16 :: "bytes \<Rightarrow> nat \<Rightarrow> u16" where
  "get16 p i = ucast (p ! i) OR push_bit 8 (ucast (p ! (i + 1)))"

lemma length_le32 [simp]: "length (le32 v) = 4"
  by (simp add: le32_def)

lemma length_le16 [simp]: "length (le16 v) = 2"
  by (simp add: le16_def)

lemma bit_beyond_u8 [simp]: "8 \<le> n \<Longrightarrow> \<not> bit (a :: u8) n"
  by (auto dest: bit_imp_le_length)

lemma join32 [simp]:
  fixes v :: u32
  shows "ucast (ucast v :: u8) OR push_bit 8 (ucast (ucast (drop_bit 8 v) :: u8))
    OR push_bit 16 (ucast (ucast (drop_bit 16 v) :: u8))
    OR push_bit 24 (ucast (ucast (drop_bit 24 v) :: u8)) = v" (is "?l = v")
proof (rule bit_word_eqI)
  fix n
  assume n: "n < LENGTH(32)"
  then consider "n < 8" | "8 \<le> n" "n < 16" | "16 \<le> n" "n < 24" | "24 \<le> n" "n < 32"
    by force
  then show "bit ?l n = bit v n"
    by cases (auto simp: bit_simps)
qed

lemma join16 [simp]:
  fixes v :: u16
  shows "ucast (ucast v :: u8) OR push_bit 8 (ucast (ucast (drop_bit 8 v) :: u8)) = v"
  by (rule bit_word_eqI) (auto simp: bit_simps)

lemma split32:
  fixes a b c d :: u8
  defines "v \<equiv> ucast a OR push_bit 8 (ucast b) OR push_bit 16 (ucast c) OR push_bit 24 (ucast d) :: u32"
  shows "ucast v = a" "ucast (drop_bit 8 v) = b" "ucast (drop_bit 16 v) = c" "ucast (drop_bit 24 v) = d"
  unfolding v_def by (auto intro!: bit_word_eqI simp: bit_simps)

lemma split16:
  fixes a b :: u8
  defines "v \<equiv> ucast a OR push_bit 8 (ucast b) :: u16"
  shows "ucast v = a" "ucast (drop_bit 8 v) = b"
  unfolding v_def by (auto intro!: bit_word_eqI simp: bit_simps)

lemma get32_le32 [simp]: "get32 (le32 v @ xs) 0 = v"
  by (simp add: get32_def le32_def)

lemma le32_get32: "le32 (get32 p i) = [p ! i, p ! (i + 1), p ! (i + 2), p ! (i + 3)]"
  by (simp only: le32_def get32_def split32)

lemma le16_get16: "le16 (get16 p i) = [p ! i, p ! (i + 1)]"
  by (simp only: le16_def get16_def split16)

lemma list_of_length_8:
  assumes "length xs = 8"
  obtains a b c d e f g h where "xs = [a, b, c, d, e, f, g, h]"
  using assms by (auto simp: eval_nat_numeral length_Suc_conv)

lemma unat_u32_less: "unat (w :: u32) < 2 ^ 32"
  using unsigned_less [of w, where ?'a = nat] by simp

lemma get32_second [simp]: "get32 (le32 v @ le32 w) 4 = w"
  by (simp add: get32_def le32_def)

lemma frame8_split:
  assumes "length p = 8"
  shows "p = le32 (get32 p 0) @ drop 4 p" "drop 4 p = le32 (get32 p 4)"
  by (rule list_of_length_8 [OF assms], simp add: le32_get32)+

definition le64 :: "u64 \<Rightarrow> bytes" where
  "le64 v = le32 (ucast v) @ le32 (ucast (drop_bit 32 v))"

definition get64 :: "bytes \<Rightarrow> nat \<Rightarrow> u64" where
  "get64 p i = ucast (get32 p i) OR push_bit 32 (ucast (get32 p (i + 4)))"

lemma length_le64 [simp]: "length (le64 v) = 8"
  by (simp add: le64_def)

lemma join64:
  fixes v :: u64
  shows "ucast (ucast v :: u32) OR push_bit 32 (ucast (ucast (drop_bit 32 v) :: u32)) = v"
  by (rule bit_word_eqI) (auto simp: bit_simps)

lemma get32_at: "k = length xs \<Longrightarrow> get32 (xs @ le32 v @ ys) k = v"
  by (simp add: get32_def le32_def nth_append)

lemma get16_at: "k = length xs \<Longrightarrow> get16 (xs @ le16 v @ ys) k = v"
  by (simp add: get16_def le16_def nth_append)

lemma get64_at: "k = length xs \<Longrightarrow> get64 (xs @ le64 v @ ys) k = v"
  unfolding get64_def le64_def
  using get32_at [of k xs "ucast v" "le32 (ucast (drop_bit 32 v)) @ ys"]
    get32_at [of "k + 4" "xs @ le32 (ucast v)" "ucast (drop_bit 32 v)" ys] join64 [of v]
  by simp

subsection \<open>Byte arrays\<close>

text \<open>\<open>slice\<close> is the run of \<open>n\<close> bytes at an offset, \<open>blit\<close> is \<open>memcpy\<close> to an offset of an array.\<close>

definition slice :: "'a list \<Rightarrow> nat \<Rightarrow> nat \<Rightarrow> 'a list" where
  "slice p off n = take n (drop off p)"

definition blit :: "'a list \<Rightarrow> nat \<Rightarrow> 'a list \<Rightarrow> 'a list" where
  "blit p off d = take off p @ d @ drop (off + length d) p"

lemma length_slice [simp]: "off + n \<le> length p \<Longrightarrow> length (slice p off n) = n"
  by (simp add: slice_def)

lemma length_blit [simp]: "off + length d \<le> length p \<Longrightarrow> length (blit p off d) = length p"
  by (simp add: blit_def)

lemma nth_slice: "off + n \<le> length p \<Longrightarrow> k < n \<Longrightarrow> slice p off n ! k = p ! (off + k)"
  by (simp add: slice_def)

lemma nth_blit:
  "off + length d \<le> length p \<Longrightarrow> k < length p \<Longrightarrow>
     blit p off d ! k = (if off \<le> k \<and> k < off + length d then d ! (k - off) else p ! k)"
  by (auto simp: blit_def nth_append min_def)

lemma slice_blit:
  assumes "off + length d \<le> length p" "off' + n \<le> length p"
  shows "off' = off \<Longrightarrow> n = length d \<Longrightarrow> slice (blit p off d) off' n = d"
    and "off' + n \<le> off \<or> off + length d \<le> off' \<Longrightarrow> slice (blit p off d) off' n = slice p off' n"
  using assms by (auto intro!: nth_equalityI simp: nth_slice nth_blit)

lemma words_eq:
  assumes "length p = 4 * n" "length q = 4 * n" "\<And>i. i < n \<Longrightarrow> slice p (4 * i) 4 = slice q (4 * i) 4"
  shows "p = q"
proof (rule nth_equalityI)
  fix k
  assume k: "k < length p"
  then have i: "k div 4 < n" using assms(1) by simp
  have bd: "4 * (k div 4) + 4 \<le> length p" "4 * (k div 4) + 4 \<le> length q" using i assms(1,2) by simp_all
  have "slice p (4 * (k div 4)) 4 ! (k mod 4) = slice q (4 * (k div 4)) 4 ! (k mod 4)"
    using assms(3) [OF i] by simp
  then show "p ! k = q ! k" using bd by (simp add: nth_slice)
qed (simp add: assms)

subsection \<open>Searches over an index range\<close>

lemma find_upt_Some: "find P [0..<n] = Some i \<longleftrightarrow> i < n \<and> P i \<and> (\<forall>k<i. \<not> P k)"
proof -
  have "find P [0..<n] = Some i \<longleftrightarrow> (\<exists>j<n. P j \<and> i = j \<and> (\<forall>k<j. \<not> P k))"
    unfolding find_Some_iff by (intro ex_cong1) auto
  then show ?thesis by blast
qed

lemma find_upt_None: "find P [0..<n] = None \<longleftrightarrow> (\<forall>i<n. \<not> P i)"
  by (simp add: find_None_iff)

subsection \<open>Ring buffers\<close>

lemma drop_all_but_last_snoc:
  "drop (Suc (length (drop (length xs - c) xs)) - c) (drop (length xs - c) xs @ [y])
     = drop (Suc (length xs) - c) (xs @ [y])"
proof (cases "c = 0")
  case False
  then show ?thesis
    by (cases "length xs < c") (simp_all add: Suc_diff_le not_less drop_Suc tl_drop [symmetric] numeral_eq_Suc)
qed simp

lemma ring_index_inj:
  assumes "i < N" "j < N" "(r + i) mod N = (r + j) mod (N :: nat)"
  shows "i = j"
proof -
  have le: "i' = j'" if "i' \<le> j'" "j' < N" "(r + i') mod N = (r + j') mod N" for i' j'
  proof -
    from that have "N dvd (r + j') - (r + i')" by (metis mod_eq_dvd_iff_nat nat_add_left_cancel_le)
    then have "N dvd j' - i'" by simp
    with that show ?thesis by (auto dest: dvd_imp_le)
  qed
  show ?thesis using le [of i j] le [of j i] assms by (cases "i \<le> j") auto
qed

lemma mod_wrap: "w \<le> n \<Longrightarrow> Suc (w + n) mod Suc n = (w :: nat)"
  using mod_add_self2 [of w "Suc n"] by simp

lemma take_take_append: "take c (take c ys @ xs) = take c (ys @ xs)"
  by (cases "length ys \<le> c") simp_all

subsection \<open>Wire formats\<close>

text \<open>
  A wire format: \<open>encode\<close> writes a value the sender may hold (\<open>wf\<close>) to a frame of the
  expected shape, \<open>decode\<close> validates a frame. The two laws say that a sent value is received
  and that a frame is accepted only if it is the canonical encoding of a value the sender may
  hold: there is no second spelling of any message.
\<close>

locale packet_codec =
  fixes encode :: "'a \<Rightarrow> 'w"
    and decode :: "'w \<Rightarrow> 'a option"
    and wf :: "'a \<Rightarrow> bool"
    and frame :: "'w \<Rightarrow> bool"
  assumes encode_frame: "wf x \<Longrightarrow> frame (encode x)"
    and decode_encode: "wf x \<Longrightarrow> decode (encode x) = Some x"
    and decode_canonical: "frame w \<Longrightarrow> decode w = Some x \<Longrightarrow> wf x \<and> encode x = w"
begin

lemma encode_inj: "wf x \<Longrightarrow> wf y \<Longrightarrow> encode x = encode y \<Longrightarrow> x = y"
  by (metis decode_encode option.inject)

lemma decode_iff: "frame w \<Longrightarrow> decode w = Some x \<longleftrightarrow> wf x \<and> encode x = w"
  using decode_canonical decode_encode by blast

lemma decode_inj: "frame v \<Longrightarrow> frame w \<Longrightarrow> decode v = Some x \<Longrightarrow> decode w = Some x \<Longrightarrow> v = w"
  by (metis decode_canonical)

lemma accepted_iff_sendable: "frame w \<Longrightarrow> decode w \<noteq> None \<longleftrightarrow> w \<in> encode ` Collect wf"
proof
  assume "frame w" "decode w \<noteq> None"
  then obtain x where "decode w = Some x" by blast
  with decode_canonical [OF \<open>frame w\<close>] have "wf x" "encode x = w" by blast+
  then show "w \<in> encode ` Collect wf" by blast
next
  assume "w \<in> encode ` Collect wf"
  then show "decode w \<noteq> None" by (auto simp: decode_encode)
qed

end

subsection \<open>State machines\<close>

text \<open>A component whose entry point takes the state and an input and returns the next state and
  a result; \<open>run_machine\<close> feeds it a sequence of inputs and keeps the results.\<close>

primrec run_machine :: "('s \<Rightarrow> 'i \<Rightarrow> 'o \<times> 's) \<Rightarrow> 's \<Rightarrow> 'i list \<Rightarrow> 'o list \<times> 's" where
  "run_machine step s [] = ([], s)"
| "run_machine step s (i # is) =
     (case step s i of (o', s') \<Rightarrow>
        case run_machine step s' is of (os, s'') \<Rightarrow> (o' # os, s''))"

lemma run_machine_append:
  "run_machine step s (xs @ ys) =
     (case run_machine step s xs of (os, s') \<Rightarrow>
        case run_machine step s' ys of (os', s'') \<Rightarrow> (os @ os', s''))"
  by (induction xs arbitrary: s) (auto split: prod.splits)

lemma length_run_machine: "run_machine step s is = (os, s') \<Longrightarrow> length os = length is"
  by (induction "is" arbitrary: s os) (auto split: prod.splits)

locale machine =
  fixes step :: "'s \<Rightarrow> 'i \<Rightarrow> 'o \<times> 's"
    and inv :: "'s \<Rightarrow> bool"
    and admissible :: "'i \<Rightarrow> bool"
  assumes step_inv: "inv s \<Longrightarrow> admissible i \<Longrightarrow> step s i = (o', s') \<Longrightarrow> inv s'"
begin

lemma run_inv:
  "inv s \<Longrightarrow> list_all admissible is \<Longrightarrow> run_machine step s is = (os, s') \<Longrightarrow> inv s'"
  by (induction "is" arbitrary: s os) (auto split: prod.splits dest: step_inv)

end

end
