(* ===== verification/Selection.thy ===== *)
theory Selection
  imports Prelude
begin

text \<open>
  Output selection between the two boards (selection.h, selection.c): a token of a wrapping
  32-bit counter, the board that issued it and the selected output, together with the phase of
  the join handshake, merged on receipt of the peer's announcement. The theory models every
  operation, shows that the eight-byte announcement is a canonical wire format, that merging is
  monotone in the token order, that two boards converge, and that in a network of two boards
  with reboots and a channel that loses, repeats and reorders packets every packet in flight is
  well formed.
\<close>

unbundle bit_operations_syntax

subsection \<open>The code\<close>

record selection_state =
  sel_counter :: u32
  sel_origin :: u8
  sel_output :: u8
  sel_joined :: bool
  sel_joining :: bool
  sel_pending_local :: bool

definition selection_boot :: selection_state where
  "selection_boot = \<lparr>sel_counter = 0, sel_origin = 0, sel_output = 0, sel_joined = False,
     sel_joining = False, sel_pending_local = False\<rparr>"

definition counter_newer :: "u32 \<Rightarrow> u32 \<Rightarrow> bool" where
  "counter_newer incoming current =
     (let distance = incoming - current in distance \<noteq> 0 \<and> distance < 0x80000000)"

definition token_newer :: "selection_state \<Rightarrow> selection_state \<Rightarrow> bool" where
  "token_newer incoming current =
     (counter_newer (sel_counter incoming) (sel_counter current)
      \<or> (sel_counter incoming = sel_counter current \<and> sel_origin incoming > sel_origin current))"

definition copy_token :: "selection_state \<Rightarrow> selection_state \<Rightarrow> selection_state" where
  "copy_token dest source = dest\<lparr>sel_counter := sel_counter source,
     sel_origin := sel_origin source, sel_output := sel_output source\<rparr>"

definition selection_request :: "selection_state \<Rightarrow> u8 \<Rightarrow> u8 \<Rightarrow> selection_state" where
  "selection_request s output origin = s\<lparr>sel_counter := sel_counter s + 1,
     sel_origin := origin, sel_output := output,
     sel_pending_local := \<not> sel_joined s \<and> \<not> sel_joining s\<rparr>"

definition selection_legacy_request :: "selection_state \<Rightarrow> u8 \<Rightarrow> u8 \<Rightarrow> selection_state" where
  "selection_legacy_request s output origin =
     (selection_request s output origin)\<lparr>sel_joined := True, sel_joining := False,
        sel_pending_local := False\<rparr>"

text \<open>The first branch of \<open>selection_merge\<close>: a board that has neither joined nor started to.\<close>

definition merge_fresh :: "selection_state \<Rightarrow> selection_state \<Rightarrow> u8 \<Rightarrow> selection_state" where
  "merge_fresh s incoming local_origin =
     (let s1 =
        (if sel_joined incoming then
           (if sel_pending_local s then
              (let base = (if counter_newer (sel_counter incoming) (sel_counter s)
                           then sel_counter incoming else sel_counter s)
               in s\<lparr>sel_counter := base + 1, sel_origin := local_origin\<rparr>)
            else copy_token s incoming)\<lparr>sel_joined := True\<rparr>
         else
           (if token_newer incoming s then copy_token s incoming else s)
             \<lparr>sel_joined := sel_joining incoming, sel_joining := \<not> sel_joining incoming\<rparr>)
      in s1\<lparr>sel_pending_local := False\<rparr>)"

definition selection_merge :: "selection_state \<Rightarrow> selection_state \<Rightarrow> u8 \<Rightarrow> bool \<times> selection_state" where
  "selection_merge s incoming local_origin =
     (if \<not> sel_joined s \<and> \<not> sel_joining s then (True, merge_fresh s incoming local_origin)
      else
        (let established = sel_joining s \<and> (sel_joining incoming \<or> sel_joined incoming);
             s1 = (if established then s\<lparr>sel_joining := False, sel_joined := True\<rparr> else s)
         in if \<not> sel_joined incoming \<and> \<not> sel_joining incoming \<and> \<not> sel_pending_local incoming
            then (established, s1)
            else if \<not> token_newer incoming s1 then (established, s1)
            else (True, copy_token s1 incoming)))"

definition selection_encode :: "selection_state \<Rightarrow> bytes" where
  "selection_encode s =
     [sel_output s,
      sel_origin s OR (if sel_joined s then 0x80 else 0)
        OR (if sel_joining s then 0x20 else 0)
        OR (if sel_pending_local s then 0x40 else 0),
      0x53, 0x31] @ le32 (sel_counter s)"

definition selection_decode :: "bytes \<Rightarrow> selection_state option" where
  "selection_decode data =
     (let phase = data ! 1 AND 0xe0 in
      if data ! 0 > 1 \<or> data ! 2 \<noteq> 0x53 \<or> data ! 3 \<noteq> 0x31 \<or> data ! 1 AND NOT 0xe1 \<noteq> 0
         \<or> (phase \<noteq> 0 \<and> phase \<noteq> 0x20 \<and> phase \<noteq> 0x40 \<and> phase \<noteq> 0x80)
      then None
      else
        (let s = \<lparr>sel_counter = get32 data 4, sel_origin = data ! 1 AND 1, sel_output = data ! 0,
                   sel_joined = (data ! 1 AND 0x80 \<noteq> 0), sel_joining = (data ! 1 AND 0x20 \<noteq> 0),
                   sel_pending_local = (data ! 1 AND 0x40 \<noteq> 0)\<rparr>
         in if sel_joined s \<or> sel_joining s \<or> sel_pending_local s
               \<or> (sel_counter s = 0 \<and> sel_origin s = 0 \<and> sel_output s = 0)
            then Some s else None))"

definition selection_is_legacy :: "bytes \<Rightarrow> bool" where
  "selection_is_legacy data = (data ! 0 \<le> 1 \<and> list_all (\<lambda>i. data ! i = 0) [1, 2, 3, 4, 5, 6, 7])"

subsection \<open>Well-formed states and the wire format\<close>

definition sel_wf :: "selection_state \<Rightarrow> bool" where
  "sel_wf s \<longleftrightarrow> sel_output s \<le> 1 \<and> sel_origin s \<le> 1
     \<and> \<not> (sel_joined s \<and> sel_joining s) \<and> \<not> (sel_joined s \<and> sel_pending_local s)
     \<and> \<not> (sel_joining s \<and> sel_pending_local s)
     \<and> (sel_joined s \<or> sel_joining s \<or> sel_pending_local s
        \<or> (sel_counter s = 0 \<and> sel_origin s = 0 \<and> sel_output s = 0))"

lemma u8_le_1: "(x :: u8) \<le> 1 \<longleftrightarrow> x = 0 \<or> x = 1"
proof -
  have "x \<le> 1 \<longleftrightarrow> unat x \<le> 1" by (simp add: word_le_nat_alt)
  also have "\<dots> \<longleftrightarrow> unat x = 0 \<or> unat x = 1" by arith
  finally show ?thesis by (metis unat_0 unat_1 word_unat_eq_iff)
qed

lemma selection_encode_length: "length (selection_encode s) = 8"
  by (simp add: selection_encode_def)

lemma selection_encode_fields [layout_simps]:
  "selection_encode s ! 0 = sel_output s"
  "selection_encode s ! Suc 0 = (sel_origin s OR (if sel_joined s then 0x80 else 0)
        OR (if sel_joining s then 0x20 else 0)
        OR (if sel_pending_local s then 0x40 else 0))"
  "selection_encode s ! 2 = 0x53"
  "selection_encode s ! 3 = 0x31"
  "get32 (selection_encode s) 4 = sel_counter s"
  by (simp_all add: selection_encode_def get32_def le32_def)

lemma sel_phase_cases:
  assumes "sel_wf s"
  obtains (fresh) "\<not> sel_joined s" "\<not> sel_joining s" "\<not> sel_pending_local s" "s = selection_boot"
  | (pending) "\<not> sel_joined s" "\<not> sel_joining s" "sel_pending_local s"
  | (joining) "\<not> sel_joined s" "sel_joining s" "\<not> sel_pending_local s"
  | (joined) "sel_joined s" "\<not> sel_joining s" "\<not> sel_pending_local s"
  using assms by (cases s) (auto simp: sel_wf_def selection_boot_def)

lemma selection_decode_encode:
  assumes "sel_wf s"
  shows "selection_decode (selection_encode s) = Some s"
proof -
  from assms consider "sel_origin s = 0" "sel_output s = 0" | "sel_origin s = 0" "sel_output s = 1"
    | "sel_origin s = 1" "sel_output s = 0" | "sel_origin s = 1" "sel_output s = 1"
    by (auto simp: sel_wf_def u8_le_1)
  then show ?thesis
    by (rule sel_phase_cases [OF assms]; cases)
       (simp_all add: selection_decode_def selection_boot_def layout_simps)
qed

lemma flag_byte_split:
  fixes d :: u8
  assumes "d AND NOT 0xe1 = 0"
  shows "d = (d AND 0xe0) OR (d AND 1)"
proof -
  have "d = d AND (0xe1 OR NOT 0xe1)" by (simp only: bit.disj_cancel_right and.right_neutral)
  also have "\<dots> = (d AND 0xe1) OR (d AND NOT 0xe1)" by (rule bit.conj_disj_distrib)
  also have "\<dots> = d AND 0xe1" by (simp only: assms or.right_neutral)
  also have "0xe1 = (0xe0 OR 1 :: u8)" by simp
  finally show ?thesis by (simp only: bit.conj_disj_distrib)
qed

lemma selection_decode_canonical:
  assumes len: "length d = 8" and dec: "selection_decode d = Some s"
  shows "sel_wf s \<and> selection_encode s = d"
proof -
  from dec have f: "d ! 0 \<le> 1" "d ! 2 = 0x53" "d ! 3 = 0x31" "d ! 1 AND NOT 0xe1 = 0"
    and ph: "d ! 1 AND 0xe0 = 0 \<or> d ! 1 AND 0xe0 = 0x20 \<or> d ! 1 AND 0xe0 = 0x40 \<or> d ! 1 AND 0xe0 = 0x80"
    and s: "s = \<lparr>sel_counter = get32 d 4, sel_origin = d ! 1 AND 1, sel_output = d ! 0,
                   sel_joined = (d ! 1 AND 0x80 \<noteq> 0), sel_joining = (d ! 1 AND 0x20 \<noteq> 0),
                   sel_pending_local = (d ! 1 AND 0x40 \<noteq> 0)\<rparr>"
    and ne: "sel_joined s \<or> sel_joining s \<or> sel_pending_local s
               \<or> (sel_counter s = 0 \<and> sel_origin s = 0 \<and> sel_output s = 0)"
    by (auto simp only: selection_decode_def Let_def not_less split: if_splits)
  have fl: "d ! 1 = (d ! 1 AND 0xe0) OR (d ! 1 AND 1)" using f(4) by (rule flag_byte_split)
  have "d ! 1 AND 1 \<le> 1" by (rule word_and_le1)
  then have o: "d ! 1 AND 1 = 0 \<or> d ! 1 AND 1 = 1" by (simp only: u8_le_1)
  have sub: "d ! 1 AND m = (d ! 1 AND 0xe0) AND m" if "0xe0 AND m = m" for m
    using that by (simp add: and.assoc)
  have bits: "d ! 1 AND 0x80 = (d ! 1 AND 0xe0) AND 0x80" "d ! 1 AND 0x40 = (d ! 1 AND 0xe0) AND 0x40"
    "d ! 1 AND 0x20 = (d ! 1 AND 0xe0) AND 0x20"
    by (rule sub, simp)+
  have wf: "sel_wf s"
    using f(1) ph o ne unfolding sel_wf_def s bits by (auto simp: u8_le_1)
  have "selection_encode s ! 1 = d ! 1"
    using ph o fl unfolding selection_encode_def s bits by auto
  moreover have "le32 (get32 d 4) = [d ! 4, d ! 5, d ! 6, d ! 7]" by (simp add: le32_get32)
  ultimately have "selection_encode s = [d ! 0, d ! 1, d ! 2, d ! 3, d ! 4, d ! 5, d ! 6, d ! 7]"
    using f by (simp add: selection_encode_def s)
  also have "\<dots> = d" by (rule list_of_length_8 [OF len]) simp
  finally show ?thesis using wf by simp
qed

interpretation sel_codec: packet_codec selection_encode selection_decode sel_wf "\<lambda>d. length d = 8"
  by unfold_locales
    (simp_all add: selection_encode_length selection_decode_encode selection_decode_canonical)

subsection \<open>The token order\<close>

text \<open>Serial-number comparison is a strict order on counters less than half the range apart.\<close>

lemma counter_newer_unat:
  "counter_newer a b \<longleftrightarrow> 0 < unat (a - b) \<and> unat (a - b) < 2 ^ 31"
  by (auto simp: counter_newer_def Let_def word_less_nat_alt unat_gt_0)

lemma unat_sub_swap: "(a :: u32) \<noteq> b \<Longrightarrow> unat (b - a) + unat (a - b) = 2 ^ 32"
  using unat_u32_less [of a] unat_u32_less [of b]
  by (auto simp: unat_sub_if_size word_size word_unat_eq_iff)

lemma counter_newer_asym: "counter_newer a b \<Longrightarrow> \<not> counter_newer b a"
  unfolding counter_newer_unat using unat_sub_swap [of a b] by (cases "a = b") simp_all

lemma counter_newer_total:
  "a \<noteq> b \<Longrightarrow> a - b \<noteq> 0x80000000 \<Longrightarrow> counter_newer a b \<or> counter_newer b a"
proof (rule ccontr)
  assume ne: "a \<noteq> b" "a - b \<noteq> 0x80000000"
    and no: "\<not> (counter_newer a b \<or> counter_newer b a)"
  from ne(1) have "0 < unat (a - b)" by (simp add: unat_gt_0)
  moreover from ne(1) have "0 < unat (b - a)" by (simp add: unat_gt_0)
  ultimately have "unat (a - b) = 2 ^ 31"
    using no unat_sub_swap [OF ne(1)] unfolding counter_newer_unat by simp
  then have "unat (a - b) = unat (0x80000000 :: u32)" by simp
  then have "a - b = 0x80000000" by (simp only: word_unat_eq_iff)
  with ne(2) show False ..
qed

lemma counter_newer_Suc: "counter_newer (c + 1) c"
  by (simp add: counter_newer_def)

lemma token_newer_asym: "token_newer a b \<Longrightarrow> \<not> token_newer b a"
  by (auto simp: token_newer_def dest: counter_newer_asym) (auto simp: counter_newer_def)

definition sel_token :: "selection_state \<Rightarrow> u32 \<times> u8 \<times> u8" where
  "sel_token s = (sel_counter s, sel_origin s, sel_output s)"

lemma sel_token_copy [simp]: "sel_token (copy_token s t) = sel_token t"
  by (simp add: sel_token_def copy_token_def)

lemma sel_phase_copy [simp]:
  "sel_joined (copy_token s t) = sel_joined s" "sel_joining (copy_token s t) = sel_joining s"
  "sel_pending_local (copy_token s t) = sel_pending_local s"
  by (simp_all add: copy_token_def)

text \<open>Two tokens can be told apart by the code: they are not exactly half the counter range
  apart, and the same counter from the same board names the same output.\<close>

definition comparable_tokens :: "selection_state \<Rightarrow> selection_state \<Rightarrow> bool" where
  "comparable_tokens a b \<longleftrightarrow> sel_counter a - sel_counter b \<noteq> 0x80000000
     \<and> (sel_counter a = sel_counter b \<and> sel_origin a = sel_origin b \<longrightarrow> sel_output a = sel_output b)"

lemma token_newer_total:
  "comparable_tokens a b \<Longrightarrow> sel_token a \<noteq> sel_token b \<Longrightarrow> token_newer a b \<or> token_newer b a"
  using counter_newer_total [of "sel_counter a" "sel_counter b"]
  by (cases "sel_counter a = sel_counter b")
     (auto simp: comparable_tokens_def sel_token_def token_newer_def)

subsection \<open>Merging\<close>

lemma merge_joined_token:
  assumes "sel_joined s" "\<not> sel_joining s" "sel_joined t"
  shows "sel_token (snd (selection_merge s t lo)) = (if token_newer t s then sel_token t else sel_token s)"
  using assms by (simp add: selection_merge_def)

lemma selection_request_wf:
  "sel_wf s \<Longrightarrow> out \<le> 1 \<Longrightarrow> orig \<le> 1 \<Longrightarrow> sel_wf (selection_request s out orig)"
  by (auto simp: sel_wf_def selection_request_def)

lemma selection_legacy_request_wf:
  "sel_wf s \<Longrightarrow> out \<le> 1 \<Longrightarrow> orig \<le> 1 \<Longrightarrow> sel_wf (selection_legacy_request s out orig)"
  by (auto simp: sel_wf_def selection_request_def selection_legacy_request_def)

lemma selection_merge_wf:
  assumes "sel_wf s" "sel_wf t" "lo \<le> 1"
  shows "sel_wf (snd (selection_merge s t lo))"
  using assms
  by (auto simp: sel_wf_def selection_merge_def merge_fresh_def copy_token_def Let_def)

lemma sel_boot_wf: "sel_wf selection_boot"
  by (simp add: sel_wf_def selection_boot_def)

subsection \<open>Two boards and a faulty link\<close>

text \<open>
  The two boards and the packets in flight. The link may lose, repeat, delay and reorder
  packets (a packet once sent can be delivered at any later step, any number of times), and
  either board may reboot at any time. \<open>output_select_sync\<close> is what the receiving board does
  with an announcement.
\<close>

record selection_net =
  net_a :: selection_state
  net_b :: selection_state
  net_flight :: "bytes set"

definition selection_receive :: "selection_state \<Rightarrow> bytes \<Rightarrow> u8 \<Rightarrow> selection_state" where
  "selection_receive s data lo =
     (case selection_decode data of None \<Rightarrow> s | Some t \<Rightarrow> snd (selection_merge s t lo))"

inductive net_step :: "selection_net \<Rightarrow> selection_net \<Rightarrow> bool" where
  request_a: "out \<le> 1 \<Longrightarrow> net_step n (n\<lparr>net_a := selection_request (net_a n) out 0\<rparr>)"
| request_b: "out \<le> 1 \<Longrightarrow> net_step n (n\<lparr>net_b := selection_request (net_b n) out 1\<rparr>)"
| send_a: "net_step n (n\<lparr>net_flight := insert (selection_encode (net_a n)) (net_flight n)\<rparr>)"
| send_b: "net_step n (n\<lparr>net_flight := insert (selection_encode (net_b n)) (net_flight n)\<rparr>)"
| deliver_a: "d \<in> net_flight n \<Longrightarrow> net_step n (n\<lparr>net_a := selection_receive (net_a n) d 0\<rparr>)"
| deliver_b: "d \<in> net_flight n \<Longrightarrow> net_step n (n\<lparr>net_b := selection_receive (net_b n) d 1\<rparr>)"
| lose: "net_step n (n\<lparr>net_flight := net_flight n - {d}\<rparr>)"
| reboot_a: "net_step n (n\<lparr>net_a := selection_boot\<rparr>)"
| reboot_b: "net_step n (n\<lparr>net_b := selection_boot\<rparr>)"

definition net_boot :: selection_net where
  "net_boot = \<lparr>net_a = selection_boot, net_b = selection_boot, net_flight = {}\<rparr>"

inductive net_reachable :: "selection_net \<Rightarrow> bool" where
  boot: "net_reachable net_boot"
| step: "net_reachable n \<Longrightarrow> net_step n n' \<Longrightarrow> net_reachable n'"

definition net_inv :: "selection_net \<Rightarrow> bool" where
  "net_inv n \<longleftrightarrow> sel_wf (net_a n) \<and> sel_wf (net_b n)
     \<and> (\<forall>d\<in>net_flight n. \<exists>s. sel_wf s \<and> d = selection_encode s)"

lemma selection_receive_wf:
  "sel_wf s \<Longrightarrow> sel_wf t \<Longrightarrow> lo \<le> 1 \<Longrightarrow> sel_wf (selection_receive s (selection_encode t) lo)"
  by (simp add: selection_receive_def selection_decode_encode selection_merge_wf)

lemma net_step_inv: "net_step n n' \<Longrightarrow> net_inv n \<Longrightarrow> net_inv n'"
  by (induction rule: net_step.induct)
     (auto simp: net_inv_def sel_boot_wf intro: selection_request_wf dest!: bspec intro!: selection_receive_wf)

lemma net_reachable_inv: "net_reachable n \<Longrightarrow> net_inv n"
proof (induction rule: net_reachable.induct)
  case boot
  show ?case by (simp add: net_inv_def net_boot_def sel_boot_wf)
next
  case (step n n')
  then show ?case by (blast intro: net_step_inv)
qed

subsection \<open>Properties\<close>

text \<open>
  The announcement format is canonical: a packet of eight bytes decodes to a state exactly
  when that state is well formed and the packet is its encoding, so every state a board can be
  in is received unchanged and nothing else is accepted.
\<close>

theorem selection_wire_format:
  "length d = 8 \<Longrightarrow> selection_decode d = Some s \<longleftrightarrow> sel_wf s \<and> selection_encode s = d"
  by (rule sel_codec.decode_iff)

theorem selection_wire_format_witness:
  "length [1, 0x81, 0x53, 0x31, 5, 0, 0, 0 :: u8] = 8
   \<and> selection_encode \<lparr>sel_counter = 5, sel_origin = 1, sel_output = 1, sel_joined = True,
        sel_joining = False, sel_pending_local = False\<rparr> = [1, 0x81, 0x53, 0x31, 5, 0, 0, 0]"
  using selection_wire_format [of "[1, 0x81, 0x53, 0x31, 5, 0, 0, 0]"
      "\<lparr>sel_counter = 5, sel_origin = 1, sel_output = 1, sel_joined = True,
        sel_joining = False, sel_pending_local = False\<rparr>"]
  by (simp add: selection_decode_def get32_def)

text \<open>
  Two joined boards agree after they have each merged the other's announcement, in either
  order of delivery, as long as their tokens are comparable (fewer than half the counter range
  apart): both end with the same counter, issuer and selected output.
\<close>

theorem selection_merge_converges:
  assumes "sel_wf a" "sel_wf b" "sel_joined a" "sel_joined b" "comparable_tokens a b"
  shows "sel_token (snd (selection_merge a b 0)) = sel_token (snd (selection_merge b a 1))"
proof -
  from assms(1-4) have "\<not> sel_joining a" "\<not> sel_joining b" by (auto simp: sel_wf_def)
  with assms(3,4) show ?thesis
    using token_newer_total [OF assms(5)] token_newer_asym [of a b] token_newer_asym [of b a]
    by (auto simp: merge_joined_token)
qed

theorem selection_merge_converges_witness:
  "sel_output (snd (selection_merge
      \<lparr>sel_counter = 0xffffffff, sel_origin = 0, sel_output = 0, sel_joined = True,
        sel_joining = False, sel_pending_local = False\<rparr>
      \<lparr>sel_counter = 2, sel_origin = 1, sel_output = 1, sel_joined = True,
        sel_joining = False, sel_pending_local = False\<rparr> 0)) = 1"
  using selection_merge_converges
    [of "\<lparr>sel_counter = 0xffffffff, sel_origin = 0, sel_output = 0, sel_joined = True,
        sel_joining = False, sel_pending_local = False\<rparr>"
      "\<lparr>sel_counter = 2, sel_origin = 1, sel_output = 1, sel_joined = True,
        sel_joining = False, sel_pending_local = False\<rparr>"]
  by (simp add: sel_wf_def comparable_tokens_def sel_token_def selection_merge_def token_newer_def
      counter_newer_def copy_token_def)

text \<open>
  C22. The start-up handshake. Two boards that have both just booted, each with or without a local
  request made before joining, exchange three announcements (A to B, B to A, A to B). Both are
  then joined and agree, and the agreed token is the newer of the two: no intent is replayed and
  no further rebase happens.
\<close>

theorem selection_handshake:
  assumes wf: "sel_wf a" "sel_wf b" and cmp: "comparable_tokens a b"
    and fresh: "\<not> sel_joined a" "\<not> sel_joining a" "\<not> sel_joined b" "\<not> sel_joining b"
    and b1: "b1 = selection_receive b (selection_encode a) 1"
    and a1: "a1 = selection_receive a (selection_encode b1) 0"
    and b2: "b2 = selection_receive b1 (selection_encode a1) 1"
  shows "sel_joined a1 \<and> sel_joined b2 \<and> sel_token a1 = sel_token b2
    \<and> sel_token b2 = (if token_newer a b then sel_token a else sel_token b)"
proof -
  have eb1: "b1 = merge_fresh b a 1"
    using fresh wf(1) by (simp add: b1 selection_receive_def selection_decode_encode selection_merge_def)
  have wb1: "sel_wf b1" unfolding b1 using wf by (simp add: selection_receive_wf)
  have ea1: "a1 = merge_fresh a b1 0"
    using fresh wb1 by (simp add: a1 selection_receive_def selection_decode_encode selection_merge_def)
  have wa1: "sel_wf a1" unfolding a1 using wf wb1 by (simp add: selection_receive_wf)
  have eb2: "b2 = snd (selection_merge b1 a1 1)"
    using wa1 by (simp add: b2 selection_receive_def selection_decode_encode)
  have t1: "sel_token b1 = (if token_newer a b then sel_token a else sel_token b)"
    and p1: "sel_joining b1" "\<not> sel_joined b1"
    using fresh by (simp_all add: eb1 merge_fresh_def sel_token_def copy_token_def)
  have t2: "sel_token a1 = (if token_newer b1 a then sel_token b1 else sel_token a)"
    and p2: "sel_joined a1" "\<not> sel_joining a1"
    using fresh p1 by (simp_all add: ea1 merge_fresh_def sel_token_def copy_token_def)
  have nb: "token_newer x y = token_newer x' y'" if "sel_token x = sel_token x'" "sel_token y = sel_token y'"
    for x y x' y'
    using that by (simp add: token_newer_def sel_token_def)
  have self: "\<not> token_newer x y" if "sel_token x = sel_token y" for x y
    using that by (simp add: token_newer_def sel_token_def counter_newer_def)
  have same: "sel_token a1 = sel_token b1"
    using t1 t2 token_newer_total [OF cmp] nb [of b1 b a a] self [of b1 a] by (auto split: if_splits)
  have b2: "sel_token b2 = sel_token b1" "sel_joined b2"
    using p1 p2 self [OF same] nb [of a1 a1 "b1\<lparr>sel_joining := False, sel_joined := True\<rparr>" b1]
    by (simp_all add: eb2 selection_merge_def sel_token_def)
  show ?thesis using p2 b2 same t1 by simp
qed

theorem selection_handshake_witness:
  "sel_output (selection_receive selection_boot
      (selection_encode (selection_request selection_boot 1 0)) 1) = 1"
proof -
  let ?a = "selection_request selection_boot 1 0"
  let ?b1 = "selection_receive selection_boot (selection_encode ?a) 1"
  let ?a1 = "selection_receive ?a (selection_encode ?b1) 0"
  have wa: "sel_wf ?a" by (rule selection_request_wf [OF sel_boot_wf]) simp_all
  have cmp: "comparable_tokens ?a selection_boot"
    by (simp add: comparable_tokens_def selection_request_def selection_boot_def)
  have "sel_token ?a1 = sel_token (selection_receive ?b1 (selection_encode ?a1) 1)"
    using selection_handshake [OF wa sel_boot_wf cmp _ _ _ _ refl refl refl]
    by (simp add: selection_request_def selection_boot_def)
  then show ?thesis
    using wa by (simp add: selection_receive_def selection_decode_encode selection_merge_def merge_fresh_def
        selection_request_def selection_boot_def token_newer_def counter_newer_def copy_token_def)
qed

text \<open>
  A board that reboots while its peer stays up rejoins the live session. Without a request of
  its own it adopts the peer's token exactly, so a reboot never switches the output; with one it
  keeps its requested output under a token that the peer will accept as newer.
\<close>

theorem selection_rejoin:
  assumes "\<not> sel_joined s" "\<not> sel_joining s" "sel_joined t"
    and "counter_newer (sel_counter t) (sel_counter s)
         \<or> unat (sel_counter s - sel_counter t) < 2 ^ 31 - 1"
    and "s' = snd (selection_merge s t lo)"
  shows "sel_joined s' \<and> (if sel_pending_local s then sel_output s' = sel_output s \<and> token_newer s' t
     else sel_token s' = sel_token t)"
proof -
  have near: "counter_newer (sel_counter s + 1) (sel_counter t)"
    if "unat (sel_counter s - sel_counter t) < 2 ^ 31 - 1"
  proof -
    have eq: "sel_counter s + 1 - sel_counter t = (sel_counter s - sel_counter t) + 1" by simp
    have "unat ((sel_counter s - sel_counter t) + 1) = unat (sel_counter s - sel_counter t) + 1"
      using that by (simp add: unat_word_ariths)
    with that show ?thesis unfolding counter_newer_unat eq by simp
  qed
  have "s' = merge_fresh s t lo" using assms by (simp add: selection_merge_def)
  then show ?thesis
    using assms(1-4) near
    by (auto simp: merge_fresh_def Let_def token_newer_def counter_newer_Suc sel_token_def copy_token_def)
qed

theorem selection_rejoin_witness:
  "sel_output (snd (selection_merge selection_boot
     \<lparr>sel_counter = 9, sel_origin = 1, sel_output = 1, sel_joined = True,
      sel_joining = False, sel_pending_local = False\<rparr> 0)) = 1"
  using selection_rejoin [of selection_boot
     "\<lparr>sel_counter = 9, sel_origin = 1, sel_output = 1, sel_joined = True,
      sel_joining = False, sel_pending_local = False\<rparr>" _ 0]
  by (simp add: selection_boot_def counter_newer_def sel_token_def)

text \<open>
  C23. Over a link that loses, repeats, delays and reorders packets, with requests on both boards
  and reboots of either at any time, every board state stays well formed and every packet in
  flight is accepted by the decoder: a valid announcement is never rejected.
\<close>

theorem selection_net_safe:
  "net_reachable n \<Longrightarrow> sel_wf (net_a n) \<and> sel_wf (net_b n)
     \<and> (\<forall>d\<in>net_flight n. length d = 8 \<and> selection_decode d \<noteq> None)"
  using net_reachable_inv [of n]
  by (auto simp: net_inv_def selection_encode_length selection_decode_encode)

theorem selection_net_safe_witness:
  "net_reachable (net_boot\<lparr>net_a := selection_request selection_boot 1 0\<rparr>)
   \<and> sel_wf (selection_request selection_boot 1 0)"
proof -
  have "net_step net_boot (net_boot\<lparr>net_a := selection_request (net_a net_boot) 1 0\<rparr>)"
    by (rule net_step.request_a) simp
  then have r: "net_reachable (net_boot\<lparr>net_a := selection_request selection_boot 1 0\<rparr>)"
    using net_reachable.step [OF net_reachable.boot] by (simp add: net_boot_def)
  then show ?thesis using selection_net_safe [OF r] by simp
qed

end
