(* ===== verification/Crc.thy ===== *)
theory Crc
  imports Prelude
begin

text \<open>
  The three checksums of the firmware.
  \<^item> \<open>crc32_lookup_table\<close>, \<open>crc32_iter\<close> and \<open>calc_crc32\<close> (constants.c, utils.c): the
    table-driven CRC-32 that protects UART frames, the stored configuration and images.
  \<^item> \<open>fw_batch_page_crc\<close> (fw_batch.c): the same polynomial computed bit by bit over a page.
  \<^item> \<open>config_packet_crc8\<close> (config\_packet.h): CRC-8/ATM over a WebHID report.
  The theory shows that the table is the bitwise CRC, that both 32-bit routines agree, and, once
  for every checksum that is injective in its state and in its byte (locale
  \<open>byte_checksum\<close>), that changing one byte of a message always changes its checksum.
\<close>

unbundle bit_operations_syntax

subsection \<open>The code\<close>

text \<open>One bit of the reflected polynomial, the inner loop body of \<open>fw_batch_page_crc\<close>.\<close>

definition crc32_bit :: "u32 \<Rightarrow> u32" where
  "crc32_bit crc = drop_bit 1 crc XOR (0xedb88320 AND (0 - (crc AND 1)))"

definition page_crc_byte :: "u32 \<Rightarrow> u8 \<Rightarrow> u32" where
  "page_crc_byte crc b = (crc32_bit ^^ 8) (crc XOR ucast b)"

definition fw_batch_page_crc :: "bytes \<Rightarrow> u32" where
  "fw_batch_page_crc page = NOT (foldl page_crc_byte 0xffffffff page)"

definition crc32_lookup_table :: "u32 list" where
  "crc32_lookup_table =
    [0x00000000, 0x77073096, 0xee0e612c, 0x990951ba, 0x076dc419, 0x706af48f, 0xe963a535, 0x9e6495a3,
     0x0edb8832, 0x79dcb8a4, 0xe0d5e91e, 0x97d2d988, 0x09b64c2b, 0x7eb17cbd, 0xe7b82d07, 0x90bf1d91,
     0x1db71064, 0x6ab020f2, 0xf3b97148, 0x84be41de, 0x1adad47d, 0x6ddde4eb, 0xf4d4b551, 0x83d385c7,
     0x136c9856, 0x646ba8c0, 0xfd62f97a, 0x8a65c9ec, 0x14015c4f, 0x63066cd9, 0xfa0f3d63, 0x8d080df5,
     0x3b6e20c8, 0x4c69105e, 0xd56041e4, 0xa2677172, 0x3c03e4d1, 0x4b04d447, 0xd20d85fd, 0xa50ab56b,
     0x35b5a8fa, 0x42b2986c, 0xdbbbc9d6, 0xacbcf940, 0x32d86ce3, 0x45df5c75, 0xdcd60dcf, 0xabd13d59,
     0x26d930ac, 0x51de003a, 0xc8d75180, 0xbfd06116, 0x21b4f4b5, 0x56b3c423, 0xcfba9599, 0xb8bda50f,
     0x2802b89e, 0x5f058808, 0xc60cd9b2, 0xb10be924, 0x2f6f7c87, 0x58684c11, 0xc1611dab, 0xb6662d3d,
     0x76dc4190, 0x01db7106, 0x98d220bc, 0xefd5102a, 0x71b18589, 0x06b6b51f, 0x9fbfe4a5, 0xe8b8d433,
     0x7807c9a2, 0x0f00f934, 0x9609a88e, 0xe10e9818, 0x7f6a0dbb, 0x086d3d2d, 0x91646c97, 0xe6635c01,
     0x6b6b51f4, 0x1c6c6162, 0x856530d8, 0xf262004e, 0x6c0695ed, 0x1b01a57b, 0x8208f4c1, 0xf50fc457,
     0x65b0d9c6, 0x12b7e950, 0x8bbeb8ea, 0xfcb9887c, 0x62dd1ddf, 0x15da2d49, 0x8cd37cf3, 0xfbd44c65,
     0x4db26158, 0x3ab551ce, 0xa3bc0074, 0xd4bb30e2, 0x4adfa541, 0x3dd895d7, 0xa4d1c46d, 0xd3d6f4fb,
     0x4369e96a, 0x346ed9fc, 0xad678846, 0xda60b8d0, 0x44042d73, 0x33031de5, 0xaa0a4c5f, 0xdd0d7cc9,
     0x5005713c, 0x270241aa, 0xbe0b1010, 0xc90c2086, 0x5768b525, 0x206f85b3, 0xb966d409, 0xce61e49f,
     0x5edef90e, 0x29d9c998, 0xb0d09822, 0xc7d7a8b4, 0x59b33d17, 0x2eb40d81, 0xb7bd5c3b, 0xc0ba6cad,
     0xedb88320, 0x9abfb3b6, 0x03b6e20c, 0x74b1d29a, 0xead54739, 0x9dd277af, 0x04db2615, 0x73dc1683,
     0xe3630b12, 0x94643b84, 0x0d6d6a3e, 0x7a6a5aa8, 0xe40ecf0b, 0x9309ff9d, 0x0a00ae27, 0x7d079eb1,
     0xf00f9344, 0x8708a3d2, 0x1e01f268, 0x6906c2fe, 0xf762575d, 0x806567cb, 0x196c3671, 0x6e6b06e7,
     0xfed41b76, 0x89d32be0, 0x10da7a5a, 0x67dd4acc, 0xf9b9df6f, 0x8ebeeff9, 0x17b7be43, 0x60b08ed5,
     0xd6d6a3e8, 0xa1d1937e, 0x38d8c2c4, 0x4fdff252, 0xd1bb67f1, 0xa6bc5767, 0x3fb506dd, 0x48b2364b,
     0xd80d2bda, 0xaf0a1b4c, 0x36034af6, 0x41047a60, 0xdf60efc3, 0xa867df55, 0x316e8eef, 0x4669be79,
     0xcb61b38c, 0xbc66831a, 0x256fd2a0, 0x5268e236, 0xcc0c7795, 0xbb0b4703, 0x220216b9, 0x5505262f,
     0xc5ba3bbe, 0xb2bd0b28, 0x2bb45a92, 0x5cb36a04, 0xc2d7ffa7, 0xb5d0cf31, 0x2cd99e8b, 0x5bdeae1d,
     0x9b64c2b0, 0xec63f226, 0x756aa39c, 0x026d930a, 0x9c0906a9, 0xeb0e363f, 0x72076785, 0x05005713,
     0x95bf4a82, 0xe2b87a14, 0x7bb12bae, 0x0cb61b38, 0x92d28e9b, 0xe5d5be0d, 0x7cdcefb7, 0x0bdbdf21,
     0x86d3d2d4, 0xf1d4e242, 0x68ddb3f8, 0x1fda836e, 0x81be16cd, 0xf6b9265b, 0x6fb077e1, 0x18b74777,
     0x88085ae6, 0xff0f6a70, 0x66063bca, 0x11010b5c, 0x8f659eff, 0xf862ae69, 0x616bffd3, 0x166ccf45,
     0xa00ae278, 0xd70dd2ee, 0x4e048354, 0x3903b3c2, 0xa7672661, 0xd06016f7, 0x4969474d, 0x3e6e77db,
     0xaed16a4a, 0xd9d65adc, 0x40df0b66, 0x37d83bf0, 0xa9bcae53, 0xdebb9ec5, 0x47b2cf7f, 0x30b5ffe9,
     0xbdbdf21c, 0xcabac28a, 0x53b39330, 0x24b4a3a6, 0xbad03605, 0xcdd70693, 0x54de5729, 0x23d967bf,
     0xb3667a2e, 0xc4614ab8, 0x5d681b02, 0x2a6f2b94, 0xb40bbe37, 0xc30c8ea1, 0x5a05df1b, 0x2d02ef8d]"

definition crc32_iter :: "u32 \<Rightarrow> u8 \<Rightarrow> u32" where
  "crc32_iter crc b =
     crc32_lookup_table ! unat ((ucast b XOR crc) AND 0xff) XOR drop_bit 8 crc"

definition calc_crc32 :: "bytes \<Rightarrow> u32" where
  "calc_crc32 s = NOT (foldl crc32_iter 0xffffffff s)"

definition crc8_bit :: "u8 \<Rightarrow> u8" where
  "crc8_bit crc = (if crc AND 0x80 \<noteq> 0 then push_bit 1 crc XOR 0x07 else push_bit 1 crc)"

definition crc8_byte :: "u8 \<Rightarrow> u8 \<Rightarrow> u8" where
  "crc8_byte crc b = (crc8_bit ^^ 8) (crc XOR b)"

definition config_packet_crc8 :: "bytes \<Rightarrow> u8" where
  "config_packet_crc8 data = foldl crc8_byte 0 data"

subsection \<open>A checksum that detects any change of one byte\<close>

text \<open>
  The interface the framing layers rely on: the checksum register is updated one byte at a
  time, and the update loses neither the register nor the byte.
\<close>

locale byte_checksum =
  fixes upd :: "'c \<Rightarrow> u8 \<Rightarrow> 'c"
  assumes upd_state_inj: "upd c b = upd c' b \<Longrightarrow> c = c'"
    and upd_byte_inj: "upd c b = upd c b' \<Longrightarrow> b = b'"
begin

lemma foldl_upd_inj: "foldl upd c xs = foldl upd c' xs \<longleftrightarrow> c = c'"
  by (induction xs arbitrary: c c') (auto dest: upd_state_inj)

lemma one_byte_detected:
  "foldl upd c (xs @ b # ys) = foldl upd c (xs @ b' # ys) \<longleftrightarrow> b = b'"
  by (auto simp: foldl_upd_inj dest: upd_byte_inj)

lemma substitution_detected:
  assumes "i < length xs"
  shows "foldl upd c (xs[i := b]) = foldl upd c xs \<longleftrightarrow> b = xs ! i"
  using one_byte_detected [of c "take i xs" b "drop (Suc i) xs" "xs ! i"] assms
  by (simp add: upd_conv_take_nth_drop id_take_nth_drop [symmetric])

end

subsection \<open>The bitwise CRC-32 is linear and injective\<close>

lemma crc32_bit_alt:
  "crc32_bit c = drop_bit 1 c XOR (if bit c 0 then 0xedb88320 else 0)"
proof (cases "bit c 0")
  case True
  then have "c AND 1 = 1"
    by (simp add: and_one_eq bit_0 odd_iff_mod_2_eq_one)
  with True show ?thesis by (simp add: crc32_bit_def)
next
  case False
  then have "c AND 1 = 0"
    by (simp add: and_one_eq bit_0 even_iff_mod_2_eq_zero)
  with False show ?thesis by (simp add: crc32_bit_def)
qed

lemma crc32_bit_xor: "crc32_bit (a XOR b) = crc32_bit a XOR crc32_bit b"
  by (simp add: crc32_bit_alt drop_bit_xor bit_xor_iff ac_simps)

lemma crc32_bits_xor: "(crc32_bit ^^ n) (a XOR b) = (crc32_bit ^^ n) a XOR (crc32_bit ^^ n) b"
  by (induction n) (simp_all add: crc32_bit_xor)

lemma xor_left_cancel: "(a :: 'a :: len word) XOR b = a XOR c \<longleftrightarrow> b = c"
  by (metis xor.assoc xor.left_neutral xor_self_eq)

lemma xor_right_cancel: "(b :: 'a :: len word) XOR a = c XOR a \<longleftrightarrow> b = c"
  by (metis xor.assoc xor.right_neutral xor_self_eq)

lemma crc32_bits_low_zero:
  "(\<And>k. k < n \<Longrightarrow> \<not> bit x k) \<Longrightarrow> (crc32_bit ^^ n) x = drop_bit n x"
proof (induction n)
  case 0
  show ?case by simp
next
  case (Suc n)
  then have "(crc32_bit ^^ n) x = drop_bit n x" and "\<not> bit x n" by simp_all
  then show ?case by (simp add: crc32_bit_alt [of "drop_bit n x"] bit_drop_bit_eq)
qed

lemma crc32_bit_inj: "crc32_bit a = crc32_bit b \<longleftrightarrow> a = b"
proof
  assume eq: "crc32_bit a = crc32_bit b"
  have top: "bit (crc32_bit c) 31 = bit c 0" for c
    by (auto simp: crc32_bit_alt bit_simps dest: bit_imp_le_length)
  from eq top [of a] top [of b] have low: "bit a 0 = bit b 0" by simp
  with eq have "drop_bit 1 a = drop_bit 1 b" by (simp only: crc32_bit_alt xor_right_cancel)
  then have "bit a (Suc n) = bit b (Suc n)" for n
    by (metis One_nat_def add.commute bit_drop_bit_eq comp_apply plus_1_eq_Suc)
  with low show "a = b" by (metis bit_eqI not0_implies_Suc)
qed simp

lemma crc32_bits_inj: "(crc32_bit ^^ n) a = (crc32_bit ^^ n) b \<longleftrightarrow> a = b"
  by (induction n) (simp_all add: crc32_bit_inj)

lemma ucast_u8_u32_back: "ucast (ucast (a :: u8) :: u32) = a"
  by (rule bit_word_eqI) (simp add: bit_simps)

lemma ucast_u8_u32_inj: "(ucast (a :: u8) :: u32) = ucast b \<longleftrightarrow> a = b"
  by (metis ucast_u8_u32_back)

interpretation page_crc: byte_checksum page_crc_byte
  by unfold_locales
    (simp_all add: page_crc_byte_def crc32_bits_inj xor_left_cancel xor_right_cancel ucast_u8_u32_inj)

subsection \<open>The lookup table is the bitwise CRC\<close>

lemma funpow8: "(f ^^ 8) x = f (f (f (f (f (f (f (f x)))))))"
  by (simp add: numeral_eq_Suc)

fun table_from :: "u32 \<Rightarrow> u32 list \<Rightarrow> bool" where
  "table_from k [] = True"
| "table_from k (t # ts) = (t = (crc32_bit ^^ 8) k \<and> table_from (k + 1) ts)"

lemma table_from_nth:
  "table_from k ts \<Longrightarrow> i < length ts \<Longrightarrow> ts ! i = (crc32_bit ^^ 8) (k + word_of_nat i)"
proof (induction ts arbitrary: k i)
  case Nil
  then show ?case by simp
next
  case (Cons t ts)
  then show ?case
    using Cons.IH [of "k + 1" "i - 1"] by (cases i) (simp_all add: add.assoc)
qed

lemma table_from_lookup: "table_from 0 crc32_lookup_table"
  by (simp add: crc32_lookup_table_def funpow8 crc32_bit_def)

lemma length_crc32_lookup_table: "length crc32_lookup_table = 256"
  by (simp add: crc32_lookup_table_def)

lemma crc32_table_nth:
  "k < 256 \<Longrightarrow> crc32_lookup_table ! k = (crc32_bit ^^ 8) (word_of_nat k)"
  using table_from_nth [OF table_from_lookup] by (simp add: length_crc32_lookup_table)

lemma unat_and_255: "unat ((w :: u32) AND 0xff) < 256"
proof -
  have "w AND 0xff \<le> 0xff" by (rule word_and_le1)
  then show ?thesis by (simp add: word_le_nat_alt)
qed

lemma mask_8: "(0xff :: u32) = mask 8"
  by (simp add: mask_eq_exp_minus_1)

lemma crc32_iter_bitwise: "crc32_iter c b = page_crc_byte c b"
proof -
  let ?x = "c XOR ucast b" and ?lo = "(ucast b XOR c) AND 0xff"
  let ?hi = "?x AND NOT (mask 8)"
  have "(crc32_bit ^^ 8) ?hi = drop_bit 8 ?hi"
    by (rule crc32_bits_low_zero) (auto simp: bit_simps)
  also have "drop_bit 8 ?hi = drop_bit 8 c"
    by (rule bit_word_eqI) (auto simp: bit_simps dest: bit_imp_le_length)
  finally have hi: "(crc32_bit ^^ 8) ?hi = drop_bit 8 c" .
  have lo: "crc32_lookup_table ! unat ?lo = (crc32_bit ^^ 8) ?lo"
    by (simp add: crc32_table_nth unat_and_255)
  have "?x = ?lo XOR ?hi"
    unfolding mask_8 by (rule bit_word_eqI) (auto simp: bit_simps)
  then have "page_crc_byte c b = (crc32_bit ^^ 8) (?lo XOR ?hi)"
    by (simp only: page_crc_byte_def)
  then show ?thesis by (simp only: crc32_iter_def crc32_bits_xor hi lo)
qed

interpretation crc32: byte_checksum crc32_iter
  by (simp add: crc32_iter_bitwise [abs_def] page_crc.byte_checksum_axioms)

subsection \<open>CRC-8\<close>

lemma crc8_bit_alt: "crc8_bit c = push_bit 1 c XOR (if bit c 7 then 0x07 else 0)"
proof -
  have "c AND 0x80 \<noteq> 0 \<longleftrightarrow> bit c 7"
    using and_exp_eq_0_iff_not_bit [of c 7] by simp
  then show ?thesis by (simp add: crc8_bit_def)
qed

lemma crc8_bit_inj: "crc8_bit a = crc8_bit b \<longleftrightarrow> a = b"
proof
  assume eq: "crc8_bit a = crc8_bit b"
  have low: "bit (crc8_bit c) 0 = bit c 7" for c
    unfolding crc8_bit_alt bit_xor_iff bit_push_bit_iff by simp
  from eq low [of a] low [of b] have top: "bit a 7 = bit b 7" by simp
  with eq have sh: "push_bit 1 a = push_bit 1 b" by (simp only: crc8_bit_alt xor_right_cancel)
  have "bit a n = bit b n" if "n < 7" for n
    using arg_cong [OF sh, of "\<lambda>w. bit w (Suc n)"] that
    unfolding bit_push_bit_iff by simp
  with top have "bit a n = bit b n" if "n < 8" for n
    using that by (cases "n = 7") auto
  then show "a = b" by (intro bit_word_eqI) simp
qed simp

lemma crc8_bits_inj: "(crc8_bit ^^ n) a = (crc8_bit ^^ n) b \<longleftrightarrow> a = b"
  by (induction n) (simp_all add: crc8_bit_inj)

interpretation crc8: byte_checksum crc8_byte
  by unfold_locales (simp_all add: crc8_byte_def crc8_bits_inj xor_left_cancel xor_right_cancel)

subsection \<open>Properties\<close>

text \<open>
  C39. The table-driven \<open>calc_crc32\<close> used for UART frames, the stored configuration and whole
  images computes, on every input, the same value as the bit-by-bit \<open>fw_batch_page_crc\<close> that
  validates a transferred page.
\<close>

theorem calc_crc32_eq_page_crc: "calc_crc32 s = fw_batch_page_crc s"
  by (simp add: calc_crc32_def fw_batch_page_crc_def crc32_iter_bitwise [abs_def])

text \<open>
  Replacing one byte of a message changes its CRC-32, whatever the message, the position and
  the new value: single-byte corruption is always detected.
\<close>

theorem calc_crc32_detects_substitution:
  assumes "i < length s"
  shows "calc_crc32 (s[i := b]) = calc_crc32 s \<longleftrightarrow> b = s ! i"
  using crc32.substitution_detected [OF assms] by (simp add: calc_crc32_def)

theorem calc_crc32_detects_substitution_witness:
  "1 < length [1, 2, 3 :: u8] \<and> calc_crc32 [1, 7, 3] \<noteq> calc_crc32 [1, 2, 3]"
  using calc_crc32_detects_substitution [of 1 "[1, 2, 3]" 7] by simp

end
