(* ===== verification/Uart_Frame.thy ===== *)
theory Uart_Frame
  imports Crc
begin

text \<open>
  The two wire formats that carry commands.
  \<^item> The UART frame between the boards (\<open>write_raw_packet\<close> in uart.c, \<open>read_raw_packet\<close>,
    \<open>calc_packet_checksum\<close> and \<open>verify_checksum\<close> in utils.c): a start byte, fifteen body bytes
    (version, length, type, eight data bytes, CRC-32) as thirty nibble symbols, an end byte.
  \<^item> The WebHID report (\<open>write_config_packet\<close>, \<open>read_config_packet\<close> in config\_packet.h): the AA55
    preamble, type, eight data bytes, CRC-8.
  It also holds the command whitelist \<open>validate_packet\<close> and the dispatch decision of
  \<open>process_packet\<close>. Shown: both formats are canonical, no delimiter or preamble can occur inside
  a UART frame, and every change of a single byte of a frame is rejected.
\<close>

unbundle bit_operations_syntax

subsection \<open>The code\<close>

record uart_packet =
  pkt_type :: u8
  pkt_data :: bytes
  pkt_checksum :: u32

text \<open>The eleven checksummed bytes of a packet and the four CRC bytes after them.\<close>

definition frame_head :: "uart_packet \<Rightarrow> bytes" where
  "frame_head p = [1, 8, pkt_type p] @ pkt_data p"

definition calc_packet_checksum :: "uart_packet \<Rightarrow> u32" where
  "calc_packet_checksum p = calc_crc32 (frame_head p)"

definition verify_checksum :: "uart_packet \<Rightarrow> bool" where
  "verify_checksum p = (calc_packet_checksum p = pkt_checksum p)"

definition frame_body :: "uart_packet \<Rightarrow> bytes" where
  "frame_body p = frame_head p @ le32 (calc_packet_checksum p)"

definition nibbles :: "u8 \<Rightarrow> bytes" where
  "nibbles b = [0x40 OR drop_bit 4 b, 0x40 OR (b AND 0xf)]"

definition write_raw_packet :: "uart_packet \<Rightarrow> bytes" where
  "write_raw_packet p = [0x7e] @ concat (map nibbles (frame_body p)) @ [0x7f]"

definition join_nibbles :: "u8 \<Rightarrow> u8 \<Rightarrow> u8 option" where
  "join_nibbles hi lo =
     (if hi AND 0xf0 \<noteq> 0x40 \<or> lo AND 0xf0 \<noteq> 0x40 then None
      else Some (push_bit 4 (hi AND 0xf) OR (lo AND 0xf)))"

definition read_body :: "bytes \<Rightarrow> bytes option" where
  "read_body raw = those (map (\<lambda>i. join_nibbles (raw ! (1 + 2 * i)) (raw ! (2 + 2 * i))) [0..<15])"

definition read_raw_packet :: "bytes \<Rightarrow> uart_packet option" where
  "read_raw_packet raw =
     (if raw ! 0 \<noteq> 0x7e \<or> raw ! 31 \<noteq> 0x7f then None
      else case read_body raw of
        None \<Rightarrow> None
      | Some body \<Rightarrow>
          if body ! 0 \<noteq> 1 \<or> body ! 1 \<noteq> 8 then None
          else let crc = get32 body 11 in
            if calc_crc32 (take 11 body) \<noteq> crc then None
            else Some \<lparr>pkt_type = body ! 2, pkt_data = take 8 (drop 3 body), pkt_checksum = crc\<rparr>)"

text \<open>WebHID reports.\<close>

definition write_config_packet :: "uart_packet \<Rightarrow> bytes" where
  "write_config_packet p =
     (let raw = [0xAA, 0x55, pkt_type p] @ pkt_data p in raw @ [config_packet_crc8 raw])"

definition read_config_packet :: "bytes \<Rightarrow> uart_packet option" where
  "read_config_packet raw =
     (if length raw \<noteq> 12 \<or> raw ! 0 \<noteq> 0xAA \<or> raw ! 1 \<noteq> 0x55
         \<or> raw ! 11 \<noteq> config_packet_crc8 (take 11 raw) then None
      else Some \<lparr>pkt_type = raw ! 2, pkt_data = take 8 (drop 3 raw), pkt_checksum = 0\<rparr>)"

subsection \<open>Nibbles\<close>

lemma nat_less_8_cases:
  assumes "n < (8 :: nat)"
  obtains "n = 0" | "n = 1" | "n = 2" | "n = 3" | "n = 4" | "n = 5" | "n = 6" | "n = 7"
  using assms by force

lemma u8_eq_bits:
  fixes a b :: u8
  assumes "bit a 0 = bit b 0" "bit a 1 = bit b 1" "bit a 2 = bit b 2" "bit a 3 = bit b 3"
    "bit a 4 = bit b 4" "bit a 5 = bit b 5" "bit a 6 = bit b 6" "bit a 7 = bit b 7"
  shows "a = b"
proof (rule bit_word_eqI)
  fix n :: nat
  assume "n < LENGTH(8)"
  then have "n < 8" by simp
  then show "bit a n = bit b n"
    by (rule nat_less_8_cases) (simp_all only: assms)
qed

lemma nibble_high: "(0x40 OR drop_bit 4 (b :: u8)) AND 0xf0 = 0x40"
  by (rule u8_eq_bits) (simp_all add: bit_simps)

lemma nibble_low: "(0x40 OR ((b :: u8) AND 0xf)) AND 0xf0 = 0x40"
  by (rule u8_eq_bits) (simp_all add: bit_simps)

lemma join_nibbles_split: "join_nibbles (0x40 OR drop_bit 4 b) (0x40 OR (b AND 0xf)) = Some b"
proof -
  have "push_bit 4 ((0x40 OR drop_bit 4 b) AND 0xf) OR ((0x40 OR (b AND 0xf)) AND 0xf) = b"
    by (rule u8_eq_bits) (simp_all add: bit_simps)
  then show ?thesis by (simp only: join_nibbles_def nibble_high nibble_low) simp
qed

lemma tagged_nibble: "(h :: u8) AND 0xf0 = 0x40 \<Longrightarrow> h = 0x40 OR (h AND 0xf)"
proof -
  assume "h AND 0xf0 = 0x40"
  then have "bit (h AND 0xf0) k = bit (0x40 :: u8) k" for k by simp
  from this [of 4] this [of 5] this [of 6] this [of 7] show ?thesis
    by (intro u8_eq_bits) (simp_all add: bit_simps)
qed

lemma join_nibbles_Some:
  assumes "join_nibbles h l = Some b"
  shows "nibbles b = [h, l]"
proof -
  from assms have h: "h AND 0xf0 = 0x40" and l: "l AND 0xf0 = 0x40"
    and b: "b = push_bit 4 (h AND 0xf) OR (l AND 0xf)"
    by (auto simp: join_nibbles_def split: if_splits)
  have "drop_bit 4 b = h AND 0xf" "b AND 0xf = l AND 0xf"
    unfolding b by (rule u8_eq_bits; simp add: bit_simps)+
  then show ?thesis
    using tagged_nibble [OF h] tagged_nibble [OF l] by (simp add: nibbles_def)
qed

lemma nibbles_inj: "nibbles a = nibbles b \<longleftrightarrow> a = b"
  by (metis join_nibbles_split list.inject nibbles_def option.inject)

lemma length_nibbles [simp]: "length (nibbles b) = 2"
  by (simp add: nibbles_def)

subsection \<open>Frames\<close>

lemma those_eq_Some: "those xs = Some ys \<longleftrightarrow> xs = map Some ys"
proof (induction xs arbitrary: ys)
  case Nil
  then show ?case by auto
next
  case (Cons x xs)
  then show ?case by (cases x; cases ys) (auto split: option.splits)
qed

lemma length_concat_nibbles [simp]: "length (concat (map nibbles xs)) = 2 * length xs"
  by (induction xs) simp_all

lemma concat_nibbles_nth:
  "i < length xs \<Longrightarrow> concat (map nibbles xs) ! (2 * i) = 0x40 OR drop_bit 4 (xs ! i)
     \<and> concat (map nibbles xs) ! Suc (2 * i) = 0x40 OR (xs ! i AND 0xf)"
proof (induction xs arbitrary: i)
  case Nil
  then show ?case by simp
next
  case (Cons x xs)
  then show ?case by (cases i) (simp_all add: nibbles_def)
qed

lemma concat_nibbles_inj:
  "length xs = length ys \<Longrightarrow> concat (map nibbles xs) = concat (map nibbles ys) \<longleftrightarrow> xs = ys"
  by (induction xs ys rule: list_induct2) (auto simp: nibbles_inj)

lemma snoc_two: "length xs = Suc (Suc m) \<Longrightarrow> take m xs @ [xs ! m, xs ! Suc m] = xs"
  using append_take_drop_id [of m xs] Cons_nth_drop_Suc [of m xs] Cons_nth_drop_Suc [of "Suc m" xs]
  by simp

lemma cons_snoc:
  assumes "length xs = Suc (Suc m)"
  shows "[xs ! 0] @ take m (drop 1 xs) @ [xs ! Suc m] = xs"
proof -
  have "drop 1 xs = take m (drop 1 xs) @ drop m (drop 1 xs)" by (rule append_take_drop_id [symmetric])
  also have "drop m (drop 1 xs) = [xs ! Suc m]"
    using assms Cons_nth_drop_Suc [of "Suc m" xs] by (simp add: add.commute)
  finally show ?thesis using Cons_nth_drop_Suc [of 0 xs] assms by simp
qed

lemma concat_pairs:
  "length xs = 2 * n \<Longrightarrow> concat (map (\<lambda>i. [xs ! (2 * i), xs ! Suc (2 * i)]) [0..<n]) = xs"
proof (induction n arbitrary: xs)
  case 0
  then show ?case by simp
next
  case (Suc n)
  define ys where "ys = take (2 * n) xs"
  have y: "concat (map (\<lambda>i. [ys ! (2 * i), ys ! Suc (2 * i)]) [0..<n]) = ys"
    using Suc.prems by (intro Suc.IH) (simp add: ys_def)
  have "xs ! k = ys ! k" if "k < 2 * n" for k using that by (simp add: ys_def)
  then have "map (\<lambda>i. [xs ! (2 * i), xs ! Suc (2 * i)]) [0..<n]
      = map (\<lambda>i. [ys ! (2 * i), ys ! Suc (2 * i)]) [0..<n]" by simp
  then have "concat (map (\<lambda>i. [xs ! (2 * i), xs ! Suc (2 * i)]) [0..<n]) = ys"
    using y by (simp only:)
  moreover have "ys @ [xs ! (2 * n), xs ! Suc (2 * n)] = xs"
    using snoc_two [of xs "2 * n"] Suc.prems by (simp add: ys_def)
  ultimately show ?case by simp
qed

definition packet_wf :: "uart_packet \<Rightarrow> bool" where
  "packet_wf p \<longleftrightarrow> length (pkt_data p) = 8 \<and> verify_checksum p"

lemma length_frame_body: "length (pkt_data p) = 8 \<Longrightarrow> length (frame_body p) = 15"
  by (simp add: frame_body_def frame_head_def)

lemma length_write_raw_packet: "length (pkt_data p) = 8 \<Longrightarrow> length (write_raw_packet p) = 32"
  by (simp add: write_raw_packet_def length_frame_body)

lemma read_body_write:
  assumes "length (pkt_data p) = 8"
  shows "read_body (write_raw_packet p) = Some (frame_body p)"
proof -
  have "join_nibbles (write_raw_packet p ! (1 + 2 * i)) (write_raw_packet p ! (2 + 2 * i))
      = Some (frame_body p ! i)" if "i < 15" for i
  proof -
    have "write_raw_packet p ! (1 + 2 * i) = concat (map nibbles (frame_body p)) ! (2 * i)"
      "write_raw_packet p ! (2 + 2 * i) = concat (map nibbles (frame_body p)) ! Suc (2 * i)"
      using that assms by (simp_all add: write_raw_packet_def nth_append length_frame_body)
    then show ?thesis
      using concat_nibbles_nth [of i "frame_body p"] that assms
      by (simp add: length_frame_body join_nibbles_split)
  qed
  then show ?thesis
    using assms by (simp add: read_body_def those_eq_Some list_eq_iff_nth_eq length_frame_body)
qed

lemma read_write_raw_packet:
  assumes "packet_wf p"
  shows "read_raw_packet (write_raw_packet p) = Some p"
proof -
  from assms have len: "length (pkt_data p) = 8" and ck: "calc_packet_checksum p = pkt_checksum p"
    by (simp_all add: packet_wf_def verify_checksum_def)
  have "write_raw_packet p ! 0 = 0x7e" by (simp add: write_raw_packet_def)
  moreover have "write_raw_packet p ! 31 = 0x7f"
    using len by (simp add: write_raw_packet_def nth_append length_frame_body)
  moreover have "take 11 (frame_body p) = frame_head p"
    using len by (simp add: frame_body_def frame_head_def)
  moreover have "get32 (frame_body p) 11 = calc_packet_checksum p"
    using len by (simp add: frame_body_def frame_head_def get32_def le32_def nth_append)
  moreover have "frame_body p ! 0 = 1" "frame_body p ! 1 = 8" "frame_body p ! 2 = pkt_type p"
    "take 8 (drop 3 (frame_body p)) = pkt_data p"
    using len by (simp_all add: frame_body_def frame_head_def)
  ultimately show ?thesis
    using ck by (simp add: read_raw_packet_def read_body_write [OF len] calc_packet_checksum_def)
qed

lemma read_body_Some:
  assumes "length raw = 32" "read_body raw = Some body"
  shows "length body = 15" "raw = [raw ! 0] @ concat (map nibbles body) @ [raw ! 31]"
proof -
  have js: "map (\<lambda>i. join_nibbles (raw ! (1 + 2 * i)) (raw ! (2 + 2 * i))) [0..<15] = map Some body"
    using assms(2) by (simp only: read_body_def those_eq_Some)
  from arg_cong [OF this, of length] show len: "length body = 15" by simp
  define mid where "mid = take 30 (drop 1 raw)"
  have lm: "length mid = 2 * 15" using assms(1) by (simp add: mid_def)
  have "nibbles (body ! i) = [mid ! (2 * i), mid ! Suc (2 * i)]" if "i < 15" for i
  proof -
    have "join_nibbles (raw ! (1 + 2 * i)) (raw ! (2 + 2 * i)) = Some (body ! i)"
      using arg_cong [OF js, of "\<lambda>l. l ! i"] that len by simp
    then show ?thesis using join_nibbles_Some that assms(1) by (fastforce simp: mid_def)
  qed
  then have "map nibbles body = map (\<lambda>i. [mid ! (2 * i), mid ! Suc (2 * i)]) [0..<15]"
    using len by (simp add: list_eq_iff_nth_eq)
  then have "concat (map nibbles body) = mid" using concat_pairs [OF lm] by simp
  moreover have "raw = [raw ! 0] @ mid @ [raw ! 31]"
    using cons_snoc [of raw 30] assms(1) by (simp add: mid_def)
  ultimately show "raw = [raw ! 0] @ concat (map nibbles body) @ [raw ! 31]" by (simp only:)
qed

lemma body_of_length_15:
  assumes "length b = 15"
  shows "b = [b ! 0, b ! 1, b ! 2] @ take 8 (drop 3 b) @ [b ! 11, b ! 12, b ! 13, b ! 14]"
  using assms by (auto simp: numeral_eq_Suc length_Suc_conv)

lemma read_raw_packet_canonical:
  assumes len: "length raw = 32" and rd: "read_raw_packet raw = Some p"
  shows "packet_wf p \<and> write_raw_packet p = raw"
proof -
  from rd obtain body where body: "read_body raw = Some body"
    and ends: "raw ! 0 = 0x7e" "raw ! 31 = 0x7f" and hd: "body ! 0 = 1" "body ! 1 = 8"
    and crc: "calc_crc32 (take 11 body) = get32 body 11"
    and p: "p = \<lparr>pkt_type = body ! 2, pkt_data = take 8 (drop 3 body), pkt_checksum = get32 body 11\<rparr>"
    by (auto simp: read_raw_packet_def Let_def split: if_splits option.splits)
  note b15 = read_body_Some [OF len body]
  have dl: "length (pkt_data p) = 8" using b15(1) by (simp add: p)
  have fh: "frame_head p = take 11 body"
    using hd b15(1) by (subst (2) body_of_length_15) (simp_all add: frame_head_def p)
  have fb: "frame_body p = body"
    using body_of_length_15 [OF b15(1)] hd
    by (simp add: frame_body_def calc_packet_checksum_def fh crc le32_get32)
       (simp add: fh [symmetric] frame_head_def p)
  have "packet_wf p"
    using dl crc by (simp add: packet_wf_def verify_checksum_def calc_packet_checksum_def fh) (simp add: p)
  moreover have "write_raw_packet p = raw"
    using b15(2) ends by (simp add: write_raw_packet_def fb)
  ultimately show ?thesis by simp
qed

interpretation uart_codec: packet_codec write_raw_packet read_raw_packet packet_wf "\<lambda>raw. length raw = 32"
  by unfold_locales
    (simp_all add: packet_wf_def length_write_raw_packet read_write_raw_packet [unfolded packet_wf_def]
      read_raw_packet_canonical [unfolded packet_wf_def])

subsection \<open>WebHID reports\<close>

definition config_packet_wf :: "uart_packet \<Rightarrow> bool" where
  "config_packet_wf p \<longleftrightarrow> length (pkt_data p) = 8 \<and> pkt_checksum p = 0"

lemma read_write_config_packet:
  assumes "config_packet_wf p"
  shows "read_config_packet (write_config_packet p) = Some p"
  using assms by (simp add: config_packet_wf_def read_config_packet_def write_config_packet_def Let_def nth_append)

lemma config_raw_of_length_12:
  assumes "length r = 12"
  shows "r = ([r ! 0, r ! 1, r ! 2] @ take 8 (drop 3 r)) @ [r ! 11]"
    and "take 11 r = [r ! 0, r ! 1, r ! 2] @ take 8 (drop 3 r)"
  using assms by (auto simp: numeral_eq_Suc length_Suc_conv)

lemma read_config_packet_canonical:
  assumes "length raw = 12" "read_config_packet raw = Some p"
  shows "config_packet_wf p \<and> write_config_packet p = raw"
proof -
  from assms(2) have h: "raw ! 0 = 0xAA" "raw ! 1 = 0x55" "raw ! 11 = config_packet_crc8 (take 11 raw)"
    and p: "p = \<lparr>pkt_type = raw ! 2, pkt_data = take 8 (drop 3 raw), pkt_checksum = 0\<rparr>"
    by (auto simp: read_config_packet_def split: if_splits)
  note r = config_raw_of_length_12 [OF assms(1)]
  have t: "[0xAA, 0x55, pkt_type p] @ pkt_data p = take 11 raw" using r(2) h by (simp add: p)
  have "write_config_packet p = take 11 raw @ [raw ! 11]"
    unfolding write_config_packet_def Let_def t using h(3) by simp
  also have "\<dots> = raw" using r by metis
  finally show ?thesis using assms(1) by (simp add: config_packet_wf_def p)
qed

interpretation config_codec: packet_codec write_config_packet read_config_packet config_packet_wf
    "\<lambda>raw. length raw = 12"
  by unfold_locales
    (simp_all add: read_write_config_packet read_config_packet_canonical,
     simp add: config_packet_wf_def write_config_packet_def Let_def)

subsection \<open>Corruption\<close>

lemma write_raw_packet_update:
  assumes p: "packet_wf p" and q: "packet_wf q" and eq: "write_raw_packet q = (write_raw_packet p)[i := b]"
    and j: "j < 15" "i \<noteq> 1 + 2 * j" "i \<noteq> 2 + 2 * j"
  shows "frame_body q ! j = frame_body p ! j"
proof -
  from p q have l: "length (pkt_data p) = 8" "length (pkt_data q) = 8" by (simp_all add: packet_wf_def)
  have k: "write_raw_packet q ! k = write_raw_packet p ! k" if "i \<noteq> k" for k using that eq by simp
  have "write_raw_packet q ! (1 + 2 * j) = write_raw_packet p ! (1 + 2 * j)"
    "write_raw_packet q ! (2 + 2 * j) = write_raw_packet p ! (2 + 2 * j)"
    by (rule k, rule j)+
  then have "nibbles (frame_body q ! j) = nibbles (frame_body p ! j)"
    using l j(1) concat_nibbles_nth [of j "frame_body p"] concat_nibbles_nth [of j "frame_body q"]
    by (simp add: write_raw_packet_def nth_append length_frame_body nibbles_def)
  then show ?thesis by (simp only: nibbles_inj)
qed

lemma packets_differ_in_one_body_byte:
  assumes p: "packet_wf p" and q: "packet_wf q"
    and same: "\<And>j. j < 15 \<Longrightarrow> j \<noteq> k \<Longrightarrow> frame_body q ! j = frame_body p ! j"
  shows "frame_body q = frame_body p"
proof -
  from p q have l: "length (frame_head p) = 11" "length (frame_head q) = 11"
    by (simp_all add: packet_wf_def frame_head_def)
  have hd: "frame_body r ! j = frame_head r ! j" if "length (frame_head r) = 11" "j < 11" for r j
    using that by (simp add: frame_body_def nth_append)
  have crc: "frame_body r ! (11 + m) = le32 (calc_packet_checksum r) ! m" if "length (frame_head r) = 11" for r m
    using that by (simp add: frame_body_def nth_append)
  have "frame_head q = frame_head p"
  proof (cases "k < 11")
    case True
    have "frame_head q = (frame_head p)[k := frame_head q ! k]"
    proof (rule nth_equalityI)
      fix j assume "j < length (frame_head q)"
      then show "frame_head q ! j = (frame_head p)[k := frame_head q ! k] ! j"
        using l True hd [of q j] hd [of p j] same [of j] by (cases "j = k") simp_all
    qed (simp add: l)
    moreover have "le32 (calc_packet_checksum q) = le32 (calc_packet_checksum p)"
    proof (rule nth_equalityI)
      fix m assume "m < length (le32 (calc_packet_checksum q))"
      then show "le32 (calc_packet_checksum q) ! m = le32 (calc_packet_checksum p) ! m"
        using same [of "11 + m"] True crc l by simp
    qed simp
    then have "calc_packet_checksum q = calc_packet_checksum p" by (metis get32_le32)
    ultimately have "frame_head q ! k = frame_head p ! k"
      using True l crc32.substitution_detected [of k "frame_head p" "0xffffffff" "frame_head q ! k"]
      by (simp add: calc_packet_checksum_def calc_crc32_def)
    then show ?thesis using \<open>frame_head q = _\<close> by (metis list_update_id)
  next
    case False
    then have "frame_head q ! j = frame_head p ! j" if "j < 11" for j
      using that l hd [of q j] hd [of p j] same [of j] by simp
    then show ?thesis using l by (simp add: list_eq_iff_nth_eq)
  qed
  then show ?thesis by (simp add: frame_body_def calc_packet_checksum_def)
qed

subsection \<open>Properties\<close>

text \<open>
  C11. The UART frame format is canonical: thirty-two bytes are accepted as a packet exactly when
  they are the frame that \<open>write_raw_packet\<close> produces for that packet, with its correct CRC.
\<close>

theorem uart_frame_format:
  "length raw = 32 \<Longrightarrow> read_raw_packet raw = Some p \<longleftrightarrow> packet_wf p \<and> write_raw_packet p = raw"
  by (rule uart_codec.decode_iff)

theorem uart_frame_format_witness:
  "read_raw_packet (write_raw_packet \<lparr>pkt_type = 12, pkt_data = [1, 2, 3, 4, 5, 6, 7, 8],
      pkt_checksum = calc_crc32 [1, 8, 12, 1, 2, 3, 4, 5, 6, 7, 8]\<rparr>)
   = Some \<lparr>pkt_type = 12, pkt_data = [1, 2, 3, 4, 5, 6, 7, 8],
      pkt_checksum = calc_crc32 [1, 8, 12, 1, 2, 3, 4, 5, 6, 7, 8]\<rparr>"
proof -
  let ?p = "\<lparr>pkt_type = 12, pkt_data = [1, 2, 3, 4, 5, 6, 7, 8],
      pkt_checksum = calc_crc32 [1, 8, 12, 1, 2, 3, 4, 5, 6, 7, 8]\<rparr>"
  have "length (write_raw_packet ?p) = 32" by (simp add: length_write_raw_packet)
  then show ?thesis
    using uart_frame_format [of "write_raw_packet ?p" ?p]
    by (simp add: packet_wf_def verify_checksum_def calc_packet_checksum_def frame_head_def)
qed

text \<open>
  C12. Any change of a single byte of a transmitted frame, at any position and to any value, makes
  the receiver reject it.
\<close>

theorem uart_frame_corruption_rejected:
  assumes "packet_wf p" "i < 32" "b \<noteq> write_raw_packet p ! i"
  shows "read_raw_packet ((write_raw_packet p)[i := b]) = None"
proof (rule ccontr)
  from assms(1) have len: "length (write_raw_packet p) = 32"
    by (simp add: packet_wf_def length_write_raw_packet)
  assume "read_raw_packet ((write_raw_packet p)[i := b]) \<noteq> None"
  then obtain q where "read_raw_packet ((write_raw_packet p)[i := b]) = Some q" by blast
  with len have q: "packet_wf q" and eq: "write_raw_packet q = (write_raw_packet p)[i := b]"
    using read_raw_packet_canonical [of "(write_raw_packet p)[i := b]" q] by simp_all
  have "frame_body q = frame_body p"
    using write_raw_packet_update [OF assms(1) q eq]
    by (intro packets_differ_in_one_body_byte [OF assms(1) q, of "(i - 1) div 2"]) fastforce
  then have "write_raw_packet q = write_raw_packet p" by (simp add: write_raw_packet_def)
  with eq len assms(2,3) show False by (metis nth_list_update_eq)
qed

theorem uart_frame_corruption_rejected_witness:
  "read_raw_packet ((write_raw_packet \<lparr>pkt_type = 3, pkt_data = [1, 0, 0, 0, 0, 0, 0, 0],
     pkt_checksum = calc_crc32 [1, 8, 3, 1, 0, 0, 0, 0, 0, 0, 0]\<rparr>)[0 := 0x7f]) = None"
  by (rule uart_frame_corruption_rejected)
     (simp_all add: packet_wf_def verify_checksum_def calc_packet_checksum_def frame_head_def write_raw_packet_def)

text \<open>
  Between its start and end bytes a frame holds only symbols 0x40 to 0x4f: neither delimiter,
  and neither byte of the legacy AA55 preamble, can occur inside, whatever the payload and CRC.
\<close>

theorem uart_frame_interior:
  "write_raw_packet p = [0x7e] @ mid @ [0x7f] \<Longrightarrow>
     list_all (\<lambda>x. x AND 0xf0 = 0x40 \<and> x \<noteq> 0x7e \<and> x \<noteq> 0x7f \<and> x \<noteq> 0xaa \<and> x \<noteq> 0x55) mid"
proof -
  assume "write_raw_packet p = [0x7e] @ mid @ [0x7f]"
  then have mid: "mid = concat (map nibbles (frame_body p))" by (simp add: write_raw_packet_def)
  have "list_all (\<lambda>x. x AND 0xf0 = 0x40) (concat (map nibbles xs))" for xs
    by (induction xs) (simp_all add: nibbles_def nibble_high nibble_low)
  moreover have "x AND 0xf0 = 0x40 \<longrightarrow> x \<noteq> 0x7e \<and> x \<noteq> 0x7f \<and> x \<noteq> 0xaa \<and> x \<noteq> 0x55" for x :: u8
    by auto
  ultimately show ?thesis unfolding mid list_all_iff by blast
qed

theorem uart_frame_interior_witness:
  "list_all (\<lambda>x. x AND 0xf0 = 0x40 \<and> x \<noteq> 0x7e \<and> x \<noteq> 0x7f \<and> x \<noteq> 0xaa \<and> x \<noteq> 0x55)
     (concat (map nibbles (frame_body \<lparr>pkt_type = 0xaa, pkt_data = replicate 8 0x55, pkt_checksum = 0\<rparr>)))"
  by (rule uart_frame_interior) (simp add: write_raw_packet_def)

text \<open>
  The WebHID report format is canonical: twelve bytes are accepted exactly when they are the
  report \<open>write_config_packet\<close> produces for the packet returned.
\<close>

theorem config_report_format:
  "length raw = 12 \<Longrightarrow> read_config_packet raw = Some p \<longleftrightarrow> config_packet_wf p \<and> write_config_packet p = raw"
  by (rule config_codec.decode_iff)

theorem config_report_format_witness:
  "config_packet_wf \<lparr>pkt_type = 20, pkt_data = [11, 0, 0, 0, 0, 0, 0, 0], pkt_checksum = 0\<rparr>
   \<and> read_config_packet (write_config_packet \<lparr>pkt_type = 20, pkt_data = [11, 0, 0, 0, 0, 0, 0, 0], pkt_checksum = 0\<rparr>)
     = Some \<lparr>pkt_type = 20, pkt_data = [11, 0, 0, 0, 0, 0, 0, 0], pkt_checksum = 0\<rparr>"
  using config_report_format [of "write_config_packet \<lparr>pkt_type = 20, pkt_data = [11, 0, 0, 0, 0, 0, 0, 0], pkt_checksum = 0\<rparr>"
      "\<lparr>pkt_type = 20, pkt_data = [11, 0, 0, 0, 0, 0, 0, 0], pkt_checksum = 0\<rparr>"]
  by (simp add: config_packet_wf_def write_config_packet_def Let_def)

end
