(* ===== verification/Queue.thy ===== *)
theory Queue
  imports Prelude
begin

text \<open>
  The SDK's inter-core queue (pico-sdk, pico\_util/queue.c) as the firmware uses it: a ring of
  \<open>element_count + 1\<close> slots with a read and a write index; the spin lock makes each operation
  atomic, so an operation is one step on the record. The interface \<open>bounded_fifo\<close> is what the
  rest of the firmware relies on: the queue is a list of at most \<open>element_count\<close> items, \<open>try_add\<close>
  appends or reports that it is full and changes nothing, \<open>try_remove\<close> takes the oldest item.
\<close>

subsection \<open>The code\<close>

record 'a queue =
  q_data :: "'a list"
  q_element_count :: nat
  q_wptr :: nat
  q_rptr :: nat

definition queue_init :: "'a \<Rightarrow> nat \<Rightarrow> 'a queue" where
  "queue_init zero n = \<lparr>q_data = replicate (n + 1) zero, q_element_count = n, q_wptr = 0, q_rptr = 0\<rparr>"

definition queue_get_level :: "'a queue \<Rightarrow> nat" where
  "queue_get_level q =
     (if q_rptr q \<le> q_wptr q then q_wptr q - q_rptr q
      else q_wptr q + (q_element_count q + 1) - q_rptr q)"

definition inc_index :: "'a queue \<Rightarrow> nat \<Rightarrow> nat" where
  "inc_index q index = (if index + 1 > q_element_count q then 0 else index + 1)"

definition queue_try_add :: "'a queue \<Rightarrow> 'a \<Rightarrow> bool \<times> 'a queue" where
  "queue_try_add q x =
     (if queue_get_level q \<noteq> q_element_count q
      then (True, q\<lparr>q_data := (q_data q)[q_wptr q := x], q_wptr := inc_index q (q_wptr q)\<rparr>)
      else (False, q))"

definition queue_try_peek :: "'a queue \<Rightarrow> 'a option" where
  "queue_try_peek q = (if queue_get_level q \<noteq> 0 then Some (q_data q ! q_rptr q) else None)"

definition queue_try_remove :: "'a queue \<Rightarrow> 'a option \<times> 'a queue" where
  "queue_try_remove q =
     (if queue_get_level q \<noteq> 0
      then (Some (q_data q ! q_rptr q), q\<lparr>q_rptr := inc_index q (q_rptr q)\<rparr>)
      else (None, q))"

definition queue_is_empty :: "'a queue \<Rightarrow> bool" where
  "queue_is_empty q = (queue_get_level q = 0)"

subsection \<open>The interface\<close>

text \<open>Adding a sequence of items, and draining the queue, for any implementation of the two
  operations.\<close>

primrec add_all :: "('q \<Rightarrow> 'a \<Rightarrow> bool \<times> 'q) \<Rightarrow> 'q \<Rightarrow> 'a list \<Rightarrow> 'q" where
  "add_all try_add q [] = q"
| "add_all try_add q (x # xs) = add_all try_add (snd (try_add q x)) xs"

primrec drain :: "('q \<Rightarrow> 'a option \<times> 'q) \<Rightarrow> nat \<Rightarrow> 'q \<Rightarrow> 'a list \<times> 'q" where
  "drain try_remove 0 q = ([], q)"
| "drain try_remove (Suc n) q =
     (case try_remove q of (None, q') \<Rightarrow> ([], q')
      | (Some x, q') \<Rightarrow> (case drain try_remove n q' of (ys, q'') \<Rightarrow> (x # ys, q'')))"

locale bounded_fifo =
  fixes items :: "'q \<Rightarrow> 'a list"
    and capacity :: "'q \<Rightarrow> nat"
    and ok :: "'q \<Rightarrow> bool"
    and try_add :: "'q \<Rightarrow> 'a \<Rightarrow> bool \<times> 'q"
    and try_remove :: "'q \<Rightarrow> 'a option \<times> 'q"
  assumes within_capacity: "ok q \<Longrightarrow> length (items q) \<le> capacity q"
    and add_room: "ok q \<Longrightarrow> length (items q) < capacity q \<Longrightarrow>
      \<exists>q'. try_add q x = (True, q') \<and> ok q' \<and> items q' = items q @ [x] \<and> capacity q' = capacity q"
    and add_full: "ok q \<Longrightarrow> length (items q) = capacity q \<Longrightarrow> try_add q x = (False, q)"
    and remove_empty: "ok q \<Longrightarrow> items q = [] \<Longrightarrow> try_remove q = (None, q)"
    and remove_first: "ok q \<Longrightarrow> items q = x # xs \<Longrightarrow>
      \<exists>q'. try_remove q = (Some x, q') \<and> ok q' \<and> items q' = xs \<and> capacity q' = capacity q"
begin

lemma add_items:
  assumes "ok q"
  shows "ok (snd (try_add q x)) \<and> capacity (snd (try_add q x)) = capacity q
    \<and> items (snd (try_add q x)) = take (capacity q) (items q @ [x])
    \<and> fst (try_add q x) = (length (items q) < capacity q)"
proof (cases "length (items q) < capacity q")
  case True
  with add_room [OF assms True, of x] show ?thesis by auto
next
  case False
  with within_capacity [OF assms] have "length (items q) = capacity q" by simp
  then show ?thesis using add_full [OF assms] assms by simp
qed

lemma add_all_items:
  "ok q \<Longrightarrow> ok (add_all try_add q xs) \<and> capacity (add_all try_add q xs) = capacity q
     \<and> items (add_all try_add q xs) = take (capacity q) (items q @ xs)"
proof (induction xs arbitrary: q)
  case Nil
  then show ?case using within_capacity by simp
next
  case (Cons x xs)
  from add_items [OF Cons.prems, of x] Cons.IH [of "snd (try_add q x)"] show ?case
    by (simp only: add_all.simps take_take_append append_assoc append.simps simp_thms)
qed

lemma drain_items:
  "ok q \<Longrightarrow> drain try_remove n q = (ys, q') \<Longrightarrow> ys = take n (items q) \<and> items q' = drop n (items q) \<and> ok q'"
proof (induction n arbitrary: q ys q')
  case 0
  then show ?case by simp
next
  case (Suc n)
  show ?case
  proof (cases "items q")
    case Nil
    with Suc.prems show ?thesis by (auto simp: remove_empty)
  next
    case (Cons x xs)
    with remove_first [OF Suc.prems(1)] obtain q1 where
      "try_remove q = (Some x, q1)" "ok q1" "items q1 = xs" by blast
    with Suc Cons show ?thesis by (fastforce split: prod.splits)
  qed
qed

lemma fifo:
  assumes "ok q" "items q = []" "length xs \<le> capacity q" "drain try_remove (length xs) (add_all try_add q xs) = (ys, q')"
  shows "ys = xs \<and> items q' = []"
  using assms add_all_items [OF assms(1), of xs] drain_items [OF _ assms(4)] by simp

end

subsection \<open>The ring implements the interface\<close>

definition queue_items :: "'a queue \<Rightarrow> 'a list" where
  "queue_items q = map (\<lambda>i. q_data q ! ((q_rptr q + i) mod (q_element_count q + 1))) [0..<queue_get_level q]"

definition queue_ok :: "'a queue \<Rightarrow> bool" where
  "queue_ok q \<longleftrightarrow> length (q_data q) = q_element_count q + 1
     \<and> q_wptr q \<le> q_element_count q \<and> q_rptr q \<le> q_element_count q"

lemma queue_level_bound: "queue_ok q \<Longrightarrow> queue_get_level q \<le> q_element_count q"
  by (auto simp: queue_ok_def queue_get_level_def)

lemma length_queue_items [simp]: "length (queue_items q) = queue_get_level q"
  by (simp add: queue_items_def)

lemma queue_init_ok: "queue_ok (queue_init z n)" "queue_items (queue_init z n) = []"
  by (simp_all add: queue_init_def queue_ok_def queue_items_def queue_get_level_def)

lemma queue_wptr: "queue_ok q \<Longrightarrow> (q_rptr q + queue_get_level q) mod (q_element_count q + 1) = q_wptr q"
  using mod_wrap [of "q_wptr q" "q_element_count q"] by (auto simp: queue_ok_def queue_get_level_def)

lemma level_after_add:
  "queue_ok q \<Longrightarrow> queue_get_level q \<noteq> q_element_count q \<Longrightarrow>
     queue_get_level (snd (queue_try_add q x)) = Suc (queue_get_level q)"
  by (auto simp: queue_ok_def queue_get_level_def queue_try_add_def inc_index_def split: if_splits)

lemma queue_add_items:
  assumes ok: "queue_ok q" and room: "queue_get_level q < q_element_count q"
  shows "queue_items (snd (queue_try_add q x)) = queue_items q @ [x]"
proof -
  let ?N = "q_element_count q + 1" and ?l = "queue_get_level q"
  let ?q = "snd (queue_try_add q x)"
  have q: "q_data ?q = (q_data q)[q_wptr q := x]" "q_rptr ?q = q_rptr q" "q_element_count ?q = q_element_count q"
    using room by (simp_all add: queue_try_add_def)
  have lev: "queue_get_level ?q = Suc ?l" using level_after_add [OF ok] room by simp
  have w: "(q_rptr q + ?l) mod ?N = q_wptr q" by (rule queue_wptr [OF ok])
  have "(q_rptr q + i) mod ?N \<noteq> q_wptr q" if "i < ?l" for i
    using ring_index_inj [of i ?N ?l "q_rptr q"] that room w by auto
  then have "map (\<lambda>i. (q_data q)[q_wptr q := x] ! ((q_rptr q + i) mod ?N)) [0..<?l] = queue_items q"
    unfolding queue_items_def by (intro map_cong) (metis nth_list_update_neq set_upt atLeastLessThan_iff)+
  moreover have "q_wptr q < length (q_data q)" using ok by (simp add: queue_ok_def)
  ultimately show ?thesis using w by (simp add: queue_items_def [of ?q] lev q)
qed


lemma queue_remove_items:
  assumes ok: "queue_ok q" and ne: "queue_get_level q \<noteq> 0"
  shows "queue_items q = q_data q ! q_rptr q # queue_items (snd (queue_try_remove q))"
proof -
  let ?N = "q_element_count q + 1" and ?l = "queue_get_level q"
  let ?q = "snd (queue_try_remove q)"
  have q: "q_data ?q = q_data q" "q_rptr ?q = inc_index q (q_rptr q)" "q_element_count ?q = q_element_count q"
    using ne by (simp_all add: queue_try_remove_def)
  have r: "inc_index q (q_rptr q) = (q_rptr q + 1) mod ?N" "q_rptr q mod ?N = q_rptr q"
    using ok by (auto simp: queue_ok_def inc_index_def le_less)
  have lev: "?l = Suc (queue_get_level ?q)"
    using ok ne by (auto simp: queue_ok_def queue_get_level_def queue_try_remove_def inc_index_def split: if_splits)
  have "map (\<lambda>i. q_data q ! ((inc_index q (q_rptr q) + i) mod ?N)) [0..<queue_get_level ?q]
      = map (\<lambda>i. q_data q ! ((q_rptr q + Suc i) mod ?N)) [0..<queue_get_level ?q]"
    unfolding r by (simp add: mod_simps)
  then show ?thesis
    unfolding queue_items_def [of ?q] queue_items_def [of q] q lev upt_conv_Cons [OF zero_less_Suc]
    using r(2) by (simp add: map_Suc_upt [symmetric] o_def del: upt_Suc)
qed

lemma queue_add_ok: "queue_ok q \<Longrightarrow> queue_ok (snd (queue_try_add q x))"
  by (auto simp: queue_ok_def queue_try_add_def inc_index_def)

lemma queue_remove_ok: "queue_ok q \<Longrightarrow> queue_ok (snd (queue_try_remove q))"
  by (auto simp: queue_ok_def queue_try_remove_def inc_index_def)

interpretation pico_queue: bounded_fifo queue_items q_element_count queue_ok queue_try_add queue_try_remove
proof unfold_locales
  fix q :: "'a queue" and x :: 'a and xs :: "'a list"
  assume ok: "queue_ok q"
  show "length (queue_items q) \<le> q_element_count q" using queue_level_bound [OF ok] by simp
  show "length (queue_items q) = q_element_count q \<Longrightarrow> queue_try_add q x = (False, q)"
    by (simp add: queue_try_add_def)
  show "queue_items q = [] \<Longrightarrow> queue_try_remove q = (None, q)"
    using length_queue_items [of q] by (simp add: queue_try_remove_def)
  show "\<exists>q'. queue_try_add q x = (True, q') \<and> queue_ok q' \<and> queue_items q' = queue_items q @ [x]
      \<and> q_element_count q' = q_element_count q" if "length (queue_items q) < q_element_count q"
    using that queue_add_items [OF ok] queue_add_ok [OF ok, of x] by (simp add: queue_try_add_def)
  show "\<exists>q'. queue_try_remove q = (Some x, q') \<and> queue_ok q' \<and> queue_items q' = xs
      \<and> q_element_count q' = q_element_count q" if "queue_items q = x # xs"
  proof -
    from that length_queue_items [of q] have ne: "queue_get_level q \<noteq> 0" by auto
    with that queue_remove_items [OF ok ne] queue_remove_ok [OF ok] show ?thesis
      by (simp add: queue_try_remove_def)
  qed
qed

lemma queue_peek_first:
  "queue_ok q \<Longrightarrow> queue_try_peek q = (case queue_items q of [] \<Rightarrow> None | x # _ \<Rightarrow> Some x)"
  using queue_remove_items [of q] length_queue_items [of q]
  by (cases "queue_items q") (auto simp: queue_try_peek_def)

subsection \<open>Property\<close>

text \<open>
  The ring is a bounded first-in first-out queue: a sequence of items no longer than the
  capacity, added to an empty queue at any read position, is taken out unchanged and in order.
\<close>

theorem queue_fifo_order:
  assumes "queue_ok q" "queue_items q = []" "length xs \<le> q_element_count q"
  shows "fst (drain queue_try_remove (length xs) (add_all queue_try_add q xs)) = xs"
  using pico_queue.fifo [OF assms] by (metis prod.collapse)

theorem queue_fifo_order_witness:
  "queue_ok (queue_init (0 :: nat) 3) \<and>
   fst (drain queue_try_remove 2 (add_all queue_try_add (queue_init (0 :: nat) 3) [7, 8])) = [7, 8]"
  using queue_fifo_order [of "queue_init (0 :: nat) 3" "[7, 8]"] queue_init_ok [of "0 :: nat" 3]
  by (simp add: queue_init_def numeral_2_eq_2)

end
