(* ===== verification/Protocol.thy ===== *)
theory Protocol
  imports Uart_Frame Queue
begin

text \<open>
  Commands between the boards: the packet types of protocol.h, the transmit queue entry points of
  uart.c, the configuration whitelist \<open>validate_packet\<close> of utils.c, and the dispatch table and
  admission checks of \<open>process_packet\<close> in uart.c. The handlers themselves are named by the
  constructors of \<open>handler\<close>; the components that model them say what each does.
\<close>

subsection \<open>Packet types (protocol.h)\<close>

abbreviation KEYBOARD_REPORT_MSG :: u8 where "KEYBOARD_REPORT_MSG \<equiv> 1"
abbreviation MOUSE_REPORT_MSG :: u8 where "MOUSE_REPORT_MSG \<equiv> 2"
abbreviation OUTPUT_SELECT_MSG :: u8 where "OUTPUT_SELECT_MSG \<equiv> 3"
abbreviation FIRMWARE_UPGRADE_MSG :: u8 where "FIRMWARE_UPGRADE_MSG \<equiv> 4"
abbreviation MOUSE_ZOOM_MSG :: u8 where "MOUSE_ZOOM_MSG \<equiv> 5"
abbreviation KBD_SET_REPORT_MSG :: u8 where "KBD_SET_REPORT_MSG \<equiv> 6"
abbreviation SWITCH_LOCK_MSG :: u8 where "SWITCH_LOCK_MSG \<equiv> 7"
abbreviation SYNC_BORDERS_MSG :: u8 where "SYNC_BORDERS_MSG \<equiv> 8"
abbreviation FLASH_LED_MSG :: u8 where "FLASH_LED_MSG \<equiv> 9"
abbreviation WIPE_CONFIG_MSG :: u8 where "WIPE_CONFIG_MSG \<equiv> 10"
abbreviation SCREENSAVER_MSG :: u8 where "SCREENSAVER_MSG \<equiv> 11"
abbreviation HEARTBEAT_MSG :: u8 where "HEARTBEAT_MSG \<equiv> 12"
abbreviation GAMING_MODE_MSG :: u8 where "GAMING_MODE_MSG \<equiv> 13"
abbreviation CONSUMER_CONTROL_MSG :: u8 where "CONSUMER_CONTROL_MSG \<equiv> 14"
abbreviation SYSTEM_CONTROL_MSG :: u8 where "SYSTEM_CONTROL_MSG \<equiv> 15"
abbreviation SAVE_CONFIG_MSG :: u8 where "SAVE_CONFIG_MSG \<equiv> 18"
abbreviation REBOOT_MSG :: u8 where "REBOOT_MSG \<equiv> 19"
abbreviation GET_VAL_MSG :: u8 where "GET_VAL_MSG \<equiv> 20"
abbreviation SET_VAL_MSG :: u8 where "SET_VAL_MSG \<equiv> 21"
abbreviation GET_ALL_VALS_MSG :: u8 where "GET_ALL_VALS_MSG \<equiv> 22"
abbreviation PROXY_PACKET_MSG :: u8 where "PROXY_PACKET_MSG \<equiv> 23"
abbreviation REQUEST_BYTE_MSG :: u8 where "REQUEST_BYTE_MSG \<equiv> 24"
abbreviation RESPONSE_BYTE_MSG :: u8 where "RESPONSE_BYTE_MSG \<equiv> 25"
abbreviation POINTER_SYNC_MSG :: u8 where "POINTER_SYNC_MSG \<equiv> 26"
abbreviation MOUSE_NONMOTION_MSG :: u8 where "MOUSE_NONMOTION_MSG \<equiv> 27"
abbreviation MODIFIER_STATE_MSG :: u8 where "MODIFIER_STATE_MSG \<equiv> 28"
abbreviation ZOOM_ASSIST_MSG :: u8 where "ZOOM_ASSIST_MSG \<equiv> 29"
abbreviation ZOOM_ASSIST_CLEAR_MSG :: u8 where "ZOOM_ASSIST_CLEAR_MSG \<equiv> 30"
abbreviation ACTIVITY_MSG :: u8 where "ACTIVITY_MSG \<equiv> 31"
abbreviation OUTPUT_SELECT_SYNC_MSG :: u8 where "OUTPUT_SELECT_SYNC_MSG \<equiv> 32"
abbreviation MOUSE_BUTTONS_SYNC_MSG :: u8 where "MOUSE_BUTTONS_SYNC_MSG \<equiv> 33"
abbreviation MOUSE_SOURCE_REPORT_MSG :: u8 where "MOUSE_SOURCE_REPORT_MSG \<equiv> 34"
abbreviation MOUSE_SYNTHETIC_REPORT_MSG :: u8 where "MOUSE_SYNTHETIC_REPORT_MSG \<equiv> 35"
abbreviation DIAGNOSTIC_STATUS_REQUEST_MSG :: u8 where "DIAGNOSTIC_STATUS_REQUEST_MSG \<equiv> 36"
abbreviation DIAGNOSTIC_STATUS_RESPONSE_MSG :: u8 where "DIAGNOSTIC_STATUS_RESPONSE_MSG \<equiv> 37"
abbreviation DIAGNOSTIC_HISTORY_REQUEST_MSG :: u8 where "DIAGNOSTIC_HISTORY_REQUEST_MSG \<equiv> 38"
abbreviation DIAGNOSTIC_HISTORY_RESPONSE_MSG :: u8 where "DIAGNOSTIC_HISTORY_RESPONSE_MSG \<equiv> 39"
abbreviation DIAGNOSTIC_VERIFY_REQUEST_MSG :: u8 where "DIAGNOSTIC_VERIFY_REQUEST_MSG \<equiv> 40"
abbreviation DIAGNOSTIC_VERIFY_RESPONSE_MSG :: u8 where "DIAGNOSTIC_VERIFY_RESPONSE_MSG \<equiv> 41"
abbreviation KEYBOARD_STATE_REQUEST_MSG :: u8 where "KEYBOARD_STATE_REQUEST_MSG \<equiv> 42"
abbreviation KEYBOARD_STATE_0_MSG :: u8 where "KEYBOARD_STATE_0_MSG \<equiv> 43"
abbreviation KEYBOARD_STATE_1_MSG :: u8 where "KEYBOARD_STATE_1_MSG \<equiv> 44"
abbreviation KEYBOARD_STATE_2_MSG :: u8 where "KEYBOARD_STATE_2_MSG \<equiv> 45"
abbreviation KEYBOARD_STATE_3_MSG :: u8 where "KEYBOARD_STATE_3_MSG \<equiv> 46"
abbreviation KEYBOARD_STATE_4_MSG :: u8 where "KEYBOARD_STATE_4_MSG \<equiv> 47"
abbreviation KEYBOARD_STATE_RESET_MSG :: u8 where "KEYBOARD_STATE_RESET_MSG \<equiv> 48"
abbreviation MAINTENANCE_BOOTLOADER_REQUEST_MSG :: u8 where "MAINTENANCE_BOOTLOADER_REQUEST_MSG \<equiv> 49"
abbreviation MAINTENANCE_BOOTLOADER_ACK_MSG :: u8 where "MAINTENANCE_BOOTLOADER_ACK_MSG \<equiv> 50"
abbreviation FW_BATCH_CAPS_REQUEST_MSG :: u8 where "FW_BATCH_CAPS_REQUEST_MSG \<equiv> 51"
abbreviation FW_BATCH_CAPS_RESPONSE_MSG :: u8 where "FW_BATCH_CAPS_RESPONSE_MSG \<equiv> 52"
abbreviation FW_BATCH_PAGE_REQUEST_MSG :: u8 where "FW_BATCH_PAGE_REQUEST_MSG \<equiv> 53"
abbreviation FW_BATCH_PAGE_DATA_MSG :: u8 where "FW_BATCH_PAGE_DATA_MSG \<equiv> 54"
abbreviation FW_BATCH_PAGE_END_MSG :: u8 where "FW_BATCH_PAGE_END_MSG \<equiv> 55"
abbreviation CONFIG_CONFIRM_META_MSG :: u8 where "CONFIG_CONFIRM_META_MSG \<equiv> 56"
abbreviation CONFIG_CONFIRM_LO_MSG :: u8 where "CONFIG_CONFIRM_LO_MSG \<equiv> 57"
abbreviation CONFIG_CONFIRM_HI_MSG :: u8 where "CONFIG_CONFIRM_HI_MSG \<equiv> 58"
abbreviation CONFIG_CONFIRM_EXEC_MSG :: u8 where "CONFIG_CONFIRM_EXEC_MSG \<equiv> 59"
abbreviation CONFIG_CONFIRM_ACK_META_MSG :: u8 where "CONFIG_CONFIRM_ACK_META_MSG \<equiv> 60"
abbreviation CONFIG_CONFIRM_ACK_VALUE_MSG :: u8 where "CONFIG_CONFIRM_ACK_VALUE_MSG \<equiv> 61"
abbreviation CLIPBOARD_MSG :: u8 where "CLIPBOARD_MSG \<equiv> 62"

subsection \<open>Dispatch\<close>

datatype handler =
    H_handle_clipboard
  | H_keyboard_sync_receive
  | H_handle_keyboard_uart_msg
  | H_handle_mouse_abs_uart_msg
  | H_handle_mouse_source_uart_msg
  | H_handle_mouse_synthetic_uart_msg
  | H_handle_mouse_buttons_sync_msg
  | H_handle_mouse_nonmotion_uart_msg
  | H_handle_output_select_msg
  | H_handle_output_select_sync_msg
  | H_handle_pointer_sync_msg
  | H_handle_modifier_state_msg
  | H_handle_zoom_assist_msg
  | H_handle_zoom_assist_clear_msg
  | H_handle_activity_msg
  | H_handle_mouse_zoom_msg
  | H_handle_set_report_msg
  | H_handle_switch_lock_msg
  | H_handle_sync_borders_msg
  | H_handle_flash_led_msg
  | H_handle_toggle_gaming_msg
  | H_handle_consumer_control_msg
  | H_handle_system_control_msg
  | H_handle_screensaver_msg
  | H_handle_wipe_config_msg
  | H_handle_save_config_msg
  | H_handle_reboot_msg
  | H_handle_api_msgs
  | H_handle_api_read_all_msg
  | H_handle_config_confirm_msg
  | H_handle_request_byte_msg
  | H_handle_response_byte_msg
  | H_firmware_batch_packet
  | H_handle_diagnostic_request
  | H_handle_diagnostic_response
  | H_handle_history_request
  | H_handle_history_response
  | H_handle_verify_request
  | H_handle_verify_response
  | H_handle_fw_upgrade_msg
  | H_handle_maintenance
  | H_handle_heartbeat_msg
  | H_handle_proxy_msg

definition uart_handler :: "(u8 \<times> handler) list" where
  "uart_handler =
    [(CLIPBOARD_MSG, H_handle_clipboard),
     (KEYBOARD_STATE_RESET_MSG, H_keyboard_sync_receive),
     (KEYBOARD_STATE_REQUEST_MSG, H_keyboard_sync_receive),
     (KEYBOARD_STATE_0_MSG, H_keyboard_sync_receive),
     (KEYBOARD_STATE_1_MSG, H_keyboard_sync_receive),
     (KEYBOARD_STATE_2_MSG, H_keyboard_sync_receive),
     (KEYBOARD_STATE_3_MSG, H_keyboard_sync_receive),
     (KEYBOARD_STATE_4_MSG, H_keyboard_sync_receive),
     (KEYBOARD_REPORT_MSG, H_handle_keyboard_uart_msg),
     (MOUSE_REPORT_MSG, H_handle_mouse_abs_uart_msg),
     (MOUSE_SOURCE_REPORT_MSG, H_handle_mouse_source_uart_msg),
     (MOUSE_SYNTHETIC_REPORT_MSG, H_handle_mouse_synthetic_uart_msg),
     (MOUSE_BUTTONS_SYNC_MSG, H_handle_mouse_buttons_sync_msg),
     (MOUSE_NONMOTION_MSG, H_handle_mouse_nonmotion_uart_msg),
     (OUTPUT_SELECT_MSG, H_handle_output_select_msg),
     (OUTPUT_SELECT_SYNC_MSG, H_handle_output_select_sync_msg),
     (POINTER_SYNC_MSG, H_handle_pointer_sync_msg),
     (MODIFIER_STATE_MSG, H_handle_modifier_state_msg),
     (ZOOM_ASSIST_MSG, H_handle_zoom_assist_msg),
     (ZOOM_ASSIST_CLEAR_MSG, H_handle_zoom_assist_clear_msg),
     (ACTIVITY_MSG, H_handle_activity_msg),
     (MOUSE_ZOOM_MSG, H_handle_mouse_zoom_msg),
     (KBD_SET_REPORT_MSG, H_handle_set_report_msg),
     (SWITCH_LOCK_MSG, H_handle_switch_lock_msg),
     (SYNC_BORDERS_MSG, H_handle_sync_borders_msg),
     (FLASH_LED_MSG, H_handle_flash_led_msg),
     (GAMING_MODE_MSG, H_handle_toggle_gaming_msg),
     (CONSUMER_CONTROL_MSG, H_handle_consumer_control_msg),
     (SYSTEM_CONTROL_MSG, H_handle_system_control_msg),
     (SCREENSAVER_MSG, H_handle_screensaver_msg),
     (WIPE_CONFIG_MSG, H_handle_wipe_config_msg),
     (SAVE_CONFIG_MSG, H_handle_save_config_msg),
     (REBOOT_MSG, H_handle_reboot_msg),
     (GET_VAL_MSG, H_handle_api_msgs),
     (GET_ALL_VALS_MSG, H_handle_api_read_all_msg),
     (SET_VAL_MSG, H_handle_api_msgs),
     (CONFIG_CONFIRM_META_MSG, H_handle_config_confirm_msg),
     (CONFIG_CONFIRM_LO_MSG, H_handle_config_confirm_msg),
     (CONFIG_CONFIRM_HI_MSG, H_handle_config_confirm_msg),
     (CONFIG_CONFIRM_EXEC_MSG, H_handle_config_confirm_msg),
     (CONFIG_CONFIRM_ACK_META_MSG, H_handle_config_confirm_msg),
     (CONFIG_CONFIRM_ACK_VALUE_MSG, H_handle_config_confirm_msg),
     (REQUEST_BYTE_MSG, H_handle_request_byte_msg),
     (RESPONSE_BYTE_MSG, H_handle_response_byte_msg),
     (FW_BATCH_CAPS_REQUEST_MSG, H_firmware_batch_packet),
     (FW_BATCH_CAPS_RESPONSE_MSG, H_firmware_batch_packet),
     (FW_BATCH_PAGE_REQUEST_MSG, H_firmware_batch_packet),
     (FW_BATCH_PAGE_DATA_MSG, H_firmware_batch_packet),
     (FW_BATCH_PAGE_END_MSG, H_firmware_batch_packet),
     (DIAGNOSTIC_STATUS_REQUEST_MSG, H_handle_diagnostic_request),
     (DIAGNOSTIC_STATUS_RESPONSE_MSG, H_handle_diagnostic_response),
     (DIAGNOSTIC_HISTORY_REQUEST_MSG, H_handle_history_request),
     (DIAGNOSTIC_HISTORY_RESPONSE_MSG, H_handle_history_response),
     (DIAGNOSTIC_VERIFY_REQUEST_MSG, H_handle_verify_request),
     (DIAGNOSTIC_VERIFY_RESPONSE_MSG, H_handle_verify_response),
     (FIRMWARE_UPGRADE_MSG, H_handle_fw_upgrade_msg),
     (MAINTENANCE_BOOTLOADER_REQUEST_MSG, H_handle_maintenance),
     (MAINTENANCE_BOOTLOADER_ACK_MSG, H_handle_maintenance),
     (HEARTBEAT_MSG, H_handle_heartbeat_msg),
     (PROXY_PACKET_MSG, H_handle_proxy_msg)]"

definition allowed_packets :: "u8 list" where
  "allowed_packets = [FLASH_LED_MSG, GET_VAL_MSG, GET_ALL_VALS_MSG, SET_VAL_MSG, WIPE_CONFIG_MSG,
     SAVE_CONFIG_MSG, REBOOT_MSG, FIRMWARE_UPGRADE_MSG]"

definition validate_packet :: "uart_packet \<Rightarrow> bool" where
  "validate_packet p =
     (if CONFIG_CONFIRM_META_MSG \<le> pkt_type p \<and> pkt_type p \<le> CONFIG_CONFIRM_EXEC_MSG then True
      else let packet_type = (if pkt_type p = PROXY_PACKET_MSG then pkt_data p ! 0 else pkt_type p)
           in packet_type \<in> set allowed_packets)"

datatype dispatch = Bad_checksum | Refused_proxy | No_handler | Run handler

definition process_packet :: "uart_packet \<Rightarrow> dispatch" where
  "process_packet p =
     (if \<not> verify_checksum p then Bad_checksum
      else if pkt_type p = PROXY_PACKET_MSG \<and> \<not> validate_packet p then Refused_proxy
      else case map_of uart_handler (pkt_type p) of None \<Rightarrow> No_handler | Some h \<Rightarrow> Run h)"

subsection \<open>Transmit queue\<close>

text \<open>\<open>length\<close> and \<open>packet_type\<close> are C ints; \<open>data = None\<close> is the null pointer. The packet is
  zero-initialised, so unused data bytes are zero.\<close>

definition queue_packet_try :: "uart_packet queue \<Rightarrow> bytes option \<Rightarrow> int \<Rightarrow> int \<Rightarrow> bool \<times> uart_packet queue" where
  "queue_packet_try q data packet_type len =
     (if len < 0 \<or> len > 8 \<or> (len \<noteq> 0 \<and> data = None) \<or> packet_type \<le> 0 \<or> packet_type > 255
      then (False, q)
      else queue_try_add q
        \<lparr>pkt_type = word_of_int packet_type,
         pkt_data = (case data of None \<Rightarrow> [] | Some d \<Rightarrow> take (nat len) d)
           @ replicate (8 - (case data of None \<Rightarrow> 0 | Some d \<Rightarrow> length (take (nat len) d))) 0,
         pkt_checksum = 0\<rparr>)"

lemma queue_packet_try_ok: "queue_ok q \<Longrightarrow> queue_ok (snd (queue_packet_try q d t n))"
  by (simp add: queue_packet_try_def queue_add_ok)

lemma uart_handler_distinct: "distinct (map fst uart_handler)"
  by (simp add: uart_handler_def)

subsection \<open>Properties\<close>

text \<open>
  A proxy envelope is opened only for the eight whitelisted configuration commands: it never
  nests another proxy, never carries input, clipboard, selection or firmware page traffic, and
  never a step of the multi-part confirmed commands; and no command runs with a bad checksum.
\<close>

theorem proxy_dispatch:
  "pkt_type p = PROXY_PACKET_MSG \<Longrightarrow>
     process_packet p =
       (if \<not> verify_checksum p then Bad_checksum
        else if pkt_data p ! 0 \<in> {FLASH_LED_MSG, GET_VAL_MSG, GET_ALL_VALS_MSG, SET_VAL_MSG,
               WIPE_CONFIG_MSG, SAVE_CONFIG_MSG, REBOOT_MSG, FIRMWARE_UPGRADE_MSG}
        then Run H_handle_proxy_msg else Refused_proxy)"
  by (simp add: process_packet_def validate_packet_def allowed_packets_def uart_handler_def)

theorem proxy_dispatch_witness:
  "process_packet \<lparr>pkt_type = PROXY_PACKET_MSG, pkt_data = [PROXY_PACKET_MSG, 0, 0, 0, 0, 0, 0, 0],
     pkt_checksum = calc_crc32 [1, 8, 23, 23, 0, 0, 0, 0, 0, 0, 0]\<rparr> = Refused_proxy"
  using proxy_dispatch [of "\<lparr>pkt_type = PROXY_PACKET_MSG, pkt_data = [PROXY_PACKET_MSG, 0, 0, 0, 0, 0, 0, 0],
     pkt_checksum = calc_crc32 [1, 8, 23, 23, 0, 0, 0, 0, 0, 0, 0]\<rparr>"]
  by (simp add: verify_checksum_def calc_packet_checksum_def frame_head_def)

text \<open>
  Each packet type has at most one handler, and every command the configuration endpoint may
  send has one: a packet with a valid checksum whose type is whitelisted or is one of the
  confirmed-command steps is always dispatched.
\<close>

theorem validated_packets_have_handlers:
  "verify_checksum p \<Longrightarrow> validate_packet p \<Longrightarrow> \<exists>h. process_packet p = Run h"
proof -
  assume ck: "verify_checksum p" and v: "validate_packet p"
  have confirm: "t = 56 \<or> t = 57 \<or> t = 58 \<or> t = 59" if "56 \<le> t" "t \<le> 59" for t :: u8
  proof -
    from that have "unat t = 56 \<or> unat t = 57 \<or> unat t = 58 \<or> unat t = 59"
      by (auto simp: word_le_nat_alt)
    then show ?thesis by (auto simp: word_unat_eq_iff)
  qed
  from v have "pkt_type p \<in> set (map fst uart_handler)"
    using confirm [of "pkt_type p"]
    by (auto simp: validate_packet_def allowed_packets_def uart_handler_def Let_def split: if_splits)
  then have "map_of uart_handler (pkt_type p) \<noteq> None" by (simp add: map_of_eq_None_iff)
  with ck v show ?thesis by (auto simp: process_packet_def)
qed

theorem validated_packets_have_handlers_witness:
  "\<exists>h. process_packet \<lparr>pkt_type = SAVE_CONFIG_MSG, pkt_data = [0, 0, 0, 0, 0, 0, 0, 0],
     pkt_checksum = calc_crc32 [1, 8, 18, 0, 0, 0, 0, 0, 0, 0, 0]\<rparr> = Run h"
  by (rule validated_packets_have_handlers)
     (simp_all add: verify_checksum_def calc_packet_checksum_def frame_head_def validate_packet_def
       allowed_packets_def)

end
