(* ===== verification/Uart_Rx.thy ===== *)
theory Uart_Rx
  imports Protocol
begin

text \<open>
  The UART receiver of one board: the 1024-byte DMA ring (dma.h), the ring arithmetic and frame
  fetch of utils.c, and the whole of \<open>packet_receiver_task\<close> in tasks.c with its partial-frame
  timer, its idle scrubbing and its erasure of consumed bytes. Indices are naturals below 1024 with
  the code's masks written as \<open>mod 1024\<close>; times are 64-bit microsecond counters. Two inputs stand
  for the DMA hardware: \<open>current\<close>, the producer position derived from the transfer count when the
  task starts, and \<open>writer\<close>, the producer position when an erasure has paused the channel.
\<close>

unbundle bit_operations_syntax

subsection \<open>The code\<close>

record uart_rx =
  rx_buf :: bytes
  dma_ptr :: nat
  uart_partial :: bool
  uart_partial_cursor :: nat
  uart_partial_since :: u64
  uart_idle_seen :: bool
  uart_idle_writer :: nat
  uart_idle_since :: u64
  uart_idle_scrub :: nat
  uart_idle_scan :: nat

definition next_ring_idx :: "nat \<Rightarrow> nat" where
  "next_ring_idx x = (x + 1) mod 1024"

definition is_start_of_packet :: "uart_rx \<Rightarrow> bool" where
  "is_start_of_packet s = (rx_buf s ! dma_ptr s = 0x7e)"

definition get_ptr_delta :: "nat \<Rightarrow> uart_rx \<Rightarrow> nat" where
  "get_ptr_delta current s =
     (if current \<ge> dma_ptr s then current - dma_ptr s else 1024 - dma_ptr s + current) mod 1024"

definition ring_slice :: "uart_rx \<Rightarrow> nat \<Rightarrow> bytes" where
  "ring_slice s k = map (\<lambda>i. rx_buf s ! ((dma_ptr s + k + i) mod 1024)) [0..<32]"

definition fetch_packet :: "uart_rx \<Rightarrow> (uart_packet \<times> uart_rx) option" where
  "fetch_packet s =
     (case read_raw_packet (ring_slice s 0) of
        None \<Rightarrow> None
      | Some p \<Rightarrow> Some (p, s\<lparr>dma_ptr := (next_ring_idx ^^ 32) (dma_ptr s)\<rparr>))"

definition uart_rx_erase_consumed :: "uart_rx \<Rightarrow> nat \<Rightarrow> nat \<Rightarrow> nat \<Rightarrow> uart_rx" where
  "uart_rx_erase_consumed s start len writer =
     (if len = 0 \<or> len \<ge> 2 * 32 \<or> start \<ge> 1024 then s
      else let unread = get_ptr_delta writer s in
        s\<lparr>rx_buf := foldl (\<lambda>buf i.
             let index = (start + i) mod 1024; distance = (index + 1024 - dma_ptr s) mod 1024
             in if distance \<ge> unread then buf[index := 0] else buf) (rx_buf s) [0..<len]\<rparr>)"

datatype rx_outcome = Rx_none | Rx_wait | Rx_packet uart_packet

text \<open>The scan loop; the first argument is \<open>RAW_PACKET_LENGTH - scanned\<close>, the last is \<open>discarded\<close>.\<close>

fun rx_scan :: "nat \<Rightarrow> nat \<Rightarrow> u64 \<Rightarrow> uart_rx \<Rightarrow> bool \<Rightarrow> rx_outcome \<times> uart_rx \<times> bool" where
  "rx_scan 0 delta now s discarded = (Rx_none, s, discarded)"
| "rx_scan (Suc left) delta now s discarded =
     (if delta = 0 then (Rx_none, s, discarded)
      else if is_start_of_packet s then
        (if uart_partial s \<and> uart_partial_cursor s = dma_ptr s \<and> now \<ge> uart_partial_since s
            \<and> now - uart_partial_since s \<ge> 50000
         then rx_scan left (delta - 1) now
                (s\<lparr>uart_partial := False, dma_ptr := next_ring_idx (dma_ptr s)\<rparr>) True
         else if delta < 32 then
           (Rx_wait,
            (if \<not> uart_partial s \<or> uart_partial_cursor s \<noteq> dma_ptr s \<or> now < uart_partial_since s
             then s\<lparr>uart_partial := True, uart_partial_cursor := dma_ptr s, uart_partial_since := now\<rparr>
             else s), discarded)
         else case fetch_packet (s\<lparr>uart_partial := False\<rparr>) of
           Some (p, s') \<Rightarrow> (Rx_packet p, s', discarded)
         | None \<Rightarrow> rx_scan left (delta - 1) now
                (s\<lparr>uart_partial := False, dma_ptr := next_ring_idx (dma_ptr s)\<rparr>) True)
      else rx_scan left (delta - 1) now
             (s\<lparr>uart_partial := False, dma_ptr := next_ring_idx (dma_ptr s)\<rparr>) True)"

text \<open>The bounded read-only scan of a scrubbed idle ring.\<close>

fun idle_scan :: "nat \<Rightarrow> u64 \<Rightarrow> uart_rx \<Rightarrow> uart_rx" where
  "idle_scan 0 now s = s"
| "idle_scan (Suc n) now s =
     (let index = uart_idle_scan s; s1 = s\<lparr>uart_idle_scan := next_ring_idx index\<rparr>
      in if rx_buf s ! index \<noteq> 0
         then s1\<lparr>uart_idle_since := now, uart_idle_scrub := 0, uart_idle_scan := 0\<rparr>
         else idle_scan n now s1)"

definition note_writer :: "nat \<Rightarrow> u64 \<Rightarrow> uart_rx \<Rightarrow> uart_rx" where
  "note_writer cur now s =
     (if \<not> uart_idle_seen s \<or> cur \<noteq> uart_idle_writer s \<or> now < uart_idle_since s
      then s\<lparr>uart_idle_seen := True, uart_idle_writer := cur, uart_idle_since := now,
             uart_idle_scrub := 0, uart_idle_scan := 0\<rparr>
      else s)"

definition rx_idle :: "nat \<Rightarrow> u64 \<Rightarrow> uart_rx \<Rightarrow> uart_rx" where
  "rx_idle writer now s =
     (if uart_idle_scrub s < 1024 \<and> now - uart_idle_since s \<ge> 50000 then
        (uart_rx_erase_consumed s (uart_idle_scrub s) 32 writer)
          \<lparr>uart_idle_scrub := uart_idle_scrub s + 32\<rparr>
      else if uart_idle_scrub s = 1024 then idle_scan 32 now s
      else s)"

definition packet_receiver_task :: "nat \<Rightarrow> nat \<Rightarrow> u64 \<Rightarrow> uart_rx \<Rightarrow> uart_packet option \<times> uart_rx" where
  "packet_receiver_task current writer now s0 =
     (let delta = get_ptr_delta current s0;
          s = note_writer (current mod 1024) now s0
      in if delta = 0 then (None, rx_idle writer now s)
         else
           (let start = dma_ptr s;
                erase = (\<lambda>t. uart_rx_erase_consumed t start ((dma_ptr t + 1024 - start) mod 1024) writer)
            in case rx_scan 32 delta now s False of
              (Rx_packet p, t, discarded) \<Rightarrow>
                (Some p, if discarded \<or> pkt_type p = CLIPBOARD_MSG then erase t else t)
            | (_, t, discarded) \<Rightarrow> (None, if discarded then erase t else t)))"

subsection \<open>Ring arithmetic\<close>

definition rx_ok :: "uart_rx \<Rightarrow> bool" where
  "rx_ok s \<longleftrightarrow> length (rx_buf s) = 1024 \<and> dma_ptr s < 1024 \<and> uart_idle_scan s < 1024
     \<and> uart_idle_scrub s \<le> 1024 \<and> 32 dvd uart_idle_scrub s"

lemma next_ring_idx_pow: "p < 1024 \<Longrightarrow> (next_ring_idx ^^ n) p = (p + n) mod 1024"
  by (induction n) (simp_all add: next_ring_idx_def mod_simps)

lemma get_ptr_delta_alt:
  assumes "dma_ptr s < 1024" "current \<le> 1024"
  shows "(dma_ptr s + get_ptr_delta current s) mod 1024 = current mod 1024"
  using assms by (auto simp: get_ptr_delta_def mod_simps)

lemma get_ptr_delta_less: "get_ptr_delta current s < 1024"
  by (simp add: get_ptr_delta_def)

lemma length_ring_slice [simp]: "length (ring_slice s k) = 32"
  by (simp add: ring_slice_def)

lemma ring_slice_next:
  "dma_ptr s < 1024 \<Longrightarrow>
     ring_slice (s\<lparr>uart_partial := b, dma_ptr := next_ring_idx (dma_ptr s)\<rparr>) k = ring_slice s (Suc k)"
  by (auto simp: ring_slice_def next_ring_idx_def add.assoc mod_add_left_eq)

lemma ring_slice_partial [simp]: "ring_slice (s\<lparr>uart_partial := b\<rparr>) k = ring_slice s k"
  by (simp add: ring_slice_def)

lemma start_of_frame:
  "dma_ptr s < 1024 \<Longrightarrow> read_raw_packet (ring_slice s 0) = Some p \<Longrightarrow> is_start_of_packet s"
  by (auto simp: read_raw_packet_def ring_slice_def is_start_of_packet_def split: if_splits)

lemma fetch_packet_Some:
  "dma_ptr s < 1024 \<Longrightarrow> fetch_packet s = Some (p, t) \<longleftrightarrow>
     read_raw_packet (ring_slice s 0) = Some p \<and> t = s\<lparr>dma_ptr := (dma_ptr s + 32) mod 1024\<rparr>"
  by (auto simp: fetch_packet_def next_ring_idx_pow split: option.splits)

lemma fetch_packet_None: "fetch_packet s = None \<longleftrightarrow> read_raw_packet (ring_slice s 0) = None"
  by (simp add: fetch_packet_def split: option.splits)

subsection \<open>The scan loop\<close>

definition skip_byte :: "uart_rx \<Rightarrow> uart_rx" where
  "skip_byte s = s\<lparr>uart_partial := False, dma_ptr := next_ring_idx (dma_ptr s)\<rparr>"

definition stale_partial :: "u64 \<Rightarrow> uart_rx \<Rightarrow> bool" where
  "stale_partial now s \<longleftrightarrow> uart_partial s \<and> uart_partial_cursor s = dma_ptr s
     \<and> now \<ge> uart_partial_since s \<and> now - uart_partial_since s \<ge> 50000"

lemma skip_byte_simps [simp]:
  "dma_ptr s < 1024 \<Longrightarrow> ring_slice (skip_byte s) k = ring_slice s (Suc k)"
  "dma_ptr (skip_byte s) = Suc (dma_ptr s) mod 1024" "rx_buf (skip_byte s) = rx_buf s"
  "\<not> stale_partial now (skip_byte s)"
  by (simp_all add: skip_byte_def ring_slice_next stale_partial_def) (simp add: next_ring_idx_def)

lemma ring_step: "(Suc d mod 1024 + k + 32) mod 1024 = (d + Suc k + 32) mod 1024"
  using mod_add_left_eq [of "Suc d" 1024 "k + 32"] by (simp add: ac_simps)

text \<open>The three ways one iteration can go.\<close>

lemma rx_scan_skip:
  "delta \<noteq> 0 \<Longrightarrow> is_start_of_packet s \<longrightarrow> stale_partial now s \<or>
       (32 \<le> delta \<and> read_raw_packet (ring_slice s 0) = None) \<Longrightarrow>
     rx_scan (Suc left) delta now s d = rx_scan left (delta - 1) now (skip_byte s) True"
  using fetch_packet_None [of "s\<lparr>uart_partial := False\<rparr>"]
  by (auto simp: stale_partial_def skip_byte_def)

lemma rx_scan_take:
  assumes "32 \<le> delta" "dma_ptr s < 1024" "is_start_of_packet s" "\<not> stale_partial now s"
    "read_raw_packet (ring_slice s 0) = Some p"
  shows "rx_scan (Suc left) delta now s d =
       (Rx_packet p, s\<lparr>uart_partial := False, dma_ptr := (dma_ptr s + 32) mod 1024\<rparr>, d)"
proof -
  have "fetch_packet (s\<lparr>uart_partial := False\<rparr>)
      = Some (p, s\<lparr>uart_partial := False, dma_ptr := (dma_ptr s + 32) mod 1024\<rparr>)"
    using assms by (simp add: fetch_packet_Some)
  then show ?thesis using assms by (simp add: stale_partial_def [symmetric])
qed

lemma rx_scan_wait:
  "delta \<noteq> 0 \<Longrightarrow> delta < 32 \<Longrightarrow> is_start_of_packet s \<Longrightarrow> \<not> stale_partial now s \<Longrightarrow>
     \<exists>t. rx_scan (Suc left) delta now s d = (Rx_wait, t, d) \<and> dma_ptr t = dma_ptr s
       \<and> rx_buf t = rx_buf s \<and> uart_partial t \<and> uart_partial_cursor t = dma_ptr s
       \<and> uart_idle_scan t = uart_idle_scan s \<and> uart_idle_scrub t = uart_idle_scrub s"
  by (simp add: stale_partial_def [symmetric])

lemma rx_scan_cases:
  fixes delta :: nat
  obtains (skip) "is_start_of_packet s \<longrightarrow> stale_partial now s \<or>
       (32 \<le> delta \<and> read_raw_packet (ring_slice s 0) = None)"
  | (wait) "delta < 32" "is_start_of_packet s" "\<not> stale_partial now s"
  | (take) p where "32 \<le> delta" "is_start_of_packet s" "\<not> stale_partial now s"
      "read_raw_packet (ring_slice s 0) = Some p"
  by (cases "read_raw_packet (ring_slice s 0)"; cases "32 \<le> delta") (auto simp: not_le)

text \<open>The loop takes the first valid frame at one of the offsets it may scan.\<close>

lemma rx_scan_finds:
  assumes "dma_ptr s < 1024" "0 < k \<or> \<not> stale_partial now s" "k < left" "k + 32 \<le> delta"
    and "read_raw_packet (ring_slice s k) = Some p"
    and "\<And>j. j < k \<Longrightarrow> read_raw_packet (ring_slice s j) = None"
  shows "\<exists>t d'. rx_scan left delta now s d = (Rx_packet p, t, d') \<and> rx_buf t = rx_buf s
     \<and> dma_ptr t = (dma_ptr s + k + 32) mod 1024"
  using assms
proof (induction k arbitrary: left delta s d)
  case 0
  then obtain left' where "left = Suc left'" by (cases left) auto
  with 0 show ?case by (auto simp del: rx_scan.simps simp: rx_scan_take start_of_frame)
next
  case (Suc k)
  then obtain left' where l: "left = Suc left'" by (cases left) auto
  have "rx_scan (Suc left') delta now s d = rx_scan left' (delta - 1) now (skip_byte s) True"
    using Suc.prems(4,6) by (intro rx_scan_skip) auto
  moreover have "\<exists>t d'. rx_scan left' (delta - 1) now (skip_byte s) True = (Rx_packet p, t, d')
      \<and> rx_buf t = rx_buf (skip_byte s) \<and> dma_ptr t = (dma_ptr (skip_byte s) + k + 32) mod 1024"
    using Suc.prems l by (intro Suc.IH) simp_all
  ultimately show ?case unfolding l by (auto simp only: ring_step skip_byte_simps)
qed

text \<open>Conversely a delivered packet is a valid frame that lies wholly inside the unread bytes.\<close>

lemma rx_scan_delivered:
  assumes "rx_scan left delta now s d = (Rx_packet p, t, d')" "dma_ptr s < 1024"
  shows "\<exists>k < left. k + 32 \<le> delta \<and> read_raw_packet (ring_slice s k) = Some p
     \<and> rx_buf t = rx_buf s \<and> dma_ptr t = (dma_ptr s + k + 32) mod 1024"
  using assms
proof (induction left arbitrary: delta s d)
  case 0
  then show ?case by simp
next
  case (Suc left)
  have "delta \<noteq> 0" using Suc.prems(1) by (intro notI) simp
  show ?case
  proof (cases rule: rx_scan_cases [of s now delta])
    case skip
    with Suc.prems rx_scan_skip [OF \<open>delta \<noteq> 0\<close> skip]
    have "rx_scan left (delta - 1) now (skip_byte s) True = (Rx_packet p, t, d')" by metis
    moreover have ptr: "dma_ptr (skip_byte s) < 1024" by (simp add: skip_byte_simps)
    ultimately obtain k where "k < left" "k + 32 \<le> delta - 1"
      "read_raw_packet (ring_slice (skip_byte s) k) = Some p" "rx_buf t = rx_buf (skip_byte s)"
      "dma_ptr t = (dma_ptr (skip_byte s) + k + 32) mod 1024"
      using Suc.IH [of "delta - 1" "skip_byte s" True] ptr by blast
    then show ?thesis
      using Suc.prems(2) by (intro exI [of _ "Suc k"]) (auto simp only: ring_step skip_byte_simps)
  next
    case wait
    then show ?thesis
      using Suc.prems(1) rx_scan_wait [OF \<open>delta \<noteq> 0\<close> wait, of left d] by auto
  next
    case (take q)
    with Suc.prems rx_scan_take [of delta s now q left d] show ?thesis by auto
  qed
qed

text \<open>Every pass over a non-empty ring makes progress, or waits at a start byte for the rest of a
  frame with the partial timer armed.\<close>

lemma rx_scan_moves:
  "rx_scan left delta now s d = (o', t, d') \<Longrightarrow> dma_ptr s < 1024 \<Longrightarrow>
     rx_buf t = rx_buf s \<and> uart_idle_scan t = uart_idle_scan s \<and> uart_idle_scrub t = uart_idle_scrub s
     \<and> (\<exists>n. n \<le> delta \<and> n < left + 32 \<and> dma_ptr t = (dma_ptr s + n) mod 1024)"
proof (induction left arbitrary: delta s d)
  case 0
  then show ?case by (intro conjI exI [of _ 0]) auto
next
  case (Suc left)
  show ?case
  proof (cases "delta = 0")
    case True
    with Suc.prems show ?thesis by (intro conjI exI [of _ 0]) auto
  next
    case nz: False
    show ?thesis
    proof (cases rule: rx_scan_cases [of s now delta])
      case skip
      with Suc.prems rx_scan_skip [OF nz skip]
      have "rx_scan left (delta - 1) now (skip_byte s) True = (o', t, d')" by metis
      then have "rx_buf t = rx_buf s \<and> uart_idle_scan t = uart_idle_scan s \<and> uart_idle_scrub t = uart_idle_scrub s
        \<and> (\<exists>n. n \<le> delta - 1 \<and> n < left + 32 \<and> dma_ptr t = (Suc (dma_ptr s) mod 1024 + n) mod 1024)"
        using Suc.IH [of "delta - 1" "skip_byte s" True] by (simp add: skip_byte_def next_ring_idx_def)
      then obtain n where "rx_buf t = rx_buf s" "uart_idle_scan t = uart_idle_scan s"
        "uart_idle_scrub t = uart_idle_scrub s" "n \<le> delta - 1" "n < left + 32"
        "dma_ptr t = (Suc (dma_ptr s) mod 1024 + n) mod 1024" by blast
      then show ?thesis using nz by (intro conjI exI [of _ "Suc n"]) (auto simp: mod_add_left_eq)
    next
      case wait
      then show ?thesis
        using Suc.prems rx_scan_wait [OF nz wait, of left d] by (intro conjI exI [of _ 0]) auto
    next
      case (take q)
      then show ?thesis
        using Suc.prems rx_scan_take [of delta s now q left d] by (intro conjI exI [of _ 32]) auto
    qed
  qed
qed

lemma rx_scan_progress:
  assumes "dma_ptr s < 1024" "delta \<noteq> 0" "rx_scan (Suc left) delta now s d = (o', t, d')"
  shows "(\<exists>n. 0 < n \<and> n \<le> delta \<and> n < Suc left + 32 \<and> dma_ptr t = (dma_ptr s + n) mod 1024)
    \<or> (o' = Rx_wait \<and> delta < 32 \<and> dma_ptr t = dma_ptr s \<and> is_start_of_packet s
       \<and> \<not> stale_partial now s \<and> uart_partial t \<and> uart_partial_cursor t = dma_ptr s)"
proof (cases rule: rx_scan_cases [of s now delta])
  case skip
  with assms rx_scan_skip [OF assms(2) skip]
  have "rx_scan left (delta - 1) now (skip_byte s) True = (o', t, d')" by metis
  from rx_scan_moves [OF this] obtain n where "n \<le> delta - 1" "n < left + 32"
    "dma_ptr t = (Suc (dma_ptr s) mod 1024 + n) mod 1024" by auto
  then have "0 < Suc n \<and> Suc n \<le> delta \<and> Suc n < Suc left + 32
      \<and> dma_ptr t = (dma_ptr s + Suc n) mod 1024"
    using assms(2) by (auto simp: mod_add_left_eq)
  then show ?thesis by blast
next
  case wait
  then show ?thesis using assms rx_scan_wait [OF assms(2) wait, of left d] by auto
next
  case (take q)
  then have "0 < (32 :: nat) \<and> 32 \<le> delta \<and> 32 < Suc left + 32 \<and> dma_ptr t = (dma_ptr s + 32) mod 1024"
    using assms rx_scan_take [of delta s now q left d] by auto
  then show ?thesis by blast
qed

subsection \<open>Erasure\<close>

lemma erase_fold_nth:
  assumes "\<And>i. i \<in> set is \<Longrightarrow> P i \<Longrightarrow> idx i \<noteq> j"
  shows "foldl (\<lambda>buf i. if P i then buf[idx i := z] else buf) buf is ! j = buf ! j"
  using assms
proof (induction "is" arbitrary: buf)
  case Nil
  then show ?case by simp
next
  case (Cons i "is")
  then show ?case by (cases "P i") auto
qed

lemma length_erase_fold:
  "length (foldl (\<lambda>buf i. if P i then buf[idx i := z] else buf) buf is) = length buf"
  by (induction "is" arbitrary: buf) auto

lemma erase_frame [simp]:
  "dma_ptr (uart_rx_erase_consumed s st n w) = dma_ptr s"
  "length (rx_buf (uart_rx_erase_consumed s st n w)) = length (rx_buf s)"
  "uart_idle_scan (uart_rx_erase_consumed s st n w) = uart_idle_scan s"
  "uart_idle_scrub (uart_rx_erase_consumed s st n w) = uart_idle_scrub s"
  "uart_partial (uart_rx_erase_consumed s st n w) = uart_partial s"
  "uart_partial_cursor (uart_rx_erase_consumed s st n w) = uart_partial_cursor s"
  by (simp_all add: uart_rx_erase_consumed_def Let_def length_erase_fold)

lemma ring_distance:
  assumes "p < 1024" "k < 1024"
  shows "((p + k) mod 1024 + 1024 - p) mod 1024 = (k :: nat)"
proof (cases "p + k < 1024")
  case True
  then show ?thesis using assms by simp
next
  case False
  then have "(p + k) mod 1024 = p + k - 1024" using assms by (simp add: mod_if)
  with False assms show ?thesis by simp
qed

lemma erase_keeps_unread_byte:
  assumes "rx_ok s" "k < get_ptr_delta writer s"
  shows "rx_buf (uart_rx_erase_consumed s st n writer) ! ((dma_ptr s + k) mod 1024)
       = rx_buf s ! ((dma_ptr s + k) mod 1024)"
proof -
  have "k < 1024" using assms(2) get_ptr_delta_less [of writer s] by simp
  then have d: "((dma_ptr s + k) mod 1024 + 1024 - dma_ptr s) mod 1024 = k"
    using assms(1) by (intro ring_distance) (simp_all add: rx_ok_def)
  have "(st + i) mod 1024 \<noteq> (dma_ptr s + k) mod 1024"
    if "get_ptr_delta writer s \<le> ((st + i) mod 1024 + 1024 - dma_ptr s) mod 1024" for i
    using that d assms(2) by (intro notI) simp
  then show ?thesis
    unfolding uart_rx_erase_consumed_def Let_def by (simp add: erase_fold_nth)
qed

lemma rx_ok_erase [simp]: "rx_ok (uart_rx_erase_consumed s st n w) = rx_ok s"
  by (simp add: rx_ok_def)

subsection \<open>The task\<close>

lemma note_writer_frame [simp]:
  "dma_ptr (note_writer c now s) = dma_ptr s" "rx_buf (note_writer c now s) = rx_buf s"
  "ring_slice (note_writer c now s) k = ring_slice s k"
  "stale_partial now' (note_writer c now s) = stale_partial now' s"
  "is_start_of_packet (note_writer c now s) = is_start_of_packet s"
  by (simp_all add: note_writer_def ring_slice_def stale_partial_def is_start_of_packet_def)

lemma rx_ok_note_writer: "rx_ok s \<Longrightarrow> rx_ok (note_writer c now s)"
  by (simp add: rx_ok_def note_writer_def)

lemma idle_scan_ok: "rx_ok s \<Longrightarrow> rx_ok (idle_scan n now s)"
  by (induction n now s rule: idle_scan.induct) (auto simp: Let_def rx_ok_def next_ring_idx_def)

lemma rx_idle_ok: "rx_ok s \<Longrightarrow> rx_ok (rx_idle w now s)"
proof -
  assume ok: "rx_ok s"
  have "uart_idle_scrub s + 32 \<le> 1024" if "uart_idle_scrub s < 1024"
    using that ok by (auto simp: rx_ok_def elim!: dvdE)
  then show ?thesis
    using ok idle_scan_ok [OF ok] by (auto simp: rx_idle_def) (auto simp: rx_ok_def)
qed

lemma rx_scan_ok: "rx_scan l delta now s d = (o', t, d') \<Longrightarrow> rx_ok s \<Longrightarrow> rx_ok t"
  using rx_scan_moves [of l delta now s d o' t d'] by (auto simp: rx_ok_def)

lemma packet_receiver_task_ok:
  assumes "rx_ok s"
  shows "rx_ok (snd (packet_receiver_task cur w now s))"
proof -
  let ?s = "note_writer (cur mod 1024) now s"
  obtain o' t d where "rx_scan 32 (get_ptr_delta cur s) now ?s False = (o', t, d)" by (metis prod_cases3)
  moreover from this have "rx_ok t" by (rule rx_scan_ok) (rule rx_ok_note_writer [OF assms])
  ultimately show ?thesis
    using rx_idle_ok [OF rx_ok_note_writer [OF assms]]
    by (auto simp: packet_receiver_task_def Let_def split: rx_outcome.splits)
qed

text \<open>A ring that holds one heartbeat frame at its start, used as a concrete instance below.\<close>

definition heartbeat_packet :: uart_packet where
  "heartbeat_packet = \<lparr>pkt_type = HEARTBEAT_MSG, pkt_data = [0, 0, 0, 0, 0, 0, 0, 0],
     pkt_checksum = calc_crc32 [1, 8, 12, 0, 0, 0, 0, 0, 0, 0, 0]\<rparr>"

definition rx_example :: uart_rx where
  "rx_example = \<lparr>rx_buf = write_raw_packet heartbeat_packet @ replicate 992 0, dma_ptr = 0,
     uart_partial = False, uart_partial_cursor = 0, uart_partial_since = 0, uart_idle_seen = False,
     uart_idle_writer = 0, uart_idle_since = 0, uart_idle_scrub = 0, uart_idle_scan = 0\<rparr>"

lemma heartbeat_packet_wf: "packet_wf heartbeat_packet"
  by (simp add: packet_wf_def heartbeat_packet_def verify_checksum_def calc_packet_checksum_def frame_head_def)

lemma rx_example_ok: "rx_ok rx_example" "\<not> stale_partial now rx_example" "get_ptr_delta 32 rx_example = 32"
  using length_write_raw_packet [of heartbeat_packet]
  by (simp_all add: rx_ok_def rx_example_def heartbeat_packet_def stale_partial_def get_ptr_delta_def)

lemma rx_example_frame: "read_raw_packet (ring_slice rx_example 0) = Some heartbeat_packet"
proof -
  have "length (write_raw_packet heartbeat_packet) = 32"
    by (simp add: length_write_raw_packet heartbeat_packet_def)
  then have "ring_slice rx_example 0 = write_raw_packet heartbeat_packet"
    by (simp add: list_eq_iff_nth_eq ring_slice_def rx_example_def nth_append)
  then show ?thesis using read_write_raw_packet [OF heartbeat_packet_wf] by simp
qed

text \<open>The same frame behind two stray start bytes, of which the first has waited for 50 ms.\<close>

definition rx_junk :: uart_rx where
  "rx_junk = rx_example\<lparr>rx_buf := [0x7e, 0x7e] @ write_raw_packet heartbeat_packet @ replicate 990 0, uart_partial := True\<rparr>"

lemma nibbles_not_end: "b \<in> set (nibbles x) \<Longrightarrow> b \<noteq> 0x7f"
proof
  assume "b \<in> set (nibbles x)" "b = 0x7f"
  moreover have "\<forall>b\<in>set (nibbles x). b AND 0xf0 = 0x40" by (simp add: nibbles_def nibble_high nibble_low)
  ultimately have "(0x7f :: u8) AND 0xf0 = 0x40" by blast
  then show False by simp
qed

lemma frame_inner: "i < 30 \<Longrightarrow> write_raw_packet heartbeat_packet ! Suc i \<noteq> 0x7f"
proof -
  assume i: "i < 30"
  let ?b = "concat (map nibbles (frame_body heartbeat_packet))"
  have "length (write_raw_packet heartbeat_packet) = 32" by (simp add: length_write_raw_packet heartbeat_packet_def)
  then have l: "length ?b = 30" by (simp add: write_raw_packet_def)
  then have "write_raw_packet heartbeat_packet ! Suc i = ?b ! i" using i by (simp add: write_raw_packet_def nth_append)
  moreover have "?b ! i \<in> set ?b" using i l by (intro nth_mem) simp
  ultimately show ?thesis using nibbles_not_end by auto
qed

lemma rx_junk_ok:
  "rx_ok rx_junk" "get_ptr_delta 34 rx_junk = 34" "read_raw_packet (ring_slice rx_junk 2) = Some heartbeat_packet"
  "j < 2 \<Longrightarrow> read_raw_packet (ring_slice rx_junk j) = None" "stale_partial 50000 rx_junk"
proof -
  have l: "length (write_raw_packet heartbeat_packet) = 32" by (simp add: length_write_raw_packet heartbeat_packet_def)
  show "rx_ok rx_junk" "get_ptr_delta 34 rx_junk = 34" "stale_partial 50000 rx_junk"
    using l by (simp_all add: rx_ok_def rx_junk_def rx_example_def get_ptr_delta_def stale_partial_def)
  have "ring_slice rx_junk 2 = write_raw_packet heartbeat_packet"
    using l by (simp add: list_eq_iff_nth_eq ring_slice_def rx_junk_def rx_example_def nth_append)
  then show "read_raw_packet (ring_slice rx_junk 2) = Some heartbeat_packet" using read_write_raw_packet [OF heartbeat_packet_wf] by simp
  assume "j < 2"
  then have "ring_slice rx_junk j ! 31 = write_raw_packet heartbeat_packet ! Suc (28 + j)"
    using l by (simp add: ring_slice_def rx_junk_def rx_example_def nth_append)
  then show "read_raw_packet (ring_slice rx_junk j) = None"
    using frame_inner [of "28 + j"] \<open>j < 2\<close> by (simp add: read_raw_packet_def)
qed

subsection \<open>Properties\<close>

text \<open>
  C6. Resynchronisation. If the unread bytes hold a valid frame at one of the first thirty-two
  offsets and no valid frame before it, whatever the junk in front (including stray start bytes and
  truncated or corrupted frames), one pass of the receiver delivers exactly that packet and moves
  the read position just past it. A frame with junk in front of it is delivered even if the timer
  of a partial frame has run out meanwhile; a frame at the read position itself is delivered unless
  its own first byte has been waiting for the rest for 50 ms or more, in which case the receiver
  gives that frame up.
\<close>

theorem uart_receiver_delivers:
  assumes "rx_ok s" "0 < k \<or> \<not> stale_partial now s" "k < 32" "k + 32 \<le> get_ptr_delta current s"
    and "read_raw_packet (ring_slice s k) = Some p"
    and "\<forall>j < k. read_raw_packet (ring_slice s j) = None"
  shows "fst (packet_receiver_task current writer now s) = Some p
    \<and> dma_ptr (snd (packet_receiver_task current writer now s)) = (dma_ptr s + k + 32) mod 1024"
proof -
  let ?s = "note_writer (current mod 1024) now s"
  have "\<exists>t d'. rx_scan 32 (get_ptr_delta current s) now ?s False = (Rx_packet p, t, d')
      \<and> rx_buf t = rx_buf ?s \<and> dma_ptr t = (dma_ptr ?s + k + 32) mod 1024"
    using assms by (intro rx_scan_finds) (simp_all add: rx_ok_def)
  then show ?thesis using assms(4) by (auto simp: packet_receiver_task_def Let_def)
qed

theorem uart_receiver_delivers_witness:
  "fst (packet_receiver_task 34 34 50000 rx_junk) = Some heartbeat_packet"
  using uart_receiver_delivers [of rx_junk 2 50000 34 heartbeat_packet 34] rx_junk_ok by simp

text \<open>
  C7. Authenticity. Every packet the receiver delivers is the exact content of thirty-two
  consecutive unread ring bytes that form a valid frame of that packet; nothing is ever delivered
  from bytes the DMA has not yet written or from already consumed bytes.
\<close>

theorem uart_receiver_authentic:
  assumes "rx_ok s" "fst (packet_receiver_task current writer now s) = Some p"
  shows "packet_wf p \<and> (\<exists>k < 32. k + 32 \<le> get_ptr_delta current s
     \<and> ring_slice s k = write_raw_packet p
     \<and> dma_ptr (snd (packet_receiver_task current writer now s)) = (dma_ptr s + k + 32) mod 1024)"
proof -
  let ?s = "note_writer (current mod 1024) now s"
  obtain o' t d where sc: "rx_scan 32 (get_ptr_delta current s) now ?s False = (o', t, d)"
    by (metis prod_cases3)
  with assms(2) have o': "o' = Rx_packet p"
    by (auto simp: packet_receiver_task_def Let_def split: if_splits rx_outcome.splits)
  from rx_scan_delivered [OF sc [unfolded o']] assms(1) obtain k where k: "k < 32"
    "k + 32 \<le> get_ptr_delta current s" "read_raw_packet (ring_slice s k) = Some p"
    "dma_ptr t = (dma_ptr s + k + 32) mod 1024" by (auto simp: rx_ok_def)
  from k(3) have "packet_wf p \<and> write_raw_packet p = ring_slice s k"
    by (intro read_raw_packet_canonical) simp_all
  moreover have "dma_ptr (snd (packet_receiver_task current writer now s)) = dma_ptr t"
    using assms(2) sc o' by (auto simp: packet_receiver_task_def Let_def split: if_splits)
  ultimately show ?thesis using k by auto
qed

theorem uart_receiver_authentic_witness:
  "fst (packet_receiver_task 32 32 0 rx_example) = Some heartbeat_packet \<and> packet_wf heartbeat_packet"
proof -
  have "\<exists>t d'. rx_scan 32 (get_ptr_delta 32 rx_example) 0 (note_writer 32 0 rx_example) False
      = (Rx_packet heartbeat_packet, t, d') \<and> rx_buf t = rx_buf (note_writer 32 0 rx_example)
      \<and> dma_ptr t = (dma_ptr (note_writer 32 0 rx_example) + 0 + 32) mod 1024"
    using rx_example_ok rx_example_frame by (intro rx_scan_finds) (simp_all add: rx_ok_def)
  then have "fst (packet_receiver_task 32 32 0 rx_example) = Some heartbeat_packet"
    using rx_example_ok(3) by (auto simp: packet_receiver_task_def Let_def)
  then show ?thesis using uart_receiver_authentic [OF rx_example_ok(1)] by blast
qed

text \<open>
  Progress. A pass over a ring with unread bytes consumes at least one of them, never more
  than there are and never more than 63, or else it is waiting at a start byte with fewer than
  thirty-two bytes available and the partial-frame timer armed for that byte, which the next
  passes discard after 50 ms: the receiver cannot stay stuck.
\<close>

theorem uart_receiver_progress:
  assumes "rx_ok s" "get_ptr_delta current s \<noteq> 0"
    and "t = snd (packet_receiver_task current writer now s)"
  shows "rx_ok t \<and>
    ((\<exists>n. 0 < n \<and> n \<le> get_ptr_delta current s \<and> n < 64 \<and> dma_ptr t = (dma_ptr s + n) mod 1024)
     \<or> (get_ptr_delta current s < 32 \<and> dma_ptr t = dma_ptr s \<and> is_start_of_packet s
        \<and> \<not> stale_partial now s \<and> uart_partial t \<and> uart_partial_cursor t = dma_ptr t))"
proof -
  let ?s = "note_writer (current mod 1024) now s"
  obtain o' u d where sc: "rx_scan 32 (get_ptr_delta current s) now ?s False = (o', u, d)"
    by (metis prod_cases3)
  have t: "dma_ptr t = dma_ptr u" "uart_partial t = uart_partial u" "uart_partial_cursor t = uart_partial_cursor u"
    using assms(2) sc by (auto simp: assms(3) packet_receiver_task_def Let_def split: rx_outcome.splits)
  have "rx_ok t" using packet_receiver_task_ok [OF assms(1)] by (simp add: assms(3))
  moreover have p: "dma_ptr ?s < 1024" using assms(1) by (simp add: rx_ok_def)
  have "rx_scan (Suc 31) (get_ptr_delta current s) now ?s False = (o', u, d)" using sc by simp
  from rx_scan_progress [OF p assms(2) this] t
  have "(\<exists>n. 0 < n \<and> n \<le> get_ptr_delta current s \<and> n < 64 \<and> dma_ptr t = (dma_ptr s + n) mod 1024)
     \<or> (get_ptr_delta current s < 32 \<and> dma_ptr t = dma_ptr s \<and> is_start_of_packet s
        \<and> \<not> stale_partial now s \<and> uart_partial t \<and> uart_partial_cursor t = dma_ptr t)" by auto
  ultimately show ?thesis by blast
qed

theorem uart_receiver_progress_witness:
  "get_ptr_delta 32 rx_example \<noteq> 0 \<and> rx_ok (snd (packet_receiver_task 32 32 0 rx_example))"
  using uart_receiver_progress [OF rx_example_ok(1) _ refl, of 32 32 0] rx_example_ok(3) by simp

text \<open>
  Erasing consumed bytes never destroys input: whatever range is erased, every byte between
  the read position and the DMA's position at that moment keeps its value.
\<close>

theorem uart_erase_keeps_unread:
  assumes "rx_ok s" "k < get_ptr_delta writer s"
  shows "rx_buf (uart_rx_erase_consumed s start len writer) ! ((dma_ptr s + k) mod 1024)
       = rx_buf s ! ((dma_ptr s + k) mod 1024)"
  using assms by (rule erase_keeps_unread_byte)


theorem uart_erase_keeps_unread_witness:
  "rx_buf (uart_rx_erase_consumed rx_example 0 32 32) ! 0 = 0x7e"
  using uart_erase_keeps_unread [OF rx_example_ok(1), of 0 32 0 32] rx_example_ok(3)
  by (simp add: rx_example_def write_raw_packet_def)

end
