(* ===== verification/Zoom_Tracker.thy ===== *)
theory Zoom_Tracker
  imports Prelude
begin

text \<open>
  Inference of the macOS accessibility zoom (zoom\_tracker.h, zoom\_tracker.c): the first
  Command-scroll teaches the zoom-in direction, zoom-in adds to a debt, zoom-out pays it back, and
  only a deliberate overscroll followed by a quiet period ends the assist. HID deltas are \<open>int\<close>,
  the saturating 16-bit counters are naturals with the saturation written out, times are 64-bit
  words that wrap as the code's do.
\<close>

unbundle bit_operations_syntax

subsection \<open>The code\<close>

record zoom_tracker =
  zoom_in_direction :: int
  zoom_active :: bool
  exit_pending :: bool
  zoom_debt :: nat
  zoom_overscroll :: nat
  exit_deadline :: u64

definition saturating_add :: "nat \<Rightarrow> nat \<Rightarrow> nat \<Rightarrow> nat" where
  "saturating_add value amount maximum =
     (if amount \<ge> maximum \<or> value \<ge> maximum - amount then maximum else value + amount)"

definition zoom_canonicalize_wheel :: "int \<Rightarrow> int" where
  "zoom_canonicalize_wheel wheel =
     (if wheel > 127 then 127 else if wheel < -128 then -128 else wheel)"

definition zoom_modifier_state_is_fresh :: "u8 \<Rightarrow> u64 \<Rightarrow> u64 \<Rightarrow> bool" where
  "zoom_modifier_state_is_fresh modifiers last_seen now =
     (modifiers \<noteq> 0 \<and> now - last_seen \<le> 2500000)"

definition zoom_tracker_observe :: "zoom_tracker \<Rightarrow> int \<Rightarrow> u64 \<Rightarrow> bool \<times> zoom_tracker" where
  "zoom_tracker_observe t wheel now =
     (if wheel = 0 then (False, t)
      else
        let direction = (if wheel < 0 then -1 else 1);
            amount = nat \<bar>wheel\<bar>;
            t1 = t\<lparr>exit_pending := False, exit_deadline := 0,
                   zoom_in_direction :=
                     (if zoom_in_direction t = 0 then direction else zoom_in_direction t)\<rparr>
        in if direction = zoom_in_direction t1 then
             (True, t1\<lparr>zoom_debt := saturating_add (zoom_debt t1) amount 65535,
                       zoom_overscroll := 0, zoom_active := True\<rparr>)
           else if \<not> zoom_active t1 then (False, t1)
           else if amount < zoom_debt t1 then
             (True, t1\<lparr>zoom_debt := zoom_debt t1 - amount, zoom_overscroll := 0\<rparr>)
           else
             let over = saturating_add (zoom_overscroll t1) (amount - zoom_debt t1) 65535;
                 t2 = t1\<lparr>zoom_debt := 0, zoom_overscroll := over\<rparr>
             in (True, if over \<ge> 6 then t2\<lparr>exit_pending := True, exit_deadline := now + 250000\<rparr> else t2))"

definition zoom_tracker_task :: "zoom_tracker \<Rightarrow> u64 \<Rightarrow> bool \<times> zoom_tracker" where
  "zoom_tracker_task t now =
     (if \<not> zoom_active t \<or> \<not> exit_pending t \<or> now < exit_deadline t then (False, t)
      else (True, t\<lparr>zoom_active := False, exit_pending := False, zoom_debt := 0,
                    zoom_overscroll := 0, exit_deadline := 0\<rparr>))"

definition zoom_tracker_clear :: "zoom_tracker \<Rightarrow> bool \<Rightarrow> bool \<times> zoom_tracker" where
  "zoom_tracker_clear t forget_direction =
     (zoom_active t \<or> exit_pending t \<or> zoom_debt t \<noteq> 0 \<or> zoom_overscroll t \<noteq> 0
        \<or> (forget_direction \<and> zoom_in_direction t \<noteq> 0),
      \<lparr>zoom_in_direction = (if forget_direction then 0 else zoom_in_direction t),
       zoom_active = False, exit_pending = False, zoom_debt = 0, zoom_overscroll = 0,
       exit_deadline = 0\<rparr>)"

definition zoom_tracker_boot :: zoom_tracker where
  "zoom_tracker_boot = \<lparr>zoom_in_direction = 0, zoom_active = False, exit_pending = False,
     zoom_debt = 0, zoom_overscroll = 0, exit_deadline = 0\<rparr>"

subsection \<open>The invariant\<close>

definition zoom_inv :: "zoom_tracker \<Rightarrow> bool" where
  [inv_simps]: "zoom_inv t \<longleftrightarrow> zoom_in_direction t \<in> {-1, 0, 1} \<and> zoom_debt t \<le> 65535 \<and> zoom_overscroll t \<le> 65535
     \<and> (zoom_debt t > 0 \<longrightarrow> zoom_active t \<and> zoom_overscroll t = 0)
     \<and> (zoom_overscroll t > 0 \<longrightarrow> zoom_active t)
     \<and> (zoom_active t \<longrightarrow> zoom_in_direction t \<noteq> 0)
     \<and> (exit_pending t \<longrightarrow> zoom_active t \<and> zoom_debt t = 0 \<and> zoom_overscroll t \<ge> 6)"

lemma saturating_add_min: "value \<le> maximum \<Longrightarrow> saturating_add value amount maximum = min maximum (value + amount)"
  by (auto simp: saturating_add_def)

lemma saturating_add_le: "value \<le> maximum \<Longrightarrow> saturating_add value amount maximum \<le> maximum"
  by (simp add: saturating_add_def) linarith

lemma zoom_observe_inv:
  assumes "zoom_inv t"
  shows "zoom_inv (snd (zoom_tracker_observe t w now))"
proof -
  define d a where "d = (if w < 0 then - 1 else 1 :: int)" and "a = nat \<bar>w\<bar>"
  have d: "d = 1 \<or> d = - 1" by (simp add: d_def)
  define z where "z = (if zoom_in_direction t = 0 then d else zoom_in_direction t)"
  have z: "z \<in> {-1, 0, 1}" "z \<noteq> 0" using assms d by (auto simp: z_def zoom_inv_def)
  note sat = saturating_add_le [of "zoom_debt t" 65535 a]
      saturating_add_le [of "zoom_overscroll t" 65535 "a - zoom_debt t"]
  note unfold = zoom_tracker_observe_def Let_def d_def [symmetric] a_def [symmetric] z_def [symmetric]
  have le: "zoom_debt t \<le> 65535" "zoom_overscroll t \<le> 65535" using assms by (simp_all add: zoom_inv_def)
  consider "w = 0" | "w \<noteq> 0" "d = z" | "w \<noteq> 0" "d \<noteq> z" "\<not> zoom_active t"
    | "w \<noteq> 0" "d \<noteq> z" "zoom_active t" "a < zoom_debt t"
    | "w \<noteq> 0" "d \<noteq> z" "zoom_active t" "\<not> a < zoom_debt t" by blast
  then show ?thesis
  proof cases
    case 1
    then show ?thesis using assms unfolding unfold by simp
  next
    case 2
    then show ?thesis using z sat(1) le unfolding unfold by (simp add: zoom_inv_def)
  next
    case 3
    then show ?thesis using assms z unfolding unfold by (simp add: zoom_inv_def)
  next
    case 4
    then show ?thesis using z le unfolding unfold by (simp add: zoom_inv_def)
  next
    case 5
    then show ?thesis using z sat(2) le unfolding unfold by (simp add: zoom_inv_def)
  qed
qed

lemma zoom_task_inv: "zoom_inv t \<Longrightarrow> zoom_inv (snd (zoom_tracker_task t now))"
  by (auto simp: zoom_tracker_task_def zoom_inv_def)

lemma zoom_clear_inv: "zoom_inv t \<Longrightarrow> zoom_inv (snd (zoom_tracker_clear t f))"
  by (auto simp: zoom_tracker_clear_def zoom_inv_def)

text \<open>The inputs of the tracker as one machine.\<close>

datatype zoom_event = Wheel int u64 | Tick u64 | Clear bool

fun zoom_step :: "zoom_tracker \<Rightarrow> zoom_event \<Rightarrow> bool \<times> zoom_tracker" where
  "zoom_step t (Wheel w now) = zoom_tracker_observe t w now"
| "zoom_step t (Tick now) = zoom_tracker_task t now"
| "zoom_step t (Clear f) = zoom_tracker_clear t f"

interpretation zoom_machine: machine zoom_step zoom_inv "\<lambda>_. True"
proof
  fix s i o' s'
  assume inv: "zoom_inv s" and st: "zoom_step s i = (o', s')"
  have "zoom_inv (snd (zoom_step s i))"
    using zoom_observe_inv [OF inv] zoom_task_inv [OF inv] zoom_clear_inv [OF inv] by (cases i) simp_all
  then show "zoom_inv s'" by (simp add: st)
qed

subsection \<open>Paying back the zoom\<close>

text \<open>A burst of zoom-out wheel events.\<close>

primrec zoom_out_run :: "zoom_tracker \<Rightarrow> (int \<times> u64) list \<Rightarrow> zoom_tracker" where
  "zoom_out_run t [] = t"
| "zoom_out_run t (e # es) = zoom_out_run (snd (zoom_tracker_observe t (fst e) (snd e))) es"

definition zooms_out :: "zoom_tracker \<Rightarrow> int \<times> u64 \<Rightarrow> bool" where
  "zooms_out t e \<longleftrightarrow> fst e \<noteq> 0 \<and> sgn (fst e) \<noteq> zoom_in_direction t"

definition wheel_total :: "(int \<times> u64) list \<Rightarrow> nat" where
  "wheel_total es = sum_list (map (\<lambda>e. nat \<bar>fst e\<bar>) es)"

lemma wheel_total_simps [simp]:
  "wheel_total [] = 0" "wheel_total (e # es) = nat \<bar>fst e\<bar> + wheel_total es"
  "wheel_total (es @ fs) = wheel_total es + wheel_total fs"
  by (simp_all add: wheel_total_def)

lemma observe_out:
  assumes "zoom_inv t" "zoom_active t" "zooms_out t e"
  shows "zoom_tracker_observe t (fst e) (snd e) =
    (True, t\<lparr>zoom_debt := zoom_debt t - nat \<bar>fst e\<bar>,
       zoom_overscroll := min 65535 (zoom_overscroll t + (nat \<bar>fst e\<bar> - zoom_debt t)),
       exit_pending := zoom_overscroll t + (nat \<bar>fst e\<bar> - zoom_debt t) \<ge> 6,
       exit_deadline := (if zoom_overscroll t + (nat \<bar>fst e\<bar> - zoom_debt t) \<ge> 6 then snd e + 250000 else 0)\<rparr>)"
proof -
  have dir: "(if fst e < 0 then -1 else 1) = sgn (fst e)" and nz: "zoom_in_direction t \<noteq> 0"
    and ne: "sgn (fst e) \<noteq> zoom_in_direction t" "fst e \<noteq> 0"
    using assms by (auto simp: zooms_out_def zoom_inv_def sgn_if simp del: not_less split: if_splits)
  show ?thesis
    using assms(1,2) ne nz
    unfolding zoom_tracker_observe_def Let_def dir
    by (auto simp: zoom_inv_def saturating_add_min)
qed

lemma overscroll_add:
  assumes "zoom_inv t"
  shows "min 65535 (min 65535 (zoom_overscroll t + (a - zoom_debt t)) + (b - (zoom_debt t - a))) =
      min 65535 (zoom_overscroll t + (a + b - zoom_debt t))"
    "(6 \<le> min 65535 (zoom_overscroll t + (a - zoom_debt t)) + (b - (zoom_debt t - a))) =
      (6 \<le> zoom_overscroll t + (a + b - zoom_debt t))"
proof -
  have "zoom_debt t = 0 \<or> zoom_overscroll t = 0" using assms by (auto simp: zoom_inv_def)
  then show "min 65535 (min 65535 (zoom_overscroll t + (a - zoom_debt t)) + (b - (zoom_debt t - a))) =
      min 65535 (zoom_overscroll t + (a + b - zoom_debt t))"
    "(6 \<le> min 65535 (zoom_overscroll t + (a - zoom_debt t)) + (b - (zoom_debt t - a))) =
      (6 \<le> zoom_overscroll t + (a + b - zoom_debt t))"
    by (cases "a \<le> zoom_debt t"; force simp: min_def)+
qed

lemma zoom_out_run_state:
  assumes "zoom_inv t" "zoom_active t" "\<forall>e\<in>set es. zooms_out t e" "es \<noteq> []"
  shows "let u = zoom_out_run t es in zoom_active u \<and> zoom_in_direction u = zoom_in_direction t
    \<and> zoom_debt u = zoom_debt t - wheel_total es
    \<and> zoom_overscroll u = min 65535 (zoom_overscroll t + (wheel_total es - zoom_debt t))
    \<and> exit_pending u = (zoom_overscroll t + (wheel_total es - zoom_debt t) \<ge> 6)
    \<and> exit_deadline u = (if exit_pending u then snd (last es) + 250000 else 0)"
  using assms
proof (induction es arbitrary: t)
  case Nil
  then show ?case by simp
next
  case (Cons e es)
  define t1 where "t1 = snd (zoom_tracker_observe t (fst e) (snd e))"
  have ob: "t1 = t\<lparr>zoom_debt := zoom_debt t - nat \<bar>fst e\<bar>,
       zoom_overscroll := min 65535 (zoom_overscroll t + (nat \<bar>fst e\<bar> - zoom_debt t)),
       exit_pending := zoom_overscroll t + (nat \<bar>fst e\<bar> - zoom_debt t) \<ge> 6,
       exit_deadline := (if zoom_overscroll t + (nat \<bar>fst e\<bar> - zoom_debt t) \<ge> 6 then snd e + 250000 else 0)\<rparr>"
    using observe_out [of t e] Cons.prems by (simp add: t1_def)
  have i1: "zoom_inv t1" unfolding t1_def using Cons.prems(1) by (rule zoom_observe_inv)
  show ?case
  proof (cases "es = []")
    case True
    then show ?thesis using ob Cons.prems by (simp add: t1_def [symmetric])
  next
    case False
    have "\<forall>e\<in>set es. zooms_out t1 e" using Cons.prems ob by (simp add: zooms_out_def)
    note ih = Cons.IH [OF i1 _ this False, unfolded Let_def]
    have run: "zoom_out_run t (e # es) = zoom_out_run t1 es" "last (e # es) = last es"
      using False by (simp_all add: t1_def)
    show ?thesis unfolding Let_def run
    proof (intro conjI)
      have act: "zoom_active t1" using Cons.prems(2) ob by simp
      note ih = ih [OF act] and over = overscroll_add [OF Cons.prems(1), of "nat \<bar>fst e\<bar>" "wheel_total es"]
      have fields: "zoom_debt t1 = zoom_debt t - nat \<bar>fst e\<bar>"
        "zoom_overscroll t1 = min 65535 (zoom_overscroll t + (nat \<bar>fst e\<bar> - zoom_debt t))"
        unfolding ob by simp_all
      show "zoom_active (zoom_out_run t1 es)" "zoom_in_direction (zoom_out_run t1 es) = zoom_in_direction t"
        "exit_deadline (zoom_out_run t1 es) = (if exit_pending (zoom_out_run t1 es) then snd (last es) + 250000 else 0)"
        using ih ob by simp_all
      show "zoom_debt (zoom_out_run t1 es) = zoom_debt t - wheel_total (e # es)"
        using ih ob by simp
      show "zoom_overscroll (zoom_out_run t1 es) = min 65535 (zoom_overscroll t + (wheel_total (e # es) - zoom_debt t))"
        "exit_pending (zoom_out_run t1 es) = (6 \<le> zoom_overscroll t + (wheel_total (e # es) - zoom_debt t))"
        using ih by (simp_all only: fields over wheel_total_simps)
    qed
  qed
qed

subsection \<open>Properties\<close>

text \<open>
  The tracker's invariant holds after any sequence of wheel events, timer ticks and clears from
  boot: counters stay within 16 bits, a debt or an overscroll exists only while the assist is
  active, and an exit is pending only with the debt fully paid and at least six units of overscroll.
\<close>

theorem zoom_tracker_invariant: "zoom_inv (snd (run_machine zoom_step zoom_tracker_boot es))"
  using zoom_machine.run_inv [of zoom_tracker_boot es]
  by (cases "run_machine zoom_step zoom_tracker_boot es")
     (simp add: zoom_inv_def zoom_tracker_boot_def list_all_iff)

text \<open>
  The assist ends exactly on a deliberate zoom-out. After any non-empty burst of zoom-out
  scrolling from an active state, the periodic task switches the assist off at time \<open>now\<close> if and
  only if the burst has paid back the whole debt with six further units of overscroll and \<open>now\<close> has
  reached 250 ms after the last wheel event; otherwise the state is left unchanged.
\<close>

theorem zoom_assist_exit:
  assumes "zoom_inv t" "zoom_active t" "es \<noteq> []" "\<forall>e\<in>set es. zooms_out t e"
  shows "zoom_tracker_task (zoom_out_run t es) now =
    (if zoom_debt t + 6 \<le> zoom_overscroll t + wheel_total es \<and> snd (last es) + 250000 \<le> now
     then (True, (zoom_out_run t es)\<lparr>zoom_active := False, exit_pending := False, zoom_debt := 0,
        zoom_overscroll := 0, exit_deadline := 0\<rparr>)
     else (False, zoom_out_run t es))"
proof -
  have "zoom_overscroll t + (wheel_total es - zoom_debt t) \<ge> 6 \<longleftrightarrow>
      zoom_debt t + 6 \<le> zoom_overscroll t + wheel_total es"
    using assms(1) by (auto simp: zoom_inv_def)
  then show ?thesis
    using zoom_out_run_state [OF assms(1,2,4,3)] by (auto simp: zoom_tracker_task_def Let_def not_less)
qed

theorem zoom_assist_exit_witness:
  "fst (zoom_tracker_task (zoom_out_run \<lparr>zoom_in_direction = 1, zoom_active = True, exit_pending = False,
     zoom_debt = 3, zoom_overscroll = 0, exit_deadline = 0\<rparr> [(-4, 10), (-5, 20)]) 250020)"
  using zoom_assist_exit [of "\<lparr>zoom_in_direction = 1, zoom_active = True, exit_pending = False,
     zoom_debt = 3, zoom_overscroll = 0, exit_deadline = 0\<rparr>" "[(-4, 10), (-5, 20)]" 250020]
  by (simp add: zoom_inv_def zooms_out_def)

end
