(* ===== verification/Screensaver_Policy.thy ===== *)
theory Screensaver_Policy
  imports Prelude
begin

text \<open>
  Activity ages exchanged between the boards and the system idle timeout
  (screensaver\_policy.h, screensaver\_policy.c), at the code's word widths. The properties bound the
  error of exchanging an age in whole seconds and show that merging never moves activity backwards.
\<close>

unbundle bit_operations_syntax

definition activity_age_seconds :: "u64 \<Rightarrow> u64 \<Rightarrow> bool \<Rightarrow> u32" where
  "activity_age_seconds now_us activity_us valid =
     (if \<not> valid then 0xffffffff
      else if activity_us \<ge> now_us then 0
      else let age_sec = (now_us - activity_us) div 1000000 in
        if age_sec > 0xfffffffe then 0xfffffffe else ucast age_sec)"

text \<open>The second component is the new value of \<open>*activity_us\<close>.\<close>

definition activity_merge_age_seconds :: "u64 \<Rightarrow> u32 \<Rightarrow> u64 \<Rightarrow> bool \<times> u64" where
  "activity_merge_age_seconds now_us age_sec activity_us =
     (if age_sec = 0xffffffff then (False, activity_us)
      else let age_us = ucast age_sec * 1000000 in
        if age_us > now_us then (False, activity_us)
        else let candidate = now_us - age_us in
          (True, if candidate > activity_us then candidate else activity_us))"

primrec latest_from :: "u64 list \<Rightarrow> u8 \<Rightarrow> u64 list \<Rightarrow> u8 \<Rightarrow> nat list \<Rightarrow> u64 \<Rightarrow> u64" where
  "latest_from direct direct_valid peer peer_valid [] latest = latest"
| "latest_from direct direct_valid peer peer_valid (i # is) latest =
     (let mask = push_bit i 1;
          l1 = (if direct_valid AND mask \<noteq> 0 \<and> direct ! i > latest then direct ! i else latest);
          l2 = (if peer_valid AND mask \<noteq> 0 \<and> peer ! i > l1 then peer ! i else l1)
      in latest_from direct direct_valid peer peer_valid is l2)"

definition activity_latest_timestamp :: "u64 list \<Rightarrow> u8 \<Rightarrow> u64 list \<Rightarrow> u8 \<Rightarrow> u64" where
  "activity_latest_timestamp direct direct_valid peer peer_valid =
     latest_from direct direct_valid peer peer_valid [0, 1] 0"

definition screensaver_system_idle_timed_out :: "u64 \<Rightarrow> u64 \<Rightarrow> u32 \<Rightarrow> bool" where
  "screensaver_system_idle_timed_out now_us latest_activity_us timeout_sec =
     (if timeout_sec = 0 \<or> latest_activity_us > now_us then False
      else now_us - latest_activity_us \<ge> ucast timeout_sec * 1000000)"

subsection \<open>Arithmetic\<close>

lemma unat_seconds: "unat (ucast (a :: u32) * 1000000 :: u64) = unat a * 1000000"
proof -
  have "unat a * 1000000 < 2 ^ 64" using unat_u32_less [of a] by simp
  moreover have "unat (ucast a :: u64) = unat a"
    using unat_u32_less [of a] by (simp add: unsigned_ucast_eq unsigned_take_bit_eq take_bit_nat_eq_self)
  ultimately show ?thesis by (simp add: unat_word_ariths)
qed

lemma unat_sub_le: "(b :: u64) \<le> a \<Longrightarrow> unat (a - b) = unat a - unat b"
  by (simp add: unat_sub)

lemma activity_age_value:
  assumes "t < now" "(unat now - unat t) div 1000000 \<le> 4294967294"
  shows "unat (activity_age_seconds now t True) = (unat now - unat t) div 1000000"
proof -
  from assms(1) have d: "unat ((now - t) div 1000000) = (unat now - unat t) div 1000000"
    by (simp add: unat_div unat_sub)
  then have "\<not> (now - t) div 1000000 > 0xfffffffe" using assms(2) by (simp add: word_less_nat_alt)
  moreover have "unat (ucast ((now - t) div 1000000) :: u32) = (unat now - unat t) div 1000000"
    using d assms(2) by (simp add: unsigned_ucast_eq unsigned_take_bit_eq take_bit_nat_eq_self)
  ultimately show ?thesis using assms(1) by (simp add: activity_age_seconds_def Let_def)
qed

lemma merge_monotone: "activity_us \<le> snd (activity_merge_age_seconds now age activity_us)"
  by (auto simp: activity_merge_age_seconds_def Let_def)

subsection \<open>Properties\<close>

text \<open>
  Exchanging activity as an age in whole seconds loses less than a second and never ages it: an
  event at time \<open>t\<close>, announced and merged at time \<open>now\<close> (less than about 136 years later), yields a
  time stamp that is at least \<open>t\<close> and less than one second later, or the newer value already held.
\<close>

theorem activity_exchange_error:
  assumes "t \<le> now" "(unat now - unat t) div 1000000 \<le> 4294967294"
    and "r = activity_merge_age_seconds now (activity_age_seconds now t True) prev"
  shows "fst r \<and> t \<le> snd r \<and> prev \<le> snd r \<and> (snd r = prev \<or> unat (snd r) < unat t + 1000000)"
proof -
  let ?age = "activity_age_seconds now t True"
  have age: "unat ?age = (unat now - unat t) div 1000000"
  proof (cases "t = now")
    case True
    then show ?thesis by (simp add: activity_age_seconds_def)
  next
    case False
    with assms(1) have "t < now" by simp
    then show ?thesis by (rule activity_age_value [OF _ assms(2)])
  qed
  have ne: "?age \<noteq> 0xffffffff" using age assms(2) by (auto simp: word_unat_eq_iff)
  have us: "unat (ucast ?age * 1000000 :: u64) = (unat now - unat t) div 1000000 * 1000000"
    by (simp add: unat_seconds age)
  have tn: "unat t \<le> unat now" using assms(1) by (simp add: word_le_nat_alt)
  have div_le: "(unat now - unat t) div 1000000 * 1000000 \<le> unat now - unat t"
    and div_gt: "unat now - unat t < (unat now - unat t) div 1000000 * 1000000 + 1000000"
    using div_mult_mod_eq [of "unat now - unat t" 1000000]
      mod_less_divisor [of 1000000 "unat now - unat t"] by linarith+
  have le: "(ucast ?age * 1000000 :: u64) \<le> now"
    using us div_le by (simp add: word_le_nat_alt)
  have c: "unat (now - ucast ?age * 1000000) = unat now - (unat now - unat t) div 1000000 * 1000000"
    using unat_sub_le [OF le] us by simp
  have ge: "unat t \<le> unat now - (unat now - unat t) div 1000000 * 1000000" using div_le tn by linarith
  show ?thesis
    using ne le c ge div_gt tn
    by (auto simp: assms(3) activity_merge_age_seconds_def Let_def not_less word_le_nat_alt word_less_nat_alt)
qed

theorem activity_exchange_error_witness:
  "snd (activity_merge_age_seconds 9500000 (activity_age_seconds 9500000 4200000 True) 0) = 4500000"
  using activity_exchange_error [of 4200000 9500000 _ 0, OF _ _ refl]
  by (simp add: activity_merge_age_seconds_def activity_age_seconds_def)

text \<open>
  The idle timeout compares true durations: with a timeout set, it fires exactly when the time
  since the latest activity, as a natural number of microseconds, is at least the timeout, with no
  overflow for any 32-bit number of seconds; a zero timeout or activity in the future never fires.
\<close>

theorem idle_timeout_exact:
  "screensaver_system_idle_timed_out now latest timeout \<longleftrightarrow>
     timeout \<noteq> 0 \<and> unat latest \<le> unat now \<and> unat timeout * 1000000 \<le> unat now - unat latest"
  by (auto simp: screensaver_system_idle_timed_out_def word_le_nat_alt word_less_nat_alt unat_seconds unat_sub_le)

end
