(* ===== verification/History.thy ===== *)
theory History
  imports Prelude
begin

text \<open>
  The diagnostic event ring (history.h, history.c) and the store shared by the two cores
  (diagnostic\_history.c). The 64 slots are written round robin by a 64-bit sequence number. The
  abstract contract is a list: the retained events are the last 64 recorded, reading by sequence
  number returns the event recorded under it, and a window lists the newest events oldest first.
\<close>

subsection \<open>The code\<close>

record history_event =
  ev_seq :: u64
  ev_time_us :: u64
  ev_value :: u32
  ev_type :: u8
  ev_a :: u8
  ev_b :: u8
  ev_reserved :: u8

record history_store =
  hs_records :: "history_event list"
  hs_next_seq :: u64
  hs_overwritten :: u64
  hs_count :: nat

record history_window =
  hw_first_seq :: u64
  hw_end_seq :: u64
  hw_oldest_seq :: u64
  hw_overwritten :: u64
  hw_count :: nat

definition history_event_zero :: history_event where
  "history_event_zero = \<lparr>ev_seq = 0, ev_time_us = 0, ev_value = 0, ev_type = 0, ev_a = 0, ev_b = 0,
     ev_reserved = 0\<rparr>"

definition history_store_init :: history_store where
  "history_store_init = \<lparr>hs_records = replicate 64 history_event_zero, hs_next_seq = 1,
     hs_overwritten = 0, hs_count = 0\<rparr>"

definition history_store_record ::
    "history_store \<Rightarrow> u64 \<Rightarrow> u8 \<Rightarrow> u8 \<Rightarrow> u8 \<Rightarrow> u32 \<Rightarrow> history_store" where
  "history_store_record s time_us type a b value =
     (if hs_next_seq s = 0xffffffffffffffff then s
      else
        let seq = hs_next_seq s;
            s1 = s\<lparr>hs_next_seq := seq + 1,
                   hs_records := (hs_records s)[unat ((seq - 1) mod 64) :=
                     \<lparr>ev_seq = seq, ev_time_us = time_us, ev_value = value, ev_type = type,
                      ev_a = a, ev_b = b, ev_reserved = 0\<rparr>]\<rparr>
        in if hs_count s < 64 then s1\<lparr>hs_count := hs_count s + 1\<rparr>
           else s1\<lparr>hs_overwritten := hs_overwritten s + 1\<rparr>)"

definition history_store_window :: "history_store \<Rightarrow> nat \<Rightarrow> history_window" where
  "history_store_window s limit =
     (let count = (if limit < hs_count s then limit else hs_count s) in
      \<lparr>hw_first_seq = hs_next_seq s - of_nat count, hw_end_seq = hs_next_seq s,
       hw_oldest_seq = hs_next_seq s - of_nat (hs_count s),
       hw_overwritten = hs_overwritten s, hw_count = count\<rparr>)"

definition history_store_read :: "history_store \<Rightarrow> u64 \<Rightarrow> history_event option" where
  "history_store_read s seq =
     (if seq < hs_next_seq s - of_nat (hs_count s) \<or> seq \<ge> hs_next_seq s then None
      else Some (hs_records s ! unat ((seq - 1) mod 64)))"

text \<open>The shared store: nothing is recorded or read before \<open>diagnostic_history_init\<close> (\<open>None\<close> is the
  uninitialised store). The spin lock makes each call atomic; the time is the call's clock reading.\<close>

definition diagnostic_history_init :: "history_store option \<Rightarrow> history_store option" where
  "diagnostic_history_init d = Some history_store_init"

definition diagnostic_history_record ::
    "u64 \<Rightarrow> history_store option \<Rightarrow> u8 \<Rightarrow> u8 \<Rightarrow> u8 \<Rightarrow> u32 \<Rightarrow> history_store option" where
  "diagnostic_history_record now d type a b value =
     (case d of None \<Rightarrow> None | Some s \<Rightarrow> Some (history_store_record s now type a b value))"

definition diagnostic_history_window_at :: "u64 \<Rightarrow> history_store option \<Rightarrow> nat \<Rightarrow> u64 \<times> history_window" where
  "diagnostic_history_window_at now d limit =
     (case d of
        None \<Rightarrow> (0, \<lparr>hw_first_seq = 0, hw_end_seq = 0, hw_oldest_seq = 0, hw_overwritten = 0, hw_count = 0\<rparr>)
      | Some s \<Rightarrow> (now, history_store_window s limit))"

definition diagnostic_history_read :: "history_store option \<Rightarrow> u64 \<Rightarrow> history_event option" where
  "diagnostic_history_read d seq = (case d of None \<Rightarrow> None | Some s \<Rightarrow> history_store_read s seq)"

subsection \<open>The contract\<close>

text \<open>An event as its caller gives it; the store adds the sequence number.\<close>

type_synonym log_entry = "u64 \<times> u8 \<times> u8 \<times> u8 \<times> u32"

definition log_event :: "nat \<Rightarrow> log_entry \<Rightarrow> history_event" where
  "log_event seq e = (case e of (t, ty, a, b, v) \<Rightarrow>
     \<lparr>ev_seq = of_nat seq, ev_time_us = t, ev_value = v, ev_type = ty, ev_a = a, ev_b = b, ev_reserved = 0\<rparr>)"

definition log_record :: "history_store \<Rightarrow> log_entry \<Rightarrow> history_store" where
  "log_record s e = (case e of (t, ty, a, b, v) \<Rightarrow> history_store_record s t ty a b v)"

text \<open>The number of events recorded so far and the retained ones.\<close>

definition log_length :: "history_store \<Rightarrow> nat" where
  "log_length s = unat (hs_next_seq s) - 1"

definition log_slot :: "history_store \<Rightarrow> nat \<Rightarrow> history_event" where
  "log_slot s k = hs_records s ! (k mod 64)"

definition retained :: "history_store \<Rightarrow> history_event list" where
  "retained s = map (log_slot s) [log_length s - hs_count s ..< log_length s]"

definition history_ok :: "history_store \<Rightarrow> bool" where
  "history_ok s \<longleftrightarrow> length (hs_records s) = 64 \<and> hs_next_seq s \<noteq> 0
     \<and> hs_count s = min 64 (log_length s) \<and> unat (hs_overwritten s) = log_length s - hs_count s"

text \<open>A store of events as its readers use it.\<close>

locale event_log =
  fixes record_event :: "'s \<Rightarrow> 'i \<Rightarrow> 's"
    and item :: "nat \<Rightarrow> 'i \<Rightarrow> 'e"
    and kept :: "'s \<Rightarrow> 'e list"
    and total :: "'s \<Rightarrow> nat"
    and ok :: "'s \<Rightarrow> bool"
    and cap :: nat
    and limit :: nat
  assumes record_ok: "ok s \<Longrightarrow> total s < limit \<Longrightarrow> ok (record_event s i)"
    and record_total: "ok s \<Longrightarrow> total s < limit \<Longrightarrow> total (record_event s i) = Suc (total s)"
    and record_kept: "ok s \<Longrightarrow> total s < limit \<Longrightarrow>
      kept (record_event s i) = drop (Suc (length (kept s)) - cap) (kept s @ [item (Suc (total s)) i])"
begin

definition numbered :: "nat \<Rightarrow> 'i list \<Rightarrow> 'e list" where
  "numbered n is = map (\<lambda>k. item (n + Suc k) (is ! k)) [0..<length is]"

lemma numbered_snoc: "numbered n (is @ [i]) = numbered n is @ [item (Suc (n + length is)) i]"
  by (simp add: numbered_def nth_append)

lemma length_numbered [simp]: "length (numbered n is) = length is"
  by (simp add: numbered_def)

lemma record_all:
  assumes "ok s" "total s + length is \<le> limit" "length (kept s) \<le> cap"
  shows "ok (foldl record_event s is) \<and> total (foldl record_event s is) = total s + length is
    \<and> kept (foldl record_event s is) =
        drop (length (kept s) + length is - cap) (kept s @ numbered (total s) is)"
  using assms
proof (induction "is" rule: rev_induct)
  case Nil
  then show ?case by (simp add: numbered_def)
next
  case (snoc i "is")
  let ?t = "foldl record_event s is"
  from snoc have ih: "ok ?t" "total ?t = total s + length is"
    "kept ?t = drop (length (kept s) + length is - cap) (kept s @ numbered (total s) is)" by auto
  have lt: "total ?t < limit" using snoc.prems ih by simp
  have "kept (record_event ?t i) =
      drop (Suc (length (kept ?t)) - cap) (kept ?t @ [item (Suc (total ?t)) i])"
    using record_kept [OF ih(1) lt] .
  also have "\<dots> = drop (length (kept s) + length (is @ [i]) - cap) (kept s @ numbered (total s) (is @ [i]))"
    unfolding ih(3) ih(2) numbered_snoc
    using drop_all_but_last_snoc [of "kept s @ numbered (total s) is" cap] by simp
  finally show ?case using record_ok [OF ih(1) lt] record_total [OF ih(1) lt] ih by simp
qed

end

lemma log_slot_index:
  fixes seq :: u64
  assumes "seq \<noteq> 0"
  shows "hs_records s ! unat ((seq - 1) mod 64) = log_slot s (unat seq - 1)"
  using assms by (simp add: log_slot_def unat_mod unat_minus_one)

lemma length_retained: "history_ok s \<Longrightarrow> length (retained s) = hs_count s"
  by (simp add: history_ok_def retained_def)

lemma next_seq_value: "history_ok s \<Longrightarrow> unat (hs_next_seq s) = Suc (log_length s)"
  using unat_gt_0 [of "hs_next_seq s"] by (simp add: history_ok_def log_length_def)

lemma record_fields:
  assumes ok: "history_ok s" and room: "log_length s < 2 ^ 64 - 2"
  shows "log_length (log_record s e) = Suc (log_length s)"
    and "hs_count (log_record s e) = min 64 (Suc (log_length s))"
    and "length (hs_records (log_record s e)) = 64"
    and "hs_next_seq (log_record s e) \<noteq> 0"
    and "unat (hs_overwritten (log_record s e)) = Suc (log_length s) - hs_count (log_record s e)"
    and "k \<le> log_length s \<Longrightarrow> log_length s < k + 64 \<Longrightarrow> log_slot (log_record s e) k =
      (if k = log_length s then log_event (Suc (log_length s)) e else log_slot s k)"
proof -
  obtain t ty a b v where e: "e = (t, ty, a, b, v)" by (cases e)
  have pos: "hs_next_seq s \<noteq> 0" and len: "length (hs_records s) = 64"
    and cnt: "hs_count s = min 64 (log_length s)"
    and ow: "unat (hs_overwritten s) = log_length s - hs_count s" using ok by (auto simp: history_ok_def)
  have n: "unat (hs_next_seq s) = Suc (log_length s)"
    using next_seq_value [OF ok] .
  have ne: "hs_next_seq s \<noteq> 0xffffffffffffffff"
    using n room by (auto simp: word_unat_eq_iff)
  have n': "unat (hs_next_seq s + 1) = Suc (Suc (log_length s))"
    using n room by (simp add: unat_word_ariths)
  have ow': "unat (hs_overwritten s + 1) = Suc (log_length s - hs_count s)"
    using ow room by (simp add: unat_word_ariths)
  have idx: "unat ((hs_next_seq s - 1) mod 64) = log_length s mod 64"
    using pos n by (simp add: unat_mod unat_minus_one)
  have nxt: "hs_next_seq s = of_nat (Suc (log_length s))" using n by (metis of_nat_unat ucast_id)
  note step = log_record_def e history_store_record_def Let_def
  show "log_length (log_record s e) = Suc (log_length s)"
    using ne n' by (simp add: step log_length_def)
  show "hs_count (log_record s e) = min 64 (Suc (log_length s))"
    using ne cnt by (simp add: step min_def)
  show "length (hs_records (log_record s e)) = 64" using ne len by (simp add: step)
  show "hs_next_seq (log_record s e) \<noteq> 0" using ne n' by (auto simp: step)
  show "unat (hs_overwritten (log_record s e)) = Suc (log_length s) - hs_count (log_record s e)"
    using ne cnt ow ow' by (auto simp: step min_def split: if_splits)
  show "log_slot (log_record s e) k =
      (if k = log_length s then log_event (Suc (log_length s)) e else log_slot s k)"
    if "k \<le> log_length s" "log_length s < k + 64"
  proof -
    have "k mod 64 = log_length s mod 64 \<Longrightarrow> k = log_length s"
      using that ring_index_inj [of 0 64 "log_length s - k" k] by (simp add: less_diff_conv2)
    then show ?thesis
      using ne len idx nxt
      by (auto simp: step log_slot_def log_event_def nth_list_update)
  qed
qed

lemma retained_record:
  assumes ok: "history_ok s" and room: "log_length s < 2 ^ 64 - 2"
  shows "retained (log_record s e) =
    drop (Suc (length (retained s)) - 64) (retained s @ [log_event (Suc (log_length s)) e])"
proof -
  let ?n = "log_length s" and ?c = "hs_count s" and ?c' = "min 64 (Suc (log_length s))"
  have cnt: "?c = min 64 ?n" using ok by (simp add: history_ok_def)
  have lo: "Suc ?n - ?c' = ?n - ?c + (Suc ?c - 64)" using cnt by (auto simp: min_def)
  have le: "Suc ?n - ?c' \<le> ?n" by (simp add: min_def)
  have "retained (log_record s e) = map (log_slot (log_record s e)) [Suc ?n - ?c' ..< Suc ?n]"
    by (simp add: retained_def record_fields(1,2) [OF ok room])
  also have "\<dots> = map (log_slot (log_record s e)) [Suc ?n - ?c' ..< ?n] @ [log_slot (log_record s e) ?n]"
    using le by simp
  also have "map (log_slot (log_record s e)) [Suc ?n - ?c' ..< ?n] = map (log_slot s) [Suc ?n - ?c' ..< ?n]"
    by (rule map_cong [OF refl], subst record_fields(6) [OF ok room]) auto
  also have "\<dots> = drop (Suc ?c - 64) (retained s)"
    unfolding retained_def drop_map drop_upt lo ..
  also have "log_slot (log_record s e) ?n = log_event (Suc ?n) e"
    by (simp add: record_fields(6) [OF ok room])
  finally show ?thesis using length_retained [OF ok] cnt by (simp add: min_def)
qed

interpretation history_log: event_log log_record log_event retained log_length history_ok 64 "2 ^ 64 - 2"
proof
  fix s i
  assume a: "history_ok s" "log_length s < 2 ^ 64 - 2"
  show "history_ok (log_record s i)" using record_fields [OF a] by (simp add: history_ok_def)
  show "log_length (log_record s i) = Suc (log_length s)" using record_fields(1) [OF a] .
  show "retained (log_record s i) =
      drop (Suc (length (retained s)) - 64) (retained s @ [log_event (Suc (log_length s)) i])"
    using retained_record [OF a] .
qed

lemma history_init_ok: "history_ok history_store_init" "log_length history_store_init = 0"
  "retained history_store_init = []"
  by (simp_all add: history_ok_def history_store_init_def log_length_def retained_def)

lemma recorded_state:
  assumes "length es \<le> 2 ^ 64 - 2" "s = foldl log_record history_store_init es"
  shows "history_ok s" "log_length s = length es" "hs_count s = min 64 (length es)"
    "hs_next_seq s = of_nat (Suc (length es))"
    "k < length es \<Longrightarrow> length es \<le> k + 64 \<Longrightarrow> log_slot s k = log_event (Suc k) (es ! k)"
proof -
  note all = history_log.record_all [OF history_init_ok(1), of es, unfolded history_init_ok]
  show ok: "history_ok s" and len: "log_length s = length es" using all assms by simp_all
  then show cnt: "hs_count s = min 64 (length es)" by (simp add: history_ok_def)
  have "unat (hs_next_seq s) = Suc (length es)"
    using next_seq_value [OF ok] len by simp
  then show "hs_next_seq s = of_nat (Suc (length es))" by (metis of_nat_unat ucast_id)
  show "log_slot s k = log_event (Suc k) (es ! k)" if k: "k < length es" "length es \<le> k + 64"
  proof -
    have kept: "map (log_slot s) [length es - min 64 (length es) ..< length es]
        = drop (length es - 64) (history_log.numbered 0 es)"
      using all [folded assms(2)] assms(1) unfolding retained_def len cnt by simp
    define j where "j = k - (length es - min 64 (length es))"
    have lo: "length es - min 64 (length es) = length es - 64" by (simp add: min_def)
    have j: "length es - 64 + j = k" "j < length es - (length es - 64)" using k by (auto simp: j_def lo)
    from arg_cong [OF kept, of "\<lambda>xs. xs ! j"] show ?thesis
      using j k by (simp add: lo history_log.numbered_def)
  qed
qed

lemma history_read_recorded:
  assumes "length es \<le> 2 ^ 64 - 2" "s = foldl log_record history_store_init es"
  shows "history_store_read s seq =
      (if 1 \<le> unat seq \<and> unat seq \<le> length es \<and> length es < unat seq + 64
       then Some (log_event (unat seq) (es ! (unat seq - 1))) else None)"
proof -
  note st = recorded_state [OF assms]
  have nx: "unat (hs_next_seq s) = Suc (length es)"
    using next_seq_value [OF st(1)] st(2) by simp
  have "of_nat (hs_count s) \<le> hs_next_seq s" and cnt: "unat (of_nat (hs_count s) :: u64) = hs_count s"
    using nx st(3) by (auto simp: word_le_nat_alt unsigned_of_nat take_bit_nat_eq_self)
  then have lo: "unat (hs_next_seq s - of_nat (hs_count s)) = Suc (length es) - min 64 (length es)"
    using nx st(3) by (simp add: unat_sub)
  show ?thesis
  proof (cases "1 \<le> unat seq \<and> unat seq \<le> length es \<and> length es < unat seq + 64")
    case True
    then have "seq \<noteq> 0" by auto
    have in_range: "\<not> (seq < hs_next_seq s - of_nat (hs_count s) \<or> seq \<ge> hs_next_seq s)"
      using True by (auto simp: word_less_nat_alt word_le_nat_alt nx lo min_def)
    from True st(5) [of "unat seq - 1"] show ?thesis
      unfolding history_store_read_def if_not_P [OF in_range] log_slot_index [OF \<open>seq \<noteq> 0\<close>] by auto
  next
    case False
    then have "seq < hs_next_seq s - of_nat (hs_count s) \<or> seq \<ge> hs_next_seq s"
      by (auto simp: word_less_nat_alt word_le_nat_alt nx lo min_def)
    with False show ?thesis by (auto simp: history_store_read_def)
  qed
qed

subsection \<open>Properties\<close>

text \<open>
  C36. The ring keeps exactly the last 64 events. After recording any sequence of events (the 64-bit
  sequence number not exhausted), reading a sequence number returns the event recorded under it if
  it is among the last 64 and nothing otherwise, and the overwrite counter is the number of events
  that have been lost.
\<close>

theorem history_read_exact:
  assumes "length es \<le> 2 ^ 64 - 2" "s = foldl log_record history_store_init es"
  shows "history_store_read s seq =
      (if 1 \<le> unat seq \<and> unat seq \<le> length es \<and> length es < unat seq + 64
       then Some (log_event (unat seq) (es ! (unat seq - 1))) else None)
    \<and> unat (hs_overwritten s) = length es - 64"
  using history_read_recorded [OF assms] recorded_state(1,2) [OF assms]
  by (simp add: history_ok_def min_def)

theorem history_read_exact_witness:
  "history_store_read (foldl log_record history_store_init [(5, 1, 2, 3, 4), (7, 2, 0, 0, 9)]) 2
     = Some \<lparr>ev_seq = 2, ev_time_us = 7, ev_value = 9, ev_type = 2, ev_a = 0, ev_b = 0, ev_reserved = 0\<rparr>"
  using history_read_exact [of "[(5, 1, 2, 3, 4), (7, 2, 0, 0, 9)]" _ 2, OF _ refl]
  by (simp add: log_event_def)

text \<open>
  A window lists the newest events, oldest first: reading the sequence numbers of the window of
  a given limit returns every one of the last \<open>min limit (min 64 n)\<close> recorded events in order, none
  missing.
\<close>

theorem history_window_newest:
  assumes "length es \<le> 2 ^ 64 - 2" "s = foldl log_record history_store_init es"
    "w = history_store_window s limit"
  shows "hw_count w = min limit (min 64 (length es))
    \<and> map (\<lambda>k. history_store_read s (hw_first_seq w + of_nat k)) [0..<hw_count w]
      = map (\<lambda>k. Some (log_event (Suc k) (es ! k))) [length es - hw_count w ..< length es]"
proof
  note st = recorded_state [OF assms(1,2)]
  show c: "hw_count w = min limit (min 64 (length es))"
    using st(3) by (auto simp: assms(3) history_store_window_def Let_def min_def)
  have first: "hw_first_seq w = of_nat (Suc (length es) - hw_count w)"
    using st(4) c by (simp add: assms(3) history_store_window_def Let_def of_nat_diff)
  have "history_store_read s (hw_first_seq w + of_nat k)
      = Some (log_event (Suc (length es - hw_count w + k)) (es ! (length es - hw_count w + k)))"
    if "k < hw_count w" for k
  proof -
    have eq: "hw_first_seq w + of_nat k = of_nat (Suc (length es) - hw_count w + k)" by (simp add: first)
    have "Suc (length es) - hw_count w + k < 2 ^ 64" using assms(1) that c by (simp add: min_def split: if_splits)
    then have u: "unat (hw_first_seq w + of_nat k :: u64) = Suc (length es) - hw_count w + k"
      unfolding eq by (simp add: unsigned_of_nat take_bit_nat_eq_self del: of_nat_add)
    have le: "hw_count w \<le> length es" "length es - hw_count w + 64 \<ge> length es" using c by auto
    have u': "unat (hw_first_seq w + of_nat k :: u64) = Suc (length es - hw_count w + k)"
      using u le by (simp add: Suc_diff_le)
    have cond: "1 \<le> Suc (length es - hw_count w + k) \<and> Suc (length es - hw_count w + k) \<le> length es
        \<and> length es < Suc (length es - hw_count w + k) + 64"
      using le that by linarith
    show ?thesis
      using history_read_recorded [OF assms(1,2), of "hw_first_seq w + of_nat k"]
      unfolding u' if_P [OF cond] by simp
  qed
  then show "map (\<lambda>k. history_store_read s (hw_first_seq w + of_nat k)) [0..<hw_count w]
      = map (\<lambda>k. Some (log_event (Suc k) (es ! k))) [length es - hw_count w ..< length es]"
    by (intro nth_equalityI) (use c in auto)
qed

theorem history_window_newest_witness:
  "hw_count (history_store_window (foldl log_record history_store_init [(5, 1, 2, 3, 4), (7, 2, 0, 0, 9)]) 1) = 1"
  using history_window_newest [of "[(5, 1, 2, 3, 4), (7, 2, 0, 0, 9)]" _ _ 1, OF _ refl refl] by simp

end
