(* ===== verification/Fw_Batch.thy ===== *)
theory Fw_Batch
  imports Crc
begin

text \<open>
  Firmware pages in tagged batches (fw\_batch.h, fw\_batch.c): the allocator of request tags, the
  eight-byte messages, the collector of a page and the sender of a page. Caller-owned page storage
  is a byte list in the state; \<open>None\<close> is the null pointer. The properties are end to end: a page
  is completed only from its own 64 words under a matching CRC, and any delivery of the sender's
  packets, in any order and with duplicates and foreign packets in between, completes it.
\<close>

unbundle bit_operations_syntax

subsection \<open>The code\<close>

definition valid_tag :: "u32 \<Rightarrow> bool" where
  "valid_tag tag \<longleftrightarrow> tag \<noteq> 0 \<and> tag AND NOT 0xffffffc0 = 0"

definition valid_address :: "u32 \<Rightarrow> bool" where
  "valid_address address \<longleftrightarrow> address < 262144 \<and> address mod 256 = 0"

record fw_batch_token =
  token_next :: u32
  token_exhausted :: bool

definition fw_batch_token_init :: "u64 \<Rightarrow> fw_batch_token" where
  "fw_batch_token_init boot_session =
     (let seed = (ucast boot_session XOR ucast (drop_bit 32 boot_session)) AND 0xffffffc0
      in \<lparr>token_next = (if seed \<noteq> 0 then seed else 64), token_exhausted = False\<rparr>)"

definition fw_batch_token_next :: "fw_batch_token \<Rightarrow> u32 option \<times> fw_batch_token" where
  "fw_batch_token_next s =
     (if token_exhausted s \<or> \<not> valid_tag (token_next s) then (None, s)
      else (Some (token_next s),
            if token_next s = 0xffffffc0 then s\<lparr>token_exhausted := True\<rparr>
            else s\<lparr>token_next := token_next s + 64\<rparr>))"

definition fw_batch_caps_encode_request :: "u32 \<Rightarrow> u16 \<Rightarrow> bytes option" where
  "fw_batch_caps_encode_request tag version =
     (if \<not> valid_tag tag \<or> version = 0 then None
      else Some (le32 tag @ le16 version @ le16 1))"

definition fw_batch_caps_decode_request :: "bytes \<Rightarrow> (u32 \<times> u16) option" where
  "fw_batch_caps_decode_request p =
     (if \<not> valid_tag (get32 p 0) \<or> get16 p 4 = 0 \<or> get16 p 6 \<noteq> 1 then None
      else Some (get32 p 0, get16 p 4))"

definition fw_batch_caps_encode_response :: "u32 \<Rightarrow> u32 \<Rightarrow> bytes option" where
  "fw_batch_caps_encode_response tag checksum =
     (if \<not> valid_tag tag then None else Some (le32 tag @ le32 checksum))"

definition fw_batch_caps_response_matches :: "bytes \<Rightarrow> u32 \<Rightarrow> u32 \<Rightarrow> bool" where
  "fw_batch_caps_response_matches p tag checksum \<longleftrightarrow>
     valid_tag tag \<and> get32 p 0 = tag \<and> get32 p 4 = checksum"

definition fw_batch_request_encode :: "u32 \<Rightarrow> u32 \<Rightarrow> bytes option" where
  "fw_batch_request_encode tag address =
     (if \<not> valid_tag tag \<or> \<not> valid_address address then None
      else Some (le32 tag @ le32 address))"

definition fw_batch_request_decode :: "bytes \<Rightarrow> (u32 \<times> u32) option" where
  "fw_batch_request_decode p =
     (if \<not> valid_tag (get32 p 0) \<or> \<not> valid_address (get32 p 4) then None
      else Some (get32 p 0, get32 p 4))"

datatype fw_batch_kind = FW_BATCH_DATA | FW_BATCH_END

definition fw_batch_data_encode :: "u32 \<Rightarrow> u32 \<Rightarrow> bytes \<Rightarrow> bytes option" where
  "fw_batch_data_encode tag word data =
     (if \<not> valid_tag tag \<or> word \<ge> 64 then None
      else Some (le32 (tag OR word) @ take 4 data))"

definition fw_batch_end_encode :: "u32 \<Rightarrow> u32 \<Rightarrow> bytes option" where
  "fw_batch_end_encode tag checksum = fw_batch_caps_encode_response tag checksum"

record fw_batch_rx =
  rx_tag :: u32
  rx_address :: u32
  rx_checksum :: u32
  rx_received :: u64
  rx_page :: "bytes option"
  rx_active :: bool
  rx_have_end :: bool
  rx_invalid :: bool

datatype fw_batch_rx_result =
  FW_BATCH_RX_IGNORED | FW_BATCH_RX_PROGRESS | FW_BATCH_RX_COMPLETE | FW_BATCH_RX_INVALID

definition fw_batch_rx_cancel :: "fw_batch_rx \<Rightarrow> fw_batch_rx" where
  "fw_batch_rx_cancel s = \<lparr>rx_tag = 0, rx_address = 0, rx_checksum = 0, rx_received = 0, rx_page = None,
     rx_active = False, rx_have_end = False, rx_invalid = False\<rparr>"

definition fw_batch_rx_begin :: "fw_batch_rx \<Rightarrow> u32 \<Rightarrow> u32 \<Rightarrow> bytes option \<Rightarrow> bool \<times> fw_batch_rx" where
  "fw_batch_rx_begin s tag address page =
     (if page = None \<or> \<not> valid_tag tag \<or> \<not> valid_address address then (False, s)
      else (True, \<lparr>rx_tag = tag, rx_address = address, rx_checksum = 0, rx_received = 0, rx_page = page,
              rx_active = True, rx_have_end = False, rx_invalid = False\<rparr>))"

definition invalid_page :: "fw_batch_rx \<Rightarrow> fw_batch_rx_result \<times> fw_batch_rx" where
  "invalid_page s = (FW_BATCH_RX_INVALID, s\<lparr>rx_active := False, rx_invalid := True\<rparr>)"

text \<open>The tail of \<open>fw_batch_rx_receive\<close>, after a new word or a first END has been stored.\<close>

definition rx_conclude :: "fw_batch_rx \<Rightarrow> bytes \<Rightarrow> fw_batch_rx_result \<times> fw_batch_rx" where
  "rx_conclude s page =
     (if rx_received s \<noteq> 0xffffffffffffffff \<or> \<not> rx_have_end s then (FW_BATCH_RX_PROGRESS, s)
      else if fw_batch_page_crc page \<noteq> rx_checksum s then invalid_page s
      else (FW_BATCH_RX_COMPLETE, s\<lparr>rx_active := False\<rparr>))"

definition fw_batch_rx_receive ::
    "fw_batch_rx \<Rightarrow> fw_batch_kind \<times> bytes \<Rightarrow> fw_batch_rx_result \<times> fw_batch_rx" where
  "fw_batch_rx_receive s packet =
     (case rx_page s of
        None \<Rightarrow> (FW_BATCH_RX_IGNORED, s)
      | Some page \<Rightarrow>
          if \<not> rx_active s then (FW_BATCH_RX_IGNORED, s)
          else
            let id = get32 (snd packet) 0 in
            case fst packet of
              FW_BATCH_DATA \<Rightarrow>
                if id AND 0xffffffc0 \<noteq> rx_tag s then (FW_BATCH_RX_IGNORED, s)
                else
                  let word = unat (id AND NOT 0xffffffc0);
                      data = slice (snd packet) 4 4
                  in if rx_received s AND push_bit word 1 \<noteq> 0 then
                       if slice page (4 * word) 4 \<noteq> data then invalid_page s
                       else (FW_BATCH_RX_IGNORED, s)
                     else
                       let page' = blit page (4 * word) data
                       in rx_conclude (s\<lparr>rx_page := Some page',
                            rx_received := rx_received s OR push_bit word 1\<rparr>) page'
            | FW_BATCH_END \<Rightarrow>
                if id \<noteq> rx_tag s then (FW_BATCH_RX_IGNORED, s)
                else
                  let checksum = get32 (snd packet) 4
                  in if rx_have_end s then
                       if rx_checksum s \<noteq> checksum then invalid_page s else (FW_BATCH_RX_IGNORED, s)
                     else rx_conclude (s\<lparr>rx_have_end := True, rx_checksum := checksum\<rparr>) page)"

record fw_batch_tx =
  tx_tag :: u32
  tx_address :: u32
  tx_checksum :: u32
  tx_page :: "bytes option"
  tx_cursor :: nat
  tx_active :: bool

definition fw_batch_tx_cancel :: "fw_batch_tx \<Rightarrow> fw_batch_tx" where
  "fw_batch_tx_cancel s = \<lparr>tx_tag = 0, tx_address = 0, tx_checksum = 0, tx_page = None, tx_cursor = 0,
     tx_active = False\<rparr>"

definition fw_batch_tx_begin :: "fw_batch_tx \<Rightarrow> u32 \<Rightarrow> u32 \<Rightarrow> bytes option \<Rightarrow> bool \<times> fw_batch_tx" where
  "fw_batch_tx_begin s tag address page_opt =
     (case page_opt of
        None \<Rightarrow> (False, s)
      | Some page \<Rightarrow>
          if \<not> valid_tag tag \<or> \<not> valid_address address then (False, s)
          else (True, \<lparr>tx_tag = tag, tx_address = address, tx_checksum = fw_batch_page_crc page,
                  tx_page = Some page, tx_cursor = 0, tx_active = True\<rparr>))"

definition fw_batch_tx_peek :: "fw_batch_tx \<Rightarrow> (fw_batch_kind \<times> bytes) option" where
  "fw_batch_tx_peek s =
     (case tx_page s of
        None \<Rightarrow> None
      | Some page \<Rightarrow>
          if \<not> tx_active s then None
          else if tx_cursor s < 64 then
            map_option (Pair FW_BATCH_DATA)
              (fw_batch_data_encode (tx_tag s) (of_nat (tx_cursor s)) (drop (4 * tx_cursor s) page))
          else if tx_cursor s = 64 then
            map_option (Pair FW_BATCH_END) (fw_batch_end_encode (tx_tag s) (tx_checksum s))
          else None)"

definition fw_batch_tx_sent :: "fw_batch_tx \<Rightarrow> bool \<times> fw_batch_tx" where
  "fw_batch_tx_sent s =
     (if \<not> tx_active s \<or> tx_cursor s > 64 then (False, s)
      else if tx_cursor s = 64 then (True, s\<lparr>tx_active := False\<rparr>)
      else (True, s\<lparr>tx_cursor := tx_cursor s + 1\<rparr>))"

text \<open>One pump: \<open>emit\<close> is the caller's callback, which says whether the wire took the packet.\<close>

definition fw_batch_tx_pump :: "fw_batch_tx \<Rightarrow> (fw_batch_kind \<Rightarrow> bytes \<Rightarrow> bool) \<Rightarrow> bool \<times> fw_batch_tx" where
  "fw_batch_tx_pump s emit =
     (case fw_batch_tx_peek s of
        None \<Rightarrow> (False, s)
      | Some (kind, payload) \<Rightarrow> if \<not> emit kind payload then (False, s) else fw_batch_tx_sent s)"

subsection \<open>Tags\<close>

lemma not_tag_mask: "NOT (0xffffffc0 :: u32) = mask 6"
  by (simp add: mask_eq_exp_minus_1)

lemma tag_mask: "0xffffffc0 = NOT (mask 6 :: u32)"
  by (simp add: mask_eq_exp_minus_1)

lemma valid_tag_take_bit: "valid_tag tag \<longleftrightarrow> tag \<noteq> 0 \<and> take_bit 6 tag = 0"
  unfolding valid_tag_def not_tag_mask take_bit_eq_mask ..

lemma valid_tag_unat: "valid_tag tag \<longleftrightarrow> tag \<noteq> 0 \<and> unat tag mod 64 = 0"
proof -
  have "take_bit 6 tag = 0 \<longleftrightarrow> unat (take_bit 6 tag) = 0" by (simp add: unsigned_eq_0_iff)
  also have "unat (take_bit 6 tag) = unat tag mod 64"
    unfolding unsigned_take_bit_eq by (simp add: take_bit_eq_mod)
  finally show ?thesis by (simp add: valid_tag_take_bit)
qed

lemma tag_bits: "valid_tag tag \<Longrightarrow> n < 6 \<Longrightarrow> \<not> bit tag n"
  unfolding valid_tag_take_bit using bit_take_bit_iff [of 6 tag n] by simp

lemma index_bits: "w < 64 \<Longrightarrow> bit (of_nat w :: u32) n \<Longrightarrow> n < 6"
proof -
  assume "w < 64" "bit (of_nat w :: u32) n"
  moreover have "take_bit 6 (of_nat w :: u32) = of_nat w"
    using \<open>w < 64\<close> by (simp add: take_bit_of_nat take_bit_nat_eq_self)
  ultimately show "n < 6" by (metis bit_take_bit_iff)
qed

lemma tagged_index:
  assumes "valid_tag tag" "w < 64"
  shows "(tag OR of_nat w) AND 0xffffffc0 = tag"
    and "unat ((tag OR of_nat w) AND NOT 0xffffffc0) = w"
proof -
  show "(tag OR of_nat w) AND 0xffffffc0 = tag"
    unfolding tag_mask using tag_bits [OF assms(1)] index_bits [OF assms(2)]
    by (intro bit_word_eqI) (force simp: bit_simps not_less)
  have "(tag OR of_nat w) AND NOT 0xffffffc0 = of_nat w"
    unfolding not_tag_mask using tag_bits [OF assms(1)] index_bits [OF assms(2)]
    by (intro bit_word_eqI) (auto simp: bit_simps)
  then show "unat ((tag OR of_nat w) AND NOT 0xffffffc0) = w"
    using assms(2) by (simp only: unsigned_of_nat) (simp add: take_bit_nat_eq_self)
qed

lemma index_less: "unat ((x :: u32) AND NOT 0xffffffc0) < 64"
  unfolding not_tag_mask take_bit_eq_mask [symmetric] unsigned_take_bit_eq
  by (simp add: take_bit_eq_mod)

lemma id_from_tag: "(x AND 0xffffffc0) OR of_nat (unat ((x :: u32) AND NOT 0xffffffc0)) = x"
  unfolding tag_mask by (intro bit_word_eqI) (auto simp: bit_simps)

subsection \<open>The tag allocator\<close>

primrec token_run :: "nat \<Rightarrow> fw_batch_token \<Rightarrow> u32 option list" where
  "token_run 0 s = []"
| "token_run (Suc n) s = fst (fw_batch_token_next s) # token_run n (snd (fw_batch_token_next s))"

definition token_ok :: "fw_batch_token \<Rightarrow> bool" where
  "token_ok s \<longleftrightarrow> valid_tag (token_next s)"

text \<open>The tags the allocator can still issue.\<close>

definition token_left :: "fw_batch_token \<Rightarrow> nat" where
  "token_left s = (if token_exhausted s then 0 else (2 ^ 32 - unat (token_next s)) div 64)"

lemma token_init_ok: "token_ok (fw_batch_token_init b)"
proof -
  have "take_bit 6 (x AND 0xffffffc0) = 0" for x :: u32
    unfolding tag_mask by (intro bit_word_eqI) (auto simp: bit_simps)
  then show ?thesis by (simp add: token_ok_def fw_batch_token_init_def Let_def valid_tag_take_bit)
qed

lemma token_step:
  assumes "token_ok s" "\<not> token_exhausted s"
  shows "\<exists>s'. fw_batch_token_next s = (Some (token_next s), s') \<and> token_ok s'
    \<and> (token_exhausted s' \<or> unat (token_next s') = unat (token_next s) + 64 \<and> \<not> token_exhausted s')
    \<and> token_left s = Suc (token_left s')"
proof (cases "token_next s = 0xffffffc0")
  case True
  then show ?thesis using assms
    by (auto simp: fw_batch_token_next_def token_ok_def token_left_def)
next
  case False
  have m: "unat (token_next s) mod 64 = 0" using assms by (simp add: token_ok_def valid_tag_unat)
  then obtain k where k: "unat (token_next s) = 64 * k" by (auto simp: mod_eq_0_iff_dvd)
  have "unat (token_next s) < 2 ^ 32" by (rule unat_u32_less)
  moreover have "unat (token_next s) \<noteq> 4294967232" using False by (auto simp: word_unat_eq_iff)
  ultimately have lt: "k < 67108863" using k by simp
  then have nx: "unat (token_next s + 64) = 64 * Suc k" using k by (simp add: unat_word_ariths)
  then have ok: "valid_tag (token_next s + 64)"
    unfolding valid_tag_unat by (auto simp: word_unat_eq_iff)
  have left: "(2 ^ 32 - 64 * k) div 64 = Suc ((2 ^ 32 - 64 * Suc k) div 64)" using lt by simp
  show ?thesis
    using assms False ok nx k left by (simp add: fw_batch_token_next_def token_ok_def token_left_def)
qed

lemma token_run_exhausted: "token_exhausted s \<Longrightarrow> token_run n s = replicate n None"
  by (induction n) (simp_all add: fw_batch_token_next_def)

lemma token_run_tags:
  assumes "token_ok s"
  shows "\<exists>tags. token_run n s = map Some tags @ replicate (n - length tags) None
    \<and> length tags = min n (token_left s) \<and> sorted_wrt (\<lambda>a b. unat a < unat b) tags
    \<and> (\<forall>t\<in>set tags. valid_tag t \<and> unat (token_next s) \<le> unat t)"
  using assms
proof (induction n arbitrary: s)
  case 0
  then show ?case by simp
next
  case (Suc n)
  show ?case
  proof (cases "token_exhausted s")
    case True
    then show ?thesis using token_run_exhausted [OF True, of "Suc n"]
      by (intro exI [of _ "[]"]) (simp add: token_left_def)
  next
    case False
    from token_step [OF Suc.prems False] obtain s' where
      st: "fw_batch_token_next s = (Some (token_next s), s')" "token_ok s'"
      "token_exhausted s' \<or> unat (token_next s') = unat (token_next s) + 64 \<and> \<not> token_exhausted s'"
      "token_left s = Suc (token_left s')" by blast
    from Suc.IH [OF st(2)] obtain tags where tags:
      "token_run n s' = map Some tags @ replicate (n - length tags) None"
      "length tags = min n (token_left s')" "sorted_wrt (\<lambda>a b. unat a < unat b) tags"
      "\<forall>t\<in>set tags. valid_tag t \<and> unat (token_next s') \<le> unat t" by blast
    have "tags = []" if "token_exhausted s'" using tags(2) that by (simp add: token_left_def)
    then have "\<forall>t\<in>set tags. unat (token_next s) < unat t" using tags(4) st(3) by force
    moreover have "valid_tag (token_next s)" using Suc.prems by (simp add: token_ok_def)
    ultimately show ?thesis
      using st tags by (intro exI [of _ "token_next s # tags"]) (auto simp: less_imp_le)
  qed
qed

subsection \<open>The collector\<close>

definition data_packet :: "u32 \<Rightarrow> bytes \<Rightarrow> nat \<Rightarrow> fw_batch_kind \<times> bytes" where
  "data_packet tag page w = (FW_BATCH_DATA, le32 (tag OR of_nat w) @ slice page (4 * w) 4)"

definition end_packet :: "u32 \<Rightarrow> u32 \<Rightarrow> fw_batch_kind \<times> bytes" where
  "end_packet tag checksum = (FW_BATCH_END, le32 tag @ le32 checksum)"

text \<open>A packet that belongs to no word and no END of the request \<open>tag\<close>.\<close>

definition foreign_packet :: "u32 \<Rightarrow> fw_batch_kind \<times> bytes \<Rightarrow> bool" where
  "foreign_packet tag p \<longleftrightarrow> (case fst p of
     FW_BATCH_DATA \<Rightarrow> get32 (snd p) 0 AND 0xffffffc0 \<noteq> tag
   | FW_BATCH_END \<Rightarrow> get32 (snd p) 0 \<noteq> tag)"

lemma all_received: "(r :: u64) = 0xffffffffffffffff \<longleftrightarrow> (\<forall>w<64. bit r w)"
proof -
  have m: "(0xffffffffffffffff :: u64) = - 1" by simp
  show ?thesis unfolding m by (auto intro!: bit_word_eqI)
qed

lemma bit_set_received:
  "w < 64 \<Longrightarrow> bit ((r :: u64) OR push_bit v 1) w \<longleftrightarrow> bit r w \<or> w = v"
  "w < 64 \<Longrightarrow> bit ((r :: u64) OR 2 ^ v) w \<longleftrightarrow> bit r w \<or> w = v"
  by (auto simp: bit_simps)

text \<open>The branches of a reception by an active collector, for a well-formed packet: it is foreign,
  it repeats a known word or END, or it brings a new one.\<close>

lemma rx_receive_cases:
  assumes "rx_active s" "rx_page s = Some page" "length (snd p) = 8" "length page = 256"
  obtains (foreign) "foreign_packet (rx_tag s) p" "fw_batch_rx_receive s p = (FW_BATCH_RX_IGNORED, s)"
  | (word_again) w d where "w < 64" "length d = 4" "p = (FW_BATCH_DATA, le32 (rx_tag s OR of_nat w) @ d)"
      "bit (rx_received s) w"
      "fw_batch_rx_receive s p = (if slice page (4 * w) 4 \<noteq> d then invalid_page s else (FW_BATCH_RX_IGNORED, s))"
  | (word_new) w d where "w < 64" "length d = 4" "p = (FW_BATCH_DATA, le32 (rx_tag s OR of_nat w) @ d)"
      "\<not> bit (rx_received s) w"
      "fw_batch_rx_receive s p = rx_conclude (s\<lparr>rx_page := Some (blit page (4 * w) d),
         rx_received := rx_received s OR push_bit w 1\<rparr>) (blit page (4 * w) d)"
  | (end_again) c where "p = end_packet (rx_tag s) c" "rx_have_end s"
      "fw_batch_rx_receive s p = (if rx_checksum s \<noteq> c then invalid_page s else (FW_BATCH_RX_IGNORED, s))"
  | (end_new) c where "p = end_packet (rx_tag s) c" "\<not> rx_have_end s"
      "fw_batch_rx_receive s p = rx_conclude (s\<lparr>rx_have_end := True, rx_checksum := c\<rparr>) page"
proof (cases "foreign_packet (rx_tag s) p")
  case True
  then have "fw_batch_rx_receive s p = (FW_BATCH_RX_IGNORED, s)"
    using assms by (simp add: fw_batch_rx_receive_def foreign_packet_def Let_def split: fw_batch_kind.splits)
  with True show ?thesis by (rule foreign)
next
  case False
  obtain k pl where p: "p = (k, pl)" by (cases p)
  have pl: "length pl = 8" "slice pl 4 4 = drop 4 pl" using assms(3) by (simp_all add: p slice_def)
  note split = frame8_split [OF pl(1)]
  show ?thesis
  proof (cases k)
    case FW_BATCH_DATA
    define w where "w = unat (get32 pl 0 AND NOT 0xffffffc0)"
    have tag: "get32 pl 0 AND 0xffffffc0 = rx_tag s"
      using False by (simp add: foreign_packet_def p FW_BATCH_DATA)
    have id_eq: "get32 pl 0 = rx_tag s OR of_nat w"
      unfolding w_def tag [symmetric] by (rule id_from_tag [symmetric])
    have pkt: "p = (FW_BATCH_DATA, le32 (rx_tag s OR of_nat w) @ drop 4 pl)"
      using split(1) by (simp add: p FW_BATCH_DATA id_eq)
    have w: "w < 64" unfolding w_def by (rule index_less)
    have rec: "fw_batch_rx_receive s p =
        (if bit (rx_received s) w
         then if slice page (4 * w) 4 \<noteq> drop 4 pl then invalid_page s else (FW_BATCH_RX_IGNORED, s)
         else rx_conclude (s\<lparr>rx_page := Some (blit page (4 * w) (drop 4 pl)),
            rx_received := rx_received s OR push_bit w 1\<rparr>) (blit page (4 * w) (drop 4 pl)))"
      unfolding fw_batch_rx_receive_def p FW_BATCH_DATA Let_def assms(2) option.case fst_conv snd_conv
        fw_batch_kind.case pl(2) w_def [symmetric] bit_iff_and_push_bit_not_eq_0 tag
      using assms(1) by simp
    have d: "length (drop 4 pl) = 4" using pl(1) by simp
    show ?thesis using word_again [OF w d pkt] word_new [OF w d pkt] rec
      by (cases "bit (rx_received s) w") simp_all
  next
    case FW_BATCH_END
    then have tag: "get32 pl 0 = rx_tag s" using False by (simp add: foreign_packet_def p)
    then have pkt: "p = end_packet (rx_tag s) (get32 pl 4)"
      using split by (simp add: p FW_BATCH_END end_packet_def)
    have rec: "fw_batch_rx_receive s p =
        (if rx_have_end s then if rx_checksum s \<noteq> get32 pl 4 then invalid_page s else (FW_BATCH_RX_IGNORED, s)
         else rx_conclude (s\<lparr>rx_have_end := True, rx_checksum := get32 pl 4\<rparr>) page)"
      using assms tag by (simp add: fw_batch_rx_receive_def p FW_BATCH_END)
    show ?thesis using end_again [OF pkt] end_new [OF pkt] rec by (cases "rx_have_end s") simp_all
  qed
qed

lemma rx_receive_inactive: "\<not> rx_active s \<Longrightarrow> fw_batch_rx_receive s p = (FW_BATCH_RX_IGNORED, s)"
  by (simp add: fw_batch_rx_receive_def split: option.splits)

lemma rx_run_inactive:
  "\<not> rx_active s \<Longrightarrow> run_machine fw_batch_rx_receive s ps = (replicate (length ps) FW_BATCH_RX_IGNORED, s)"
  by (induction ps) (simp_all add: rx_receive_inactive)

text \<open>What an accepted word or END rests on: a packet among those received so far.\<close>

definition rx_evidence :: "(fw_batch_kind \<times> bytes) set \<Rightarrow> bytes \<Rightarrow> fw_batch_rx \<Rightarrow> bool" where
  "rx_evidence H page s \<longleftrightarrow> rx_page s = Some page \<and> length page = 256
     \<and> (\<forall>w<64. bit (rx_received s) w \<longrightarrow> data_packet (rx_tag s) page w \<in> H)
     \<and> (rx_have_end s \<longrightarrow> end_packet (rx_tag s) (rx_checksum s) \<in> H)"

definition rx_accepted :: "bytes \<Rightarrow> fw_batch_rx \<Rightarrow> bool" where
  "rx_accepted page s \<longleftrightarrow> rx_received s = 0xffffffffffffffff \<and> rx_have_end s
     \<and> fw_batch_page_crc page = rx_checksum s \<and> \<not> rx_active s"

lemma blit_word:
  assumes "length page = 256" "w < 64" "length d = 4" "v < 64"
  shows "slice (blit page (4 * w) d) (4 * v) 4 = (if v = w then d else slice page (4 * v) 4)"
    and "length (blit page (4 * w) d) = 256"
proof -
  have fit: "4 * w + length d \<le> length page" "4 * v + 4 \<le> length page" using assms by simp_all
  have other: "4 * v + 4 \<le> 4 * w \<or> 4 * w + length d \<le> 4 * v" if "v \<noteq> w"
    using assms(3) that by arith
  show "slice (blit page (4 * w) d) (4 * v) 4 = (if v = w then d else slice page (4 * v) 4)"
    using slice_blit(1) [OF fit _ assms(3) [symmetric]] slice_blit(2) [OF fit other]
    by (cases "v = w") simp_all
  show "length (blit page (4 * w) d) = 256" using fit(1) assms(1) by simp
qed

lemma rx_conclude_evidence:
  assumes "rx_evidence H page s" "rx_conclude s page = (r, s')"
  shows "rx_evidence H page s' \<and> rx_tag s' = rx_tag s \<and> rx_address s' = rx_address s
    \<and> (r = FW_BATCH_RX_COMPLETE \<longrightarrow> rx_accepted page s')"
  using assms unfolding rx_conclude_def
  by (auto simp: invalid_page_def rx_evidence_def rx_accepted_def split: if_splits)

lemma rx_receive_evidence:
  assumes ev: "rx_evidence H page s" and act: "rx_active s" and len: "length (snd p) = 8"
    and rec: "fw_batch_rx_receive s p = (r, s')"
  shows "\<exists>page'. rx_evidence (insert p H) page' s' \<and> rx_tag s' = rx_tag s \<and> rx_address s' = rx_address s
    \<and> (r = FW_BATCH_RX_COMPLETE \<longrightarrow> rx_accepted page' s')"
proof -
  have pg: "rx_page s = Some page" "length page = 256" using ev by (simp_all add: rx_evidence_def)
  have mono: "rx_evidence (insert p H) page s" using ev by (simp add: rx_evidence_def)
  from act pg(1) len pg(2) show ?thesis
  proof (cases rule: rx_receive_cases)
    case foreign
    then show ?thesis using mono rec by auto
  next
    case (word_again w d)
    then show ?thesis using mono rec by (auto simp: invalid_page_def rx_evidence_def split: if_splits)
  next
    case (word_new w d)
    let ?s = "s\<lparr>rx_page := Some (blit page (4 * w) d), rx_received := rx_received s OR push_bit w 1\<rparr>"
    have "rx_evidence (insert p H) (blit page (4 * w) d) ?s"
      using mono word_new(1-3) blit_word [OF pg(2) word_new(1,2)]
      by (auto simp: rx_evidence_def data_packet_def bit_set_received)
    from rx_conclude_evidence [OF this] show ?thesis using rec word_new(5) by fastforce
  next
    case (end_again c)
    then show ?thesis using mono rec by (auto simp: invalid_page_def rx_evidence_def split: if_splits)
  next
    case (end_new c)
    have "rx_evidence (insert p H) page (s\<lparr>rx_have_end := True, rx_checksum := c\<rparr>)"
      using mono end_new(1) by (auto simp: rx_evidence_def)
    from rx_conclude_evidence [OF this] show ?thesis using rec end_new(3) by fastforce
  qed
qed

lemma rx_receive_stops:
  "fw_batch_rx_receive s p = (FW_BATCH_RX_COMPLETE, s') \<Longrightarrow> \<not> rx_active s'"
  by (auto simp: fw_batch_rx_receive_def rx_conclude_def invalid_page_def Let_def
      split: option.splits if_splits fw_batch_kind.splits)

lemma rx_run_evidence:
  assumes "rx_evidence H page s" "\<forall>p\<in>set ps. length (snd p) = 8"
    "run_machine fw_batch_rx_receive s ps = (rs, s')" "FW_BATCH_RX_COMPLETE \<in> set rs"
  shows "\<exists>page'. rx_evidence (H \<union> set ps) page' s' \<and> rx_tag s' = rx_tag s \<and> rx_address s' = rx_address s
    \<and> rx_accepted page' s'"
  using assms
proof (induction ps arbitrary: H page s rs)
  case Nil
  then show ?case by simp
next
  case (Cons p ps)
  obtain r t where rt: "fw_batch_rx_receive s p = (r, t)" by force
  obtain rs' where run: "run_machine fw_batch_rx_receive t ps = (rs', s')" "rs = r # rs'"
    using Cons.prems(3) rt by (auto split: prod.splits)
  have act: "rx_active s"
  proof (rule ccontr)
    assume "\<not> rx_active s"
    from rx_run_inactive [OF this, of "p # ps"] Cons.prems(3,4) show False by auto
  qed
  have len: "length (snd p) = 8" using Cons.prems(2) by simp
  from rx_receive_evidence [OF Cons.prems(1) act len rt] obtain page' where
    ev: "rx_evidence (insert p H) page' t" "rx_tag t = rx_tag s" "rx_address t = rx_address s"
    "r = FW_BATCH_RX_COMPLETE \<longrightarrow> rx_accepted page' t" by blast
  show ?case
  proof (cases "r = FW_BATCH_RX_COMPLETE")
    case True
    from rx_run_inactive [OF rx_receive_stops [OF rt [unfolded True]], of ps] run(1)
    have "s' = t" by simp
    with ev True show ?thesis by (intro exI [of _ page']) (auto simp: rx_evidence_def)
  next
    case False
    with Cons.prems(4) run(2) have "FW_BATCH_RX_COMPLETE \<in> set rs'" by simp
    from Cons.IH [OF ev(1) _ run(1) this] Cons.prems(2) ev(2,3) show ?thesis by simp
  qed
qed

subsection \<open>Delivery of a page\<close>

text \<open>What an active collector knows of the page it is sent, after the packets \<open>H\<close>.\<close>

definition rx_tracks :: "u32 \<Rightarrow> bytes \<Rightarrow> (fw_batch_kind \<times> bytes) set \<Rightarrow> fw_batch_rx \<Rightarrow> bool" where
  "rx_tracks tag page H s \<longleftrightarrow> rx_active s \<and> rx_tag s = tag \<and> \<not> rx_invalid s
     \<and> (\<exists>buf. rx_page s = Some buf \<and> length buf = 256
          \<and> (\<forall>w<64. bit (rx_received s) w \<longrightarrow> slice buf (4 * w) 4 = slice page (4 * w) 4))
     \<and> (rx_have_end s \<longrightarrow> rx_checksum s = fw_batch_page_crc page)
     \<and> (\<forall>w<64. data_packet tag page w \<in> H \<longrightarrow> bit (rx_received s) w)
     \<and> (end_packet tag (fw_batch_page_crc page) \<in> H \<longrightarrow> rx_have_end s)"

definition own_or_foreign :: "u32 \<Rightarrow> bytes \<Rightarrow> fw_batch_kind \<times> bytes \<Rightarrow> bool" where
  "own_or_foreign tag page p \<longleftrightarrow> length (snd p) = 8 \<and> (foreign_packet tag p
     \<or> (\<exists>w<64. p = data_packet tag page w) \<or> p = end_packet tag (fw_batch_page_crc page))"

lemma le32_inj: "le32 a = le32 b \<longleftrightarrow> a = b"
  by (metis append_Nil2 get32_le32)

lemma tagged_index_inj:
  "valid_tag tag \<Longrightarrow> v < 64 \<Longrightarrow> w < 64 \<Longrightarrow> tag OR of_nat v = tag OR of_nat w \<longleftrightarrow> v = w"
  by (metis tagged_index(2))

lemma foreign_not_own:
  assumes "valid_tag tag" "foreign_packet tag p"
  shows "w < 64 \<Longrightarrow> p \<noteq> data_packet tag page w" "p \<noteq> end_packet tag c"
  using assms tagged_index(1) [OF assms(1)] by (auto simp: foreign_packet_def data_packet_def end_packet_def)

lemma own_word:
  assumes "valid_tag tag" "own_or_foreign tag page p" "p = (FW_BATCH_DATA, le32 (tag OR of_nat w) @ d)" "w < 64"
  shows "d = slice page (4 * w) 4"
proof -
  have "\<not> foreign_packet tag p"
    using tagged_index(1) [OF assms(1,4)] assms(3) by (simp add: foreign_packet_def)
  then obtain v where "v < 64" "p = data_packet tag page v"
    using assms(2,3) by (auto simp: own_or_foreign_def end_packet_def)
  then show ?thesis
    using assms tagged_index_inj [OF assms(1)] by (auto simp: data_packet_def le32_inj)
qed

lemma data_packet_eq:
  "valid_tag tag \<Longrightarrow> v < 64 \<Longrightarrow> w < 64 \<Longrightarrow>
     data_packet tag page v = (FW_BATCH_DATA, le32 (tag OR of_nat w) @ d) \<longleftrightarrow> v = w \<and> d = slice page (4 * w) 4"
  using tagged_index_inj [of tag v w] by (auto simp: data_packet_def le32_inj)

lemma own_end:
  assumes "own_or_foreign tag page p" "p = end_packet tag c"
  shows "c = fw_batch_page_crc page"
  using assms by (auto simp: own_or_foreign_def foreign_packet_def end_packet_def data_packet_def le32_inj)

text \<open>Either the page is complete or the collector goes on with what it had plus this packet.\<close>

lemma rx_conclude_tracks:
  assumes "rx_tracks tag page H s" "rx_page s = Some buf" "length page = 256" "rx_conclude s buf = (r, s')"
  shows "r = FW_BATCH_RX_COMPLETE \<and> rx_page s' = Some page \<and> \<not> rx_invalid s' \<and> \<not> rx_active s'
    \<or> r = FW_BATCH_RX_PROGRESS \<and> s' = s \<and> \<not> (rx_received s = 0xffffffffffffffff \<and> rx_have_end s)"
proof (cases "rx_received s \<noteq> 0xffffffffffffffff \<or> \<not> rx_have_end s")
  case True
  then have "rx_conclude s buf = (FW_BATCH_RX_PROGRESS, s)" unfolding rx_conclude_def by (rule if_P)
  with True assms(4) show ?thesis by auto
next
  case False
  then have all: "\<forall>w<64. bit (rx_received s) w" and e: "rx_have_end s" unfolding all_received by blast+
  have "buf = page"
  proof (rule words_eq [of _ 64])
    show "length buf = 4 * 64" "length page = 4 * 64" using assms(1-3) by (auto simp: rx_tracks_def)
    show "slice buf (4 * i) 4 = slice page (4 * i) 4" if "i < 64" for i
      using assms(1,2) all that unfolding rx_tracks_def by fastforce
  qed
  then have "rx_conclude s buf = (FW_BATCH_RX_COMPLETE, s\<lparr>rx_active := False\<rparr>)"
    using e assms(1) unfolding rx_conclude_def if_not_P [OF False] rx_tracks_def by simp
  then show ?thesis using assms \<open>buf = page\<close> by (auto simp: rx_tracks_def)
qed

definition rx_open :: "fw_batch_rx \<Rightarrow> bool" where
  "rx_open s \<longleftrightarrow> \<not> (rx_received s = 0xffffffffffffffff \<and> rx_have_end s)"

lemma rx_receive_tracks:
  assumes tr: "rx_tracks tag page H s" and tag: "valid_tag tag" and pg: "length page = 256"
    and own: "own_or_foreign tag page p" and op: "rx_open s" and rec: "fw_batch_rx_receive s p = (r, s')"
  shows "r = FW_BATCH_RX_COMPLETE \<and> rx_page s' = Some page \<and> \<not> rx_invalid s' \<and> \<not> rx_active s'
    \<or> r \<in> {FW_BATCH_RX_PROGRESS, FW_BATCH_RX_IGNORED} \<and> rx_tracks tag page (insert p H) s' \<and> rx_open s'"
proof -
  from tr obtain buf where st: "rx_active s" "rx_tag s = tag" "rx_page s = Some buf" "length buf = 256"
    "\<forall>w<64. bit (rx_received s) w \<longrightarrow> slice buf (4 * w) 4 = slice page (4 * w) 4"
    "rx_have_end s \<longrightarrow> rx_checksum s = fw_batch_page_crc page" by (auto simp: rx_tracks_def)
  have len: "length (snd p) = 8" using own by (simp add: own_or_foreign_def)
  from st(1,3) len st(4) show ?thesis
  proof (cases rule: rx_receive_cases)
    case foreign
    then have "rx_tracks tag page (insert p H) s"
      using tr foreign_not_own [OF tag, of p] st(2) by (auto simp: rx_tracks_def)
    then show ?thesis using rec foreign op by auto
  next
    case (word_again w d)
    have d: "d = slice page (4 * w) 4" using own_word [OF tag own] word_again(1,3) st(2) by simp
    have same: "data_packet tag page v = p \<longleftrightarrow> v = w" if "v < 64" for v
      using data_packet_eq [OF tag that word_again(1)] word_again(3) st(2) d by simp
    have "rx_tracks tag page (insert p H) s"
      using tr word_again(3,4) same by (simp add: rx_tracks_def end_packet_def)
    moreover have "r = FW_BATCH_RX_IGNORED" "s' = s"
      using rec word_again(1,4,5) d st(5) by auto
    ultimately show ?thesis using op by simp
  next
    case (word_new w d)
    let ?s = "s\<lparr>rx_page := Some (blit buf (4 * w) d), rx_received := rx_received s OR push_bit w 1\<rparr>"
    have d: "d = slice page (4 * w) 4" using own_word [OF tag own] word_new(1,3) st(2) by simp
    have same: "data_packet tag page v = p \<longleftrightarrow> v = w" if "v < 64" for v
      using data_packet_eq [OF tag that word_new(1)] word_new(3) st(2) d by simp
    have "rx_tracks tag page (insert p H) ?s"
      using tr word_new(1-3) d st(3,5) blit_word [OF st(4) word_new(1,2)] same
      by (simp add: rx_tracks_def bit_set_received end_packet_def)
    from rx_conclude_tracks [OF this _ pg, of "blit buf (4 * w) d" r s'] rec word_new(5) this
    show ?thesis unfolding rx_open_def by auto
  next
    case (end_again c)
    have c: "c = fw_batch_page_crc page" using own_end [OF own] end_again(1) st(2) by simp
    have "rx_tracks tag page (insert p H) s"
      using tr end_again(1,2) by (auto simp: rx_tracks_def end_packet_def data_packet_def)
    moreover have "r = FW_BATCH_RX_IGNORED" "s' = s" using rec end_again(2,3) c st(6) by auto
    ultimately show ?thesis using op by simp
  next
    case (end_new c)
    have c: "c = fw_batch_page_crc page" using own_end [OF own] end_new(1) st(2) by simp
    have "rx_tracks tag page (insert p H) (s\<lparr>rx_have_end := True, rx_checksum := c\<rparr>)"
      using tr end_new(1) c by (auto simp: rx_tracks_def end_packet_def data_packet_def)
    from rx_conclude_tracks [OF this _ pg, of buf r s'] rec end_new(3) this st(3)
    show ?thesis unfolding rx_open_def by auto
  qed
qed

lemma rx_run_tracks:
  assumes "rx_tracks tag page H s" "valid_tag tag" "length page = 256" "rx_open s"
    "\<forall>p\<in>set ps. own_or_foreign tag page p" "run_machine fw_batch_rx_receive s ps = (rs, s')"
  shows "FW_BATCH_RX_INVALID \<notin> set rs
    \<and> (FW_BATCH_RX_COMPLETE \<in> set rs \<and> rx_page s' = Some page \<and> \<not> rx_invalid s' \<and> \<not> rx_active s'
       \<or> rx_tracks tag page (H \<union> set ps) s' \<and> rx_open s')"
  using assms
proof (induction ps arbitrary: H s rs)
  case Nil
  then show ?case by simp
next
  case (Cons p ps)
  obtain r t where rt: "fw_batch_rx_receive s p = (r, t)" by force
  obtain rs' where run: "run_machine fw_batch_rx_receive t ps = (rs', s')" "rs = r # rs'"
    using Cons.prems(6) rt by (auto split: prod.splits)
  from Cons.prems(5) have own: "own_or_foreign tag page p" "\<forall>p\<in>set ps. own_or_foreign tag page p" by auto
  from rx_receive_tracks [OF Cons.prems(1-3) own(1) Cons.prems(4) rt] show ?case
  proof (elim disjE conjE)
    assume c: "r = FW_BATCH_RX_COMPLETE" "rx_page t = Some page" "\<not> rx_invalid t" "\<not> rx_active t"
    from rx_run_inactive [OF c(4), of ps] run(1) have "s' = t" "rs' = replicate (length ps) FW_BATCH_RX_IGNORED"
      by simp_all
    with c run(2) show ?thesis by simp
  next
    assume c: "r \<in> {FW_BATCH_RX_PROGRESS, FW_BATCH_RX_IGNORED}" "rx_tracks tag page (insert p H) t" "rx_open t"
    from Cons.IH [OF c(2) Cons.prems(2,3) c(3) own(2) run(1)] c(1) run(2) show ?thesis by auto
  qed
qed

lemma rx_delivery:
  assumes begin_ok: "fw_batch_rx_begin s0 tag address (Some buf) = (True, s)" and len: "length buf = 256" "length page = 256"
    and own: "\<forall>p\<in>set ps. own_or_foreign tag page p"
    and all: "\<forall>w<64. data_packet tag page w \<in> set ps" "end_packet tag (fw_batch_page_crc page) \<in> set ps"
    and run: "run_machine fw_batch_rx_receive s ps = (rs, s')"
  shows "FW_BATCH_RX_COMPLETE \<in> set rs \<and> FW_BATCH_RX_INVALID \<notin> set rs \<and> rx_page s' = Some page
    \<and> \<not> rx_invalid s' \<and> \<not> rx_active s'"
proof -
  have tag: "valid_tag tag" and tr: "rx_tracks tag page {} s" and op: "rx_open s"
    using begin_ok len(1) by (auto simp: fw_batch_rx_begin_def rx_tracks_def rx_open_def split: if_splits)
  from rx_run_tracks [OF tr tag len(2) op own run] show ?thesis
  proof (elim conjE disjE)
    assume t: "rx_tracks tag page ({} \<union> set ps) s'" and o': "rx_open s'"
    from t all have "\<forall>w<64. bit (rx_received s') w" "rx_have_end s'" by (simp_all add: rx_tracks_def)
    with o' have False unfolding rx_open_def all_received by blast
    then show ?thesis ..
  qed simp
qed

subsection \<open>The sender\<close>

text \<open>The packets that leave the sender when the wire takes (\<open>True\<close>) or refuses each offer.\<close>

primrec tx_drive :: "fw_batch_tx \<Rightarrow> bool list \<Rightarrow> (fw_batch_kind \<times> bytes) list" where
  "tx_drive s [] = []"
| "tx_drive s (b # bs) =
     (case fw_batch_tx_peek s of
        None \<Rightarrow> tx_drive s bs
      | Some p \<Rightarrow> (if b then [p] else []) @ tx_drive (snd (fw_batch_tx_pump s (\<lambda>_ _. b))) bs)"

definition page_packets :: "u32 \<Rightarrow> bytes \<Rightarrow> (fw_batch_kind \<times> bytes) list" where
  "page_packets tag page = map (data_packet tag page) [0..<64] @ [end_packet tag (fw_batch_page_crc page)]"

definition tx_sending :: "u32 \<Rightarrow> bytes \<Rightarrow> nat \<Rightarrow> fw_batch_tx \<Rightarrow> bool" where
  "tx_sending tag page c s \<longleftrightarrow> tx_tag s = tag \<and> tx_page s = Some page \<and> tx_cursor s = c \<and> tx_active s
     \<and> tx_checksum s = fw_batch_page_crc page \<and> c \<le> 64"

lemma tx_peek_sending:
  assumes "tx_sending tag page c s" "valid_tag tag"
  shows "fw_batch_tx_peek s = Some (page_packets tag page ! c)"
proof (cases "c < 64")
  case True
  then have "\<not> (of_nat c :: u32) \<ge> 64" by (simp add: word_le_nat_alt unsigned_of_nat take_bit_nat_eq_self)
  then show ?thesis using assms True
    by (simp add: tx_sending_def fw_batch_tx_peek_def fw_batch_data_encode_def page_packets_def
        nth_append data_packet_def slice_def)
next
  case False
  then show ?thesis using assms
    by (simp add: tx_sending_def fw_batch_tx_peek_def fw_batch_end_encode_def
        fw_batch_caps_encode_response_def page_packets_def nth_append end_packet_def)
qed

lemma tx_drive_idle: "\<not> tx_active s \<Longrightarrow> tx_drive s bs = []"
  by (induction bs) (simp_all add: fw_batch_tx_peek_def split: option.splits)

lemma length_page_packets [simp]: "length (page_packets tag page) = 65"
  by (simp add: page_packets_def)

lemma tx_drive_sending:
  assumes "tx_sending tag page c s" "valid_tag tag"
  shows "tx_drive s bs = take (count_list bs True) (drop c (page_packets tag page))"
  using assms
proof (induction bs arbitrary: c s)
  case Nil
  then show ?case by simp
next
  case (Cons b bs)
  let ?P = "page_packets tag page"
  note peek = tx_peek_sending [OF Cons.prems]
  have c: "c \<le> 64" using Cons.prems(1) by (simp add: tx_sending_def)
  show ?case
  proof (cases b)
    case False
    then have "fw_batch_tx_pump s (\<lambda>_ _. b) = (False, s)"
      by (simp add: fw_batch_tx_pump_def peek split: prod.splits)
    then show ?thesis using Cons.IH [OF Cons.prems] False by (simp add: peek)
  next
    case True
    then have pump: "fw_batch_tx_pump s (\<lambda>_ _. True) = fw_batch_tx_sent s"
      by (simp add: fw_batch_tx_pump_def peek split: prod.splits)
    have hd: "drop c ?P = ?P ! c # drop (Suc c) ?P" using c by (simp add: Cons_nth_drop_Suc)
    show ?thesis
    proof (cases "c = 64")
      case end_case: True
      then have "\<not> tx_active (snd (fw_batch_tx_sent s))"
        using Cons.prems(1) by (simp add: tx_sending_def fw_batch_tx_sent_def)
      from tx_drive_idle [OF this] have "tx_drive s (b # bs) = [?P ! c]" using True by (simp add: peek pump)
      then show ?thesis using True end_case unfolding hd by simp
    next
      case False
      then have "tx_sending tag page (Suc c) (snd (fw_batch_tx_sent s))"
        using Cons.prems(1) by (auto simp: tx_sending_def fw_batch_tx_sent_def)
      from Cons.IH [OF this Cons.prems(2)] have "tx_drive s (b # bs) = ?P ! c # take (count_list bs True) (drop (Suc c) ?P)"
        using True by (simp add: peek pump)
      then show ?thesis using True unfolding hd by simp
    qed
  qed
qed

lemma tx_begin_sending:
  assumes "fw_batch_tx_begin t0 tag address (Some page) = (True, t)"
  shows "tx_sending tag page 0 t" "valid_tag tag"
  using assms by (auto simp: fw_batch_tx_begin_def tx_sending_def split: if_splits)

lemma page_packets_own:
  assumes "length page = 256" "p \<in> set (page_packets tag page)"
  shows "own_or_foreign tag page p"
  using assms by (auto simp: page_packets_def own_or_foreign_def data_packet_def end_packet_def)

lemma page_packets_all:
  "set (page_packets tag page) \<subseteq> A \<longleftrightarrow>
     (\<forall>w<64. data_packet tag page w \<in> A) \<and> end_packet tag (fw_batch_page_crc page) \<in> A"
  by (auto simp: page_packets_def)

subsection \<open>Properties\<close>

text \<open>
  C25. A page is completed only from its own evidence. Whatever packets arrive after a request is
  started, if the collector reports COMPLETE, then for every one of the 64 words of the page a packet
  carrying this request's tag, that word's index and exactly those bytes was received, an END packet
  with the tag and the CRC of the page was received, and the page is stored for the address of the
  request.
\<close>

theorem fw_batch_complete_authentic:
  assumes "fw_batch_rx_begin s0 tag address (Some buf) = (True, s)" "length buf = 256"
    and "\<forall>p\<in>set ps. length (snd p) = 8"
    and "run_machine fw_batch_rx_receive s ps = (rs, s')" "FW_BATCH_RX_COMPLETE \<in> set rs"
  shows "\<exists>page. rx_page s' = Some page \<and> length page = 256 \<and> rx_address s' = address
    \<and> (\<forall>w<64. (FW_BATCH_DATA, le32 (tag OR of_nat w) @ slice page (4 * w) 4) \<in> set ps)
    \<and> (FW_BATCH_END, le32 tag @ le32 (fw_batch_page_crc page)) \<in> set ps"
proof -
  have s: "rx_evidence {} buf s" "rx_tag s = tag" "rx_address s = address"
    using assms(1,2) by (auto simp: fw_batch_rx_begin_def rx_evidence_def split: if_splits)
  from rx_run_evidence [OF s(1) assms(3-5)] s(2,3) obtain page where
    ev: "rx_evidence (set ps) page s'" "rx_tag s' = tag" "rx_address s' = address" "rx_accepted page s'"
    by auto
  then have "\<forall>w<64. bit (rx_received s') w" unfolding rx_accepted_def all_received by blast
  with ev show ?thesis
    by (auto simp: rx_evidence_def rx_accepted_def data_packet_def end_packet_def)
qed

theorem fw_batch_complete_authentic_witness:
  "let page = replicate 256 7; blank = fw_batch_rx_cancel undefined;
       s = snd (fw_batch_rx_begin blank 64 512 (Some (replicate 256 0)))
   in \<exists>q. rx_page (snd (run_machine fw_batch_rx_receive s (page_packets 64 page))) = Some q \<and> length q = 256"
proof -
  let ?page = "replicate 256 7 :: bytes" and ?blank = "fw_batch_rx_cancel undefined"
  let ?s = "snd (fw_batch_rx_begin ?blank 64 512 (Some (replicate 256 0)))"
  let ?run = "run_machine fw_batch_rx_receive ?s (page_packets 64 ?page)"
  have b: "fw_batch_rx_begin ?blank 64 512 (Some (replicate 256 0)) = (True, ?s)"
    by (simp add: fw_batch_rx_begin_def valid_tag_def valid_address_def)
  have own: "\<forall>p\<in>set (page_packets 64 ?page). own_or_foreign 64 ?page p" using page_packets_own by auto
  have all: "\<forall>w<64. data_packet 64 ?page w \<in> set (page_packets 64 ?page)"
      "end_packet 64 (fw_batch_page_crc ?page) \<in> set (page_packets 64 ?page)"
    using page_packets_all [of 64 ?page "set (page_packets 64 ?page)"] by simp_all
  have "FW_BATCH_RX_COMPLETE \<in> set (fst ?run)"
    using rx_delivery [OF b _ _ own all, of "fst ?run" "snd ?run"] by simp
  from fw_batch_complete_authentic [OF b _ _ _ this, of "page_packets 64 ?page" "snd ?run"] own
  show ?thesis by (auto simp: own_or_foreign_def)
qed

text \<open>
  C24. A page that is sent is received. If every packet the sender put on the wire for a page arrives
  at least once, in any order, any number of times and mixed with packets of other requests, the
  collector reports COMPLETE, never INVALID, and holds exactly the sender's page. The sender may be
  refused by the wire any number of times, as long as 65 offers are taken.
\<close>

theorem fw_batch_page_delivered:
  assumes "fw_batch_tx_begin t0 tag address (Some page) = (True, t)" "length page = 256"
    and "fw_batch_rx_begin s0 tag address (Some buf) = (True, s)" "length buf = 256"
    and "65 \<le> count_list offers True" "set (tx_drive t offers) \<subseteq> set arrived"
    and "\<forall>p\<in>set arrived. p \<in> set (tx_drive t offers) \<or> length (snd p) = 8 \<and> foreign_packet tag p"
    and "run_machine fw_batch_rx_receive s arrived = (rs, s')"
  shows "FW_BATCH_RX_COMPLETE \<in> set rs \<and> FW_BATCH_RX_INVALID \<notin> set rs \<and> rx_page s' = Some page
    \<and> \<not> rx_invalid s' \<and> \<not> rx_active s'"
proof -
  have sent: "tx_drive t offers = page_packets tag page"
    using tx_drive_sending [OF tx_begin_sending [OF assms(1)], of offers] assms(5) by simp
  have own: "\<forall>p\<in>set arrived. own_or_foreign tag page p"
  proof
    fix p
    assume "p \<in> set arrived"
    then consider "p \<in> set (page_packets tag page)" | "length (snd p) = 8" "foreign_packet tag p"
      using assms(7) unfolding sent by blast
    then show "own_or_foreign tag page p"
      by cases (rule page_packets_own [OF assms(2)], simp_all add: own_or_foreign_def)
  qed
  have all: "\<forall>w<64. data_packet tag page w \<in> set arrived" "end_packet tag (fw_batch_page_crc page) \<in> set arrived"
    using assms(6) unfolding sent page_packets_all by simp_all
  show ?thesis by (rule rx_delivery [OF assms(3,4,2) own all assms(8)])
qed

theorem fw_batch_page_delivered_witness:
  "let page = replicate 256 9; t = snd (fw_batch_tx_begin (fw_batch_tx_cancel undefined) 128 256 (Some page));
       s = snd (fw_batch_rx_begin (fw_batch_rx_cancel undefined) 128 256 (Some (replicate 256 0)));
       sent = tx_drive t (False # replicate 70 True)
   in rx_page (snd (run_machine fw_batch_rx_receive s (rev sent @ sent))) = Some page"
proof -
  let ?page = "replicate 256 9 :: bytes"
  let ?t = "snd (fw_batch_tx_begin (fw_batch_tx_cancel undefined) 128 256 (Some ?page))"
  let ?s = "snd (fw_batch_rx_begin (fw_batch_rx_cancel undefined) 128 256 (Some (replicate 256 0)))"
  let ?sent = "tx_drive ?t (False # replicate 70 True)"
  let ?run = "run_machine fw_batch_rx_receive ?s (rev ?sent @ ?sent)"
  have t: "fw_batch_tx_begin (fw_batch_tx_cancel undefined) 128 256 (Some ?page) = (True, ?t)"
    by (simp add: fw_batch_tx_begin_def valid_tag_def valid_address_def)
  have s: "fw_batch_rx_begin (fw_batch_rx_cancel undefined) 128 256 (Some (replicate 256 0)) = (True, ?s)"
    by (simp add: fw_batch_rx_begin_def valid_tag_def valid_address_def)
  have n: "65 \<le> count_list (False # replicate 70 True) True" by (simp add: eval_nat_numeral)
  show ?thesis
    using fw_batch_page_delivered [OF t _ s _ n, of "rev ?sent @ ?sent" "fst ?run" "snd ?run"] by auto
qed

text \<open>
  Request tags never repeat within a boot. From any boot session, any number of allocations
  yields valid tags (non-zero, the six index bits clear) in strictly increasing order, one per
  aligned value from the seed up; after the last one every further allocation fails.
\<close>

theorem fw_batch_tokens_unique:
  "\<exists>tags. token_run n (fw_batch_token_init boot) = map Some tags @ replicate (n - length tags) None
     \<and> length tags = min n (token_left (fw_batch_token_init boot))
     \<and> sorted_wrt (\<lambda>a b. unat a < unat b) tags \<and> distinct tags \<and> list_all valid_tag tags"
proof -
  have "distinct tags" if "sorted_wrt (\<lambda>a b. unat a < unat b) tags" for tags :: "u32 list"
    using that by (induction tags) auto
  then show ?thesis using token_run_tags [OF token_init_ok, of n boot] by (auto simp: list_all_iff)
qed

text \<open>
  The request formats have one spelling: an eight-byte page request or capability request is
  accepted with given fields exactly when it is the encoding of these fields, and the encoder refuses
  exactly the invalid ones.
\<close>

theorem fw_batch_requests_canonical:
  assumes "length p = 8"
  shows "(fw_batch_request_decode p = Some (tag, address) \<longleftrightarrow> fw_batch_request_encode tag address = Some p)
    \<and> (fw_batch_caps_decode_request p = Some (tag, version) \<longleftrightarrow> fw_batch_caps_encode_request tag version = Some p)"
proof
  show "fw_batch_request_decode p = Some (tag, address) \<longleftrightarrow> fw_batch_request_encode tag address = Some p"
    using frame8_split [OF assms]
    by (auto simp: fw_batch_request_decode_def fw_batch_request_encode_def split: if_splits)
  have halves: "drop 4 p = le16 (get16 p 4) @ le16 (get16 p 6)"
    by (rule list_of_length_8 [OF assms]) (simp add: le16_get16)
  have g: "get16 (le32 a @ le16 b @ le16 c) 4 = b" "get16 (le32 a @ le16 b @ le16 c) 6 = c" for a b c
    by (simp_all add: get16_def le32_def le16_def)
  show "fw_batch_caps_decode_request p = Some (tag, version) \<longleftrightarrow> fw_batch_caps_encode_request tag version = Some p"
    using frame8_split(1) [OF assms, unfolded halves]
    by (auto simp: fw_batch_caps_decode_request_def fw_batch_caps_encode_request_def g split: if_splits)
qed

theorem fw_batch_requests_canonical_witness:
  "fw_batch_request_decode [64, 0, 0, 0, 0, 1, 0, 0] = Some (64, 256)"
  using fw_batch_requests_canonical [of "[64, 0, 0, 0, 0, 1, 0, 0]" 64 256 0]
  by (simp add: fw_batch_request_encode_def valid_tag_def valid_address_def le32_def)

end
