(* ===== verification/Reboot_Hotkey.thy ===== *)
theory Reboot_Hotkey
  imports Prelude
begin

text \<open>
  The guarded reboot shortcut (reboot\_hotkey.h, reboot\_hotkey.c): three complete taps of one chord
  from one keyboard within a second. The model keeps the shared tap sequence and the per-keyboard
  state; the properties describe, in terms of the reports received, when the recogniser triggers and
  which reports it swallows.
\<close>

datatype reboot_hotkey_result =
  REBOOT_HOTKEY_PASS | REBOOT_HOTKEY_SWALLOW | REBOOT_HOTKEY_TAP | REBOOT_HOTKEY_TRIGGER | REBOOT_HOTKEY_CANCEL

record reboot_hotkey_sequence =
  completed_taps :: nat
  tap_source :: u8
  first_tap_us :: u64

record reboot_hotkey_source =
  q_down :: bool
  q_valid :: bool
  pressed_at_us :: u64

definition reset_progress :: "reboot_hotkey_sequence \<Rightarrow> reboot_hotkey_sequence" where
  "reset_progress q = q\<lparr>completed_taps := 0, tap_source := 255, first_tap_us := 0\<rparr>"

definition reboot_hotkey_reset :: "reboot_hotkey_sequence \<Rightarrow> reboot_hotkey_sequence" where
  "reboot_hotkey_reset q = reset_progress q"

definition reboot_hotkey_reset_source :: "reboot_hotkey_source" where
  "reboot_hotkey_reset_source = \<lparr>q_down = False, q_valid = False, pressed_at_us = 0\<rparr>"

definition cancel_sequence ::
    "reboot_hotkey_sequence \<times> reboot_hotkey_source list \<Rightarrow> reboot_hotkey_sequence \<times> reboot_hotkey_source list" where
  "cancel_sequence st =
     (reset_progress (fst st), map (\<lambda>s. if q_down s then s\<lparr>q_valid := False\<rparr> else s) (snd st))"

primrec pressed_key_count :: "u8 list \<Rightarrow> u8 \<Rightarrow> nat \<Rightarrow> bool \<Rightarrow> nat \<times> bool" where
  "pressed_key_count [] trigger n down = (n, down)"
| "pressed_key_count (k # ks) trigger n down =
     (if k = 0 then pressed_key_count ks trigger n down
      else pressed_key_count ks trigger (n + 1) (if k = trigger then True else down))"

text \<open>A keyboard report as the recogniser is called with it, and the chord it is configured for.\<close>

record hotkey_report =
  rep_source :: u8
  rep_modifiers :: u8
  rep_keys :: "u8 list"
  rep_now :: u64

record hotkey_chord =
  required_modifiers :: u8
  trigger_key :: u8

definition reboot_hotkey_process_report ::
    "hotkey_chord \<Rightarrow> reboot_hotkey_sequence \<times> reboot_hotkey_source list \<Rightarrow> hotkey_report
     \<Rightarrow> reboot_hotkey_result \<times> (reboot_hotkey_sequence \<times> reboot_hotkey_source list)" where
  "reboot_hotkey_process_report chord st e =
     (let sequence = fst st; sources = snd st; i = unat (rep_source e); now = rep_now e in
      if i \<ge> length sources then (REBOOT_HOTKEY_PASS, st)
      else
        let (pressed, down) = pressed_key_count (rep_keys e) (trigger_key chord) 0 False;
            exact = (rep_modifiers e = required_modifiers chord \<and> down \<and> pressed = 1);
            st1 = (if completed_taps sequence \<noteq> 0 \<and> now - first_tap_us sequence > 1000000
                   then (reset_progress sequence, sources) else st)
        in if q_down (sources ! i) then
             let st2 = (if now - pressed_at_us (sources ! i) > 1000000 then cancel_sequence st1 else st1)
             in if down then
                  (REBOOT_HOTKEY_SWALLOW, if \<not> exact then cancel_sequence st2 else st2)
                else
                  let completed = (q_valid (snd st2 ! i) \<and> pressed = 0);
                      st3 = (fst st2, (snd st2)[i := reboot_hotkey_reset_source])
                  in if \<not> completed then (REBOOT_HOTKEY_CANCEL, cancel_sequence st3)
                     else
                       let st4 = (if completed_taps (fst st3) \<noteq> 0 \<and> tap_source (fst st3) \<noteq> rep_source e
                                  then cancel_sequence st3 else st3);
                           q = (fst st4)\<lparr>tap_source := rep_source e,
                                  first_tap_us := (if completed_taps (fst st4) = 0 then now
                                                   else first_tap_us (fst st4)),
                                  completed_taps := completed_taps (fst st4) + 1\<rparr>
                       in if completed_taps q < 3 then (REBOOT_HOTKEY_TAP, (q, snd st4))
                          else (REBOOT_HOTKEY_TRIGGER, (reset_progress q, snd st4))
           else if exact then
             let another = (\<exists>j<length sources. j \<noteq> i \<and> q_down (sources ! j));
                 st2 = (if (completed_taps (fst st1) \<noteq> 0 \<and> tap_source (fst st1) \<noteq> rep_source e) \<or> another
                        then cancel_sequence st1 else st1)
             in (REBOOT_HOTKEY_SWALLOW,
                 (fst st2, (snd st2)[i := \<lparr>q_down = True, q_valid = True, pressed_at_us = now\<rparr>]))
           else if pressed \<noteq> 0 then (REBOOT_HOTKEY_CANCEL, cancel_sequence st1)
           else (REBOOT_HOTKEY_PASS, st1))"

subsection \<open>Reports in plain terms\<close>

definition rep_pressed :: "hotkey_report \<Rightarrow> nat" where
  "rep_pressed e = length (filter (\<lambda>k. k \<noteq> 0) (rep_keys e))"

definition rep_down :: "hotkey_chord \<Rightarrow> hotkey_report \<Rightarrow> bool" where
  "rep_down c e \<longleftrightarrow> trigger_key c \<noteq> 0 \<and> trigger_key c \<in> set (rep_keys e)"

definition rep_exact :: "hotkey_chord \<Rightarrow> hotkey_report \<Rightarrow> bool" where
  "rep_exact c e \<longleftrightarrow> rep_modifiers e = required_modifiers c \<and> rep_down c e \<and> rep_pressed e = 1"

definition rep_clean :: "hotkey_chord \<Rightarrow> hotkey_report \<Rightarrow> bool" where
  "rep_clean c e \<longleftrightarrow> rep_exact c e \<or> rep_pressed e = 0"

lemma pressed_key_count_eq:
  "pressed_key_count ks t n d = (n + length (filter (\<lambda>k. k \<noteq> 0) ks), d \<or> t \<noteq> 0 \<and> t \<in> set ks)"
  by (induction ks arbitrary: n d) auto

lemma exact_not_idle: "rep_exact c e \<Longrightarrow> rep_pressed e \<noteq> 0"
  by (simp add: rep_exact_def)

lemma idle_not_down: "rep_pressed e = 0 \<Longrightarrow> \<not> rep_down c e"
  by (auto simp: rep_pressed_def rep_down_def filter_empty_conv)

text \<open>The step with the report's derived facts.\<close>

definition timed_out_sequence :: "u64 \<Rightarrow> reboot_hotkey_sequence \<Rightarrow> reboot_hotkey_sequence" where
  "timed_out_sequence now q =
     (if completed_taps q \<noteq> 0 \<and> now - first_tap_us q > 1000000 then reset_progress q else q)"

definition add_tap :: "u8 \<Rightarrow> u64 \<Rightarrow> reboot_hotkey_sequence \<Rightarrow> reboot_hotkey_sequence" where
  "add_tap s now q = q\<lparr>tap_source := s, first_tap_us := (if completed_taps q = 0 then now else first_tap_us q),
     completed_taps := completed_taps q + 1\<rparr>"

lemma process_report_eq:
  fixes c e q sources
  defines "i \<equiv> unat (rep_source e)" and "now \<equiv> rep_now e"
  defines "q1 \<equiv> timed_out_sequence now q"
  assumes "i < length sources"
  shows "reboot_hotkey_process_report c (q, sources) e =
    (if q_down (sources ! i) then
       let st2 = (if now - pressed_at_us (sources ! i) > 1000000 then cancel_sequence (q1, sources) else (q1, sources))
       in if rep_down c e then (REBOOT_HOTKEY_SWALLOW, if \<not> rep_exact c e then cancel_sequence st2 else st2)
          else
            let st3 = (fst st2, (snd st2)[i := reboot_hotkey_reset_source])
            in if \<not> (q_valid (snd st2 ! i) \<and> rep_pressed e = 0) then (REBOOT_HOTKEY_CANCEL, cancel_sequence st3)
               else
                 let st4 = (if completed_taps (fst st3) \<noteq> 0 \<and> tap_source (fst st3) \<noteq> rep_source e
                            then cancel_sequence st3 else st3);
                     q5 = add_tap (rep_source e) now (fst st4)
                 in if completed_taps q5 < 3 then (REBOOT_HOTKEY_TAP, (q5, snd st4))
                    else (REBOOT_HOTKEY_TRIGGER, (reset_progress q5, snd st4))
     else if rep_exact c e then
       let st2 = (if (completed_taps q1 \<noteq> 0 \<and> tap_source q1 \<noteq> rep_source e)
                    \<or> (\<exists>j<length sources. j \<noteq> i \<and> q_down (sources ! j))
                  then cancel_sequence (q1, sources) else (q1, sources))
       in (REBOOT_HOTKEY_SWALLOW, (fst st2, (snd st2)[i := \<lparr>q_down = True, q_valid = True, pressed_at_us = now\<rparr>]))
     else if rep_pressed e \<noteq> 0 then (REBOOT_HOTKEY_CANCEL, cancel_sequence (q1, sources))
     else (REBOOT_HOTKEY_PASS, (q1, sources)))"
proof -
  have st1: "(if completed_taps q \<noteq> 0 \<and> now - first_tap_us q > 1000000
      then (reset_progress q, sources) else (q, sources)) = (q1, sources)"
    by (simp add: q1_def timed_out_sequence_def)
  have ex: "(rep_modifiers e = required_modifiers c \<and> rep_down c e \<and> rep_pressed e = 1) = rep_exact c e"
    by (simp add: rep_exact_def)
  have cnt: "pressed_key_count (rep_keys e) (trigger_key c) 0 False = (rep_pressed e, rep_down c e)"
    by (simp add: pressed_key_count_eq rep_pressed_def rep_down_def)
  have inb: "\<not> i \<ge> length sources" using assms by simp
  show ?thesis
    unfolding reboot_hotkey_process_report_def Let_def fst_conv snd_conv i_def [symmetric] now_def [symmetric]
      if_not_P [OF inb] cnt prod.case st1 ex add_tap_def
    by (rule refl)
qed

subsection \<open>What the state records of the reports\<close>

text \<open>\<open>press_at\<close>: keyboard \<open>i\<close> pressed the chord at index \<open>p\<close>, has reported nothing but the chord
  since, and no keyboard has reported any other key. \<open>tapped\<close>: a press at \<open>p\<close> released at \<open>r\<close>.\<close>

definition press_at :: "hotkey_chord \<Rightarrow> hotkey_report list \<Rightarrow> nat \<Rightarrow> nat \<Rightarrow> bool" where
  "press_at c P i p \<longleftrightarrow> p < length P \<and> unat (rep_source (P ! p)) = i
     \<and> (\<forall>k. p \<le> k \<and> k < length P \<longrightarrow> rep_clean c (P ! k))
     \<and> (\<forall>k. p \<le> k \<and> k < length P \<and> unat (rep_source (P ! k)) = i \<longrightarrow> rep_exact c (P ! k))"

definition tapped :: "hotkey_chord \<Rightarrow> hotkey_report list \<Rightarrow> nat \<Rightarrow> nat \<Rightarrow> nat \<Rightarrow> bool" where
  "tapped c P i p r \<longleftrightarrow> p < r \<and> r < length P \<and> rep_exact c (P ! p) \<and> rep_pressed (P ! r) = 0
     \<and> unat (rep_source (P ! p)) = i \<and> unat (rep_source (P ! r)) = i
     \<and> (\<forall>k. p \<le> k \<and> k < r \<and> unat (rep_source (P ! k)) = i \<longrightarrow> rep_exact c (P ! k))
     \<and> rep_now (P ! r) - rep_now (P ! p) \<le> 1000000"

definition clean_since :: "hotkey_chord \<Rightarrow> hotkey_report list \<Rightarrow> nat \<Rightarrow> bool" where
  "clean_since c P p \<longleftrightarrow> (\<forall>k. p \<le> k \<and> k < length P \<longrightarrow> rep_clean c (P ! k))"

definition sources_inv :: "hotkey_chord \<Rightarrow> hotkey_report list \<Rightarrow> reboot_hotkey_source list \<Rightarrow> bool" where
  "sources_inv c P S \<longleftrightarrow> (\<forall>i<length S. q_down (S ! i) \<and> q_valid (S ! i) \<longrightarrow>
     (\<exists>p. press_at c P i p \<and> rep_now (P ! p) = pressed_at_us (S ! i)))"

definition one_tap :: "hotkey_chord \<Rightarrow> hotkey_report list \<Rightarrow> nat \<Rightarrow> u64 \<Rightarrow> bool" where
  "one_tap c P i t \<longleftrightarrow> (\<exists>p1 r1. tapped c P i p1 r1 \<and> rep_now (P ! r1) = t \<and> clean_since c P p1)"

definition two_taps :: "hotkey_chord \<Rightarrow> hotkey_report list \<Rightarrow> nat \<Rightarrow> u64 \<Rightarrow> bool" where
  "two_taps c P i t \<longleftrightarrow> (\<exists>p1 r1 p2 r2. tapped c P i p1 r1 \<and> r1 < p2 \<and> tapped c P i p2 r2
     \<and> rep_now (P ! r1) = t \<and> clean_since c P p1)"

definition taps_inv :: "hotkey_chord \<Rightarrow> hotkey_report list \<Rightarrow> reboot_hotkey_sequence \<Rightarrow> bool" where
  "taps_inv c P q \<longleftrightarrow> completed_taps q = 0
     \<or> completed_taps q = 1 \<and> one_tap c P (unat (tap_source q)) (first_tap_us q)
     \<or> completed_taps q = 2 \<and> two_taps c P (unat (tap_source q)) (first_tap_us q)"

lemma tapped_snoc: "tapped c P i p r \<Longrightarrow> tapped c (P @ [e]) i p r"
  by (auto simp: tapped_def nth_append)

lemma tapped_bounds: "tapped c P i p r \<Longrightarrow> p < r \<and> r < length P"
  by (simp add: tapped_def)

lemma clean_since_snoc: "clean_since c P p \<Longrightarrow> rep_clean c e \<Longrightarrow> clean_since c (P @ [e]) p"
  by (auto simp: clean_since_def nth_append less_Suc_eq)

lemma taps_inv_snoc:
  assumes "taps_inv c P q" "rep_clean c e"
  shows "taps_inv c (P @ [e]) q"
proof -
  have one: "one_tap c (P @ [e]) i t" if "one_tap c P i t" for i t
  proof -
    from that obtain p1 r1 where "tapped c P i p1 r1" "rep_now (P ! r1) = t" "clean_since c P p1"
      by (auto simp: one_tap_def)
    with assms(2) show ?thesis unfolding one_tap_def
      by (intro exI [of _ p1] exI [of _ r1])
         (auto simp: nth_append tapped_snoc clean_since_snoc dest: tapped_bounds)
  qed
  have two: "two_taps c (P @ [e]) i t" if "two_taps c P i t" for i t
  proof -
    from that obtain p1 r1 p2 r2 where "tapped c P i p1 r1" "r1 < p2" "tapped c P i p2 r2"
      "rep_now (P ! r1) = t" "clean_since c P p1" by (auto simp: two_taps_def)
    with assms(2) show ?thesis unfolding two_taps_def
      by (intro exI [of _ p1] exI [of _ r1] exI [of _ p2] exI [of _ r2])
         (auto simp: nth_append tapped_snoc clean_since_snoc dest: tapped_bounds)
  qed
  show ?thesis using assms(1) one two unfolding taps_inv_def by blast
qed

lemma taps_inv_reset: "taps_inv c P (reset_progress q)"
  by (simp add: taps_inv_def reset_progress_def)

lemma taps_inv_timeout: "taps_inv c P q \<Longrightarrow> taps_inv c P (timed_out_sequence now q)"
  by (simp add: timed_out_sequence_def taps_inv_reset)

lemma press_at_snoc:
  assumes "press_at c P i p" "rep_clean c e" "unat (rep_source e) = i \<Longrightarrow> rep_exact c e"
  shows "press_at c (P @ [e]) i p"
  using assms by (auto simp: press_at_def nth_append less_Suc_eq)

lemma press_now: "press_at c P i p \<Longrightarrow> rep_now ((P @ [e]) ! p) = rep_now (P ! p)"
  by (simp add: press_at_def nth_append)

lemma sources_inv_snoc:
  assumes "sources_inv c P S" "rep_clean c e"
    "unat (rep_source e) < length S \<Longrightarrow> q_down (S ! unat (rep_source e)) \<Longrightarrow> rep_exact c e"
  shows "sources_inv c (P @ [e]) S"
  unfolding sources_inv_def
proof (intro allI impI)
  fix i
  assume i: "i < length S" "q_down (S ! i) \<and> q_valid (S ! i)"
  with assms(1) obtain p where p: "press_at c P i p" "rep_now (P ! p) = pressed_at_us (S ! i)"
    unfolding sources_inv_def by blast
  have "press_at c (P @ [e]) i p" using press_at_snoc [OF p(1) assms(2)] assms(3) i by auto
  with p press_now show "\<exists>p. press_at c (P @ [e]) i p \<and> rep_now ((P @ [e]) ! p) = pressed_at_us (S ! i)"
    by (metis (no_types))
qed

lemma sources_inv_cancel: "sources_inv c P (snd (cancel_sequence st))"
  by (auto simp: sources_inv_def cancel_sequence_def)

lemma sources_inv_release:
  "sources_inv c P S \<Longrightarrow> sources_inv c P (S[i := reboot_hotkey_reset_source])"
  by (cases "i < length S") (auto simp: sources_inv_def reboot_hotkey_reset_source_def nth_list_update list_update_beyond)

lemma sources_inv_press:
  assumes "sources_inv c (P @ [e]) S" "rep_exact c e" "unat (rep_source e) < length S"
  shows "sources_inv c (P @ [e]) (S[unat (rep_source e) := \<lparr>q_down = True, q_valid = True, pressed_at_us = rep_now e\<rparr>])"
proof -
  have "press_at c (P @ [e]) (unat (rep_source e)) (length P)"
    using assms(2) by (auto simp: press_at_def nth_append less_Suc_eq rep_clean_def)
  then show ?thesis using assms(1,3)
    by (auto simp: sources_inv_def nth_list_update)
qed

text \<open>A release after a valid press is a tap, and the taps before it precede the press.\<close>

lemma release_tapped:
  assumes "press_at c P i p" "unat (rep_source e) = i" "rep_pressed e = 0" "rep_now e - rep_now (P ! p) \<le> 1000000"
  shows "tapped c (P @ [e]) i p (length P)" "clean_since c (P @ [e]) p"
  using assms by (auto simp: tapped_def press_at_def clean_since_def nth_append less_Suc_eq rep_clean_def)

lemma press_after_tap: "press_at c P i p \<Longrightarrow> tapped c P i p' r \<Longrightarrow> r < p"
  using exact_not_idle by (fastforce simp: press_at_def tapped_def not_less [symmetric])

definition three_taps :: "hotkey_chord \<Rightarrow> hotkey_report list \<Rightarrow> nat \<Rightarrow> bool" where
  "three_taps c P i \<longleftrightarrow> (\<exists>p1 r1 p2 r2 p3 r3. tapped c P i p1 r1 \<and> r1 < p2 \<and> tapped c P i p2 r2 \<and> r2 < p3
     \<and> tapped c P i p3 r3 \<and> r3 + 1 = length P \<and> rep_now (P ! r3) - rep_now (P ! r1) \<le> 1000000
     \<and> clean_since c P p1)"

lemma add_tap_inv:
  assumes inv: "taps_inv c P q" and src: "completed_taps q \<noteq> 0 \<longrightarrow> tap_source q = rep_source e"
    and p: "press_at c P (unat (rep_source e)) p" "rep_pressed e = 0" "rep_now e - rep_now (P ! p) \<le> 1000000"
  shows "completed_taps q < 2 \<Longrightarrow> taps_inv c (P @ [e]) (add_tap (rep_source e) (rep_now e) q)"
    and "\<not> completed_taps q < 2 \<Longrightarrow> rep_now e - first_tap_us q \<le> 1000000 \<Longrightarrow>
      three_taps c (P @ [e]) (unat (rep_source e))"
proof -
  let ?i = "unat (rep_source e)"
  note tap = release_tapped [OF p(1) refl p(2,3)]
  have clean: "rep_clean c e" using p(2) by (simp add: rep_clean_def)
  have now: "rep_now ((P @ [e]) ! length P) = rep_now e" by simp
  show "taps_inv c (P @ [e]) (add_tap (rep_source e) (rep_now e) q)" if "completed_taps q < 2"
  proof (cases "completed_taps q = 0")
    case True
    then have "one_tap c (P @ [e]) ?i (rep_now e)" unfolding one_tap_def
      using tap now by (intro exI [of _ p] exI [of _ "length P"]) simp
    then show ?thesis using True unfolding taps_inv_def add_tap_def by simp
  next
    case False
    with that have one: "completed_taps q = 1" by simp
    with inv src obtain p1 r1 where t: "tapped c P ?i p1 r1" "rep_now (P ! r1) = first_tap_us q" "clean_since c P p1"
      by (auto simp: taps_inv_def one_tap_def)
    have "two_taps c (P @ [e]) ?i (first_tap_us q)" unfolding two_taps_def
      using t tap(1) press_after_tap [OF p(1) t(1)] tapped_snoc [OF t(1)] clean_since_snoc [OF t(3) clean]
        tapped_bounds [OF t(1)]
      by (intro exI [of _ p1] exI [of _ r1] exI [of _ p] exI [of _ "length P"]) (simp add: nth_append)
    then show ?thesis using one unfolding taps_inv_def add_tap_def by simp
  qed
  show "three_taps c (P @ [e]) ?i" if two: "\<not> completed_taps q < 2" "rep_now e - first_tap_us q \<le> 1000000"
  proof -
    from two(1) inv have "two_taps c P (unat (tap_source q)) (first_tap_us q)"
      unfolding taps_inv_def by (elim disjE conjE) simp_all
    moreover have "tap_source q = rep_source e" using src two(1) by simp
    ultimately obtain p1 r1 p2 r2 where t: "tapped c P ?i p1 r1" "r1 < p2" "tapped c P ?i p2 r2"
        "rep_now (P ! r1) = first_tap_us q" "clean_since c P p1"
      unfolding two_taps_def by auto
    have r1: "rep_now ((P @ [e]) ! r1) = first_tap_us q" using t(4) tapped_bounds [OF t(1)] by (simp add: nth_append)
    show ?thesis unfolding three_taps_def
    proof (intro exI conjI)
      show "tapped c (P @ [e]) ?i p1 r1" "tapped c (P @ [e]) ?i p2 r2" using t by (simp_all add: tapped_snoc)
      show "r1 < p2" "r2 < p" using t(2) press_after_tap [OF p(1) t(3)] by simp_all
      show "tapped c (P @ [e]) ?i p (length P)" by (rule tap(1))
      show "rep_now ((P @ [e]) ! length P) - rep_now ((P @ [e]) ! r1) \<le> 1000000" unfolding r1 using two(2) by simp
      show "clean_since c (P @ [e]) p1" by (rule clean_since_snoc [OF t(5) clean])
    qed simp
  qed
qed

definition hotkey_inv ::
    "hotkey_chord \<Rightarrow> hotkey_report list \<Rightarrow> reboot_hotkey_sequence \<times> reboot_hotkey_source list \<Rightarrow> bool" where
  "hotkey_inv c P st \<longleftrightarrow> sources_inv c P (snd st) \<and> taps_inv c P (fst st)"

lemma hotkey_inv_cancel: "hotkey_inv c P (cancel_sequence st)"
  by (simp add: hotkey_inv_def sources_inv_cancel) (simp add: cancel_sequence_def taps_inv_reset)

lemma length_cancel [simp]: "length (snd (cancel_sequence st)) = length (snd st)"
  by (simp add: cancel_sequence_def)

lemma cancel_fields:
  "i < length (snd st) \<Longrightarrow> q_down (snd (cancel_sequence st) ! i) = q_down (snd st ! i)"
  "i < length (snd st) \<Longrightarrow> q_down (snd st ! i) \<Longrightarrow> \<not> q_valid (snd (cancel_sequence st) ! i)"
  "completed_taps (fst (cancel_sequence st)) = 0"
  by (simp_all add: cancel_sequence_def reset_progress_def)

lemma hotkey_step:
  assumes inv: "hotkey_inv c P (q, S)" and st: "reboot_hotkey_process_report c (q, S) e = (r, st')"
    and i: "unat (rep_source e) < length S"
  shows "hotkey_inv c (P @ [e]) st' \<and> length (snd st') = length S
    \<and> (r = REBOOT_HOTKEY_TRIGGER \<longrightarrow> three_taps c (P @ [e]) (unat (rep_source e)))"
proof -
  let ?i = "unat (rep_source e)" and ?now = "rep_now e"
  define q1 where "q1 = timed_out_sequence ?now q"
  note eq = process_report_eq [OF i, of c q, folded q1_def, unfolded st]
  have S: "sources_inv c P S" and q: "taps_inv c P q1"
    using inv taps_inv_timeout by (auto simp: hotkey_inv_def q1_def)
  have first: "completed_taps q1 \<noteq> 0 \<Longrightarrow> ?now - first_tap_us q1 \<le> 1000000"
    by (auto simp: q1_def timed_out_sequence_def reset_progress_def not_less split: if_splits)
  have keep: "hotkey_inv c (P @ [e]) (q1, S)" if "rep_exact c e \<or> rep_pressed e = 0 \<and> \<not> q_down (S ! ?i)"
    using sources_inv_snoc [OF S] taps_inv_snoc [OF q] that by (auto simp: hotkey_inv_def rep_clean_def)
  consider (unclean) "\<not> rep_clean c e" | (chord_held) "rep_exact c e" "q_down (S ! ?i)"
    | (chord) "rep_exact c e" "\<not> q_down (S ! ?i)" | (idle) "rep_pressed e = 0" "\<not> q_down (S ! ?i)"
    | (release) "rep_pressed e = 0" "q_down (S ! ?i)" by (auto simp: rep_clean_def)
  then show ?thesis
  proof cases
    case unclean
    then show ?thesis using eq hotkey_inv_cancel by (auto simp: rep_clean_def Let_def split: if_splits)
  next
    case chord_held
    then show ?thesis using eq keep hotkey_inv_cancel
      by (auto simp: rep_exact_def Let_def split: if_splits)
  next
    case chord
    then show ?thesis using eq keep hotkey_inv_cancel i
      by (auto simp: Let_def hotkey_inv_def sources_inv_press split: if_splits)
  next
    case idle
    then have "\<not> rep_exact c e" using exact_not_idle [of c e] by auto
    with idle eq keep show ?thesis by simp
  next
    case release
    have nd: "\<not> rep_down c e" using idle_not_down [OF release(1)] .
    show ?thesis
    proof (cases "?now - pressed_at_us (S ! ?i) > 1000000 \<or> \<not> q_valid (S ! ?i)")
      case True
      then show ?thesis using eq release nd hotkey_inv_cancel cancel_fields(2) [of ?i "(q1, S)"] i
        by (auto simp: Let_def split: if_splits)
    next
      case False
      then obtain p where p: "press_at c P ?i p" "rep_now (P ! p) = pressed_at_us (S ! ?i)"
        using S i release(2) by (auto simp: sources_inv_def)
      have in_time: "?now - rep_now (P ! p) \<le> 1000000" using False p(2) by (simp add: not_less)
      let ?S = "S[?i := reboot_hotkey_reset_source]"
      have S': "sources_inv c (P @ [e]) ?S"
        by (rule sources_inv_snoc [OF sources_inv_release [OF S]])
           (use release(1) i in \<open>simp_all add: rep_clean_def reboot_hotkey_reset_source_def\<close>)
      define other where "other \<longleftrightarrow> completed_taps q1 \<noteq> 0 \<and> tap_source q1 \<noteq> rep_source e"
      define st4 where "st4 = (if other then cancel_sequence (q1, ?S) else (q1, ?S))"
      have eq': "(r, st') = (if completed_taps (add_tap (rep_source e) ?now (fst st4)) < 3
          then (REBOOT_HOTKEY_TAP, (add_tap (rep_source e) ?now (fst st4), snd st4))
          else (REBOOT_HOTKEY_TRIGGER, (reset_progress (add_tap (rep_source e) ?now (fst st4)), snd st4)))"
        using eq False release nd unfolding st4_def other_def by (simp add: Let_def)
      have q4: "taps_inv c P (fst st4)" "completed_taps (fst st4) \<noteq> 0 \<longrightarrow> tap_source (fst st4) = rep_source e"
        "completed_taps (fst st4) \<noteq> 0 \<longrightarrow> ?now - first_tap_us (fst st4) \<le> 1000000"
        using q first by (auto simp: st4_def other_def cancel_fields(3))
           (simp add: cancel_sequence_def taps_inv_reset)
      have S4: "sources_inv c (P @ [e]) (snd st4)" "length (snd st4) = length S"
        using S' sources_inv_cancel by (auto simp: st4_def)
      note tap = add_tap_inv [OF q4(1,2) p(1) release(1) in_time]
      have taps: "completed_taps (add_tap (rep_source e) ?now (fst st4)) = completed_taps (fst st4) + 1"
        by (simp add: add_tap_def)
      show ?thesis using eq' tap q4(3) S4 taps_inv_reset unfolding taps
        by (cases "completed_taps (fst st4) < 2") (simp_all add: hotkey_inv_def)
    qed
  qed
qed

lemma hotkey_out_of_range:
  "\<not> unat (rep_source e) < length (snd st) \<Longrightarrow> reboot_hotkey_process_report c st e = (REBOOT_HOTKEY_PASS, st)"
  by (simp add: reboot_hotkey_process_report_def Let_def)

lemma hotkey_run:
  assumes "hotkey_inv c P (q, S)" "run_machine (reboot_hotkey_process_report c) (q, S) es = (rs, st')"
    "\<forall>e\<in>set es. unat (rep_source e) < length S" "n < length es" "rs ! n = REBOOT_HOTKEY_TRIGGER"
  shows "three_taps c (P @ take (Suc n) es) (unat (rep_source (es ! n)))"
  using assms
proof (induction es arbitrary: P q S rs n)
  case Nil
  then show ?case by simp
next
  case (Cons e es)
  obtain r q1 S1 where st: "reboot_hotkey_process_report c (q, S) e = (r, (q1, S1))" using prod_cases3 .
  obtain rs' where run: "run_machine (reboot_hotkey_process_report c) (q1, S1) es = (rs', st')" "rs = r # rs'"
    using Cons.prems(2) st by (auto split: prod.splits)
  have "unat (rep_source e) < length S" using Cons.prems(3) by simp
  note step = hotkey_step [OF Cons.prems(1) st this]
  show ?case
  proof (cases n)
    case 0
    then show ?thesis using step Cons.prems(5) run(2) by simp
  next
    case (Suc m)
    have "hotkey_inv c (P @ [e]) (q1, S1)" "\<forall>e\<in>set es. unat (rep_source e) < length S1"
      using step Cons.prems(3) by simp_all
    from Cons.IH [OF this(1) run(1) this(2), of m] Cons.prems(4,5) run(2) Suc show ?thesis by simp
  qed
qed

text \<open>Whether a keyboard's chord has been swallowed and its key not yet released, from the reports.\<close>

primrec chord_held :: "hotkey_chord \<Rightarrow> nat \<Rightarrow> bool \<Rightarrow> hotkey_report list \<Rightarrow> bool" where
  "chord_held c i held [] = held"
| "chord_held c i held (e # es) =
     chord_held c i (if unat (rep_source e) = i then (if held then rep_down c e else rep_exact c e) else held) es"

lemma hotkey_step_held:
  assumes i: "unat (rep_source e) < length S" and st: "reboot_hotkey_process_report c (q, S) e = (r, (q', S'))"
  shows "length S' = length S"
    and "j < length S \<Longrightarrow> q_down (S' ! j) =
      (if unat (rep_source e) = j then (if q_down (S ! j) then rep_down c e else rep_exact c e) else q_down (S ! j))"
    and "r = REBOOT_HOTKEY_SWALLOW \<longleftrightarrow>
      (if q_down (S ! unat (rep_source e)) then rep_down c e else rep_exact c e)"
proof -
  note eq = process_report_eq [OF i, of c q, unfolded st]
  have cancel: "length (snd (cancel_sequence (a, T))) = length T"
    "k < length T \<Longrightarrow> q_down (snd (cancel_sequence (a, T)) ! k) = q_down (T ! k)" for a T k
    by (simp_all add: cancel_fields(1))
  note S' = arg_cong [OF eq, of "\<lambda>x. snd (snd x)", unfolded snd_conv]
  show "length S' = length S" unfolding S' by (simp add: Let_def cancel)
  show "q_down (S' ! j) =
      (if unat (rep_source e) = j then (if q_down (S ! j) then rep_down c e else rep_exact c e) else q_down (S ! j))"
    if j: "j < length S"
    unfolding S' using j i
    by (cases "unat (rep_source e) = j"; cases "q_down (S ! unat (rep_source e))"; cases "rep_down c e";
        cases "rep_exact c e"; simp add: Let_def cancel cancel_fields(1) reboot_hotkey_reset_source_def)
  show "r = REBOOT_HOTKEY_SWALLOW \<longleftrightarrow>
      (if q_down (S ! unat (rep_source e)) then rep_down c e else rep_exact c e)"
    using eq by (auto simp: Let_def split: if_splits)
qed

lemma hotkey_run_held:
  assumes "run_machine (reboot_hotkey_process_report c) (q, S) es = (rs, st')"
    "\<forall>e\<in>set es. unat (rep_source e) < length S" "n < length es" "i = unat (rep_source (es ! n))"
  shows "rs ! n = REBOOT_HOTKEY_SWALLOW \<longleftrightarrow>
    (if chord_held c i (q_down (S ! i)) (take n es) then rep_down c (es ! n) else rep_exact c (es ! n))"
  using assms
proof (induction es arbitrary: q S rs n)
  case Nil
  then show ?case by simp
next
  case (Cons e es)
  obtain r q1 S1 where st: "reboot_hotkey_process_report c (q, S) e = (r, (q1, S1))" using prod_cases3 .
  obtain rs' where run: "run_machine (reboot_hotkey_process_report c) (q1, S1) es = (rs', st')" "rs = r # rs'"
    using Cons.prems(1) st by (auto split: prod.splits)
  have e: "unat (rep_source e) < length S" using Cons.prems(2) by simp
  note held = hotkey_step_held [OF e st]
  show ?case
  proof (cases n)
    case 0
    then show ?thesis using held(3) Cons.prems(4) run(2) by simp
  next
    case (Suc m)
    have i: "i < length S" using Cons.prems(2,4) nth_mem [OF Cons.prems(3)] by blast
    have all: "\<forall>e\<in>set es. unat (rep_source e) < length S1" using Cons.prems(2) held(1) by simp
    have "(rs' ! m = REBOOT_HOTKEY_SWALLOW)
        = (if chord_held c i (q_down (S1 ! i)) (take m es) then rep_down c (es ! m) else rep_exact c (es ! m))"
      using Cons.IH [OF run(1) all, of m] Cons.prems(3,4) Suc by simp
    moreover have "chord_held c i (q_down (S ! i)) (take n (e # es)) = chord_held c i (q_down (S1 ! i)) (take m es)"
      unfolding Suc take_Suc_Cons chord_held.simps held(2) [OF i] ..
    ultimately show ?thesis unfolding run(2) Suc nth_Cons_Suc by simp
  qed
qed

definition hotkey_boot :: "nat \<Rightarrow> reboot_hotkey_sequence \<times> reboot_hotkey_source list" where
  "hotkey_boot n = (\<lparr>completed_taps = 0, tap_source = 255, first_tap_us = 0\<rparr>, replicate n reboot_hotkey_reset_source)"

lemma hotkey_boot_inv: "hotkey_inv c [] (hotkey_boot n)"
  by (simp add: hotkey_inv_def hotkey_boot_def sources_inv_def taps_inv_def reboot_hotkey_reset_source_def)

subsection \<open>Properties\<close>

text \<open>
  C26. The reboot shortcut fires only for three complete taps. In any run from boot, if a report
  triggers the reboot, then the reports up to it contain three taps of the exact chord by the same
  keyboard, each pressed, held with the chord only and fully released within a second, one after the
  other, the last release being this report; the first and last releases are at most a second apart,
  and since the first press no keyboard has reported any key outside the chord.
\<close>

theorem reboot_requires_three_taps:
  assumes "run_machine (reboot_hotkey_process_report c) (hotkey_boot k) es = (rs, st')"
    and "\<forall>e\<in>set es. unat (rep_source e) < k" "n < length es" "rs ! n = REBOOT_HOTKEY_TRIGGER"
  shows "\<exists>p1 r1 p2 r2 p3. let P = take (Suc n) es; i = unat (rep_source (es ! n)) in
    tapped c P i p1 r1 \<and> r1 < p2 \<and> tapped c P i p2 r2 \<and> r2 < p3 \<and> tapped c P i p3 n
    \<and> rep_now (es ! n) - rep_now (es ! r1) \<le> 1000000 \<and> (\<forall>j. p1 \<le> j \<and> j \<le> n \<longrightarrow> rep_clean c (es ! j))"
proof -
  let ?P = "take (Suc n) es"
  have len: "length ?P = Suc n" using assms(3) by simp
  have "three_taps c ([] @ ?P) (unat (rep_source (es ! n)))"
    using assms by (intro hotkey_run [OF hotkey_boot_inv [of c k, unfolded hotkey_boot_def]])
      (simp_all add: hotkey_boot_def)
  then obtain p1 r1 p2 r2 p3 where t: "tapped c ?P (unat (rep_source (es ! n))) p1 r1" "r1 < p2"
      "tapped c ?P (unat (rep_source (es ! n))) p2 r2" "r2 < p3"
      "tapped c ?P (unat (rep_source (es ! n))) p3 n" "rep_now (?P ! n) - rep_now (?P ! r1) \<le> 1000000"
      "clean_since c ?P p1"
    unfolding three_taps_def using len by auto
  moreover have "r1 < Suc n" using tapped_bounds [OF t(1)] len by simp
  moreover have "\<forall>j. p1 \<le> j \<and> j \<le> n \<longrightarrow> rep_clean c (es ! j)"
    using t(7) unfolding clean_since_def len by (simp add: less_Suc_eq_le)
  ultimately show ?thesis unfolding Let_def
    by (intro exI [of _ p1] exI [of _ r1] exI [of _ p2] exI [of _ r2] exI [of _ p3]) simp
qed

theorem reboot_requires_three_taps_witness:
  "let c = \<lparr>required_modifiers = 5, trigger_key = 20\<rparr>;
       e = (\<lambda>m ks t. \<lparr>rep_source = 0, rep_modifiers = m, rep_keys = ks, rep_now = t\<rparr>);
       es = [e 5 [20, 0] 0, e 5 [] 10, e 5 [20] 20, e 5 [0] 30, e 5 [20] 40, e 0 [] 50]
   in fst (run_machine (reboot_hotkey_process_report c) (hotkey_boot 1) es) ! 5 = REBOOT_HOTKEY_TRIGGER
      \<and> (\<exists>p1 r1. tapped c (take 6 es) 0 p1 r1)"
proof -
  let ?c = "\<lparr>required_modifiers = 5, trigger_key = 20\<rparr>"
  let ?e = "\<lambda>m ks t. \<lparr>rep_source = 0 :: u8, rep_modifiers = m, rep_keys = ks, rep_now = t\<rparr>"
  let ?es = "[?e 5 [20, 0] 0, ?e 5 [] 10, ?e 5 [20] 20, ?e 5 [0] 30, ?e 5 [20] 40, ?e 0 [] 50]"
  let ?run = "run_machine (reboot_hotkey_process_report ?c) (hotkey_boot 1) ?es"
  have trig: "fst ?run ! 5 = REBOOT_HOTKEY_TRIGGER" by code_simp
  have "?run = (fst ?run, snd ?run)" by simp
  from reboot_requires_three_taps [OF this _ _ trig] trig show ?thesis
    by (auto simp: Let_def)
qed

text \<open>
  A swallowed chord never leaks. In any run from boot, a report is swallowed exactly when it is
  the chord itself, or it still contains the trigger key of a chord this keyboard pressed earlier and
  has not released since, whatever other keys or modifiers it carries and whatever the other
  keyboards did in between.
\<close>

theorem reboot_chord_swallowed:
  assumes "run_machine (reboot_hotkey_process_report c) (hotkey_boot k) es = (rs, st')"
    and "\<forall>e\<in>set es. unat (rep_source e) < k" "n < length es" "i = unat (rep_source (es ! n))"
  shows "rs ! n = REBOOT_HOTKEY_SWALLOW \<longleftrightarrow>
    rep_exact c (es ! n) \<or> chord_held c i False (take n es) \<and> rep_down c (es ! n)"
proof -
  have "i < k" using assms(2,4) nth_mem [OF assms(3)] by blast
  then show ?thesis
    using hotkey_run_held [OF assms(1) [unfolded hotkey_boot_def] _ assms(3,4)] assms(2)
    by (auto simp: reboot_hotkey_reset_source_def rep_exact_def)
qed

theorem reboot_chord_swallowed_witness:
  "let c = \<lparr>required_modifiers = 5, trigger_key = 20\<rparr>;
       e = (\<lambda>m ks t. \<lparr>rep_source = 0, rep_modifiers = m, rep_keys = ks, rep_now = t\<rparr>);
       es = [e 5 [20, 0] 0, e 5 [20, 4] 10]
   in fst (run_machine (reboot_hotkey_process_report c) (hotkey_boot 1) es) ! 1 = REBOOT_HOTKEY_SWALLOW"
proof -
  let ?c = "\<lparr>required_modifiers = 5, trigger_key = 20\<rparr>"
  let ?e = "\<lambda>m ks t. \<lparr>rep_source = 0 :: u8, rep_modifiers = m, rep_keys = ks, rep_now = t\<rparr>"
  let ?es = "[?e 5 [20, 0] 0, ?e 5 [20, 4] 10]"
  let ?run = "run_machine (reboot_hotkey_process_report ?c) (hotkey_boot 1) ?es"
  have "?run = (fst ?run, snd ?run)" by simp
  from reboot_chord_swallowed [OF this, of 1 0]
  show ?thesis by (simp add: Let_def rep_exact_def rep_down_def rep_pressed_def del: run_machine.simps)
qed

end
