(* ===== verification/Config.thy ===== *)
theory Config
  imports Crc
begin

text \<open>
  The device configuration: the structures of screen.h and structs.h, the field table of the
  configuration API (protocol.c), the defaults (defaults.c), and validation, repair, the setters and
  the digest (utils.c), with the migration of stored versions (config\_migration.c). A field's offset
  in the C structure is a field reference; \<open>int32_t\<close> fields keep their bit pattern and are compared
  signed where the code does. The properties: repair always yields a valid configuration and changes
  nothing valid, no setter can publish an invalid one, and a successful SET is what a GET returns.
\<close>

unbundle bit_operations_syntax

subsection \<open>Structures\<close>

record border_size =
  border_top :: u32
  border_bottom :: u32

record screensaver =
  ss_mode :: u8
  ss_only_if_inactive :: u8
  ss_idle_time_us :: u64
  ss_max_time_us :: u64

record output_t =
  out_number :: u32
  out_screen_count :: u32
  out_screen_index :: u32
  out_speed_x :: u32
  out_speed_y :: u32
  out_border :: border_size
  out_os :: u8
  out_pos :: u8
  out_mouse_park_pos :: u8
  out_screensaver :: screensaver

text \<open>The two entries of \<open>output[NUM_SCREENS]\<close> are two fields.\<close>

record config =
  cfg_magic_header :: u32
  cfg_version :: u32
  cfg_force_mouse_boot_mode :: u8
  cfg_force_kbd_boot_protocol :: u8
  cfg_kbd_led_as_indicator :: u8
  cfg_hotkey_toggle :: u8
  cfg_enable_acceleration :: u8
  cfg_enforce_ports :: u8
  cfg_jump_threshold :: u16
  cfg_output_a :: output_t
  cfg_output_b :: output_t
  cfg_screensaver_system_timeout_sec :: u32
  cfg_checksum :: u32

definition get_output :: "config \<Rightarrow> nat \<Rightarrow> output_t" where
  "get_output c i = (if i = 0 then cfg_output_a c else cfg_output_b c)"

definition set_output :: "nat \<Rightarrow> output_t \<Rightarrow> config \<Rightarrow> config" where
  "set_output i v c = (if i = 0 then c\<lparr>cfg_output_a := v\<rparr> else c\<lparr>cfg_output_b := v\<rparr>)"

definition default_output :: "u32 \<Rightarrow> u8 \<Rightarrow> u8 \<Rightarrow> output_t" where
  "default_output number os pos =
     \<lparr>out_number = number, out_screen_count = 1, out_screen_index = 1, out_speed_x = 16, out_speed_y = 28,
      out_border = \<lparr>border_top = 0, border_bottom = 32767\<rparr>, out_os = os, out_pos = pos,
      out_mouse_park_pos = 0,
      out_screensaver = \<lparr>ss_mode = 2, ss_only_if_inactive = 0, ss_idle_time_us = 240 * 1000000,
        ss_max_time_us = 0 * 1000000\<rparr>\<rparr>"

text \<open>The defaults: output A runs macOS (2) at the right (2), output B Linux (1) at the left (1).\<close>

definition default_config :: config where
  "default_config =
     \<lparr>cfg_magic_header = 0xB00B1E5, cfg_version = 10, cfg_force_mouse_boot_mode = 0,
      cfg_force_kbd_boot_protocol = 0, cfg_kbd_led_as_indicator = 0, cfg_hotkey_toggle = 0x73,
      cfg_enable_acceleration = 1, cfg_enforce_ports = 0, cfg_jump_threshold = 0,
      cfg_output_a = default_output 0 2 2, cfg_output_b = default_output 1 1 1,
      cfg_screensaver_system_timeout_sec = 300, cfg_checksum = 0\<rparr>"

subsection \<open>The field table\<close>

datatype type_e = UINT8 | UINT16 | UINT32 | UINT64 | INT8 | INT16 | INT32 | INT64 | BOOL

datatype output_field = O_number | O_screen_count | O_speed_x | O_speed_y | O_border_top | O_border_bottom | O_os | O_pos | O_mouse_park_pos | O_ss_mode | O_ss_only_if_inactive | O_ss_idle_time_us | O_ss_max_time_us

datatype config_field_id = C_version | C_force_mouse_boot_mode | C_force_kbd_boot_protocol | C_kbd_led_as_indicator | C_hotkey_toggle | C_enable_acceleration | C_enforce_ports | C_jump_threshold | C_screensaver_system_timeout_sec

datatype device_field = D_active_output | D_pointer_x | D_pointer_y | D_mouse_buttons | D_running_fw_version | D_running_fw_checksum | D_keyboard_connected | D_switch_lock | D_relative_mouse

datatype field_ref = F_output nat output_field | F_config config_field_id | F_device device_field

datatype field_map_t = field_map (fm_idx: nat) (fm_readonly: bool) (fm_type: type_e) (fm_len: nat) (fm_offset: field_ref)

definition api_field_map :: "field_map_t list" where
  "api_field_map = [
     field_map 0 True UINT8 1 (F_device D_active_output),
     field_map 1 True INT16 2 (F_device D_pointer_x),
     field_map 2 True INT16 2 (F_device D_pointer_y),
     field_map 3 True INT16 2 (F_device D_mouse_buttons),
     field_map 10 True UINT32 4 (F_output 0 O_number),
     field_map 11 False UINT32 4 (F_output 0 O_screen_count),
     field_map 12 False INT32 4 (F_output 0 O_speed_x),
     field_map 13 False INT32 4 (F_output 0 O_speed_y),
     field_map 14 False INT32 4 (F_output 0 O_border_top),
     field_map 15 False INT32 4 (F_output 0 O_border_bottom),
     field_map 16 False UINT8 1 (F_output 0 O_os),
     field_map 17 False UINT8 1 (F_output 0 O_pos),
     field_map 18 False UINT8 1 (F_output 0 O_mouse_park_pos),
     field_map 19 False UINT8 1 (F_output 0 O_ss_mode),
     field_map 20 False UINT8 1 (F_output 0 O_ss_only_if_inactive),
     field_map 21 False UINT64 7 (F_output 0 O_ss_idle_time_us),
     field_map 22 False UINT64 7 (F_output 0 O_ss_max_time_us),
     field_map 40 True UINT32 4 (F_output 1 O_number),
     field_map 41 False UINT32 4 (F_output 1 O_screen_count),
     field_map 42 False INT32 4 (F_output 1 O_speed_x),
     field_map 43 False INT32 4 (F_output 1 O_speed_y),
     field_map 44 False INT32 4 (F_output 1 O_border_top),
     field_map 45 False INT32 4 (F_output 1 O_border_bottom),
     field_map 46 False UINT8 1 (F_output 1 O_os),
     field_map 47 False UINT8 1 (F_output 1 O_pos),
     field_map 48 False UINT8 1 (F_output 1 O_mouse_park_pos),
     field_map 49 False UINT8 1 (F_output 1 O_ss_mode),
     field_map 50 False UINT8 1 (F_output 1 O_ss_only_if_inactive),
     field_map 51 False UINT64 7 (F_output 1 O_ss_idle_time_us),
     field_map 52 False UINT64 7 (F_output 1 O_ss_max_time_us),
     field_map 70 True UINT32 4 (F_config C_version),
     field_map 71 False UINT8 1 (F_config C_force_mouse_boot_mode),
     field_map 72 False UINT8 1 (F_config C_force_kbd_boot_protocol),
     field_map 73 False UINT8 1 (F_config C_kbd_led_as_indicator),
     field_map 74 False UINT8 1 (F_config C_hotkey_toggle),
     field_map 75 False UINT8 1 (F_config C_enable_acceleration),
     field_map 76 False UINT8 1 (F_config C_enforce_ports),
     field_map 77 False UINT16 2 (F_config C_jump_threshold),
     field_map 83 False UINT32 4 (F_config C_screensaver_system_timeout_sec),
     field_map 78 True UINT16 2 (F_device D_running_fw_version),
     field_map 79 True UINT32 4 (F_device D_running_fw_checksum),
     field_map 80 True UINT8 1 (F_device D_keyboard_connected),
     field_map 81 True UINT8 1 (F_device D_switch_lock),
     field_map 82 True UINT8 1 (F_device D_relative_mouse)]"

definition get_field_map_entry :: "nat \<Rightarrow> field_map_t option" where
  "get_field_map_entry index = find (\<lambda>m. fm_idx m = index) api_field_map"

definition get_field_map_length :: nat where
  "get_field_map_length = length api_field_map"

definition get_field_map_index :: "nat \<Rightarrow> field_map_t" where
  "get_field_map_index index =
     api_field_map ! (if index \<ge> get_field_map_length then get_field_map_length - 1 else index)"

definition config_field_size :: "field_map_t \<Rightarrow> nat" where
  "config_field_size m = (if fm_type m = UINT64 then 8 else fm_len m)"

text \<open>\<open>config_field\<close> with the \<open>memcpy\<close> from or to it: the value of a field zero-extended to 64 bits,
  and the field overwritten by the low bytes of a value. The C code uses it on writable entries only,
  all of which lie in the configuration.\<close>

primrec read_output_field :: "output_t \<Rightarrow> output_field \<Rightarrow> u64" where
  "read_output_field u O_number = ucast (out_number u)"
| "read_output_field u O_screen_count = ucast (out_screen_count u)"
| "read_output_field u O_speed_x = ucast (out_speed_x u)"
| "read_output_field u O_speed_y = ucast (out_speed_y u)"
| "read_output_field u O_border_top = ucast (border_top (out_border u))"
| "read_output_field u O_border_bottom = ucast (border_bottom (out_border u))"
| "read_output_field u O_os = ucast (out_os u)"
| "read_output_field u O_pos = ucast (out_pos u)"
| "read_output_field u O_mouse_park_pos = ucast (out_mouse_park_pos u)"
| "read_output_field u O_ss_mode = ucast (ss_mode (out_screensaver u))"
| "read_output_field u O_ss_only_if_inactive = ucast (ss_only_if_inactive (out_screensaver u))"
| "read_output_field u O_ss_idle_time_us = ss_idle_time_us (out_screensaver u)"
| "read_output_field u O_ss_max_time_us = ss_max_time_us (out_screensaver u)"

primrec write_output_field :: "output_t \<Rightarrow> output_field \<Rightarrow> u64 \<Rightarrow> output_t" where
  "write_output_field u O_number v = u\<lparr>out_number := ucast v\<rparr>"
| "write_output_field u O_screen_count v = u\<lparr>out_screen_count := ucast v\<rparr>"
| "write_output_field u O_speed_x v = u\<lparr>out_speed_x := ucast v\<rparr>"
| "write_output_field u O_speed_y v = u\<lparr>out_speed_y := ucast v\<rparr>"
| "write_output_field u O_border_top v = u\<lparr>out_border := (out_border u)\<lparr>border_top := ucast v\<rparr>\<rparr>"
| "write_output_field u O_border_bottom v = u\<lparr>out_border := (out_border u)\<lparr>border_bottom := ucast v\<rparr>\<rparr>"
| "write_output_field u O_os v = u\<lparr>out_os := ucast v\<rparr>"
| "write_output_field u O_pos v = u\<lparr>out_pos := ucast v\<rparr>"
| "write_output_field u O_mouse_park_pos v = u\<lparr>out_mouse_park_pos := ucast v\<rparr>"
| "write_output_field u O_ss_mode v = u\<lparr>out_screensaver := (out_screensaver u)\<lparr>ss_mode := ucast v\<rparr>\<rparr>"
| "write_output_field u O_ss_only_if_inactive v = u\<lparr>out_screensaver := (out_screensaver u)\<lparr>ss_only_if_inactive := ucast v\<rparr>\<rparr>"
| "write_output_field u O_ss_idle_time_us v = u\<lparr>out_screensaver := (out_screensaver u)\<lparr>ss_idle_time_us := v\<rparr>\<rparr>"
| "write_output_field u O_ss_max_time_us v = u\<lparr>out_screensaver := (out_screensaver u)\<lparr>ss_max_time_us := v\<rparr>\<rparr>"

primrec read_config_field :: "config \<Rightarrow> config_field_id \<Rightarrow> u64" where
  "read_config_field c C_version = ucast (cfg_version c)"
| "read_config_field c C_force_mouse_boot_mode = ucast (cfg_force_mouse_boot_mode c)"
| "read_config_field c C_force_kbd_boot_protocol = ucast (cfg_force_kbd_boot_protocol c)"
| "read_config_field c C_kbd_led_as_indicator = ucast (cfg_kbd_led_as_indicator c)"
| "read_config_field c C_hotkey_toggle = ucast (cfg_hotkey_toggle c)"
| "read_config_field c C_enable_acceleration = ucast (cfg_enable_acceleration c)"
| "read_config_field c C_enforce_ports = ucast (cfg_enforce_ports c)"
| "read_config_field c C_jump_threshold = ucast (cfg_jump_threshold c)"
| "read_config_field c C_screensaver_system_timeout_sec = ucast (cfg_screensaver_system_timeout_sec c)"

primrec write_config_field :: "config \<Rightarrow> config_field_id \<Rightarrow> u64 \<Rightarrow> config" where
  "write_config_field c C_version v = c\<lparr>cfg_version := ucast v\<rparr>"
| "write_config_field c C_force_mouse_boot_mode v = c\<lparr>cfg_force_mouse_boot_mode := ucast v\<rparr>"
| "write_config_field c C_force_kbd_boot_protocol v = c\<lparr>cfg_force_kbd_boot_protocol := ucast v\<rparr>"
| "write_config_field c C_kbd_led_as_indicator v = c\<lparr>cfg_kbd_led_as_indicator := ucast v\<rparr>"
| "write_config_field c C_hotkey_toggle v = c\<lparr>cfg_hotkey_toggle := ucast v\<rparr>"
| "write_config_field c C_enable_acceleration v = c\<lparr>cfg_enable_acceleration := ucast v\<rparr>"
| "write_config_field c C_enforce_ports v = c\<lparr>cfg_enforce_ports := ucast v\<rparr>"
| "write_config_field c C_jump_threshold v = c\<lparr>cfg_jump_threshold := ucast v\<rparr>"
| "write_config_field c C_screensaver_system_timeout_sec v = c\<lparr>cfg_screensaver_system_timeout_sec := ucast v\<rparr>"

fun config_field_read :: "config \<Rightarrow> field_ref \<Rightarrow> u64" where
  "config_field_read c (F_output i f) = read_output_field (get_output c i) f"
| "config_field_read c (F_config f) = read_config_field c f"
| "config_field_read c (F_device f) = 0"

fun config_field_write :: "config \<Rightarrow> field_ref \<Rightarrow> u64 \<Rightarrow> config" where
  "config_field_write c (F_output i f) v = set_output i (write_output_field (get_output c i) f v) c"
| "config_field_write c (F_config f) v = write_config_field c f v"
| "config_field_write c (F_device f) v = c"

subsection \<open>Validation and repair\<close>

definition config_value_valid :: "nat \<Rightarrow> u64 \<Rightarrow> bool" where
  "config_value_valid index0 value =
     (let index = (if index0 \<ge> 40 \<and> index0 \<le> 52 then index0 - 30 else index0) in
      if index = 11 then value \<ge> 1 \<and> value \<le> 0x7fffffff
      else if index = 12 \<or> index = 13 then value \<ge> 1 \<and> value \<le> 128
      else if index = 14 \<or> index = 15 then value \<le> 32767
      else if index = 16 then value = 1 \<or> value = 2 \<or> value = 3 \<or> value = 4 \<or> value = 255
      else if index = 17 then value = 1 \<or> value = 2
      else if index = 18 then value = 0 \<or> value = 1 \<or> value = 3
      else if index = 19 then value \<le> 2
      else if index = 20 \<or> index = 71 \<or> index = 72 \<or> index = 73 \<or> index = 75 \<or> index = 76 then value \<le> 1
      else if index = 21 \<or> index = 22 then True
      else if index = 74 then value \<le> 0xff
      else if index = 77 then value \<le> 0xffff
      else if index = 83 then value \<le> 0xffffffff
      else False)"

definition config_border_valid :: "border_size \<Rightarrow> bool" where
  "config_border_valid b \<longleftrightarrow> sint (border_top b) \<ge> 0 \<and> sint (border_top b) < sint (border_bottom b)
     \<and> sint (border_bottom b) \<le> 32767"

definition output_valid :: "nat \<Rightarrow> output_t \<Rightarrow> bool" where
  "output_valid i u \<longleftrightarrow> out_number u = of_nat i \<and> config_border_valid (out_border u)
     \<and> \<not> out_screen_index u < 1 \<and> \<not> out_screen_index u > out_screen_count u"

definition config_validate :: "config \<Rightarrow> bool" where
  "config_validate c \<longleftrightarrow> cfg_magic_header c = cfg_magic_header default_config \<and> cfg_version c = 10
     \<and> list_all (\<lambda>m. fm_readonly m \<or> config_value_valid (fm_idx m) (config_field_read c (fm_offset m))) api_field_map
     \<and> list_all (\<lambda>i. output_valid i (get_output c i)) [0, 1]"

definition repair_field :: "bool \<times> config \<Rightarrow> field_map_t \<Rightarrow> bool \<times> config" where
  "repair_field st m =
     (if fm_readonly m \<or> config_value_valid (fm_idx m) (config_field_read (snd st) (fm_offset m)) then st
      else (True, config_field_write (snd st) (fm_offset m) (config_field_read default_config (fm_offset m))))"

definition repair_output :: "bool \<times> config \<Rightarrow> nat \<Rightarrow> bool \<times> config" where
  "repair_output st i =
     (let u = get_output (snd st) i;
          u1 = (if out_number u \<noteq> of_nat i then u\<lparr>out_number := of_nat i\<rparr> else u);
          u2 = (if \<not> config_border_valid (out_border u1)
                then u1\<lparr>out_border := out_border (get_output default_config i)\<rparr> else u1);
          index1 = (if out_screen_index u2 < 1 then 1 else out_screen_index u2);
          index = (if index1 > out_screen_count u2 then out_screen_count u2 else index1);
          u3 = (if out_screen_index u2 \<noteq> index then u2\<lparr>out_screen_index := index\<rparr> else u2)
      in (fst st \<or> out_number u \<noteq> of_nat i \<or> \<not> config_border_valid (out_border u1)
            \<or> out_screen_index u2 \<noteq> index,
          set_output i u3 (snd st)))"

definition config_repair :: "config \<Rightarrow> bool \<times> config" where
  "config_repair c = foldl repair_output (foldl repair_field (False, c) api_field_map) [0, 1]"

subsection \<open>Setters\<close>

text \<open>Each runs under \<open>config_lock\<close>: a candidate copy is changed, validated and then published.\<close>

definition config_set_value64 :: "config \<Rightarrow> nat \<Rightarrow> u64 \<Rightarrow> bool \<times> config" where
  "config_set_value64 c index decoded =
     (case get_field_map_entry index of
        None \<Rightarrow> (False, c)
      | Some m \<Rightarrow>
          if fm_readonly m then (False, c)
          else if fm_type m = UINT64 \<and> decoded > 281474976710655 then (False, c)
          else if \<not> config_value_valid index decoded then (False, c)
          else
            let c1 = config_field_write c (fm_offset m) decoded;
                c2 = (if index = 11 \<or> index = 41 then
                        let i = (if index = 41 then 1 else 0); u = get_output c1 i
                        in if out_screen_index u > out_screen_count u
                           then set_output i (u\<lparr>out_screen_index := out_screen_count u\<rparr>) c1 else c1
                      else c1)
            in if config_validate c2 then (True, c2) else (False, c))"

text \<open>The seven value bytes of a request; bytes beyond the field's length must be zero.\<close>

primrec decode_value :: "bytes \<Rightarrow> u64" where
  "decode_value [] = 0"
| "decode_value (b # bs) = ucast b OR push_bit 8 (decode_value bs)"

definition config_set_value :: "config \<Rightarrow> nat \<Rightarrow> bytes \<Rightarrow> bool \<times> config" where
  "config_set_value c index value =
     (case get_field_map_entry index of
        None \<Rightarrow> (False, c)
      | Some m \<Rightarrow>
          if fm_readonly m then (False, c)
          else if \<exists>b\<in>set (drop (fm_len m) value). b \<noteq> 0 then (False, c)
          else config_set_value64 c index (decode_value (take (fm_len m) value)))"

definition config_set_border :: "config \<Rightarrow> nat \<Rightarrow> border_size \<Rightarrow> bool \<times> config" where
  "config_set_border c output border =
     (if output \<ge> 2 \<or> \<not> config_border_valid border then (False, c)
      else let c1 = set_output output ((get_output c output)\<lparr>out_border := border\<rparr>) c
           in if config_validate c1 then (True, c1) else (False, c))"

definition config_set_screensaver_mode :: "config \<Rightarrow> nat \<Rightarrow> u8 \<Rightarrow> bool \<times> config" where
  "config_set_screensaver_mode c output mode =
     (if output \<ge> 2 then (False, c)
      else config_set_value c (if output = 0 then 19 else 49) [mode, 0, 0, 0, 0, 0, 0])"

definition config_set_screen_index :: "config \<Rightarrow> nat \<Rightarrow> u32 \<Rightarrow> config" where
  "config_set_screen_index c output index =
     (if output \<ge> 2 then c
      else
        let u = get_output c output; cnt = out_screen_count u in
        if cnt < 1 \<or> cnt > 0x7fffffff then c
        else
          let i1 = (if index < 1 then 1 else index); i2 = (if i1 > cnt then cnt else i1)
          in set_output output (u\<lparr>out_screen_index := i2\<rparr>) c)"

subsection \<open>Digest\<close>

primrec value_bytes :: "nat \<Rightarrow> u64 \<Rightarrow> bytes" where
  "value_bytes 0 v = []"
| "value_bytes (Suc n) v = ucast v # value_bytes n (drop_bit 8 v)"

definition digest_field :: "config \<Rightarrow> field_map_t \<Rightarrow> bytes" where
  "digest_field c m =
     (if fm_readonly m then []
      else let size = config_field_size m; value = config_field_read c (fm_offset m)
           in of_nat (fm_idx m) # of_nat size # value_bytes size value)"

definition config_digest_snapshot :: "config \<Rightarrow> u32" where
  "config_digest_snapshot c =
     NOT (foldl crc32_iter 0xffffffff
       ([70, 4] @ value_bytes 4 (ucast (cfg_version c)) @ concat (map (digest_field c) api_field_map)))"

datatype config_confirm_status = CONFIG_CONFIRM_OK | CONFIG_CONFIRM_INVALID | CONFIG_CONFIRM_BUSY
  | CONFIG_CONFIRM_CONFLICT | CONFIG_CONFIRM_FLASH_MISMATCH | CONFIG_CONFIRM_EXPIRED | CONFIG_CONFIRM_INCOMPLETE

definition config_check_value64 :: "config \<Rightarrow> nat \<Rightarrow> u64 \<Rightarrow> config_confirm_status \<times> u32" where
  "config_check_value64 c index expected =
     (case get_field_map_entry index of
        None \<Rightarrow> (CONFIG_CONFIRM_INVALID, 0)
      | Some m \<Rightarrow>
          if fm_readonly m \<or> \<not> config_value_valid index expected
             \<or> (fm_type m = UINT64 \<and> expected > 281474976710655) then (CONFIG_CONFIRM_INVALID, 0)
          else (if config_field_read c (fm_offset m) = expected then CONFIG_CONFIRM_OK else CONFIG_CONFIRM_CONFLICT,
                config_digest_snapshot c))"

subsection \<open>Migration\<close>

text \<open>The four values the function updates through its pointers are returned.\<close>

definition migrate_config_to_current ::
    "u32 \<Rightarrow> u32 \<times> u32 \<times> u8 \<times> u8 \<Rightarrow> u32 \<Rightarrow> u8 \<Rightarrow> bool \<times> (u32 \<times> u32 \<times> u8 \<times> u8)" where
  "migrate_config_to_current stored_version vals default_timeout jitter =
     (case vals of (version, timeout, mode_a, mode_b) \<Rightarrow>
        if stored_version \<noteq> 8 \<and> stored_version \<noteq> 9 then (False, vals)
        else (True, (10, if stored_version = 8 then default_timeout else timeout, jitter, jitter)))"

subsection \<open>Stores with named fields\<close>

text \<open>A store read and written by field references, and a pass that replaces bad fields by defaults.\<close>

locale field_store =
  fixes rd :: "'s \<Rightarrow> 'r \<Rightarrow> 'v"
    and wr :: "'s \<Rightarrow> 'r \<Rightarrow> 'v \<Rightarrow> 's"
    and ref :: "'r \<Rightarrow> bool"
    and fits :: "'r \<Rightarrow> 'v \<Rightarrow> bool"
  assumes read_same: "ref r \<Longrightarrow> fits r v \<Longrightarrow> rd (wr s r v) r = v"
    and read_other: "ref r \<Longrightarrow> ref r' \<Longrightarrow> r \<noteq> r' \<Longrightarrow> rd (wr s r v) r' = rd s r'"
begin

definition mend :: "('m \<Rightarrow> 'v \<Rightarrow> bool) \<Rightarrow> ('m \<Rightarrow> 'r) \<Rightarrow> ('r \<Rightarrow> 'v) \<Rightarrow> bool \<times> 's \<Rightarrow> 'm \<Rightarrow> bool \<times> 's" where
  "mend good off dflt st m =
     (if good m (rd (snd st) (off m)) then st else (True, wr (snd st) (off m) (dflt (off m))))"

lemma mend_other:
  "ref r \<Longrightarrow> \<forall>m\<in>set ms. ref (off m) \<Longrightarrow> r \<notin> off ` set ms \<Longrightarrow>
     rd (snd (foldl (mend good off dflt) st ms)) r = rd (snd st) r"
  by (induction ms arbitrary: st) (auto simp: mend_def read_other)

lemma mend_all:
  assumes "\<forall>m\<in>set ms. ref (off m) \<and> fits (off m) (dflt (off m)) \<and> good m (dflt (off m))" "distinct (map off ms)"
    "m \<in> set ms"
  shows "good m (rd (snd (foldl (mend good off dflt) st ms)) (off m))"
  using assms
proof (induction ms arbitrary: st)
  case (Cons n ms)
  show ?case
  proof (cases "m \<in> set ms")
    case True
    then show ?thesis using Cons by simp
  next
    case False
    with Cons.prems have "m = n" "off n \<notin> off ` set ms" by auto
    then have eq: "rd (snd (foldl (mend good off dflt) st (n # ms))) (off m) = rd (snd (mend good off dflt st n)) (off n)"
      using mend_other [of "off n" ms off good dflt "mend good off dflt st n"] Cons.prems by simp
    have "good n (rd (snd (mend good off dflt st n)) (off n))"
      using Cons.prems(1) by (simp add: mend_def read_same)
    then show ?thesis unfolding eq unfolding \<open>m = n\<close> .
  qed
qed simp

lemma mend_id:
  "\<forall>m\<in>set ms. good m (rd (snd st) (off m)) \<Longrightarrow> foldl (mend good off dflt) st ms = st"
  by (induction ms) (simp_all add: mend_def)

end

primrec output_field_bits :: "output_field \<Rightarrow> nat" where
  "output_field_bits O_number = 32"
| "output_field_bits O_screen_count = 32"
| "output_field_bits O_speed_x = 32"
| "output_field_bits O_speed_y = 32"
| "output_field_bits O_border_top = 32"
| "output_field_bits O_border_bottom = 32"
| "output_field_bits O_os = 8"
| "output_field_bits O_pos = 8"
| "output_field_bits O_mouse_park_pos = 8"
| "output_field_bits O_ss_mode = 8"
| "output_field_bits O_ss_only_if_inactive = 8"
| "output_field_bits O_ss_idle_time_us = 64"
| "output_field_bits O_ss_max_time_us = 64"

primrec config_field_bits :: "config_field_id \<Rightarrow> nat" where
  "config_field_bits C_version = 32"
| "config_field_bits C_force_mouse_boot_mode = 8"
| "config_field_bits C_force_kbd_boot_protocol = 8"
| "config_field_bits C_kbd_led_as_indicator = 8"
| "config_field_bits C_hotkey_toggle = 8"
| "config_field_bits C_enable_acceleration = 8"
| "config_field_bits C_enforce_ports = 8"
| "config_field_bits C_jump_threshold = 16"
| "config_field_bits C_screensaver_system_timeout_sec = 32"

fun field_bits :: "field_ref \<Rightarrow> nat" where
  "field_bits (F_output i f) = output_field_bits f"
| "field_bits (F_config f) = config_field_bits f"
| "field_bits (F_device f) = 0"

fun config_ref :: "field_ref \<Rightarrow> bool" where
  "config_ref (F_output i f) = (i < 2)"
| "config_ref (F_config f) = True"
| "config_ref (F_device f) = False"

definition field_fits :: "field_ref \<Rightarrow> u64 \<Rightarrow> bool" where
  "field_fits r v \<longleftrightarrow> take_bit (field_bits r) v = v"

lemma ucast_back:
  fixes v :: u64
  shows "ucast (ucast v :: u8) = take_bit 8 v" "ucast (ucast v :: u16) = take_bit 16 v"
    "ucast (ucast v :: u32) = take_bit 32 v"
  by (intro bit_word_eqI; auto simp: bit_simps)+

lemma get_set_output [simp]:
  "get_output (set_output i u c) j = (if (i = 0) = (j = 0) then u else get_output c j)"
  by (simp add: get_output_def set_output_def)

lemma read_write_output:
  "read_output_field (write_output_field u f v) g = (if f = g then take_bit (output_field_bits f) v else read_output_field u g)"
  by (cases f; cases g; simp add: ucast_back take_bit_word_eq_self)

lemma read_write_config:
  "read_config_field (write_config_field c f v) g = (if f = g then take_bit (config_field_bits f) v else read_config_field c g)"
  by (cases f; cases g; simp add: ucast_back)

lemma output_write_config [simp]: "get_output (write_config_field c f v) i = get_output c i"
  by (cases f; simp add: get_output_def)

lemma config_read_output [simp]: "read_config_field (set_output i u c) f = read_config_field c f"
  by (cases f; simp add: set_output_def)

interpretation config_fields: field_store config_field_read config_field_write config_ref field_fits
proof
  fix r r' v c
  show "config_field_read (config_field_write c r v) r = v" if "config_ref r" "field_fits r v"
    using that by (cases r) (simp_all add: read_write_output read_write_config field_fits_def)
  show "config_field_read (config_field_write c r v) r' = config_field_read c r'"
    if "config_ref r" "config_ref r'" "r \<noteq> r'"
    using that by (cases r; cases r'; auto simp: read_write_output read_write_config less_2_cases_iff)
qed

subsection \<open>Validity, field by field\<close>

lemma unat_widen [simp]:
  "unat (ucast (a :: u8) :: u64) = unat a" "unat (ucast (b :: u16) :: u64) = unat b"
  "unat (ucast (w :: u32) :: u64) = unat w"
  using unsigned_less [of a, where ?'a = nat] unsigned_less [of b, where ?'a = nat] unat_u32_less [of w]
  by (simp_all add: unsigned_ucast_eq unsigned_take_bit_eq take_bit_nat_eq_self)

definition fields_valid :: "config \<Rightarrow> bool" where
  "fields_valid c \<longleftrightarrow>
     (\<forall>m\<in>set api_field_map. fm_readonly m \<or> config_value_valid (fm_idx m) (config_field_read c (fm_offset m)))"

definition writable_fields :: "field_map_t list" where
  "writable_fields = filter (\<lambda>m. \<not> fm_readonly m) api_field_map"

definition field_good :: "field_map_t \<Rightarrow> u64 \<Rightarrow> bool" where
  "field_good m v = config_value_valid (fm_idx m) v"

lemma fields_valid_writable:
  "fields_valid c \<longleftrightarrow> (\<forall>m\<in>set writable_fields. field_good m (config_field_read c (fm_offset m)))"
  by (auto simp: fields_valid_def writable_fields_def field_good_def)

lemma writable_defaults:
  "list_all (\<lambda>m. config_ref (fm_offset m) \<and> field_fits (fm_offset m) (config_field_read default_config (fm_offset m))
     \<and> field_good m (config_field_read default_config (fm_offset m))) writable_fields"
  "distinct (map fm_offset writable_fields)"
  "distinct (map fm_idx writable_fields)"
  by code_simp+

definition repair_fields :: "bool \<times> config \<Rightarrow> bool \<times> config" where
  "repair_fields st = foldl (config_fields.mend field_good fm_offset (config_field_read default_config)) st writable_fields"

lemma foldl_repair_field: "foldl repair_field st api_field_map = repair_fields st"
proof -
  have "foldl repair_field st ms = foldl (config_fields.mend field_good fm_offset (config_field_read default_config)) st
      (filter (\<lambda>m. \<not> fm_readonly m) ms)" for ms
    by (induction ms arbitrary: st) (auto simp: repair_field_def config_fields.mend_def field_good_def)
  then show ?thesis by (simp add: repair_fields_def writable_fields_def)
qed

lemma repair_fields_valid: "fields_valid (snd (repair_fields st))"
proof -
  have "\<forall>m\<in>set writable_fields. config_ref (fm_offset m)
      \<and> field_fits (fm_offset m) (config_field_read default_config (fm_offset m))
      \<and> field_good m (config_field_read default_config (fm_offset m))"
    using writable_defaults(1) unfolding list_all_iff .
  from config_fields.mend_all [of writable_fields fm_offset "config_field_read default_config" field_good, OF this writable_defaults(2)] show ?thesis
    unfolding fields_valid_writable repair_fields_def by blast
qed

lemma repair_fields_id: "fields_valid (snd st) \<Longrightarrow> repair_fields st = st"
  unfolding fields_valid_writable repair_fields_def by (rule config_fields.mend_id)

text \<open>The fields of one output, as the table of one side checks them.\<close>

definition output_fields_valid :: "output_t \<Rightarrow> bool" where
  "output_fields_valid u \<longleftrightarrow>
     (\<forall>m\<in>set writable_fields. \<forall>f. fm_offset m = F_output 0 f \<longrightarrow> field_good m (read_output_field u f))"

lemma fields_valid_outputs:
  "fields_valid c \<longleftrightarrow> output_fields_valid (cfg_output_a c) \<and> output_fields_valid (cfg_output_b c)
     \<and> (\<forall>m\<in>set writable_fields. \<forall>f. fm_offset m = F_config f \<longrightarrow> field_good m (read_config_field c f))"
  unfolding fields_valid_writable output_fields_valid_def
  by (simp add: writable_fields_def api_field_map_def field_good_def config_value_valid_def get_output_def)

lemma output_fields_explicit:
  "output_fields_valid u \<longleftrightarrow>
     1 \<le> unat (out_screen_count u) \<and> unat (out_screen_count u) \<le> 2147483647
     \<and> 1 \<le> unat (out_speed_x u) \<and> unat (out_speed_x u) \<le> 128
     \<and> 1 \<le> unat (out_speed_y u) \<and> unat (out_speed_y u) \<le> 128
     \<and> unat (border_top (out_border u)) \<le> 32767 \<and> unat (border_bottom (out_border u)) \<le> 32767
     \<and> unat (out_os u) \<in> {1, 2, 3, 4, 255} \<and> unat (out_pos u) \<in> {1, 2}
     \<and> unat (out_mouse_park_pos u) \<in> {0, 1, 3}
     \<and> unat (ss_mode (out_screensaver u)) \<le> 2 \<and> unat (ss_only_if_inactive (out_screensaver u)) \<le> 1"
  unfolding output_fields_valid_def
  by (simp add: writable_fields_def api_field_map_def field_good_def config_value_valid_def
      word_le_nat_alt word_unat_eq_iff)

lemma default_border_ok: "i < 2 \<Longrightarrow> config_border_valid (out_border (get_output default_config i))"
  "i < 2 \<Longrightarrow> unat (border_top (out_border (get_output default_config i))) \<le> 32767"
  "i < 2 \<Longrightarrow> unat (border_bottom (out_border (get_output default_config i))) \<le> 32767"
  by (auto simp: get_output_def default_config_def default_output_def config_border_valid_def)

text \<open>The output that \<open>repair_output\<close> stores.\<close>

definition mended_output :: "nat \<Rightarrow> output_t \<Rightarrow> output_t" where
  "mended_output i u = get_output (snd (repair_output (False, set_output i u default_config) i)) i"

lemma repair_output_mended: "snd (repair_output st i) = set_output i (mended_output i (get_output (snd st) i)) (snd st)"
  by (simp add: mended_output_def repair_output_def Let_def)

lemma mended_output_valid:
  assumes "output_fields_valid u" "i < 2"
  shows "output_valid i (mended_output i u)" "output_fields_valid (mended_output i u)"
proof -
  have one: "1 \<le> out_screen_count u"
    using assms(1) by (simp add: output_fields_explicit word_le_nat_alt)
  let ?b = "if \<not> config_border_valid (out_border u) then out_border (get_output default_config i) else out_border u"
  have b: "config_border_valid ?b" "unat (border_top ?b) \<le> 32767" "unat (border_bottom ?b) \<le> 32767"
    using default_border_ok [OF assms(2)] assms(1) by (auto simp: output_fields_explicit)
  have m: "out_number (mended_output i u) = of_nat i" "out_border (mended_output i u) = ?b"
    "out_screen_count (mended_output i u) = out_screen_count u"
    "out_screen_index (mended_output i u) =
      (let k = (if out_screen_index u < 1 then 1 else out_screen_index u)
       in if k > out_screen_count u then out_screen_count u else k)"
    "out_speed_x (mended_output i u) = out_speed_x u" "out_speed_y (mended_output i u) = out_speed_y u"
    "out_os (mended_output i u) = out_os u" "out_pos (mended_output i u) = out_pos u"
    "out_mouse_park_pos (mended_output i u) = out_mouse_park_pos u"
    "out_screensaver (mended_output i u) = out_screensaver u"
    by (simp_all add: mended_output_def repair_output_def Let_def)
  show "output_valid i (mended_output i u)"
    unfolding output_valid_def m using b(1) one by (auto simp: Let_def not_less)
  show "output_fields_valid (mended_output i u)"
    using assms(1) b(2,3) unfolding output_fields_explicit m by simp
qed

lemma config_validate_iff:
  "config_validate c \<longleftrightarrow> cfg_magic_header c = 0xB00B1E5 \<and> cfg_version c = 10 \<and> fields_valid c
     \<and> output_valid 0 (cfg_output_a c) \<and> output_valid 1 (cfg_output_b c)"
  by (auto simp: config_validate_def fields_valid_def list_all_iff get_output_def default_config_def)

lemma field_write_header:
  "config_ref r \<Longrightarrow> r \<noteq> F_config C_version \<Longrightarrow>
     cfg_magic_header (config_field_write c r v) = cfg_magic_header c
     \<and> cfg_version (config_field_write c r v) = cfg_version c"
  by (cases r rule: config_ref.cases; cases "case r of F_config f \<Rightarrow> f | _ \<Rightarrow> C_version"; simp add: set_output_def)

lemma writable_not_version: "m \<in> set writable_fields \<Longrightarrow> config_ref (fm_offset m) \<and> fm_offset m \<noteq> F_config C_version"
  by (auto simp: writable_fields_def api_field_map_def)

lemma repair_fields_header:
  "cfg_magic_header (snd (repair_fields st)) = cfg_magic_header (snd st) \<and> cfg_version (snd (repair_fields st)) = cfg_version (snd st)"
proof -
  have "set ms \<subseteq> set writable_fields \<Longrightarrow>
      cfg_magic_header (snd (foldl (config_fields.mend field_good fm_offset (config_field_read default_config)) st ms)) = cfg_magic_header (snd st)
      \<and> cfg_version (snd (foldl (config_fields.mend field_good fm_offset (config_field_read default_config)) st ms)) = cfg_version (snd st)" for ms
    using field_write_header writable_not_version
    by (induction ms arbitrary: st) (auto simp: config_fields.mend_def)
  then show ?thesis by (simp add: repair_fields_def)
qed

lemma fits_by_size: "unat v < 2 ^ field_bits r \<Longrightarrow> field_fits r v"
  by (simp add: field_fits_def word_unat_eq_iff unsigned_take_bit_eq take_bit_nat_eq_self)

lemma valid_value_fits:
  assumes "m \<in> set writable_fields" "config_value_valid (fm_idx m) v"
  shows "field_fits (fm_offset m) v"
proof -
  have lt: "unat v < 18446744073709551616" using unsigned_less [of v, where ?'a = nat] by simp
  have "unat v < 2 ^ field_bits (fm_offset m)"
    using assms lt unfolding writable_fields_def api_field_map_def config_value_valid_def
    by (auto simp: word_le_nat_alt)
  then show ?thesis by (rule fits_by_size)
qed

lemma entry_found: "get_field_map_entry index = Some m \<Longrightarrow> m \<in> set api_field_map \<and> fm_idx m = index"
  unfolding get_field_map_entry_def find_Some_iff by auto

lemma read_index_update [simp]: "read_output_field (u\<lparr>out_screen_index := k\<rparr>) f = read_output_field u f"
  by (cases f) simp_all

lemma read_reindexed:
  "config_field_read (set_output i ((get_output c i)\<lparr>out_screen_index := k\<rparr>) c) r = config_field_read c r"
  by (cases r) (simp_all, simp add: get_output_def)

lemma set_value64_cases:
  assumes "config_set_value64 c index v = (ok, c')"
  shows "\<not> ok \<and> c' = c \<or> ok \<and> config_validate c' \<and> (\<exists>m. get_field_map_entry index = Some m \<and> \<not> fm_readonly m
    \<and> config_value_valid index v \<and> \<not> (fm_type m = UINT64 \<and> v > 281474976710655)
    \<and> (\<forall>r. config_field_read c' r = config_field_read (config_field_write c (fm_offset m) v) r))"
proof (cases "get_field_map_entry index")
  case None
  then show ?thesis using assms by (simp add: config_set_value64_def)
next
  case (Some m)
  show ?thesis
  proof (cases "fm_readonly m \<or> (fm_type m = UINT64 \<and> v > 281474976710655) \<or> \<not> config_value_valid index v")
    case True
    then show ?thesis using assms Some by (auto simp: config_set_value64_def split: if_splits)
  next
    case False
    define c1 where "c1 = config_field_write c (fm_offset m) v"
    define i :: nat where "i = (if index = 41 then 1 else 0)"
    define c2 where "c2 = (if index = 11 \<or> index = 41 then
        (if out_screen_index (get_output c1 i) > out_screen_count (get_output c1 i)
         then set_output i ((get_output c1 i)\<lparr>out_screen_index := out_screen_count (get_output c1 i)\<rparr>) c1 else c1)
        else c1)"
    have eq: "config_set_value64 c index v = (if config_validate c2 then (True, c2) else (False, c))"
      using False by (simp add: config_set_value64_def Some Let_def c2_def c1_def i_def)
    have "config_field_read c2 r = config_field_read c1 r" for r by (simp add: c2_def read_reindexed)
    then show ?thesis using assms False Some unfolding eq by (auto simp: c1_def split: if_splits)
  qed
qed

lemma repair_gives_valid:
  assumes "cfg_magic_header c = 0xB00B1E5" "cfg_version c = 10"
  shows "config_validate (snd (config_repair c))"
proof -
  let ?c1 = "snd (repair_fields (False, c))"
  have f: "output_fields_valid (cfg_output_a ?c1)" "output_fields_valid (cfg_output_b ?c1)"
    "\<forall>m\<in>set writable_fields. \<forall>f. fm_offset m = F_config f \<longrightarrow> field_good m (read_config_field ?c1 f)"
    using repair_fields_valid [of "(False, c)"] unfolding fields_valid_outputs by blast+
  have rep: "snd (config_repair c) =
      set_output 1 (mended_output 1 (cfg_output_b ?c1)) (set_output 0 (mended_output 0 (cfg_output_a ?c1)) ?c1)"
    unfolding config_repair_def foldl_repair_field foldl.simps repair_output_mended
    by (simp add: get_output_def set_output_def)
  note a = mended_output_valid [OF f(1), of 0] and b = mended_output_valid [OF f(2), of 1]
  have "read_config_field (snd (config_repair c)) g = read_config_field ?c1 g" for g unfolding rep by simp
  moreover have "cfg_output_a (snd (config_repair c)) = mended_output 0 (cfg_output_a ?c1)"
    "cfg_output_b (snd (config_repair c)) = mended_output 1 (cfg_output_b ?c1)"
    "cfg_magic_header (snd (config_repair c)) = cfg_magic_header ?c1"
    "cfg_version (snd (config_repair c)) = cfg_version ?c1" unfolding rep by (simp_all add: set_output_def)
  ultimately show ?thesis
    unfolding config_validate_iff fields_valid_outputs
    using a b f(3) assms repair_fields_header [of "(False, c)"] by simp
qed

lemma repair_of_valid:
  assumes "config_validate c"
  shows "config_repair c = (False, c)"
proof -
  from assms have v: "fields_valid c" "output_valid 0 (cfg_output_a c)" "output_valid 1 (cfg_output_b c)"
    by (simp_all add: config_validate_iff)
  have "repair_output (b, c) i = (b, c)" if "output_valid i (get_output c i)" for b i
  proof -
    from that have eqs: "(out_number (get_output c i) \<noteq> of_nat i) = False"
      "(\<not> config_border_valid (out_border (get_output c i))) = False"
      "(out_screen_index (get_output c i) < 1) = False"
      "(out_screen_index (get_output c i) > out_screen_count (get_output c i)) = False"
      by (simp_all add: output_valid_def)
    have same: "set_output i (get_output c i) c = c" by (simp add: set_output_def get_output_def)
    show ?thesis
      unfolding repair_output_def Let_def fst_conv snd_conv eqs if_False by (simp add: same)
  qed
  then show ?thesis
    using v repair_fields_id [of "(False, c)"] unfolding config_repair_def foldl_repair_field
    by (simp add: get_output_def)
qed

subsection \<open>Properties\<close>

text \<open>
  Repair yields a valid configuration. Whatever the stored values of the fields, the output
  numbers, the borders and the screen indices, a configuration with the right header and version
  passes validation after repair.
\<close>

theorem config_repair_valid:
  assumes "cfg_magic_header c = 0xB00B1E5" "cfg_version c = 10"
  shows "config_validate (snd (config_repair c))"
  using assms by (rule repair_gives_valid)

theorem config_repair_valid_witness:
  "config_validate (snd (config_repair (default_config\<lparr>cfg_hotkey_toggle := 7, cfg_enforce_ports := 9,
     cfg_output_b := (cfg_output_b default_config)\<lparr>out_screen_index := 5, out_number := 0\<rparr>\<rparr>)))"
  using config_repair_valid [of "default_config\<lparr>cfg_hotkey_toggle := 7, cfg_enforce_ports := 9,
     cfg_output_b := (cfg_output_b default_config)\<lparr>out_screen_index := 5, out_number := 0\<rparr>\<rparr>"]
  by (simp add: default_config_def)

text \<open>Repair changes nothing in a valid configuration and reports no repair.\<close>

theorem config_repair_identity:
  assumes "config_validate c"
  shows "config_repair c = (False, c)"
  using assms by (rule repair_of_valid)

theorem config_repair_identity_witness: "config_repair default_config = (False, default_config)"
proof -
  have "config_validate default_config" by code_simp
  then show ?thesis by (rule config_repair_identity)
qed

text \<open>
  A SET either changes nothing or does exactly what it says. If \<open>config_set_value64\<close> fails, the
  configuration is unchanged; if it succeeds, the new configuration is valid, the field reads back as
  the value that was sent, no bit lost, every other writable field is unchanged, and the confirmed
  check of the same value answers OK.
\<close>

theorem config_set_value64_exact:
  assumes "config_set_value64 c index v = (ok, c')"
  shows "(\<not> ok \<longrightarrow> c' = c)
    \<and> (ok \<longrightarrow> config_validate c' \<and> fst (config_check_value64 c' index v) = CONFIG_CONFIRM_OK
        \<and> (\<exists>m\<in>set writable_fields. fm_idx m = index \<and> config_field_read c' (fm_offset m) = v
             \<and> (\<forall>m'\<in>set writable_fields. m' \<noteq> m \<longrightarrow> config_field_read c' (fm_offset m') = config_field_read c (fm_offset m'))))"
proof (cases ok)
  case False
  then show ?thesis using set_value64_cases [OF assms] by simp
next
  case True
  then obtain m where v: "config_validate c'" and m: "get_field_map_entry index = Some m" "\<not> fm_readonly m"
      "config_value_valid index v" "\<not> (fm_type m = UINT64 \<and> v > 281474976710655)"
      "\<forall>r. config_field_read c' r = config_field_read (config_field_write c (fm_offset m) v) r"
    using set_value64_cases [OF assms] by blast
  have w: "m \<in> set writable_fields" "fm_idx m = index"
    using entry_found [OF m(1)] m(2) by (auto simp: writable_fields_def)
  have refs: "\<And>m. m \<in> set writable_fields \<Longrightarrow> config_ref (fm_offset m)" using writable_not_version by blast
  have same: "config_field_read c' (fm_offset m) = v"
    using m(3,5) config_fields.read_same [OF refs [OF w(1)] valid_value_fits [OF w(1)]] w(2) by simp
  have other: "config_field_read c' (fm_offset m') = config_field_read c (fm_offset m')"
    if "m' \<in> set writable_fields" "m' \<noteq> m" for m'
  proof -
    have "fm_offset m' \<noteq> fm_offset m"
      using writable_defaults(2) that w(1) by (auto simp: distinct_map inj_on_def)
    then show ?thesis using m(5) config_fields.read_other [OF refs [OF w(1)] refs [OF that(1)]] by simp
  qed
  have "fst (config_check_value64 c' index v) = CONFIG_CONFIRM_OK"
    using m same by (simp add: config_check_value64_def)
  then show ?thesis using True v same other w by auto
qed

theorem config_set_value64_exact_witness:
  "config_field_read (snd (config_set_value64 default_config 12 40)) (F_output 0 O_speed_x) = 40"
proof -
  let ?r = "config_set_value64 default_config 12 40"
  have ok: "fst ?r" by code_simp
  have "?r = (True, snd ?r)" using ok by (simp add: prod_eq_iff)
  from config_set_value64_exact [OF this] obtain m where
    m: "m \<in> set writable_fields" "fm_idx m = 12" "config_field_read (snd ?r) (fm_offset m) = 40" by auto
  then have "fm_offset m = F_output 0 O_speed_x" by (auto simp: writable_fields_def api_field_map_def)
  with m(3) show ?thesis by simp
qed

text \<open>No setter can make a valid configuration invalid, whatever its arguments.\<close>

lemma config_setters_keep_valid:
  assumes "config_validate c"
  shows "config_validate (snd (config_set_value64 c index v))
    \<and> config_validate (snd (config_set_value c index bs))
    \<and> config_validate (snd (config_set_border c i border))
    \<and> config_validate (snd (config_set_screensaver_mode c i mode))
    \<and> config_validate (config_set_screen_index c i k)"
proof (intro conjI)
  show set64: "config_validate (snd (config_set_value64 c index v))" for index v
    using set_value64_cases [of c index v "fst (config_set_value64 c index v)" "snd (config_set_value64 c index v)"] assms
    by auto
  show set: "config_validate (snd (config_set_value c index bs))" for index bs
    using set64 assms by (simp add: config_set_value_def split: option.splits)
  show "config_validate (snd (config_set_border c i border))"
    using assms by (simp add: config_set_border_def Let_def)
  show "config_validate (snd (config_set_screensaver_mode c i mode))"
    using set assms by (simp add: config_set_screensaver_mode_def)
  show "config_validate (config_set_screen_index c i k)"
  proof (cases "i \<ge> 2 \<or> out_screen_count (get_output c i) < 1 \<or> out_screen_count (get_output c i) > 0x7fffffff")
    case True
    then show ?thesis using assms by (auto simp: config_set_screen_index_def Let_def)
  next
    case False
    define n where "n = (let i1 = (if k < 1 then 1 else k)
      in if i1 > out_screen_count (get_output c i) then out_screen_count (get_output c i) else i1)"
    have eq: "config_set_screen_index c i k = set_output i ((get_output c i)\<lparr>out_screen_index := n\<rparr>) c"
      using False by (simp add: config_set_screen_index_def Let_def n_def)
    have n: "1 \<le> n" "n \<le> out_screen_count (get_output c i)" using False
      by (auto simp: n_def Let_def word_le_nat_alt word_less_nat_alt)
    have "fields_valid (config_set_screen_index c i k)"
      using assms unfolding eq config_validate_iff fields_valid_def by (simp add: read_reindexed)
    then show ?thesis using assms n unfolding eq config_validate_iff
      by (auto simp: output_valid_def set_output_def get_output_def not_less)
  qed
qed

end
