(* ===== verification/Fw_Update.thy ===== *)
theory Fw_Update
  imports Prelude
begin

text \<open>
  The decisions of a firmware transfer (fw\_update.h, fw\_update.c): when to request, restart, pause
  or give up, which response is the expected one, when the staged image may be booted, and the bitmap
  of blocks received from a file drop. Times are the low 32 bits of the microsecond clock; the
  properties relate the wrapping comparison to true elapsed time and the bitmap to a set of blocks.
\<close>

unbundle bit_operations_syntax

datatype fw_update_source =
  FW_UPDATE_SOURCE_NONE | FW_UPDATE_SOURCE_PULL | FW_UPDATE_SOURCE_PULL_PAUSED | FW_UPDATE_SOURCE_DROP

datatype fw_update_action =
  FW_UPDATE_WAIT | FW_UPDATE_REQUEST | FW_UPDATE_ABANDON | FW_UPDATE_RESTART | FW_UPDATE_PAUSE

definition fw_update_peer_compatible :: "u16 \<Rightarrow> bool" where
  "fw_update_peer_compatible protocol_marker \<longleftrightarrow> protocol_marker = 0xd485"

definition fw_update_next_action ::
    "fw_update_source \<Rightarrow> bool \<Rightarrow> bool \<Rightarrow> u32 \<Rightarrow> u32 \<Rightarrow> u32 \<Rightarrow> u32 \<Rightarrow> fw_update_action" where
  "fw_update_next_action source word_complete image_dirty now requested_at progressed_at peer_seen_at =
     (if source \<noteq> FW_UPDATE_SOURCE_PULL then FW_UPDATE_WAIT
      else if now - progressed_at \<ge> 30000000 then
        if \<not> image_dirty then FW_UPDATE_ABANDON
        else if now - peer_seen_at < 3500000 then FW_UPDATE_RESTART
        else FW_UPDATE_PAUSE
      else if word_complete \<or> now - requested_at \<ge> 100000 then FW_UPDATE_REQUEST
      else FW_UPDATE_WAIT)"

definition fw_update_response_expected :: "fw_update_source \<Rightarrow> bool \<Rightarrow> u32 \<Rightarrow> u32 \<Rightarrow> bool" where
  "fw_update_response_expected source request_pending expected_address response_address \<longleftrightarrow>
     source = FW_UPDATE_SOURCE_PULL \<and> request_pending \<and> response_address = expected_address"

definition fw_update_metadata_matches :: "u32 \<Rightarrow> u16 \<Rightarrow> u32 \<Rightarrow> u32 \<Rightarrow> u16 \<Rightarrow> bool \<Rightarrow> bool" where
  "fw_update_metadata_matches magic version embedded calculated expected_version check_version \<longleftrightarrow>
     magic = 0xf00d \<and> embedded = calculated \<and> (\<not> check_version \<or> version = expected_version)"

text \<open>\<open>received\<close> is \<open>None\<close> when the caller passes no counter.\<close>

definition fw_update_mark_block :: "u32 list \<Rightarrow> u16 option \<Rightarrow> u32 \<Rightarrow> bool \<times> u32 list \<times> u16 option" where
  "fw_update_mark_block bitmap received block =
     (let i = unat (block div 32); m = push_bit (unat (block mod 32)) 1
      in if bitmap ! i AND m \<noteq> 0 then (False, bitmap, received)
         else (True, bitmap[i := bitmap ! i OR m], map_option (\<lambda>c. c + 1) received))"

subsection \<open>The bitmap as a set\<close>

definition block_set :: "u32 list \<Rightarrow> nat set" where
  "block_set bitmap = {b. b < 32 * length bitmap \<and> bit (bitmap ! (b div 32)) (b mod 32)}"

lemma mark_block_set:
  assumes "unat block < 32 * length bitmap"
  shows "fw_update_mark_block bitmap received block = (r, bitmap', received') \<Longrightarrow>
    r = (unat block \<notin> block_set bitmap) \<and> block_set bitmap' = insert (unat block) (block_set bitmap)
    \<and> length bitmap' = length bitmap \<and> received' = (if r then map_option (\<lambda>c. c + 1) received else received)"
proof -
  assume mk: "fw_update_mark_block bitmap received block = (r, bitmap', received')"
  define i j where "i = unat block div 32" and "j = unat block mod 32"
  have ij: "unat (block div 32) = i" "unat (block mod 32) = j" by (simp_all add: unat_div unat_mod i_def j_def)
  have i: "i < length bitmap" and j: "j < 32" using assms by (auto simp: i_def j_def)
  have mem: "unat block \<in> block_set bitmap \<longleftrightarrow> bit (bitmap ! i) j"
    using assms by (simp add: block_set_def i_def j_def)
  have upd: "block_set (bitmap[i := bitmap ! i OR push_bit j 1]) = insert (unat block) (block_set bitmap)"
  proof (intro set_eqI)
    fix b
    have eq: "b = unat block \<longleftrightarrow> b div 32 = i \<and> b mod 32 = j"
      unfolding i_def j_def by (metis div_mult_mod_eq)
    have "b div 32 = i \<Longrightarrow> bit (bitmap ! i OR push_bit j 1) (b mod 32) \<longleftrightarrow> bit (bitmap ! i) (b mod 32) \<or> b mod 32 = j"
      using j by (auto simp: bit_simps)
    then show "b \<in> block_set (bitmap[i := bitmap ! i OR push_bit j 1]) \<longleftrightarrow> b \<in> insert (unat block) (block_set bitmap)"
      using i assms eq unfolding block_set_def by (cases "b div 32 = i") auto
  qed
  from mk mem upd show ?thesis
    unfolding fw_update_mark_block_def Let_def ij bit_iff_and_push_bit_not_eq_0
    by (cases "unat block \<in> block_set bitmap") (auto simp: insert_absorb)
qed

primrec mark_all :: "u32 list \<Rightarrow> u16 option \<Rightarrow> u32 list \<Rightarrow> bool list \<times> u32 list \<times> u16 option" where
  "mark_all bitmap received [] = ([], bitmap, received)"
| "mark_all bitmap received (b # bs) =
     (case fw_update_mark_block bitmap received b of (r, bitmap1, count1) \<Rightarrow>
        case mark_all bitmap1 count1 bs of (rs, bitmap2, count2) \<Rightarrow> (r # rs, bitmap2, count2))"

lemma finite_block_set: "finite (block_set bitmap)"
  by (rule finite_subset [of _ "{..< 32 * length bitmap}"]) (auto simp: block_set_def)

lemma mark_all_set:
  assumes "\<forall>b\<in>set bs. unat b < 32 * length bitmap" "mark_all bitmap (Some c) bs = (rs, bitmap', received')"
  shows "block_set bitmap' = block_set bitmap \<union> unat ` set bs \<and> length bitmap' = length bitmap
    \<and> received' = Some (c + of_nat (count_list rs True))
    \<and> count_list rs True = card (block_set bitmap') - card (block_set bitmap)"
  using assms
proof (induction bs arbitrary: bitmap c rs)
  case Nil
  then show ?case by simp
next
  case (Cons b bs)
  obtain r bm1 c1 where m: "fw_update_mark_block bitmap (Some c) b = (r, bm1, c1)" using prod_cases3 .
  have bb: "unat b < 32 * length bitmap" using Cons.prems by simp
  note st = mark_block_set [OF bb m]
  then obtain k where k: "c1 = Some k" "k = (if r then c + 1 else c)" by auto
  obtain rs' where run: "mark_all bm1 (Some k) bs = (rs', bitmap', received')" "rs = r # rs'"
    using Cons.prems(2) m k(1) by (auto split: prod.splits)
  have "\<forall>b\<in>set bs. unat b < 32 * length bm1" using Cons.prems(1) st by simp
  from Cons.IH [OF this run(1)] have ih: "block_set bitmap' = block_set bm1 \<union> unat ` set bs"
    "length bitmap' = length bm1" "received' = Some (k + of_nat (count_list rs' True))"
    "count_list rs' True = card (block_set bitmap') - card (block_set bm1)" by auto
  have le: "card (block_set bm1) \<le> card (block_set bitmap')"
    using ih(1) by (intro card_mono finite_block_set) auto
  have card: "card (block_set bm1) = card (block_set bitmap) + (if r then 1 else 0)"
    using st finite_block_set by (auto simp: insert_absorb)
  show ?case using st ih k run(2) le card by auto
qed

lemma mark_all_first:
  assumes "\<forall>b\<in>set bs. unat b < 32 * length bitmap" "mark_all bitmap received bs = (rs, bitmap', received')"
  shows "length rs = length bs
    \<and> (\<forall>k<length bs. rs ! k \<longleftrightarrow> unat (bs ! k) \<notin> block_set bitmap \<and> bs ! k \<notin> set (take k bs))"
  using assms
proof (induction bs arbitrary: bitmap received rs)
  case Nil
  then show ?case by simp
next
  case (Cons b bs)
  obtain r bm1 c1 where m: "fw_update_mark_block bitmap received b = (r, bm1, c1)" using prod_cases3 .
  have bb: "unat b < 32 * length bitmap" using Cons.prems by simp
  note st = mark_block_set [OF bb m]
  obtain rs' where run: "mark_all bm1 c1 bs = (rs', bitmap', received')" "rs = r # rs'"
    using Cons.prems(2) m by (auto split: prod.splits)
  have "\<forall>b\<in>set bs. unat b < 32 * length bm1" using Cons.prems(1) st by simp
  from Cons.IH [OF this run(1)] st run(2) show ?case
    by (auto simp: nth_Cons word_unat_eq_iff split: nat.splits)
qed

text \<open>Elapsed time on the 32-bit clock.\<close>

lemma elapsed:
  assumes "t \<le> now" "now - t < 2 ^ 32"
  shows "unat (of_nat now - of_nat t :: u32) = now - t"
proof -
  have "(of_nat now - of_nat t :: u32) = of_nat (now - t)" using assms(1) by (simp add: of_nat_diff)
  then show ?thesis using assms(2) by (simp add: unsigned_of_nat take_bit_nat_eq_self)
qed

subsection \<open>Properties\<close>

text \<open>
  The received-block counter is exact. Starting from an empty bitmap, after any sequence of block
  numbers within it the bitmap is the set of blocks seen, a call returns true exactly for the first
  occurrence of a block, and the 16-bit counter is the number of distinct blocks (bitmaps of up to
  65535 blocks), so duplicated writes from the host never count twice.
\<close>

theorem fw_update_mark_block_counts:
  assumes "\<forall>b\<in>set bs. unat b < 32 * length bitmap" "block_set bitmap = {}" "32 * length bitmap \<le> 65535"
    and "mark_all bitmap (Some 0) bs = (rs, bitmap', received')"
  shows "block_set bitmap' = unat ` set bs \<and> (\<exists>c. received' = Some c \<and> unat c = card (unat ` set bs))
    \<and> (\<forall>k<length bs. rs ! k \<longleftrightarrow> bs ! k \<notin> set (take k bs))"
proof -
  from mark_all_set [OF assms(1,4)] assms(2) have st: "block_set bitmap' = unat ` set bs"
    "received' = Some (of_nat (card (unat ` set bs)))" by auto
  have "card (unat ` set bs) \<le> card {..< 32 * length bitmap}"
    using assms(1) by (intro card_mono) auto
  then have "unat (of_nat (card (unat ` set bs)) :: u16) = card (unat ` set bs)"
    using assms(3) by (simp add: unsigned_of_nat take_bit_nat_eq_self)
  with st mark_all_first [OF assms(1,4)] assms(2) show ?thesis by simp
qed

theorem fw_update_mark_block_counts_witness:
  "block_set (fst (snd (mark_all [0, 0] (Some 0) [3, 40, 3]))) = {3, 40}"
proof -
  have "block_set [0, 0] = {}" by (auto simp: block_set_def nth_Cons split: nat.splits)
  from fw_update_mark_block_counts [OF _ this, of "[3, 40, 3]" "fst (mark_all [0, 0] (Some 0) [3, 40, 3])"
      "fst (snd (mark_all [0, 0] (Some 0) [3, 40, 3]))" "snd (snd (mark_all [0, 0] (Some 0) [3, 40, 3]))"]
  show ?thesis by (simp del: mark_all.simps add: insert_commute)
qed

text \<open>
  The transfer's decisions follow true elapsed time across the wrap of the 32-bit clock: for
  events less than \<open>2 ^ 32\<close> microseconds old, the action is the one the real times give. In
  particular a pull that makes no progress for 30 seconds never waits or requests again, a dirty image
  is never abandoned, and an unanswered request is repeated after 100 ms.
\<close>

theorem fw_update_next_action_real_time:
  assumes "requested \<le> now" "now - requested < 2 ^ 32" "progressed \<le> now" "now - progressed < 2 ^ 32"
    and "seen \<le> now" "now - seen < 2 ^ 32"
  shows "fw_update_next_action FW_UPDATE_SOURCE_PULL complete dirty (of_nat now) (of_nat requested)
      (of_nat progressed) (of_nat seen) =
    (if now - progressed \<ge> 30000000 then
       (if \<not> dirty then FW_UPDATE_ABANDON else if now - seen < 3500000 then FW_UPDATE_RESTART else FW_UPDATE_PAUSE)
     else if complete \<or> now - requested \<ge> 100000 then FW_UPDATE_REQUEST else FW_UPDATE_WAIT)"
  by (simp only: fw_update_next_action_def word_le_nat_alt word_less_nat_alt elapsed [OF assms(1,2)]
      elapsed [OF assms(3,4)] elapsed [OF assms(5,6)]) simp

theorem fw_update_next_action_real_time_witness:
  "fw_update_next_action FW_UPDATE_SOURCE_PULL False True (of_nat 4294967396) (of_nat 4294867296)
     (of_nat 4294867296) (of_nat 4294867296) = FW_UPDATE_REQUEST"
  using fw_update_next_action_real_time [of 4294867296 4294967396 4294867296 4294867296 False True]
  by simp

end
