(* ===== verification/Flash_Store.thy ===== *)
theory Flash_Store
  imports Config Fw_Update
begin

text \<open>
  Flash and what is kept in it (flash.h, firmware.h, utils.c, memory\_map.ld): erase and program with
  the generation counter that invalidates running verification scans, the firmware slot checks, and
  loading and saving the configuration in the layout of its C structure. Erase and program themselves
  are ROM routines and are a parameter with the documented behaviour of NOR flash as hypothesis.
  Addresses are offsets from \<open>XIP_BASE\<close>: the 256 KiB firmware slot at 0 with its metadata in the last
  sector, the configuration in the last sector of the 2 MiB flash.
\<close>

unbundle bit_operations_syntax

subsection \<open>Flash\<close>

record flash_hw =
  flash_range_erase :: "bytes \<Rightarrow> nat \<Rightarrow> nat \<Rightarrow> bytes"
  flash_range_program :: "bytes \<Rightarrow> nat \<Rightarrow> bytes \<Rightarrow> bytes"

text \<open>Erasing sets every byte of the range to \<open>0xff\<close>, programming can only clear bits, and neither
  touches bytes outside its range.\<close>

definition nor_flash :: "flash_hw \<Rightarrow> bool" where
  "nor_flash hw \<longleftrightarrow>
     (\<forall>f off n. length (flash_range_erase hw f off n) = length f
        \<and> (\<forall>k<length f. flash_range_erase hw f off n ! k = (if off \<le> k \<and> k < off + n then 0xff else f ! k)))
     \<and> (\<forall>f off d. length (flash_range_program hw f off d) = length f
        \<and> (\<forall>k<length f. flash_range_program hw f off d ! k =
             (if off \<le> k \<and> k < off + length d then f ! k AND d ! (k - off) else f ! k)))"

record store =
  s_flash :: bytes
  s_generation :: u64
  s_upgrade_in_progress :: bool
  s_image_dirty :: bool
  s_reboot_requested :: bool
  s_maintenance_reserved :: bool
  s_bootloader_local_pending :: bool
  s_bootloader_peer_pending :: bool
  s_config :: config
  s_page_buffer :: bytes

abbreviation "SLOT_SIZE \<equiv> 262144 :: nat"
abbreviation "SECTOR_SIZE \<equiv> 4096 :: nat"
abbreviation "PAGE_SIZE \<equiv> 256 :: nat"
abbreviation "METADATA_ADDR \<equiv> 258048 :: nat"
abbreviation "CONFIG_ADDR \<equiv> 2093056 :: nat"
abbreviation "FLASH_SIZE \<equiv> 2097152 :: nat"

definition firmware_verify_invalidate_range :: "nat \<Rightarrow> nat \<Rightarrow> store \<Rightarrow> store" where
  "firmware_verify_invalidate_range offset len s =
     (if len \<noteq> 0 \<and> offset < SLOT_SIZE \<and> offset + len > 0 \<and> s_generation s \<noteq> 0xffffffffffffffff
      then s\<lparr>s_generation := s_generation s + 1\<rparr> else s)"

definition write_flash_page_erasing :: "flash_hw \<Rightarrow> nat \<Rightarrow> bytes \<Rightarrow> bool \<Rightarrow> store \<Rightarrow> store" where
  "write_flash_page_erasing hw target_addr buffer erase_sector s =
     (let sector = target_addr div SECTOR_SIZE * SECTOR_SIZE;
          s1 = (if erase_sector then
                  let s0 = firmware_verify_invalidate_range sector SECTOR_SIZE s
                  in s0\<lparr>s_flash := flash_range_erase hw (s_flash s0) sector SECTOR_SIZE\<rparr>
                else s);
          s2 = firmware_verify_invalidate_range target_addr PAGE_SIZE s1
      in s2\<lparr>s_flash := flash_range_program hw (s_flash s2) target_addr (take PAGE_SIZE buffer)\<rparr>)"

text \<open>\<open>(target_addr & 0xf00) == 0\<close>: the page is the first of its sector.\<close>

definition write_flash_page :: "flash_hw \<Rightarrow> nat \<Rightarrow> bytes \<Rightarrow> store \<Rightarrow> store" where
  "write_flash_page hw target_addr buffer s =
     write_flash_page_erasing hw target_addr buffer (target_addr div PAGE_SIZE mod 16 = 0) s"

definition wipe_config :: "flash_hw \<Rightarrow> store \<Rightarrow> store" where
  "wipe_config hw s =
     (if s_upgrade_in_progress s then s
      else s\<lparr>s_flash := flash_range_erase hw (s_flash s) CONFIG_ADDR SECTOR_SIZE\<rparr>)"

text \<open>Recovery erases the first sector of the image and then leaves for the ROM bootloader.\<close>

definition enter_firmware_recovery :: "flash_hw \<Rightarrow> store \<Rightarrow> store" where
  "enter_firmware_recovery hw s =
     (let s1 = firmware_verify_invalidate_range 0 SECTOR_SIZE s
      in s1\<lparr>s_flash := flash_range_erase hw (s_flash s1) 0 SECTOR_SIZE\<rparr>)"

subsection \<open>The firmware slot\<close>

definition calculate_firmware_crc32 :: "store \<Rightarrow> u32" where
  "calculate_firmware_crc32 s = calc_crc32 (slice (s_flash s) 0 (SLOT_SIZE - SECTOR_SIZE))"

definition firmware_image_is_valid :: "store \<Rightarrow> u16 \<Rightarrow> u32 \<Rightarrow> bool \<Rightarrow> bool" where
  "firmware_image_is_valid s expected_version transferred_checksum check_transferred =
     (let calculated = calculate_firmware_crc32 s;
          magic = get32 (s_flash s) METADATA_ADDR;
          version = get16 (s_flash s) (METADATA_ADDR + 4);
          checksum = get32 (s_flash s) (METADATA_ADDR + 8);
          legacy = get32 (s_flash s) (METADATA_ADDR + 6);
          metadata_valid = fw_update_metadata_matches magic version checksum calculated
            expected_version (expected_version \<noteq> 0);
          legacy_direct = (\<not> check_transferred \<and> expected_version = 0
            \<and> fw_update_metadata_matches magic version legacy calculated 0 False)
      in (\<not> check_transferred \<or> transferred_checksum = calculated) \<and> (metadata_valid \<or> legacy_direct))"

definition read_running_firmware_word :: "store \<Rightarrow> nat \<Rightarrow> u32 option" where
  "read_running_firmware_word s address =
     (if address > SLOT_SIZE - 4 \<or> address mod 4 \<noteq> 0 then None else Some (get32 (s_flash s) address))"

definition read_flash_bytes :: "store \<Rightarrow> nat \<Rightarrow> nat \<Rightarrow> bytes" where
  "read_flash_bytes s address len = slice (s_flash s) address len"

datatype firmware_verify_io = FIRMWARE_VERIFY_OK | FIRMWARE_VERIFY_BUSY | FIRMWARE_VERIFY_UPDATE_ACTIVE
  | FIRMWARE_VERIFY_CHANGED | FIRMWARE_VERIFY_BAD_ARGUMENT

text \<open>\<open>got\<close> tells which of the two try-locks (firmware, flash) this call obtains.\<close>

definition firmware_verify_try_lock :: "bool \<times> bool \<Rightarrow> u64 \<Rightarrow> bool \<Rightarrow> store \<Rightarrow> firmware_verify_io" where
  "firmware_verify_try_lock got generation compare s =
     (if \<not> fst got then FIRMWARE_VERIFY_BUSY
      else if s_upgrade_in_progress s \<or> s_image_dirty s \<or> s_reboot_requested s then FIRMWARE_VERIFY_UPDATE_ACTIVE
      else if \<not> snd got then FIRMWARE_VERIFY_BUSY
      else if s_generation s = 0xffffffffffffffff \<or> (compare \<and> generation \<noteq> s_generation s)
        then FIRMWARE_VERIFY_CHANGED
      else FIRMWARE_VERIFY_OK)"

definition firmware_verify_try_start :: "bool \<times> bool \<Rightarrow> store \<Rightarrow> firmware_verify_io + bytes \<times> u64" where
  "firmware_verify_try_start got s =
     (case firmware_verify_try_lock got 0 False s of
        FIRMWARE_VERIFY_OK \<Rightarrow> Inr (slice (s_flash s) METADATA_ADDR 12, s_generation s)
      | e \<Rightarrow> Inl e)"

definition firmware_verify_try_read ::
    "bool \<times> bool \<Rightarrow> u64 \<Rightarrow> nat \<Rightarrow> nat \<Rightarrow> store \<Rightarrow> firmware_verify_io + bytes" where
  "firmware_verify_try_read got generation offset len s =
     (if len = 0 \<or> len > PAGE_SIZE \<or> offset > SLOT_SIZE - len then Inl FIRMWARE_VERIFY_BAD_ARGUMENT
      else case firmware_verify_try_lock got generation True s of
        FIRMWARE_VERIFY_OK \<Rightarrow> Inr (slice (s_flash s) offset len)
      | e \<Rightarrow> Inl e)"

definition firmware_verify_try_finish :: "bool \<times> bool \<Rightarrow> u64 \<Rightarrow> store \<Rightarrow> firmware_verify_io + bytes" where
  "firmware_verify_try_finish got generation s =
     (case firmware_verify_try_lock got generation True s of
        FIRMWARE_VERIFY_OK \<Rightarrow> Inr (slice (s_flash s) METADATA_ADDR 12)
      | e \<Rightarrow> Inl e)"

subsection \<open>The stored configuration\<close>

text \<open>The 136-byte layout of \<open>config_t\<close>: \<open>output_t\<close> takes 56 bytes with its \<open>screensaver\<close> aligned to 8.
  Padding bytes are zero.\<close>

definition output_to_bytes :: "output_t \<Rightarrow> bytes" where
  "output_to_bytes u = le32 (out_number u) @ le32 (out_screen_count u) @ le32 (out_screen_index u)
     @ le32 (out_speed_x u) @ le32 (out_speed_y u) @ le32 (border_top (out_border u))
     @ le32 (border_bottom (out_border u)) @ [out_os u, out_pos u, out_mouse_park_pos u, 0]
     @ [ss_mode (out_screensaver u), ss_only_if_inactive (out_screensaver u), 0, 0, 0, 0, 0, 0]
     @ le64 (ss_idle_time_us (out_screensaver u)) @ le64 (ss_max_time_us (out_screensaver u))"

definition output_of_bytes :: "bytes \<Rightarrow> output_t" where
  "output_of_bytes b = \<lparr>out_number = get32 b 0, out_screen_count = get32 b 4, out_screen_index = get32 b 8,
     out_speed_x = get32 b 12, out_speed_y = get32 b 16,
     out_border = \<lparr>border_top = get32 b 20, border_bottom = get32 b 24\<rparr>,
     out_os = b ! 28, out_pos = b ! 29, out_mouse_park_pos = b ! 30,
     out_screensaver = \<lparr>ss_mode = b ! 32, ss_only_if_inactive = b ! 33, ss_idle_time_us = get64 b 40,
       ss_max_time_us = get64 b 48\<rparr>\<rparr>"

definition config_body_bytes :: "config \<Rightarrow> bytes" where
  "config_body_bytes c = le32 (cfg_magic_header c) @ le32 (cfg_version c)
     @ [cfg_force_mouse_boot_mode c, cfg_force_kbd_boot_protocol c, cfg_kbd_led_as_indicator c,
        cfg_hotkey_toggle c, cfg_enable_acceleration c, cfg_enforce_ports c] @ le16 (cfg_jump_threshold c)
     @ output_to_bytes (cfg_output_a c) @ output_to_bytes (cfg_output_b c)
     @ le32 (cfg_screensaver_system_timeout_sec c)"

definition config_to_bytes :: "config \<Rightarrow> bytes" where
  "config_to_bytes c = config_body_bytes c @ le32 (cfg_checksum c)"

definition config_of_bytes :: "bytes \<Rightarrow> config" where
  "config_of_bytes b = \<lparr>cfg_magic_header = get32 b 0, cfg_version = get32 b 4,
     cfg_force_mouse_boot_mode = b ! 8, cfg_force_kbd_boot_protocol = b ! 9, cfg_kbd_led_as_indicator = b ! 10,
     cfg_hotkey_toggle = b ! 11, cfg_enable_acceleration = b ! 12, cfg_enforce_ports = b ! 13,
     cfg_jump_threshold = get16 b 14, cfg_output_a = output_of_bytes (slice b 16 56),
     cfg_output_b = output_of_bytes (slice b 72 56),
     cfg_screensaver_system_timeout_sec = get32 b 128, cfg_checksum = get32 b 132\<rparr>"

definition save_config :: "flash_hw \<Rightarrow> store \<Rightarrow> store" where
  "save_config hw s =
     (if s_upgrade_in_progress s then s
      else if \<not> config_validate (s_config s) then s
      else
        let checksum = calc_crc32 (config_body_bytes (s_config s));
            page = config_body_bytes (s_config s) @ le32 checksum @ replicate (PAGE_SIZE - 136) 0;
            s1 = s\<lparr>s_page_buffer := page, s_config := (s_config s)\<lparr>cfg_checksum := checksum\<rparr>\<rparr>
        in write_flash_page hw CONFIG_ADDR page s1)"

definition load_config :: "flash_hw \<Rightarrow> store \<Rightarrow> store" where
  "load_config hw s =
     (let raw = slice (s_flash s) CONFIG_ADDR 136;
          running = config_of_bytes raw;
          config_valid = (cfg_magic_header running = 0xB00B1E5 \<and> cfg_checksum running = calc_crc32 (take 132 raw));
          m = migrate_config_to_current (cfg_version running)
            (cfg_version running, cfg_screensaver_system_timeout_sec running,
             ss_mode (out_screensaver (cfg_output_a running)), ss_mode (out_screensaver (cfg_output_b running))) 300 2;
          migrated = (config_valid \<and> fst m);
          running1 = (if migrated then
              (case snd m of (version, timeout, mode_a, mode_b) \<Rightarrow>
                 running\<lparr>cfg_version := version, cfg_screensaver_system_timeout_sec := timeout,
                   cfg_output_a := (cfg_output_a running)\<lparr>out_screensaver :=
                     (out_screensaver (cfg_output_a running))\<lparr>ss_mode := mode_a\<rparr>\<rparr>,
                   cfg_output_b := (cfg_output_b running)\<lparr>out_screensaver :=
                     (out_screensaver (cfg_output_b running))\<lparr>ss_mode := mode_b\<rparr>\<rparr>\<rparr>)
            else running);
          running2 = (if \<not> config_valid \<or> cfg_version running1 \<noteq> 10 then default_config else running1);
          s1 = s\<lparr>s_config := snd (config_repair running2)\<rparr>
      in if migrated then save_config hw s1 else s1)"

text \<open>\<open>got\<close> is the firmware try-lock; \<open>edit\<close> stands for the SETs of the other core that land while the
  flash is written, since the configuration lock is not held then.\<close>

definition config_save_confirmed ::
    "flash_hw \<Rightarrow> bool \<Rightarrow> (config \<Rightarrow> config) \<Rightarrow> u32 \<Rightarrow> store \<Rightarrow> (config_confirm_status \<times> u32) \<times> store" where
  "config_save_confirmed hw got edit expected s =
     (if \<not> got then ((CONFIG_CONFIRM_BUSY, 0), s)
      else if s_upgrade_in_progress s \<or> s_image_dirty s \<or> s_reboot_requested s \<or> s_maintenance_reserved s
        \<or> s_bootloader_local_pending s \<or> s_bootloader_peer_pending s then ((CONFIG_CONFIRM_BUSY, 0), s)
      else
        let snapshot = s_config s; actual = config_digest_snapshot snapshot in
        if \<not> config_validate snapshot \<or> actual \<noteq> expected then
          ((if actual \<noteq> expected then CONFIG_CONFIRM_CONFLICT else CONFIG_CONFIRM_INVALID, actual), s)
        else
          let checksum = calc_crc32 (config_body_bytes snapshot);
              page = config_body_bytes snapshot @ le32 checksum @ replicate (PAGE_SIZE - 136) 0;
              s1 = s\<lparr>s_page_buffer := page\<rparr>;
              identical = (slice (s_flash s1) CONFIG_ADDR PAGE_SIZE = page);
              s2 = (if \<not> identical then write_flash_page hw CONFIG_ADDR page s1 else s1);
              verified = (slice (s_flash s2) CONFIG_ADDR PAGE_SIZE = page);
              s3 = s2\<lparr>s_config := edit (s_config s2)\<rparr>;
              actual' = config_digest_snapshot (s_config s3);
              unchanged = (actual' = expected);
              s4 = (if verified \<and> unchanged then s3\<lparr>s_config := (s_config s3)\<lparr>cfg_checksum := checksum\<rparr>\<rparr> else s3)
          in ((if \<not> verified then CONFIG_CONFIRM_FLASH_MISMATCH
               else if unchanged then CONFIG_CONFIRM_OK else CONFIG_CONFIRM_CONFLICT, actual'), s4))"

subsection \<open>Layout\<close>

lemma length_output_bytes [simp]: "length (output_to_bytes u) = 56"
  by (simp add: output_to_bytes_def)

lemma output_roundtrip: "output_of_bytes (output_to_bytes u) = u"
proof -
  have fields: "get32 (output_to_bytes u) 0 = out_number u" "get32 (output_to_bytes u) 4 = out_screen_count u"
    "get32 (output_to_bytes u) 8 = out_screen_index u" "get32 (output_to_bytes u) 12 = out_speed_x u"
    "get32 (output_to_bytes u) 16 = out_speed_y u" "get32 (output_to_bytes u) 20 = border_top (out_border u)"
    "get32 (output_to_bytes u) 24 = border_bottom (out_border u)"
    by (simp_all add: output_to_bytes_def get32_def le32_def)
  have bytes: "output_to_bytes u ! 28 = out_os u" "output_to_bytes u ! 29 = out_pos u"
    "output_to_bytes u ! 30 = out_mouse_park_pos u" "output_to_bytes u ! 32 = ss_mode (out_screensaver u)"
    "output_to_bytes u ! 33 = ss_only_if_inactive (out_screensaver u)"
    by (simp_all add: output_to_bytes_def le32_def)
  have idle: "get64 (output_to_bytes u) 40 = ss_idle_time_us (out_screensaver u)"
    and maxt: "get64 (output_to_bytes u) 48 = ss_max_time_us (out_screensaver u)"
    unfolding get64_def by (simp_all add: output_to_bytes_def get32_def le32_def le64_def join64)
  show ?thesis by (simp add: output_of_bytes_def fields bytes idle maxt)
qed

lemma length_body [simp]: "length (config_body_bytes c) = 132"
  by (simp add: config_body_bytes_def)

lemma length_config_bytes [simp]: "length (config_to_bytes c) = 136"
  by (simp add: config_to_bytes_def)

definition config_head :: "config \<Rightarrow> bytes" where
  "config_head c = le32 (cfg_magic_header c) @ le32 (cfg_version c)
     @ [cfg_force_mouse_boot_mode c, cfg_force_kbd_boot_protocol c, cfg_kbd_led_as_indicator c,
        cfg_hotkey_toggle c, cfg_enable_acceleration c, cfg_enforce_ports c] @ le16 (cfg_jump_threshold c)"

lemma config_bytes_parts:
  "config_to_bytes c = config_head c @ output_to_bytes (cfg_output_a c) @ output_to_bytes (cfg_output_b c)
     @ le32 (cfg_screensaver_system_timeout_sec c) @ le32 (cfg_checksum c)"
  "length (config_head c) = 16"
  by (simp_all add: config_to_bytes_def config_body_bytes_def config_head_def)

lemma config_roundtrip: "config_of_bytes (config_to_bytes c) = c"
proof -
  let ?b = "config_to_bytes c"
  note parts = config_bytes_parts [of c]
  have head: "get32 ?b 0 = cfg_magic_header c" "get32 ?b 4 = cfg_version c" "?b ! 8 = cfg_force_mouse_boot_mode c"
    "?b ! 9 = cfg_force_kbd_boot_protocol c" "?b ! 10 = cfg_kbd_led_as_indicator c" "?b ! 11 = cfg_hotkey_toggle c"
    "?b ! 12 = cfg_enable_acceleration c" "?b ! 13 = cfg_enforce_ports c" "get16 ?b 14 = cfg_jump_threshold c"
    unfolding parts(1) by (simp_all add: config_head_def get32_def le32_def get16_def le16_def)
  have a: "slice ?b 16 56 = output_to_bytes (cfg_output_a c)" and b: "slice ?b 72 56 = output_to_bytes (cfg_output_b c)"
    unfolding parts(1) using parts(2) by (simp_all add: slice_def)
  have t: "get32 ?b 128 = cfg_screensaver_system_timeout_sec c" and k: "get32 ?b 132 = cfg_checksum c"
    using get32_at [of 128 "config_head c @ output_to_bytes (cfg_output_a c) @ output_to_bytes (cfg_output_b c)"
        "cfg_screensaver_system_timeout_sec c" "le32 (cfg_checksum c)"]
      get32_at [of 132 "config_head c @ output_to_bytes (cfg_output_a c) @ output_to_bytes (cfg_output_b c)
        @ le32 (cfg_screensaver_system_timeout_sec c)" "cfg_checksum c" "[]"] parts by simp_all
  show ?thesis by (simp add: config_of_bytes_def head a b t k output_roundtrip)
qed

definition config_page :: "config \<Rightarrow> bytes" where
  "config_page c = config_body_bytes c @ le32 (calc_crc32 (config_body_bytes c)) @ replicate (PAGE_SIZE - 136) 0"

lemma length_config_page [simp]: "length (config_page c) = 256"
  by (simp add: config_page_def)

lemma body_ignores_checksum [simp]: "config_body_bytes (c\<lparr>cfg_checksum := k\<rparr>) = config_body_bytes c"
  by (simp add: config_body_bytes_def)

lemma take_config_page: "take 136 (config_page c) = config_to_bytes (c\<lparr>cfg_checksum := calc_crc32 (config_body_bytes c)\<rparr>)"
  by (simp add: config_page_def config_to_bytes_def)

lemma validate_ignores_checksum [simp]: "config_validate (c\<lparr>cfg_checksum := k\<rparr>) = config_validate c"
proof -
  have "config_field_read (c\<lparr>cfg_checksum := k\<rparr>) r = config_field_read c r" for r
    by (cases r) (simp_all add: get_output_def, case_tac x2, simp_all)
  then show ?thesis by (simp add: config_validate_def get_output_def)
qed

text \<open>A page of flash that holds a saved configuration is loaded as that configuration.\<close>

lemma load_saved_page:
  assumes "slice (s_flash s) CONFIG_ADDR PAGE_SIZE = config_page c" "config_validate c"
  shows "load_config hw s = s\<lparr>s_config := c\<lparr>cfg_checksum := calc_crc32 (config_body_bytes c)\<rparr>\<rparr>"
proof -
  let ?c = "c\<lparr>cfg_checksum := calc_crc32 (config_body_bytes c)\<rparr>"
  have raw: "slice (s_flash s) CONFIG_ADDR 136 = config_to_bytes ?c"
    using arg_cong [OF assms(1), of "take 136"] by (simp add: slice_def take_config_page)
  have body: "take 132 (config_to_bytes ?c) = config_body_bytes c" by (simp add: config_to_bytes_def)
  have v: "cfg_magic_header c = 0xB00B1E5" "cfg_version c = 10" using assms(2) by (simp_all add: config_validate_iff)
  have rep: "config_repair ?c = (False, ?c)" using repair_of_valid [of ?c] assms(2) by simp
  show ?thesis
    unfolding load_config_def raw config_roundtrip body Let_def
    by (simp add: v rep migrate_config_to_current_def)
qed

subsection \<open>Writing a page\<close>

lemma erase_nth:
  "nor_flash hw \<Longrightarrow> k < length f \<Longrightarrow> flash_range_erase hw f off n ! k = (if off \<le> k \<and> k < off + n then 0xff else f ! k)"
  "nor_flash hw \<Longrightarrow> length (flash_range_erase hw f off n) = length f"
  by (simp_all add: nor_flash_def)

lemma program_nth:
  "nor_flash hw \<Longrightarrow> k < length f \<Longrightarrow> flash_range_program hw f off d ! k =
     (if off \<le> k \<and> k < off + length d then f ! k AND d ! (k - off) else f ! k)"
  "nor_flash hw \<Longrightarrow> length (flash_range_program hw f off d) = length f"
  by (simp_all add: nor_flash_def)

lemma erased_and: "(0xff :: u8) AND x = x"
proof -
  have "(0xff :: u8) = - 1" by simp
  then show ?thesis by (simp only: and.left_neutral)
qed

lemma invalidate_flash [simp]: "s_flash (firmware_verify_invalidate_range off n s) = s_flash s"
  "s_config (firmware_verify_invalidate_range off n s) = s_config s"
  by (simp_all add: firmware_verify_invalidate_range_def)

lemma write_first_page:
  assumes "nor_flash hw" "length page = PAGE_SIZE" "a mod SECTOR_SIZE = 0" "a + SECTOR_SIZE \<le> length (s_flash s)"
  shows "slice (s_flash (write_flash_page hw a page s)) a PAGE_SIZE = page"
proof -
  have first: "a div PAGE_SIZE mod 16 = 0" and sector: "a div SECTOR_SIZE * SECTOR_SIZE = a"
    using assms(3) by (auto simp: mod_eq_0_iff_dvd elim!: dvdE)
  have fl: "s_flash (write_flash_page hw a page s) =
      flash_range_program hw (flash_range_erase hw (s_flash s) a SECTOR_SIZE) a page"
    using first sector assms(2) by (simp add: write_flash_page_def write_flash_page_erasing_def Let_def)
  show ?thesis
    unfolding fl
  proof (rule nth_equalityI)
    show "length (slice (flash_range_program hw (flash_range_erase hw (s_flash s) a SECTOR_SIZE) a page) a PAGE_SIZE) = length page"
      using assms by (simp add: erase_nth(2) program_nth(2))
    fix k
    assume "k < length (slice (flash_range_program hw (flash_range_erase hw (s_flash s) a SECTOR_SIZE) a page) a PAGE_SIZE)"
    then have k: "k < PAGE_SIZE" using assms by (simp add: erase_nth(2) program_nth(2))
    then show "slice (flash_range_program hw (flash_range_erase hw (s_flash s) a SECTOR_SIZE) a page) a PAGE_SIZE ! k = page ! k"
      using assms by (simp add: nth_slice erase_nth program_nth erased_and)
  qed
qed

subsection \<open>Scans of the firmware slot\<close>

text \<open>What can happen to the store between two calls of a scan: page writes, recovery, saving and
  wiping the configuration, and changes outside flash.\<close>

inductive flash_step :: "flash_hw \<Rightarrow> store \<Rightarrow> store \<Rightarrow> bool" for hw where
  page: "flash_step hw s (write_flash_page_erasing hw a buffer e s)"
| recovery: "flash_step hw s (enter_firmware_recovery hw s)"
| wipe: "flash_step hw s (wipe_config hw s)"
| save: "flash_step hw s (save_config hw s)"
| other: "s_flash s' = s_flash s \<Longrightarrow> s_generation s' = s_generation s \<Longrightarrow> flash_step hw s s'"

definition slot_kept :: "store \<Rightarrow> store \<Rightarrow> bool" where
  "slot_kept s s' \<longleftrightarrow> length (s_flash s') = length (s_flash s) \<and> s_generation s \<le> s_generation s'
     \<and> (s_generation s' = s_generation s \<and> s_generation s' \<noteq> 0xffffffffffffffff \<longrightarrow>
          (\<forall>k<SLOT_SIZE. k < length (s_flash s) \<longrightarrow> s_flash s' ! k = s_flash s ! k))"

lemma generation_less: "(g :: u64) \<noteq> 0xffffffffffffffff \<Longrightarrow> g < g + 1"
proof -
  assume "g \<noteq> 0xffffffffffffffff"
  then have "unat g \<noteq> 18446744073709551615" by (auto simp: word_unat_eq_iff)
  moreover have "unat g < 2 ^ 64" using unsigned_less [of g, where ?'a = nat] by simp
  ultimately show ?thesis by (simp add: word_less_nat_alt unat_word_ariths)
qed

lemma slot_kept_refl: "slot_kept s s"
  by (simp add: slot_kept_def)

lemma slot_kept_trans: "slot_kept s t \<Longrightarrow> slot_kept t u \<Longrightarrow> slot_kept s u"
proof -
  assume a: "slot_kept s t" "slot_kept t u"
  have le: "s_generation s \<le> s_generation t" "s_generation t \<le> s_generation u" using a by (simp_all add: slot_kept_def)
  have len: "length (s_flash u) = length (s_flash t)" "length (s_flash t) = length (s_flash s)"
    using a by (simp_all add: slot_kept_def)
  have "s_flash u ! k = s_flash s ! k"
    if "s_generation u = s_generation s" "s_generation u \<noteq> 0xffffffffffffffff" "k < SLOT_SIZE" "k < length (s_flash s)" for k
  proof -
    have "s_generation t = s_generation s" using le that(1) by simp
    then have "s_flash t ! k = s_flash s ! k" "s_flash u ! k = s_flash t ! k"
      using a that len unfolding slot_kept_def by metis+
    then show ?thesis by simp
  qed
  then show ?thesis using le len unfolding slot_kept_def by auto
qed

text \<open>A change of flash after its range has been announced keeps the slot in the sense above.\<close>

lemma slot_kept_change:
  assumes "length f = length (s_flash s)" "n \<noteq> 0"
    "off \<ge> SLOT_SIZE \<Longrightarrow> \<forall>k<SLOT_SIZE. k < length (s_flash s) \<longrightarrow> f ! k = s_flash s ! k"
  shows "slot_kept s ((firmware_verify_invalidate_range off n s)\<lparr>s_flash := f\<rparr>)"
  using assms generation_less [of "s_generation s"]
  by (cases "off < SLOT_SIZE"; cases "s_generation s = 0xffffffffffffffff")
     (auto simp: slot_kept_def firmware_verify_invalidate_range_def)

lemma slot_kept_write:
  assumes "nor_flash hw"
  shows "slot_kept s (write_flash_page_erasing hw a buffer e s)"
proof -
  define sector where "sector = a div SECTOR_SIZE * SECTOR_SIZE"
  define s1 where "s1 = (if e then (firmware_verify_invalidate_range sector SECTOR_SIZE s)\<lparr>s_flash :=
      flash_range_erase hw (s_flash s) sector SECTOR_SIZE\<rparr> else s)"
  have one: "slot_kept s s1"
    using assms slot_kept_change [of "flash_range_erase hw (s_flash s) sector SECTOR_SIZE" s SECTOR_SIZE sector]
    by (auto simp: s1_def slot_kept_refl erase_nth)
  have two: "slot_kept s1 ((firmware_verify_invalidate_range a PAGE_SIZE s1)\<lparr>s_flash :=
      flash_range_program hw (s_flash s1) a (take PAGE_SIZE buffer)\<rparr>)"
    using assms slot_kept_change [of "flash_range_program hw (s_flash s1) a (take PAGE_SIZE buffer)" s1 PAGE_SIZE a]
    by (auto simp: program_nth)
  have "write_flash_page_erasing hw a buffer e s = (firmware_verify_invalidate_range a PAGE_SIZE s1)\<lparr>s_flash :=
      flash_range_program hw (s_flash s1) a (take PAGE_SIZE buffer)\<rparr>"
    by (simp add: write_flash_page_erasing_def Let_def s1_def sector_def)
  then show ?thesis using slot_kept_trans [OF one two] by simp
qed

lemma slot_kept_step:
  assumes "nor_flash hw" "flash_step hw s s'"
  shows "slot_kept s s'"
  using assms(2)
proof cases
  case (page a buffer e)
  then show ?thesis using slot_kept_write [OF assms(1)] by simp
next
  case recovery
  then show ?thesis
    using assms(1) slot_kept_change [of "flash_range_erase hw (s_flash s) 0 SECTOR_SIZE" s SECTOR_SIZE 0]
    by (simp add: enter_firmware_recovery_def Let_def erase_nth)
next
  case wipe
  then show ?thesis using assms(1) by (auto simp: wipe_config_def slot_kept_def erase_nth)
next
  case save
  define s1 where "s1 = s\<lparr>s_page_buffer := config_page (s_config s), s_config := (s_config s)\<lparr>cfg_checksum :=
      calc_crc32 (config_body_bytes (s_config s))\<rparr>\<rparr>"
  have "slot_kept s1 (write_flash_page hw CONFIG_ADDR (config_page (s_config s)) s1)"
    unfolding write_flash_page_def by (rule slot_kept_write [OF assms(1)])
  moreover have "slot_kept s s1" by (simp add: slot_kept_def s1_def)
  ultimately have "slot_kept s (write_flash_page hw CONFIG_ADDR (config_page (s_config s)) s1)"
    using slot_kept_trans by blast
  with save show ?thesis
    by (simp add: save_config_def Let_def slot_kept_refl s1_def config_page_def)
next
  case other
  then show ?thesis by (simp add: slot_kept_def)
qed

lemma slot_kept_steps:
  assumes "nor_flash hw" "(flash_step hw)\<^sup>*\<^sup>* s s'"
  shows "slot_kept s s'"
  using assms(2)
  by (induction rule: rtranclp_induct) (auto intro: slot_kept_refl slot_kept_trans slot_kept_step [OF assms(1)])

lemma try_lock_ok:
  "firmware_verify_try_lock got g True s = FIRMWARE_VERIFY_OK \<Longrightarrow> s_generation s = g \<and> g \<noteq> 0xffffffffffffffff"
  by (auto simp: firmware_verify_try_lock_def split: if_splits)

lemma scan_read:
  assumes "nor_flash hw" "length (s_flash s) = FLASH_SIZE" "(flash_step hw)\<^sup>*\<^sup>* s s'"
    "s_generation s' = s_generation s" "s_generation s' \<noteq> 0xffffffffffffffff" "off + n \<le> SLOT_SIZE"
  shows "slice (s_flash s') off n = slice (s_flash s) off n"
proof -
  from slot_kept_steps [OF assms(1,3)] assms(4,5) have len: "length (s_flash s') = length (s_flash s)"
    and eq: "\<And>k. k < SLOT_SIZE \<Longrightarrow> k < length (s_flash s) \<Longrightarrow> s_flash s' ! k = s_flash s ! k"
    unfolding slot_kept_def by blast+
  show ?thesis using assms(2,6) len eq by (intro nth_equalityI) (simp_all add: nth_slice)
qed

text \<open>The steps that touch the firmware slot: a page written at an address in it, and recovery.\<close>

inductive slot_write :: "flash_hw \<Rightarrow> store \<Rightarrow> store \<Rightarrow> bool" for hw where
  page: "a < SLOT_SIZE \<Longrightarrow> slot_write hw s (write_flash_page_erasing hw a buffer e s)"
| recovery: "slot_write hw s (enter_firmware_recovery hw s)"

lemma invalidate_generation:
  "s_generation s \<noteq> 0xffffffffffffffff \<Longrightarrow> n \<noteq> 0 \<Longrightarrow> off < SLOT_SIZE \<Longrightarrow>
     s_generation s < s_generation (firmware_verify_invalidate_range off n s)"
  "s_generation s \<le> s_generation (firmware_verify_invalidate_range off n s)"
  "s_generation s = 0xffffffffffffffff \<Longrightarrow> firmware_verify_invalidate_range off n s = s"
  using generation_less [of "s_generation s"] by (auto simp: firmware_verify_invalidate_range_def)

lemma slot_write_generation:
  assumes "slot_write hw s s'"
  shows "s_generation s < s_generation s' \<or> s_generation s' = 0xffffffffffffffff"
  using assms
proof cases
  case (page a buffer e)
  define s1 where "s1 = (if e then (firmware_verify_invalidate_range (a div SECTOR_SIZE * SECTOR_SIZE) SECTOR_SIZE s)\<lparr>s_flash :=
      flash_range_erase hw (s_flash s) (a div SECTOR_SIZE * SECTOR_SIZE) SECTOR_SIZE\<rparr> else s)"
  have gen: "s_generation s' = s_generation (firmware_verify_invalidate_range a PAGE_SIZE s1)"
    by (simp add: page write_flash_page_erasing_def Let_def s1_def)
  have "s_generation s \<le> s_generation s1" using invalidate_generation(2) by (simp add: s1_def)
  moreover have "s_generation s1 < s_generation s' \<or> s_generation s' = 0xffffffffffffffff"
    using invalidate_generation(1) [of s1 PAGE_SIZE a] invalidate_generation(3) [of s1 a PAGE_SIZE] page(2) gen
    by (cases "s_generation s1 = 0xffffffffffffffff") simp_all
  ultimately show ?thesis by auto
next
  case recovery
  then show ?thesis
    using invalidate_generation(1) [of s SECTOR_SIZE 0] invalidate_generation(3) [of s 0 SECTOR_SIZE]
    by (cases "s_generation s = 0xffffffffffffffff") (simp_all add: enter_firmware_recovery_def Let_def)
qed

text \<open>After the slot was touched no generation taken before is current.\<close>

lemma touched_generation:
  assumes "nor_flash hw" "(flash_step hw)\<^sup>*\<^sup>* s t" "slot_write hw t u" "(flash_step hw)\<^sup>*\<^sup>* u s'"
  shows "s_generation s' \<noteq> s_generation s \<or> s_generation s' = 0xffffffffffffffff"
proof -
  have "s_generation s \<le> s_generation t" "s_generation u \<le> s_generation s'"
    using slot_kept_steps [OF assms(1)] assms(2,4) by (simp_all add: slot_kept_def)
  moreover have "x \<le> 0xffffffffffffffff" for x :: u64
    using unsigned_less [of x, where ?'a = nat] by (simp add: word_le_nat_alt)
  ultimately show ?thesis using slot_write_generation [OF assms(3)] by (metis leD order.antisym order.trans)
qed

lemma save_config_flash:
  assumes "nor_flash hw" "length (s_flash s) = FLASH_SIZE" "config_validate (s_config s)" "\<not> s_upgrade_in_progress s"
  shows "slice (s_flash (save_config hw s)) CONFIG_ADDR PAGE_SIZE = config_page (s_config s)"
  using assms write_first_page [OF assms(1) length_config_page, of CONFIG_ADDR]
  unfolding save_config_def Let_def config_page_def [symmetric] by simp

lemma write_page_config [simp]: "s_config (write_flash_page hw a p s) = s_config s"
  by (simp add: write_flash_page_def write_flash_page_erasing_def Let_def)

lemma save_config_config: "s_config (save_config hw s) =
    (if s_upgrade_in_progress s \<or> \<not> config_validate (s_config s) then s_config s
     else (s_config s)\<lparr>cfg_checksum := calc_crc32 (config_body_bytes (s_config s))\<rparr>)"
  by (simp add: save_config_def Let_def)

lemma digest_ignores_checksum [simp]: "config_digest_snapshot (c\<lparr>cfg_checksum := k\<rparr>) = config_digest_snapshot c"
proof -
  have "config_field_read (c\<lparr>cfg_checksum := k\<rparr>) r = config_field_read c r" for r
    by (cases r) (simp_all add: get_output_def, case_tac x2, simp_all)
  then have "digest_field (c\<lparr>cfg_checksum := k\<rparr>) = digest_field c" by (intro ext) (simp add: digest_field_def)
  then show ?thesis by (simp add: config_digest_snapshot_def)
qed

subsection \<open>Properties\<close>

text \<open>
  Loading always yields a valid configuration, whatever flash holds: erased or corrupt contents,
  an unknown version, or a stored configuration with a correct checksum and senseless values.
\<close>

theorem load_config_valid: "config_validate (s_config (load_config hw s))"
proof -
  have "config_validate (snd (config_repair c))" if "cfg_magic_header c = 0xB00B1E5" "cfg_version c = 10" for c
    using that by (rule repair_gives_valid)
  moreover have "cfg_magic_header default_config = 0xB00B1E5" "cfg_version default_config = 10"
    by (simp_all add: default_config_def)
  ultimately show ?thesis
    unfolding load_config_def Let_def by (auto simp: save_config_config split: prod.splits)
qed

text \<open>
  A saved configuration is loaded back unchanged: with NOR flash, saving a valid configuration
  (no firmware transfer in progress) and loading again gives the same configuration with its checksum.
\<close>

theorem config_save_load:
  assumes "nor_flash hw" "length (s_flash s) = FLASH_SIZE" "config_validate (s_config s)" "\<not> s_upgrade_in_progress s"
  shows "s_config (load_config hw (save_config hw s)) =
    (s_config s)\<lparr>cfg_checksum := calc_crc32 (config_body_bytes (s_config s))\<rparr>"
  using load_saved_page [OF save_config_flash [OF assms] assms(3)] by simp

text \<open>A flash part that behaves as documented, and a blank device.\<close>

definition sample_flash :: flash_hw where
  "sample_flash = \<lparr>flash_range_erase = (\<lambda>f off n. map (\<lambda>k. if off \<le> k \<and> k < off + n then 0xff else f ! k) [0..<length f]),
     flash_range_program = (\<lambda>f off d. map (\<lambda>k. if off \<le> k \<and> k < off + length d then f ! k AND d ! (k - off) else f ! k) [0..<length f])\<rparr>"

definition sample_store :: store where
  "sample_store = \<lparr>s_flash = replicate FLASH_SIZE 0xff, s_generation = 0, s_upgrade_in_progress = False,
     s_image_dirty = False, s_reboot_requested = False, s_maintenance_reserved = False,
     s_bootloader_local_pending = False, s_bootloader_peer_pending = False, s_config = default_config,
     s_page_buffer = []\<rparr>"

lemma sample_flash_nor: "nor_flash sample_flash"
  by (simp add: nor_flash_def sample_flash_def)

lemma default_valid: "config_validate default_config"
  by code_simp

theorem config_save_load_witness:
  "cfg_hotkey_toggle (s_config (load_config sample_flash (save_config sample_flash sample_store))) = 0x73"
  using config_save_load [OF sample_flash_nor, of sample_store]
  by (simp add: sample_store_def default_valid) (simp add: default_config_def)

text \<open>
  C29. A confirmed SAVE is persistent: if \<open>config_save_confirmed\<close> answers OK, then a later load from
  that flash yields a configuration with exactly the digest the client asked for, which is also the
  digest of the live configuration, whatever the flash hardware and concurrent edits did.
\<close>

theorem config_save_confirmed_persists:
  assumes "config_save_confirmed hw got edit expected s = ((CONFIG_CONFIRM_OK, actual), s')"
  shows "config_digest_snapshot (s_config (load_config hw s')) = expected
    \<and> config_digest_snapshot (s_config s') = expected \<and> actual = expected"
proof -
  define s1 where "s1 = s\<lparr>s_page_buffer := config_page (s_config s)\<rparr>"
  define s2 where "s2 = (if slice (s_flash s1) CONFIG_ADDR PAGE_SIZE \<noteq> config_page (s_config s)
    then write_flash_page hw CONFIG_ADDR (config_page (s_config s)) s1 else s1)"
  from assms have valid: "config_validate (s_config s)" "config_digest_snapshot (s_config s) = expected"
    by (auto simp: config_save_confirmed_def Let_def split: if_splits)
  have flash: "slice (s_flash s2) CONFIG_ADDR PAGE_SIZE = config_page (s_config s)" "s_flash s' = s_flash s2"
    "actual = expected" "config_digest_snapshot (s_config s') = expected"
    using assms unfolding config_save_confirmed_def Let_def config_page_def [symmetric]
      s1_def [symmetric] s2_def [symmetric]
    by (auto split: if_splits)
  from load_saved_page [of s' "s_config s" hw] flash valid show ?thesis by simp
qed

theorem config_save_confirmed_persists_witness:
  "config_digest_snapshot (s_config (load_config sample_flash (snd (config_save_confirmed sample_flash True id
     (config_digest_snapshot default_config) sample_store)))) = config_digest_snapshot default_config"
proof -
  let ?r = "config_save_confirmed sample_flash True id (config_digest_snapshot default_config) sample_store"
  have "slice (s_flash (write_flash_page sample_flash CONFIG_ADDR (config_page default_config)
      (sample_store\<lparr>s_page_buffer := config_page default_config\<rparr>))) CONFIG_ADDR PAGE_SIZE = config_page default_config"
    by (rule write_first_page [OF sample_flash_nor]) (simp_all add: sample_store_def)
  then have "fst (fst ?r) = CONFIG_CONFIRM_OK"
    using default_valid unfolding config_save_confirmed_def Let_def config_page_def [symmetric]
    by (simp add: sample_store_def)
  then have "?r = ((CONFIG_CONFIRM_OK, snd (fst ?r)), snd ?r)" by (simp add: prod_eq_iff)
  from config_save_confirmed_persists [OF this] show ?thesis by simp
qed

text \<open>
  C30. A verification scan sees one image: if a scan was started and, after any sequence of page
  writes, recovery, saves and wipes in between, a read of it still succeeds, then the bytes read are
  those the slot held when the scan started, and the slot was not touched: no page was written to it, not even
  with the bytes it already held, and recovery did not erase it.
\<close>

theorem firmware_scan_consistent:
  assumes "nor_flash hw" "length (s_flash s) = FLASH_SIZE"
    and "firmware_verify_try_start got s = Inr (metadata, g)" "(flash_step hw)\<^sup>*\<^sup>* s s'"
    and "firmware_verify_try_read got' g off n s' = Inr data"
  shows "data = slice (s_flash s) off n
    \<and> \<not> (\<exists>t u. (flash_step hw)\<^sup>*\<^sup>* s t \<and> slot_write hw t u \<and> (flash_step hw)\<^sup>*\<^sup>* u s')"
proof -
  have g: "s_generation s = g"
    using assms(3) by (auto simp: firmware_verify_try_start_def split: firmware_verify_io.splits)
  from assms(5) have r: "firmware_verify_try_lock got' g True s' = FIRMWARE_VERIFY_OK" "off + n \<le> SLOT_SIZE"
    "data = slice (s_flash s') off n"
    by (auto simp: firmware_verify_try_read_def split: firmware_verify_io.splits if_splits)
  have "\<not> (\<exists>t u. (flash_step hw)\<^sup>*\<^sup>* s t \<and> slot_write hw t u \<and> (flash_step hw)\<^sup>*\<^sup>* u s')"
    using touched_generation [OF assms(1)] try_lock_ok [OF r(1)] g by auto
  with scan_read [OF assms(1,2,4) _ _ r(2)] try_lock_ok [OF r(1)] g r(3) show ?thesis by simp
qed

theorem firmware_scan_consistent_witness:
  "firmware_verify_try_read (True, True) 0 16 4 (save_config sample_flash sample_store)
     = Inr (slice (s_flash sample_store) 16 4)"
proof -
  let ?s' = "save_config sample_flash sample_store"
  have st: "firmware_verify_try_start (True, True) sample_store = Inr (slice (s_flash sample_store) METADATA_ADDR 12, 0)"
    by (simp add: firmware_verify_try_start_def firmware_verify_try_lock_def sample_store_def)
  have gen: "s_generation ?s' = 0" "\<not> s_upgrade_in_progress ?s'" "\<not> s_image_dirty ?s'" "\<not> s_reboot_requested ?s'"
    using default_valid by (simp_all add: save_config_def Let_def write_flash_page_def write_flash_page_erasing_def
        firmware_verify_invalidate_range_def sample_store_def)
  then have r: "firmware_verify_try_read (True, True) 0 16 4 ?s' = Inr (slice (s_flash ?s') 16 4)"
    by (simp add: firmware_verify_try_read_def firmware_verify_try_lock_def)
  have step: "(flash_step sample_flash)\<^sup>*\<^sup>* sample_store ?s'" by (rule r_into_rtranclp) (rule flash_step.save)
  have len: "length (s_flash sample_store) = FLASH_SIZE" by (simp add: sample_store_def)
  from firmware_scan_consistent [OF sample_flash_nor len st step r] r show ?thesis by simp
qed

end
