(* ===== verification/Clipboard_State.thy ===== *)
theory Clipboard_State
  imports Crc
begin

text \<open>
  Clipboard text typed as keystrokes (clipboard\_state.h, clipboard\_state.c): reception in fragments
  with a deadline and a CRC, and the typing of the text as pairs of key-down and all-up reports. The
  properties: exactly the committed text is typed, a cancelled transfer leaves no text behind and
  releases the key it holds, and only complete, intact and typable text is ever typed.
\<close>

unbundle bit_operations_syntax

subsection \<open>The code\<close>

datatype clipboard_phase =
  CLIPBOARD_IDLE | CLIPBOARD_RECEIVING | CLIPBOARD_READY | CLIPBOARD_TYPING | CLIPBOARD_RELEASING

record clipboard_text =
  ct_text :: bytes
  ct_deadline :: u64
  ct_next_report :: u64
  ct_expected_crc :: u32
  ct_length :: nat
  ct_received :: nat
  ct_index :: nat
  ct_phase :: clipboard_phase
  ct_released :: bool
  ct_down :: bool

definition clipboard_crc32 :: "bytes \<Rightarrow> u32" where
  "clipboard_crc32 data = NOT (foldl page_crc_byte 0xffffffff data)"

text \<open>The characters typed without and with shift, and their keys.\<close>

definition plain_keys :: "(u8 \<times> u8) list" where
  "plain_keys = zip [10, 9, 32, 45, 61, 91, 93, 92, 59, 39, 96, 44, 46, 47]
     [40, 43, 44, 45, 46, 47, 48, 49, 51, 52, 53, 54, 55, 56]"

definition shifted_keys :: "(u8 \<times> u8) list" where
  "shifted_keys = zip [33, 64, 35, 36, 37, 94, 38, 42, 40, 41, 95, 43, 123, 125, 124, 58, 34, 126, 60, 62, 63]
     [30, 31, 32, 33, 34, 35, 36, 37, 38, 39, 45, 46, 47, 48, 49, 51, 52, 53, 54, 55, 56]"

definition clipboard_ascii_key :: "u8 \<Rightarrow> (u8 \<times> u8) option" where
  "clipboard_ascii_key byte =
     (if byte \<ge> 97 \<and> byte \<le> 122 then Some (0, byte - 97 + 4)
      else if byte \<ge> 65 \<and> byte \<le> 90 then Some (2, byte - 65 + 4)
      else if byte \<ge> 49 \<and> byte \<le> 57 then Some (0, byte - 49 + 30)
      else if byte = 48 then Some (0, 39)
      else case map_of plain_keys byte of
        Some key \<Rightarrow> Some (0, key)
      | None \<Rightarrow> (case map_of shifted_keys byte of Some key \<Rightarrow> Some (2, key) | None \<Rightarrow> None))"

definition clipboard_blank :: clipboard_text where
  "clipboard_blank = \<lparr>ct_text = replicate 1024 0, ct_deadline = 0, ct_next_report = 0, ct_expected_crc = 0,
     ct_length = 0, ct_received = 0, ct_index = 0, ct_phase = CLIPBOARD_IDLE, ct_released = False,
     ct_down = False\<rparr>"

definition clipboard_text_cancel :: "clipboard_text \<Rightarrow> clipboard_text" where
  "clipboard_text_cancel s = clipboard_blank\<lparr>ct_down := ct_down s,
     ct_phase := (if ct_down s then CLIPBOARD_RELEASING else CLIPBOARD_IDLE)\<rparr>"

text \<open>\<open>status_ok\<close> is \<open>status == CLIPBOARD_OK\<close>.\<close>

definition clipboard_text_begin :: "clipboard_text \<Rightarrow> bool \<Rightarrow> nat \<Rightarrow> u32 \<Rightarrow> u64 \<Rightarrow> bool \<times> clipboard_text" where
  "clipboard_text_begin s status_ok len crc now =
     (if ct_phase s \<noteq> CLIPBOARD_IDLE \<or> \<not> status_ok \<or> len = 0 \<or> len > 1024 then (False, clipboard_text_cancel s)
      else (True, s\<lparr>ct_length := len, ct_expected_crc := crc, ct_deadline := now + 3000000,
              ct_phase := CLIPBOARD_RECEIVING\<rparr>))"

definition clipboard_text_append :: "clipboard_text \<Rightarrow> nat \<Rightarrow> bytes \<Rightarrow> u64 \<Rightarrow> bool \<times> clipboard_text" where
  "clipboard_text_append s offset data now =
     (if ct_phase s \<noteq> CLIPBOARD_RECEIVING \<or> now \<ge> ct_deadline s \<or> data = [] \<or> offset \<noteq> ct_received s
         \<or> length data > ct_length s - ct_received s then (False, clipboard_text_cancel s)
      else (True, s\<lparr>ct_text := blit (ct_text s) offset data, ct_received := ct_received s + length data\<rparr>))"

definition clipboard_text_commit :: "clipboard_text \<Rightarrow> u64 \<Rightarrow> bool \<times> clipboard_text" where
  "clipboard_text_commit s now =
     (let body = take (ct_length s) (ct_text s);
          valid = (ct_phase s = CLIPBOARD_RECEIVING \<and> now < ct_deadline s \<and> ct_received s = ct_length s
            \<and> clipboard_crc32 body = ct_expected_crc s \<and> list_all (\<lambda>b. clipboard_ascii_key b \<noteq> None) body)
      in if \<not> valid then (False, clipboard_text_cancel s) else (True, s\<lparr>ct_phase := CLIPBOARD_READY\<rparr>))"

definition clipboard_text_release :: "clipboard_text \<Rightarrow> clipboard_text" where
  "clipboard_text_release s = s\<lparr>ct_released := True\<rparr>"

definition clipboard_text_tick :: "clipboard_text \<Rightarrow> u64 \<Rightarrow> clipboard_text" where
  "clipboard_text_tick s now =
     (if ct_phase s \<noteq> CLIPBOARD_IDLE \<and> ct_phase s \<noteq> CLIPBOARD_RELEASING \<and> now \<ge> ct_deadline s
      then clipboard_text_cancel s else s)"

text \<open>The report is \<open>Some\<close> when one is to be sent. \<open>report[0]\<close> holds the modifier, \<open>report[2]\<close> the key.\<close>

definition all_up :: bytes where
  "all_up = replicate 8 0"

definition key_down :: "u8 \<times> u8 \<Rightarrow> bytes" where
  "key_down mk = [fst mk, 0, snd mk, 0, 0, 0, 0, 0]"

definition clipboard_text_report :: "clipboard_text \<Rightarrow> u64 \<Rightarrow> bytes option \<times> clipboard_text" where
  "clipboard_text_report s0 now =
     (let s = clipboard_text_tick s0 now in
      if ct_phase s = CLIPBOARD_RELEASING then (Some all_up, s)
      else
        let s1 = (if ct_phase s = CLIPBOARD_READY \<and> ct_released s
                  then s\<lparr>ct_phase := CLIPBOARD_TYPING, ct_deadline := now + 15000000\<rparr> else s)
        in if ct_phase s1 \<noteq> CLIPBOARD_TYPING \<or> now < ct_next_report s1 then (None, s1)
           else (Some (if ct_down s1 then all_up
                       else case clipboard_ascii_key (ct_text s1 ! ct_index s1) of
                              Some mk \<Rightarrow> key_down mk | None \<Rightarrow> all_up), s1))"

definition clipboard_text_accepted :: "clipboard_text \<Rightarrow> u64 \<Rightarrow> clipboard_text" where
  "clipboard_text_accepted s now =
     (if ct_phase s = CLIPBOARD_RELEASING then clipboard_text_cancel (s\<lparr>ct_down := False\<rparr>)
      else if ct_phase s = CLIPBOARD_TYPING then
        let s1 = s\<lparr>ct_down := \<not> ct_down s\<rparr>;
            s2 = (if \<not> ct_down s1 then s1\<lparr>ct_index := ct_index s1 + 1\<rparr> else s1)
        in if \<not> ct_down s1 \<and> ct_index s2 = ct_length s2 then clipboard_text_cancel s2
           else s2\<lparr>ct_next_report := now + 5000\<rparr>
      else s)"

subsection \<open>Reception\<close>

text \<open>The invariant: text beyond what has been received is blank, a complete text is intact and
  typable, and a key is down only while it can still be released.\<close>

definition typable :: "bytes \<Rightarrow> bool" where
  "typable t \<longleftrightarrow> list_all (\<lambda>b. clipboard_ascii_key b \<noteq> None) t"

definition clipboard_ok :: "clipboard_text \<Rightarrow> bool" where
  "clipboard_ok s \<longleftrightarrow> length (ct_text s) = 1024 \<and> ct_length s \<le> 1024 \<and> ct_received s \<le> ct_length s
     \<and> (ct_down s \<longrightarrow> ct_phase s = CLIPBOARD_TYPING \<or> ct_phase s = CLIPBOARD_RELEASING)
     \<and> (ct_phase s = CLIPBOARD_RELEASING \<longrightarrow> ct_down s)
     \<and> (ct_phase s \<in> {CLIPBOARD_IDLE, CLIPBOARD_RELEASING} \<longrightarrow> ct_text s = replicate 1024 0 \<and> ct_length s = 0 \<and> ct_index s = 0)
     \<and> (ct_phase s \<in> {CLIPBOARD_READY, CLIPBOARD_TYPING} \<longrightarrow> ct_index s < ct_length s \<and> ct_received s = ct_length s
          \<and> clipboard_crc32 (take (ct_length s) (ct_text s)) = ct_expected_crc s \<and> typable (take (ct_length s) (ct_text s)))
     \<and> (ct_phase s = CLIPBOARD_RECEIVING \<longrightarrow> ct_index s = 0 \<and> ct_length s > 0)
     \<and> (ct_phase s = CLIPBOARD_IDLE \<longrightarrow> ct_received s = 0)"

lemma cancel_ok: "clipboard_ok (clipboard_text_cancel s)"
  by (simp add: clipboard_ok_def clipboard_text_cancel_def clipboard_blank_def)

lemma begin_ok: "clipboard_ok s \<Longrightarrow> clipboard_ok (snd (clipboard_text_begin s st n crc now))"
  by (auto simp: clipboard_text_begin_def cancel_ok) (auto simp: clipboard_ok_def)

lemma append_ok: "clipboard_ok s \<Longrightarrow> clipboard_ok (snd (clipboard_text_append s off d now))"
  by (auto simp: clipboard_text_append_def cancel_ok) (auto simp: clipboard_ok_def)

lemma commit_ok: "clipboard_ok s \<Longrightarrow> clipboard_ok (snd (clipboard_text_commit s now))"
  by (auto simp: clipboard_text_commit_def cancel_ok Let_def) (auto simp: clipboard_ok_def typable_def)

lemma release_ok: "clipboard_ok s \<Longrightarrow> clipboard_ok (clipboard_text_release s)"
  by (simp add: clipboard_ok_def clipboard_text_release_def)

lemma tick_ok: "clipboard_ok s \<Longrightarrow> clipboard_ok (clipboard_text_tick s now)"
  by (simp add: clipboard_text_tick_def cancel_ok)

lemma report_ok: "clipboard_ok s \<Longrightarrow> clipboard_ok (snd (clipboard_text_report s now))"
proof -
  assume "clipboard_ok s"
  then have "clipboard_ok (clipboard_text_tick s now)" by (rule tick_ok)
  then show ?thesis by (auto simp: clipboard_text_report_def Let_def) (auto simp: clipboard_ok_def)
qed

lemma accepted_ok: "clipboard_ok s \<Longrightarrow> clipboard_ok (clipboard_text_accepted s now)"
  by (auto simp: clipboard_text_accepted_def cancel_ok Let_def) (auto simp: clipboard_ok_def)

text \<open>Every call of the component as one machine; \<open>Send\<close> offers a report to USB, which takes it or not.\<close>

datatype clip_event = Begin bool nat u32 u64 | Append nat bytes u64 | Commit u64 | Release | Cancel
  | Tick u64 | Send u64 bool

definition clip_send :: "clipboard_text \<Rightarrow> u64 \<times> bool \<Rightarrow> bytes option \<times> clipboard_text" where
  "clip_send s e = (case clipboard_text_report s (fst e) of
       (Some r, s1) \<Rightarrow> if snd e then (Some r, clipboard_text_accepted s1 (fst e)) else (None, s1)
     | (None, s1) \<Rightarrow> (None, s1))"

fun clip_step :: "clipboard_text \<Rightarrow> clip_event \<Rightarrow> bytes option \<times> clipboard_text" where
  "clip_step s (Begin st n crc now) = (None, snd (clipboard_text_begin s st n crc now))"
| "clip_step s (Append off d now) = (None, snd (clipboard_text_append s off d now))"
| "clip_step s (Commit now) = (None, snd (clipboard_text_commit s now))"
| "clip_step s Release = (None, clipboard_text_release s)"
| "clip_step s Cancel = (None, clipboard_text_cancel s)"
| "clip_step s (Tick now) = (None, clipboard_text_tick s now)"
| "clip_step s (Send now ok) = clip_send s (now, ok)"

lemma send_ok: "clipboard_ok s \<Longrightarrow> clipboard_ok (snd (clip_send s e))"
  using report_ok [of s "fst e"] accepted_ok [of "snd (clipboard_text_report s (fst e))" "fst e"]
  by (auto simp: clip_send_def split: prod.splits option.splits)

interpretation clip_machine: machine clip_step clipboard_ok "\<lambda>_. True"
proof
  fix s i r s'
  assume inv: "clipboard_ok s" and st: "clip_step s i = (r, s')"
  have "clipboard_ok (snd (clip_step s i))"
    by (cases i) (simp_all add: inv begin_ok append_ok commit_ok release_ok cancel_ok tick_ok send_ok)
  then show "clipboard_ok s'" by (simp add: st)
qed

subsection \<open>Typing\<close>

definition keystrokes :: "bytes \<Rightarrow> bytes list" where
  "keystrokes t = concat (map (\<lambda>b. [key_down (the (clipboard_ascii_key b)), all_up]) t)"

lemma length_keystrokes [simp]: "length (keystrokes t) = 2 * length t"
  by (induction t) (simp_all add: keystrokes_def)

lemma nth_keystrokes:
  "i < length t \<Longrightarrow> keystrokes t ! (2 * i) = key_down (the (clipboard_ascii_key (t ! i)))"
  "i < length t \<Longrightarrow> keystrokes t ! (2 * i + 1) = all_up"
proof (induction t arbitrary: i)
  case (Cons b t)
  { case 1 then show ?case using Cons.IH(1) by (cases i) (simp_all add: keystrokes_def) }
  { case 2 then show ?case using Cons.IH(2) by (cases i) (simp_all add: keystrokes_def) }
qed simp_all

text \<open>The state after \<open>k\<close> reports of the text \<open>t\<close> have been sent.\<close>

definition typed_pos :: "bytes \<Rightarrow> clipboard_text \<Rightarrow> nat \<Rightarrow> bool" where
  "typed_pos t s k \<longleftrightarrow>
     (case ct_phase s of
        CLIPBOARD_IDLE \<Rightarrow> k \<le> 2 * length t
      | CLIPBOARD_RECEIVING \<Rightarrow> False
      | CLIPBOARD_READY \<Rightarrow> take (ct_length s) (ct_text s) = t \<and> ct_length s \<le> length (ct_text s) \<and> k = 0
          \<and> \<not> ct_down s \<and> ct_index s = 0 \<and> t \<noteq> []
      | CLIPBOARD_TYPING \<Rightarrow> take (ct_length s) (ct_text s) = t \<and> ct_length s \<le> length (ct_text s)
          \<and> k = 2 * ct_index s + of_bool (ct_down s) \<and> ct_index s < length t
      | CLIPBOARD_RELEASING \<Rightarrow> ct_down s \<and> odd k \<and> k < 2 * length t)"

lemma typed_tick: "typed_pos t s k \<Longrightarrow> typed_pos t (clipboard_text_tick s now) k"
  by (auto simp: typed_pos_def clipboard_text_tick_def clipboard_text_cancel_def clipboard_blank_def
      split: clipboard_phase.splits)

lemma typed_cases:
  assumes "typed_pos t s k" "list_all (\<lambda>b. clipboard_ascii_key b \<noteq> None) t"
  shows "case clipboard_text_report s now of
      (None, s1) \<Rightarrow> typed_pos t s1 k
    | (Some r, s1) \<Rightarrow> typed_pos t s1 k \<and> k < 2 * length t \<and> r = keystrokes t ! k
        \<and> typed_pos t (clipboard_text_accepted s1 now) (Suc k)"
proof -
  let ?s = "clipboard_text_tick s now"
  have tick: "typed_pos t ?s k" by (rule typed_tick [OF assms(1)])
  define s1 where "s1 = (if ct_phase ?s = CLIPBOARD_READY \<and> ct_released ?s
      then ?s\<lparr>ct_phase := CLIPBOARD_TYPING, ct_deadline := now + 15000000\<rparr> else ?s)"
  have s1: "typed_pos t s1 k" using tick by (auto simp: s1_def typed_pos_def split: clipboard_phase.splits)
  show ?thesis
  proof (cases "ct_phase ?s = CLIPBOARD_RELEASING")
    case True
    then have k: "odd k" "k < 2 * length t" using tick by (simp_all add: typed_pos_def)
    then obtain i where i: "k = 2 * i + 1" by (auto elim: oddE)
    then have "keystrokes t ! k = all_up" using k nth_keystrokes(2) [of i t] by simp
    moreover have "typed_pos t (clipboard_text_accepted ?s now) (Suc k)"
      using True k by (simp add: typed_pos_def clipboard_text_accepted_def clipboard_text_cancel_def clipboard_blank_def)
    ultimately show ?thesis using True tick k by (simp add: clipboard_text_report_def Let_def)
  next
    case not_rel: False
    show ?thesis
    proof (cases "ct_phase s1 = CLIPBOARD_TYPING \<and> \<not> now < ct_next_report s1")
      case False
      then show ?thesis using s1 not_rel by (auto simp: clipboard_text_report_def Let_def s1_def [symmetric])
    next
      case True
      let ?i = "ct_index s1"
      from s1 True have t: "take (ct_length s1) (ct_text s1) = t" "ct_length s1 = length t"
        "k = 2 * ?i + of_bool (ct_down s1)" "?i < length t" by (auto simp: typed_pos_def)
      have ch: "ct_text s1 ! ?i = t ! ?i" using t by (metis nth_take)
      have key: "clipboard_ascii_key (t ! ?i) \<noteq> None" using assms(2) t(4) by (auto simp: list_all_length)
      have r: "clipboard_text_report s now = (Some (keystrokes t ! k), s1)"
        using not_rel True t ch key nth_keystrokes [OF t(4)]
        by (auto simp: clipboard_text_report_def Let_def s1_def [symmetric])
      have "typed_pos t (clipboard_text_accepted s1 now) (Suc k)"
        using True t s1 by (auto simp: typed_pos_def clipboard_text_accepted_def clipboard_text_cancel_def
            clipboard_blank_def Let_def)
      then show ?thesis using r s1 t by (simp add: of_bool_def)
    qed
  qed
qed

lemma typed_send:
  assumes "typed_pos t s k" "list_all (\<lambda>b. clipboard_ascii_key b \<noteq> None) t" "clip_send s e = (r, s')"
  shows "r = None \<and> typed_pos t s' k \<or> r = Some (keystrokes t ! k) \<and> k < 2 * length t \<and> typed_pos t s' (Suc k)"
  using typed_cases [OF assms(1,2), of "fst e"] assms(3)
  by (auto simp: clip_send_def split: prod.splits option.splits if_splits)

lemma typed_run:
  assumes "typed_pos t s k" "list_all (\<lambda>b. clipboard_ascii_key b \<noteq> None) t" "run_machine clip_send s es = (rs, s')"
  shows "\<exists>n. map the (filter (\<lambda>r. r \<noteq> None) rs) = take n (drop k (keystrokes t)) \<and> k + n \<le> 2 * length t \<and> typed_pos t s' (k + n)"
  using assms
proof (induction es arbitrary: s k rs)
  case Nil
  then have "k \<le> 2 * length t" by (auto simp: typed_pos_def split: clipboard_phase.splits)
  with Nil show ?case by (intro exI [of _ 0]) simp
next
  case (Cons e es)
  obtain r s1 where st: "clip_send s e = (r, s1)" by force
  obtain rs' where run: "run_machine clip_send s1 es = (rs', s')" "rs = r # rs'"
    using Cons.prems(3) st by (auto split: prod.splits)
  from typed_send [OF Cons.prems(1,2) st] show ?case
  proof (elim disjE conjE)
    assume "r = None" "typed_pos t s1 k"
    with Cons.IH [OF this(2) Cons.prems(2) run(1)] run(2) show ?thesis by simp
  next
    assume r: "r = Some (keystrokes t ! k)" "k < 2 * length t" "typed_pos t s1 (Suc k)"
    from Cons.IH [OF this(3) Cons.prems(2) run(1)] obtain n where
      n: "map the (filter (\<lambda>r. r \<noteq> None) rs') = take n (drop (Suc k) (keystrokes t))" "Suc k + n \<le> 2 * length t"
      "typed_pos t s' (Suc k + n)" by blast
    have "drop k (keystrokes t) = keystrokes t ! k # drop (Suc k) (keystrokes t)"
      using r(2) by (simp add: Cons_nth_drop_Suc)
    then show ?thesis using n r(1) run(2) by (intro exI [of _ "Suc n"]) simp
  qed
qed

subsection \<open>Typing to the end\<close>

text \<open>How many of the offered reports go out: those that USB takes, offered 5 ms or more after the last one it took.\<close>

fun usb_takes :: "u64 \<Rightarrow> clip_event list \<Rightarrow> nat" where
  "usb_takes next_report [] = 0"
| "usb_takes next_report (Send now ok # es) =
     (if ok \<and> next_report \<le> now then Suc (usb_takes (now + 5000) es) else usb_takes next_report es)"
| "usb_takes next_report (_ # es) = usb_takes next_report es"

text \<open>Passes before the time \<open>limit\<close> that offer a report or only tick.\<close>

fun polls_before :: "u64 \<Rightarrow> clip_event \<Rightarrow> bool" where
  "polls_before limit (Tick now) \<longleftrightarrow> now < limit"
| "polls_before limit (Send now ok) \<longleftrightarrow> now < limit"
| "polls_before limit _ \<longleftrightarrow> False"

definition typing_at :: "bytes \<Rightarrow> u64 \<Rightarrow> nat \<Rightarrow> u64 \<Rightarrow> clipboard_text \<Rightarrow> bool" where
  "typing_at t limit k next_report s \<longleftrightarrow> ct_phase s = CLIPBOARD_TYPING \<and> take (ct_length s) (ct_text s) = t
     \<and> ct_length s \<le> length (ct_text s) \<and> k = 2 * ct_index s + of_bool (ct_down s) \<and> ct_index s < length t
     \<and> ct_next_report s = next_report \<and> ct_deadline s = limit"

lemma typing_at_less: "typing_at t limit k n s \<Longrightarrow> k < 2 * length t"
  by (cases "ct_down s") (auto simp: typing_at_def)

lemma typing_tick: "typing_at t limit k n s \<Longrightarrow> now < limit \<Longrightarrow> clipboard_text_tick s now = s"
  by (simp add: typing_at_def clipboard_text_tick_def)

lemma typing_report:
  assumes at: "typing_at t limit k n s" and keys: "typable t" and now: "now < limit"
  shows "clipboard_text_report s now = (if n \<le> now then Some (keystrokes t ! k) else None, s)"
proof -
  have pos: "typed_pos t s k" using at by (simp add: typed_pos_def typing_at_def)
  have rep: "fst (clipboard_text_report s now) \<noteq> None \<longleftrightarrow> n \<le> now" "snd (clipboard_text_report s now) = s"
    using at unfolding clipboard_text_report_def typing_tick [OF at now] typing_at_def by (auto simp: Let_def)
  then show ?thesis
    using typed_cases [OF pos keys [unfolded typable_def], of now] by (cases "clipboard_text_report s now") auto
qed

lemma typing_accepted:
  assumes "typing_at t limit k n s"
  shows "if Suc k = 2 * length t then clipboard_text_accepted s now = clipboard_blank
    else typing_at t limit (Suc k) (now + 5000) (clipboard_text_accepted s now)"
proof -
  have "ct_length s = length t" using assms by (auto simp: typing_at_def)
  then show ?thesis
    using assms unfolding typing_at_def
    by (cases "ct_down s") (auto simp: clipboard_text_accepted_def clipboard_text_cancel_def clipboard_blank_def Let_def)
qed

lemma blank_polls:
  "\<forall>e\<in>set es. polls_before limit e \<Longrightarrow> run_machine clip_step clipboard_blank es = (map (\<lambda>_. None) es, clipboard_blank)"
proof (induction es)
  case (Cons e es)
  have "clip_step clipboard_blank e = (None, clipboard_blank)"
    using Cons.prems by (cases e)
      (simp_all add: clip_send_def clipboard_text_report_def clipboard_text_tick_def clipboard_blank_def)
  then show ?case using Cons by simp
qed simp

lemma typing_run:
  assumes "typing_at t limit k n s" "typable t" "\<forall>e\<in>set es. polls_before limit e" "2 * length t - k \<le> usb_takes n es"
  shows "\<exists>rs. run_machine clip_step s es = (rs, clipboard_blank) \<and> filter (\<lambda>r. r \<noteq> None) rs = map Some (drop k (keystrokes t))"
  using assms(1,3,4)
proof (induction es arbitrary: k n s)
  case Nil
  then show ?case using typing_at_less [of t limit k n s] by simp
next
  case (Cons e es)
  note at = Cons.prems(1)
  have k: "k < 2 * length t" by (rule typing_at_less [OF at])
  have rest: "\<forall>e\<in>set es. polls_before limit e" using Cons.prems(2) by simp
  show ?case
  proof (cases e)
    case (Tick now)
    then have "clip_step s e = (None, s)" using typing_tick [OF at, of now] Cons.prems(2) by simp
    moreover obtain rs where "run_machine clip_step s es = (rs, clipboard_blank)"
        "filter (\<lambda>r. r \<noteq> None) rs = map Some (drop k (keystrokes t))"
      using Cons.IH [OF at rest] Cons.prems(3) Tick by auto
    ultimately show ?thesis by simp
  next
    case (Send now ok)
    then have now: "now < limit" using Cons.prems(2) by simp
    note rep = typing_report [OF at assms(2) now]
    show ?thesis
    proof (cases "ok \<and> n \<le> now")
      case False
      then have "clip_step s e = (None, s)" by (auto simp: Send clip_send_def rep)
      moreover obtain rs where "run_machine clip_step s es = (rs, clipboard_blank)"
          "filter (\<lambda>r. r \<noteq> None) rs = map Some (drop k (keystrokes t))"
        using Cons.IH [OF at rest] Cons.prems(3) False Send by auto
      ultimately show ?thesis by simp
    next
      case True
      let ?s = "clipboard_text_accepted s now"
      have st: "clip_step s e = (Some (keystrokes t ! k), ?s)" using True by (simp add: Send clip_send_def rep)
      have dr: "drop k (keystrokes t) = keystrokes t ! k # drop (Suc k) (keystrokes t)"
        using k by (simp add: Cons_nth_drop_Suc)
      have "\<exists>rs. run_machine clip_step ?s es = (rs, clipboard_blank) \<and>
          filter (\<lambda>r. r \<noteq> None) rs = map Some (drop (Suc k) (keystrokes t))"
      proof (cases "Suc k = 2 * length t")
        case True
        then show ?thesis using typing_accepted [OF at, of now] blank_polls [OF rest] by simp
      next
        case more: False
        then have "typing_at t limit (Suc k) (now + 5000) ?s" using typing_accepted [OF at, of now] by simp
        then show ?thesis using Cons.IH [OF _ rest, of "Suc k" "now + 5000" ?s] Cons.prems(3) True Send by simp
      qed
      then obtain rs where "run_machine clip_step ?s es = (rs, clipboard_blank)"
          "filter (\<lambda>r. r \<noteq> None) rs = map Some (drop (Suc k) (keystrokes t))" by blast
      then show ?thesis using st dr by simp
    qed
  qed (use Cons.prems(2) in simp_all)
qed

text \<open>The first pass after the release starts the typing.\<close>

lemma ready_typing:
  assumes "ct_phase s = CLIPBOARD_READY" "ct_released s" "take (ct_length s) (ct_text s) = t"
    "ct_length s \<le> length (ct_text s)" "ct_index s = 0" "\<not> ct_down s" "t \<noteq> []" "ct_next_report s = 0"
    "b < ct_deadline s" "b < b + 15000000"
  defines "s1 \<equiv> s\<lparr>ct_phase := CLIPBOARD_TYPING, ct_deadline := b + 15000000\<rparr>"
  shows "clip_step s (Send b ok) = clip_step s1 (Send b ok)" "typing_at t (b + 15000000) 0 0 s1"
proof -
  have "clipboard_text_tick s b = s" "clipboard_text_tick s1 b = s1"
    using assms(1,9,10) by (simp_all add: clipboard_text_tick_def s1_def not_le)
  then have "clipboard_text_report s b = clipboard_text_report s1 b"
    using assms(1,2) unfolding clipboard_text_report_def by (simp add: s1_def Let_def)
  then show "clip_step s (Send b ok) = clip_step s1 (Send b ok)" by (simp add: clip_send_def)
  show "typing_at t (b + 15000000) 0 0 s1" using assms(1-8) by (simp add: typing_at_def s1_def)
qed

subsection \<open>Reception in fragments\<close>

text \<open>A transfer: the beginning at \<open>t0\<close>, fragments that each come at a time of its own after some passes, the commit at
  \<open>tc\<close>, and at some later point the release of the keys that are still held.\<close>

primrec fragment_events :: "nat \<Rightarrow> (clip_event list \<times> bytes \<times> u64) list \<Rightarrow> clip_event list" where
  "fragment_events off [] = []"
| "fragment_events off (f # fs) =
     fst f @ Append off (fst (snd f)) (snd (snd f)) # fragment_events (off + length (fst (snd f))) fs"

abbreviation fragment_text :: "(clip_event list \<times> bytes \<times> u64) list \<Rightarrow> bytes" where
  "fragment_text fs \<equiv> concat (map (\<lambda>f. fst (snd f)) fs)"

definition transfer_events ::
    "u64 \<Rightarrow> (clip_event list \<times> bytes \<times> u64) list \<Rightarrow> clip_event list \<Rightarrow> u64 \<Rightarrow> clip_event list \<Rightarrow> clip_event list" where
  "transfer_events t0 fs ws tc vs =
     Begin True (length (fragment_text fs)) (clipboard_crc32 (fragment_text fs)) t0
       # fragment_events 0 fs @ ws @ Commit tc # vs @ [Release]"

text \<open>Everything of the transfer happens before the time \<open>limit\<close>.\<close>

definition transfer_before ::
    "u64 \<Rightarrow> (clip_event list \<times> bytes \<times> u64) list \<Rightarrow> clip_event list \<Rightarrow> u64 \<Rightarrow> clip_event list \<Rightarrow> bool" where
  "transfer_before limit fs ws tc vs \<longleftrightarrow> (\<forall>(w, d, t)\<in>set fs. t < limit \<and> (\<forall>e\<in>set w. polls_before limit e))
     \<and> (\<forall>e\<in>set ws. polls_before limit e) \<and> tc < limit \<and> (\<forall>e\<in>set vs. polls_before limit e)"

lemma blit_twice:
  "off + length d + length e \<le> length p \<Longrightarrow> blit (blit p off d) (off + length d) e = blit p off (d @ e)"
  by (simp add: blit_def add_ac)

lemma waiting_polls:
  assumes "ct_phase s = CLIPBOARD_RECEIVING \<or> ct_phase s = CLIPBOARD_READY \<and> \<not> ct_released s"
    "\<forall>e\<in>set w. polls_before (ct_deadline s) e"
  shows "run_machine clip_step s w = (map (\<lambda>_. None) w, s)"
  using assms(2)
proof (induction w)
  case (Cons e w)
  have "clip_step s e = (None, s)"
    using assms(1) Cons.prems by (cases e) (auto simp: clip_send_def clipboard_text_report_def clipboard_text_tick_def)
  then show ?case using Cons by simp
qed simp

lemma fragments_run:
  assumes "ct_phase s = CLIPBOARD_RECEIVING"
    "\<forall>(w, d, t)\<in>set fs. d \<noteq> [] \<and> t < ct_deadline s \<and> (\<forall>e\<in>set w. polls_before (ct_deadline s) e)"
    "ct_received s + length (fragment_text fs) \<le> ct_length s" "ct_length s \<le> length (ct_text s)"
  shows "run_machine clip_step s (fragment_events (ct_received s) fs) =
    (map (\<lambda>_. None) (fragment_events (ct_received s) fs),
     s\<lparr>ct_text := blit (ct_text s) (ct_received s) (fragment_text fs),
       ct_received := ct_received s + length (fragment_text fs)\<rparr>)"
  using assms
proof (induction fs arbitrary: s)
  case Nil
  then show ?case by (simp add: blit_def)
next
  case (Cons f fs)
  obtain w d t where f: "f = (w, d, t)" by (metis prod_cases3)
  let ?s = "s\<lparr>ct_text := blit (ct_text s) (ct_received s) d, ct_received := ct_received s + length d\<rparr>"
  have w: "run_machine clip_step s w = (map (\<lambda>_. None) w, s)"
    using Cons.prems(1,2) by (intro waiting_polls) (simp_all add: f)
  have st: "clip_step s (Append (ct_received s) d t) = (None, ?s)"
    using Cons.prems by (auto simp: f clipboard_text_append_def not_le)
  have "run_machine clip_step ?s (fragment_events (ct_received ?s) fs) =
      (map (\<lambda>_. None) (fragment_events (ct_received ?s) fs),
       ?s\<lparr>ct_text := blit (ct_text ?s) (ct_received ?s) (fragment_text fs),
         ct_received := ct_received ?s + length (fragment_text fs)\<rparr>)"
    using Cons.prems by (intro Cons.IH) (auto simp: f)
  then show ?case using w st Cons.prems blit_twice [of "ct_received s" d "fragment_text fs" "ct_text s"]
    by (simp add: f run_machine_append add.assoc)
qed

lemma transfer_ready:
  assumes "fragment_text fs = t" "t \<noteq> []" "\<forall>f\<in>set fs. fst (snd f) \<noteq> []" "length t \<le> 1024" "typable t"
    "transfer_before (t0 + 3000000) fs ws tc vs"
  shows "run_machine clip_step clipboard_blank (transfer_events t0 fs ws tc vs) =
    (map (\<lambda>_. None) (transfer_events t0 fs ws tc vs), clipboard_blank\<lparr>ct_text := blit (replicate 1024 0) 0 t,
       ct_length := length t, ct_received := length t, ct_expected_crc := clipboard_crc32 t,
       ct_deadline := t0 + 3000000, ct_phase := CLIPBOARD_READY, ct_released := True\<rparr>)"
proof -
  let ?s1 = "clipboard_blank\<lparr>ct_length := length t, ct_expected_crc := clipboard_crc32 t,
      ct_deadline := t0 + 3000000, ct_phase := CLIPBOARD_RECEIVING\<rparr>"
  let ?s2 = "?s1\<lparr>ct_text := blit (replicate 1024 0) 0 t, ct_received := length t\<rparr>"
  let ?s3 = "?s2\<lparr>ct_phase := CLIPBOARD_READY\<rparr>"
  have b: "clip_step clipboard_blank (Begin True (length t) (clipboard_crc32 t) t0) = (None, ?s1)"
    using assms(2,4) by (auto simp: clipboard_text_begin_def clipboard_blank_def)
  have parts: "\<forall>(w, d, t)\<in>set fs. d \<noteq> [] \<and> t < t0 + 3000000 \<and> (\<forall>e\<in>set w. polls_before (t0 + 3000000) e)"
    using assms(3,6) by (auto simp: transfer_before_def)
  have a: "run_machine clip_step ?s1 (fragment_events 0 fs) = (map (\<lambda>_. None) (fragment_events 0 fs), ?s2)"
    using fragments_run [of ?s1 fs] assms(1,4) parts by (simp add: clipboard_blank_def)
  have w: "run_machine clip_step ?s2 ws = (map (\<lambda>_. None) ws, ?s2)"
    and v: "run_machine clip_step ?s3 vs = (map (\<lambda>_. None) vs, ?s3)"
    using assms(6) by (intro waiting_polls; simp add: transfer_before_def clipboard_blank_def)+
  have body: "take (length t) (blit (replicate 1024 0) 0 t) = t" by (simp add: blit_def)
  have c: "clip_step ?s2 (Commit tc) = (None, ?s3)"
    using assms(5,6)
    by (simp add: clipboard_text_commit_def Let_def body typable_def clipboard_blank_def transfer_before_def)
  show ?thesis unfolding transfer_events_def assms(1)
    using b a w c v by (simp add: run_machine_append clipboard_text_release_def)
qed

subsection \<open>Properties\<close>

text \<open>
  C35. Clipboard text is typed exactly. A typable text of at most 1024 bytes arrives in any fragmentation with its
  CRC; the fragments and the commit come at any times within the response deadline of three seconds, with any passes
  between them, and the keys are released after the commit. If the first pass after the release still comes within that
  deadline, and in the 15 seconds after this pass USB takes two reports for each character, each offered 5 ms or more
  after the one before, with any refusals and idle passes between, then the reports it takes are, for each character, one
  key-down report of its US key and one all-up report, in order, and the state ends blank: no text left in memory.
\<close>

theorem clipboard_types_text:
  assumes "fragment_text fs = t" "t \<noteq> []" "\<forall>f\<in>set fs. fst (snd f) \<noteq> []" "length t \<le> 1024" "typable t"
    and "transfer_before (t0 + 3000000) fs ws tc vs"
    and "b < t0 + 3000000" "b < b + 15000000" "\<forall>e\<in>set es. polls_before (b + 15000000) e"
    and "2 * length t \<le> usb_takes 0 (Send b ok # es)"
  shows "\<exists>rs. run_machine clip_step clipboard_blank (transfer_events t0 fs ws tc vs @ Send b ok # es) = (rs, clipboard_blank)
    \<and> filter (\<lambda>r. r \<noteq> None) rs = map Some (concat (map (\<lambda>c. [key_down (the (clipboard_ascii_key c)), all_up]) t))"
proof -
  let ?s = "clipboard_blank\<lparr>ct_text := blit (replicate 1024 0) 0 t, ct_length := length t, ct_received := length t,
      ct_expected_crc := clipboard_crc32 t, ct_deadline := t0 + 3000000, ct_phase := CLIPBOARD_READY, ct_released := True\<rparr>"
  let ?s1 = "?s\<lparr>ct_phase := CLIPBOARD_TYPING, ct_deadline := b + 15000000\<rparr>"
  have first: "clip_step ?s (Send b ok) = clip_step ?s1 (Send b ok)" "typing_at t (b + 15000000) 0 0 ?s1"
    by (rule ready_typing; use assms in \<open>simp add: clipboard_blank_def blit_def\<close>)+
  have "run_machine clip_step ?s (Send b ok # es) = run_machine clip_step ?s1 (Send b ok # es)"
    by (simp add: first(1) del: clip_step.simps)
  moreover obtain rs where "run_machine clip_step ?s1 (Send b ok # es) = (rs, clipboard_blank)"
      "filter (\<lambda>r. r \<noteq> None) rs = map Some (keystrokes t)"
    using typing_run [OF first(2) assms(5), of "Send b ok # es"] assms(8-10) by auto
  ultimately show ?thesis
    using transfer_ready [OF assms(1-6)] unfolding run_machine_append
    by (simp add: keystrokes_def del: run_machine.simps)
qed

text \<open>\<open>Hi!\<close> in two fragments, a second apart; USB refuses one report.\<close>

definition sample_fragments :: "(clip_event list \<times> bytes \<times> u64) list" where
  "sample_fragments = [([], [72], 1000000), ([Tick 1500000], [105, 33], 2000000)]"

definition sample_offers :: "clip_event list" where
  "sample_offers = map (\<lambda>j. Send (2800000 + of_nat (5000 * j)) (j \<noteq> 3)) [1..<7]"

theorem clipboard_types_text_witness:
  "snd (run_machine clip_step clipboard_blank (transfer_events 0 sample_fragments [] 2500000 [Send 2600000 True]
     @ Send 2800000 True # sample_offers)) = clipboard_blank"
proof -
  have ty: "typable [72, 105, 33]" by code_simp
  have offers: "sample_offers = [Send 2805000 True, Send 2810000 True, Send 2815000 False, Send 2820000 True, Send 2825000 True,
      Send 2830000 True]"
    by (simp add: sample_offers_def upt_rec)
  have "\<exists>rs. run_machine clip_step clipboard_blank (transfer_events 0 sample_fragments [] 2500000 [Send 2600000 True]
      @ Send 2800000 True # sample_offers) = (rs, clipboard_blank)
    \<and> filter (\<lambda>r. r \<noteq> None) rs = map Some (concat (map (\<lambda>c. [key_down (the (clipboard_ascii_key c)), all_up]) [72, 105, 33]))"
    by (rule clipboard_types_text)
      (use ty in \<open>simp_all add: sample_fragments_def offers transfer_before_def\<close>)
  then show ?thesis by (metis snd_conv)
qed

text \<open>
  Whatever happens to the timing, USB refusals or the deadline, only the committed text is typed
  and no key stays down: from a state that holds a committed text, the reports USB takes form a prefix
  of the text's keystrokes, and if the typing has ended the number of reports taken is even unless the
  release of the last key is still the only report offered.
\<close>

theorem clipboard_typing_safe:
  assumes "clipboard_ok s" "ct_phase s = CLIPBOARD_READY" "\<not> ct_down s" "ct_index s = 0"
    and "t = take (ct_length s) (ct_text s)" "run_machine clip_send s es = (rs, s')"
  shows "\<exists>n\<le>2 * length t. map the (filter (\<lambda>r. r \<noteq> None) rs) = take n (keystrokes t)
    \<and> (ct_phase s' = CLIPBOARD_RELEASING \<longrightarrow> odd n \<and> fst (clipboard_text_report s' now) = Some all_up)"
proof -
  have len: "ct_length s \<le> length (ct_text s)" and ne: "t \<noteq> []" and keys: "typable t"
    using assms(1,2,5) by (auto simp: clipboard_ok_def)
  have "typed_pos t s 0" using assms(2-5) len ne by (simp add: typed_pos_def)
  from typed_run [OF this _ assms(6)] keys obtain n where
    n: "map the (filter (\<lambda>r. r \<noteq> None) rs) = take n (keystrokes t)" "n \<le> 2 * length t" "typed_pos t s' n"
    by (auto simp: typable_def)
  moreover have "odd n \<and> fst (clipboard_text_report s' now) = Some all_up" if "ct_phase s' = CLIPBOARD_RELEASING"
    using n(3) that by (simp add: typed_pos_def clipboard_text_report_def clipboard_text_tick_def Let_def)
  ultimately show ?thesis by blast
qed

theorem clipboard_typing_safe_witness:
  "let s = snd (run_machine clip_step clipboard_blank (transfer_events 0 [([], [72], 0)] [] 0 [])) in
   \<exists>n\<le>2. map the (filter (\<lambda>r. r \<noteq> None) (fst (run_machine clip_send s [(0, True)]))) = take n (keystrokes [72])"
proof -
  let ?s = "snd (run_machine clip_step clipboard_blank (transfer_events 0 [([], [72], 0)] [] 0 []))"
  have ty: "typable [72]" by code_simp
  have s: "?s = clipboard_blank\<lparr>ct_text := blit (replicate 1024 0) 0 [72], ct_length := 1, ct_received := 1,
      ct_expected_crc := clipboard_crc32 [72], ct_deadline := 3000000, ct_phase := CLIPBOARD_READY, ct_released := True\<rparr>"
    using transfer_ready [of "[([], [72], 0)]" "[72]" 0 "[]" 0 "[]"] ty by (simp add: transfer_before_def)
  have "clipboard_ok ?s" unfolding s using ty by (simp add: clipboard_ok_def clipboard_blank_def blit_def)
  from clipboard_typing_safe [OF this, of "[72]" "[(0, True)]"
      "fst (run_machine clip_send ?s [(0, True)])" "snd (run_machine clip_send ?s [(0, True)])"]
  show ?thesis unfolding s by (auto simp: clipboard_blank_def blit_def Let_def simp del: run_machine.simps)
qed

end
