(* ===== verification/Hid_Report.thy ===== *)
theory Hid_Report
  imports Prelude
begin

text \<open>
  What the firmware knows about the reports of one USB interface (hid\_parser.h) and how it reads them
  (hid\_report.c, and the keyboard slots of keyboard.c): values at any bit position, the layout of
  keyboards, mice and control devices filled in from the descriptor element by element, and the
  decoding of keyboard reports in boot, array and bitmap form. Pointers into the interface become
  indices; a report is the list of the bytes received, its length being the C \<open>len\<close>.
\<close>

unbundle bit_operations_syntax

subsection \<open>Data\<close>

datatype data_type_e = DATA | CONSTANT | ARRAY | VARIABLE | ABSOLUTE_DATA | RELATIVE_DATA
  | NO_WRAP | WRAP | LINEAR | NONLINEAR

record report_val =
  rv_offset :: u16
  rv_offset_idx :: u16
  rv_size :: u16
  rv_usage_min :: u32
  rv_usage_max :: u32
  rv_item_type :: data_type_e
  rv_data_type :: data_type_e
  rv_report_id :: u8
  rv_global_usage :: u16
  rv_usage_page :: u16
  rv_usage :: u16

text \<open>The usage bounds are C \<open>int32_t\<close>: they are compared as signed numbers.\<close>

record mouse =
  ms_buttons :: report_val
  ms_move_x :: report_val
  ms_move_y :: report_val
  ms_wheel :: report_val
  ms_pan :: report_val
  ms_report_id :: u8
  ms_is_found :: bool
  ms_uses_report_id :: bool

record nkro_block =
  nb_offset :: u16
  nb_size :: u16
  nb_usage_min :: u16
  nb_usage_max :: u16

datatype receiver_id = REPORT_RECEIVER_NONE | REPORT_RECEIVER_MOUSE | REPORT_RECEIVER_KEYBOARD
  | REPORT_RECEIVER_CONSUMER | REPORT_RECEIVER_SYSTEM

record keyboard =
  kb_modifier :: report_val
  kb_nkro :: "nkro_block list"
  kb_cc_array :: "u16 list"
  kb_sys_array :: "u16 list"
  kb_key_array :: "bool list"
  kb_report_id :: u8
  kb_key_array_idx :: u8
  kb_nkro_count :: nat
  kb_nkro_bits :: u16
  kb_uses_report_id :: bool
  kb_is_found :: bool
  kb_is_nkro :: bool

record report =
  rp_val :: report_val
  rp_report_id :: u8
  rp_is_variable :: bool
  rp_is_array :: bool

record hid_interface =
  if_keyboards :: "keyboard list"
  if_num_keyboards :: nat
  if_mouse :: mouse
  if_consumer :: report
  if_system :: report
  if_report_handler :: "receiver_id list"
  if_protocol :: u8
  if_uses_report_id :: bool
  if_descriptor_invalid :: bool
  if_mouse_buttons :: u8

record hid_keyboard_report =
  kr_modifier :: u8
  kr_reserved :: u8
  kr_keycode :: bytes

text \<open>The zeroed structures that \<open>memset\<close> leaves.\<close>

definition zero_val :: report_val where
  "zero_val = \<lparr>rv_offset = 0, rv_offset_idx = 0, rv_size = 0, rv_usage_min = 0, rv_usage_max = 0,
     rv_item_type = DATA, rv_data_type = DATA, rv_report_id = 0, rv_global_usage = 0, rv_usage_page = 0,
     rv_usage = 0\<rparr>"

definition zero_keyboard :: keyboard where
  "zero_keyboard = \<lparr>kb_modifier = zero_val,
     kb_nkro = replicate 4 \<lparr>nb_offset = 0, nb_size = 0, nb_usage_min = 0, nb_usage_max = 0\<rparr>,
     kb_cc_array = replicate 16 0, kb_sys_array = replicate 8 0, kb_key_array = replicate 32 False,
     kb_report_id = 0, kb_key_array_idx = 0, kb_nkro_count = 0, kb_nkro_bits = 0,
     kb_uses_report_id = False, kb_is_found = False, kb_is_nkro = False\<rparr>"

definition zero_report :: report where
  "zero_report = \<lparr>rp_val = zero_val, rp_report_id = 0, rp_is_variable = False, rp_is_array = False\<rparr>"

definition zero_interface :: hid_interface where
  "zero_interface = \<lparr>if_keyboards = replicate 5 zero_keyboard, if_num_keyboards = 0,
     if_mouse = \<lparr>ms_buttons = zero_val, ms_move_x = zero_val, ms_move_y = zero_val, ms_wheel = zero_val,
       ms_pan = zero_val, ms_report_id = 0, ms_is_found = False, ms_uses_report_id = False\<rparr>,
     if_consumer = zero_report, if_system = zero_report,
     if_report_handler = replicate 256 REPORT_RECEIVER_NONE, if_protocol = 0, if_uses_report_id = False,
     if_descriptor_invalid = False, if_mouse_buttons = 0\<rparr>"

definition zero_kbd_report :: hid_keyboard_report where
  "zero_kbd_report = \<lparr>kr_modifier = 0, kr_reserved = 0, kr_keycode = replicate 6 0\<rparr>"

text \<open>Writing an element of a C array. Out of range the C program would overwrite something else; here the whole
  array is lost then, so that an array that keeps its length was never written outside its bounds.\<close>

definition poke :: "'a list \<Rightarrow> nat \<Rightarrow> 'a \<Rightarrow> 'a list" where
  "poke xs i x = (if i < length xs then xs[i := x] else [])"

lemma poke_inside [simp]: "i < length xs \<Longrightarrow> poke xs i x = xs[i := x]"
  by (simp add: poke_def)

subsection \<open>Reading a value out of a report\<close>

definition gather :: "bytes \<Rightarrow> nat \<Rightarrow> nat \<Rightarrow> u64" where
  "gather rep first c = foldl (\<lambda>g i. g OR push_bit (8 * i) (ucast (rep ! (first + i)))) 0 [0..<c]"

definition get_report_value :: "bytes \<Rightarrow> report_val \<Rightarrow> u32" where
  "get_report_value rep val =
     (let len = length rep; offset = unat (rv_offset val); size = unat (rv_size val) in
      if len = 0 \<or> size = 0 \<or> size > 32 \<or> offset + size > len * 8 then 0
      else
        let shift = offset mod 8;
            first = offset div 8;
            c = (shift + size + 7) div 8;
            gathered = gather rep first c;
            mask = drop_bit (32 - size) 0xffffffff :: u32;
            result = ucast (drop_bit shift gathered) AND mask
        in if bit result (size - 1) then result OR NOT mask else result)"

subsection \<open>Keyboard slots\<close>

definition find_keyboard :: "hid_interface \<Rightarrow> u8 \<Rightarrow> nat option" where
  "find_keyboard iface report_id =
     find (\<lambda>i. kb_report_id (if_keyboards iface ! i) = report_id) [0..<min (if_num_keyboards iface) 5]"

definition get_keyboard :: "hid_interface \<Rightarrow> u8 \<Rightarrow> nat" where
  "get_keyboard iface report_id =
     (if \<not> if_uses_report_id iface then 0
      else case find_keyboard iface report_id of Some i \<Rightarrow> i | None \<Rightarrow> 0)"

definition get_or_add_keyboard :: "hid_interface \<Rightarrow> u8 \<Rightarrow> nat option \<times> hid_interface" where
  "get_or_add_keyboard iface report_id =
     (if \<not> if_uses_report_id iface then (Some 0, iface)
      else case find_keyboard iface report_id of
        Some i \<Rightarrow> (Some i, iface)
      | None \<Rightarrow>
          if if_num_keyboards iface \<ge> 5 then (None, iface)
          else
            let i = if_num_keyboards iface;
                kb = (if_keyboards iface ! i)\<lparr>kb_report_id := report_id, kb_uses_report_id := True\<rparr>
            in (Some i, iface\<lparr>if_keyboards := poke (if_keyboards iface) i kb\<rparr>))"

definition update_keyboard :: "nat \<Rightarrow> (keyboard \<Rightarrow> keyboard) \<Rightarrow> hid_interface \<Rightarrow> hid_interface" where
  "update_keyboard i f iface =
     iface\<lparr>if_keyboards := (if_keyboards iface)[i := f (if_keyboards iface ! i)]\<rparr>"

subsection \<open>Handlers of descriptor elements\<close>

definition handle_consumer_control_values :: "report_val \<Rightarrow> hid_interface \<Rightarrow> hid_interface" where
  "handle_consumer_control_values src iface =
     (let k = get_keyboard iface (rv_report_id src) in
      if unat (rv_offset src) \<ge> 16 then iface
      else
        let iface = (if rv_data_type src = VARIABLE
              then (update_keyboard k (\<lambda>kb. kb\<lparr>kb_cc_array :=
                      poke (kb_cc_array kb) (unat (rv_offset src)) (rv_usage src)\<rparr>) iface)
                   \<lparr>if_consumer := (if_consumer iface)\<lparr>rp_is_variable := True\<rparr>\<rparr>
              else iface)
        in iface\<lparr>if_consumer := (if_consumer iface)\<lparr>rp_is_array :=
             rp_is_array (if_consumer iface) \<or> rv_data_type src = ARRAY\<rparr>\<rparr>)"

definition handle_system_control_values :: "report_val \<Rightarrow> hid_interface \<Rightarrow> hid_interface" where
  "handle_system_control_values src iface =
     (let k = get_keyboard iface (rv_report_id src) in
      if unat (rv_offset src) \<ge> 8 then iface
      else
        let iface = (if rv_data_type src = VARIABLE
              then (update_keyboard k (\<lambda>kb. kb\<lparr>kb_sys_array :=
                      poke (kb_sys_array kb) (unat (rv_offset src)) (rv_usage src)\<rparr>) iface)
                   \<lparr>if_system := (if_system iface)\<lparr>rp_is_variable := True\<rparr>\<rparr>
              else iface)
        in iface\<lparr>if_system := (if_system iface)\<lparr>rp_is_array :=
             rp_is_array (if_system iface) \<or> rv_data_type src = ARRAY\<rparr>\<rparr>)"

text \<open>The keyboard handler, split at its three steps: modifier, key bytes, bitmap blocks.\<close>

definition LEFT_CTRL :: int where
  "LEFT_CTRL = 0xE0"

definition covers_left_ctrl :: "report_val \<Rightarrow> bool" where
  "covers_left_ctrl src \<longleftrightarrow> LEFT_CTRL \<ge> sint (rv_usage_min src) \<and> LEFT_CTRL \<le> sint (rv_usage_max src)"

definition maps_usage_per_bit :: "report_val \<Rightarrow> bool" where
  "maps_usage_per_bit src \<longleftrightarrow> sint (rv_usage_max src) > sint (rv_usage_min src)
     \<and> rv_usage_max src - rv_usage_min src + 1 = ucast (rv_size src)"

definition note_modifier :: "report_val \<Rightarrow> keyboard \<Rightarrow> keyboard" where
  "note_modifier src kb =
     (if rv_size src \<le> 8 \<and> rv_data_type src = VARIABLE \<and> covers_left_ctrl src
      then kb\<lparr>kb_modifier := src\<rparr> else kb)"

definition note_key_byte :: "report_val \<Rightarrow> keyboard \<Rightarrow> keyboard" where
  "note_key_byte src kb =
     (if unat (rv_offset_idx src) < 32
      then kb\<lparr>kb_key_array := poke (kb_key_array kb) (unat (rv_offset_idx src)) (rv_data_type src = ARRAY)\<rparr>
      else kb)"

definition note_nkro :: "report_val \<Rightarrow> keyboard \<Rightarrow> keyboard" where
  "note_nkro src kb =
     (if maps_usage_per_bit src \<and> \<not> (rv_size src \<le> 8 \<and> covers_left_ctrl src) \<and> rv_data_type src = VARIABLE
         \<and> kb_nkro_count kb < 4
      then
        let blk = \<lparr>nb_offset = rv_offset src, nb_size = rv_size src,
                   nb_usage_min = ucast (rv_usage_min src), nb_usage_max = ucast (rv_usage_max src)\<rparr>;
            bits = kb_nkro_bits kb + rv_size src
        in kb\<lparr>kb_nkro := poke (kb_nkro kb) (kb_nkro_count kb) blk, kb_nkro_count := kb_nkro_count kb + 1,
              kb_nkro_bits := bits, kb_is_nkro := (bits > 32)\<rparr>
      else kb)"

definition handle_keyboard_descriptor_values :: "report_val \<Rightarrow> hid_interface \<Rightarrow> hid_interface" where
  "handle_keyboard_descriptor_values src iface =
     (if rv_item_type src = CONSTANT then iface
      else case get_or_add_keyboard iface (rv_report_id src) of
        (None, iface) \<Rightarrow> iface
      | (Some k, iface) \<Rightarrow>
          let iface = update_keyboard k (note_nkro src \<circ> note_key_byte src \<circ> note_modifier src) iface
          in if \<not> kb_is_found (if_keyboards iface ! k)
             then (update_keyboard k (\<lambda>kb. kb\<lparr>kb_is_found := True\<rparr>) iface)
                    \<lparr>if_num_keyboards := if_num_keyboards iface + 1\<rparr>
             else iface)"

definition handle_buttons :: "report_val \<Rightarrow> hid_interface \<Rightarrow> hid_interface" where
  "handle_buttons src iface =
     (let m = if_mouse iface in
      if rv_item_type src = CONSTANT
      then iface\<lparr>if_mouse := m\<lparr>ms_buttons := (ms_buttons m)\<lparr>rv_size := rv_size (ms_buttons m) + rv_size src\<rparr>\<rparr>\<rparr>
      else iface\<lparr>if_mouse := m\<lparr>ms_buttons := src, ms_is_found := True\<rparr>\<rparr>)"

text \<open>\<open>_store\<close>, with the destination given as the update of a field.\<close>

definition store_val :: "(report_val \<Rightarrow> hid_interface \<Rightarrow> hid_interface) \<Rightarrow> report_val \<Rightarrow> hid_interface \<Rightarrow> hid_interface" where
  "store_val set_dst src iface = (if rv_item_type src \<noteq> CONSTANT then set_dst src iface else iface)"

definition set_mouse :: "(mouse \<Rightarrow> mouse) \<Rightarrow> hid_interface \<Rightarrow> hid_interface" where
  "set_mouse f iface = iface\<lparr>if_mouse := f (if_mouse iface)\<rparr>"

definition get_mouse_id :: "u8 \<Rightarrow> hid_interface \<Rightarrow> hid_interface" where
  "get_mouse_id r iface = set_mouse (\<lambda>m. m\<lparr>ms_report_id := r\<rparr>) iface"

definition get_consumer_id :: "u8 \<Rightarrow> hid_interface \<Rightarrow> hid_interface" where
  "get_consumer_id r iface = iface\<lparr>if_consumer := (if_consumer iface)\<lparr>rp_report_id := r\<rparr>\<rparr>"

definition get_system_id :: "u8 \<Rightarrow> hid_interface \<Rightarrow> hid_interface" where
  "get_system_id r iface = iface\<lparr>if_system := (if_system iface)\<lparr>rp_report_id := r\<rparr>\<rparr>"

record usage_map =
  um_global_usage :: u16
  um_usage_page :: u16
  um_usage :: u16
  um_handler :: "report_val \<Rightarrow> hid_interface \<Rightarrow> hid_interface"
  um_receiver_id :: receiver_id
  um_set_id :: "u8 \<Rightarrow> hid_interface \<Rightarrow> hid_interface"

text \<open>The table of \<open>extract_data\<close>, in its order; usage 0 matches everything. Pages: 1 desktop, 7
  keyboard, 9 button, 12 consumer; the keyboard row has no \<open>get_id\<close>.\<close>

definition usage_table :: "usage_map list" where
  "usage_table =
    [\<lparr>um_global_usage = 2, um_usage_page = 9, um_usage = 0, um_handler = handle_buttons,
      um_receiver_id = REPORT_RECEIVER_MOUSE, um_set_id = get_mouse_id\<rparr>,
     \<lparr>um_global_usage = 2, um_usage_page = 1, um_usage = 0x30,
      um_handler = store_val (\<lambda>v. set_mouse (\<lambda>m. m\<lparr>ms_move_x := v\<rparr>)),
      um_receiver_id = REPORT_RECEIVER_MOUSE, um_set_id = get_mouse_id\<rparr>,
     \<lparr>um_global_usage = 2, um_usage_page = 1, um_usage = 0x31,
      um_handler = store_val (\<lambda>v. set_mouse (\<lambda>m. m\<lparr>ms_move_y := v\<rparr>)),
      um_receiver_id = REPORT_RECEIVER_MOUSE, um_set_id = get_mouse_id\<rparr>,
     \<lparr>um_global_usage = 2, um_usage_page = 1, um_usage = 0x38,
      um_handler = store_val (\<lambda>v. set_mouse (\<lambda>m. m\<lparr>ms_wheel := v\<rparr>)),
      um_receiver_id = REPORT_RECEIVER_MOUSE, um_set_id = get_mouse_id\<rparr>,
     \<lparr>um_global_usage = 2, um_usage_page = 12, um_usage = 0x238,
      um_handler = store_val (\<lambda>v. set_mouse (\<lambda>m. m\<lparr>ms_pan := v\<rparr>)),
      um_receiver_id = REPORT_RECEIVER_MOUSE, um_set_id = get_mouse_id\<rparr>,
     \<lparr>um_global_usage = 6, um_usage_page = 7, um_usage = 0, um_handler = handle_keyboard_descriptor_values,
      um_receiver_id = REPORT_RECEIVER_KEYBOARD, um_set_id = (\<lambda>r iface. iface)\<rparr>,
     \<lparr>um_global_usage = 1, um_usage_page = 12, um_usage = 0, um_handler = handle_consumer_control_values,
      um_receiver_id = REPORT_RECEIVER_CONSUMER, um_set_id = get_consumer_id\<rparr>,
     \<lparr>um_global_usage = 0x80, um_usage_page = 1, um_usage = 0,
      um_handler = store_val (\<lambda>v iface. iface\<lparr>if_system := (if_system iface)\<lparr>rp_val := v\<rparr>\<rparr>),
      um_receiver_id = REPORT_RECEIVER_SYSTEM, um_set_id = get_system_id\<rparr>]"

definition usage_matches :: "usage_map \<Rightarrow> report_val \<Rightarrow> bool" where
  "usage_matches hay val \<longleftrightarrow>
     (rv_global_usage val = um_global_usage hay \<or> um_global_usage hay = 0)
     \<and> (rv_usage val = um_usage hay \<or> um_usage hay = 0)
     \<and> (rv_usage_page val = um_usage_page hay \<or> um_usage_page hay = 0)"

definition extract_row :: "report_val \<Rightarrow> hid_interface \<Rightarrow> usage_map \<Rightarrow> hid_interface" where
  "extract_row val iface hay =
     (if \<not> usage_matches hay val then iface
      else
        let iface = um_handler hay val (um_set_id hay (rv_report_id val) iface);
            kb = if_keyboards iface ! get_keyboard iface (rv_report_id val)
        in if um_receiver_id hay = REPORT_RECEIVER_KEYBOARD
              \<and> (\<not> kb_is_found kb \<or> if_uses_report_id iface \<and> kb_report_id kb \<noteq> rv_report_id val)
           then iface
           else iface\<lparr>if_report_handler :=
                  poke (if_report_handler iface) (unat (rv_report_id val)) (um_receiver_id hay)\<rparr>)"

definition extract_data :: "hid_interface \<Rightarrow> report_val \<Rightarrow> hid_interface" where
  "extract_data iface val = foldl (extract_row val) iface usage_table"

subsection \<open>Reading keyboard reports\<close>

fun bit_variable_loop :: "nkro_block \<Rightarrow> bytes \<Rightarrow> nat \<Rightarrow> nat \<Rightarrow> nat \<Rightarrow> bytes" where
  "bit_variable_loop block raw bit_no 0 max_keys = []"
| "bit_variable_loop block raw bit_no (Suc rest) max_keys =
     (let j = unat (nb_offset block) + bit_no in
      if max_keys = 0 \<or> j div 8 \<ge> length raw then []
      else if bit (raw ! (j div 8)) (j mod 8)
      then ucast (nb_usage_min block + of_nat bit_no)
             # bit_variable_loop block raw (Suc bit_no) rest (max_keys - 1)
      else bit_variable_loop block raw (Suc bit_no) rest max_keys)"

text \<open>\<open>bit_variable_loop\<close> is the loop from \<open>bit_no\<close> with \<open>rest\<close> bits to go; the result is the part of
  \<open>dst\<close> that is written.\<close>

definition extract_bit_variable :: "nkro_block \<Rightarrow> bytes \<Rightarrow> nat \<Rightarrow> bytes" where
  "extract_bit_variable block raw max_keys = bit_variable_loop block raw 0 (unat (nb_size block)) max_keys"

type_synonym extraction = "int \<times> hid_keyboard_report"

definition extract_kbd_boot :: "bytes \<Rightarrow> hid_keyboard_report \<Rightarrow> extraction" where
  "extract_kbd_boot raw rep =
     (if length raw < 8 then (-1, rep)
      else
        let src = (if length raw = 9 then drop 1 raw else raw)
        in (8, \<lparr>kr_modifier = src ! 0, kr_reserved = src ! 1, kr_keycode = slice src 2 6\<rparr>))"

definition extract_kbd_other :: "bytes \<Rightarrow> hid_interface \<Rightarrow> hid_keyboard_report \<Rightarrow> extraction" where
  "extract_kbd_other raw iface rep =
     (if length raw \<le> (if if_uses_report_id iface then 1 else 0) then (-1, rep)
      else
        let kb = if_keyboards iface ! get_keyboard iface (raw ! 0);
            src = (if if_uses_report_id iface then drop 1 raw else raw);
            m = unat (rv_offset_idx (kb_modifier kb))
        in if m \<ge> length src then (-1, rep)
           else if \<exists>i\<in>set [0..<32]. kb_key_array kb ! i \<and> i \<ge> length src then (-1, rep)
           else
             let keys = take 6 (map ((!) src) (filter ((!) (kb_key_array kb)) [0..<32]))
             in (8, rep\<lparr>kr_modifier := src ! m, kr_keycode := blit (kr_keycode rep) 0 keys\<rparr>))"

fun nkro_blocks_loop :: "nkro_block list \<Rightarrow> bytes \<Rightarrow> bytes \<Rightarrow> bytes" where
  "nkro_blocks_loop [] src keys = keys"
| "nkro_blocks_loop (b # bs) src keys =
     (if length keys < 6
      then nkro_blocks_loop bs src (keys @ extract_bit_variable b src (6 - length keys))
      else keys)"

definition extract_kbd_nkro :: "bytes \<Rightarrow> hid_interface \<Rightarrow> hid_keyboard_report \<Rightarrow> extraction" where
  "extract_kbd_nkro raw iface rep =
     (if length raw \<le> (if if_uses_report_id iface then 1 else 0) then (-1, rep)
      else
        let kb = if_keyboards iface ! get_keyboard iface (raw ! 0);
            src = (if if_uses_report_id iface then drop 1 raw else raw);
            m = unat (rv_offset_idx (kb_modifier kb))
        in if kb_nkro_count kb = 0 then (-1, rep)
           else if rv_size (kb_modifier kb) \<noteq> 8 \<or> m \<ge> length src then (-1, rep)
           else
             let keys = nkro_blocks_loop (take (kb_nkro_count kb) (kb_nkro kb)) src []
             in (int (length keys), rep\<lparr>kr_modifier := src ! m, kr_keycode := blit (kr_keycode rep) 0 keys\<rparr>))"

definition extract_kbd_data :: "bytes \<Rightarrow> hid_interface \<Rightarrow> extraction" where
  "extract_kbd_data raw iface =
     (let rep = zero_kbd_report in
      if length raw \<le> (if if_uses_report_id iface then 1 else 0) then (-1, rep)
      else
        let kb = if_keyboards iface ! get_keyboard iface (raw ! 0) in
        if if_protocol iface = 0 then extract_kbd_boot raw rep
        else if if_uses_report_id iface \<and> (\<not> kb_is_found kb \<or> kb_report_id kb \<noteq> raw ! 0) then (-1, rep)
        else
          case (if kb_is_nkro kb then extract_kbd_nkro raw iface rep else (-1, rep)) of (ret, rep') \<Rightarrow>
            if ret \<ge> 0 then (ret, rep')
            else if \<not> if_uses_report_id iface \<and> (length raw = 8 \<or> length raw = 9)
            then extract_kbd_boot raw rep
            else extract_kbd_other raw iface rep)"

subsection \<open>Values at bit positions\<close>

lemma bit_gather:
  "bit (gather rep first c) n \<longleftrightarrow> n < 64 \<and> n div 8 < c \<and> bit (rep ! (first + n div 8)) (n mod 8)"
proof (induction c)
  case 0
  show ?case by (simp add: gather_def)
next
  case (Suc c)
  have g: "gather rep first (Suc c) = gather rep first c OR push_bit (8 * c) (ucast (rep ! (first + c)))"
    by (simp add: gather_def)
  have last: "bit (push_bit (8 * c) (ucast (rep ! (first + c)) :: u64)) n
    \<longleftrightarrow> n < 64 \<and> n div 8 = c \<and> bit (rep ! (first + n div 8)) (n mod 8)"
  proof (cases "n div 8 = c")
    case True
    then have "n mod 8 = n - 8 * c" "8 * c \<le> n" by (auto simp: modulo_nat_def)
    then show ?thesis using True by (auto simp: bit_simps)
  next
    case False
    have "\<not> bit (ucast (rep ! (first + c)) :: u64) (n - 8 * c)" if "8 * c \<le> n"
    proof -
      have "8 \<le> n - 8 * c" using that False by presburger
      then show ?thesis by (simp add: bit_simps)
    qed
    then show ?thesis using False by (auto simp: bit_simps)
  qed
  show ?case unfolding g bit_or_iff Suc last by (auto simp: less_Suc_eq)
qed

definition report_bit :: "bytes \<Rightarrow> nat \<Rightarrow> bool" where
  "report_bit rep j \<longleftrightarrow> bit (rep ! (j div 8)) (j mod 8)"

definition val_in_report :: "bytes \<Rightarrow> report_val \<Rightarrow> bool" where
  "val_in_report rep val \<longleftrightarrow> 0 < rv_size val \<and> rv_size val \<le> 32
     \<and> unat (rv_offset val) + unat (rv_size val) \<le> 8 * length rep"

lemma get_report_value_outside: "\<not> val_in_report rep val \<Longrightarrow> get_report_value rep val = 0"
  by (auto simp: val_in_report_def get_report_value_def Let_def word_le_nat_alt word_less_nat_alt
      not_less unat_eq_0)

lemma get_report_value_bit:
  assumes ok: "val_in_report rep val" and n: "n < 32"
  shows "bit (get_report_value rep val) n
    \<longleftrightarrow> report_bit rep (unat (rv_offset val) + min n (unat (rv_size val) - 1))"
proof -
  define off size where "off = unat (rv_offset val)" and "size = unat (rv_size val)"
  have sz: "0 < size" "size \<le> 32" "off + size \<le> 8 * length rep"
    using ok by (auto simp: val_in_report_def off_def size_def word_le_nat_alt word_less_nat_alt)
  define mask where "mask = (drop_bit (32 - size) 0xffffffff :: u32)"
  define res where "res = (ucast (drop_bit (off mod 8) (gather rep (off div 8) ((off mod 8 + size + 7) div 8))) AND mask :: u32)"
  have ones: "(0xffffffff :: u32) = - 1" by simp
  have m: "bit mask k \<longleftrightarrow> k < size" if "k < 32" for k
    using that sz by (auto simp: mask_def ones bit_drop_bit_eq bit_mask_iff)
  have r: "bit res k \<longleftrightarrow> k < size \<and> report_bit rep (off + k)" if k: "k < 32" for k
  proof -
    have "bit res k \<longleftrightarrow> k < size \<and> bit (gather rep (off div 8) ((off mod 8 + size + 7) div 8)) (off mod 8 + k)"
      using k m [OF k] by (auto simp: res_def bit_simps ac_simps)
    also have "\<dots> \<longleftrightarrow> k < size \<and> report_bit rep (off + k)"
    proof (cases "k < size")
      case True
      have "off div 8 + (off mod 8 + k) div 8 = (off + k) div 8" "(off mod 8 + k) mod 8 = (off + k) mod 8"
        by presburger+
      moreover have "(off mod 8 + k) div 8 < (off mod 8 + size + 7) div 8"
        using div_le_mono [of "off mod 8 + k + 8" "off mod 8 + size + 7" 8] True
        by (simp add: div_add_self2)
      moreover have "off mod 8 + k < 64" using k mod_less_divisor [of 8 off] by linarith
      ultimately show ?thesis by (simp add: bit_gather report_bit_def)
    qed simp
    finally show ?thesis .
  qed
  have ne: "rep \<noteq> []" using sz by auto
  have v: "get_report_value rep val = (if bit res (size - 1) then res OR NOT mask else res)"
    using sz ne unfolding get_report_value_def Let_def off_def [symmetric] size_def [symmetric]
    by (simp add: res_def mask_def mult.commute)
  show ?thesis
  proof (cases "n < size")
    case True
    then have "min n (size - 1) = n" by simp
    then show ?thesis using n r [OF n] m [OF n] True
      by (simp add: v bit_or_iff bit_not_iff flip: off_def size_def)
  next
    case False
    then have "min n (size - 1) = size - 1" by simp
    then show ?thesis using n r [OF n] m [OF n] False sz r [of "size - 1"]
      by (simp add: v bit_or_iff bit_not_iff flip: off_def size_def)
  qed
qed

lemma get_report_value_range:
  assumes ok: "val_in_report rep val"
  shows "- (2 ^ (unat (rv_size val) - 1)) \<le> sint (get_report_value rep val)"
    and "sint (get_report_value rep val) < 2 ^ (unat (rv_size val) - 1)"
proof -
  define s where "s = unat (rv_size val) - 1"
  have s: "s < 32" using ok by (auto simp: val_in_report_def s_def word_le_nat_alt word_less_nat_alt)
  have b: "bit (get_report_value rep val) k \<longleftrightarrow> report_bit rep (unat (rv_offset val) + min k s)" if "k < 32" for k
    using get_report_value_bit [OF ok that] by (simp add: s_def)
  have "signed_take_bit s (sint (get_report_value rep val)) = sint (get_report_value rep val)"
  proof (rule bit_eqI)
    fix n
    have "bit (sint (get_report_value rep val)) (min s n) \<longleftrightarrow> bit (get_report_value rep val) (min s n)"
      using s by (simp add: bit_sint_iff)
    moreover have "bit (sint (get_report_value rep val)) n \<longleftrightarrow> bit (get_report_value rep val) (min n 31)"
      by (cases "n < 32") (auto simp: bit_sint_iff min_def dest: bit_imp_le_length)
    moreover have "min (min s n) s = min (min n 31) s" using s by auto
    ultimately show "bit (signed_take_bit s (sint (get_report_value rep val))) n = bit (sint (get_report_value rep val)) n"
      using s b [of "min s n"] b [of "min n 31"] by (simp add: bit_signed_take_bit_iff min.commute)
  qed
  then show "- (2 ^ (unat (rv_size val) - 1)) \<le> sint (get_report_value rep val)"
    and "sint (get_report_value rep val) < 2 ^ (unat (rv_size val) - 1)"
    unfolding s_def [symmetric]
    by (metis signed_take_bit_int_greater_eq_minus_exp, metis signed_take_bit_int_less_exp)
qed

subsection \<open>Bitmap keyboards\<close>

text \<open>The usages whose bits are set in a block, in bit order, as far as the report reaches.\<close>

definition pressed_usages :: "bytes \<Rightarrow> nkro_block \<Rightarrow> bytes" where
  "pressed_usages raw b =
     map (\<lambda>i. ucast (nb_usage_min b + of_nat i))
       (filter (\<lambda>i. (unat (nb_offset b) + i) div 8 < length raw \<and> report_bit raw (unat (nb_offset b) + i))
         [0..<unat (nb_size b)])"

lemma bit_variable_loop_eq:
  "bit_variable_loop b raw start rest mx =
     take mx (map (\<lambda>i. ucast (nb_usage_min b + of_nat i))
       (filter (\<lambda>i. (unat (nb_offset b) + i) div 8 < length raw \<and> report_bit raw (unat (nb_offset b) + i))
         [start..<start + rest]))"
proof (induction rest arbitrary: start mx)
  case 0
  show ?case by simp
next
  case (Suc rest)
  have up: "[start..<start + Suc rest] = start # [Suc start..<Suc start + rest]"
    by (simp add: upt_rec [of start])
  show ?case
  proof (cases "mx = 0 \<or> (unat (nb_offset b) + start) div 8 \<ge> length raw")
    case True
    have none: "\<not> (unat (nb_offset b) + i) div 8 < length raw"
      if "length raw \<le> (unat (nb_offset b) + start) div 8" "start \<le> i" for i
      using that div_le_mono [of "unat (nb_offset b) + start" "unat (nb_offset b) + i" 8] by simp
    have "mx = 0 \<or> filter (\<lambda>i. (unat (nb_offset b) + i) div 8 < length raw \<and> report_bit raw (unat (nb_offset b) + i))
         [start..<start + Suc rest] = []"
      using True none by (auto simp: filter_empty_conv)
    then show ?thesis using True by (auto simp: Let_def)
  next
    case False
    then obtain m where m: "mx = Suc m" by (cases mx) auto
    show ?thesis using False Suc.IH [of "Suc start"] unfolding up
      by (simp add: m Let_def report_bit_def del: upt_Suc)
  qed
qed

lemma extract_bit_variable_eq: "extract_bit_variable b raw mx = take mx (pressed_usages raw b)"
  by (simp add: extract_bit_variable_def bit_variable_loop_eq pressed_usages_def)

lemma nkro_blocks_loop_eq:
  "length keys \<le> 6 \<Longrightarrow> nkro_blocks_loop bs raw keys = take 6 (keys @ concat (map (pressed_usages raw) bs))"
proof (induction bs arbitrary: keys)
  case (Cons b bs)
  show ?case
  proof (cases "length keys < 6")
    case True
    then have "nkro_blocks_loop (b # bs) raw keys
      = take 6 ((keys @ take (6 - length keys) (pressed_usages raw b)) @ concat (map (pressed_usages raw) bs))"
      using Cons.IH [of "keys @ extract_bit_variable b raw (6 - length keys)"]
      by (simp add: extract_bit_variable_eq)
    also have "\<dots> = take 6 (keys @ concat (map (pressed_usages raw) (b # bs)))"
      using True by (auto simp: min_def take_Cons' split: if_splits)
    finally show ?thesis .
  qed (use Cons.prems in simp)
qed simp

subsection \<open>The layout invariant\<close>

definition val_ok :: "report_val \<Rightarrow> bool" where
  "val_ok v \<longleftrightarrow> unat (rv_offset v) + unat (rv_size v) \<le> 65535 \<and> rv_offset_idx v = drop_bit 3 (rv_offset v)"

definition keyboard_ok :: "keyboard \<Rightarrow> bool" where
  "keyboard_ok kb \<longleftrightarrow> length (kb_nkro kb) = 4 \<and> length (kb_cc_array kb) = 16 \<and> length (kb_sys_array kb) = 8
     \<and> length (kb_key_array kb) = 32 \<and> kb_nkro_count kb \<le> 4 \<and> val_ok (kb_modifier kb)
     \<and> (\<forall>b\<in>set (kb_nkro kb). unat (nb_offset b) + unat (nb_size b) \<le> 65535)"

definition owns_report :: "hid_interface \<Rightarrow> u8 \<Rightarrow> bool" where
  "owns_report iface r \<longleftrightarrow> (\<exists>i<if_num_keyboards iface. kb_report_id (if_keyboards iface ! i) = r)"

definition slots_ok :: "hid_interface \<Rightarrow> bool" where
  "slots_ok iface \<longleftrightarrow> length (if_keyboards iface) = 5 \<and> if_num_keyboards iface \<le> 5
     \<and> (\<forall>kb\<in>set (if_keyboards iface). keyboard_ok kb)
     \<and> (\<forall>i<5. kb_is_found (if_keyboards iface ! i) \<longleftrightarrow> i < if_num_keyboards iface)
     \<and> (\<not> if_uses_report_id iface \<longrightarrow> if_num_keyboards iface \<le> 1 \<and> kb_report_id (if_keyboards iface ! 0) = 0)
     \<and> distinct (map kb_report_id (take (if_num_keyboards iface) (if_keyboards iface)))"

definition routes_ok :: "hid_interface \<Rightarrow> bool" where
  "routes_ok iface \<longleftrightarrow> length (if_report_handler iface) = 256
     \<and> (\<forall>r. if_report_handler iface ! unat r = REPORT_RECEIVER_KEYBOARD \<longrightarrow> owns_report iface r)"

lemmas layout_defs = slots_ok_def routes_ok_def owns_report_def keyboard_ok_def

lemma zero_interface_ok: "slots_ok (zero_interface\<lparr>if_protocol := p\<rparr>) \<and> routes_ok (zero_interface\<lparr>if_protocol := p\<rparr>)"
proof -
  have "replicate 256 REPORT_RECEIVER_NONE ! unat (r :: u8) = REPORT_RECEIVER_NONE" for r
    using unsigned_less [of r, where ?'a = nat] by (intro nth_replicate) simp
  then have "routes_ok (zero_interface\<lparr>if_protocol := p\<rparr>)"
    by (simp add: routes_ok_def zero_interface_def)
  moreover have "keyboard_ok zero_keyboard"
    by (auto simp: keyboard_ok_def zero_keyboard_def zero_val_def val_ok_def)
  then have "slots_ok (zero_interface\<lparr>if_protocol := p\<rparr>)"
    by (auto simp: slots_ok_def zero_interface_def zero_keyboard_def)
  ultimately show ?thesis by blast
qed

lemma find_keyboard_Some:
  assumes "slots_ok iface"
  shows "find_keyboard iface r = Some i \<longleftrightarrow>
    i < if_num_keyboards iface \<and> kb_report_id (if_keyboards iface ! i) = r"
proof -
  have n: "min (if_num_keyboards iface) 5 = if_num_keyboards iface" using assms by (simp add: slots_ok_def)
  have inj: "j = k" if "j < if_num_keyboards iface" "k < if_num_keyboards iface"
    "kb_report_id (if_keyboards iface ! j) = kb_report_id (if_keyboards iface ! k)" for j k
    using assms that by (auto simp: slots_ok_def distinct_conv_nth)
  show ?thesis unfolding find_keyboard_def n find_upt_Some by (metis inj less_irrefl less_trans)
qed

lemma find_keyboard_None:
  assumes "slots_ok iface"
  shows "find_keyboard iface r = None \<longleftrightarrow> \<not> owns_report iface r"
  using find_keyboard_Some [OF assms, of r] by (cases "find_keyboard iface r") (auto simp: owns_report_def)

lemma get_keyboard_less: "slots_ok iface \<Longrightarrow> get_keyboard iface r < 5"
  using find_keyboard_Some [of iface r]
  by (force simp: get_keyboard_def slots_ok_def split: option.splits)

lemma get_keyboard_owner:
  assumes "slots_ok iface" "owns_report iface r"
  shows "kb_is_found (if_keyboards iface ! get_keyboard iface r)
    \<and> kb_report_id (if_keyboards iface ! get_keyboard iface r) = r"
proof (cases "if_uses_report_id iface")
  case True
  then obtain i where i: "find_keyboard iface r = Some i"
    using find_keyboard_None [OF assms(1), of r] assms(2) by auto
  moreover from i have "i < if_num_keyboards iface" "kb_report_id (if_keyboards iface ! i) = r"
    using find_keyboard_Some [OF assms(1)] by blast+
  ultimately show ?thesis using True assms(1) by (auto simp: get_keyboard_def slots_ok_def)
next
  case False
  obtain i where i: "i < if_num_keyboards iface" "kb_report_id (if_keyboards iface ! i) = r"
    using assms(2) by (auto simp: owns_report_def)
  moreover have "i = 0" using i False assms(1) by (simp add: slots_ok_def)
  ultimately show ?thesis using False assms(1) by (simp add: get_keyboard_def slots_ok_def)
qed

subsection \<open>Descriptor elements keep the layout invariant\<close>

lemma update_keyboard_nth:
  assumes "\<And>kb. g (f kb) = g kb" "i < length (if_keyboards iface)"
  shows "g (if_keyboards (update_keyboard k f iface) ! i) = g (if_keyboards iface ! i)"
  using assms by (cases "i = k") (simp_all add: update_keyboard_def)

lemma update_keyboard_ids:
  assumes "\<And>kb. kb_report_id (f kb) = kb_report_id kb"
  shows "map kb_report_id ((if_keyboards (update_keyboard k f iface))) = map kb_report_id (if_keyboards iface)"
proof (rule nth_equalityI)
  show "length (map kb_report_id (if_keyboards (update_keyboard k f iface))) = length (map kb_report_id (if_keyboards iface))"
    by (simp add: update_keyboard_def)
  fix i
  assume "i < length (map kb_report_id (if_keyboards (update_keyboard k f iface)))"
  then have "i < length (if_keyboards iface)" "i < length (if_keyboards (update_keyboard k f iface))"
    by (simp_all add: update_keyboard_def)
  then show "map kb_report_id (if_keyboards (update_keyboard k f iface)) ! i = map kb_report_id (if_keyboards iface) ! i"
    using update_keyboard_nth [of kb_report_id f, OF assms] by simp
qed

lemma update_keyboard_slots:
  assumes ok: "slots_ok iface"
    and f: "\<And>kb. keyboard_ok kb \<Longrightarrow> keyboard_ok (f kb)" "\<And>kb. kb_report_id (f kb) = kb_report_id kb"
      "\<And>kb. kb_is_found (f kb) = kb_is_found kb"
  shows "slots_ok (update_keyboard k f iface)"
proof (cases "k < 5")
  case True
  have ids: "map kb_report_id (take n (if_keyboards (update_keyboard k f iface))) = map kb_report_id (take n (if_keyboards iface))" for n
    using update_keyboard_ids [of f k iface, OF f(2)] by (metis take_map)
  have kbs: "\<forall>kb\<in>set (if_keyboards (update_keyboard k f iface)). keyboard_ok kb"
    using ok True f(1) by (auto simp: update_keyboard_def slots_ok_def dest!: set_update_subset_insert [THEN subsetD])
  show ?thesis using ok ids kbs True f(2,3)
    by (simp add: slots_ok_def update_keyboard_def nth_list_update)
next
  case False
  then have "update_keyboard k f iface = iface" using ok by (simp add: update_keyboard_def slots_ok_def list_update_beyond)
  then show ?thesis using ok by simp
qed

lemma update_keyboard_owns:
  assumes "slots_ok iface" "\<And>kb. kb_report_id (f kb) = kb_report_id kb"
  shows "owns_report (update_keyboard k f iface) r = owns_report iface r"
proof -
  have n: "if_num_keyboards (update_keyboard k f iface) = if_num_keyboards iface" by (simp add: update_keyboard_def)
  have "kb_report_id (if_keyboards (update_keyboard k f iface) ! i) = kb_report_id (if_keyboards iface ! i)"
    if "i < if_num_keyboards iface" for i
    using that assms(1) by (intro update_keyboard_nth [of kb_report_id f, OF assms(2)]) (simp add: slots_ok_def)
  then show ?thesis by (auto simp: owns_report_def n)
qed

text \<open>What a handler or an ID setter of the table must keep.\<close>

definition layout_ok :: "hid_interface \<Rightarrow> bool" where
  "layout_ok iface \<longleftrightarrow> slots_ok iface \<and> routes_ok iface"

lemma layout_cong:
  assumes "if_keyboards i' = if_keyboards i" "if_num_keyboards i' = if_num_keyboards i"
    "if_report_handler i' = if_report_handler i" "if_uses_report_id i' = if_uses_report_id i"
  shows "layout_ok i' = layout_ok i"
  using assms by (simp add: layout_ok_def slots_ok_def routes_ok_def owns_report_def)

lemma layout_other_fields [simp]:
  "layout_ok (i\<lparr>if_consumer := c\<rparr>) = layout_ok i" "layout_ok (i\<lparr>if_system := c\<rparr>) = layout_ok i"
  "layout_ok (i\<lparr>if_mouse := m\<rparr>) = layout_ok i"
  by (rule layout_cong; simp)+

lemma handle_consumer_layout:
  assumes "layout_ok iface"
  shows "layout_ok (handle_consumer_control_values src iface)"
proof (cases "unat (rv_offset src) < 16")
  case True
  define k where "k = get_keyboard iface (rv_report_id src)"
  define f :: "keyboard \<Rightarrow> keyboard" where "f = (\<lambda>kb. kb\<lparr>kb_cc_array := poke (kb_cc_array kb) (unat (rv_offset src)) (rv_usage src)\<rparr>)"
  have f: "\<And>kb. keyboard_ok kb \<Longrightarrow> keyboard_ok (f kb)" "\<And>kb. kb_report_id (f kb) = kb_report_id kb"
    "\<And>kb. kb_is_found (f kb) = kb_is_found kb"
    using True by (auto simp: f_def keyboard_ok_def)
  have "layout_ok (update_keyboard k f iface)"
    using assms update_keyboard_slots [of iface f k, OF _ f] update_keyboard_owns [of iface f k, OF _ f(2)]
    by (simp add: layout_ok_def routes_ok_def) (simp add: update_keyboard_def)
  then show ?thesis using assms
    by (simp add: handle_consumer_control_values_def Let_def flip: k_def f_def)
qed (use assms in \<open>simp add: handle_consumer_control_values_def\<close>)

lemma note_nkro_ok:
  assumes "keyboard_ok kb" "val_ok src"
  shows "keyboard_ok (note_nkro src kb)"
  using assms by (auto simp: note_nkro_def keyboard_ok_def Let_def val_ok_def
      dest!: set_update_subset_insert [THEN subsetD])

lemma note_all_ok:
  assumes "keyboard_ok kb" "val_ok src"
  shows "keyboard_ok ((note_nkro src \<circ> note_key_byte src \<circ> note_modifier src) kb)"
proof -
  have "keyboard_ok (note_modifier src kb)" using assms by (simp add: note_modifier_def keyboard_ok_def)
  then have "keyboard_ok (note_key_byte src (note_modifier src kb))" by (simp add: note_key_byte_def keyboard_ok_def)
  then show ?thesis using note_nkro_ok [OF _ assms(2)] by simp
qed

lemma note_all_frame:
  "kb_report_id ((note_nkro src \<circ> note_key_byte src \<circ> note_modifier src) kb) = kb_report_id kb"
  "kb_is_found ((note_nkro src \<circ> note_key_byte src \<circ> note_modifier src) kb) = kb_is_found kb"
  by (simp_all add: note_nkro_def note_key_byte_def note_modifier_def Let_def)

text \<open>The slot the keyboard handler works on: an existing one with the element's report ID, or the next
  free one, which becomes found.\<close>

lemma get_or_add_keyboard_cases:
  assumes ok: "slots_ok iface" and g: "get_or_add_keyboard iface r = (Some k, i')"
    and r: "r \<noteq> 0 \<longrightarrow> if_uses_report_id iface"
  obtains (old) "k < if_num_keyboards iface" "kb_report_id (if_keyboards iface ! k) = r" "i' = iface"
  | (new) "k = if_num_keyboards iface" "k < 5" "\<not> owns_report iface r" "kb_report_id (if_keyboards i' ! k) = r"
      "i' = update_keyboard k (\<lambda>kb. if if_uses_report_id iface then kb\<lparr>kb_report_id := r, kb_uses_report_id := True\<rparr> else kb) iface"
proof (cases "if_uses_report_id iface")
  case True
  show ?thesis
  proof (cases "find_keyboard iface r")
    case None
    define i'' where "i'' = update_keyboard (if_num_keyboards iface)
      (\<lambda>kb. if if_uses_report_id iface then kb\<lparr>kb_report_id := r, kb_uses_report_id := True\<rparr> else kb) iface"
    have len: "length (if_keyboards iface) = 5" using ok by (simp add: slots_ok_def)
    have n: "if_num_keyboards iface < 5" "k = if_num_keyboards iface" "i' = i''"
      using None True g len by (auto simp: get_or_add_keyboard_def Let_def i''_def update_keyboard_def split: if_splits)
    have "kb_report_id (if_keyboards i'' ! if_num_keyboards iface) = r"
      using n(1) ok True by (simp add: i''_def update_keyboard_def slots_ok_def)
    then show ?thesis using n find_keyboard_None [OF ok, of r] None
      by (intro new) (simp_all add: i''_def)
  next
    case (Some i)
    then have "k = i" "i' = iface" using True g by (simp_all add: get_or_add_keyboard_def)
    then show ?thesis using Some find_keyboard_Some [OF ok, of r i] by (intro old) auto
  qed
next
  case False
  then have k: "k = 0" "i' = iface" "r = 0" using g r by (auto simp: get_or_add_keyboard_def)
  have n: "if_num_keyboards iface \<le> 1" "kb_report_id (if_keyboards iface ! 0) = 0"
    using ok False by (auto simp: slots_ok_def)
  show ?thesis
  proof (cases "if_num_keyboards iface")
    case 0
    then show ?thesis using k n False by (intro new) (auto simp: owns_report_def update_keyboard_def)
  next
    case Suc
    then show ?thesis using k n by (intro old) auto
  qed
qed

lemma add_slot:
  assumes ok: "slots_ok iface" and k: "k = if_num_keyboards iface" "k < 5"
    and kb: "keyboard_ok kb" "kb_is_found kb" "kb_report_id kb = r" "\<not> owns_report iface r"
    and u: "\<not> if_uses_report_id iface \<longrightarrow> r = 0"
    and i': "if_keyboards i' = (if_keyboards iface)[k := kb]" "if_num_keyboards i' = Suc k"
      "if_uses_report_id i' = if_uses_report_id iface"
  shows "slots_ok i'" and "owns_report i' x \<longleftrightarrow> owns_report iface x \<or> x = r"
proof -
  have len: "length (if_keyboards iface) = 5" using ok by (simp add: slots_ok_def)
  have t: "take (Suc k) ((if_keyboards iface)[k := kb]) = take k (if_keyboards iface) @ [kb]"
    using len k(2) by (simp add: take_Suc_conv_app_nth take_update_cancel)
  have d: "kb_report_id (if_keyboards iface ! i) \<noteq> r" if "i < k" for i
    using kb(4) that k(1) by (auto simp: owns_report_def)
  then have "r \<notin> set (map kb_report_id (take k (if_keyboards iface)))"
    using len k(2) by (fastforce simp: in_set_conv_nth)
  moreover have "distinct (map kb_report_id (take k (if_keyboards iface)))"
    using ok k(1) by (simp add: slots_ok_def)
  ultimately have dist: "distinct (map kb_report_id (take (Suc k) ((if_keyboards iface)[k := kb])))"
    using kb(3) by (simp add: t)
  have one: "if_num_keyboards i' \<le> 1 \<and> kb_report_id (if_keyboards i' ! 0) = 0" if "\<not> if_uses_report_id iface"
  proof -
    have "k = 0" using that ok kb(4) u k by (auto simp: slots_ok_def owns_report_def le_Suc_eq)
    then show ?thesis using i' kb(3) u that len by simp
  qed
  have kbs: "\<forall>b\<in>set ((if_keyboards iface)[k := kb]). keyboard_ok b"
    using ok kb(1) by (auto simp: slots_ok_def dest!: set_update_subset_insert [THEN subsetD])
  have found: "kb_is_found ((if_keyboards iface)[k := kb] ! i) \<longleftrightarrow> i < Suc k" if "i < 5" for i
    using ok that k kb(2) len by (cases "i = k") (auto simp: slots_ok_def)
  show "slots_ok i'" using dist one kbs found i' len k(2) by (auto simp: slots_ok_def)
  have new: "kb_report_id ((if_keyboards iface)[k := kb] ! k) = r"
    using kb(3) len k(2) by simp
  have old: "(\<exists>i<k. kb_report_id ((if_keyboards iface)[k := kb] ! i) = x)
    \<longleftrightarrow> (\<exists>i<k. kb_report_id (if_keyboards iface ! i) = x)"
    by auto
  show "owns_report i' x \<longleftrightarrow> owns_report iface x \<or> x = r"
    unfolding owns_report_def i'(1,2) k(1) [symmetric] Ex_less_Suc new old by blast
qed

lemma handle_keyboard_layout:
  assumes ok: "layout_ok iface" and v: "val_ok src" and r: "rv_report_id src \<noteq> 0 \<longrightarrow> if_uses_report_id iface"
  shows "layout_ok (handle_keyboard_descriptor_values src iface)"
proof (cases "rv_item_type src = CONSTANT")
  case True
  then show ?thesis using ok by (simp add: handle_keyboard_descriptor_values_def)
next
  case False
  define f where "f = note_nkro src \<circ> note_key_byte src \<circ> note_modifier src"
  note f = note_all_ok [OF _ v, folded f_def] note_all_frame [of src, folded f_def]
  have s: "slots_ok iface" using ok by (simp add: layout_ok_def)
  obtain k i' where g: "get_or_add_keyboard iface (rv_report_id src) = (k, i')" by fastforce
  show ?thesis
  proof (cases k)
    case None
    then have "i' = iface" using g by (auto simp: get_or_add_keyboard_def Let_def split: if_splits option.splits)
    then show ?thesis using None g False ok by (simp add: handle_keyboard_descriptor_values_def)
  next
    case (Some j)
    note h = handle_keyboard_descriptor_values_def [of src iface, folded f_def, unfolded g Some, simplified, unfolded Let_def]
    from s g [unfolded Some] r show ?thesis
    proof (cases rule: get_or_add_keyboard_cases)
      case old
      have u: "slots_ok (update_keyboard j f iface)" by (rule update_keyboard_slots [OF s f])
      moreover have "kb_is_found (if_keyboards (update_keyboard j f iface) ! j)"
        using u old(1) s by (simp add: slots_ok_def update_keyboard_def f)
      moreover have "owns_report (update_keyboard j f iface) x = owns_report iface x" for x
        by (rule update_keyboard_owns [OF s f(2)])
      ultimately show ?thesis using ok False old(3)
        by (simp add: h layout_ok_def routes_ok_def) (simp add: update_keyboard_def)
    next
      case new
      define x where "x = (if if_uses_report_id iface then (if_keyboards iface ! j)\<lparr>kb_report_id := rv_report_id src, kb_uses_report_id := True\<rparr> else if_keyboards iface ! j)"
      define b where "b = (f x)\<lparr>kb_is_found := True\<rparr>"
      define i'' where "i'' = iface\<lparr>if_keyboards := (if_keyboards iface)[j := b], if_num_keyboards := Suc j\<rparr>"
      have len: "length (if_keyboards iface) = 5" using s by (simp add: slots_ok_def)
      have i'x: "i' = iface\<lparr>if_keyboards := (if_keyboards iface)[j := x]\<rparr>"
        using new(5) by (simp add: update_keyboard_def x_def)
      have "keyboard_ok (if_keyboards iface ! j)" "\<not> kb_is_found (if_keyboards iface ! j)"
        using s new(1,2) by (auto simp: slots_ok_def)
      then have kok: "keyboard_ok x" "\<not> kb_is_found x" by (auto simp: x_def keyboard_ok_def)
      have "kb_report_id x = rv_report_id src" using new(2,4) len by (simp add: i'x)
      then have bok: "keyboard_ok b" "kb_is_found b" "kb_report_id b = rv_report_id src"
        using f(1) [OF kok(1)] f(2) by (simp_all add: b_def keyboard_ok_def)
      have e: "handle_keyboard_descriptor_values src iface = i''"
        using False new(1,2) len kok(2) f(3) by (simp add: h i'x update_keyboard_def i''_def b_def)
      have "\<not> if_uses_report_id iface \<longrightarrow> rv_report_id src = 0" using r by blast
      note a = add_slot [OF s new(1,2) bok new(3) this, of i'']
      have "slots_ok i''" "owns_report i'' y \<longleftrightarrow> owns_report iface y \<or> y = rv_report_id src" for y
        by (rule a; simp add: i''_def)+
      then show ?thesis using ok by (simp add: e layout_ok_def routes_ok_def i''_def)
    qed
  qed
qed

lemma set_handler_layout:
  assumes "layout_ok iface" "rid = REPORT_RECEIVER_KEYBOARD \<longrightarrow> owns_report iface r"
  shows "layout_ok (iface\<lparr>if_report_handler := poke (if_report_handler iface) (unat r) rid\<rparr>)"
proof -
  have s: "slots_ok (iface\<lparr>if_report_handler := h\<rparr>) = slots_ok iface" for h by (simp add: slots_ok_def)
  have o: "owns_report (iface\<lparr>if_report_handler := h\<rparr>) x = owns_report iface x" for h x by (simp add: owns_report_def)
  have l: "length (if_report_handler iface) = 256" using assms(1) by (simp add: layout_ok_def routes_ok_def)
  have "unat x < 256" for x :: u8 using unsigned_less [of x, where ?'a = nat] by simp
  then show ?thesis using assms l by (auto simp: layout_ok_def routes_ok_def s o nth_list_update simp flip: word_unat_eq_iff)
qed

lemma table_handlers_layout:
  assumes "hay \<in> set usage_table" "layout_ok iface" "val_ok val" "rv_report_id val \<noteq> 0 \<longrightarrow> if_uses_report_id iface"
  shows "layout_ok (um_handler hay val (um_set_id hay r iface))"
    and "if_uses_report_id (um_handler hay val (um_set_id hay r iface)) = if_uses_report_id iface"
proof -
  have u: "if_uses_report_id (handle_keyboard_descriptor_values val i) = if_uses_report_id i" for i
    by (simp add: handle_keyboard_descriptor_values_def get_or_add_keyboard_def Let_def update_keyboard_def
        split: option.splits)
  have c: "if_uses_report_id (handle_consumer_control_values val i) = if_uses_report_id i" for i
    by (simp add: handle_consumer_control_values_def Let_def update_keyboard_def)
  note rows = get_mouse_id_def get_consumer_id_def get_system_id_def set_mouse_def store_val_def
    handle_buttons_def Let_def
  show "layout_ok (um_handler hay val (um_set_id hay r iface))"
    using assms by (cases "rv_item_type val = CONSTANT")
      (auto simp: usage_table_def rows intro!: handle_keyboard_layout handle_consumer_layout)
  show "if_uses_report_id (um_handler hay val (um_set_id hay r iface)) = if_uses_report_id iface"
    using assms(1) by (cases "rv_item_type val = CONSTANT") (auto simp: usage_table_def rows u c)
qed

lemma table_handlers_frame:
  assumes "hay \<in> set usage_table"
  shows "if_protocol (um_handler hay val (um_set_id hay r iface)) = if_protocol iface
    \<and> if_descriptor_invalid (um_handler hay val (um_set_id hay r iface)) = if_descriptor_invalid iface"
proof -
  have u: "if_protocol (handle_keyboard_descriptor_values val i) = if_protocol i"
    "if_descriptor_invalid (handle_keyboard_descriptor_values val i) = if_descriptor_invalid i" for i
    by (simp_all add: handle_keyboard_descriptor_values_def get_or_add_keyboard_def Let_def update_keyboard_def
        split: option.splits)
  have c: "if_protocol (handle_consumer_control_values val i) = if_protocol i"
    "if_descriptor_invalid (handle_consumer_control_values val i) = if_descriptor_invalid i" for i
    by (simp_all add: handle_consumer_control_values_def Let_def update_keyboard_def)
  show ?thesis
    using assms by (cases "rv_item_type val = CONSTANT") (auto simp: usage_table_def get_mouse_id_def
        get_consumer_id_def get_system_id_def set_mouse_def store_val_def handle_buttons_def Let_def u c)
qed

lemma extract_data_frame:
  "if_protocol (extract_data iface val) = if_protocol iface
    \<and> if_descriptor_invalid (extract_data iface val) = if_descriptor_invalid iface"
proof -
  have "if_protocol (foldl (extract_row val) i rows) = if_protocol i
      \<and> if_descriptor_invalid (foldl (extract_row val) i rows) = if_descriptor_invalid i"
    if "set rows \<subseteq> set usage_table" for rows i
    using that by (induction rows arbitrary: i) (simp_all add: extract_row_def Let_def table_handlers_frame)
  then show ?thesis by (simp add: extract_data_def)
qed

lemma found_slot_owns:
  assumes "slots_ok iface" "kb_is_found (if_keyboards iface ! get_keyboard iface r)"
    "if_uses_report_id iface \<longrightarrow> kb_report_id (if_keyboards iface ! get_keyboard iface r) = r"
    "r \<noteq> 0 \<longrightarrow> if_uses_report_id iface"
  shows "owns_report iface r"
proof -
  let ?k = "get_keyboard iface r"
  have "?k < if_num_keyboards iface" using assms(1,2) get_keyboard_less [OF assms(1)] by (auto simp: slots_ok_def)
  moreover have "kb_report_id (if_keyboards iface ! ?k) = r"
    using assms by (cases "if_uses_report_id iface") (auto simp: get_keyboard_def slots_ok_def)
  ultimately show ?thesis by (auto simp: owns_report_def)
qed

lemma extract_row_layout:
  assumes "hay \<in> set usage_table" "layout_ok iface" "val_ok val" "rv_report_id val \<noteq> 0 \<longrightarrow> if_uses_report_id iface"
  shows "layout_ok (extract_row val iface hay)" "if_uses_report_id (extract_row val iface hay) = if_uses_report_id iface"
proof -
  define i' where "i' = um_handler hay val (um_set_id hay (rv_report_id val) iface)"
  note t = table_handlers_layout [OF assms, of "rv_report_id val", folded i'_def]
  have s: "slots_ok i'" using t(1) by (simp add: layout_ok_def)
  have r: "rv_report_id val \<noteq> 0 \<longrightarrow> if_uses_report_id i'" using assms(4) t(2) by simp
  show "layout_ok (extract_row val iface hay)"
    using assms(2) t(1) found_slot_owns [OF s _ _ r]
    unfolding extract_row_def Let_def i'_def [symmetric] by (auto intro!: set_handler_layout)
  show "if_uses_report_id (extract_row val iface hay) = if_uses_report_id iface"
    using t(2) unfolding extract_row_def Let_def i'_def [symmetric] by simp
qed

lemma extract_data_layout:
  assumes "layout_ok iface" "val_ok val" "rv_report_id val \<noteq> 0 \<longrightarrow> if_uses_report_id iface"
  shows "layout_ok (extract_data iface val) \<and> if_uses_report_id (extract_data iface val) = if_uses_report_id iface"
proof -
  have "layout_ok (foldl (extract_row val) i rows)
      \<and> if_uses_report_id (foldl (extract_row val) i rows) = if_uses_report_id i"
    if "set rows \<subseteq> set usage_table" "layout_ok i" "rv_report_id val \<noteq> 0 \<longrightarrow> if_uses_report_id i" for rows i
    using that
  proof (induction rows arbitrary: i)
    case (Cons hay rows)
    then have h: "hay \<in> set usage_table" by simp
    note e = extract_row_layout [OF h Cons.prems(2) assms(2) Cons.prems(3)]
    show ?case using Cons.IH [OF _ e(1)] Cons.prems e(2) by simp
  qed simp
  then show ?thesis using assms by (simp add: extract_data_def)
qed

subsection \<open>Recorded fields lie inside their reports\<close>

text \<open>\<open>ends\<close> gives the length in bits of each report, by its ID.\<close>

definition within :: "(u8 \<times> u32) list \<Rightarrow> u8 \<Rightarrow> nat \<Rightarrow> bool" where
  "within ends r n \<longleftrightarrow> (\<exists>t. (r, t) \<in> set ends \<and> n \<le> unat t)"

definition val_inside :: "(u8 \<times> u32) list \<Rightarrow> report_val \<Rightarrow> bool" where
  "val_inside ends v \<longleftrightarrow> rv_size v \<noteq> 0 \<and> val_ok v \<and> within ends (rv_report_id v) (unat (rv_offset v) + unat (rv_size v))"

definition val_inside_or_none :: "(u8 \<times> u32) list \<Rightarrow> report_val \<Rightarrow> bool" where
  "val_inside_or_none ends v \<longleftrightarrow> v = zero_val \<or> val_inside ends v"

text \<open>Modifiers, bitmap blocks and key bytes of a keyboard lie in the report of this keyboard; a free slot has none.\<close>

definition keyboard_inside :: "(u8 \<times> u32) list \<Rightarrow> keyboard \<Rightarrow> bool" where
  "keyboard_inside ends kb \<longleftrightarrow>
     (kb_modifier kb = zero_val \<or> val_inside ends (kb_modifier kb) \<and> rv_report_id (kb_modifier kb) = kb_report_id kb)
     \<and> (\<forall>b\<in>set (take (kb_nkro_count kb) (kb_nkro kb)). within ends (kb_report_id kb) (unat (nb_offset b) + unat (nb_size b)))
     \<and> (\<forall>i<32. kb_key_array kb ! i \<longrightarrow> within ends (kb_report_id kb) (8 * i + 1))
     \<and> (\<not> kb_is_found kb \<longrightarrow> kb_modifier kb = zero_val \<and> kb_nkro_count kb = 0 \<and> (\<forall>i<32. \<not> kb_key_array kb ! i))"

text \<open>Padding behind the buttons is added to the width of the button field, wherever it lies; only its start is bounded.\<close>

definition mouse_inside :: "(u8 \<times> u32) list \<Rightarrow> mouse \<Rightarrow> bool" where
  "mouse_inside ends m \<longleftrightarrow> val_inside_or_none ends (ms_move_x m) \<and> val_inside_or_none ends (ms_move_y m)
     \<and> val_inside_or_none ends (ms_wheel m) \<and> val_inside_or_none ends (ms_pan m)
     \<and> (ms_is_found m \<longrightarrow> within ends (rv_report_id (ms_buttons m)) (unat (rv_offset (ms_buttons m)) + 1))
     \<and> (\<not> ms_is_found m \<longrightarrow> rv_offset (ms_buttons m) = 0)"

definition fields_inside :: "(u8 \<times> u32) list \<Rightarrow> hid_interface \<Rightarrow> bool" where
  "fields_inside ends iface \<longleftrightarrow> (\<forall>kb\<in>set (if_keyboards iface). keyboard_inside ends kb) \<and> mouse_inside ends (if_mouse iface)
     \<and> val_inside_or_none ends (rp_val (if_system iface)) \<and> rp_val (if_consumer iface) = zero_val"

lemma fields_inside_zero: "fields_inside ends (zero_interface\<lparr>if_protocol := p\<rparr>)"
  by (simp add: fields_inside_def zero_interface_def keyboard_inside_def zero_keyboard_def mouse_inside_def
      val_inside_or_none_def zero_report_def zero_val_def)

lemma fields_inside_mono:
  assumes "fields_inside ends iface" "\<And>r n. within ends r n \<Longrightarrow> within ends' r n"
  shows "fields_inside ends' iface"
proof -
  have v: "val_inside ends v \<Longrightarrow> val_inside ends' v" for v using assms(2) by (simp add: val_inside_def)
  then have "val_inside_or_none ends v \<Longrightarrow> val_inside_or_none ends' v" for v by (auto simp: val_inside_or_none_def)
  moreover have "keyboard_inside ends kb \<Longrightarrow> keyboard_inside ends' kb" for kb
    using v assms(2) unfolding keyboard_inside_def by blast
  ultimately show ?thesis using assms unfolding fields_inside_def mouse_inside_def by blast
qed

lemma fields_inside_update:
  assumes "fields_inside ends iface" "keyboard_inside ends kb"
    and "if_keyboards i' = (if_keyboards iface)[k := kb]" "if_mouse i' = if_mouse iface" "if_system i' = if_system iface"
      "if_consumer i' = if_consumer iface"
  shows "fields_inside ends i'"
  using assms by (auto simp: fields_inside_def dest!: set_update_subset_insert [THEN subsetD])

lemma fields_inside_consumer:
  assumes "fields_inside ends iface"
  shows "fields_inside ends (handle_consumer_control_values src iface)"
proof -
  have "fields_inside ends (update_keyboard k (\<lambda>kb. kb\<lparr>kb_cc_array := g kb\<rparr>) iface)" for k g
  proof (cases "k < length (if_keyboards iface)")
    case True
    then have "keyboard_inside ends (if_keyboards iface ! k)" using assms by (simp add: fields_inside_def)
    then have "keyboard_inside ends ((if_keyboards iface ! k)\<lparr>kb_cc_array := g (if_keyboards iface ! k)\<rparr>)"
      by (simp add: keyboard_inside_def)
    then show ?thesis using assms by (elim fields_inside_update) (simp_all add: update_keyboard_def)
  qed (use assms in \<open>simp add: fields_inside_def update_keyboard_def list_update_beyond\<close>)
  then show ?thesis using assms
    by (auto simp: handle_consumer_control_values_def Let_def fields_inside_def update_keyboard_def)
qed

lemma noted_inside:
  assumes kb: "keyboard_ok kb" "keyboard_inside ends kb" and v: "val_inside ends src" "kb_report_id kb = rv_report_id src"
  shows "keyboard_inside ends (((note_nkro src \<circ> note_key_byte src \<circ> note_modifier src) kb)\<lparr>kb_is_found := True\<rparr>)"
proof -
  define n where "n = unat (rv_offset src)"
  have "unat (rv_offset_idx src) = n div 8" using v(1)
    by (simp add: val_inside_def val_ok_def n_def drop_bit_eq_div unat_div)
  moreover have "0 < unat (rv_size src)" using v(1) by (simp add: val_inside_def unat_gt_0)
  moreover have "8 * (n div 8) \<le> n" by simp
  ultimately have "8 * unat (rv_offset_idx src) + 1 \<le> n + unat (rv_size src)" by linarith
  then have byte: "within ends (kb_report_id kb) (8 * unat (rv_offset_idx src) + 1)"
    using v by (auto simp: val_inside_def within_def n_def)
  have blk: "within ends (kb_report_id kb) (unat (rv_offset src) + unat (rv_size src))"
    using v by (simp add: val_inside_def)
  have m: "keyboard_inside ends ((note_modifier src kb)\<lparr>kb_is_found := True\<rparr>)"
    using kb(2) v by (simp add: keyboard_inside_def note_modifier_def)
  have k: "keyboard_inside ends ((note_key_byte src (note_modifier src kb))\<lparr>kb_is_found := True\<rparr>)"
    using m byte kb(1) by (auto simp: keyboard_inside_def note_key_byte_def note_modifier_def keyboard_ok_def nth_list_update)
  have "keyboard_ok (note_key_byte src (note_modifier src kb))"
    using kb(1) v(1) by (simp add: keyboard_ok_def note_key_byte_def note_modifier_def val_inside_def)
  then show ?thesis using k blk
    by (auto simp: note_nkro_def Let_def keyboard_inside_def keyboard_ok_def take_Suc_conv_app_nth note_key_byte_def note_modifier_def)
qed

lemma fields_inside_keyboard:
  assumes ok: "layout_ok iface" and inside: "fields_inside ends iface" and v: "val_inside ends src"
    and r: "rv_report_id src \<noteq> 0 \<longrightarrow> if_uses_report_id iface"
  shows "fields_inside ends (handle_keyboard_descriptor_values src iface)"
proof (cases "rv_item_type src = CONSTANT")
  case False
  define f where "f = note_nkro src \<circ> note_key_byte src \<circ> note_modifier src"
  have s: "slots_ok iface" and len: "length (if_keyboards iface) = 5" using ok by (simp_all add: layout_ok_def slots_ok_def)
  obtain k i' where g: "get_or_add_keyboard iface (rv_report_id src) = (k, i')" by fastforce
  show ?thesis
  proof (cases k)
    case None
    then have "i' = iface" using g by (auto simp: get_or_add_keyboard_def Let_def split: if_splits option.splits)
    then show ?thesis using None g False inside by (simp add: handle_keyboard_descriptor_values_def)
  next
    case (Some j)
    have "j < 5 \<and> (\<exists>x. keyboard_ok x \<and> keyboard_inside ends x \<and> kb_report_id x = rv_report_id src
        \<and> i' = iface\<lparr>if_keyboards := (if_keyboards iface)[j := x]\<rparr>)"
      using s g [unfolded Some] r
    proof (cases rule: get_or_add_keyboard_cases)
      case old
      then have "j < 5" using s by (simp add: slots_ok_def)
      then show ?thesis using old s inside len
        by (intro conjI exI [of _ "if_keyboards iface ! j"]) (simp_all add: slots_ok_def fields_inside_def)
    next
      case new
      define x where "x = (if if_uses_report_id iface then (if_keyboards iface ! j)\<lparr>kb_report_id := rv_report_id src, kb_uses_report_id := True\<rparr> else if_keyboards iface ! j)"
      have i': "i' = iface\<lparr>if_keyboards := (if_keyboards iface)[j := x]\<rparr>" using new(5) by (simp add: update_keyboard_def x_def)
      have "keyboard_ok (if_keyboards iface ! j)" "\<not> kb_is_found (if_keyboards iface ! j)" "keyboard_inside ends (if_keyboards iface ! j)"
        using s new(1,2) len inside by (auto simp: slots_ok_def fields_inside_def)
      then have "keyboard_ok x" "keyboard_inside ends x" by (auto simp: x_def keyboard_ok_def keyboard_inside_def)
      moreover have "kb_report_id x = rv_report_id src" using new(2,4) len by (simp add: i')
      ultimately show ?thesis using new(2) i' by blast
    qed
    then obtain x where j: "j < 5" and x: "keyboard_ok x" "keyboard_inside ends x" "kb_report_id x = rv_report_id src"
      "i' = iface\<lparr>if_keyboards := (if_keyboards iface)[j := x]\<rparr>" by blast
    note n = noted_inside [OF x(1,2) v x(3), folded f_def]
    have "if_keyboards (handle_keyboard_descriptor_values src iface) = (if_keyboards iface)[j := (f x)\<lparr>kb_is_found := True\<rparr>]"
    proof -
      have found: "(f x)\<lparr>kb_is_found := True\<rparr> = f x" if "kb_is_found (f x)" using that by simp
      show ?thesis
      proof (cases "kb_is_found (f x)")
        case True
        show ?thesis unfolding found [OF True] using True False g Some j len
          by (simp add: handle_keyboard_descriptor_values_def x(4) Let_def update_keyboard_def flip: f_def)
      qed (use False g Some j len in \<open>simp add: handle_keyboard_descriptor_values_def x(4) Let_def update_keyboard_def flip: f_def\<close>)
    qed
    then show ?thesis using inside n
      by (elim fields_inside_update) (use False g Some in \<open>simp_all add: handle_keyboard_descriptor_values_def x(4) Let_def update_keyboard_def\<close>)
  qed
qed (use inside in \<open>simp add: handle_keyboard_descriptor_values_def\<close>)

lemma set_id_inside [simp]:
  "fields_inside ends (get_mouse_id r iface) = fields_inside ends iface"
  "fields_inside ends (get_consumer_id r iface) = fields_inside ends iface"
  "fields_inside ends (get_system_id r iface) = fields_inside ends iface"
  by (simp_all add: fields_inside_def get_mouse_id_def set_mouse_def get_consumer_id_def get_system_id_def mouse_inside_def)

lemma set_mouse_inside:
  "fields_inside ends iface \<Longrightarrow> mouse_inside ends (f (if_mouse iface)) \<Longrightarrow> fields_inside ends (set_mouse f iface)"
  by (simp add: fields_inside_def set_mouse_def)

lemma fields_inside_mouse:
  assumes "fields_inside ends iface" "val_inside_or_none ends val"
  shows "fields_inside ends (store_val (\<lambda>v. set_mouse (\<lambda>m. m\<lparr>ms_move_x := v\<rparr>)) val iface)"
    "fields_inside ends (store_val (\<lambda>v. set_mouse (\<lambda>m. m\<lparr>ms_move_y := v\<rparr>)) val iface)"
    "fields_inside ends (store_val (\<lambda>v. set_mouse (\<lambda>m. m\<lparr>ms_wheel := v\<rparr>)) val iface)"
    "fields_inside ends (store_val (\<lambda>v. set_mouse (\<lambda>m. m\<lparr>ms_pan := v\<rparr>)) val iface)"
    "fields_inside ends (store_val (\<lambda>v iface. iface\<lparr>if_system := (if_system iface)\<lparr>rp_val := v\<rparr>\<rparr>) val iface)"
  using assms by (simp_all add: store_val_def set_mouse_def fields_inside_def mouse_inside_def)

lemma fields_inside_buttons:
  assumes "fields_inside ends iface" "within ends (rv_report_id val) (unat (rv_offset val) + 1)"
  shows "fields_inside ends (handle_buttons val iface)"
  using assms by (simp add: handle_buttons_def Let_def fields_inside_def mouse_inside_def)

lemma extract_row_inside:
  assumes "hay \<in> set usage_table" "layout_ok iface" "fields_inside ends iface" "val_inside ends val"
    "rv_report_id val \<noteq> 0 \<longrightarrow> if_uses_report_id iface"
  shows "fields_inside ends (extract_row val iface hay)"
proof -
  have o: "val_inside_or_none ends val" using assms(4) by (simp add: val_inside_or_none_def)
  have "0 < unat (rv_size val)" using assms(4) by (simp add: val_inside_def unat_gt_0)
  then have "unat (rv_offset val) + 1 \<le> unat (rv_offset val) + unat (rv_size val)" by linarith
  then have b: "within ends (rv_report_id val) (unat (rv_offset val) + 1)"
    using assms(4) unfolding val_inside_def within_def using order.trans by blast
  have "fields_inside ends (um_handler hay val (um_set_id hay (rv_report_id val) iface))"
    using assms(1) fields_inside_keyboard [OF assms(2-5)] unfolding usage_table_def list.set insert_iff empty_iff
    by (elim disjE) (simp_all add: assms(3) fields_inside_mouse [OF _ o] fields_inside_buttons [OF _ b] fields_inside_consumer)
  then show ?thesis using assms(3) by (simp add: extract_row_def Let_def fields_inside_def)
qed

lemma extract_data_inside:
  assumes "layout_ok iface" "fields_inside ends iface" "val_inside ends val" "rv_report_id val \<noteq> 0 \<longrightarrow> if_uses_report_id iface"
  shows "fields_inside ends (extract_data iface val)"
proof -
  have v: "val_ok val" using assms(3) by (simp add: val_inside_def)
  have "fields_inside ends (foldl (extract_row val) i rows)"
    if "set rows \<subseteq> set usage_table" "layout_ok i" "fields_inside ends i" "rv_report_id val \<noteq> 0 \<longrightarrow> if_uses_report_id i" for rows i
    using that
  proof (induction rows arbitrary: i)
    case (Cons hay rows)
    then have h: "hay \<in> set usage_table" by simp
    note e = extract_row_layout [OF h Cons.prems(2) v Cons.prems(4)] extract_row_inside [OF h Cons.prems(2,3) assms(3) Cons.prems(4)]
    show ?case using Cons.IH [OF _ e(1,3)] Cons.prems e(2) by simp
  qed simp
  then show ?thesis using assms by (simp add: extract_data_def)
qed

subsection \<open>Properties\<close>

text \<open>
  A value read from a report is the two's complement number at its bit position: every bit of the result is
  the corresponding bit of the little-endian bit stream, extended with the sign bit, so the number lies in
  the range of its width; a value that does not lie wholly inside the received bytes, or is wider than 32
  bits, reads as 0.
\<close>

theorem get_report_value_exact:
  "(val_in_report rep val \<longrightarrow>
      (\<forall>n<32. bit (get_report_value rep val) n
         \<longleftrightarrow> report_bit rep (unat (rv_offset val) + min n (unat (rv_size val) - 1)))
      \<and> - (2 ^ (unat (rv_size val) - 1)) \<le> sint (get_report_value rep val)
      \<and> sint (get_report_value rep val) < 2 ^ (unat (rv_size val) - 1))
   \<and> (\<not> val_in_report rep val \<longrightarrow> get_report_value rep val = 0)"
  using get_report_value_bit [of rep val] get_report_value_range [of rep val] get_report_value_outside [of rep val]
  by blast

theorem get_report_value_exact_witness:
  "val_in_report [0x12, 0xf5] (zero_val\<lparr>rv_offset := 4, rv_size := 8\<rparr>)
   \<and> bit (get_report_value [0x12, 0xf5] (zero_val\<lparr>rv_offset := 4, rv_size := 8\<rparr>)) 3 = report_bit [0x12, 0xf5] 7
   \<and> bit (get_report_value [0x12, 0xf5] (zero_val\<lparr>rv_offset := 4, rv_size := 8\<rparr>)) 31 = report_bit [0x12, 0xf5] 11
   \<and> sint (get_report_value [0x12, 0xf5] (zero_val\<lparr>rv_offset := 4, rv_size := 8\<rparr>)) < 2 ^ 7
   \<and> get_report_value [0x12] (zero_val\<lparr>rv_offset := 4, rv_size := 8\<rparr>) = 0"
proof -
  have "val_in_report [0x12, 0xf5] (zero_val\<lparr>rv_offset := 4, rv_size := 8\<rparr>)"
    "\<not> val_in_report [0x12] (zero_val\<lparr>rv_offset := 4, rv_size := 8\<rparr>)"
    by (simp_all add: val_in_report_def zero_val_def)
  then show ?thesis
    using get_report_value_exact [of "[0x12, 0xf5]" "zero_val\<lparr>rv_offset := 4, rv_size := 8\<rparr>"]
      get_report_value_exact [of "[0x12]" "zero_val\<lparr>rv_offset := 4, rv_size := 8\<rparr>"]
    by (simp add: zero_val_def)
qed

lemma blit_zeros: "length keys \<le> 6 \<Longrightarrow> blit (replicate 6 0) 0 keys = keys @ replicate (6 - length keys) 0"
  by (simp add: blit_def drop_replicate)

text \<open>
  C17. A bitmap keyboard report becomes the six-key report of its pressed keys. For a report of a keyboard
  whose bitmap layout is known, the outgoing report carries the modifier byte and the usages of the first
  six set bits, taken block by block in the order of the descriptor and in bit order within a block, the
  rest of the slots being zero; bits beyond the received bytes count as released.
\<close>

theorem extract_kbd_bitmap_exact:
  assumes kb: "kb = if_keyboards iface ! get_keyboard iface (raw ! 0)" "kb_is_nkro kb" "kb_nkro_count kb > 0"
    "if_protocol iface \<noteq> 0" "if_uses_report_id iface \<longrightarrow> kb_is_found kb \<and> kb_report_id kb = raw ! 0"
    and src: "src = (if if_uses_report_id iface then drop 1 raw else raw)"
    and m: "rv_size (kb_modifier kb) = 8" "unat (rv_offset_idx (kb_modifier kb)) < length src"
    and keys: "keys = take 6 (concat (map (pressed_usages src) (take (kb_nkro_count kb) (kb_nkro kb))))"
  shows "extract_kbd_data raw iface = (int (length keys),
    \<lparr>kr_modifier = src ! unat (rv_offset_idx (kb_modifier kb)), kr_reserved = 0,
     kr_keycode = keys @ replicate (6 - length keys) 0\<rparr>)"
proof -
  have len: "\<not> length raw \<le> (if if_uses_report_id iface then 1 else 0)" "src \<noteq> []" using m(2) src by auto
  have k: "nkro_blocks_loop (take (kb_nkro_count kb) (kb_nkro kb)) src [] = keys"
    by (simp add: nkro_blocks_loop_eq keys)
  have k6: "length keys \<le> 6" by (simp add: keys)
  have n: "extract_kbd_nkro raw iface zero_kbd_report = (int (length keys),
    \<lparr>kr_modifier = src ! unat (rv_offset_idx (kb_modifier kb)), kr_reserved = 0,
     kr_keycode = keys @ replicate (6 - length keys) 0\<rparr>)"
    using len m kb(3) unfolding extract_kbd_nkro_def Let_def kb(1) [symmetric] src [symmetric] k
    by (simp add: zero_kbd_report_def blit_zeros [OF k6])
  show ?thesis
    using len(1) kb(2,4,5) unfolding extract_kbd_data_def Let_def kb(1) [symmetric] by (simp add: n)
qed

theorem extract_kbd_bitmap_exact_witness:
  "extract_kbd_data [7, 2, 0x11, 0x80] (zero_interface\<lparr>if_protocol := 1, if_uses_report_id := True, if_num_keyboards := 1,
     if_keyboards := [zero_keyboard\<lparr>kb_is_nkro := True, kb_nkro_count := 1, kb_is_found := True, kb_report_id := 7,
       kb_modifier := zero_val\<lparr>rv_size := 8\<rparr>,
       kb_nkro := [\<lparr>nb_offset = 8, nb_size = 40, nb_usage_min = 4, nb_usage_max = 43\<rparr>]\<rparr>]\<rparr>)
   = (3, \<lparr>kr_modifier = 2, kr_reserved = 0, kr_keycode = [4, 8, 19, 0, 0, 0]\<rparr>)"
proof -
  define kb where "kb = zero_keyboard\<lparr>kb_is_nkro := True, kb_nkro_count := 1, kb_is_found := True, kb_report_id := 7,
       kb_modifier := zero_val\<lparr>rv_size := 8\<rparr>,
       kb_nkro := [\<lparr>nb_offset = 8, nb_size = 40, nb_usage_min = 4, nb_usage_max = 43\<rparr>]\<rparr>"
  define iface where "iface = zero_interface\<lparr>if_protocol := 1, if_uses_report_id := True, if_num_keyboards := 1,
     if_keyboards := [kb]\<rparr>"
  have g: "get_keyboard iface ([7, 2, 0x11, 0x80] ! 0) = 0"
    by (simp add: get_keyboard_def find_keyboard_def iface_def kb_def)
  have k: "kb = if_keyboards iface ! get_keyboard iface ([7, 2, 0x11, 0x80] ! 0)"
    unfolding g by (simp add: iface_def)
  have p: "take 6 (concat (map (pressed_usages [2, 0x11, 0x80]) (take (kb_nkro_count kb) (kb_nkro kb)))) = [4, 8, 19]"
    by (simp add: kb_def pressed_usages_def report_bit_def upt_rec bit_numeral_rec)
  show ?thesis
    using extract_kbd_bitmap_exact [OF k, of "[2, 0x11, 0x80]" "[4, 8, 19]"]
    by (simp add: p) (simp add: kb_def iface_def zero_val_def numeral_3_eq_3)
qed

end
