(* ===== verification/Device.thy ===== *)
theory Device
  imports Hid_Report Protocol Config Selection Reboot_Hotkey Zoom_Tracker Screensaver_Policy
begin

text \<open>
  The device state shared by the input components (structs.h, \<open>device_t\<close>): the part that the keyboard,
  mouse, zoom, LED and output-switching code reads and writes, with the static state of keyboard\_sync.c
  as one field, and the primitives over it: packets to the other board (uart.c), vendor and control
  reports (protocol.c), activity stamps (tasks.c) and LEDs (led.c).

  A function that changes the state takes and returns the record. Calls that leave this state, into the
  clipboard component, the event history, the flash, the LED pin or the USB stack, are appended in order to
  \<open>dv_calls\<close>; what such a call returns is an input, a field of \<open>env\<close>. One \<open>env\<close> is the world during one
  entry point: the clock reading, and what the other core does for a caller that waits.
\<close>

unbundle bit_operations_syntax

subsection \<open>Reports\<close>

text \<open>A mouse report; coordinates are C \<open>int16_t\<close>, wheel and pan \<open>int8_t\<close>, kept as integers and
  narrowed where the code narrows.\<close>

record mouse_report =
  mr_buttons :: u8
  mr_x :: int
  mr_y :: int
  mr_wheel :: int
  mr_pan :: int
  mr_mode :: u8

definition to_int16 :: "int \<Rightarrow> int" where
  "to_int16 v = signed_take_bit 15 v"

definition to_int8 :: "int \<Rightarrow> int" where
  "to_int8 v = signed_take_bit 7 v"

definition mouse_report_bytes :: "mouse_report \<Rightarrow> bytes" where
  "mouse_report_bytes r = [mr_buttons r] @ le16 (word_of_int (mr_x r)) @ le16 (word_of_int (mr_y r))
     @ [word_of_int (mr_wheel r), word_of_int (mr_pan r), mr_mode r]"

definition mouse_report_of_bytes :: "bytes \<Rightarrow> mouse_report" where
  "mouse_report_of_bytes b = \<lparr>mr_buttons = b ! 0, mr_x = sint (get16 b 1), mr_y = sint (get16 b 3),
     mr_wheel = sint (b ! 5), mr_pan = sint (b ! 6), mr_mode = b ! 7\<rparr>"

definition kbd_report_bytes :: "hid_keyboard_report \<Rightarrow> bytes" where
  "kbd_report_bytes r = [kr_modifier r, kr_reserved r] @ kr_keycode r"

definition kbd_report_of_bytes :: "bytes \<Rightarrow> hid_keyboard_report" where
  "kbd_report_of_bytes b = \<lparr>kr_modifier = b ! 0, kr_reserved = b ! 1, kr_keycode = slice b 2 6\<rparr>"

record hid_generic_pkt =
  gp_instance :: u8
  gp_report_id :: u8
  gp_type :: u8
  gp_len :: u8
  gp_data :: bytes

subsection \<open>State\<close>

record keyboard_sync =
  ks_boot :: u64
  ks_nonce :: u64
  ks_nonce_counter :: u64
  ks_request_due :: u64
  ks_nonce_started :: u64
  ks_target :: u64
  ks_peer_boot :: u64
  ks_peer_seen :: u64
  ks_synthetic_deadline :: u64
  ks_serial :: u32
  ks_peer_serial :: u32
  ks_host_generation :: u32
  ks_initialized :: bool
  ks_target_valid :: bool
  ks_peer_valid :: bool
  ks_peer_serial_valid :: bool
  ks_epoch_pending :: bool
  ks_latest :: hid_keyboard_report
  ks_fifo :: "hid_keyboard_report list"
  ks_head :: nat
  ks_count :: nat
  ks_tail_pending :: bool
  ks_synthetic_pending :: bool
  ks_target_known :: bool
  ks_incoming :: bytes
  ks_fragment :: nat

datatype history_type = HISTORY_OUTPUT_LOCAL | HISTORY_OUTPUT_PEER | HISTORY_USB_MOUNT | HISTORY_USB_UNMOUNT
  | HISTORY_HID_MOUNT | HISTORY_HID_UNMOUNT | HISTORY_DESCRIPTOR_REJECTED | HISTORY_PACKET_CHECKSUM_ERROR
  | HISTORY_UART_DROPPED

datatype call =
    Diagnostic_history_record history_type nat nat nat
  | Uart_sent uart_packet
  | Mouse_sent mouse_report
  | Gpio_put bool
  | Tuh_hid_set_report u8
  | Clipboard_host_reset
  | Clipboard_usb_session_reset
  | Clipboard_remote_input
  | Clipboard_physical_unknown
  | Clipboard_physical_disconnect
  | Clipboard_keyboard_raw hid_keyboard_report
  | Clipboard_keyboard_incomplete hid_keyboard_report
  | Clipboard_mouse_buttons u8 u8
  | Clipboard_peer_session u64
  | Clipboard_host_led_report
  | Config_confirm_usb_disconnect
  | Console_disconnect
  | Tuh_hid_set_protocol nat nat u8
  | Tuh_hid_receive_report nat nat
  | Save_config
  | Wipe_config
  | Load_config
  | Reset_usb_boot
  | Config_mode_scratch
  | Config_confirm_usb_request uart_packet
  | Run_handler handler uart_packet

record device =
  dv_board_role :: u8
  dv_active_output :: u8
  dv_selection :: selection_state
  dv_config :: config
  dv_local_kbd_states :: "hid_keyboard_report list"
  dv_remote_kbd_state :: hid_keyboard_report
  dv_reboot_hotkey_sequence :: reboot_hotkey_sequence
  dv_reboot_hotkey_source :: "reboot_hotkey_source list"
  dv_max_kbd_idx :: nat
  dv_local_modifiers :: u8
  dv_peer_modifiers :: u8
  dv_peer_modifiers_last_seen :: u64
  dv_pointer_x :: int
  dv_pointer_y :: int
  dv_mouse_buttons :: u8
  dv_local_mouse_buttons :: u8
  dv_peer_mouse_buttons :: u8
  dv_peer_mouse_state_known :: bool
  dv_hid_queue_out :: "hid_generic_pkt queue"
  dv_kbd_queue :: "hid_keyboard_report queue"
  dv_kbd_latest :: hid_keyboard_report
  dv_kbd_latest_pending :: bool
  dv_kbd_host_generation :: u32
  dv_kbd_remote_generation :: u32
  dv_mouse_queue :: "mouse_report queue"
  dv_uart_tx_queue :: "uart_packet queue"
  dv_iface :: "hid_interface list list"
  dv_kbd_dev_addr :: nat
  dv_kbd_instance :: nat
  dv_keyboard_leds_desired :: "u8 list"
  dv_keyboard_leds_actual :: "u8 list"
  dv_last_activity :: "u64 list"
  dv_direct_activity :: "u64 list"
  dv_peer_activity :: "u64 list"
  dv_direct_activity_valid :: u8
  dv_peer_activity_valid :: u8
  dv_upgrade_in_progress :: bool
  dv_image_dirty :: bool
  dv_reboot_requested :: bool
  dv_maintenance_reserved :: bool
  dv_config_bootloader_peer_pending :: bool
  dv_config_bootloader_local_pending :: bool
  dv_config_mode_timer :: u64
  dv_running_fw_version :: u16
  dv_running_fw_checksum :: u32
  dv_tud_connected :: bool
  dv_keyboard_connected :: bool
  dv_mouse_connected :: bool
  dv_mouse_zoom :: bool
  dv_switch_lock :: bool
  dv_onboard_led_state :: bool
  dv_relative_mouse :: bool
  dv_gaming_mode :: bool
  dv_config_mode_active :: bool
  dv_zoom_assist :: "zoom_tracker list"
  dv_zoom_activation_pending :: "bool list"
  dv_blinks_left :: nat
  dv_last_led_change :: u32
  dv_sync :: keyboard_sync
  dv_calls :: "call list"

text \<open>The RP2040 has no floating point unit: float operations are calls into its boot ROM. A float is its
  32-bit pattern.\<close>

record float_ops =
  fo_of_int :: "int \<Rightarrow> u32"
  fo_add :: "u32 \<Rightarrow> u32 \<Rightarrow> u32"
  fo_sub :: "u32 \<Rightarrow> u32 \<Rightarrow> u32"
  fo_mul :: "u32 \<Rightarrow> u32 \<Rightarrow> u32"
  fo_div :: "u32 \<Rightarrow> u32 \<Rightarrow> u32"
  fo_sqrt :: "u32 \<Rightarrow> u32"
  fo_le :: "u32 \<Rightarrow> u32 \<Rightarrow> bool"
  fo_lt :: "u32 \<Rightarrow> u32 \<Rightarrow> bool"

record env =
  env_now :: u64
  env_leds_accepted :: bool
  env_clipboard_swallow :: bool
  env_mouse_slot :: bool
  env_loaded_config :: config
  env_float :: float_ops

definition log_call :: "call \<Rightarrow> device \<Rightarrow> device" where
  "log_call c d = d\<lparr>dv_calls := dv_calls d @ [c]\<rparr>"

definition zero_sync :: keyboard_sync where
  "zero_sync = \<lparr>ks_boot = 0, ks_nonce = 0, ks_nonce_counter = 0, ks_request_due = 0, ks_nonce_started = 0,
     ks_target = 0, ks_peer_boot = 0, ks_peer_seen = 0, ks_synthetic_deadline = 0, ks_serial = 0,
     ks_peer_serial = 0, ks_host_generation = 0, ks_initialized = False, ks_target_valid = False,
     ks_peer_valid = False, ks_peer_serial_valid = False, ks_epoch_pending = False,
     ks_latest = zero_kbd_report, ks_fifo = replicate 128 zero_kbd_report, ks_head = 0, ks_count = 0,
     ks_tail_pending = False, ks_synthetic_pending = False, ks_target_known = False,
     ks_incoming = replicate 40 0, ks_fragment = 0\<rparr>"

text \<open>The state before the first event: zeroed memory, the default configuration and empty queues of the
  lengths set up at start (setup.c).\<close>

definition zero_pkt :: uart_packet where
  "zero_pkt = \<lparr>pkt_type = 0, pkt_data = replicate 8 0, pkt_checksum = 0\<rparr>"

definition device_boot :: "u8 \<Rightarrow> device" where
  "device_boot role = \<lparr>dv_board_role = role, dv_active_output = 0, dv_selection = selection_boot,
     dv_config = default_config, dv_local_kbd_states = replicate 4 zero_kbd_report,
     dv_remote_kbd_state = zero_kbd_report,
     dv_reboot_hotkey_sequence = \<lparr>completed_taps = 0, tap_source = 255, first_tap_us = 0\<rparr>,
     dv_reboot_hotkey_source = replicate 4 reboot_hotkey_reset_source, dv_max_kbd_idx = 0,
     dv_local_modifiers = 0, dv_peer_modifiers = 0, dv_peer_modifiers_last_seen = 0,
     dv_pointer_x = 0, dv_pointer_y = 0, dv_mouse_buttons = 0, dv_local_mouse_buttons = 0,
     dv_peer_mouse_buttons = 0, dv_peer_mouse_state_known = False,
     dv_hid_queue_out = queue_init \<lparr>gp_instance = 0, gp_report_id = 0, gp_type = 0, gp_len = 0, gp_data = replicate 12 0\<rparr> 128,
     dv_kbd_queue = queue_init zero_kbd_report 128, dv_kbd_latest = zero_kbd_report,
     dv_kbd_latest_pending = False, dv_kbd_host_generation = 0, dv_kbd_remote_generation = 0,
     dv_mouse_queue = queue_init \<lparr>mr_buttons = 0, mr_x = 0, mr_y = 0, mr_wheel = 0, mr_pan = 0, mr_mode = 0\<rparr> 512,
     dv_uart_tx_queue = queue_init zero_pkt 256,
     dv_iface = replicate 4 (replicate 12 zero_interface), dv_kbd_dev_addr = 0, dv_kbd_instance = 0,
     dv_keyboard_leds_desired = [0, 0], dv_keyboard_leds_actual = [0, 0], dv_last_activity = [0, 0],
     dv_direct_activity = [0, 0], dv_peer_activity = [0, 0], dv_direct_activity_valid = 0,
     dv_peer_activity_valid = 0, dv_upgrade_in_progress = False, dv_image_dirty = False,
     dv_reboot_requested = False, dv_maintenance_reserved = False,
     dv_config_bootloader_peer_pending = False, dv_config_bootloader_local_pending = False, dv_config_mode_timer = 0,
     dv_running_fw_version = 0, dv_running_fw_checksum = 0, dv_tud_connected = False,
     dv_keyboard_connected = False, dv_mouse_connected = False, dv_mouse_zoom = False,
     dv_switch_lock = False, dv_onboard_led_state = False, dv_relative_mouse = False,
     dv_gaming_mode = False, dv_config_mode_active = False,
     dv_zoom_assist = replicate 2 zoom_tracker_boot, dv_zoom_activation_pending = [False, False],
     dv_blinks_left = 0, dv_last_led_change = 0, dv_sync = zero_sync, dv_calls = []\<rparr>"

abbreviation is_active :: "device \<Rightarrow> bool" where
  "is_active d \<equiv> dv_active_output d = dv_board_role d"

subsection \<open>Packets to the other board\<close>

definition queue_packet_dev :: "bytes \<Rightarrow> nat \<Rightarrow> device \<Rightarrow> bool \<times> device" where
  "queue_packet_dev data ptype d =
     (case queue_packet_try (dv_uart_tx_queue d) (Some data) (int ptype) (int (length data)) of
        (ok, q) \<Rightarrow> (ok, d\<lparr>dv_uart_tx_queue := q\<rparr>))"

definition queue_packet :: "bytes \<Rightarrow> nat \<Rightarrow> device \<Rightarrow> device" where
  "queue_packet data ptype d =
     (case queue_packet_dev data ptype d of
        (ok, d) \<Rightarrow> if ok then d else log_call (Diagnostic_history_record HISTORY_UART_DROPPED 0 0 ptype) d)"

text \<open>A blocking add waits until core 0 has taken a frame out of a full queue.\<close>

definition make_room :: "device \<Rightarrow> device" where
  "make_room d =
     (if queue_get_level (dv_uart_tx_queue d) = q_element_count (dv_uart_tx_queue d)
      then case queue_try_remove (dv_uart_tx_queue d) of
        (Some p, q) \<Rightarrow> log_call (Uart_sent p) (d\<lparr>dv_uart_tx_queue := q\<rparr>)
      | (None, q) \<Rightarrow> d
      else d)"

definition queue_packet_blocking :: "bytes \<Rightarrow> nat \<Rightarrow> device \<Rightarrow> device" where
  "queue_packet_blocking data ptype d = snd (queue_packet_dev data ptype (make_room d))"

text \<open>Sending touches the queue and the call log alone.\<close>

lemma queue_packet_dev_frame:
  "queue_packet_dev data t d = (ok, d') \<Longrightarrow> \<exists>q. d' = d\<lparr>dv_uart_tx_queue := q\<rparr>"
  by (auto simp: queue_packet_dev_def split: prod.splits)

lemma queue_packet_frame: "\<exists>q c. queue_packet data t d = d\<lparr>dv_uart_tx_queue := q, dv_calls := c\<rparr>"
proof -
  obtain ok d1 where s: "queue_packet_dev data t d = (ok, d1)" by fastforce
  then obtain q where "d1 = d\<lparr>dv_uart_tx_queue := q\<rparr>" using queue_packet_dev_frame by blast
  with s have "queue_packet data t d = d\<lparr>dv_uart_tx_queue := q, dv_calls := dv_calls (queue_packet data t d)\<rparr>"
    by (cases ok) (simp_all add: queue_packet_def log_call_def)
  then show ?thesis by blast
qed

definition send_value :: "u8 \<Rightarrow> nat \<Rightarrow> device \<Rightarrow> device" where
  "send_value v ptype d = queue_packet [v] ptype d"

definition of_flag :: "bool \<Rightarrow> u8" where
  "of_flag b = (if b then 1 else 0)"

subsection \<open>Control reports to the host\<close>

definition queue_generic :: "bytes \<Rightarrow> u8 \<Rightarrow> u8 \<Rightarrow> u8 \<Rightarrow> u8 \<Rightarrow> device \<Rightarrow> device" where
  "queue_generic payload ptype len rid inst d =
     d\<lparr>dv_hid_queue_out := snd (queue_try_add (dv_hid_queue_out d)
         \<lparr>gp_instance = inst, gp_report_id = rid, gp_type = ptype, gp_len = len,
          gp_data = take (unat len) payload @ replicate (12 - unat len) 0\<rparr>)\<rparr>"

definition queue_cc_packet :: "bytes \<Rightarrow> device \<Rightarrow> device" where
  "queue_cc_packet payload d = queue_generic payload 1 4 3 0 d"

definition queue_system_packet :: "bytes \<Rightarrow> device \<Rightarrow> device" where
  "queue_system_packet payload d = queue_generic payload 2 1 4 0 d"

subsection \<open>Activity\<close>

definition record_local_activity :: "env \<Rightarrow> u8 \<Rightarrow> device \<Rightarrow> device" where
  "record_local_activity e output d =
     (let i = unat output in
      if i \<ge> 2 then d
      else d\<lparr>dv_last_activity := (dv_last_activity d)[i := env_now e],
             dv_direct_activity := (dv_direct_activity d)[i := env_now e],
             dv_direct_activity_valid := dv_direct_activity_valid d OR push_bit i 1\<rparr>)"

definition record_remote_activity :: "env \<Rightarrow> u8 \<Rightarrow> device \<Rightarrow> device" where
  "record_remote_activity e output d =
     (let i = unat output in
      if i \<ge> 2 then d
      else d\<lparr>dv_last_activity := (dv_last_activity d)[i := env_now e],
             dv_peer_activity := (dv_peer_activity d)[i := env_now e],
             dv_peer_activity_valid := dv_peer_activity_valid d OR push_bit i 1\<rparr>)"

definition sync_activity :: "env \<Rightarrow> device \<Rightarrow> device" where
  "sync_activity e d =
     (let age = (\<lambda>i. activity_age_seconds (env_now e) (dv_direct_activity d ! i) (bit (dv_direct_activity_valid d) i))
      in snd (queue_packet_dev (le32 (age 0) @ le32 (age 1)) 31 d))"

definition handle_activity_msg :: "env \<Rightarrow> bytes \<Rightarrow> device \<Rightarrow> device" where
  "handle_activity_msg e data d =
     foldl (\<lambda>d i.
         case activity_merge_age_seconds (env_now e) (get32 data (4 * i)) (dv_peer_activity d ! i) of
           (merged, t) \<Rightarrow>
             let d = d\<lparr>dv_peer_activity := (dv_peer_activity d)[i := t]\<rparr>
             in if merged then d\<lparr>dv_peer_activity_valid := dv_peer_activity_valid d OR push_bit i 1\<rparr> else d)
       d [0, 1]"

subsection \<open>LEDs\<close>

definition set_keyboard_leds :: "env \<Rightarrow> u8 \<Rightarrow> device \<Rightarrow> device" where
  "set_keyboard_leds e leds d =
     (if dv_board_role d \<ge> 2 then d
      else if dv_keyboard_connected d then
        let d = log_call (Tuh_hid_set_report leds) d
        in if env_leds_accepted e
           then d\<lparr>dv_keyboard_leds_actual := (dv_keyboard_leds_actual d)[unat (dv_board_role d) := leds]\<rparr>
           else d
      else d)"

definition active_keyboard_leds :: "device \<Rightarrow> u8" where
  "active_keyboard_leds d =
     (if dv_active_output d \<ge> 2 then 0
      else
        let leds = dv_keyboard_leds_desired d ! unat (dv_active_output d) in
        if cfg_kbd_led_as_indicator (dv_config d) \<noteq> 0
        then (leds AND NOT 2) OR (if dv_active_output d = 1 then 2 else 0)
        else leds)"

definition restore_leds :: "env \<Rightarrow> device \<Rightarrow> device" where
  "restore_leds e d =
     (let d = log_call (Gpio_put (is_active d)) (d\<lparr>dv_onboard_led_state := is_active d\<rparr>)
      in if dv_keyboard_connected d then set_keyboard_leds e (active_keyboard_leds d) d else d)"

definition blink_led :: "env \<Rightarrow> device \<Rightarrow> device" where
  "blink_led e d = d\<lparr>dv_blinks_left := 5, dv_last_led_change := ucast (env_now e)\<rparr>"

definition led_sync_task :: "env \<Rightarrow> device \<Rightarrow> device" where
  "led_sync_task e d =
     (if dv_board_role d \<ge> 2 then d
      else if dv_blinks_left d \<noteq> 0 then d
      else if dv_keyboard_connected d
        \<and> dv_keyboard_leds_actual d ! unat (dv_board_role d) \<noteq> active_keyboard_leds d
      then set_keyboard_leds e (active_keyboard_leds d) d
      else d)"

text \<open>\<open>pin\<close> is the level of the LED pin, which \<open>toggle_led\<close> reads and inverts.\<close>

definition led_blinking_task :: "env \<Rightarrow> bool \<Rightarrow> device \<Rightarrow> device" where
  "led_blinking_task e pin d =
     (if dv_blinks_left d = 0 then d
      else if ucast (env_now e) - dv_last_led_change d < 80000 then d
      else
        let d = log_call (Gpio_put (\<not> pin)) d;
            d = (if dv_keyboard_connected d then set_keyboard_leds e (if pin then 0 else 7) d else d);
            d = d\<lparr>dv_blinks_left := dv_blinks_left d - 1, dv_last_led_change := ucast (env_now e)\<rparr>
        in if dv_blinks_left d = 0 then restore_leds e d else d)"

subsection \<open>A sample world\<close>

text \<open>Float arithmetic on -1, 0 and 1, enough to run the code on unit movements.\<close>

definition sample_float :: float_ops where
  "sample_float = \<lparr>fo_of_int = (\<lambda>i. if i < 0 then 0xbf800000 else if i = 0 then 0 else 0x3f800000),
     fo_add = (\<lambda>a b. a), fo_sub = (\<lambda>a b. a),
     fo_mul = (\<lambda>a b. if a = 0 \<or> b = 0 then 0 else if a = b then 0x3f800000 else 0xbf800000),
     fo_div = (\<lambda>a b. a), fo_sqrt = (\<lambda>a. a),
     fo_le = (\<le>), fo_lt = (<)\<rparr>"

definition sample_env :: "u64 \<Rightarrow> env" where
  "sample_env t = \<lparr>env_now = t, env_leds_accepted = True, env_clipboard_swallow = False, env_mouse_slot = True,
     env_loaded_config = default_config, env_float = sample_float\<rparr>"

end
