(* ===== verification/Pointer.thy ===== *)
theory Pointer
  imports Device
begin

text \<open>
  Pointer geometry (mouse.c): when a movement leaves the screen, how a position is kept on it, mouse
  acceleration, and how the height is carried over from one computer's screen to the other's. The screen is
  32768 units wide and high whatever its resolution.
\<close>

unbundle bit_operations_syntax

subsection \<open>The code\<close>

text \<open>\<open>enum screen_pos_e\<close>: 0 is \<open>NONE\<close>.\<close>

abbreviation LEFT :: u8 where "LEFT \<equiv> 1"
abbreviation RIGHT :: u8 where "RIGHT \<equiv> 2"

definition get_jump_threshold :: "output_t \<Rightarrow> u8 \<Rightarrow> u16 \<Rightarrow> int" where
  "get_jump_threshold out direction jump_threshold =
     (if out_screen_index out > 1 then 0
      else if out_pos out = direction \<and> out_screen_index out = 1 then 0
      else uint jump_threshold)"

definition is_screen_switch_needed :: "output_t \<Rightarrow> int \<Rightarrow> int \<Rightarrow> u16 \<Rightarrow> u8" where
  "is_screen_switch_needed out position offset jump_threshold =
     (let direction = (if offset < 0 then LEFT else RIGHT) in
      if offset = 0 then 0
      else
        let threshold = get_jump_threshold out direction jump_threshold in
        if position + offset < 0 - threshold then LEFT
        else if position + offset > 32767 + threshold then RIGHT
        else 0)"

definition move_and_keep_on_screen :: "int \<Rightarrow> int \<Rightarrow> int" where
  "move_and_keep_on_screen position offset =
     (if position + offset < 0 then 0
      else if position + offset > 32767 then 32767
      else position + offset)"

text \<open>The acceleration curve: each factor is the float nearest to the source's constant.\<close>

definition acceleration_curve :: "(int \<times> u32) list" where
  "acceleration_curve = [(2, 0x3f800000), (5, 0x3f8ccccd), (15, 0x3fb33333), (30, 0x3ff33333),
     (45, 0x40266666), (60, 0x4059999a), (70, 0x40800000)]"

definition mouse_acceleration_factor :: "float_ops \<Rightarrow> int \<Rightarrow> int \<Rightarrow> bool \<Rightarrow> u32" where
  "mouse_acceleration_factor F offset_x offset_y enabled =
     (if offset_x = 0 \<and> offset_y = 0 then 0x3f800000
      else if \<not> enabled then 0x3f800000
      else
        let fx = fo_of_int F offset_x; fy = fo_of_int F offset_y;
            magnitude = fo_sqrt F (fo_add F (fo_mul F fx fx) (fo_mul F fy fy));
            value = (\<lambda>i. fst (acceleration_curve ! i)); factor = (\<lambda>i. snd (acceleration_curve ! i))
        in if fo_le F magnitude (fo_of_int F (value 0)) then factor 0
           else if fo_le F (fo_of_int F (value 6)) magnitude then factor 6
           else case find (\<lambda>i. fo_lt F magnitude (fo_of_int F (value (i + 1)))) [0..<6] of
               None \<Rightarrow> 0x3f800000
             | Some i \<Rightarrow>
                 let pos = fo_div F (fo_sub F magnitude (fo_of_int F (value i))) (fo_of_int F (value (i + 1) - value i))
                 in fo_add F (factor i) (fo_mul F pos (fo_sub F (factor (i + 1)) (factor i))))"

definition calculate_mouse_acceleration_factor :: "env \<Rightarrow> int \<Rightarrow> int \<Rightarrow> device \<Rightarrow> u32" where
  "calculate_mouse_acceleration_factor e x y d =
     mouse_acceleration_factor (env_float e) x y (cfg_enable_acceleration (dv_config d) \<noteq> 0)"

definition normalize_screen_index :: "output_t \<Rightarrow> output_t" where
  "normalize_screen_index out =
     (let out = (if out_screen_count out < 1 then out\<lparr>out_screen_count := 1\<rparr> else out);
          out = (if out_screen_count out > 0x7fffffff then out\<lparr>out_screen_count := 0x7fffffff\<rparr> else out);
          out = (if out_screen_index out < 1 then out\<lparr>out_screen_index := 1\<rparr> else out)
      in if out_screen_index out > out_screen_count out then out\<lparr>out_screen_index := out_screen_count out\<rparr> else out)"

text \<open>
  \<open>round\<close> of a float that has been widened to double, which is exact: the value of the pattern rounded to
  the nearest integer, halves away from zero. An infinity counts as the next power of two, beyond every
  \<open>int\<close>.
\<close>

definition float_round :: "u32 \<Rightarrow> int" where
  "float_round w =
     (let exponent = unat (drop_bit 23 w AND 0xff); fraction = uint (w AND 0x7fffff);
          mantissa = (if exponent = 0 then fraction else fraction + 8388608);
          shift = (if exponent = 0 then 1 else exponent);
          magnitude = (if shift \<ge> 150 then mantissa * 2 ^ (shift - 150)
                       else (mantissa + 2 ^ (149 - shift)) div 2 ^ (150 - shift))
      in if bit w 31 then - magnitude else magnitude)"

definition scaled_mouse_offset :: "float_ops \<Rightarrow> int \<Rightarrow> u32 \<Rightarrow> int \<Rightarrow> int" where
  "scaled_mouse_offset F delta factor speed =
     (let scaled = float_round (fo_mul F (fo_mul F (fo_of_int F delta) factor) (fo_of_int F speed)) in
      if scaled \<ge> 2147483647 then 2147483647
      else if scaled \<le> - 2147483648 then - 2147483648
      else scaled)"

definition canonical_mouse_axis :: "int \<Rightarrow> int" where
  "canonical_mouse_axis value = (if value > 32767 then 32767 else if value < - 32768 then - 32768 else value)"

text \<open>Border coordinates are C \<open>int\<close>s.\<close>

abbreviation top_of :: "output_t \<Rightarrow> int" where "top_of out \<equiv> sint (border_top (out_border out))"
abbreviation bottom_of :: "output_t \<Rightarrow> int" where "bottom_of out \<equiv> sint (border_bottom (out_border out))"

definition usable_border :: "border_size \<Rightarrow> bool" where
  "usable_border b \<longleftrightarrow> sint (border_top b) \<ge> 0 \<and> sint (border_top b) < sint (border_bottom b)
     \<and> sint (border_bottom b) \<le> 32767"

definition scale_y_with_config :: "int \<Rightarrow> int \<Rightarrow> int \<Rightarrow> config \<Rightarrow> int" where
  "scale_y_with_config screen_from screen_to pointer_y cfg =
     (let y = move_and_keep_on_screen pointer_y 0 in
      if screen_from < 0 \<or> screen_from \<ge> 2 \<or> screen_to < 0 \<or> screen_to \<ge> 2 then to_int16 y
      else
        let from = get_output cfg (nat screen_from); dest = get_output cfg (nat screen_to) in
        if \<not> usable_border (out_border from) \<or> \<not> usable_border (out_border dest) then to_int16 y
        else
          let size_to = bottom_of dest - top_of dest; size_from = bottom_of from - top_of from in
          if size_from = size_to then to_int16 y
          else if size_from > size_to then to_int16 (top_of dest + (size_to * y) div 32767)
          else if y < top_of from then 0
          else if y > bottom_of from then 32767
          else to_int16 (((y - top_of from) * 32767) div size_from))"

definition scale_y_coordinate :: "int \<Rightarrow> int \<Rightarrow> device \<Rightarrow> int" where
  "scale_y_coordinate screen_from screen_to d = scale_y_with_config screen_from screen_to (dv_pointer_y d) (dv_config d)"

subsection \<open>Staying on the screen\<close>

definition on_screen :: "int \<Rightarrow> bool" where
  "on_screen v \<longleftrightarrow> 0 \<le> v \<and> v \<le> 32767"

lemma keep_on_screen: "on_screen (move_and_keep_on_screen p off)"
  by (simp add: on_screen_def move_and_keep_on_screen_def)

lemma keep_on_screen_id: "on_screen p \<Longrightarrow> move_and_keep_on_screen p 0 = p"
  by (simp add: on_screen_def move_and_keep_on_screen_def)

lemma to_int16_on_screen: "on_screen v \<Longrightarrow> to_int16 v = v"
  by (simp add: on_screen_def to_int16_def signed_take_bit_int_eq_self)

lemma floor_scale_le:
  fixes s y :: int
  assumes "0 < s" "s \<le> 32767" "0 \<le> y" "y \<le> 32767"
  shows "0 \<le> s * y div 32767" "s * y div 32767 \<le> s"
proof -
  show "0 \<le> s * y div 32767" using assms by (simp add: pos_imp_zdiv_nonneg_iff)
  have "s * y \<le> s * 32767" using assms by simp
  then have "s * y div 32767 \<le> s * 32767 div 32767" by (rule zdiv_mono1) simp
  then show "s * y div 32767 \<le> s" by simp
qed

lemma floor_back:
  fixes s y :: int
  assumes "0 < s" "0 \<le> y"
  shows "(s * y div 32767) * 32767 div s \<le> y" "y - (s * y div 32767) * 32767 div s \<le> 32767 div s + 1"
proof -
  define q where "q = s * y div 32767"
  have q: "q * 32767 \<le> s * y" "s * y < q * 32767 + 32767"
    unfolding q_def by (simp_all add: algebra_simps)
  define z where "z = q * 32767 div s"
  have z: "z * s \<le> q * 32767" "q * 32767 < z * s + s"
    unfolding z_def using minus_mod_eq_div_mult [of "q * 32767" s] pos_mod_sign [of s "q * 32767"] pos_mod_bound [of s "q * 32767"] assms(1)
    by linarith+
  have "z * s \<le> y * s" using z(1) q(1) by (simp add: mult.commute)
  then have le: "z \<le> y" using assms(1) by simp
  have "y * s < z * s + s + 32767" using z(2) q(2) by (simp add: mult.commute)
  then have "(y - z) * s < s + 32767" by (simp add: left_diff_distrib)
  then have "(y - z - 1) * s < 32767" by (simp add: left_diff_distrib)
  then have "(y - z - 1) * s \<le> 32767" by simp
  then have "(y - z - 1) * s div s \<le> 32767 div s" using assms(1) by (rule zdiv_mono1)
  then have "y - z - 1 \<le> 32767 div s" using assms(1) by simp
  then show "(s * y div 32767) * 32767 div s \<le> y" "y - (s * y div 32767) * 32767 div s \<le> 32767 div s + 1"
    using le by (simp_all add: q_def z_def)
qed

text \<open>The two directions of the scaling, with the narrower border on one side.\<close>

lemma scale_into_border:
  assumes "a \<in> {0, 1}" "b \<in> {0, 1}" "on_screen y"
    "usable_border (out_border (get_output c (nat a)))" "usable_border (out_border (get_output c (nat b)))"
  defines "s \<equiv> bottom_of (get_output c (nat b)) - top_of (get_output c (nat b))"
  assumes "s < bottom_of (get_output c (nat a)) - top_of (get_output c (nat a))"
  shows "scale_y_with_config a b y c = top_of (get_output c (nat b)) + s * y div 32767"
proof -
  let ?t = "top_of (get_output c (nat b))"
  have s: "0 < s" "s \<le> 32767" "0 \<le> ?t" "?t + s \<le> 32767" using assms(5) by (auto simp: usable_border_def s_def)
  have "on_screen (?t + s * y div 32767)"
    using floor_scale_le [of s y] s assms(3) by (simp add: on_screen_def)
  then show ?thesis using assms by (auto simp: scale_y_with_config_def keep_on_screen_id to_int16_on_screen Let_def s_def)
qed

lemma scale_out_of_border:
  assumes "a \<in> {0, 1}" "b \<in> {0, 1}" "on_screen y"
    "usable_border (out_border (get_output c (nat a)))" "usable_border (out_border (get_output c (nat b)))"
  defines "s \<equiv> bottom_of (get_output c (nat a)) - top_of (get_output c (nat a))"
    and "t \<equiv> top_of (get_output c (nat a))"
  assumes "s < bottom_of (get_output c (nat b)) - top_of (get_output c (nat b))"
  shows "scale_y_with_config a b y c
    = (if y < t then 0 else if y > t + s then 32767 else (y - t) * 32767 div s)"
proof -
  have s: "0 < s" "s \<le> 32767" using assms(4) by (auto simp: usable_border_def s_def)
  have "on_screen ((y - t) * 32767 div s)" if "t \<le> y" "y \<le> t + s"
  proof -
    have "(y - t) * 32767 div s \<le> s * 32767 div s" using that s(1) by (intro zdiv_mono1) simp_all
    then show ?thesis using s(1) that by (simp add: on_screen_def pos_imp_zdiv_nonneg_iff)
  qed
  then have fits: "to_int16 ((y - t) * 32767 div s) = (y - t) * 32767 div s" if "t \<le> y" "y \<le> t + s"
    using to_int16_on_screen that by blast
  have f: "bottom_of (get_output c (nat a)) = t + s" "top_of (get_output c (nat a)) = t" by (simp_all add: s_def t_def)
  have r: "\<not> (a < 0 \<or> a \<ge> 2 \<or> b < 0 \<or> b \<ge> 2)" using assms(1,2) by auto
  have n: "s \<noteq> bottom_of (get_output c (nat b)) - top_of (get_output c (nat b))"
    "\<not> s > bottom_of (get_output c (nat b)) - top_of (get_output c (nat b))" using assms(8) by simp_all
  show ?thesis
    unfolding scale_y_with_config_def keep_on_screen_id [OF assms(3)] Let_def
    using r n assms(4,5) fits by (simp only: f if_False simp_thms add_diff_cancel_left' not_less) auto
qed

lemma scale_on_screen: "on_screen (scale_y_with_config a b y c)"
proof -
  define v where "v = move_and_keep_on_screen y 0"
  have v: "on_screen v" by (simp add: v_def keep_on_screen)
  have vy: "scale_y_with_config a b y c = scale_y_with_config a b v c"
    using v by (simp add: scale_y_with_config_def keep_on_screen_id flip: v_def)
  show ?thesis
  proof (cases "a \<in> {0, 1} \<and> b \<in> {0, 1} \<and> usable_border (out_border (get_output c (nat a)))
      \<and> usable_border (out_border (get_output c (nat b)))")
    case False
    then have "scale_y_with_config a b v c = v"
      using v by (auto simp: scale_y_with_config_def keep_on_screen_id to_int16_on_screen Let_def)
    then show ?thesis using v vy by simp
  next
    case True
    then have ab: "a \<in> {0, 1}" "b \<in> {0, 1}" and ua: "usable_border (out_border (get_output c (nat a)))"
      and ub: "usable_border (out_border (get_output c (nat b)))" by blast+
    define sa where "sa = bottom_of (get_output c (nat a)) - top_of (get_output c (nat a))"
    define sb where "sb = bottom_of (get_output c (nat b)) - top_of (get_output c (nat b))"
    consider (eq) "sa = sb" | (narrow) "sb < sa" | (wide) "sa < sb" by linarith
    then show ?thesis
    proof cases
      case eq
      then have "scale_y_with_config a b v c = v"
        using v by (auto simp: scale_y_with_config_def keep_on_screen_id to_int16_on_screen Let_def sa_def sb_def)
      then show ?thesis using v vy by simp
    next
      case narrow
      then have "scale_y_with_config a b v c = top_of (get_output c (nat b)) + sb * v div 32767"
        using scale_into_border [OF ab v ua ub] by (simp add: sa_def sb_def)
      moreover have "0 < sb" "sb \<le> 32767" "0 \<le> top_of (get_output c (nat b))" "top_of (get_output c (nat b)) + sb \<le> 32767"
        using ub by (auto simp: usable_border_def sb_def)
      ultimately show ?thesis using floor_scale_le [of sb v] v vy by (simp add: on_screen_def)
    next
      case wide
      define t where "t = top_of (get_output c (nat a))"
      have s: "0 < sa" using ua by (simp add: usable_border_def sa_def)
      have "scale_y_with_config a b v c = (if v < t then 0 else if v > t + sa then 32767 else (v - t) * 32767 div sa)"
        using scale_out_of_border [OF ab v ua ub] wide by (simp add: sa_def sb_def t_def)
      moreover have "(v - t) * 32767 div sa \<le> 32767" if "v \<le> t + sa"
        using zdiv_mono1 [of "(v - t) * 32767" "sa * 32767" sa] that s by simp
      moreover have "0 \<le> (v - t) * 32767 div sa" if "t \<le> v" using that s by (simp add: pos_imp_zdiv_nonneg_iff)
      ultimately show ?thesis using vy by (auto simp: on_screen_def)
    qed
  qed
qed

subsection \<open>Properties\<close>

text \<open>
  C13. The cursor comes back at the height it left from. If the border of the screen it moves to is the
  narrower one, the cursor enters within that border, and moving back from there puts it at most one plus
  32767 divided by the border's height above where it was, and never below it: with the rounding of both
  integer divisions the path is stable.
\<close>

theorem pointer_height_roundtrip:
  assumes "a \<in> {0, 1}" "b \<in> {0, 1}" "on_screen y"
    "usable_border (out_border (get_output c (nat a)))" "usable_border (out_border (get_output c (nat b)))"
  defines "s \<equiv> bottom_of (get_output c (nat b)) - top_of (get_output c (nat b))"
  assumes narrower: "s < bottom_of (get_output c (nat a)) - top_of (get_output c (nat a))"
  defines "y' \<equiv> scale_y_with_config a b y c"
  shows "top_of (get_output c (nat b)) \<le> y' \<and> y' \<le> bottom_of (get_output c (nat b))
    \<and> scale_y_with_config b a y' c \<le> y \<and> y - scale_y_with_config b a y' c \<le> 32767 div s + 1"
proof -
  let ?t = "top_of (get_output c (nat b))"
  have s: "0 < s" "s \<le> 32767" using assms(5) by (auto simp: usable_border_def s_def)
  have y': "y' = ?t + s * y div 32767"
    unfolding y'_def s_def by (rule scale_into_border [OF assms(1-5) narrower [unfolded s_def]])
  have range: "0 \<le> s * y div 32767" "s * y div 32767 \<le> s" using floor_scale_le [OF s] assms(3) by (simp_all add: on_screen_def)
  have on: "on_screen y'" unfolding y'_def by (rule scale_on_screen)
  have "scale_y_with_config b a y' c = (if y' < ?t then 0 else if y' > ?t + s then 32767 else (y' - ?t) * 32767 div s)"
    unfolding s_def by (rule scale_out_of_border [OF assms(2,1) on assms(5,4) narrower [unfolded s_def]])
  then have "scale_y_with_config b a y' c = (s * y div 32767) * 32767 div s" using y' range by simp
  moreover have "?t + s = bottom_of (get_output c (nat b))" by (simp add: s_def)
  ultimately show ?thesis using floor_back [OF s(1), of y] range y' assms(3) by (simp add: on_screen_def)
qed

definition sample_borders :: config where
  "sample_borders = set_output 1 ((get_output default_config 1)\<lparr>out_border := \<lparr>border_top = 8000, border_bottom = 24000\<rparr>\<rparr>) default_config"

theorem pointer_height_roundtrip_witness:
  "8000 \<le> scale_y_with_config 0 1 20000 sample_borders \<and> scale_y_with_config 0 1 20000 sample_borders \<le> 24000
   \<and> scale_y_with_config 1 0 (scale_y_with_config 0 1 20000 sample_borders) sample_borders \<le> 20000
   \<and> 20000 - scale_y_with_config 1 0 (scale_y_with_config 0 1 20000 sample_borders) sample_borders \<le> 3"
proof -
  have o: "get_output sample_borders 0 = default_output 0 2 2"
    "out_border (get_output sample_borders 1) = \<lparr>border_top = 8000, border_bottom = 24000\<rparr>"
    by (simp_all add: sample_borders_def get_output_def set_output_def default_config_def)
  have sint: "sint (8000 :: u32) = 8000" "sint (24000 :: u32) = 24000" "sint (32767 :: u32) = 32767" by simp_all
  show ?thesis
    using pointer_height_roundtrip [of 0 1 20000 sample_borders] o sint
    by (simp add: on_screen_def usable_border_def default_output_def)
qed

end
