(* ===== verification/Keyboard.thy ===== *)
theory Keyboard
  imports Device "HOL-Library.Sublist"
begin

text \<open>
  Keyboard state (keyboard.c, the publishing side of keyboard\_sync.c and \<open>publish_local_modifiers\<close> of
  zoom.c): hotkey matching, the combination of all keyboards into one six-key report, the report queue
  with its durable tail, and the release of keys when the focus changes.
\<close>

unbundle bit_operations_syntax

subsection \<open>Hotkeys\<close>

datatype hotkey_action = Output_toggle | Mouse_zoom | Switchlock | Screenlock | Toggle_gaming_mode
  | Clear_zoom_assist | Enable_screensaver_pong | Enable_screensaver_jitter | Disable_screensaver
  | Wipe_config_hotkey | Screen_border | Config_enable | Fw_upgrade_A | Fw_upgrade_B

record hotkey_combo =
  hk_modifier :: u8
  hk_keys :: bytes
  hk_pass_to_os :: bool
  hk_acknowledge :: bool
  hk_action :: hotkey_action

text \<open>\<open>hk_keys\<close> is the first \<open>key_count\<close> entries of the C array.\<close>

definition hotkeys :: "hotkey_combo list" where
  "hotkeys =
    [\<lparr>hk_modifier = 0, hk_keys = [0x73], hk_pass_to_os = False, hk_acknowledge = False, hk_action = Output_toggle\<rparr>,
     \<lparr>hk_modifier = 1, hk_keys = [0x39], hk_pass_to_os = False, hk_acknowledge = False, hk_action = Output_toggle\<rparr>,
     \<lparr>hk_modifier = 0x50, hk_keys = [], hk_pass_to_os = True, hk_acknowledge = True, hk_action = Mouse_zoom\<rparr>,
     \<lparr>hk_modifier = 0x10, hk_keys = [0x0e], hk_pass_to_os = False, hk_acknowledge = True, hk_action = Switchlock\<rparr>,
     \<lparr>hk_modifier = 0x10, hk_keys = [0x0f], hk_pass_to_os = False, hk_acknowledge = True, hk_action = Screenlock\<rparr>,
     \<lparr>hk_modifier = 0x21, hk_keys = [0x0a], hk_pass_to_os = False, hk_acknowledge = True, hk_action = Toggle_gaming_mode\<rparr>,
     \<lparr>hk_modifier = 0x21, hk_keys = [0x1d], hk_pass_to_os = False, hk_acknowledge = True, hk_action = Clear_zoom_assist\<rparr>,
     \<lparr>hk_modifier = 0x21, hk_keys = [0x16], hk_pass_to_os = False, hk_acknowledge = True, hk_action = Enable_screensaver_pong\<rparr>,
     \<lparr>hk_modifier = 0x21, hk_keys = [0x0d], hk_pass_to_os = False, hk_acknowledge = True, hk_action = Enable_screensaver_jitter\<rparr>,
     \<lparr>hk_modifier = 0x21, hk_keys = [0x1b], hk_pass_to_os = False, hk_acknowledge = True, hk_action = Disable_screensaver\<rparr>,
     \<lparr>hk_modifier = 0x20, hk_keys = [0x45, 0x07], hk_pass_to_os = False, hk_acknowledge = True, hk_action = Wipe_config_hotkey\<rparr>,
     \<lparr>hk_modifier = 0x20, hk_keys = [0x45, 0x1c], hk_pass_to_os = False, hk_acknowledge = True, hk_action = Screen_border\<rparr>,
     \<lparr>hk_modifier = 0x21, hk_keys = [0x06, 0x12], hk_pass_to_os = False, hk_acknowledge = True, hk_action = Config_enable\<rparr>,
     \<lparr>hk_modifier = 0x22, hk_keys = [0x04], hk_pass_to_os = False, hk_acknowledge = True, hk_action = Fw_upgrade_A\<rparr>,
     \<lparr>hk_modifier = 0x22, hk_keys = [0x05], hk_pass_to_os = False, hk_acknowledge = True, hk_action = Fw_upgrade_B\<rparr>]"

definition key_in_report :: "u8 \<Rightarrow> hid_keyboard_report \<Rightarrow> bool" where
  "key_in_report key rep = list_ex (\<lambda>j. key = kr_keycode rep ! j) [0..<6]"

definition check_specific_hotkey :: "hotkey_combo \<Rightarrow> hid_keyboard_report \<Rightarrow> bool" where
  "check_specific_hotkey hk rep \<longleftrightarrow> hk_modifier hk = kr_modifier rep AND hk_modifier hk
     \<and> list_all (\<lambda>k. key_in_report k rep) (hk_keys hk)"

definition check_all_hotkeys :: "hid_keyboard_report \<Rightarrow> hotkey_combo option" where
  "check_all_hotkeys rep = find (\<lambda>hk. check_specific_hotkey hk rep) hotkeys"

subsection \<open>Keyboard state\<close>

definition update_kbd_state :: "hid_keyboard_report \<Rightarrow> nat \<Rightarrow> device \<Rightarrow> device" where
  "update_kbd_state rep idx d =
     (if idx \<ge> 4 then d
      else d\<lparr>dv_local_kbd_states := (dv_local_kbd_states d)[idx := rep],
             dv_max_kbd_idx := (if dv_max_kbd_idx d < idx then idx else dv_max_kbd_idx d)\<rparr>)"

definition update_remote_kbd_state :: "hid_keyboard_report \<Rightarrow> device \<Rightarrow> device" where
  "update_remote_kbd_state rep d = d\<lparr>dv_remote_kbd_state := rep\<rparr>"

text \<open>One key of \<open>add_keys\<close>: \<open>memchr\<close> finds the first empty slot.\<close>

definition add_key :: "hid_keyboard_report \<Rightarrow> u8 \<Rightarrow> hid_keyboard_report" where
  "add_key dest key =
     (if key = 0 \<or> key_in_report key dest then dest
      else case find (\<lambda>j. kr_keycode dest ! j = 0) [0..<6] of
        Some j \<Rightarrow> dest\<lparr>kr_keycode := (kr_keycode dest)[j := key]\<rparr>
      | None \<Rightarrow> dest)"

definition add_keys :: "hid_keyboard_report \<Rightarrow> hid_keyboard_report \<Rightarrow> hid_keyboard_report" where
  "add_keys dest src = foldl (\<lambda>r i. add_key r (kr_keycode src ! i)) dest [0..<6]"

definition merge_report :: "hid_keyboard_report \<Rightarrow> hid_keyboard_report \<Rightarrow> hid_keyboard_report" where
  "merge_report comb src = add_keys (comb\<lparr>kr_modifier := kr_modifier comb OR kr_modifier src\<rparr>) src"

definition combine_local :: "device \<Rightarrow> hid_keyboard_report" where
  "combine_local d =
     foldl (\<lambda>r i. merge_report r (dv_local_kbd_states d ! i)) zero_kbd_report [0..<dv_max_kbd_idx d + 1]"

definition combine_kbd_states :: "device \<Rightarrow> hid_keyboard_report" where
  "combine_kbd_states d =
     (if dv_kbd_remote_generation d = dv_kbd_host_generation d
      then merge_report (combine_local d) (dv_remote_kbd_state d)
      else combine_local d)"

definition publish_local_modifiers :: "device \<Rightarrow> device" where
  "publish_local_modifiers d =
     (let modifiers = foldl (\<lambda>m i. m OR kr_modifier (dv_local_kbd_states d ! i)) 0 [0..<4] in
      if modifiers = dv_local_modifiers d then d
      else send_value modifiers 28 (d\<lparr>dv_local_modifiers := modifiers\<rparr>))"

subsection \<open>Report queue\<close>

definition queue_kbd_report :: "hid_keyboard_report \<Rightarrow> device \<Rightarrow> device" where
  "queue_kbd_report rep d =
     (if dv_tud_connected d then
        let d = d\<lparr>dv_kbd_latest := rep\<rparr> in
        if dv_kbd_latest_pending d then d\<lparr>dv_kbd_latest_pending := True\<rparr>
        else case queue_try_add (dv_kbd_queue d) rep of
          (True, q) \<Rightarrow> d\<lparr>dv_kbd_queue := q\<rparr>
        | (False, q) \<Rightarrow> d\<lparr>dv_kbd_queue := q, dv_kbd_latest_pending := True\<rparr>
      else d)"

definition keyboard_queue_current :: "device \<Rightarrow> device" where
  "keyboard_queue_current d = queue_kbd_report (combine_kbd_states d) d"

text \<open>One pass of the USB task: \<open>ready\<close> is \<open>tud_hid_n_ready\<close>, \<open>accepts\<close> the result of
  \<open>tud_hid_keyboard_report\<close>; the result is the report the host takes, if any. With nothing queued the
  clipboard may type (\<open>clipboard_usb_task\<close>), which does not touch this state.\<close>

definition process_kbd_queue_task :: "bool \<Rightarrow> bool \<Rightarrow> device \<Rightarrow> hid_keyboard_report option \<times> device" where
  "process_kbd_queue_task ready accepts d =
     (if \<not> dv_tud_connected d then (None, d)
      else case queue_try_peek (dv_kbd_queue d) of
        None \<Rightarrow> (None, d)
      | Some rep \<Rightarrow>
          if \<not> ready then (None, d)
          else
            let (sent, d) = (if accepts then (Some rep, d\<lparr>dv_kbd_queue := snd (queue_try_remove (dv_kbd_queue d))\<rparr>)
                             else (None, d))
            in if dv_kbd_latest_pending d
               then case queue_try_add (dv_kbd_queue d) (dv_kbd_latest d) of
                   (True, q) \<Rightarrow> (sent, d\<lparr>dv_kbd_queue := q, dv_kbd_latest_pending := False\<rparr>)
                 | (False, q) \<Rightarrow> (sent, d\<lparr>dv_kbd_queue := q\<rparr>)
               else (sent, d))"

fun discard_all :: "nat \<Rightarrow> 'a queue \<Rightarrow> 'a queue" where
  "discard_all 0 q = q"
| "discard_all (Suc n) q = (case queue_try_remove q of (None, q') \<Rightarrow> q' | (Some x, q') \<Rightarrow> discard_all n q')"

text \<open>The loop of \<open>keyboard_host_reset\<close> removes reports until there are none; the level bounds it.\<close>

definition keyboard_host_reset :: "device \<Rightarrow> device" where
  "keyboard_host_reset d =
     log_call Clipboard_host_reset
       (d\<lparr>dv_kbd_queue := discard_all (queue_get_level (dv_kbd_queue d)) (dv_kbd_queue d),
          dv_kbd_latest_pending := False, dv_kbd_host_generation := dv_kbd_host_generation d + 1,
          dv_peer_modifiers := 0, dv_kbd_latest := zero_kbd_report\<rparr>)"

subsection \<open>The source side of the keyboard transport\<close>

definition rotate_nonce :: "u64 \<Rightarrow> keyboard_sync \<Rightarrow> keyboard_sync" where
  "rotate_nonce now s =
     (let s = s\<lparr>ks_nonce_counter := ks_nonce_counter s + 1\<rparr>
      in s\<lparr>ks_nonce := ks_boot s + ks_nonce_counter s * 0x9e3779b97f4a7c15, ks_nonce_started := now,
           ks_fragment := 0\<rparr>)"

definition keyboard_sync_init :: "u64 \<Rightarrow> u64 \<Rightarrow> keyboard_sync" where
  "keyboard_sync_init boot_session now =
     rotate_nonce now (zero_sync\<lparr>ks_boot := boot_session, ks_initialized := True, ks_epoch_pending := True\<rparr>)"

definition keyboard_sync_reset :: "env \<Rightarrow> device \<Rightarrow> device" where
  "keyboard_sync_reset e d =
     (let s = dv_sync d in
      if \<not> ks_initialized s then d
      else d\<lparr>dv_sync := rotate_nonce (env_now e)
        (s\<lparr>ks_latest := zero_kbd_report, ks_head := 0, ks_count := 0, ks_tail_pending := False,
           ks_target_valid := False, ks_peer_valid := False, ks_target_known := False,
           ks_synthetic_pending := False, ks_peer_serial_valid := False, ks_epoch_pending := True,
           ks_request_due := 0\<rparr>)\<rparr>)"

text \<open>The inlined loop of \<open>keyboard_sync_publish\<close> over the local keyboards is the one of
  \<open>combine_kbd_states\<close>.\<close>

definition keyboard_sync_publish :: "device \<Rightarrow> device" where
  "keyboard_sync_publish d =
     (let s = dv_sync d; own = combine_local d in
      if \<not> ks_initialized s then d
      else if ks_latest s = own then d
      else
        let s = s\<lparr>ks_latest := own\<rparr>;
            s = (if ks_target_known s then s\<lparr>ks_target_valid := True\<rparr> else s)
        in if is_active d then d\<lparr>dv_sync := s\<rparr>
           else if ks_tail_pending s \<or> ks_count s = 128 then d\<lparr>dv_sync := s\<lparr>ks_tail_pending := True\<rparr>\<rparr>
           else d\<lparr>dv_sync := s\<lparr>ks_fifo := (ks_fifo s)[(ks_head s + ks_count s) mod 128 := own],
                                ks_count := ks_count s + 1\<rparr>\<rparr>)"

subsection \<open>Releasing and sending\<close>

definition release_all_keys :: "device \<Rightarrow> device" where
  "release_all_keys d =
     (let d = d\<lparr>dv_local_kbd_states := replicate 4 zero_kbd_report, dv_remote_kbd_state := zero_kbd_report\<rparr>
      in queue_kbd_report zero_kbd_report (keyboard_sync_publish (publish_local_modifiers d)))"

definition keyboard_focus_changed :: "env \<Rightarrow> device \<Rightarrow> device" where
  "keyboard_focus_changed e d = keyboard_sync_reset e (release_all_keys (keyboard_host_reset d))"

definition send_key :: "device \<Rightarrow> device" where
  "send_key d =
     (let d = keyboard_sync_publish d in if is_active d then keyboard_queue_current d else d)"

definition send_consumer_control :: "bytes \<Rightarrow> device \<Rightarrow> device" where
  "send_consumer_control raw d = (if is_active d then queue_cc_packet raw d else queue_packet (take 4 raw) 14 d)"

definition send_system_control :: "bytes \<Rightarrow> device \<Rightarrow> device" where
  "send_system_control raw d = (if is_active d then queue_system_packet raw d else queue_packet (take 1 raw) 15 d)"

definition process_consumer_report :: "env \<Rightarrow> bytes \<Rightarrow> hid_interface \<Rightarrow> device \<Rightarrow> device" where
  "process_consumer_report e raw iface d =
     (let off = (if if_uses_report_id iface then 1 else 0); data = drop off raw in
      if length raw \<le> off then d
      else
        let kb = if_keyboards iface ! get_keyboard iface (raw ! 0);
            rep = (if rp_is_variable (if_consumer iface)
              then le16 (foldl (\<lambda>v i. if bit (data ! (i div 8)) (i mod 8) then kb_cc_array kb ! i else v) 0
                           [0..<min 16 (8 * length data)]) @ [0, 0]
              else take 4 data @ replicate (4 - length data) 0)
        in send_consumer_control rep
             (log_call Clipboard_remote_input (record_local_activity e (dv_active_output d) d)))"

definition process_system_report :: "env \<Rightarrow> bytes \<Rightarrow> hid_interface \<Rightarrow> device \<Rightarrow> device" where
  "process_system_report e raw iface d =
     (let off = (if if_uses_report_id iface then 1 else 0); data = drop off raw in
      if length raw < off + 1 then d
      else send_system_control [data ! 0, 0]
             (log_call Clipboard_remote_input (record_local_activity e (dv_active_output d) d)))"

definition clipboard_keyboard_snapshot_complete :: "bytes \<Rightarrow> hid_interface \<Rightarrow> bool" where
  "clipboard_keyboard_snapshot_complete raw iface =
     (if if_protocol iface = 0 then length raw \<ge> 8
      else if if_num_keyboards iface > 1 then False
      else
        let kb = if_keyboards iface ! get_keyboard iface (raw ! 0) in
        if \<not> kb_is_nkro kb then True
        else list_all (\<lambda>b. unat (nb_offset b) + unat (nb_size b)
                 \<le> (length raw - (if if_uses_report_id iface then 1 else 0)) * 8)
               (take (kb_nkro_count kb) (kb_nkro kb)))"

subsection \<open>Combining keyboards\<close>

definition keys_of :: "hid_keyboard_report \<Rightarrow> u8 set" where
  "keys_of r = set (kr_keycode r) - {0}"

definition kreport_wf :: "hid_keyboard_report \<Rightarrow> bool" where
  "kreport_wf r \<longleftrightarrow> length (kr_keycode r) = 6 \<and> distinct (filter (\<lambda>k. k \<noteq> 0) (kr_keycode r))"

lemma keys_of_filter: "keys_of r = set (filter (\<lambda>k. k \<noteq> 0) (kr_keycode r))"
  by (auto simp: keys_of_def)

lemma key_in_report_iff: "length (kr_keycode r) = 6 \<Longrightarrow> key_in_report k r \<longleftrightarrow> k \<in> set (kr_keycode r)"
  by (auto simp: key_in_report_def list_ex_iff in_set_conv_nth)

lemma finite_keys [simp]: "finite (keys_of r)"
  by (simp add: keys_of_def)

text \<open>\<open>covers r S\<close>: the report holds the keys \<open>S\<close>, or six of them.\<close>

definition covers :: "hid_keyboard_report \<Rightarrow> u8 set \<Rightarrow> bool" where
  "covers r S \<longleftrightarrow> kreport_wf r \<and> keys_of r \<subseteq> S \<and> (keys_of r = S \<or> card (keys_of r) = 6)"

lemma full_report:
  assumes "kreport_wf r" "0 \<notin> set (kr_keycode r)"
  shows "card (keys_of r) = 6"
proof -
  have "filter (\<lambda>k. k \<noteq> 0) (kr_keycode r) = kr_keycode r" using assms(2) by (auto simp: filter_id_conv)
  then show ?thesis using assms(1) distinct_card [of "kr_keycode r"] by (simp add: keys_of_filter kreport_wf_def)
qed

lemma filter_insert_slot:
  assumes "j < length ks" "ks ! j = (0 :: u8)" "k \<noteq> 0"
  shows "mset (filter (\<lambda>x. x \<noteq> 0) (ks[j := k])) = add_mset k (mset (filter (\<lambda>x. x \<noteq> 0) ks))"
proof -
  define as bs where "as = take j ks" and "bs = drop (Suc j) ks"
  have "ks = as @ 0 # bs" using id_take_nth_drop [OF assms(1)] assms(2) by (simp add: as_def bs_def)
  moreover have "ks[j := k] = as @ k # bs" using assms(1) by (simp add: upd_conv_take_nth_drop as_def bs_def)
  ultimately show ?thesis using assms(3) by simp
qed

lemma add_key_covers:
  assumes "covers r S"
  shows "covers (add_key r k) (S \<union> ({k} - {0}))"
proof (cases "k = 0 \<or> key_in_report k r")
  case True
  then have "add_key r k = r" "{k} - {0} \<subseteq> keys_of r"
    using assms by (auto simp: add_key_def covers_def kreport_wf_def key_in_report_iff keys_of_def)
  then show ?thesis using assms by (auto simp: covers_def)
next
  case False
  have len: "length (kr_keycode r) = 6" using assms by (simp add: covers_def kreport_wf_def)
  show ?thesis
  proof (cases "find (\<lambda>j. kr_keycode r ! j = 0) [0..<6]")
    case None
    then have "0 \<notin> set (kr_keycode r)" using len by (auto simp: find_upt_None in_set_conv_nth)
    then have "card (keys_of r) = 6" using full_report assms by (simp add: covers_def)
    then show ?thesis using assms None False by (auto simp: covers_def add_key_def)
  next
    case (Some j)
    then have j: "j < length (kr_keycode r)" "kr_keycode r ! j = 0" using len by (auto simp: find_upt_Some)
    define r' where "r' = r\<lparr>kr_keycode := (kr_keycode r)[j := k]\<rparr>"
    have k: "k \<noteq> 0" "k \<notin> set (kr_keycode r)" using False len by (auto simp: key_in_report_iff)
    have m: "mset (filter (\<lambda>x. x \<noteq> 0) (kr_keycode r')) = add_mset k (mset (filter (\<lambda>x. x \<noteq> 0) (kr_keycode r)))"
      using filter_insert_slot [OF j k(1)] by (simp add: r'_def)
    have keys: "keys_of r' = insert k (keys_of r)"
      unfolding keys_of_filter using m by (metis set_mset_add_mset_insert set_mset_mset)
    have "distinct (k # filter (\<lambda>x. x \<noteq> 0) (kr_keycode r))" using assms k by (simp add: covers_def kreport_wf_def)
    then have "distinct (filter (\<lambda>x. x \<noteq> 0) (kr_keycode r'))"
      using m by (metis mset.simps(2) mset_eq_imp_distinct_iff)
    then have wf: "kreport_wf r'" using len by (simp add: kreport_wf_def r'_def)
    have "card (keys_of r) \<noteq> 6"
    proof
      assume six: "card (keys_of r) = 6"
      have "k \<notin> keys_of r" using k by (simp add: keys_of_def)
      then have "card (keys_of r') = 7" using six by (simp add: keys)
      moreover have "card (keys_of r') \<le> length (kr_keycode r')"
        unfolding keys_of_filter by (meson card_length le_trans length_filter_le)
      ultimately show False using wf by (simp add: kreport_wf_def)
    qed
    then have "keys_of r = S" using assms by (simp add: covers_def)
    then show ?thesis using wf keys k Some False by (simp add: covers_def add_key_def r'_def)
  qed
qed

lemma add_keys_covers:
  assumes "covers r S" "length (kr_keycode src) = 6"
  shows "covers (add_keys r src) (S \<union> keys_of src)"
proof -
  have "covers (foldl (\<lambda>r i. add_key r (kr_keycode src ! i)) r [0..<n]) (S \<union> (set (take n (kr_keycode src)) - {0}))"
    if "n \<le> 6" for n
    using that
  proof (induction n)
    case 0
    show ?case using assms(1) by simp
  next
    case (Suc n)
    then have n: "n < length (kr_keycode src)" using assms(2) by simp
    have "set (take (Suc n) (kr_keycode src)) = insert (kr_keycode src ! n) (set (take n (kr_keycode src)))"
      using n by (simp add: take_Suc_conv_app_nth)
    then have "S \<union> (set (take (Suc n) (kr_keycode src)) - {0})
      = (S \<union> (set (take n (kr_keycode src)) - {0})) \<union> ({kr_keycode src ! n} - {0})" by auto
    then show ?case using add_key_covers [OF Suc.IH, of "kr_keycode src ! n"] Suc.prems by simp
  qed
  from this [of 6] assms(2) show ?thesis by (simp add: add_keys_def keys_of_def)
qed

lemma add_keys_modifier [simp]: "kr_modifier (add_keys r src) = kr_modifier r"
proof -
  have "kr_modifier (add_key r k) = kr_modifier r" for r k by (simp add: add_key_def split: option.splits)
  then have "kr_modifier (foldl (\<lambda>r i. add_key r (kr_keycode src ! i)) r is) = kr_modifier r" for "is"
    by (induction "is" arbitrary: r) simp_all
  then show ?thesis by (simp add: add_keys_def)
qed

lemma covers_modifier [simp]: "covers (r\<lparr>kr_modifier := m\<rparr>) S = covers r S"
  by (simp add: covers_def kreport_wf_def keys_of_def)

lemma merge_report_covers:
  "covers r S \<Longrightarrow> length (kr_keycode src) = 6 \<Longrightarrow> covers (merge_report r src) (S \<union> keys_of src)"
  by (simp add: merge_report_def add_keys_covers)

lemma merge_reports:
  assumes "covers r S" "\<forall>x\<in>set srcs. length (kr_keycode x) = 6"
  shows "covers (foldl merge_report r srcs) (S \<union> \<Union> (keys_of ` set srcs))"
    and "bit (kr_modifier (foldl merge_report r srcs)) n \<longleftrightarrow> bit (kr_modifier r) n \<or> (\<exists>x\<in>set srcs. bit (kr_modifier x) n)"
  using assms
proof (induction srcs arbitrary: r S)
  case (Cons x xs)
  case 1
  then show ?case using Cons(1) [OF merge_report_covers [of r S x]] by (simp add: Un_assoc)
  case 2
  then show ?case using Cons(2) [OF merge_report_covers [of r S x]] by (auto simp: merge_report_def bit_or_iff)
qed simp_all

text \<open>The keyboards that count: the local ones up to the highest index seen, and the peer's if its state
  belongs to the current bus session.\<close>

definition kbd_sources :: "device \<Rightarrow> hid_keyboard_report list" where
  "kbd_sources d = take (dv_max_kbd_idx d + 1) (dv_local_kbd_states d)
     @ (if dv_kbd_remote_generation d = dv_kbd_host_generation d then [dv_remote_kbd_state d] else [])"

definition kbd_states_ok :: "device \<Rightarrow> bool" where
  "kbd_states_ok d \<longleftrightarrow> length (dv_local_kbd_states d) = 4 \<and> dv_max_kbd_idx d < 4
     \<and> (\<forall>r\<in>set (dv_local_kbd_states d). length (kr_keycode r) = 6) \<and> length (kr_keycode (dv_remote_kbd_state d)) = 6"

lemma combine_local_fold:
  assumes "kbd_states_ok d"
  shows "combine_local d = foldl merge_report zero_kbd_report (take (dv_max_kbd_idx d + 1) (dv_local_kbd_states d))"
proof -
  have "foldl (\<lambda>r i. merge_report r (xs ! i)) r [0..<n] = foldl merge_report r (take n xs)"
    if "n \<le> length xs" for n r and xs :: "hid_keyboard_report list"
    using that by (induction n) (simp_all add: take_Suc_conv_app_nth)
  then show ?thesis using assms by (simp add: combine_local_def kbd_states_ok_def del: upt_Suc)
qed

lemma combine_kbd_states_fold:
  assumes "kbd_states_ok d"
  shows "combine_kbd_states d = foldl merge_report zero_kbd_report (kbd_sources d)"
  using combine_local_fold [OF assms] by (simp add: combine_kbd_states_def kbd_sources_def)

lemma zero_report_covers: "covers zero_kbd_report {}"
  by (simp add: covers_def kreport_wf_def keys_of_def zero_kbd_report_def)

subsection \<open>The report queue\<close>

text \<open>What the host has still to see: the queued reports and the tail that waits for a slot.\<close>

definition kbd_backlog :: "device \<Rightarrow> hid_keyboard_report list" where
  "kbd_backlog d = queue_items (dv_kbd_queue d) @ (if dv_kbd_latest_pending d then [dv_kbd_latest d] else [])"

definition kbd_queue_inv :: "device \<Rightarrow> bool" where
  [inv_simps]: "kbd_queue_inv d \<longleftrightarrow> queue_ok (dv_kbd_queue d) \<and> 0 < q_element_count (dv_kbd_queue d) \<and> dv_tud_connected d
     \<and> (dv_kbd_latest_pending d \<longrightarrow> queue_get_level (dv_kbd_queue d) = q_element_count (dv_kbd_queue d))"

datatype kbd_event = Enqueue hid_keyboard_report | Usb_pass bool bool

fun kbd_step :: "device \<Rightarrow> kbd_event \<Rightarrow> hid_keyboard_report option \<times> device" where
  "kbd_step d (Enqueue r) = (None, queue_kbd_report r d)"
| "kbd_step d (Usb_pass ready accepts) = process_kbd_queue_task ready accepts d"

lemma enqueue_backlog:
  assumes "kbd_queue_inv d"
  shows "kbd_queue_inv (queue_kbd_report r d)"
    and "kbd_backlog (queue_kbd_report r d) = (if dv_kbd_latest_pending d then butlast (kbd_backlog d) else kbd_backlog d) @ [r]"
proof -
  define q where "q = dv_kbd_queue d"
  have q: "queue_ok q" "0 < q_element_count q" using assms by (simp_all add: kbd_queue_inv_def q_def)
  have "kbd_queue_inv (queue_kbd_report r d) \<and> kbd_backlog (queue_kbd_report r d)
    = (if dv_kbd_latest_pending d then butlast (kbd_backlog d) else kbd_backlog d) @ [r]"
  proof (cases "dv_kbd_latest_pending d")
    case True
    then show ?thesis using assms by (simp add: queue_kbd_report_def kbd_queue_inv_def kbd_backlog_def)
  next
    case False
    show ?thesis
    proof (cases "length (queue_items q) < q_element_count q")
      case True
      from pico_queue.add_room [OF q(1) True, of r] obtain q' where
        "queue_try_add q r = (True, q')" "queue_ok q'" "queue_items q' = queue_items q @ [r]"
        "q_element_count q' = q_element_count q" by blast
      then show ?thesis using False assms by (simp add: queue_kbd_report_def kbd_queue_inv_def kbd_backlog_def q_def)
    next
      case full: False
      then have "length (queue_items q) = q_element_count q" using pico_queue.within_capacity [OF q(1)] by simp
      then show ?thesis using pico_queue.add_full [OF q(1), of r] False assms
        by (simp add: queue_kbd_report_def kbd_queue_inv_def kbd_backlog_def q_def)
    qed
  qed
  then show "kbd_queue_inv (queue_kbd_report r d)"
    and "kbd_backlog (queue_kbd_report r d) = (if dv_kbd_latest_pending d then butlast (kbd_backlog d) else kbd_backlog d) @ [r]"
    by blast+
qed

lemma usb_pass_backlog:
  assumes inv: "kbd_queue_inv d" and s: "process_kbd_queue_task ready accepts d = (sent, d')"
  shows "kbd_queue_inv d'" and "kbd_backlog d = (case sent of None \<Rightarrow> [] | Some r \<Rightarrow> [r]) @ kbd_backlog d'"
    and "ready \<and> accepts \<and> kbd_backlog d \<noteq> [] \<longrightarrow> sent \<noteq> None"
proof -
  define q where "q = dv_kbd_queue d"
  have q: "queue_ok q" "0 < q_element_count q" using inv by (simp_all add: kbd_queue_inv_def q_def)
  have full: "dv_kbd_latest_pending d \<longrightarrow> length (queue_items q) = q_element_count q"
    using inv by (simp add: kbd_queue_inv_def q_def)
  have conn: "dv_tud_connected d" using inv by (simp add: kbd_queue_inv_def)
  have "kbd_queue_inv d' \<and> kbd_backlog d = (case sent of None \<Rightarrow> [] | Some r \<Rightarrow> [r]) @ kbd_backlog d'
    \<and> (ready \<and> accepts \<and> kbd_backlog d \<noteq> [] \<longrightarrow> sent \<noteq> None)"
  proof (cases "queue_items q")
    case Nil
    then have "sent = None" "d' = d" "\<not> dv_kbd_latest_pending d"
      using s conn full q by (auto simp: process_kbd_queue_task_def queue_peek_first [OF q(1)] simp flip: q_def)
    then show ?thesis using inv Nil by (simp add: kbd_backlog_def flip: q_def)
  next
    case (Cons x xs)
    note s' = s [unfolded process_kbd_queue_task_def, folded q_def, unfolded queue_peek_first [OF q(1)] Cons, simplified]
    obtain q' where q': "queue_try_remove q = (Some x, q')" "queue_ok q'" "queue_items q' = xs"
      "q_element_count q' = q_element_count q" using pico_queue.remove_first [OF q(1) Cons] by blast
    consider (idle) "\<not> ready" | (refused) "ready" "\<not> accepts" | (taken) "ready" "accepts" by blast
    then show ?thesis
    proof cases
      case idle
      then show ?thesis using s' conn inv by simp
    next
      case refused
      have "queue_try_add q (dv_kbd_latest d) = (False, q)" if "dv_kbd_latest_pending d"
        using pico_queue.add_full [OF q(1)] full that by simp
      then have "sent = None" "d' = d" using s' conn refused by (auto simp: q_def split: if_splits)
      then show ?thesis using inv refused by simp
    next
      case taken
      show ?thesis
      proof (cases "dv_kbd_latest_pending d")
        case True
        then have "length (queue_items q') < q_element_count q'" using full Cons q'(3,4) by simp
        from pico_queue.add_room [OF q'(2) this, of "dv_kbd_latest d"] obtain q2 where
          q2: "queue_try_add q' (dv_kbd_latest d) = (True, q2)" "queue_ok q2"
            "queue_items q2 = xs @ [dv_kbd_latest d]" "q_element_count q2 = q_element_count q'"
          using q'(3) by auto
        then have "sent = Some x" "d' = d\<lparr>dv_kbd_queue := q2, dv_kbd_latest_pending := False\<rparr>"
          using s' conn taken True q' by auto
        then show ?thesis using True Cons q2 q'(4) inv by (simp add: kbd_queue_inv_def kbd_backlog_def flip: q_def)
      next
        case False
        then have "sent = Some x" "d' = d\<lparr>dv_kbd_queue := q'\<rparr>" using s' conn taken q'(1) by auto
        then show ?thesis using False Cons q' inv by (simp add: kbd_queue_inv_def kbd_backlog_def flip: q_def)
      qed
    qed
  qed
  then show "kbd_queue_inv d'" and "kbd_backlog d = (case sent of None \<Rightarrow> [] | Some r \<Rightarrow> [r]) @ kbd_backlog d'"
    and "ready \<and> accepts \<and> kbd_backlog d \<noteq> [] \<longrightarrow> sent \<noteq> None" by blast+
qed

interpretation kbd_machine: machine kbd_step kbd_queue_inv "\<lambda>_. True"
proof unfold_locales
  fix s i o' s'
  assume "kbd_queue_inv s" "kbd_step s i = (o', s')"
  then show "kbd_queue_inv s'"
    by (cases i) (auto dest: enqueue_backlog(1) usb_pass_backlog(1))
qed

definition delivered :: "hid_keyboard_report option list \<Rightarrow> hid_keyboard_report list" where
  "delivered os = concat (map (\<lambda>x. case x of None \<Rightarrow> [] | Some r \<Rightarrow> [r]) os)"

definition enqueued :: "kbd_event list \<Rightarrow> hid_keyboard_report list" where
  "enqueued es = concat (map (\<lambda>e. case e of Enqueue r \<Rightarrow> [r] | Usb_pass _ _ \<Rightarrow> []) es)"

lemma subseq_replace_tail: "subseq (butlast xs @ ys) (xs @ ys)"
proof -
  have "subseq (butlast xs) xs" by (metis prefixeq_butlast prefix_imp_subseq)
  then show ?thesis by (simp add: list_emb_append_mono)
qed

lemma kbd_run_order:
  assumes "kbd_queue_inv d" "run_machine kbd_step d es = (os, d')"
  shows "subseq (delivered os @ kbd_backlog d') (kbd_backlog d @ enqueued es)
    \<and> (kbd_backlog d @ enqueued es \<noteq> [] \<longrightarrow> delivered os @ kbd_backlog d' \<noteq> []
         \<and> last (delivered os @ kbd_backlog d') = last (kbd_backlog d @ enqueued es))"
  using assms
proof (induction es arbitrary: d os)
  case Nil
  then show ?case by (simp add: delivered_def enqueued_def)
next
  case (Cons e es)
  obtain x d1 os' where x: "kbd_step d e = (x, d1)" "run_machine kbd_step d1 es = (os', d')" "os = x # os'"
    using Cons.prems(2) by (auto split: prod.splits)
  have inv: "kbd_queue_inv d1" using kbd_machine.step_inv [OF Cons.prems(1) _ x(1)] by simp
  note ih = Cons.IH [OF inv x(2)]
  show ?case
  proof (cases e)
    case (Enqueue r)
    then have d1: "x = None" "d1 = queue_kbd_report r d" using x(1) by simp_all
    then have b: "kbd_backlog d1 = (if dv_kbd_latest_pending d then butlast (kbd_backlog d) else kbd_backlog d) @ [r]"
      using enqueue_backlog(2) [OF Cons.prems(1)] by simp
    then have s: "subseq (kbd_backlog d1 @ enqueued es) (kbd_backlog d @ enqueued (e # es))"
      using subseq_replace_tail [of "kbd_backlog d" "r # enqueued es"] by (simp add: Enqueue enqueued_def)
    have "last (kbd_backlog d1 @ enqueued es) = last (kbd_backlog d @ enqueued (e # es))"
      using b by (simp add: Enqueue enqueued_def)
    moreover have "delivered os = delivered os'" using x(3) d1(1) by (simp add: delivered_def)
    ultimately show ?thesis using ih b subseq_order.trans [OF _ s] by auto
  next
    case (Usb_pass ready accepts)
    then have p: "process_kbd_queue_task ready accepts d = (x, d1)" using x(1) by simp
    have b: "kbd_backlog d = (case x of None \<Rightarrow> [] | Some r \<Rightarrow> [r]) @ kbd_backlog d1"
      by (rule usb_pass_backlog(2) [OF Cons.prems(1) p])
    have o: "delivered os = (case x of None \<Rightarrow> [] | Some r \<Rightarrow> [r]) @ delivered os'"
      using x(3) by (simp add: delivered_def)
    have "enqueued (e # es) = enqueued es" by (simp add: Usb_pass enqueued_def)
    then show ?thesis using ih b o by (cases x) (auto simp: last_append)
  qed
qed

lemma kbd_drain:
  assumes "kbd_queue_inv d"
  shows "\<exists>d'. run_machine kbd_step d (replicate (length (kbd_backlog d)) (Usb_pass True True)) = (map Some (kbd_backlog d), d')
    \<and> kbd_backlog d' = []"
proof -
  have "\<exists>d'. run_machine kbd_step d (replicate n (Usb_pass True True)) = (map Some (kbd_backlog d), d') \<and> kbd_backlog d' = []"
    if "length (kbd_backlog d) = n" for n
    using that assms
  proof (induction n arbitrary: d)
    case 0
    then show ?case by simp
  next
    case (Suc n)
    obtain x d1 where x: "process_kbd_queue_task True True d = (x, d1)" by fastforce
    note u = usb_pass_backlog [OF Suc.prems(2) x]
    obtain r where r: "x = Some r" using u(3) Suc.prems(1) by (cases x) auto
    then have b: "kbd_backlog d = r # kbd_backlog d1" using u(2) by simp
    then obtain d' where "run_machine kbd_step d1 (replicate n (Usb_pass True True)) = (map Some (kbd_backlog d1), d')"
      "kbd_backlog d' = []" using Suc.IH [OF _ u(1)] Suc.prems(1) by auto
    then show ?case using x r b by auto
  qed
  then show ?thesis by blast
qed

subsection \<open>Properties\<close>

text \<open>
  C18. The report the host sees is the union of all keyboards. It holds every modifier any counted keyboard
  holds and no other; its keys are pairwise distinct and are exactly the keys pressed on some counted
  keyboard, or, if these are more than six, six of them.
\<close>

theorem keyboard_combine_exact:
  assumes "kbd_states_ok d"
  shows "kreport_wf (combine_kbd_states d)
    \<and> (\<forall>n. bit (kr_modifier (combine_kbd_states d)) n \<longleftrightarrow> (\<exists>r\<in>set (kbd_sources d). bit (kr_modifier r) n))
    \<and> keys_of (combine_kbd_states d) \<subseteq> \<Union> (keys_of ` set (kbd_sources d))
    \<and> (keys_of (combine_kbd_states d) = \<Union> (keys_of ` set (kbd_sources d))
       \<or> card (keys_of (combine_kbd_states d)) = 6 \<and> 6 < card (\<Union> (keys_of ` set (kbd_sources d))))"
proof -
  let ?c = "combine_kbd_states d" and ?S = "\<Union> (keys_of ` set (kbd_sources d))"
  have len: "\<forall>r\<in>set (kbd_sources d). length (kr_keycode r) = 6"
    using assms by (auto simp: kbd_sources_def kbd_states_ok_def dest: in_set_takeD)
  note m = merge_reports [OF zero_report_covers len, folded combine_kbd_states_fold [OF assms]]
  have "finite ?S" by simp
  then have "6 < card ?S" if "keys_of ?c \<noteq> ?S" "keys_of ?c \<subseteq> ?S" "card (keys_of ?c) = 6"
    using that psubset_card_mono [of ?S "keys_of ?c"] by auto
  then show ?thesis using m by (auto simp: covers_def zero_kbd_report_def)
qed

text \<open>Two keyboards, one holding shift and the other the key A, on a board that has just started.\<close>

definition sample_shift :: hid_keyboard_report where
  "sample_shift = zero_kbd_report\<lparr>kr_modifier := 2\<rparr>"

definition sample_a :: hid_keyboard_report where
  "sample_a = zero_kbd_report\<lparr>kr_keycode := [4, 0, 0, 0, 0, 0]\<rparr>"

definition sample_typing :: device where
  "sample_typing = (device_boot 0)\<lparr>dv_tud_connected := True, dv_max_kbd_idx := 1,
     dv_local_kbd_states := [sample_shift, sample_a, zero_kbd_report, zero_kbd_report]\<rparr>"

theorem keyboard_combine_exact_witness:
  "kbd_states_ok sample_typing \<and> keys_of (combine_kbd_states sample_typing) = {4}
   \<and> bit (kr_modifier (combine_kbd_states sample_typing)) 1"
proof -
  have ok: "kbd_states_ok sample_typing"
    by (simp add: kbd_states_ok_def sample_typing_def device_boot_def sample_shift_def sample_a_def zero_kbd_report_def)
  have src: "set (kbd_sources sample_typing) = {sample_shift, sample_a, zero_kbd_report}"
    by (auto simp: kbd_sources_def sample_typing_def device_boot_def)
  have "keys_of sample_shift = {}" "keys_of sample_a = {4}" "keys_of zero_kbd_report = {}" "bit (kr_modifier sample_shift) 1"
    by (auto simp: keys_of_def sample_shift_def sample_a_def zero_kbd_report_def bit_numeral_rec)
  then show ?thesis using ok keyboard_combine_exact [OF ok] by (simp add: src)
qed

text \<open>
  C19. No keyboard report overtakes another and the newest state always gets through. In any interleaving of
  reports being queued and USB passes, the reports the host takes followed by the backlog are a subsequence,
  in order, of the backlog at the start followed by the queued reports: only intermediate states are ever
  dropped, and the last of them is the last report queued.
\<close>

theorem keyboard_queue_order:
  assumes "kbd_queue_inv d" "run_machine kbd_step d es = (os, d')" "enqueued es \<noteq> []"
  shows "subseq (delivered os @ kbd_backlog d') (kbd_backlog d @ enqueued es)
    \<and> last (delivered os @ kbd_backlog d') = last (enqueued es)"
  using kbd_run_order [OF assms(1,2)] assms(3) by simp

lemma sample_queue_inv: "kbd_queue_inv sample_typing" "kbd_backlog sample_typing = []"
  using queue_init_ok [of zero_kbd_report 128]
  by (simp_all add: kbd_queue_inv_def kbd_backlog_def sample_typing_def device_boot_def)
     (simp add: queue_init_def)

theorem keyboard_queue_order_witness:
  "last (delivered (fst (run_machine kbd_step sample_typing [Enqueue sample_a, Enqueue sample_shift]))
     @ kbd_backlog (snd (run_machine kbd_step sample_typing [Enqueue sample_a, Enqueue sample_shift]))) = sample_shift"
  using keyboard_queue_order [OF sample_queue_inv(1) surjective_pairing, of "[Enqueue sample_a, Enqueue sample_shift]"]
  by (simp add: enqueued_def)

text \<open>
  The backlog always drains: from any reachable state of the queue, as many USB passes as there are
  reports in the backlog, each accepted by the host, deliver exactly the backlog in order and leave
  nothing, the waiting tail included.
\<close>

theorem keyboard_queue_drains:
  assumes "kbd_queue_inv d"
  shows "\<exists>d'. run_machine kbd_step d (replicate (length (kbd_backlog d)) (Usb_pass True True)) = (map Some (kbd_backlog d), d')
    \<and> kbd_backlog d' = []"
  using assms by (rule kbd_drain)

theorem keyboard_queue_drains_witness:
  "\<exists>d'. run_machine kbd_step (queue_kbd_report sample_a sample_typing) [Usb_pass True True] = ([Some sample_a], d')
    \<and> kbd_backlog d' = []"
proof -
  have b: "kbd_backlog (queue_kbd_report sample_a sample_typing) = [sample_a]"
    using enqueue_backlog(2) [OF sample_queue_inv(1)] sample_queue_inv(2)
    by (simp add: sample_typing_def device_boot_def)
  show ?thesis
    using keyboard_queue_drains [OF enqueue_backlog(1) [OF sample_queue_inv(1), of sample_a]] by (simp add: b)
qed

end
