(* ===== verification/Mouse.thy ===== *)
theory Mouse
  imports Pointer Keyboard
begin

text \<open>
  The pointing devices (mouse.c), the zoom assist around the tracker (zoom.c) and the switch of the active
  output (handlers.c): from a raw mouse report to the report for the selected computer, the mirrored button
  state of the two boards, and the decision to hop to the other computer.
\<close>

unbundle bit_operations_syntax

subsection \<open>Zoom assist\<close>

text \<open>The packet of \<open>send_zoom_assist_state\<close> is the packed \<open>zoom_assist_sync_t\<close>.\<close>

definition send_zoom_assist_state :: "u8 \<Rightarrow> device \<Rightarrow> device" where
  "send_zoom_assist_state out d =
     (if out \<ge> 2 then d
      else
        let t = dv_zoom_assist d ! unat out
        in queue_packet ([out, word_of_int (zoom_in_direction t), of_flag (zoom_active t), of_flag (exit_pending t)]
             @ le16 (of_nat (zoom_debt t)) @ le16 (of_nat (zoom_overscroll t))) 29 d)"

definition zoom_assist_is_active :: "device \<Rightarrow> bool" where
  "zoom_assist_is_active d \<longleftrightarrow> dv_active_output d < 2
     \<and> out_os (get_output (dv_config d) (unat (dv_active_output d))) = 2
     \<and> (zoom_active (dv_zoom_assist d ! unat (dv_active_output d))
        \<or> dv_zoom_activation_pending d ! unat (dv_active_output d))"

definition mouse_uses_relative_mode :: "device \<Rightarrow> bool" where
  "mouse_uses_relative_mode d \<longleftrightarrow> dv_relative_mouse d \<or> dv_gaming_mode d \<or> zoom_assist_is_active d"

definition is_macos_zoom_scroll :: "env \<Rightarrow> int \<Rightarrow> device \<Rightarrow> bool" where
  "is_macos_zoom_scroll e wheel d \<longleftrightarrow> wheel \<noteq> 0 \<and> dv_active_output d < 2
     \<and> (let modifiers = (if zoom_modifier_state_is_fresh (dv_peer_modifiers d) (dv_peer_modifiers_last_seen d) (env_now e)
                         then dv_local_modifiers d OR dv_peer_modifiers d else dv_local_modifiers d)
        in out_os (get_output (dv_config d) (unat (dv_active_output d))) = 2 \<and> modifiers AND 0x88 \<noteq> 0)"

definition set_tracker :: "u8 \<Rightarrow> zoom_tracker \<Rightarrow> device \<Rightarrow> device" where
  "set_tracker out t d = d\<lparr>dv_zoom_assist := (dv_zoom_assist d)[unat out := t]\<rparr>"

definition clear_zoom_assist :: "u8 \<Rightarrow> bool \<Rightarrow> device \<Rightarrow> device" where
  "clear_zoom_assist out forget_direction d =
     (if out \<ge> 2 then d
      else send_zoom_assist_state out
             (set_tracker out (snd (zoom_tracker_clear (dv_zoom_assist d ! unat out) forget_direction)) d))"

definition observe_zoom_scroll :: "env \<Rightarrow> int \<Rightarrow> device \<Rightarrow> device" where
  "observe_zoom_scroll e wheel d =
     (if \<not> is_active d \<or> \<not> is_macos_zoom_scroll e wheel d then d
      else
        let out = dv_active_output d
        in send_zoom_assist_state out
             (set_tracker out (snd (zoom_tracker_observe (dv_zoom_assist d ! unat out) wheel (env_now e))) d))"

definition sync_owned_zoom_assist :: "device \<Rightarrow> device" where
  "sync_owned_zoom_assist d =
     (let d = send_value (dv_local_modifiers d) 28 d
      in if dv_board_role d < 2 then send_zoom_assist_state (dv_board_role d) d else d)"

definition zoom_assist_task :: "env \<Rightarrow> device \<Rightarrow> device" where
  "zoom_assist_task e d =
     (let d = (if \<not> zoom_modifier_state_is_fresh (dv_peer_modifiers d) (dv_peer_modifiers_last_seen d) (env_now e)
               then d\<lparr>dv_peer_modifiers := 0\<rparr> else d)
      in if dv_board_role d \<ge> 2 then d
         else case zoom_tracker_task (dv_zoom_assist d ! unat (dv_board_role d)) (env_now e) of
             (changed, t) \<Rightarrow>
               let d = set_tracker (dv_board_role d) t d
               in if changed then send_zoom_assist_state (dv_board_role d) d else d)"

definition handle_modifier_state_msg :: "env \<Rightarrow> bytes \<Rightarrow> device \<Rightarrow> device" where
  "handle_modifier_state_msg e data d = d\<lparr>dv_peer_modifiers := data ! 0, dv_peer_modifiers_last_seen := env_now e\<rparr>"

definition handle_zoom_assist_msg :: "env \<Rightarrow> bytes \<Rightarrow> device \<Rightarrow> device" where
  "handle_zoom_assist_msg e data d =
     (let out = data ! 0; direction = sint (data ! 1); debt = unat (get16 data 4) in
      if out \<ge> 2 \<or> data ! 2 > 1 \<or> data ! 3 > 1 then d
      else if out = dv_board_role d then d
      else if direction < - 1 \<or> direction > 1 then d
      else if debt > 65535 then d
      else set_tracker out
             \<lparr>zoom_in_direction = direction, zoom_active = (data ! 2 \<noteq> 0), exit_pending = (data ! 3 \<noteq> 0),
              zoom_debt = debt, zoom_overscroll = unat (get16 data 6),
              exit_deadline = (if data ! 3 \<noteq> 0 then env_now e + 250000 else 0)\<rparr>
             (d\<lparr>dv_zoom_activation_pending := (dv_zoom_activation_pending d)[unat out := False]\<rparr>))"

definition handle_zoom_assist_clear_msg :: "bytes \<Rightarrow> device \<Rightarrow> device" where
  "handle_zoom_assist_clear_msg data d =
     (if data ! 0 \<noteq> dv_board_role d \<or> data ! 0 \<ge> 2 then d else clear_zoom_assist (data ! 0) True d)"

subsection \<open>Mouse reports and buttons\<close>

definition queue_mouse_report :: "mouse_report \<Rightarrow> device \<Rightarrow> device" where
  "queue_mouse_report rep d =
     (if \<not> dv_tud_connected d then d else d\<lparr>dv_mouse_queue := snd (queue_try_add (dv_mouse_queue d) rep)\<rparr>)"

text \<open>A report that must not be lost: the call waits up to 100 ms for core 0 to free a slot
  (\<open>env_mouse_slot\<close>), and otherwise asks for a reboot.\<close>

definition queue_mouse_report_critical :: "env \<Rightarrow> mouse_report \<Rightarrow> device \<Rightarrow> bool \<times> device" where
  "queue_mouse_report_critical e rep d =
     (if \<not> dv_tud_connected d then (False, d)
      else case queue_try_add (dv_mouse_queue d) rep of
          (True, q) \<Rightarrow> (True, d\<lparr>dv_mouse_queue := q\<rparr>)
        | (False, q) \<Rightarrow>
            if env_mouse_slot e then
              case queue_try_remove (dv_mouse_queue d) of
                (Some r, q) \<Rightarrow> (True, log_call (Mouse_sent r) (d\<lparr>dv_mouse_queue := snd (queue_try_add q rep)\<rparr>))
              | (None, q) \<Rightarrow> (False, d)
            else (False, if \<not> dv_maintenance_reserved d then d\<lparr>dv_reboot_requested := True\<rparr> else d))"

definition output_mouse_report :: "mouse_report \<Rightarrow> device \<Rightarrow> device" where
  "output_mouse_report rep d =
     (if is_active d then queue_mouse_report rep d
      else queue_packet (mouse_report_bytes rep) (if dv_peer_mouse_state_known d then 35 else 2) d)"

definition combined_mouse_buttons :: "device \<Rightarrow> u8" where
  "combined_mouse_buttons d = dv_local_mouse_buttons d OR dv_peer_mouse_buttons d"

text \<open>The union over all interfaces; \<open>changed\<close> is the mask of the interface just updated, which is one of
  them.\<close>

definition refresh_local_mouse_buttons :: "u8 \<Rightarrow> device \<Rightarrow> device" where
  "refresh_local_mouse_buttons changed d =
     (let buttons = foldl (\<lambda>m i. m OR if_mouse_buttons i) changed (concat (dv_iface d));
          d = d\<lparr>dv_local_mouse_buttons := buttons\<rparr>
      in d\<lparr>dv_mouse_buttons := combined_mouse_buttons d\<rparr>)"

definition publish_mouse_buttons :: "bool \<Rightarrow> device \<Rightarrow> device" where
  "publish_mouse_buttons detached d =
     (let data = [dv_local_mouse_buttons d, of_flag detached]
      in if detached then queue_packet_blocking data 33 d else queue_packet data 33 d)"

definition sync_mouse_buttons :: "device \<Rightarrow> device" where
  "sync_mouse_buttons d = publish_mouse_buttons False d"

text \<open>Buttons without motion, at the position the host has.\<close>

definition button_report :: "device \<Rightarrow> mouse_report" where
  "button_report d =
     (let relative = mouse_uses_relative_mode d
      in \<lparr>mr_buttons = combined_mouse_buttons d, mr_x = (if relative then 0 else dv_pointer_x d),
          mr_y = (if relative then 0 else dv_pointer_y d), mr_wheel = 0, mr_pan = 0,
          mr_mode = of_flag relative\<rparr>)"

definition set_iface :: "nat \<Rightarrow> nat \<Rightarrow> hid_interface \<Rightarrow> device \<Rightarrow> device" where
  "set_iface dev itf v d = d\<lparr>dv_iface := (dv_iface d)[dev := (dv_iface d ! dev)[itf := v]]\<rparr>"

abbreviation get_iface :: "nat \<Rightarrow> nat \<Rightarrow> device \<Rightarrow> hid_interface" where
  "get_iface dev itf d \<equiv> dv_iface d ! dev ! itf"

definition mouse_interface_removed :: "env \<Rightarrow> nat \<Rightarrow> nat \<Rightarrow> device \<Rightarrow> device" where
  "mouse_interface_removed e dev itf d =
     (let before = dv_local_mouse_buttons d;
          d = refresh_local_mouse_buttons 0 (set_iface dev itf ((get_iface dev itf d)\<lparr>if_mouse_buttons := 0\<rparr>) d)
      in if before = dv_local_mouse_buttons d then d
         else
           let d = publish_mouse_buttons True d
           in if is_active d then snd (queue_mouse_report_critical e (button_report d) d) else d)"

definition release_mouse_host_buttons :: "env \<Rightarrow> device \<Rightarrow> device" where
  "release_mouse_host_buttons e d =
     (if combined_mouse_buttons d = 0 then d
      else case queue_mouse_report_critical e
             \<lparr>mr_buttons = 0, mr_x = dv_pointer_x d, mr_y = dv_pointer_y d, mr_wheel = 0, mr_pan = 0, mr_mode = 0\<rparr> d of
          (True, d) \<Rightarrow> snd (queue_mouse_report_critical e
             \<lparr>mr_buttons = 0, mr_x = 0, mr_y = 0, mr_wheel = 0, mr_pan = 0, mr_mode = 1\<rparr> d)
        | (False, d) \<Rightarrow> d)"

definition output_source_mouse_report :: "mouse_report \<Rightarrow> device \<Rightarrow> device" where
  "output_source_mouse_report rep d =
     (if is_active d then queue_mouse_report (rep\<lparr>mr_buttons := combined_mouse_buttons d\<rparr>) d
      else queue_packet (mouse_report_bytes rep) (if dv_peer_mouse_state_known d then 34 else 2) d)"

subsection \<open>Switching outputs\<close>

definition set_active_output :: "env \<Rightarrow> u8 \<Rightarrow> device \<Rightarrow> device" where
  "set_active_output e new_output d =
     (if new_output \<ge> 2 then d
      else
        let previous = sel_output (dv_selection d); changed = (previous \<noteq> new_output);
            sel = selection_request (dv_selection d) new_output (dv_board_role d);
            d = d\<lparr>dv_selection := sel, dv_active_output := new_output\<rparr>;
            d = (if changed then log_call (Diagnostic_history_record HISTORY_OUTPUT_LOCAL (unat previous) (unat new_output) 0) d
                 else d);
            d = keyboard_focus_changed e (queue_packet_blocking (selection_encode sel) 3 (restore_leds e d))
        in if changed then release_mouse_host_buttons e d else d)"

definition announce_initial_output :: "env \<Rightarrow> device \<Rightarrow> device" where
  "announce_initial_output e d =
     keyboard_host_reset (queue_packet_blocking (selection_encode (dv_selection d)) 3 (restore_leds e d))"

definition sync_output_selection :: "device \<Rightarrow> device" where
  "sync_output_selection d = snd (queue_packet_dev (selection_encode (dv_selection d)) 32 d)"

definition receive_output_selection :: "env \<Rightarrow> bool \<Rightarrow> bytes \<Rightarrow> device \<Rightarrow> device" where
  "receive_output_selection e allow_legacy data d =
     (let legacy = (allow_legacy \<and> selection_is_legacy data); previous = dv_active_output d in
      case (if legacy then Some (True, selection_legacy_request (dv_selection d) (data ! 0) (1 - dv_board_role d))
            else map_option (\<lambda>incoming. selection_merge (dv_selection d) incoming (dv_board_role d)) (selection_decode data)) of
        None \<Rightarrow> d
      | Some (accepted, sel) \<Rightarrow>
          let d = d\<lparr>dv_selection := sel\<rparr>;
              d = (if accepted then d\<lparr>dv_active_output := sel_output sel\<rparr> else d);
              changed = (previous \<noteq> dv_active_output d)
          in if \<not> accepted then d
             else
               let d = (if changed then log_call (Diagnostic_history_record HISTORY_OUTPUT_PEER (unat previous)
                              (unat (dv_active_output d)) 0) d else d);
                   d = (if changed \<or> legacy then
                          let d = keyboard_focus_changed e d
                          in restore_leds e (if changed then release_mouse_host_buttons e d else d)
                        else d)
               in if \<not> legacy then sync_output_selection d else d)"

text \<open>\<open>queue_try_add\<close> of a packet built in place: the coordinates are cut to 16 bits.\<close>

definition sync_pointer_position :: "device \<Rightarrow> device" where
  "sync_pointer_position d =
     snd (queue_packet_dev (le16 (word_of_int (dv_pointer_x d)) @ le16 (word_of_int (dv_pointer_y d))) 26 d)"

definition switch_to_another_pc :: "env \<Rightarrow> config \<Rightarrow> u8 \<Rightarrow> u8 \<Rightarrow> u8 \<Rightarrow> device \<Rightarrow> device" where
  "switch_to_another_pc e cfg output_from output_to direction d =
     (if output_from \<ge> 2 \<or> output_to \<ge> 2 \<or> (direction \<noteq> LEFT \<and> direction \<noteq> RIGHT) then d
      else
        let park = out_mouse_park_pos (get_output cfg (unat output_from));
            next_y = scale_y_with_config (uint output_from) (uint output_to) (dv_pointer_y d) cfg;
            mouse_y = (if park = 0 then 0 else if park = 1 then 32767 else dv_pointer_y d);
            d = output_mouse_report \<lparr>mr_buttons = 0, mr_x = 32767, mr_y = mouse_y, mr_wheel = 0, mr_pan = 0, mr_mode = 0\<rparr> d;
            d = set_active_output e output_to d;
            d = d\<lparr>dv_pointer_x := (if direction = LEFT then 32767 else 0), dv_pointer_y := next_y\<rparr>
        in sync_pointer_position d)"

definition switch_virtual_desktop_macos :: "u8 \<Rightarrow> device \<Rightarrow> device" where
  "switch_virtual_desktop_macos direction d =
     (let edge = \<lparr>mr_buttons = dv_mouse_buttons d, mr_x = (if direction = LEFT then 0 else 32767), mr_y = 16383,
                  mr_wheel = 0, mr_pan = 0, mr_mode = 0\<rparr>;
          move = \<lparr>mr_buttons = 0, mr_x = (if direction = LEFT then - 10 else 10), mr_y = 0, mr_wheel = 0, mr_pan = 0,
                  mr_mode = 1\<rparr>
      in (output_mouse_report move ^^ 5) (output_mouse_report edge d))"

definition switch_virtual_desktop :: "u8 \<Rightarrow> output_t \<Rightarrow> u32 \<Rightarrow> u8 \<Rightarrow> device \<Rightarrow> device" where
  "switch_virtual_desktop output_index out new_index direction d =
     (if output_index \<ge> 2 \<or> (direction \<noteq> LEFT \<and> direction \<noteq> RIGHT) then d
      else
        let d = d\<lparr>dv_config := config_set_screen_index (dv_config d) (unat output_index) new_index\<rparr>;
            new_index = out_screen_index (normalize_screen_index (get_output (dv_config d) (unat output_index)));
            d = (if out_os out = 2 then switch_virtual_desktop_macos direction d
                 else if out_os out = 3 then d\<lparr>dv_relative_mouse := (new_index > 1)\<rparr>
                 else d)
        in d\<lparr>dv_pointer_x := (if direction = RIGHT then 0 else 32767)\<rparr>)"

definition do_screen_switch :: "env \<Rightarrow> u8 \<Rightarrow> device \<Rightarrow> device" where
  "do_screen_switch e direction d =
     (let active = dv_active_output d in
      if active \<ge> 2 \<or> (direction \<noteq> LEFT \<and> direction \<noteq> RIGHT) then d
      else
        let cfg = dv_config d; raw = get_output cfg (unat active); out = normalize_screen_index raw in
        if out_pos raw \<noteq> LEFT \<and> out_pos raw \<noteq> RIGHT then d
        else if dv_switch_lock d \<or> dv_gaming_mode d \<or> zoom_assist_is_active d then d
        else if out_pos out \<noteq> direction then
          (if out_screen_index out = 1 then
             (if dv_mouse_buttons d \<noteq> 0 then d
              else switch_to_another_pc e (set_output (unat active) out cfg) active (1 - active) direction d)
           else switch_virtual_desktop active out (out_screen_index out - 1) direction d)
        else if out_screen_index out < out_screen_count out
        then switch_virtual_desktop active out (out_screen_index out + 1) direction d
        else d)"

subsection \<open>From a raw report to the selected computer\<close>

record mouse_values =
  mv_move_x :: int
  mv_move_y :: int
  mv_wheel :: int
  mv_pan :: int
  mv_buttons :: int

definition update_mouse_position :: "env \<Rightarrow> mouse_values \<Rightarrow> device \<Rightarrow> u8 \<times> device" where
  "update_mouse_position e v d =
     (if dv_active_output d \<ge> 2 then (0, d)
      else
        let cfg = dv_config d; current = normalize_screen_index (get_output cfg (unat (dv_active_output d)));
            reduce = (if dv_mouse_zoom d then 2 else 0);
            factor = mouse_acceleration_factor (env_float e) (mv_move_x v) (mv_move_y v) (cfg_enable_acceleration cfg \<noteq> 0);
            offset_x = scaled_mouse_offset (env_float e) (mv_move_x v) factor (sint (out_speed_x current) div 2 ^ reduce);
            offset_y = scaled_mouse_offset (env_float e) (mv_move_y v) factor (sint (out_speed_y current) div 2 ^ reduce);
            direction = is_screen_switch_needed current (dv_pointer_x d) offset_x (cfg_jump_threshold cfg);
            d = d\<lparr>dv_pointer_x := move_and_keep_on_screen (dv_pointer_x d) offset_x,
                   dv_pointer_y := move_and_keep_on_screen (dv_pointer_y d) offset_y\<rparr>
        in (direction, d\<lparr>dv_mouse_buttons := combined_mouse_buttons d\<rparr>))"

text \<open>\<open>extract_value\<close> leaves its destination alone when the report belongs to another ID.\<close>

definition extract_value :: "bool \<Rightarrow> report_val \<Rightarrow> bytes \<Rightarrow> int option" where
  "extract_value uses_id src raw =
     (if uses_id then
        (if raw = [] \<or> hd raw \<noteq> rv_report_id src then None else Some (sint (get_report_value (tl raw) src)))
      else Some (sint (get_report_value raw src)))"

definition value_or :: "int \<Rightarrow> int option \<Rightarrow> int" where
  "value_or v x = (case x of None \<Rightarrow> v | Some y \<Rightarrow> y)"

text \<open>The values start at zero.\<close>

definition extract_report_values :: "bytes \<Rightarrow> hid_interface \<Rightarrow> mouse_values" where
  "extract_report_values raw iface =
     (if if_protocol iface = 0 then
        (if length raw < 3 then \<lparr>mv_move_x = 0, mv_move_y = 0, mv_wheel = 0, mv_pan = 0, mv_buttons = 0\<rparr>
         else \<lparr>mv_move_x = sint (raw ! 1), mv_move_y = sint (raw ! 2),
               mv_wheel = (if length raw > 3 then sint (raw ! 3) else 0),
               mv_pan = (if length raw > 4 then sint (raw ! 4) else 0), mv_buttons = uint (raw ! 0)\<rparr>)
      else
        let m = if_mouse iface; uses_id = if_uses_report_id iface
        in \<lparr>mv_move_x = value_or 0 (extract_value uses_id (ms_move_x m) raw),
            mv_move_y = value_or 0 (extract_value uses_id (ms_move_y m) raw),
            mv_wheel = value_or 0 (extract_value uses_id (ms_wheel m) raw),
            mv_pan = value_or 0 (extract_value uses_id (ms_pan m) raw),
            mv_buttons = (if rv_size (ms_buttons m) = 0 then uint (if_mouse_buttons iface)
              else value_or (uint (if_mouse_buttons iface)) (extract_value uses_id (ms_buttons m) raw))\<rparr>)"

definition create_mouse_report :: "mouse_values \<Rightarrow> device \<Rightarrow> mouse_report" where
  "create_mouse_report v d =
     (let rep = \<lparr>mr_buttons = word_of_int (mv_buttons v), mr_x = dv_pointer_x d, mr_y = dv_pointer_y d,
                 mr_wheel = to_int8 (mv_wheel v), mr_pan = to_int8 (mv_pan v), mr_mode = 0\<rparr>
      in if mouse_uses_relative_mode d
         then rep\<lparr>mr_x := to_int16 (mv_move_x v), mr_y := to_int16 (mv_move_y v), mr_mode := 1\<rparr> else rep)"

text \<open>The loop over the five fields of \<open>mouse_report_complete\<close>: those of other report IDs are skipped.\<close>

fun fields_complete :: "bytes \<Rightarrow> hid_interface \<Rightarrow> nat \<Rightarrow> report_val list \<Rightarrow> bool \<Rightarrow> bool" where
  "fields_complete raw iface payload_len [] found = found"
| "fields_complete raw iface payload_len (f # fs) found =
     (if rv_size f = 0 \<or> (if_uses_report_id iface \<and> rv_report_id f \<noteq> raw ! 0)
      then fields_complete raw iface payload_len fs found
      else if rv_size f > 32 \<or> unat (rv_offset f) + unat (rv_size f) > payload_len * 8 then False
      else fields_complete raw iface payload_len fs True)"

definition mouse_report_complete :: "bytes \<Rightarrow> hid_interface \<Rightarrow> bool" where
  "mouse_report_complete raw iface =
     (if raw = [] then False
      else if if_protocol iface = 0 then length raw \<ge> 3
      else
        let payload_len = length raw - (if if_uses_report_id iface then 1 else 0); m = if_mouse iface
        in payload_len > 0
           \<and> fields_complete raw iface payload_len [ms_buttons m, ms_move_x m, ms_move_y m, ms_wheel m, ms_pan m] False)"

text \<open>\<open>process_mouse_report\<close>: first the buttons of the interface and the mirrored state,\<close>

definition mouse_take_buttons :: "nat \<Rightarrow> nat \<Rightarrow> u8 \<Rightarrow> device \<Rightarrow> device" where
  "mouse_take_buttons dev itf buttons d =
     (let previous = dv_local_mouse_buttons d;
          d = refresh_local_mouse_buttons buttons (set_iface dev itf ((get_iface dev itf d)\<lparr>if_mouse_buttons := buttons\<rparr>) d)
      in if is_active d \<and> previous \<noteq> dv_local_mouse_buttons d then sync_mouse_buttons d else d)"

text \<open>then the zoom gesture, the pointer, the report and the switch.\<close>

definition mouse_note_zoom :: "env \<Rightarrow> int \<Rightarrow> bool \<Rightarrow> device \<Rightarrow> device" where
  "mouse_note_zoom e wheel zoom_scroll d =
     (if is_active d then observe_zoom_scroll e wheel d
      else if zoom_scroll
      then d\<lparr>dv_zoom_activation_pending := (dv_zoom_activation_pending d)[unat (dv_active_output d) := True]\<rparr>
      else d)"

definition mouse_emit :: "mouse_values \<Rightarrow> bool \<Rightarrow> bool \<Rightarrow> device \<Rightarrow> device" where
  "mouse_emit v zoom_scroll position_changed d =
     (if \<not> is_active d \<and> \<not> position_changed
      then queue_packet [word_of_int (mv_buttons v), word_of_int (mv_wheel v), word_of_int (mv_pan v),
             of_flag (mouse_uses_relative_mode d)] 27 d
      else
        let rep = create_mouse_report v d;
            rep = (if zoom_scroll
                   then rep\<lparr>mr_x := to_int16 (mv_move_x v), mr_y := to_int16 (mv_move_y v), mr_mode := 1\<rparr> else rep)
        in output_source_mouse_report rep d)"

definition mouse_route :: "env \<Rightarrow> mouse_values \<Rightarrow> nat \<Rightarrow> nat \<Rightarrow> device \<Rightarrow> u8 \<times> device" where
  "mouse_route e v dev itf d =
     (let d = mouse_take_buttons dev itf (word_of_int (mv_buttons v)) d;
          v = v\<lparr>mv_buttons := uint (dv_local_mouse_buttons d)\<rparr>;
          d = record_local_activity e (dv_active_output d) d;
          zoom_scroll = is_macos_zoom_scroll e (mv_wheel v) d;
          d = mouse_note_zoom e (mv_wheel v) zoom_scroll d;
          position_changed = (mv_move_x v \<noteq> 0 \<or> mv_move_y v \<noteq> 0)
      in case update_mouse_position e v d of
           (direction, d) \<Rightarrow>
             let d = mouse_emit v zoom_scroll position_changed d;
                 d = (if is_active d \<or> (position_changed \<and> (mouse_uses_relative_mode d \<or> zoom_scroll))
                      then sync_pointer_position d else d)
             in (if zoom_scroll then 0 else direction, d))"

definition process_mouse_report :: "env \<Rightarrow> bytes \<Rightarrow> nat \<Rightarrow> nat \<Rightarrow> device \<Rightarrow> device" where
  "process_mouse_report e raw dev itf d =
     (let iface = get_iface dev itf d in
      if dv_active_output d \<ge> 2 \<or> \<not> mouse_report_complete raw iface then d
      else
        let v = extract_report_values raw iface;
            d = log_call (Clipboard_mouse_buttons (if_mouse_buttons iface) (word_of_int (mv_buttons v))) d;
            v = v\<lparr>mv_move_x := canonical_mouse_axis (mv_move_x v), mv_move_y := canonical_mouse_axis (mv_move_y v),
                  mv_wheel := zoom_canonicalize_wheel (mv_wheel v)\<rparr>
        in if mv_move_x v = 0 \<and> mv_move_y v = 0 \<and> mv_wheel v = 0 \<and> mv_pan v = 0
              \<and> mv_buttons v = uint (if_mouse_buttons iface) then d
           else case mouse_route e v dev itf d of
               (direction, d) \<Rightarrow> if direction \<noteq> 0 then do_screen_switch e direction d else d)"

text \<open>One pass of the USB task: \<open>ready\<close> is \<open>tud_hid_n_ready\<close> of the interface the report uses, \<open>accepts\<close>
  the result of \<open>tud_mouse_report\<close>; the result is the report the host takes.\<close>

definition process_mouse_queue_task :: "(u8 \<Rightarrow> bool) \<Rightarrow> bool \<Rightarrow> device \<Rightarrow> mouse_report option \<times> device" where
  "process_mouse_queue_task ready accepts d =
     (if \<not> dv_tud_connected d then (None, d)
      else case queue_try_peek (dv_mouse_queue d) of
        None \<Rightarrow> (None, d)
      | Some rep \<Rightarrow>
          if \<not> ready (if mr_mode rep = 1 then 1 else 0) then (None, d)
          else if accepts then (Some rep, d\<lparr>dv_mouse_queue := snd (queue_try_remove (dv_mouse_queue d))\<rparr>)
          else (None, d))"

subsection \<open>What each operation leaves alone\<close>

text \<open>The part of the state that routes the pointer.\<close>

definition core :: "device \<Rightarrow> (u8 \<times> u8 \<times> config \<times> bool \<times> bool \<times> bool) \<times> (int \<times> int) \<times> (u8 \<times> u8 \<times> u8)
    \<times> (zoom_tracker list \<times> bool list \<times> hid_interface list list) \<times> selection_state \<times> bool" where
  "core d = ((dv_active_output d, dv_board_role d, dv_config d, dv_switch_lock d, dv_gaming_mode d, dv_relative_mouse d),
     (dv_pointer_x d, dv_pointer_y d), (dv_mouse_buttons d, dv_local_mouse_buttons d, dv_peer_mouse_buttons d),
     (dv_zoom_assist d, dv_zoom_activation_pending d, dv_iface d), dv_selection d, dv_mouse_zoom d)"

lemma coreD:
  assumes "core d' = core d"
  shows "dv_active_output d' = dv_active_output d" "dv_board_role d' = dv_board_role d" "dv_config d' = dv_config d"
    "dv_switch_lock d' = dv_switch_lock d" "dv_gaming_mode d' = dv_gaming_mode d" "dv_relative_mouse d' = dv_relative_mouse d"
    "dv_pointer_x d' = dv_pointer_x d" "dv_pointer_y d' = dv_pointer_y d" "dv_mouse_buttons d' = dv_mouse_buttons d"
    "dv_local_mouse_buttons d' = dv_local_mouse_buttons d" "dv_peer_mouse_buttons d' = dv_peer_mouse_buttons d"
    "dv_zoom_assist d' = dv_zoom_assist d" "dv_zoom_activation_pending d' = dv_zoom_activation_pending d"
    "dv_iface d' = dv_iface d" "dv_selection d' = dv_selection d" "dv_mouse_zoom d' = dv_mouse_zoom d"
  using assms by (simp_all add: core_def)

lemma core_log_call [simp]: "core (log_call c d) = core d"
  by (simp add: core_def log_call_def)

lemma core_queue_packet [simp]: "core (queue_packet data t d) = core d"
proof -
  obtain q c where "queue_packet data t d = d\<lparr>dv_uart_tx_queue := q, dv_calls := c\<rparr>" using queue_packet_frame by blast
  then show ?thesis by (simp add: core_def)
qed

lemma core_queue_packet_dev [simp]: "core (snd (queue_packet_dev data t d)) = core d"
  using queue_packet_dev_frame [of data t d "fst (queue_packet_dev data t d)" "snd (queue_packet_dev data t d)"]
  by (auto simp: core_def)

lemma core_make_room [simp]: "core (make_room d) = core d"
  by (auto simp: make_room_def core_def log_call_def split: prod.splits option.splits)

lemma core_send [simp]:
  "core (queue_packet_blocking data t d) = core d" "core (send_value v t d) = core d"
  "core (send_zoom_assist_state out d) = core d" "core (sync_pointer_position d) = core d"
  "core (sync_output_selection d) = core d" "core (publish_mouse_buttons b d) = core d" "core (sync_mouse_buttons d) = core d"
  by (simp_all add: queue_packet_blocking_def send_value_def send_zoom_assist_state_def sync_pointer_position_def
      sync_output_selection_def publish_mouse_buttons_def sync_mouse_buttons_def Let_def)

lemma core_queue_mouse [simp]: "core (queue_mouse_report r d) = core d"
  by (simp add: queue_mouse_report_def core_def)

lemma core_critical [simp]: "core (snd (queue_mouse_report_critical e r d)) = core d"
  by (auto simp: queue_mouse_report_critical_def core_def log_call_def split: prod.splits bool.splits option.splits)

lemma core_release [simp]: "core (release_mouse_host_buttons e d) = core d"
proof -
  have "core (case queue_mouse_report_critical e r d of (True, d) \<Rightarrow> snd (queue_mouse_report_critical e r' d) | (False, d) \<Rightarrow> d)
    = core d" for r r'
    using core_critical [of e r d] by (cases "queue_mouse_report_critical e r d"; cases "fst (queue_mouse_report_critical e r d)") auto
  then show ?thesis by (simp add: release_mouse_host_buttons_def)
qed

lemma core_output [simp]: "core (output_mouse_report r d) = core d" "core (output_source_mouse_report r d) = core d"
  by (simp_all add: output_mouse_report_def output_source_mouse_report_def)

lemma core_leds [simp]: "core (restore_leds e d) = core d"
  by (simp add: restore_leds_def set_keyboard_leds_def core_def log_call_def Let_def)

lemma core_activity [simp]: "core (record_local_activity e out d) = core d"
  by (simp add: record_local_activity_def core_def Let_def)

lemma core_kbd [simp]:
  "core (queue_kbd_report r d) = core d" "core (keyboard_host_reset d) = core d" "core (keyboard_sync_reset e d) = core d"
  "core (keyboard_sync_publish d) = core d" "core (keyboard_queue_current d) = core d"
  by (simp_all add: queue_kbd_report_def keyboard_host_reset_def keyboard_sync_reset_def keyboard_sync_publish_def
      keyboard_queue_current_def core_def log_call_def Let_def split: prod.splits bool.splits)

lemma core_publish_modifiers [simp]: "core (publish_local_modifiers d) = core d"
  by (simp add: publish_local_modifiers_def Let_def) (simp add: core_def)

lemma core_release_all [simp]: "core (release_all_keys d) = core d"
  by (simp add: release_all_keys_def Let_def) (simp add: core_def)

lemma core_focus [simp]: "core (keyboard_focus_changed e d) = core d"
  by (simp add: keyboard_focus_changed_def)

text \<open>The operations that do change it, through the fields they change.\<close>

lemma set_active_output_core:
  assumes "out < 2"
  shows "core (set_active_output e out d)
    = core (d\<lparr>dv_selection := selection_request (dv_selection d) out (dv_board_role d), dv_active_output := out\<rparr>)"
  using assms [folded not_le] by (simp add: set_active_output_def Let_def)

lemma set_tracker_fields [simp]:
  "dv_pointer_x (set_tracker out t d) = dv_pointer_x d" "dv_pointer_y (set_tracker out t d) = dv_pointer_y d"
  by (simp_all add: set_tracker_def)

lemma switch_to_another_pc_core:
  assumes "a < 2" "b < 2" "direction = LEFT \<or> direction = RIGHT"
  defines "x \<equiv> (if direction = LEFT then 32767 else 0)"
  shows "core (switch_to_another_pc e c a b direction d)
    = core (d\<lparr>dv_selection := selection_request (dv_selection d) b (dv_board_role d), dv_active_output := b,
        dv_pointer_x := x, dv_pointer_y := scale_y_with_config (uint a) (uint b) (dv_pointer_y d) c\<rparr>)"
proof -
  define d1 where "d1 = output_mouse_report \<lparr>mr_buttons = 0, mr_x = 32767,
    mr_y = (if out_mouse_park_pos (get_output c (unat a)) = 0 then 0 else if out_mouse_park_pos (get_output c (unat a)) = 1
      then 32767 else dv_pointer_y d), mr_wheel = 0, mr_pan = 0, mr_mode = 0\<rparr> d"
  note d1 = coreD [of d1 d, unfolded d1_def, OF core_output(1), folded d1_def]
  note d2 = coreD [OF set_active_output_core [OF assms(2), of e d1]]
  have ok: "\<not> (a \<ge> 2 \<or> b \<ge> 2 \<or> (direction \<noteq> LEFT \<and> direction \<noteq> RIGHT))" using assms(1-3) by (auto dest: leD)
  show ?thesis
    unfolding switch_to_another_pc_def if_not_P [OF ok] Let_def d1_def [symmetric]
    using d1 d2 by (simp add: x_def) (simp add: core_def)
qed

subsection \<open>The pointer and the hop\<close>

definition pointer_ok :: "device \<Rightarrow> bool" where
  [inv_simps]: "pointer_ok d \<longleftrightarrow> on_screen (dv_pointer_x d) \<and> on_screen (dv_pointer_y d)"

lemma core_pointer_ok: "core d' = core d \<Longrightarrow> pointer_ok d' = pointer_ok d"
  by (simp add: core_def pointer_ok_def)

lemma on_screen_edges [simp]: "on_screen 0" "on_screen 32767"
  by (simp_all add: on_screen_def)

lemma core_repeat_output [simp]: "core ((output_mouse_report r ^^ n) d) = core d"
  by (induction n) simp_all

lemma core_desktop_macos [simp]: "core (switch_virtual_desktop_macos direction d) = core d"
  by (simp add: switch_virtual_desktop_macos_def Let_def)

lemma switch_virtual_desktop_frame:
  "dv_active_output (switch_virtual_desktop i out n direction d) = dv_active_output d"
  "dv_selection (switch_virtual_desktop i out n direction d) = dv_selection d"
  "pointer_ok d \<Longrightarrow> pointer_ok (switch_virtual_desktop i out n direction d)"
  by (simp_all add: switch_virtual_desktop_def Let_def pointer_ok_def coreD [OF core_desktop_macos])

text \<open>When the pointer may take the user to the other computer: from the main screen, in the direction of
  the other computer, with no lock, gaming mode, zoom or held button in the way.\<close>

definition may_hop :: "u8 \<Rightarrow> device \<Rightarrow> bool" where
  "may_hop direction d \<longleftrightarrow>
     (let out = get_output (dv_config d) (unat (dv_active_output d)) in
      dv_active_output d < 2 \<and> (direction = LEFT \<or> direction = RIGHT)
      \<and> (out_pos out = LEFT \<or> out_pos out = RIGHT) \<and> out_pos out \<noteq> direction
      \<and> out_screen_index (normalize_screen_index out) = 1
      \<and> \<not> dv_switch_lock d \<and> \<not> dv_gaming_mode d \<and> \<not> zoom_assist_is_active d \<and> dv_mouse_buttons d = 0)"

lemma normalize_pos [simp]: "out_pos (normalize_screen_index out) = out_pos out"
  by (simp add: normalize_screen_index_def Let_def)

lemma do_screen_switch_hops:
  assumes "may_hop direction d"
  shows "do_screen_switch e direction d
    = switch_to_another_pc e (set_output (unat (dv_active_output d)) (normalize_screen_index (get_output (dv_config d)
        (unat (dv_active_output d)))) (dv_config d)) (dv_active_output d) (1 - dv_active_output d) direction d"
proof -
  have "\<not> (dv_active_output d \<ge> 2 \<or> (direction \<noteq> LEFT \<and> direction \<noteq> RIGHT))" using assms
    by (auto simp: may_hop_def Let_def dest: leD)
  then show ?thesis using assms by (auto simp: do_screen_switch_def may_hop_def Let_def)
qed

lemma do_screen_switch_stays:
  assumes "\<not> may_hop direction d"
  shows "dv_active_output (do_screen_switch e direction d) = dv_active_output d"
    "dv_selection (do_screen_switch e direction d) = dv_selection d"
    "pointer_ok d \<Longrightarrow> pointer_ok (do_screen_switch e direction d)"
  using assms
  by (auto simp: do_screen_switch_def may_hop_def Let_def switch_virtual_desktop_frame not_le)

lemma hop_target: "(a :: u8) < 2 \<Longrightarrow> 1 - a < 2" "(a :: u8) < 2 \<Longrightarrow> 1 - a \<noteq> a"
proof -
  assume "a < 2"
  then have "a \<le> 1" by unat_arith
  then show "1 - a < 2" "1 - a \<noteq> a" by (auto simp: u8_le_1)
qed

lemma do_screen_switch_hop_core:
  assumes "may_hop direction d"
  shows "dv_active_output (do_screen_switch e direction d) = 1 - dv_active_output d"
    "dv_selection (do_screen_switch e direction d) = selection_request (dv_selection d) (1 - dv_active_output d) (dv_board_role d)"
    "dv_pointer_x (do_screen_switch e direction d) = (if direction = LEFT then 32767 else 0)"
    "on_screen (dv_pointer_y (do_screen_switch e direction d))"
proof -
  have a: "dv_active_output d < 2" "direction = LEFT \<or> direction = RIGHT" using assms by (auto simp: may_hop_def Let_def)
  note c = coreD [OF switch_to_another_pc_core [OF a(1) hop_target(1) [OF a(1)] a(2)]]
  show "dv_active_output (do_screen_switch e direction d) = 1 - dv_active_output d"
    "dv_selection (do_screen_switch e direction d) = selection_request (dv_selection d) (1 - dv_active_output d) (dv_board_role d)"
    "dv_pointer_x (do_screen_switch e direction d) = (if direction = LEFT then 32767 else 0)"
    "on_screen (dv_pointer_y (do_screen_switch e direction d))"
    unfolding do_screen_switch_hops [OF assms] using c scale_on_screen by simp_all
qed

lemma do_screen_switch_pointer: "pointer_ok d \<Longrightarrow> pointer_ok (do_screen_switch e direction d)"
  using do_screen_switch_stays(3) [of direction d e] do_screen_switch_hop_core(3,4) [of direction d e]
  by (cases "may_hop direction d") (auto simp: pointer_ok_def)

lemma observe_zoom_frame:
  "dv_active_output (observe_zoom_scroll e w d) = dv_active_output d" "dv_selection (observe_zoom_scroll e w d) = dv_selection d"
  "pointer_ok (observe_zoom_scroll e w d) = pointer_ok d" "dv_board_role (observe_zoom_scroll e w d) = dv_board_role d"
  "dv_switch_lock (observe_zoom_scroll e w d) = dv_switch_lock d" "dv_gaming_mode (observe_zoom_scroll e w d) = dv_gaming_mode d"
  "dv_config (observe_zoom_scroll e w d) = dv_config d"
  "dv_local_mouse_buttons (observe_zoom_scroll e w d) = dv_local_mouse_buttons d"
  "dv_peer_mouse_buttons (observe_zoom_scroll e w d) = dv_peer_mouse_buttons d"
  "dv_iface (observe_zoom_scroll e w d) = dv_iface d" "dv_pointer_x (observe_zoom_scroll e w d) = dv_pointer_x d"
  "dv_mouse_zoom (observe_zoom_scroll e w d) = dv_mouse_zoom d"
  by (simp_all add: observe_zoom_scroll_def Let_def coreD [OF core_send(3)] core_pointer_ok [OF core_send(3)])
     (simp_all add: set_tracker_def pointer_ok_def)

lemma core_route_setters [simp]:
  "core (if b then sync_pointer_position d else d) = core d" "core (mouse_emit v z p d) = core d"
  by (simp_all add: mouse_emit_def Let_def)

lemma or_fold_bit: "bit (foldl (\<lambda>m i. m OR f i) (a :: u8) xs) n \<longleftrightarrow> bit a n \<or> (\<exists>x\<in>set xs. bit (f x) n)"
  by (induction xs arbitrary: a) (auto simp: bit_or_iff)

text \<open>What the handling of one report, up to the switch, does to the routing state.\<close>

lemma take_buttons_frame:
  "dv_active_output (mouse_take_buttons dev itf b d) = dv_active_output d"
  "dv_selection (mouse_take_buttons dev itf b d) = dv_selection d"
  "dv_board_role (mouse_take_buttons dev itf b d) = dv_board_role d" "dv_config (mouse_take_buttons dev itf b d) = dv_config d"
  "dv_switch_lock (mouse_take_buttons dev itf b d) = dv_switch_lock d"
  "dv_gaming_mode (mouse_take_buttons dev itf b d) = dv_gaming_mode d"
  "dv_peer_mouse_buttons (mouse_take_buttons dev itf b d) = dv_peer_mouse_buttons d"
  "dv_pointer_x (mouse_take_buttons dev itf b d) = dv_pointer_x d"
  "dv_mouse_zoom (mouse_take_buttons dev itf b d) = dv_mouse_zoom d"
  "dv_zoom_assist (mouse_take_buttons dev itf b d) = dv_zoom_assist d"
  "dv_zoom_activation_pending (mouse_take_buttons dev itf b d) = dv_zoom_activation_pending d"
  "dv_iface (mouse_take_buttons dev itf b d) = dv_iface (set_iface dev itf ((get_iface dev itf d)\<lparr>if_mouse_buttons := b\<rparr>) d)"
  "dv_local_mouse_buttons (mouse_take_buttons dev itf b d) = foldl (\<lambda>m i. m OR if_mouse_buttons i) b
     (concat (dv_iface (set_iface dev itf ((get_iface dev itf d)\<lparr>if_mouse_buttons := b\<rparr>) d)))"
  by (simp_all add: mouse_take_buttons_def Let_def coreD [OF core_send(7)])
     (simp_all add: refresh_local_mouse_buttons_def set_iface_def Let_def)

lemma note_zoom_frame:
  "dv_active_output (mouse_note_zoom e w z d) = dv_active_output d" "dv_selection (mouse_note_zoom e w z d) = dv_selection d"
  "dv_board_role (mouse_note_zoom e w z d) = dv_board_role d" "dv_config (mouse_note_zoom e w z d) = dv_config d"
  "dv_switch_lock (mouse_note_zoom e w z d) = dv_switch_lock d" "dv_gaming_mode (mouse_note_zoom e w z d) = dv_gaming_mode d"
  "dv_local_mouse_buttons (mouse_note_zoom e w z d) = dv_local_mouse_buttons d"
  "dv_peer_mouse_buttons (mouse_note_zoom e w z d) = dv_peer_mouse_buttons d"
  "dv_iface (mouse_note_zoom e w z d) = dv_iface d" "dv_pointer_x (mouse_note_zoom e w z d) = dv_pointer_x d"
  "dv_mouse_zoom (mouse_note_zoom e w z d) = dv_mouse_zoom d"
  by (simp_all add: mouse_note_zoom_def observe_zoom_frame)

lemma update_position_frame:
  assumes "update_mouse_position e v d = (dir, d')" "dv_active_output d < 2"
  shows "dv_active_output d' = dv_active_output d" "dv_selection d' = dv_selection d" "dv_board_role d' = dv_board_role d"
    "dv_config d' = dv_config d" "dv_switch_lock d' = dv_switch_lock d" "dv_gaming_mode d' = dv_gaming_mode d"
    "dv_local_mouse_buttons d' = dv_local_mouse_buttons d" "dv_peer_mouse_buttons d' = dv_peer_mouse_buttons d"
    "dv_mouse_buttons d' = dv_local_mouse_buttons d OR dv_peer_mouse_buttons d" "pointer_ok d'" "dv_iface d' = dv_iface d"
  using assms(1) assms(2) [folded not_le]
  by (auto simp: update_mouse_position_def Let_def combined_mouse_buttons_def pointer_ok_def keep_on_screen)

lemma mouse_route_frame:
  assumes "mouse_route e v dev itf d = (dir, d')" "dv_active_output d < 2"
  shows "dv_active_output d' = dv_active_output d" "dv_selection d' = dv_selection d" "dv_config d' = dv_config d"
    "dv_switch_lock d' = dv_switch_lock d" "dv_gaming_mode d' = dv_gaming_mode d" "dv_board_role d' = dv_board_role d"
    "dv_mouse_buttons d' = foldl (\<lambda>m i. m OR if_mouse_buttons i) (word_of_int (mv_buttons v))
       (concat (dv_iface (set_iface dev itf ((get_iface dev itf d)\<lparr>if_mouse_buttons := word_of_int (mv_buttons v)\<rparr>) d)))
       OR dv_peer_mouse_buttons d" "pointer_ok d'"
    "dv_iface d' = dv_iface (set_iface dev itf ((get_iface dev itf d)\<lparr>if_mouse_buttons := word_of_int (mv_buttons v)\<rparr>) d)"
    "dv_peer_mouse_buttons d' = dv_peer_mouse_buttons d"
    "dv_local_mouse_buttons d' = foldl (\<lambda>m i. m OR if_mouse_buttons i) (word_of_int (mv_buttons v)) (concat (dv_iface d'))"
proof -
  define d1 where "d1 = mouse_take_buttons dev itf (word_of_int (mv_buttons v)) d"
  define v1 where "v1 = v\<lparr>mv_buttons := uint (dv_local_mouse_buttons d1)\<rparr>"
  have w: "mv_wheel v1 = mv_wheel v" "mv_move_x v1 = mv_move_x v" "mv_move_y v1 = mv_move_y v" by (simp_all add: v1_def)
  define d2 where "d2 = record_local_activity e (dv_active_output d1) d1"
  define z where "z = is_macos_zoom_scroll e (mv_wheel v) d2"
  define d3 where "d3 = mouse_note_zoom e (mv_wheel v) z d2"
  obtain dir1 d4 where u: "update_mouse_position e v1 d3 = (dir1, d4)" by fastforce
  define p where "p = (mv_move_x v \<noteq> 0 \<or> mv_move_y v \<noteq> 0)"
  define d5 where "d5 = mouse_emit v1 z p d4"
  have d': "d' = (if is_active d5 \<or> (p \<and> (mouse_uses_relative_mode d5 \<or> z)) then sync_pointer_position d5 else d5)"
    using assms(1) u
    unfolding mouse_route_def Let_def d1_def [symmetric] v1_def [symmetric] w d2_def [symmetric] z_def [symmetric]
      d3_def [symmetric] p_def [symmetric]
    by (auto simp: d5_def)
  have c: "core d' = core d4" by (simp add: d' d5_def)
  have c2: "core d2 = core d1" by (simp add: d2_def)
  have a: "dv_active_output d3 < 2" using assms(2) by (simp add: d3_def note_zoom_frame d2_def coreD [OF core_activity] d1_def take_buttons_frame)
  note eqs = coreD [OF c] update_position_frame [OF u a] note_zoom_frame [of e "mv_wheel v" z d2, folded d3_def] coreD [OF c2]
    take_buttons_frame [of dev itf "word_of_int (mv_buttons v)" d, folded d1_def]
  show "dv_active_output d' = dv_active_output d" "dv_selection d' = dv_selection d" "dv_config d' = dv_config d"
    "dv_switch_lock d' = dv_switch_lock d" "dv_gaming_mode d' = dv_gaming_mode d" "dv_board_role d' = dv_board_role d"
    by (simp_all add: eqs)
  show "dv_mouse_buttons d' = foldl (\<lambda>m i. m OR if_mouse_buttons i) (word_of_int (mv_buttons v))
       (concat (dv_iface (set_iface dev itf ((get_iface dev itf d)\<lparr>if_mouse_buttons := word_of_int (mv_buttons v)\<rparr>) d)))
       OR dv_peer_mouse_buttons d" by (simp only: eqs)
  show "pointer_ok d'" using update_position_frame(10) [OF u a] core_pointer_ok [OF c] by simp
  show iface: "dv_iface d' = dv_iface (set_iface dev itf ((get_iface dev itf d)\<lparr>if_mouse_buttons := word_of_int (mv_buttons v)\<rparr>) d)"
    by (simp only: eqs)
  show "dv_peer_mouse_buttons d' = dv_peer_mouse_buttons d" by (simp only: eqs)
  show "dv_local_mouse_buttons d' = foldl (\<lambda>m i. m OR if_mouse_buttons i) (word_of_int (mv_buttons v)) (concat (dv_iface d'))"
    unfolding iface by (simp only: eqs)
qed

lemma note_zoom_still: "mouse_note_zoom e 0 z d = (if \<not> is_active d \<and> z
    then d\<lparr>dv_zoom_activation_pending := (dv_zoom_activation_pending d)[unat (dv_active_output d) := True]\<rparr> else d)"
  by (auto simp: mouse_note_zoom_def observe_zoom_scroll_def is_macos_zoom_scroll_def)

text \<open>A direction other than none comes from the pointer.\<close>

lemma mouse_route_direction:
  fixes e :: env
  assumes "mouse_route e v dev itf d = (dir, d')" "dir \<noteq> 0" "dv_active_output d < 2"
  defines "out \<equiv> normalize_screen_index (get_output (dv_config d) (unat (dv_active_output d)))"
    and "F \<equiv> env_float e"
  shows "dir = is_screen_switch_needed out (dv_pointer_x d)
      (scaled_mouse_offset F (mv_move_x v) (mouse_acceleration_factor F (mv_move_x v) (mv_move_y v)
         (cfg_enable_acceleration (dv_config d) \<noteq> 0)) (sint (out_speed_x out) div 2 ^ (if dv_mouse_zoom d then 2 else 0)))
      (cfg_jump_threshold (dv_config d))"
proof -
  define d1 where "d1 = mouse_take_buttons dev itf (word_of_int (mv_buttons v)) d"
  define v1 where "v1 = v\<lparr>mv_buttons := uint (dv_local_mouse_buttons d1)\<rparr>"
  have w: "mv_wheel v1 = mv_wheel v" "mv_move_x v1 = mv_move_x v" "mv_move_y v1 = mv_move_y v" by (simp_all add: v1_def)
  define d2 where "d2 = record_local_activity e (dv_active_output d1) d1"
  define z where "z = is_macos_zoom_scroll e (mv_wheel v) d2"
  define d3 where "d3 = mouse_note_zoom e (mv_wheel v) z d2"
  obtain dir1 d4 where u: "update_mouse_position e v1 d3 = (dir1, d4)" by fastforce
  have dir: "dir = dir1"
    using assms(1,2) u
    unfolding mouse_route_def Let_def d1_def [symmetric] v1_def [symmetric] w d2_def [symmetric] z_def [symmetric] d3_def [symmetric]
    by (auto split: if_splits)
  note eqs = note_zoom_frame [of e "mv_wheel v" z d2, folded d3_def] coreD [of d2 d1, unfolded d2_def, OF core_activity, folded d2_def]
    take_buttons_frame [of dev itf "word_of_int (mv_buttons v)" d, folded d1_def]
  have a: "\<not> dv_active_output d3 \<ge> 2" using assms(3) by (simp add: eqs not_le)
  show ?thesis using u a unfolding dir by (auto simp: update_mouse_position_def Let_def w eqs out_def F_def)
qed

text \<open>A movement without the wheel: the direction comes from the pointer, and zoom is left alone.\<close>

lemma mouse_route_motion:
  fixes e :: env
  assumes "dv_active_output d < 2" "mv_wheel v = 0"
  defines "out \<equiv> normalize_screen_index (get_output (dv_config d) (unat (dv_active_output d)))"
    and "F \<equiv> env_float e"
  shows "fst (mouse_route e v dev itf d) = is_screen_switch_needed out (dv_pointer_x d)
      (scaled_mouse_offset F (mv_move_x v) (mouse_acceleration_factor F (mv_move_x v) (mv_move_y v)
         (cfg_enable_acceleration (dv_config d) \<noteq> 0)) (sint (out_speed_x out) div 2 ^ (if dv_mouse_zoom d then 2 else 0)))
      (cfg_jump_threshold (dv_config d))"
    and "zoom_assist_is_active (snd (mouse_route e v dev itf d)) = zoom_assist_is_active d"
proof -
  define d1 where "d1 = mouse_take_buttons dev itf (word_of_int (mv_buttons v)) d"
  define v1 where "v1 = v\<lparr>mv_buttons := uint (dv_local_mouse_buttons d1)\<rparr>"
  have w: "mv_wheel v1 = 0" "mv_move_x v1 = mv_move_x v" "mv_move_y v1 = mv_move_y v" by (simp_all add: v1_def assms(2))
  define d2 where "d2 = record_local_activity e (dv_active_output d1) d1"
  have z: "is_macos_zoom_scroll e 0 d2 = False" by (simp add: is_macos_zoom_scroll_def)
  have d3: "mouse_note_zoom e 0 False d2 = d2" by (simp add: note_zoom_still)
  define p where "p = (mv_move_x v \<noteq> 0 \<or> mv_move_y v \<noteq> 0)"
  obtain dir d4 where u: "update_mouse_position e v1 d2 = (dir, d4)" by fastforce
  have r: "fst (mouse_route e v dev itf d) = dir" "core (snd (mouse_route e v dev itf d)) = core d4"
    unfolding mouse_route_def Let_def d1_def [symmetric] v1_def [symmetric] w d2_def [symmetric] z d3 u p_def [symmetric]
    by simp_all
  note eqs = coreD [of d2 d1, unfolded d2_def, OF core_activity, folded d2_def]
    take_buttons_frame [of dev itf "word_of_int (mv_buttons v)" d, folded d1_def]
  have a: "\<not> dv_active_output d2 \<ge> 2" using assms(1) by (simp add: eqs not_le)
  show "fst (mouse_route e v dev itf d) = is_screen_switch_needed out (dv_pointer_x d)
      (scaled_mouse_offset F (mv_move_x v) (mouse_acceleration_factor F (mv_move_x v) (mv_move_y v)
         (cfg_enable_acceleration (dv_config d) \<noteq> 0)) (sint (out_speed_x out) div 2 ^ (if dv_mouse_zoom d then 2 else 0)))
      (cfg_jump_threshold (dv_config d))"
    using u a r(1) by (auto simp: update_mouse_position_def Let_def w eqs out_def F_def)
  have "dv_zoom_assist d4 = dv_zoom_assist d2" "dv_zoom_activation_pending d4 = dv_zoom_activation_pending d2"
    using u a by (auto simp: update_mouse_position_def Let_def)
  then show "zoom_assist_is_active (snd (mouse_route e v dev itf d)) = zoom_assist_is_active d"
    using update_position_frame [OF u] a by (simp add: zoom_assist_is_active_def coreD [OF r(2)] eqs not_le)
qed

subsection \<open>Properties\<close>

definition buttons_held :: "device \<Rightarrow> bool" where
  "buttons_held d \<longleftrightarrow> dv_peer_mouse_buttons d \<noteq> 0 \<or> (\<exists>i\<in>set (concat (dv_iface d)). if_mouse_buttons i \<noteq> 0)"

lemma or_fold_zero:
  assumes "foldl (\<lambda>m i. m OR f i) (a :: u8) xs OR p = 0"
  shows "p = 0" "\<forall>x\<in>set xs. f x = 0"
proof -
  have b: "\<not> bit (foldl (\<lambda>m i. m OR f i) a xs) n" "\<not> bit p n" for n
    using arg_cong [OF assms, of "\<lambda>w. bit w n"] by (simp_all add: bit_or_iff)
  show "p = 0" using b(2) by (intro bit_word_eqI) simp
  show "\<forall>x\<in>set xs. f x = 0" using b(1) by (auto simp: or_fold_bit intro!: bit_word_eqI)
qed

lemma process_mouse_report_cases:
  assumes "dv_active_output (process_mouse_report e raw dev itf d) \<noteq> dv_active_output d"
  obtains v dir d0 d1 where "mouse_route e v dev itf d0 = (dir, d1)" "core d0 = core d" "may_hop dir d1"
    "dv_active_output d < 2" "process_mouse_report e raw dev itf d = do_screen_switch e dir d1"
    "mv_move_x v = canonical_mouse_axis (mv_move_x (extract_report_values raw (get_iface dev itf d)))"
    "mv_move_y v = canonical_mouse_axis (mv_move_y (extract_report_values raw (get_iface dev itf d)))"
proof -
  define iface where "iface = get_iface dev itf d"
  define v0 where "v0 = extract_report_values raw iface"
  define v where "v = v0\<lparr>mv_move_x := canonical_mouse_axis (mv_move_x v0), mv_move_y := canonical_mouse_axis (mv_move_y v0),
    mv_wheel := zoom_canonicalize_wheel (mv_wheel v0)\<rparr>"
  define d0 where "d0 = log_call (Clipboard_mouse_buttons (if_mouse_buttons iface) (word_of_int (mv_buttons v0))) d"
  obtain dir d1 where r: "mouse_route e v dev itf d0 = (dir, d1)" by fastforce
  have c: "core d0 = core d" by (simp add: d0_def)
  note p = process_mouse_report_def [of e raw dev itf d, folded iface_def, unfolded Let_def, folded v0_def, folded d0_def v_def, unfolded r]
  have two: "\<not> dv_active_output d \<ge> 2" using assms p by (auto split: if_splits)
  then have a: "dv_active_output d0 < 2" using coreD(1) [OF c] by (simp add: not_le)
  have "process_mouse_report e raw dev itf d = do_screen_switch e dir d1"
    using assms p coreD(1) [OF c] mouse_route_frame(1) [OF r a] by (auto split: if_splits)
  moreover from this have "may_hop dir d1"
    using assms do_screen_switch_stays(1) [of dir d1 e] coreD(1) [OF c] mouse_route_frame(1) [OF r a] by auto
  ultimately show thesis using that [OF r c] two by (simp add: not_le v_def v0_def iface_def)
qed

text \<open>How far the report moves the pointer to the right.\<close>

definition report_offset :: "env \<Rightarrow> bytes \<Rightarrow> nat \<Rightarrow> nat \<Rightarrow> device \<Rightarrow> int" where
  "report_offset e raw dev itf d =
     (let v = extract_report_values raw (get_iface dev itf d); x = canonical_mouse_axis (mv_move_x v); y = canonical_mouse_axis (mv_move_y v);
          out = normalize_screen_index (get_output (dv_config d) (unat (dv_active_output d)))
      in scaled_mouse_offset (env_float e) x (mouse_acceleration_factor (env_float e) x y (cfg_enable_acceleration (dv_config d) \<noteq> 0))
           (sint (out_speed_x out) div 2 ^ (if dv_mouse_zoom d then 2 else 0)))"

text \<open>
  C10. The pointer changes computers only when it should. If a mouse report of whatever content moves the
  selection, then switching was not locked, gaming mode was off, and once the wheel of this report is taken into
  account no zoom is in progress on the computer that is left; the pointer was on the main screen next to the other
  computer, and the motion of this report carried it over the edge of the screen on the other computer's side (beyond
  the left edge from the right-hand computer, beyond the right edge from the left-hand one) by more than the jump
  threshold that applies there; after the report no mouse button is held on either board; the other computer is
  selected under a fresh token and the pointer enters its screen on the side it came from.
\<close>

theorem mouse_hop_guarded:
  assumes "dv_active_output (process_mouse_report e raw dev itf d) \<noteq> dv_active_output d"
  defines "d' \<equiv> process_mouse_report e raw dev itf d"
    and "out \<equiv> get_output (dv_config d) (unat (dv_active_output d))"
    and "x \<equiv> dv_pointer_x d + report_offset e raw dev itf d"
    and "margin \<equiv> get_jump_threshold (normalize_screen_index (get_output (dv_config d) (unat (dv_active_output d))))
      (if report_offset e raw dev itf d < 0 then LEFT else RIGHT) (cfg_jump_threshold (dv_config d))"
  shows "\<not> dv_switch_lock d \<and> \<not> dv_gaming_mode d \<and> \<not> zoom_assist_is_active (d'\<lparr>dv_active_output := dv_active_output d\<rparr>)
    \<and> out_screen_index (normalize_screen_index out) = 1
    \<and> (out_pos out = RIGHT \<and> x < 0 - margin \<or> out_pos out = LEFT \<and> x > 32767 + margin) \<and> \<not> buttons_held d'
    \<and> dv_active_output d' = 1 - dv_active_output d \<and> sel_output (dv_selection d') = dv_active_output d'
    \<and> sel_counter (dv_selection d') = sel_counter (dv_selection d) + 1
    \<and> dv_pointer_x d' = (if out_pos out = RIGHT then 32767 else 0) \<and> on_screen (dv_pointer_y d')"
proof -
  obtain v dir d0 d1 where r: "mouse_route e v dev itf d0 = (dir, d1)" and c: "core d0 = core d" and hop: "may_hop dir d1"
    and two: "dv_active_output d < 2" and d': "d' = do_screen_switch e dir d1"
    and mv: "mv_move_x v = canonical_mouse_axis (mv_move_x (extract_report_values raw (get_iface dev itf d)))"
      "mv_move_y v = canonical_mouse_axis (mv_move_y (extract_report_values raw (get_iface dev itf d)))"
    using process_mouse_report_cases [OF assms(1)] unfolding d'_def by metis
  have a: "dv_active_output d0 < 2" using two coreD(1) [OF c] by simp
  note f = mouse_route_frame [OF r a]
  note h = do_screen_switch_hop_core [OF hop, of e, folded d']
  have out: "get_output (dv_config d1) (unat (dv_active_output d1)) = out"
    by (simp add: f(1,3) coreD [OF c] out_def)
  have g: "dir = LEFT \<or> dir = RIGHT" "out_pos out = LEFT \<or> out_pos out = RIGHT" "out_pos out \<noteq> dir"
    "out_screen_index (normalize_screen_index out) = 1" "\<not> dv_switch_lock d1" "\<not> dv_gaming_mode d1" "dv_mouse_buttons d1 = 0"
    using hop by (auto simp: may_hop_def Let_def out)
  have z: "dv_peer_mouse_buttons d1 = 0" "\<forall>i\<in>set (concat (dv_iface d1)). if_mouse_buttons i = 0"
    using or_fold_zero [OF f(7) [unfolded g(7), symmetric, folded f(9)]] f(10) by simp_all
  have "core d' = core (d1\<lparr>dv_selection := dv_selection d', dv_active_output := dv_active_output d',
      dv_pointer_x := dv_pointer_x d', dv_pointer_y := dv_pointer_y d'\<rparr>)"
    using switch_to_another_pc_core [of "dv_active_output d1" "1 - dv_active_output d1" dir e _ d1] g(1)
      hop_target(1) f(1) a unfolding d' do_screen_switch_hops [OF hop] by (simp add: core_def)
  then have k: "dv_peer_mouse_buttons d' = dv_peer_mouse_buttons d1" "dv_iface d' = dv_iface d1" "dv_config d' = dv_config d1"
    "dv_zoom_assist d' = dv_zoom_assist d1" "dv_zoom_activation_pending d' = dv_zoom_activation_pending d1" by (simp_all add: core_def)
  then have held: "\<not> buttons_held d'" using z by (simp add: buttons_held_def)
  have zoom: "\<not> zoom_assist_is_active (d'\<lparr>dv_active_output := dv_active_output d\<rparr>)"
    using hop k f(1) coreD(1) [OF c] by (simp add: may_hop_def Let_def zoom_assist_is_active_def)
  have "dir \<noteq> 0" using g(1) by auto
  from mouse_route_direction [OF r this a] have dir: "dir = is_screen_switch_needed (normalize_screen_index out) (dv_pointer_x d)
      (report_offset e raw dev itf d) (cfg_jump_threshold (dv_config d))"
    by (simp add: report_offset_def Let_def mv out_def coreD [OF c])
  have edge: "dir = LEFT \<and> x < 0 - margin \<or> dir = RIGHT \<and> x > 32767 + margin"
    using g(1) dir by (auto simp: is_screen_switch_needed_def Let_def x_def margin_def out_def split: if_splits)
  have pos: "dir = LEFT \<Longrightarrow> out_pos out = RIGHT" "dir = RIGHT \<Longrightarrow> out_pos out = LEFT" using g(2,3) by auto
  have "out_pos out = RIGHT \<and> x < 0 - margin \<or> out_pos out = LEFT \<and> x > 32767 + margin" using edge pos by blast
  then show ?thesis using g h f coreD [OF c] held zoom by (auto simp: selection_request_def)
qed

text \<open>Board A is selected, the pointer is at the left edge, and a boot mouse moves one unit to the left.\<close>

definition sample_edge :: device where
  "sample_edge = (device_boot 0)\<lparr>dv_pointer_y := 500\<rparr>"

definition sample_left :: bytes where
  "sample_left = [0, 0xff, 0]"

lemma sample_edge_fields:
  "dv_active_output sample_edge = 0" "dv_config sample_edge = default_config" "dv_pointer_x sample_edge = 0"
  "dv_switch_lock sample_edge = False" "dv_gaming_mode sample_edge = False" "dv_mouse_zoom sample_edge = False"
  "dv_peer_mouse_buttons sample_edge = 0" "dv_zoom_assist sample_edge = replicate 2 zoom_tracker_boot"
  "dv_zoom_activation_pending sample_edge = [False, False]" "dv_iface sample_edge = replicate 4 (replicate 12 zero_interface)"
  by (simp_all add: sample_edge_def device_boot_def)

lemma sample_values: "extract_report_values sample_left zero_interface
  = \<lparr>mv_move_x = - 1, mv_move_y = 0, mv_wheel = 0, mv_pan = 0, mv_buttons = 0\<rparr>"
  by (simp add: extract_report_values_def sample_left_def zero_interface_def)

lemma sample_offset: "scaled_mouse_offset sample_float (- 1) (mouse_acceleration_factor sample_float (- 1) 0 True) 16 = - 1"
  by (simp add: scaled_mouse_offset_def mouse_acceleration_factor_def sample_float_def acceleration_curve_def float_round_def
      bit_numeral_rec Let_def)

lemma foldl_or_zero: "(\<And>x. x \<in> set xs \<Longrightarrow> f x = 0) \<Longrightarrow> foldl (\<lambda>m i. m OR f i) (0 :: u8) xs = 0"
  by (induction xs) simp_all

lemma sample_hops: "dv_active_output (process_mouse_report (sample_env 9) sample_left 0 0 sample_edge) = 1"
proof -
  let ?e = "sample_env 9" and ?v = "\<lparr>mv_move_x = - 1, mv_move_y = 0, mv_wheel = 0, mv_pan = 0, mv_buttons = 0\<rparr>"
  have F: "env_float ?e = sample_float" by (simp add: sample_env_def)
  define d0 where "d0 = log_call (Clipboard_mouse_buttons 0 0) sample_edge"
  note c = coreD [of d0 sample_edge, unfolded d0_def, OF core_log_call, folded d0_def]
  obtain dir d1 where r: "mouse_route ?e ?v 0 0 d0 = (dir, d1)" by fastforce
  have a: "dv_active_output d0 < 2" by (simp add: c sample_edge_fields)
  have out: "get_output (dv_config d0) 0 = default_output 0 2 2" "normalize_screen_index (default_output 0 2 2) = default_output 0 2 2"
    by (simp_all add: c sample_edge_fields get_output_def default_config_def normalize_screen_index_def default_output_def)
  have "dir = is_screen_switch_needed (default_output 0 2 2) 0
      (scaled_mouse_offset sample_float (- 1) (mouse_acceleration_factor sample_float (- 1) 0 True) 16) 0"
    using mouse_route_motion(1) [OF a, of ?v ?e 0 0] r
    by (simp add: c sample_edge_fields F out [unfolded c sample_edge_fields]) (simp add: default_config_def default_output_def)
  then have dir: "dir = LEFT"
    by (simp add: sample_offset is_screen_switch_needed_def get_jump_threshold_def default_output_def)
  note f = mouse_route_frame [OF r a]
  have "(get_iface 0 0 d0)\<lparr>if_mouse_buttons := 0\<rparr> = get_iface 0 0 d0" by (simp add: c sample_edge_fields zero_interface_def)
  then have "dv_mouse_buttons d1 = foldl (\<lambda>m i. m OR if_mouse_buttons i) 0 (concat (dv_iface d0))"
    using f(7) by (simp add: set_iface_def c(11) sample_edge_fields(7))
  also have "\<dots> = 0" by (rule foldl_or_zero) (auto simp: c sample_edge_fields zero_interface_def)
  finally have b: "dv_mouse_buttons d1 = 0" .
  have z: "\<not> zoom_assist_is_active d1"
    using mouse_route_motion(2) [OF a, of ?v ?e 0 0] r
    by (simp add: zoom_assist_is_active_def c sample_edge_fields zoom_tracker_boot_def)
  have hop: "may_hop LEFT d1" using b z
    by (simp add: may_hop_def f c sample_edge_fields out [unfolded c sample_edge_fields]) (simp add: default_output_def)
  have i: "get_iface 0 0 sample_edge = zero_interface" by (simp add: sample_edge_fields)
  have m: "mouse_report_complete sample_left zero_interface" "if_mouse_buttons zero_interface = 0"
    by (simp_all add: mouse_report_complete_def sample_left_def zero_interface_def)
  have "process_mouse_report ?e sample_left 0 0 sample_edge = do_screen_switch ?e LEFT d1"
    unfolding process_mouse_report_def i Let_def sample_values
    using r dir by (simp add: sample_edge_fields(1) m zoom_canonicalize_wheel_def canonical_mouse_axis_def flip: d0_def)
  then show ?thesis using do_screen_switch_hop_core(1) [OF hop] f(1) by (simp add: c sample_edge_fields)
qed

theorem mouse_hop_guarded_witness:
  "let d' = process_mouse_report (sample_env 9) sample_left 0 0 sample_edge
   in dv_active_output d' = 1 \<and> sel_output (dv_selection d') = 1 \<and> \<not> buttons_held d' \<and> dv_pointer_x d' = 32767"
  using mouse_hop_guarded [of "sample_env 9" sample_left 0 0 sample_edge] sample_hops
  by (simp add: sample_edge_fields Let_def) (simp add: get_output_def default_config_def default_output_def)

text \<open>The motion and the wheel are clamped to the width of the outgoing report; the horizontal wheel is not, and
  a wide value changes its sign.\<close>

lemma mouse_pan_wraps: "mv_pan v = 200 \<Longrightarrow> mr_pan (create_mouse_report v d) = - 56"
  by (simp add: create_mouse_report_def to_int8_def Let_def)

end
