(* ===== verification/Keyboard_Sync.thy ===== *)
theory Keyboard_Sync
  imports Keyboard
begin

text \<open>
  The keyboard transport between the boards (keyboard\_sync.c): the board whose computer is selected
  challenges the other with a nonce every 100 ms; the other answers with the state of its own keyboards in
  five packets under that nonce, its boot identity, a serial number, the selection token and a CRC; the
  receiver applies an answer only if all of that matches, and forgets the peer's keys when no answer has
  arrived for half a second. The chord that locks both computers travels separately.
\<close>

unbundle bit_operations_syntax

subsection \<open>The code\<close>

definition state_crc :: "bytes \<Rightarrow> u32" where
  "state_crc p = NOT (foldl page_crc_byte 0xffffffff (take 36 p))"

definition publish_peer :: "env \<Rightarrow> hid_keyboard_report \<Rightarrow> device \<Rightarrow> device" where
  "publish_peer e rep d =
     (let changed = (dv_remote_kbd_state d \<noteq> rep);
          d = d\<lparr>dv_remote_kbd_state := rep, dv_kbd_remote_generation := ks_host_generation (dv_sync d)\<rparr>;
          d = (if dv_kbd_host_generation d = ks_host_generation (dv_sync d)
               then d\<lparr>dv_peer_modifiers := kr_modifier rep, dv_peer_modifiers_last_seen := env_now e\<rparr> else d);
          d = (if changed then log_call Clipboard_remote_input d else d)
      in if changed \<and> is_active d \<and> \<not> dv_reboot_requested d then keyboard_queue_current d else d)"

definition synthetic_release :: "device \<Rightarrow> device" where
  "synthetic_release d =
     (let d = d\<lparr>dv_sync := (dv_sync d)\<lparr>ks_synthetic_pending := False\<rparr>\<rparr>
      in if is_active d then keyboard_queue_current d else queue_kbd_report zero_kbd_report d)"

definition keyboard_synthetic_receive :: "env \<Rightarrow> bytes \<Rightarrow> device \<Rightarrow> device" where
  "keyboard_synthetic_receive e data d =
     (let s = dv_sync d; rep = kbd_report_of_bytes data in
      if \<not> ks_initialized s \<or> dv_reboot_requested d then d
      else if list_all (\<lambda>b. b = 0) (take 8 data)
      then (if ks_synthetic_pending s then synthetic_release d else d)
      else
        let lock = (kr_reserved rep = 0
              \<and> (kr_modifier rep = 8 \<and> kr_keycode rep ! 0 = 0x0f \<or> kr_modifier rep = 9 \<and> kr_keycode rep ! 0 = 0x14)
              \<and> list_all (\<lambda>i. kr_keycode rep ! i = 0) [1..<6])
        in if \<not> lock \<or> ks_synthetic_pending s then d
           else
             let d = queue_kbd_report rep d
             in d\<lparr>dv_sync := (dv_sync d)\<lparr>ks_synthetic_pending := True, ks_synthetic_deadline := env_now e + 20000\<rparr>\<rparr>)"

text \<open>\<open>keyboard_sync_task\<close>, split at its four stages.\<close>

definition sync_generation :: "env \<Rightarrow> device \<Rightarrow> device" where
  "sync_generation e d =
     (let gen = dv_kbd_host_generation d in
      if gen = ks_host_generation (dv_sync d) then d
      else
        let s = (dv_sync d)\<lparr>ks_host_generation := gen, ks_peer_valid := False, ks_epoch_pending := True\<rparr>;
            d = d\<lparr>dv_sync := (rotate_nonce (env_now e) s)\<lparr>ks_request_due := 0\<rparr>,
                   dv_remote_kbd_state := zero_kbd_report, dv_kbd_remote_generation := gen, dv_peer_modifiers := 0\<rparr>
        in if is_active d \<and> dv_tud_connected d \<and> (gen > 1 \<or> combine_kbd_states d \<noteq> zero_kbd_report)
           then keyboard_queue_current d else d)"

definition sync_lease :: "env \<Rightarrow> device \<Rightarrow> device" where
  "sync_lease e d =
     (let s = dv_sync d in
      if ks_peer_valid s \<and> env_now e - ks_peer_seen s \<ge> 500000
      then publish_peer e zero_kbd_report
             (d\<lparr>dv_sync := (rotate_nonce (env_now e) (s\<lparr>ks_peer_valid := False, ks_epoch_pending := True\<rparr>))
                  \<lparr>ks_request_due := 0\<rparr>\<rparr>)
      else d)"

definition sync_challenge :: "env \<Rightarrow> device \<Rightarrow> device" where
  "sync_challenge e d =
     (let s = dv_sync d in
      if is_active d \<and> dv_tud_connected d \<and> env_now e \<ge> ks_request_due s
      then
        let candidate = ks_boot s + (ks_nonce_counter s + 1) * 0x9e3779b97f4a7c15
        in case queue_packet_dev (le64 candidate) (if ks_epoch_pending s then 48 else 42) d of
             (True, d) \<Rightarrow> d\<lparr>dv_sync := (rotate_nonce (env_now e) (dv_sync d))\<lparr>ks_request_due := env_now e + 100000\<rparr>\<rparr>
           | (False, d) \<Rightarrow> d
      else d)"

definition source_report :: "keyboard_sync \<Rightarrow> hid_keyboard_report" where
  "source_report s = (if ks_count s \<noteq> 0 then ks_fifo s ! ks_head s else ks_latest s)"

definition state_body :: "device \<Rightarrow> u32 \<Rightarrow> bytes" where
  "state_body d serial = le64 (ks_target (dv_sync d)) @ le64 (ks_boot (dv_sync d)) @ le32 (sel_counter (dv_selection d))
     @ le32 serial @ kbd_report_bytes (source_report (dv_sync d))
     @ [sel_origin (dv_selection d), dv_active_output d, 0x4b, 1]"

definition state_payload :: "device \<Rightarrow> u32 \<Rightarrow> bytes" where
  "state_payload d serial = state_body d serial @ le32 (state_crc (state_body d serial))"

definition advance_source :: "keyboard_sync \<Rightarrow> keyboard_sync" where
  "advance_source s =
     (let s = (if ks_count s \<noteq> 0 then s\<lparr>ks_head := (ks_head s + 1) mod 128, ks_count := ks_count s - 1\<rparr> else s);
          s = (if ks_tail_pending s \<and> ks_count s < 128
               then s\<lparr>ks_fifo := (ks_fifo s)[(ks_head s + ks_count s) mod 128 := ks_latest s],
                      ks_count := ks_count s + 1, ks_tail_pending := False\<rparr> else s)
      in s\<lparr>ks_target_valid := (ks_count s \<noteq> 0)\<rparr>)"

text \<open>The five fragments, until one does not fit.\<close>

fun queue_fragments :: "bytes \<Rightarrow> nat \<Rightarrow> nat \<Rightarrow> device \<Rightarrow> bool \<times> device" where
  "queue_fragments payload i 0 d = (True, d)"
| "queue_fragments payload i (Suc n) d =
     (case queue_packet_dev (slice payload (8 * i) 8) (43 + i) d of
        (True, d) \<Rightarrow> queue_fragments payload (Suc i) n d
      | (False, d) \<Rightarrow> (False, d))"

definition sync_answer :: "device \<Rightarrow> device" where
  "sync_answer d =
     (if is_active d \<or> \<not> ks_target_valid (dv_sync d) then d
      else if queue_get_level (dv_uart_tx_queue d) > 256 - 5 then d
      else
        let serial = ks_serial (dv_sync d) + 1;
            d = d\<lparr>dv_sync := (dv_sync d)\<lparr>ks_serial := serial\<rparr>\<rparr>
        in case queue_fragments (state_payload d serial) 0 5 d of
             (True, d) \<Rightarrow> d\<lparr>dv_sync := advance_source (dv_sync d)\<rparr>
           | (False, d) \<Rightarrow> d)"

definition keyboard_sync_task :: "env \<Rightarrow> device \<Rightarrow> device" where
  "keyboard_sync_task e d =
     (if \<not> ks_initialized (dv_sync d) \<or> dv_reboot_requested d then d
      else
        let d = (if ks_synthetic_pending (dv_sync d) \<and> env_now e \<ge> ks_synthetic_deadline (dv_sync d)
                 then synthetic_release d else d)
        in sync_answer (sync_challenge e (sync_lease e (sync_generation e d))))"

text \<open>\<open>keyboard_sync_receive\<close>: a challenge, or one of the five fragments of an answer.\<close>

definition receive_challenge :: "nat \<Rightarrow> bytes \<Rightarrow> device \<Rightarrow> device" where
  "receive_challenge ptype data d =
     (if is_active d then d
      else
        let s = dv_sync d;
            s = (if ptype = 48 \<and> get64 data 0 \<noteq> ks_target s
                 then s\<lparr>ks_head := 0, ks_count := 0, ks_tail_pending := False\<rparr> else s)
        in d\<lparr>dv_sync := s\<lparr>ks_target := get64 data 0, ks_target_valid := True, ks_target_known := True\<rparr>\<rparr>)"

definition snapshot_acceptable :: "env \<Rightarrow> bytes \<Rightarrow> device \<Rightarrow> bool" where
  "snapshot_acceptable e p d \<longleftrightarrow>
     is_active d \<and> dv_tud_connected d \<and> dv_kbd_host_generation d = ks_host_generation (dv_sync d)
     \<and> env_now e - ks_nonce_started (dv_sync d) < 100000
     \<and> get64 p 0 = ks_nonce (dv_sync d) \<and> get32 p 36 = state_crc p
     \<and> get32 p 16 = sel_counter (dv_selection d)
     \<and> p ! 32 = sel_origin (dv_selection d) \<and> p ! 33 = dv_active_output d
     \<and> p ! 34 = 0x4b \<and> p ! 35 = 1 \<and> p ! 25 = 0"

definition accept_snapshot :: "env \<Rightarrow> bytes \<Rightarrow> device \<Rightarrow> device" where
  "accept_snapshot e p d =
     (let s = dv_sync d; boot = get64 p 8; serial = get32 p 20; distance = serial - ks_peer_serial s in
      if ks_peer_serial_valid s \<and> boot = ks_peer_boot s \<and> (distance = 0 \<or> distance \<ge> 0x80000000) then d
      else
        let s = (if ks_peer_serial_valid s \<and> boot \<noteq> ks_peer_boot s
                 then (rotate_nonce (env_now e) (s\<lparr>ks_epoch_pending := True\<rparr>))\<lparr>ks_request_due := 0\<rparr>
                 else s\<lparr>ks_epoch_pending := False\<rparr>);
            s = s\<lparr>ks_peer_boot := boot, ks_peer_serial := serial, ks_peer_serial_valid := True, ks_peer_valid := True,
                  ks_peer_seen := env_now e\<rparr>
        in publish_peer e (kbd_report_of_bytes (slice p 24 8))
             (log_call (Clipboard_peer_session boot) (d\<lparr>dv_sync := s\<rparr>)))"

definition receive_fragment :: "env \<Rightarrow> int \<Rightarrow> bytes \<Rightarrow> device \<Rightarrow> device" where
  "receive_fragment e frag data d =
     (let s = dv_sync d; f = nat frag in
      if frag \<ge> 0 \<and> ks_fragment s \<noteq> 0 \<and> f = ks_fragment s - 1 \<and> slice (ks_incoming s) (8 * f) 8 = data then d
      else
        let s = (if frag = 0 then s\<lparr>ks_fragment := 0\<rparr> else s)
        in if frag < 0 \<or> f \<ge> 5 \<or> f \<noteq> ks_fragment s then d\<lparr>dv_sync := s\<lparr>ks_fragment := 0\<rparr>\<rparr>
           else
             let s = s\<lparr>ks_incoming := blit (ks_incoming s) (8 * f) data, ks_fragment := f + 1\<rparr>
             in if f + 1 \<noteq> 5 then d\<lparr>dv_sync := s\<rparr>
                else
                  let d = d\<lparr>dv_sync := s\<lparr>ks_fragment := 0\<rparr>\<rparr>
                  in if snapshot_acceptable e (ks_incoming s) d then accept_snapshot e (ks_incoming s) d else d)"

definition keyboard_sync_receive :: "env \<Rightarrow> nat \<Rightarrow> bytes \<Rightarrow> device \<Rightarrow> device" where
  "keyboard_sync_receive e ptype data d =
     (if \<not> ks_initialized (dv_sync d) \<or> dv_reboot_requested d then d
      else if ptype = 42 \<or> ptype = 48 then receive_challenge ptype data d
      else receive_fragment e (int ptype - 43) data d)"

text \<open>The host attaches and detaches the board (\<open>tud_mount_cb\<close>, \<open>tud_umount_cb\<close> of usb.c).\<close>

definition tud_mount_cb :: "device \<Rightarrow> device" where
  "tud_mount_cb d =
     log_call Console_disconnect (log_call (Diagnostic_history_record HISTORY_USB_MOUNT 0 0 0)
       ((keyboard_host_reset (log_call Clipboard_usb_session_reset d))\<lparr>dv_tud_connected := True\<rparr>))"

definition tud_umount_cb :: "device \<Rightarrow> device" where
  "tud_umount_cb d =
     log_call Console_disconnect (log_call (Diagnostic_history_record HISTORY_USB_UNMOUNT 0 0 0)
       (keyboard_host_reset (log_call Clipboard_usb_session_reset
          (log_call Config_confirm_usb_disconnect (d\<lparr>dv_tud_connected := False\<rparr>)))))"

subsection \<open>What each operation leaves alone\<close>

lemma queue_kbd_frame [simp]:
  "dv_sync (queue_kbd_report r d) = dv_sync d" "dv_remote_kbd_state (queue_kbd_report r d) = dv_remote_kbd_state d"
  "dv_sync (keyboard_queue_current d) = dv_sync d" "dv_remote_kbd_state (keyboard_queue_current d) = dv_remote_kbd_state d"
  "dv_reboot_requested (queue_kbd_report r d) = dv_reboot_requested d"
  "dv_reboot_requested (keyboard_queue_current d) = dv_reboot_requested d"
  by (simp_all add: keyboard_queue_current_def queue_kbd_report_def Let_def split: prod.splits bool.splits)

lemma log_call_frame [simp]:
  "dv_sync (log_call c d) = dv_sync d" "dv_remote_kbd_state (log_call c d) = dv_remote_kbd_state d"
  "dv_reboot_requested (log_call c d) = dv_reboot_requested d"
  by (simp_all add: log_call_def)

lemma queue_fragments_frame: "queue_fragments p i n d = (ok, d') \<Longrightarrow> \<exists>q. d' = d\<lparr>dv_uart_tx_queue := q\<rparr>"
proof (induction n arbitrary: i d)
  case 0
  then show ?case by (auto intro: exI [of _ "dv_uart_tx_queue d'"])
next
  case (Suc n)
  obtain b d1 where s: "queue_packet_dev (slice p (8 * i) 8) (43 + i) d = (b, d1)" by fastforce
  then obtain q where d1: "d1 = d\<lparr>dv_uart_tx_queue := q\<rparr>" using queue_packet_dev_frame by blast
  show ?case using Suc.prems Suc.IH [of "Suc i" d1] s d1 by (cases b) auto
qed

lemma rotate_nonce_frame [simp]:
  "ks_peer_valid (rotate_nonce t s) = ks_peer_valid s" "ks_initialized (rotate_nonce t s) = ks_initialized s"
  "ks_peer_seen (rotate_nonce t s) = ks_peer_seen s" "ks_host_generation (rotate_nonce t s) = ks_host_generation s"
  by (simp_all add: rotate_nonce_def Let_def)

lemma publish_peer_frame [simp]:
  "dv_sync (publish_peer e r d) = dv_sync d" "dv_remote_kbd_state (publish_peer e r d) = r"
  "dv_reboot_requested (publish_peer e r d) = dv_reboot_requested d"
  by (simp_all add: publish_peer_def Let_def)

subsection \<open>The lease on the peer's keys\<close>

text \<open>A remote key is held only under a lease.\<close>

definition lease_inv :: "device \<Rightarrow> bool" where
  [inv_simps]: "lease_inv d \<longleftrightarrow> (dv_remote_kbd_state d = zero_kbd_report \<or> ks_peer_valid (dv_sync d))
     \<and> (\<not> ks_initialized (dv_sync d) \<longrightarrow> dv_remote_kbd_state d = zero_kbd_report)"

text \<open>What happens to the transport of a board. \<open>Selected\<close> stands for the components that decide which computer is selected.\<close>

datatype sync_event = Task env | Receive env nat bytes | Synthetic env bytes | Focus env | Local hid_keyboard_report nat
  | Attached | Detached | Selected u8 selection_state

fun sync_step :: "device \<Rightarrow> sync_event \<Rightarrow> unit \<times> device" where
  "sync_step d (Task e) = ((), keyboard_sync_task e d)"
| "sync_step d (Receive e t data) = ((), keyboard_sync_receive e t data d)"
| "sync_step d (Synthetic e data) = ((), keyboard_synthetic_receive e data d)"
| "sync_step d (Focus e) = ((), keyboard_focus_changed e d)"
| "sync_step d (Local r i) = ((), send_key (publish_local_modifiers (update_kbd_state r i d)))"
| "sync_step d Attached = ((), tud_mount_cb d)"
| "sync_step d Detached = ((), tud_umount_cb d)"
| "sync_step d (Selected output sel) = ((), d\<lparr>dv_active_output := output, dv_selection := sel\<rparr>)"

text \<open>The keyboard state that a packet makes the board accept: the last fragment of an answer that passes all the checks
  and is newer than the last one accepted of the same session.\<close>

definition accepted_answer :: "env \<Rightarrow> bytes \<Rightarrow> device \<Rightarrow> hid_keyboard_report option" where
  "accepted_answer e data d =
     (let s = dv_sync d; p = blit (ks_incoming s) 32 data; distance = get32 p 20 - ks_peer_serial s in
      if ks_initialized s \<and> \<not> dv_reboot_requested d \<and> ks_fragment s = 4 \<and> snapshot_acceptable e p d
          \<and> \<not> (ks_peer_serial_valid s \<and> get64 p 8 = ks_peer_boot s \<and> (distance = 0 \<or> distance \<ge> 0x80000000))
      then Some (kbd_report_of_bytes (slice p 24 8)) else None)"

definition lease_core :: "device \<Rightarrow> hid_keyboard_report \<times> bool \<times> u64" where
  "lease_core d = (dv_remote_kbd_state d, ks_peer_valid (dv_sync d), ks_peer_seen (dv_sync d))"

lemma sync_generation_lease:
  "dv_remote_kbd_state (sync_generation e d) \<noteq> zero_kbd_report
   \<Longrightarrow> dv_remote_kbd_state (sync_generation e d) = dv_remote_kbd_state d \<and> dv_sync (sync_generation e d) = dv_sync d"
  by (simp add: sync_generation_def Let_def split: if_splits)

lemma sync_lease_cases:
  obtains (kept) "sync_lease e d = d" "\<not> (ks_peer_valid (dv_sync d) \<and> env_now e - ks_peer_seen (dv_sync d) \<ge> 500000)"
  | (expired) "dv_remote_kbd_state (sync_lease e d) = zero_kbd_report"
proof (cases "ks_peer_valid (dv_sync d) \<and> env_now e - ks_peer_seen (dv_sync d) \<ge> 500000")
  case True
  then show ?thesis using expired by (simp add: sync_lease_def Let_def)
next
  case False
  then show ?thesis using kept by (simp add: sync_lease_def Let_def)
qed

lemma sync_challenge_frame [simp]:
  "dv_remote_kbd_state (sync_challenge e d) = dv_remote_kbd_state d"
  "ks_peer_valid (dv_sync (sync_challenge e d)) = ks_peer_valid (dv_sync d)"
  "ks_peer_seen (dv_sync (sync_challenge e d)) = ks_peer_seen (dv_sync d)"
  "ks_initialized (dv_sync (sync_challenge e d)) = ks_initialized (dv_sync d)"
proof -
  let ?s = "dv_sync d"
  obtain b d1 where q: "queue_packet_dev (le64 (ks_boot ?s + (ks_nonce_counter ?s + 1) * 0x9e3779b97f4a7c15))
      (if ks_epoch_pending ?s then 48 else 42) d = (b, d1)" by fastforce
  then obtain u where "d1 = d\<lparr>dv_uart_tx_queue := u\<rparr>" using queue_packet_dev_frame by blast
  then show "dv_remote_kbd_state (sync_challenge e d) = dv_remote_kbd_state d"
    "ks_peer_valid (dv_sync (sync_challenge e d)) = ks_peer_valid (dv_sync d)"
    "ks_peer_seen (dv_sync (sync_challenge e d)) = ks_peer_seen (dv_sync d)"
    "ks_initialized (dv_sync (sync_challenge e d)) = ks_initialized (dv_sync d)"
    using q by (cases b; simp add: sync_challenge_def Let_def)+
qed

lemma advance_source_frame [simp]:
  "ks_peer_valid (advance_source s) = ks_peer_valid s" "ks_peer_seen (advance_source s) = ks_peer_seen s" "ks_initialized (advance_source s) = ks_initialized s"
  by (simp_all add: advance_source_def Let_def)

lemma sync_answer_frame [simp]:
  "dv_remote_kbd_state (sync_answer d) = dv_remote_kbd_state d"
  "ks_peer_valid (dv_sync (sync_answer d)) = ks_peer_valid (dv_sync d)"
  "ks_peer_seen (dv_sync (sync_answer d)) = ks_peer_seen (dv_sync d)"
  "ks_initialized (dv_sync (sync_answer d)) = ks_initialized (dv_sync d)"
proof -
  define d0 where "d0 = d\<lparr>dv_sync := (dv_sync d)\<lparr>ks_serial := ks_serial (dv_sync d) + 1\<rparr>\<rparr>"
  obtain b d1 where q: "queue_fragments (state_payload d0 (ks_serial (dv_sync d) + 1)) 0 5 d0 = (b, d1)" by fastforce
  then obtain u where d1: "d1 = d0\<lparr>dv_uart_tx_queue := u\<rparr>" using queue_fragments_frame by blast
  have "sync_answer d = (if is_active d \<or> \<not> ks_target_valid (dv_sync d) \<or> queue_get_level (dv_uart_tx_queue d) > 256 - 5 then d
    else if b then d1\<lparr>dv_sync := advance_source (dv_sync d1)\<rparr> else d1)"
    using q by (simp add: sync_answer_def Let_def flip: d0_def split: bool.splits)
  then show "dv_remote_kbd_state (sync_answer d) = dv_remote_kbd_state d"
    "ks_peer_valid (dv_sync (sync_answer d)) = ks_peer_valid (dv_sync d)"
    "ks_peer_seen (dv_sync (sync_answer d)) = ks_peer_seen (dv_sync d)"
    "ks_initialized (dv_sync (sync_answer d)) = ks_initialized (dv_sync d)"
    by (auto simp: d1 d0_def)
qed

lemma sync_initialized [simp]:
  "ks_initialized (dv_sync (sync_generation e d)) = ks_initialized (dv_sync d)"
  "ks_initialized (dv_sync (sync_lease e d)) = ks_initialized (dv_sync d)"
  "ks_initialized (dv_sync (synthetic_release d)) = ks_initialized (dv_sync d)"
  by (simp_all add: sync_generation_def sync_lease_def synthetic_release_def Let_def)

lemma sync_task_initialized [simp]: "ks_initialized (dv_sync (keyboard_sync_task e d)) = ks_initialized (dv_sync d)"
  by (simp add: keyboard_sync_task_def Let_def)

lemma accept_snapshot_lease: "lease_inv d \<Longrightarrow> ks_initialized (dv_sync d) \<Longrightarrow> lease_inv (accept_snapshot e p d)"
  by (simp add: accept_snapshot_def lease_inv_def Let_def)

lemma receive_fragment_lease:
  assumes "lease_inv d" "ks_initialized (dv_sync d)"
  shows "lease_inv (receive_fragment e f data d)"
proof -
  have set: "lease_inv (d\<lparr>dv_sync := s\<rparr>)" if "ks_peer_valid s = ks_peer_valid (dv_sync d)" "ks_initialized s" for s
    using assms that by (simp add: lease_inv_def)
  have acc: "lease_inv (accept_snapshot e p (d\<lparr>dv_sync := s\<rparr>))"
    if "ks_peer_valid s = ks_peer_valid (dv_sync d)" "ks_initialized s" for s p
    using accept_snapshot_lease [OF set [OF that]] that by simp
  show ?thesis using assms set acc by (simp add: receive_fragment_def Let_def)
qed

lemma sync_receive_lease: "lease_inv d \<Longrightarrow> lease_inv (keyboard_sync_receive e t data d)"
  using receive_fragment_lease [of d e "int t - 43" data]
  by (auto simp: keyboard_sync_receive_def receive_challenge_def lease_inv_def Let_def)

lemma synthetic_receive_frame [simp]:
  "dv_remote_kbd_state (keyboard_synthetic_receive e data d) = dv_remote_kbd_state d"
  "ks_peer_valid (dv_sync (keyboard_synthetic_receive e data d)) = ks_peer_valid (dv_sync d)"
  "ks_peer_seen (dv_sync (keyboard_synthetic_receive e data d)) = ks_peer_seen (dv_sync d)"
  "ks_initialized (dv_sync (keyboard_synthetic_receive e data d)) = ks_initialized (dv_sync d)"
  by (simp_all add: keyboard_synthetic_receive_def synthetic_release_def Let_def)

lemma local_frame [simp]:
  "dv_remote_kbd_state (update_kbd_state r i d) = dv_remote_kbd_state d" "dv_sync (update_kbd_state r i d) = dv_sync d"
  "dv_remote_kbd_state (keyboard_sync_publish d) = dv_remote_kbd_state d"
  "ks_peer_valid (dv_sync (keyboard_sync_publish d)) = ks_peer_valid (dv_sync d)"
  "ks_peer_seen (dv_sync (keyboard_sync_publish d)) = ks_peer_seen (dv_sync d)"
  "ks_initialized (dv_sync (keyboard_sync_publish d)) = ks_initialized (dv_sync d)"
  "dv_sync (keyboard_host_reset d) = dv_sync d"
  by (simp_all add: update_kbd_state_def keyboard_sync_publish_def keyboard_host_reset_def Let_def)

lemma publish_local_modifiers_frame [simp]:
  "dv_remote_kbd_state (publish_local_modifiers d) = dv_remote_kbd_state d" "dv_sync (publish_local_modifiers d) = dv_sync d"
proof -
  define m where "m = foldl (\<lambda>m i. m OR kr_modifier (dv_local_kbd_states d ! i)) 0 [0..<4]"
  obtain q c where "queue_packet [m] 28 (d\<lparr>dv_local_modifiers := m\<rparr>) = d\<lparr>dv_local_modifiers := m, dv_uart_tx_queue := q, dv_calls := c\<rparr>"
    using queue_packet_frame [of "[m]" 28 "d\<lparr>dv_local_modifiers := m\<rparr>"] by auto
  then show "dv_remote_kbd_state (publish_local_modifiers d) = dv_remote_kbd_state d" "dv_sync (publish_local_modifiers d) = dv_sync d"
    by (simp_all add: publish_local_modifiers_def send_value_def Let_def flip: m_def)
qed

lemma usb_frame [simp]:
  "dv_remote_kbd_state (tud_mount_cb d) = dv_remote_kbd_state d" "dv_sync (tud_mount_cb d) = dv_sync d"
  "dv_remote_kbd_state (tud_umount_cb d) = dv_remote_kbd_state d" "dv_sync (tud_umount_cb d) = dv_sync d"
  by (simp_all add: tud_mount_cb_def tud_umount_cb_def keyboard_host_reset_def)

lemma focus_remote: "dv_remote_kbd_state (keyboard_focus_changed e d) = zero_kbd_report"
  by (simp add: keyboard_focus_changed_def release_all_keys_def keyboard_sync_reset_def Let_def)

lemma focus_lease: "lease_inv (keyboard_focus_changed e d)"
  by (simp add: keyboard_focus_changed_def release_all_keys_def keyboard_sync_reset_def lease_inv_def Let_def)

lemma send_key_lease: "lease_inv d \<Longrightarrow> lease_inv (send_key d)"
  by (simp add: send_key_def lease_inv_def Let_def)

lemma sync_task_lease:
  fixes e :: env
  assumes "ks_initialized (dv_sync d)" "\<not> dv_reboot_requested d" "lease_inv d"
  defines "d' \<equiv> keyboard_sync_task e d"
  assumes held: "dv_remote_kbd_state d' \<noteq> zero_kbd_report"
  shows "dv_remote_kbd_state d' = dv_remote_kbd_state d \<and> ks_peer_valid (dv_sync d') \<and> ks_peer_valid (dv_sync d)
    \<and> ks_peer_seen (dv_sync d') = ks_peer_seen (dv_sync d) \<and> env_now e - ks_peer_seen (dv_sync d) < 500000"
proof -
  define d0 where "d0 = (if ks_synthetic_pending (dv_sync d) \<and> env_now e \<ge> ks_synthetic_deadline (dv_sync d)
    then synthetic_release d else d)"
  define d1 where "d1 = sync_generation e d0"
  have d0: "dv_remote_kbd_state d0 = dv_remote_kbd_state d" "ks_peer_valid (dv_sync d0) = ks_peer_valid (dv_sync d)"
    "ks_peer_seen (dv_sync d0) = ks_peer_seen (dv_sync d)"
    by (simp_all add: d0_def synthetic_release_def Let_def)
  have d': "d' = sync_answer (sync_challenge e (sync_lease e d1))"
    using assms(1,2) by (simp add: d'_def keyboard_sync_task_def d0_def d1_def Let_def)
  have held1: "dv_remote_kbd_state (sync_lease e d1) \<noteq> zero_kbd_report" using held d' by simp
  then have kept: "sync_lease e d1 = d1" "\<not> (ks_peer_valid (dv_sync d1) \<and> env_now e - ks_peer_seen (dv_sync d1) \<ge> 500000)"
    using sync_lease_cases [of e d1] by blast+
  have gen: "dv_remote_kbd_state d1 = dv_remote_kbd_state d0" "dv_sync d1 = dv_sync d0"
    using sync_generation_lease [of e d0] held1 kept(1) unfolding d1_def by simp_all
  have valid: "ks_peer_valid (dv_sync d)" using assms(3) held1 kept(1) gen d0 by (simp add: lease_inv_def)
  then show ?thesis using d' kept gen d0 by (simp add: not_le)
qed

lemma sync_task_lease_inv:
  assumes "lease_inv d"
  shows "lease_inv (keyboard_sync_task e d)"
proof (cases "ks_initialized (dv_sync d) \<and> \<not> dv_reboot_requested d")
  case False
  then have "keyboard_sync_task e d = d" by (auto simp: keyboard_sync_task_def)
  then show ?thesis using assms by simp
next
  case True
  then show ?thesis using sync_task_lease [of d e] assms
    by (cases "dv_remote_kbd_state (keyboard_sync_task e d) = zero_kbd_report") (auto simp: lease_inv_def sync_task_initialized)
qed

interpretation sync_machine: machine sync_step lease_inv "\<lambda>_. True"
proof unfold_locales
  fix s i o' s'
  assume "lease_inv s" "sync_step s i = (o', s')"
  then show "lease_inv s'"
    by (cases i) (auto intro!: sync_task_lease_inv sync_receive_lease focus_lease send_key_lease simp: lease_inv_def [of "keyboard_synthetic_receive _ _ _"]
        lease_inv_def [of "publish_local_modifiers _"], simp_all add: lease_inv_def)
qed

lemma receive_fragment_core:
  assumes "ks_initialized (dv_sync d)" "\<not> dv_reboot_requested d"
  shows "lease_core (receive_fragment e (int t - 43) data d) = lease_core d
    \<or> t = 47 \<and> (\<exists>r. accepted_answer e data d = Some r \<and> lease_core (receive_fragment e (int t - 43) data d) = (r, True, env_now e))"
proof -
  let ?s = "dv_sync d" and ?p = "blit (ks_incoming (dv_sync d)) 32 data"
  have same: "lease_core (d\<lparr>dv_sync := s\<rparr>) = lease_core d"
    if "ks_peer_valid s = ks_peer_valid ?s" "ks_peer_seen s = ks_peer_seen ?s" for s
    using that by (simp add: lease_core_def)
  show ?thesis
  proof (cases "t = 47 \<and> ks_fragment ?s = 4")
    case False
    then have "lease_core (receive_fragment e (int t - 43) data d) = lease_core d"
      using same by (auto simp: receive_fragment_def Let_def)
    then show ?thesis ..
  next
    case True
    define d1 where "d1 = d\<lparr>dv_sync := ?s\<lparr>ks_incoming := ?p, ks_fragment := 0\<rparr>\<rparr>"
    have r: "receive_fragment e (int t - 43) data d = (if snapshot_acceptable e ?p d1 then accept_snapshot e ?p d1 else d1)"
      using True by (simp add: receive_fragment_def Let_def d1_def)
    have acc: "snapshot_acceptable e ?p d1 = snapshot_acceptable e ?p d" by (simp add: snapshot_acceptable_def d1_def)
    have d1: "lease_core d1 = lease_core d" by (simp add: d1_def same)
    let ?old = "ks_peer_serial_valid ?s \<and> get64 ?p 8 = ks_peer_boot ?s
      \<and> (get32 ?p 20 - ks_peer_serial ?s = 0 \<or> get32 ?p 20 - ks_peer_serial ?s \<ge> 0x80000000)"
    show ?thesis
    proof (cases "snapshot_acceptable e ?p d \<and> \<not> ?old")
      case False
      then have "receive_fragment e (int t - 43) data d = d1"
        using r acc by (auto simp: accept_snapshot_def Let_def d1_def)
      with d1 show ?thesis by simp
    next
      case good: True
      then have "accepted_answer e data d = Some (kbd_report_of_bytes (slice ?p 24 8))"
        using assms True by (simp add: accepted_answer_def Let_def)
      moreover have "lease_core (accept_snapshot e ?p d1) = (kbd_report_of_bytes (slice ?p 24 8), True, env_now e)"
        using good by (auto simp: accept_snapshot_def Let_def d1_def lease_core_def)
      ultimately show ?thesis using True good r acc by auto
    qed
  qed
qed

text \<open>One event: the peer's keys are released, or stay as they are, or an answer was accepted.\<close>

lemma sync_step_core:
  assumes "sync_step d i = (u, d')" "lease_inv d"
  shows "dv_remote_kbd_state d' = zero_kbd_report
    \<or> dv_remote_kbd_state d' = dv_remote_kbd_state d \<and> ks_peer_seen (dv_sync d') = ks_peer_seen (dv_sync d)
    \<or> (\<exists>e data. i = Receive e 47 data \<and> accepted_answer e data d = Some (dv_remote_kbd_state d')
        \<and> ks_peer_seen (dv_sync d') = env_now e)"
proof (cases i)
  case (Task e)
  then show ?thesis
    using assms sync_task_lease [of d e]
    by (cases "ks_initialized (dv_sync d) \<and> \<not> dv_reboot_requested d") (auto simp: keyboard_sync_task_def)
next
  case (Receive e t data)
  have "lease_core d' = lease_core d \<or>
      t = 47 \<and> (\<exists>r. accepted_answer e data d = Some r \<and> lease_core d' = (r, True, env_now e))"
  proof (cases "\<not> ks_initialized (dv_sync d) \<or> dv_reboot_requested d \<or> t = 42 \<or> t = 48")
    case True
    then have "d' = d \<or> d' = receive_challenge t data d" using assms(1) Receive by (simp add: keyboard_sync_receive_def) metis
    moreover have "lease_core (receive_challenge t data d) = lease_core d"
      by (simp add: receive_challenge_def lease_core_def Let_def)
    ultimately show ?thesis by auto
  next
    case False
    then show ?thesis using assms(1) Receive receive_fragment_core [of d e t data] by (auto simp: keyboard_sync_receive_def)
  qed
  then show ?thesis using Receive by (auto simp: lease_core_def)
qed (use assms(1) focus_remote in \<open>auto simp: send_key_def Let_def\<close>)

text \<open>While a key of the peer is held, the run contains the acceptance of the answer that holds it.\<close>

lemma held_since:
  assumes "lease_inv d0" "dv_remote_kbd_state d0 = zero_kbd_report"
  shows "run_machine sync_step d0 es = (os, d) \<Longrightarrow> dv_remote_kbd_state d \<noteq> zero_kbd_report \<Longrightarrow>
    \<exists>es1 e data es2. es = es1 @ Receive e 47 data # es2
      \<and> accepted_answer e data (snd (run_machine sync_step d0 es1)) = Some (dv_remote_kbd_state d)
      \<and> ks_peer_seen (dv_sync d) = env_now e"
proof (induction es arbitrary: d os rule: rev_induct)
  case Nil
  then show ?case using assms(2) by simp
next
  case (snoc i es)
  obtain os1 d1 where r: "run_machine sync_step d0 es = (os1, d1)" by fastforce
  obtain u where st: "sync_step d1 i = (u, d)" using snoc.prems(1) r by (auto simp: run_machine_append split: prod.splits)
  have inv: "lease_inv d1" using sync_machine.run_inv [OF assms(1) _ r] by (simp add: list_all_iff)
  from sync_step_core [OF st inv] snoc.prems(2) consider
    (same) "dv_remote_kbd_state d = dv_remote_kbd_state d1" "ks_peer_seen (dv_sync d) = ks_peer_seen (dv_sync d1)"
    | (new) e data where "i = Receive e 47 data" "accepted_answer e data d1 = Some (dv_remote_kbd_state d)"
        "ks_peer_seen (dv_sync d) = env_now e" by blast
  then show ?case
  proof cases
    case same
    obtain es1 e data es2 where "es = es1 @ Receive e 47 data # es2"
      "accepted_answer e data (snd (run_machine sync_step d0 es1)) = Some (dv_remote_kbd_state d)"
      "ks_peer_seen (dv_sync d) = env_now e"
      using snoc.IH [OF r] same snoc.prems(2) by auto
    then show ?thesis by (intro exI [of _ es1] exI [of _ e] exI [of _ data] exI [of _ "es2 @ [i]"]) simp
  next
    case new
    then show ?thesis
      by (intro exI [of _ es] exI [of _ e] exI [of _ data] exI [of _ "[]"]) (simp add: r)
  qed
qed

subsection \<open>An answer reaches the challenger\<close>

lemma length_kbd_report_bytes: "length (kr_keycode r) = 6 \<Longrightarrow> length (kbd_report_bytes r) = 8"
  by (simp add: kbd_report_bytes_def)

lemma kbd_report_roundtrip: "length (kr_keycode r) = 6 \<Longrightarrow> kbd_report_of_bytes (kbd_report_bytes r) = r"
  by (cases r) (simp add: kbd_report_of_bytes_def kbd_report_bytes_def slice_def)

lemma state_payload_fields:
  fixes serial :: u32
  assumes "length (kr_keycode (source_report (dv_sync d))) = 6"
  defines "p \<equiv> state_payload d serial"
  shows "length p = 40" "get64 p 0 = ks_target (dv_sync d)" "get64 p 8 = ks_boot (dv_sync d)"
    "get32 p 16 = sel_counter (dv_selection d)" "get32 p 20 = serial"
    "slice p 24 8 = kbd_report_bytes (source_report (dv_sync d))"
    "p ! 32 = sel_origin (dv_selection d)" "p ! 33 = dv_active_output d" "p ! 34 = 0x4b" "p ! 35 = 1"
    "get32 p 36 = state_crc p"
proof -
  define t b c n k where "t = le64 (ks_target (dv_sync d))" and "b = le64 (ks_boot (dv_sync d))"
    and "c = le32 (sel_counter (dv_selection d))" and "n = le32 serial" and "k = kbd_report_bytes (source_report (dv_sync d))"
  define f where "f = [sel_origin (dv_selection d), dv_active_output d, 0x4b, 1]"
  have body: "state_body d serial = t @ b @ c @ n @ k @ f"
    by (simp add: state_body_def t_def b_def c_def n_def k_def f_def)
  define z where "z = le32 (state_crc (state_body d serial))"
  have p: "p = t @ b @ c @ n @ k @ f @ z" by (simp add: p_def state_payload_def body z_def)
  have len [simp]: "length t = 8" "length b = 8" "length c = 4" "length n = 4" "length k = 8" "length f = 4" "length z = 4"
    using assms(1) by (simp_all add: t_def b_def c_def n_def k_def f_def z_def length_kbd_report_bytes)
  show "length p = 40" by (simp add: p)
  show "get64 p 0 = ks_target (dv_sync d)" using get64_at [of 0 "[]"] by (simp add: p t_def)
  show "get64 p 8 = ks_boot (dv_sync d)" using get64_at [of 8 t] by (simp add: p b_def)
  show "get32 p 16 = sel_counter (dv_selection d)" using get32_at [of 16 "t @ b"] by (simp add: p c_def)
  show "get32 p 20 = serial" using get32_at [of 20 "t @ b @ c"] by (simp add: p n_def)
  show "slice p 24 8 = kbd_report_bytes (source_report (dv_sync d))" by (simp add: p slice_def flip: k_def)
  show "p ! 32 = sel_origin (dv_selection d)" "p ! 33 = dv_active_output d" "p ! 34 = 0x4b" "p ! 35 = 1"
    by (simp_all add: p nth_append f_def)
  have "state_crc p = state_crc (state_body d serial)" by (simp add: state_crc_def p body)
  moreover have "get32 p 36 = state_crc (state_body d serial)"
    using get32_at [of 36 "t @ b @ c @ n @ k @ f" _ "[]"] by (simp add: p z_def)
  ultimately show "get32 p 36 = state_crc p" by simp
qed

text \<open>The receiver collects the fragments in order.\<close>

definition collected :: "bytes \<Rightarrow> nat \<Rightarrow> device \<Rightarrow> device \<Rightarrow> bool" where
  "collected p i r d \<longleftrightarrow> (\<exists>w. length w = 40 \<and> take (8 * i) w = take (8 * i) p
     \<and> d = r\<lparr>dv_sync := (dv_sync r)\<lparr>ks_incoming := w, ks_fragment := i\<rparr>\<rparr>)"

lemma collectedI:
  "d = r\<lparr>dv_sync := (dv_sync r)\<lparr>ks_incoming := w, ks_fragment := i\<rparr>\<rparr> \<Longrightarrow> length w = 40
   \<Longrightarrow> take (8 * i) w = take (8 * i) p \<Longrightarrow> collected p i r d"
  unfolding collected_def by blast

lemma take_blit_next:
  assumes "length w = 40" "length p = 40" "i < 5" "take (8 * i) w = take (8 * i) p"
  shows "take (8 * Suc i) (blit w (8 * i) (slice p (8 * i) 8)) = take (8 * Suc i) p"
proof -
  have "take (8 * Suc i) p = take (8 * i) p @ slice p (8 * i) 8"
    using assms(2,3) take_add [of "8 * i" 8 p] by (simp add: slice_def add.commute)
  then show ?thesis using assms by (simp add: blit_def slice_def)
qed

lemma collect_next:
  assumes "collected p i r d" "length p = 40" "0 < i" "i < 4"
  shows "collected p (Suc i) r (receive_fragment e (int i) (slice p (8 * i) 8) d)"
proof -
  obtain w where d: "d = r\<lparr>dv_sync := (dv_sync r)\<lparr>ks_incoming := w, ks_fragment := i\<rparr>\<rparr>"
    and w: "length w = 40" "take (8 * i) w = take (8 * i) p"
    using assms(1) unfolding collected_def by blast
  have "receive_fragment e (int i) (slice p (8 * i) 8) d
    = r\<lparr>dv_sync := (dv_sync r)\<lparr>ks_incoming := blit w (8 * i) (slice p (8 * i) 8), ks_fragment := Suc i\<rparr>\<rparr>"
    using assms(3,4) by (auto simp: d receive_fragment_def Let_def)
  then show ?thesis using take_blit_next [OF w(1) assms(2) _ w(2)] w(1) assms(2,4)
    by (intro collectedI [where w = "blit w (8 * i) (slice p (8 * i) 8)"]) simp_all
qed

lemma collect_first:
  assumes "length p = 40" "length (ks_incoming (dv_sync r)) = 40"
  shows "collected p 1 r (receive_fragment e 0 (slice p 0 8) r)"
proof -
  define s where "s = dv_sync r"
  have t: "take 8 (blit (ks_incoming s) 0 (slice p 0 8)) = take 8 p"
    using take_blit_next [of "ks_incoming s" p 0] assms by (simp add: s_def)
  show ?thesis
  proof (cases "ks_fragment s = 1 \<and> slice (ks_incoming s) 0 8 = slice p 0 8")
    case True
    then have "receive_fragment e 0 (slice p 0 8) r = r" by (simp add: receive_fragment_def s_def)
    then show ?thesis using True assms by (intro collectedI [where w = "ks_incoming s"]) (simp_all add: slice_def s_def)
  next
    case False
    then have "receive_fragment e 0 (slice p 0 8) r
      = r\<lparr>dv_sync := s\<lparr>ks_incoming := blit (ks_incoming s) 0 (slice p 0 8), ks_fragment := 1\<rparr>\<rparr>"
      by (auto simp: receive_fragment_def s_def Let_def)
    then show ?thesis using t assms by (intro collectedI [where w = "blit (ks_incoming s) 0 (slice p 0 8)"]) (simp_all add: s_def)
  qed
qed

text \<open>Packets arrive, each at a time of its own.\<close>

definition receive_packets :: "(env \<times> uart_packet) list \<Rightarrow> device \<Rightarrow> device" where
  "receive_packets ps d = foldl (\<lambda>d (e, p). keyboard_sync_receive e (unat (pkt_type p)) (pkt_data p) d) d ps"

definition fragment_packets :: "bytes \<Rightarrow> uart_packet list" where
  "fragment_packets p = map (\<lambda>i. \<lparr>pkt_type = of_nat (43 + i), pkt_data = slice p (8 * i) 8, pkt_checksum = 0\<rparr>) [0..<5]"

lemma word_of_int_of_nat: "word_of_int (int n) = (of_nat n :: 'a::len word)"
  by simp

lemma fragment_type: "i < 5 \<Longrightarrow> unat (of_nat (43 + i) :: u8) = 43 + i"
  unfolding unsigned_of_nat by (simp add: take_bit_nat_eq_self)

lemma queue_fragment_packet:
  assumes "queue_ok (dv_uart_tx_queue d)" "length (queue_items (dv_uart_tx_queue d)) < q_element_count (dv_uart_tx_queue d)"
    "length p = 40" "i < 5"
  shows "\<exists>q. queue_packet_dev (slice p (8 * i) 8) (43 + i) d = (True, d\<lparr>dv_uart_tx_queue := q\<rparr>) \<and> queue_ok q
    \<and> q_element_count q = q_element_count (dv_uart_tx_queue d)
    \<and> queue_items q = queue_items (dv_uart_tx_queue d) @ [fragment_packets p ! i]"
proof -
  have len: "length (slice p (8 * i) 8) = 8" using assms(3,4) by simp
  have "fragment_packets p ! i = \<lparr>pkt_type = of_nat (43 + i), pkt_data = slice p (8 * i) 8, pkt_checksum = 0\<rparr>"
    using assms(4) by (simp add: fragment_packets_def del: upt_Suc)
  moreover have "queue_packet_try (dv_uart_tx_queue d) (Some (slice p (8 * i) 8)) (int (43 + i)) (int (length (slice p (8 * i) 8)))
    = queue_try_add (dv_uart_tx_queue d) \<lparr>pkt_type = of_nat (43 + i), pkt_data = slice p (8 * i) 8, pkt_checksum = 0\<rparr>"
    using assms(4) unfolding queue_packet_try_def len word_of_int_of_nat by (simp add: len)
  ultimately show ?thesis using pico_queue.add_room [OF assms(1,2), of "fragment_packets p ! i"]
    by (auto simp: queue_packet_dev_def)
qed

lemma queue_fragments_all:
  assumes "queue_ok (dv_uart_tx_queue d)" "length (queue_items (dv_uart_tx_queue d)) + n \<le> q_element_count (dv_uart_tx_queue d)"
    "length p = 40" "i + n \<le> 5"
  shows "\<exists>q. queue_fragments p i n d = (True, d\<lparr>dv_uart_tx_queue := q\<rparr>)
    \<and> queue_items q = queue_items (dv_uart_tx_queue d) @ map (\<lambda>j. fragment_packets p ! j) [i..<i + n]"
  using assms
proof (induction n arbitrary: i d)
  case 0
  then show ?case by (auto intro!: exI [of _ "dv_uart_tx_queue d"])
next
  case (Suc n)
  obtain q where q: "queue_packet_dev (slice p (8 * i) 8) (43 + i) d = (True, d\<lparr>dv_uart_tx_queue := q\<rparr>)" "queue_ok q"
    "q_element_count q = q_element_count (dv_uart_tx_queue d)"
    "queue_items q = queue_items (dv_uart_tx_queue d) @ [fragment_packets p ! i]"
    using queue_fragment_packet [of d p i] Suc.prems by auto
  have "length (queue_items q) = Suc (length (queue_items (dv_uart_tx_queue d)))" using q(4) by (simp del: length_queue_items)
  then obtain q' where "queue_fragments p (Suc i) n (d\<lparr>dv_uart_tx_queue := q\<rparr>) = (True, d\<lparr>dv_uart_tx_queue := q'\<rparr>)"
    "queue_items q' = queue_items q @ map (\<lambda>j. fragment_packets p ! j) [Suc i..<Suc i + n]"
    using Suc.IH [of "d\<lparr>dv_uart_tx_queue := q\<rparr>" "Suc i"] Suc.prems q by auto
  moreover have "[i..<i + Suc n] = i # [Suc i..<Suc i + n]" by (simp add: upt_conv_Cons del: upt_Suc)
  ultimately show ?case using q by (simp del: upt_Suc) blast
qed

text \<open>A board \<open>r\<close> whose current challenge a board \<open>s\<close> answers.\<close>

definition answerable :: "env \<Rightarrow> device \<Rightarrow> device \<Rightarrow> bool" where
  "answerable e r s \<longleftrightarrow>
     ks_initialized (dv_sync r) \<and> \<not> dv_reboot_requested r \<and> is_active r \<and> dv_tud_connected r
     \<and> dv_kbd_host_generation r = ks_host_generation (dv_sync r)
     \<and> env_now e - ks_nonce_started (dv_sync r) < 100000 \<and> ks_target (dv_sync s) = ks_nonce (dv_sync r)
     \<and> sel_counter (dv_selection s) = sel_counter (dv_selection r) \<and> sel_origin (dv_selection s) = sel_origin (dv_selection r)
     \<and> dv_active_output s = dv_active_output r \<and> length (ks_incoming (dv_sync r)) = 40
     \<and> (ks_peer_serial_valid (dv_sync r) \<and> ks_boot (dv_sync s) = ks_peer_boot (dv_sync r) \<longrightarrow>
          0 < ks_serial (dv_sync s) + 1 - ks_peer_serial (dv_sync r)
          \<and> ks_serial (dv_sync s) + 1 - ks_peer_serial (dv_sync r) < 0x80000000)
     \<and> length (kr_keycode (source_report (dv_sync s))) = 6 \<and> kr_reserved (source_report (dv_sync s)) = 0"

lemma receive_last:
  assumes c: "collected p 4 r d" and p: "p = state_payload s (ks_serial (dv_sync s) + 1)" and ans: "answerable e r s"
  shows "dv_remote_kbd_state (receive_fragment e 4 (slice p 32 8) d) = source_report (dv_sync s)
    \<and> ks_peer_seen (dv_sync (receive_fragment e 4 (slice p 32 8) d)) = env_now e
    \<and> ks_host_generation (dv_sync (receive_fragment e 4 (slice p 32 8) d)) = ks_host_generation (dv_sync r)"
proof -
  have six: "length (kr_keycode (source_report (dv_sync s))) = 6" using ans by (simp add: answerable_def)
  note f = state_payload_fields [OF six, of "ks_serial (dv_sync s) + 1", folded p]
  obtain w where w: "length w = 40" "take 32 w = take 32 p"
    and d: "d = r\<lparr>dv_sync := (dv_sync r)\<lparr>ks_incoming := w, ks_fragment := 4\<rparr>\<rparr>"
    using c by (auto simp: collected_def)
  have all: "blit w 32 (slice p 32 8) = p" using take_blit_next [of w p 4] w f(1) by simp
  define d1 where "d1 = r\<lparr>dv_sync := (dv_sync r)\<lparr>ks_incoming := p, ks_fragment := 0\<rparr>\<rparr>"
  have r: "receive_fragment e 4 (slice p 32 8) d = (if snapshot_acceptable e p d1 then accept_snapshot e p d1 else d1)"
    by (simp add: receive_fragment_def d Let_def all d1_def)
  have "p ! 25 = slice p 24 8 ! 1" using f(1) by (simp add: nth_slice)
  then have "p ! 25 = 0" using ans f(6) by (simp add: kbd_report_bytes_def answerable_def)
  then have acc: "snapshot_acceptable e p d1" using ans f by (simp add: snapshot_acceptable_def answerable_def d1_def)
  have "dv_remote_kbd_state (accept_snapshot e p d1) = kbd_report_of_bytes (slice p 24 8)
    \<and> ks_peer_seen (dv_sync (accept_snapshot e p d1)) = env_now e
    \<and> ks_host_generation (dv_sync (accept_snapshot e p d1)) = ks_host_generation (dv_sync r)"
    using ans f(3,5) by (auto simp: accept_snapshot_def answerable_def d1_def Let_def not_le word_gt_0)
  then show ?thesis using r acc f(6) kbd_report_roundtrip [OF six] by simp
qed

lemma collected_sync:
  assumes "collected p i r d" "ks_initialized (dv_sync r)" "\<not> dv_reboot_requested r" "j < 5"
  shows "keyboard_sync_receive e (unat (pkt_type (fragment_packets p ! j))) (pkt_data (fragment_packets p ! j)) d
    = receive_fragment e (int j) (slice p (8 * j) 8) d"
proof -
  have "ks_initialized (dv_sync d)" "\<not> dv_reboot_requested d" using assms by (auto simp: collected_def)
  moreover have "unat (pkt_type (fragment_packets p ! j)) = 43 + j" "pkt_data (fragment_packets p ! j) = slice p (8 * j) 8"
    using assms(4) fragment_type [OF assms(4)] by (simp_all add: fragment_packets_def del: upt_Suc)
  ultimately show ?thesis using assms(4) by (simp add: keyboard_sync_receive_def)
qed

lemma receive_fragments:
  assumes p: "p = state_payload s (ks_serial (dv_sync s) + 1)" and ans: "answerable (last es) r s" and es: "length es = 5"
  shows "dv_remote_kbd_state (receive_packets (zip es (fragment_packets p)) r) = source_report (dv_sync s)
    \<and> ks_peer_seen (dv_sync (receive_packets (zip es (fragment_packets p)) r)) = env_now (last es)
    \<and> ks_host_generation (dv_sync (receive_packets (zip es (fragment_packets p)) r)) = ks_host_generation (dv_sync r)"
proof -
  have six: "length (kr_keycode (source_report (dv_sync s))) = 6" using ans by (simp add: answerable_def)
  have len: "length p = 40" using state_payload_fields(1) [OF six] p by simp
  have r: "ks_initialized (dv_sync r)" "\<not> dv_reboot_requested r" "length (ks_incoming (dv_sync r)) = 40"
    using ans by (simp_all add: answerable_def)
  define step where "step e i d = keyboard_sync_receive e (unat (pkt_type (fragment_packets p ! i))) (pkt_data (fragment_packets p ! i)) d" for e i d
  have "unat (pkt_type (fragment_packets p ! 0)) = 43" "pkt_data (fragment_packets p ! 0) = slice p 0 8"
    using fragment_type [of 0] by (simp_all add: fragment_packets_def upt_conv_Cons)
  then have "step e 0 r = receive_fragment e 0 (slice p 0 8) r" for e
    using r by (simp add: step_def keyboard_sync_receive_def)
  then have c1: "collected p 1 r (step e 0 r)" for e using collect_first [OF len r(3), of e] by simp
  have more: "collected p (Suc i) r (step e i d)" if "collected p i r d" "0 < i" "i < 4" for e i d
    using collect_next [OF that(1) len that(2,3)] collected_sync [OF that(1) r(1,2), of i] that(3) by (simp add: step_def)
  obtain e0 e1 e2 e3 e4 where e: "es = [e0, e1, e2, e3, e4]"
    using es by (auto simp: numeral_eq_Suc length_Suc_conv)
  have c4: "collected p 4 r (step e3 3 (step e2 2 (step e1 1 (step e0 0 r))))"
    using more [OF more [OF more [OF c1]]] by (simp add: eval_nat_numeral)
  obtain x0 x1 x2 x3 x4 where "fragment_packets p = [x0, x1, x2, x3, x4]"
    by (simp add: fragment_packets_def upt_conv_Cons)
  then have "receive_packets (zip es (fragment_packets p)) r = step e4 4 (step e3 3 (step e2 2 (step e1 1 (step e0 0 r))))"
    by (simp add: receive_packets_def step_def e)
  then show ?thesis
    using receive_last [OF c4 p ans] collected_sync [OF c4 r(1,2), of 4] by (simp add: step_def e)
qed

subsection \<open>Properties\<close>

text \<open>
  C20. No key of the other board stays pressed without its owner. Whatever tasks, packets, focus changes, changes of the
  selected computer, attachments and detachments of the host and local key events a board has been through since it
  started, if a pass of its keyboard task leaves a key of the other board held, then the run contains the packet that
  completed the answer in which the other board reported exactly that state: an answer that passed all the checks when
  it arrived (this board selected and attached to its host, the current challenge, younger than 100 ms, a correct CRC, the
  same selection, and newer than the last one accepted), and it arrived less than half a second before this pass.
\<close>

theorem keyboard_lease:
  assumes "run_machine sync_step ((device_boot role)\<lparr>dv_sync := keyboard_sync_init boot now\<rparr>) es = (os, d)"
    "\<not> dv_reboot_requested d" "dv_remote_kbd_state (keyboard_sync_task e d) \<noteq> zero_kbd_report"
  shows "\<exists>es1 e' data es2. es = es1 @ Receive e' 47 data # es2 \<and>
    accepted_answer e' data (snd (run_machine sync_step ((device_boot role)\<lparr>dv_sync := keyboard_sync_init boot now\<rparr>) es1))
      = Some (dv_remote_kbd_state (keyboard_sync_task e d)) \<and>
    env_now e - env_now e' < 500000"
proof -
  let ?d0 = "(device_boot role)\<lparr>dv_sync := keyboard_sync_init boot now\<rparr>"
  have d0: "lease_inv ?d0" "dv_remote_kbd_state ?d0 = zero_kbd_report"
    by (simp_all add: lease_inv_def device_boot_def keyboard_sync_init_def)
  then have inv: "lease_inv d" using sync_machine.run_inv [OF _ _ assms(1)] by (simp add: list_all_iff)
  have init: "ks_initialized (dv_sync d)"
  proof (rule ccontr)
    assume "\<not> ks_initialized (dv_sync d)"
    then have "dv_remote_kbd_state d = zero_kbd_report" "keyboard_sync_task e d = d"
      using inv by (simp_all add: keyboard_sync_task_def lease_inv_def)
    then show False using assms(3) by simp
  qed
  note task = sync_task_lease [OF init assms(2) inv assms(3)]
  then have "dv_remote_kbd_state d \<noteq> zero_kbd_report" using assms(3) by simp
  from held_since [OF d0 assms(1) this] obtain es1 e' data es2 where "es = es1 @ Receive e' 47 data # es2"
    "accepted_answer e' data (snd (run_machine sync_step ?d0 es1)) = Some (dv_remote_kbd_state d)"
    "ks_peer_seen (dv_sync d) = env_now e'" by blast
  with task show ?thesis by (intro exI [of _ es1] exI [of _ e'] exI [of _ data] exI [of _ es2]) simp
qed

definition sample_started :: device where
  "sample_started = (device_boot 0)\<lparr>dv_sync := keyboard_sync_init 7 0\<rparr>"

text \<open>
  C21. What one board answers is what the other receives. Board \<open>s\<close> is not selected, has a challenge to answer and room for
  five packets; board \<open>r\<close> issued that challenge, is selected and attached to its host since the same attachment, is not
  about to reboot, agrees with \<open>s\<close> on the selection, and knows no serial number of this session that is as new as the next
  one. Then answering appends exactly five packets, and if they arrive in order, each at any time, the last one less
  than 100 ms after the challenge was issued, and \<open>r\<close> does nothing else in between, then \<open>r\<close> holds exactly the keyboard state
  the answer was made from, whatever fragments it had received before.
\<close>

theorem keyboard_answer_delivered:
  assumes "\<not> is_active s" "ks_target_valid (dv_sync s)"
    "queue_ok (dv_uart_tx_queue s)" "q_element_count (dv_uart_tx_queue s) = 256"
    "queue_get_level (dv_uart_tx_queue s) \<le> 251"
    "length es = 5" "answerable (last es) r s"
  shows "\<exists>ps. queue_items (dv_uart_tx_queue (sync_answer s)) = queue_items (dv_uart_tx_queue s) @ ps \<and> length ps = 5
    \<and> dv_remote_kbd_state (receive_packets (zip es ps) r) = source_report (dv_sync s)"
proof -
  define s1 where "s1 = s\<lparr>dv_sync := (dv_sync s)\<lparr>ks_serial := ks_serial (dv_sync s) + 1\<rparr>\<rparr>"
  define p where "p = state_payload s1 (ks_serial (dv_sync s) + 1)"
  have p: "p = state_payload s (ks_serial (dv_sync s) + 1)"
    by (simp add: p_def s1_def state_payload_def state_body_def source_report_def)
  have "length (kr_keycode (source_report (dv_sync s))) = 6" using assms(7) by (simp add: answerable_def)
  then have len: "length p = 40" using state_payload_fields(1) p by simp
  have map: "map (\<lambda>j. fragment_packets p ! j) [0..<5] = fragment_packets p"
    by (rule nth_equalityI) (simp_all add: fragment_packets_def del: upt_Suc)
  obtain q where q: "queue_fragments p 0 5 s1 = (True, s1\<lparr>dv_uart_tx_queue := q\<rparr>)"
    "queue_items q = queue_items (dv_uart_tx_queue s) @ fragment_packets p"
    using queue_fragments_all [of s1 5 p 0] assms(3-5) len map by (auto simp: s1_def)
  then have "sync_answer s = s1\<lparr>dv_uart_tx_queue := q, dv_sync := advance_source (dv_sync s1)\<rparr>"
    using assms(1,2,5) by (simp add: sync_answer_def Let_def flip: p_def s1_def)
  then have "queue_items (dv_uart_tx_queue (sync_answer s)) = queue_items (dv_uart_tx_queue s) @ fragment_packets p"
    using q(2) by simp
  moreover have "length (fragment_packets p) = 5" by (simp add: fragment_packets_def)
  ultimately show ?thesis using receive_fragments [OF p assms(7,6)] by blast
qed

text \<open>Board 0 is selected and has issued its first challenge; board 1 holds the key A.\<close>

definition sample_challenger :: device where
  "sample_challenger = (device_boot 0)\<lparr>dv_tud_connected := True, dv_sync := keyboard_sync_init 7 0\<rparr>"

definition sample_source :: device where
  "sample_source = (device_boot 1)\<lparr>dv_sync := (keyboard_sync_init 9 0)\<lparr>ks_target := ks_nonce (keyboard_sync_init 7 0),
     ks_target_valid := True, ks_latest := sample_a\<rparr>\<rparr>"

theorem keyboard_answer_delivered_witness:
  "\<exists>ps. queue_items (dv_uart_tx_queue (sync_answer sample_source)) = ps
    \<and> dv_remote_kbd_state (receive_packets (zip (map sample_env [1000, 1500, 2000, 2500, 5000]) ps) sample_challenger) = sample_a"
proof -
  have src: "source_report (dv_sync sample_source) = sample_a"
    by (simp add: source_report_def sample_source_def keyboard_sync_init_def rotate_nonce_def zero_sync_def Let_def)
  have ans: "answerable (sample_env 5000) sample_challenger sample_source"
    unfolding answerable_def src
    by (simp add: sample_source_def sample_challenger_def sample_env_def device_boot_def keyboard_sync_init_def
        rotate_nonce_def zero_sync_def sample_a_def zero_kbd_report_def Let_def)
  have q: "queue_ok (dv_uart_tx_queue sample_source)" "queue_items (dv_uart_tx_queue sample_source) = []"
    "q_element_count (dv_uart_tx_queue sample_source) = 256" "queue_get_level (dv_uart_tx_queue sample_source) = 0"
    by (simp_all add: sample_source_def device_boot_def queue_init_ok) (simp_all add: queue_init_def queue_get_level_def)
  have "\<not> is_active sample_source" "ks_target_valid (dv_sync sample_source)"
    by (simp_all add: sample_source_def device_boot_def)
  from keyboard_answer_delivered [OF this q(1,3), of "map sample_env [1000, 1500, 2000, 2500, 5000]" sample_challenger] q(2,4) src ans
  show ?thesis by auto
qed

text \<open>Board 0 is attached to its host and issues a challenge, and board 1 answers that the key A is held.\<close>

lemma generation_frame [simp]:
  "dv_kbd_host_generation (queue_kbd_report r d) = dv_kbd_host_generation d"
  "dv_kbd_host_generation (keyboard_queue_current d) = dv_kbd_host_generation d"
  "dv_kbd_host_generation (log_call c d) = dv_kbd_host_generation d"
  "dv_kbd_host_generation (publish_peer e r d) = dv_kbd_host_generation d"
  by (simp_all add: keyboard_queue_current_def queue_kbd_report_def log_call_def publish_peer_def Let_def split: prod.splits bool.splits)

lemma sync_receive_keeps:
  "dv_kbd_host_generation (keyboard_sync_receive e t data d) = dv_kbd_host_generation d"
  "dv_reboot_requested (keyboard_sync_receive e t data d) = dv_reboot_requested d"
  "ks_initialized (dv_sync (keyboard_sync_receive e t data d)) = ks_initialized (dv_sync d)"
proof -
  have a: "dv_kbd_host_generation (accept_snapshot e p d) = dv_kbd_host_generation d"
    "dv_reboot_requested (accept_snapshot e p d) = dv_reboot_requested d"
    "ks_initialized (dv_sync (accept_snapshot e p d)) = ks_initialized (dv_sync d)" for e p d
    by (simp_all add: accept_snapshot_def Let_def)
  have f: "dv_kbd_host_generation (receive_fragment e f data d) = dv_kbd_host_generation d"
    "dv_reboot_requested (receive_fragment e f data d) = dv_reboot_requested d"
    "ks_initialized (dv_sync (receive_fragment e f data d)) = ks_initialized (dv_sync d)" for f
    by (simp_all add: receive_fragment_def Let_def a)
  show "dv_kbd_host_generation (keyboard_sync_receive e t data d) = dv_kbd_host_generation d"
    "dv_reboot_requested (keyboard_sync_receive e t data d) = dv_reboot_requested d"
    "ks_initialized (dv_sync (keyboard_sync_receive e t data d)) = ks_initialized (dv_sync d)"
    by (simp_all add: keyboard_sync_receive_def receive_challenge_def Let_def f)
qed

lemma receive_packets_run:
  "run_machine sync_step d (map (\<lambda>(e, x). Receive e (unat (pkt_type x)) (pkt_data x)) ps) = (replicate (length ps) (), receive_packets ps d)"
  "dv_kbd_host_generation (receive_packets ps d) = dv_kbd_host_generation d"
  "dv_reboot_requested (receive_packets ps d) = dv_reboot_requested d"
  "ks_initialized (dv_sync (receive_packets ps d)) = ks_initialized (dv_sync d)"
  by (induction ps arbitrary: d) (auto simp: receive_packets_def sync_receive_keeps)

lemma sync_task_keeps:
  assumes "ks_initialized (dv_sync d)" "\<not> dv_reboot_requested d"
    "dv_kbd_host_generation d = ks_host_generation (dv_sync d)" "env_now e - ks_peer_seen (dv_sync d) < 500000"
  shows "dv_remote_kbd_state (keyboard_sync_task e d) = dv_remote_kbd_state d"
proof -
  define d0 where "d0 = (if ks_synthetic_pending (dv_sync d) \<and> env_now e \<ge> ks_synthetic_deadline (dv_sync d)
    then synthetic_release d else d)"
  have d0: "dv_remote_kbd_state d0 = dv_remote_kbd_state d" "ks_peer_seen (dv_sync d0) = ks_peer_seen (dv_sync d)"
    "dv_kbd_host_generation d0 = ks_host_generation (dv_sync d0)"
    using assms(3) by (simp_all add: d0_def synthetic_release_def Let_def)
  have "\<not> 500000 \<le> env_now e - ks_peer_seen (dv_sync d)" using assms(4) by (simp add: not_le)
  then have "sync_generation e d0 = d0" "sync_lease e d0 = d0"
    using d0 by (simp_all add: sync_generation_def sync_lease_def Let_def)
  then show ?thesis using assms(1,2) d0(1) by (simp add: keyboard_sync_task_def Let_def d0_def [symmetric])
qed

definition sample_attached :: device where
  "sample_attached = snd (run_machine sync_step sample_started [Attached, Task (sample_env 1000)])"

definition sample_answering :: device where
  "sample_answering = (device_boot 1)\<lparr>dv_sync := (keyboard_sync_init 9 0)\<lparr>ks_target := ks_nonce (dv_sync sample_attached),
     ks_target_valid := True, ks_latest := sample_a\<rparr>\<rparr>"

lemma sample_attached_fields:
  "ks_initialized (dv_sync sample_attached)" "\<not> dv_reboot_requested sample_attached" "is_active sample_attached"
  "dv_tud_connected sample_attached" "dv_kbd_host_generation sample_attached = 1" "ks_host_generation (dv_sync sample_attached) = 1"
  "ks_nonce_started (dv_sync sample_attached) = 1000" "dv_selection sample_attached = dv_selection (device_boot 0)"
  "dv_active_output sample_attached = 0" "length (ks_incoming (dv_sync sample_attached)) = 40"
  "\<not> ks_peer_serial_valid (dv_sync sample_attached)"
proof -
  define m where "m = tud_mount_cb sample_started"
  define g where "g = sync_generation (sample_env 1000) m"
  have q: "dv_active_output (keyboard_queue_current d) = dv_active_output d" "dv_board_role (keyboard_queue_current d) = dv_board_role d"
    "dv_tud_connected (keyboard_queue_current d) = dv_tud_connected d" "dv_selection (keyboard_queue_current d) = dv_selection d" for d
    by (simp_all add: keyboard_queue_current_def queue_kbd_report_def Let_def split: prod.splits bool.splits)
  have m: "ks_initialized (dv_sync m)" "\<not> dv_reboot_requested m" "dv_kbd_host_generation m = 1" "ks_host_generation (dv_sync m) = 0"
    "dv_active_output m = 0" "dv_board_role m = 0" "dv_tud_connected m" "dv_selection m = dv_selection (device_boot 0)"
    "length (ks_incoming (dv_sync m)) = 40" "\<not> ks_peer_serial_valid (dv_sync m)" "\<not> ks_synthetic_pending (dv_sync m)"
    by (simp_all add: m_def tud_mount_cb_def keyboard_host_reset_def log_call_def sample_started_def)
      (simp_all add: device_boot_def keyboard_sync_init_def zero_sync_def rotate_nonce_def Let_def)
  have g: "ks_initialized (dv_sync g)" "\<not> dv_reboot_requested g" "dv_kbd_host_generation g = 1" "ks_host_generation (dv_sync g) = 1"
    "dv_active_output g = 0" "dv_board_role g = 0" "dv_tud_connected g" "dv_selection g = dv_selection (device_boot 0)"
    "length (ks_incoming (dv_sync g)) = 40" "\<not> ks_peer_serial_valid (dv_sync g)" "ks_nonce_started (dv_sync g) = 1000"
    "\<not> ks_peer_valid (dv_sync g)"
    using m by (simp_all add: g_def sync_generation_def Let_def q rotate_nonce_def sample_env_def)
  have l: "sync_lease (sample_env 1000) g = g" using g by (simp add: sync_lease_def)
  obtain b d1 where c: "queue_packet_dev (le64 (ks_boot (dv_sync g) + (ks_nonce_counter (dv_sync g) + 1) * 0x9e3779b97f4a7c15))
      (if ks_epoch_pending (dv_sync g) then 48 else 42) g = (b, d1)" by fastforce
  then obtain u where d1: "d1 = g\<lparr>dv_uart_tx_queue := u\<rparr>" using queue_packet_dev_frame by blast
  define x where "x = sync_challenge (sample_env 1000) g"
  have x: "ks_initialized (dv_sync x)" "\<not> dv_reboot_requested x" "dv_kbd_host_generation x = 1" "ks_host_generation (dv_sync x) = 1"
    "dv_active_output x = 0" "dv_board_role x = 0" "dv_tud_connected x" "dv_selection x = dv_selection (device_boot 0)"
    "length (ks_incoming (dv_sync x)) = 40" "\<not> ks_peer_serial_valid (dv_sync x)" "ks_nonce_started (dv_sync x) = 1000"
    using g c d1 by (cases b; simp add: x_def sync_challenge_def Let_def rotate_nonce_def sample_env_def)+
  have "sample_attached = keyboard_sync_task (sample_env 1000) m" by (simp add: sample_attached_def m_def)
  also have "\<dots> = sync_answer x" using m by (simp add: keyboard_sync_task_def Let_def g_def [symmetric] l x_def)
  also have "\<dots> = x" using x by (simp add: sync_answer_def)
  finally show "ks_initialized (dv_sync sample_attached)" "\<not> dv_reboot_requested sample_attached" "is_active sample_attached"
    "dv_tud_connected sample_attached" "dv_kbd_host_generation sample_attached = 1" "ks_host_generation (dv_sync sample_attached) = 1"
    "ks_nonce_started (dv_sync sample_attached) = 1000" "dv_selection sample_attached = dv_selection (device_boot 0)"
    "dv_active_output sample_attached = 0" "length (ks_incoming (dv_sync sample_attached)) = 40"
    "\<not> ks_peer_serial_valid (dv_sync sample_attached)"
    using x by simp_all
qed

definition sample_clocks :: "env list" where
  "sample_clocks = map sample_env [2000, 2000, 2000, 2000, 3000]"

definition sample_answer :: "sync_event list" where
  "sample_answer = [Attached, Task (sample_env 1000)] @ map (\<lambda>(e, x). Receive e (unat (pkt_type x)) (pkt_data x))
     (zip sample_clocks (fragment_packets (state_payload sample_answering 1)))"

theorem keyboard_lease_witness:
  "\<exists>es1 e' data es2. sample_answer = es1 @ Receive e' 47 data # es2 \<and>
     accepted_answer e' data (snd (run_machine sync_step sample_started es1)) = Some sample_a \<and> 100000 - env_now e' < 500000"
proof -
  let ?ps = "zip sample_clocks (fragment_packets (state_payload sample_answering 1))"
  define d where "d = receive_packets ?ps sample_attached"
  have s: "ks_serial (dv_sync sample_answering) = 0" "source_report (dv_sync sample_answering) = sample_a"
    by (simp_all add: sample_answering_def source_report_def keyboard_sync_init_def rotate_nonce_def zero_sync_def Let_def)
  have "answerable (sample_env 3000) sample_attached sample_answering"
    unfolding answerable_def s using sample_attached_fields
    by (simp add: sample_env_def) (simp add: sample_answering_def device_boot_def sample_a_def zero_kbd_report_def)
  then have d: "dv_remote_kbd_state d = sample_a" "ks_peer_seen (dv_sync d) = 3000" "ks_host_generation (dv_sync d) = 1"
    using receive_fragments [of "state_payload sample_answering 1" sample_answering sample_clocks sample_attached] s sample_attached_fields(6)
    by (simp_all add: d_def sample_clocks_def sample_env_def)
  have run0: "run_machine sync_step sample_started [Attached, Task (sample_env 1000)] = ([(), ()], sample_attached)"
    by (simp add: sample_attached_def)
  have run: "run_machine sync_step sample_started sample_answer = ([(), ()] @ replicate (length ?ps) (), d)"
    unfolding sample_answer_def run_machine_append run0 by (simp add: receive_packets_run(1) d_def)
  have f: "ks_initialized (dv_sync d)" "\<not> dv_reboot_requested d" "dv_kbd_host_generation d = 1"
    using sample_attached_fields by (simp_all add: d_def receive_packets_run)
  have keep: "dv_remote_kbd_state (keyboard_sync_task (sample_env 100000) d) = sample_a"
    using sync_task_keeps [of d "sample_env 100000"] f d by (simp add: sample_env_def)
  have "kr_keycode sample_a ! 0 \<noteq> kr_keycode zero_kbd_report ! 0" by (simp add: sample_a_def zero_kbd_report_def)
  then have "sample_a \<noteq> zero_kbd_report" by auto
  then have held: "dv_remote_kbd_state (keyboard_sync_task (sample_env 100000) d) \<noteq> zero_kbd_report" by (simp add: keep)
  show ?thesis
    using keyboard_lease [OF run [unfolded sample_started_def] f(2) held] keep
    unfolding sample_started_def [symmetric] by (simp add: sample_env_def)
qed

end
