(* ===== verification/Hid_Parser.thy ===== *)
theory Hid_Parser
  imports Hid_Report
begin

text \<open>
  The parser of HID report descriptors (hid\_parser.c): items, global and local state, the bit offset of
  every report ID, and the elements of input items handed to \<open>extract_data\<close>. The descriptor is the list of
  its bytes. Pointers into the parser state become indices: \<open>p_usage\<close> is an index into the usage array, a
  report offset is named by its position in the offset list, whose length is \<open>num_report_offsets\<close>. The
  properties: the parser always ends, never writes outside its arrays and never wraps an offset, accepts
  only complete and properly nested descriptors, and leaves either a consistent layout or none.
\<close>

unbundle bit_operations_syntax

subsection \<open>The code\<close>

record item =
  it_size :: nat
  it_type :: nat
  it_tag :: nat
  it_val :: u32

definition zero_item :: item where
  "zero_item = \<lparr>it_size = 0, it_type = 0, it_tag = 0, it_val = 0\<rparr>"

text \<open>The report ID is an \<open>int\<close> that only ever holds 0 or a value accepted as a report ID, below 256.\<close>

record parser_state =
  ps_report_id :: u8
  ps_usage_count :: nat
  ps_usages :: "u16 list"
  ps_p_usage :: nat
  ps_global_usage :: u16
  ps_start :: u8
  ps_end :: u8
  ps_report_offsets :: "(u8 \<times> u32) list"
  ps_input_elements :: u32
  ps_invalid :: bool
  ps_globals :: "item list"
  ps_locals :: "item list"

definition zero_parser :: parser_state where
  "zero_parser = \<lparr>ps_report_id = 0, ps_usage_count = 0, ps_usages = replicate 128 0, ps_p_usage = 0,
     ps_global_usage = 0, ps_start = 0, ps_end = 0, ps_report_offsets = [], ps_input_elements = 0,
     ps_invalid = False, ps_globals = replicate 16 zero_item, ps_locals = replicate 16 zero_item\<rparr>"

definition size_lookup :: "nat \<Rightarrow> nat" where
  "size_lookup n = [0, 1, 2, 4] ! n"

definition get_descriptor_value :: "bytes \<Rightarrow> nat \<Rightarrow> u32" where
  "get_descriptor_value rep sz =
     (if sz = 1 then ucast (rep ! 0) else if sz = 2 then ucast (get16 rep 0)
      else if sz = 3 then get32 rep 0 else 0)"

definition get_or_create_report_offset :: "parser_state \<Rightarrow> u8 \<Rightarrow> nat option \<times> parser_state" where
  "get_or_create_report_offset p r =
     (case find (\<lambda>i. fst (ps_report_offsets p ! i) = r) [0..<length (ps_report_offsets p)] of
        Some i \<Rightarrow> (Some i, p)
      | None \<Rightarrow>
          if length (ps_report_offsets p) < 24
          then (Some (length (ps_report_offsets p)), p\<lparr>ps_report_offsets := ps_report_offsets p @ [(r, 0)]\<rparr>)
          else (None, p))"

definition get_current_offset :: "parser_state \<Rightarrow> u32 \<times> parser_state" where
  "get_current_offset p =
     (case get_or_create_report_offset p (ps_report_id p) of
        (Some i, p) \<Rightarrow> (snd (ps_report_offsets p ! i), p)
      | (None, p) \<Rightarrow> (0, p))"

definition get_usage :: "parser_state \<Rightarrow> nat \<Rightarrow> u16" where
  "get_usage p i =
     (let idx = (if ps_usage_count p = 0 then 0 else if i \<ge> ps_usage_count p then ps_usage_count p - 1 else i);
          slot = ps_p_usage p + idx
      in ps_usages p ! (if slot \<ge> 128 then 127 else slot))"

definition store_element ::
    "parser_state \<Rightarrow> u16 \<Rightarrow> u32 \<Rightarrow> u16 \<Rightarrow> hid_interface \<Rightarrow> report_val \<times> parser_state \<times> hid_interface" where
  "store_element p usage data sz iface =
     (case get_current_offset p of (current_offset, p) \<Rightarrow>
        (\<lparr>rv_offset = ucast current_offset, rv_offset_idx = ucast (drop_bit 3 current_offset), rv_size = sz,
          rv_usage_min = it_val (ps_locals p ! 1), rv_usage_max = it_val (ps_locals p ! 2),
          rv_item_type = (if bit data 0 then CONSTANT else DATA),
          rv_data_type = (if bit data 1 then VARIABLE else ARRAY),
          rv_report_id = ps_report_id p, rv_global_usage = ps_global_usage p,
          rv_usage_page = ucast (it_val (ps_globals p ! 0)), rv_usage = usage\<rparr>,
         p, iface\<lparr>if_uses_report_id := if_uses_report_id iface \<or> ps_report_id p \<noteq> 0\<rparr>))"

definition handle_global_item :: "parser_state \<Rightarrow> item \<Rightarrow> parser_state" where
  "handle_global_item p item =
     (if it_tag item = 8 \<and> (it_val item = 0 \<or> it_val item \<ge> 256) then p\<lparr>ps_invalid := True\<rparr>
      else
        let p = (if it_tag item = 8 then p\<lparr>ps_report_id := ucast (it_val item)\<rparr> else p)
        in p\<lparr>ps_globals := (ps_globals p)[it_tag item := item]\<rparr>)"

definition handle_local_item :: "parser_state \<Rightarrow> item \<Rightarrow> parser_state" where
  "handle_local_item p item =
     (let p = p\<lparr>ps_locals := (ps_locals p)[it_tag item := item]\<rparr> in
      if it_tag item = 0 then
        if ps_start p = ps_end p then p\<lparr>ps_global_usage := ucast (it_val item)\<rparr>
        else if ps_usage_count p + 1 < 128 - ps_p_usage p
        then p\<lparr>ps_usages := poke (ps_usages p) (ps_p_usage p + ps_usage_count p) (ucast (it_val item)),
               ps_usage_count := ps_usage_count p + 1\<rparr>
        else p
      else p)"

text \<open>One iteration of the element loop: the offset at position \<open>j\<close> moves on by \<open>size\<close> bits.\<close>

definition input_element ::
    "nat \<Rightarrow> u32 \<Rightarrow> u32 \<Rightarrow> parser_state \<times> hid_interface \<Rightarrow> nat \<Rightarrow> parser_state \<times> hid_interface" where
  "input_element j data sz pi i =
     (case pi of (p, iface) \<Rightarrow>
        case store_element p (get_usage p i) data (ucast sz) iface of (val, p, iface) \<Rightarrow>
          (p\<lparr>ps_report_offsets := (ps_report_offsets p)
               [j := (fst (ps_report_offsets p ! j), snd (ps_report_offsets p ! j) + sz)]\<rparr>,
           extract_data iface val))"

definition advance_usage :: "parser_state \<Rightarrow> parser_state" where
  "advance_usage p =
     (if ps_usage_count p = 0 then p
      else if ps_usage_count p < 128 - ps_p_usage p
      then
        let p = p\<lparr>ps_p_usage := ps_p_usage p + ps_usage_count p\<rparr>
        in p\<lparr>ps_usages := poke (ps_usages p) (ps_p_usage p) (ps_usages p ! (ps_p_usage p - 1))\<rparr>
      else p\<lparr>ps_p_usage := 127\<rparr>)"

text \<open>An input item, split where its field of \<open>cnt\<close> elements of \<open>sz\<close> bits is placed.\<close>

definition input_field ::
    "parser_state \<Rightarrow> u32 \<Rightarrow> u32 \<Rightarrow> u32 \<Rightarrow> hid_interface \<Rightarrow> parser_state \<times> hid_interface" where
  "input_field p data sz cnt iface =
     (case get_or_create_report_offset p (ps_report_id p) of
        (None, p) \<Rightarrow> (p, iface)
      | (Some j, p) \<Rightarrow>
          if sz * cnt > 65535 - snd (ps_report_offsets p ! j) \<or> cnt > 4096 - ps_input_elements p
          then (p\<lparr>ps_invalid := True\<rparr>, iface)
          else
            case foldl (input_element j data sz)
                   (p\<lparr>ps_input_elements := ps_input_elements p + cnt\<rparr>, iface) [0..<unat cnt] of
              (p, iface) \<Rightarrow> (advance_usage p, iface))"

definition handle_main_input ::
    "parser_state \<Rightarrow> item \<Rightarrow> hid_interface \<Rightarrow> parser_state \<times> hid_interface" where
  "handle_main_input p item iface =
     (let sz = it_val (ps_globals p ! 7); cnt = it_val (ps_globals p ! 9) in
      if sz = 0 \<or> cnt = 0 then (p, iface)
      else if sz > 65535 \<or> cnt > 65535 div sz then (p\<lparr>ps_invalid := True\<rparr>, iface)
      else if sz = 1 \<and> ps_usage_count p \<le> 1 then input_field p (it_val item) cnt 1 iface
      else input_field p (it_val item) sz cnt iface)"

definition handle_main_item ::
    "parser_state \<Rightarrow> item \<Rightarrow> hid_interface \<Rightarrow> parser_state \<times> hid_interface" where
  "handle_main_item p item iface =
     (case (if it_tag item = 10 then
              (if ps_start p = 255 then p\<lparr>ps_invalid := True\<rparr> else p\<lparr>ps_start := ps_start p + 1\<rparr>, iface)
            else if it_tag item = 12 then
              (if ps_end p \<ge> ps_start p then p\<lparr>ps_invalid := True\<rparr> else p\<lparr>ps_end := ps_end p + 1\<rparr>, iface)
            else if it_tag item = 8 then handle_main_input p item iface
            else (p, iface)) of
       (p, iface) \<Rightarrow> (p\<lparr>ps_usage_count := 0, ps_locals := replicate 16 zero_item\<rparr>, iface))"

definition item_header :: "u8 \<Rightarrow> u32 \<Rightarrow> item" where
  "item_header h v = \<lparr>it_size = unat (h AND 3), it_type = unat (drop_bit 2 h AND 3), it_tag = unat (drop_bit 4 h),
     it_val = v\<rparr>"

definition handle_item :: "parser_state \<Rightarrow> item \<Rightarrow> hid_interface \<Rightarrow> parser_state \<times> hid_interface" where
  "handle_item p item iface =
     (if it_type item = 0 then handle_main_item p item iface
      else if it_type item = 1 then (handle_global_item p item, iface)
      else if it_type item = 2 then (handle_local_item p item, iface)
      else (p, iface))"

text \<open>The loop over the descriptor; \<open>rep\<close> is what is left of it.\<close>

function parse_loop :: "parser_state \<Rightarrow> hid_interface \<Rightarrow> bytes \<Rightarrow> parser_state \<times> hid_interface" where
  "parse_loop p iface rep =
     (if rep = [] \<or> ps_invalid p then (p, iface)
      else if rep ! 0 = 0xfe then
        if length rep < 3 \<or> unat (rep ! 1) > length rep - 3 then (p\<lparr>ps_invalid := True\<rparr>, iface)
        else parse_loop p iface (drop (unat (rep ! 1) + 3) rep)
      else
        let n = size_lookup (unat (rep ! 0 AND 3)) in
        if n > length rep - 1 then (p\<lparr>ps_invalid := True\<rparr>, iface)
        else
          let item = item_header (rep ! 0) (get_descriptor_value (drop 1 rep) (unat (rep ! 0 AND 3)))
          in case handle_item p item iface of (p, iface) \<Rightarrow> parse_loop p iface (drop (n + 1) rep))"
  by pat_completeness auto
termination
  by (relation "measure (\<lambda>(p, iface, rep). length rep)") auto

declare parse_loop.simps [simp del]

definition parse_report_descriptor :: "hid_interface \<Rightarrow> bytes \<Rightarrow> parser_state \<times> hid_interface" where
  "parse_report_descriptor iface rep =
     (let p = (if rep = [] then zero_parser\<lparr>ps_invalid := True\<rparr> else zero_parser) in
      case parse_loop p (iface\<lparr>if_descriptor_invalid := False\<rparr>) rep of (p, iface) \<Rightarrow>
        let p = (if ps_start p \<noteq> ps_end p then p\<lparr>ps_invalid := True\<rparr> else p)
        in if ps_invalid p
           then (p, zero_interface\<lparr>if_protocol := if_protocol iface, if_descriptor_invalid := True\<rparr>)
           else (p, iface))"

subsection \<open>The parser's arrays and offsets\<close>

definition parser_ok :: "parser_state \<Rightarrow> bool" where
  "parser_ok p \<longleftrightarrow> length (ps_usages p) = 128 \<and> ps_p_usage p + ps_usage_count p \<le> 127
     \<and> length (ps_report_offsets p) \<le> 24 \<and> (\<forall>x\<in>set (ps_report_offsets p). unat (snd x) \<le> 65535)
     \<and> distinct (map fst (ps_report_offsets p)) \<and> unat (ps_input_elements p) \<le> 4096
     \<and> ps_end p \<le> ps_start p \<and> length (ps_globals p) = 16 \<and> length (ps_locals p) = 16"

lemma zero_parser_ok: "parser_ok zero_parser"
  by (simp add: parser_ok_def zero_parser_def)

lemma report_offset_found:
  assumes "parser_ok p" "j < length (ps_report_offsets p)" "fst (ps_report_offsets p ! j) = r"
  shows "get_or_create_report_offset p r = (Some j, p)"
proof -
  have inj: "i = j" if "i < length (ps_report_offsets p)" "fst (ps_report_offsets p ! i) = r" for i
    using that assms by (auto simp: parser_ok_def distinct_conv_nth)
  then have "find (\<lambda>i. fst (ps_report_offsets p ! i) = r) [0..<length (ps_report_offsets p)] = Some j"
    using assms(2,3) unfolding find_upt_Some by (metis less_irrefl less_trans)
  then show ?thesis by (simp add: get_or_create_report_offset_def)
qed

lemma report_offset_slot:
  assumes "parser_ok p" "get_or_create_report_offset p r = (x, p')"
  shows "parser_ok p'" and "\<exists>offs. p' = p\<lparr>ps_report_offsets := offs\<rparr>"
    and "\<And>j. x = Some j \<Longrightarrow> j < length (ps_report_offsets p') \<and> fst (ps_report_offsets p' ! j) = r"
proof -
  let ?s = "find (\<lambda>i. fst (ps_report_offsets p ! i) = r) [0..<length (ps_report_offsets p)]"
  consider (old) i where "x = Some i" "p' = p" "i < length (ps_report_offsets p)" "fst (ps_report_offsets p ! i) = r"
    | (new) "x = Some (length (ps_report_offsets p))" "p' = p\<lparr>ps_report_offsets := ps_report_offsets p @ [(r, 0)]\<rparr>"
        "length (ps_report_offsets p) < 24" "r \<notin> fst ` set (ps_report_offsets p)"
    | (full) "x = None" "p' = p"
  proof (cases ?s)
    case None
    then have "r \<notin> fst ` set (ps_report_offsets p)" by (fastforce simp: find_upt_None in_set_conv_nth)
    then show ?thesis using None assms(2) new full by (auto simp: get_or_create_report_offset_def split: if_splits)
  next
    case (Some i)
    then have "x = Some i" "p' = p" using assms(2) by (auto simp: get_or_create_report_offset_def)
    then show ?thesis using Some old [of i] unfolding find_upt_Some by blast
  qed
  then have "parser_ok p' \<and> (\<exists>offs. p' = p\<lparr>ps_report_offsets := offs\<rparr>)
    \<and> (\<forall>j. x = Some j \<longrightarrow> j < length (ps_report_offsets p') \<and> fst (ps_report_offsets p' ! j) = r)"
  proof cases
    case old
    then show ?thesis using assms(1) by (auto intro: exI [of _ "ps_report_offsets p"])
  next
    case new
    then show ?thesis using assms(1) by (auto simp: parser_ok_def)
  next
    case full
    then show ?thesis using assms(1) by (auto intro: exI [of _ "ps_report_offsets p"])
  qed
  then show "parser_ok p'" and "\<exists>offs. p' = p\<lparr>ps_report_offsets := offs\<rparr>"
    and "\<And>j. x = Some j \<Longrightarrow> j < length (ps_report_offsets p') \<and> fst (ps_report_offsets p' ! j) = r"
    by blast+
qed

lemma unat_offset:
  fixes off sz :: u32
  assumes "unat off + n * unat sz \<le> 65535"
  shows "unat (off + of_nat n * sz) = unat off + n * unat sz"
proof (cases "unat sz = 0")
  case True
  then have "sz = 0" by (simp add: unat_eq_0)
  then show ?thesis by simp
next
  case False
  then have "n \<le> n * unat sz" by simp
  then have "n \<le> 65535" using assms by linarith
  then have n: "unat (of_nat n :: u32) = n" by (simp add: unsigned_of_nat take_bit_nat_eq_self)
  then show ?thesis using assms by (simp add: unat_word_ariths)
qed

lemma narrow_val_ok:
  fixes off sz :: u32
  assumes "unat off + unat sz \<le> 65535" "rv_offset v = ucast off" "rv_offset_idx v = ucast (drop_bit 3 off)" "rv_size v = ucast sz"
  shows "val_ok v"
proof -
  have u: "unat (ucast w :: u16) = unat w" if "unat w \<le> 65535" for w :: u32
    using that by (simp add: unsigned_ucast_eq unsigned_take_bit_eq take_bit_nat_eq_self)
  have "(ucast (drop_bit 3 off) :: u16) = drop_bit 3 (ucast off)"
  proof (rule bit_word_eqI)
    fix n
    have high: "n < 13" if "bit off (3 + n)"
    proof -
      have "off = take_bit 16 off" using assms(1) by (simp add: take_bit_word_eq_self word_unat_eq_iff unsigned_take_bit_eq take_bit_nat_eq_self)
      then have "bit (take_bit 16 off) (3 + n)" using that by simp
      then show ?thesis by (simp add: bit_take_bit_iff)
    qed
    show "bit (ucast (drop_bit 3 off) :: u16) n = bit (drop_bit 3 (ucast off :: u16)) n" if "n < LENGTH(16)"
      using that high by (auto simp: bit_simps)
  qed
  then show ?thesis using assms u by (simp add: val_ok_def)
qed

subsection \<open>Input items\<close>

lemma store_element_found:
  assumes "parser_ok p" "j < length (ps_report_offsets p)" "fst (ps_report_offsets p ! j) = ps_report_id p"
    "store_element p usage data sz iface = (val, p', iface')"
  shows "p' = p" "iface' = iface\<lparr>if_uses_report_id := if_uses_report_id iface \<or> ps_report_id p \<noteq> 0\<rparr>"
    "rv_report_id val = ps_report_id p" "rv_offset val = ucast (snd (ps_report_offsets p ! j))"
    "rv_offset_idx val = ucast (drop_bit 3 (snd (ps_report_offsets p ! j)))" "rv_size val = sz"
  using assms report_offset_found [OF assms(1-3)]
  by (auto simp: store_element_def get_current_offset_def)

lemma layout_uses:
  assumes "layout_ok iface"
  shows "layout_ok (iface\<lparr>if_uses_report_id := if_uses_report_id iface \<or> b\<rparr>)"
  using assms by (auto simp: layout_ok_def slots_ok_def routes_ok_def owns_report_def)

lemma input_loop:
  assumes ok: "parser_ok p" and j: "j < length (ps_report_offsets p)" "fst (ps_report_offsets p ! j) = ps_report_id p"
    and bd: "unat (snd (ps_report_offsets p ! j)) + n * unat sz \<le> 65535" and l: "layout_ok iface"
  shows "\<exists>iface'. foldl (input_element j data sz) (p, iface) [0..<n] =
      (p\<lparr>ps_report_offsets := (ps_report_offsets p)[j := (ps_report_id p, snd (ps_report_offsets p ! j) + of_nat n * sz)]\<rparr>, iface')
    \<and> layout_ok iface' \<and> if_protocol iface' = if_protocol iface \<and> if_descriptor_invalid iface' = if_descriptor_invalid iface"
  using bd
proof (induction n)
  case 0
  have "(ps_report_offsets p)[j := (ps_report_id p, snd (ps_report_offsets p ! j))] = ps_report_offsets p"
    using j by (metis list_update_id prod.collapse)
  then show ?case using l by simp
next
  case (Suc n)
  define off where "off = snd (ps_report_offsets p ! j)"
  define q where "q = p\<lparr>ps_report_offsets := (ps_report_offsets p)[j := (ps_report_id p, off + of_nat n * sz)]\<rparr>"
  have bd: "unat off + n * unat sz + unat sz \<le> 65535" using Suc.prems by (simp add: off_def add_ac)
  have un: "unat (off + of_nat n * sz) = unat off + n * unat sz" using bd by (intro unat_offset) simp
  obtain i1 where i1: "foldl (input_element j data sz) (p, iface) [0..<n] = (q, i1)" "layout_ok i1"
    "if_protocol i1 = if_protocol iface" "if_descriptor_invalid i1 = if_descriptor_invalid iface"
    using Suc by (auto simp: off_def q_def)
  have "map fst (ps_report_offsets q) = map fst (ps_report_offsets p)"
    using j by (simp add: q_def map_update list_update_same_conv)
  moreover have "\<forall>x\<in>set (ps_report_offsets q). unat (snd x) \<le> 65535"
    using ok un bd by (auto simp: q_def parser_ok_def dest!: set_update_subset_insert [THEN subsetD])
  ultimately have qok: "parser_ok q" using ok by (simp add: parser_ok_def q_def)
  have qj: "j < length (ps_report_offsets q)" "fst (ps_report_offsets q ! j) = ps_report_id q"
    "snd (ps_report_offsets q ! j) = off + of_nat n * sz" using j by (simp_all add: q_def)
  obtain val q' i2 where s: "store_element q (get_usage q n) data (ucast sz) i1 = (val, q', i2)"
    by (metis prod.exhaust)
  note e = store_element_found [OF qok qj(1,2) s]
  have v: "val_ok val" using un bd qj(3) e by (intro narrow_val_ok [of "off + of_nat n * sz" sz]) simp_all
  have l2: "layout_ok i2" unfolding e(2) by (rule layout_uses [OF i1(2)])
  have u: "rv_report_id val \<noteq> 0 \<longrightarrow> if_uses_report_id i2" by (simp add: e)
  have "foldl (input_element j data sz) (p, iface) [0..<Suc n] =
    (p\<lparr>ps_report_offsets := (ps_report_offsets p)[j := (ps_report_id p, off + of_nat (Suc n) * sz)]\<rparr>, extract_data i2 val)"
    using i1(1) s e(1) qj j by (simp add: input_element_def) (simp add: q_def algebra_simps)
  then show ?case using extract_data_layout [OF l2 v u] i1(3,4) e(2) by (simp add: off_def extract_data_frame)
qed

text \<open>What the parser guarantees after each item: its own bounds, the layout, and the fields an input item
  does not touch.\<close>

definition reset_locals :: "parser_state \<Rightarrow> parser_state" where
  "reset_locals p = p\<lparr>ps_usage_count := 0, ps_locals := replicate 16 zero_item\<rparr>"

lemma parser_ok_reset: "parser_ok p \<Longrightarrow> parser_ok (reset_locals p)"
  by (auto simp: parser_ok_def reset_locals_def)

lemma parser_ok_invalid [simp]: "parser_ok (p\<lparr>ps_invalid := b\<rparr>) = parser_ok p"
  by (simp add: parser_ok_def)

lemma parser_ok_advance:
  assumes "parser_ok p"
  shows "parser_ok (reset_locals (advance_usage p))"
  using assms by (auto simp: parser_ok_def advance_usage_def reset_locals_def Let_def)

definition frame_ok :: "parser_state \<times> hid_interface \<Rightarrow> parser_state \<times> hid_interface \<Rightarrow> bool" where
  "frame_ok a b \<longleftrightarrow> ps_start (fst b) = ps_start (fst a) \<and> ps_end (fst b) = ps_end (fst a)
     \<and> if_protocol (snd b) = if_protocol (snd a) \<and> if_descriptor_invalid (snd b) = if_descriptor_invalid (snd a)"

lemma frame_ok_simps:
  "frame_ok (p, i) (p\<lparr>ps_invalid := True\<rparr>, i)" "frame_ok (p, i) (p, i)"
  by (simp_all add: frame_ok_def)

lemma placed_field_ok:
  assumes ok: "parser_ok p" and l: "layout_ok iface"
    and j: "j < length (ps_report_offsets p)" "fst (ps_report_offsets p ! j) = ps_report_id p"
    and bd: "unat (snd (ps_report_offsets p ! j)) + unat cnt * unat sz \<le> 65535"
      "unat cnt + unat (ps_input_elements p) \<le> 4096"
    and f: "foldl (input_element j data sz) (p\<lparr>ps_input_elements := ps_input_elements p + cnt\<rparr>, iface) [0..<unat cnt] = (q, i')"
  shows "parser_ok q" "layout_ok i'" "frame_ok (p, iface) (q, i')"
proof -
  define p1 where "p1 = p\<lparr>ps_input_elements := ps_input_elements p + cnt\<rparr>"
  have p1: "parser_ok p1" using ok bd(2) by (simp add: parser_ok_def p1_def unat_word_ariths)
  have j1: "j < length (ps_report_offsets p1)" "fst (ps_report_offsets p1 ! j) = ps_report_id p1"
    "unat (snd (ps_report_offsets p1 ! j)) + unat cnt * unat sz \<le> 65535"
    using j bd(1) by (simp_all add: p1_def)
  define e where "e = (ps_report_id p1, snd (ps_report_offsets p1 ! j) + of_nat (unat cnt) * sz)"
  have q: "q = p1\<lparr>ps_report_offsets := (ps_report_offsets p1)[j := e]\<rparr>" "layout_ok i'"
    "if_protocol i' = if_protocol iface" "if_descriptor_invalid i' = if_descriptor_invalid iface"
    using input_loop [OF p1 j1 l, of data] f unfolding p1_def [symmetric] e_def by auto
  have "map fst (ps_report_offsets q) = map fst (ps_report_offsets p1)"
    using j1 by (simp add: q e_def map_update list_update_same_conv)
  moreover have "unat (snd e) \<le> 65535" using unat_offset [OF j1(3)] j1(3) by (simp add: e_def)
  then have "\<forall>x\<in>set (ps_report_offsets q). unat (snd x) \<le> 65535"
    using p1 by (auto simp: q parser_ok_def dest!: set_update_subset_insert [THEN subsetD])
  ultimately show "parser_ok q" using p1 by (simp add: parser_ok_def q)
  show "layout_ok i'" "frame_ok (p, iface) (q, i')" using q by (simp_all add: frame_ok_def p1_def)
qed

lemma input_field_ok:
  assumes ok: "parser_ok p" and l: "layout_ok iface" and prod: "unat sz * unat cnt \<le> 65535"
    and h: "input_field p data sz cnt iface = (p', iface')"
  shows "parser_ok (reset_locals p') \<and> layout_ok iface' \<and> frame_ok (p, iface) (p', iface')"
proof -
  obtain x q where g: "get_or_create_report_offset p (ps_report_id p) = (x, q)" by fastforce
  note slot = report_offset_slot [OF ok g]
  have qfr: "ps_start q = ps_start p" "ps_end q = ps_end p" "ps_report_id q = ps_report_id p" using slot(2) by auto
  have fq: "frame_ok (p, iface) z = frame_ok (q, iface) z" for z using qfr by (simp add: frame_ok_def)
  show ?thesis
  proof (cases x)
    case None
    then show ?thesis using h g l parser_ok_reset [OF slot(1)] qfr
      by (auto simp: input_field_def frame_ok_def)
  next
    case (Some j)
    define off where "off = snd (ps_report_offsets q ! j)"
    note sj = slot(3) [OF Some]
    have off: "unat off \<le> 65535" using slot(1) sj by (auto simp: parser_ok_def off_def)
    have ie: "unat (ps_input_elements q) \<le> 4096" using slot(1) by (simp add: parser_ok_def)
    note h' = h [unfolded input_field_def g Some, simplified, folded off_def]
    show ?thesis
    proof (cases "sz * cnt > 65535 - off \<or> cnt > 4096 - ps_input_elements q")
      case True
      then show ?thesis using h' l parser_ok_reset [of "q\<lparr>ps_invalid := True\<rparr>"] slot(1) qfr
        by (auto simp: frame_ok_def)
    next
      case fit: False
      have "unat (65535 - off) = 65535 - unat off" "unat (4096 - ps_input_elements q) = 4096 - unat (ps_input_elements q)"
        using off ie by (simp_all add: unat_sub word_le_nat_alt)
      moreover have "unat (sz * cnt) = unat sz * unat cnt" using prod by (simp add: unat_word_ariths)
      ultimately have bd: "unat (snd (ps_report_offsets q ! j)) + unat cnt * unat sz \<le> 65535"
        "unat cnt + unat (ps_input_elements q) \<le> 4096"
        using fit off ie by (auto simp: word_le_nat_alt not_less mult.commute off_def)
      obtain q2 i' where f: "foldl (input_element j data sz) (q\<lparr>ps_input_elements := ps_input_elements q + cnt\<rparr>, iface) [0..<unat cnt] = (q2, i')"
        by fastforce
      have j: "j < length (ps_report_offsets q)" "fst (ps_report_offsets q ! j) = ps_report_id q" using sj qfr by auto
      note r = placed_field_ok [OF slot(1) l j bd f]
      have "ps_start (advance_usage q2) = ps_start q2" "ps_end (advance_usage q2) = ps_end q2"
        by (simp_all add: advance_usage_def Let_def)
      then have "frame_ok (q, iface) (advance_usage q2, i')" using r(3) by (simp add: frame_ok_def)
      then show ?thesis using h' fit f r(2) parser_ok_advance [OF r(1)] by (simp add: fq)
    qed
  qed
qed

lemma handle_main_input_ok:
  assumes ok: "parser_ok p" and l: "layout_ok iface" and h: "handle_main_input p item iface = (p', iface')"
  shows "parser_ok (reset_locals p') \<and> layout_ok iface' \<and> frame_ok (p, iface) (p', iface')"
proof -
  define sz cnt where "sz = it_val (ps_globals p ! 7)" and "cnt = it_val (ps_globals p ! 9)"
  note h' = h [unfolded handle_main_input_def, folded sz_def cnt_def, unfolded Let_def]
  have "unat sz * unat cnt \<le> 65535" if "\<not> cnt > 65535 div sz"
  proof -
    have "unat cnt \<le> 65535 div unat sz" using that by (simp add: word_le_nat_alt unat_div not_less)
    then show ?thesis by (metis div_times_less_eq_dividend le_trans mult.commute mult_le_mono2)
  qed
  then show ?thesis
    using h' l parser_ok_reset [OF ok] parser_ok_reset [of "p\<lparr>ps_invalid := True\<rparr>"] ok
      input_field_ok [OF ok l, of cnt 1 "it_val item"] input_field_ok [OF ok l, of sz cnt "it_val item"]
    by (auto simp: frame_ok_simps split: if_splits)
qed

subsection \<open>Items and the whole descriptor\<close>

definition is_collection :: "item \<Rightarrow> bool" where
  "is_collection it \<longleftrightarrow> it_type it = 0 \<and> it_tag it = 10"

definition is_collection_end :: "item \<Rightarrow> bool" where
  "is_collection_end it \<longleftrightarrow> it_type it = 0 \<and> it_tag it = 12"

text \<open>The nesting depth, and what the parser guarantees across one item.\<close>

definition depth :: "parser_state \<Rightarrow> nat" where
  "depth p = unat (ps_start p) - unat (ps_end p)"

definition item_step_ok :: "item \<Rightarrow> parser_state \<times> hid_interface \<Rightarrow> parser_state \<times> hid_interface \<Rightarrow> bool" where
  "item_step_ok it a b \<longleftrightarrow> parser_ok (fst b) \<and> layout_ok (snd b)
     \<and> if_protocol (snd b) = if_protocol (snd a) \<and> if_descriptor_invalid (snd b) = if_descriptor_invalid (snd a)
     \<and> (\<not> ps_invalid (fst b) \<longrightarrow>
          (if is_collection it then depth (fst b) = depth (fst a) + 1
           else if is_collection_end it then depth (fst a) = depth (fst b) + 1
           else depth (fst b) = depth (fst a)))"

lemma collection_step_ok:
  assumes ok: "parser_ok p" "layout_ok iface" and it: "is_collection item"
  shows "item_step_ok item (p, iface) (handle_item p item iface)"
proof (cases "ps_start p = 255")
  case True
  then have "handle_item p item iface = (reset_locals (p\<lparr>ps_invalid := True\<rparr>), iface)"
    using it by (simp add: is_collection_def handle_item_def handle_main_item_def reset_locals_def)
  then show ?thesis using parser_ok_reset [of "p\<lparr>ps_invalid := True\<rparr>"] ok
    by (simp add: item_step_ok_def) (simp add: reset_locals_def)
next
  case False
  have "unat (ps_start p) < 256" using unsigned_less [of "ps_start p", where ?'a = nat] by simp
  moreover have "unat (ps_start p) \<noteq> 255" using False by (simp add: word_unat_eq_iff)
  ultimately have s: "unat (ps_start p + 1) = unat (ps_start p) + 1" by (simp add: unat_word_ariths)
  have le: "unat (ps_end p) \<le> unat (ps_start p)" using ok by (simp add: parser_ok_def word_le_nat_alt)
  have "handle_item p item iface = (reset_locals (p\<lparr>ps_start := ps_start p + 1\<rparr>), iface)"
    using it False by (simp add: is_collection_def handle_item_def handle_main_item_def reset_locals_def)
  moreover have "parser_ok (p\<lparr>ps_start := ps_start p + 1\<rparr>)"
    using ok(1) s le by (simp add: parser_ok_def word_le_nat_alt)
  ultimately show ?thesis using parser_ok_reset ok(2) it s le
    by (simp add: item_step_ok_def) (simp add: reset_locals_def depth_def Suc_diff_le)
qed

lemma collection_end_step_ok:
  assumes ok: "parser_ok p" "layout_ok iface" and it: "is_collection_end item"
  shows "item_step_ok item (p, iface) (handle_item p item iface)"
proof (cases "ps_end p \<ge> ps_start p")
  case True
  then have "handle_item p item iface = (reset_locals (p\<lparr>ps_invalid := True\<rparr>), iface)"
    using it by (simp add: is_collection_end_def handle_item_def handle_main_item_def reset_locals_def)
  then show ?thesis using parser_ok_reset [of "p\<lparr>ps_invalid := True\<rparr>"] ok
    by (simp add: item_step_ok_def) (simp add: reset_locals_def)
next
  case False
  then have le: "unat (ps_end p) < unat (ps_start p)" by (simp add: word_le_nat_alt)
  moreover have "unat (ps_start p) < 256" using unsigned_less [of "ps_start p", where ?'a = nat] by simp
  ultimately have s: "unat (ps_end p + 1) = unat (ps_end p) + 1" by (simp add: unat_word_ariths)
  have "handle_item p item iface = (reset_locals (p\<lparr>ps_end := ps_end p + 1\<rparr>), iface)"
    using it False by (simp add: is_collection_end_def handle_item_def handle_main_item_def reset_locals_def)
  moreover have "parser_ok (p\<lparr>ps_end := ps_end p + 1\<rparr>)"
    using ok(1) s le by (simp add: parser_ok_def word_le_nat_alt)
  moreover have "\<not> is_collection item" using it by (simp add: is_collection_def is_collection_end_def)
  moreover have "unat (ps_start p) - unat (ps_end p) = Suc (unat (ps_start p) - Suc (unat (ps_end p)))"
    using le by simp
  ultimately show ?thesis using parser_ok_reset ok(2) it s
    by (simp add: item_step_ok_def) (simp add: reset_locals_def depth_def)
qed

lemma other_item_ok:
  assumes ok: "parser_ok p" and l: "layout_ok iface" and it: "it_type item \<noteq> 0"
  shows "parser_ok (fst (handle_item p item iface)) \<and> snd (handle_item p item iface) = iface
    \<and> ps_start (fst (handle_item p item iface)) = ps_start p \<and> ps_end (fst (handle_item p item iface)) = ps_end p"
  using ok it by (auto simp: handle_item_def handle_global_item_def handle_local_item_def Let_def parser_ok_def)

lemma handle_item_ok:
  assumes ok: "parser_ok p" and l: "layout_ok iface"
  shows "item_step_ok item (p, iface) (handle_item p item iface)"
proof -
  consider (coll) "is_collection item" | (coll_end) "is_collection_end item"
    | (input) "it_type item = 0" "it_tag item = 8" | (main) "it_type item = 0" "it_tag item \<notin> {8, 10, 12}"
    | (other) "it_type item \<noteq> 0"
    by (auto simp: is_collection_def is_collection_end_def)
  then show ?thesis
  proof cases
    case coll
    then show ?thesis using ok l by (intro collection_step_ok)
  next
    case coll_end
    then show ?thesis using ok l by (intro collection_end_step_ok)
  next
    case input
    obtain q i' where h: "handle_main_input p item iface = (q, i')" by fastforce
    then have "handle_item p item iface = (reset_locals q, i')"
      using input by (simp add: handle_item_def handle_main_item_def reset_locals_def)
    then show ?thesis using handle_main_input_ok [OF ok l h] input
      by (simp add: item_step_ok_def frame_ok_def is_collection_def is_collection_end_def) (simp add: depth_def reset_locals_def)
  next
    case main
    then have "handle_item p item iface = (reset_locals p, iface)"
      by (simp add: handle_item_def handle_main_item_def reset_locals_def)
    then show ?thesis using parser_ok_reset [OF ok] l main
      by (simp add: item_step_ok_def is_collection_def is_collection_end_def) (simp add: depth_def reset_locals_def)
  next
    case other
    then show ?thesis using other_item_ok [OF ok l other] l
      by (simp add: item_step_ok_def is_collection_def is_collection_end_def depth_def)
  qed
qed

text \<open>The items of a complete descriptor, long items skipped, and proper nesting.\<close>

function items_of :: "bytes \<Rightarrow> item list option" where
  "items_of rep =
     (if rep = [] then Some []
      else if rep ! 0 = 0xfe then
        if length rep < 3 \<or> unat (rep ! 1) > length rep - 3 then None else items_of (drop (unat (rep ! 1) + 3) rep)
      else
        let n = size_lookup (unat (rep ! 0 AND 3)) in
        if n > length rep - 1 then None
        else map_option ((#) (item_header (rep ! 0) (get_descriptor_value (drop 1 rep) (unat (rep ! 0 AND 3)))))
               (items_of (drop (n + 1) rep)))"
  by pat_completeness auto
termination
  by (relation "measure length") auto

declare items_of.simps [simp del]

fun nested :: "nat \<Rightarrow> item list \<Rightarrow> bool" where
  "nested d [] \<longleftrightarrow> d = 0"
| "nested d (it # its) \<longleftrightarrow>
     (if is_collection it then nested (d + 1) its
      else if is_collection_end it then 0 < d \<and> nested (d - 1) its
      else nested d its)"

lemma parse_loop_ok:
  assumes "parser_ok p" "layout_ok iface" "parse_loop p iface rep = (p', iface')"
  shows "parser_ok p' \<and> layout_ok iface' \<and> if_protocol iface' = if_protocol iface
    \<and> if_descriptor_invalid iface' = if_descriptor_invalid iface
    \<and> (\<not> ps_invalid p' \<and> depth p' = 0 \<longrightarrow> (\<exists>its. items_of rep = Some its \<and> nested (depth p) its))"
  using assms
proof (induction p iface rep arbitrary: p' iface' rule: parse_loop.induct)
  case (1 p iface rep)
  define n where "n = size_lookup (unat (rep ! 0 AND 3))"
  define it where "it = item_header (rep ! 0) (get_descriptor_value (drop 1 rep) (unat (rep ! 0 AND 3)))"
  note un = parse_loop.simps [of p iface rep, folded n_def it_def, unfolded Let_def]
    and ui = items_of.simps [of rep, folded n_def it_def, unfolded Let_def]
  consider (over) "rep = [] \<or> ps_invalid p" | (bad) "rep \<noteq> []" "\<not> ps_invalid p" "p' = p\<lparr>ps_invalid := True\<rparr>" "iface' = iface"
    | (long) "rep \<noteq> []" "\<not> ps_invalid p" "rep ! 0 = 0xfe" "\<not> (length rep < 3 \<or> unat (rep ! 1) > length rep - 3)"
    | (short) "rep \<noteq> []" "\<not> ps_invalid p" "rep ! 0 \<noteq> 0xfe" "\<not> n > length rep - 1"
    using "1.prems"(3) unfolding un by (auto split: if_splits)
  then show ?case
  proof cases
    case over
    then have "p' = p" "iface' = iface" using "1.prems"(3) unfolding un by simp_all
    then show ?thesis using over "1.prems"(1,2) by (auto simp: ui)
  next
    case bad
    then show ?thesis using "1.prems"(1,2) by simp
  next
    case long
    then have "parse_loop p iface (drop (unat (rep ! 1) + 3) rep) = (p', iface')" using "1.prems"(3) unfolding un by simp
    then show ?thesis using "1.IH"(1) [OF _ long(3,4) "1.prems"(1,2)] long by (simp add: ui)
  next
    case short
    obtain q i' where h: "handle_item p it iface = (q, i')" by fastforce
    have s: "item_step_ok it (p, iface) (q, i')" using handle_item_ok [OF "1.prems"(1,2), of it] h by simp
    have r: "parse_loop q i' (drop (n + 1) rep) = (p', iface')" using "1.prems"(3) short h unfolding un by simp
    have q: "parser_ok q" "layout_ok i'" using s by (simp_all add: item_step_ok_def)
    have inv: "\<not> ps_invalid q" if "\<not> ps_invalid p'"
      using that r by (subst (asm) parse_loop.simps) (auto split: if_splits)
    have ih: "parser_ok p' \<and> layout_ok iface' \<and> if_protocol iface' = if_protocol i'
      \<and> if_descriptor_invalid iface' = if_descriptor_invalid i'
      \<and> (\<not> ps_invalid p' \<and> depth p' = 0 \<longrightarrow> (\<exists>its. items_of (drop (n + 1) rep) = Some its \<and> nested (depth q) its))"
      by (rule "1.IH"(2) [OF _ short(3) n_def _ it_def h [symmetric] q r]) (use short in auto)
    then show ?thesis using s inv short by (auto simp: item_step_ok_def ui split: if_splits)
  qed
qed

lemma parse_report_descriptor_result:
  assumes l: "layout_ok iface" and r: "parse_report_descriptor iface rep = (ps, iface')"
  shows "parser_ok ps" "if_protocol iface' = if_protocol iface" "if_descriptor_invalid iface' = ps_invalid ps"
    "ps_invalid ps \<Longrightarrow> iface' = zero_interface\<lparr>if_protocol := if_protocol iface, if_descriptor_invalid := True\<rparr>"
    "\<not> ps_invalid ps \<Longrightarrow> layout_ok iface' \<and> rep \<noteq> [] \<and> (\<exists>its. items_of rep = Some its \<and> nested 0 its)"
proof -
  define p0 where "p0 = (if rep = [] then zero_parser\<lparr>ps_invalid := True\<rparr> else zero_parser)"
  have ok: "parser_ok p0" "depth p0 = 0" using zero_parser_ok by (simp_all add: p0_def) (simp_all add: depth_def zero_parser_def)
  have l0: "layout_ok (iface\<lparr>if_descriptor_invalid := False\<rparr>)" using l by (simp add: layout_ok_def layout_defs)
  obtain p1 i1 where lp: "parse_loop p0 (iface\<lparr>if_descriptor_invalid := False\<rparr>) rep = (p1, i1)" by fastforce
  note k = parse_loop_ok [OF ok(1) l0 lp]
  have ne: "rep \<noteq> []" if "\<not> ps_invalid p1"
    using that lp by (subst (asm) parse_loop.simps) (auto simp: p0_def)
  have d: "depth p1 = 0" if "ps_start p1 = ps_end p1" using that by (simp add: depth_def)
  have u: "parse_report_descriptor iface rep = (let p = (if ps_start p1 \<noteq> ps_end p1 then p1\<lparr>ps_invalid := True\<rparr> else p1)
        in if ps_invalid p then (p, zero_interface\<lparr>if_protocol := if_protocol i1, if_descriptor_invalid := True\<rparr>) else (p, i1))"
    by (simp add: parse_report_descriptor_def Let_def lp flip: p0_def)
  show "parser_ok ps" "if_protocol iface' = if_protocol iface" "if_descriptor_invalid iface' = ps_invalid ps"
    "ps_invalid ps \<Longrightarrow> iface' = zero_interface\<lparr>if_protocol := if_protocol iface, if_descriptor_invalid := True\<rparr>"
    "\<not> ps_invalid ps \<Longrightarrow> layout_ok iface' \<and> rep \<noteq> [] \<and> (\<exists>its. items_of rep = Some its \<and> nested 0 its)"
    using r k ne d ok(2) unfolding u by (auto simp: Let_def split: if_splits)
qed

subsection \<open>Where the fields lie\<close>

text \<open>The offset list gives the length of each report so far; every recorded field lies inside.\<close>

lemma within_grows:
  assumes "j < length offs" "fst (offs ! j) = r" "unat (snd (offs ! j)) \<le> unat t" "within offs x n"
  shows "within (offs[j := (r, t)]) x n"
proof -
  obtain u where u: "(x, u) \<in> set offs" "n \<le> unat u" using assms(4) by (auto simp: within_def)
  then obtain i where i: "i < length offs" "offs ! i = (x, u)" by (auto simp: in_set_conv_nth)
  show ?thesis
  proof (cases "i = j")
    case True
    then show ?thesis using assms u i unfolding within_def
      by (intro exI [of _ t]) (auto intro: set_update_memI)
  next
    case False
    then have "(x, u) \<in> set (offs[j := (r, t)])" using i by (auto simp: in_set_conv_nth intro!: exI [of _ i])
    then show ?thesis using u(2) unfolding within_def by blast
  qed
qed

lemma input_loop_inside:
  assumes ok: "parser_ok p" and j: "j < length (ps_report_offsets p)" "fst (ps_report_offsets p ! j) = ps_report_id p"
    and bd: "unat (snd (ps_report_offsets p ! j)) + n * unat sz \<le> 65535" and l: "layout_ok iface" and sz: "sz \<noteq> 0"
    and inside: "fields_inside (ps_report_offsets p) iface" and f: "foldl (input_element j data sz) (p, iface) [0..<n] = (q, iface')"
  shows "fields_inside (ps_report_offsets q) iface'"
  using bd f
proof (induction n arbitrary: q iface')
  case 0
  then show ?case using inside by simp
next
  case (Suc n)
  define off where "off = snd (ps_report_offsets p ! j)"
  define o1 where "o1 = (ps_report_offsets p)[j := (ps_report_id p, off + of_nat n * sz)]"
  define o2 where "o2 = (ps_report_offsets p)[j := (ps_report_id p, off + of_nat (Suc n) * sz)]"
  have bd: "unat off + n * unat sz \<le> 65535" "unat off + Suc n * unat sz \<le> 65535" using Suc.prems(1) by (simp_all add: off_def)
  note un = unat_offset [OF bd(1)] unat_offset [OF bd(2)]
  obtain i1 where i1: "foldl (input_element j data sz) (p, iface) [0..<n] = (p\<lparr>ps_report_offsets := o1\<rparr>, i1)" "layout_ok i1"
    using input_loop [OF ok j _ l, of n sz data] bd(1) by (auto simp: off_def o1_def)
  have in1: "fields_inside o1 i1" using Suc.IH [OF _ i1(1)] bd(1) by (simp add: off_def)
  have "map fst o1 = map fst (ps_report_offsets p)" using j by (simp add: o1_def map_update list_update_same_conv)
  moreover have "\<forall>x\<in>set o1. unat (snd x) \<le> 65535"
    using ok un(1) bd(1) by (auto simp: o1_def parser_ok_def dest!: set_update_subset_insert [THEN subsetD])
  ultimately have qok: "parser_ok (p\<lparr>ps_report_offsets := o1\<rparr>)" using ok by (simp add: parser_ok_def o1_def)
  have oj: "j < length o1" "o1 ! j = (ps_report_id p, off + of_nat n * sz)" "o2 = o1[j := (ps_report_id p, off + of_nat (Suc n) * sz)]"
    using j by (simp_all add: o1_def o2_def)
  obtain val q' i2 where st: "store_element (p\<lparr>ps_report_offsets := o1\<rparr>) (get_usage (p\<lparr>ps_report_offsets := o1\<rparr>) n) data (ucast sz) i1 = (val, q', i2)"
    by (metis prod.exhaust)
  have e: "q' = p\<lparr>ps_report_offsets := o1\<rparr>" "i2 = i1\<lparr>if_uses_report_id := if_uses_report_id i1 \<or> ps_report_id p \<noteq> 0\<rparr>"
    "rv_report_id val = ps_report_id p" "rv_offset val = ucast (off + of_nat n * sz)"
    "rv_offset_idx val = ucast (drop_bit 3 (off + of_nat n * sz))" "rv_size val = ucast sz"
    using store_element_found [OF qok _ _ st, of j] oj by simp_all
  have "(q, iface') = input_element j data sz (p\<lparr>ps_report_offsets := o1\<rparr>, i1) n" using Suc.prems(2) i1(1) by simp
  also have "\<dots> = (p\<lparr>ps_report_offsets := o2\<rparr>, extract_data i2 val)"
    using st e(1) oj by (simp add: input_element_def) (simp add: algebra_simps)
  finally have q: "q = p\<lparr>ps_report_offsets := o2\<rparr>" "iface' = extract_data i2 val" by simp_all
  have small: "unat sz \<le> 65535" "unat (off + of_nat n * sz) \<le> 65535" using bd un(1) by simp_all
  have u: "unat (ucast w :: u16) = unat w" if "unat w \<le> 65535" for w :: u32
    using that by (simp add: unsigned_ucast_eq unsigned_take_bit_eq take_bit_nat_eq_self)
  have "(ps_report_id p, off + of_nat (Suc n) * sz) \<in> set o2" using oj(1) by (simp add: oj(3) set_update_memI)
  then have "within o2 (ps_report_id p) (unat (rv_offset val) + unat (rv_size val))"
    unfolding within_def using u [OF small(1)] u [OF small(2)] un by (intro exI) (auto simp: e)
  moreover have "rv_size val \<noteq> 0" using u [OF small(1)] sz by (metis e(6) unat_0 unat_eq_0)
  moreover have "val_ok val" using narrow_val_ok [of "off + of_nat n * sz" sz val] e un bd(2) by (simp add: add_ac)
  ultimately have v: "val_inside o2 val" by (simp add: val_inside_def e(3))
  have "fields_inside o2 i1"
    by (rule fields_inside_mono [OF in1]) (unfold oj(3), rule within_grows, use oj un in simp_all)
  then have "fields_inside o2 i2" by (simp add: e(2) fields_inside_def)
  moreover have "layout_ok i2" unfolding e(2) by (rule layout_uses [OF i1(2)])
  moreover have "rv_report_id val \<noteq> 0 \<longrightarrow> if_uses_report_id i2" by (simp add: e)
  ultimately show ?case using extract_data_inside v by (simp add: q)
qed

lemma offset_slot_inside:
  assumes "get_or_create_report_offset p r = (x, q)" "fields_inside (ps_report_offsets p) iface"
  shows "fields_inside (ps_report_offsets q) iface"
  using assms(2)
proof (rule fields_inside_mono)
  show "within (ps_report_offsets p) y n \<Longrightarrow> within (ps_report_offsets q) y n" for y n
    using assms(1) by (auto simp: get_or_create_report_offset_def within_def split: option.splits if_splits)
qed

lemma input_field_inside:
  assumes ok: "parser_ok p" and l: "layout_ok iface" and prod: "unat sz * unat cnt \<le> 65535" and sz: "sz \<noteq> 0"
    and inside: "fields_inside (ps_report_offsets p) iface" and h: "input_field p data sz cnt iface = (p', iface')"
  shows "fields_inside (ps_report_offsets p') iface'"
proof -
  obtain x q where g: "get_or_create_report_offset p (ps_report_id p) = (x, q)" by fastforce
  note slot = report_offset_slot [OF ok g] and in_q = offset_slot_inside [OF g inside]
  have id: "ps_report_id q = ps_report_id p" using slot(2) by auto
  show ?thesis
  proof (cases x)
    case None
    then show ?thesis using h g in_q by (simp add: input_field_def)
  next
    case (Some j)
    define off where "off = snd (ps_report_offsets q ! j)"
    define q1 where "q1 = q\<lparr>ps_input_elements := ps_input_elements q + cnt\<rparr>"
    note sj = slot(3) [OF Some] and h' = h [unfolded input_field_def g Some, simplified, folded off_def q1_def]
    have off: "unat off \<le> 65535" and ie: "unat (ps_input_elements q) \<le> 4096" using slot(1) sj by (auto simp: parser_ok_def off_def)
    show ?thesis
    proof (cases "sz * cnt > 65535 - off \<or> cnt > 4096 - ps_input_elements q")
      case True
      then show ?thesis using h' in_q by auto
    next
      case fit: False
      have "unat (65535 - off) = 65535 - unat off" "unat (4096 - ps_input_elements q) = 4096 - unat (ps_input_elements q)"
        using off ie by (simp_all add: unat_sub word_le_nat_alt)
      moreover have "unat (sz * cnt) = unat sz * unat cnt" using prod by (simp add: unat_word_ariths)
      ultimately have bd: "unat off + unat cnt * unat sz \<le> 65535" "unat cnt + unat (ps_input_elements q) \<le> 4096"
        using fit off ie by (auto simp: word_le_nat_alt not_less mult.commute)
      have q1: "parser_ok q1" using slot(1) bd(2) by (simp add: parser_ok_def q1_def unat_word_ariths)
      have j1: "j < length (ps_report_offsets q1)" "fst (ps_report_offsets q1 ! j) = ps_report_id q1"
        "unat (snd (ps_report_offsets q1 ! j)) + unat cnt * unat sz \<le> 65535"
        using sj bd(1) id by (simp_all add: q1_def off_def)
      obtain q2 i' where f: "foldl (input_element j data sz) (q1, iface) [0..<unat cnt] = (q2, i')" by fastforce
      have "fields_inside (ps_report_offsets q2) i'"
        using input_loop_inside [OF q1 j1 l sz _ f] in_q by (simp add: q1_def)
      moreover have "ps_report_offsets (advance_usage q2) = ps_report_offsets q2" by (simp add: advance_usage_def Let_def)
      ultimately show ?thesis using h' fit f by simp
    qed
  qed
qed

lemma handle_item_inside:
  assumes ok: "parser_ok p" and l: "layout_ok iface" and inside: "fields_inside (ps_report_offsets p) iface"
    and h: "handle_item p item iface = (p', iface')"
  shows "fields_inside (ps_report_offsets p') iface'"
proof (cases "it_type item = 0 \<and> it_tag item = 8")
  case True
  obtain q i' where m: "handle_main_input p item iface = (q, i')" by fastforce
  have h': "p' = reset_locals q" "iface' = i'" using h m True by (simp_all add: handle_item_def handle_main_item_def reset_locals_def)
  define sz cnt where "sz = it_val (ps_globals p ! 7)" and "cnt = it_val (ps_globals p ! 9)"
  have prod: "unat sz * unat cnt \<le> 65535" if "\<not> cnt > 65535 div sz"
  proof -
    have "unat cnt \<le> 65535 div unat sz" using that by (simp add: word_le_nat_alt unat_div not_less)
    then show ?thesis by (metis div_times_less_eq_dividend le_trans mult.commute mult_le_mono2)
  qed
  have "fields_inside (ps_report_offsets q) i'"
    using m [unfolded handle_main_input_def, folded sz_def cnt_def, unfolded Let_def] inside prod
      input_field_inside [OF ok l _ _ inside, of cnt 1 "it_val item"] input_field_inside [OF ok l _ _ inside, of sz cnt "it_val item"]
    by (auto split: if_splits)
  then show ?thesis by (simp add: h' reset_locals_def)
next
  case False
  then have "ps_report_offsets p' = ps_report_offsets p \<and> iface' = iface"
    using h by (auto simp: handle_item_def handle_main_item_def handle_global_item_def handle_local_item_def Let_def
        split: if_splits)
  then show ?thesis using inside by simp
qed

lemma parse_loop_inside:
  assumes "parser_ok p" "layout_ok iface" "fields_inside (ps_report_offsets p) iface" "parse_loop p iface rep = (p', iface')"
  shows "fields_inside (ps_report_offsets p') iface'"
  using assms
proof (induction p iface rep arbitrary: p' iface' rule: parse_loop.induct)
  case (1 p iface rep)
  define n where "n = size_lookup (unat (rep ! 0 AND 3))"
  define it where "it = item_header (rep ! 0) (get_descriptor_value (drop 1 rep) (unat (rep ! 0 AND 3)))"
  note un = parse_loop.simps [of p iface rep, folded n_def it_def, unfolded Let_def]
  consider (over) "ps_report_offsets p' = ps_report_offsets p" "iface' = iface"
    | (long) "rep \<noteq> []" "\<not> ps_invalid p" "rep ! 0 = 0xfe" "\<not> (length rep < 3 \<or> unat (rep ! 1) > length rep - 3)"
    | (short) "rep \<noteq> []" "\<not> ps_invalid p" "rep ! 0 \<noteq> 0xfe" "\<not> n > length rep - 1"
    using "1.prems"(4) unfolding un by (auto split: if_splits)
  then show ?case
  proof cases
    case over
    then show ?thesis using "1.prems"(3) by simp
  next
    case long
    then have "parse_loop p iface (drop (unat (rep ! 1) + 3) rep) = (p', iface')" using "1.prems"(4) unfolding un by simp
    then show ?thesis using "1.IH"(1) [OF _ long(3,4) "1.prems"(1-3)] long by simp
  next
    case short
    obtain q i' where h: "handle_item p it iface = (q, i')" by fastforce
    have q: "parser_ok q" "layout_ok i'" using handle_item_ok [OF "1.prems"(1,2), of it] h by (simp_all add: item_step_ok_def)
    have r: "parse_loop q i' (drop (n + 1) rep) = (p', iface')" using "1.prems"(4) short h unfolding un by simp
    show ?thesis
      by (rule "1.IH"(2) [OF _ short(3) n_def _ it_def h [symmetric] q handle_item_inside [OF "1.prems"(1-3) h] r]) (use short in auto)
  qed
qed

lemma parse_report_descriptor_inside:
  assumes "parse_report_descriptor (zero_interface\<lparr>if_protocol := prot\<rparr>) rep = (ps, iface)"
  shows "fields_inside (ps_report_offsets ps) iface"
proof -
  define p0 where "p0 = (if rep = [] then zero_parser\<lparr>ps_invalid := True\<rparr> else zero_parser)"
  have "layout_ok (zero_interface\<lparr>if_protocol := prot\<rparr>)" using zero_interface_ok by (simp add: layout_ok_def)
  then have l: "layout_ok (zero_interface\<lparr>if_protocol := prot, if_descriptor_invalid := False\<rparr>)"
    by (simp add: layout_ok_def layout_defs)
  have i: "fields_inside ends (zero_interface\<lparr>if_protocol := x, if_descriptor_invalid := b\<rparr>)" for ends x b
    using fields_inside_zero [of ends x] by (simp add: fields_inside_def)
  obtain p1 i1 where lp: "parse_loop p0 (zero_interface\<lparr>if_protocol := prot, if_descriptor_invalid := False\<rparr>) rep = (p1, i1)" by fastforce
  have "parser_ok p0" using zero_parser_ok by (simp add: p0_def)
  from parse_loop_inside [OF this l i lp] show ?thesis
    using assms i by (auto simp: parse_report_descriptor_def Let_def lp simp flip: p0_def split: if_splits)
qed

subsection \<open>Properties\<close>


text \<open>
  C15. Only complete, properly nested descriptors are accepted: if the parser does not reject the descriptor,
  its bytes split exactly into items with their full data, and its collections open and close in balance,
  never closing one that is not open. A truncated item, a long item running past the end or an unbalanced
  collection therefore always rejects the whole interface.
\<close>

theorem hid_parse_complete:
  assumes "layout_ok iface" "\<not> if_descriptor_invalid (snd (parse_report_descriptor iface rep))"
  shows "\<exists>its. items_of rep = Some its \<and> nested 0 its"
proof -
  obtain ps iface' where r: "parse_report_descriptor iface rep = (ps, iface')" by fastforce
  show ?thesis using parse_report_descriptor_result(3,5) [OF assms(1) r] assms(2) r by simp
qed

text \<open>A minimal keyboard: one array element of eight bits in the collection of a keyboard.\<close>

definition tiny_keyboard_descriptor :: bytes where
  "tiny_keyboard_descriptor = [9, 6, 0xA1, 1, 5, 7, 0x75, 8, 0x95, 1, 0x81, 0, 0xC0]"

lemmas parser_eval = zero_item_def zero_parser_def size_lookup_def get_descriptor_value_def item_header_def
  handle_item_def handle_local_item_def handle_global_item_def handle_main_item_def handle_main_input_def Let_def
  input_field_def get_or_create_report_offset_def input_element_def store_element_def get_current_offset_def
  get_usage_def advance_usage_def extract_data_def usage_table_def extract_row_def usage_matches_def
  handle_keyboard_descriptor_values_def get_or_add_keyboard_def update_keyboard_def zero_interface_def
  zero_keyboard_def note_nkro_def note_key_byte_def note_modifier_def get_keyboard_def

lemma tiny_keyboard_parsed:
  "if_descriptor_invalid (snd (parse_report_descriptor (zero_interface\<lparr>if_protocol := 1\<rparr>) tiny_keyboard_descriptor)) = False"
  "if_report_handler (snd (parse_report_descriptor (zero_interface\<lparr>if_protocol := 1\<rparr>) tiny_keyboard_descriptor)) ! 0
     = REPORT_RECEIVER_KEYBOARD"
  by (simp_all add: parse_report_descriptor_def tiny_keyboard_descriptor_def parse_loop.simps [of _ _ "_ # _"]
      parse_loop.simps [of _ _ "[]"] parser_eval)

theorem hid_parse_complete_witness:
  "\<exists>its. items_of tiny_keyboard_descriptor = Some its \<and> nested 0 its"
proof -
  have "layout_ok (zero_interface\<lparr>if_protocol := 1\<rparr>)" using zero_interface_ok by (simp add: layout_ok_def)
  then show ?thesis using hid_parse_complete tiny_keyboard_parsed(1) by blast
qed

text \<open>
  C16. Keyboard reports are routed only to a keyboard that owns them: if the table sends a report ID to the
  keyboard receiver, looking the ID up yields a keyboard found in the descriptor with exactly this ID, so the
  decoder never falls back to the layout of another keyboard.
\<close>

theorem hid_keyboard_routes:
  assumes "layout_ok iface" "parse_report_descriptor iface rep = (ps, iface')"
    "if_report_handler iface' ! unat r = REPORT_RECEIVER_KEYBOARD"
  shows "get_keyboard iface' r < 5 \<and> kb_is_found (if_keyboards iface' ! get_keyboard iface' r)
    \<and> kb_report_id (if_keyboards iface' ! get_keyboard iface' r) = r"
proof (cases "ps_invalid ps")
  case True
  have "unat r < 256" using unsigned_less [of r, where ?'a = nat] by simp
  then show ?thesis using parse_report_descriptor_result(4) [OF assms(1,2) True] assms(3)
    by (simp add: zero_interface_def)
next
  case False
  then have l: "slots_ok iface'" "routes_ok iface'"
    using parse_report_descriptor_result(5) [OF assms(1,2)] by (simp_all add: layout_ok_def)
  then have "owns_report iface' r" using assms(3) by (simp add: routes_ok_def)
  then show ?thesis using get_keyboard_owner [OF l(1)] get_keyboard_less [OF l(1)] by blast
qed

theorem hid_keyboard_routes_witness:
  "let iface = snd (parse_report_descriptor (zero_interface\<lparr>if_protocol := 1\<rparr>) tiny_keyboard_descriptor)
   in kb_is_found (if_keyboards iface ! get_keyboard iface 0) \<and> kb_report_id (if_keyboards iface ! get_keyboard iface 0) = 0"
proof -
  have "layout_ok (zero_interface\<lparr>if_protocol := 1\<rparr>)" using zero_interface_ok by (simp add: layout_ok_def)
  from hid_keyboard_routes [OF this surjective_pairing, of tiny_keyboard_descriptor 0] tiny_keyboard_parsed(2)
  show ?thesis by (simp add: Let_def)
qed

end
