(* ===== verification/Handlers.thy ===== *)
theory Handlers
  imports Mouse Keyboard_Sync Hid_Parser
begin

text \<open>
  The entry points of the input side: the hotkey actions and the handlers of packets from the other board
  (handlers.c), a keyboard report on its way through shortcut recognition to the host (keyboard.c), the USB
  host and device callbacks (usb.c), and the screensaver (tasks.c). \<open>board_packet\<close> runs the handler that
  \<open>process_packet\<close> selects on the device state; packets for the firmware, clipboard, maintenance and diagnostic
  components leave it and are recorded as calls.
\<close>

unbundle bit_operations_syntax

subsection \<open>Hotkey actions\<close>

definition output_toggle_hotkey_handler :: "env \<Rightarrow> device \<Rightarrow> device" where
  "output_toggle_hotkey_handler e d =
     (if dv_switch_lock d then d
      else
        let d = d\<lparr>dv_active_output := dv_active_output d XOR 1\<rparr>
        in set_active_output e (dv_active_output d) d)"

text \<open>The loop retries until core 0 has made room for the packet that tells the peer.\<close>

definition request_graceful_reboot :: "env \<Rightarrow> bool \<Rightarrow> device \<Rightarrow> bool \<times> device" where
  "request_graceful_reboot e notify_peer d =
     (if dv_upgrade_in_progress d \<or> dv_image_dirty d \<or> dv_maintenance_reserved d then (False, d)
      else
        let d = (if notify_peer then queue_packet_blocking [1] 19 d else d)
        in (True, keyboard_focus_changed e (d\<lparr>dv_reboot_requested := True\<rparr>)))"

definition reboot_hotkey_handler :: "env \<Rightarrow> device \<Rightarrow> device" where
  "reboot_hotkey_handler e d = snd (request_graceful_reboot e True d)"

text \<open>The four bytes of the 32-bit position go into the seven value bytes of a configuration field.\<close>

definition set_border_position :: "u8 \<Rightarrow> device \<Rightarrow> border_size option \<times> device" where
  "set_border_position out d =
     (let position = dv_pointer_y d; field = (if out = 0 then 14 else 44) + (if position > 16383 then 1 else 0)
      in case config_set_value (dv_config d) field (le32 (word_of_int position) @ [0, 0, 0]) of
           (True, c) \<Rightarrow> (Some (out_border (get_output c (unat out))), d\<lparr>dv_config := c\<rparr>)
         | (False, c) \<Rightarrow> (None, d))"

definition border_bytes :: "border_size \<Rightarrow> bytes" where
  "border_bytes b = le32 (border_top b) @ le32 (border_bottom b)"

definition screensaver_set :: "u8 \<Rightarrow> device \<Rightarrow> device" where
  "screensaver_set value d =
     (if is_active d
      then d\<lparr>dv_config := snd (config_set_screensaver_mode (dv_config d) (unat (dv_board_role d)) value)\<rparr>
      else send_value value 11 d)"

definition screen_border_hotkey_handler :: "device \<Rightarrow> device" where
  "screen_border_hotkey_handler d =
     (let out = dv_active_output d in
      if out \<ge> 2 then d
      else if is_active d then
        (case set_border_position out d of
           (None, d) \<Rightarrow> d
         | (Some b, d) \<Rightarrow> queue_packet (border_bytes b) 8 (log_call Save_config d))
      else queue_packet (border_bytes (out_border (get_output (dv_config d) (unat out)))) 8 d)"

definition fw_upgrade_hotkey_handler_A :: "device \<Rightarrow> device" where
  "fw_upgrade_hotkey_handler_A d = (if dv_maintenance_reserved d then d else log_call Reset_usb_boot d)"

definition fw_upgrade_hotkey_handler_B :: "device \<Rightarrow> device" where
  "fw_upgrade_hotkey_handler_B d = (if dv_maintenance_reserved d then d else send_value 1 4 d)"

definition switchlock_hotkey_handler :: "device \<Rightarrow> device" where
  "switchlock_hotkey_handler d =
     (let d = d\<lparr>dv_switch_lock := \<not> dv_switch_lock d\<rparr> in send_value (of_flag (dv_switch_lock d)) 7 d)"

definition toggle_gaming_mode_handler :: "device \<Rightarrow> device" where
  "toggle_gaming_mode_handler d =
     (let d = d\<lparr>dv_gaming_mode := \<not> dv_gaming_mode d\<rparr> in send_value (of_flag (dv_gaming_mode d)) 13 d)"

definition clear_zoom_assist_hotkey_handler :: "device \<Rightarrow> device" where
  "clear_zoom_assist_hotkey_handler d =
     (if is_active d then clear_zoom_assist (dv_active_output d) True d else send_value (dv_active_output d) 30 d)"

text \<open>The two turns of the loop share \<open>lock_report\<close>: an operating system without a chord leaves it as the
  previous turn set it.\<close>

definition lock_chord :: "u8 \<Rightarrow> hid_keyboard_report \<Rightarrow> hid_keyboard_report" where
  "lock_chord os rep =
     (if os = 3 \<or> os = 1 then rep\<lparr>kr_modifier := 8, kr_keycode := (kr_keycode rep)[0 := 0x0f]\<rparr>
      else if os = 2 then rep\<lparr>kr_modifier := 9, kr_keycode := (kr_keycode rep)[0 := 0x14]\<rparr>
      else rep)"

definition lock_output :: "config \<Rightarrow> hid_keyboard_report \<times> device \<Rightarrow> nat \<Rightarrow> hid_keyboard_report \<times> device" where
  "lock_output cfg st i =
     (case st of (rep, d) \<Rightarrow>
        let rep = lock_chord (out_os (get_output cfg i)) rep
        in (rep, if unat (dv_board_role d) = i then release_all_keys (queue_kbd_report rep d)
                 else queue_packet (kbd_report_bytes zero_kbd_report) 1 (queue_packet (kbd_report_bytes rep) 1 d)))"

definition screenlock_hotkey_handler :: "device \<Rightarrow> device" where
  "screenlock_hotkey_handler d = snd (foldl (lock_output (dv_config d)) (zero_kbd_report, d) [0, 1])"

definition wipe_and_load :: "env \<Rightarrow> device \<Rightarrow> device" where
  "wipe_and_load e d = (log_call Load_config (log_call Wipe_config d))\<lparr>dv_config := env_loaded_config e\<rparr>"

definition wipe_config_hotkey_handler :: "env \<Rightarrow> device \<Rightarrow> device" where
  "wipe_config_hotkey_handler e d = send_value 1 10 (wipe_and_load e d)"

definition mouse_zoom_hotkey_handler :: "device \<Rightarrow> device" where
  "mouse_zoom_hotkey_handler d =
     (let d = d\<lparr>dv_mouse_zoom := \<not> dv_mouse_zoom d\<rparr> in send_value (of_flag (dv_mouse_zoom d)) 5 d)"

definition own_screensaver_mode :: "device \<Rightarrow> u8" where
  "own_screensaver_mode d = ss_mode (out_screensaver (get_output (dv_config d) (unat (dv_board_role d))))"

definition enable_screensaver_pong_hotkey_handler :: "device \<Rightarrow> device" where
  "enable_screensaver_pong_hotkey_handler d =
     (let mode = own_screensaver_mode d in screensaver_set (if mode = 0 \<or> mode = 2 then 1 else mode) d)"

definition enable_screensaver_jitter_hotkey_handler :: "device \<Rightarrow> device" where
  "enable_screensaver_jitter_hotkey_handler d =
     (let mode = own_screensaver_mode d in screensaver_set (if mode = 0 \<or> mode = 1 then 2 else mode) d)"

definition disable_screensaver_hotkey_handler :: "device \<Rightarrow> device" where
  "disable_screensaver_hotkey_handler d = screensaver_set 0 d"

definition config_enable_hotkey_handler :: "env \<Rightarrow> device \<Rightarrow> device" where
  "config_enable_hotkey_handler e d =
     (if dv_maintenance_reserved d then d
      else
        let d = (if \<not> dv_config_mode_active d then log_call Config_mode_scratch d else d)
        in keyboard_focus_changed e (d\<lparr>dv_reboot_requested := True\<rparr>))"

fun run_hotkey :: "env \<Rightarrow> hotkey_action \<Rightarrow> device \<Rightarrow> device" where
  "run_hotkey e Output_toggle d = output_toggle_hotkey_handler e d"
| "run_hotkey e Mouse_zoom d = mouse_zoom_hotkey_handler d"
| "run_hotkey e Switchlock d = switchlock_hotkey_handler d"
| "run_hotkey e Screenlock d = screenlock_hotkey_handler d"
| "run_hotkey e Toggle_gaming_mode d = toggle_gaming_mode_handler d"
| "run_hotkey e Clear_zoom_assist d = clear_zoom_assist_hotkey_handler d"
| "run_hotkey e Enable_screensaver_pong d = enable_screensaver_pong_hotkey_handler d"
| "run_hotkey e Enable_screensaver_jitter d = enable_screensaver_jitter_hotkey_handler d"
| "run_hotkey e Disable_screensaver d = disable_screensaver_hotkey_handler d"
| "run_hotkey e Wipe_config_hotkey d = wipe_config_hotkey_handler e d"
| "run_hotkey e Screen_border d = screen_border_hotkey_handler d"
| "run_hotkey e Config_enable d = config_enable_hotkey_handler e d"
| "run_hotkey e Fw_upgrade_A d = fw_upgrade_hotkey_handler_A d"
| "run_hotkey e Fw_upgrade_B d = fw_upgrade_hotkey_handler_B d"

subsection \<open>A keyboard report\<close>

text \<open>
  \<open>process_keyboard_report\<close> for the state slot \<open>idx\<close> of the interface. The clipboard decides whether it
  swallows the report (\<open>env_clipboard_swallow\<close>), only for a complete snapshot. The recogniser of the reboot
  chord works on Left Control and Right Shift with Q.
\<close>

definition kbd_clipboard :: "env \<Rightarrow> bytes \<Rightarrow> hid_interface \<Rightarrow> hid_keyboard_report \<Rightarrow> device \<Rightarrow> bool \<times> device" where
  "kbd_clipboard e raw iface rep d =
     (if clipboard_keyboard_snapshot_complete raw iface
      then (env_clipboard_swallow e, log_call (Clipboard_keyboard_raw rep) d)
      else (False, log_call Clipboard_physical_unknown (log_call (Clipboard_keyboard_incomplete rep) d)))"

definition reboot_chord :: hotkey_chord where
  "reboot_chord = \<lparr>required_modifiers = 0x21, trigger_key = 0x14\<rparr>"

definition kbd_reboot_chord :: "env \<Rightarrow> nat \<Rightarrow> hid_keyboard_report \<Rightarrow> device \<Rightarrow> reboot_hotkey_result \<times> device" where
  "kbd_reboot_chord e idx rep d =
     (case reboot_hotkey_process_report reboot_chord (dv_reboot_hotkey_sequence d, dv_reboot_hotkey_source d)
             \<lparr>rep_source = of_nat idx, rep_modifiers = kr_modifier rep, rep_keys = kr_keycode rep, rep_now = env_now e\<rparr> of
        (res, (sq, src)) \<Rightarrow> (res, d\<lparr>dv_reboot_hotkey_sequence := sq, dv_reboot_hotkey_source := src\<rparr>))"

definition kbd_hotkey :: "env \<Rightarrow> nat \<Rightarrow> hid_keyboard_report \<Rightarrow> device \<Rightarrow> device" where
  "kbd_hotkey e idx rep d =
     (case check_all_hotkeys rep of
        None \<Rightarrow> send_key d
      | Some hk \<Rightarrow>
          let d = (if hk_acknowledge hk then blink_led e d else d)
          in if hk_pass_to_os hk then send_key (run_hotkey e (hk_action hk) d)
             else run_hotkey e (hk_action hk) (send_key (publish_local_modifiers (update_kbd_state zero_kbd_report idx d))))"

definition process_keyboard_report :: "env \<Rightarrow> bytes \<Rightarrow> nat \<Rightarrow> hid_interface \<Rightarrow> device \<Rightarrow> device" where
  "process_keyboard_report e raw idx iface d =
     (if idx \<ge> 4 then d
      else if length raw < 8 then log_call Clipboard_physical_unknown d
      else if dv_reboot_requested d then d
      else case extract_kbd_data raw iface of (n, rep) \<Rightarrow>
        if n < 0 then log_call Clipboard_physical_unknown d
        else case kbd_clipboard e raw iface rep d of (swallow, d) \<Rightarrow>
          case kbd_reboot_chord e idx rep d of (res, d) \<Rightarrow>
            let stored = (if swallow \<or> res = REBOOT_HOTKEY_SWALLOW \<or> res = REBOOT_HOTKEY_TRIGGER then zero_kbd_report else rep);
                d = record_local_activity e (dv_active_output d) (publish_local_modifiers (update_kbd_state stored idx d))
            in if swallow \<or> res = REBOOT_HOTKEY_SWALLOW then send_key d
               else if res = REBOOT_HOTKEY_TRIGGER then reboot_hotkey_handler e (blink_led e d)
               else kbd_hotkey e idx rep (if res = REBOOT_HOTKEY_TAP then blink_led e d else d))"

subsection \<open>Packets from the other board\<close>

definition handle_keyboard_uart_msg :: "env \<Rightarrow> bytes \<Rightarrow> device \<Rightarrow> device" where
  "handle_keyboard_uart_msg e data d = keyboard_synthetic_receive e data (log_call Clipboard_remote_input d)"

definition take_peer_buttons :: "u8 \<Rightarrow> device \<Rightarrow> device" where
  "take_peer_buttons buttons d =
     (let d = d\<lparr>dv_peer_mouse_buttons := buttons\<rparr> in d\<lparr>dv_mouse_buttons := combined_mouse_buttons d\<rparr>)"

text \<open>The part of \<open>handle_mouse_uart_report\<close> after the buttons.\<close>

definition deliver_mouse_report :: "env \<Rightarrow> mouse_report \<Rightarrow> device \<Rightarrow> device" where
  "deliver_mouse_report e rep d =
     (let activating = is_macos_zoom_scroll e (mr_wheel rep) d;
          d = observe_zoom_scroll e (mr_wheel rep) d;
          (rep, d) = (if activating \<and> mr_mode rep \<noteq> 1
                      then (rep\<lparr>mr_x := 0, mr_y := 0, mr_mode := 1\<rparr>, d\<lparr>dv_pointer_x := mr_x rep, dv_pointer_y := mr_y rep\<rparr>)
                      else (rep, d));
          d = queue_mouse_report rep d;
          d = (if mr_mode rep \<noteq> 1 then d\<lparr>dv_pointer_x := mr_x rep, dv_pointer_y := mr_y rep\<rparr> else d)
      in record_remote_activity e (dv_board_role d) (d\<lparr>dv_mouse_buttons := combined_mouse_buttons d\<rparr>))"

definition handle_mouse_uart_report :: "env \<Rightarrow> bool \<Rightarrow> bytes \<Rightarrow> device \<Rightarrow> device" where
  "handle_mouse_uart_report e from_source data d =
     (let rep = mouse_report_of_bytes data in
      if from_source then
        let d = (if dv_peer_mouse_buttons d \<noteq> mr_buttons rep then log_call Clipboard_remote_input d else d);
            d = take_peer_buttons (mr_buttons rep) d
        in if \<not> is_active d then d else deliver_mouse_report e (rep\<lparr>mr_buttons := combined_mouse_buttons d\<rparr>) d
      else deliver_mouse_report e rep d)"

definition handle_mouse_abs_uart_msg :: "env \<Rightarrow> bytes \<Rightarrow> device \<Rightarrow> device" where
  "handle_mouse_abs_uart_msg e data d = handle_mouse_uart_report e True data d"

definition handle_mouse_source_uart_msg :: "env \<Rightarrow> bytes \<Rightarrow> device \<Rightarrow> device" where
  "handle_mouse_source_uart_msg e data d = handle_mouse_uart_report e True data d"

definition handle_mouse_synthetic_uart_msg :: "env \<Rightarrow> bytes \<Rightarrow> device \<Rightarrow> device" where
  "handle_mouse_synthetic_uart_msg e data d = handle_mouse_uart_report e False data d"

definition handle_mouse_buttons_sync_msg :: "env \<Rightarrow> bytes \<Rightarrow> device \<Rightarrow> device" where
  "handle_mouse_buttons_sync_msg e data d =
     (if data ! 1 > 1 then d
      else
        let before = combined_mouse_buttons d;
            d = (if dv_peer_mouse_buttons d \<noteq> data ! 0 \<or> data ! 1 \<noteq> 0 then log_call Clipboard_remote_input d else d);
            d = take_peer_buttons (data ! 0) (d\<lparr>dv_peer_mouse_state_known := True\<rparr>)
        in if data ! 1 \<noteq> 0 \<and> before \<noteq> dv_mouse_buttons d \<and> is_active d
           then snd (queue_mouse_report_critical e (button_report d) d) else d)"

text \<open>The packed \<open>mouse_nonmotion_report_t\<close>: buttons, wheel, pan and mode.\<close>

definition handle_mouse_nonmotion_uart_msg :: "env \<Rightarrow> bytes \<Rightarrow> device \<Rightarrow> device" where
  "handle_mouse_nonmotion_uart_msg e data d =
     (let d = (if dv_peer_mouse_buttons d \<noteq> data ! 0 then log_call Clipboard_remote_input d else d);
          d = take_peer_buttons (data ! 0) d
      in if \<not> is_active d then d
         else
           let d = observe_zoom_scroll e (sint (data ! 1)) d;
               relative = (mouse_uses_relative_mode d \<or> data ! 3 = 1);
               rep = \<lparr>mr_buttons = dv_mouse_buttons d, mr_x = (if relative then 0 else dv_pointer_x d),
                      mr_y = (if relative then 0 else dv_pointer_y d), mr_wheel = sint (data ! 1),
                      mr_pan = sint (data ! 2), mr_mode = of_flag relative\<rparr>
           in record_remote_activity e (dv_board_role d) (queue_mouse_report rep d))"

definition handle_pointer_sync_msg :: "bytes \<Rightarrow> device \<Rightarrow> device" where
  "handle_pointer_sync_msg data d = d\<lparr>dv_pointer_x := sint (get16 data 0), dv_pointer_y := sint (get16 data 2)\<rparr>"

definition handle_fw_upgrade_msg :: "device \<Rightarrow> device" where
  "handle_fw_upgrade_msg d = (if dv_maintenance_reserved d then d else log_call Reset_usb_boot d)"

definition handle_mouse_zoom_msg :: "bytes \<Rightarrow> device \<Rightarrow> device" where
  "handle_mouse_zoom_msg data d = d\<lparr>dv_mouse_zoom := (data ! 0 \<noteq> 0)\<rparr>"

definition handle_set_report_msg :: "env \<Rightarrow> bytes \<Rightarrow> device \<Rightarrow> device" where
  "handle_set_report_msg e data d =
     (let d = d\<lparr>dv_keyboard_leds_desired := (dv_keyboard_leds_desired d)[unat (1 - dv_board_role d) := data ! 0]\<rparr>
      in if dv_keyboard_connected d \<and> \<not> is_active d then restore_leds e d else d)"

definition handle_switch_lock_msg :: "bytes \<Rightarrow> device \<Rightarrow> device" where
  "handle_switch_lock_msg data d = d\<lparr>dv_switch_lock := (data ! 0 \<noteq> 0)\<rparr>"

definition handle_toggle_gaming_msg :: "bytes \<Rightarrow> device \<Rightarrow> device" where
  "handle_toggle_gaming_msg data d = d\<lparr>dv_gaming_mode := (data ! 0 \<noteq> 0)\<rparr>"

definition handle_sync_borders_msg :: "bytes \<Rightarrow> device \<Rightarrow> device" where
  "handle_sync_borders_msg data d =
     (let out = dv_active_output d in
      if out \<ge> 2 then d
      else if is_active d then
        (case set_border_position out d of
           (None, d) \<Rightarrow> d
         | (Some b, d) \<Rightarrow> log_call Save_config (queue_packet (border_bytes b) 8 d))
      else
        case config_set_border (dv_config d) (unat out) \<lparr>border_top = get32 data 0, border_bottom = get32 data 4\<rparr> of
          (True, c) \<Rightarrow> log_call Save_config (d\<lparr>dv_config := c\<rparr>)
        | (False, c) \<Rightarrow> d)"

definition handle_screensaver_msg :: "bytes \<Rightarrow> device \<Rightarrow> device" where
  "handle_screensaver_msg data d =
     (if list_ex (\<lambda>i. data ! i \<noteq> 0) [1..<8] then d
      else d\<lparr>dv_config := snd (config_set_screensaver_mode (dv_config d) (unat (dv_board_role d)) (data ! 0))\<rparr>)"

definition handle_consumer_control_msg :: "env \<Rightarrow> bytes \<Rightarrow> device \<Rightarrow> device" where
  "handle_consumer_control_msg e data d =
     record_remote_activity e (dv_board_role d) (queue_cc_packet data (log_call Clipboard_remote_input d))"

definition handle_system_control_msg :: "env \<Rightarrow> bytes \<Rightarrow> device \<Rightarrow> device" where
  "handle_system_control_msg e data d =
     record_remote_activity e (dv_board_role d) (queue_system_packet data (log_call Clipboard_remote_input d))"

definition handle_reboot_msg :: "env \<Rightarrow> device \<Rightarrow> device" where
  "handle_reboot_msg e d = snd (request_graceful_reboot e False d)"

definition handle_proxy_msg :: "bytes \<Rightarrow> device \<Rightarrow> device" where
  "handle_proxy_msg data d = queue_packet (drop 1 data) (unat (data ! 0)) d"

text \<open>The value a GET copies out of the device structure: \<open>len\<close> bytes at the field's offset.\<close>

fun device_field_read :: "device \<Rightarrow> device_field \<Rightarrow> u64" where
  "device_field_read d D_active_output = ucast (dv_active_output d)"
| "device_field_read d D_pointer_x = word_of_int (dv_pointer_x d)"
| "device_field_read d D_pointer_y = word_of_int (dv_pointer_y d)"
| "device_field_read d D_mouse_buttons = ucast (dv_mouse_buttons d)"
| "device_field_read d D_running_fw_version = ucast (dv_running_fw_version d)"
| "device_field_read d D_running_fw_checksum = ucast (dv_running_fw_checksum d)"
| "device_field_read d D_keyboard_connected = of_bool (dv_keyboard_connected d)"
| "device_field_read d D_switch_lock = of_bool (dv_switch_lock d)"
| "device_field_read d D_relative_mouse = of_bool (dv_relative_mouse d)"

definition field_value :: "field_map_t \<Rightarrow> device \<Rightarrow> u64" where
  "field_value m d = (case fm_offset m of F_device f \<Rightarrow> device_field_read d f | r \<Rightarrow> config_field_read (dv_config d) r)"

definition queue_cfg_packet_try :: "uart_packet \<Rightarrow> device \<Rightarrow> bool \<times> device" where
  "queue_cfg_packet_try p d =
     (case queue_try_add (dv_hid_queue_out d)
            \<lparr>gp_instance = 2, gp_report_id = 6, gp_type = 0, gp_len = 12, gp_data = write_config_packet p\<rparr> of
        (ok, q) \<Rightarrow> (ok, d\<lparr>dv_hid_queue_out := q\<rparr>))"

definition queue_cfg_packet :: "uart_packet \<Rightarrow> device \<Rightarrow> device" where
  "queue_cfg_packet p d = snd (queue_cfg_packet_try p d)"

definition reset_config_timer :: "env \<Rightarrow> device \<Rightarrow> device" where
  "reset_config_timer e d = d\<lparr>dv_config_mode_timer := env_now e + 300000000\<rparr>"

definition handle_api_msgs :: "env \<Rightarrow> u8 \<Rightarrow> bytes \<Rightarrow> device \<Rightarrow> device" where
  "handle_api_msgs e ptype data d =
     (case get_field_map_entry (unat (data ! 0)) of
        None \<Rightarrow> d
      | Some m \<Rightarrow>
          if ptype = SET_VAL_MSG then
            (case config_set_value (dv_config d) (unat (data ! 0)) (drop 1 data) of
               (True, c) \<Rightarrow> reset_config_timer e (d\<lparr>dv_config := c\<rparr>)
             | (False, c) \<Rightarrow> d)
          else if ptype = GET_VAL_MSG then
            reset_config_timer e
              (queue_cfg_packet \<lparr>pkt_type = GET_VAL_MSG,
                 pkt_data = data ! 0 # value_bytes (fm_len m) (field_value m d) @ replicate (7 - fm_len m) 0,
                 pkt_checksum = 0\<rparr> d)
          else reset_config_timer e d)"

definition handle_api_read_all_msg :: "env \<Rightarrow> device \<Rightarrow> device" where
  "handle_api_read_all_msg e d =
     foldl (\<lambda>d i. handle_api_msgs e GET_VAL_MSG (of_nat (fm_idx (get_field_map_index i)) # replicate 7 0) d)
       d [0..<get_field_map_length]"

subsection \<open>Dispatch\<close>

definition run_handler :: "env \<Rightarrow> handler \<Rightarrow> uart_packet \<Rightarrow> device \<Rightarrow> device" where
  "run_handler e h p d =
     (let data = pkt_data p in
      case h of
        H_keyboard_sync_receive \<Rightarrow> keyboard_sync_receive e (unat (pkt_type p)) data d
      | H_handle_keyboard_uart_msg \<Rightarrow> handle_keyboard_uart_msg e data d
      | H_handle_mouse_abs_uart_msg \<Rightarrow> handle_mouse_abs_uart_msg e data d
      | H_handle_mouse_source_uart_msg \<Rightarrow> handle_mouse_source_uart_msg e data d
      | H_handle_mouse_synthetic_uart_msg \<Rightarrow> handle_mouse_synthetic_uart_msg e data d
      | H_handle_mouse_buttons_sync_msg \<Rightarrow> handle_mouse_buttons_sync_msg e data d
      | H_handle_mouse_nonmotion_uart_msg \<Rightarrow> handle_mouse_nonmotion_uart_msg e data d
      | H_handle_output_select_msg \<Rightarrow> receive_output_selection e True data d
      | H_handle_output_select_sync_msg \<Rightarrow> receive_output_selection e False data d
      | H_handle_pointer_sync_msg \<Rightarrow> handle_pointer_sync_msg data d
      | H_handle_modifier_state_msg \<Rightarrow> handle_modifier_state_msg e data d
      | H_handle_zoom_assist_msg \<Rightarrow> handle_zoom_assist_msg e data d
      | H_handle_zoom_assist_clear_msg \<Rightarrow> handle_zoom_assist_clear_msg data d
      | H_handle_activity_msg \<Rightarrow> handle_activity_msg e data d
      | H_handle_mouse_zoom_msg \<Rightarrow> handle_mouse_zoom_msg data d
      | H_handle_set_report_msg \<Rightarrow> handle_set_report_msg e data d
      | H_handle_switch_lock_msg \<Rightarrow> handle_switch_lock_msg data d
      | H_handle_sync_borders_msg \<Rightarrow> handle_sync_borders_msg data d
      | H_handle_flash_led_msg \<Rightarrow> blink_led e d
      | H_handle_toggle_gaming_msg \<Rightarrow> handle_toggle_gaming_msg data d
      | H_handle_consumer_control_msg \<Rightarrow> handle_consumer_control_msg e data d
      | H_handle_system_control_msg \<Rightarrow> handle_system_control_msg e data d
      | H_handle_screensaver_msg \<Rightarrow> handle_screensaver_msg data d
      | H_handle_wipe_config_msg \<Rightarrow> wipe_and_load e d
      | H_handle_save_config_msg \<Rightarrow> log_call Save_config d
      | H_handle_reboot_msg \<Rightarrow> handle_reboot_msg e d
      | H_handle_api_msgs \<Rightarrow> handle_api_msgs e (pkt_type p) data d
      | H_handle_api_read_all_msg \<Rightarrow> handle_api_read_all_msg e d
      | H_handle_fw_upgrade_msg \<Rightarrow> handle_fw_upgrade_msg d
      | H_handle_proxy_msg \<Rightarrow> handle_proxy_msg data d
      | _ \<Rightarrow> log_call (Run_handler h p) d)"

definition board_packet :: "env \<Rightarrow> uart_packet \<Rightarrow> device \<Rightarrow> device" where
  "board_packet e p d =
     (case process_packet p of
        Bad_checksum \<Rightarrow> log_call (Diagnostic_history_record HISTORY_PACKET_CHECKSUM_ERROR 0 0 (unat (pkt_type p))) d
      | Refused_proxy \<Rightarrow> d
      | No_handler \<Rightarrow> d
      | Run h \<Rightarrow> run_handler e h p d)"

subsection \<open>USB device callbacks\<close>

text \<open>\<open>tud_hid_set_report_cb\<close>: the configuration endpoint (instance 2, report ID 6), or the LED state the
  host sets. \<open>out\<close> says that the report is an output report.\<close>

definition config_report :: "env \<Rightarrow> bool \<Rightarrow> bytes \<Rightarrow> device \<Rightarrow> device" where
  "config_report e out buffer d =
     (if \<not> dv_config_mode_active d then d
      else if \<not> out \<or> length buffer \<noteq> 12 then d
      else case read_config_packet buffer of
        None \<Rightarrow> log_call (Diagnostic_history_record HISTORY_PACKET_CHECKSUM_ERROR 0 0 (unat (buffer ! 2))) d
      | Some p \<Rightarrow>
          if \<not> validate_packet p then d
          else if CONFIG_CONFIRM_META_MSG \<le> pkt_type p \<and> pkt_type p \<le> CONFIG_CONFIRM_EXEC_MSG
          then log_call (Config_confirm_usb_request p) d
          else
            let p = p\<lparr>pkt_checksum := calc_packet_checksum p\<rparr>;
                local_bootloader = (pkt_type p = FIRMWARE_UPGRADE_MSG);
                peer_bootloader = (pkt_type p = PROXY_PACKET_MSG \<and> pkt_data p ! 0 = FIRMWARE_UPGRADE_MSG)
            in if local_bootloader \<or> peer_bootloader
               then (if \<not> dv_upgrade_in_progress d \<and> \<not> dv_image_dirty d \<and> \<not> dv_maintenance_reserved d
                     then (if peer_bootloader then d\<lparr>dv_config_bootloader_peer_pending := True\<rparr>
                           else d\<lparr>dv_config_bootloader_local_pending := True\<rparr>)
                     else d)
               else board_packet e p d)"

definition tud_hid_set_report_cb :: "env \<Rightarrow> u8 \<Rightarrow> u8 \<Rightarrow> bool \<Rightarrow> bytes \<Rightarrow> device \<Rightarrow> device" where
  "tud_hid_set_report_cb e inst report_id out buffer d =
     (if inst = 2 \<and> report_id = 6 then config_report e out buffer d
      else if inst \<noteq> 0 \<or> report_id \<noteq> 1 \<or> length buffer \<noteq> 1 \<or> \<not> out then d
      else if dv_board_role d \<ge> 2 then d
      else
        let leds = buffer ! 0;
            d = d\<lparr>dv_keyboard_leds_desired := (dv_keyboard_leds_desired d)[unat (dv_board_role d) := leds]\<rparr>;
            d = log_call Clipboard_host_led_report d;
            d = (if dv_keyboard_connected d \<and> is_active d then restore_leds e d else d)
        in send_value leds 6 d)"

subsection \<open>USB host callbacks\<close>

text \<open>Interface protocols: 0 none, 1 keyboard, 2 mouse.\<close>

definition get_device_index :: "u8 \<Rightarrow> u8 \<Rightarrow> u8 \<Rightarrow> device \<Rightarrow> nat" where
  "get_device_index dev_addr inst itf_protocol d =
     (if itf_protocol = 1
      then (if unat dev_addr = dv_kbd_dev_addr d \<and> unat inst = dv_kbd_instance d then 0 else 2)
      else if itf_protocol = 2 then 1
      else (unat dev_addr - 1) mod 3)"

definition kind_bits :: "u8 \<Rightarrow> bool \<Rightarrow> bool \<Rightarrow> nat" where
  "kind_bits itf_protocol kbd mse = unat itf_protocol + (if kbd then 256 else 0) + (if mse then 512 else 0)"

definition keyboard_removed :: "u8 \<Rightarrow> u8 \<Rightarrow> u8 \<Rightarrow> device \<Rightarrow> device" where
  "keyboard_removed dev_addr inst itf_protocol d =
     (let d = (if unat dev_addr = dv_kbd_dev_addr d \<and> unat inst = dv_kbd_instance d
               then d\<lparr>dv_keyboard_connected := False\<rparr> else d);
          idx = get_device_index dev_addr inst itf_protocol d;
          d = d\<lparr>dv_local_kbd_states := (dv_local_kbd_states d)[idx := zero_kbd_report],
                 dv_reboot_hotkey_sequence := reboot_hotkey_reset (dv_reboot_hotkey_sequence d),
                 dv_reboot_hotkey_source := replicate 4 reboot_hotkey_reset_source\<rparr>
      in send_key (publish_local_modifiers d))"

definition tuh_hid_umount_cb :: "env \<Rightarrow> u8 \<Rightarrow> u8 \<Rightarrow> u8 \<Rightarrow> device \<Rightarrow> device" where
  "tuh_hid_umount_cb e itf_protocol dev_addr inst d =
     (if dev_addr = 0 \<or> dev_addr > 4 \<or> inst \<ge> 12 then d
      else
        let dev = unat dev_addr - 1; itf = unat inst; iface = get_iface dev itf d;
            kbd = (itf_protocol = 1 \<or> if_num_keyboards iface > 0);
            mse = (itf_protocol = 2 \<or> ms_is_found (if_mouse iface));
            d = (if kbd \<or> mse then log_call Clipboard_physical_disconnect d else d);
            d = log_call (Diagnostic_history_record HISTORY_HID_UNMOUNT (unat dev_addr) (unat inst) (kind_bits itf_protocol kbd mse)) d;
            d = (if mse then mouse_interface_removed e dev itf d else d);
            d = (if kbd then keyboard_removed dev_addr inst itf_protocol d else d);
            d = set_iface dev itf zero_interface d
        in if mse then d\<lparr>dv_mouse_connected := list_ex (\<lambda>i. ms_is_found (if_mouse i)) (concat (dv_iface d))\<rparr> else d)"

text \<open>\<open>protocol\<close> is what \<open>tuh_hid_get_protocol\<close> reports for the interface.\<close>

definition mount_accepted :: "u8 \<Rightarrow> device \<Rightarrow> bool" where
  "mount_accepted itf_protocol d \<longleftrightarrow>
     \<not> (cfg_enforce_ports (dv_config d) \<noteq> 0
        \<and> (itf_protocol = 1 \<and> dv_board_role d = 1 \<or> itf_protocol = 2 \<and> dv_board_role d = 0))"

definition mount_protocol :: "u8 \<Rightarrow> u8 \<Rightarrow> u8 \<Rightarrow> u8 \<Rightarrow> device \<Rightarrow> device" where
  "mount_protocol itf_protocol protocol dev_addr inst d =
     (let boot = Tuh_hid_set_protocol (unat dev_addr) (unat inst) 0; rep = Tuh_hid_set_protocol (unat dev_addr) (unat inst) 1 in
      if itf_protocol = 1 then
        (if cfg_force_kbd_boot_protocol (dv_config d) \<noteq> 0 then log_call boot d else d)
          \<lparr>dv_kbd_dev_addr := unat dev_addr, dv_kbd_instance := unat inst, dv_keyboard_connected := True\<rparr>
      else if itf_protocol = 2 then
        (if cfg_force_mouse_boot_mode (dv_config d) \<noteq> 0 then log_call boot d
         else if protocol = 0 then log_call rep d else d)\<lparr>dv_mouse_connected := True\<rparr>
      else d)"

definition tuh_hid_mount_cb :: "env \<Rightarrow> u8 \<Rightarrow> u8 \<Rightarrow> u8 \<Rightarrow> u8 \<Rightarrow> bytes \<Rightarrow> device \<Rightarrow> device" where
  "tuh_hid_mount_cb e itf_protocol protocol dev_addr inst desc d =
     (if dev_addr = 0 \<or> dev_addr > 4 \<or> inst \<ge> 12 then d
      else
        let dev = unat dev_addr - 1; itf = unat inst;
            iface = snd (parse_report_descriptor ((get_iface dev itf d)\<lparr>if_protocol := protocol\<rparr>) desc);
            d = set_iface dev itf iface d;
            d = log_call (Diagnostic_history_record HISTORY_HID_MOUNT (unat dev_addr) (unat inst)
                  (kind_bits itf_protocol (itf_protocol = 1 \<or> if_num_keyboards iface > 0)
                     (itf_protocol = 2 \<or> ms_is_found (if_mouse iface)))) d;
            d = (if if_descriptor_invalid iface
                 then log_call (Diagnostic_history_record HISTORY_DESCRIPTOR_REJECTED (unat dev_addr) (unat inst) 0) d else d)
        in if \<not> mount_accepted itf_protocol d then d
           else
             let d = mount_protocol itf_protocol protocol dev_addr inst d;
                 d = (if ms_is_found (if_mouse iface) then d\<lparr>dv_mouse_connected := True\<rparr> else d)
             in log_call (Tuh_hid_receive_report (unat dev_addr) (unat inst)) (send_value 1 9 (blink_led e d)))"

definition receive_report :: "env \<Rightarrow> receiver_id \<Rightarrow> bytes \<Rightarrow> nat \<Rightarrow> nat \<Rightarrow> nat \<Rightarrow> device \<Rightarrow> device" where
  "receive_report e r raw idx dev itf d =
     (case r of
        REPORT_RECEIVER_NONE \<Rightarrow> d
      | REPORT_RECEIVER_MOUSE \<Rightarrow> process_mouse_report e raw dev itf d
      | REPORT_RECEIVER_KEYBOARD \<Rightarrow> process_keyboard_report e raw idx (get_iface dev itf d) d
      | REPORT_RECEIVER_CONSUMER \<Rightarrow> process_consumer_report e raw (get_iface dev itf d) d
      | REPORT_RECEIVER_SYSTEM \<Rightarrow> process_system_report e raw (get_iface dev itf d) d)"

text \<open>Which receiver a report of a mounted interface goes to.\<close>

definition report_receiver :: "u8 \<Rightarrow> hid_interface \<Rightarrow> bytes \<Rightarrow> receiver_id" where
  "report_receiver itf_protocol iface raw =
     (if if_uses_report_id iface \<or> itf_protocol = 0
      then if_report_handler iface ! (if if_uses_report_id iface then unat (raw ! 0) else 0)
      else if itf_protocol = 1 then REPORT_RECEIVER_KEYBOARD
      else if itf_protocol = 2 then REPORT_RECEIVER_MOUSE
      else REPORT_RECEIVER_NONE)"

definition tuh_hid_report_received_cb :: "env \<Rightarrow> u8 \<Rightarrow> u8 \<Rightarrow> u8 \<Rightarrow> bytes \<Rightarrow> device \<Rightarrow> device" where
  "tuh_hid_report_received_cb e itf_protocol dev_addr inst raw d =
     (let again = log_call (Tuh_hid_receive_report (unat dev_addr) (unat inst)) in
      if dev_addr = 0 \<or> dev_addr > 4 \<or> inst \<ge> 12 then d
      else if raw = [] then again d
      else
        let dev = unat dev_addr - 1; itf = unat inst; iface = get_iface dev itf d in
        if if_descriptor_invalid iface \<and> if_protocol iface \<noteq> 0 then again d
        else again (receive_report e (report_receiver itf_protocol iface raw) raw
                      (get_device_index dev_addr inst itf_protocol d) dev itf d))"

definition tuh_hid_set_protocol_complete_cb :: "u8 \<Rightarrow> u8 \<Rightarrow> u8 \<Rightarrow> device \<Rightarrow> device" where
  "tuh_hid_set_protocol_complete_cb dev_addr idx protocol d =
     (if dev_addr = 0 \<or> dev_addr > 4 \<or> idx \<ge> 12 then d
      else
        let dev = unat dev_addr - 1; itf = unat idx
        in set_iface dev itf ((get_iface dev itf d)\<lparr>if_protocol := protocol\<rparr>) d)"

subsection \<open>Tasks\<close>

text \<open>Progress of a bootloader request that came over WebHID: \<open>line_idle\<close> says that neither the DMA nor the
  UART is sending, \<open>batch_tx\<close> that a firmware page is.\<close>

definition process_config_bootloader_request :: "bool \<Rightarrow> bool \<Rightarrow> device \<Rightarrow> bool \<times> device" where
  "process_config_bootloader_request batch_tx line_idle d =
     (if \<not> dv_config_bootloader_peer_pending d \<and> \<not> dv_config_bootloader_local_pending d then (False, d)
      else if dv_maintenance_reserved d then (False, d)
      else if dv_upgrade_in_progress d \<or> dv_image_dirty d \<or> batch_tx
      then (False, d\<lparr>dv_config_bootloader_peer_pending := False, dv_config_bootloader_local_pending := False\<rparr>)
      else
        let d = (if dv_config_bootloader_peer_pending d then
                   case queue_packet_dev [] 4 d of
                     (True, d) \<Rightarrow> d\<lparr>dv_config_bootloader_peer_pending := False\<rparr>
                   | (False, d) \<Rightarrow> d
                 else d);
            ready = (dv_config_bootloader_local_pending d \<and> \<not> dv_config_bootloader_peer_pending d
                     \<and> queue_is_empty (dv_uart_tx_queue d) \<and> line_idle)
        in (ready, if ready then log_call Reset_usb_boot (d\<lparr>dv_config_bootloader_local_pending := False\<rparr>) else d))"

definition process_hid_queue_task :: "(u8 \<Rightarrow> bool) \<Rightarrow> bool \<Rightarrow> device \<Rightarrow> hid_generic_pkt option \<times> device" where
  "process_hid_queue_task ready accepts d =
     (case queue_try_peek (dv_hid_queue_out d) of
        None \<Rightarrow> (None, d)
      | Some p \<Rightarrow>
          if \<not> ready (gp_instance p) then (None, d)
          else if accepts then (Some p, d\<lparr>dv_hid_queue_out := snd (queue_try_remove (dv_hid_queue_out d))\<rparr>)
          else (None, d))"

text \<open>The static variables of the screensaver.\<close>

record screensaver_state =
  sv_pong :: mouse_report
  sv_dx :: int
  sv_dy :: int
  sv_jitter :: mouse_report
  sv_last_pointer_move :: u32

definition screensaver_boot :: screensaver_state where
  "screensaver_boot =
     \<lparr>sv_pong = \<lparr>mr_buttons = 0, mr_x = 0, mr_y = 0, mr_wheel = 0, mr_pan = 0, mr_mode = 0\<rparr>, sv_dx = 20, sv_dy = 25,
      sv_jitter = \<lparr>mr_buttons = 0, mr_x = 0, mr_y = 2, mr_wheel = 0, mr_pan = 0, mr_mode = 1\<rparr>, sv_last_pointer_move = 0\<rparr>"

definition screensaver_pong :: "screensaver_state \<Rightarrow> mouse_report \<times> screensaver_state" where
  "screensaver_pong v =
     (let r = sv_pong v;
          dx = (if mr_x r + sv_dx v < 0 \<or> mr_x r + sv_dx v > 32767 then - sv_dx v else sv_dx v);
          dy = (if mr_y r + sv_dy v < 0 \<or> mr_y r + sv_dy v > 32767 then - sv_dy v else sv_dy v);
          r = r\<lparr>mr_x := to_int16 (mr_x r + dx), mr_y := to_int16 (mr_y r + dy)\<rparr>
      in (r, v\<lparr>sv_pong := r, sv_dx := dx, sv_dy := dy\<rparr>))"

definition screensaver_jitter :: "screensaver_state \<Rightarrow> mouse_report \<times> screensaver_state" where
  "screensaver_jitter v =
     (let r = (sv_jitter v)\<lparr>mr_y := to_int16 (- mr_y (sv_jitter v))\<rparr> in (r, v\<lparr>sv_jitter := r\<rparr>))"

definition screensaver_task :: "env \<Rightarrow> bool \<Rightarrow> screensaver_state \<times> device \<Rightarrow> screensaver_state \<times> device" where
  "screensaver_task e tud_ready st =
     (case st of (v, d) \<Rightarrow>
        if dv_board_role d \<ge> 2 then (v, d)
        else
          let now = env_now e; role = unat (dv_board_role d); ss = out_screensaver (get_output (dv_config d) role);
              last_activity = dv_last_activity d ! role;
              inactivity = (if now \<ge> last_activity then now - last_activity else 0)
          in if ss_mode ss = 0 then (v, d)
             else if inactivity < ss_idle_time_us ss \<or> ss_mode ss > 2 then (v, d)
             else if ss_max_time_us ss \<noteq> 0 \<and> inactivity - ss_idle_time_us ss > ss_max_time_us ss then (v, d)
             else if ss_only_if_inactive ss \<noteq> 0 \<and> is_active d then (v, d)
             else if screensaver_system_idle_timed_out now
                 (activity_latest_timestamp (dv_direct_activity d) (dv_direct_activity_valid d) (dv_peer_activity d) (dv_peer_activity_valid d))
                 (cfg_screensaver_system_timeout_sec (dv_config d)) then (v, d)
             else if ucast now - sv_last_pointer_move v < (if ss_mode ss = 1 then 5000 else 10000000) then (v, d)
             else if \<not> tud_ready then (v, d)
             else
               case (if ss_mode ss = 1 then screensaver_pong v else screensaver_jitter v) of
                 (r, v) \<Rightarrow> (v\<lparr>sv_last_pointer_move := ucast now\<rparr>, queue_mouse_report r d))"

end
