(* ===== verification/Board.thy ===== *)
theory Board
  imports Handlers
begin

text \<open>
  One board as a whole: every event it can see (packets, keyboard and mouse reports, devices plugged in and
  out, the host's requests, the periodic tasks) as one machine over the device state, and the invariants that
  hold between any two events.
\<close>

unbundle bit_operations_syntax

subsection \<open>Events\<close>

datatype board_event =
    Packet env uart_packet
  | Hid_report env u8 u8 u8 bytes
  | Hid_mount env u8 u8 u8 u8 bytes
  | Hid_unmount env u8 u8 u8
  | Protocol_set u8 u8 u8
  | Host_set_report env u8 u8 bool bytes
  | Host_mount
  | Host_unmount
  | Keyboard_sync_tick env
  | Zoom_tick env
  | Led_sync_tick env
  | Led_blink_tick env bool
  | Kbd_usb_tick bool bool
  | Mouse_usb_tick "u8 \<Rightarrow> bool" bool
  | Hid_usb_tick "u8 \<Rightarrow> bool" bool
  | Bootloader_tick bool bool
  | Announce env

fun board_step :: "device \<Rightarrow> board_event \<Rightarrow> unit \<times> device" where
  "board_step d (Packet e p) = ((), board_packet e p d)"
| "board_step d (Hid_report e proto addr inst raw) = ((), tuh_hid_report_received_cb e proto addr inst raw d)"
| "board_step d (Hid_mount e itf proto addr inst desc) = ((), tuh_hid_mount_cb e itf proto addr inst desc d)"
| "board_step d (Hid_unmount e itf addr inst) = ((), tuh_hid_umount_cb e itf addr inst d)"
| "board_step d (Protocol_set addr i proto) = ((), tuh_hid_set_protocol_complete_cb addr i proto d)"
| "board_step d (Host_set_report e inst i out buf) = ((), tud_hid_set_report_cb e inst i out buf d)"
| "board_step d Host_mount = ((), tud_mount_cb d)"
| "board_step d Host_unmount = ((), tud_umount_cb d)"
| "board_step d (Keyboard_sync_tick e) = ((), keyboard_sync_task e d)"
| "board_step d (Zoom_tick e) = ((), zoom_assist_task e d)"
| "board_step d (Led_sync_tick e) = ((), led_sync_task e d)"
| "board_step d (Led_blink_tick e pin) = ((), led_blinking_task e pin d)"
| "board_step d (Kbd_usb_tick ready accepts) = ((), snd (process_kbd_queue_task ready accepts d))"
| "board_step d (Mouse_usb_tick ready accepts) = ((), snd (process_mouse_queue_task ready accepts d))"
| "board_step d (Hid_usb_tick ready accepts) = ((), snd (process_hid_queue_task ready accepts d))"
| "board_step d (Bootloader_tick batch idle) = ((), snd (process_config_bootloader_request batch idle d))"
| "board_step d (Announce e) = ((), announce_initial_output e d)"

text \<open>Packets carry eight bytes, and the flash yields a valid configuration.\<close>

fun board_admissible :: "board_event \<Rightarrow> bool" where
  "board_admissible (Packet e p) = (length (pkt_data p) = 8 \<and> config_validate (env_loaded_config e))"
| "board_admissible (Hid_report e proto addr inst raw) = config_validate (env_loaded_config e)"
| "board_admissible (Host_set_report e inst i out buf) = config_validate (env_loaded_config e)"
| "board_admissible _ = True"

subsection \<open>The invariant\<close>

definition board_inv :: "device \<Rightarrow> bool" where
  [inv_simps]: "board_inv d \<longleftrightarrow> dv_board_role d \<le> 1 \<and> sel_wf (dv_selection d) \<and> dv_active_output d = sel_output (dv_selection d)
     \<and> config_validate (dv_config d) \<and> dv_mouse_buttons d = dv_local_mouse_buttons d OR dv_peer_mouse_buttons d"

text \<open>It depends on this much of the state.\<close>

definition route :: "device \<Rightarrow> u8 \<times> selection_state \<times> u8 \<times> config \<times> u8 \<times> u8 \<times> u8" where
  "route d = (dv_board_role d, dv_selection d, dv_active_output d, dv_config d, dv_mouse_buttons d,
     dv_local_mouse_buttons d, dv_peer_mouse_buttons d)"

lemma route_inv: "route d' = route d \<Longrightarrow> board_inv d' = board_inv d"
  by (simp add: route_def board_inv_def)

lemma core_route: "core d' = core d \<Longrightarrow> route d' = route d"
  by (simp add: route_def core_def)

named_theorems route_simps \<open>operations that leave the routing state alone\<close>

lemma route_update [route_simps]:
  "route (d\<lparr>dv_sync := s\<rparr>) = route d" "route (d\<lparr>dv_remote_kbd_state := r\<rparr>) = route d"
  "route (d\<lparr>dv_kbd_remote_generation := g\<rparr>) = route d" "route (d\<lparr>dv_peer_modifiers := m\<rparr>) = route d"
  "route (d\<lparr>dv_peer_modifiers_last_seen := t\<rparr>) = route d" "route (d\<lparr>dv_keyboard_connected := b\<rparr>) = route d"
  "route (d\<lparr>dv_local_kbd_states := k\<rparr>) = route d" "route (d\<lparr>dv_reboot_hotkey_sequence := q\<rparr>) = route d"
  "route (d\<lparr>dv_reboot_hotkey_source := src\<rparr>) = route d" "route (d\<lparr>dv_mouse_connected := b\<rparr>) = route d"
  "route (d\<lparr>dv_reboot_requested := b\<rparr>) = route d" "route (d\<lparr>dv_switch_lock := b\<rparr>) = route d"
  "route (d\<lparr>dv_gaming_mode := b\<rparr>) = route d" "route (d\<lparr>dv_mouse_zoom := b\<rparr>) = route d"
  "route (d\<lparr>dv_zoom_activation_pending := z\<rparr>) = route d" "route (d\<lparr>dv_pointer_x := x\<rparr>) = route d"
  "route (d\<lparr>dv_pointer_y := x\<rparr>) = route d" "route (d\<lparr>dv_hid_queue_out := hq\<rparr>) = route d"
  "route (d\<lparr>dv_config_mode_timer := t\<rparr>) = route d" "route (d\<lparr>dv_keyboard_leds_desired := l\<rparr>) = route d"
  "route (d\<lparr>dv_kbd_queue := kq\<rparr>) = route d" "route (d\<lparr>dv_mouse_queue := mq\<rparr>) = route d"
  "route (d\<lparr>dv_tud_connected := b\<rparr>) = route d" "route (d\<lparr>dv_kbd_latest_pending := b\<rparr>) = route d"
  "route (d\<lparr>dv_config_bootloader_peer_pending := b\<rparr>) = route d" "route (d\<lparr>dv_config_bootloader_local_pending := b\<rparr>) = route d"
  "route (d\<lparr>dv_kbd_dev_addr := n\<rparr>) = route d" "route (d\<lparr>dv_kbd_instance := n\<rparr>) = route d"
  "route (d\<lparr>dv_peer_mouse_state_known := b\<rparr>) = route d" "route (d\<lparr>dv_blinks_left := n\<rparr>) = route d"
  "route (d\<lparr>dv_last_led_change := lc\<rparr>) = route d" "route (d\<lparr>dv_max_kbd_idx := n\<rparr>) = route d"
  by (simp_all add: route_def)

lemmas route_core [route_simps] = core_route [OF core_log_call] core_route [OF core_queue_packet]
  core_route [OF core_queue_packet_dev] core_route [OF core_send(1)] core_route [OF core_send(2)] core_route [OF core_send(3)]
  core_route [OF core_send(4)] core_route [OF core_send(5)] core_route [OF core_send(6)] core_route [OF core_send(7)]
  core_route [OF core_queue_mouse] core_route [OF core_critical] core_route [OF core_release] core_route [OF core_output(1)]
  core_route [OF core_output(2)] core_route [OF core_leds] core_route [OF core_activity] core_route [OF core_kbd(1)]
  core_route [OF core_kbd(2)] core_route [OF core_kbd(3)] core_route [OF core_kbd(4)] core_route [OF core_kbd(5)]
  core_route [OF core_publish_modifiers] core_route [OF core_release_all] core_route [OF core_focus]

lemma route_kbd [route_simps]:
  "route (update_kbd_state r i d) = route d" "route (send_key d) = route d" "route (blink_led e d) = route d"
  "route (record_remote_activity e out d) = route d" "route (queue_cc_packet data d) = route d"
  "route (queue_system_packet data d) = route d" "route (set_iface dev itf v d) = route d" "route (set_tracker out t d) = route d"
  "route (set_keyboard_leds e l d) = route d" "route (make_room d) = route d"
  using core_route [OF core_make_room]
  by (simp_all add: update_kbd_state_def send_key_def blink_led_def record_remote_activity_def queue_cc_packet_def
      queue_system_packet_def queue_generic_def set_iface_def set_tracker_def set_keyboard_leds_def Let_def route_simps)
     (simp_all add: route_def log_call_def)

lemma route_controls [route_simps]:
  "route (send_consumer_control raw d) = route d" "route (send_system_control raw d) = route d"
  "route (process_consumer_report e raw iface d) = route d" "route (process_system_report e raw iface d) = route d"
  by (simp_all add: send_consumer_control_def send_system_control_def process_consumer_report_def process_system_report_def
      Let_def route_simps)

lemma route_sync [route_simps]:
  "route (publish_peer e r d) = route d" "route (synthetic_release d) = route d"
  "route (keyboard_synthetic_receive e data d) = route d" "route (sync_generation e d) = route d"
  "route (sync_lease e d) = route d"
  by (simp_all add: publish_peer_def synthetic_release_def keyboard_synthetic_receive_def sync_generation_def sync_lease_def
      Let_def route_simps)

lemma route_queue_packet_dev: "queue_packet_dev data t d = (ok, d') \<Longrightarrow> route d' = route d"
  using core_route [OF core_queue_packet_dev, of data t d] by simp

lemma route_fragments: "queue_fragments p i n d = (ok, d') \<Longrightarrow> route d' = route d"
proof -
  assume "queue_fragments p i n d = (ok, d')"
  then obtain q where "d' = d\<lparr>dv_uart_tx_queue := q\<rparr>" using queue_fragments_frame by blast
  then show ?thesis by (simp add: route_def)
qed

lemma route_challenge [route_simps]: "route (sync_challenge e d) = route d"
proof -
  obtain b d1 where q: "queue_packet_dev (le64 (ks_boot (dv_sync d) + (ks_nonce_counter (dv_sync d) + 1) * 0x9e3779b97f4a7c15))
      (if ks_epoch_pending (dv_sync d) then 48 else 42) d = (b, d1)" by fastforce
  show ?thesis using q route_queue_packet_dev [OF q] by (cases b) (simp_all add: sync_challenge_def Let_def route_simps)
qed

lemma route_answer [route_simps]: "route (sync_answer d) = route d"
proof -
  define d0 where "d0 = d\<lparr>dv_sync := (dv_sync d)\<lparr>ks_serial := ks_serial (dv_sync d) + 1\<rparr>\<rparr>"
  obtain b d1 where q: "queue_fragments (state_payload d0 (ks_serial (dv_sync d) + 1)) 0 5 d0 = (b, d1)" by fastforce
  have "sync_answer d = (if is_active d \<or> \<not> ks_target_valid (dv_sync d) \<or> queue_get_level (dv_uart_tx_queue d) > 256 - 5 then d
    else if b then d1\<lparr>dv_sync := advance_source (dv_sync d1)\<rparr> else d1)"
    using q by (simp add: sync_answer_def Let_def flip: d0_def split: bool.splits)
  then show ?thesis using route_fragments [OF q] by (simp add: route_simps d0_def)
qed

lemma route_sync_task [route_simps]: "route (keyboard_sync_task e d) = route d"
  by (simp add: keyboard_sync_task_def Let_def route_simps)

lemma route_sync_receive [route_simps]: "route (keyboard_sync_receive e t data d) = route d"
proof -
  have "route (accept_snapshot e p x) = route x" for p x by (simp add: accept_snapshot_def Let_def route_simps)
  then show ?thesis by (simp add: keyboard_sync_receive_def receive_challenge_def receive_fragment_def Let_def route_simps)
qed

lemma route_zoom [route_simps]:
  "route (clear_zoom_assist out f d) = route d" "route (observe_zoom_scroll e w d) = route d"
  "route (handle_modifier_state_msg e data d) = route d" "route (handle_zoom_assist_msg e data d) = route d"
  "route (handle_zoom_assist_clear_msg data d) = route d" "route (zoom_assist_task e d) = route d"
  "route (mouse_note_zoom e w z d) = route d"
  by (simp_all add: clear_zoom_assist_def observe_zoom_scroll_def handle_modifier_state_msg_def handle_zoom_assist_msg_def
      handle_zoom_assist_clear_msg_def zoom_assist_task_def mouse_note_zoom_def Let_def route_simps split: prod.splits)

lemma route_flags [route_simps]:
  "route (switchlock_hotkey_handler d) = route d" "route (toggle_gaming_mode_handler d) = route d"
  "route (clear_zoom_assist_hotkey_handler d) = route d" "route (mouse_zoom_hotkey_handler d) = route d"
  "route (fw_upgrade_hotkey_handler_A d) = route d" "route (fw_upgrade_hotkey_handler_B d) = route d"
  "route (config_enable_hotkey_handler e d) = route d" "route (snd (request_graceful_reboot e n d)) = route d"
  by (simp_all add: switchlock_hotkey_handler_def toggle_gaming_mode_handler_def clear_zoom_assist_hotkey_handler_def
      mouse_zoom_hotkey_handler_def fw_upgrade_hotkey_handler_A_def fw_upgrade_hotkey_handler_B_def config_enable_hotkey_handler_def
      request_graceful_reboot_def Let_def route_simps)

lemma route_lock_output: "route (snd (lock_output c (r, d) i)) = route d"
  by (simp add: lock_output_def Let_def route_simps)

lemma route_screenlock [route_simps]: "route (screenlock_hotkey_handler d) = route d"
  using route_lock_output [of "dv_config d" zero_kbd_report d 0]
    route_lock_output [of "dv_config d" "fst (lock_output (dv_config d) (zero_kbd_report, d) 0)"
      "snd (lock_output (dv_config d) (zero_kbd_report, d) 0)" 1]
  by (simp add: screenlock_hotkey_handler_def)

lemma route_messages [route_simps]:
  "route (handle_keyboard_uart_msg e data d) = route d" "route (handle_pointer_sync_msg data d) = route d"
  "route (handle_fw_upgrade_msg d) = route d" "route (handle_mouse_zoom_msg data d) = route d"
  "route (handle_set_report_msg e data d) = route d" "route (handle_switch_lock_msg data d) = route d"
  "route (handle_toggle_gaming_msg data d) = route d" "route (handle_consumer_control_msg e data d) = route d"
  "route (handle_system_control_msg e data d) = route d" "route (handle_reboot_msg e d) = route d"
  "route (handle_proxy_msg data d) = route d" "route (queue_cfg_packet p d) = route d" "route (reset_config_timer e d) = route d"
  by (simp_all add: handle_keyboard_uart_msg_def handle_pointer_sync_msg_def handle_fw_upgrade_msg_def handle_mouse_zoom_msg_def
      handle_set_report_msg_def handle_switch_lock_msg_def handle_toggle_gaming_msg_def handle_consumer_control_msg_def
      handle_system_control_msg_def handle_reboot_msg_def handle_proxy_msg_def queue_cfg_packet_def queue_cfg_packet_try_def
      reset_config_timer_def Let_def route_simps split: prod.splits)

lemma route_activity_msg [route_simps]: "route (handle_activity_msg e data d) = route d"
  by (simp add: handle_activity_msg_def Let_def split: prod.splits) (simp add: route_def)

lemma route_ticks [route_simps]:
  "route (led_sync_task e d) = route d" "route (led_blinking_task e pin d) = route d"
  "route (tud_mount_cb d) = route d" "route (tud_umount_cb d) = route d"
  "route (tuh_hid_set_protocol_complete_cb a i p d) = route d" "route (announce_initial_output e d) = route d"
  by (simp_all add: led_sync_task_def led_blinking_task_def tud_mount_cb_def tud_umount_cb_def
      tuh_hid_set_protocol_complete_cb_def announce_initial_output_def Let_def route_simps)

subsection \<open>Operations that change it\<close>

lemma route_fields: "route d' = route d \<Longrightarrow> dv_board_role d' = dv_board_role d \<and> dv_selection d' = dv_selection d
    \<and> dv_active_output d' = dv_active_output d \<and> dv_config d' = dv_config d"
  by (simp add: route_def)

lemma config_inv: "board_inv d \<Longrightarrow> config_validate c \<Longrightarrow> board_inv (d\<lparr>dv_config := c\<rparr>)"
  by (simp add: board_inv_def)

lemma two_le_1: "(x :: u8) < 2 \<longleftrightarrow> x \<le> 1"
  by (simp add: word_less_nat_alt word_le_nat_alt) linarith

lemma set_active_output_inv:
  assumes "dv_board_role d \<le> 1" "sel_wf (dv_selection d)" "config_validate (dv_config d)"
    "dv_mouse_buttons d = dv_local_mouse_buttons d OR dv_peer_mouse_buttons d" "out \<le> 1"
  shows "board_inv (set_active_output e out d)"
proof -
  have out: "out < 2" using assms(5) by (simp add: two_le_1)
  show ?thesis
    unfolding route_inv [OF core_route [OF set_active_output_core [OF out]]]
    using assms selection_request_wf [OF assms(2,5,1)] by (simp add: board_inv_def) (simp add: selection_request_def)
qed

lemma active_le_1: "board_inv d \<Longrightarrow> dv_active_output d \<le> 1"
  by (simp add: board_inv_def sel_wf_def)

lemma toggle_inv: "board_inv d \<Longrightarrow> board_inv (output_toggle_hotkey_handler e d)"
proof -
  assume inv: "board_inv d"
  have "dv_active_output d XOR 1 \<le> 1" using active_le_1 [OF inv] by (auto simp: u8_le_1)
  then show ?thesis using inv set_active_output_inv [of "d\<lparr>dv_active_output := dv_active_output d XOR 1\<rparr>" "dv_active_output d XOR 1" e]
    by (simp add: output_toggle_hotkey_handler_def board_inv_def)
qed

lemma merge_refused: "selection_merge s t lo = (False, s') \<Longrightarrow> s' = s"
  by (auto simp: selection_merge_def Let_def split: if_splits)

lemma receive_selection_inv:
  assumes inv: "board_inv d" and len: "length data = 8"
  shows "board_inv (receive_output_selection e legacy_ok data d)"
proof -
  define legacy where "legacy \<longleftrightarrow> legacy_ok \<and> selection_is_legacy data"
  define r where "r = (if legacy then Some (True, selection_legacy_request (dv_selection d) (data ! 0) (1 - dv_board_role d))
    else map_option (\<lambda>incoming. selection_merge (dv_selection d) incoming (dv_board_role d)) (selection_decode data))"
  have wf: "sel_wf (dv_selection d)" and role: "dv_board_role d \<le> 1" using inv by (simp_all add: board_inv_def)
  have role': "1 - dv_board_role d \<le> 1" using role by (auto simp: u8_le_1)
  show ?thesis
  proof (cases r)
    case None
    then show ?thesis using inv by (simp add: receive_output_selection_def Let_def flip: legacy_def r_def)
  next
    case (Some x)
    obtain acc sel where x: "x = (acc, sel)" by fastforce
    have sel: "sel_wf sel \<and> (\<not> acc \<longrightarrow> sel = dv_selection d)"
    proof (cases legacy)
      case True
      then have "data ! 0 \<le> 1" by (simp add: legacy_def selection_is_legacy_def)
      then show ?thesis using True Some x selection_legacy_request_wf [OF wf _ role'] by (auto simp: r_def)
    next
      case False
      then obtain t where t: "selection_decode data = Some t" "selection_merge (dv_selection d) t (dv_board_role d) = (acc, sel)"
        using Some x by (auto simp: r_def)
      have "sel_wf t" using selection_decode_canonical [OF len t(1)] by blast
      then show ?thesis using selection_merge_wf [OF wf _ role, of t] t(2) merge_refused [of "dv_selection d" t "dv_board_role d" sel]
        by (cases acc) simp_all
    qed
    define d1 where "d1 = (if acc then d\<lparr>dv_selection := sel, dv_active_output := sel_output sel\<rparr> else d\<lparr>dv_selection := sel\<rparr>)"
    have "route (receive_output_selection e legacy_ok data d) = route d1"
      using Some x by (simp add: receive_output_selection_def Let_def d1_def route_simps flip: legacy_def r_def)
    moreover have "board_inv d1" using inv sel by (simp add: board_inv_def d1_def)
    ultimately show ?thesis using route_inv by blast
  qed
qed

lemma buttons_inv: "board_inv d \<Longrightarrow> board_inv (take_peer_buttons b d)"
  by (simp add: board_inv_def take_peer_buttons_def combined_mouse_buttons_def)

lemma refresh_inv: "board_inv d \<Longrightarrow> board_inv (refresh_local_mouse_buttons b d)"
  by (simp add: board_inv_def refresh_local_mouse_buttons_def combined_mouse_buttons_def Let_def)

lemma recombine_inv: "board_inv d \<Longrightarrow> board_inv (d\<lparr>dv_mouse_buttons := combined_mouse_buttons d\<rparr>)"
  by (simp add: board_inv_def combined_mouse_buttons_def)

named_theorems inv_intros \<open>operations that keep the board invariant\<close>

lemmas step_inv_intros [inv_intros] = buttons_inv refresh_inv recombine_inv config_inv receive_selection_inv toggle_inv

lemma inv_route: "board_inv d \<Longrightarrow> route d' = route d \<Longrightarrow> board_inv d'"
  using route_inv by blast

lemma mouse_removed_inv: "board_inv d \<Longrightarrow> board_inv (mouse_interface_removed e dev itf d)"
proof -
  assume "board_inv d"
  then have "board_inv (refresh_local_mouse_buttons 0 (set_iface dev itf ((get_iface dev itf d)\<lparr>if_mouse_buttons := 0\<rparr>) d))" (is "board_inv ?d1")
    by (intro refresh_inv) (rule inv_route, assumption, simp add: route_simps)
  moreover have "route (mouse_interface_removed e dev itf d) = route ?d1"
    by (simp add: mouse_interface_removed_def Let_def route_simps)
  ultimately show ?thesis using inv_route by blast
qed

lemma deliver_inv: "board_inv d \<Longrightarrow> board_inv (deliver_mouse_report e r d)"
proof -
  assume inv: "board_inv d"
  have "route (deliver_mouse_report e r d) = route (d\<lparr>dv_mouse_buttons := combined_mouse_buttons d\<rparr>)"
  proof -
    have c: "route x = route d \<Longrightarrow> route (x\<lparr>dv_mouse_buttons := combined_mouse_buttons x\<rparr>) = route (d\<lparr>dv_mouse_buttons := combined_mouse_buttons d\<rparr>)" for x
      by (simp add: route_def combined_mouse_buttons_def)
    show ?thesis by (simp add: deliver_mouse_report_def Let_def route_simps split: prod.splits) (intro conjI impI c; simp add: route_simps)
  qed
  then show ?thesis using recombine_inv [OF inv] inv_route by blast
qed

lemma mouse_messages_inv:
  assumes inv: "board_inv d"
  shows "board_inv (handle_mouse_uart_report e src data d)" "board_inv (handle_mouse_buttons_sync_msg e data d)"
    "board_inv (handle_mouse_nonmotion_uart_msg e data d)"
proof -
  have peer: "board_inv (take_peer_buttons b x)" if "route x = route d" for b x
    using buttons_inv inv_route [OF inv that] by blast
  have r: "route (handle_mouse_buttons_sync_msg e data d) = route d
    \<or> (\<exists>b x. route x = route d \<and> route (handle_mouse_buttons_sync_msg e data d) = route (take_peer_buttons b x))"
    by (simp add: handle_mouse_buttons_sync_msg_def Let_def route_simps) (metis route_core(1) route_update(29))
  show "board_inv (handle_mouse_buttons_sync_msg e data d)" using r peer inv_route inv by metis
  have n: "\<exists>b x. route x = route d \<and> route (handle_mouse_nonmotion_uart_msg e data d) = route (take_peer_buttons b x)"
    by (simp add: handle_mouse_nonmotion_uart_msg_def Let_def route_simps) (metis route_core(1))
  show "board_inv (handle_mouse_nonmotion_uart_msg e data d)" using n peer inv_route by metis
  show "board_inv (handle_mouse_uart_report e src data d)"
    using inv peer deliver_inv by (simp add: handle_mouse_uart_report_def Let_def route_simps)
qed

lemma inv_config: "board_inv d \<Longrightarrow> config_validate (dv_config d)"
  by (simp add: board_inv_def)

lemma screensaver_mode_inv: "board_inv d \<Longrightarrow> board_inv (d\<lparr>dv_config := snd (config_set_screensaver_mode (dv_config d) i v)\<rparr>)"
  using config_setters_keep_valid [OF inv_config] by (intro config_inv) blast+

lemma screensaver_inv: "board_inv d \<Longrightarrow> board_inv (screensaver_set v d)"
  using inv_route [of d "send_value v 11 d"] by (simp add: screensaver_set_def screensaver_mode_inv route_simps)

lemma border_inv: "board_inv d \<Longrightarrow> set_border_position out d = (b, d') \<Longrightarrow> board_inv d'"
  using config_setters_keep_valid [of "dv_config d"]
  by (auto simp: set_border_position_def Let_def split: prod.splits bool.splits intro!: config_inv) (metis board_inv_def snd_conv)+

lemma border_handlers_inv:
  assumes "board_inv d"
  shows "board_inv (screen_border_hotkey_handler d)" "board_inv (handle_sync_borders_msg data d)"
proof -
  obtain b d1 where s: "set_border_position (dv_active_output d) d = (b, d1)" by fastforce
  note inv1 = border_inv [OF assms s]
  show "board_inv (screen_border_hotkey_handler d)" using s inv1 assms
    by (cases b) (auto simp: screen_border_hotkey_handler_def Let_def intro: inv_route simp: route_simps)
  obtain ok c where c: "config_set_border (dv_config d) (unat (dv_active_output d)) \<lparr>border_top = get32 data 0, border_bottom = get32 data 4\<rparr> = (ok, c)"
    by fastforce
  have "config_validate (dv_config d)" using assms by (simp add: board_inv_def)
  from config_setters_keep_valid [OF this] have "config_validate c" using c by (metis snd_conv)
  then have "board_inv (d\<lparr>dv_config := c\<rparr>)" using assms by (rule config_inv [rotated])
  then show "board_inv (handle_sync_borders_msg data d)" using s inv1 assms c
    by (cases b; cases ok) (auto simp: handle_sync_borders_msg_def Let_def intro: inv_route simp: route_simps)
qed

lemma wipe_inv: "board_inv d \<Longrightarrow> config_validate (env_loaded_config e) \<Longrightarrow> board_inv (wipe_and_load e d)"
  by (rule inv_route [OF config_inv [of d "env_loaded_config e"]]) (simp_all add: wipe_and_load_def route_def log_call_def)

lemma hotkey_inv:
  assumes "board_inv d" "config_validate (env_loaded_config e)"
  shows "board_inv (run_hotkey e a d)"
proof (cases a)
  case Wipe_config_hotkey
  then show ?thesis using inv_route [OF wipe_inv [OF assms]] by (simp add: wipe_config_hotkey_handler_def route_simps)
qed (use assms in \<open>auto intro: toggle_inv screensaver_inv border_handlers_inv inv_route simp: route_simps
    enable_screensaver_pong_hotkey_handler_def enable_screensaver_jitter_hotkey_handler_def disable_screensaver_hotkey_handler_def Let_def\<close>)

lemma keyboard_report_inv:
  assumes inv: "board_inv d" and ok: "config_validate (env_loaded_config e)"
  shows "board_inv (process_keyboard_report e raw idx iface d)"
proof -
  have hk: "board_inv (kbd_hotkey e idx rep x)" if "route x = route d" for rep x
  proof -
    have run: "board_inv (run_hotkey e a y)" if "route y = route d" for a y
      using hotkey_inv [OF inv_route [OF inv that] ok] .
    have sent: "board_inv (send_key (run_hotkey e a y))" if "route y = route d" for a y
      by (rule inv_route [OF run [OF that]]) (simp add: route_simps)
    have plain: "board_inv (send_key x)" by (rule inv_route [OF inv]) (simp add: that route_simps)
    show ?thesis using that plain
      by (auto simp: kbd_hotkey_def Let_def route_simps split: option.splits intro!: run sent)
  qed
  have clip: "kbd_clipboard e raw iface rep x = (b, y) \<Longrightarrow> route y = route x" for rep x b y
    by (auto simp: kbd_clipboard_def route_simps split: if_splits)
  have chord: "kbd_reboot_chord e idx rep x = (r, y) \<Longrightarrow> route y = route x" for rep x r y
    by (auto simp: kbd_reboot_chord_def route_simps split: prod.splits)
  show ?thesis
    unfolding process_keyboard_report_def Let_def
    by (auto split: prod.splits intro!: inv_route [OF inv] hk simp: route_simps reboot_hotkey_handler_def dest!: clip chord)
qed

lemma screen_switch_inv: "board_inv d \<Longrightarrow> board_inv (do_screen_switch e dir d)"
proof (cases "may_hop dir d")
  case True
  assume inv: "board_inv d"
  note two = active_le_1 [OF inv, folded two_le_1]
  have dir: "dir = LEFT \<or> dir = RIGHT" using True by (auto simp: may_hop_def Let_def)
  let ?b = "1 - dv_active_output d"
  have "?b \<le> 1" using hop_target(1) [OF two] by (simp add: two_le_1)
  then have "sel_wf (selection_request (dv_selection d) ?b (dv_board_role d))"
    using inv by (intro selection_request_wf) (simp_all add: board_inv_def)
  then show ?thesis
    unfolding do_screen_switch_hops [OF True] route_inv [OF core_route [OF switch_to_another_pc_core [OF two hop_target(1) [OF two] dir]]]
    using inv by (simp add: board_inv_def) (simp add: selection_request_def)
next
  case False
  assume inv: "board_inv d"
  have desk: "board_inv (switch_virtual_desktop i out n dir d)" for i out n
  proof -
    have c: "board_inv (d\<lparr>dv_config := config_set_screen_index (dv_config d) (unat i) n\<rparr>)" (is "board_inv ?c")
      using config_setters_keep_valid [OF inv_config [OF inv]] by (intro config_inv inv) blast
    have "route (switch_virtual_desktop i out n dir d) = route d \<or> route (switch_virtual_desktop i out n dir d) = route ?c"
      using core_route [OF core_desktop_macos, of dir ?c]
      by (auto simp: switch_virtual_desktop_def Let_def route_simps) (simp_all add: route_def)
    then show ?thesis using c inv inv_route by blast
  qed
  show ?thesis using False inv desk by (auto simp: do_screen_switch_def may_hop_def Let_def not_le)
qed

lemma update_position_inv: "board_inv d \<Longrightarrow> update_mouse_position e v d = (dir, d') \<Longrightarrow> board_inv d'"
  by (auto simp: update_mouse_position_def Let_def board_inv_def combined_mouse_buttons_def split: if_splits)

lemma mouse_route_inv: "board_inv d \<Longrightarrow> mouse_route e v dev itf d = (dir, d') \<Longrightarrow> board_inv d'"
proof -
  assume inv: "board_inv d" and r: "mouse_route e v dev itf d = (dir, d')"
  let ?b = "word_of_int (mv_buttons v)"
  define d1 where "d1 = mouse_take_buttons dev itf ?b d"
  have "route d1 = route (refresh_local_mouse_buttons ?b (set_iface dev itf ((get_iface dev itf d)\<lparr>if_mouse_buttons := ?b\<rparr>) d))"
    by (simp add: d1_def mouse_take_buttons_def Let_def route_simps)
  moreover have "board_inv (refresh_local_mouse_buttons ?b (set_iface dev itf ((get_iface dev itf d)\<lparr>if_mouse_buttons := ?b\<rparr>) d))"
    by (intro refresh_inv inv_route [OF inv]) (simp add: route_simps)
  ultimately have inv1: "board_inv d1" using inv_route by blast
  have emit: "route (mouse_emit w z p x) = route x" for w z p x using core_route [OF core_route_setters(2)] by blast
  have step: "board_inv x" if "update_mouse_position e w (mouse_note_zoom e wh z (record_local_activity e (dv_active_output d1) d1)) = (dr, x)" for w wh z dr x
    by (rule update_position_inv [OF inv_route [OF inv1] that]) (simp add: route_simps)
  show ?thesis using r unfolding mouse_route_def Let_def d1_def [symmetric]
    by (auto split: prod.splits if_splits dest!: step intro: inv_route simp: route_simps emit)
qed

lemma mouse_report_inv: "board_inv d \<Longrightarrow> board_inv (process_mouse_report e raw dev itf d)"
proof -
  assume inv: "board_inv d"
  have r: "board_inv y" if "mouse_route e v dev itf (log_call c d) = (dir, y)" for v c dir y
    by (rule mouse_route_inv [OF inv_route [OF inv] that]) (simp add: route_simps)
  show ?thesis using inv unfolding process_mouse_report_def Let_def
    by (auto split: prod.splits dest!: r intro!: screen_switch_inv intro: inv_route simp: route_simps)
qed

lemma api_inv:
  assumes inv: "board_inv d"
  shows "board_inv (handle_api_msgs e t data d)"
proof -
  obtain ok c where c: "config_set_value (dv_config d) (unat (data ! 0)) (drop 1 data) = (ok, c)" by fastforce
  have "config_validate c" using config_setters_keep_valid [OF inv_config [OF inv]] c by (metis snd_conv)
  then have "board_inv (d\<lparr>dv_config := c\<rparr>)" using inv by (rule config_inv [rotated])
  then have set: "board_inv (reset_config_timer e (d\<lparr>dv_config := c\<rparr>))" by (rule inv_route) (simp add: route_simps)
  have get: "board_inv (reset_config_timer e (queue_cfg_packet p d))" "board_inv (reset_config_timer e d)" for p
    by (rule inv_route [OF inv], simp add: route_simps)+
  show ?thesis using inv set get c
    by (cases "get_field_map_entry (unat (data ! 0))"; cases ok) (simp_all add: handle_api_msgs_def)
qed

lemma api_all_inv: "board_inv d \<Longrightarrow> board_inv (handle_api_read_all_msg e d)"
proof -
  assume "board_inv d"
  then have "board_inv (foldl (\<lambda>d i. handle_api_msgs e GET_VAL_MSG (f i) d) d is)" for f "is"
    by (induction "is" arbitrary: d) (simp_all add: api_inv)
  then show ?thesis by (simp add: handle_api_read_all_msg_def)
qed

lemma handler_inv:
  assumes inv: "board_inv d" and ok: "length (pkt_data p) = 8" "config_validate (env_loaded_config e)"
  shows "board_inv (run_handler e h p d)"
proof -
  have keep: "board_inv (f d)" if "route (f d) = route d" for f using inv_route [OF inv that] .
  show ?thesis
    by (cases h)
       (auto simp: run_handler_def route_simps handle_mouse_abs_uart_msg_def handle_mouse_source_uart_msg_def
          handle_mouse_synthetic_uart_msg_def handle_screensaver_msg_def inv Let_def
          intro: mouse_messages_inv [OF inv] border_handlers_inv [OF inv] wipe_inv [OF inv ok(2)] api_inv [OF inv]
            api_all_inv [OF inv] receive_selection_inv [OF inv ok(1)] screensaver_mode_inv [OF inv] inv_route [OF inv])
qed

lemma packet_inv:
  assumes "board_inv d" "length (pkt_data p) = 8" "config_validate (env_loaded_config e)"
  shows "board_inv (board_packet e p d)"
  using assms handler_inv [OF assms]
  by (auto simp: board_packet_def route_simps split: dispatch.splits intro: inv_route)

lemma set_report_inv:
  assumes inv: "board_inv d" and ok: "config_validate (env_loaded_config e)"
  shows "board_inv (tud_hid_set_report_cb e i rid out buf d)"
proof -
  have pkt: "board_inv (board_packet e (p\<lparr>pkt_checksum := c\<rparr>) d)" if "read_config_packet buf = Some p" for p c
    using packet_inv [OF inv _ ok, of "p\<lparr>pkt_checksum := c\<rparr>"] that
    by (auto simp: read_config_packet_def split: if_splits)
  have "board_inv (config_report e out buf d)"
    using inv pkt by (auto simp: config_report_def Let_def split: option.splits intro: inv_route simp: route_simps)
  moreover have "route (send_value (buf ! 0) 6 (if b then restore_leds e x else x)) = route x" for b x
    by (simp add: route_simps)
  ultimately show ?thesis using inv
    by (auto simp: tud_hid_set_report_cb_def Let_def intro!: inv_route [OF inv] simp: route_simps)
qed

lemma received_inv:
  assumes inv: "board_inv d" and ok: "config_validate (env_loaded_config e)"
  shows "board_inv (tuh_hid_report_received_cb e proto addr i raw d)"
proof -
  have "board_inv (receive_report e r raw idx dev itf d)" for r idx dev itf
    using inv mouse_report_inv [OF inv] keyboard_report_inv [OF inv ok]
    by (cases r) (auto simp: receive_report_def route_simps intro: inv_route [OF inv])
  then have "board_inv (log_call c (receive_report e r raw idx dev itf d))" for c r idx dev itf
    by (rule inv_route) (simp add: route_simps)
  then show ?thesis using inv by (auto simp: tuh_hid_report_received_cb_def Let_def route_simps intro: inv_route [OF inv])
qed

lemma mount_inv: "board_inv d \<Longrightarrow> board_inv (tuh_hid_mount_cb e itf proto addr i desc d)"
proof (rule inv_route)
  have "route (mount_protocol itf proto addr i x) = route x" for x by (simp add: mount_protocol_def Let_def route_simps)
  then show "route (tuh_hid_mount_cb e itf proto addr i desc d) = route d"
    by (simp add: tuh_hid_mount_cb_def Let_def route_simps)
qed

lemma unmount_inv: "board_inv d \<Longrightarrow> board_inv (tuh_hid_umount_cb e itf addr i d)"
proof -
  assume inv: "board_inv d"
  have kbd: "route (keyboard_removed a b c x) = route x" for a b c x by (simp add: keyboard_removed_def Let_def route_simps)
  have mse: "board_inv (mouse_interface_removed e dev f x)" if "route x = route d" for dev f x
    using mouse_removed_inv [OF inv_route [OF inv that]] .
  have tail: "board_inv (set_iface dev f z (if k then keyboard_removed a b c x else x))" if "board_inv x" for dev f z k a b c x
    using that by (rule inv_route) (simp add: route_simps kbd)
  have con: "board_inv (x\<lparr>dv_mouse_connected := b\<rparr>)" if "board_inv x" for x b using that by (rule inv_route) (simp add: route_simps)
  have rm: "board_inv (if m then mouse_interface_removed e dev f x else x)" if "route x = route d" for m dev f x
    using mse [OF that] inv_route [OF inv that] by simp
  define K M where "K \<longleftrightarrow> itf = 1 \<or> if_num_keyboards (get_iface (unat addr - 1) (unat i) d) > 0"
    and "M \<longleftrightarrow> itf = 2 \<or> ms_is_found (if_mouse (get_iface (unat addr - 1) (unat i) d))"
  define d1 where "d1 = log_call (Diagnostic_history_record HISTORY_HID_UNMOUNT (unat addr) (unat i) (kind_bits itf K M))
    (if K \<or> M then log_call Clipboard_physical_disconnect d else d)"
  define d2 where "d2 = (if M then mouse_interface_removed e (unat addr - 1) (unat i) d1 else d1)"
  define d3 where "d3 = set_iface (unat addr - 1) (unat i) zero_interface (if K then keyboard_removed addr i itf d2 else d2)"
  have "board_inv d2" unfolding d2_def by (rule rm) (simp add: d1_def route_simps)
  then have inv3: "board_inv d3" unfolding d3_def by (rule tail)
  have "tuh_hid_umount_cb e itf addr i d = (if addr = 0 \<or> addr > 4 \<or> i \<ge> 12 then d
    else if M then d3\<lparr>dv_mouse_connected := list_ex (\<lambda>i. ms_is_found (if_mouse i)) (concat (dv_iface d3))\<rparr> else d3)"
    unfolding tuh_hid_umount_cb_def Let_def d3_def d2_def d1_def K_def M_def ..
  then show ?thesis using inv inv3 con by simp
qed

lemma usb_inv:
  assumes "board_inv d"
  shows "board_inv (snd (process_kbd_queue_task a b d))" "board_inv (snd (process_mouse_queue_task r b d))"
    "board_inv (snd (process_hid_queue_task r b d))" "board_inv (snd (process_config_bootloader_request x y d))"
proof -
  show "board_inv (snd (process_kbd_queue_task a b d))"
    by (rule inv_route [OF assms])
       (auto simp: process_kbd_queue_task_def route_simps split: option.splits prod.splits bool.splits)
  show "board_inv (snd (process_mouse_queue_task r b d))" "board_inv (snd (process_hid_queue_task r b d))"
    by (rule inv_route [OF assms], auto simp: process_mouse_queue_task_def process_hid_queue_task_def route_simps split: option.splits)+
  obtain ok d1 where q: "queue_packet_dev [] 4 d = (ok, d1)" by fastforce
  show "board_inv (snd (process_config_bootloader_request x y d))"
  proof (rule inv_route [OF assms])
    show "route (snd (process_config_bootloader_request x y d)) = route d"
      using q route_queue_packet_dev [OF q]
      by (cases ok) (simp_all add: process_config_bootloader_request_def Let_def route_simps)
  qed
qed

interpretation board_machine: machine board_step board_inv board_admissible
proof unfold_locales
  fix s i o' s'
  assume inv: "board_inv s" and ok: "board_admissible i" and step: "board_step s i = (o', s')"
  show "board_inv s'"
    using step ok
    by (cases i)
       (auto simp: inv_route [OF inv] route_simps packet_inv [OF inv] received_inv [OF inv] mount_inv [OF inv]
          unmount_inv [OF inv] set_report_inv [OF inv] usb_inv [OF inv])
qed

subsection \<open>What happens to a keyboard's keys\<close>

named_theorems kbds_simps \<open>operations that leave the stored keyboards alone\<close>

lemma kbds_basic [kbds_simps]:
  "dv_local_kbd_states (log_call c d) = dv_local_kbd_states d"
  "dv_local_kbd_states (queue_kbd_report r d) = dv_local_kbd_states d"
  "dv_local_kbd_states (keyboard_host_reset d) = dv_local_kbd_states d"
  "dv_local_kbd_states (keyboard_sync_reset e d) = dv_local_kbd_states d"
  "dv_local_kbd_states (keyboard_sync_publish d) = dv_local_kbd_states d"
  "dv_local_kbd_states (keyboard_queue_current d) = dv_local_kbd_states d"
  "dv_local_kbd_states (queue_mouse_report m d) = dv_local_kbd_states d"
  "dv_local_kbd_states (restore_leds e d) = dv_local_kbd_states d" "dv_local_kbd_states (blink_led e d) = dv_local_kbd_states d"
  "dv_local_kbd_states (record_local_activity e out d) = dv_local_kbd_states d"
  "dv_local_kbd_states (set_tracker out t d) = dv_local_kbd_states d"
  by (simp_all add: log_call_def queue_kbd_report_def keyboard_host_reset_def keyboard_sync_reset_def keyboard_sync_publish_def
      keyboard_queue_current_def queue_mouse_report_def restore_leds_def set_keyboard_leds_def blink_led_def
      record_local_activity_def set_tracker_def Let_def split: prod.splits bool.splits)

lemma kbds_packets [kbds_simps]:
  "dv_local_kbd_states (queue_packet data t d) = dv_local_kbd_states d"
  "dv_local_kbd_states (snd (queue_packet_dev data t d)) = dv_local_kbd_states d"
  "dv_local_kbd_states (make_room d) = dv_local_kbd_states d"
proof -
  obtain q c where "queue_packet data t d = d\<lparr>dv_uart_tx_queue := q, dv_calls := c\<rparr>" using queue_packet_frame by blast
  then show "dv_local_kbd_states (queue_packet data t d) = dv_local_kbd_states d" by simp
  obtain q' where "snd (queue_packet_dev data t d) = d\<lparr>dv_uart_tx_queue := q'\<rparr>"
    using queue_packet_dev_frame [OF surjective_pairing] by blast
  then show "dv_local_kbd_states (snd (queue_packet_dev data t d)) = dv_local_kbd_states d" by simp
  show "dv_local_kbd_states (make_room d) = dv_local_kbd_states d"
    by (auto simp: make_room_def log_call_def split: prod.splits option.splits)
qed

lemma kbds_more [kbds_simps]:
  "dv_local_kbd_states (send_value v t d) = dv_local_kbd_states d"
  "dv_local_kbd_states (queue_packet_blocking data t d) = dv_local_kbd_states d"
  "dv_local_kbd_states (publish_local_modifiers d) = dv_local_kbd_states d"
  "dv_local_kbd_states (send_key d) = dv_local_kbd_states d"
  "dv_local_kbd_states (send_zoom_assist_state out d) = dv_local_kbd_states d"
  "dv_local_kbd_states (release_all_keys d) = replicate 4 zero_kbd_report"
  "dv_local_kbd_states (keyboard_focus_changed e d) = replicate 4 zero_kbd_report"
  by (simp_all add: send_value_def queue_packet_blocking_def publish_local_modifiers_def send_key_def send_zoom_assist_state_def
      release_all_keys_def keyboard_focus_changed_def Let_def kbds_simps)

lemma kbds_critical: "dv_local_kbd_states (snd (queue_mouse_report_critical e r d)) = dv_local_kbd_states d"
  by (auto simp: queue_mouse_report_critical_def log_call_def split: prod.splits bool.splits option.splits)

lemma kbds_release [kbds_simps]: "dv_local_kbd_states (release_mouse_host_buttons e d) = dv_local_kbd_states d"
  by (auto simp: release_mouse_host_buttons_def split: prod.splits bool.splits) (metis kbds_critical snd_conv)+

lemma border_kbds: "set_border_position out d = (b, d') \<Longrightarrow> dv_local_kbd_states d' = dv_local_kbd_states d"
  by (auto simp: set_border_position_def Let_def split: prod.splits bool.splits)

text \<open>A hotkey action leaves the stored keyboards alone or releases them all.\<close>

lemma hotkey_kbds:
  "dv_local_kbd_states (run_hotkey e a d) = dv_local_kbd_states d \<or> dv_local_kbd_states (run_hotkey e a d) = replicate 4 zero_kbd_report"
proof (cases a)
  case Screenlock
  have lock: "dv_local_kbd_states (snd (lock_output c (r, x) i)) = dv_local_kbd_states x
    \<or> dv_local_kbd_states (snd (lock_output c (r, x) i)) = replicate 4 zero_kbd_report" for c r x i
    by (simp add: lock_output_def Let_def kbds_simps)
  show ?thesis using lock [of "dv_config d" zero_kbd_report d 0]
      lock [of "dv_config d" "fst (lock_output (dv_config d) (zero_kbd_report, d) 0)" "snd (lock_output (dv_config d) (zero_kbd_report, d) 0)" 1]
    by (auto simp: Screenlock screenlock_hotkey_handler_def)
next
  case Screen_border
  then show ?thesis
    by (auto simp: screen_border_hotkey_handler_def Let_def kbds_simps split: prod.splits option.splits dest: border_kbds)
qed (auto simp: output_toggle_hotkey_handler_def set_active_output_def mouse_zoom_hotkey_handler_def switchlock_hotkey_handler_def
    toggle_gaming_mode_handler_def clear_zoom_assist_hotkey_handler_def clear_zoom_assist_def wipe_config_hotkey_handler_def
    wipe_and_load_def config_enable_hotkey_handler_def fw_upgrade_hotkey_handler_A_def fw_upgrade_hotkey_handler_B_def
    enable_screensaver_pong_hotkey_handler_def enable_screensaver_jitter_hotkey_handler_def disable_screensaver_hotkey_handler_def
    screensaver_set_def Let_def kbds_simps)

text \<open>Reports that the board keeps to itself: the clipboard or the recogniser of the reboot chord swallows
  them, or they complete a hotkey that is not passed on.\<close>

definition kept_from_host :: "env \<Rightarrow> bytes \<Rightarrow> nat \<Rightarrow> hid_interface \<Rightarrow> hid_keyboard_report \<Rightarrow> device \<Rightarrow> bool" where
  "kept_from_host e raw idx iface rep d \<longleftrightarrow>
     clipboard_keyboard_snapshot_complete raw iface \<and> env_clipboard_swallow e
     \<or> fst (kbd_reboot_chord e idx rep d) \<in> {REBOOT_HOTKEY_SWALLOW, REBOOT_HOTKEY_TRIGGER}
     \<or> (\<exists>hk. check_all_hotkeys rep = Some hk \<and> \<not> hk_pass_to_os hk)"

lemma only_zoom_passes:
  assumes "check_all_hotkeys rep = Some hk" "hk_pass_to_os hk"
  shows "hk_action hk = Mouse_zoom"
proof -
  have "hk \<in> set hotkeys" using assms(1) by (auto simp: check_all_hotkeys_def find_Some_iff)
  then show ?thesis using assms(2) by (auto simp: hotkeys_def)
qed

lemma kbd_clipboard_cases:
  "kbd_clipboard e raw iface rep d = (s, d') \<Longrightarrow> s = (clipboard_keyboard_snapshot_complete raw iface \<and> env_clipboard_swallow e)
     \<and> dv_local_kbd_states d' = dv_local_kbd_states d \<and> fst (kbd_reboot_chord e idx rep d') = fst (kbd_reboot_chord e idx rep d)"
  by (auto simp: kbd_clipboard_def kbd_reboot_chord_def log_call_def split: if_splits prod.splits)

lemma kbd_chord_kbds: "kbd_reboot_chord e idx rep d = (r, d') \<Longrightarrow> dv_local_kbd_states d' = dv_local_kbd_states d"
  by (auto simp: kbd_reboot_chord_def split: prod.splits)

definition slots_after :: "nat \<Rightarrow> hid_keyboard_report \<Rightarrow> device \<Rightarrow> device \<Rightarrow> bool" where
  "slots_after idx r d d' \<longleftrightarrow> dv_local_kbd_states d' ! idx = r
     \<and> (\<forall>j<4. j \<noteq> idx \<longrightarrow> dv_local_kbd_states d' ! j \<in> {dv_local_kbd_states d ! j, zero_kbd_report})"

lemma slots_stored:
  "idx < 4 \<Longrightarrow> length (dv_local_kbd_states d) = 4 \<Longrightarrow> dv_local_kbd_states d' = (dv_local_kbd_states d)[idx := r] \<Longrightarrow> slots_after idx r d d'"
  by (simp add: slots_after_def)

lemma slots_cleared: "idx < 4 \<Longrightarrow> dv_local_kbd_states d' = replicate 4 zero_kbd_report \<Longrightarrow> slots_after idx zero_kbd_report d d'"
  by (simp add: slots_after_def)

lemma kbd_hotkey_slots:
  assumes "idx < 4" "length (dv_local_kbd_states d) = 4" "dv_local_kbd_states x = (dv_local_kbd_states d)[idx := rep]"
  shows "slots_after idx (if \<exists>hk. check_all_hotkeys rep = Some hk \<and> \<not> hk_pass_to_os hk then zero_kbd_report else rep) d
    (kbd_hotkey e idx rep x)"
proof (cases "check_all_hotkeys rep")
  case None
  then show ?thesis using assms by (auto simp: kbd_hotkey_def kbds_simps intro!: slots_stored)
next
  case (Some hk)
  show ?thesis
  proof (cases "hk_pass_to_os hk")
    case True
    then have "hk_action hk = Mouse_zoom" using only_zoom_passes Some by blast
    then show ?thesis using True Some assms
      by (auto simp: kbd_hotkey_def Let_def kbds_simps mouse_zoom_hotkey_handler_def intro!: slots_stored)
  next
    case False
    define y where "y = send_key (publish_local_modifiers (update_kbd_state zero_kbd_report idx (if hk_acknowledge hk then blink_led e x else x)))"
    have y: "dv_local_kbd_states y = (dv_local_kbd_states d)[idx := zero_kbd_report]"
      using assms by (simp add: y_def kbds_simps update_kbd_state_def)
    have "kbd_hotkey e idx rep x = run_hotkey e (hk_action hk) y" using Some False by (simp add: kbd_hotkey_def Let_def y_def)
    then show ?thesis using hotkey_kbds [of e "hk_action hk" y] y assms(1,2) Some False slots_stored slots_cleared by auto
  qed
qed

lemma keyboard_report_slots:
  assumes "idx < 4" "8 \<le> length raw" "\<not> dv_reboot_requested d" "extract_kbd_data raw iface = (n, rep)" "0 \<le> n"
    "length (dv_local_kbd_states d) = 4"
  shows "slots_after idx (if kept_from_host e raw idx iface rep d then zero_kbd_report else rep) d
    (process_keyboard_report e raw idx iface d)"
proof -
  obtain s d1 where c: "kbd_clipboard e raw iface rep d = (s, d1)" by fastforce
  obtain res d2 where r: "kbd_reboot_chord e idx rep d1 = (res, d2)" by fastforce
  have s: "s = (clipboard_keyboard_snapshot_complete raw iface \<and> env_clipboard_swallow e)"
    and k1: "dv_local_kbd_states d1 = dv_local_kbd_states d" and res: "res = fst (kbd_reboot_chord e idx rep d)"
    using kbd_clipboard_cases [OF c, of idx] r by auto
  have k2: "dv_local_kbd_states d2 = dv_local_kbd_states d" using kbd_chord_kbds [OF r] k1 by simp
  define stored where "stored = (if s \<or> res = REBOOT_HOTKEY_SWALLOW \<or> res = REBOOT_HOTKEY_TRIGGER then zero_kbd_report else rep)"
  define d3 where "d3 = record_local_activity e (dv_active_output d2) (publish_local_modifiers (update_kbd_state stored idx d2))"
  have k3: "dv_local_kbd_states d3 = (dv_local_kbd_states d)[idx := stored]"
    using assms(1) k2 by (simp add: d3_def kbds_simps update_kbd_state_def)
  have p: "process_keyboard_report e raw idx iface d =
    (if s \<or> res = REBOOT_HOTKEY_SWALLOW then send_key d3
     else if res = REBOOT_HOTKEY_TRIGGER then reboot_hotkey_handler e (blink_led e d3)
     else kbd_hotkey e idx rep (if res = REBOOT_HOTKEY_TAP then blink_led e d3 else d3))"
    unfolding process_keyboard_report_def assms(4) split_conv c r Let_def stored_def [symmetric] d3_def [symmetric]
    using assms(1-3,5) by simp
  have kept: "kept_from_host e raw idx iface rep d \<longleftrightarrow> s \<or> res = REBOOT_HOTKEY_SWALLOW \<or> res = REBOOT_HOTKEY_TRIGGER
    \<or> (\<exists>hk. check_all_hotkeys rep = Some hk \<and> \<not> hk_pass_to_os hk)"
    by (auto simp: kept_from_host_def s res)
  consider "s \<or> res = REBOOT_HOTKEY_SWALLOW" | "\<not> s" "res = REBOOT_HOTKEY_TRIGGER"
    | "\<not> s" "res \<noteq> REBOOT_HOTKEY_SWALLOW" "res \<noteq> REBOOT_HOTKEY_TRIGGER" by blast
  then show ?thesis
  proof cases
    case 1
    then show ?thesis using k3 assms(1,6) kept by (auto simp: p kbds_simps stored_def intro!: slots_stored)
  next
    case 2
    then have st: "stored = zero_kbd_report" by (simp add: stored_def)
    have "dv_local_kbd_states (reboot_hotkey_handler e (blink_led e d3)) \<in> {dv_local_kbd_states d3, replicate 4 zero_kbd_report}"
      by (simp add: reboot_hotkey_handler_def request_graceful_reboot_def Let_def kbds_simps)
    then show ?thesis using 2 k3 st assms(1,6) kept slots_stored slots_cleared by (auto simp: p)
  next
    case 3
    then have st: "stored = rep" by (simp add: stored_def)
    have "dv_local_kbd_states (if res = REBOOT_HOTKEY_TAP then blink_led e d3 else d3) = (dv_local_kbd_states d)[idx := rep]"
      using k3 st by (simp add: kbds_simps)
    from kbd_hotkey_slots [OF assms(1,6) this, of e] show ?thesis using 3 kept by (simp add: p)
  qed
qed

subsection \<open>The screensaver\<close>

definition pong_ok :: "screensaver_state \<Rightarrow> bool" where
  "pong_ok v \<longleftrightarrow> on_screen (mr_x (sv_pong v)) \<and> on_screen (mr_y (sv_pong v)) \<and> \<bar>sv_dx v\<bar> = 20 \<and> \<bar>sv_dy v\<bar> = 25"

lemma bounce:
  assumes "on_screen p" "0 < k" "k \<le> 16383" "\<bar>s\<bar> = k"
  defines "s' \<equiv> (if p + s < 0 \<or> p + s > 32767 then - s else s)"
  shows "on_screen (p + s')" "\<bar>s'\<bar> = k"
  using assms by (auto simp: on_screen_def abs_if split: if_splits)

lemma pong_step:
  assumes "pong_ok v"
  shows "pong_ok (snd (screensaver_pong v))"
    "\<bar>mr_x (sv_pong (snd (screensaver_pong v))) - mr_x (sv_pong v)\<bar> = 20"
    "\<bar>mr_y (sv_pong (snd (screensaver_pong v))) - mr_y (sv_pong v)\<bar> = 25"
proof -
  define dx where "dx = (if mr_x (sv_pong v) + sv_dx v < 0 \<or> mr_x (sv_pong v) + sv_dx v > 32767 then - sv_dx v else sv_dx v)"
  define dy where "dy = (if mr_y (sv_pong v) + sv_dy v < 0 \<or> mr_y (sv_pong v) + sv_dy v > 32767 then - sv_dy v else sv_dy v)"
  have x: "on_screen (mr_x (sv_pong v) + dx)" "\<bar>dx\<bar> = 20" using bounce [of "mr_x (sv_pong v)" 20 "sv_dx v"] assms by (simp_all add: pong_ok_def dx_def)
  have y: "on_screen (mr_y (sv_pong v) + dy)" "\<bar>dy\<bar> = 25" using bounce [of "mr_y (sv_pong v)" 25 "sv_dy v"] assms by (simp_all add: pong_ok_def dy_def)
  have "snd (screensaver_pong v) = v\<lparr>sv_pong := (sv_pong v)\<lparr>mr_x := mr_x (sv_pong v) + dx, mr_y := mr_y (sv_pong v) + dy\<rparr>, sv_dx := dx, sv_dy := dy\<rparr>"
    unfolding screensaver_pong_def Let_def dx_def [symmetric] dy_def [symmetric] to_int16_on_screen [OF x(1)] to_int16_on_screen [OF y(1)]
    by simp
  then show "pong_ok (snd (screensaver_pong v))"
    "\<bar>mr_x (sv_pong (snd (screensaver_pong v))) - mr_x (sv_pong v)\<bar> = 20"
    "\<bar>mr_y (sv_pong (snd (screensaver_pong v))) - mr_y (sv_pong v)\<bar> = 25"
    using x y by (simp_all add: pong_ok_def)
qed

lemma pong_run: "pong_ok (((\<lambda>v. snd (screensaver_pong v)) ^^ n) screensaver_boot)"
proof (induction n)
  case 0
  show ?case by (simp add: pong_ok_def screensaver_boot_def on_screen_def)
next
  case (Suc n)
  then show ?case by (simp add: pong_step(1))
qed

lemma jitter_twice: "\<bar>mr_y (sv_jitter v)\<bar> = 2 \<Longrightarrow> mr_y (fst (screensaver_jitter v)) + mr_y (fst (screensaver_jitter (snd (screensaver_jitter v)))) = 0"
  by (auto simp: screensaver_jitter_def to_int16_def signed_take_bit_int_eq_self Let_def)

subsection \<open>Properties\<close>



text \<open>
  C9. Consumed shortcuts never reach a computer. When a keyboard report decodes, the state the board keeps for
  that keyboard, from which every later report to either computer is combined, is the report itself, except
  that it is all-up if the clipboard or the reboot chord swallowed the report or it completed a hotkey that is
  not passed on; and no other keyboard's state changes except to be released.
\<close>

theorem keyboard_chords_hidden:
  fixes e :: env
  assumes "idx < 4" "8 \<le> length raw" "\<not> dv_reboot_requested d" "extract_kbd_data raw iface = (n, rep)" "0 \<le> n"
    "length (dv_local_kbd_states d) = 4"
  defines "d' \<equiv> process_keyboard_report e raw idx iface d"
  shows "dv_local_kbd_states d' ! idx = (if kept_from_host e raw idx iface rep d then zero_kbd_report else rep)
    \<and> (\<forall>j<4. j \<noteq> idx \<longrightarrow> dv_local_kbd_states d' ! j \<in> {dv_local_kbd_states d ! j, zero_kbd_report})"
  using keyboard_report_slots [OF assms(1-6), of e] by (simp add: slots_after_def d'_def)

text \<open>Left Control and Caps Lock on a boot keyboard: the shortcut that switches outputs.\<close>

theorem keyboard_chords_hidden_witness:
  "dv_local_kbd_states (process_keyboard_report (sample_env 3) [1, 0, 0x39, 0, 0, 0, 0, 0] 0 zero_interface (device_boot 0)) ! 0
   = zero_kbd_report"
proof -
  let ?raw = "[1, 0, 0x39, 0, 0, 0, 0, 0] :: bytes"
  let ?rep = "\<lparr>kr_modifier = 1, kr_reserved = 0, kr_keycode = [0x39, 0, 0, 0, 0, 0]\<rparr>"
  have x: "extract_kbd_data ?raw zero_interface = (8, ?rep)"
    by (simp add: extract_kbd_data_def extract_kbd_boot_def zero_interface_def slice_def)
  have "check_all_hotkeys ?rep = Some (hotkeys ! 1)"
    by (simp add: check_all_hotkeys_def hotkeys_def check_specific_hotkey_def key_in_report_def upt_conv_Cons)
  moreover have "\<not> hk_pass_to_os (hotkeys ! 1)" by (simp add: hotkeys_def)
  ultimately have "kept_from_host (sample_env 3) ?raw 0 zero_interface ?rep (device_boot 0)" by (auto simp: kept_from_host_def)
  then show ?thesis
    using keyboard_chords_hidden [OF _ _ _ x, of 0 "device_boot 0" "sample_env 3"] by (simp add: device_boot_def)
qed

text \<open>
  C40. The screensaver keeps the cursor on the screen: however long the pong runs, each report lies within the
  screen and is one step of 20 and 25 units from the one before.
\<close>

theorem screensaver_pong_bounds:
  fixes n :: nat
  defines "v \<equiv> ((\<lambda>v. snd (screensaver_pong v)) ^^ n) screensaver_boot"
  shows "on_screen (mr_x (fst (screensaver_pong v))) \<and> on_screen (mr_y (fst (screensaver_pong v)))
    \<and> \<bar>mr_x (fst (screensaver_pong v)) - mr_x (sv_pong v)\<bar> = 20 \<and> \<bar>mr_y (fst (screensaver_pong v)) - mr_y (sv_pong v)\<bar> = 25"
proof -
  have ok: "pong_ok v" unfolding v_def by (rule pong_run)
  have "fst (screensaver_pong v) = sv_pong (snd (screensaver_pong v))" by (simp add: screensaver_pong_def Let_def)
  then show ?thesis using pong_step [OF ok] by (simp add: pong_ok_def)
qed

end
