(* ===== verification/Peer_Link.thy ===== *)
theory Peer_Link
  imports Crc
begin

text \<open>
  What the three diagnostic protocols between the boards share (peer\_status.c, peer\_verify.c,
  peer\_history.c): little-endian fields of any width, the bitwise CRC over a snapshot, the token a legacy
  retry uses, and the collection of a reply that arrives in numbered chunks. The interface
  \<open>chunked_reply\<close> states what a client promises for single packets; its lemma \<open>delivered\<close> gives that a
  reply arrives whatever the order, repetition and foreign traffic.
\<close>

unbundle bit_operations_syntax

subsection \<open>Little-endian fields\<close>

definition read_le :: "bytes \<Rightarrow> nat \<Rightarrow> nat \<Rightarrow> u64" where
  "read_le p off n = foldl (\<lambda>value i. value OR push_bit (8 * i) (ucast (p ! (off + i)))) 0 [0..<n]"

definition write_le :: "u64 \<Rightarrow> nat \<Rightarrow> bytes" where
  "write_le value n = map (\<lambda>i. ucast (drop_bit (8 * i) value)) [0..<n]"

lemma length_write_le [simp]: "length (write_le v n) = n"
  by (simp add: write_le_def)

lemma nth_write_le: "i < n \<Longrightarrow> write_le v n ! i = ucast (drop_bit (8 * i) v)"
  by (simp add: write_le_def)

lemma bit_read_le:
  "bit (read_le p off n) k \<longleftrightarrow> k < 64 \<and> k div 8 < n \<and> bit (p ! (off + k div 8)) (k mod 8)"
proof (cases "k < 64")
  case True
  then show ?thesis
  proof (induction n)
    case (Suc n)
    have "bit (push_bit (8 * n) (ucast (p ! (off + n))) :: u64) k \<longleftrightarrow> k div 8 = n \<and> bit (p ! (off + n)) (k mod 8)"
    proof (cases "k div 8 = n")
      case True
      then have "k - 8 * n = k mod 8" "8 * n \<le> k" "k mod 8 < 64" by presburger+
      with True \<open>k < 64\<close> show ?thesis by (simp add: bit_push_bit_iff bit_ucast_iff)
    next
      case False
      then have "k < 8 * n \<or> 8 \<le> k - 8 * n" by presburger
      with False show ?thesis by (auto simp: bit_push_bit_iff bit_ucast_iff)
    qed
    with Suc show ?case by (auto simp: read_le_def bit_or_iff less_Suc_eq)
  qed (simp add: read_le_def)
qed (auto dest: bit_imp_le_length)

lemma read_le_skip [layout_simps]: "length xs \<le> k \<Longrightarrow> read_le (xs @ ys) k n = read_le ys (k - length xs) n"
  by (simp add: read_le_def nth_append)

lemma read_le_skip1 [layout_simps]: "0 < k \<Longrightarrow> read_le (x # ys) k n = read_le ys (k - 1) n"
  by (simp add: read_le_def nth_Cons')

lemma read_write_le [layout_simps]: "read_le (write_le v n @ ys) 0 n = take_bit (8 * n) v"
proof (rule bit_word_eqI)
  fix k
  assume "k < LENGTH(64)"
  then have k: "k < 64" by simp
  have "8 * (k div 8) + k mod 8 = k" by simp
  then show "bit (read_le (write_le v n @ ys) 0 n) k = bit (take_bit (8 * n) v) k"
    using k by (auto simp: bit_read_le nth_append nth_write_le bit_simps)
qed

lemma nth_skip [layout_simps]: "length xs \<le> k \<Longrightarrow> (xs @ ys) ! k = ys ! (k - length xs)"
  by (simp add: nth_append)

lemma nth_skip1 [layout_simps]: "0 < k \<Longrightarrow> (x # ys) ! k = ys ! (k - 1)"
  by (simp add: nth_Cons')

lemma slice_skip [layout_simps]: "length xs \<le> k \<Longrightarrow> slice (xs @ ys) k n = slice ys (k - length xs) n"
  by (simp add: slice_def)

lemma slice_skip1 [layout_simps]: "0 < k \<Longrightarrow> slice (x # ys) k n = slice ys (k - 1) n"
  by (cases k) (simp_all add: slice_def)

lemma slice_here: "length xs = n \<Longrightarrow> slice (xs @ ys) 0 n = xs"
  by (simp add: slice_def)

text \<open>A narrow field comes back from the 64-bit value that carries it.\<close>

lemma narrow_fields [layout_simps]:
  fixes a :: u16 and b :: u32 and c :: u64
  shows "ucast (take_bit 16 (ucast a :: u64)) = a" "ucast (take_bit 32 (ucast b :: u64)) = b" "take_bit 64 c = c"
  by (auto intro!: bit_word_eqI simp: bit_simps dest: bit_imp_le_length)

lemma narrow_wide [layout_simps]: "ucast (ucast (b :: u32) :: u64) = b"
  by (rule bit_word_eqI) (auto simp: bit_simps)

lemma wide_u32 [layout_simps]: "take_bit 32 (ucast (b :: u32) :: u64) = ucast b"
  by (rule bit_word_eqI) (use bit_imp_le_length [of b] in \<open>auto simp: bit_simps\<close>)

subsection \<open>Checksums and tokens\<close>

definition snapshot_crc :: "bytes \<Rightarrow> u32" where
  "snapshot_crc bytes = NOT (foldl page_crc_byte 0xffffffff bytes)"

definition fallback_token :: "u32 \<Rightarrow> u32" where
  "fallback_token token =
     (let rotated = (ucast token :: u64) + 0x80000000
      in ucast (if rotated > 0xffffffff then rotated - 0xffffffff else rotated))"

text \<open>A legacy retry never reuses the token of the query it replaces, and never the invalid token zero.\<close>

lemma fallback_token_fresh:
  assumes "token \<noteq> 0"
  shows "fallback_token token \<noteq> token" "fallback_token token \<noteq> 0" "fallback_token (fallback_token token) \<noteq> 0"
proof -
  have nat: "unat (fallback_token t) = (if unat t < 0x80000000 then unat t + 0x80000000 else unat t - 0x7fffffff)"
    for t :: u32
  proof -
    have t: "unat t < 2 ^ 32" by (rule unat_u32_less)
    have w: "unat ((ucast t :: u64) + 0x80000000) = unat t + 0x80000000"
      using t by (simp add: unat_word_ariths unsigned_ucast_eq take_bit_nat_eq_self)
    have "unat t < 0x80000000 \<longleftrightarrow> \<not> (ucast t :: u64) + 0x80000000 > 0xffffffff"
      by (auto simp: word_less_nat_alt w)
    moreover have "unat ((ucast t :: u64) + 0x80000000 - 0xffffffff) = unat t + 0x80000000 - 0xffffffff"
      if "\<not> unat t < 0x80000000"
      using that by (subst unat_sub) (simp_all add: word_le_nat_alt w)
    ultimately show ?thesis
      using t by (auto simp: fallback_token_def Let_def unsigned_ucast_eq take_bit_nat_eq_self w)
  qed
  show "fallback_token token \<noteq> token" "fallback_token token \<noteq> 0" "fallback_token (fallback_token token) \<noteq> 0"
    using nat [of token] nat [of "fallback_token token"] assms unat_u32_less [of token]
    by (auto simp: unat_eq_zero [symmetric] simp del: unat_eq_zero dest: arg_cong [of _ _ unat] split: if_splits)
qed

subsection \<open>Replies in chunks\<close>

text \<open>
  A client that collects a reply of \<open>total\<close> chunks of \<open>width\<close> bytes. \<open>collecting s S b\<close>: the client waits, has
  stored the chunks \<open>S\<close>, and its buffer is \<open>b\<close>; \<open>finished s b\<close>: it has all of them. \<open>own msg k i\<close>: input \<open>i\<close> is
  the arrival, in time, of chunk \<open>k\<close> of \<open>msg\<close> for this query; \<open>foreign i\<close>: it belongs to no query of this client.
\<close>

locale chunked_reply =
  fixes step :: "'s \<Rightarrow> 'i \<Rightarrow> 's"
    and collecting :: "'s \<Rightarrow> nat set \<Rightarrow> bytes \<Rightarrow> bool"
    and finished :: "'s \<Rightarrow> bytes \<Rightarrow> bool"
    and own :: "bytes \<Rightarrow> nat \<Rightarrow> 'i \<Rightarrow> bool"
    and foreign :: "'i \<Rightarrow> bool"
    and total :: nat
    and width :: nat
  assumes foreign_ignored: "collecting s S b \<Longrightarrow> foreign i \<Longrightarrow> collecting (step s i) S b"
    and repeated: "collecting s S b \<Longrightarrow> own msg k i \<Longrightarrow> k \<in> S
      \<Longrightarrow> slice b (width * k) width = slice msg (width * k) width \<Longrightarrow> collecting (step s i) S b"
    and stored: "collecting s S b \<Longrightarrow> own msg k i \<Longrightarrow> k < total \<Longrightarrow> k \<notin> S \<Longrightarrow> insert k S \<noteq> {..<total}
      \<Longrightarrow> collecting (step s i) (insert k S) (blit b (width * k) (slice msg (width * k) width))"
    and completed: "collecting s S b \<Longrightarrow> own msg k i \<Longrightarrow> k < total \<Longrightarrow> k \<notin> S \<Longrightarrow> insert k S = {..<total}
      \<Longrightarrow> finished (step s i) (blit b (width * k) (slice msg (width * k) width))"
    and own_unique: "own msg k i \<Longrightarrow> own msg k' i \<Longrightarrow> k = k'"
    and over: "finished s b \<Longrightarrow> own msg k i \<or> foreign i \<Longrightarrow> finished (step s i) b"
begin

definition tracks :: "bytes \<Rightarrow> nat set \<Rightarrow> bytes \<Rightarrow> bool" where
  "tracks msg S b \<longleftrightarrow> S \<subseteq> {..<total} \<and> width * total \<le> length b
     \<and> (\<forall>k\<in>S. slice b (width * k) width = slice msg (width * k) width)"

lemma tracks_blit:
  assumes t: "tracks msg S b" and k: "k < total" and len: "length msg = width * total"
  shows "tracks msg (insert k S) (blit b (width * k) (slice msg (width * k) width))"
proof -
  let ?d = "slice msg (width * k) width"
  have room: "width * j + width \<le> width * total" if "j < total" for j
    using that mult_le_mono2 [of "Suc j" total width] by simp
  have d: "length ?d = width" using room [OF k] len by simp
  have b: "width * total \<le> length b" using t by (simp add: tracks_def)
  have fit: "width * k + length ?d \<le> length b" using d room [OF k] b by simp
  have "slice (blit b (width * k) ?d) (width * j) width = slice msg (width * j) width" if j: "j \<in> insert k S" for j
  proof (cases "j = k")
    case True
    then show ?thesis using slice_blit(1) [OF fit] d fit by simp
  next
    case False
    then have js: "j \<in> S" "j < total" using j t by (auto simp: tracks_def)
    have "width * j + width \<le> width * k \<or> width * k + width \<le> width * j"
      using False mult_le_mono2 [of "Suc j" k width] mult_le_mono2 [of "Suc k" j width] by (cases "j < k") auto
    moreover have "width * j + width \<le> length b" using room [OF js(2)] b by simp
    ultimately show ?thesis using slice_blit(2) [OF fit] d t js by (auto simp: tracks_def)
  qed
  then show ?thesis using t k b fit by (simp add: tracks_def)
qed

lemma tracks_all:
  assumes t: "tracks msg {..<total} b" and len: "length msg = width * total" and w: "0 < width"
  shows "take (width * total) b = msg"
proof (rule nth_equalityI)
  fix i
  assume i: "i < length (take (width * total) b)"
  then have i: "i < width * total" by simp
  have k: "i div width < total" using i w by (simp add: div_less_iff_less_mult mult.commute)
  have s: "slice b (width * (i div width)) width = slice msg (width * (i div width)) width"
    using t k by (simp add: tracks_def)
  have room: "width * (i div width) + width \<le> width * total"
    using k mult_le_mono2 [of "Suc (i div width)" total width] by simp
  have m: "i mod width < width" "width * (i div width) + i mod width = i" using w by simp_all
  have "b ! i = slice b (width * (i div width)) width ! (i mod width)"
    using room t m by (subst nth_slice) (auto simp: tracks_def)
  also have "\<dots> = msg ! i" using room len m by (simp add: s nth_slice)
  finally show "take (width * total) b ! i = msg ! i" using i by simp
qed (use t len in \<open>simp add: tracks_def\<close>)

lemma drop_blit_msg:
  assumes "length msg = width * total" "width * total \<le> length b" "k < total"
  shows "drop (width * total) (blit b (width * k) (slice msg (width * k) width)) = drop (width * total) b"
proof -
  have "width * k + width \<le> width * total" using assms(3) mult_le_mono2 [of "Suc k" total width] by simp
  then show ?thesis using assms by (simp add: blit_def)
qed

lemma finished_run:
  "finished s b \<Longrightarrow> \<forall>i\<in>set is. (\<exists>k<total. own msg k i) \<or> foreign i \<Longrightarrow> finished (foldl step s is) b"
  by (induction "is" arbitrary: s) (auto intro: over)

lemma delivered_from:
  assumes "collecting s S b" "tracks msg S b" "S \<noteq> {..<total}"
    and "\<forall>i\<in>set is. (\<exists>k<total. own msg k i) \<or> foreign i"
    and "\<forall>k<total. k \<notin> S \<longrightarrow> (\<exists>i\<in>set is. own msg k i)"
    and len: "length msg = width * total" and w: "0 < width"
  shows "finished (foldl step s is) (msg @ drop (width * total) b)"
  using assms(1-5)
proof (induction "is" arbitrary: s S b)
  case Nil
  then have "{..<total} \<subseteq> S" "S \<subseteq> {..<total}" by (auto simp: tracks_def)
  with Nil(3) show ?case by blast
next
  case (Cons i "is")
  have len_b: "width * total \<le> length b" using Cons.prems(2) by (simp add: tracks_def)
  have rest: "\<forall>j<total. j \<notin> insert k S \<longrightarrow> (\<exists>i\<in>set is. own msg j i)" if "own msg k i" for k
    using Cons.prems(5) own_unique [OF that] by auto
  consider (own) k where "k < total" "own msg k i" | (foreign) "foreign i" "\<not> (\<exists>k<total. own msg k i)"
    using Cons.prems(4) by auto
  then show ?case
  proof cases
    case foreign
    then have "\<forall>k<total. k \<notin> S \<longrightarrow> (\<exists>i\<in>set is. own msg k i)" using Cons.prems(5) by auto
    then show ?thesis
      using Cons.IH [OF foreign_ignored [OF Cons.prems(1) foreign(1)] Cons.prems(2,3)] Cons.prems(4) by simp
  next
    case own
    let ?b = "blit b (width * k) (slice msg (width * k) width)"
    have t': "tracks msg (insert k S) ?b" using tracks_blit [OF Cons.prems(2) own(1) len] .
    show ?thesis
    proof (cases "k \<in> S")
      case True
      then have c: "collecting (step s i) S b"
        using repeated [OF Cons.prems(1) own(2)] Cons.prems(2) by (simp add: tracks_def)
      show ?thesis
        using Cons.IH [OF c Cons.prems(2,3)] Cons.prems(4) rest [OF own(2)] True by (simp add: insert_absorb)
    next
      case new: False
      show ?thesis
      proof (cases "insert k S = {..<total}")
        case True
        have "finished (step s i) ?b" using completed [OF Cons.prems(1) own(2,1) new True] .
        then have "finished (foldl step s (i # is)) ?b" using finished_run [of "step s i" ?b "is" msg] Cons.prems(4) by simp
        moreover have "?b = msg @ drop (width * total) b"
          using tracks_all [OF t' [unfolded True] len w] drop_blit_msg [OF len len_b own(1)]
          by (metis append_take_drop_id)
        ultimately show ?thesis by simp
      next
        case False
        then have c: "collecting (step s i) (insert k S) ?b"
          using stored [OF Cons.prems(1) own(2,1) new] by blast
        show ?thesis
          using Cons.IH [OF c t' False] Cons.prems(4) rest [OF own(2)] drop_blit_msg [OF len len_b own(1)] by simp
      qed
    qed
  qed
qed

lemma delivered:
  assumes "collecting s {} b" "width * total \<le> length b" "length msg = width * total" "0 < width" "0 < total"
    and "\<forall>i\<in>set is. (\<exists>k<total. own msg k i) \<or> foreign i" "\<forall>k<total. \<exists>i\<in>set is. own msg k i"
  shows "finished (foldl step s is) (msg @ drop (width * total) b)"
  using assms by (intro delivered_from [where S = "{}"]) (auto simp: tracks_def)

end

end
