(* ===== verification/Runtime.thy ===== *)
theory Runtime
  imports Prelude
begin

text \<open>
  Runtime diagnostics of one board (diagnostic\_runtime.c): the checkpoint counters of the two cores and the
  state of the current firmware update, sampled as a \<open>diagnostic_runtime_snapshot_t\<close>. Each operation is one
  critical section; the events it hands to the history after leaving the section are returned as a list. A
  snapshot of a running board always satisfies \<open>runtime_ok\<close>, which is what the status protocol's receiver
  checks.
\<close>

unbundle bit_operations_syntax

subsection \<open>State\<close>

abbreviation "DIAGNOSTIC_UPDATE_IDLE \<equiv> 0 :: u8"
abbreviation "DIAGNOSTIC_UPDATE_RECEIVING \<equiv> 1 :: u8"
abbreviation "DIAGNOSTIC_UPDATE_PAUSED \<equiv> 2 :: u8"
abbreviation "DIAGNOSTIC_UPDATE_VALIDATING \<equiv> 3 :: u8"
abbreviation "DIAGNOSTIC_UPDATE_REBOOT_PENDING \<equiv> 4 :: u8"
abbreviation "DIAGNOSTIC_UPDATE_FAILED \<equiv> 5 :: u8"
abbreviation "DIAGNOSTIC_UPDATE_ABANDONED \<equiv> 6 :: u8"

abbreviation "DIAGNOSTIC_SOURCE_NONE \<equiv> 0 :: u8"
abbreviation "DIAGNOSTIC_SOURCE_PEER \<equiv> 1 :: u8"
abbreviation "DIAGNOSTIC_SOURCE_USB \<equiv> 2 :: u8"

record runtime_snapshot =
  rt_core_ticks :: "u32 list"
  rt_core_age_ms :: "u32 list"
  rt_received_bytes :: u32
  rt_total_bytes :: u32
  rt_progress_age_ms :: u32
  rt_update_attempt :: u32
  rt_target_version :: u16
  rt_core_valid :: u8
  rt_phase :: u8
  rt_source :: u8
  rt_update_seen :: bool

definition zero_runtime :: runtime_snapshot where
  "zero_runtime = \<lparr>rt_core_ticks = [0, 0], rt_core_age_ms = [0, 0], rt_received_bytes = 0, rt_total_bytes = 0,
     rt_progress_age_ms = 0, rt_update_attempt = 0, rt_target_version = 0, rt_core_valid = 0, rt_phase = 0,
     rt_source = 0, rt_update_seen = False\<rparr>"

record runtime =
  ru_initialized :: bool
  ru_state :: runtime_snapshot
  ru_checkpoint_us :: "u64 list"
  ru_progress_us :: u64
  ru_reported_quarter :: u32

text \<open>An event for \<open>diagnostic_history_record\<close>: its type code, two small arguments and a value.\<close>

type_synonym history_call = "u8 \<times> u8 \<times> u8 \<times> u32"

subsection \<open>Operations\<close>

definition diagnostic_runtime_init :: "runtime \<Rightarrow> runtime" where
  "diagnostic_runtime_init r =
     r\<lparr>ru_initialized := True, ru_state := zero_runtime\<lparr>rt_total_bytes := 262144\<rparr>, ru_checkpoint_us := [0, 0],
       ru_progress_us := 0, ru_reported_quarter := 0\<rparr>"

definition diagnostic_runtime_checkpoint :: "u64 \<Rightarrow> nat \<Rightarrow> runtime \<Rightarrow> runtime" where
  "diagnostic_runtime_checkpoint now core r =
     (if \<not> ru_initialized r \<or> core > 1 then r
      else
        let s = ru_state r
        in r\<lparr>ru_state := s\<lparr>rt_core_ticks := (rt_core_ticks s)[core := rt_core_ticks s ! core + 1],
                             rt_core_valid := rt_core_valid s OR push_bit core 1\<rparr>,
             ru_checkpoint_us := (ru_checkpoint_us r)[core := now]\<rparr>)"

definition age_ms :: "u64 \<Rightarrow> u64 \<Rightarrow> u32" where
  "age_ms now before =
     (let age = (now - before) div 1000 in if age > 0xffffffff then 0xffffffff else ucast age)"

definition diagnostic_runtime_snapshot :: "u64 \<Rightarrow> runtime \<Rightarrow> runtime_snapshot" where
  "diagnostic_runtime_snapshot now r =
     (if \<not> ru_initialized r then zero_runtime
      else
        let s = ru_state r
        in s\<lparr>rt_core_age_ms := map (\<lambda>i. if bit (rt_core_valid s) i then age_ms now (ru_checkpoint_us r ! i)
                                   else 0xffffffff) [0, 1],
             rt_progress_age_ms := (if rt_update_seen s then age_ms now (ru_progress_us r) else 0xffffffff)\<rparr>)"

definition diagnostic_update_begin :: "u64 \<Rightarrow> u8 \<Rightarrow> u16 \<Rightarrow> runtime \<Rightarrow> runtime \<times> history_call list" where
  "diagnostic_update_begin now source target r =
     (if \<not> ru_initialized r then (r, [])
      else
        let s = ru_state r
        in (r\<lparr>ru_state := s\<lparr>rt_update_attempt := rt_update_attempt s + 1, rt_update_seen := True, rt_source := source,
                rt_target_version := target, rt_phase := DIAGNOSTIC_UPDATE_RECEIVING, rt_received_bytes := 0\<rparr>,
              ru_progress_us := now, ru_reported_quarter := 0\<rparr>,
            [(11, source, 0, ucast target)]))"

definition diagnostic_update_progress :: "u64 \<Rightarrow> u32 \<Rightarrow> runtime \<Rightarrow> runtime \<times> history_call list" where
  "diagnostic_update_progress now received r =
     (let s = ru_state r in
      if \<not> ru_initialized r then (r, [])
      else if rt_update_seen s \<and> rt_phase s = DIAGNOSTIC_UPDATE_RECEIVING \<and> received > rt_received_bytes s
          \<and> received \<le> rt_total_bytes s
      then
        let current = received div 65536;
            r = r\<lparr>ru_state := s\<lparr>rt_received_bytes := received\<rparr>, ru_progress_us := now\<rparr>
        in if current > ru_reported_quarter r
           then (r\<lparr>ru_reported_quarter := current\<rparr>, [(12, rt_source s, ucast (current * 25), received)])
           else (r, [])
      else (r, []))"

definition diagnostic_update_phase :: "u8 \<Rightarrow> runtime \<Rightarrow> runtime \<times> history_call list" where
  "diagnostic_update_phase phase r =
     (let s = ru_state r in
      if \<not> ru_initialized r then (r, [])
      else if rt_update_seen s \<and> rt_phase s \<noteq> phase
      then (r\<lparr>ru_state := s\<lparr>rt_phase := phase\<rparr>\<rparr>, [(13, phase, rt_source s, ucast (rt_target_version s))])
      else (r, []))"

subsection \<open>What a snapshot promises\<close>

text \<open>The shape of a snapshot that a status reply may carry: two cores, known phase and source codes, progress
  within the image, and nothing about an update that was never seen.\<close>

definition runtime_ok :: "runtime_snapshot \<Rightarrow> bool" where
  "runtime_ok s \<longleftrightarrow> length (rt_core_ticks s) = 2 \<and> length (rt_core_age_ms s) = 2 \<and> rt_core_valid s \<le> 3
     \<and> rt_phase s \<le> DIAGNOSTIC_UPDATE_ABANDONED \<and> rt_source s \<le> DIAGNOSTIC_SOURCE_USB
     \<and> rt_received_bytes s \<le> rt_total_bytes s \<and> rt_total_bytes s \<le> 262144
     \<and> (rt_update_seen s \<or> rt_phase s = DIAGNOSTIC_UPDATE_IDLE \<and> rt_source s = DIAGNOSTIC_SOURCE_NONE
          \<and> rt_received_bytes s = 0 \<and> rt_target_version s = 0 \<and> rt_update_attempt s = 0)"

datatype runtime_event =
    Checkpoint nat
  | Update_begin u8 u16
  | Update_progress u32
  | Update_phase u8

fun runtime_step :: "runtime \<Rightarrow> u64 \<times> runtime_event \<Rightarrow> history_call list \<times> runtime" where
  "runtime_step r (now, Checkpoint core) = ([], diagnostic_runtime_checkpoint now core r)"
| "runtime_step r (now, Update_begin source target) = prod.swap (diagnostic_update_begin now source target r)"
| "runtime_step r (now, Update_progress n) = prod.swap (diagnostic_update_progress now n r)"
| "runtime_step r (now, Update_phase p) = prod.swap (diagnostic_update_phase p r)"

text \<open>Callers pass enumeration values.\<close>

fun runtime_call_ok :: "u64 \<times> runtime_event \<Rightarrow> bool" where
  "runtime_call_ok (now, Update_begin source target) \<longleftrightarrow> source \<le> DIAGNOSTIC_SOURCE_USB"
| "runtime_call_ok (now, Update_phase p) \<longleftrightarrow> p \<le> DIAGNOSTIC_UPDATE_ABANDONED"
| "runtime_call_ok (now, _) \<longleftrightarrow> True"

definition runtime_inv :: "runtime \<Rightarrow> bool" where
  "runtime_inv r \<longleftrightarrow> ru_initialized r \<and> runtime_ok (ru_state r) \<and> length (ru_checkpoint_us r) = 2"

lemma or_core_le_3:
  assumes "v \<le> (3 :: u8)" "core \<le> 1"
  shows "v OR 2 ^ core \<le> 3"
proof -
  have "unat v < 4" using assms(1) by (simp add: word_le_nat_alt)
  then have "unat v = 0 \<or> unat v = 1 \<or> unat v = 2 \<or> unat v = 3" by linarith
  then have "v = 0 \<or> v = 1 \<or> v = 2 \<or> v = 3" by (simp add: word_unat_eq_iff)
  moreover have "core = 0 \<or> core = 1" using assms(2) by linarith
  ultimately show ?thesis by auto
qed

interpretation runtime_machine: machine runtime_step runtime_inv runtime_call_ok
proof
  fix r i os r'
  assume inv: "runtime_inv r" and ok: "runtime_call_ok i" and step: "runtime_step r i = (os, r')"
  obtain now e where i: "i = (now, e)" by fastforce
  show "runtime_inv r'"
    using inv ok step unfolding i
    by (cases e)
      (auto simp: runtime_inv_def runtime_ok_def diagnostic_runtime_checkpoint_def diagnostic_update_begin_def
        diagnostic_update_progress_def diagnostic_update_phase_def Let_def or_core_le_3 not_less split: if_splits)
qed

lemma runtime_init_inv: "runtime_inv (diagnostic_runtime_init r)"
  by (simp add: runtime_inv_def diagnostic_runtime_init_def runtime_ok_def zero_runtime_def)

lemma runtime_snapshot_ok: "runtime_inv r \<Longrightarrow> runtime_ok (diagnostic_runtime_snapshot now r)"
  by (simp add: runtime_inv_def diagnostic_runtime_snapshot_def Let_def runtime_ok_def)

end
