(* ===== verification/Peer_Status.thy ===== *)
theory Peer_Status
  imports Peer_Link Runtime
begin

text \<open>
  Status queries between the boards (peer\_status.c): a client asks with a token, the server answers with a
  snapshot of its identity and runtime in 26 chunks of three bytes (13 for the legacy protocol), the client
  collects them in any order, checks and decodes. Every entry point takes the current time; the transmit callback
  is an argument, and a task returns the packet it offered to it.
\<close>

unbundle bit_operations_syntax

subsection \<open>Data\<close>

abbreviation "PEER_STATUS_PROTOCOL \<equiv> 2 :: u8"
abbreviation "PEER_STATUS_LEGACY_PROTOCOL \<equiv> 1 :: u8"

record peer_status_snapshot =
  sn_role :: u8
  sn_protocol :: u8
  sn_major :: u16
  sn_minor :: u16
  sn_board_id :: bytes
  sn_boot_session :: u64
  sn_uptime_ms :: u64
  sn_image_crc_at_boot :: u32
  sn_runtime :: runtime_snapshot

datatype peer_status_outcome = PEER_STATUS_OK | PEER_STATUS_TIMEOUT | PEER_STATUS_INVALID

datatype peer_boot = DIAGNOSTIC_PEER_UNOBSERVED | DIAGNOSTIC_PEER_FIRST_SEEN | DIAGNOSTIC_PEER_SAME_BOOT
  | DIAGNOSTIC_PEER_NEW_BOOT | DIAGNOSTIC_PEER_IDENTITY_CHANGED

datatype peer_progress = DIAGNOSTIC_PROGRESS_UNAVAILABLE | DIAGNOSTIC_PROGRESS_BASELINE
  | DIAGNOSTIC_PROGRESS_ADVANCING | DIAGNOSTIC_PROGRESS_NOT_ADVANCING

datatype peer_execution = DIAGNOSTIC_EXECUTION_NOT_OBSERVED | DIAGNOSTIC_EXECUTION_PENDING_REBOOT
  | DIAGNOSTIC_EXECUTION_AWAITING_PROGRESS | DIAGNOSTIC_EXECUTION_CONFIRMED | DIAGNOSTIC_EXECUTION_UNEXPECTED_BOOT

record peer_observation =
  ob_boot :: peer_boot
  ob_progress :: peer_progress
  ob_update :: peer_execution

record peer_status_result =
  sr_token :: u32
  sr_outcome :: peer_status_outcome
  sr_snapshot :: peer_status_snapshot
  sr_observation :: peer_observation

datatype peer_status_start_result = PEER_STATUS_STARTED | PEER_STATUS_BUSY | PEER_STATUS_BAD_ARGUMENT

datatype peer_status_packet = PEER_STATUS_REQUEST | PEER_STATUS_RESPONSE

record peer_status =
  ps_local_role :: u8
  ps_client_active :: bool
  ps_client_sent :: bool
  ps_result_ready :: bool
  ps_client_token :: u32
  ps_client_wire_token :: u32
  ps_client_protocol :: u8
  ps_client_started_us :: u64
  ps_client_sent_at_us :: u64
  ps_client_received :: u32
  ps_client_bytes :: bytes
  ps_result :: peer_status_result
  ps_server_active :: bool
  ps_server_seen_request :: bool
  ps_server_token :: u32
  ps_server_started_us :: u64
  ps_server_next_chunk :: u8
  ps_server_chunk_count :: u8
  ps_server_bytes :: bytes
  ps_tx_attempted :: bool
  ps_prefer_response :: bool
  ps_last_tx_attempt_us :: u64

definition zero_snapshot :: peer_status_snapshot where
  "zero_snapshot = \<lparr>sn_role = 0, sn_protocol = 0, sn_major = 0, sn_minor = 0, sn_board_id = replicate 8 0,
     sn_boot_session = 0, sn_uptime_ms = 0, sn_image_crc_at_boot = 0, sn_runtime = zero_runtime\<rparr>"

definition zero_observation :: peer_observation where
  "zero_observation = \<lparr>ob_boot = DIAGNOSTIC_PEER_UNOBSERVED, ob_progress = DIAGNOSTIC_PROGRESS_UNAVAILABLE,
     ob_update = DIAGNOSTIC_EXECUTION_NOT_OBSERVED\<rparr>"

definition status_result :: "u32 \<Rightarrow> peer_status_outcome \<Rightarrow> peer_status_result" where
  "status_result token outcome =
     \<lparr>sr_token = token, sr_outcome = outcome, sr_snapshot = zero_snapshot, sr_observation = zero_observation\<rparr>"

definition peer_status_init :: "u8 \<Rightarrow> peer_status" where
  "peer_status_init role = \<lparr>ps_local_role = role, ps_client_active = False, ps_client_sent = False,
     ps_result_ready = False, ps_client_token = 0, ps_client_wire_token = 0, ps_client_protocol = 0,
     ps_client_started_us = 0, ps_client_sent_at_us = 0, ps_client_received = 0, ps_client_bytes = replicate 78 0,
     ps_result = status_result 0 PEER_STATUS_OK, ps_server_active = False, ps_server_seen_request = False,
     ps_server_token = 0, ps_server_started_us = 0, ps_server_next_chunk = 0, ps_server_chunk_count = 0,
     ps_server_bytes = replicate 78 0, ps_tx_attempted = False, ps_prefer_response = False,
     ps_last_tx_attempt_us = 0\<rparr>"

subsection \<open>Snapshots on the wire\<close>

definition chunk_count :: "u8 \<Rightarrow> nat" where
  "chunk_count protocol = (if protocol = PEER_STATUS_LEGACY_PROTOCOL then 13 else 26)"

definition encode_identity :: "u8 \<Rightarrow> peer_status_snapshot \<Rightarrow> bytes" where
  "encode_identity protocol s =
     [protocol, sn_role s] @ write_le (ucast (sn_major s)) 2 @ write_le (ucast (sn_minor s)) 2 @ sn_board_id s
     @ write_le (sn_boot_session s) 8 @ write_le (sn_uptime_ms s) 8 @ write_le (ucast (sn_image_crc_at_boot s)) 4"

definition encode_runtime :: "runtime_snapshot \<Rightarrow> bytes" where
  "encode_runtime r =
     [rt_core_valid r OR (if rt_update_seen r then 4 else 0), rt_phase r]
     @ write_le (ucast (rt_core_ticks r ! 0)) 4 @ write_le (ucast (rt_core_ticks r ! 1)) 4
     @ write_le (ucast (rt_core_age_ms r ! 0)) 4 @ write_le (ucast (rt_core_age_ms r ! 1)) 4
     @ write_le (ucast (rt_received_bytes r)) 4 @ write_le (ucast (rt_total_bytes r)) 4
     @ write_le (ucast (rt_progress_age_ms r)) 4 @ write_le (ucast (rt_target_version r)) 2 @ [rt_source r, 0]
     @ write_le (ucast (rt_update_attempt r)) 4"

definition encode_snapshot :: "u8 \<Rightarrow> peer_status_snapshot \<Rightarrow> bytes" where
  "encode_snapshot protocol s =
     (let head = encode_identity protocol s in
      if protocol = PEER_STATUS_LEGACY_PROTOCOL
      then head @ write_le (ucast (snapshot_crc head)) 4 @ replicate 40 0
      else
        let body = head @ encode_runtime (sn_runtime s)
        in body @ write_le (ucast (snapshot_crc body)) 4 @ [0, 0])"

definition decode_identity :: "bytes \<Rightarrow> peer_status_snapshot" where
  "decode_identity b =
     \<lparr>sn_role = b ! 1, sn_protocol = b ! 0, sn_major = ucast (read_le b 2 2), sn_minor = ucast (read_le b 4 2),
      sn_board_id = slice b 6 8, sn_boot_session = read_le b 14 8, sn_uptime_ms = read_le b 22 8,
      sn_image_crc_at_boot = ucast (read_le b 30 4), sn_runtime = zero_runtime\<rparr>"

definition decode_runtime :: "bytes \<Rightarrow> runtime_snapshot" where
  "decode_runtime b =
     \<lparr>rt_core_ticks = [ucast (read_le b 36 4), ucast (read_le b 40 4)],
      rt_core_age_ms = [ucast (read_le b 44 4), ucast (read_le b 48 4)],
      rt_received_bytes = ucast (read_le b 52 4), rt_total_bytes = ucast (read_le b 56 4),
      rt_progress_age_ms = ucast (read_le b 60 4), rt_update_attempt = ucast (read_le b 68 4),
      rt_target_version = ucast (read_le b 64 2), rt_core_valid = b ! 34 AND 3, rt_phase = b ! 35,
      rt_source = b ! 66, rt_update_seen = (b ! 34 AND 4 \<noteq> 0)\<rparr>"

definition decode_snapshot :: "bytes \<Rightarrow> bool \<times> peer_status_snapshot" where
  "decode_snapshot b =
     (let s = decode_identity b in
      if sn_protocol s = PEER_STATUS_LEGACY_PROTOCOL
      then (b ! 38 = 0 \<and> read_le b 34 4 = ucast (snapshot_crc (take 34 b)), s)
      else if b ! 34 > 7 \<or> b ! 35 > DIAGNOSTIC_UPDATE_ABANDONED \<or> b ! 66 > DIAGNOSTIC_SOURCE_USB
          \<or> b ! 67 \<noteq> 0 \<or> b ! 76 \<noteq> 0 \<or> b ! 77 \<noteq> 0 \<or> read_le b 72 4 \<noteq> ucast (snapshot_crc (take 72 b))
      then (False, s)
      else
        let r = decode_runtime b; s = s\<lparr>sn_runtime := r\<rparr> in
        if rt_received_bytes r > rt_total_bytes r \<or> rt_total_bytes r > 262144 then (False, s)
        else (rt_update_seen r \<or> rt_phase r = DIAGNOSTIC_UPDATE_IDLE \<and> rt_source r = DIAGNOSTIC_SOURCE_NONE
                \<and> rt_received_bytes r = 0 \<and> rt_target_version r = 0 \<and> rt_update_attempt r = 0, s))"

subsection \<open>Client and server\<close>

definition finish_status :: "peer_status_outcome \<Rightarrow> peer_status \<Rightarrow> peer_status" where
  "finish_status outcome s =
     (let result = status_result (ps_client_token s) outcome;
          result = (if outcome = PEER_STATUS_OK then
              case decode_snapshot (ps_client_bytes s) of (ok, sn) \<Rightarrow>
                result\<lparr>sr_snapshot := sn, sr_outcome := if ok then PEER_STATUS_OK else PEER_STATUS_INVALID\<rparr>
            else result)
      in s\<lparr>ps_result := result, ps_client_active := False, ps_result_ready := True\<rparr>)"

definition expire_status :: "u64 \<Rightarrow> peer_status \<Rightarrow> peer_status" where
  "expire_status now s =
     (let s = (if ps_client_active s \<and> now - ps_client_started_us s \<ge> 500000 then finish_status PEER_STATUS_TIMEOUT s else s)
      in if ps_server_active s \<and> now - ps_server_started_us s \<ge> 500000 then s\<lparr>ps_server_active := False\<rparr> else s)"

definition peer_status_start :: "u32 \<Rightarrow> u64 \<Rightarrow> peer_status \<Rightarrow> peer_status_start_result \<times> peer_status" where
  "peer_status_start token now s =
     (if ps_client_active s \<or> ps_result_ready s then (PEER_STATUS_BUSY, s)
      else if token = 0 \<or> ps_local_role s > 1 then (PEER_STATUS_BAD_ARGUMENT, s)
      else (PEER_STATUS_STARTED,
        s\<lparr>ps_client_active := True, ps_client_sent := False, ps_client_token := token, ps_client_wire_token := token,
          ps_client_protocol := PEER_STATUS_PROTOCOL, ps_client_started_us := now, ps_client_received := 0,
          ps_client_bytes := replicate 78 0\<rparr>))"

definition peer_status_receive_request ::
    "bytes \<Rightarrow> peer_status_snapshot \<Rightarrow> u64 \<Rightarrow> peer_status \<Rightarrow> bool \<times> peer_status" where
  "peer_status_receive_request payload snapshot now s =
     (let s = expire_status now s; token = ucast (read_le payload 0 4) in
      if token = 0 \<or> payload ! 4 \<noteq> PEER_STATUS_PROTOCOL \<and> payload ! 4 \<noteq> PEER_STATUS_LEGACY_PROTOCOL
          \<or> payload ! 5 \<noteq> 0 \<or> payload ! 6 \<noteq> 0 \<or> payload ! 7 \<noteq> 0
          \<or> ps_local_role s > 1 \<or> sn_role snapshot \<noteq> ps_local_role s \<or> ps_server_active s
      then (False, s)
      else if ps_server_seen_request s
          \<and> (token = ps_server_token s \<or> now - ps_server_started_us s < 200000)
      then (False, s)
      else (True,
        s\<lparr>ps_server_seen_request := True, ps_server_active := True, ps_server_token := token,
          ps_server_started_us := now, ps_server_next_chunk := 0,
          ps_server_chunk_count := of_nat (chunk_count (payload ! 4)),
          ps_server_bytes := encode_snapshot (payload ! 4) snapshot\<rparr>))"

definition peer_status_receive_response :: "bytes \<Rightarrow> u64 \<Rightarrow> peer_status \<Rightarrow> peer_status" where
  "peer_status_receive_response payload now s =
     (let s = expire_status now s; index = unat (payload ! 4); chunks = chunk_count (ps_client_protocol s) in
      if \<not> ps_client_active s \<or> \<not> ps_client_sent s \<or> read_le payload 0 4 \<noteq> ucast (ps_client_wire_token s) then s
      else if index \<ge> chunks
          \<or> index = 0 \<and> (payload ! 5 \<noteq> ps_client_protocol s \<or> payload ! 6 \<noteq> ps_local_role s XOR 1)
      then finish_status PEER_STATUS_INVALID s
      else if bit (ps_client_received s) index
      then if slice (ps_client_bytes s) (3 * index) 3 \<noteq> slice payload 5 3 then finish_status PEER_STATUS_INVALID s else s
      else
        let s = s\<lparr>ps_client_bytes := blit (ps_client_bytes s) (3 * index) (slice payload 5 3),
                  ps_client_received := ps_client_received s OR push_bit index 1\<rparr>
        in if ps_client_received s = push_bit chunks 1 - 1 then finish_status PEER_STATUS_OK s else s)"

definition status_fallback :: "u64 \<Rightarrow> peer_status \<Rightarrow> peer_status" where
  "status_fallback now s =
     (if ps_client_active s \<and> ps_client_sent s \<and> ps_client_received s = 0
          \<and> ps_client_protocol s = PEER_STATUS_PROTOCOL \<and> now - ps_client_sent_at_us s \<ge> 150000
      then s\<lparr>ps_client_protocol := PEER_STATUS_LEGACY_PROTOCOL,
             ps_client_wire_token := fallback_token (ps_client_token s), ps_client_sent := False\<rparr>
      else s)"

definition status_payload :: "peer_status_packet \<Rightarrow> peer_status \<Rightarrow> bytes" where
  "status_payload kind s =
     (case kind of
        PEER_STATUS_REQUEST \<Rightarrow> write_le (ucast (ps_client_wire_token s)) 4 @ [ps_client_protocol s, 0, 0, 0]
      | PEER_STATUS_RESPONSE \<Rightarrow> write_le (ucast (ps_server_token s)) 4 @ [ps_server_next_chunk s]
          @ slice (ps_server_bytes s) (3 * unat (ps_server_next_chunk s)) 3)"

definition peer_status_task ::
    "u64 \<Rightarrow> (peer_status_packet \<Rightarrow> bytes \<Rightarrow> bool) \<Rightarrow> peer_status \<Rightarrow> (peer_status_packet \<times> bytes) option \<times> peer_status" where
  "peer_status_task now tx s =
     (let s = status_fallback now (expire_status now s);
          request = (ps_client_active s \<and> \<not> ps_client_sent s); response = ps_server_active s
      in if \<not> request \<and> \<not> response \<or> ps_tx_attempted s \<and> now - ps_last_tx_attempt_us s < 1000 then (None, s)
      else
        let kind = (if response \<and> (\<not> request \<or> ps_prefer_response s) then PEER_STATUS_RESPONSE else PEER_STATUS_REQUEST);
            payload = status_payload kind s;
            s = s\<lparr>ps_tx_attempted := True, ps_last_tx_attempt_us := now\<rparr>
        in if \<not> tx kind payload then (Some (kind, payload), s)
        else
          let s = s\<lparr>ps_prefer_response := (kind = PEER_STATUS_REQUEST)\<rparr> in
          (Some (kind, payload),
           case kind of
             PEER_STATUS_REQUEST \<Rightarrow> s\<lparr>ps_client_sent := True, ps_client_sent_at_us := now\<rparr>
           | PEER_STATUS_RESPONSE \<Rightarrow>
               let s = s\<lparr>ps_server_next_chunk := ps_server_next_chunk s + 1\<rparr>
               in if ps_server_next_chunk s = ps_server_chunk_count s then s\<lparr>ps_server_active := False\<rparr> else s))"

definition peer_status_take_result :: "peer_status \<Rightarrow> peer_status_result option \<times> peer_status" where
  "peer_status_take_result s =
     (if \<not> ps_result_ready s then (None, s) else (Some (ps_result s), s\<lparr>ps_result_ready := False\<rparr>))"

subsection \<open>The snapshot survives the wire\<close>

text \<open>What the client gets of a snapshot: a legacy reply carries no runtime.\<close>

definition received_snapshot :: "u8 \<Rightarrow> peer_status_snapshot \<Rightarrow> peer_status_snapshot" where
  "received_snapshot protocol s =
     s\<lparr>sn_protocol := protocol,
       sn_runtime := (if protocol = PEER_STATUS_LEGACY_PROTOCOL then zero_runtime else sn_runtime s)\<rparr>"

definition snapshot_ok :: "peer_status_snapshot \<Rightarrow> bool" where
  "snapshot_ok s \<longleftrightarrow> length (sn_board_id s) = 8 \<and> runtime_ok (sn_runtime s)"

lemma length_encode_identity: "length (sn_board_id s) = 8 \<Longrightarrow> length (encode_identity p s) = 34"
  by (simp add: encode_identity_def)

lemma length_encode_runtime: "length (encode_runtime r) = 38"
  by (simp add: encode_runtime_def)

lemma length_encode_snapshot: "length (sn_board_id s) = 8 \<Longrightarrow> length (encode_snapshot p s) = 78"
  by (simp add: encode_snapshot_def Let_def length_encode_identity length_encode_runtime)

lemma decode_encode_identity:
  assumes "length (sn_board_id s) = 8"
  shows "decode_identity (encode_identity p s @ rest) = s\<lparr>sn_protocol := p, sn_runtime := zero_runtime\<rparr>"
  using assms by (cases s) (simp add: decode_identity_def encode_identity_def layout_simps slice_here)

lemma valid_flags:
  assumes "v \<le> (3 :: u8)"
  shows "v OR (if seen then 4 else 0) \<le> 7" "(v OR (if seen then 4 else 0)) AND 3 = v"
    "(v OR (if seen then 4 else 0)) AND 4 \<noteq> 0 \<longleftrightarrow> seen"
proof -
  have "unat v < 4" using assms by (simp add: word_le_nat_alt)
  then have "unat v = 0 \<or> unat v = 1 \<or> unat v = 2 \<or> unat v = 3" by linarith
  then have "v = 0 \<or> v = 1 \<or> v = 2 \<or> v = 3" by (simp add: word_unat_eq_iff)
  then show "v OR (if seen then 4 else 0) \<le> 7" "(v OR (if seen then 4 else 0)) AND 3 = v"
    "(v OR (if seen then 4 else 0)) AND 4 \<noteq> 0 \<longleftrightarrow> seen"
    by auto
qed

lemma two_elements: "length xs = 2 \<Longrightarrow> [xs ! 0, xs ! 1] = xs"
  by (cases xs) (auto simp: length_Suc_conv numeral_2_eq_2)

lemma decode_encode_runtime:
  assumes "runtime_ok r" "length head = 34"
  shows "decode_runtime (head @ encode_runtime r @ rest) = r"
  using assms valid_flags [of "rt_core_valid r" "rt_update_seen r"] two_elements [of "rt_core_ticks r"]
    two_elements [of "rt_core_age_ms r"]
  by (simp add: decode_runtime_def encode_runtime_def layout_simps runtime_ok_def)

lemma runtime_bytes:
  assumes "length head = 34"
  shows "(head @ encode_runtime r @ rest) ! 34 = rt_core_valid r OR (if rt_update_seen r then 4 else 0)"
    "(head @ encode_runtime r @ rest) ! 35 = rt_phase r" "(head @ encode_runtime r @ rest) ! 66 = rt_source r"
    "(head @ encode_runtime r @ rest) ! 67 = 0" "length rest = 6 \<Longrightarrow> (head @ encode_runtime r @ rest) ! 76 = rest ! 4"
    "length rest = 6 \<Longrightarrow> (head @ encode_runtime r @ rest) ! 77 = rest ! 5"
  using assms by (simp_all add: encode_runtime_def layout_simps)

lemma decode_encode_snapshot:
  assumes "snapshot_ok s"
  shows "decode_snapshot (encode_snapshot p s) = (True, received_snapshot p s)"
proof -
  have id: "length (sn_board_id s) = 8" and run: "runtime_ok (sn_runtime s)" using assms by (simp_all add: snapshot_ok_def)
  note len = length_encode_identity [OF id] length_encode_runtime
  show ?thesis
  proof (cases "p = PEER_STATUS_LEGACY_PROTOCOL")
    case True
    then show ?thesis
      by (simp add: decode_snapshot_def encode_snapshot_def Let_def decode_encode_identity [OF id] len layout_simps
          received_snapshot_def)
  next
    case False
    let ?h = "encode_identity p s" and ?r = "encode_runtime (sn_runtime s)"
    let ?rest = "write_le (ucast (snapshot_crc (?h @ ?r))) 4 @ [0, 0]"
    have e: "encode_snapshot p s = ?h @ ?r @ ?rest" using False by (simp add: encode_snapshot_def Let_def)
    have crc: "read_le (?h @ ?r @ ?rest) 72 4 = ucast (snapshot_crc (?h @ ?r))" "take 72 (?h @ ?r @ ?rest) = ?h @ ?r"
      by (simp_all add: len layout_simps)
    have tail: "length ?rest = 6" "?rest ! 4 = 0" "?rest ! 5 = 0" by (simp_all add: layout_simps)
    show ?thesis
      using run valid_flags [of "rt_core_valid (sn_runtime s)" "rt_update_seen (sn_runtime s)"] False
      unfolding decode_snapshot_def e Let_def decode_encode_identity [OF id]
        runtime_bytes(1-4) [OF len(1)] runtime_bytes(5,6) [OF len(1) tail(1)] crc decode_encode_runtime [OF run len(1)] tail
      by (auto simp: runtime_ok_def received_snapshot_def not_less)
  qed
qed

subsection \<open>A query and its reply\<close>

definition status_reply :: "u32 \<Rightarrow> bytes \<Rightarrow> peer_status_result" where
  "status_reply token b =
     (case decode_snapshot b of (ok, sn) \<Rightarrow>
        (status_result token PEER_STATUS_OK)\<lparr>sr_snapshot := sn, sr_outcome := if ok then PEER_STATUS_OK else PEER_STATUS_INVALID\<rparr>)"

text \<open>A query in the air: its token \<open>ct\<close>, the token \<open>wt\<close> and protocol on the wire, and its start.\<close>

record status_query =
  qu_token :: u32
  qu_wire_token :: u32
  qu_protocol :: u8
  qu_role :: u8
  qu_started :: u64

definition status_collecting :: "status_query \<Rightarrow> peer_status \<Rightarrow> nat set \<Rightarrow> bytes \<Rightarrow> bool" where
  "status_collecting q s S b \<longleftrightarrow> ps_client_active s \<and> ps_client_sent s \<and> ps_client_token s = qu_token q
     \<and> ps_client_wire_token s = qu_wire_token q \<and> ps_client_protocol s = qu_protocol q \<and> ps_local_role s = qu_role q
     \<and> ps_client_started_us s = qu_started q \<and> ps_client_bytes s = b
     \<and> S \<subseteq> {..<chunk_count (qu_protocol q)} \<and> (\<forall>k<32. bit (ps_client_received s) k \<longleftrightarrow> k \<in> S)"

definition status_finished :: "status_query \<Rightarrow> peer_status \<Rightarrow> bytes \<Rightarrow> bool" where
  "status_finished q s b \<longleftrightarrow> \<not> ps_client_active s \<and> ps_result_ready s \<and> ps_result s = status_reply (qu_token q) b"

definition status_in_time :: "status_query \<Rightarrow> u64 \<Rightarrow> bool" where
  "status_in_time q now \<longleftrightarrow> now - qu_started q < 500000"

definition status_chunk :: "u32 \<Rightarrow> bytes \<Rightarrow> nat \<Rightarrow> bytes" where
  "status_chunk token msg k = write_le (ucast token) 4 @ [of_nat k] @ slice msg (3 * k) 3"

text \<open>What happens to the asking board: a reply packet or a request of the other board arrives, or the task runs.\<close>

datatype status_event =
    Reply_in bytes u64
  | Request_in bytes peer_status_snapshot u64
  | Task_pass u64 "peer_status_packet \<Rightarrow> bytes \<Rightarrow> bool"

fun event_time :: "status_event \<Rightarrow> u64" where
  "event_time (Reply_in payload now) = now"
| "event_time (Request_in payload sn now) = now"
| "event_time (Task_pass now tx) = now"

fun status_step :: "peer_status \<Rightarrow> status_event \<Rightarrow> peer_status" where
  "status_step s (Reply_in payload now) = peer_status_receive_response payload now s"
| "status_step s (Request_in payload sn now) = snd (peer_status_receive_request payload sn now s)"
| "status_step s (Task_pass now tx) = snd (peer_status_task now tx s)"

fun status_own :: "status_query \<Rightarrow> bytes \<Rightarrow> nat \<Rightarrow> status_event \<Rightarrow> bool" where
  "status_own q msg k (Reply_in payload now) \<longleftrightarrow> status_in_time q now \<and> k < chunk_count (qu_protocol q)
     \<and> payload = status_chunk (qu_wire_token q) msg k \<and> length msg = 3 * chunk_count (qu_protocol q)
     \<and> msg ! 0 = qu_protocol q \<and> msg ! 1 = qu_role q XOR 1"
| "status_own q msg k _ \<longleftrightarrow> False"

fun other_packet :: "u32 \<Rightarrow> status_event \<Rightarrow> bool" where
  "other_packet token (Reply_in payload now) \<longleftrightarrow> read_le payload 0 4 \<noteq> ucast token"
| "other_packet token _ \<longleftrightarrow> True"

definition status_foreign :: "status_query \<Rightarrow> status_event \<Rightarrow> bool" where
  "status_foreign q i \<longleftrightarrow> status_in_time q (event_time i) \<and> other_packet (qu_wire_token q) i"

text \<open>A task pass at which the client gives the token up for the legacy protocol, if it has heard nothing by then.\<close>

fun fallback_pass :: "u8 \<Rightarrow> u64 \<Rightarrow> status_event \<Rightarrow> bool" where
  "fallback_pass protocol sent (Task_pass now tx) \<longleftrightarrow> protocol = PEER_STATUS_PROTOCOL \<and> 150000 \<le> now - sent"
| "fallback_pass protocol sent _ \<longleftrightarrow> False"

definition status_heard :: "status_query \<Rightarrow> peer_status \<Rightarrow> nat set \<Rightarrow> bytes \<Rightarrow> bool" where
  "status_heard q s S b \<longleftrightarrow> S \<noteq> {} \<and> status_collecting q s S b"

lemma chunk_count_le: "chunk_count p \<le> 26" "0 < chunk_count p"
  by (simp_all add: chunk_count_def)

lemma expire_collecting:
  "status_collecting q s S b \<Longrightarrow> status_in_time q now \<Longrightarrow> status_collecting q (expire_status now s) S b"
  by (simp add: status_collecting_def status_in_time_def [folded not_le] expire_status_def Let_def del: not_le)

lemma expire_finished: "status_finished q s b \<Longrightarrow> status_finished q (expire_status now s) b"
  by (simp add: status_finished_def expire_status_def Let_def)

lemma task_finished: "status_finished q s b \<Longrightarrow> status_finished q (snd (peer_status_task now tx s)) b"
  using expire_finished [of q s b now]
  by (simp add: peer_status_task_def status_fallback_def Let_def status_finished_def split: peer_status_packet.splits)

lemma hear_finished: "status_finished q s b \<Longrightarrow> status_finished q (status_step s i) b"
  using expire_finished [of q s b "event_time i"]
  by (cases i) (simp_all add: peer_status_receive_response_def peer_status_receive_request_def Let_def status_finished_def
      task_finished [unfolded status_finished_def])

lemma task_collecting:
  assumes "status_collecting q s S b" "status_in_time q now"
    and "S \<noteq> {} \<or> \<not> fallback_pass (qu_protocol q) (ps_client_sent_at_us s) (Task_pass now tx)"
  shows "status_collecting q (snd (peer_status_task now tx s)) S b
    \<and> ps_client_sent_at_us (snd (peer_status_task now tx s)) = ps_client_sent_at_us s"
proof -
  define u where "u = expire_status now s"
  have u: "status_collecting q u S b" unfolding u_def by (rule expire_collecting [OF assms(1,2)])
  have at: "ps_client_sent_at_us u = ps_client_sent_at_us s"
    by (simp add: u_def expire_status_def finish_status_def Let_def split: prod.splits)
  have "ps_client_received u \<noteq> 0" if ne: "S \<noteq> {}"
  proof
    assume "ps_client_received u = 0"
    moreover obtain k where "k \<in> S" using ne by blast
    moreover have "k < 32" if "k \<in> S" for k
      using that u by (auto simp: status_collecting_def chunk_count_def split: if_splits)
    ultimately show False using u by (auto simp: status_collecting_def)
  qed
  then have same: "status_fallback now u = u"
    using assms(3) u at by (auto simp: status_fallback_def status_collecting_def not_le)
  show ?thesis
    using u at by (simp add: peer_status_task_def u_def [symmetric] same Let_def status_collecting_def
        split: peer_status_packet.splits)
qed

lemma request_collecting:
  assumes "status_collecting q s S b" "status_in_time q now"
  shows "status_collecting q (snd (peer_status_receive_request payload sn now s)) S b
    \<and> ps_client_sent_at_us (snd (peer_status_receive_request payload sn now s)) = ps_client_sent_at_us s"
proof -
  have "ps_client_sent_at_us (expire_status now s) = ps_client_sent_at_us s"
    by (simp add: expire_status_def finish_status_def Let_def split: prod.splits)
  then show ?thesis
    using expire_collecting [OF assms] by (simp add: peer_status_receive_request_def Let_def status_collecting_def)
qed

lemma foreign_collecting:
  assumes "status_collecting q s S b" "status_foreign q i"
    and "S \<noteq> {} \<or> \<not> fallback_pass (qu_protocol q) (ps_client_sent_at_us s) i"
  shows "status_collecting q (status_step s i) S b \<and> ps_client_sent_at_us (status_step s i) = ps_client_sent_at_us s"
proof (cases i)
  case (Reply_in payload now)
  then have "status_step s i = expire_status now s"
    using assms(2) expire_collecting [OF assms(1), of now]
    by (simp add: status_foreign_def peer_status_receive_response_def Let_def status_collecting_def)
  moreover have "ps_client_sent_at_us (expire_status now s) = ps_client_sent_at_us s"
    by (simp add: expire_status_def finish_status_def Let_def split: prod.splits)
  ultimately show ?thesis using expire_collecting [OF assms(1), of now] assms(2) Reply_in by (simp add: status_foreign_def)
next
  case (Request_in payload sn now)
  then show ?thesis using request_collecting [OF assms(1)] assms(2) by (simp add: status_foreign_def)
next
  case (Task_pass now tx)
  then show ?thesis using task_collecting [OF assms(1)] assms(2,3) by (simp add: status_foreign_def)
qed

lemma waiting_collecting:
  "status_collecting q s {} b \<Longrightarrow> \<forall>i\<in>set is. status_foreign q i \<and> \<not> fallback_pass (qu_protocol q) (ps_client_sent_at_us s) i
    \<Longrightarrow> status_collecting q (foldl status_step s is) {} b"
  by (induction "is" arbitrary: s) (simp_all add: foreign_collecting)

lemma chunk_fields:
  assumes "k < 256" "3 * k + 3 \<le> length msg"
  shows "read_le (status_chunk t msg k) 0 4 = ucast t" "unat (status_chunk t msg k ! 4) = k"
    "slice (status_chunk t msg k) 5 3 = slice msg (3 * k) 3"
    "status_chunk t msg k ! 5 = slice msg (3 * k) 3 ! 0" "status_chunk t msg k ! 6 = slice msg (3 * k) 3 ! 1"
proof -
  have "unat (of_nat k :: u8) = k" using assms(1) by (simp add: unsigned_of_nat take_bit_nat_eq_self)
  moreover have "length (slice msg (3 * k) 3) = 3" using assms by (intro length_slice) simp
  ultimately show "read_le (status_chunk t msg k) 0 4 = ucast t" "unat (status_chunk t msg k ! 4) = k"
    "slice (status_chunk t msg k) 5 3 = slice msg (3 * k) 3"
    "status_chunk t msg k ! 5 = slice msg (3 * k) 3 ! 0" "status_chunk t msg k ! 6 = slice msg (3 * k) 3 ! 1"
    using slice_here [of "slice msg (3 * k) 3" 3 "[]"] by (simp_all add: status_chunk_def layout_simps)
qed

lemma chunk_inj:
  assumes "status_chunk t msg k = status_chunk t msg k'" "k < 256" "k' < 256" "3 * k + 3 \<le> length msg" "3 * k' + 3 \<le> length msg"
  shows "k = k'"
  using chunk_fields(2) [OF assms(2,4), of t] chunk_fields(2) [OF assms(3,5), of t] unfolding assms(1) by (rule trans [OF sym])

lemma received_all:
  assumes "n \<le> 26" "\<forall>k<32. bit (r :: u32) k \<longleftrightarrow> k \<in> S" "S \<subseteq> {..<n}"
  shows "r = push_bit n 1 - 1 \<longleftrightarrow> S = {..<n}"
proof -
  have "push_bit n 1 - 1 = (mask n :: u32)" by (simp add: mask_eq_exp_minus_1)
  moreover have "r = mask n \<longleftrightarrow> S = {..<n}"
  proof
    assume "r = mask n"
    then have "\<forall>k<32. k < n \<longleftrightarrow> k \<in> S" using assms(2) by (simp add: bit_simps)
    moreover have "k < 32" if "k < n" for k using that assms(1) by simp
    ultimately show "S = {..<n}" using assms(3) by blast
  next
    assume "S = {..<n}"
    then show "r = mask n" using assms by (auto intro!: bit_word_eqI simp: bit_simps)
  qed
  ultimately show ?thesis by simp
qed

lemma hear_own:
  assumes c: "status_collecting q s S b" and own: "status_own q msg k i"
  defines "b' \<equiv> blit b (3 * k) (slice msg (3 * k) 3)"
  shows "k \<in> S \<Longrightarrow> slice b (3 * k) 3 = slice msg (3 * k) 3 \<Longrightarrow> status_collecting q (status_step s i) S b"
    and "k \<notin> S \<Longrightarrow> insert k S \<noteq> {..<chunk_count (qu_protocol q)} \<Longrightarrow> status_collecting q (status_step s i) (insert k S) b'"
    and "k \<notin> S \<Longrightarrow> insert k S = {..<chunk_count (qu_protocol q)} \<Longrightarrow> status_finished q (status_step s i) b'"
proof -
  obtain now where i: "i = Reply_in (status_chunk (qu_wire_token q) msg k) now" and t: "status_in_time q now"
    and k: "k < chunk_count (qu_protocol q)" and len: "length msg = 3 * chunk_count (qu_protocol q)"
    and msg: "msg ! 0 = qu_protocol q" "msg ! 1 = qu_role q XOR 1"
    using own by (cases i) auto
  define u where "u = expire_status now s"
  have u: "status_collecting q u S b" unfolding u_def by (rule expire_collecting [OF c t])
  have k32: "k < 32" using k chunk_count_le(1) [of "qu_protocol q"] by simp
  have room: "k < 256" "3 * k + 3 \<le> length msg" using k k32 len by simp_all
  note f = chunk_fields [OF room, of "qu_wire_token q"]
  have first: "k = 0 \<longrightarrow> slice msg (3 * k) 3 ! 0 = qu_protocol q \<and> slice msg (3 * k) 3 ! 1 = qu_role q XOR 1"
    using len msg chunk_count_le(2) [of "qu_protocol q"] by (simp add: nth_slice)
  have hear: "status_step s i =
      (if k \<in> S then if slice b (3 * k) 3 \<noteq> slice msg (3 * k) 3 then finish_status PEER_STATUS_INVALID u else u
       else
         let w = u\<lparr>ps_client_bytes := b', ps_client_received := ps_client_received u OR push_bit k 1\<rparr>
         in if ps_client_received w = push_bit (chunk_count (qu_protocol q)) 1 - 1 then finish_status PEER_STATUS_OK w else w)"
    using u k k32 first
    unfolding i status_step.simps peer_status_receive_response_def u_def [symmetric] Let_def f status_collecting_def
    by (auto simp: b'_def)
  have bits: "\<forall>j<32. bit (ps_client_received u OR push_bit k 1) j \<longleftrightarrow> j \<in> insert k S"
    using u k32 by (auto simp: status_collecting_def bit_simps)
  have all: "ps_client_received u OR push_bit k 1 = push_bit (chunk_count (qu_protocol q)) 1 - 1
      \<longleftrightarrow> insert k S = {..<chunk_count (qu_protocol q)}"
    using received_all [OF chunk_count_le(1) bits] u k by (simp add: status_collecting_def)
  show "status_collecting q (status_step s i) S b" if "k \<in> S" "slice b (3 * k) 3 = slice msg (3 * k) 3"
    using that u by (simp add: hear)
  show "status_collecting q (status_step s i) (insert k S) b'"
    if "k \<notin> S" "insert k S \<noteq> {..<chunk_count (qu_protocol q)}"
    using that u k bits all by (simp add: hear Let_def status_collecting_def del: push_bit_of_1)
  show "status_finished q (status_step s i) b'" if "k \<notin> S" "insert k S = {..<chunk_count (qu_protocol q)}"
    using that u k all
    by (simp add: hear Let_def status_collecting_def status_finished_def finish_status_def status_reply_def
        split: prod.splits del: push_bit_of_1)
qed

interpretation status_reply: chunked_reply status_step "status_heard q" "status_finished q" "status_own q"
  "status_foreign q" "chunk_count (qu_protocol q)" 3
  for q
proof
  fix s S b i
  assume c: "status_heard q s S b" and f: "status_foreign q i"
  then show "status_heard q (status_step s i) S b" using foreign_collecting [of q s S b i] by (simp add: status_heard_def)
next
  fix msg k k' i
  assume "status_own q msg k i" "status_own q msg k' i"
  then have eq: "status_chunk (qu_wire_token q) msg k = status_chunk (qu_wire_token q) msg k'"
    and k: "k < chunk_count (qu_protocol q)" "k' < chunk_count (qu_protocol q)" "length msg = 3 * chunk_count (qu_protocol q)"
    by (cases i; auto)+
  have "k < 256" "k' < 256" using k(1,2) chunk_count_le(1) [of "qu_protocol q"] by simp_all
  with k show "k = k'" by (intro chunk_inj [OF eq]) simp_all
next
  fix s S b msg k i
  assume h: "status_heard q s S b" and own: "status_own q msg k i"
  have a: "status_collecting q s S b" using h by (simp add: status_heard_def)
  show "status_heard q (status_step s i) S b" if "k \<in> S" "slice b (3 * k) 3 = slice msg (3 * k) 3"
    using hear_own(1) [OF a own that] h by (simp add: status_heard_def)
  show "status_heard q (status_step s i) (insert k S) (blit b (3 * k) (slice msg (3 * k) 3))"
    if "k \<notin> S" "insert k S \<noteq> {..<chunk_count (qu_protocol q)}"
    using hear_own(2) [OF a own that] by (simp add: status_heard_def)
  show "status_finished q (status_step s i) (blit b (3 * k) (slice msg (3 * k) 3))"
    if "k \<notin> S" "insert k S = {..<chunk_count (qu_protocol q)}"
    using hear_own(3) [OF a own that] .
next
  fix s b msg k i
  assume "status_finished q s b"
  then show "status_finished q (status_step s i) b" by (rule hear_finished)
qed

text \<open>From a client that has heard nothing yet: until the first chunk it must not come to a fallback pass.\<close>

lemma reply_delivered:
  assumes c: "status_collecting q s {} b" and b: "3 * chunk_count (qu_protocol q) \<le> length b"
    and len: "length msg = 3 * chunk_count (qu_protocol q)"
    and all: "\<forall>i\<in>set is. (\<exists>k<chunk_count (qu_protocol q). status_own q msg k i) \<or> status_foreign q i"
    and each: "\<forall>k<chunk_count (qu_protocol q). \<exists>i\<in>set is. status_own q msg k i"
    and patient: "\<forall>j<length is. fallback_pass (qu_protocol q) (ps_client_sent_at_us s) (is ! j)
      \<longrightarrow> (\<exists>i<j. \<exists>k. status_own q msg k (is ! i))"
  shows "status_finished q (foldl status_step s is) (msg @ drop (3 * chunk_count (qu_protocol q)) b)"
proof -
  let ?n = "chunk_count (qu_protocol q)"
  have "\<exists>i\<in>set is. \<exists>k. status_own q msg k i" using each chunk_count_le(2) by blast
  then obtain pre x post where is_eq: "is = pre @ x # post" and x: "\<exists>k. status_own q msg k x"
    and pre: "\<forall>i\<in>set pre. \<not> (\<exists>k. status_own q msg k i)"
    by (rule split_list_first_propE)
  obtain k where k: "status_own q msg k x" using x by blast
  have k_n: "k < ?n" using k by (cases x) simp_all
  have early: "\<forall>i\<in>set pre. status_foreign q i \<and> \<not> fallback_pass (qu_protocol q) (ps_client_sent_at_us s) i"
  proof
    fix i assume i: "i \<in> set pre"
    then obtain j where j: "j < length pre" "i = pre ! j" by (auto simp: in_set_conv_nth)
    have no: "\<not> (\<exists>i<j. \<exists>k. status_own q msg k (is ! i))"
      using pre j by (auto simp: is_eq nth_append)
    have "\<not> fallback_pass (qu_protocol q) (ps_client_sent_at_us s) i"
      using spec [OF patient, of j] no j by (auto simp: is_eq nth_append)
    moreover have "i \<in> set is" "\<not> (\<exists>k. status_own q msg k i)" using i pre by (auto simp: is_eq)
    then have "status_foreign q i" using all by blast
    ultimately show "status_foreign q i \<and> \<not> fallback_pass (qu_protocol q) (ps_client_sent_at_us s) i" by blast
  qed
  let ?s = "foldl status_step s pre" and ?b = "blit b (3 * k) (slice msg (3 * k) 3)"
  have n2: "{k} \<noteq> {..<?n}"
  proof
    assume "{k} = {..<?n}"
    then have "card {k} = card {..<?n}" by (rule arg_cong)
    then show False by (simp add: chunk_count_def split: if_splits)
  qed
  have heard: "status_heard q (status_step ?s x) {k} ?b"
    using hear_own(2) [OF waiting_collecting [OF c early] k] n2 by (simp add: status_heard_def)
  have t: "status_reply.tracks q msg {k} ?b"
    using status_reply.tracks_blit [of q msg "{}" b k] b len k_n by (simp add: status_reply.tracks_def)
  have rest: "\<forall>j<?n. j \<notin> {k} \<longrightarrow> (\<exists>i\<in>set post. status_own q msg j i)"
    using each pre status_reply.own_unique [OF k] by (fastforce simp: is_eq)
  have "status_finished q (foldl status_step (status_step ?s x) post) (msg @ drop (3 * ?n) ?b)"
    by (rule status_reply.delivered_from [OF heard t n2 _ rest len]) (use all in \<open>auto simp: is_eq\<close>)
  then show ?thesis using status_reply.drop_blit_msg [OF len b k_n] by (simp add: is_eq)
qed

text \<open>The payload of reply chunk \<open>k\<close> that a serving board sends.\<close>

definition reply_payload :: "peer_status \<Rightarrow> nat \<Rightarrow> bytes" where
  "reply_payload s k = status_payload PEER_STATUS_RESPONSE (s\<lparr>ps_server_next_chunk := of_nat k\<rparr>)"

lemma accepted_request:
  assumes "peer_status_receive_request req sn now s = (True, s')"
  shows "req ! 4 = PEER_STATUS_PROTOCOL \<or> req ! 4 = PEER_STATUS_LEGACY_PROTOCOL" "sn_role sn = ps_local_role s"
    "ps_server_token s' = ucast (read_le req 0 4)" "ps_server_bytes s' = encode_snapshot (req ! 4) sn"
    "unat (ps_server_chunk_count s') = chunk_count (req ! 4)" "ps_server_next_chunk s' = 0" "ps_server_active s'"
proof -
  have role: "ps_local_role (expire_status now s) = ps_local_role s"
    by (simp add: expire_status_def Let_def finish_status_def split: prod.splits)
  have n: "unat (of_nat (chunk_count p) :: u8) = chunk_count p" for p
    by (simp add: chunk_count_def)
  show "req ! 4 = PEER_STATUS_PROTOCOL \<or> req ! 4 = PEER_STATUS_LEGACY_PROTOCOL" "sn_role sn = ps_local_role s"
    "ps_server_token s' = ucast (read_le req 0 4)" "ps_server_bytes s' = encode_snapshot (req ! 4) sn"
    "unat (ps_server_chunk_count s') = chunk_count (req ! 4)" "ps_server_next_chunk s' = 0" "ps_server_active s'"
    using assms role by (auto simp: peer_status_receive_request_def Let_def n split: if_splits)
qed

lemma encode_head:
  assumes "snapshot_ok sn"
  shows "encode_snapshot p sn ! 0 = p" "encode_snapshot p sn ! 1 = sn_role sn"
    "length (encode_snapshot p sn) = 78" "p = PEER_STATUS_LEGACY_PROTOCOL \<Longrightarrow> drop 39 (encode_snapshot p sn) = replicate 39 0"
  using assms length_encode_identity [of sn p]
  by (auto simp: encode_snapshot_def encode_identity_def Let_def snapshot_ok_def length_encode_snapshot length_encode_runtime
      drop_Cons' drop_append)

fun is_chunk :: "peer_status \<Rightarrow> status_event \<Rightarrow> bool" where
  "is_chunk s (Reply_in payload now) \<longleftrightarrow> (\<exists>k<unat (ps_server_chunk_count s). payload = reply_payload s k)"
| "is_chunk s _ \<longleftrightarrow> False"

lemma reply_own:
  assumes accepted: "peer_status_receive_request (status_payload PEER_STATUS_REQUEST c) sn now s = (True, s')"
    and other: "ps_local_role s = ps_local_role c XOR 1" and sampled: "snapshot_ok sn"
    and k: "k < chunk_count (ps_client_protocol c)"
  shows "status_own \<lparr>qu_token = ps_client_token c, qu_wire_token = ps_client_wire_token c,
      qu_protocol = ps_client_protocol c, qu_role = ps_local_role c, qu_started = ps_client_started_us c\<rparr>
      (take (3 * chunk_count (ps_client_protocol c)) (encode_snapshot (ps_client_protocol c) sn)) k
      (Reply_in (reply_payload s' k) t) \<longleftrightarrow> t - ps_client_started_us c < 500000"
    "unat (ps_server_chunk_count s') = chunk_count (ps_client_protocol c)"
proof -
  define n where "n = chunk_count (ps_client_protocol c)"
  define e where "e = encode_snapshot (ps_client_protocol c) sn"
  define msg where "msg = take (3 * n) e"
  have req: "status_payload PEER_STATUS_REQUEST c ! 4 = ps_client_protocol c"
      "ucast (read_le (status_payload PEER_STATUS_REQUEST c) 0 4) = ps_client_wire_token c"
    by (simp_all add: status_payload_def layout_simps)
  note acc = accepted_request [OF accepted, unfolded req]
  note enc = encode_head [OF sampled, of "ps_client_protocol c", folded e_def]
  have n: "n = 13 \<or> n = 26" "n \<le> 26" "0 < n" by (auto simp: n_def chunk_count_def)
  have len: "length msg = 3 * n" using enc(3) n by (auto simp: msg_def)
  have "unat (of_nat k :: u8) = k" using k n(2) by (simp add: n_def unsigned_of_nat take_bit_nat_eq_self)
  moreover have "slice e (3 * k) 3 = slice msg (3 * k) 3"
    using k n enc(3) by (intro nth_equalityI) (auto simp: nth_slice msg_def n_def)
  ultimately have payload: "reply_payload s' k = status_chunk (ps_client_wire_token c) msg k"
    by (simp add: reply_payload_def status_payload_def status_chunk_def acc e_def)
  have nth: "msg ! 0 = ps_client_protocol c" "msg ! 1 = ps_local_role c XOR 1"
    using enc(1,2) n acc(2) other by (auto simp: msg_def)
  show "status_own \<lparr>qu_token = ps_client_token c, qu_wire_token = ps_client_wire_token c,
      qu_protocol = ps_client_protocol c, qu_role = ps_local_role c, qu_started = ps_client_started_us c\<rparr>
      (take (3 * chunk_count (ps_client_protocol c)) (encode_snapshot (ps_client_protocol c) sn)) k
      (Reply_in (reply_payload s' k) t) \<longleftrightarrow> t - ps_client_started_us c < 500000"
    using k payload len nth unfolding n_def [symmetric] e_def [symmetric] msg_def [symmetric]
    by (simp add: status_in_time_def n_def)
  show "unat (ps_server_chunk_count s') = chunk_count (ps_client_protocol c)" using acc(5) .
qed

text \<open>
  C37. A status query is answered with what the other board sampled. If the other board accepts the request, and
  every chunk of its reply arrives at least once within half a second of the start of the query, in any order, any
  number of times, and mixed with any packets of other queries, any requests of the other board and any passes of the
  task, then the query ends with the outcome OK under its own token, and the snapshot is exactly the one the server
  took when it accepted the request (without the runtime part when the legacy protocol was asked for). The one
  condition on the task: the client gives the current protocol up for the legacy one when it runs 150 ms or more
  after the request left without having heard any chunk, so a first chunk has to arrive before such a pass.
\<close>

theorem peer_status_query_answered:
  assumes asked: "ps_client_active c" "ps_client_sent c" "ps_client_received c = 0" "ps_client_bytes c = replicate 78 0"
    and accepted: "peer_status_receive_request (status_payload PEER_STATUS_REQUEST c) sn now s = (True, s')"
    and other: "ps_local_role s = ps_local_role c XOR 1" and sampled: "snapshot_ok sn"
    and timely: "\<forall>i\<in>set is. event_time i - ps_client_started_us c < 500000"
    and arrivals: "\<forall>i\<in>set is. is_chunk s' i \<or> other_packet (ps_client_wire_token c) i"
    and all: "\<forall>k<unat (ps_server_chunk_count s'). \<exists>now. Reply_in (reply_payload s' k) now \<in> set is"
    and patient: "\<forall>j<length is. fallback_pass (ps_client_protocol c) (ps_client_sent_at_us c) (is ! j)
      \<longrightarrow> (\<exists>i<j. is_chunk s' (is ! i))"
  shows "ps_result_ready (foldl status_step c is) \<and> \<not> ps_client_active (foldl status_step c is)
    \<and> ps_result (foldl status_step c is) = (status_result (ps_client_token c) PEER_STATUS_OK)
        \<lparr>sr_snapshot := received_snapshot (ps_client_protocol c) sn\<rparr>"
proof -
  define q where "q = \<lparr>qu_token = ps_client_token c, qu_wire_token = ps_client_wire_token c,
    qu_protocol = ps_client_protocol c, qu_role = ps_local_role c, qu_started = ps_client_started_us c\<rparr>"
  define n where "n = chunk_count (ps_client_protocol c)"
  define e where "e = encode_snapshot (ps_client_protocol c) sn"
  define msg where "msg = take (3 * n) e"
  have n: "n = 13 \<or> n = 26" "n \<le> 26" "0 < n" by (auto simp: n_def chunk_count_def)
  have own: "status_own q msg k (Reply_in (reply_payload s' k) t) \<longleftrightarrow> t - ps_client_started_us c < 500000"
    if "k < n" for k t
    using reply_own(1) [OF accepted other sampled, of k t] that by (simp add: q_def n_def e_def msg_def)
  have count: "unat (ps_server_chunk_count s') = n"
    using reply_own(2) [OF accepted other sampled n(3) [unfolded n_def]] by (simp add: n_def)
  have chunk: "\<exists>k<n. status_own q msg k i" if i: "i \<in> set is" "is_chunk s' i" for i
  proof (cases i)
    case (Reply_in payload now)
    then obtain k where k: "k < n" "i = Reply_in (reply_payload s' k) now" using i(2) count by auto
    moreover have "now - ps_client_started_us c < 500000" using bspec [OF timely i(1)] Reply_in by simp
    ultimately show ?thesis using own by blast
  qed (use i in simp_all)
  have "status_collecting q c {} (replicate 78 0)" using asked by (simp add: status_collecting_def q_def)
  moreover have "\<forall>i\<in>set is. (\<exists>k<n. status_own q msg k i) \<or> status_foreign q i"
  proof
    fix i assume i: "i \<in> set is"
    have "status_foreign q i" if "other_packet (ps_client_wire_token c) i"
      using that bspec [OF timely i] by (simp add: status_foreign_def q_def status_in_time_def)
    then show "(\<exists>k<n. status_own q msg k i) \<or> status_foreign q i" using bspec [OF arrivals i] chunk [OF i] by blast
  qed
  moreover have "\<forall>k<n. \<exists>i\<in>set is. status_own q msg k i"
  proof (intro allI impI)
    fix k assume k: "k < n"
    then obtain t where t: "Reply_in (reply_payload s' k) t \<in> set is" using all count by blast
    then show "\<exists>i\<in>set is. status_own q msg k i" using own [OF k] bspec [OF timely t] by (intro bexI [OF _ t]) simp
  qed
  moreover have "\<forall>j<length is. fallback_pass (ps_client_protocol c) (ps_client_sent_at_us c) (is ! j)
      \<longrightarrow> (\<exists>i<j. \<exists>k. status_own q msg k (is ! i))"
  proof (intro allI impI)
    fix j assume j: "j < length is" "fallback_pass (ps_client_protocol c) (ps_client_sent_at_us c) (is ! j)"
    then obtain i where i: "i < j" "is_chunk s' (is ! i)" using patient by blast
    have "is ! i \<in> set is" using i(1) j(1) by simp
    then show "\<exists>i<j. \<exists>k. status_own q msg k (is ! i)" using chunk i by blast
  qed
  moreover have len: "length msg = 3 * n" using encode_head(3) [OF sampled] n by (auto simp: msg_def e_def)
  ultimately have fin: "status_finished q (foldl status_step c is) (msg @ drop (3 * n) (replicate 78 0))"
    using reply_delivered [of q c "replicate 78 0" msg "is"] n by (simp add: q_def n_def [symmetric])
  have "msg @ drop (3 * n) (replicate 78 0) = e"
  proof (cases "ps_client_protocol c = PEER_STATUS_LEGACY_PROTOCOL")
    case True
    then have "msg @ drop (3 * n) (replicate 78 0) = take 39 e @ drop 39 e"
      using encode_head(4) [OF sampled] by (simp add: n_def chunk_count_def msg_def e_def)
    then show ?thesis by simp
  qed (use encode_head(3) [OF sampled] in \<open>simp add: n_def chunk_count_def msg_def e_def\<close>)
  then show ?thesis
    using fin decode_encode_snapshot [OF sampled, of "ps_client_protocol c"]
    by (simp add: status_finished_def status_reply_def e_def q_def status_result_def)
qed

definition sample_snapshot :: peer_status_snapshot where
  "sample_snapshot = zero_snapshot\<lparr>sn_role := 1, sn_major := 3, sn_board_id := [1, 2, 3, 4, 5, 6, 7, 8]\<rparr>"

definition sample_asking :: peer_status where
  "sample_asking = snd (peer_status_task 10 (\<lambda>_ _. True) (snd (peer_status_start 7 5 (peer_status_init 0))))"

definition sample_serving :: peer_status where
  "sample_serving = snd (peer_status_receive_request (status_payload PEER_STATUS_REQUEST sample_asking) sample_snapshot 20
     (peer_status_init 1))"

lemmas sample_asking_simps = sample_asking_def peer_status_task_def peer_status_start_def peer_status_init_def
  expire_status_def status_fallback_def Let_def

lemma sample_accepted:
  "peer_status_receive_request (status_payload PEER_STATUS_REQUEST sample_asking) sample_snapshot 20 (peer_status_init 1)
     = (True, sample_serving)"
  by (simp add: sample_serving_def peer_status_receive_request_def sample_asking_simps status_payload_def layout_simps
      sample_snapshot_def)

lemma sample_asking_fields:
  "ps_client_active sample_asking" "ps_client_sent sample_asking" "ps_client_received sample_asking = 0"
  "ps_client_bytes sample_asking = replicate 78 0" "ps_client_started_us sample_asking = 5" "ps_client_sent_at_us sample_asking = 10"
  "ps_client_token sample_asking = 7" "ps_client_protocol sample_asking = 2" "ps_local_role sample_asking = 0"
  by (simp_all add: sample_asking_simps)

lemma sample_snapshot_ok: "snapshot_ok sample_snapshot"
  by (simp add: snapshot_ok_def sample_snapshot_def zero_snapshot_def runtime_ok_def zero_runtime_def)

definition sample_replies :: "status_event list" where
  "sample_replies = Task_pass 149000 (\<lambda>_ _. True) # Reply_in (reply_payload sample_serving 3) 149500
     # Task_pass 400000 (\<lambda>_ _. False) # map (\<lambda>k. Reply_in (reply_payload sample_serving k) 400030) [0..<26]"

theorem peer_status_query_answered_witness:
  "ps_result (foldl status_step sample_asking sample_replies)
     = (status_result 7 PEER_STATUS_OK)\<lparr>sr_snapshot := received_snapshot 2 sample_snapshot\<rparr>"
proof -
  have n: "unat (ps_server_chunk_count sample_serving) = 26"
    using accepted_request(5) [OF sample_accepted]
    by (simp add: status_payload_def layout_simps chunk_count_def sample_asking_fields)
  have role: "ps_local_role (peer_status_init 1) = ps_local_role sample_asking XOR 1"
    by (simp add: sample_asking_fields peer_status_init_def)
  have time: "\<forall>i\<in>set sample_replies. event_time i - ps_client_started_us sample_asking < 500000"
    by (auto simp: sample_asking_fields sample_replies_def)
  have own: "\<forall>i\<in>set sample_replies. is_chunk sample_serving i \<or> other_packet (ps_client_wire_token sample_asking) i"
    unfolding sample_replies_def by (force simp: n)
  have all: "\<forall>k<unat (ps_server_chunk_count sample_serving). \<exists>now. Reply_in (reply_payload sample_serving k) now \<in> set sample_replies"
    unfolding n sample_replies_def by force
  have patient: "\<forall>j<length sample_replies. fallback_pass (ps_client_protocol sample_asking)
      (ps_client_sent_at_us sample_asking) (sample_replies ! j) \<longrightarrow> (\<exists>i<j. is_chunk sample_serving (sample_replies ! i))"
  proof (intro allI impI)
    fix j
    assume pass: "fallback_pass (ps_client_protocol sample_asking) (ps_client_sent_at_us sample_asking) (sample_replies ! j)"
    have "j \<noteq> 0" by (rule notI) (use pass in \<open>simp add: sample_replies_def sample_asking_fields\<close>)
    moreover have "j \<noteq> 1" by (rule notI) (use pass in \<open>simp add: sample_replies_def sample_asking_fields\<close>)
    moreover have "is_chunk sample_serving (sample_replies ! 1)"
      by (simp add: sample_replies_def n) (rule exI [of _ 3], simp)
    ultimately show "\<exists>i<j. is_chunk sample_serving (sample_replies ! i)" by (metis less_one linorder_neqE_nat)
  qed
  show ?thesis
    using peer_status_query_answered [OF sample_asking_fields(1-4) sample_accepted role sample_snapshot_ok time own all patient]
    by (simp add: sample_asking_fields)
qed

end
