(* ===== verification/Peer_Observe.thy ===== *)
theory Peer_Observe
  imports Peer_Status
begin

text \<open>
  What one board concludes about the other from successive status snapshots (peer\_observation.c): whether it is the
  same boot, whether both its cores advance, and whether an update seen before a reset is really running afterwards.
\<close>

unbundle bit_operations_syntax

record observer =
  po_seen :: bool
  po_previous :: peer_status_snapshot
  po_expected :: bool
  po_reboot_seen :: bool
  po_confirmed :: bool
  po_expected_id :: bytes
  po_previous_session :: u64
  po_previous_attempt :: u32
  po_target_version :: u16

definition peer_observation_init :: observer where
  "peer_observation_init = \<lparr>po_seen = False, po_previous = zero_snapshot, po_expected = False, po_reboot_seen = False,
     po_confirmed = False, po_expected_id = replicate 8 0, po_previous_session = 0, po_previous_attempt = 0,
     po_target_version = 0\<rparr>"

definition active_update :: "runtime_snapshot \<Rightarrow> bool" where
  "active_update r \<longleftrightarrow> rt_update_seen r \<and> rt_target_version r \<ge> 100
     \<and> rt_phase r \<ge> DIAGNOSTIC_UPDATE_RECEIVING \<and> rt_phase r \<le> DIAGNOSTIC_UPDATE_REBOOT_PENDING"

definition target_matches :: "u16 \<Rightarrow> peer_status_snapshot \<Rightarrow> bool" where
  "target_matches target peer \<longleftrightarrow> (ucast (sn_major peer) :: u32) * 1000 + ucast (sn_minor peer) + 100 = ucast target"

definition core_delta :: "nat \<Rightarrow> peer_status_snapshot \<Rightarrow> peer_status_snapshot \<Rightarrow> u32" where
  "core_delta core old new = rt_core_ticks (sn_runtime new) ! core - rt_core_ticks (sn_runtime old) ! core"

definition cores_advance :: "peer_status_snapshot \<Rightarrow> peer_status_snapshot \<Rightarrow> bool" where
  "cores_advance old new \<longleftrightarrow> sn_uptime_ms new > sn_uptime_ms old
     \<and> core_delta 0 old new \<noteq> 0 \<and> core_delta 0 old new < 0x80000000
     \<and> core_delta 1 old new \<noteq> 0 \<and> core_delta 1 old new < 0x80000000"

definition observed_progress :: "bool \<Rightarrow> peer_status_snapshot \<Rightarrow> peer_status_snapshot \<Rightarrow> peer_progress" where
  "observed_progress same_boot old new =
     (if sn_protocol new \<ge> 2 \<and> rt_core_valid (sn_runtime new) = 3
      then if same_boot \<and> sn_protocol old \<ge> 2 \<and> rt_core_valid (sn_runtime old) = 3
        then if cores_advance old new then DIAGNOSTIC_PROGRESS_ADVANCING else DIAGNOSTIC_PROGRESS_NOT_ADVANCING
        else DIAGNOSTIC_PROGRESS_BASELINE
      else DIAGNOSTIC_PROGRESS_UNAVAILABLE)"

definition observe_expectation :: "bool \<Rightarrow> peer_status_snapshot \<Rightarrow> observer \<Rightarrow> observer" where
  "observe_expectation same_id peer s =
     (if sn_protocol peer \<ge> 2 \<and> active_update (sn_runtime peer)
          \<and> (\<not> po_expected s \<or> \<not> same_id \<or> sn_boot_session peer \<noteq> po_previous_session s
              \<or> rt_update_attempt (sn_runtime peer) \<noteq> po_previous_attempt s)
      then s\<lparr>po_expected := True, po_reboot_seen := False, po_confirmed := False, po_expected_id := sn_board_id peer,
             po_previous_session := sn_boot_session peer, po_previous_attempt := rt_update_attempt (sn_runtime peer),
             po_target_version := rt_target_version (sn_runtime peer)\<rparr>
      else s)"

definition observe_execution ::
    "bool \<Rightarrow> peer_progress \<Rightarrow> peer_status_snapshot \<Rightarrow> observer \<Rightarrow> peer_execution \<times> observer" where
  "observe_execution same_boot progress peer s =
     (if \<not> po_expected s then (DIAGNOSTIC_EXECUTION_NOT_OBSERVED, s)
      else if po_expected_id s \<noteq> sn_board_id peer
      then (DIAGNOSTIC_EXECUTION_UNEXPECTED_BOOT, s\<lparr>po_expected := False\<rparr>)
      else if sn_boot_session peer = po_previous_session s
      then if sn_protocol peer \<ge> 2 \<and> (rt_phase (sn_runtime peer) = DIAGNOSTIC_UPDATE_FAILED
              \<or> rt_phase (sn_runtime peer) = DIAGNOSTIC_UPDATE_ABANDONED)
        then (DIAGNOSTIC_EXECUTION_NOT_OBSERVED, s\<lparr>po_expected := False\<rparr>)
        else (DIAGNOSTIC_EXECUTION_PENDING_REBOOT, s)
      else if po_reboot_seen s \<and> \<not> same_boot \<or> \<not> target_matches (po_target_version s) peer
      then (DIAGNOSTIC_EXECUTION_UNEXPECTED_BOOT, s\<lparr>po_expected := False\<rparr>)
      else
        let s = (if \<not> same_boot then s\<lparr>po_confirmed := False\<rparr> else s);
            s = s\<lparr>po_reboot_seen := True\<rparr>;
            s = (if same_boot \<and> progress = DIAGNOSTIC_PROGRESS_ADVANCING then s\<lparr>po_confirmed := True\<rparr> else s)
        in (if po_confirmed s then DIAGNOSTIC_EXECUTION_CONFIRMED else DIAGNOSTIC_EXECUTION_AWAITING_PROGRESS, s))"

definition peer_observation_accept :: "observer \<Rightarrow> peer_status_snapshot \<Rightarrow> peer_observation \<times> observer" where
  "peer_observation_accept s peer =
     (let same_id = (po_seen s \<and> sn_board_id (po_previous s) = sn_board_id peer);
          same_boot = (same_id \<and> sn_boot_session (po_previous s) = sn_boot_session peer);
          progress = observed_progress same_boot (po_previous s) peer
      in case observe_execution same_boot progress peer (observe_expectation same_id peer s) of (update, s') \<Rightarrow>
        (\<lparr>ob_boot = (if \<not> po_seen s then DIAGNOSTIC_PEER_FIRST_SEEN else if \<not> same_id then DIAGNOSTIC_PEER_IDENTITY_CHANGED
             else if \<not> same_boot then DIAGNOSTIC_PEER_NEW_BOOT else DIAGNOSTIC_PEER_SAME_BOOT),
          ob_progress = progress, ob_update = update\<rparr>,
         s'\<lparr>po_seen := True, po_previous := peer\<rparr>))"

subsection \<open>A confirmed update has evidence\<close>

text \<open>\<open>announced hist a\<close>: the peer was seen updating; \<open>ran hist id session target\<close>: two successive snapshots of that
  board in that boot session show both cores and the clock advancing under the target version.\<close>

definition announced :: "peer_status_snapshot list \<Rightarrow> bytes \<Rightarrow> u64 \<Rightarrow> u16 \<Rightarrow> bool" where
  "announced hist board session target \<longleftrightarrow> (\<exists>a\<in>set hist. sn_protocol a \<ge> 2 \<and> active_update (sn_runtime a)
     \<and> sn_board_id a = board \<and> sn_boot_session a = session \<and> rt_target_version (sn_runtime a) = target)"

definition ran :: "peer_status_snapshot list \<Rightarrow> bytes \<Rightarrow> u64 \<Rightarrow> u16 \<Rightarrow> bool" where
  "ran hist board session target \<longleftrightarrow> (\<exists>i. Suc i < length hist \<and> cores_advance (hist ! i) (hist ! Suc i)
     \<and> target_matches target (hist ! Suc i)
     \<and> (\<forall>x\<in>{hist ! i, hist ! Suc i}. sn_board_id x = board \<and> sn_boot_session x = session \<and> sn_protocol x \<ge> 2
          \<and> rt_core_valid (sn_runtime x) = 3))"

definition observer_inv :: "peer_status_snapshot list \<Rightarrow> observer \<Rightarrow> bool" where
  "observer_inv hist s \<longleftrightarrow> (po_seen s \<longleftrightarrow> hist \<noteq> []) \<and> (po_seen s \<longrightarrow> po_previous s = last hist)
     \<and> (po_expected s \<longrightarrow> announced hist (po_expected_id s) (po_previous_session s) (po_target_version s)
          \<and> (po_confirmed s \<longrightarrow> po_reboot_seen s)
          \<and> (po_confirmed s \<and> sn_boot_session (po_previous s) \<noteq> po_previous_session s
               \<longrightarrow> ran hist (po_expected_id s) (sn_boot_session (po_previous s)) (po_target_version s)))"

lemma announced_snoc: "announced hist b s t \<Longrightarrow> announced (hist @ [x]) b s t"
  by (auto simp: announced_def)

lemma ran_snoc:
  assumes "ran hist b s t"
  shows "ran (hist @ [x]) b s t"
proof -
  from assms obtain i where i: "Suc i < length hist" "cores_advance (hist ! i) (hist ! Suc i)" "target_matches t (hist ! Suc i)"
    "\<forall>x\<in>{hist ! i, hist ! Suc i}. sn_board_id x = b \<and> sn_boot_session x = s \<and> sn_protocol x \<ge> 2 \<and> rt_core_valid (sn_runtime x) = 3"
    unfolding ran_def by blast
  then have "(hist @ [x]) ! i = hist ! i" "(hist @ [x]) ! Suc i = hist ! Suc i" by (simp_all add: nth_append)
  with i show ?thesis unfolding ran_def by (intro exI [of _ i]) simp
qed

lemma ran_now:
  assumes "hist \<noteq> []" "observed_progress True (last hist) x = DIAGNOSTIC_PROGRESS_ADVANCING"
    and "sn_board_id (last hist) = sn_board_id x" "sn_boot_session (last hist) = sn_boot_session x" "target_matches t x"
  shows "ran (hist @ [x]) (sn_board_id x) (sn_boot_session x) t"
  unfolding ran_def
proof (intro exI conjI)
  show "Suc (length hist - 1) < length (hist @ [x])" using assms(1) by simp
qed (use assms in \<open>auto simp: nth_append last_conv_nth observed_progress_def split: if_splits\<close>)

definition expectation_ok :: "peer_status_snapshot list \<Rightarrow> peer_status_snapshot \<Rightarrow> observer \<Rightarrow> bool" where
  "expectation_ok hist peer s \<longleftrightarrow> (po_seen s \<longleftrightarrow> hist \<noteq> []) \<and> (po_seen s \<longrightarrow> po_previous s = last hist)
     \<and> (po_expected s \<longrightarrow> announced (hist @ [peer]) (po_expected_id s) (po_previous_session s) (po_target_version s)
          \<and> (po_confirmed s \<longrightarrow> po_reboot_seen s)
          \<and> (po_confirmed s \<and> sn_boot_session (po_previous s) \<noteq> po_previous_session s
               \<longrightarrow> ran hist (po_expected_id s) (sn_boot_session (po_previous s)) (po_target_version s)))"

lemma expectation_step: "observer_inv hist s \<Longrightarrow> expectation_ok hist peer (observe_expectation same_id peer s)"
  by (auto simp: observer_inv_def expectation_ok_def observe_expectation_def announced_def)

lemma execution_step:
  assumes ok: "expectation_ok hist peer s"
    and same: "same_boot \<longleftrightarrow> po_seen s \<and> sn_board_id (po_previous s) = sn_board_id peer
        \<and> sn_boot_session (po_previous s) = sn_boot_session peer"
    and step: "observe_execution same_boot (observed_progress same_boot (po_previous s) peer) peer s = (update, s')"
  shows "observer_inv (hist @ [peer]) (s'\<lparr>po_seen := True, po_previous := peer\<rparr>)"
    and "update = DIAGNOSTIC_EXECUTION_CONFIRMED \<Longrightarrow> po_expected s' \<and> po_confirmed s' \<and> po_expected_id s' = sn_board_id peer
      \<and> sn_boot_session peer \<noteq> po_previous_session s' \<and> target_matches (po_target_version s') peer"
proof -
  show "update = DIAGNOSTIC_EXECUTION_CONFIRMED \<Longrightarrow> po_expected s' \<and> po_confirmed s' \<and> po_expected_id s' = sn_board_id peer
      \<and> sn_boot_session peer \<noteq> po_previous_session s' \<and> target_matches (po_target_version s') peer"
    using step by (auto simp: observe_execution_def Let_def split: if_splits)
  have now: "ran (hist @ [peer]) (sn_board_id peer) (sn_boot_session peer) t"
    if "same_boot" "observed_progress same_boot (po_previous s) peer = DIAGNOSTIC_PROGRESS_ADVANCING" "target_matches t peer" for t
    using that ok same by (intro ran_now) (auto simp: expectation_ok_def)
  show "observer_inv (hist @ [peer]) (s'\<lparr>po_seen := True, po_previous := peer\<rparr>)"
  proof -
    have ann: "po_expected s \<Longrightarrow> announced (hist @ [peer]) (po_expected_id s) (po_previous_session s) (po_target_version s)"
      and reb: "po_expected s \<Longrightarrow> po_confirmed s \<Longrightarrow> po_reboot_seen s"
      using ok by (simp_all add: expectation_ok_def)
    have kept: "ran (hist @ [peer]) (po_expected_id s) (sn_boot_session peer) (po_target_version s)"
      if "same_boot" "po_expected s" "po_confirmed s" "sn_boot_session peer \<noteq> po_previous_session s"
      using ok that same by (intro ran_snoc) (simp add: expectation_ok_def)
    consider "\<not> po_expected s'"
      | "po_expected s" "s' = s" "sn_boot_session peer = po_previous_session s"
      | (boot) "po_expected s" "po_expected_id s = sn_board_id peer" "sn_boot_session peer \<noteq> po_previous_session s"
          "target_matches (po_target_version s) peer"
          "s' = s\<lparr>po_reboot_seen := True, po_confirmed := (same_boot \<and> (po_confirmed s
             \<or> observed_progress same_boot (po_previous s) peer = DIAGNOSTIC_PROGRESS_ADVANCING))\<rparr>"
      using step by (auto simp: observe_execution_def Let_def split: if_splits)
    then show ?thesis
    proof cases
      case boot
      then show ?thesis
        using ann kept now [of "po_target_version s"] by (auto simp: observer_inv_def)
    qed (use ann reb in \<open>auto simp: observer_inv_def\<close>)
  qed
qed

primrec observe_all :: "observer \<Rightarrow> peer_status_snapshot list \<Rightarrow> observer" where
  "observe_all s [] = s"
| "observe_all s (x # xs) = observe_all (snd (peer_observation_accept s x)) xs"

lemma observe_inv:
  assumes "observer_inv hist s" "peer_observation_accept s peer = (result, s')"
  shows "observer_inv (hist @ [peer]) s'"
    and "ob_update result = DIAGNOSTIC_EXECUTION_CONFIRMED \<Longrightarrow> po_expected s' \<and> po_confirmed s' \<and> po_expected_id s' = sn_board_id peer
      \<and> sn_boot_session peer \<noteq> po_previous_session s' \<and> target_matches (po_target_version s') peer"
proof -
  define same_id where "same_id = (po_seen s \<and> sn_board_id (po_previous s) = sn_board_id peer)"
  define t where "t = observe_expectation same_id peer s"
  have t: "expectation_ok hist peer t" unfolding t_def by (rule expectation_step [OF assms(1)])
  have f: "po_seen t = po_seen s" "po_previous t = po_previous s" by (simp_all add: t_def observe_expectation_def)
  define same_boot where "same_boot = (same_id \<and> sn_boot_session (po_previous s) = sn_boot_session peer)"
  have same: "same_boot \<longleftrightarrow> po_seen t \<and> sn_board_id (po_previous t) = sn_board_id peer
        \<and> sn_boot_session (po_previous t) = sn_boot_session peer"
    by (auto simp: same_boot_def same_id_def f)
  obtain update u where step: "observe_execution same_boot (observed_progress same_boot (po_previous t) peer) peer t = (update, u)"
    by fastforce
  have res: "ob_update result = update" "s' = u\<lparr>po_seen := True, po_previous := peer\<rparr>"
    using assms(2) step
    by (auto simp: peer_observation_accept_def Let_def same_id_def [symmetric] same_boot_def [symmetric] t_def [symmetric] f)
  show "observer_inv (hist @ [peer]) s'" using execution_step(1) [OF t same step] res by simp
  show "po_expected s' \<and> po_confirmed s' \<and> po_expected_id s' = sn_board_id peer
      \<and> sn_boot_session peer \<noteq> po_previous_session s' \<and> target_matches (po_target_version s') peer"
    if "ob_update result = DIAGNOSTIC_EXECUTION_CONFIRMED"
    using execution_step(2) [OF t same step] that res by simp
qed

lemma observe_all_inv: "observer_inv hist s \<Longrightarrow> observer_inv (hist @ xs) (observe_all s xs)"
proof (induction xs arbitrary: hist s)
  case (Cons x xs)
  have "observer_inv (hist @ [x]) (snd (peer_observation_accept s x))"
    using observe_inv(1) [OF Cons.prems, of x] by (cases "peer_observation_accept s x") simp
  from Cons.IH [OF this] show ?case by simp
qed simp

lemma observer_init_inv: "observer_inv [] peer_observation_init"
  by (simp add: observer_inv_def peer_observation_init_def)

text \<open>
  C38. An update is confirmed only on evidence. Whatever snapshots were accepted since start-up, if the next one is
  reported as a confirmed update, then an earlier snapshot of the same board, in another boot session, showed an update in
  progress to a version that the board now runs, and two successive snapshots of the present boot session show the clock
  and both cores advancing under that version.
\<close>

theorem peer_update_confirmed_evidence:
  assumes "peer_observation_accept (observe_all peer_observation_init hist) peer = (result, s')"
    and "ob_update result = DIAGNOSTIC_EXECUTION_CONFIRMED"
  shows "\<exists>session target. session \<noteq> sn_boot_session peer \<and> announced hist (sn_board_id peer) session target
    \<and> target_matches target peer \<and> ran (hist @ [peer]) (sn_board_id peer) (sn_boot_session peer) target"
proof -
  have inv: "observer_inv hist (observe_all peer_observation_init hist)"
    using observe_all_inv [OF observer_init_inv, of hist] by simp
  note c = observe_inv(2) [OF inv assms] and inv' = observe_inv(1) [OF inv assms(1)]
  have "announced (hist @ [peer]) (sn_board_id peer) (po_previous_session s') (po_target_version s')"
    using c inv' by (simp add: observer_inv_def)
  moreover have "po_previous s' = peer" using inv' by (simp add: observer_inv_def)
  ultimately show ?thesis
    using c inv'
    by (intro exI [of _ "po_previous_session s'"] exI [of _ "po_target_version s'"]) (auto simp: observer_inv_def announced_def)
qed

definition sample_peer :: "u64 \<Rightarrow> u64 \<Rightarrow> u32 \<Rightarrow> bool \<Rightarrow> peer_status_snapshot" where
  "sample_peer session uptime ticks updating = sample_snapshot\<lparr>sn_protocol := 2, sn_major := 1, sn_boot_session := session,
     sn_uptime_ms := uptime, sn_runtime := zero_runtime\<lparr>rt_core_valid := 3, rt_core_ticks := [ticks, ticks],
       rt_update_seen := updating, rt_target_version := if updating then 1100 else 0, rt_phase := if updating then 1 else 0\<rparr>\<rparr>"

theorem peer_update_confirmed_evidence_witness:
  "\<exists>session target. session \<noteq> 2
     \<and> announced [sample_peer 1 5 5 True, sample_peer 2 1 1 False] (sn_board_id sample_snapshot) session target
     \<and> target_matches target (sample_peer 2 9 9 False)"
proof -
  let ?hist = "[sample_peer 1 5 5 True, sample_peer 2 1 1 False]" and ?peer = "sample_peer 2 9 9 False"
  obtain r s' where step: "peer_observation_accept (observe_all peer_observation_init ?hist) ?peer = (r, s')" by fastforce
  moreover have "ob_update (fst (peer_observation_accept (observe_all peer_observation_init ?hist) ?peer)) = DIAGNOSTIC_EXECUTION_CONFIRMED"
    by (simp add: peer_observation_accept_def Let_def observe_expectation_def observe_execution_def active_update_def
        peer_observation_init_def sample_peer_def zero_runtime_def sample_snapshot_def zero_snapshot_def target_matches_def
        observed_progress_def cores_advance_def core_delta_def)
  moreover have "sn_boot_session ?peer = 2" "sn_board_id ?peer = sn_board_id sample_snapshot" by (simp_all add: sample_peer_def)
  ultimately show ?thesis using peer_update_confirmed_evidence [OF step] by auto
qed

end
