(* ===== verification/Verification.thy ===== *)
theory Verification
  imports Flash_Store Peer_Status Queue
begin

text \<open>
  Verification of the image a board runs: the verdict on a scan (verification.c) and the scanner that reads the
  whole firmware slot page by page while the board keeps working (diagnostic\_verify.c). The scanner runs on the flash
  model of Flash\_Store, where any other component may write between two of its steps; \<open>got\<close> tells which of the two
  try-locks a call obtains.
\<close>

unbundle bit_operations_syntax

subsection \<open>Snapshots and verdicts\<close>

datatype verify_scan_outcome = VERIFY_SCAN_COMPLETE | VERIFY_SCAN_UPDATE_ACTIVE | VERIFY_SCAN_CHANGED
  | VERIFY_SCAN_BUSY | VERIFY_SCAN_TIMEOUT

record verify_snapshot =
  vs_role :: u8
  vs_major :: u16
  vs_minor :: u16
  vs_board_id :: bytes
  vs_boot_session :: u64
  vs_image_crc_at_boot :: u32
  vs_started_us :: u64
  vs_completed_us :: u64
  vs_generation_start :: u64
  vs_generation_end :: u64
  vs_bytes_read :: u32
  vs_slot_crc32 :: u32
  vs_metadata_magic :: u32
  vs_metadata_version :: u16
  vs_metadata_reserved :: u16
  vs_metadata_crc32 :: u32
  vs_start :: runtime_snapshot
  vs_end :: runtime_snapshot
  vs_outcome :: verify_scan_outcome

datatype verify_transport = VERIFY_TRANSPORT_OK | VERIFY_TRANSPORT_TIMEOUT | VERIFY_TRANSPORT_INVALID
  | VERIFY_TRANSPORT_BUSY

record verify_result =
  vr_token :: u32
  vr_remote :: bool
  vr_transport :: verify_transport
  vr_snapshot :: verify_snapshot

datatype verify_verdict = VERIFY_PASS | VERIFY_FAIL | VERIFY_UNVERIFIED

datatype verify_reason = VERIFY_REASON_MATCH | VERIFY_REASON_BUILD | VERIFY_REASON_CRC | VERIFY_REASON_METADATA
  | VERIFY_REASON_UPDATE_ACTIVE | VERIFY_REASON_CHANGED | VERIFY_REASON_BUSY | VERIFY_REASON_TIMEOUT
  | VERIFY_REASON_INVALID | VERIFY_REASON_CORE_UNAVAILABLE | VERIFY_REASON_CORE_PROGRESS | VERIFY_REASON_EXPIRED

definition zero_verify_snapshot :: verify_snapshot where
  "zero_verify_snapshot = \<lparr>vs_role = 0, vs_major = 0, vs_minor = 0, vs_board_id = replicate 8 0, vs_boot_session = 0,
     vs_image_crc_at_boot = 0, vs_started_us = 0, vs_completed_us = 0, vs_generation_start = 0, vs_generation_end = 0,
     vs_bytes_read = 0, vs_slot_crc32 = 0, vs_metadata_magic = 0, vs_metadata_version = 0, vs_metadata_reserved = 0,
     vs_metadata_crc32 = 0, vs_start = zero_runtime, vs_end = zero_runtime, vs_outcome = VERIFY_SCAN_COMPLETE\<rparr>"

definition transport_reason :: "verify_transport \<Rightarrow> verify_reason" where
  "transport_reason t = (if t = VERIFY_TRANSPORT_TIMEOUT then VERIFY_REASON_TIMEOUT
     else if t = VERIFY_TRANSPORT_BUSY then VERIFY_REASON_BUSY else VERIFY_REASON_INVALID)"

definition outcome_reason :: "verify_scan_outcome \<Rightarrow> verify_reason" where
  "outcome_reason out = (if out = VERIFY_SCAN_UPDATE_ACTIVE then VERIFY_REASON_UPDATE_ACTIVE
     else if out = VERIFY_SCAN_CHANGED then VERIFY_REASON_CHANGED else if out = VERIFY_SCAN_BUSY then VERIFY_REASON_BUSY
     else if out = VERIFY_SCAN_TIMEOUT then VERIFY_REASON_TIMEOUT else VERIFY_REASON_INVALID)"

definition core_stuck :: "verify_snapshot \<Rightarrow> nat \<Rightarrow> bool" where
  "core_stuck s core \<longleftrightarrow>
     (let delta = rt_core_ticks (vs_end s) ! core - rt_core_ticks (vs_start s) ! core
      in delta = 0 \<or> delta \<ge> 0x80000000 \<or> rt_core_age_ms (vs_end s) ! core > 100)"

definition verification_assess :: "verify_result \<Rightarrow> u16 \<Rightarrow> u32 \<Rightarrow> verify_verdict \<times> verify_reason" where
  "verification_assess result expected_version expected_slot_crc32 =
     (let s = vr_snapshot result; version = (ucast (vs_major s) :: u32) * 1000 + ucast (vs_minor s) + 100 in
      if vr_transport result \<noteq> VERIFY_TRANSPORT_OK then (VERIFY_UNVERIFIED, transport_reason (vr_transport result))
      else if vs_outcome s \<noteq> VERIFY_SCAN_COMPLETE then (VERIFY_UNVERIFIED, outcome_reason (vs_outcome s))
      else if vs_role s > 1 \<or> vs_minor s \<ge> 1000 \<or> vs_bytes_read s \<noteq> 262144
          \<or> vs_completed_us s \<le> vs_started_us s \<or> vs_completed_us s - vs_started_us s > 3000000
      then (VERIFY_UNVERIFIED, VERIFY_REASON_INVALID)
      else if vs_generation_start s \<noteq> vs_generation_end s
          \<or> rt_update_attempt (vs_start s) \<noteq> rt_update_attempt (vs_end s)
          \<or> rt_phase (vs_start s) \<noteq> rt_phase (vs_end s) \<or> rt_source (vs_start s) \<noteq> rt_source (vs_end s)
      then (VERIFY_UNVERIFIED, VERIFY_REASON_CHANGED)
      else if version > 0xffff \<or> vs_metadata_magic s \<noteq> 0xf00d \<or> vs_metadata_reserved s \<noteq> 0
          \<or> ucast (vs_metadata_version s) \<noteq> version \<or> vs_metadata_crc32 s \<noteq> vs_image_crc_at_boot s
      then (VERIFY_FAIL, VERIFY_REASON_METADATA)
      else if version \<noteq> ucast expected_version then (VERIFY_FAIL, VERIFY_REASON_BUILD)
      else if vs_slot_crc32 s \<noteq> expected_slot_crc32 then (VERIFY_FAIL, VERIFY_REASON_CRC)
      else if rt_core_valid (vs_start s) \<noteq> 3 \<or> rt_core_valid (vs_end s) \<noteq> 3
      then (VERIFY_UNVERIFIED, VERIFY_REASON_CORE_UNAVAILABLE)
      else if core_stuck s 0 \<or> core_stuck s 1 then (VERIFY_UNVERIFIED, VERIFY_REASON_CORE_PROGRESS)
      else (VERIFY_PASS, VERIFY_REASON_MATCH))"

subsection \<open>The scanner\<close>

datatype scan_owner = SCAN_FREE | SCAN_LOCAL | SCAN_REMOTE

record scanner =
  sc_owner :: scan_owner
  sc_begun :: bool
  sc_ready :: bool
  sc_token :: u32
  sc_crc :: u32
  sc_requested_us :: u64
  sc_initial_metadata :: bytes
  sc_snapshot :: verify_snapshot

text \<open>The scanner with the time of its last step.\<close>

record scan_unit =
  su_tick_seen :: bool
  su_last_tick_us :: u64
  su_scanner :: scanner

definition io_outcome :: "firmware_verify_io \<Rightarrow> verify_scan_outcome" where
  "io_outcome status = (case status of
       FIRMWARE_VERIFY_UPDATE_ACTIVE \<Rightarrow> VERIFY_SCAN_UPDATE_ACTIVE
     | FIRMWARE_VERIFY_CHANGED \<Rightarrow> VERIFY_SCAN_CHANGED
     | FIRMWARE_VERIFY_BUSY \<Rightarrow> VERIFY_SCAN_BUSY
     | _ \<Rightarrow> VERIFY_SCAN_CHANGED)"

definition metadata_copy :: "bytes \<Rightarrow> verify_snapshot \<Rightarrow> verify_snapshot" where
  "metadata_copy m s = s\<lparr>vs_metadata_magic := get32 m 0, vs_metadata_version := get16 m 4,
     vs_metadata_reserved := get16 m 6, vs_metadata_crc32 := get32 m 8\<rparr>"

definition scan_start :: "peer_status_snapshot \<Rightarrow> bool \<Rightarrow> u32 \<Rightarrow> u64 \<Rightarrow> scanner" where
  "scan_start identity remote token requested =
     \<lparr>sc_owner = (if remote then SCAN_REMOTE else SCAN_LOCAL), sc_begun = False, sc_ready = False, sc_token = token,
      sc_crc = 0xffffffff, sc_requested_us = requested, sc_initial_metadata = replicate 12 0,
      sc_snapshot = zero_verify_snapshot\<lparr>vs_role := sn_role identity, vs_major := sn_major identity,
        vs_minor := sn_minor identity, vs_board_id := sn_board_id identity, vs_boot_session := sn_boot_session identity,
        vs_image_crc_at_boot := sn_image_crc_at_boot identity\<rparr>\<rparr>"

definition scan_finish :: "verify_scan_outcome \<Rightarrow> u64 \<Rightarrow> runtime_snapshot \<Rightarrow> scanner \<Rightarrow> scanner" where
  "scan_finish out now rt sc =
     sc\<lparr>sc_snapshot := (sc_snapshot sc)\<lparr>vs_outcome := out, vs_completed_us := now, vs_end := rt\<rparr>, sc_ready := True\<rparr>"

definition scan_begin :: "bool \<times> bool \<Rightarrow> store \<Rightarrow> u64 \<Rightarrow> runtime_snapshot \<Rightarrow> scanner \<Rightarrow> scanner" where
  "scan_begin got st now rt sc =
     (case firmware_verify_try_start got st of
        Inl status \<Rightarrow>
          if status = FIRMWARE_VERIFY_BUSY then sc
          else scan_finish (io_outcome status) now rt
            (sc\<lparr>sc_snapshot := (sc_snapshot sc)\<lparr>vs_started_us := now, vs_start := rt\<rparr>\<rparr>)
      | Inr (metadata, generation) \<Rightarrow>
          sc\<lparr>sc_begun := True, sc_initial_metadata := metadata,
             sc_snapshot := metadata_copy metadata
               ((sc_snapshot sc)\<lparr>vs_generation_start := generation, vs_started_us := now, vs_start := rt\<rparr>)\<rparr>)"

definition scan_page :: "bool \<times> bool \<Rightarrow> store \<Rightarrow> u64 \<Rightarrow> runtime_snapshot \<Rightarrow> scanner \<Rightarrow> scanner" where
  "scan_page got st now rt sc =
     (let s = sc_snapshot sc in
      case firmware_verify_try_read got (vs_generation_start s) (unat (vs_bytes_read s)) 256 st of
        Inl status \<Rightarrow> if status = FIRMWARE_VERIFY_BUSY then sc else scan_finish (io_outcome status) now rt sc
      | Inr page \<Rightarrow> sc\<lparr>sc_crc := foldl crc32_iter (sc_crc sc) page, sc_snapshot := s\<lparr>vs_bytes_read := vs_bytes_read s + 256\<rparr>\<rparr>)"

definition scan_conclude :: "bool \<times> bool \<Rightarrow> store \<Rightarrow> u64 \<Rightarrow> runtime_snapshot \<Rightarrow> scanner \<Rightarrow> scanner" where
  "scan_conclude got st now rt sc =
     (let s = sc_snapshot sc in
      case firmware_verify_try_finish got (vs_generation_start s) st of
        Inl status \<Rightarrow> if status = FIRMWARE_VERIFY_BUSY then sc else scan_finish (io_outcome status) now rt sc
      | Inr metadata \<Rightarrow>
          if metadata \<noteq> sc_initial_metadata sc then scan_finish VERIFY_SCAN_CHANGED now rt sc
          else scan_finish VERIFY_SCAN_COMPLETE now rt
            (sc\<lparr>sc_snapshot := (metadata_copy metadata s)\<lparr>vs_generation_end := vs_generation_start s,
               vs_slot_crc32 := NOT (sc_crc sc)\<rparr>\<rparr>))"

definition scan_task :: "bool \<times> bool \<Rightarrow> store \<Rightarrow> u64 \<Rightarrow> runtime_snapshot \<Rightarrow> scan_unit \<Rightarrow> scan_unit" where
  "scan_task got st now rt u =
     (let sc = su_scanner u in
      if sc_owner sc = SCAN_FREE \<or> sc_ready sc then u
      else if now - sc_requested_us sc \<ge> 3000000 then u\<lparr>su_scanner := scan_finish VERIFY_SCAN_TIMEOUT now rt sc\<rparr>
      else if su_tick_seen u \<and> now - su_last_tick_us u < 1000 then u
      else u\<lparr>su_tick_seen := True, su_last_tick_us := now,
             su_scanner :=
               (if \<not> sc_begun sc then scan_begin got st now rt sc
                else if vs_bytes_read (sc_snapshot sc) < 262144 then scan_page got st now rt sc
                else scan_conclude got st now rt sc)\<rparr>)"

text \<open>\<open>recheck\<close> answers whether the snapshot may be used now; \<open>False\<close> means try again.\<close>

definition recheck :: "bool \<times> bool \<Rightarrow> store \<Rightarrow> verify_snapshot \<Rightarrow> bool \<times> verify_snapshot" where
  "recheck got st s =
     (if vs_outcome s \<noteq> VERIFY_SCAN_COMPLETE then (True, s)
      else case firmware_verify_try_finish got (vs_generation_start s) st of
        Inl status \<Rightarrow> if status = FIRMWARE_VERIFY_BUSY then (False, s) else (True, s\<lparr>vs_outcome := io_outcome status\<rparr>)
      | Inr m \<Rightarrow>
          if get32 m 0 \<noteq> vs_metadata_magic s \<or> get16 m 4 \<noteq> vs_metadata_version s \<or> get16 m 6 \<noteq> vs_metadata_reserved s
              \<or> get32 m 8 \<noteq> vs_metadata_crc32 s
          then (True, s\<lparr>vs_outcome := VERIFY_SCAN_CHANGED\<rparr>) else (True, s))"

definition recheck_before_deadline ::
    "bool \<times> bool \<Rightarrow> store \<Rightarrow> u64 \<Rightarrow> u64 \<Rightarrow> verify_snapshot \<Rightarrow> bool \<times> verify_snapshot" where
  "recheck_before_deadline got st now requested s =
     (if vs_outcome s = VERIFY_SCAN_COMPLETE \<and> now - requested \<ge> 3000000
      then (True, s\<lparr>vs_outcome := VERIFY_SCAN_TIMEOUT\<rparr>) else recheck got st s)"

definition diagnostic_verify_recheck_local :: "bool \<times> bool \<Rightarrow> store \<Rightarrow> verify_result \<Rightarrow> bool \<times> verify_result" where
  "diagnostic_verify_recheck_local got st r =
     (if \<not> vr_remote r \<and> vr_transport r = VERIFY_TRANSPORT_OK
      then case recheck got st (vr_snapshot r) of (ok, s) \<Rightarrow> (ok, r\<lparr>vr_snapshot := s\<rparr>)
      else (True, r))"

subsection \<open>A complete scan describes the slot\<close>

definition slot_of :: "store \<Rightarrow> bytes" where
  "slot_of st = slice (s_flash st) 0 SLOT_SIZE"

definition metadata_of :: "store \<Rightarrow> bytes" where
  "metadata_of st = slice (s_flash st) METADATA_ADDR 12"

text \<open>\<open>fresh g st\<close>: nothing has been written to the slot since generation \<open>g\<close> was read.\<close>

definition fresh :: "u64 \<Rightarrow> store \<Rightarrow> bool" where
  "fresh g st \<longleftrightarrow> s_generation st = g \<and> g \<noteq> 0xffffffffffffffff"

definition scanning_ok :: "scanner \<Rightarrow> store \<Rightarrow> bool" where
  "scanning_ok sc st \<longleftrightarrow>
     (let s = sc_snapshot sc; n = unat (vs_bytes_read s) in
      vs_generation_start s \<le> s_generation st \<and> n \<le> SLOT_SIZE \<and> 256 dvd n
      \<and> (fresh (vs_generation_start s) st \<longrightarrow>
           sc_crc sc = foldl crc32_iter 0xffffffff (take n (slot_of st)) \<and> sc_initial_metadata sc = metadata_of st))"

definition result_ok :: "verify_snapshot \<Rightarrow> store \<Rightarrow> bool" where
  "result_ok s st \<longleftrightarrow> vs_outcome s = VERIFY_SCAN_COMPLETE \<longrightarrow>
     vs_generation_start s \<le> s_generation st
     \<and> (fresh (vs_generation_start s) st \<longrightarrow>
          vs_slot_crc32 s = calc_crc32 (slot_of st)
          \<and> vs_metadata_magic s = get32 (metadata_of st) 0 \<and> vs_metadata_version s = get16 (metadata_of st) 4
          \<and> vs_metadata_reserved s = get16 (metadata_of st) 6 \<and> vs_metadata_crc32 s = get32 (metadata_of st) 8)"

definition scanner_ok :: "scanner \<Rightarrow> store \<Rightarrow> bool" where
  "scanner_ok sc st \<longleftrightarrow> length (s_flash st) = FLASH_SIZE
     \<and> (sc_owner sc \<noteq> SCAN_FREE \<longrightarrow>
          (\<not> sc_ready sc \<longrightarrow> (if sc_begun sc then scanning_ok sc st
              else sc_crc sc = 0xffffffff \<and> vs_bytes_read (sc_snapshot sc) = 0))
          \<and> (sc_ready sc \<longrightarrow> result_ok (sc_snapshot sc) st))"

lemma kept_slot:
  assumes "slot_kept st st'" "length (s_flash st) = FLASH_SIZE" "g \<le> s_generation st"
  shows "g \<le> s_generation st'" "fresh g st' \<Longrightarrow> fresh g st \<and> slot_of st' = slot_of st \<and> metadata_of st' = metadata_of st"
    "length (s_flash st') = FLASH_SIZE"
proof -
  have len: "length (s_flash st') = length (s_flash st)" and le: "s_generation st \<le> s_generation st'"
    using assms(1) by (simp_all add: slot_kept_def)
  show "g \<le> s_generation st'" using assms(3) le by simp
  show "length (s_flash st') = FLASH_SIZE" using len assms(2) by simp
  assume f: "fresh g st'"
  then have g: "s_generation st = g" using assms(3) le by (simp add: fresh_def)
  then have k: "\<And>k. k < SLOT_SIZE \<Longrightarrow> s_flash st' ! k = s_flash st ! k"
    using assms(1,2) f by (simp add: slot_kept_def fresh_def)
  have "slot_of st' = slot_of st" "metadata_of st' = metadata_of st"
    unfolding slot_of_def metadata_of_def
    by (rule nth_equalityI; use len assms(2) k in \<open>simp add: nth_slice\<close>)+
  with f g show "fresh g st \<and> slot_of st' = slot_of st \<and> metadata_of st' = metadata_of st" by (simp add: fresh_def)
qed

lemma result_ok_kept:
  assumes "slot_kept st st'" "length (s_flash st) = FLASH_SIZE" "result_ok s st"
  shows "result_ok s st'"
  using assms kept_slot [OF assms(1,2), of "vs_generation_start s"] by (auto simp: result_ok_def)

lemma scanner_ok_kept:
  assumes "slot_kept st st'" "scanner_ok sc st"
  shows "scanner_ok sc st'"
proof -
  have len: "length (s_flash st) = FLASH_SIZE" using assms(2) by (simp add: scanner_ok_def)
  have "scanning_ok sc st \<Longrightarrow> scanning_ok sc st'"
    using kept_slot [OF assms(1) len, of "vs_generation_start (sc_snapshot sc)"] by (simp add: scanning_ok_def Let_def)
  then show ?thesis
    using assms kept_slot(3) [OF assms(1) len, of 0] result_ok_kept [OF assms(1) len, of "sc_snapshot sc"]
    by (simp add: scanner_ok_def)
qed

lemma try_lock_fresh: "firmware_verify_try_lock got g True st = FIRMWARE_VERIFY_OK \<Longrightarrow> fresh g st"
  by (simp add: firmware_verify_try_lock_def fresh_def split: if_splits)

lemma finish_not_complete: "out \<noteq> VERIFY_SCAN_COMPLETE \<Longrightarrow> result_ok (sc_snapshot (scan_finish out now rt sc)) st"
  by (simp add: scan_finish_def result_ok_def)

lemma io_not_complete: "io_outcome e \<noteq> VERIFY_SCAN_COMPLETE"
  by (simp add: io_outcome_def split: firmware_verify_io.splits)

lemma scan_finish_ok:
  "length (s_flash st) = FLASH_SIZE \<Longrightarrow> result_ok (sc_snapshot (scan_finish out now rt sc)) st
     \<Longrightarrow> scanner_ok (scan_finish out now rt sc) st"
  by (simp add: scanner_ok_def scan_finish_def)

lemma scan_begin_ok:
  assumes "scanner_ok sc st" "\<not> sc_ready sc" "\<not> sc_begun sc" "sc_owner sc \<noteq> SCAN_FREE"
  shows "scanner_ok (scan_begin got st now rt sc) st"
proof -
  have len: "length (s_flash st) = FLASH_SIZE" and z: "sc_crc sc = 0xffffffff" "vs_bytes_read (sc_snapshot sc) = 0"
    using assms by (simp_all add: scanner_ok_def)
  show ?thesis
  proof (cases "firmware_verify_try_start got st")
    case (Inl e)
    then show ?thesis
      using assms scan_finish_ok [OF len finish_not_complete [OF io_not_complete]] by (simp add: scan_begin_def)
  next
    case (Inr r)
    then have "r = (metadata_of st, s_generation st)"
      by (simp add: firmware_verify_try_start_def metadata_of_def split: firmware_verify_io.splits)
    then show ?thesis
      using Inr z len assms(2)
      by (simp add: scan_begin_def scanner_ok_def scanning_ok_def Let_def metadata_copy_def)
  qed
qed

lemma scan_page_ok:
  assumes "scanner_ok sc st" "\<not> sc_ready sc" "sc_begun sc" "sc_owner sc \<noteq> SCAN_FREE" "vs_bytes_read (sc_snapshot sc) < 262144"
  shows "scanner_ok (scan_page got st now rt sc) st"
proof -
  define s where "s = sc_snapshot sc"
  define n where "n = unat (vs_bytes_read s)"
  have len: "length (s_flash st) = FLASH_SIZE" and run: "scanning_ok sc st" using assms by (simp_all add: scanner_ok_def)
  have n: "n < SLOT_SIZE" "256 dvd n" using run assms(5)
    by (simp_all add: scanning_ok_def Let_def n_def s_def word_less_nat_alt)
  then have n256: "n + 256 \<le> SLOT_SIZE" by (auto elim!: dvdE)
  have add: "unat (vs_bytes_read s + 256) = n + 256" using n256 by (simp add: n_def unat_word_ariths)
  show ?thesis
  proof (cases "firmware_verify_try_read got (vs_generation_start s) n 256 st")
    case (Inl e)
    then show ?thesis
      using assms scan_finish_ok [OF len finish_not_complete [OF io_not_complete]]
      by (simp add: scan_page_def s_def [symmetric] n_def [symmetric] Let_def)
  next
    case (Inr page)
    then have ok: "firmware_verify_try_lock got (vs_generation_start s) True st = FIRMWARE_VERIFY_OK"
      and page: "page = slice (s_flash st) n 256"
      by (auto simp: firmware_verify_try_read_def split: firmware_verify_io.splits if_splits)
    have f: "fresh (vs_generation_start s) st" using try_lock_fresh [OF ok] .
    have "take (n + 256) (slot_of st) = take n (slot_of st) @ page"
      using n256 by (simp add: take_add page slot_of_def slice_def drop_take min_def)
    then show ?thesis
      using Inr run f n256 n(2) len assms(2,3) add
      by (simp add: scan_page_def s_def [symmetric] n_def [symmetric] Let_def scanner_ok_def scanning_ok_def)
  qed
qed

lemma scan_conclude_ok:
  assumes "scanner_ok sc st" "\<not> sc_ready sc" "sc_begun sc" "sc_owner sc \<noteq> SCAN_FREE" "\<not> vs_bytes_read (sc_snapshot sc) < 262144"
  shows "scanner_ok (scan_conclude got st now rt sc) st"
proof -
  define s where "s = sc_snapshot sc"
  have len: "length (s_flash st) = FLASH_SIZE" and run: "scanning_ok sc st" using assms by (simp_all add: scanner_ok_def)
  have n: "unat (vs_bytes_read s) = SLOT_SIZE" using run assms(5)
    by (simp add: scanning_ok_def Let_def s_def word_less_nat_alt)
  show ?thesis
  proof (cases "firmware_verify_try_finish got (vs_generation_start s) st")
    case (Inl e)
    then show ?thesis
      using assms scan_finish_ok [OF len finish_not_complete [OF io_not_complete]]
      by (simp add: scan_conclude_def s_def [symmetric] Let_def)
  next
    case (Inr m)
    then have ok: "firmware_verify_try_lock got (vs_generation_start s) True st = FIRMWARE_VERIFY_OK" and m: "m = metadata_of st"
      by (auto simp: firmware_verify_try_finish_def metadata_of_def split: firmware_verify_io.splits)
    have "take SLOT_SIZE (slot_of st) = slot_of st" using len by (simp add: slot_of_def slice_def)
    then have "NOT (sc_crc sc) = calc_crc32 (slot_of st)"
      using run try_lock_fresh [OF ok] n by (simp add: scanning_ok_def Let_def s_def calc_crc32_def)
    then have crc: "NOT (sc_crc sc) = calc_crc32 (slot_of st)" .
    have gen: "vs_generation_start s \<le> s_generation st" using run by (simp add: scanning_ok_def Let_def s_def)
    have fin: "scan_conclude got st now rt sc =
        (if m \<noteq> sc_initial_metadata sc then scan_finish VERIFY_SCAN_CHANGED now rt sc
         else scan_finish VERIFY_SCAN_COMPLETE now rt
            (sc\<lparr>sc_snapshot := (metadata_copy m s)\<lparr>vs_generation_end := vs_generation_start s,
               vs_slot_crc32 := calc_crc32 (slot_of st)\<rparr>\<rparr>))"
      using Inr by (simp add: scan_conclude_def s_def [symmetric] Let_def crc)
    have "result_ok (sc_snapshot (scan_finish VERIFY_SCAN_COMPLETE now rt
        (sc\<lparr>sc_snapshot := (metadata_copy m s)\<lparr>vs_generation_end := vs_generation_start s,
           vs_slot_crc32 := calc_crc32 (slot_of st)\<rparr>\<rparr>))) st"
      using gen by (simp add: scan_finish_def result_ok_def metadata_copy_def m)
    then show ?thesis
      using scan_finish_ok [OF len] finish_not_complete [of VERIFY_SCAN_CHANGED now rt sc st]
      unfolding fin by (auto split: if_splits)
  qed
qed

lemma scan_task_ok:
  assumes "scanner_ok (su_scanner u) st"
  shows "scanner_ok (su_scanner (scan_task got st now rt u)) st"
proof -
  define sc where "sc = su_scanner u"
  have ok: "scanner_ok sc st" using assms by (simp add: sc_def)
  have len: "length (s_flash st) = FLASH_SIZE" using ok by (simp add: scanner_ok_def)
  have "scanner_ok (scan_finish VERIFY_SCAN_TIMEOUT now rt sc) st"
    by (rule scan_finish_ok [OF len finish_not_complete]) simp
  then show ?thesis
    using assms scan_begin_ok [OF ok, of got now rt] scan_page_ok [OF ok, of got now rt] scan_conclude_ok [OF ok, of got now rt]
    by (auto simp: scan_task_def Let_def sc_def simp del: not_less not_le)
qed

lemma recheck_ok:
  assumes "result_ok s st" "recheck_before_deadline got st now req s = (ok, s')"
  shows "result_ok s' st" "ok \<Longrightarrow> vs_outcome s' = VERIFY_SCAN_COMPLETE \<Longrightarrow> fresh (vs_generation_start s') st"
proof -
  have "recheck got st s = (ok, s') \<Longrightarrow> result_ok s' st
      \<and> (ok \<longrightarrow> vs_outcome s' = VERIFY_SCAN_COMPLETE \<longrightarrow> fresh (vs_generation_start s') st)" for s'
  proof (cases "firmware_verify_try_finish got (vs_generation_start s) st")
    case (Inl e)
    then show "recheck got st s = (ok, s') \<Longrightarrow> ?thesis"
      using assms(1) io_not_complete [of e] by (auto simp: recheck_def result_ok_def split: if_splits)
  next
    case (Inr m)
    then have "fresh (vs_generation_start s) st"
      by (auto simp: firmware_verify_try_finish_def intro!: try_lock_fresh [of got] split: firmware_verify_io.splits)
    with Inr show "recheck got st s = (ok, s') \<Longrightarrow> ?thesis"
      using assms(1) by (auto simp: recheck_def result_ok_def split: if_splits)
  qed
  then show "result_ok s' st" "ok \<Longrightarrow> vs_outcome s' = VERIFY_SCAN_COMPLETE \<Longrightarrow> fresh (vs_generation_start s') st"
    using assms(2) by (auto simp: recheck_before_deadline_def result_ok_def split: if_splits)
qed

text \<open>What a PASS needs of a result.\<close>

lemma assess_pass:
  assumes "fst (verification_assess r v crc) = VERIFY_PASS"
  shows "vr_transport r = VERIFY_TRANSPORT_OK" "vs_outcome (vr_snapshot r) = VERIFY_SCAN_COMPLETE"
    "vs_slot_crc32 (vr_snapshot r) = crc" "vs_metadata_magic (vr_snapshot r) = 0xf00d"
    "ucast (vs_metadata_version (vr_snapshot r)) = (ucast v :: u32)"
    "\<not> core_stuck (vr_snapshot r) 0" "\<not> core_stuck (vr_snapshot r) 1"
  using assms by (auto simp: verification_assess_def Let_def split: if_splits)

end
