(* ===== verification/Peer_Verify.thy ===== *)
theory Peer_Verify
  imports Verification
begin

text \<open>
  The transfer of a verification snapshot to the other board (peer\_verify.c): the same token and chunk scheme as a
  status query, 44 chunks, with a server that first acquires the scanner and polls it. The scanner is a callback in the
  code; here acquire, poll and cancel are functions on a context of any type, which the task threads.
\<close>

unbundle bit_operations_syntax

subsection \<open>Snapshots on the wire\<close>

definition outcome_code :: "verify_scan_outcome \<Rightarrow> u8" where
  "outcome_code out = (case out of VERIFY_SCAN_COMPLETE \<Rightarrow> 0 | VERIFY_SCAN_UPDATE_ACTIVE \<Rightarrow> 1 | VERIFY_SCAN_CHANGED \<Rightarrow> 2
     | VERIFY_SCAN_BUSY \<Rightarrow> 3 | VERIFY_SCAN_TIMEOUT \<Rightarrow> 4)"

definition outcome_of_code :: "u8 \<Rightarrow> verify_scan_outcome" where
  "outcome_of_code c = (if c = 0 then VERIFY_SCAN_COMPLETE else if c = 1 then VERIFY_SCAN_UPDATE_ACTIVE
     else if c = 2 then VERIFY_SCAN_CHANGED else if c = 3 then VERIFY_SCAN_BUSY else VERIFY_SCAN_TIMEOUT)"

definition encode_pair :: "u32 list \<Rightarrow> bytes" where
  "encode_pair xs = write_le (ucast (xs ! 0)) 4 @ write_le (ucast (xs ! 1)) 4"

definition encode_verify_body :: "verify_snapshot \<Rightarrow> bytes" where
  "encode_verify_body s =
     [1, vs_role s, outcome_code (vs_outcome s), rt_core_valid (vs_start s) OR push_bit 2 (rt_core_valid (vs_end s))]
     @ write_le (ucast (vs_major s)) 2 @ write_le (ucast (vs_minor s)) 2 @ vs_board_id s @ write_le (vs_boot_session s) 8
     @ write_le (vs_started_us s) 8 @ write_le (vs_completed_us s) 8 @ write_le (ucast (vs_bytes_read s)) 4
     @ write_le (ucast (vs_slot_crc32 s)) 4 @ write_le (ucast (vs_metadata_magic s)) 4
     @ write_le (ucast (vs_metadata_version s)) 2 @ write_le (ucast (vs_metadata_reserved s)) 2
     @ write_le (ucast (vs_metadata_crc32 s)) 4 @ write_le (vs_generation_start s) 8 @ write_le (vs_generation_end s) 8
     @ encode_pair (rt_core_ticks (vs_start s)) @ encode_pair (rt_core_ticks (vs_end s))
     @ encode_pair (rt_core_age_ms (vs_start s)) @ encode_pair (rt_core_age_ms (vs_end s))
     @ [rt_phase (vs_start s), rt_phase (vs_end s), rt_source (vs_start s), rt_source (vs_end s)]
     @ write_le (ucast (rt_update_attempt (vs_start s))) 4 @ write_le (ucast (rt_update_attempt (vs_end s))) 4
     @ write_le (ucast (vs_image_crc_at_boot s)) 4 @ [0, 0, 0, 0]"

definition encode_verify :: "verify_snapshot \<Rightarrow> bytes" where
  "encode_verify s = encode_verify_body s @ write_le (ucast (snapshot_crc (encode_verify_body s))) 4"

definition decode_pair :: "bytes \<Rightarrow> nat \<Rightarrow> u32 list" where
  "decode_pair b off = [ucast (read_le b off 4), ucast (read_le b (off + 4) 4)]"

definition decode_verify_fields :: "bytes \<Rightarrow> verify_snapshot" where
  "decode_verify_fields b =
     \<lparr>vs_role = b ! 1, vs_major = ucast (read_le b 4 2), vs_minor = ucast (read_le b 6 2), vs_board_id = slice b 8 8,
      vs_boot_session = read_le b 16 8, vs_image_crc_at_boot = ucast (read_le b 120 4), vs_started_us = read_le b 24 8,
      vs_completed_us = read_le b 32 8, vs_generation_start = read_le b 60 8, vs_generation_end = read_le b 68 8,
      vs_bytes_read = ucast (read_le b 40 4), vs_slot_crc32 = ucast (read_le b 44 4),
      vs_metadata_magic = ucast (read_le b 48 4), vs_metadata_version = ucast (read_le b 52 2),
      vs_metadata_reserved = ucast (read_le b 54 2), vs_metadata_crc32 = ucast (read_le b 56 4),
      vs_start = zero_runtime\<lparr>rt_core_valid := b ! 3 AND 3, rt_phase := b ! 108, rt_source := b ! 110,
        rt_update_attempt := ucast (read_le b 112 4), rt_core_ticks := decode_pair b 76, rt_core_age_ms := decode_pair b 92\<rparr>,
      vs_end = zero_runtime\<lparr>rt_core_valid := drop_bit 2 (b ! 3) AND 3, rt_phase := b ! 109, rt_source := b ! 111,
        rt_update_attempt := ucast (read_le b 116 4), rt_core_ticks := decode_pair b 84, rt_core_age_ms := decode_pair b 100\<rparr>,
      vs_outcome = outcome_of_code (b ! 2)\<rparr>"

definition decode_verify :: "bytes \<Rightarrow> u8 \<Rightarrow> bool \<times> verify_snapshot" where
  "decode_verify b expected_role =
     (if b ! 0 \<noteq> 1 \<or> b ! 1 \<noteq> expected_role \<or> b ! 2 > 4 \<or> b ! 3 > 15
          \<or> b ! 124 \<noteq> 0 \<or> b ! 125 \<noteq> 0 \<or> b ! 126 \<noteq> 0 \<or> b ! 127 \<noteq> 0
          \<or> b ! 108 > DIAGNOSTIC_UPDATE_ABANDONED \<or> b ! 109 > DIAGNOSTIC_UPDATE_ABANDONED
          \<or> b ! 110 > DIAGNOSTIC_SOURCE_USB \<or> b ! 111 > DIAGNOSTIC_SOURCE_USB
          \<or> read_le b 128 4 \<noteq> ucast (snapshot_crc (take 128 b))
      then (False, zero_verify_snapshot)
      else
        let s = decode_verify_fields b
        in (vs_bytes_read s \<le> 262144
            \<and> (vs_outcome s \<noteq> VERIFY_SCAN_COMPLETE
               \<or> vs_bytes_read s = 262144 \<and> vs_generation_start s = vs_generation_end s \<and> vs_started_us s \<le> vs_completed_us s), s))"

subsection \<open>Client and server\<close>

datatype peer_verify_start_result = PEER_VERIFY_STARTED | PEER_VERIFY_BUSY | PEER_VERIFY_BAD_ARGUMENT

datatype peer_verify_packet = PEER_VERIFY_REQUEST | PEER_VERIFY_RESPONSE

datatype verify_phase = VERIFY_IDLE | VERIFY_ACQUIRE | VERIFY_POLL | VERIFY_SEND

record peer_verify =
  pv_local_role :: u8
  pv_client_active :: bool
  pv_client_sent :: bool
  pv_result_ready :: bool
  pv_client_token :: u32
  pv_client_started_us :: u64
  pv_client_received :: u64
  pv_client_bytes :: bytes
  pv_result :: verify_result
  pv_server_phase :: verify_phase
  pv_server_next_chunk :: u8
  pv_server_seen_request :: bool
  pv_server_token :: u32
  pv_server_started_us :: u64
  pv_server_bytes :: bytes
  pv_tx_attempted :: bool
  pv_prefer_response :: bool
  pv_last_tx_attempt_us :: u64

definition verify_result_of :: "u32 \<Rightarrow> bool \<Rightarrow> verify_transport \<Rightarrow> verify_result" where
  "verify_result_of token remote transport =
     \<lparr>vr_token = token, vr_remote = remote, vr_transport = transport, vr_snapshot = zero_verify_snapshot\<rparr>"

definition peer_verify_init :: "u8 \<Rightarrow> peer_verify" where
  "peer_verify_init role = \<lparr>pv_local_role = role, pv_client_active = False, pv_client_sent = False, pv_result_ready = False,
     pv_client_token = 0, pv_client_started_us = 0, pv_client_received = 0, pv_client_bytes = replicate 132 0,
     pv_result = verify_result_of 0 False VERIFY_TRANSPORT_OK, pv_server_phase = VERIFY_IDLE, pv_server_next_chunk = 0,
     pv_server_seen_request = False, pv_server_token = 0, pv_server_started_us = 0, pv_server_bytes = replicate 132 0,
     pv_tx_attempted = False, pv_prefer_response = False, pv_last_tx_attempt_us = 0\<rparr>"

definition finish_verify :: "verify_transport \<Rightarrow> peer_verify \<Rightarrow> peer_verify" where
  "finish_verify transport s =
     (let result = verify_result_of (pv_client_token s) True transport;
          result = (if transport = VERIFY_TRANSPORT_OK then
              case decode_verify (pv_client_bytes s) (pv_local_role s XOR 1) of (ok, sn) \<Rightarrow>
                result\<lparr>vr_snapshot := sn, vr_transport := if ok then VERIFY_TRANSPORT_OK else VERIFY_TRANSPORT_INVALID\<rparr>
            else result)
      in s\<lparr>pv_result := result, pv_client_active := False, pv_result_ready := True\<rparr>)"

definition expire_verify :: "u64 \<Rightarrow> peer_verify \<Rightarrow> peer_verify" where
  "expire_verify now s =
     (if pv_client_active s \<and> now - pv_client_started_us s \<ge> 3000000 then finish_verify VERIFY_TRANSPORT_TIMEOUT s else s)"

definition peer_verify_start :: "u32 \<Rightarrow> u64 \<Rightarrow> peer_verify \<Rightarrow> peer_verify_start_result \<times> peer_verify" where
  "peer_verify_start token requested s =
     (if pv_client_active s \<or> pv_result_ready s then (PEER_VERIFY_BUSY, s)
      else if token = 0 \<or> pv_local_role s > 1 then (PEER_VERIFY_BAD_ARGUMENT, s)
      else (PEER_VERIFY_STARTED,
        s\<lparr>pv_client_active := True, pv_client_sent := False, pv_client_token := token, pv_client_started_us := requested,
          pv_client_received := 0, pv_client_bytes := replicate 132 0\<rparr>))"

definition peer_verify_receive_request :: "bytes \<Rightarrow> u64 \<Rightarrow> peer_verify \<Rightarrow> bool \<times> peer_verify" where
  "peer_verify_receive_request payload now s =
     (let token = ucast (read_le payload 0 4) in
      if token = 0 \<or> payload ! 4 \<noteq> 1 \<or> payload ! 5 \<noteq> 0 \<or> payload ! 6 \<noteq> 0 \<or> payload ! 7 \<noteq> 0
          \<or> pv_local_role s > 1 \<or> pv_server_phase s \<noteq> VERIFY_IDLE
      then (False, s)
      else if pv_server_seen_request s \<and> (token = pv_server_token s \<or> now - pv_server_started_us s < 200000)
      then (False, s)
      else (True,
        s\<lparr>pv_server_seen_request := True, pv_server_token := token, pv_server_started_us := now,
          pv_server_phase := VERIFY_ACQUIRE, pv_server_next_chunk := 0\<rparr>))"

definition peer_verify_receive_response :: "bytes \<Rightarrow> u64 \<Rightarrow> peer_verify \<Rightarrow> peer_verify" where
  "peer_verify_receive_response payload now s =
     (let s = expire_verify now s; index = unat (payload ! 4) in
      if \<not> pv_client_active s \<or> \<not> pv_client_sent s \<or> read_le payload 0 4 \<noteq> ucast (pv_client_token s) then s
      else if index \<ge> 44 \<or> index = 0 \<and> (payload ! 5 \<noteq> 1 \<or> payload ! 6 \<noteq> pv_local_role s XOR 1)
      then finish_verify VERIFY_TRANSPORT_INVALID s
      else if bit (pv_client_received s) index
      then if slice (pv_client_bytes s) (3 * index) 3 \<noteq> slice payload 5 3 then finish_verify VERIFY_TRANSPORT_INVALID s else s
      else
        let s = s\<lparr>pv_client_bytes := blit (pv_client_bytes s) (3 * index) (slice payload 5 3),
                  pv_client_received := pv_client_received s OR push_bit index 1\<rparr>
        in if pv_client_received s = push_bit 44 1 - 1 then finish_verify VERIFY_TRANSPORT_OK s else s)"

text \<open>The provider of scans: acquire for a token, poll for a finished scan, cancel.\<close>

record 'c provider =
  pr_acquire :: "u32 \<Rightarrow> u64 \<Rightarrow> 'c \<Rightarrow> bool \<times> 'c"
  pr_poll :: "u32 \<Rightarrow> 'c \<Rightarrow> verify_snapshot option \<times> 'c"
  pr_cancel :: "u32 \<Rightarrow> 'c \<Rightarrow> 'c"

definition server_task :: "u64 \<Rightarrow> 'c provider \<Rightarrow> peer_verify \<Rightarrow> 'c \<Rightarrow> peer_verify \<times> 'c" where
  "server_task now pr s c =
     (if pv_server_phase s = VERIFY_IDLE then (s, c)
      else if now - pv_server_started_us s \<ge> 3000000
      then (s\<lparr>pv_server_phase := VERIFY_IDLE\<rparr>,
            if pv_server_phase s = VERIFY_POLL then pr_cancel pr (pv_server_token s) c else c)
      else case pv_server_phase s of
        VERIFY_ACQUIRE \<Rightarrow>
          (case pr_acquire pr (pv_server_token s) (pv_server_started_us s) c of
             (True, c) \<Rightarrow> (s\<lparr>pv_server_phase := VERIFY_POLL\<rparr>, c)
           | (False, c) \<Rightarrow> (s, c))
      | VERIFY_POLL \<Rightarrow>
          (case pr_poll pr (pv_server_token s) c of
             (Some snapshot, c) \<Rightarrow> (s\<lparr>pv_server_bytes := encode_verify snapshot, pv_server_phase := VERIFY_SEND\<rparr>, c)
           | (None, c) \<Rightarrow> (s, c))
      | _ \<Rightarrow> (s, c))"

definition verify_payload :: "peer_verify_packet \<Rightarrow> peer_verify \<Rightarrow> bytes" where
  "verify_payload kind s =
     (case kind of
        PEER_VERIFY_REQUEST \<Rightarrow> write_le (ucast (pv_client_token s)) 4 @ [1, 0, 0, 0]
      | PEER_VERIFY_RESPONSE \<Rightarrow> write_le (ucast (pv_server_token s)) 4 @ [pv_server_next_chunk s]
          @ slice (pv_server_bytes s) (3 * unat (pv_server_next_chunk s)) 3)"

definition verify_transmit ::
    "u64 \<Rightarrow> (peer_verify_packet \<Rightarrow> bytes \<Rightarrow> bool) \<Rightarrow> peer_verify \<Rightarrow> (peer_verify_packet \<times> bytes) option \<times> peer_verify" where
  "verify_transmit now tx s =
     (let request = (pv_client_active s \<and> \<not> pv_client_sent s); response = (pv_server_phase s = VERIFY_SEND)
      in if \<not> request \<and> \<not> response \<or> pv_tx_attempted s \<and> now - pv_last_tx_attempt_us s < 1000 then (None, s)
      else
        let kind = (if response \<and> (\<not> request \<or> pv_prefer_response s) then PEER_VERIFY_RESPONSE else PEER_VERIFY_REQUEST);
            payload = verify_payload kind s;
            s = s\<lparr>pv_tx_attempted := True, pv_last_tx_attempt_us := now\<rparr>
        in if \<not> tx kind payload then (Some (kind, payload), s)
        else
          let s = s\<lparr>pv_prefer_response := (kind = PEER_VERIFY_REQUEST)\<rparr> in
          (Some (kind, payload),
           case kind of
             PEER_VERIFY_REQUEST \<Rightarrow> s\<lparr>pv_client_sent := True\<rparr>
           | PEER_VERIFY_RESPONSE \<Rightarrow>
               let s = s\<lparr>pv_server_next_chunk := pv_server_next_chunk s + 1\<rparr>
               in if pv_server_next_chunk s = 44 then s\<lparr>pv_server_phase := VERIFY_IDLE\<rparr> else s))"

definition peer_verify_task ::
    "u64 \<Rightarrow> (peer_verify_packet \<Rightarrow> bytes \<Rightarrow> bool) \<Rightarrow> 'c provider \<Rightarrow> peer_verify \<Rightarrow> 'c
       \<Rightarrow> (peer_verify_packet \<times> bytes) option \<times> peer_verify \<times> 'c" where
  "peer_verify_task now tx pr s c =
     (case server_task now pr (expire_verify now s) c of (s, c) \<Rightarrow>
        case verify_transmit now tx s of (attempt, s) \<Rightarrow> (attempt, s, c))"

definition peer_verify_take_result :: "peer_verify \<Rightarrow> verify_result option \<times> peer_verify" where
  "peer_verify_take_result s =
     (if \<not> pv_result_ready s then (None, s) else (Some (pv_result s), s\<lparr>pv_result_ready := False\<rparr>))"

subsection \<open>The snapshot survives the wire\<close>

definition wire_runtime :: "runtime_snapshot \<Rightarrow> runtime_snapshot" where
  "wire_runtime r = zero_runtime\<lparr>rt_core_valid := rt_core_valid r, rt_phase := rt_phase r, rt_source := rt_source r,
     rt_update_attempt := rt_update_attempt r, rt_core_ticks := rt_core_ticks r, rt_core_age_ms := rt_core_age_ms r\<rparr>"

definition wire_snapshot :: "verify_snapshot \<Rightarrow> verify_snapshot" where
  "wire_snapshot s = s\<lparr>vs_start := wire_runtime (vs_start s), vs_end := wire_runtime (vs_end s)\<rparr>"

definition verify_snapshot_ok :: "verify_snapshot \<Rightarrow> bool" where
  "verify_snapshot_ok s \<longleftrightarrow> length (vs_board_id s) = 8 \<and> runtime_ok (vs_start s) \<and> runtime_ok (vs_end s)
     \<and> vs_bytes_read s \<le> 262144
     \<and> (vs_outcome s = VERIFY_SCAN_COMPLETE \<longrightarrow>
          vs_bytes_read s = 262144 \<and> vs_generation_start s = vs_generation_end s \<and> vs_started_us s \<le> vs_completed_us s)"

lemma outcome_code: "outcome_of_code (outcome_code out) = out" "outcome_code out \<le> 4"
  by (cases out; simp add: outcome_code_def outcome_of_code_def)+

lemma valid_pair:
  assumes "a \<le> (3 :: u8)" "b \<le> (3 :: u8)"
  shows "a OR push_bit 2 b \<le> 15" "(a OR push_bit 2 b) AND 3 = a" "drop_bit 2 (a OR push_bit 2 b) AND 3 = b"
proof -
  have small: "v = 0 \<or> v = 1 \<or> v = 2 \<or> v = 3" if "v \<le> 3" for v :: u8
  proof -
    have "unat v < 4" using that by (simp add: word_le_nat_alt)
    then have "unat v = 0 \<or> unat v = 1 \<or> unat v = 2 \<or> unat v = 3" by linarith
    then show ?thesis by (simp add: word_unat_eq_iff)
  qed
  show "a OR push_bit 2 b \<le> 15" "(a OR push_bit 2 b) AND 3 = a" "drop_bit 2 (a OR push_bit 2 b) AND 3 = b"
    using small [OF assms(1)] small [OF assms(2)] by (elim disjE; simp)+
qed

lemma length_encode_pair [simp]: "length (encode_pair xs) = 8"
  by (simp add: encode_pair_def)

lemma length_verify_body: "length (vs_board_id s) = 8 \<Longrightarrow> length (encode_verify_body s) = 128"
  by (simp add: encode_verify_body_def)

lemma decode_pair_here: "length xs = 2 \<Longrightarrow> decode_pair (encode_pair xs @ ys) 0 = xs"
  using two_elements [of xs] by (simp add: decode_pair_def encode_pair_def layout_simps)

lemma decode_pair_skip: "length xs \<le> k \<Longrightarrow> decode_pair (xs @ ys) k = decode_pair ys (k - length xs)"
  by (simp add: decode_pair_def layout_simps)

lemma decode_pair_skip1: "0 < k \<Longrightarrow> decode_pair (x # ys) k = decode_pair ys (k - 1)"
  by (simp add: decode_pair_def layout_simps)

lemma decode_verify_body:
  assumes "verify_snapshot_ok s"
  shows "decode_verify_fields (encode_verify_body s @ rest) = wire_snapshot s"
proof -
  have v: "rt_core_valid (vs_start s) \<le> 3" "rt_core_valid (vs_end s) \<le> 3" using assms
    by (simp_all add: verify_snapshot_ok_def runtime_ok_def)
  have len: "length (vs_board_id s) = 8" "length (rt_core_ticks (vs_start s)) = 2" "length (rt_core_ticks (vs_end s)) = 2"
    "length (rt_core_age_ms (vs_start s)) = 2" "length (rt_core_age_ms (vs_end s)) = 2"
    using assms by (simp_all add: verify_snapshot_ok_def runtime_ok_def)
  show ?thesis
    using valid_pair(2,3) [OF v] len
    by (cases s) (simp add: decode_verify_fields_def encode_verify_body_def layout_simps slice_here outcome_code
        decode_pair_here decode_pair_skip decode_pair_skip1 wire_snapshot_def wire_runtime_def)
qed

lemma verify_body_bytes:
  fixes s :: verify_snapshot and rest :: bytes
  assumes "length (vs_board_id s) = 8"
  defines "b \<equiv> encode_verify_body s @ rest"
  shows "b ! 0 = 1" "b ! 1 = vs_role s" "b ! 2 = outcome_code (vs_outcome s)"
    "b ! 3 = rt_core_valid (vs_start s) OR push_bit 2 (rt_core_valid (vs_end s))"
    "b ! 108 = rt_phase (vs_start s)" "b ! 109 = rt_phase (vs_end s)" "b ! 110 = rt_source (vs_start s)"
    "b ! 111 = rt_source (vs_end s)" "b ! 124 = 0" "b ! 125 = 0" "b ! 126 = 0" "b ! 127 = 0"
  using assms(1) unfolding b_def by (simp_all add: encode_verify_body_def layout_simps)

lemma decode_encode_verify:
  assumes "verify_snapshot_ok s"
  shows "decode_verify (encode_verify s) (vs_role s) = (True, wire_snapshot s)"
proof -
  have len: "length (vs_board_id s) = 8" using assms by (simp add: verify_snapshot_ok_def)
  let ?rest = "write_le (ucast (snapshot_crc (encode_verify_body s))) 4"
  have crc: "read_le (encode_verify_body s @ ?rest) 128 4 = ucast (snapshot_crc (encode_verify_body s))"
    "take 128 (encode_verify_body s @ ?rest) = encode_verify_body s"
    using length_verify_body [OF len] read_write_le [of "ucast (snapshot_crc (encode_verify_body s))" 4 "[]"]
    by (simp_all add: layout_simps)
  have v: "rt_core_valid (vs_start s) OR push_bit 2 (rt_core_valid (vs_end s)) \<le> 15"
    using assms by (intro valid_pair) (simp_all add: verify_snapshot_ok_def runtime_ok_def)
  have run: "rt_phase (vs_start s) \<le> 6" "rt_phase (vs_end s) \<le> 6" "rt_source (vs_start s) \<le> 2" "rt_source (vs_end s) \<le> 2"
    using assms by (simp_all add: verify_snapshot_ok_def runtime_ok_def)
  have fields: "vs_bytes_read (wire_snapshot s) = vs_bytes_read s" "vs_outcome (wire_snapshot s) = vs_outcome s"
    "vs_generation_start (wire_snapshot s) = vs_generation_start s" "vs_generation_end (wire_snapshot s) = vs_generation_end s"
    "vs_started_us (wire_snapshot s) = vs_started_us s" "vs_completed_us (wire_snapshot s) = vs_completed_us s"
    by (simp_all add: wire_snapshot_def)
  have fin: "vs_bytes_read s \<le> 262144 \<and> (vs_outcome s \<noteq> VERIFY_SCAN_COMPLETE
      \<or> vs_bytes_read s = 262144 \<and> vs_generation_start s = vs_generation_end s \<and> vs_started_us s \<le> vs_completed_us s)"
    using assms by (auto simp: verify_snapshot_ok_def)
  show ?thesis
    using v run outcome_code(2) [of "vs_outcome s"] fin
    unfolding decode_verify_def encode_verify_def verify_body_bytes [OF len] decode_verify_body [OF assms] crc Let_def fields
    by (simp add: not_less)
qed

subsection \<open>A request and its reply\<close>

record verify_query =
  vq_token :: u32
  vq_role :: u8
  vq_started :: u64

definition verify_reply :: "verify_query \<Rightarrow> bytes \<Rightarrow> verify_result" where
  "verify_reply q b =
     (case decode_verify b (vq_role q XOR 1) of (ok, sn) \<Rightarrow>
        (verify_result_of (vq_token q) True VERIFY_TRANSPORT_OK)
          \<lparr>vr_snapshot := sn, vr_transport := if ok then VERIFY_TRANSPORT_OK else VERIFY_TRANSPORT_INVALID\<rparr>)"

definition verify_collecting :: "verify_query \<Rightarrow> peer_verify \<Rightarrow> nat set \<Rightarrow> bytes \<Rightarrow> bool" where
  "verify_collecting q s S b \<longleftrightarrow> pv_client_active s \<and> pv_client_sent s \<and> pv_client_token s = vq_token q
     \<and> pv_local_role s = vq_role q \<and> pv_client_started_us s = vq_started q \<and> pv_client_bytes s = b
     \<and> S \<subseteq> {..<44} \<and> (\<forall>k<64. bit (pv_client_received s) k \<longleftrightarrow> k \<in> S)"

definition verify_finished :: "verify_query \<Rightarrow> peer_verify \<Rightarrow> bytes \<Rightarrow> bool" where
  "verify_finished q s b \<longleftrightarrow> \<not> pv_client_active s \<and> pv_result_ready s \<and> pv_result s = verify_reply q b"

definition verify_in_time :: "verify_query \<Rightarrow> u64 \<Rightarrow> bool" where
  "verify_in_time q now \<longleftrightarrow> now - vq_started q < 3000000"

definition verify_own :: "verify_query \<Rightarrow> bytes \<Rightarrow> nat \<Rightarrow> bytes \<times> u64 \<Rightarrow> bool" where
  "verify_own q msg k i \<longleftrightarrow> (case i of (payload, now) \<Rightarrow> verify_in_time q now \<and> k < 44
     \<and> payload = status_chunk (vq_token q) msg k \<and> length msg = 132 \<and> msg ! 0 = 1 \<and> msg ! 1 = vq_role q XOR 1)"

definition verify_foreign :: "verify_query \<Rightarrow> bytes \<times> u64 \<Rightarrow> bool" where
  "verify_foreign q i \<longleftrightarrow> (case i of (payload, now) \<Rightarrow> verify_in_time q now \<and> read_le payload 0 4 \<noteq> ucast (vq_token q))"

definition verify_hear :: "peer_verify \<Rightarrow> bytes \<times> u64 \<Rightarrow> peer_verify" where
  "verify_hear s i = (case i of (payload, now) \<Rightarrow> peer_verify_receive_response payload now s)"

lemma expire_verify_collecting: "verify_collecting q s S b \<Longrightarrow> verify_in_time q now \<Longrightarrow> expire_verify now s = s"
  by (simp add: verify_collecting_def verify_in_time_def [folded not_le] expire_verify_def del: not_le)

lemma verify_received_all:
  assumes "\<forall>k<64. bit (r :: u64) k \<longleftrightarrow> k \<in> S" "S \<subseteq> {..<44}"
  shows "r = push_bit 44 1 - 1 \<longleftrightarrow> S = {..<44}"
proof -
  have "push_bit 44 1 - 1 = (mask 44 :: u64)" by (simp add: mask_eq_exp_minus_1)
  moreover have "r = mask 44 \<longleftrightarrow> S = {..<44}"
  proof
    assume "r = mask 44"
    then have "\<forall>k<64. k < 44 \<longleftrightarrow> k \<in> S" using assms(1) by (simp add: bit_simps)
    moreover have "k < 64" if "k < 44" for k :: nat using that by simp
    ultimately show "S = {..<44}" using assms(2) by blast
  next
    assume "S = {..<44}"
    then show "r = mask 44" using assms by (auto intro!: bit_word_eqI simp: bit_simps)
  qed
  ultimately show ?thesis by simp
qed

lemma verify_hear_own:
  assumes c: "verify_collecting q s S b" and own: "verify_own q msg k i"
  defines "b' \<equiv> blit b (3 * k) (slice msg (3 * k) 3)"
  shows "k \<in> S \<Longrightarrow> slice b (3 * k) 3 = slice msg (3 * k) 3 \<Longrightarrow> verify_collecting q (verify_hear s i) S b"
    and "k \<notin> S \<Longrightarrow> insert k S \<noteq> {..<44} \<Longrightarrow> verify_collecting q (verify_hear s i) (insert k S) b'"
    and "k \<notin> S \<Longrightarrow> insert k S = {..<44} \<Longrightarrow> verify_finished q (verify_hear s i) b'"
proof -
  obtain now where i: "i = (status_chunk (vq_token q) msg k, now)" and t: "verify_in_time q now"
    and k: "k < 44" and len: "length msg = 132" and msg: "msg ! 0 = 1" "msg ! 1 = vq_role q XOR 1"
    using own by (auto simp: verify_own_def split: prod.splits)
  have room: "k < 256" "3 * k + 3 \<le> length msg" using k len by simp_all
  note f = chunk_fields [OF room, of "vq_token q"] and u = expire_verify_collecting [OF c t]
  have first: "k = 0 \<longrightarrow> slice msg (3 * k) 3 ! 0 = 1 \<and> slice msg (3 * k) 3 ! 1 = vq_role q XOR 1"
    using len msg by (simp add: nth_slice)
  have k64: "k < 64" using k by simp
  have hear: "verify_hear s i =
      (if k \<in> S then if slice b (3 * k) 3 \<noteq> slice msg (3 * k) 3 then finish_verify VERIFY_TRANSPORT_INVALID s else s
       else
         let w = s\<lparr>pv_client_bytes := b', pv_client_received := pv_client_received s OR push_bit k 1\<rparr>
         in if pv_client_received w = push_bit 44 1 - 1 then finish_verify VERIFY_TRANSPORT_OK w else w)"
    using c k k64 first
    unfolding verify_hear_def i prod.case peer_verify_receive_response_def u Let_def f verify_collecting_def
    by (auto simp: b'_def simp del: push_bit_of_1)
  have bits: "\<forall>j<64. bit (pv_client_received s OR push_bit k 1) j \<longleftrightarrow> j \<in> insert k S"
    using c k64 by (auto simp: verify_collecting_def bit_simps)
  have all: "pv_client_received s OR push_bit k 1 = push_bit 44 1 - 1 \<longleftrightarrow> insert k S = {..<44}"
    using verify_received_all [OF bits] c k by (simp add: verify_collecting_def)
  show "verify_collecting q (verify_hear s i) S b" if "k \<in> S" "slice b (3 * k) 3 = slice msg (3 * k) 3"
    using that c by (simp add: hear)
  show "verify_collecting q (verify_hear s i) (insert k S) b'" if "k \<notin> S" "insert k S \<noteq> {..<44}"
    using that c k bits all by (simp add: hear Let_def verify_collecting_def del: push_bit_of_1)
  show "verify_finished q (verify_hear s i) b'" if "k \<notin> S" "insert k S = {..<44}"
    using that c k all
    by (simp add: hear Let_def verify_collecting_def verify_finished_def finish_verify_def verify_reply_def
        split: prod.splits del: push_bit_of_1)
qed

interpretation verify_client: chunked_reply verify_hear "verify_collecting q" "verify_finished q" "verify_own q"
  "verify_foreign q" 44 3
  for q
proof
  fix s S b i
  assume c: "verify_collecting q s S b" and f: "verify_foreign q i"
  show "verify_collecting q (verify_hear s i) S b"
    using expire_verify_collecting [OF c, of "snd i"] c f
    by (cases i) (simp add: verify_foreign_def verify_hear_def peer_verify_receive_response_def Let_def verify_collecting_def)
next
  fix msg k k' i
  assume "verify_own q msg k i" "verify_own q msg k' i"
  then have eq: "status_chunk (vq_token q) msg k = status_chunk (vq_token q) msg k'"
    and k: "k < 44" "k' < 44" "length msg = 132"
    by (auto simp: verify_own_def split: prod.splits)
  with k show "k = k'" by (intro chunk_inj [OF eq]) simp_all
next
  fix s S b msg k i
  assume a: "verify_collecting q s S b" "verify_own q msg k i"
  show "verify_collecting q (verify_hear s i) S b" if "k \<in> S" "slice b (3 * k) 3 = slice msg (3 * k) 3"
    using verify_hear_own(1) [OF a that] .
  show "verify_collecting q (verify_hear s i) (insert k S) (blit b (3 * k) (slice msg (3 * k) 3))"
    if "k \<notin> S" "insert k S \<noteq> {..<44}"
    using verify_hear_own(2) [OF a that] .
  show "verify_finished q (verify_hear s i) (blit b (3 * k) (slice msg (3 * k) 3))" if "k \<notin> S" "insert k S = {..<44}"
    using verify_hear_own(3) [OF a that] .
next
  fix s b msg k i
  assume "verify_finished q s b"
  then show "verify_finished q (verify_hear s i) b"
    by (cases i) (simp add: verify_hear_def peer_verify_receive_response_def Let_def verify_finished_def expire_verify_def)
qed

text \<open>The result of a request whose reply arrives is the snapshot the other board froze.\<close>

lemma verify_reply_delivered:
  assumes asked: "verify_collecting q c {} (replicate 132 0)" and ok: "verify_snapshot_ok sn" "vs_role sn = vq_role q XOR 1"
    and arr: "\<forall>i\<in>set is. (\<exists>k<44. verify_own q (encode_verify sn) k i) \<or> verify_foreign q i"
    and all: "\<forall>k<44. \<exists>i\<in>set is. verify_own q (encode_verify sn) k i"
  shows "pv_result_ready (foldl verify_hear c is)"
    "pv_result (foldl verify_hear c is) = (verify_result_of (vq_token q) True VERIFY_TRANSPORT_OK)\<lparr>vr_snapshot := wire_snapshot sn\<rparr>"
proof -
  have len: "length (encode_verify sn) = 132"
    using ok(1) by (simp add: encode_verify_def length_verify_body verify_snapshot_ok_def)
  have "verify_finished q (foldl verify_hear c is) (encode_verify sn)"
    using verify_client.delivered [OF asked _ _ _ _ arr all] len by simp
  then show "pv_result_ready (foldl verify_hear c is)"
    "pv_result (foldl verify_hear c is) = (verify_result_of (vq_token q) True VERIFY_TRANSPORT_OK)\<lparr>vr_snapshot := wire_snapshot sn\<rparr>"
    using decode_encode_verify [OF ok(1)] ok(2) by (simp_all add: verify_finished_def verify_reply_def verify_result_of_def)
qed

end
