(* ===== verification/Verify_Service.thy ===== *)
theory Verify_Service
  imports Peer_Verify
begin

text \<open>
  The verification service of a board (diagnostic\_verify.c): requests from the console, the one scanner shared with
  requests of the other board, and the queue of results. One task is a step on the service; between steps any other
  component may write flash. The result: whatever happens in between, a local result that is published and judged PASS
  describes the image that is in flash at that moment.
\<close>

unbundle bit_operations_syntax

subsection \<open>The service\<close>

record verify_service =
  vv_initialized :: bool
  vv_requests :: "(u32 \<times> u64) queue"
  vv_results :: "verify_result queue"
  vv_peer :: peer_verify
  vv_identity :: peer_status_snapshot
  vv_local_request :: "u32 \<times> u64"
  vv_local_pending :: bool
  vv_local_result_pending :: bool
  vv_peer_result_pending :: bool
  vv_local_result :: verify_result
  vv_peer_result :: verify_result
  vv_local_result_requested_us :: u64
  vv_scan :: scan_unit

text \<open>The world during one task: time, flash, the runtime snapshot, the locks each of the four uses of flash obtains,
  and the transmit queue.\<close>

record verify_env =
  ve_now :: u64
  ve_store :: store
  ve_runtime :: runtime_snapshot
  ve_got :: "nat \<Rightarrow> bool \<times> bool"
  ve_tx :: "peer_verify_packet \<Rightarrow> bytes \<Rightarrow> bool"

definition set_owner :: "scan_owner \<Rightarrow> scan_unit \<Rightarrow> scan_unit" where
  "set_owner owner u = u\<lparr>su_scanner := (su_scanner u)\<lparr>sc_owner := owner\<rparr>\<rparr>"

definition diagnostic_verify_shutdown :: "verify_service \<Rightarrow> verify_service" where
  "diagnostic_verify_shutdown v = v\<lparr>vv_initialized := False\<rparr>"

definition diagnostic_verify_init :: "peer_status_snapshot \<Rightarrow> verify_service \<Rightarrow> verify_service" where
  "diagnostic_verify_init snapshot v =
     (diagnostic_verify_shutdown v)\<lparr>vv_identity := snapshot,
       vv_scan := (set_owner SCAN_FREE (vv_scan v))\<lparr>su_tick_seen := False\<rparr>, vv_local_pending := False,
       vv_local_result_pending := False, vv_peer_result_pending := False, vv_peer := peer_verify_init (sn_role snapshot),
       vv_requests := queue_init (0, 0) 1, vv_results := queue_init (verify_result_of 0 False VERIFY_TRANSPORT_OK) 2,
       vv_initialized := True\<rparr>"

definition diagnostic_verify_request :: "u32 \<Rightarrow> u64 \<Rightarrow> verify_service \<Rightarrow> bool \<times> verify_service" where
  "diagnostic_verify_request token requested v =
     (if \<not> vv_initialized v \<or> token = 0 then (False, v)
      else
        let (stale, q) = queue_try_remove (vv_results v);
            q = (if stale = None then q else snd (queue_try_remove q))
        in case queue_try_add (vv_requests v) (token, requested) of
          (ok, rq) \<Rightarrow> (ok, v\<lparr>vv_results := q, vv_requests := rq\<rparr>))"

definition diagnostic_verify_poll :: "verify_service \<Rightarrow> verify_result option \<times> verify_service" where
  "diagnostic_verify_poll v =
     (if \<not> vv_initialized v then (None, v)
      else case queue_try_remove (vv_results v) of (r, q) \<Rightarrow> (r, v\<lparr>vv_results := q\<rparr>))"

text \<open>The scanner as the provider of the other board's request.\<close>

definition scan_acquire :: "peer_status_snapshot \<Rightarrow> u32 \<Rightarrow> u64 \<Rightarrow> scan_unit \<Rightarrow> bool \<times> scan_unit" where
  "scan_acquire identity token requested u =
     (if sc_owner (su_scanner u) \<noteq> SCAN_FREE then (False, u)
      else (True, u\<lparr>su_scanner := scan_start identity True token requested\<rparr>))"

definition scan_recheck :: "bool \<times> bool \<Rightarrow> verify_env \<Rightarrow> scan_unit \<Rightarrow> bool \<times> scan_unit" where
  "scan_recheck got e u =
     (case recheck_before_deadline got (ve_store e) (ve_now e) (sc_requested_us (su_scanner u)) (sc_snapshot (su_scanner u)) of
        (ok, s) \<Rightarrow> (ok, u\<lparr>su_scanner := (su_scanner u)\<lparr>sc_snapshot := s\<rparr>\<rparr>))"

definition scan_poll :: "verify_env \<Rightarrow> u32 \<Rightarrow> scan_unit \<Rightarrow> verify_snapshot option \<times> scan_unit" where
  "scan_poll e token u =
     (let sc = su_scanner u in
      if sc_owner sc \<noteq> SCAN_REMOTE \<or> sc_token sc \<noteq> token \<or> \<not> sc_ready sc then (None, u)
      else case scan_recheck (ve_got e 3) e u of
        (ok, u) \<Rightarrow> if \<not> ok then (None, u) else (Some (sc_snapshot (su_scanner u)), set_owner SCAN_FREE u))"

definition scan_cancel :: "u32 \<Rightarrow> scan_unit \<Rightarrow> scan_unit" where
  "scan_cancel token u =
     (if sc_owner (su_scanner u) = SCAN_REMOTE \<and> sc_token (su_scanner u) = token then set_owner SCAN_FREE u else u)"

definition scan_provider :: "verify_env \<Rightarrow> peer_status_snapshot \<Rightarrow> scan_unit provider" where
  "scan_provider e identity =
     \<lparr>pr_acquire = scan_acquire identity, pr_poll = scan_poll e, pr_cancel = scan_cancel\<rparr>"

subsection \<open>One task\<close>

definition refresh_local :: "verify_env \<Rightarrow> verify_service \<Rightarrow> bool \<times> verify_result" where
  "refresh_local e v =
     (let r = vv_local_result v in
      if vr_transport r \<noteq> VERIFY_TRANSPORT_OK then (True, r)
      else case recheck_before_deadline (ve_got e 0) (ve_store e) (ve_now e) (vv_local_result_requested_us v) (vr_snapshot r) of
        (ok, s) \<Rightarrow> (ok, r\<lparr>vr_snapshot := s\<rparr>))"

definition publish_local :: "verify_env \<Rightarrow> verify_service \<Rightarrow> verify_result list \<times> verify_service" where
  "publish_local e v =
     (if \<not> vv_local_result_pending v then ([], v)
      else case refresh_local e v of (ok, r) \<Rightarrow>
        let v = v\<lparr>vv_local_result := r\<rparr> in
        if \<not> ok then ([], v)
        else case queue_try_add (vv_results v) r of
          (True, q) \<Rightarrow> ([r], v\<lparr>vv_results := q, vv_local_result_pending := False\<rparr>)
        | (False, q) \<Rightarrow> ([], v))"

definition publish_peer_result :: "verify_service \<Rightarrow> verify_result list \<times> verify_service" where
  "publish_peer_result v =
     (if \<not> vv_peer_result_pending v then ([], v)
      else case queue_try_add (vv_results v) (vv_peer_result v) of
        (True, q) \<Rightarrow> ([vv_peer_result v], v\<lparr>vv_results := q, vv_peer_result_pending := False\<rparr>)
      | (False, q) \<Rightarrow> ([], v))"

definition admit_request :: "verify_service \<Rightarrow> verify_service" where
  "admit_request v =
     (if vv_local_pending v \<or> sc_owner (su_scanner (vv_scan v)) = SCAN_LOCAL \<or> vv_local_result_pending v \<or> vv_peer_result_pending v
      then v
      else case queue_try_peek (vv_requests v) of
        None \<Rightarrow> v
      | Some request \<Rightarrow>
          (case peer_verify_start (fst request) (snd request) (vv_peer v) of (started, peer) \<Rightarrow>
             let v = v\<lparr>vv_peer := peer\<rparr> in
             if started = PEER_VERIFY_BUSY then v
             else v\<lparr>vv_requests := snd (queue_try_remove (vv_requests v)), vv_local_request := request,
                    vv_local_pending := True\<rparr>))"

definition complete_local :: "verify_env \<Rightarrow> verify_service \<Rightarrow> verify_service" where
  "complete_local e v =
     (let sc = su_scanner (vv_scan v) in
      if sc_owner sc \<noteq> SCAN_LOCAL \<or> \<not> sc_ready sc \<or> vv_local_result_pending v then v
      else case scan_recheck (ve_got e 2) e (vv_scan v) of
        (ok, u) \<Rightarrow>
          if \<not> ok then v\<lparr>vv_scan := u\<rparr>
          else v\<lparr>vv_local_result := (verify_result_of (sc_token (su_scanner u)) False VERIFY_TRANSPORT_OK)
                   \<lparr>vr_snapshot := sc_snapshot (su_scanner u)\<rparr>,
                 vv_local_result_pending := True, vv_local_result_requested_us := sc_requested_us (su_scanner u),
                 vv_scan := set_owner SCAN_FREE u\<rparr>)"

definition take_peer_result :: "verify_service \<Rightarrow> verify_service" where
  "take_peer_result v =
     (if vv_peer_result_pending v then v
      else case peer_verify_take_result (vv_peer v) of
        (None, p) \<Rightarrow> v\<lparr>vv_peer := p\<rparr>
      | (Some r, p) \<Rightarrow> v\<lparr>vv_peer := p, vv_peer_result := r, vv_peer_result_pending := True\<rparr>)"

definition begin_local :: "verify_env \<Rightarrow> verify_service \<Rightarrow> verify_service" where
  "begin_local e v =
     (let v = (if vv_local_pending v \<and> sc_owner (su_scanner (vv_scan v)) = SCAN_FREE
               then v\<lparr>vv_scan := (vv_scan v)\<lparr>su_scanner :=
                        scan_start (vv_identity v) False (fst (vv_local_request v)) (snd (vv_local_request v))\<rparr>,
                      vv_local_pending := False\<rparr>
               else v)
      in if vv_local_pending v \<and> ve_now e - snd (vv_local_request v) \<ge> 3000000 \<and> \<not> vv_local_result_pending v
         then v\<lparr>vv_local_result := verify_result_of (fst (vv_local_request v)) False VERIFY_TRANSPORT_TIMEOUT,
                vv_local_result_pending := True, vv_local_result_requested_us := snd (vv_local_request v),
                vv_local_pending := False\<rparr>
         else v)"

definition serve_peer ::
    "verify_env \<Rightarrow> verify_service \<Rightarrow> (peer_verify_packet \<times> bytes) option \<times> verify_service" where
  "serve_peer e v =
     (case peer_verify_task (ve_now e) (ve_tx e) (scan_provider e (vv_identity v)) (vv_peer v) (vv_scan v) of
        (attempt, p, u) \<Rightarrow> (attempt, v\<lparr>vv_peer := p, vv_scan := u\<rparr>))"

text \<open>A task returns the results it published and the packet it offered for transmission.\<close>

definition diagnostic_verify_task ::
    "verify_env \<Rightarrow> verify_service \<Rightarrow> verify_result list \<times> (peer_verify_packet \<times> bytes) option \<times> verify_service" where
  "diagnostic_verify_task e v =
     (if \<not> vv_initialized v then ([], None, v)
      else
        let (local, v) = publish_local e v;
            (remote, v) = publish_peer_result v;
            v = admit_request v;
            v = v\<lparr>vv_scan := scan_task (ve_got e 1) (ve_store e) (ve_now e) (ve_runtime e) (vv_scan v)\<rparr>;
            v = complete_local e v;
            (attempt, v) = serve_peer e v;
            v = take_peer_result v;
            v = begin_local e v
        in (local @ remote, attempt, v))"

definition diagnostic_verify_receive :: "bool \<Rightarrow> bytes \<Rightarrow> u64 \<Rightarrow> verify_service \<Rightarrow> verify_service" where
  "diagnostic_verify_receive response data now v =
     (if \<not> vv_initialized v then v
      else v\<lparr>vv_peer := (if response then peer_verify_receive_response data now (vv_peer v)
                        else snd (peer_verify_receive_request data now (vv_peer v)))\<rparr>)"

subsection \<open>Invariant\<close>

definition peer_remote :: "peer_verify \<Rightarrow> bool" where
  "peer_remote p \<longleftrightarrow> (pv_result_ready p \<longrightarrow> vr_remote (pv_result p))"

definition service_inv :: "verify_service \<Rightarrow> store \<Rightarrow> bool" where
  "service_inv v st \<longleftrightarrow> scanner_ok (su_scanner (vv_scan v)) st
     \<and> (vv_local_result_pending v \<longrightarrow> vr_transport (vv_local_result v) = VERIFY_TRANSPORT_OK
          \<longrightarrow> result_ok (vr_snapshot (vv_local_result v)) st)
     \<and> (vv_peer_result_pending v \<longrightarrow> vr_remote (vv_peer_result v)) \<and> peer_remote (vv_peer v)"

lemma service_inv_kept: "slot_kept st st' \<Longrightarrow> service_inv v st \<Longrightarrow> service_inv v st'"
  using scanner_ok_kept [of st st'] result_ok_kept [of st st'] by (auto simp: service_inv_def scanner_ok_def)

lemma finish_verify_remote: "vr_remote (pv_result (finish_verify t s))"
  by (simp add: finish_verify_def Let_def verify_result_of_def split: prod.splits)

lemma expire_verify_remote: "peer_remote p \<Longrightarrow> peer_remote (expire_verify now p)"
  by (simp add: peer_remote_def expire_verify_def finish_verify_remote)

lemma server_task_remote: "peer_remote (fst (server_task now pr p c)) \<longleftrightarrow> peer_remote p"
  by (auto simp: server_task_def peer_remote_def split: verify_phase.splits prod.splits bool.splits option.splits)

lemma verify_transmit_remote: "peer_remote (snd (verify_transmit now tx p)) \<longleftrightarrow> peer_remote p"
  by (simp add: verify_transmit_def Let_def peer_remote_def split: peer_verify_packet.splits)

lemma receive_response_remote: "peer_remote p \<Longrightarrow> peer_remote (peer_verify_receive_response data now p)"
proof -
  assume a: "peer_remote p"
  define u where "u = expire_verify now p"
  have "peer_remote u" using expire_verify_remote [OF a] by (simp add: u_def)
  then show ?thesis
    unfolding peer_verify_receive_response_def u_def [symmetric]
    by (simp add: Let_def peer_remote_def finish_verify_remote)
qed

lemma receive_request_remote: "peer_remote (snd (peer_verify_receive_request data now p)) \<longleftrightarrow> peer_remote p"
  by (simp add: peer_verify_receive_request_def Let_def peer_remote_def)

lemma scan_start_ok: "length (s_flash st) = FLASH_SIZE \<Longrightarrow> scanner_ok (scan_start i r t q) st"
  by (simp add: scanner_ok_def scan_start_def zero_verify_snapshot_def)

lemma set_owner_free: "scanner_ok (su_scanner u) st \<Longrightarrow> scanner_ok (su_scanner (set_owner SCAN_FREE u)) st"
  by (simp add: scanner_ok_def set_owner_def)

lemma scan_recheck_ok:
  assumes "scanner_ok (su_scanner u) (ve_store e)" "sc_ready (su_scanner u)" "sc_owner (su_scanner u) \<noteq> SCAN_FREE"
    and "scan_recheck got e u = (ok, u')"
  shows "scanner_ok (su_scanner u') (ve_store e)" "result_ok (sc_snapshot (su_scanner u')) (ve_store e)"
proof -
  obtain s where s: "recheck_before_deadline got (ve_store e) (ve_now e) (sc_requested_us (su_scanner u))
      (sc_snapshot (su_scanner u)) = (ok, s)" and u': "u' = u\<lparr>su_scanner := (su_scanner u)\<lparr>sc_snapshot := s\<rparr>\<rparr>"
    using assms(4) by (auto simp: scan_recheck_def split: prod.splits)
  have "result_ok (sc_snapshot (su_scanner u)) (ve_store e)" using assms(1-3) by (simp add: scanner_ok_def)
  from recheck_ok(1) [OF this s] show "result_ok (sc_snapshot (su_scanner u')) (ve_store e)" by (simp add: u')
  with assms(1-3) show "scanner_ok (su_scanner u') (ve_store e)" by (simp add: scanner_ok_def u')
qed

lemma scan_poll_ok: "scanner_ok (su_scanner u) (ve_store e) \<Longrightarrow> scanner_ok (su_scanner (snd (scan_poll e t u))) (ve_store e)"
  using scan_recheck_ok(1) [of u e "ve_got e 3"] set_owner_free
  by (auto simp: scan_poll_def Let_def split: prod.splits)

lemma scan_acquire_ok: "scanner_ok (su_scanner u) st \<Longrightarrow> scanner_ok (su_scanner (snd (scan_acquire i t q u))) st"
  by (auto simp: scan_acquire_def intro!: scan_start_ok) (simp add: scanner_ok_def)

lemma scan_cancel_ok: "scanner_ok (su_scanner u) st \<Longrightarrow> scanner_ok (su_scanner (scan_cancel t u)) st"
  by (simp add: scan_cancel_def set_owner_free)

lemma provider_ok:
  assumes "scanner_ok (su_scanner u) (ve_store e)"
  shows "scanner_ok (su_scanner (snd (server_task now (scan_provider e i) p u))) (ve_store e)"
  using scan_poll_ok [OF assms] scan_acquire_ok [OF assms] scan_cancel_ok [OF assms] assms
  by (auto simp: server_task_def scan_provider_def split: verify_phase.splits prod.splits bool.splits option.splits)
     (metis snd_conv)+

lemma publish_local_inv:
  assumes "service_inv v (ve_store e)" "publish_local e v = (rs, v')"
  shows "service_inv v' (ve_store e)"
    and "r \<in> set rs \<Longrightarrow> vr_transport r = VERIFY_TRANSPORT_OK \<Longrightarrow> vs_outcome (vr_snapshot r) = VERIFY_SCAN_COMPLETE
      \<Longrightarrow> result_ok (vr_snapshot r) (ve_store e) \<and> fresh (vs_generation_start (vr_snapshot r)) (ve_store e)"
proof -
  obtain ok r1 where f: "refresh_local e v = (ok, r1)" by fastforce
  have r1: "result_ok (vr_snapshot r1) (ve_store e)"
    "ok \<Longrightarrow> vs_outcome (vr_snapshot r1) = VERIFY_SCAN_COMPLETE \<Longrightarrow> fresh (vs_generation_start (vr_snapshot r1)) (ve_store e)"
    if "vv_local_result_pending v" "vr_transport r1 = VERIFY_TRANSPORT_OK"
  proof -
    have t: "vr_transport (vv_local_result v) = VERIFY_TRANSPORT_OK"
      using f that(2) by (auto simp: refresh_local_def Let_def split: if_splits prod.splits)
    then have "result_ok (vr_snapshot (vv_local_result v)) (ve_store e)" using assms(1) that(1) by (simp add: service_inv_def)
    moreover obtain s where "recheck_before_deadline (ve_got e 0) (ve_store e) (ve_now e) (vv_local_result_requested_us v)
        (vr_snapshot (vv_local_result v)) = (ok, s)" "r1 = (vv_local_result v)\<lparr>vr_snapshot := s\<rparr>"
      using f t by (auto simp: refresh_local_def Let_def split: prod.splits)
    ultimately show "result_ok (vr_snapshot r1) (ve_store e)"
      "ok \<Longrightarrow> vs_outcome (vr_snapshot r1) = VERIFY_SCAN_COMPLETE \<Longrightarrow> fresh (vs_generation_start (vr_snapshot r1)) (ve_store e)"
      using recheck_ok by simp_all
  qed
  show "service_inv v' (ve_store e)"
    using assms f r1(1) by (auto simp: publish_local_def Let_def service_inv_def split: if_splits prod.splits bool.splits)
  show "r \<in> set rs \<Longrightarrow> vr_transport r = VERIFY_TRANSPORT_OK \<Longrightarrow> vs_outcome (vr_snapshot r) = VERIFY_SCAN_COMPLETE
      \<Longrightarrow> result_ok (vr_snapshot r) (ve_store e) \<and> fresh (vs_generation_start (vr_snapshot r)) (ve_store e)"
    using assms(2) f r1 by (auto simp: publish_local_def Let_def split: if_splits prod.splits bool.splits)
qed

lemma publish_peer_inv:
  assumes "service_inv v st" "publish_peer_result v = (rs, v')"
  shows "service_inv v' st" "r \<in> set rs \<Longrightarrow> vr_remote r"
  using assms by (auto simp: publish_peer_result_def service_inv_def split: if_splits prod.splits bool.splits)

lemma start_remote: "peer_remote (snd (peer_verify_start t q p)) \<longleftrightarrow> peer_remote p"
  by (simp add: peer_verify_start_def peer_remote_def)

lemma admit_request_inv: "service_inv v st \<Longrightarrow> service_inv (admit_request v) st"
  using start_remote [of _ _ "vv_peer v"]
  by (auto simp: admit_request_def service_inv_def Let_def split: option.splits prod.splits) (metis snd_conv)+

lemma scan_inv:
  "service_inv v (ve_store e)
     \<Longrightarrow> service_inv (v\<lparr>vv_scan := scan_task got (ve_store e) now rt (vv_scan v)\<rparr>) (ve_store e)"
  by (simp add: service_inv_def scan_task_ok)

lemma complete_local_inv:
  assumes "service_inv v (ve_store e)"
  shows "service_inv (complete_local e v) (ve_store e)"
proof (cases "sc_owner (su_scanner (vv_scan v)) \<noteq> SCAN_LOCAL \<or> \<not> sc_ready (su_scanner (vv_scan v)) \<or> vv_local_result_pending v")
  case True
  with assms show ?thesis by (auto simp: complete_local_def Let_def)
next
  case False
  obtain ok u where r: "scan_recheck (ve_got e 2) e (vv_scan v) = (ok, u)" by fastforce
  have "scanner_ok (su_scanner (vv_scan v)) (ve_store e)" using assms by (simp add: service_inv_def)
  from scan_recheck_ok [OF this _ _ r] False
  have "scanner_ok (su_scanner u) (ve_store e)" "result_ok (sc_snapshot (su_scanner u)) (ve_store e)" by simp_all
  then show ?thesis
    using False assms r by (simp add: complete_local_def Let_def service_inv_def set_owner_free verify_result_of_def)
qed

lemma serve_peer_inv: "service_inv v (ve_store e) \<Longrightarrow> service_inv (snd (serve_peer e v)) (ve_store e)"
proof -
  assume inv: "service_inv v (ve_store e)"
  define p where "p = expire_verify (ve_now e) (vv_peer v)"
  obtain p1 u where st: "server_task (ve_now e) (scan_provider e (vv_identity v)) p (vv_scan v) = (p1, u)" by fastforce
  obtain attempt p2 where tx: "verify_transmit (ve_now e) (ve_tx e) p1 = (attempt, p2)" by fastforce
  have "peer_remote p" using inv expire_verify_remote by (simp add: p_def service_inv_def)
  then have "peer_remote p2"
    using server_task_remote [of "ve_now e" "scan_provider e (vv_identity v)" p "vv_scan v"]
      verify_transmit_remote [of "ve_now e" "ve_tx e" p1] st tx by simp
  moreover have "scanner_ok (su_scanner u) (ve_store e)"
    using provider_ok [of "vv_scan v" e "ve_now e" "vv_identity v" p] st inv by (simp add: service_inv_def)
  ultimately show ?thesis
    using inv st tx by (simp add: serve_peer_def peer_verify_task_def p_def [symmetric] service_inv_def)
qed

lemma take_peer_inv: "service_inv v st \<Longrightarrow> service_inv (take_peer_result v) st"
  by (auto simp: take_peer_result_def peer_verify_take_result_def service_inv_def peer_remote_def split: prod.splits option.splits)

lemma begin_local_inv:
  assumes "service_inv v st"
  shows "service_inv (begin_local e v) st"
proof -
  have "length (s_flash st) = FLASH_SIZE" using assms by (simp add: service_inv_def scanner_ok_def)
  then show ?thesis
    using assms scan_start_ok [of st] by (simp add: begin_local_def Let_def service_inv_def verify_result_of_def)
qed

lemma verify_task_inv:
  assumes inv: "service_inv v (ve_store e)" and step: "diagnostic_verify_task e v = (rs, attempt, v')"
  shows "service_inv v' (ve_store e)"
    and "r \<in> set rs \<Longrightarrow> \<not> vr_remote r \<Longrightarrow> vr_transport r = VERIFY_TRANSPORT_OK \<Longrightarrow> vs_outcome (vr_snapshot r) = VERIFY_SCAN_COMPLETE
      \<Longrightarrow> result_ok (vr_snapshot r) (ve_store e) \<and> fresh (vs_generation_start (vr_snapshot r)) (ve_store e)"
proof -
  obtain l v1 where l: "publish_local e v = (l, v1)" by fastforce
  obtain p v2 where p: "publish_peer_result v1 = (p, v2)" by fastforce
  note i1 = publish_local_inv [OF inv l]
  note i2 = publish_peer_inv [OF i1(1) p]
  define v3 where "v3 = admit_request v2"
  define v4 where "v4 = complete_local e (v3\<lparr>vv_scan := scan_task (ve_got e 1) (ve_store e) (ve_now e) (ve_runtime e) (vv_scan v3)\<rparr>)"
  obtain a v5 where s: "serve_peer e v4 = (a, v5)" by fastforce
  have "service_inv v4 (ve_store e)" unfolding v4_def v3_def
    by (intro complete_local_inv scan_inv admit_request_inv i2(1))
  then have "service_inv v5 (ve_store e)" using serve_peer_inv [of v4 e] s by simp
  then have "service_inv (begin_local e (take_peer_result v5)) (ve_store e)" by (intro begin_local_inv take_peer_inv)
  moreover have "vv_initialized v \<Longrightarrow> rs = l @ p \<and> v' = begin_local e (take_peer_result v5)"
    using step by (simp add: diagnostic_verify_task_def l p v3_def [symmetric] v4_def [symmetric] s Let_def del: One_nat_def)
  moreover have "\<not> vv_initialized v \<Longrightarrow> rs = [] \<and> v' = v" using step by (simp add: diagnostic_verify_task_def)
  ultimately show "service_inv v' (ve_store e)"
    and "r \<in> set rs \<Longrightarrow> \<not> vr_remote r \<Longrightarrow> vr_transport r = VERIFY_TRANSPORT_OK \<Longrightarrow> vs_outcome (vr_snapshot r) = VERIFY_SCAN_COMPLETE
      \<Longrightarrow> result_ok (vr_snapshot r) (ve_store e) \<and> fresh (vs_generation_start (vr_snapshot r)) (ve_store e)"
    using inv i1(2) i2(2) by (cases "vv_initialized v"; auto)+
qed

lemma widen_inj: "(ucast (a :: u16) :: u32) = ucast b \<Longrightarrow> a = b"
proof -
  assume "(ucast a :: u32) = ucast b"
  then have "(ucast (ucast a :: u32) :: u16) = ucast (ucast b :: u32)" by simp
  moreover have "(ucast (ucast c :: u32) :: u16) = c" for c :: u16 by (rule bit_word_eqI) (auto simp: bit_simps)
  ultimately show ?thesis by simp
qed

subsection \<open>A PASS describes the flash\<close>

text \<open>The service and the flash, from start-up on: tasks, requests, polls and packets of the service, and writes to
  flash by any other component, in any order.\<close>

inductive verify_reach :: "flash_hw \<Rightarrow> verify_service \<Rightarrow> store \<Rightarrow> bool" for hw where
  start: "length (s_flash st) = FLASH_SIZE \<Longrightarrow> verify_reach hw (diagnostic_verify_init snapshot v) st"
| task: "verify_reach hw v (ve_store e) \<Longrightarrow> diagnostic_verify_task e v = (rs, attempt, v') \<Longrightarrow> verify_reach hw v' (ve_store e)"
| request: "verify_reach hw v st \<Longrightarrow> verify_reach hw (snd (diagnostic_verify_request token q v)) st"
| poll: "verify_reach hw v st \<Longrightarrow> verify_reach hw (snd (diagnostic_verify_poll v)) st"
| receive: "verify_reach hw v st \<Longrightarrow> verify_reach hw (diagnostic_verify_receive response data now v) st"
| flash: "verify_reach hw v st \<Longrightarrow> flash_step hw st st' \<Longrightarrow> verify_reach hw v st'"

lemma verify_reach_inv:
  assumes "nor_flash hw" "verify_reach hw v st"
  shows "service_inv v st"
  using assms(2)
proof induction
  case (start st snapshot v)
  then show ?case
    by (simp add: service_inv_def diagnostic_verify_init_def diagnostic_verify_shutdown_def scanner_ok_def set_owner_def
        peer_remote_def peer_verify_init_def)
next
  case (task v e rs attempt v')
  then show ?case using verify_task_inv(1) by blast
next
  case (request v st token q)
  then show ?case
    by (simp add: diagnostic_verify_request_def service_inv_def Let_def split: prod.splits)
next
  case (poll v st)
  then show ?case by (simp add: diagnostic_verify_poll_def service_inv_def split: prod.splits)
next
  case (receive v st response data now)
  then show ?case
    by (simp add: diagnostic_verify_receive_def service_inv_def receive_response_remote receive_request_remote)
next
  case (flash v st st')
  then show ?case using service_inv_kept slot_kept_step [OF assms(1)] by blast
qed

text \<open>
  C27. A PASS is about the image that is in flash. Whatever requests, tasks and packets the verification service has
  handled since start-up, and whatever was written to flash between any two of its steps, if a task publishes a result of
  this board and the verdict on it for an expected version and slot checksum is PASS, then at that moment the slot in
  flash has exactly that checksum, and its metadata carries the firmware magic and that version.
\<close>

theorem verify_pass_sound:
  assumes "nor_flash hw" "verify_reach hw v (ve_store e)" "diagnostic_verify_task e v = (rs, attempt, v')"
    and "r \<in> set rs" "\<not> vr_remote r" "fst (verification_assess r version crc) = VERIFY_PASS"
  shows "calc_crc32 (slot_of (ve_store e)) = crc \<and> get32 (metadata_of (ve_store e)) 0 = 0xf00d
    \<and> get16 (metadata_of (ve_store e)) 4 = version"
proof -
  have "result_ok (vr_snapshot r) (ve_store e)" "fresh (vs_generation_start (vr_snapshot r)) (ve_store e)"
    using verify_task_inv(2) [OF verify_reach_inv [OF assms(1,2)] assms(3-5)] assess_pass(1,2) [OF assms(6)] by simp_all
  then show ?thesis
    using assess_pass(2-4) [OF assms(6)] widen_inj [OF assess_pass(5) [OF assms(6)]] by (simp add: result_ok_def)
qed

subsection \<open>An undisturbed scan completes\<close>

definition local_results :: "verify_result list \<Rightarrow> verify_result list" where
  "local_results rs = filter (\<lambda>r. \<not> vr_remote r) rs"

lemma local_results_append [simp]: "local_results (xs @ ys) = local_results xs @ local_results ys"
  by (simp add: local_results_def)

text \<open>While a request of this board is under way, at most one result of the other board is on its way to the queue of
  results, so that the local one finds room.\<close>

definition peer_owes :: "peer_verify \<Rightarrow> nat" where
  "peer_owes p = of_bool (pv_client_active p) + of_bool (pv_result_ready p)"

definition results_fit :: "verify_service \<Rightarrow> bool" where
  "results_fit v \<longleftrightarrow> queue_ok (vv_results v) \<and> q_element_count (vv_results v) = 2
     \<and> queue_get_level (vv_results v) + of_bool (vv_peer_result_pending v) + peer_owes (vv_peer v) \<le> 1
     \<and> (vv_peer_result_pending v \<longrightarrow> vr_remote (vv_peer_result v)) \<and> peer_remote (vv_peer v)"

definition service_quiet :: "verify_service \<Rightarrow> bool" where
  "service_quiet v \<longleftrightarrow> vv_initialized v \<and> \<not> vv_local_pending v \<and> \<not> vv_local_result_pending v
     \<and> sc_owner (su_scanner (vv_scan v)) = SCAN_LOCAL \<and> results_fit v"

lemma finish_owes: "peer_owes (finish_verify t p) = 1"
  by (simp add: finish_verify_def Let_def peer_owes_def split: prod.splits)

lemma expire_owes: "peer_owes (expire_verify now p) \<le> peer_owes p"
  by (simp add: expire_verify_def finish_owes) (simp add: peer_owes_def)

lemma server_task_owes: "peer_owes (fst (server_task now pr p c)) = peer_owes p"
  by (auto simp: server_task_def peer_owes_def split: verify_phase.splits prod.splits bool.splits option.splits)

lemma transmit_owes: "peer_owes (snd (verify_transmit now tx p)) = peer_owes p"
  by (simp add: verify_transmit_def Let_def peer_owes_def split: peer_verify_packet.splits)

lemma response_owes: "peer_owes (peer_verify_receive_response data now p) \<le> peer_owes p"
proof -
  define u where "u = expire_verify now p"
  have "peer_owes (peer_verify_receive_response data now p) \<le> peer_owes u"
    unfolding peer_verify_receive_response_def u_def [symmetric]
    by (simp add: Let_def finish_owes) (auto simp: peer_owes_def)
  also have "\<dots> \<le> peer_owes p" by (simp add: u_def expire_owes)
  finally show ?thesis .
qed

lemma request_owes: "peer_owes (snd (peer_verify_receive_request data now p)) = peer_owes p"
  by (simp add: peer_verify_receive_request_def Let_def peer_owes_def)

text \<open>The other board cannot take the scanner away, and takes a free one only for a request that waits.\<close>

lemma provider_busy:
  assumes "sc_owner (su_scanner c) \<noteq> SCAN_REMOTE"
    and "sc_owner (su_scanner c) = SCAN_LOCAL \<or> pv_server_phase p \<noteq> VERIFY_ACQUIRE"
  shows "snd (server_task now (scan_provider e i) p c) = c"
  using assms
  by (cases "pv_server_phase p")
    (auto simp: server_task_def scan_provider_def scan_acquire_def scan_poll_def scan_cancel_def Let_def
      split: prod.splits bool.splits option.splits)

lemma serve_fit:
  assumes "serve_peer e v = (a, v')"
  shows "\<exists>p u. v' = v\<lparr>vv_peer := p, vv_scan := u\<rparr>
      \<and> (sc_owner (su_scanner (vv_scan v)) = SCAN_LOCAL
         \<or> sc_owner (su_scanner (vv_scan v)) = SCAN_FREE \<and> pv_server_phase (vv_peer v) \<noteq> VERIFY_ACQUIRE \<longrightarrow> u = vv_scan v)"
    and "results_fit v \<Longrightarrow> results_fit v'"
proof -
  define q where "q = expire_verify (ve_now e) (vv_peer v)"
  obtain p1 u where st: "server_task (ve_now e) (scan_provider e (vv_identity v)) q (vv_scan v) = (p1, u)" by fastforce
  obtain b p where tx: "verify_transmit (ve_now e) (ve_tx e) p1 = (b, p)" by fastforce
  have v': "v' = v\<lparr>vv_peer := p, vv_scan := u\<rparr>"
    using assms st tx by (simp add: serve_peer_def peer_verify_task_def q_def)
  have phase: "pv_server_phase q = pv_server_phase (vv_peer v)"
    by (simp add: q_def expire_verify_def finish_verify_def Let_def split: prod.splits)
  have "u = vv_scan v" if "sc_owner (su_scanner (vv_scan v)) = SCAN_LOCAL
      \<or> sc_owner (su_scanner (vv_scan v)) = SCAN_FREE \<and> pv_server_phase (vv_peer v) \<noteq> VERIFY_ACQUIRE"
    using provider_busy [of "vv_scan v" q "ve_now e" e "vv_identity v"] that st phase by auto
  with v' show "\<exists>p u. v' = v\<lparr>vv_peer := p, vv_scan := u\<rparr>
      \<and> (sc_owner (su_scanner (vv_scan v)) = SCAN_LOCAL
         \<or> sc_owner (su_scanner (vv_scan v)) = SCAN_FREE \<and> pv_server_phase (vv_peer v) \<noteq> VERIFY_ACQUIRE \<longrightarrow> u = vv_scan v)"
    by blast
  have "peer_owes p \<le> peer_owes (vv_peer v)"
    using transmit_owes [of "ve_now e" "ve_tx e" p1] server_task_owes [of "ve_now e" "scan_provider e (vv_identity v)" q "vv_scan v"]
      expire_owes [of "ve_now e" "vv_peer v"] st tx by (simp add: q_def)
  moreover have "peer_remote p" if "peer_remote (vv_peer v)"
    using verify_transmit_remote [of "ve_now e" "ve_tx e" p1] server_task_remote [of "ve_now e" "scan_provider e (vv_identity v)" q "vv_scan v"]
      expire_verify_remote [OF that, of "ve_now e"] st tx by (simp add: q_def)
  ultimately show "results_fit v \<Longrightarrow> results_fit v'" by (simp add: v' results_fit_def)
qed

lemma take_fit:
  "\<exists>p r b. take_peer_result v = v\<lparr>vv_peer := p, vv_peer_result := r, vv_peer_result_pending := b\<rparr>"
  "results_fit v \<Longrightarrow> results_fit (take_peer_result v)"
proof -
  obtain x p where t: "peer_verify_take_result (vv_peer v) = (x, p)" by fastforce
  show "\<exists>p r b. take_peer_result v = v\<lparr>vv_peer := p, vv_peer_result := r, vv_peer_result_pending := b\<rparr>"
    by (rule exI [of _ "vv_peer (take_peer_result v)"], rule exI [of _ "vv_peer_result (take_peer_result v)"],
        rule exI [of _ "vv_peer_result_pending (take_peer_result v)"])
      (auto simp: take_peer_result_def t split: option.splits)
  show "results_fit v \<Longrightarrow> results_fit (take_peer_result v)"
    by (auto simp: take_peer_result_def peer_verify_take_result_def results_fit_def peer_owes_def peer_remote_def
        split: option.splits prod.splits if_splits)
qed

lemma publish_peer_fit:
  assumes "results_fit v" "publish_peer_result v = (rs, v')"
  shows "results_fit v'" "local_results rs = []" "\<exists>q b. v' = v\<lparr>vv_results := q, vv_peer_result_pending := b\<rparr>"
proof -
  let ?q = "vv_results v" and ?q' = "snd (queue_try_add (vv_results v) (vv_peer_result v))"
  show "local_results rs = []"
    using assms by (auto simp: publish_peer_result_def local_results_def results_fit_def split: prod.splits bool.splits if_splits)
  show "\<exists>q b. v' = v\<lparr>vv_results := q, vv_peer_result_pending := b\<rparr>"
    by (rule exI [of _ "vv_results v'"], rule exI [of _ "vv_peer_result_pending v'"])
      (use assms(2) in \<open>auto simp: publish_peer_result_def split: prod.splits bool.splits if_splits\<close>)
  show "results_fit v'"
  proof (cases "vv_peer_result_pending v")
    case False
    then show ?thesis using assms by (simp add: publish_peer_result_def)
  next
    case True
    then have l: "queue_get_level ?q = 0" "peer_owes (vv_peer v) = 0" "queue_ok ?q" "q_element_count ?q = 2" "peer_remote (vv_peer v)"
      using assms(1) by (auto simp: results_fit_def split: if_splits)
    then have "queue_get_level ?q' = 1" "queue_ok ?q'" "q_element_count ?q' = 2" "fst (queue_try_add ?q (vv_peer_result v))"
      using level_after_add [of ?q "vv_peer_result v"] queue_add_ok [of ?q "vv_peer_result v"] by (simp_all add: queue_try_add_def)
    then show ?thesis using assms(2) True l by (auto simp: publish_peer_result_def results_fit_def split: prod.splits)
  qed
qed

lemma queue_remove_level:
  assumes "queue_ok q"
  shows "queue_ok (snd (queue_try_remove q))" "q_element_count (snd (queue_try_remove q)) = q_element_count q"
    "queue_get_level (snd (queue_try_remove q)) = queue_get_level q - 1" "fst (queue_try_remove q) = None \<longleftrightarrow> queue_get_level q = 0"
proof -
  show "queue_ok (snd (queue_try_remove q))" by (rule queue_remove_ok [OF assms])
  show "q_element_count (snd (queue_try_remove q)) = q_element_count q" "fst (queue_try_remove q) = None \<longleftrightarrow> queue_get_level q = 0"
    by (simp_all add: queue_try_remove_def)
  show "queue_get_level (snd (queue_try_remove q)) = queue_get_level q - 1"
  proof (cases "queue_get_level q = 0")
    case False
    have "length (queue_items q) = Suc (length (queue_items (snd (queue_try_remove q))))"
      by (subst queue_remove_items [OF assms False]) (simp only: list.size)
    then show ?thesis by simp
  qed (simp add: queue_try_remove_def)
qed

text \<open>What may happen between two tasks: packets of the other board, further requests of the console, and polls.\<close>

datatype verify_input =
    Peer_packet bool bytes u64
  | Console_request u32 u64
  | Console_poll

fun verify_event :: "verify_service \<Rightarrow> verify_input \<Rightarrow> verify_service" where
  "verify_event v (Peer_packet response data now) = diagnostic_verify_receive response data now v"
| "verify_event v (Console_request token now) = snd (diagnostic_verify_request token now v)"
| "verify_event v Console_poll = snd (diagnostic_verify_poll v)"

lemma discard_results:
  "\<exists>rq. snd (diagnostic_verify_request token now v) = v\<lparr>vv_requests := rq,
     vv_results := if \<not> vv_initialized v \<or> token = 0 then vv_results v
       else if fst (queue_try_remove (vv_results v)) = None then snd (queue_try_remove (vv_results v))
       else snd (queue_try_remove (snd (queue_try_remove (vv_results v))))\<rparr>"
proof (cases "\<not> vv_initialized v \<or> token = 0")
  case True
  then show ?thesis by (auto simp: diagnostic_verify_request_def intro!: exI [of _ "vv_requests v"])
next
  case False
  then show ?thesis
    by (intro exI [of _ "snd (queue_try_add (vv_requests v) (token, now))"])
      (auto simp: diagnostic_verify_request_def Let_def split: prod.splits)
qed

lemma event_fields:
  "\<exists>p q r. verify_event v ev = v\<lparr>vv_peer := p, vv_requests := q, vv_results := r\<rparr>"
  "results_fit v \<Longrightarrow> results_fit (verify_event v ev)"
proof -
  show "\<exists>p q r. verify_event v ev = v\<lparr>vv_peer := p, vv_requests := q, vv_results := r\<rparr>"
    by (rule exI [of _ "vv_peer (verify_event v ev)"], rule exI [of _ "vv_requests (verify_event v ev)"],
        rule exI [of _ "vv_results (verify_event v ev)"], cases ev)
      (auto simp: diagnostic_verify_receive_def diagnostic_verify_request_def diagnostic_verify_poll_def Let_def split: prod.splits)
  assume fit: "results_fit v"
  show "results_fit (verify_event v ev)"
  proof (cases ev)
    case (Peer_packet response data now)
    have "peer_owes (vv_peer (verify_event v ev)) \<le> peer_owes (vv_peer v)"
      using response_owes [of data now "vv_peer v"] request_owes [of data now "vv_peer v"]
      by (simp add: Peer_packet diagnostic_verify_receive_def)
    moreover have "peer_remote (vv_peer (verify_event v ev))"
      using fit receive_response_remote [of "vv_peer v" data now] receive_request_remote [of data now "vv_peer v"]
      by (simp add: Peer_packet diagnostic_verify_receive_def results_fit_def)
    moreover have "vv_results (verify_event v ev) = vv_results v" "vv_peer_result (verify_event v ev) = vv_peer_result v"
        "vv_peer_result_pending (verify_event v ev) = vv_peer_result_pending v"
      by (simp_all add: Peer_packet diagnostic_verify_receive_def)
    ultimately show ?thesis using fit by (simp add: results_fit_def)
  next
    case (Console_request token now)
    obtain rq where r: "snd (diagnostic_verify_request token now v) = v\<lparr>vv_requests := rq,
       vv_results := if \<not> vv_initialized v \<or> token = 0 then vv_results v
         else if fst (queue_try_remove (vv_results v)) = None then snd (queue_try_remove (vv_results v))
         else snd (queue_try_remove (snd (queue_try_remove (vv_results v))))\<rparr>"
      using discard_results by blast
    show ?thesis
      using fit queue_remove_level [of "vv_results v"] queue_remove_level [of "snd (queue_try_remove (vv_results v))"]
      by (auto simp: Console_request r results_fit_def)
  next
    case Console_poll
    show ?thesis
      using fit queue_remove_level [of "vv_results v"]
      by (auto simp: Console_poll diagnostic_verify_poll_def results_fit_def split: prod.splits)
  qed
qed

lemma events_fields:
  "\<exists>p q r. foldl verify_event v evs = v\<lparr>vv_peer := p, vv_requests := q, vv_results := r\<rparr>"
  "results_fit v \<Longrightarrow> results_fit (foldl verify_event v evs)"
proof -
  show "\<exists>p q r. foldl verify_event v evs = v\<lparr>vv_peer := p, vv_requests := q, vv_results := r\<rparr>"
  proof (induction evs arbitrary: v)
    case Nil
    have "v = v\<lparr>vv_peer := vv_peer v, vv_requests := vv_requests v, vv_results := vv_results v\<rparr>" by simp
    then show ?case unfolding foldl_Nil by blast
  next
    case (Cons ev evs)
    obtain p q r where e: "verify_event v ev = v\<lparr>vv_peer := p, vv_requests := q, vv_results := r\<rparr>" using event_fields(1) by blast
    obtain p' q' r' where "foldl verify_event (verify_event v ev) evs
        = (verify_event v ev)\<lparr>vv_peer := p', vv_requests := q', vv_results := r'\<rparr>" using Cons.IH by blast
    then show ?case unfolding foldl_Cons e by auto
  qed
  show "results_fit v \<Longrightarrow> results_fit (foldl verify_event v evs)"
    by (induction evs arbitrary: v) (simp_all add: event_fields(2))
qed

text \<open>While the scan of this board is not finished, a task does one scan step and publishes no result of this board.\<close>

lemma task_scanning:
  assumes "service_quiet v"
    and u: "u = scan_task (ve_got e 1) (ve_store e) (ve_now e) (ve_runtime e) (vv_scan v)"
    and "sc_owner (su_scanner u) = SCAN_LOCAL" "\<not> sc_ready (su_scanner u)"
  obtains rs a v' where "diagnostic_verify_task e v = (rs, a, v')" "local_results rs = []" "service_quiet v'"
    "vv_scan v' = u" "vv_identity v' = vv_identity v"
proof -
  have v: "vv_initialized v" "publish_local e v = ([], v)" "results_fit v" "\<not> vv_local_pending v" "\<not> vv_local_result_pending v"
      "sc_owner (su_scanner (vv_scan v)) = SCAN_LOCAL"
    using assms(1) by (simp_all add: service_quiet_def publish_local_def)
  obtain rs v1 where p: "publish_peer_result v = (rs, v1)" by fastforce
  note fit = publish_peer_fit [OF v(3) p]
  obtain q b where v1: "v1 = v\<lparr>vv_results := q, vv_peer_result_pending := b\<rparr>" using fit(3) by blast
  define w where "w = v1\<lparr>vv_scan := u\<rparr>"
  have adm: "admit_request v1 = v1" using v by (simp add: admit_request_def v1)
  have scan: "v1\<lparr>vv_scan := scan_task (ve_got e 1) (ve_store e) (ve_now e) (ve_runtime e) (vv_scan v1)\<rparr> = w"
    by (simp add: w_def v1 u)
  have com: "complete_local e w = w" using assms(4) by (simp add: complete_local_def w_def Let_def)
  obtain a x where s: "serve_peer e w = (a, x)" by fastforce
  have fw: "results_fit w" using fit(1) by (simp add: w_def results_fit_def)
  obtain p' where x: "x = w\<lparr>vv_peer := p', vv_scan := u\<rparr>" using serve_fit(1) [OF s] assms(3) by (auto simp: w_def)
  obtain p'' r b' where y: "take_peer_result x = x\<lparr>vv_peer := p'', vv_peer_result := r, vv_peer_result_pending := b'\<rparr>"
    using take_fit(1) by blast
  have fy: "results_fit (take_peer_result x)" by (rule take_fit(2) [OF serve_fit(2) [OF s fw]])
  have bl: "begin_local e (take_peer_result x) = take_peer_result x"
    using v(4) unfolding y by (simp add: begin_local_def x w_def v1)
  have "diagnostic_verify_task e v = (rs, a, take_peer_result x)"
    using v(1,2) p adm by (simp add: diagnostic_verify_task_def Let_def scan com s bl del: One_nat_def)
  moreover have z: "vv_scan (take_peer_result x) = u" "vv_identity (take_peer_result x) = vv_identity v"
      "vv_initialized (take_peer_result x)" "\<not> vv_local_pending (take_peer_result x)" "\<not> vv_local_result_pending (take_peer_result x)"
    using v unfolding y by (simp_all add: x w_def v1)
  moreover have "service_quiet (take_peer_result x)" using z assms(3) fy by (simp add: service_quiet_def)
  ultimately show ?thesis using fit(2) that by blast
qed

text \<open>A quiet flash: no update runs, and every lock is free.\<close>

definition flash_quiet :: "store \<Rightarrow> bool" where
  "flash_quiet st \<longleftrightarrow> length (s_flash st) = FLASH_SIZE \<and> \<not> s_upgrade_in_progress st \<and> \<not> s_image_dirty st
     \<and> \<not> s_reboot_requested st \<and> s_generation st \<noteq> 0xffffffffffffffff"

lemma quiet_lock: "flash_quiet st \<Longrightarrow> compare \<longrightarrow> g = s_generation st
    \<Longrightarrow> firmware_verify_try_lock (True, True) g compare st = FIRMWARE_VERIFY_OK"
  by (auto simp: flash_quiet_def firmware_verify_try_lock_def)

text \<open>The scan after \<open>k\<close> pages; \<open>base\<close> is the snapshot it began with.\<close>

definition scan_at :: "store \<Rightarrow> u64 \<Rightarrow> u64 \<Rightarrow> verify_snapshot \<Rightarrow> nat \<Rightarrow> scan_unit \<Rightarrow> bool" where
  "scan_at st t0 now base k u \<longleftrightarrow> su_tick_seen u \<and> su_last_tick_us u = now
     \<and> (let sc = su_scanner u in sc_owner sc = SCAN_LOCAL \<and> \<not> sc_ready sc \<and> sc_begun sc \<and> sc_requested_us sc = t0
          \<and> sc_initial_metadata sc = metadata_of st \<and> sc_snapshot sc = base\<lparr>vs_bytes_read := of_nat (256 * k)\<rparr>)"

lemma scan_at_begin:
  assumes "flash_quiet st" "now - t0 < 3000000" "sc_owner (su_scanner u) = SCAN_LOCAL" "\<not> sc_ready (su_scanner u)"
    "\<not> sc_begun (su_scanner u)" "sc_requested_us (su_scanner u) = t0" "su_tick_seen u \<longrightarrow> 1000 \<le> now - su_last_tick_us u"
    "vs_bytes_read (sc_snapshot (su_scanner u)) = 0"
  shows "scan_at st t0 now (metadata_copy (metadata_of st)
     ((sc_snapshot (su_scanner u))\<lparr>vs_generation_start := s_generation st, vs_started_us := now, vs_start := rt\<rparr>)) 0
     (scan_task (True, True) st now rt u)"
proof -
  have "firmware_verify_try_start (True, True) st = Inr (metadata_of st, s_generation st)"
    using quiet_lock [OF assms(1), of False 0] by (simp add: firmware_verify_try_start_def metadata_of_def)
  then show ?thesis
    using assms by (auto simp: scan_task_def Let_def scan_begin_def scan_at_def metadata_copy_def not_less)
qed

lemma scan_at_page:
  assumes "flash_quiet st" "now' - t0 < 3000000" "1000 \<le> now' - now" "k < 1024" "vs_generation_start base = s_generation st"
    "scan_at st t0 now base k u"
  shows "scan_at st t0 now' base (Suc k) (scan_task (True, True) st now' rt u)"
proof -
  have n: "unat (of_nat (256 * k) :: u32) = 256 * k"
    using assms(4) by (subst unsigned_of_nat) (simp add: take_bit_nat_eq_self del: of_nat_mult)
  have lt: "(of_nat (256 * k) :: u32) < 262144" using assms(4) n by (simp add: word_less_nat_alt)
  have r: "firmware_verify_try_read (True, True) (s_generation st) (256 * k) 256 st = Inr (slice (s_flash st) (256 * k) 256)"
    using quiet_lock [OF assms(1), of True] assms(4) by (simp add: firmware_verify_try_read_def)
  have "scan_task (True, True) st now' rt u = u\<lparr>su_tick_seen := True, su_last_tick_us := now',
      su_scanner := scan_page (True, True) st now' rt (su_scanner u)\<rparr>"
    using assms(2,3,6) lt by (simp add: scan_task_def scan_at_def Let_def del: of_nat_mult)
  moreover have "scan_page (True, True) st now' rt (su_scanner u) = (su_scanner u)\<lparr>sc_crc := foldl crc32_iter (sc_crc (su_scanner u))
      (slice (s_flash st) (256 * k) 256), sc_snapshot := base\<lparr>vs_bytes_read := of_nat (256 * Suc k)\<rparr>\<rparr>"
    using assms(5,6) n r by (simp add: scan_page_def scan_at_def Let_def algebra_simps)
  ultimately show ?thesis using assms(6) by (simp add: scan_at_def Let_def)
qed

lemma scan_at_end:
  fixes rt :: runtime_snapshot and u :: scan_unit and st :: store and now' :: u64
  assumes "flash_quiet st" "now' - t0 < 3000000" "1000 \<le> now' - now" "vs_generation_start base = s_generation st"
    "scan_at st t0 now base 1024 u"
  defines "sc \<equiv> su_scanner (scan_task (True, True) st now' rt u)"
  shows "sc_owner sc = SCAN_LOCAL" "sc_ready sc" "sc_requested_us sc = t0" "sc_token sc = sc_token (su_scanner u)"
    "sc_snapshot sc = (metadata_copy (metadata_of st) base)\<lparr>vs_bytes_read := 262144, vs_generation_end := s_generation st,
       vs_slot_crc32 := NOT (sc_crc (su_scanner u)), vs_outcome := VERIFY_SCAN_COMPLETE, vs_completed_us := now', vs_end := rt\<rparr>"
proof -
  have f: "firmware_verify_try_finish (True, True) (s_generation st) st = Inr (metadata_of st)"
    using quiet_lock [OF assms(1), of True] by (simp add: firmware_verify_try_finish_def metadata_of_def)
  have "sc = scan_conclude (True, True) st now' rt (su_scanner u)"
    using assms(2,3,5) by (simp add: sc_def scan_task_def scan_at_def Let_def)
  moreover have "scan_conclude (True, True) st now' rt (su_scanner u) = scan_finish VERIFY_SCAN_COMPLETE now' rt
      ((su_scanner u)\<lparr>sc_snapshot := (metadata_copy (metadata_of st) (base\<lparr>vs_bytes_read := 262144\<rparr>))
         \<lparr>vs_generation_end := s_generation st, vs_slot_crc32 := NOT (sc_crc (su_scanner u))\<rparr>\<rparr>)"
    using assms(4,5) f by (simp add: scan_conclude_def scan_at_def Let_def metadata_copy_def)
  ultimately show "sc_owner sc = SCAN_LOCAL" "sc_ready sc" "sc_requested_us sc = t0" "sc_token sc = sc_token (su_scanner u)"
    "sc_snapshot sc = (metadata_copy (metadata_of st) base)\<lparr>vs_bytes_read := 262144, vs_generation_end := s_generation st,
       vs_slot_crc32 := NOT (sc_crc (su_scanner u)), vs_outcome := VERIFY_SCAN_COMPLETE, vs_completed_us := now', vs_end := rt\<rparr>"
    using assms(5) by (simp_all add: scan_finish_def scan_at_def Let_def metadata_copy_def)
qed

text \<open>The service is idle: no request of this board or of the other one is under way.\<close>

definition service_idle :: "verify_service \<Rightarrow> bool" where
  "service_idle v \<longleftrightarrow> vv_initialized v \<and> \<not> vv_local_pending v \<and> \<not> vv_local_result_pending v \<and> \<not> vv_peer_result_pending v
     \<and> sc_owner (su_scanner (vv_scan v)) = SCAN_FREE \<and> pv_server_phase (vv_peer v) \<noteq> VERIFY_ACQUIRE \<and> peer_owes (vv_peer v) = 0
     \<and> queue_ok (vv_requests v) \<and> queue_items (vv_requests v) = [] \<and> q_element_count (vv_requests v) = 1
     \<and> queue_ok (vv_results v) \<and> q_element_count (vv_results v) = 2"

lemma start_owes:
  "peer_owes p = 0 \<Longrightarrow> fst (peer_verify_start t q p) \<noteq> PEER_VERIFY_BUSY \<and> peer_owes (snd (peer_verify_start t q p)) \<le> 1"
  by (simp add: peer_verify_start_def peer_owes_def)

lemma task_first:
  assumes idle: "service_idle v" and tok: "token \<noteq> 0"
  obtains rs a v1 where "diagnostic_verify_task e (snd (diagnostic_verify_request token t0 v)) = (rs, a, v1)"
    "local_results rs = []" "service_quiet v1"
    "vv_scan v1 = (vv_scan v)\<lparr>su_scanner := scan_start (vv_identity v) False token t0\<rparr>" "vv_identity v1 = vv_identity v"
proof -
  define v0 where "v0 = snd (diagnostic_verify_request token t0 v)"
  obtain rq where rq: "queue_try_add (vv_requests v) (token, t0) = (True, rq)" "queue_ok rq" "queue_items rq = [(token, t0)]"
    using pico_queue.add_room [of "vv_requests v" "(token, t0)"] idle
    by (auto simp: service_idle_def simp del: length_queue_items)
  define res where "res = (if fst (queue_try_remove (vv_results v)) = None then snd (queue_try_remove (vv_results v))
      else snd (queue_try_remove (snd (queue_try_remove (vv_results v)))))"
  have v0: "v0 = v\<lparr>vv_requests := rq, vv_results := res\<rparr>"
    using idle tok rq(1)
    by (auto simp: v0_def res_def diagnostic_verify_request_def service_idle_def Let_def split: prod.splits)
  have res: "queue_ok res" "q_element_count res = 2" "queue_get_level res = 0"
    using idle queue_remove_level [of "vv_results v"] queue_remove_level [of "snd (queue_try_remove (vv_results v))"]
      queue_level_bound [of "vv_results v"]
    by (auto simp: res_def service_idle_def)
  have i: "vv_initialized v0" "\<not> vv_local_pending v0" "\<not> vv_local_result_pending v0" "\<not> vv_peer_result_pending v0"
      "sc_owner (su_scanner (vv_scan v0)) = SCAN_FREE" "vv_identity v0 = vv_identity v"
    using idle by (simp_all add: v0 service_idle_def)
  have peek: "queue_try_peek (vv_requests v0) = Some (token, t0)" using queue_peek_first [OF rq(2)] rq(3) by (simp add: v0)
  obtain st p where start: "peer_verify_start token t0 (vv_peer v0) = (st, p)" by fastforce
  have p: "st \<noteq> PEER_VERIFY_BUSY" "peer_remote p" "pv_server_phase p \<noteq> VERIFY_ACQUIRE" "peer_owes p \<le> 1"
    using start start_owes [of "vv_peer v" token t0] start_remote [of token t0 "vv_peer v"] idle
    by (auto simp: v0 service_idle_def peer_owes_def peer_remote_def peer_verify_start_def split: if_splits)
  define w where "w = v0\<lparr>vv_peer := p, vv_requests := snd (queue_try_remove (vv_requests v0)), vv_local_request := (token, t0),
    vv_local_pending := True\<rparr>"
  have w: "admit_request v0 = w" using i peek start p(1) by (simp add: admit_request_def w_def)
  have fw: "results_fit w" using i p(2,4) res by (simp add: results_fit_def w_def) (simp add: v0)
  have sc: "w\<lparr>vv_scan := scan_task g st now rt (vv_scan w)\<rparr> = w" for g st now rt
    using i by (simp add: w_def scan_task_def)
  have cl: "complete_local e w = w" using i by (simp add: complete_local_def w_def)
  obtain a x where s: "serve_peer e w = (a, x)" by fastforce
  have wf: "sc_owner (su_scanner (vv_scan w)) = SCAN_FREE \<and> pv_server_phase (vv_peer w) \<noteq> VERIFY_ACQUIRE"
    using i p(3) by (simp add: w_def)
  obtain p' where x: "x = w\<lparr>vv_peer := p', vv_scan := vv_scan w\<rparr>" using serve_fit(1) [OF s] wf by auto
  obtain p'' r b where y: "take_peer_result x = x\<lparr>vv_peer := p'', vv_peer_result := r, vv_peer_result_pending := b\<rparr>"
    using take_fit(1) by blast
  have fy: "results_fit (take_peer_result x)" by (rule take_fit(2) [OF serve_fit(2) [OF s fw]])
  let ?z = "(take_peer_result x)\<lparr>vv_scan := (vv_scan v)\<lparr>su_scanner := scan_start (vv_identity v) False token t0\<rparr>, vv_local_pending := False\<rparr>"
  have bl: "begin_local e (take_peer_result x) = ?z"
    using i unfolding y by (simp add: begin_local_def x w_def) (simp add: v0)
  have task: "diagnostic_verify_task e v0 = ([], a, ?z)"
    using i by (simp add: diagnostic_verify_task_def publish_local_def publish_peer_result_def w Let_def sc cl s bl)
  moreover have z: "vv_initialized (take_peer_result x)" "\<not> vv_local_result_pending (take_peer_result x)"
      "vv_identity (take_peer_result x) = vv_identity v"
    using i unfolding y by (simp_all add: x w_def)
  moreover have "service_quiet ?z"
    using fy z by (simp add: service_quiet_def results_fit_def scan_start_def)
  ultimately show ?thesis using that [of "[]" a ?z] by (simp add: v0_def local_results_def)
qed

lemma task_last:
  assumes "service_quiet v" "ve_now e - t0 < 3000000" "ve_got e = (\<lambda>_. (True, True))" "flash_quiet (ve_store e)"
    and u: "u = scan_task (ve_got e 1) (ve_store e) (ve_now e) (ve_runtime e) (vv_scan v)"
    and sc: "sc_owner (su_scanner u) = SCAN_LOCAL" "sc_ready (su_scanner u)" "sc_requested_us (su_scanner u) = t0"
    and sn: "sc_snapshot (su_scanner u) = (metadata_copy (metadata_of (ve_store e)) s0)\<lparr>vs_bytes_read := n, vs_generation_end := g,
       vs_slot_crc32 := crc, vs_outcome := VERIFY_SCAN_COMPLETE, vs_completed_us := now', vs_end := rt\<rparr>"
      "vs_generation_start s0 = s_generation (ve_store e)"
  obtains rs a v' where "diagnostic_verify_task e v = (rs, a, v')" "local_results rs = []" "vv_initialized v'" "vv_local_result_pending v'"
    "vv_local_result v' = (verify_result_of (sc_token (su_scanner u)) False VERIFY_TRANSPORT_OK)\<lparr>vr_snapshot := sc_snapshot (su_scanner u)\<rparr>"
    "vv_local_result_requested_us v' = t0" "results_fit v'"
proof -
  have f: "firmware_verify_try_finish (True, True) (s_generation (ve_store e)) (ve_store e) = Inr (metadata_of (ve_store e))"
    using quiet_lock [OF assms(4), of True] by (simp add: firmware_verify_try_finish_def metadata_of_def)
  have re: "scan_recheck (True, True) e u = (True, u)"
    using assms(2) sc(3) sn f
    by (simp add: scan_recheck_def recheck_before_deadline_def recheck_def metadata_copy_def not_le)
  have v: "vv_initialized v" "publish_local e v = ([], v)" "results_fit v" "\<not> vv_local_pending v" "\<not> vv_local_result_pending v"
      "sc_owner (su_scanner (vv_scan v)) = SCAN_LOCAL"
    using assms(1) by (simp_all add: service_quiet_def publish_local_def)
  obtain rs v1 where p: "publish_peer_result v = (rs, v1)" by fastforce
  note fit = publish_peer_fit [OF v(3) p]
  obtain q b where v1: "v1 = v\<lparr>vv_results := q, vv_peer_result_pending := b\<rparr>" using fit(3) by blast
  have adm: "admit_request v1 = v1" using v by (simp add: admit_request_def v1)
  define w where "w = v1\<lparr>vv_scan := u\<rparr>"
  have scan: "v1\<lparr>vv_scan := scan_task (ve_got e 1) (ve_store e) (ve_now e) (ve_runtime e) (vv_scan v1)\<rparr> = w"
    by (simp add: w_def v1 u)
  define x where "x = w\<lparr>vv_local_result := (verify_result_of (sc_token (su_scanner u)) False VERIFY_TRANSPORT_OK)
      \<lparr>vr_snapshot := sc_snapshot (su_scanner u)\<rparr>,
    vv_local_result_pending := True, vv_local_result_requested_us := t0, vv_scan := set_owner SCAN_FREE u\<rparr>"
  have x: "complete_local e w = x"
    using v assms(3) sc re by (simp add: complete_local_def w_def x_def Let_def v1)
  have fx: "results_fit x" using fit(1) by (simp add: x_def w_def results_fit_def)
  obtain a y where s: "serve_peer e x = (a, y)" by fastforce
  obtain p' u' where y: "y = x\<lparr>vv_peer := p', vv_scan := u'\<rparr>" using serve_fit(1) [OF s] by blast
  obtain p'' r b' where z: "take_peer_result y = y\<lparr>vv_peer := p'', vv_peer_result := r, vv_peer_result_pending := b'\<rparr>"
    using take_fit(1) by blast
  have fz: "results_fit (take_peer_result y)" by (rule take_fit(2) [OF serve_fit(2) [OF s fx]])
  have bl: "begin_local e (take_peer_result y) = take_peer_result y"
    using v(4) unfolding z by (simp add: begin_local_def y x_def w_def v1)
  have "diagnostic_verify_task e v = (rs, a, take_peer_result y)"
    using v(1,2) p adm by (simp add: diagnostic_verify_task_def Let_def scan x s bl del: One_nat_def)
  moreover have "vv_initialized (take_peer_result y)" "vv_local_result_pending (take_peer_result y)"
    "vv_local_result (take_peer_result y)
      = (verify_result_of (sc_token (su_scanner u)) False VERIFY_TRANSPORT_OK)\<lparr>vr_snapshot := sc_snapshot (su_scanner u)\<rparr>"
    "vv_local_result_requested_us (take_peer_result y) = t0"
    using v(1) unfolding z by (simp_all add: y x_def w_def v1)
  ultimately show ?thesis using that fit(2) fz by blast
qed

text \<open>A run of \<open>n\<close> tasks; after the task number \<open>k\<close> come the events \<open>b k\<close>.\<close>

primrec verify_run ::
    "(nat \<Rightarrow> verify_env) \<Rightarrow> (nat \<Rightarrow> verify_input list) \<Rightarrow> nat \<Rightarrow> verify_service \<Rightarrow> verify_result list \<times> verify_service" where
  "verify_run e b 0 v = ([], v)"
| "verify_run e b (Suc n) v =
     (case verify_run e b n v of (rs, v) \<Rightarrow>
        case diagnostic_verify_task (e n) v of (rs', a, v) \<Rightarrow> (rs @ rs', foldl verify_event v (b n)))"

text \<open>Each task at least a millisecond after the one before, the last one within the deadline of three seconds after the
  request, all with the image \<open>st\<close> in flash and all locks free.\<close>

definition tick_env :: "store \<Rightarrow> u64 \<Rightarrow> (nat \<Rightarrow> verify_env) \<Rightarrow> bool" where
  "tick_env st t0 e \<longleftrightarrow> (\<forall>k\<le>1027. ve_store (e k) = st \<and> ve_now (e k) - t0 < 3000000 \<and> ve_got (e k) = (\<lambda>_. (True, True)))
     \<and> (\<forall>k<1027. 1000 \<le> ve_now (e (Suc k)) - ve_now (e k))"

lemma tick_times:
  assumes "tick_env st t0 e" "k \<le> 1027"
  shows "ve_store (e k) = st" "ve_now (e k) - t0 < 3000000" "ve_got (e k) = (\<lambda>_. (True, True))"
    "k < 1027 \<Longrightarrow> 1000 \<le> ve_now (e (Suc k)) - ve_now (e k)"
  using assms by (auto simp: tick_env_def)

text \<open>What the service looks like after the task that begins the scan and \<open>k\<close> more.\<close>

definition scanned :: "store \<Rightarrow> u64 \<Rightarrow> u32 \<Rightarrow> verify_snapshot \<Rightarrow> u64 \<Rightarrow> nat \<Rightarrow> verify_service \<Rightarrow> bool" where
  "scanned st t0 token base now k v \<longleftrightarrow> service_quiet v
     \<and> sc_token (su_scanner (vv_scan v)) = token \<and> scan_at st t0 now base k (vv_scan v)"

lemma events_quiet:
  "service_quiet v \<Longrightarrow> service_quiet (foldl verify_event v evs)" "vv_scan (foldl verify_event v evs) = vv_scan v"
proof -
  obtain p q r where f: "foldl verify_event v evs = v\<lparr>vv_peer := p, vv_requests := q, vv_results := r\<rparr>"
    using events_fields(1) by blast
  then show "vv_scan (foldl verify_event v evs) = vv_scan v" by simp
  show "service_quiet v \<Longrightarrow> service_quiet (foldl verify_event v evs)"
    using events_fields(2) [of v evs] by (simp add: service_quiet_def f)
qed

lemma scan_task_token: "sc_token (su_scanner (scan_task got st now rt u)) = sc_token (su_scanner u)"
  by (simp add: scan_task_def Let_def scan_begin_def scan_page_def scan_conclude_def scan_finish_def split: sum.splits prod.splits)

lemma scanned_step:
  assumes "service_quiet v" "sc_token (su_scanner (vv_scan v)) = token" "ve_got e 1 = (True, True)" "ve_store e = st"
    and at: "scan_at st t0 (ve_now e) base k (scan_task (True, True) st (ve_now e) (ve_runtime e) (vv_scan v))"
  shows "\<exists>rs a v'. diagnostic_verify_task e v = (rs, a, v') \<and> local_results rs = []
    \<and> scanned st t0 token base (ve_now e) k (foldl verify_event v' evs)"
proof -
  define u where "u = scan_task (ve_got e 1) (ve_store e) (ve_now e) (ve_runtime e) (vv_scan v)"
  have at': "scan_at st t0 (ve_now e) base k u" using at assms(3,4) by (simp add: u_def)
  then have u: "sc_owner (su_scanner u) = SCAN_LOCAL" "\<not> sc_ready (su_scanner u)" by (simp_all add: scan_at_def Let_def)
  obtain rs a v' where t: "diagnostic_verify_task e v = (rs, a, v')" "local_results rs = []" "service_quiet v'" "vv_scan v' = u"
    using task_scanning [OF assms(1) u_def u] .
  have "sc_token (su_scanner u) = token" using assms(2) by (simp add: u_def scan_task_token)
  then have "scanned st t0 token base (ve_now e) k (foldl verify_event v' evs)"
    using events_quiet [of v' evs] t(3,4) at' by (simp add: scanned_def)
  with t(1,2) show ?thesis by blast
qed

lemma scanned_run:
  fixes v :: verify_service and token :: u32 and t0 :: u64 and e :: "nat \<Rightarrow> verify_env"
  assumes q: "flash_quiet st" and e: "tick_env st t0 e" and idle: "service_idle v" and tok: "token \<noteq> 0" and k: "k \<le> 1024"
    and last: "su_tick_seen (vv_scan v) \<longrightarrow> 1000 \<le> ve_now (e 1) - su_last_tick_us (vv_scan v)"
  defines "v0 \<equiv> snd (diagnostic_verify_request token t0 v)"
    and "base \<equiv> metadata_copy (metadata_of st) ((sc_snapshot (scan_start (vv_identity v) False token t0))
      \<lparr>vs_generation_start := s_generation st, vs_started_us := ve_now (e 1), vs_start := ve_runtime (e 1)\<rparr>)"
  shows "\<exists>rs v'. verify_run e b (Suc (Suc k)) v0 = (rs, v') \<and> local_results rs = []
    \<and> scanned st t0 token base (ve_now (e (Suc k))) k v'"
  using k
proof (induction k)
  case 0
  obtain rs a v1 where v1: "diagnostic_verify_task (e 0) v0 = (rs, a, v1)" "local_results rs = []" "service_quiet v1"
    "vv_scan v1 = (vv_scan v)\<lparr>su_scanner := scan_start (vv_identity v) False token t0\<rparr>"
    using task_first [OF idle tok, of "e 0" t0] unfolding v0_def [symmetric] by blast
  let ?w = "foldl verify_event v1 (b 0)"
  have w: "service_quiet ?w" "vv_scan ?w = vv_scan v1" using events_quiet v1(3) by simp_all
  note t1 = tick_times [OF e, of 1]
  have "scan_at st t0 (ve_now (e 1)) base 0 (scan_task (True, True) st (ve_now (e 1)) (ve_runtime (e 1)) (vv_scan ?w))"
    using scan_at_begin [OF q t1(2), of "vv_scan ?w" "ve_runtime (e 1)"] last
    by (simp add: w(2) v1(4) scan_start_def base_def zero_verify_snapshot_def)
  moreover have "sc_token (su_scanner (vv_scan ?w)) = token" by (simp add: w(2) v1(4) scan_start_def)
  ultimately obtain rs' a' v2 where "diagnostic_verify_task (e 1) ?w = (rs', a', v2)" "local_results rs' = []"
      "scanned st t0 token base (ve_now (e 1)) 0 (foldl verify_event v2 (b 1))"
    using scanned_step [OF w(1) _ _ t1(1)] t1(3) by fastforce
  with v1(1,2) show ?case by simp
next
  case (Suc k)
  then obtain rs v' where run: "verify_run e b (Suc (Suc k)) v0 = (rs, v')" "local_results rs = []"
    and at: "scanned st t0 token base (ve_now (e (Suc k))) k v'"
    by auto
  let ?e = "e (Suc (Suc k))"
  have le: "Suc (Suc k) \<le> 1027" "Suc k < 1027" using Suc.prems by simp_all
  note t = tick_times [OF e le(1)] and d = tick_times(4) [OF e less_imp_le [OF le(2)] le(2)]
  have "scan_at st t0 (ve_now ?e) base (Suc k) (scan_task (True, True) st (ve_now ?e) (ve_runtime ?e) (vv_scan v'))"
    using scan_at_page [OF q t(2) d, of k base "vv_scan v'" "ve_runtime ?e"] at Suc.prems
    by (simp add: scanned_def base_def metadata_copy_def)
  moreover have "service_quiet v'" "sc_token (su_scanner (vv_scan v')) = token"
    using at by (simp_all add: scanned_def)
  ultimately obtain rs' a w where "diagnostic_verify_task ?e v' = (rs', a, w)" "local_results rs' = []"
      "scanned st t0 token base (ve_now ?e) (Suc k) (foldl verify_event w (b (Suc (Suc k))))"
    using scanned_step [of v' token ?e st] t(1,3) by fastforce
  with run show ?case by (simp del: verify_run.simps add: verify_run.simps(2) [of e b "Suc (Suc k)"])
qed

lemma verify_event_reach: "verify_reach hw v st \<Longrightarrow> verify_reach hw (foldl verify_event v evs) st"
proof (induction evs arbitrary: v)
  case (Cons ev evs)
  then show ?case
    by (cases ev) (simp_all add: verify_reach.receive verify_reach.request verify_reach.poll)
qed simp

lemma verify_run_reach:
  assumes "tick_env st t0 e" "verify_reach hw v st"
  shows "n \<le> 1028 \<Longrightarrow> verify_reach hw (snd (verify_run e b n v)) st"
proof (induction n)
  case (Suc n)
  obtain rs w where r: "verify_run e b n v = (rs, w)" by fastforce
  obtain rs' a w' where t: "diagnostic_verify_task (e n) w = (rs', a, w')" by (metis prod_cases3)
  have st: "ve_store (e n) = st" using assms(1) Suc.prems by (simp add: tick_env_def)
  have "verify_reach hw w (ve_store (e n))" using Suc r st by simp
  from verify_reach.task [OF this t] show ?case using r t st verify_event_reach by simp
qed (use assms(2) in simp)

text \<open>The result an undisturbed scan of the image \<open>st\<close> publishes.\<close>

definition clean_result :: "peer_status_snapshot \<Rightarrow> u32 \<Rightarrow> store \<Rightarrow> (nat \<Rightarrow> verify_env) \<Rightarrow> verify_result" where
  "clean_result sn token st e = (verify_result_of token False VERIFY_TRANSPORT_OK)\<lparr>vr_snapshot :=
     (metadata_copy (metadata_of st) (sc_snapshot (scan_start sn False token 0)))\<lparr>vs_generation_start := s_generation st,
        vs_started_us := ve_now (e 1), vs_start := ve_runtime (e 1), vs_bytes_read := 262144, vs_generation_end := s_generation st,
        vs_slot_crc32 := calc_crc32 (slot_of st), vs_outcome := VERIFY_SCAN_COMPLETE, vs_completed_us := ve_now (e 1026),
        vs_end := ve_runtime (e 1026)\<rparr>\<rparr>"

lemma verify_run_result:
  fixes v :: verify_service and token :: u32 and t0 :: u64 and e :: "nat \<Rightarrow> verify_env"
  assumes nor: "nor_flash hw" and before: "verify_reach hw v st" and idle: "service_idle v" and q: "flash_quiet st"
    and e: "tick_env st t0 e" and tok: "token \<noteq> 0"
    and last: "su_tick_seen (vv_scan v) \<longrightarrow> 1000 \<le> ve_now (e 1) - su_last_tick_us (vv_scan v)"
  defines "v0 \<equiv> snd (diagnostic_verify_request token t0 v)"
  shows "\<exists>rs w rs' a v'. verify_run e b 1027 v0 = (rs, w) \<and> local_results rs = []
    \<and> diagnostic_verify_task (e 1027) w = (rs', a, v') \<and> local_results rs' = [clean_result (vv_identity v) token st e]"
proof -
  define base where "base = metadata_copy (metadata_of st) ((sc_snapshot (scan_start (vv_identity v) False token t0))
    \<lparr>vs_generation_start := s_generation st, vs_started_us := ve_now (e 1), vs_start := ve_runtime (e 1)\<rparr>)"
  obtain rs1 v1 where r1: "verify_run e b 1026 v0 = (rs1, v1)" "local_results rs1 = []"
    and s1: "scanned st t0 token base (ve_now (e 1025)) 1024 v1"
    using scanned_run [OF q e idle tok order_refl last, of b] unfolding v0_def [symmetric] base_def [symmetric] by auto
  let ?e = "e 1026"
  have t: "ve_now ?e - t0 < 3000000" "ve_got ?e = (\<lambda>_. (True, True))" "ve_store ?e = st" "1000 \<le> ve_now ?e - ve_now (e 1025)"
    using tick_times [OF e, of 1026] tick_times(4) [OF e, of 1025] by simp_all
  define u where "u = scan_task (ve_got ?e 1) (ve_store ?e) (ve_now ?e) (ve_runtime ?e) (vv_scan v1)"
  have g: "vs_generation_start base = s_generation st" by (simp add: base_def metadata_copy_def)
  have at: "scan_at st t0 (ve_now (e 1025)) base 1024 (vv_scan v1)" and v1: "service_quiet v1"
    and tk: "sc_token (su_scanner (vv_scan v1)) = token"
    using s1 by (simp_all add: scanned_def)
  note sc = scan_at_end [OF q t(1,4) g at, of "ve_runtime ?e"]
  have u: "u = scan_task (True, True) st (ve_now ?e) (ve_runtime ?e) (vv_scan v1)" using t by (simp add: u_def)
  have q': "flash_quiet (ve_store ?e)" using q t(3) by simp
  have g': "vs_generation_start base = s_generation (ve_store ?e)" using g t(3) by simp
  note sn = sc(5) [folded u, folded t(3)]
  obtain rs2 a w0 where w0: "diagnostic_verify_task ?e v1 = (rs2, a, w0)" "local_results rs2 = []" "vv_initialized w0" "vv_local_result_pending w0"
    "vv_local_result w0 = (verify_result_of (sc_token (su_scanner u)) False VERIFY_TRANSPORT_OK)\<lparr>vr_snapshot := sc_snapshot (su_scanner u)\<rparr>"
    "vv_local_result_requested_us w0 = t0" "results_fit w0"
    using task_last [OF v1 t(1,2) q' u_def sc(1-3) [folded u] sn g'] .
  define w where "w = foldl verify_event w0 (b 1026)"
  have fit: "results_fit w" using events_fields(2) w0(7) by (simp add: w_def)
  have w: "vv_initialized w" "vv_local_result_pending w" "vv_local_result w = vv_local_result w0" "vv_local_result_requested_us w = t0"
    using events_fields(1) [of w0 "b 1026"] w0(3,4,6) unfolding w_def by auto
  have run: "verify_run e b 1027 v0 = (rs1 @ rs2, w)"
    using r1 w0(1) verify_run.simps(2) [of e b 1026 v0] by (simp add: w_def)
  have reach: "verify_reach hw w st"
    using verify_run_reach [OF e, of hw v0 1027 b] run verify_reach.request [OF before] by (simp add: v0_def)
  let ?f = "e 1027"
  have f: "ve_now ?f - t0 < 3000000" "ve_got ?f = (\<lambda>_. (True, True))" "ve_store ?f = st"
    using tick_times [OF e, of 1027] by simp_all
  define s where "s = sc_snapshot (su_scanner u)"
  have s: "s = (metadata_copy (metadata_of st) base)\<lparr>vs_bytes_read := 262144, vs_generation_end := s_generation st,
       vs_slot_crc32 := NOT (sc_crc (su_scanner (vv_scan v1))), vs_outcome := VERIFY_SCAN_COMPLETE, vs_completed_us := ve_now ?e,
       vs_end := ve_runtime ?e\<rparr>"
    using sc(5) by (simp add: s_def u)
  have fin: "firmware_verify_try_finish (True, True) (s_generation st) st = Inr (metadata_of st)"
    using quiet_lock [OF q, of True] by (simp add: firmware_verify_try_finish_def metadata_of_def)
  have "refresh_local ?f w = (True, vv_local_result w)"
    using w(3,4) w0(5) f s fin g
    by (simp add: refresh_local_def Let_def verify_result_of_def s_def [symmetric] recheck_before_deadline_def recheck_def
        metadata_copy_def not_le)
  moreover have "fst (queue_try_add (vv_results w) (vv_local_result w))"
    using fit by (auto simp: results_fit_def queue_try_add_def)
  moreover obtain ok rq where "queue_try_add (vv_results w) (vv_local_result w) = (ok, rq)" by fastforce
  ultimately have pub: "publish_local ?f w = ([vv_local_result w], w\<lparr>vv_local_result := vv_local_result w, vv_results := rq,
      vv_local_result_pending := False\<rparr>)"
    using w(2) by (simp add: publish_local_def)
  obtain rs3 w1 where pp: "publish_peer_result (snd (publish_local ?f w)) = (rs3, w1)" by fastforce
  have remote: "local_results rs3 = []"
    using pp fit by (auto simp: pub publish_peer_result_def local_results_def results_fit_def split: prod.splits bool.splits if_splits)
  obtain rs b' v' where t3: "diagnostic_verify_task ?f w = (rs, b', v')" by (metis prod_cases3)
  have rs: "rs = [vv_local_result w] @ rs3"
    using t3 pp pub w(1) by (auto simp: diagnostic_verify_task_def Let_def split: prod.splits)
  have here: "\<not> vr_remote (vv_local_result w)" using w(3) w0(5) by (simp add: verify_result_of_def)
  have "service_inv w (ve_store ?f)" using verify_reach_inv [OF nor reach] f(3) by simp
  from verify_task_inv(2) [OF this t3, of "vv_local_result w"]
  have "result_ok s st \<and> fresh (s_generation st) st"
    using w(3) w0(5) s g rs by (simp add: verify_result_of_def s_def [symmetric] metadata_copy_def f(3))
  then have crc: "NOT (sc_crc (su_scanner (vv_scan v1))) = calc_crc32 (slot_of st)"
    using s g by (simp add: result_ok_def metadata_copy_def)
  have "vv_local_result w = clean_result (vv_identity v) token st e"
    using w(3) w0(5) s tk unfolding s_def [symmetric] crc
    by (simp add: clean_result_def u scan_task_token base_def metadata_copy_def scan_start_def)
  then have "local_results rs = [clean_result (vv_identity v) token st e]"
    using rs remote here by (simp add: local_results_def)
  moreover have "local_results (rs1 @ rs2) = []" using r1(2) w0(2) by simp
  ultimately show ?thesis using run t3 by blast
qed

text \<open>
  C28. A verification request is answered. At any point of any run of the service at which it is idle (no request of either
  board waits, is scanned or has an unread answer), let the console ask for a scan. If the service's task then runs 1028
  times within three seconds, at least a millisecond apart, with its locks free and no update or write to the slot in
  progress, then its last run publishes one result of this board, and it is complete: the whole slot was read, its
  checksum is that of the image in flash, and the metadata is the one in flash. None of the runs before publishes a
  result of this board. From the first run on, any packets of the other board, requests of its own included, and any
  further requests and polls of the console may come between the runs.
\<close>

theorem verify_scan_completes:
  assumes "nor_flash hw" "verify_reach hw v st" "service_idle v" "flash_quiet st" "tick_env st t0 e" "token \<noteq> 0"
    and "su_tick_seen (vv_scan v) \<longrightarrow> 1000 \<le> ve_now (e 1) - su_last_tick_us (vv_scan v)"
  shows "local_results (fst (verify_run e b 1027 (snd (diagnostic_verify_request token t0 v)))) = []
    \<and> local_results (fst (verify_run e b 1028 (snd (diagnostic_verify_request token t0 v)))) = [clean_result (vv_identity v) token st e]"
  using verify_run_result [OF assms, of b]
    verify_run.simps(2) [of e b 1027 "snd (diagnostic_verify_request token t0 v)"]
  by auto

text \<open>A board whose image carries version 100, and a task every millisecond.\<close>

definition verify_boot :: verify_service where
  "verify_boot = \<lparr>vv_initialized = False, vv_requests = queue_init (0, 0) 1, vv_results = queue_init (verify_result_of 0 False VERIFY_TRANSPORT_OK) 2,
     vv_peer = peer_verify_init 0, vv_identity = zero_snapshot, vv_local_request = (0, 0), vv_local_pending = False,
     vv_local_result_pending = False, vv_peer_result_pending = False,
     vv_local_result = verify_result_of 0 False VERIFY_TRANSPORT_OK, vv_peer_result = verify_result_of 0 False VERIFY_TRANSPORT_OK,
     vv_local_result_requested_us = 0,
     vv_scan = \<lparr>su_tick_seen = False, su_last_tick_us = 0, su_scanner = scan_start zero_snapshot False 0 0\<rparr>\<rparr>"

definition sample_metadata :: bytes where
  "sample_metadata = [0x0d, 0xf0, 0, 0, 100, 0, 0, 0, 0, 0, 0, 0]"

definition sample_image :: store where
  "sample_image = sample_store\<lparr>s_flash := blit (replicate FLASH_SIZE 0) METADATA_ADDR sample_metadata\<rparr>"

definition sample_tick :: "nat \<Rightarrow> verify_env" where
  "sample_tick k = \<lparr>ve_now = of_nat (1000 * k), ve_store = sample_image,
     ve_runtime = zero_runtime\<lparr>rt_core_valid := 3, rt_core_ticks := [of_nat k, of_nat k]\<rparr>, ve_got = (\<lambda>_. (True, True)),
     ve_tx = (\<lambda>_ _. False)\<rparr>"

definition sample_asked :: verify_service where
  "sample_asked = snd (diagnostic_verify_request 7 0 (diagnostic_verify_init zero_snapshot verify_boot))"

lemma sample_image_quiet: "flash_quiet sample_image"
  by (simp add: flash_quiet_def sample_image_def sample_store_def sample_metadata_def)

lemma sample_tick_env: "tick_env sample_image 0 sample_tick"
proof -
  have "(of_nat (1000 * k) :: u64) < 3000000" if "k \<le> 1027" for k
  proof -
    have "unat (of_nat (1000 * k) :: u64) = 1000 * k"
      using that by (subst unsigned_of_nat) (simp add: take_bit_nat_eq_self del: of_nat_mult)
    then show ?thesis using that by (simp add: word_less_nat_alt del: of_nat_mult)
  qed
  then show ?thesis by (simp add: tick_env_def sample_tick_def algebra_simps)
qed

lemma sample_verify_idle: "service_idle (diagnostic_verify_init zero_snapshot verify_boot)"
  by (simp add: service_idle_def diagnostic_verify_init_def diagnostic_verify_shutdown_def verify_boot_def set_owner_def peer_owes_def
      peer_verify_init_def queue_init_ok) (simp add: queue_init_def)

lemma sample_verify_reach: "verify_reach sample_flash (diagnostic_verify_init zero_snapshot verify_boot) sample_image"
  by (rule verify_reach.start) (use sample_image_quiet in \<open>simp add: flash_quiet_def\<close>)

lemma sample_tick_seen: "\<not> su_tick_seen (vv_scan (diagnostic_verify_init zero_snapshot verify_boot))"
    "vv_identity (diagnostic_verify_init zero_snapshot verify_boot) = zero_snapshot"
  by (simp_all add: diagnostic_verify_init_def diagnostic_verify_shutdown_def)

text \<open>The other board asks as well, after the first task, and the console polls after each one.\<close>

definition sample_service_events :: "nat \<Rightarrow> verify_input list" where
  "sample_service_events k = (if k = 0 then [Peer_packet False [9, 0, 0, 0, 1, 0, 0, 0] 1] else [Console_poll])"

lemma sample_metadata_of: "metadata_of sample_image = sample_metadata"
  unfolding metadata_of_def sample_image_def by (simp add: slice_blit(1) sample_metadata_def)

lemma sample_pass:
  "fst (verification_assess (clean_result zero_snapshot 7 sample_image sample_tick) 100 (calc_crc32 (slot_of sample_image))) = VERIFY_PASS"
  by (simp add: verification_assess_def Let_def clean_result_def verify_result_of_def metadata_copy_def sample_metadata_of
      sample_metadata_def get32_def get16_def scan_start_def zero_verify_snapshot_def zero_snapshot_def sample_tick_def
      core_stuck_def zero_runtime_def)

theorem verify_scan_completes_witness:
  "local_results (fst (verify_run sample_tick sample_service_events 1028 sample_asked)) = [clean_result zero_snapshot 7 sample_image sample_tick]"
  using verify_scan_completes [OF sample_flash_nor sample_verify_reach sample_verify_idle sample_image_quiet sample_tick_env, of 7 sample_service_events]
    sample_tick_seen
  by (simp add: sample_asked_def del: verify_run.simps)

theorem verify_pass_sound_witness:
  "fst (verification_assess (clean_result zero_snapshot 7 sample_image sample_tick) 100 (calc_crc32 (slot_of sample_image))) = VERIFY_PASS
     \<and> get32 (metadata_of sample_image) 0 = 0xf00d \<and> get16 (metadata_of sample_image) 4 = 100"
proof -
  obtain rs w rs' a v' where run: "verify_run sample_tick sample_service_events 1027 sample_asked = (rs, w)"
    and task: "diagnostic_verify_task (sample_tick 1027) w = (rs', a, v')"
    and rs': "local_results rs' = [clean_result zero_snapshot 7 sample_image sample_tick]"
    using verify_run_result [OF sample_flash_nor sample_verify_reach sample_verify_idle sample_image_quiet sample_tick_env, of 7 sample_service_events]
      sample_tick_seen
    unfolding sample_asked_def by auto
  have "verify_reach sample_flash sample_asked sample_image"
    unfolding sample_asked_def by (intro verify_reach.request sample_verify_reach)
  from verify_run_reach [OF sample_tick_env this, of 1027 sample_service_events]
  have reach: "verify_reach sample_flash w (ve_store (sample_tick 1027))" using run by (simp add: sample_tick_def)
  have local: "\<not> vr_remote (clean_result zero_snapshot 7 sample_image sample_tick)"
    by (simp add: clean_result_def verify_result_of_def)
  have "clean_result zero_snapshot 7 sample_image sample_tick \<in> set (local_results rs')" by (simp add: rs')
  then have "clean_result zero_snapshot 7 sample_image sample_tick \<in> set rs'" by (simp add: local_results_def)
  from verify_pass_sound [OF sample_flash_nor reach task this local sample_pass] sample_pass
  show ?thesis by (simp add: sample_tick_def)
qed

end
