(* ===== verification/Config_Confirm.thy ===== *)
theory Config_Confirm
  imports Handlers Flash_Store
begin

text \<open>
  Confirmed configuration transactions (config\_confirm.c): a client sends META, LO, HI and EXEC under a token, over USB
  or from the other board; the service assembles them, performs the command here or forwards it to the board it is
  for, and answers with two receipts. Callbacks only enqueue; one pass of the task takes one item. The service state is a
  record of its own beside the device and the flash.

  Each pass also returns the transactions it performed, that is, those that were finished and not replayed from the cached
  receipt. The property is that resending never performs a command twice.
\<close>

unbundle bit_operations_syntax

subsection \<open>State\<close>

record confirm_item =
  ci_received_us :: u32
  ci_data :: bytes
  ci_usb_epoch :: u16
  ci_type :: u8
  ci_usb :: bool

datatype confirm_phase = CONFIRM_IDLE | ASSEMBLING | FORWARDING | WAITING | REPLYING

record transaction =
  ct_value :: u64
  ct_token :: u32
  ct_started_us :: u32
  ct_result :: u32
  ct_usb_epoch :: u16
  ct_role :: u8
  ct_op :: u8
  ct_key :: u8
  ct_parts :: u8
  ct_phase :: confirm_phase
  ct_step :: u8
  ct_status :: u8
  ct_usb :: bool
  ct_invalid :: bool
  ct_replay :: bool
  ct_ack_meta :: bool

record cached =
  cc_value :: u64
  cc_token :: u32
  cc_result :: u32
  cc_usb_epoch :: u16
  cc_role :: u8
  cc_op :: u8
  cc_key :: u8
  cc_status :: u8
  cc_usb :: bool
  cc_valid :: bool

record confirm =
  cf_ingress :: "confirm_item queue"
  cf_initialized :: bool
  cf_usb_epoch :: u16
  cf_current :: transaction
  cf_previous :: cached

definition zero_transaction :: transaction where
  "zero_transaction = \<lparr>ct_value = 0, ct_token = 0, ct_started_us = 0, ct_result = 0, ct_usb_epoch = 0, ct_role = 0, ct_op = 0,
     ct_key = 0, ct_parts = 0, ct_phase = CONFIRM_IDLE, ct_step = 0, ct_status = 0, ct_usb = False, ct_invalid = False,
     ct_replay = False, ct_ack_meta = False\<rparr>"

definition zero_cached :: cached where
  "zero_cached = \<lparr>cc_value = 0, cc_token = 0, cc_result = 0, cc_usb_epoch = 0, cc_role = 0, cc_op = 0, cc_key = 0, cc_status = 0,
     cc_usb = False, cc_valid = False\<rparr>"

definition blank_item :: confirm_item where
  "blank_item = \<lparr>ci_received_us = 0, ci_data = replicate 8 0, ci_usb_epoch = 0, ci_type = 0, ci_usb = False\<rparr>"

definition status_code :: "config_confirm_status \<Rightarrow> u8" where
  "status_code s = (case s of CONFIG_CONFIRM_OK \<Rightarrow> 0 | CONFIG_CONFIRM_INVALID \<Rightarrow> 1 | CONFIG_CONFIRM_BUSY \<Rightarrow> 2
     | CONFIG_CONFIRM_CONFLICT \<Rightarrow> 3 | CONFIG_CONFIRM_FLASH_MISMATCH \<Rightarrow> 4 | CONFIG_CONFIRM_EXPIRED \<Rightarrow> 5 | CONFIG_CONFIRM_INCOMPLETE \<Rightarrow> 6)"

definition request_type :: "u8 \<Rightarrow> bool" where
  "request_type t \<longleftrightarrow> t \<ge> CONFIG_CONFIRM_META_MSG \<and> t \<le> CONFIG_CONFIRM_EXEC_MSG"

definition config_confirm_init :: confirm where
  "config_confirm_init = \<lparr>cf_ingress = queue_init blank_item 8, cf_initialized = True, cf_usb_epoch = 0,
     cf_current = zero_transaction, cf_previous = zero_cached\<rparr>"

definition config_confirm_shutdown :: "confirm \<Rightarrow> confirm" where
  "config_confirm_shutdown c = c\<lparr>cf_initialized := False\<rparr>"

definition config_confirm_usb_disconnect :: "confirm \<Rightarrow> confirm" where
  "config_confirm_usb_disconnect c =
     (let c = c\<lparr>cf_usb_epoch := cf_usb_epoch c + 1\<rparr>
      in if cc_usb (cf_previous c) then c\<lparr>cf_previous := (cf_previous c)\<lparr>cc_valid := False\<rparr>\<rparr> else c)"

definition confirm_enqueue :: "env \<Rightarrow> uart_packet \<Rightarrow> bool \<Rightarrow> confirm \<Rightarrow> bool \<times> confirm" where
  "confirm_enqueue e p usb c =
     (if \<not> cf_initialized c then (False, c)
      else case queue_try_add (cf_ingress c)
          \<lparr>ci_received_us = ucast (env_now e), ci_data = pkt_data p, ci_usb_epoch = (if usb then cf_usb_epoch c else 0),
           ci_type = pkt_type p, ci_usb = usb\<rparr> of
        (ok, q) \<Rightarrow> (ok, c\<lparr>cf_ingress := q\<rparr>))"

definition config_confirm_usb_request :: "env \<Rightarrow> uart_packet \<Rightarrow> device \<Rightarrow> confirm \<Rightarrow> bool \<times> confirm" where
  "config_confirm_usb_request e p d c =
     (if dv_config_mode_active d \<and> request_type (pkt_type p) then confirm_enqueue e p True c else (False, c))"

definition handle_config_confirm_msg :: "env \<Rightarrow> uart_packet \<Rightarrow> confirm \<Rightarrow> confirm" where
  "handle_config_confirm_msg e p c =
     (if request_type (pkt_type p) \<or> pkt_type p = CONFIG_CONFIRM_ACK_META_MSG \<or> pkt_type p = CONFIG_CONFIRM_ACK_VALUE_MSG
      then snd (confirm_enqueue e p False c) else c)"

subsection \<open>Performing a command\<close>

text \<open>The device and the flash a pass works on; the parameters of a pass: the clock, the flash routines, the firmware
  try-lock, and what the other core changes of the configuration while flash is written.\<close>

record confirm_world =
  cw_device :: device
  cw_store :: store

record confirm_env =
  ce_env :: env
  ce_hw :: flash_hw
  ce_got :: bool
  ce_edit :: "config \<Rightarrow> config"

text \<open>A performed transaction: its source, token, target, command and outcome.\<close>

record performed =
  pf_usb :: bool
  pf_token :: u32
  pf_role :: u8
  pf_op :: u8
  pf_key :: u8
  pf_value :: u64
  pf_status :: u8
  pf_result :: u32

definition receipt_of :: "transaction \<Rightarrow> u8 \<Rightarrow> u32 \<Rightarrow> performed" where
  "receipt_of t status result = \<lparr>pf_usb = ct_usb t, pf_token = ct_token t, pf_role = ct_role t, pf_op = ct_op t,
     pf_key = ct_key t, pf_value = ct_value t, pf_status = status, pf_result = result\<rparr>"

definition confirm_finish :: "env \<Rightarrow> u8 \<Rightarrow> u32 \<Rightarrow> confirm \<Rightarrow> performed list \<times> confirm" where
  "confirm_finish e status result c =
     (let t = (cf_current c)\<lparr>ct_status := status, ct_result := result, ct_phase := REPLYING, ct_step := 0,
               ct_started_us := ucast (env_now e)\<rparr>;
          c = c\<lparr>cf_current := t\<rparr>
      in if ct_replay t then ([], c)
         else ([receipt_of t status result],
               c\<lparr>cf_previous := \<lparr>cc_value = ct_value t, cc_token = ct_token t, cc_result = result,
                  cc_usb_epoch = ct_usb_epoch t, cc_role = ct_role t, cc_op = ct_op t, cc_key = ct_key t, cc_status = status,
                  cc_usb = ct_usb t, cc_valid = True\<rparr>\<rparr>))"

definition confirm_idle :: "confirm \<Rightarrow> confirm" where
  "confirm_idle c = c\<lparr>cf_current := (cf_current c)\<lparr>ct_phase := CONFIRM_IDLE\<rparr>\<rparr>"

definition mutable_state_busy :: "device \<Rightarrow> bool" where
  "mutable_state_busy d \<longleftrightarrow> dv_upgrade_in_progress d \<or> dv_image_dirty d \<or> dv_reboot_requested d \<or> dv_maintenance_reserved d
     \<or> dv_config_bootloader_local_pending d \<or> dv_config_bootloader_peer_pending d"

text \<open>The store of Flash\_Store holds the same flags and configuration as the device.\<close>

definition with_device :: "device \<Rightarrow> store \<Rightarrow> store" where
  "with_device d st = st\<lparr>s_upgrade_in_progress := dv_upgrade_in_progress d, s_image_dirty := dv_image_dirty d,
     s_reboot_requested := dv_reboot_requested d, s_maintenance_reserved := dv_maintenance_reserved d,
     s_bootloader_local_pending := dv_config_bootloader_local_pending d,
     s_bootloader_peer_pending := dv_config_bootloader_peer_pending d, s_config := dv_config d\<rparr>"

definition value_border :: "u64 \<Rightarrow> border_size" where
  "value_border v = \<lparr>border_top = ucast v, border_bottom = ucast (drop_bit 32 v)\<rparr>"

definition confirm_set :: "bool \<Rightarrow> transaction \<Rightarrow> confirm_world \<Rightarrow> config_confirm_status \<times> u32 \<times> confirm_world" where
  "confirm_set got t w =
     (let d = cw_device w in
      if \<not> got \<or> mutable_state_busy d then (CONFIG_CONFIRM_BUSY, 0, w)
      else
        case (if ct_op t = 2 then config_set_value64 (dv_config d) (unat (ct_key t)) (ct_value t)
              else config_set_border (dv_config d) (unat (ct_key t)) (value_border (ct_value t))) of
          (ok, cfg) \<Rightarrow>
            let w = w\<lparr>cw_device := d\<lparr>dv_config := cfg\<rparr>\<rparr>
            in if ok then (CONFIG_CONFIRM_OK, config_digest_snapshot cfg, w) else (CONFIG_CONFIRM_INVALID, 0, w))"

definition confirm_command ::
    "confirm_env \<Rightarrow> transaction \<Rightarrow> confirm_world \<Rightarrow> config_confirm_status \<times> u32 \<times> confirm_world" where
  "confirm_command ce t w =
     (let d = cw_device w in
      if ct_op t = 1 then
        if ct_key t \<noteq> 0 \<or> ct_value t \<noteq> 0 then (CONFIG_CONFIRM_INVALID, 0, w) else (CONFIG_CONFIRM_OK, 1, w)
      else if ct_op t = 4 then
        if ct_key t \<noteq> 0 \<or> ct_value t \<noteq> 0 then (CONFIG_CONFIRM_INVALID, 0, w)
        else (CONFIG_CONFIRM_OK, config_digest_snapshot (dv_config d), w)
      else if ct_op t = 6 then
        (case config_check_value64 (dv_config d) (unat (ct_key t)) (ct_value t) of (status, result) \<Rightarrow> (status, result, w))
      else if ct_op t = 5 then
        if ct_key t \<noteq> 0 \<or> ct_value t > 0xffffffff then (CONFIG_CONFIRM_INVALID, 0, w)
        else
          (case config_save_confirmed (ce_hw ce) (ce_got ce) (ce_edit ce) (ucast (ct_value t)) (with_device d (cw_store w)) of
             ((status, result), st) \<Rightarrow>
               (status, result, w\<lparr>cw_device := d\<lparr>dv_config := s_config st\<rparr>, cw_store := st\<rparr>))
      else if ct_op t = 2 \<or> ct_op t = 3 then confirm_set (ce_got ce) t w
      else (CONFIG_CONFIRM_INVALID, 0, w))"

definition confirm_execute ::
    "confirm_env \<Rightarrow> confirm \<Rightarrow> confirm_world \<Rightarrow> performed list \<times> confirm \<times> confirm_world" where
  "confirm_execute ce c w =
     (let t = cf_current c; p = cf_previous c; board = dv_board_role (cw_device w); e = ce_env ce;
          fin = (\<lambda>status result w. case confirm_finish e status result c of (out, c) \<Rightarrow> (out, c, w))
      in
      if ct_role t \<noteq> board \<and> (ct_invalid t \<or> ct_parts t \<noteq> 3) then ([], confirm_idle c, w)
      else if ct_invalid t then fin (status_code CONFIG_CONFIRM_INVALID) 0 w
      else if ct_parts t \<noteq> 3 then fin (status_code CONFIG_CONFIRM_INCOMPLETE) 0 w
      else if ct_replay t then
        let same = (ct_role t = cc_role p \<and> ct_op t = cc_op p \<and> ct_key t = cc_key p \<and> ct_value t = cc_value p) in
        if \<not> same \<and> ct_role t \<noteq> board then ([], confirm_idle c, w)
        else fin (if same then cc_status p else status_code CONFIG_CONFIRM_INVALID) (if same then cc_result p else 0) w
      else if ct_role t \<noteq> board then
        if \<not> ct_usb t then ([], confirm_idle c, w)
        else ([], c\<lparr>cf_current := t\<lparr>ct_phase := FORWARDING, ct_step := 0\<rparr>\<rparr>, w)
      else case confirm_command ce t w of (status, result, w) \<Rightarrow> fin (status_code status) result w)"

subsection \<open>Receiving\<close>

definition confirm_ack :: "env \<Rightarrow> confirm_item \<Rightarrow> device \<Rightarrow> confirm \<Rightarrow> performed list \<times> confirm" where
  "confirm_ack e i d c =
     (let t = cf_current c; data = ci_data i in
      if ci_usb i \<or> ct_phase t \<noteq> WAITING \<or> \<not> ct_usb t \<or> ct_role t = dv_board_role d \<or> get32 data 0 \<noteq> ct_token t then ([], c)
      else if ci_type i = CONFIG_CONFIRM_ACK_META_MSG then
        if data ! 4 \<noteq> ct_role t \<or> data ! 5 \<noteq> ct_op t \<or> data ! 6 \<noteq> ct_key t \<or> data ! 7 > 6 then ([], c)
        else if ct_ack_meta t \<and> ct_status t \<noteq> data ! 7 then ([], confirm_idle c)
        else ([], c\<lparr>cf_current := t\<lparr>ct_status := data ! 7, ct_ack_meta := True\<rparr>\<rparr>)
      else if ct_ack_meta t then confirm_finish e (ct_status t) (get32 data 4) c
      else ([], c))"

definition same_source :: "confirm_item \<Rightarrow> cached \<Rightarrow> bool" where
  "same_source i p \<longleftrightarrow> cc_valid p \<and> cc_token p = get32 (ci_data i) 0 \<and> cc_usb p = ci_usb i
     \<and> (\<not> ci_usb i \<or> cc_usb_epoch p = ci_usb_epoch i)"

definition confirm_meta :: "confirm_item \<Rightarrow> u8 \<Rightarrow> confirm \<Rightarrow> bool \<times> confirm" where
  "confirm_meta i board c =
     (let t = cf_current c; data = ci_data i; token = get32 data 0 in
      if data ! 4 > 1 \<or> \<not> ci_usb i \<and> data ! 4 \<noteq> board then (False, c)
      else if ct_phase t \<noteq> CONFIRM_IDLE then
        (False,
         if ct_phase t = ASSEMBLING \<and> ct_token t = token \<and> ct_usb t = ci_usb i
             \<and> (ct_role t \<noteq> data ! 4 \<or> ct_op t \<noteq> data ! 5 \<or> ct_key t \<noteq> data ! 6 \<or> data ! 7 \<noteq> 0)
         then c\<lparr>cf_current := t\<lparr>ct_invalid := True\<rparr>\<rparr> else c)
      else (True,
        c\<lparr>cf_current := zero_transaction\<lparr>ct_token := token, ct_started_us := ci_received_us i, ct_usb_epoch := ci_usb_epoch i,
            ct_role := data ! 4, ct_op := data ! 5, ct_key := data ! 6, ct_phase := ASSEMBLING, ct_usb := ci_usb i,
            ct_invalid := (data ! 7 \<noteq> 0), ct_replay := same_source i (cf_previous c)\<rparr>\<rparr>))"

definition confirm_part :: "confirm_item \<Rightarrow> transaction \<Rightarrow> transaction" where
  "confirm_part i t =
     (let shift = (if ci_type i = CONFIG_CONFIRM_HI_MSG then 32 else 0); part = (if ci_type i = CONFIG_CONFIRM_HI_MSG then 2 else 1);
          value = ucast (get32 (ci_data i) 4) :: u64
      in t\<lparr>ct_invalid := (ct_invalid t \<or> ct_parts t AND part \<noteq> 0 \<and> ucast (drop_bit shift (ct_value t)) \<noteq> get32 (ci_data i) 4),
           ct_value := (ct_value t AND NOT (push_bit shift 0xffffffff)) OR push_bit shift value,
           ct_parts := ct_parts t OR part\<rparr>)"

definition confirm_receive ::
    "confirm_env \<Rightarrow> confirm_item \<Rightarrow> confirm \<Rightarrow> confirm_world \<Rightarrow> performed list \<times> confirm \<times> confirm_world" where
  "confirm_receive ce i c w =
     (let d = cw_device w; token = get32 (ci_data i) 0; t = cf_current c; p = cf_previous c; e = ce_env ce in
      if token = 0 \<or> ci_usb i \<and> (ci_usb_epoch i \<noteq> cf_usb_epoch c \<or> \<not> dv_config_mode_active d) then ([], c, w)
      else if \<not> request_type (ci_type i) then (case confirm_ack e i d c of (out, c) \<Rightarrow> (out, c, w))
      else if ci_type i = CONFIG_CONFIRM_META_MSG then
        (case confirm_meta i (dv_board_role d) c of
           (True, c) \<Rightarrow> ([], c, w\<lparr>cw_device := reset_config_timer e d\<rparr>)
         | (False, c) \<Rightarrow> ([], c, w))
      else if ct_phase t = CONFIRM_IDLE \<and> ci_type i = CONFIG_CONFIRM_EXEC_MSG \<and> get32 (ci_data i) 4 = 0 \<and> same_source i p then
        (case confirm_finish e (cc_status p) (cc_result p)
            (c\<lparr>cf_current := zero_transaction\<lparr>ct_value := cc_value p, ct_token := token, ct_started_us := ci_received_us i,
               ct_usb_epoch := ci_usb_epoch i, ct_role := cc_role p, ct_op := cc_op p, ct_key := cc_key p, ct_usb := ci_usb i,
               ct_replay := True\<rparr>\<rparr>) of (out, c) \<Rightarrow> (out, c, w))
      else if ct_phase t \<noteq> ASSEMBLING \<or> ct_token t \<noteq> token \<or> ct_usb t \<noteq> ci_usb i then ([], c, w)
      else if ci_type i = CONFIG_CONFIRM_EXEC_MSG then
        confirm_execute ce (if get32 (ci_data i) 4 \<noteq> 0 then c\<lparr>cf_current := t\<lparr>ct_invalid := True\<rparr>\<rparr> else c) w
      else ([], c\<lparr>cf_current := confirm_part i t\<rparr>, w))"

subsection \<open>Sending\<close>

definition forward_data :: "transaction \<Rightarrow> bytes" where
  "forward_data t = le32 (ct_token t) @ (if ct_step t = 0 then [ct_role t, ct_op t, ct_key t, 0]
     else if ct_step t = 1 then le32 (ucast (ct_value t))
     else if ct_step t = 2 then le32 (ucast (drop_bit 32 (ct_value t))) else [0, 0, 0, 0])"

definition reply_data :: "transaction \<Rightarrow> bytes" where
  "reply_data t = le32 (ct_token t) @ (if ct_step t \<noteq> 0 then le32 (ct_result t) else [ct_role t, ct_op t, ct_key t, ct_status t])"

definition confirm_transport :: "confirm \<Rightarrow> device \<Rightarrow> confirm \<times> device" where
  "confirm_transport c d =
     (let t = cf_current c in
      if ct_phase t = FORWARDING then
        (case queue_packet_dev (forward_data t) (unat (CONFIG_CONFIRM_META_MSG + ct_step t)) d of
           (True, d) \<Rightarrow>
             (c\<lparr>cf_current := t\<lparr>ct_step := ct_step t + 1, ct_phase := if ct_step t + 1 = 4 then WAITING else FORWARDING\<rparr>\<rparr>, d)
         | (False, d) \<Rightarrow> (c, d))
      else if ct_phase t = REPLYING then
        let ty = (if ct_step t \<noteq> 0 then CONFIG_CONFIRM_ACK_VALUE_MSG else CONFIG_CONFIRM_ACK_META_MSG);
            packet = \<lparr>pkt_type = ty, pkt_data = reply_data t, pkt_checksum = 0\<rparr>
        in (case (if ct_usb t then queue_cfg_packet_try packet d else queue_packet_dev (reply_data t) (unat ty) d) of
           (True, d) \<Rightarrow>
             (c\<lparr>cf_current := t\<lparr>ct_step := ct_step t + 1, ct_phase := if ct_step t + 1 = 2 then CONFIRM_IDLE else REPLYING\<rparr>\<rparr>, d)
         | (False, d) \<Rightarrow> (c, d))
      else (c, d))"

definition confirm_drop_session :: "device \<Rightarrow> confirm \<Rightarrow> confirm" where
  "confirm_drop_session d c =
     (let t = cf_current c in
      if ct_phase t \<noteq> CONFIRM_IDLE \<and> ct_usb t \<and> (ct_usb_epoch t \<noteq> cf_usb_epoch c \<or> \<not> dv_config_mode_active d)
      then confirm_idle c else c)"

definition confirm_expire :: "env \<Rightarrow> device \<Rightarrow> confirm \<Rightarrow> performed list \<times> confirm" where
  "confirm_expire e d c =
     (let t = cf_current c in
      if ct_phase t \<noteq> CONFIRM_IDLE \<and> (ucast (env_now e) :: u32) - ct_started_us t \<ge> 2000000 then
        if ct_phase t = REPLYING \<or> ct_role t \<noteq> dv_board_role d then ([], confirm_idle c)
        else confirm_finish e (status_code CONFIG_CONFIRM_EXPIRED) 0 c
      else ([], c))"

definition confirm_ingress ::
    "confirm_env \<Rightarrow> confirm \<Rightarrow> confirm_world \<Rightarrow> performed list \<times> confirm \<times> confirm_world" where
  "confirm_ingress ce c w =
     (case queue_try_remove (cf_ingress c) of
        (None, q) \<Rightarrow> ([], c\<lparr>cf_ingress := q\<rparr>, w)
      | (Some i, q) \<Rightarrow>
          if (ucast (env_now (ce_env ce)) :: u32) - ci_received_us i < 2000000
          then confirm_receive ce i (c\<lparr>cf_ingress := q\<rparr>) w else ([], c\<lparr>cf_ingress := q\<rparr>, w))"

definition config_confirm_task :: "confirm_env \<Rightarrow> confirm \<Rightarrow> confirm_world \<Rightarrow> performed list \<times> confirm \<times> confirm_world" where
  "config_confirm_task ce c w =
     (if \<not> cf_initialized c then ([], c, w)
      else
        case confirm_expire (ce_env ce) (cw_device w) (confirm_drop_session (cw_device w) c) of
          (out1, c) \<Rightarrow>
            (case confirm_ingress ce c w of
               (out2, c, w) \<Rightarrow>
                 (case confirm_transport c (cw_device w) of
                    (c, d) \<Rightarrow> (out1 @ out2, c, w\<lparr>cw_device := d\<rparr>))))"

subsection \<open>Events\<close>

text \<open>What happens to the service: requests over USB and packets from the other board, the end of a USB session, a pass of
  the task, and any change of the device and the flash by other components.\<close>

datatype confirm_event =
    Usb_request uart_packet
  | Uart_message uart_packet
  | Usb_disconnect
  | Confirm_task
  | World_changes confirm_world

datatype confirm_output = Did performed | Cut

fun confirm_step ::
    "confirm \<times> confirm_world \<Rightarrow> confirm_env \<times> confirm_event \<Rightarrow> confirm_output list \<times> (confirm \<times> confirm_world)" where
  "confirm_step (c, w) (ce, Usb_request p) = ([], snd (config_confirm_usb_request (ce_env ce) p (cw_device w) c), w)"
| "confirm_step (c, w) (ce, Uart_message p) = ([], handle_config_confirm_msg (ce_env ce) p c, w)"
| "confirm_step (c, w) (ce, Usb_disconnect) = ([Cut], config_confirm_usb_disconnect c, w)"
| "confirm_step (c, w) (ce, Confirm_task) =
     (case config_confirm_task ce c w of (out, c, w) \<Rightarrow> (map Did out, c, w))"
| "confirm_step (c, w) (ce, World_changes w') = ([], c, w')"

text \<open>The performed transaction that the service still remembers after the given outputs.\<close>

definition remember :: "performed option \<Rightarrow> confirm_output \<Rightarrow> performed option" where
  "remember l x = (case x of Did a \<Rightarrow> Some a
     | Cut \<Rightarrow> (case l of Some a \<Rightarrow> if pf_usb a then None else Some a | None \<Rightarrow> None))"

definition last_did :: "confirm_output list \<Rightarrow> performed option" where
  "last_did L = foldl remember None L"

definition same_request :: "performed \<Rightarrow> performed \<Rightarrow> bool" where
  "same_request a b \<longleftrightarrow> pf_usb a = pf_usb b \<and> pf_token a = pf_token b"

text \<open>No transaction is performed while the service remembers one with its source and token.\<close>

definition spaced :: "confirm_output list \<Rightarrow> bool" where
  "spaced L \<longleftrightarrow> (\<forall>xs b zs. L = xs @ Did b # zs \<longrightarrow> (\<forall>a. last_did xs = Some a \<longrightarrow> \<not> same_request a b))"

lemma last_did_snoc [simp]: "last_did (L @ [x]) = remember (last_did L) x"
  by (simp add: last_did_def)

lemma last_did_Nil [simp]: "last_did [] = None"
  by (simp add: last_did_def)

lemma spaced_Nil: "spaced []"
  by (simp add: spaced_def)

lemma spaced_snoc:
  assumes "spaced L" "\<And>a b. x = Did b \<Longrightarrow> last_did L = Some a \<Longrightarrow> \<not> same_request a b"
  shows "spaced (L @ [x])"
  unfolding spaced_def
proof (intro allI impI)
  fix xs b zs a
  assume eq: "L @ [x] = xs @ Did b # zs" and l: "last_did xs = Some a"
  show "\<not> same_request a b"
  proof (cases zs rule: rev_cases)
    case Nil
    with eq assms(2) l show ?thesis by simp
  next
    case (snoc ys y)
    with eq have "L = xs @ Did b # ys" by simp
    then show ?thesis using assms(1) l unfolding spaced_def by blast
  qed
qed

lemma last_did_kept:
  assumes "last_did xs = Some a" "\<forall>x. Did x \<notin> set ys" "pf_usb a \<longrightarrow> Cut \<notin> set ys"
  shows "last_did (xs @ ys) = Some a"
  using assms(2,3)
proof (induction ys rule: rev_induct)
  case (snoc y ys)
  then have "last_did (xs @ ys) = Some a" by auto
  then show ?case
    using snoc.prems last_did_snoc [of "xs @ ys" y] by (cases y) (auto simp: remember_def)
qed (use assms(1) in simp)

subsection \<open>Invariant\<close>

definition cached_as :: "performed \<Rightarrow> confirm \<Rightarrow> bool" where
  "cached_as a c \<longleftrightarrow> (let p = cf_previous c in cc_valid p \<and> cc_token p = pf_token a \<and> cc_usb p = pf_usb a
     \<and> cc_role p = pf_role a \<and> cc_op p = pf_op a \<and> cc_key p = pf_key a \<and> cc_value p = pf_value a
     \<and> cc_status p = pf_status a \<and> cc_result p = pf_result a \<and> (pf_usb a \<longrightarrow> cc_usb_epoch p = cf_usb_epoch c))"

definition unfinished :: "transaction \<Rightarrow> bool" where
  "unfinished t \<longleftrightarrow> ct_phase t \<noteq> CONFIRM_IDLE \<and> ct_phase t \<noteq> REPLYING"

definition new_request :: "transaction \<Rightarrow> confirm_output list \<Rightarrow> bool" where
  "new_request t L \<longleftrightarrow> (\<forall>a. last_did L = Some a \<longrightarrow> \<not> (pf_usb a = ct_usb t \<and> pf_token a = ct_token t))"

definition in_session :: "confirm \<Rightarrow> bool" where
  "in_session c \<longleftrightarrow> (let t = cf_current c in ct_phase t \<noteq> CONFIRM_IDLE \<longrightarrow> ct_usb t \<longrightarrow> ct_usb_epoch t = cf_usb_epoch c)"

definition confirm_inv :: "confirm_output list \<Rightarrow> confirm \<Rightarrow> bool" where
  "confirm_inv L c \<longleftrightarrow> spaced L \<and> (\<forall>a. last_did L = Some a \<longrightarrow> cached_as a c)
     \<and> (unfinished (cf_current c) \<and> \<not> ct_replay (cf_current c) \<longrightarrow> new_request (cf_current c) L)"

lemmas confirm_inv_simps = confirm_inv_def cached_as_def new_request_def in_session_def unfinished_def Let_def

lemma finish_inv:
  assumes inv: "confirm_inv L c" "in_session c"
    and t: "ct_replay (cf_current c) \<or> unfinished (cf_current c)"
    and usb: "ct_usb (cf_current c) \<longrightarrow> ct_usb_epoch (cf_current c) = cf_usb_epoch c"
    and fin: "confirm_finish e status result c = (out, c')"
  shows "confirm_inv (L @ map Did out) c'" "in_session c'" "ct_replay (cf_current c) \<longleftrightarrow> out = []"
proof -
  show "ct_replay (cf_current c) \<longleftrightarrow> out = []"
    using fin by (auto simp: confirm_finish_def Let_def split: if_splits)
  show "in_session c'" using fin usb by (auto simp: confirm_finish_def Let_def in_session_def split: if_splits)
  show "confirm_inv (L @ map Did out) c'"
  proof (cases "ct_replay (cf_current c)")
    case True
    with fin inv(1) show ?thesis by (auto simp: confirm_finish_def confirm_inv_simps)
  next
    case False
    then have new: "new_request (cf_current c) L" using inv(1) t by (simp add: confirm_inv_def)
    obtain x where x: "out = [x]" "pf_usb x = ct_usb (cf_current c)" "pf_token x = ct_token (cf_current c)"
      using fin False by (auto simp: confirm_finish_def Let_def receipt_of_def)
    have "spaced (L @ [Did x])"
      using inv(1) new x by (intro spaced_snoc) (auto simp: confirm_inv_def new_request_def same_request_def)
    moreover have "cached_as x c'" "\<not> unfinished (cf_current c')"
      using fin False x usb by (auto simp: confirm_finish_def Let_def cached_as_def unfinished_def receipt_of_def)
    ultimately show ?thesis by (simp add: confirm_inv_def x remember_def)
  qed
qed

lemma inv_idle: "confirm_inv L c \<Longrightarrow> confirm_inv L (confirm_idle c)" "in_session (confirm_idle c)"
  by (simp_all add: confirm_inv_simps confirm_idle_def)

text \<open>A change of the current transaction that keeps its identity keeps the invariant.\<close>

lemma inv_same:
  assumes "confirm_inv L c" "in_session c" "cf_previous c' = cf_previous c" "cf_usb_epoch c' = cf_usb_epoch c"
    and "ct_token (cf_current c') = ct_token (cf_current c)" "ct_usb (cf_current c') = ct_usb (cf_current c)"
    and "ct_usb_epoch (cf_current c') = ct_usb_epoch (cf_current c)" "ct_replay (cf_current c') = ct_replay (cf_current c)"
    and "unfinished (cf_current c') \<longrightarrow> unfinished (cf_current c)"
    and "ct_phase (cf_current c') \<noteq> CONFIRM_IDLE \<longrightarrow> ct_phase (cf_current c) \<noteq> CONFIRM_IDLE"
  shows "confirm_inv L c'" "in_session c'"
proof -
  have "\<forall>a. last_did L = Some a \<longrightarrow> cached_as a c'" using assms(1,3,4) by (simp add: confirm_inv_def cached_as_def)
  moreover have "unfinished (cf_current c') \<and> \<not> ct_replay (cf_current c') \<longrightarrow> new_request (cf_current c') L"
    using assms(1,5,6,8,9) by (simp add: confirm_inv_def new_request_def)
  ultimately show "confirm_inv L c'" using assms(1) by (simp add: confirm_inv_def)
  show "in_session c'" using assms(2,4,6,7,10) by (simp add: in_session_def Let_def)
qed

lemma meta_inv:
  assumes "confirm_inv L c" "in_session c" "ci_usb i \<longrightarrow> ci_usb_epoch i = cf_usb_epoch c" "confirm_meta i board c = (ok, c')"
  shows "confirm_inv L c'" "in_session c'"
proof -
  have "confirm_inv L c' \<and> in_session c'"
  proof (cases "ct_phase (cf_current c) = CONFIRM_IDLE")
    case idle: True
    then show ?thesis
      using assms
      by (auto simp: confirm_meta_def confirm_inv_simps same_source_def zero_transaction_def split: if_splits)
  next
    case False
    then have "c' = c \<or> c' = c\<lparr>cf_current := (cf_current c)\<lparr>ct_invalid := True\<rparr>\<rparr>"
      using assms(4) by (auto simp: confirm_meta_def Let_def split: if_splits)
    then show ?thesis
      using assms(1,2) inv_same [OF assms(1,2), of "c\<lparr>cf_current := (cf_current c)\<lparr>ct_invalid := True\<rparr>\<rparr>"]
      by (auto simp: unfinished_def)
  qed
  then show "confirm_inv L c'" "in_session c'" by simp_all
qed

text \<open>Each operation of a pass keeps the invariant, extended by what it performed.\<close>

definition keeps :: "confirm_output list \<Rightarrow> performed list \<Rightarrow> confirm \<Rightarrow> bool" where
  "keeps L out c \<longleftrightarrow> confirm_inv (L @ map Did out) c \<and> in_session c"

lemma keeps_Nil: "confirm_inv L c \<Longrightarrow> in_session c \<Longrightarrow> keeps L [] c"
  by (simp add: keeps_def)

lemma idle_keeps: "confirm_inv L c \<Longrightarrow> keeps L [] (confirm_idle c)"
  by (simp add: keeps_Nil inv_idle)

lemma finish_keeps:
  assumes "confirm_inv L c" "in_session c" "unfinished (cf_current c)" "confirm_finish e status result c = (out, c')"
  shows "keeps L out c'"
proof -
  have "ct_usb (cf_current c) \<longrightarrow> ct_usb_epoch (cf_current c) = cf_usb_epoch c"
    using assms(2,3) by (simp add: in_session_def unfinished_def Let_def)
  from finish_inv(1,2) [OF assms(1,2) disjI2 [OF assms(3)] this assms(4)] show ?thesis by (simp add: keeps_def)
qed

lemma expire_keeps:
  assumes "confirm_inv L c" "in_session c" "confirm_expire e d c = (out, c')"
  shows "keeps L out c'"
proof (cases "out = [] \<and> (c' = c \<or> c' = confirm_idle c)")
  case True
  with assms(1,2) show ?thesis by (auto simp: keeps_Nil idle_keeps)
next
  case False
  with assms(3) have "unfinished (cf_current c)" "confirm_finish e (status_code CONFIG_CONFIRM_EXPIRED) 0 c = (out, c')"
    by (auto simp: confirm_expire_def unfinished_def Let_def split: if_splits)
  then show ?thesis by (rule finish_keeps [OF assms(1,2)])
qed

lemma ack_keeps:
  assumes "confirm_inv L c" "in_session c" "confirm_ack e i d c = (out, c')"
  shows "keeps L out c'"
proof -
  let ?m = "c\<lparr>cf_current := (cf_current c)\<lparr>ct_status := ci_data i ! 7, ct_ack_meta := True\<rparr>\<rparr>"
  let ?f = "confirm_finish e (ct_status (cf_current c)) (get32 (ci_data i) 4) c"
  have quiet: "confirm_ack e i d c = ([], c)" if "ct_phase (cf_current c) \<noteq> WAITING"
    using that by (simp add: confirm_ack_def Let_def)
  have "confirm_ack e i d c \<in> {([], c), ([], confirm_idle c), ([], ?m), ?f}"
    unfolding confirm_ack_def Let_def by simp
  with assms(3) consider "out = []" "c' = c" | "out = []" "c' = confirm_idle c" | "out = []" "c' = ?m" | "?f = (out, c')"
    by auto
  then show ?thesis
  proof cases
    case 3
    with inv_same [OF assms(1,2), of ?m] show ?thesis by (simp add: keeps_Nil unfinished_def)
  next
    case 4
    show ?thesis
    proof (cases "ct_phase (cf_current c) = WAITING")
      case True
      with 4 show ?thesis by (intro finish_keeps [OF assms(1,2)]) (simp_all add: unfinished_def)
    next
      case False
      with quiet assms show ?thesis by (simp add: keeps_Nil)
    qed
  qed (use assms(1,2) in \<open>simp_all add: keeps_Nil idle_keeps\<close>)
qed

lemma execute_cases:
  assumes "confirm_execute ce c w = (out, c', w')"
  obtains (idle) "out = []" "c' = confirm_idle c" "w' = w"
    | (forward) "out = []" "c' = c\<lparr>cf_current := (cf_current c)\<lparr>ct_phase := FORWARDING, ct_step := 0\<rparr>\<rparr>" "w' = w"
    | (refuse) status result where "confirm_finish (ce_env ce) status result c = (out, c')" "w' = w"
    | (command) status result where "\<not> ct_replay (cf_current c)"
        "confirm_command ce (cf_current c) w = (status, result, w')"
        "confirm_finish (ce_env ce) (status_code status) result c = (out, c')"
proof -
  note idle' = idle and forward' = forward and refuse' = refuse and command' = command
  define t board where "t = cf_current c" and "board = dv_board_role (cw_device w)"
  define same where "same \<longleftrightarrow> ct_role t = cc_role (cf_previous c) \<and> ct_op t = cc_op (cf_previous c)
    \<and> ct_key t = cc_key (cf_previous c) \<and> ct_value t = cc_value (cf_previous c)"
  have fin: "confirm_finish e' status result c = (out, c') \<and> w' = w1"
    if "(case confirm_finish e' status result c of (out, c) \<Rightarrow> (out, c, w1)) = (out, c', w')" for e' status result w1
    using that by (auto split: prod.splits)
  note eq = assms [unfolded confirm_execute_def Let_def, folded t_def board_def, folded same_def]
  show thesis
  proof (cases "ct_role t \<noteq> board \<and> (ct_invalid t \<or> ct_parts t \<noteq> 3)")
    case True
    with eq show ?thesis by (intro idle') simp_all
  next
    case a: False
    show ?thesis
    proof (cases "ct_invalid t \<or> ct_parts t \<noteq> 3 \<or> ct_replay t")
      case b: True
      show ?thesis
      proof (cases "ct_replay t \<and> \<not> same \<and> ct_role t \<noteq> board")
        case True
        with a eq show ?thesis by (intro idle') simp_all
      next
        case False
        with a b eq show ?thesis by (auto dest!: fin intro: refuse' split: if_splits)
      qed
    next
      case b: False
      show ?thesis
      proof (cases "ct_role t = board")
        case True
        obtain status result w1 where cmd: "confirm_command ce t w = (status, result, w1)" by (metis prod_cases3)
        with a b True eq have "confirm_finish (ce_env ce) (status_code status) result c = (out, c') \<and> w' = w1"
          by (intro fin) simp
        with cmd b show ?thesis by (intro command' [of status result]) (simp_all add: t_def)
      next
        case False
        with a b eq show ?thesis by (cases "ct_usb t") (auto simp: t_def intro: idle' forward')
      qed
    qed
  qed
qed

lemma execute_keeps:
  assumes "confirm_inv L c" "in_session c" "ct_phase (cf_current c) = ASSEMBLING" "confirm_execute ce c w = (out, c', w')"
  shows "keeps L out c'"
  using assms(4)
proof (cases rule: execute_cases)
  case idle
  then show ?thesis by (simp add: idle_keeps assms(1))
next
  case forward
  then show ?thesis using inv_same [OF assms(1,2), of c'] assms(3) by (simp add: keeps_Nil unfinished_def)
next
  case (refuse status result)
  then show ?thesis using assms(3) by (intro finish_keeps [OF assms(1,2)]) (simp_all add: unfinished_def)
next
  case (command status result)
  then show ?thesis using assms(3) by (intro finish_keeps [OF assms(1,2)]) (simp_all add: unfinished_def)
qed

lemma replay_keeps:
  assumes "confirm_inv L c" "cf_previous c' = cf_previous c" "cf_usb_epoch c' = cf_usb_epoch c"
    "ct_replay (cf_current c')" "ct_phase (cf_current c') = CONFIRM_IDLE"
    "ct_usb (cf_current c') \<longrightarrow> ct_usb_epoch (cf_current c') = cf_usb_epoch c" "confirm_finish e status result c' = (out, c'')"
  shows "keeps L out c''"
proof -
  have "confirm_inv L c'" "in_session c'"
    using assms(1-5) by (simp_all add: confirm_inv_simps)
  from finish_inv(1,2) [OF this disjI1 [OF assms(4)] _ assms(7)] assms(3,6) show ?thesis by (simp add: keeps_def)
qed

text \<open>What a received item does: nothing, an acknowledgement, the first part, a replay, an execution, or a further part.\<close>

lemma receive_cases:
  assumes "confirm_receive ce i c w = (out, c', w')"
  obtains (ignored) "out = []" "c' = c" "w' = w"
    | (ack) "confirm_ack (ce_env ce) i (cw_device w) c = (out, c')" "w' = w"
    | (meta) ok where "ci_usb i \<longrightarrow> ci_usb_epoch i = cf_usb_epoch c" "confirm_meta i (dv_board_role (cw_device w)) c = (ok, c')"
        "out = []" "w' = w \<or> w' = w\<lparr>cw_device := reset_config_timer (ce_env ce) (cw_device w)\<rparr>"
    | (replay) c1 where "ci_usb i \<longrightarrow> ci_usb_epoch i = cf_usb_epoch c" "cf_previous c1 = cf_previous c"
        "cf_usb_epoch c1 = cf_usb_epoch c" "ct_replay (cf_current c1)" "ct_phase (cf_current c1) = CONFIRM_IDLE"
        "ct_usb (cf_current c1) = ci_usb i" "ct_usb_epoch (cf_current c1) = ci_usb_epoch i"
        "confirm_finish (ce_env ce) (cc_status (cf_previous c)) (cc_result (cf_previous c)) c1 = (out, c')" "w' = w"
    | (exec) c1 where "ct_phase (cf_current c) = ASSEMBLING" "c1 = c \<or> c1 = c\<lparr>cf_current := (cf_current c)\<lparr>ct_invalid := True\<rparr>\<rparr>"
        "confirm_execute ce c1 w = (out, c', w')"
    | (part) "ct_phase (cf_current c) = ASSEMBLING" "out = []" "c' = c\<lparr>cf_current := confirm_part i (cf_current c)\<rparr>" "w' = w"
proof -
  define t token where "t = cf_current c" and "token = get32 (ci_data i) 0"
  note eq = assms [unfolded confirm_receive_def Let_def, folded t_def token_def]
  show thesis
  proof (cases "token = 0 \<or> ci_usb i \<and> (ci_usb_epoch i \<noteq> cf_usb_epoch c \<or> \<not> dv_config_mode_active (cw_device w))")
    case True
    with eq show ?thesis by (intro ignored) simp_all
  next
    case a: False
    then have session: "ci_usb i \<longrightarrow> ci_usb_epoch i = cf_usb_epoch c" by blast
    note eq = eq [unfolded if_not_P [OF a]]
    show ?thesis
    proof (cases "request_type (ci_type i)")
      case False
      with eq show ?thesis by (intro ack) (auto split: prod.splits)
    next
      case b: True
      show ?thesis
      proof (cases "ci_type i = CONFIG_CONFIRM_META_MSG")
        case True
        obtain ok c1 where m: "confirm_meta i (dv_board_role (cw_device w)) c = (ok, c1)" by fastforce
        with eq b True session show ?thesis by (intro meta [of ok]) (auto split: bool.splits)
      next
        case no_meta: False
        show ?thesis
        proof (cases "ct_phase t = CONFIRM_IDLE \<and> ci_type i = CONFIG_CONFIRM_EXEC_MSG \<and> get32 (ci_data i) 4 = 0
            \<and> same_source i (cf_previous c)")
          case True
          with eq b no_meta session show ?thesis
            by (intro replay [of "c\<lparr>cf_current := zero_transaction\<lparr>ct_value := cc_value (cf_previous c), ct_token := token,
                ct_started_us := ci_received_us i, ct_usb_epoch := ci_usb_epoch i, ct_role := cc_role (cf_previous c),
                ct_op := cc_op (cf_previous c), ct_key := cc_key (cf_previous c), ct_usb := ci_usb i, ct_replay := True\<rparr>\<rparr>"])
              (simp_all add: zero_transaction_def split: prod.splits)
        next
          case no_replay: False
          note eq = eq [unfolded if_not_P [OF no_replay] if_not_P [OF no_meta]]
          show ?thesis
          proof (cases "ct_phase t \<noteq> ASSEMBLING \<or> ct_token t \<noteq> token \<or> ct_usb t \<noteq> ci_usb i")
            case True
            with eq b show ?thesis by (intro ignored) simp_all
          next
            case c: False
            show ?thesis
            proof (cases "ci_type i = CONFIG_CONFIRM_EXEC_MSG")
              case True
              with eq b c show ?thesis
                by (intro exec [of "if get32 (ci_data i) 4 \<noteq> 0 then c\<lparr>cf_current := t\<lparr>ct_invalid := True\<rparr>\<rparr> else c"])
                  (simp_all add: t_def)
            next
              case False
              with eq b c show ?thesis by (intro part) (simp_all add: t_def)
            qed
          qed
        qed
      qed
    qed
  qed
qed

lemma receive_keeps:
  assumes "confirm_inv L c" "in_session c" "confirm_receive ce i c w = (out, c', w')"
  shows "keeps L out c'"
  using assms(3)
proof (cases rule: receive_cases)
  case ignored
  then show ?thesis by (simp add: keeps_Nil assms(1,2))
next
  case ack
  then show ?thesis by (simp add: ack_keeps [OF assms(1,2)])
next
  case (meta ok)
  then show ?thesis using meta_inv [OF assms(1,2)] by (simp add: keeps_Nil)
next
  case (replay c1)
  then show ?thesis by (intro replay_keeps [OF assms(1) replay(2-5) _ replay(8)]) simp
next
  case (exec c1)
  have "confirm_inv L c1" "in_session c1" "ct_phase (cf_current c1) = ASSEMBLING"
    using exec(1,2) assms(1,2) inv_same [OF assms(1,2), of c1] by (auto simp: unfinished_def)
  then show ?thesis using exec(3) by (rule execute_keeps)
next
  case part
  then show ?thesis
    using inv_same [OF assms(1,2), of c'] by (simp add: keeps_Nil unfinished_def confirm_part_def Let_def)
qed

lemma drop_session_keeps:
  assumes "confirm_inv L c"
  shows "confirm_inv L (confirm_drop_session d c)" "in_session (confirm_drop_session d c)"
  using assms inv_idle(1) [of L c] inv_idle(2) [of c] by (auto simp: confirm_drop_session_def Let_def in_session_def)

lemma transport_inv:
  assumes "confirm_inv L c" "in_session c" "confirm_transport c d = (c', d')"
  shows "confirm_inv L c'"
proof -
  have "cf_previous c' = cf_previous c \<and> cf_usb_epoch c' = cf_usb_epoch c \<and>
      ct_token (cf_current c') = ct_token (cf_current c) \<and> ct_usb (cf_current c') = ct_usb (cf_current c) \<and>
      ct_usb_epoch (cf_current c') = ct_usb_epoch (cf_current c) \<and> ct_replay (cf_current c') = ct_replay (cf_current c) \<and>
      (unfinished (cf_current c') \<longrightarrow> unfinished (cf_current c)) \<and>
      (ct_phase (cf_current c') \<noteq> CONFIRM_IDLE \<longrightarrow> ct_phase (cf_current c) \<noteq> CONFIRM_IDLE)"
    using assms(3)
    by (auto simp: confirm_transport_def Let_def unfinished_def split: prod.splits bool.splits if_split_asm)
  then show ?thesis using inv_same(1) [OF assms(1,2), of c'] by blast
qed

lemma transport_frame:
  assumes "confirm_transport c d = (c', d')"
  shows "dv_config d' = dv_config d"
proof -
  have "dv_config d1 = dv_config d" if "queue_packet_dev data t d = (ok, d1)" for data t ok d1
    using queue_packet_dev_frame [OF that] by auto
  then show ?thesis
    using assms
    by (auto simp: confirm_transport_def Let_def queue_cfg_packet_try_def split: prod.splits bool.splits if_split_asm)
qed

lemma task_passes:
  assumes "cf_initialized c" "config_confirm_task ce c w = (out, c', w')"
  obtains out1 c1 out2 c2 w2 d where
    "confirm_expire (ce_env ce) (cw_device w) (confirm_drop_session (cw_device w) c) = (out1, c1)"
    "confirm_ingress ce c1 w = (out2, c2, w2)" "confirm_transport c2 (cw_device w2) = (c', d)"
    "out = out1 @ out2" "w' = w2\<lparr>cw_device := d\<rparr>"
  using assms unfolding config_confirm_task_def by (auto split: prod.splits)

lemma ingress_keeps:
  assumes "confirm_inv L c" "in_session c" "confirm_ingress ce c w = (out, c', w')"
  shows "keeps L out c'"
proof -
  have "confirm_inv L (c\<lparr>cf_ingress := q\<rparr>)" "in_session (c\<lparr>cf_ingress := q\<rparr>)" for q
    using inv_same [OF assms(1,2), of "c\<lparr>cf_ingress := q\<rparr>"] by simp_all
  then show ?thesis
    using assms(3) by (auto simp: confirm_ingress_def keeps_Nil intro: receive_keeps split: prod.splits option.splits if_splits)
qed

lemma task_inv:
  assumes "confirm_inv L c" "config_confirm_task ce c w = (out, c', w')"
  shows "confirm_inv (L @ map Did out) c'"
proof (cases "cf_initialized c")
  case False
  with assms show ?thesis by (simp add: config_confirm_task_def)
next
  case True
  then obtain out1 c1 out2 c2 w2 d where
    e: "confirm_expire (ce_env ce) (cw_device w) (confirm_drop_session (cw_device w) c) = (out1, c1)"
    and r: "confirm_ingress ce c1 w = (out2, c2, w2)" and t: "confirm_transport c2 (cw_device w2) = (c', d)"
    and out: "out = out1 @ out2"
    using assms(2) by (rule task_passes)
  have "keeps L out1 c1" using e by (rule expire_keeps [OF drop_session_keeps [OF assms(1)]])
  then have "confirm_inv (L @ map Did out1) c1" "in_session c1" by (simp_all add: keeps_def)
  from ingress_keeps [OF this r] have "confirm_inv (L @ map Did out) c2" "in_session c2" by (simp_all add: keeps_def out)
  then show ?thesis using t by (rule transport_inv)
qed

lemma disconnect_inv:
  assumes "confirm_inv L c"
  shows "confirm_inv (L @ [Cut]) (config_confirm_usb_disconnect c)"
proof -
  have l: "last_did L = Some a \<and> \<not> pf_usb a" if "last_did (L @ [Cut]) = Some a" for a
    using that by (auto simp: remember_def split: option.splits if_splits)
  have "spaced (L @ [Cut])" using assms by (intro spaced_snoc) (simp_all add: confirm_inv_def)
  moreover have "cached_as a (config_confirm_usb_disconnect c)" if "last_did (L @ [Cut]) = Some a" for a
  proof -
    have "cached_as a c" "\<not> pf_usb a" using l [OF that] assms by (simp_all add: confirm_inv_def)
    then show ?thesis by (simp add: cached_as_def config_confirm_usb_disconnect_def Let_def)
  qed
  moreover have "cf_current (config_confirm_usb_disconnect c) = cf_current c"
    by (simp add: config_confirm_usb_disconnect_def Let_def)
  moreover have "new_request t L \<Longrightarrow> new_request t (L @ [Cut])" for t
    using l unfolding new_request_def by blast
  ultimately show ?thesis using assms by (simp add: confirm_inv_def)
qed

lemma enqueue_inv: "confirm_inv L c \<Longrightarrow> confirm_inv L (snd (confirm_enqueue e p usb c))"
  by (simp add: confirm_enqueue_def confirm_inv_def cached_as_def split: prod.splits)

lemma confirm_step_inv:
  "confirm_inv L c \<Longrightarrow> confirm_step (c, w) i = (out, (c', w')) \<Longrightarrow> confirm_inv (L @ out) c'"
  by (cases i; cases "snd i")
    (auto simp: config_confirm_usb_request_def handle_config_confirm_msg_def enqueue_inv disconnect_inv task_inv
      split: prod.splits if_splits)

lemma confirm_run_inv:
  "confirm_inv L c \<Longrightarrow> run_machine confirm_step (c, w) es = (os, (c', w')) \<Longrightarrow> confirm_inv (L @ concat os) c'"
proof (induction es arbitrary: L c w os)
  case (Cons i es)
  obtain out c1 w1 where s: "confirm_step (c, w) i = (out, (c1, w1))" by (metis prod.exhaust)
  obtain os1 where r: "run_machine confirm_step (c1, w1) es = (os1, (c', w'))" "os = out # os1"
    using Cons.prems(2) s by (auto split: prod.splits)
  show ?case using Cons.IH [OF confirm_step_inv [OF Cons.prems(1) s] r(1)] r(2) by simp
qed simp

lemma confirm_init_inv: "confirm_inv [] config_confirm_init"
  by (simp add: confirm_inv_def spaced_Nil unfinished_def config_confirm_init_def zero_transaction_def)

text \<open>A pass that performs nothing changes neither the configuration nor the flash.\<close>

lemma finish_replay:
  "confirm_finish e status result c = (out, c') \<Longrightarrow> out = [] \<longleftrightarrow> ct_replay (cf_current c)"
  by (auto simp: confirm_finish_def Let_def split: if_splits)

lemma receive_quiet:
  assumes "confirm_receive ce i c w = ([], c', w')"
  shows "dv_config (cw_device w') = dv_config (cw_device w) \<and> cw_store w' = cw_store w"
  using assms
proof (cases rule: receive_cases)
  case (exec c1)
  from exec(3) show ?thesis
  proof (cases rule: execute_cases)
    case (command status result)
    with finish_replay [OF command(3)] show ?thesis by simp
  qed simp_all
qed (auto simp: reset_config_timer_def)

lemma task_quiet:
  assumes "config_confirm_task ce c w = ([], c', w')"
  shows "dv_config (cw_device w') = dv_config (cw_device w) \<and> cw_store w' = cw_store w"
proof (cases "cf_initialized c")
  case True
  then obtain out1 c1 out2 c2 w2 d where
    r: "confirm_ingress ce c1 w = (out2, c2, w2)" and t: "confirm_transport c2 (cw_device w2) = (c', d)"
    and out: "[] = out1 @ out2" and w': "w' = w2\<lparr>cw_device := d\<rparr>"
    using assms by (rule task_passes)
  have "dv_config (cw_device w2) = dv_config (cw_device w) \<and> cw_store w2 = cw_store w"
    using r out by (auto simp: confirm_ingress_def dest: receive_quiet split: prod.splits option.splits if_splits)
  with transport_frame [OF t] show ?thesis by (simp add: w')
qed (use assms in \<open>simp add: config_confirm_task_def\<close>)

subsection \<open>Properties\<close>

text \<open>
  C31. A confirmed command is performed at most once. Whatever requests, packets, disconnects, passes and changes of
  the device happen in whatever order, if two transactions with the same source and token are performed, another one was
  performed between them, or they came over USB and the session ended between them. And a pass that performs no
  transaction, such as one that answers a resent request, leaves the configuration and the flash as they were.
\<close>

theorem confirm_once:
  assumes "run_machine confirm_step (config_confirm_init, w) es = (os, s)"
    and "concat os = xs @ Did a # ys @ Did b # zs" "pf_usb a = pf_usb b" "pf_token a = pf_token b"
  shows "((\<exists>x. Did x \<in> set ys) \<or> pf_usb a \<and> Cut \<in> set ys) \<and>
    (\<forall>ce c v c' v'. config_confirm_task ce c v = ([], c', v') \<longrightarrow>
       dv_config (cw_device v') = dv_config (cw_device v) \<and> cw_store v' = cw_store v)"
proof -
  have "confirm_inv ([] @ concat os) (fst s)"
    using confirm_run_inv [OF confirm_init_inv, of w es os "fst s" "snd s"] assms(1) by simp
  then have spaced: "spaced (xs @ Did a # ys @ Did b # zs)" using assms(2) by (simp add: confirm_inv_def)
  have "(\<exists>x. Did x \<in> set ys) \<or> pf_usb a \<and> Cut \<in> set ys"
  proof (rule ccontr)
    assume "\<not> ?thesis"
    then have "last_did ((xs @ [Did a]) @ ys) = Some a"
      by (intro last_did_kept [of "xs @ [Did a]"]) (auto simp: remember_def)
    then show False
      using spaced [unfolded spaced_def, rule_format, of "xs @ Did a # ys" b zs a] assms(3,4) by (simp add: same_request_def)
  qed
  then show ?thesis using task_quiet by blast
qed

text \<open>The same request twice over USB, with a disconnect between.\<close>

definition sample_confirm_world :: confirm_world where
  "sample_confirm_world = \<lparr>cw_device = (device_boot 0)\<lparr>dv_config_mode_active := True,
       dv_hid_queue_out := queue_init \<lparr>gp_instance = 0, gp_report_id = 0, gp_type = 0, gp_len = 0, gp_data = []\<rparr> 5\<rparr>,
     cw_store = \<lparr>s_flash = [], s_generation = 0, s_upgrade_in_progress = False, s_image_dirty = False, s_reboot_requested = False,
       s_maintenance_reserved = False, s_bootloader_local_pending = False, s_bootloader_peer_pending = False,
       s_config = default_config, s_page_buffer = []\<rparr>\<rparr>"

definition sample_confirm_env :: confirm_env where
  "sample_confirm_env = \<lparr>ce_env = sample_env 9, ce_hw = sample_flash, ce_got = True, ce_edit = id\<rparr>"

definition sample_meta :: uart_packet where
  "sample_meta = \<lparr>pkt_type = CONFIG_CONFIRM_META_MSG, pkt_data = [5, 0, 0, 0, 0, 1, 0, 0], pkt_checksum = 0\<rparr>"

definition sample_exec :: uart_packet where
  "sample_exec = \<lparr>pkt_type = CONFIG_CONFIRM_EXEC_MSG, pkt_data = [5, 0, 0, 0, 0, 0, 0, 0], pkt_checksum = 0\<rparr>"

definition sample_twice :: "(confirm_env \<times> confirm_event) list" where
  "sample_twice = (let ask = [Usb_request sample_meta, Usb_request sample_exec, Confirm_task, Confirm_task]
     in map (Pair sample_confirm_env) (ask @ [Usb_disconnect] @ ask))"

definition sample_incomplete :: performed where
  "sample_incomplete = \<lparr>pf_usb = True, pf_token = 5, pf_role = 0, pf_op = 1, pf_key = 0, pf_value = 0, pf_status = 6, pf_result = 0\<rparr>"

lemma sample_board: "dv_board_role (device_boot 0) = 0"
  by (simp add: device_boot_def)

lemmas sample_run_defs = sample_confirm_world_def sample_confirm_env_def sample_env_def sample_meta_def sample_exec_def
  config_confirm_init_def config_confirm_usb_request_def config_confirm_usb_disconnect_def confirm_enqueue_def request_type_def
  queue_init_def queue_try_add_def queue_try_remove_def queue_get_level_def inc_index_def
  config_confirm_task_def confirm_drop_session_def confirm_expire_def confirm_ingress_def confirm_receive_def confirm_meta_def
  confirm_execute_def confirm_finish_def confirm_transport_def confirm_idle_def same_source_def receipt_of_def
  zero_transaction_def zero_cached_def blank_item_def sample_board get32_def status_code_def queue_cfg_packet_try_def
  reset_config_timer_def

lemma sample_twice_run:
  "fst (run_machine confirm_step (config_confirm_init, sample_confirm_world) sample_twice)
     = [[], [], [], [Did sample_incomplete], [Cut], [], [], [], [Did sample_incomplete]]"
  by (simp add: sample_twice_def sample_incomplete_def sample_run_defs)

theorem confirm_once_witness:
  "fst (run_machine confirm_step (config_confirm_init, sample_confirm_world) sample_twice)
     = [[], [], [], [Did sample_incomplete], [Cut], [], [], [], [Did sample_incomplete]] \<and>
   ((\<exists>x. Did x \<in> set [Cut]) \<or> pf_usb sample_incomplete \<and> Cut \<in> set [Cut])"
proof -
  have "run_machine confirm_step (config_confirm_init, sample_confirm_world) sample_twice
      = ([[], [], [], [Did sample_incomplete], [Cut], [], [], [], [Did sample_incomplete]],
         snd (run_machine confirm_step (config_confirm_init, sample_confirm_world) sample_twice))"
    unfolding sample_twice_run [symmetric] by simp
  from confirm_once [OF this, of "[]" sample_incomplete "[Cut]" sample_incomplete "[]"] sample_twice_run
  show ?thesis by simp
qed

text \<open>The two receipts of a performed transaction, and what it means that one was queued: over USB as a configuration
  report for the host, else as a packet for the other board, behind what was queued before.\<close>

definition receipt_meta :: "performed \<Rightarrow> uart_packet" where
  "receipt_meta a = \<lparr>pkt_type = CONFIG_CONFIRM_ACK_META_MSG,
     pkt_data = le32 (pf_token a) @ [pf_role a, pf_op a, pf_key a, pf_status a], pkt_checksum = 0\<rparr>"

definition receipt_value :: "performed \<Rightarrow> uart_packet" where
  "receipt_value a = \<lparr>pkt_type = CONFIG_CONFIRM_ACK_VALUE_MSG, pkt_data = le32 (pf_token a) @ le32 (pf_result a), pkt_checksum = 0\<rparr>"

definition receipt_report :: "uart_packet \<Rightarrow> hid_generic_pkt" where
  "receipt_report p = \<lparr>gp_instance = 2, gp_report_id = 6, gp_type = 0, gp_len = 12, gp_data = write_config_packet p\<rparr>"

definition receipt_room :: "bool \<Rightarrow> device \<Rightarrow> bool" where
  "receipt_room usb d \<longleftrightarrow>
     (if usb then queue_ok (dv_hid_queue_out d) \<and> queue_get_level (dv_hid_queue_out d) < q_element_count (dv_hid_queue_out d)
      else queue_ok (dv_uart_tx_queue d) \<and> queue_get_level (dv_uart_tx_queue d) < q_element_count (dv_uart_tx_queue d))"

definition receipt_stuck :: "bool \<Rightarrow> device \<Rightarrow> bool" where
  "receipt_stuck usb d \<longleftrightarrow>
     (if usb then queue_get_level (dv_hid_queue_out d) = q_element_count (dv_hid_queue_out d)
      else queue_get_level (dv_uart_tx_queue d) = q_element_count (dv_uart_tx_queue d))"

definition receipt_added :: "bool \<Rightarrow> uart_packet \<Rightarrow> device \<Rightarrow> device \<Rightarrow> bool" where
  "receipt_added usb p d d' \<longleftrightarrow>
     (if usb then queue_items (dv_hid_queue_out d') = queue_items (dv_hid_queue_out d) @ [receipt_report p]
      else queue_items (dv_uart_tx_queue d') = queue_items (dv_uart_tx_queue d) @ [p])"

text \<open>While a receipt waits for room: requests and packets arrive, other components change the device, passes find the queue
  full. The session of a USB client goes on, and no pass comes two seconds or more after the time \<open>t0\<close> of the answer.\<close>

definition confirm_in_time :: "u32 \<Rightarrow> confirm_env \<Rightarrow> bool" where
  "confirm_in_time t0 ce \<longleftrightarrow> (ucast (env_now (ce_env ce)) :: u32) - t0 < 2000000"

fun waits :: "bool \<Rightarrow> u32 \<Rightarrow> confirm \<times> confirm_world \<Rightarrow> (confirm_env \<times> confirm_event) list \<Rightarrow> bool" where
  "waits usb t0 s [] \<longleftrightarrow> True"
| "waits usb t0 s ((ce, ev) # es) \<longleftrightarrow>
     (case ev of Usb_disconnect \<Rightarrow> \<not> usb | World_changes w \<Rightarrow> usb \<longrightarrow> dv_config_mode_active (cw_device w)
      | Confirm_task \<Rightarrow> receipt_stuck usb (cw_device (snd s)) \<and> confirm_in_time t0 ce | _ \<Rightarrow> True)
     \<and> waits usb t0 (snd (confirm_step s (ce, ev))) es"

text \<open>The service is going to send these receipts, one in each pass that finds room, and then to be idle; these passes
  perform nothing.\<close>

fun answers :: "bool \<Rightarrow> u32 \<Rightarrow> uart_packet list \<Rightarrow> confirm \<times> confirm_world \<Rightarrow> bool" where
  "answers usb t0 [] s \<longleftrightarrow> ct_phase (cf_current (fst s)) = CONFIRM_IDLE"
| "answers usb t0 (p # ps) s \<longleftrightarrow> (\<forall>es ce c w. waits usb t0 s es \<and> snd (run_machine confirm_step s es) = (c, w) \<and>
     confirm_in_time t0 ce \<and> receipt_room usb (cw_device w) \<longrightarrow>
     (\<exists>c' w'. config_confirm_task ce c w = ([], c', w') \<and> receipt_added usb p (cw_device w) (cw_device w') \<and>
        dv_config (cw_device w') = dv_config (cw_device w) \<and> cw_store w' = cw_store w \<and> answers usb t0 ps (c', w')))"

definition replying :: "performed \<Rightarrow> u8 \<Rightarrow> u32 \<Rightarrow> confirm \<times> confirm_world \<Rightarrow> bool" where
  "replying a k t0 s \<longleftrightarrow> (case s of (c, w) \<Rightarrow> let t = cf_current c in cf_initialized c \<and> ct_phase t = REPLYING \<and> ct_step t = k
     \<and> ct_started_us t = t0 \<and> receipt_of t (ct_status t) (ct_result t) = a
     \<and> (pf_usb a \<longrightarrow> ct_usb_epoch t = cf_usb_epoch c \<and> dv_config_mode_active (cw_device w)))"

definition receipt_packet :: "performed \<Rightarrow> u8 \<Rightarrow> uart_packet" where
  "receipt_packet a k = (if k = 0 then receipt_meta a else receipt_value a)"

definition try_receipt :: "uart_packet \<Rightarrow> bool \<Rightarrow> device \<Rightarrow> bool \<times> device" where
  "try_receipt p usb d =
     (if usb then case queue_try_add (dv_hid_queue_out d) (receipt_report p) of (ok, q) \<Rightarrow> (ok, d\<lparr>dv_hid_queue_out := q\<rparr>)
      else case queue_try_add (dv_uart_tx_queue d) p of (ok, q) \<Rightarrow> (ok, d\<lparr>dv_uart_tx_queue := q\<rparr>))"

lemma try_receipt_room:
  assumes "receipt_room usb d"
  shows "\<exists>d'. try_receipt p usb d = (True, d') \<and> receipt_added usb p d d' \<and> dv_config d' = dv_config d"
proof (cases usb)
  case True
  have "fst (queue_try_add (dv_hid_queue_out d) (receipt_report p))"
    using assms True by (simp add: receipt_room_def queue_try_add_def)
  then show ?thesis
    using assms True queue_add_items [of "dv_hid_queue_out d" "receipt_report p"]
    by (auto simp: try_receipt_def receipt_room_def receipt_added_def split: prod.splits)
next
  case False
  have "fst (queue_try_add (dv_uart_tx_queue d) p)"
    using assms False by (simp add: receipt_room_def queue_try_add_def)
  then show ?thesis
    using assms False queue_add_items [of "dv_uart_tx_queue d" p]
    by (auto simp: try_receipt_def receipt_room_def receipt_added_def split: prod.splits)
qed

lemma try_receipt_stuck: "receipt_stuck usb d \<Longrightarrow> try_receipt p usb d = (False, d)"
  by (simp add: try_receipt_def receipt_stuck_def queue_try_add_def split: if_splits)

text \<open>What the sending half of a pass does while a receipt is due.\<close>

lemma transport_replying:
  assumes "ct_phase (cf_current c) = REPLYING" "ct_step (cf_current c) = k" "k = 0 \<or> k = 1"
    and "receipt_of (cf_current c) (ct_status (cf_current c)) (ct_result (cf_current c)) = a"
  shows "confirm_transport c d = (case try_receipt (receipt_packet a k) (pf_usb a) d of
      (True, d) \<Rightarrow> (c\<lparr>cf_current := (cf_current c)\<lparr>ct_step := k + 1, ct_phase := if k = 1 then CONFIRM_IDLE else REPLYING\<rparr>\<rparr>, d)
    | (False, d) \<Rightarrow> (c, d))"
proof -
  let ?t = "cf_current c"
  let ?ty = "if k \<noteq> 0 then CONFIG_CONFIRM_ACK_VALUE_MSG else CONFIG_CONFIRM_ACK_META_MSG"
  have p: "receipt_packet a k = \<lparr>pkt_type = ?ty, pkt_data = reply_data ?t, pkt_checksum = 0\<rparr>"
    using assms(2) by (simp add: receipt_packet_def receipt_meta_def receipt_value_def reply_data_def receipt_of_def assms(4) [symmetric])
  have len: "length (reply_data ?t) = 8" by (simp add: reply_data_def)
  have "queue_packet_dev (reply_data ?t) (unat ?ty) d
      = (case queue_try_add (dv_uart_tx_queue d) (receipt_packet a k) of (ok, q) \<Rightarrow> (ok, d\<lparr>dv_uart_tx_queue := q\<rparr>))"
    by (simp add: queue_packet_dev_def queue_packet_try_def p len)
  moreover have "queue_cfg_packet_try (receipt_packet a k) d
      = (case queue_try_add (dv_hid_queue_out d) (receipt_report (receipt_packet a k)) of (ok, q) \<Rightarrow> (ok, d\<lparr>dv_hid_queue_out := q\<rparr>))"
    by (simp add: queue_cfg_packet_try_def receipt_report_def)
  moreover have "pf_usb a = ct_usb ?t" by (simp add: receipt_of_def assms(4) [symmetric])
  ultimately have t: "(if ct_usb ?t then queue_cfg_packet_try \<lparr>pkt_type = ?ty, pkt_data = reply_data ?t, pkt_checksum = 0\<rparr> d
      else queue_packet_dev (reply_data ?t) (unat ?ty) d) = try_receipt (receipt_packet a k) (pf_usb a) d"
    by (simp add: try_receipt_def p)
  have k: "k + 1 = 2 \<longleftrightarrow> k = 1" using assms(3) by auto
  show ?thesis
    unfolding confirm_transport_def Let_def assms(2) if_P [OF assms(1)] t k by (simp add: assms(1))
qed

text \<open>Nothing that arrives disturbs a transaction that is replying.\<close>

lemma receive_replying:
  "ct_phase (cf_current c) = REPLYING \<Longrightarrow> confirm_receive ce i c w = ([], c, w)"
  by (simp add: confirm_receive_def confirm_ack_def confirm_meta_def Let_def)

lemma task_replying:
  assumes "replying a k t0 (c, w)" "confirm_in_time t0 ce"
  obtains q where "config_confirm_task ce c w = (case confirm_transport (c\<lparr>cf_ingress := q\<rparr>) (cw_device w) of
      (c, d) \<Rightarrow> ([], c, w\<lparr>cw_device := d\<rparr>))" "replying a k t0 (c\<lparr>cf_ingress := q\<rparr>, w)"
proof -
  have r: "cf_initialized c" "ct_phase (cf_current c) = REPLYING" "ct_started_us (cf_current c) = t0"
      "ct_usb (cf_current c) \<longrightarrow> ct_usb_epoch (cf_current c) = cf_usb_epoch c \<and> dv_config_mode_active (cw_device w)"
    using assms(1) by (auto simp: replying_def receipt_of_def Let_def)
  have "confirm_expire (ce_env ce) (cw_device w) (confirm_drop_session (cw_device w) c) = ([], c)"
    using r assms(2) by (auto simp: confirm_drop_session_def confirm_expire_def confirm_in_time_def Let_def)
  moreover have "confirm_ingress ce c w = ([], c\<lparr>cf_ingress := snd (queue_try_remove (cf_ingress c))\<rparr>, w)"
    using r(2) by (simp add: confirm_ingress_def receive_replying split: prod.splits option.splits)
  ultimately have "config_confirm_task ce c w =
      (case confirm_transport (c\<lparr>cf_ingress := snd (queue_try_remove (cf_ingress c))\<rparr>) (cw_device w) of
        (c, d) \<Rightarrow> ([], c, w\<lparr>cw_device := d\<rparr>))"
    using r(1) by (simp add: config_confirm_task_def split: prod.splits)
  then show thesis by (rule that) (use assms(1) in \<open>simp add: replying_def Let_def\<close>)
qed

lemma waits_replying:
  "replying a k t0 s \<Longrightarrow> k = 0 \<or> k = 1 \<Longrightarrow> waits (pf_usb a) t0 s es \<Longrightarrow> replying a k t0 (snd (run_machine confirm_step s es))"
proof (induction es arbitrary: s)
  case (Cons i es)
  obtain ce ev c w where i: "i = (ce, ev)" and s: "s = (c, w)" by (metis prod.exhaust)
  have r: "replying a k t0 (c, w)" using Cons.prems(1) s by simp
  have "replying a k t0 (snd (confirm_step s i))"
  proof (cases ev)
    case Confirm_task
    then have stuck: "receipt_stuck (pf_usb a) (cw_device w)" "confirm_in_time t0 ce" using Cons.prems(3) by (simp_all add: i s)
    obtain q where q: "config_confirm_task ce c w = (case confirm_transport (c\<lparr>cf_ingress := q\<rparr>) (cw_device w) of
        (c, d) \<Rightarrow> ([], c, w\<lparr>cw_device := d\<rparr>))" "replying a k t0 (c\<lparr>cf_ingress := q\<rparr>, w)"
      using task_replying [OF r stuck(2)] .
    then have "confirm_transport (c\<lparr>cf_ingress := q\<rparr>) (cw_device w) = (c\<lparr>cf_ingress := q\<rparr>, cw_device w)"
      using Cons.prems(2) transport_replying [of "c\<lparr>cf_ingress := q\<rparr>" k a "cw_device w"]
      by (simp add: try_receipt_stuck [OF stuck(1)] replying_def Let_def)
    with q show ?thesis by (simp add: i s Confirm_task)
  qed (use r Cons.prems(3) in \<open>auto simp: i s replying_def Let_def receipt_of_def config_confirm_usb_request_def confirm_enqueue_def
      handle_config_confirm_msg_def config_confirm_usb_disconnect_def split: prod.splits if_splits\<close>)
  then have "replying a k t0 (snd (run_machine confirm_step (snd (confirm_step s i)) es))"
    using Cons.IH Cons.prems(2,3) by (simp add: i)
  moreover obtain os s' where "confirm_step s i = (os, s')" by (metis prod.exhaust)
  ultimately show ?case by (cases "run_machine confirm_step s' es") simp
qed simp

text \<open>One pass that finds room sends the receipt that is due.\<close>

lemma replying_sends:
  assumes "replying a k t0 (c, w)" "k = 0 \<or> k = 1" "confirm_in_time t0 ce" "receipt_room (pf_usb a) (cw_device w)"
  shows "\<exists>c' w'. config_confirm_task ce c w = ([], c', w') \<and> receipt_added (pf_usb a) (receipt_packet a k) (cw_device w) (cw_device w')
    \<and> dv_config (cw_device w') = dv_config (cw_device w) \<and> cw_store w' = cw_store w
    \<and> (if k = 0 then replying a 1 t0 (c', w') else ct_phase (cf_current c') = CONFIRM_IDLE)"
proof -
  obtain q where q: "config_confirm_task ce c w = (case confirm_transport (c\<lparr>cf_ingress := q\<rparr>) (cw_device w) of
      (c, d) \<Rightarrow> ([], c, w\<lparr>cw_device := d\<rparr>))" "replying a k t0 (c\<lparr>cf_ingress := q\<rparr>, w)"
    using task_replying [OF assms(1,3)] .
  let ?c = "(c\<lparr>cf_ingress := q\<rparr>)\<lparr>cf_current := (cf_current c)\<lparr>ct_step := k + 1, ct_phase := if k = 1 then CONFIRM_IDLE else REPLYING\<rparr>\<rparr>"
  obtain d where d: "try_receipt (receipt_packet a k) (pf_usb a) (cw_device w) = (True, d)"
      "receipt_added (pf_usb a) (receipt_packet a k) (cw_device w) d" "dv_config d = dv_config (cw_device w)"
    using try_receipt_room [OF assms(4), of "receipt_packet a k"] by blast
  have mode: "dv_config_mode_active d = dv_config_mode_active (cw_device w)"
    using d(1) by (auto simp: try_receipt_def split: prod.splits if_splits)
  have "confirm_transport (c\<lparr>cf_ingress := q\<rparr>) (cw_device w) = (?c, d)"
    using transport_replying [of "c\<lparr>cf_ingress := q\<rparr>" k a "cw_device w"] q(2) assms(2) by (simp add: d(1) replying_def Let_def)
  then have "config_confirm_task ce c w = ([], ?c, w\<lparr>cw_device := d\<rparr>)" using q(1) by simp
  moreover have "if k = 0 then replying a 1 t0 (?c, w\<lparr>cw_device := d\<rparr>) else ct_phase (cf_current ?c) = CONFIRM_IDLE"
    using assms(1,2) mode by (auto simp: replying_def receipt_of_def Let_def)
  ultimately show ?thesis using d(2,3) by (intro exI [of _ ?c] exI [of _ "w\<lparr>cw_device := d\<rparr>"]) simp
qed

lemma replying_answers:
  shows "replying a 1 t0 s \<Longrightarrow> answers (pf_usb a) t0 [receipt_value a] s"
    and "replying a 0 t0 s \<Longrightarrow> answers (pf_usb a) t0 [receipt_meta a, receipt_value a] s"
proof -
  show second: "answers (pf_usb a) t0 [receipt_value a] s" if r: "replying a 1 t0 s" for s
    unfolding answers.simps
  proof (intro allI impI)
    fix es ce c w
    assume w: "waits (pf_usb a) t0 s es \<and> snd (run_machine confirm_step s es) = (c, w) \<and> confirm_in_time t0 ce
      \<and> receipt_room (pf_usb a) (cw_device w)"
    then have "replying a 1 t0 (c, w)" using waits_replying [OF r, of es] by simp
    from replying_sends [OF this, of ce] w
    show "\<exists>c' w'. config_confirm_task ce c w = ([], c', w') \<and> receipt_added (pf_usb a) (receipt_value a) (cw_device w) (cw_device w') \<and>
        dv_config (cw_device w') = dv_config (cw_device w) \<and> cw_store w' = cw_store w \<and> ct_phase (cf_current (fst (c', w'))) = CONFIRM_IDLE"
      by (simp add: receipt_packet_def)
  qed
  show "answers (pf_usb a) t0 [receipt_meta a, receipt_value a] s" if r: "replying a 0 t0 s"
    unfolding answers.simps(2) [of _ _ "receipt_meta a"]
  proof (intro allI impI)
    fix es ce c w
    assume w: "waits (pf_usb a) t0 s es \<and> snd (run_machine confirm_step s es) = (c, w) \<and> confirm_in_time t0 ce
      \<and> receipt_room (pf_usb a) (cw_device w)"
    then have "replying a 0 t0 (c, w)" using waits_replying [OF r, of es] by simp
    from replying_sends [OF this, of ce] w obtain c' w' where s: "config_confirm_task ce c w = ([], c', w')"
        "receipt_added (pf_usb a) (receipt_meta a) (cw_device w) (cw_device w')" "replying a 1 t0 (c', w')"
        "dv_config (cw_device w') = dv_config (cw_device w)" "cw_store w' = cw_store w"
      by (auto simp: receipt_packet_def)
    then show "\<exists>c' w'. config_confirm_task ce c w = ([], c', w') \<and> receipt_added (pf_usb a) (receipt_meta a) (cw_device w) (cw_device w') \<and>
        dv_config (cw_device w') = dv_config (cw_device w) \<and> cw_store w' = cw_store w \<and> answers (pf_usb a) t0 [receipt_value a] (c', w')"
      using second [OF s(3)] by (intro exI [of _ c'] exI [of _ w']) simp
  qed
qed

text \<open>What a resent EXEC does when the service is idle and still holds the receipt.\<close>

lemma resend_receive:
  assumes "cached_as a c" "cf_initialized c" "ct_phase (cf_current c) = CONFIRM_IDLE" "ci_type i = CONFIG_CONFIRM_EXEC_MSG"
    "get32 (ci_data i) 0 = pf_token a" "pf_token a \<noteq> 0" "get32 (ci_data i) 4 = 0" "ci_usb i = pf_usb a"
    "pf_usb a \<longrightarrow> ci_usb_epoch i = cf_usb_epoch c \<and> dv_config_mode_active (cw_device w)"
  shows "\<exists>c'. confirm_receive ce i c w = ([], c', w) \<and> replying a 0 (ucast (env_now (ce_env ce))) (c', w)"
  using assms
  by (auto simp: confirm_receive_def confirm_finish_def request_type_def cached_as_def same_source_def receipt_of_def
      zero_transaction_def replying_def Let_def)

text \<open>
  C32. A lost receipt can be fetched again. After any run, when the service is idle and remembers a performed transaction,
  and the next queued item is a resent EXEC with its token from the same source, less than two seconds old and, over USB,
  from the session that still goes on in the active configuration mode, then the original outcome is sent again: the
  packet with the original target, command, key and status, and then the packet with the original result, to the host or
  to the other board, whoever asked. The first goes out in the pass that takes the item and the second in the next one,
  or, when the outgoing queue is full, each in the first pass that finds room within two seconds, whatever requests, packets
  and changes of the device come between. No pass performs anything: the configuration and the flash stay as they were.
\<close>

theorem confirm_replayed:
  assumes "run_machine confirm_step (config_confirm_init, w0) es = (os, (c, w))" "last_did (concat os) = Some a"
    and "cf_initialized c" "ct_phase (cf_current c) = CONFIRM_IDLE" "queue_try_remove (cf_ingress c) = (Some i, q)"
    and "(ucast (env_now (ce_env ce)) :: u32) - ci_received_us i < 2000000"
    and "ci_type i = CONFIG_CONFIRM_EXEC_MSG" "get32 (ci_data i) 0 = pf_token a" "pf_token a \<noteq> 0" "get32 (ci_data i) 4 = 0"
    and "ci_usb i = pf_usb a" "pf_usb a \<longrightarrow> ci_usb_epoch i = cf_usb_epoch c \<and> dv_config_mode_active (cw_device w)"
    and queues: "queue_ok (dv_hid_queue_out (cw_device w))" "queue_ok (dv_uart_tx_queue (cw_device w))"
  shows "\<exists>c' w'. config_confirm_task ce c w = ([], c', w') \<and>
    dv_config (cw_device w') = dv_config (cw_device w) \<and> cw_store w' = cw_store w \<and>
    (if receipt_room (pf_usb a) (cw_device w)
     then receipt_added (pf_usb a) (receipt_meta a) (cw_device w) (cw_device w') \<and>
       answers (pf_usb a) (ucast (env_now (ce_env ce))) [receipt_value a] (c', w')
     else answers (pf_usb a) (ucast (env_now (ce_env ce))) [receipt_meta a, receipt_value a] (c', w'))"
proof -
  let ?t0 = "ucast (env_now (ce_env ce)) :: u32"
  have "confirm_inv ([] @ concat os) c" using confirm_run_inv [OF confirm_init_inv] assms(1) by blast
  then have "cached_as a (c\<lparr>cf_ingress := q\<rparr>)" using assms(2) by (simp add: confirm_inv_def cached_as_def)
  from resend_receive [OF this, of i w ce] assms(3,4,7-12) obtain c1 where
    r: "confirm_receive ce i (c\<lparr>cf_ingress := q\<rparr>) w = ([], c1, w)" "replying a 0 ?t0 (c1, w)" by auto
  have task: "config_confirm_task ce c w = (case confirm_transport c1 (cw_device w) of (c, d) \<Rightarrow> ([], c, w\<lparr>cw_device := d\<rparr>))"
    using assms(3-6) r(1)
    by (simp add: config_confirm_task_def confirm_drop_session_def confirm_expire_def confirm_ingress_def split: prod.splits)
  note tr = transport_replying [of c1 0 a "cw_device w"]
  show ?thesis
  proof (cases "receipt_room (pf_usb a) (cw_device w)")
    case True
    obtain d where d: "try_receipt (receipt_meta a) (pf_usb a) (cw_device w) = (True, d)"
        "receipt_added (pf_usb a) (receipt_meta a) (cw_device w) d" "dv_config d = dv_config (cw_device w)"
      using try_receipt_room [OF True, of "receipt_meta a"] by blast
    let ?c = "c1\<lparr>cf_current := (cf_current c1)\<lparr>ct_step := 1, ct_phase := REPLYING\<rparr>\<rparr>"
    have mode: "dv_config_mode_active d = dv_config_mode_active (cw_device w)"
      using d(1) by (auto simp: try_receipt_def split: prod.splits if_splits)
    have "config_confirm_task ce c w = ([], ?c, w\<lparr>cw_device := d\<rparr>)"
      using task tr r(2) d(1) by (simp add: replying_def Let_def receipt_packet_def)
    moreover have "replying a 1 ?t0 (?c, w\<lparr>cw_device := d\<rparr>)"
      using r(2) mode by (simp add: replying_def receipt_of_def Let_def)
    ultimately show ?thesis
      using d(2,3) True replying_answers(1) by (intro exI [of _ ?c] exI [of _ "w\<lparr>cw_device := d\<rparr>"]) simp
  next
    case False
    then have "try_receipt (receipt_meta a) (pf_usb a) (cw_device w) = (False, cw_device w)"
      using queues queue_level_bound [OF queues(1)] queue_level_bound [OF queues(2)]
      by (intro try_receipt_stuck) (auto simp: receipt_room_def receipt_stuck_def)
    then have "config_confirm_task ce c w = ([], c1, w)"
      using task tr r(2) by (simp add: replying_def Let_def receipt_packet_def)
    then show ?thesis
      using False replying_answers(2) [OF r(2)] by (intro exI [of _ c1] exI [of _ w]) (simp only: simp_thms if_False)
  qed
qed

definition sample_resend :: "(confirm_env \<times> confirm_event) list" where
  "sample_resend = map (Pair sample_confirm_env)
     [Usb_request sample_meta, Usb_request sample_exec, Confirm_task, Confirm_task, Confirm_task, Usb_request sample_exec]"

definition sample_resent :: "confirm_output list list \<times> confirm \<times> confirm_world" where
  "sample_resent = run_machine confirm_step (config_confirm_init, sample_confirm_world) sample_resend"

definition sample_exec_item :: confirm_item where
  "sample_exec_item = \<lparr>ci_received_us = 9, ci_data = pkt_data sample_exec, ci_usb_epoch = 0, ci_type = CONFIG_CONFIRM_EXEC_MSG, ci_usb = True\<rparr>"

lemma sample_uart_queue: "queue_ok (dv_uart_tx_queue (device_boot 0))"
  by (simp add: device_boot_def queue_init_ok)

lemma sample_resent_state:
  "case sample_resent of (os, c, w) \<Rightarrow> last_did (concat os) = Some sample_incomplete \<and> cf_initialized c \<and>
     ct_phase (cf_current c) = CONFIRM_IDLE \<and> fst (queue_try_remove (cf_ingress c)) = Some sample_exec_item \<and>
     cf_usb_epoch c = 0 \<and> dv_config_mode_active (cw_device w) \<and>
     queue_ok (dv_hid_queue_out (cw_device w)) \<and> queue_ok (dv_uart_tx_queue (cw_device w)) \<and> queue_get_level (dv_hid_queue_out (cw_device w)) < q_element_count (dv_hid_queue_out (cw_device w))"
  using sample_uart_queue by (simp add: queue_ok_def sample_resent_def sample_resend_def sample_exec_item_def sample_incomplete_def sample_run_defs last_did_def remember_def)

theorem confirm_replayed_witness:
  "\<exists>c' w'. config_confirm_task sample_confirm_env (fst (snd sample_resent)) (snd (snd sample_resent)) = ([], c', w') \<and>
     receipt_added True (receipt_meta sample_incomplete) (cw_device (snd (snd sample_resent))) (cw_device w') \<and>
     answers True 9 [receipt_value sample_incomplete] (c', w')"
proof -
  obtain os c w where s: "sample_resent = (os, c, w)" by (metis prod.exhaust)
  note st = sample_resent_state [unfolded s, simplified]
  have q: "queue_try_remove (cf_ingress c) = (Some sample_exec_item, snd (queue_try_remove (cf_ingress c)))"
    using st by (simp add: prod_eq_iff)
  have item: "(ucast (env_now (ce_env sample_confirm_env)) :: u32) - ci_received_us sample_exec_item < 2000000"
    "ci_type sample_exec_item = CONFIG_CONFIRM_EXEC_MSG" "get32 (ci_data sample_exec_item) 0 = pf_token sample_incomplete"
    "pf_token sample_incomplete \<noteq> 0" "get32 (ci_data sample_exec_item) 4 = 0" "ci_usb sample_exec_item = pf_usb sample_incomplete"
    "ci_usb_epoch sample_exec_item = 0" "ucast (env_now (ce_env sample_confirm_env)) = (9 :: u32)" "pf_usb sample_incomplete"
    by (simp_all add: sample_confirm_env_def sample_env_def sample_exec_item_def sample_exec_def sample_incomplete_def get32_def)
  have "receipt_room (pf_usb sample_incomplete) (cw_device w)" using st item(9) by (simp add: receipt_room_def)
  then show ?thesis
    using confirm_replayed [OF s [unfolded sample_resent_def] _ _ _ q, of sample_incomplete sample_confirm_env] st item
    by (auto simp: s)
qed

end
