(* ===== verification/Maintenance.thy ===== *)
theory Maintenance
  imports Keyboard_Sync
begin

text \<open>
  Entry into the boot ROM for maintenance (maintenance.c), asked for on a console of this board or by the other board, and
  the reboot into configuration mode asked for on the console. Requests reserve the board, so
  that no update starts; the board resets only from its task, after the answer has left the wire. The updater lock
  brackets are sequential here: everything runs on core 0, and the other core only adds to the ingress queue.
\<close>

unbundle bit_operations_syntax

subsection \<open>State\<close>

datatype client_phase = CLIENT_IDLE | CLIENT_LOCAL | CLIENT_ADMISSION | CLIENT_REPLY
datatype server_phase = MAINT_SERVER_IDLE | SERVER_ACK | SERVER_DRAIN

datatype maintenance_start =
    MAINTENANCE_STARTED
  | MAINTENANCE_BUSY
  | MAINTENANCE_UPDATE_ACTIVE
  | MAINTENANCE_REBOOT_PENDING
  | MAINTENANCE_BAD_ARGUMENT
  | MAINTENANCE_ALREADY_CONFIG

datatype maintenance_outcome =
    MAINTENANCE_LOCAL_READY
  | MAINTENANCE_REMOTE_ACCEPTED
  | MAINTENANCE_REMOTE_BUSY
  | MAINTENANCE_REMOTE_UPDATE_ACTIVE
  | MAINTENANCE_REMOTE_REBOOT_PENDING
  | MAINTENANCE_TIMEOUT_NOT_SENT
  | MAINTENANCE_TIMEOUT_UNCONFIRMED
  | MAINTENANCE_ABORTED

record maintenance_result =
  mr_token :: u32
  mr_target :: u8
  mr_outcome :: maintenance_outcome

record maint_item =
  mi_type :: u8
  mi_data :: bytes
  mi_received_at_us :: u64

record maintenance =
  mt_ingress :: "maint_item queue"
  mt_initialized :: bool
  mt_local_role :: u8
  mt_session_tag :: u16
  mt_client_phase :: client_phase
  mt_server_phase :: server_phase
  mt_client_payload :: bytes
  mt_server_payload :: bytes
  mt_last_request :: bytes
  mt_last_request_valid :: bool
  mt_server_accepted :: bool
  mt_local_reply_complete :: bool
  mt_server_ack_queued :: bool
  mt_server_ack_sent :: bool
  mt_client_started_us :: u64
  mt_client_sent_us :: u64
  mt_server_started_us :: u64
  mt_client_token :: u32
  mt_client_target :: u8
  mt_client_config :: bool
  mt_result :: maintenance_result
  mt_result_pending :: bool

text \<open>The fields of the global state that the service reads and the device record does not hold: whether a page is being
  served, and when the other board last asked for firmware words.\<close>

record maint_world =
  mw_device :: device
  mw_batch_tx_active :: bool
  mw_source_seen :: bool
  mw_source_last_us :: u64

text \<open>The clock and the callbacks of a pass, and whether the transmit DMA or the UART is busy.\<close>

record maint_env =
  me_env :: env
  me_wire_busy :: bool

definition expired :: "u64 \<Rightarrow> u64 \<Rightarrow> u64 \<Rightarrow> bool" where
  "expired now start timeout \<longleftrightarrow> now - start \<ge> timeout"

definition safety_locked :: "u64 \<Rightarrow> maint_world \<Rightarrow> maintenance_start" where
  "safety_locked now w =
     (let d = mw_device w in
      if dv_reboot_requested d then MAINTENANCE_REBOOT_PENDING
      else if dv_upgrade_in_progress d \<or> dv_image_dirty d \<or> mw_batch_tx_active w
        \<or> mw_source_seen w \<and> \<not> expired now (mw_source_last_us w) 3000000 then MAINTENANCE_UPDATE_ACTIVE
      else if dv_config_bootloader_peer_pending d \<or> dv_config_bootloader_local_pending d then MAINTENANCE_BUSY
      else MAINTENANCE_STARTED)"

definition update_reservation_locked :: "maintenance \<Rightarrow> maint_world \<Rightarrow> maint_world" where
  "update_reservation_locked m w = w\<lparr>mw_device := (mw_device w)\<lparr>dv_maintenance_reserved :=
     mt_client_phase m \<noteq> CLIENT_IDLE \<or> mt_server_phase m \<noteq> MAINT_SERVER_IDLE \<and> mt_server_accepted m\<rparr>\<rparr>"

definition finish_client :: "maintenance_outcome \<Rightarrow> maintenance \<Rightarrow> maint_world \<Rightarrow> maintenance \<times> maint_world" where
  "finish_client outcome m w =
     (let m = m\<lparr>mt_result := \<lparr>mr_token = mt_client_token m, mr_target = mt_client_target m, mr_outcome = outcome\<rparr>,
                mt_result_pending := True, mt_client_phase := CLIENT_IDLE, mt_client_config := False,
                mt_local_reply_complete := False\<rparr>
      in (m, update_reservation_locked m w))"

definition wire_idle :: "maint_env \<Rightarrow> maint_world \<Rightarrow> bool" where
  "wire_idle e w \<longleftrightarrow> queue_is_empty (dv_uart_tx_queue (mw_device w)) \<and> \<not> me_wire_busy e"

definition maintenance_shutdown :: "maintenance \<Rightarrow> maintenance" where
  "maintenance_shutdown m = m\<lparr>mt_initialized := False\<rparr>"

definition blank_maint_item :: maint_item where
  "blank_maint_item = \<lparr>mi_type = 0, mi_data = replicate 8 0, mi_received_at_us = 0\<rparr>"

definition maintenance_init :: "u8 \<Rightarrow> u64 \<Rightarrow> maintenance \<Rightarrow> maint_world \<Rightarrow> maintenance \<times> maint_world" where
  "maintenance_init role boot m w =
     ((maintenance_shutdown m)\<lparr>mt_local_role := role,
        mt_session_tag := ucast (boot XOR drop_bit 16 boot XOR drop_bit 32 boot XOR drop_bit 48 boot),
        mt_client_phase := CLIENT_IDLE, mt_client_config := False, mt_server_phase := MAINT_SERVER_IDLE,
        mt_result_pending := False, mt_last_request_valid := False, mt_server_accepted := False,
        mt_local_reply_complete := False, mt_server_ack_queued := False, mt_server_ack_sent := False,
        mt_ingress := queue_init blank_maint_item 8, mt_initialized := True\<rparr>,
      w\<lparr>mw_device := (mw_device w)\<lparr>dv_maintenance_reserved := False\<rparr>, mw_source_seen := False, mw_source_last_us := 0\<rparr>)"

subsection \<open>The console's side\<close>

definition request_payload :: "u8 \<Rightarrow> u32 \<Rightarrow> u16 \<Rightarrow> bytes" where
  "request_payload target token tag = [1, target] @ le32 token @ [ucast tag, ucast (drop_bit 8 tag)]"

definition request_locked :: "u8 \<Rightarrow> u32 \<Rightarrow> u64 \<Rightarrow> bool \<Rightarrow> maintenance \<Rightarrow> maint_world \<Rightarrow> maintenance \<times> maint_world" where
  "request_locked target token now config m w =
     (let m = m\<lparr>mt_client_token := token, mt_client_target := target, mt_client_config := config, mt_client_started_us := now,
                mt_local_reply_complete := False, mt_client_payload := request_payload target token (mt_session_tag m),
                mt_client_phase := if target = mt_local_role m then CLIENT_LOCAL else CLIENT_ADMISSION\<rparr>;
          w = update_reservation_locked m w
      in (if mt_client_phase m = CLIENT_LOCAL
          then m\<lparr>mt_result := \<lparr>mr_token = token, mr_target = target, mr_outcome = MAINTENANCE_LOCAL_READY\<rparr>,
                 mt_result_pending := True\<rparr> else m, w))"

definition request ::
    "u8 \<Rightarrow> u32 \<Rightarrow> u64 \<Rightarrow> bool \<Rightarrow> maintenance \<Rightarrow> maint_world \<Rightarrow> maintenance_start \<times> maintenance \<times> maint_world" where
  "request target token now config m w =
     (if \<not> mt_initialized m \<or> mt_local_role m > 1 \<or> target > 1 \<or> token = 0 then (MAINTENANCE_BAD_ARGUMENT, m, w)
      else if mt_client_phase m \<noteq> CLIENT_IDLE \<or> mt_server_phase m \<noteq> MAINT_SERVER_IDLE \<or> mt_result_pending m
        then (MAINTENANCE_BUSY, m, w)
      else if safety_locked now w \<noteq> MAINTENANCE_STARTED then (safety_locked now w, m, w)
      else if config \<and> dv_config_mode_active (mw_device w) then (MAINTENANCE_ALREADY_CONFIG, m, w)
      else (MAINTENANCE_STARTED, request_locked target token now config m w))"

definition maintenance_request ::
    "u8 \<Rightarrow> u32 \<Rightarrow> u64 \<Rightarrow> maintenance \<Rightarrow> maint_world \<Rightarrow> maintenance_start \<times> maintenance \<times> maint_world" where
  "maintenance_request target token now m w = request target token now False m w"

definition maintenance_request_config ::
    "u32 \<Rightarrow> u64 \<Rightarrow> maintenance \<Rightarrow> maint_world \<Rightarrow> maintenance_start \<times> maintenance \<times> maint_world" where
  "maintenance_request_config token now m w = request (mt_local_role m) token now True m w"

definition maintenance_poll :: "maintenance \<Rightarrow> maintenance_result option \<times> maintenance" where
  "maintenance_poll m =
     (if \<not> mt_initialized m \<or> \<not> mt_result_pending m then (None, m) else (Some (mt_result m), m\<lparr>mt_result_pending := False\<rparr>))"

definition maintenance_console_reply_complete :: "u32 \<Rightarrow> u64 \<Rightarrow> maintenance \<Rightarrow> maintenance" where
  "maintenance_console_reply_complete token now m =
     (if mt_initialized m \<and> mt_client_phase m = CLIENT_LOCAL \<and> token = mt_client_token m
          \<and> \<not> expired now (mt_client_started_us m) 3000000
      then m\<lparr>mt_local_reply_complete := True\<rparr> else m)"

definition maintenance_cancel :: "u32 \<Rightarrow> maintenance \<Rightarrow> maint_world \<Rightarrow> maintenance \<times> maint_world" where
  "maintenance_cancel token m w =
     (if \<not> mt_initialized m \<or> token = 0 \<or> token \<noteq> mt_client_token m then (m, w)
      else
        let m = m\<lparr>mt_client_phase := CLIENT_IDLE, mt_client_config := False, mt_local_reply_complete := False,
                  mt_result_pending := False\<rparr>
        in (m, update_reservation_locked m w))"

subsection \<open>Receiving\<close>

definition maintenance_receive :: "u8 \<Rightarrow> bytes \<Rightarrow> u64 \<Rightarrow> maintenance \<Rightarrow> maintenance" where
  "maintenance_receive type payload now m =
     (if \<not> mt_initialized m \<or> type \<noteq> MAINTENANCE_BOOTLOADER_REQUEST_MSG \<and> type \<noteq> MAINTENANCE_BOOTLOADER_ACK_MSG
          \<or> payload ! 0 \<noteq> 1 then m
      else m\<lparr>mt_ingress := snd (queue_try_add (mt_ingress m)
             \<lparr>mi_type = type, mi_data = payload, mi_received_at_us = now\<rparr>)\<rparr>)"

definition ack_outcome :: "u8 \<Rightarrow> maintenance_outcome" where
  "ack_outcome s = (if s = 0 then MAINTENANCE_REMOTE_ACCEPTED else if s = 1 then MAINTENANCE_REMOTE_BUSY
     else if s = 2 then MAINTENANCE_REMOTE_UPDATE_ACTIVE else MAINTENANCE_REMOTE_REBOOT_PENDING)"

definition receive_ack :: "bytes \<Rightarrow> u64 \<Rightarrow> maintenance \<Rightarrow> maint_world \<Rightarrow> maintenance \<times> maint_world" where
  "receive_ack payload now m w =
     (if mt_client_phase m \<noteq> CLIENT_REPLY \<or> payload ! 1 > 7 \<or> payload ! 1 AND 1 \<noteq> mt_client_target m
          \<or> expired now (mt_client_sent_us m) 3000000 \<or> take 6 (drop 2 payload) \<noteq> take 6 (drop 2 (mt_client_payload m))
      then (m, w) else finish_client (ack_outcome (drop_bit 1 (payload ! 1))) m w)"

definition admission_status :: "u64 \<Rightarrow> maintenance \<Rightarrow> maint_world \<Rightarrow> u8" where
  "admission_status now m w =
     (let safe = safety_locked now w in
      if mt_client_phase m = CLIENT_IDLE \<and> \<not> mt_result_pending m \<and> safe = MAINTENANCE_STARTED then 0
      else if safe = MAINTENANCE_UPDATE_ACTIVE then 2 else if safe = MAINTENANCE_REBOOT_PENDING then 3 else 1)"

definition receive_request :: "bytes \<Rightarrow> u64 \<Rightarrow> u64 \<Rightarrow> maintenance \<Rightarrow> maint_world \<Rightarrow> maintenance \<times> maint_world" where
  "receive_request payload received_at now m w =
     (if payload ! 1 \<noteq> mt_local_role m \<or> payload ! 2 OR payload ! 3 OR payload ! 4 OR payload ! 5 = 0 then (m, w)
      else if expired now received_at 250000 \<or> mt_last_request_valid m \<and> payload = mt_last_request m then (m, w)
      else if mt_server_phase m \<noteq> MAINT_SERVER_IDLE then (m, w)
      else
        let status = admission_status now m w;
            m = m\<lparr>mt_server_payload := payload[1 := payload ! 1 OR push_bit 1 status], mt_last_request := payload,
                  mt_last_request_valid := True, mt_server_phase := SERVER_ACK, mt_server_ack_queued := False,
                  mt_server_ack_sent := False, mt_server_started_us := now, mt_server_accepted := (status = 0)\<rparr>
        in (m, update_reservation_locked m w))"

primrec maint_drain :: "nat \<Rightarrow> u64 \<Rightarrow> maintenance \<Rightarrow> maint_world \<Rightarrow> maintenance \<times> maint_world" where
  "maint_drain 0 now m w = (m, w)"
| "maint_drain (Suc n) now m w =
     (case queue_try_remove (mt_ingress m) of
        (None, q) \<Rightarrow> (m, w)
      | (Some i, q) \<Rightarrow>
          case (if mi_type i = MAINTENANCE_BOOTLOADER_ACK_MSG then receive_ack (mi_data i) now (m\<lparr>mt_ingress := q\<rparr>) w
                else receive_request (mi_data i) (mi_received_at_us i) now (m\<lparr>mt_ingress := q\<rparr>) w) of
            (m, w) \<Rightarrow> maint_drain n now m w)"

subsection \<open>The task\<close>

definition server_stop :: "maintenance \<Rightarrow> maint_world \<Rightarrow> maintenance \<times> maint_world" where
  "server_stop m w = (let m = m\<lparr>mt_server_phase := MAINT_SERVER_IDLE\<rparr> in (m, update_reservation_locked m w))"

definition server_send :: "u64 \<Rightarrow> maintenance \<Rightarrow> maint_world \<Rightarrow> maintenance \<times> maint_world" where
  "server_send now m w =
     (if mt_server_phase m = SERVER_ACK then
        case queue_packet_dev (mt_server_payload m) (unat MAINTENANCE_BOOTLOADER_ACK_MSG) (mw_device w) of
          (True, d) \<Rightarrow>
            (let m = m\<lparr>mt_server_ack_queued := True, mt_server_started_us := now,
                       mt_server_phase := if mt_server_accepted m then SERVER_DRAIN else MAINT_SERVER_IDLE\<rparr>
             in (m, update_reservation_locked m (w\<lparr>mw_device := d\<rparr>)))
        | (False, d) \<Rightarrow> (m, w\<lparr>mw_device := d\<rparr>)
      else (m, w))"

definition enter_rom :: "maint_world \<Rightarrow> maint_world" where
  "enter_rom w = w\<lparr>mw_device := log_call Reset_usb_boot (mw_device w)\<rparr>"

definition service_server :: "maint_env \<Rightarrow> maintenance \<Rightarrow> maint_world \<Rightarrow> bool \<times> maintenance \<times> maint_world" where
  "service_server e m w =
     (let now = env_now (me_env e) in
      if mt_server_phase m = MAINT_SERVER_IDLE then (False, m, w)
      else if mt_server_accepted m \<and> safety_locked now w \<noteq> MAINTENANCE_STARTED then (False, server_stop m w)
      else if expired now (mt_server_started_us m) (if mt_server_phase m = SERVER_ACK then 250000 else 1000000)
        then (False, server_stop m w)
      else case server_send now m w of (m, w) \<Rightarrow>
        if mt_server_phase m = SERVER_DRAIN \<and> mt_server_ack_sent m \<and> wire_idle e w
        then (True, m\<lparr>mt_server_phase := MAINT_SERVER_IDLE\<rparr>,
              update_reservation_locked (m\<lparr>mt_server_phase := MAINT_SERVER_IDLE\<rparr>) (enter_rom w))
        else (False, m, w))"

definition maintenance_packet_allowed :: "u8 \<Rightarrow> bytes \<Rightarrow> u64 \<Rightarrow> maintenance \<Rightarrow> bool \<times> maintenance" where
  "maintenance_packet_allowed type payload now m =
     (if type \<noteq> MAINTENANCE_BOOTLOADER_REQUEST_MSG \<and> type \<noteq> MAINTENANCE_BOOTLOADER_ACK_MSG then (True, m)
      else if \<not> mt_initialized m then (False, m)
      else if type = MAINTENANCE_BOOTLOADER_REQUEST_MSG then
        (mt_client_phase m = CLIENT_REPLY \<and> payload = mt_client_payload m \<and> \<not> expired now (mt_client_sent_us m) 3000000, m)
      else if \<not> mt_server_ack_queued m \<or> payload \<noteq> mt_server_payload m
          \<or> mt_server_accepted m \<and> mt_server_phase m \<noteq> SERVER_DRAIN \<or> expired now (mt_server_started_us m) 1000000
        then (False, m)
      else (True, m\<lparr>mt_server_ack_queued := False, mt_server_ack_sent := mt_server_accepted m\<rparr>))"

definition client_local :: "maint_env \<Rightarrow> maintenance \<Rightarrow> maint_world \<Rightarrow> bool \<times> maintenance \<times> maint_world" where
  "client_local e m w =
     (if expired (env_now (me_env e)) (mt_client_started_us m) 3000000 then (False, finish_client MAINTENANCE_ABORTED m w)
      else if mt_local_reply_complete m \<and> wire_idle e w then
        let m' = m\<lparr>mt_client_phase := CLIENT_IDLE\<rparr> in
        if mt_client_config m then
          let w = update_reservation_locked m'
                (w\<lparr>mw_device := (log_call Config_mode_scratch (mw_device w))\<lparr>dv_reboot_requested := True\<rparr>\<rparr>)
          in (True, m', w\<lparr>mw_device := keyboard_focus_changed (me_env e) (mw_device w)\<rparr>)
        else (True, m', update_reservation_locked m' (enter_rom w))
      else (False, m, w))"

definition client_remote :: "maint_env \<Rightarrow> maintenance \<Rightarrow> maint_world \<Rightarrow> bool \<times> maintenance \<times> maint_world" where
  "client_remote e m w =
     (let now = env_now (me_env e);
          late = (\<lambda>m w. if mt_client_phase m = CLIENT_REPLY \<and> expired now (mt_client_sent_us m) 3000000
                        then (False, finish_client MAINTENANCE_TIMEOUT_UNCONFIRMED m w) else (False, m, w))
      in
      if mt_client_phase m = CLIENT_ADMISSION then
        if expired now (mt_client_started_us m) 250000 then (False, finish_client MAINTENANCE_TIMEOUT_NOT_SENT m w)
        else case queue_packet_dev (mt_client_payload m) (unat MAINTENANCE_BOOTLOADER_REQUEST_MSG) (mw_device w) of
          (True, d) \<Rightarrow> late (m\<lparr>mt_client_phase := CLIENT_REPLY, mt_client_sent_us := now\<rparr>) (w\<lparr>mw_device := d\<rparr>)
        | (False, d) \<Rightarrow> late m (w\<lparr>mw_device := d\<rparr>)
      else late m w)"

definition client_task :: "maint_env \<Rightarrow> maintenance \<Rightarrow> maint_world \<Rightarrow> bool \<times> maintenance \<times> maint_world" where
  "client_task e m w =
     (if mt_client_phase m = CLIENT_IDLE then (False, m, w)
      else if safety_locked (env_now (me_env e)) w \<noteq> MAINTENANCE_STARTED then
        (False, finish_client (if mt_client_phase m = CLIENT_REPLY then MAINTENANCE_TIMEOUT_UNCONFIRMED else MAINTENANCE_ABORTED) m w)
      else if mt_client_phase m = CLIENT_LOCAL then client_local e m w
      else client_remote e m w)"

definition maintenance_task :: "maint_env \<Rightarrow> maintenance \<Rightarrow> maint_world \<Rightarrow> bool \<times> maintenance \<times> maint_world" where
  "maintenance_task e m w =
     (if \<not> mt_initialized m then (False, m, w)
      else case maint_drain 8 (env_now (me_env e)) m w of (m, w) \<Rightarrow>
        case service_server e m w of
          (True, m, w) \<Rightarrow> (True, m, w)
        | (False, m, w) \<Rightarrow> client_task e m w)"

subsection \<open>Events\<close>

text \<open>What happens to the service. The other components change the world as they like, except that only the service
  writes the reservation. The result of a step is whether a packet may leave, or whether a pass resets the board.\<close>

datatype maint_event =
    Console_request u8 u32
  | Console_config u32
  | Console_poll
  | Console_replied u32
  | Console_cancel u32
  | Wire_received u8 bytes
  | Wire_sending u8 bytes
  | Maint_pass
  | Other_changes maint_world

fun maint_step :: "maintenance \<times> maint_world \<Rightarrow> maint_env \<times> maint_event \<Rightarrow> bool \<times> (maintenance \<times> maint_world)" where
  "maint_step (m, w) (e, Console_request target token) =
     (False, snd (maintenance_request target token (env_now (me_env e)) m w))"
| "maint_step (m, w) (e, Console_config token) = (False, snd (maintenance_request_config token (env_now (me_env e)) m w))"
| "maint_step (m, w) (e, Console_poll) = (False, snd (maintenance_poll m), w)"
| "maint_step (m, w) (e, Console_replied token) = (False, maintenance_console_reply_complete token (env_now (me_env e)) m, w)"
| "maint_step (m, w) (e, Console_cancel token) = (False, maintenance_cancel token m w)"
| "maint_step (m, w) (e, Wire_received type p) = (False, maintenance_receive type p (env_now (me_env e)) m, w)"
| "maint_step (m, w) (e, Wire_sending type p) =
     (case maintenance_packet_allowed type p (env_now (me_env e)) m of (ok, m) \<Rightarrow> (ok, m, w))"
| "maint_step (m, w) (e, Maint_pass) = maintenance_task e m w"
| "maint_step (m, w) (e, Other_changes v) = (False, m, v\<lparr>mw_device := (mw_device v)
     \<lparr>dv_maintenance_reserved := dv_maintenance_reserved (mw_device w)\<rparr>\<rparr>)"

type_synonym maint_history = "(maint_event \<times> bool) list"

text \<open>The other board asked, and then an acceptance of that request left over the wire.\<close>

definition asked :: "maint_history \<Rightarrow> bytes \<Rightarrow> bool" where
  "asked H p \<longleftrightarrow> (\<exists>b. (Wire_received MAINTENANCE_BOOTLOADER_REQUEST_MSG p, b) \<in> set H)"

definition acked :: "maint_history \<Rightarrow> bytes \<Rightarrow> bool" where
  "acked H p \<longleftrightarrow> (\<exists>xs ys. H = xs @ (Wire_sending MAINTENANCE_BOOTLOADER_ACK_MSG p, True) # ys \<and> asked xs p)"

text \<open>The console asked, and then its reply had left in full.\<close>

definition console_asked :: "maint_history \<Rightarrow> u8 \<Rightarrow> u32 \<Rightarrow> bool \<Rightarrow> bool" where
  "console_asked H role token config \<longleftrightarrow>
     (\<exists>b. (if config then Console_config token else Console_request role token, b) \<in> set H)"

definition told :: "maint_history \<Rightarrow> u8 \<Rightarrow> u32 \<Rightarrow> bool \<Rightarrow> bool" where
  "told H role token config \<longleftrightarrow>
     (\<exists>b xs ys. H = xs @ (Console_replied token, b) # ys \<and> console_asked xs role token config)"

lemma after_snoc: "\<exists>xs ys. H = xs @ e # ys \<and> P xs \<Longrightarrow> \<exists>xs ys. H @ [x] = xs @ e # ys \<and> P xs"
  by (metis append_Cons append_assoc)

lemma asked_snoc: "asked H p \<Longrightarrow> asked (H @ [x]) p"
  and console_asked_snoc: "console_asked H role token config \<Longrightarrow> console_asked (H @ [x]) role token config"
  by (auto simp: asked_def console_asked_def)

lemma acked_snoc: "acked H p \<Longrightarrow> acked (H @ [x]) p"
  unfolding acked_def by (rule after_snoc)

lemma told_snoc: "told H role token config \<Longrightarrow> told (H @ [x]) role token config"
proof -
  assume "told H role token config"
  then obtain b where "\<exists>xs ys. H = xs @ (Console_replied token, b) # ys \<and> console_asked xs role token config"
    unfolding told_def ..
  from after_snoc [OF this] show ?thesis unfolding told_def ..
qed

lemmas history_snoc = asked_snoc console_asked_snoc acked_snoc told_snoc

lemma asked_now: "asked (H @ [(Wire_received MAINTENANCE_BOOTLOADER_REQUEST_MSG p, b)]) p"
  and console_asked_now: "console_asked (H @ [(Console_request role token, b)]) role token False"
    "console_asked (H @ [(Console_config token, b)]) role token True"
  by (auto simp: asked_def console_asked_def)

lemma acked_now: "asked H p \<Longrightarrow> acked (H @ [(Wire_sending MAINTENANCE_BOOTLOADER_ACK_MSG p, True)]) p"
  unfolding acked_def by blast

lemma told_now: "console_asked H role token config \<Longrightarrow> told (H @ [(Console_replied token, b)]) role token config"
  unfolding told_def by blast

subsection \<open>Invariant\<close>

definition ingress_ok :: "maint_history \<Rightarrow> maint_item queue \<Rightarrow> bool" where
  "ingress_ok H q \<longleftrightarrow> queue_ok q \<and>
     (\<forall>i \<in> set (queue_items q). mi_type i = MAINTENANCE_BOOTLOADER_ACK_MSG \<or> asked H (mi_data i))"

definition server_ok :: "maint_history \<Rightarrow> maintenance \<Rightarrow> bool" where
  "server_ok H m \<longleftrightarrow>
     (mt_server_phase m \<noteq> MAINT_SERVER_IDLE \<and> mt_server_accepted m \<longrightarrow>
        asked H (mt_server_payload m) \<and> mt_server_payload m ! 1 = mt_local_role m \<and>
        (mt_server_ack_sent m \<longrightarrow> acked H (mt_server_payload m))) \<and>
     (mt_server_phase m = SERVER_DRAIN \<longrightarrow> mt_server_accepted m) \<and> (mt_server_phase m = SERVER_ACK \<longrightarrow> \<not> mt_server_ack_sent m)"

definition client_ok :: "maint_history \<Rightarrow> maintenance \<Rightarrow> bool" where
  "client_ok H m \<longleftrightarrow>
     (mt_client_phase m = CLIENT_LOCAL \<longrightarrow>
        console_asked H (mt_local_role m) (mt_client_token m) (mt_client_config m) \<and>
        (mt_local_reply_complete m \<longrightarrow> told H (mt_local_role m) (mt_client_token m) (mt_client_config m)))"

definition reserved_ok :: "maintenance \<Rightarrow> maint_world \<Rightarrow> bool" where
  "reserved_ok m w \<longleftrightarrow> (dv_maintenance_reserved (mw_device w) \<longleftrightarrow>
     mt_client_phase m \<noteq> CLIENT_IDLE \<or> mt_server_phase m \<noteq> MAINT_SERVER_IDLE \<and> mt_server_accepted m)"

definition maint_inv :: "u8 \<Rightarrow> maint_history \<Rightarrow> maintenance \<times> maint_world \<Rightarrow> bool" where
  "maint_inv role H s \<longleftrightarrow> (case s of (m, w) \<Rightarrow>
     mt_local_role m = role \<and> ingress_ok H (mt_ingress m) \<and> server_ok H m \<and> client_ok H m \<and> reserved_ok m w)"

lemmas maint_parts = maint_inv_def server_ok_def client_ok_def reserved_ok_def

text \<open>The world differs at most in the reservation, as far as entry into the ROM is concerned.\<close>

definition same_world :: "maint_world \<Rightarrow> maint_world \<Rightarrow> bool" where
  "same_world w v \<longleftrightarrow> (\<exists>r. v = w\<lparr>mw_device := (mw_device w)\<lparr>dv_maintenance_reserved := r\<rparr>\<rparr>)"

lemma same_world_refl: "same_world w w"
  unfolding same_world_def by (rule exI [of _ "dv_maintenance_reserved (mw_device w)"]) simp

lemma same_world_trans: "same_world w v \<Longrightarrow> same_world v u \<Longrightarrow> same_world w u"
  by (auto simp: same_world_def)

lemma same_world_update: "same_world w (update_reservation_locked m w)"
  by (auto simp: same_world_def update_reservation_locked_def)

lemma same_worldD:
  assumes "same_world w v"
  shows "safety_locked now v = safety_locked now w" "wire_idle e v = wire_idle e w" "dv_calls (mw_device v) = dv_calls (mw_device w)"
proof -
  obtain r where v: "v = w\<lparr>mw_device := (mw_device w)\<lparr>dv_maintenance_reserved := r\<rparr>\<rparr>"
    using assms unfolding same_world_def by blast
  show "safety_locked now v = safety_locked now w" "wire_idle e v = wire_idle e w" "dv_calls (mw_device v) = dv_calls (mw_device w)"
    by (simp_all add: v safety_locked_def wire_idle_def Let_def)
qed

lemma update_reserved_ok: "reserved_ok m (update_reservation_locked m w)"
  by (simp add: reserved_ok_def update_reservation_locked_def)

lemma finish_client_inv:
  "maint_inv role H (m, w) \<Longrightarrow> maint_inv role H (finish_client outcome m w)"
  by (simp add: finish_client_def Let_def maint_inv_def update_reserved_ok) (simp add: server_ok_def client_ok_def)

lemma finish_client_world: "same_world w (snd (finish_client outcome m w))"
  by (simp add: finish_client_def Let_def same_world_update)

lemma receive_ack_inv: "maint_inv role H (m, w) \<Longrightarrow> maint_inv role H (receive_ack p now m w)"
  by (simp add: receive_ack_def finish_client_inv)

lemma receive_ack_world: "same_world w (snd (receive_ack p now m w))"
  by (simp add: receive_ack_def finish_client_world same_world_refl)

lemma list_update_same: "xs ! i = x \<Longrightarrow> xs[i := x] = xs"
  by auto

lemma receive_request_inv:
  assumes "maint_inv role H (m, w)" "asked H p"
  shows "maint_inv role H (receive_request p at now m w)"
proof (cases "receive_request p at now m w = (m, w)")
  case False
  then show ?thesis
    using assms
    by (simp add: receive_request_def Let_def maint_inv_def update_reserved_ok split: if_splits)
      (simp add: server_ok_def client_ok_def list_update_same)
qed (use assms in simp)

lemma receive_request_world: "same_world w (snd (receive_request p at now m w))"
  by (simp add: receive_request_def Let_def same_world_update same_world_refl)

lemma ingress_take:
  assumes "ingress_ok H q" "queue_try_remove q = (Some i, q')"
  shows "ingress_ok H q'" "mi_type i = MAINTENANCE_BOOTLOADER_ACK_MSG \<or> asked H (mi_data i)"
proof -
  have ok: "queue_ok q" using assms(1) by (simp add: ingress_ok_def)
  show "ingress_ok H q'" "mi_type i = MAINTENANCE_BOOTLOADER_ACK_MSG \<or> asked H (mi_data i)"
  proof (atomize(full), cases "queue_items q")
    case Nil
    with pico_queue.remove_empty [OF ok] assms(2) show "ingress_ok H q' \<and>
      (mi_type i = MAINTENANCE_BOOTLOADER_ACK_MSG \<or> asked H (mi_data i))" by simp
  next
    case (Cons x xs)
    with pico_queue.remove_first [OF ok Cons] assms show "ingress_ok H q' \<and>
      (mi_type i = MAINTENANCE_BOOTLOADER_ACK_MSG \<or> asked H (mi_data i))" by (auto simp: ingress_ok_def)
  qed
qed

lemma drain_inv:
  "maint_inv role H (m, w) \<Longrightarrow> maint_inv role H (maint_drain n now m w) \<and> same_world w (snd (maint_drain n now m w))"
proof (induction n arbitrary: m w)
  case 0
  then show ?case by (simp add: same_world_refl)
next
  case (Suc n)
  obtain i q where r: "queue_try_remove (mt_ingress m) = (i, q)" by fastforce
  show ?case
  proof (cases i)
    case None
    with r Suc.prems show ?thesis by (simp add: same_world_refl)
  next
    case (Some x)
    let ?m = "m\<lparr>mt_ingress := q\<rparr>"
    let ?s = "if mi_type x = MAINTENANCE_BOOTLOADER_ACK_MSG then receive_ack (mi_data x) now ?m w
                else receive_request (mi_data x) (mi_received_at_us x) now ?m w"
    have "ingress_ok H (mt_ingress m)" using Suc.prems by (simp add: maint_inv_def)
    note t = ingress_take [OF this r [unfolded Some]]
    have "maint_inv role H (?m, w)" using Suc.prems t(1) by (auto simp: maint_parts)
    then have s: "maint_inv role H ?s" "same_world w (snd ?s)"
      using t(2) by (auto simp: receive_ack_inv receive_ack_world receive_request_inv receive_request_world)
    obtain m1 w1 where s1: "?s = (m1, w1)" by fastforce
    have "maint_drain (Suc n) now m w = maint_drain n now m1 w1" using r Some s1 by (simp split: if_splits)
    then show ?thesis using Suc.IH [of m1 w1] s unfolding s1 by (simp add: same_world_trans)
  qed
qed

text \<open>The server's part of a pass: it resets the board only after the acceptance left, over an idle wire and in safety.\<close>

lemma server_stop_inv: "maint_inv role H (m, w) \<Longrightarrow> maint_inv role H (server_stop m w)"
  by (simp add: server_stop_def Let_def maint_inv_def update_reserved_ok) (auto simp: server_ok_def client_ok_def)

lemma queue_packet_dev_calls:
  "queue_packet_dev data t d = (ok, d') \<Longrightarrow> dv_calls d' = dv_calls d \<and> dv_maintenance_reserved d' = dv_maintenance_reserved d"
  using queue_packet_dev_frame by fastforce

lemma server_send_inv:
  assumes "maint_inv role H (m, w)" "server_send now m w = (m', w')"
  shows "maint_inv role H (m', w')" "dv_calls (mw_device w') = dv_calls (mw_device w)"
    "mt_server_ack_sent m' = mt_server_ack_sent m" "mt_server_accepted m' = mt_server_accepted m"
    "mt_server_payload m' = mt_server_payload m" "mt_server_phase m = SERVER_DRAIN \<Longrightarrow> m' = m \<and> w' = w"
proof -
  obtain ok d where q: "queue_packet_dev (mt_server_payload m) (unat MAINTENANCE_BOOTLOADER_ACK_MSG) (mw_device w) = (ok, d)"
    by fastforce
  note f = queue_packet_dev_calls [OF q]
  consider (skip) "mt_server_phase m \<noteq> SERVER_ACK" "m' = m" "w' = w"
    | (full) "m' = m" "w' = w\<lparr>mw_device := d\<rparr>" "mt_server_phase m = SERVER_ACK"
    | (sent) "m' = m\<lparr>mt_server_ack_queued := True, mt_server_started_us := now,
        mt_server_phase := if mt_server_accepted m then SERVER_DRAIN else MAINT_SERVER_IDLE\<rparr>"
        "w' = update_reservation_locked m' (w\<lparr>mw_device := d\<rparr>)" "mt_server_phase m = SERVER_ACK"
  proof (cases "mt_server_phase m = SERVER_ACK")
    case False
    with assms(2) show thesis by (intro skip) (simp_all add: server_send_def)
  next
    case True
    show thesis
    proof (cases ok)
      case ok: True
      with True assms(2) q show thesis by (intro sent) (auto simp: server_send_def Let_def)
    next
      case no: False
      with True assms(2) q show thesis by (intro full) (simp_all add: server_send_def)
    qed
  qed
  note c = this
  show "maint_inv role H (m', w')"
    using c
  proof cases
    case sent
    then show ?thesis using assms(1) by (simp add: maint_inv_def update_reserved_ok) (auto simp: server_ok_def client_ok_def)
  qed (use assms(1) f in \<open>auto simp: maint_inv_def reserved_ok_def\<close>)
  show "dv_calls (mw_device w') = dv_calls (mw_device w)"
    using c f by cases (simp_all add: update_reservation_locked_def)
  show "mt_server_ack_sent m' = mt_server_ack_sent m" using c by cases simp_all
  show "mt_server_accepted m' = mt_server_accepted m" using c by cases simp_all
  show "mt_server_payload m' = mt_server_payload m" using c by cases simp_all
  show "m' = m \<and> w' = w" if "mt_server_phase m = SERVER_DRAIN" using c that by cases simp_all
qed

definition entered_rom :: "maint_world \<Rightarrow> maint_world \<Rightarrow> bool" where
  "entered_rom w w' \<longleftrightarrow> dv_calls (mw_device w') = dv_calls (mw_device w) @ [Reset_usb_boot]"

definition may_enter :: "maint_env \<Rightarrow> maint_world \<Rightarrow> bool" where
  "may_enter e w \<longleftrightarrow> safety_locked (env_now (me_env e)) w = MAINTENANCE_STARTED"

lemma service_server_inv:
  assumes inv: "maint_inv role H (m, w)" and s: "service_server e m w = (reset, m', w')"
  shows "maint_inv role H (m', w') \<and> (\<not> reset \<longrightarrow> dv_calls (mw_device w') = dv_calls (mw_device w)) \<and>
    (reset \<longrightarrow> may_enter e w \<and> wire_idle e w' \<and> entered_rom w w' \<and> (\<exists>p. acked H p \<and> p ! 1 = role))"
proof -
  define now where "now = env_now (me_env e)"
  obtain m1 w1 where d: "server_send now m w = (m1, w1)" by fastforce
  note d' = server_send_inv [OF inv d]
  have stop: "dv_calls (mw_device (snd (server_stop m w))) = dv_calls (mw_device w)"
    by (simp add: server_stop_def update_reservation_locked_def Let_def)
  consider (idle) "reset = False" "m' = m" "w' = w" | (stopped) "reset = False" "(m', w') = server_stop m w"
    | (on) "\<not> (mt_server_accepted m \<and> safety_locked now w \<noteq> MAINTENANCE_STARTED)" "mt_server_phase m \<noteq> MAINT_SERVER_IDLE"
        "(if mt_server_phase m1 = SERVER_DRAIN \<and> mt_server_ack_sent m1 \<and> wire_idle e w1
        then (True, m1\<lparr>mt_server_phase := MAINT_SERVER_IDLE\<rparr>,
              update_reservation_locked (m1\<lparr>mt_server_phase := MAINT_SERVER_IDLE\<rparr>) (enter_rom w1))
        else (False, m1, w1)) = (reset, m', w')"
    using s unfolding service_server_def Let_def now_def [symmetric] d
    by (cases "mt_server_phase m = MAINT_SERVER_IDLE"; cases "mt_server_accepted m \<and> safety_locked now w \<noteq> MAINTENANCE_STARTED";
        cases "expired now (mt_server_started_us m) (if mt_server_phase m = SERVER_ACK then 250000 else 1000000)") auto
  then show ?thesis
  proof cases
    case idle
    with inv show ?thesis by simp
  next
    case stopped
    with server_stop_inv [OF inv] stop show ?thesis by (metis snd_conv)
  next
    case on
    show ?thesis
    proof (cases "mt_server_phase m1 = SERVER_DRAIN \<and> mt_server_ack_sent m1 \<and> wire_idle e w1")
      case False
      from on(3) [unfolded if_not_P [OF False]] d'(1,2) show ?thesis by simp
    next
      case True
      have "mt_server_phase m = SERVER_DRAIN"
        using True d'(3) inv on(2) by (cases "mt_server_phase m") (simp_all add: maint_inv_def server_ok_def)
      with d'(6) have eq: "m1 = m" "w1 = w" by simp_all
      have acc: "mt_server_accepted m" "acked H (mt_server_payload m)" "mt_server_payload m ! 1 = role"
        using inv True on(2) unfolding eq by (auto simp: maint_inv_def server_ok_def)
      have r: "reset" "m' = m\<lparr>mt_server_phase := MAINT_SERVER_IDLE\<rparr>"
        "w' = update_reservation_locked (m\<lparr>mt_server_phase := MAINT_SERVER_IDLE\<rparr>) (enter_rom w)"
        using on(3) True unfolding eq by auto
      have "maint_inv role H (m', w')"
        using inv unfolding r by (simp add: maint_inv_def update_reserved_ok) (auto simp: server_ok_def client_ok_def)
      moreover have "entered_rom w w'"
        by (simp add: r entered_rom_def update_reservation_locked_def enter_rom_def log_call_def)
      moreover have "may_enter e w" using on(1) acc(1) by (simp add: may_enter_def now_def)
      moreover have "wire_idle e w'"
        using True eq by (simp add: r wire_idle_def update_reservation_locked_def enter_rom_def log_call_def)
      ultimately show ?thesis using acc r(1) by blast
    qed
  qed
qed

text \<open>The client's part of a pass.\<close>

definition reserve_flags :: "device \<Rightarrow> bool \<times> bool" where
  "reserve_flags d = (dv_maintenance_reserved d, dv_reboot_requested d)"

lemma reserve_flags_packet: "reserve_flags (queue_packet data t d) = reserve_flags d"
  using queue_packet_frame [of data t d] by (auto simp: reserve_flags_def)

lemma reserve_flags_focus:
  "reserve_flags (keyboard_focus_changed e d) = reserve_flags d"
proof -
  have a: "reserve_flags (keyboard_host_reset d) = reserve_flags d" for d
    by (simp add: keyboard_host_reset_def reserve_flags_def log_call_def)
  have b: "reserve_flags (keyboard_sync_publish d) = reserve_flags d" for d
    by (simp add: keyboard_sync_publish_def reserve_flags_def Let_def split: prod.splits)
  have c: "reserve_flags (publish_local_modifiers d) = reserve_flags d" for d
    by (simp add: publish_local_modifiers_def send_value_def reserve_flags_packet Let_def) (simp add: reserve_flags_def)
  have q: "reserve_flags (queue_kbd_report r d) = reserve_flags d" for r d
    by (simp add: queue_kbd_report_def reserve_flags_def Let_def split: prod.splits bool.splits)
  have r: "reserve_flags (keyboard_sync_reset e d) = reserve_flags d" for d
    by (simp add: keyboard_sync_reset_def reserve_flags_def Let_def)
  have z: "reserve_flags (d\<lparr>dv_local_kbd_states := x, dv_remote_kbd_state := y\<rparr>) = reserve_flags d" for x y d
    by (simp add: reserve_flags_def)
  show ?thesis by (simp add: keyboard_focus_changed_def release_all_keys_def Let_def a b c q r z)
qed

definition entry_reason :: "u8 \<Rightarrow> maint_history \<Rightarrow> maint_env \<Rightarrow> maint_world \<Rightarrow> maint_world \<Rightarrow> bool" where
  "entry_reason role H e w w' \<longleftrightarrow>
     entered_rom w w' \<and> wire_idle e w' \<and> ((\<exists>p. acked H p \<and> p ! 1 = role) \<or> (\<exists>token. told H role token False)) \<or>
     dv_reboot_requested (mw_device w') \<and> (\<exists>token. told H role token True)"

definition pass_ok :: "u8 \<Rightarrow> maint_history \<Rightarrow> maint_env \<Rightarrow> maint_world \<Rightarrow> bool \<times> maintenance \<times> maint_world \<Rightarrow> bool" where
  "pass_ok role H e w r \<longleftrightarrow> (case r of (reset, m', w') \<Rightarrow> maint_inv role H (m', w') \<and>
     (\<not> reset \<longrightarrow> dv_calls (mw_device w') = dv_calls (mw_device w)) \<and> (reset \<longrightarrow> may_enter e w \<and> entry_reason role H e w w'))"

lemma finish_pass:
  "maint_inv role H (m, w) \<Longrightarrow> pass_ok role H e w (False, finish_client outcome m w)"
  using finish_client_inv [of role H m w outcome] same_worldD(3) [OF finish_client_world [of w outcome m]]
  by (auto simp: pass_ok_def split: prod.splits)

lemma quiet_pass: "maint_inv role H (m, w) \<Longrightarrow> pass_ok role H e w (False, m, w)"
  by (simp add: pass_ok_def)

lemma client_local_ok:
  assumes inv: "maint_inv role H (m, w)" and l: "mt_client_phase m = CLIENT_LOCAL"
    and safe: "safety_locked (env_now (me_env e)) w = MAINTENANCE_STARTED"
  shows "pass_ok role H e w (client_local e m w)"
proof (cases "\<not> expired (env_now (me_env e)) (mt_client_started_us m) 3000000 \<and> mt_local_reply_complete m \<and> wire_idle e w")
  case False
  then show ?thesis by (auto simp: client_local_def finish_pass [OF inv] quiet_pass [OF inv])
next
  case True
  define m' where "m' = m\<lparr>mt_client_phase := CLIENT_IDLE\<rparr>"
  have told: "told H role (mt_client_token m) (mt_client_config m)"
    using inv l True by (auto simp: maint_inv_def client_ok_def)
  have may: "may_enter e w" using safe by (simp add: may_enter_def)
  have parts: "mt_local_role m' = role" "ingress_ok H (mt_ingress m')" "server_ok H m'" "client_ok H m'"
    using inv by (auto simp: maint_inv_def m'_def server_ok_def client_ok_def)
  show ?thesis
  proof (cases "mt_client_config m")
    case config: True
    define v where "v = update_reservation_locked m'
      (w\<lparr>mw_device := (log_call Config_mode_scratch (mw_device w))\<lparr>dv_reboot_requested := True\<rparr>\<rparr>)"
    define v' where "v' = v\<lparr>mw_device := keyboard_focus_changed (me_env e) (mw_device v)\<rparr>"
    have c: "client_local e m w = (True, m', v')"
      using True config by (simp add: client_local_def m'_def v_def v'_def Let_def)
    have flags: "reserve_flags (mw_device v') = reserve_flags (mw_device v)" by (simp add: v'_def reserve_flags_focus)
    have "reserved_ok m' v" by (simp add: v_def update_reserved_ok)
    then have "reserved_ok m' v'" using flags by (simp add: reserved_ok_def reserve_flags_def)
    moreover have "dv_reboot_requested (mw_device v')"
      using flags by (simp add: v_def update_reservation_locked_def reserve_flags_def)
    ultimately show ?thesis using parts may told config unfolding c by (auto simp: pass_ok_def maint_inv_def entry_reason_def)
  next
    case rom: False
    have c: "client_local e m w = (True, m', update_reservation_locked m' (enter_rom w))"
      using True rom by (simp add: client_local_def m'_def Let_def)
    have "entered_rom w (update_reservation_locked m' (enter_rom w))" "wire_idle e (update_reservation_locked m' (enter_rom w))"
      using True by (simp_all add: entered_rom_def wire_idle_def update_reservation_locked_def enter_rom_def log_call_def)
    then show ?thesis
      using parts may told rom update_reserved_ok unfolding c by (auto simp: pass_ok_def maint_inv_def entry_reason_def)
  qed
qed

lemma client_remote_ok:
  assumes inv: "maint_inv role H (m, w)" and l: "mt_client_phase m \<noteq> CLIENT_IDLE"
  shows "pass_ok role H e w (client_remote e m w)"
proof -
  define now where "now = env_now (me_env e)"
  define late where "late = (\<lambda>m w. if mt_client_phase m = CLIENT_REPLY \<and> expired now (mt_client_sent_us m) 3000000
                        then (False, finish_client MAINTENANCE_TIMEOUT_UNCONFIRMED m w) else (False, m, w))"
  have late: "pass_ok role H e w (late m v)" if "maint_inv role H (m, v)" "dv_calls (mw_device v) = dv_calls (mw_device w)" for m v
    using finish_pass [OF that(1), of e MAINTENANCE_TIMEOUT_UNCONFIRMED] quiet_pass [OF that(1), of e] that(2)
    by (auto simp: late_def pass_ok_def)
  obtain ok d where q: "queue_packet_dev (mt_client_payload m) (unat MAINTENANCE_BOOTLOADER_REQUEST_MSG) (mw_device w) = (ok, d)"
    by fastforce
  note f = queue_packet_dev_calls [OF q]
  have eq: "client_remote e m w = (if mt_client_phase m = CLIENT_ADMISSION then
      if expired now (mt_client_started_us m) 250000 then (False, finish_client MAINTENANCE_TIMEOUT_NOT_SENT m w)
      else if ok then late (m\<lparr>mt_client_phase := CLIENT_REPLY, mt_client_sent_us := now\<rparr>) (w\<lparr>mw_device := d\<rparr>)
      else late m (w\<lparr>mw_device := d\<rparr>) else late m w)"
    using q by (cases ok) (simp_all add: client_remote_def now_def [symmetric] late_def Let_def)
  have i1: "maint_inv role H (m\<lparr>mt_client_phase := CLIENT_REPLY, mt_client_sent_us := now\<rparr>, w\<lparr>mw_device := d\<rparr>)"
    using inv f l by (auto simp: maint_parts)
  have i2: "maint_inv role H (m, w\<lparr>mw_device := d\<rparr>)" using inv f by (simp add: maint_inv_def reserved_ok_def)
  show ?thesis unfolding eq using late [OF i1] late [OF i2] late [OF inv] finish_pass [OF inv] f by simp
qed

lemma client_task_ok: "maint_inv role H (m, w) \<Longrightarrow> pass_ok role H e w (client_task e m w)"
  by (simp add: client_task_def quiet_pass finish_pass client_local_ok client_remote_ok)

lemma server_world:
  assumes "service_server e m w = (False, m', w')"
  shows "safety_locked now w' = safety_locked now w"
proof -
  have p: "safety_locked now (w\<lparr>mw_device := d\<rparr>) = safety_locked now w"
    if "queue_packet_dev x t (mw_device w) = (ok, d)" for x t ok d
    using queue_packet_dev_frame [OF that] by (auto simp: safety_locked_def)
  have u: "safety_locked now (update_reservation_locked m w) = safety_locked now w" for m w
    by (rule same_worldD(1) [OF same_world_update])
  have "safety_locked now (snd (server_send t m w)) = safety_locked now w" for t
    using p by (auto simp: server_send_def Let_def u split: prod.splits bool.splits)
  then show ?thesis
    using assms
    by (auto simp: service_server_def server_stop_def u Let_def split: if_splits prod.splits) (metis snd_conv)+
qed

lemma task_ok:
  assumes inv: "maint_inv role H (m, w)"
  shows "pass_ok role H e w (maintenance_task e m w)"
proof (cases "mt_initialized m")
  case False
  then show ?thesis using inv by (simp add: maintenance_task_def quiet_pass)
next
  case True
  obtain m1 w1 where d: "maint_drain 8 (env_now (me_env e)) m w = (m1, w1)" by fastforce
  with drain_inv [OF inv, of 8 "env_now (me_env e)"] have i1: "maint_inv role H (m1, w1)" and sw: "same_world w w1" by simp_all
  note same = same_worldD [OF sw]
  obtain r m2 w2 where s: "service_server e m1 w1 = (r, m2, w2)" by (metis prod_cases3)
  note srv = service_server_inv [OF i1 s]
  show ?thesis
  proof (cases r)
    case r: True
    with True d s have "maintenance_task e m w = (True, m2, w2)" by (simp add: maintenance_task_def)
    with srv r show ?thesis by (auto simp: pass_ok_def may_enter_def entry_reason_def entered_rom_def same)
  next
    case r: False
    with True d s have t: "maintenance_task e m w = client_task e m2 w2" by (simp add: maintenance_task_def)
    from s r have s': "service_server e m1 w1 = (False, m2, w2)" by simp
    have "pass_ok role H e w2 (client_task e m2 w2)" using srv by (intro client_task_ok) simp
    moreover have "dv_calls (mw_device w2) = dv_calls (mw_device w)" using srv r same by simp
    moreover have "may_enter e w2 = may_enter e w" using server_world [OF s'] same by (simp add: may_enter_def)
    ultimately show ?thesis unfolding t by (auto simp: pass_ok_def entry_reason_def entered_rom_def)
  qed
qed

text \<open>Every event keeps the invariant, with the event and its result added to the history.\<close>

lemma inv_snoc: "maint_inv role H s \<Longrightarrow> maint_inv role (H @ [x]) s"
  by (auto simp: maint_parts ingress_ok_def intro: history_snoc)

lemma request_inv:
  assumes "maint_inv role H (m, w)" "config \<longrightarrow> target = mt_local_role m"
    "x = (if config then Console_config token else Console_request target token, b)"
  shows "maint_inv role (H @ [x]) (snd (request target token now config m w))"
proof (cases "snd (request target token now config m w) = (m, w)")
  case True
  then show ?thesis using inv_snoc [OF assms(1)] by simp
next
  case False
  let ?r = "request_locked target token now config m w"
  have r: "snd (request target token now config m w) = ?r" "mt_server_phase m = MAINT_SERVER_IDLE"
    using False by (auto simp: request_def split: if_splits)
  have "mt_local_role (fst ?r) = role" "ingress_ok (H @ [x]) (mt_ingress (fst ?r))" "server_ok (H @ [x]) (fst ?r)"
    using inv_snoc [OF assms(1), of x] by (auto simp: request_locked_def Let_def maint_inv_def server_ok_def)
  moreover have "console_asked (H @ [x]) target token config"
    using console_asked_now [where H = H and token = token and b = b and role = target] by (cases config) (simp_all add: assms(3))
  then have "client_ok (H @ [x]) (fst ?r)" by (auto simp: request_locked_def Let_def client_ok_def)
  moreover have "reserved_ok (fst ?r) (snd ?r)"
    using r(2) by (auto simp: request_locked_def Let_def reserved_ok_def update_reservation_locked_def)
  ultimately show ?thesis unfolding r(1) by (cases ?r) (simp add: maint_inv_def)
qed

lemma receive_inv:
  assumes "maint_inv role H (m, w)"
  shows "maint_inv role (H @ [(Wire_received type p, b)]) (maintenance_receive type p now m, w)"
proof (cases "maintenance_receive type p now m = m")
  case True
  then show ?thesis using inv_snoc [OF assms] by simp
next
  case False
  let ?i = "\<lparr>mi_type = type, mi_data = p, mi_received_at_us = now\<rparr>" and ?x = "(Wire_received type p, b)"
  let ?q = "snd (queue_try_add (mt_ingress m) ?i)"
  have ok: "queue_ok (mt_ingress m)" and old: "\<forall>i \<in> set (queue_items (mt_ingress m)). mi_type i = 50 \<or> asked (H @ [?x]) (mi_data i)"
    using inv_snoc [OF assms, of ?x] by (simp_all add: maint_inv_def ingress_ok_def)
  have new: "type = 50 \<or> asked (H @ [?x]) p" and m: "maintenance_receive type p now m = m\<lparr>mt_ingress := ?q\<rparr>"
    using False asked_now [of H p b] by (auto simp: maintenance_receive_def split: if_splits)
  have "set (queue_items ?q) \<subseteq> set (queue_items (mt_ingress m)) \<union> {?i}" "queue_ok ?q"
    using pico_queue.add_items [OF ok, of ?i] set_take_subset [of "q_element_count (mt_ingress m)" "queue_items (mt_ingress m) @ [?i]"]
    by auto
  then have "ingress_ok (H @ [?x]) ?q" using old new by (auto simp: ingress_ok_def)
  then show ?thesis
    using inv_snoc [OF assms, of ?x] unfolding m by (auto simp: maint_inv_def server_ok_def client_ok_def reserved_ok_def)
qed

lemma allowed_inv:
  assumes inv: "maint_inv role H (m, w)" and a: "maintenance_packet_allowed type p now m = (ok, m')"
  shows "maint_inv role (H @ [(Wire_sending type p, ok)]) (m', w)"
proof (cases "m' = m")
  case True
  then show ?thesis using inv_snoc [OF inv] by simp
next
  case False
  have ty: "type = MAINTENANCE_BOOTLOADER_ACK_MSG" "ok" "p = mt_server_payload m" "mt_server_accepted m \<longrightarrow> mt_server_phase m = SERVER_DRAIN"
    "m' = m\<lparr>mt_server_ack_queued := False, mt_server_ack_sent := mt_server_accepted m\<rparr>"
    using a False by (auto simp: maintenance_packet_allowed_def split: if_splits)
  let ?x = "(Wire_sending type p, ok)"
  have "server_ok (H @ [?x]) m'"
    using inv ty acked_now [of H p] asked_snoc [of H p ?x] by (auto simp: maint_inv_def server_ok_def)
  then show ?thesis
    using inv_snoc [OF inv, of ?x] by (auto simp: ty maint_inv_def client_ok_def reserved_ok_def)
qed

lemma replied_inv:
  assumes inv: "maint_inv role H (m, w)"
  shows "maint_inv role (H @ [(Console_replied token, b)]) (maintenance_console_reply_complete token now m, w)"
proof (cases "mt_client_phase m = CLIENT_LOCAL \<and> token = mt_client_token m")
  case False
  then have "maintenance_console_reply_complete token now m = m" by (auto simp: maintenance_console_reply_complete_def)
  then show ?thesis using inv_snoc [OF inv] by simp
next
  case True
  have "told (H @ [(Console_replied token, b)]) role token (mt_client_config m)"
    using inv True by (intro told_now) (auto simp: maint_inv_def client_ok_def)
  then show ?thesis
    using inv_snoc [OF inv, of "(Console_replied token, b)"] True
    by (auto simp: maintenance_console_reply_complete_def maint_parts)
qed

lemma poll_inv: "maint_inv role H (m, w) \<Longrightarrow> maint_inv role H (snd (maintenance_poll m), w)"
proof -
  have "maint_inv role H (m\<lparr>mt_result_pending := b\<rparr>, w) = maint_inv role H (m, w)" for b by (simp add: maint_parts)
  then show "maint_inv role H (m, w) \<Longrightarrow> ?thesis" by (simp add: maintenance_poll_def)
qed

lemma cancel_inv: "maint_inv role H (m, w) \<Longrightarrow> maint_inv role H (maintenance_cancel token m w)"
  by (simp add: maintenance_cancel_def Let_def) (auto simp: maint_inv_def update_reserved_ok server_ok_def client_ok_def)

lemma maint_step_inv:
  assumes "maint_inv role H (m, w)" "maint_step (m, w) (e, x) = (b, s')"
  shows "maint_inv role (H @ [(x, b)]) s'"
proof (cases x)
  case (Console_request target token)
  with assms request_inv [OF assms(1), of False target] show ?thesis by (auto simp: maintenance_request_def)
next
  case (Console_config token)
  with assms request_inv [OF assms(1), of True "mt_local_role m"] show ?thesis by (auto simp: maintenance_request_config_def)
next
  case Console_poll
  with assms(2) inv_snoc [OF poll_inv [OF assms(1)]] show ?thesis by simp
next
  case (Console_replied token)
  with assms replied_inv [OF assms(1)] show ?thesis by auto
next
  case (Console_cancel token)
  with assms(2) inv_snoc [OF cancel_inv [OF assms(1)]] show ?thesis by auto
next
  case (Wire_received type p)
  with assms receive_inv [OF assms(1)] show ?thesis by auto
next
  case (Wire_sending type p)
  with assms allowed_inv [OF assms(1)] show ?thesis by (auto split: prod.splits)
next
  case Maint_pass
  with assms(2) task_ok [OF assms(1), of e] inv_snoc show ?thesis by (auto simp: pass_ok_def)
next
  case (Other_changes v)
  with assms inv_snoc [OF assms(1)] show ?thesis by (auto simp: maint_inv_def reserved_ok_def)
qed

lemma maint_run_inv:
  "maint_inv role H s \<Longrightarrow> run_machine maint_step s es = (os, s') \<Longrightarrow> maint_inv role (H @ zip (map snd es) os) s'"
proof (induction es arbitrary: H s os)
  case (Cons i es)
  obtain b s1 where st: "maint_step s i = (b, s1)" by (cases "maint_step s i")
  obtain os1 where r: "run_machine maint_step s1 es = (os1, s')" "os = b # os1"
    using Cons.prems(2) st by (auto split: prod.splits)
  have "maint_inv role (H @ [(snd i, b)]) s1"
    using maint_step_inv [of role H "fst s" "snd s" "fst i" "snd i" b s1] Cons.prems(1) st by simp
  from Cons.IH [OF this r(1)] r(2) show ?case by simp
qed simp

lemma maint_init_inv: "maint_inv role [] (maintenance_init role boot m w)"
  by (simp add: maintenance_init_def maintenance_shutdown_def maint_parts ingress_ok_def queue_init_ok)

lemma safety_started:
  "safety_locked now w = MAINTENANCE_STARTED \<longleftrightarrow> \<not> dv_reboot_requested (mw_device w) \<and> \<not> dv_upgrade_in_progress (mw_device w) \<and>
     \<not> dv_image_dirty (mw_device w) \<and> \<not> mw_batch_tx_active w \<and>
     (mw_source_seen w \<longrightarrow> now - mw_source_last_us w \<ge> 3000000) \<and>
     \<not> dv_config_bootloader_peer_pending (mw_device w) \<and> \<not> dv_config_bootloader_local_pending (mw_device w)"
  by (auto simp: safety_locked_def expired_def Let_def)

subsection \<open>Properties\<close>

text \<open>
  C33. A board enters its boot ROM, or reboots into configuration mode, only when it is safe and somebody asked. After any
  sequence of console requests, packets, transmissions, passes and changes by other components, a pass that does not reset calls
  nothing; a pass that resets finds no update in progress, no dirty image, no page being served, no recent request for
  firmware words, no reboot and no other entry pending; and either it enters the ROM over an idle wire, after an acceptance of
  a request of the other board to this board left over that wire or after the console that asked had its reply in full, or it
  reboots after the console that asked for configuration mode had its reply. And the board is reserved exactly while a request is open.
\<close>

theorem maintenance_entry_guarded:
  assumes "run_machine maint_step (maintenance_init role boot m0 w0) es = (os, (m, w))"
    and "maintenance_task e m w = (reset, m', w')"
  defines "H \<equiv> zip (map snd es) os" and "d \<equiv> mw_device w"
  shows "(dv_maintenance_reserved d \<longleftrightarrow>
      mt_client_phase m \<noteq> CLIENT_IDLE \<or> mt_server_phase m \<noteq> MAINT_SERVER_IDLE \<and> mt_server_accepted m) \<and>
    (\<not> reset \<longrightarrow> dv_calls (mw_device w') = dv_calls d) \<and>
    (reset \<longrightarrow>
      \<not> dv_reboot_requested d \<and> \<not> dv_upgrade_in_progress d \<and> \<not> dv_image_dirty d \<and> \<not> mw_batch_tx_active w \<and>
      (mw_source_seen w \<longrightarrow> env_now (me_env e) - mw_source_last_us w \<ge> 3000000) \<and>
      \<not> dv_config_bootloader_peer_pending d \<and> \<not> dv_config_bootloader_local_pending d \<and>
      (dv_calls (mw_device w') = dv_calls d @ [Reset_usb_boot] \<and>
         queue_is_empty (dv_uart_tx_queue (mw_device w')) \<and> \<not> me_wire_busy e \<and>
         ((\<exists>p. acked H p \<and> p ! 1 = role) \<or> (\<exists>token. told H role token False))
       \<or> dv_reboot_requested (mw_device w') \<and> (\<exists>token. told H role token True)))"
proof -
  have inv: "maint_inv role H (m, w)" using maint_run_inv [OF maint_init_inv assms(1)] by (simp add: H_def)
  have p: "pass_ok role H e w (reset, m', w')" using task_ok [OF inv, of e] assms(2) by simp
  have "reset \<longrightarrow> may_enter e w \<and> entry_reason role H e w w'" and calls: "\<not> reset \<longrightarrow> dv_calls (mw_device w') = dv_calls d"
    using p by (simp_all add: pass_ok_def d_def)
  then show ?thesis
    using inv unfolding may_enter_def safety_started entry_reason_def entered_rom_def wire_idle_def d_def
    by (simp add: maint_inv_def reserved_ok_def)
qed

text \<open>Board A asks for its own boot ROM on its console.\<close>

definition sample_maint :: maintenance where
  "sample_maint = \<lparr>mt_ingress = queue_init blank_maint_item 8, mt_initialized = False, mt_local_role = 0, mt_session_tag = 0,
     mt_client_phase = CLIENT_IDLE, mt_server_phase = MAINT_SERVER_IDLE, mt_client_payload = [], mt_server_payload = [],
     mt_last_request = [], mt_last_request_valid = False, mt_server_accepted = False, mt_local_reply_complete = False,
     mt_server_ack_queued = False, mt_server_ack_sent = False, mt_client_started_us = 0, mt_client_sent_us = 0,
     mt_server_started_us = 0, mt_client_token = 0, mt_client_target = 0, mt_client_config = False,
     mt_result = \<lparr>mr_token = 0, mr_target = 0, mr_outcome = MAINTENANCE_ABORTED\<rparr>, mt_result_pending = False\<rparr>"

definition sample_maint_world :: maint_world where
  "sample_maint_world = \<lparr>mw_device = device_boot 0, mw_batch_tx_active = False, mw_source_seen = False, mw_source_last_us = 0\<rparr>"

definition sample_maint_env :: maint_env where
  "sample_maint_env = \<lparr>me_env = sample_env 9, me_wire_busy = False\<rparr>"

definition sample_entry :: "bool list \<times> maintenance \<times> maint_world" where
  "sample_entry = run_machine maint_step (maintenance_init 0 7 sample_maint sample_maint_world)
     [(sample_maint_env, Console_request 0 5), (sample_maint_env, Console_replied 5)]"

lemma boot_fields:
  "dv_reboot_requested (device_boot r) = False" "dv_upgrade_in_progress (device_boot r) = False" "dv_image_dirty (device_boot r) = False"
  "dv_config_bootloader_peer_pending (device_boot r) = False" "dv_config_bootloader_local_pending (device_boot r) = False"
  "queue_is_empty (dv_uart_tx_queue (device_boot r))"
  by (simp_all add: device_boot_def queue_is_empty_def queue_init_def queue_get_level_def)

lemma sample_entry_resets:
  "fst (maintenance_task sample_maint_env (fst (snd sample_entry)) (snd (snd sample_entry)))"
proof -
  have d: "maint_drain n now m w = (m, w)" if "queue_try_remove (mt_ingress m) = (None, q)" for n now m w q
    using that by (cases n) simp_all
  show ?thesis
    by (simp add: sample_entry_def maintenance_init_def maintenance_shutdown_def sample_maint_def sample_maint_world_def sample_maint_env_def
        sample_env_def maintenance_request_def request_def request_locked_def safety_locked_def expired_def boot_fields
        update_reservation_locked_def maintenance_console_reply_complete_def maintenance_task_def d queue_init_def queue_try_remove_def
        queue_get_level_def service_server_def client_task_def client_local_def wire_idle_def Let_def)
qed

theorem maintenance_entry_guarded_witness:
  "fst (maintenance_task sample_maint_env (fst (snd sample_entry)) (snd (snd sample_entry))) \<and>
   \<not> dv_image_dirty (mw_device (snd (snd sample_entry))) \<and> \<not> dv_upgrade_in_progress (mw_device (snd (snd sample_entry)))"
proof -
  obtain os m w where s: "sample_entry = (os, m, w)" by (metis prod_cases3)
  obtain r m' w' where t: "maintenance_task sample_maint_env m w = (r, m', w')" by (metis prod_cases3)
  have "r" using sample_entry_resets by (simp add: s t)
  then show ?thesis
    using maintenance_entry_guarded [OF s [unfolded sample_entry_def] t] sample_entry_resets by (simp add: s)
qed

subsection \<open>From a request on one board to the ROM of the other\<close>

lemma packet_queued:
  assumes "queue_ok (dv_uart_tx_queue d)" "queue_items (dv_uart_tx_queue d) = []" "0 < q_element_count (dv_uart_tx_queue d)"
    "length p = 8" "0 < t" "t < 256"
  shows "\<exists>q. queue_packet_dev p t d = (True, d\<lparr>dv_uart_tx_queue := q\<rparr>) \<and>
    queue_items q = [\<lparr>pkt_type = of_nat t, pkt_data = p, pkt_checksum = 0\<rparr>]"
proof -
  have "queue_packet_try (dv_uart_tx_queue d) (Some p) (int t) (int (length p))
      = queue_try_add (dv_uart_tx_queue d) \<lparr>pkt_type = of_nat t, pkt_data = p, pkt_checksum = 0\<rparr>"
    using assms(4-6) unfolding queue_packet_try_def word_of_int_of_nat by simp
  then show ?thesis
    using pico_queue.add_room [OF assms(1), of "\<lparr>pkt_type = of_nat t, pkt_data = p, pkt_checksum = 0\<rparr>"] assms(2,3)
    by (auto simp: queue_packet_dev_def)
qed

definition idle_service :: "u8 \<Rightarrow> maintenance \<Rightarrow> bool" where
  "idle_service role m \<longleftrightarrow> mt_initialized m \<and> mt_local_role m = role \<and> mt_client_phase m = CLIENT_IDLE \<and>
     mt_server_phase m = MAINT_SERVER_IDLE \<and> \<not> mt_result_pending m \<and> queue_ok (mt_ingress m) \<and>
     queue_items (mt_ingress m) = [] \<and> 0 < q_element_count (mt_ingress m)"

definition free_link :: "maint_world \<Rightarrow> bool" where
  "free_link w \<longleftrightarrow> queue_ok (dv_uart_tx_queue (mw_device w)) \<and> queue_items (dv_uart_tx_queue (mw_device w)) = [] \<and>
     0 < q_element_count (dv_uart_tx_queue (mw_device w))"

lemma drain_empty:
  "queue_ok (mt_ingress m) \<Longrightarrow> queue_items (mt_ingress m) = [] \<Longrightarrow> maint_drain n now m w = (m, w)"
  using pico_queue.remove_empty [of "mt_ingress m"] by (cases n) simp_all

lemma drain_one:
  assumes "queue_ok (mt_ingress m)" "queue_items (mt_ingress m) = [i]"
    and "\<And>q. (if mi_type i = MAINTENANCE_BOOTLOADER_ACK_MSG then receive_ack (mi_data i) now (m\<lparr>mt_ingress := q\<rparr>) w
      else receive_request (mi_data i) (mi_received_at_us i) now (m\<lparr>mt_ingress := q\<rparr>) w) = (f q, v)" "\<And>q. mt_ingress (f q) = q"
  shows "\<exists>q. maint_drain (Suc n) now m w = (f q, v) \<and> queue_ok q \<and> queue_items q = []"
proof -
  obtain q where q: "queue_try_remove (mt_ingress m) = (Some i, q)" "queue_ok q" "queue_items q = []"
    using pico_queue.remove_first [OF assms(1,2)] by blast
  have "maint_drain (Suc n) now m w = maint_drain n now (f q) v" using q(1) assms(3) [of q] by simp
  then show ?thesis using drain_empty [of "f q" n now v] q assms(4) by auto
qed

lemma received_item:
  assumes "queue_ok (mt_ingress m)" "queue_items (mt_ingress m) = []" "0 < q_element_count (mt_ingress m)" "mt_initialized m"
    "type = MAINTENANCE_BOOTLOADER_REQUEST_MSG \<or> type = MAINTENANCE_BOOTLOADER_ACK_MSG" "p ! 0 = 1"
  shows "\<exists>q. maintenance_receive type p now m = m\<lparr>mt_ingress := q\<rparr> \<and> queue_ok q \<and>
    queue_items q = [\<lparr>mi_type = type, mi_data = p, mi_received_at_us = now\<rparr>]"
  using pico_queue.add_room [OF assms(1), of "\<lparr>mi_type = type, mi_data = p, mi_received_at_us = now\<rparr>"] assms(2-)
  by (auto simp: maintenance_receive_def)

lemma length_request_payload: "length (request_payload target token tag) = 8"
  by (simp add: request_payload_def le32_def)

lemma request_payload_head:
  "request_payload target token tag ! 0 = 1" "request_payload target token tag ! 1 = target"
  by (simp_all add: request_payload_def)

lemma request_payload_token:
  assumes "token \<noteq> 0"
  shows "(let p = request_payload target token tag in p ! 2 OR p ! 3 OR p ! 4 OR p ! 5) \<noteq> 0"
proof
  assume "(let p = request_payload target token tag in p ! 2 OR p ! 3 OR p ! 4 OR p ! 5) = 0"
  then have "le32 token = [0, 0, 0, 0]"
    by (simp add: request_payload_def le32_def eval_nat_numeral or_eq_0_iff)
  then have "token = get32 [0, 0, 0, 0] 0" using get32_le32 [of token] by simp
  then show False using assms by (simp add: get32_def)
qed

text \<open>The requesting board sends the request and holds the reservation.\<close>

definition requested :: "u8 \<Rightarrow> u32 \<Rightarrow> u64 \<Rightarrow> u64 \<Rightarrow> maintenance \<Rightarrow> maintenance" where
  "requested rb token t0 t1 a = a\<lparr>mt_client_token := token, mt_client_target := rb, mt_client_config := False, mt_client_started_us := t0,
     mt_local_reply_complete := False, mt_client_payload := request_payload rb token (mt_session_tag a),
     mt_client_phase := CLIENT_REPLY, mt_client_sent_us := t1\<rparr>"

lemma client_sends:
  assumes a: "idle_service ra a" "ra \<le> 1" "rb \<le> 1" "rb \<noteq> ra" "token \<noteq> 0" "free_link w"
    and safe: "safety_locked t0 w = MAINTENANCE_STARTED" "safety_locked (env_now (me_env e)) w = MAINTENANCE_STARTED"
    and time: "\<not> expired (env_now (me_env e)) t0 250000"
  shows "\<exists>a1 w1 q. maintenance_request rb token t0 a w = (MAINTENANCE_STARTED, a1, w1) \<and>
    maintenance_task e a1 w1 = (False, requested rb token t0 (env_now (me_env e)) a,
      w\<lparr>mw_device := (mw_device w)\<lparr>dv_maintenance_reserved := True, dv_uart_tx_queue := q\<rparr>\<rparr>) \<and>
    queue_items q = [\<lparr>pkt_type = 49, pkt_data = request_payload rb token (mt_session_tag a), pkt_checksum = 0\<rparr>]"
proof -
  define a1 w1 where "a1 = fst (request_locked rb token t0 False a w)" and "w1 = snd (request_locked rb token t0 False a w)"
  have r: "maintenance_request rb token t0 a w = (MAINTENANCE_STARTED, a1, w1)"
    using a safe(1) by (auto simp: maintenance_request_def request_def idle_service_def a1_def w1_def)
  have a1: "a1 = a\<lparr>mt_client_token := token, mt_client_target := rb, mt_client_config := False, mt_client_started_us := t0,
     mt_local_reply_complete := False, mt_client_payload := request_payload rb token (mt_session_tag a), mt_client_phase := CLIENT_ADMISSION\<rparr>"
    and w1: "w1 = w\<lparr>mw_device := (mw_device w)\<lparr>dv_maintenance_reserved := True\<rparr>\<rparr>"
    using a(1,4) by (simp_all add: a1_def w1_def request_locked_def update_reservation_locked_def idle_service_def Let_def)
  have link: "queue_ok (dv_uart_tx_queue (mw_device w1))" "queue_items (dv_uart_tx_queue (mw_device w1)) = []"
    "0 < q_element_count (dv_uart_tx_queue (mw_device w1))"
    using a(6) by (simp_all add: w1 free_link_def)
  obtain q where q: "queue_packet_dev (request_payload rb token (mt_session_tag a)) 49 (mw_device w1)
      = (True, (mw_device w1)\<lparr>dv_uart_tx_queue := q\<rparr>)"
    "queue_items q = [\<lparr>pkt_type = 49, pkt_data = request_payload rb token (mt_session_tag a), pkt_checksum = 0\<rparr>]"
    using packet_queued [OF link length_request_payload [of rb token "mt_session_tag a"], of 49] by auto
  have "same_world w w1" by (auto simp: same_world_def w1)
  then have "safety_locked (env_now (me_env e)) w1 = MAINTENANCE_STARTED" using safe(2) by (simp add: same_worldD)
  moreover have "maint_drain 8 (env_now (me_env e)) a1 w1 = (a1, w1)"
    using a(1) by (intro drain_empty) (simp_all add: a1 idle_service_def)
  ultimately have "maintenance_task e a1 w1 = (False, requested rb token t0 (env_now (me_env e)) a,
      w\<lparr>mw_device := (mw_device w)\<lparr>dv_maintenance_reserved := True, dv_uart_tx_queue := q\<rparr>\<rparr>)"
    using a(1) time q(1)
    by (simp add: maintenance_task_def service_server_def client_task_def client_remote_def a1 requested_def idle_service_def Let_def)
      (simp add: expired_def w1)
  then show ?thesis using r q(2) by blast
qed

text \<open>The other board accepts, answers, and enters its ROM once the answer has left.\<close>

definition accepted :: "bytes \<Rightarrow> u64 \<Rightarrow> maint_item queue \<Rightarrow> maintenance \<Rightarrow> maintenance" where
  "accepted p now q b = b\<lparr>mt_ingress := q, mt_server_payload := p, mt_last_request := p, mt_last_request_valid := True,
     mt_server_phase := SERVER_DRAIN, mt_server_ack_queued := True, mt_server_ack_sent := False, mt_server_started_us := now,
     mt_server_accepted := True\<rparr>"

lemma server_answers:
  assumes b: "idle_service rb b" "free_link w" "safety_locked now w = MAINTENANCE_STARTED" "now = env_now (me_env e)"
    and p: "length p = 8" "p ! 0 = 1" "p ! 1 = rb" "p ! 2 OR p ! 3 OR p ! 4 OR p ! 5 \<noteq> 0"
    and new: "\<not> (mt_last_request_valid b \<and> mt_last_request b = p)" "\<not> expired now received 250000"
  shows "\<exists>q tx. maintenance_task e (maintenance_receive 49 p received b) w = (False, accepted p now q b,
      w\<lparr>mw_device := (mw_device w)\<lparr>dv_maintenance_reserved := True, dv_uart_tx_queue := tx\<rparr>\<rparr>) \<and>
    queue_items tx = [\<lparr>pkt_type = 50, pkt_data = p, pkt_checksum = 0\<rparr>] \<and> queue_ok q \<and> queue_items q = []"
proof -
  obtain q0 where q0: "maintenance_receive 49 p received b = b\<lparr>mt_ingress := q0\<rparr>" "queue_ok q0"
    "queue_items q0 = [\<lparr>mi_type = 49, mi_data = p, mi_received_at_us = received\<rparr>]"
    using received_item [of b 49 p received] b(1) p(2) by (auto simp: idle_service_def)
  define f where "f q = b\<lparr>mt_ingress := q, mt_server_payload := p, mt_last_request := p, mt_last_request_valid := True,
     mt_server_phase := SERVER_ACK, mt_server_ack_queued := False, mt_server_ack_sent := False, mt_server_started_us := now,
     mt_server_accepted := True\<rparr>" for q
  define v where "v = w\<lparr>mw_device := (mw_device w)\<lparr>dv_maintenance_reserved := True\<rparr>\<rparr>"
  have same: "safety_locked now v = MAINTENANCE_STARTED" "free_link v"
    using b(2,3) by (simp_all add: v_def safety_started free_link_def)
  have st: "admission_status now (b\<lparr>mt_ingress := q\<rparr>) w = 0" for q
    using b(1,3) by (simp add: admission_status_def idle_service_def)
  have req: "receive_request p received now (b\<lparr>mt_ingress := q\<rparr>) w = (f q, v)" for q
    using b(1) p(3,4) new st [of q] list_update_same [of p 1 rb]
    by (auto simp: receive_request_def f_def v_def update_reservation_locked_def idle_service_def Let_def)
  obtain q where q: "maint_drain 8 now (b\<lparr>mt_ingress := q0\<rparr>) w = (f q, v)" "queue_ok q" "queue_items q = []"
    using drain_one [of "b\<lparr>mt_ingress := q0\<rparr>" "\<lparr>mi_type = 49, mi_data = p, mi_received_at_us = received\<rparr>" now w f v 7] q0 req
    by (auto simp: f_def)
  obtain tx where tx: "queue_packet_dev p 50 (mw_device v) = (True, (mw_device v)\<lparr>dv_uart_tx_queue := tx\<rparr>)"
    "queue_items tx = [\<lparr>pkt_type = 50, pkt_data = p, pkt_checksum = 0\<rparr>]"
    using packet_queued [of "mw_device v" p 50] same(2) p(1) by (auto simp: free_link_def)
  have "service_server e (f q) v = (False, accepted p now q b, w\<lparr>mw_device := (mw_device w)\<lparr>dv_maintenance_reserved := True, dv_uart_tx_queue := tx\<rparr>\<rparr>)"
    using same(1) tx(1) b(4)
    by (simp add: service_server_def server_send_def f_def expired_def accepted_def update_reservation_locked_def Let_def) (simp add: v_def)
  then have "maintenance_task e (b\<lparr>mt_ingress := q0\<rparr>) w = (False, accepted p now q b,
      w\<lparr>mw_device := (mw_device w)\<lparr>dv_maintenance_reserved := True, dv_uart_tx_queue := tx\<rparr>\<rparr>)"
    using q(1) b(1,4) by (simp add: maintenance_task_def client_task_def accepted_def idle_service_def)
  then show ?thesis using q0(1) tx(2) q(2,3) by auto
qed

lemma server_enters:
  assumes b: "idle_service rb b" "queue_ok q" "queue_items q = []" "safety_locked now w = MAINTENANCE_STARTED" "now = env_now (me_env e)"
    and time: "\<not> expired t5 t4 1000000" "\<not> expired now t4 1000000" and wire: "wire_idle e w"
  shows "\<exists>b3 b4 w'. maintenance_packet_allowed 50 p t5 (accepted p t4 q b) = (True, b3) \<and>
    maintenance_task e b3 w = (True, b4, w') \<and> dv_calls (mw_device w') = dv_calls (mw_device w) @ [Reset_usb_boot]"
proof -
  define b3 where "b3 = (accepted p t4 q b)\<lparr>mt_server_ack_queued := False, mt_server_ack_sent := True\<rparr>"
  have "maintenance_packet_allowed 50 p t5 (accepted p t4 q b) = (True, b3)"
    using b(1) time(1) by (simp add: maintenance_packet_allowed_def accepted_def idle_service_def b3_def)
  moreover have "maint_drain 8 now b3 w = (b3, w)" using b(2,3) by (intro drain_empty) (simp_all add: b3_def accepted_def)
  then have "\<exists>b4 w'. maintenance_task e b3 w = (True, b4, w') \<and> dv_calls (mw_device w') = dv_calls (mw_device w) @ [Reset_usb_boot]"
    using b(1,4,5) time(2) wire
    by (simp add: maintenance_task_def service_server_def server_send_def b3_def accepted_def idle_service_def enter_rom_def
        update_reservation_locked_def log_call_def Let_def)
  ultimately show ?thesis by blast
qed

text \<open>The requesting board takes the answer.\<close>

lemma client_accepted:
  fixes token :: u32
  assumes a: "idle_service ra a" "rb \<le> 1" "now = env_now (me_env e)" "\<not> expired now t1 3000000"
  defines "p \<equiv> request_payload rb token (mt_session_tag a)"
  shows "\<exists>a' w'. maintenance_packet_allowed 49 p t2 (requested rb token t0 t1 a) = (\<not> expired t2 t1 3000000, requested rb token t0 t1 a) \<and>
    maintenance_task e (maintenance_receive 50 p t (requested rb token t0 t1 a)) w = (False, a', w') \<and>
    fst (maintenance_poll a') = Some \<lparr>mr_token = token, mr_target = rb, mr_outcome = MAINTENANCE_REMOTE_ACCEPTED\<rparr>"
proof -
  define r where "r = requested rb token t0 t1 a"
  have "queue_ok (mt_ingress r)" "queue_items (mt_ingress r) = []" "0 < q_element_count (mt_ingress r)" "mt_initialized r"
    using a(1) by (simp_all add: r_def requested_def idle_service_def)
  from received_item [OF this, of 50 p t] obtain q0 where q0: "maintenance_receive 50 p t r = r\<lparr>mt_ingress := q0\<rparr>" "queue_ok q0"
    "queue_items q0 = [\<lparr>mi_type = 50, mi_data = p, mi_received_at_us = t\<rparr>]"
    by (auto simp: p_def request_payload_head)
  define f where "f q = fst (finish_client MAINTENANCE_REMOTE_ACCEPTED (r\<lparr>mt_ingress := q\<rparr>) w)" for q
  define v where "v = snd (finish_client MAINTENANCE_REMOTE_ACCEPTED r w)"
  have rb: "rb AND 1 = rb" "\<not> 7 < rb" "drop_bit 1 rb = 0" using a(2) u8_le_1 [of rb] by auto
  have "receive_ack p now (r\<lparr>mt_ingress := q\<rparr>) w = finish_client MAINTENANCE_REMOTE_ACCEPTED (r\<lparr>mt_ingress := q\<rparr>) w" for q
    using a(4) rb request_payload_head(2) [of rb token "mt_session_tag a"]
    by (simp add: receive_ack_def r_def requested_def p_def ack_outcome_def)
  then have ack: "receive_ack p now (r\<lparr>mt_ingress := q\<rparr>) w = (f q, v)" for q
    by (simp add: f_def v_def finish_client_def update_reservation_locked_def Let_def)
  obtain q where q: "maint_drain 8 now (r\<lparr>mt_ingress := q0\<rparr>) w = (f q, v)" "queue_ok q" "queue_items q = []"
    using drain_one [of "r\<lparr>mt_ingress := q0\<rparr>" "\<lparr>mi_type = 50, mi_data = p, mi_received_at_us = t\<rparr>" now w f v 7] q0 ack
    by (auto simp: f_def finish_client_def Let_def)
  have "maintenance_task e (maintenance_receive 50 p t r) w = (False, f q, v)"
    using q(1) a(1,3) q0(1)
    by (simp add: maintenance_task_def service_server_def client_task_def f_def finish_client_def r_def requested_def idle_service_def Let_def)
  moreover have "fst (maintenance_poll (f q)) = Some \<lparr>mr_token = token, mr_target = rb, mr_outcome = MAINTENANCE_REMOTE_ACCEPTED\<rparr>"
    using a(1) by (simp add: maintenance_poll_def f_def finish_client_def r_def requested_def idle_service_def Let_def)
  moreover have "maintenance_packet_allowed 49 p t2 r = (\<not> expired t2 t1 3000000, r)"
    using a(1) by (simp add: maintenance_packet_allowed_def r_def requested_def p_def idle_service_def)
  ultimately show ?thesis unfolding r_def by blast
qed

text \<open>
  C34. A request on one board takes the other into its boot ROM. If both boards are idle and safe, the link is free, the other board has
  not just served the same request, and every hop meets its deadline, then the request is started; the next pass queues one
  packet, which may leave; the other board's pass on it queues one acceptance, which may leave; its next pass on an idle wire
  enters the ROM; and the requesting board's pass on the acceptance reports to its console that the request was accepted.
\<close>

theorem maintenance_remote_entry:
  fixes token :: u32
  assumes "idle_service ra a" "idle_service rb b" "ra \<le> 1" "rb \<le> 1" "rb \<noteq> ra" "token \<noteq> 0" "free_link wa" "free_link wb"
    and "safety_locked t0 wa = MAINTENANCE_STARTED" "safety_locked (env_now (me_env e1)) wa = MAINTENANCE_STARTED"
    and "safety_locked (env_now (me_env e4)) wb = MAINTENANCE_STARTED" "safety_locked (env_now (me_env e8)) wb = MAINTENANCE_STARTED"
    and "\<not> expired (env_now (me_env e1)) t0 250000" "\<not> expired t2 (env_now (me_env e1)) 3000000"
    and "\<not> expired (env_now (me_env e4)) t3 250000" "\<not> expired t5 (env_now (me_env e4)) 1000000"
    and "\<not> expired (env_now (me_env e8)) (env_now (me_env e4)) 1000000" "\<not> expired (env_now (me_env e7)) (env_now (me_env e1)) 3000000"
    and "\<not> me_wire_busy e8" "queue_is_empty sent"
  defines "p \<equiv> request_payload rb token (mt_session_tag a)"
  assumes "\<not> (mt_last_request_valid b \<and> mt_last_request b = p)"
  shows "\<exists>a1 wa1 a2 wa2 b2 wb2 b3 b4 wb4 a4 wa4.
    maintenance_request rb token t0 a wa = (MAINTENANCE_STARTED, a1, wa1) \<and>
    maintenance_task e1 a1 wa1 = (False, a2, wa2) \<and>
    queue_items (dv_uart_tx_queue (mw_device wa2)) = [\<lparr>pkt_type = 49, pkt_data = p, pkt_checksum = 0\<rparr>] \<and>
    maintenance_packet_allowed 49 p t2 a2 = (True, a2) \<and>
    maintenance_task e4 (maintenance_receive 49 p t3 b) wb = (False, b2, wb2) \<and>
    queue_items (dv_uart_tx_queue (mw_device wb2)) = [\<lparr>pkt_type = 50, pkt_data = p, pkt_checksum = 0\<rparr>] \<and>
    maintenance_packet_allowed 50 p t5 b2 = (True, b3) \<and>
    maintenance_task e8 b3 (wb2\<lparr>mw_device := (mw_device wb2)\<lparr>dv_uart_tx_queue := sent\<rparr>\<rparr>) = (True, b4, wb4) \<and>
    dv_calls (mw_device wb4) = dv_calls (mw_device wb) @ [Reset_usb_boot] \<and>
    maintenance_task e7 (maintenance_receive 50 p t6 a2) wa2 = (False, a4, wa4) \<and>
    fst (maintenance_poll a4) = Some \<lparr>mr_token = token, mr_target = rb, mr_outcome = MAINTENANCE_REMOTE_ACCEPTED\<rparr>"
proof -
  let ?t1 = "env_now (me_env e1)" and ?t4 = "env_now (me_env e4)" and ?t8 = "env_now (me_env e8)"
  obtain a1 wa1 tx where A: "maintenance_request rb token t0 a wa = (MAINTENANCE_STARTED, a1, wa1)"
    "maintenance_task e1 a1 wa1 = (False, requested rb token t0 ?t1 a,
      wa\<lparr>mw_device := (mw_device wa)\<lparr>dv_maintenance_reserved := True, dv_uart_tx_queue := tx\<rparr>\<rparr>)"
    "queue_items tx = [\<lparr>pkt_type = 49, pkt_data = p, pkt_checksum = 0\<rparr>]"
    using client_sends [OF assms(1,3-7,9,10,13)] unfolding p_def by blast
  obtain q tx' where B: "maintenance_task e4 (maintenance_receive 49 p t3 b) wb = (False, accepted p ?t4 q b,
      wb\<lparr>mw_device := (mw_device wb)\<lparr>dv_maintenance_reserved := True, dv_uart_tx_queue := tx'\<rparr>\<rparr>)"
    "queue_items tx' = [\<lparr>pkt_type = 50, pkt_data = p, pkt_checksum = 0\<rparr>]" "queue_ok q" "queue_items q = []"
    using server_answers [OF assms(2,8,11) refl, of p t3] request_payload_token [OF assms(6), of rb "mt_session_tag a"]
      assms(15) assms(22) by (auto simp: p_def length_request_payload request_payload_head [simplified] Let_def)
  define wb3 where "wb3 = wb\<lparr>mw_device := (mw_device wb)\<lparr>dv_maintenance_reserved := True, dv_uart_tx_queue := sent\<rparr>\<rparr>"
  have "safety_locked ?t8 wb3 = MAINTENANCE_STARTED" "wire_idle e8 wb3" "dv_calls (mw_device wb3) = dv_calls (mw_device wb)"
    using assms(12,19,20) by (simp_all add: wb3_def safety_started wire_idle_def)
  with server_enters [OF assms(2) B(3,4) _ refl assms(16,17), of wb3 p] obtain b3 b4 wb4 where
    C: "maintenance_packet_allowed 50 p t5 (accepted p ?t4 q b) = (True, b3)" "maintenance_task e8 b3 wb3 = (True, b4, wb4)"
      "dv_calls (mw_device wb4) = dv_calls (mw_device wb) @ [Reset_usb_boot]"
    by auto
  define wa2 where "wa2 = wa\<lparr>mw_device := (mw_device wa)\<lparr>dv_maintenance_reserved := True, dv_uart_tx_queue := tx\<rparr>\<rparr>"
  obtain a4 wa4 where D: "maintenance_packet_allowed 49 p t2 (requested rb token t0 ?t1 a) = (True, requested rb token t0 ?t1 a)"
    "maintenance_task e7 (maintenance_receive 50 p t6 (requested rb token t0 ?t1 a)) wa2 = (False, a4, wa4)"
    "fst (maintenance_poll a4) = Some \<lparr>mr_token = token, mr_target = rb, mr_outcome = MAINTENANCE_REMOTE_ACCEPTED\<rparr>"
    using client_accepted [OF assms(1,4) refl assms(18), of token t2 t0 t6 wa2] assms(14) unfolding p_def by auto
  show ?thesis
    by (rule exI [of _ a1], rule exI [of _ wa1], rule exI [of _ "requested rb token t0 ?t1 a"], rule exI [of _ wa2],
        rule exI [of _ "accepted p ?t4 q b"],
        rule exI [of _ "wb\<lparr>mw_device := (mw_device wb)\<lparr>dv_maintenance_reserved := True, dv_uart_tx_queue := tx'\<rparr>\<rparr>"],
        rule exI [of _ b3], rule exI [of _ b4], rule exI [of _ wb4], rule exI [of _ a4], rule exI [of _ wa4])
      (use A B(1,2) C D in \<open>simp add: wa2_def wb3_def\<close>)
qed

definition sample_idle :: "u8 \<Rightarrow> maintenance" where
  "sample_idle role = fst (maintenance_init role 7 sample_maint sample_maint_world)"

lemma sample_idle_service: "idle_service role (sample_idle role)" "\<not> mt_last_request_valid (sample_idle role)"
  using queue_init_ok [of blank_maint_item 8]
  by (simp_all add: idle_service_def sample_idle_def maintenance_init_def maintenance_shutdown_def sample_maint_def)
    (simp add: queue_init_def)

lemma sample_link: "free_link sample_maint_world" "safety_locked t sample_maint_world = MAINTENANCE_STARTED"
  using queue_init_ok [of zero_pkt 256]
  by (simp_all add: free_link_def sample_maint_world_def safety_started boot_fields) (simp add: device_boot_def queue_init_def)

theorem maintenance_remote_entry_witness:
  "\<exists>a1 wa1 b3 v b4 wb4. maintenance_request 1 5 9 (sample_idle 0) sample_maint_world = (MAINTENANCE_STARTED, a1, wa1) \<and>
     maintenance_task sample_maint_env b3 v = (True, b4, wb4) \<and>
     dv_calls (mw_device wb4) = dv_calls (mw_device sample_maint_world) @ [Reset_usb_boot]"
proof -
  have t: "\<not> expired (env_now (me_env sample_maint_env)) 9 250000" "\<not> expired 9 (env_now (me_env sample_maint_env)) 3000000"
    "\<not> expired 9 (env_now (me_env sample_maint_env)) 1000000"
    "\<not> expired (env_now (me_env sample_maint_env)) (env_now (me_env sample_maint_env)) 1000000"
    "\<not> expired (env_now (me_env sample_maint_env)) (env_now (me_env sample_maint_env)) 3000000" "\<not> me_wire_busy sample_maint_env"
    by (simp_all add: expired_def sample_maint_env_def sample_env_def)
  have q: "queue_is_empty (dv_uart_tx_queue (device_boot 0))" by (rule boot_fields)
  show ?thesis
    using maintenance_remote_entry [OF sample_idle_service(1) [of 0] sample_idle_service(1) [of 1] _ _ _ _ sample_link(1) sample_link(1)
        sample_link(2) sample_link(2) sample_link(2) sample_link(2) t(1) t(2) t(1) t(3) t(4) t(5) t(6) q, of 5] sample_idle_service(2) [of 1]
    by simp blast
qed

end
