(* ===== verification/Fw_Pull.thy ===== *)
theory Fw_Pull
  imports Fw_Batch Fw_Update Flash_Store Device Runtime History
begin

text \<open>
  Copying firmware from the other board (firmware\_batch.c, the firmware handlers of handlers.c, the firmware task of
  tasks.c): a heartbeat with a newer version starts a pull; the task requests pages in bursts where the other board supports
  them and single words otherwise, writes each complete page to flash, and reboots only into a verified image.
  The two flags of \<open>fw\<close> that other components read, \<open>upgrade_in_progress\<close> and \<open>image_dirty\<close>, are those of the device record,
  and the page buffer is the one of the store. The updater lock makes each entry point one step.
\<close>

unbundle bit_operations_syntax

subsection \<open>State\<close>

record fw_upgrade =
  fu_address :: u32
  fu_checksum :: u32
  fu_peer_checksum :: u32
  fu_requested_at_us :: u32
  fu_progressed_at_us :: u32
  fu_version :: u16
  fu_source :: fw_update_source
  fu_request_pending :: bool
  fu_byte_done :: bool
  fu_page_pending :: bool

datatype fw_batch_mode = FW_BATCH_LEGACY | FW_BATCH_PROBE | FW_BATCH_WAIT_CAPS | FW_BATCH_PAGES

record fw_source_profile =
  sp_started_us :: u64
  sp_page_started_us :: u64
  sp_page_ended_us :: u64
  sp_checksum :: u32
  sp_last_page :: u32
  sp_last_word :: u32
  sp_page_requests :: u32
  sp_word_requests :: u32
  sp_retries :: u32
  sp_page_service_us :: u32
  sp_page_gap_us :: u32
  sp_page_max_us :: u32
  sp_version :: u16
  sp_mode :: u8
  sp_quarter :: u8
  sp_active :: bool
  sp_finished :: bool
  sp_page_active :: bool
  sp_page_ended :: bool
  sp_retry_recorded :: bool

record fw_batch_state =
  fb_tokens :: fw_batch_token
  fb_rx :: fw_batch_rx
  fb_tx :: fw_batch_tx
  fb_source_page :: bytes
  fb_mode :: fw_batch_mode
  fb_caps_tag :: u32
  fb_pending_tag :: u32
  fb_source_caps_tag :: u32
  fb_source_last_tag :: u32
  fb_source_checksum :: u32
  fb_source_version :: u16
  fb_page_attempts :: nat
  fb_initialized :: bool
  fb_source_enabled :: bool
  fb_profile :: fw_source_profile

record pull =
  pl_device :: device
  pl_fw :: fw_upgrade
  pl_batch :: fw_batch_state
  pl_store :: store
  pl_peer_fw_last_seen_us :: u32
  pl_source_seen :: bool
  pl_source_last_us :: u64
  pl_runtime :: runtime
  pl_history :: "history_store option"
  pl_led :: bool

text \<open>A call's clock, the flash routines, whether the updater try-lock is obtained, and the stack bytes a payload buffer
  starts with.\<close>

record pull_env =
  pe_now :: u64
  pe_hw :: flash_hw
  pe_got :: bool
  pe_stack :: bytes

abbreviation pe_now32 :: "pull_env \<Rightarrow> u32" where
  "pe_now32 e \<equiv> ucast (pe_now e)"

definition zero_fw :: fw_upgrade where
  "zero_fw = \<lparr>fu_address = 0, fu_checksum = 0, fu_peer_checksum = 0, fu_requested_at_us = 0, fu_progressed_at_us = 0, fu_version = 0,
     fu_source = FW_UPDATE_SOURCE_NONE, fu_request_pending = False, fu_byte_done = False, fu_page_pending = False\<rparr>"

definition zero_profile :: fw_source_profile where
  "zero_profile = \<lparr>sp_started_us = 0, sp_page_started_us = 0, sp_page_ended_us = 0, sp_checksum = 0, sp_last_page = 0, sp_last_word = 0,
     sp_page_requests = 0, sp_word_requests = 0, sp_retries = 0, sp_page_service_us = 0, sp_page_gap_us = 0, sp_page_max_us = 0,
     sp_version = 0, sp_mode = 0, sp_quarter = 0, sp_active = False, sp_finished = False, sp_page_active = False,
     sp_page_ended = False, sp_retry_recorded = False\<rparr>"

definition zero_rx :: fw_batch_rx where
  "zero_rx = \<lparr>rx_tag = 0, rx_address = 0, rx_checksum = 0, rx_received = 0, rx_page = None, rx_active = False, rx_have_end = False,
     rx_invalid = False\<rparr>"

definition zero_tx :: fw_batch_tx where
  "zero_tx = \<lparr>tx_tag = 0, tx_address = 0, tx_checksum = 0, tx_page = None, tx_cursor = 0, tx_active = False\<rparr>"

definition firmware_batch_init :: "u64 \<Rightarrow> fw_batch_state" where
  "firmware_batch_init boot_session = \<lparr>fb_tokens = fw_batch_token_init boot_session, fb_rx = zero_rx, fb_tx = zero_tx,
     fb_source_page = replicate 256 0, fb_mode = FW_BATCH_LEGACY, fb_caps_tag = 0, fb_pending_tag = 0, fb_source_caps_tag = 0,
     fb_source_last_tag = 0, fb_source_checksum = 0, fb_source_version = 0, fb_page_attempts = 0, fb_initialized = True,
     fb_source_enabled = False, fb_profile = zero_profile\<rparr>"

definition upd_fw :: "(fw_upgrade \<Rightarrow> fw_upgrade) \<Rightarrow> pull \<Rightarrow> pull" where
  "upd_fw f p = p\<lparr>pl_fw := f (pl_fw p)\<rparr>"

definition upd_batch :: "(fw_batch_state \<Rightarrow> fw_batch_state) \<Rightarrow> pull \<Rightarrow> pull" where
  "upd_batch f p = p\<lparr>pl_batch := f (pl_batch p)\<rparr>"

definition upd_dev :: "(device \<Rightarrow> device) \<Rightarrow> pull \<Rightarrow> pull" where
  "upd_dev f p = p\<lparr>pl_device := f (pl_device p)\<rparr>"

definition upd_profile :: "(fw_source_profile \<Rightarrow> fw_source_profile) \<Rightarrow> pull \<Rightarrow> pull" where
  "upd_profile f p = upd_batch (\<lambda>b. b\<lparr>fb_profile := f (fb_profile b)\<rparr>) p"

abbreviation pl_profile :: "pull \<Rightarrow> fw_source_profile" where
  "pl_profile p \<equiv> fb_profile (pl_batch p)"

definition note_event :: "pull_env \<Rightarrow> u8 \<Rightarrow> u8 \<Rightarrow> u8 \<Rightarrow> u32 \<Rightarrow> pull \<Rightarrow> pull" where
  "note_event e type a b v p = p\<lparr>pl_history := diagnostic_history_record (pe_now e) (pl_history p) type a b v\<rparr>"

definition note_runtime :: "pull_env \<Rightarrow> (runtime \<Rightarrow> runtime \<times> history_call list) \<Rightarrow> pull \<Rightarrow> pull" where
  "note_runtime e f p =
     (case f (pl_runtime p) of
        (r, cs) \<Rightarrow> fold (\<lambda>(type, a, b, v). note_event e type a b v) cs (p\<lparr>pl_runtime := r\<rparr>))"

subsection \<open>The source's profile\<close>

definition saturating_add32 :: "u32 \<Rightarrow> u64 \<Rightarrow> u32" where
  "saturating_add32 v amount = (if amount > ucast (0xffffffff - v) then 0xffffffff else v + ucast amount)"

definition profile_begin :: "pull_env \<Rightarrow> pull \<Rightarrow> pull" where
  "profile_begin e p = upd_profile (\<lambda>_. zero_profile\<lparr>sp_active := True, sp_started_us := pe_now e, sp_last_page := 0xffffffff,
     sp_last_word := 0xffffffff, sp_version := dv_running_fw_version (pl_device p),
     sp_checksum := dv_running_fw_checksum (pl_device p)\<rparr>) p"

definition profile_matches :: "pull \<Rightarrow> bool" where
  "profile_matches p \<longleftrightarrow> sp_active (pl_profile p) \<and> sp_version (pl_profile p) = dv_running_fw_version (pl_device p)
     \<and> sp_checksum (pl_profile p) = dv_running_fw_checksum (pl_device p)"

definition profile_mode :: "pull_env \<Rightarrow> u8 \<Rightarrow> u32 \<Rightarrow> pull \<Rightarrow> pull" where
  "profile_mode e mode address p =
     (if sp_mode (pl_profile p) AND mode \<noteq> 0 then p
      else
        let p = upd_profile (\<lambda>s. s\<lparr>sp_mode := sp_mode s OR mode\<rparr>) p
        in note_event e 16 (if mode = 1 then 2 else 3) (sp_mode (pl_profile p)) address p)"

definition profile_progress :: "pull_env \<Rightarrow> u32 \<Rightarrow> pull \<Rightarrow> pull" where
  "profile_progress e bytes p =
     (let quarter = bytes div 65536 in
      if quarter > ucast (sp_quarter (pl_profile p)) \<and> bytes mod 65536 = 0 then
        let p = upd_profile (\<lambda>s. s\<lparr>sp_quarter := ucast quarter\<rparr>) p
        in note_event e 16 5 (sp_mode (pl_profile p)) bytes p
      else p)"

definition profile_finish :: "pull_env \<Rightarrow> u8 \<Rightarrow> pull \<Rightarrow> pull" where
  "profile_finish e phase p =
     (if sp_finished (pl_profile p) then p
      else
        let p = upd_profile (\<lambda>s. s\<lparr>sp_finished := True\<rparr>) p; s = pl_profile p;
            p = note_event e 16 phase (sp_mode s) 262144 p;
            p = fold (\<lambda>(i, t). note_event e 17 i (sp_mode s) t)
              [(1, saturating_add32 0 (pe_now e - sp_started_us s)), (2, sp_page_service_us s), (3, sp_page_gap_us s),
               (4, sp_page_max_us s)] p
        in fold (\<lambda>(i, t). note_event e 18 i (sp_mode s) t)
             [(1, sp_page_requests s), (2, sp_word_requests s), (3, sp_retries s)] p)"

definition profile_page_stop :: "pull_env \<Rightarrow> fw_source_profile \<Rightarrow> fw_source_profile" where
  "profile_page_stop e s =
     (if \<not> sp_page_active s then s
      else
        let duration = pe_now e - sp_page_started_us s; bounded = saturating_add32 0 duration
        in s\<lparr>sp_page_service_us := saturating_add32 (sp_page_service_us s) duration,
             sp_page_max_us := (if bounded > sp_page_max_us s then bounded else sp_page_max_us s), sp_page_active := False\<rparr>)"

definition firmware_source_word_locked :: "pull_env \<Rightarrow> u32 \<Rightarrow> pull \<Rightarrow> pull" where
  "firmware_source_word_locked e address p =
     (if address \<ge> 262144 \<or> address mod 4 \<noteq> 0 then p
      else
        let p = (if \<not> profile_matches p \<or> address = 0 \<and> sp_word_requests (pl_profile p) \<noteq> 0 \<and> sp_last_word (pl_profile p) \<noteq> 0
                 then profile_begin e p else p);
            p = profile_mode e 2 address p
        in if sp_finished (pl_profile p) then p
           else
             let p = upd_profile (\<lambda>s. (profile_page_stop e s)\<lparr>sp_page_ended := False,
                       sp_word_requests := saturating_add32 (sp_word_requests s) 1, sp_last_word := address\<rparr>) p;
                 p = profile_progress e (address + 4) p
             in if address + 4 = 262144 then profile_finish e 7 p else p)"

subsection \<open>Requesting\<close>

definition use_words :: "pull \<Rightarrow> pull" where
  "use_words p = upd_fw (\<lambda>f. f\<lparr>fu_request_pending := False\<rparr>)
     (upd_batch (\<lambda>b. b\<lparr>fb_mode := FW_BATCH_LEGACY, fb_pending_tag := 0, fb_rx := fw_batch_rx_cancel (fb_rx b)\<rparr>) p)"

definition firmware_batch_begin_locked :: "pull \<Rightarrow> pull" where
  "firmware_batch_begin_locked p = upd_batch (\<lambda>b. b\<lparr>fb_rx := fw_batch_rx_cancel (fb_rx b), fb_tx := fw_batch_tx_cancel (fb_tx b),
     fb_mode := (if fb_initialized b then FW_BATCH_PROBE else FW_BATCH_LEGACY), fb_caps_tag := 0, fb_pending_tag := 0,
     fb_page_attempts := 0, fb_source_enabled := False, fb_profile := zero_profile\<rparr>) p"

definition firmware_batch_accepts_word :: "pull \<Rightarrow> bool" where
  "firmware_batch_accepts_word p \<longleftrightarrow> fb_mode (pl_batch p) = FW_BATCH_LEGACY"

definition send_packet :: "bytes \<Rightarrow> nat \<Rightarrow> pull \<Rightarrow> bool \<times> pull" where
  "send_packet data type p = (case queue_packet_dev data type (pl_device p) of (ok, d) \<Rightarrow> (ok, p\<lparr>pl_device := d\<rparr>))"

definition request_byte :: "pull_env \<Rightarrow> u32 \<Rightarrow> pull \<Rightarrow> bool \<times> pull" where
  "request_byte e address p =
     (case queue_try_add (dv_uart_tx_queue (pl_device p))
        \<lparr>pkt_type = REQUEST_BYTE_MSG, pkt_data = le32 address @ [0, 0, 0, 0], pkt_checksum = 0\<rparr> of
        (False, q) \<Rightarrow> (False, p)
      | (True, q) \<Rightarrow> (True, upd_fw (\<lambda>f. f\<lparr>fu_byte_done := False, fu_request_pending := True, fu_requested_at_us := pe_now32 e\<rparr>)
          (upd_dev (\<lambda>d. d\<lparr>dv_uart_tx_queue := q\<rparr>) p)))"

definition take_tag :: "fw_batch_state \<Rightarrow> bool \<times> fw_batch_state" where
  "take_tag b =
     (if fb_pending_tag b \<noteq> 0 then (True, b)
      else case fw_batch_token_next (fb_tokens b) of
        (Some t, k) \<Rightarrow> (True, b\<lparr>fb_tokens := k, fb_pending_tag := t\<rparr>)
      | (None, k) \<Rightarrow> (False, b\<lparr>fb_tokens := k\<rparr>))"

definition request_caps :: "pull_env \<Rightarrow> pull \<Rightarrow> bool \<times> pull" where
  "request_caps e p =
     (let payload = (case fw_batch_caps_encode_request (fb_pending_tag (pl_batch p)) (fu_version (pl_fw p)) of
                       Some x \<Rightarrow> x | None \<Rightarrow> pe_stack e)
      in case send_packet payload (unat FW_BATCH_CAPS_REQUEST_MSG) p of
        (False, p) \<Rightarrow> (False, p)
      | (True, p) \<Rightarrow> (False, upd_fw (\<lambda>f. f\<lparr>fu_byte_done := False, fu_request_pending := False, fu_requested_at_us := pe_now32 e\<rparr>)
          (upd_batch (\<lambda>b. b\<lparr>fb_caps_tag := fb_pending_tag b, fb_pending_tag := 0, fb_mode := FW_BATCH_WAIT_CAPS\<rparr>) p)))"

definition request_page :: "pull_env \<Rightarrow> u32 \<Rightarrow> pull \<Rightarrow> bool \<times> pull" where
  "request_page e address p =
     (case fw_batch_request_encode (fb_pending_tag (pl_batch p)) address of
        None \<Rightarrow> (False, p)
      | Some payload \<Rightarrow>
          case send_packet payload (unat FW_BATCH_PAGE_REQUEST_MSG) p of
            (False, p) \<Rightarrow> (False, p)
          | (True, p) \<Rightarrow> (True,
              upd_fw (\<lambda>f. f\<lparr>fu_byte_done := False, fu_request_pending := True, fu_requested_at_us := pe_now32 e\<rparr>)
                (upd_batch (\<lambda>b. b\<lparr>fb_rx := snd (fw_batch_rx_begin (fb_rx b) (fb_pending_tag b) address (Some (s_page_buffer (pl_store p)))),
                   fb_pending_tag := 0, fb_page_attempts := fb_page_attempts b + 1\<rparr>) p)))"

definition firmware_batch_request_locked :: "pull_env \<Rightarrow> u32 \<Rightarrow> pull \<Rightarrow> bool \<times> pull" where
  "firmware_batch_request_locked e address p =
     (case fb_mode (pl_batch p) of
        FW_BATCH_PROBE \<Rightarrow>
          (case take_tag (pl_batch p) of
             (True, b) \<Rightarrow> request_caps e (p\<lparr>pl_batch := b\<rparr>)
           | (False, b) \<Rightarrow> request_byte e address (use_words (p\<lparr>pl_batch := b\<rparr>)))
      | FW_BATCH_WAIT_CAPS \<Rightarrow> request_byte e address (use_words p)
      | FW_BATCH_PAGES \<Rightarrow>
          if fb_page_attempts (pl_batch p) \<ge> 3 then request_byte e address (use_words p)
          else (case take_tag (pl_batch p) of
             (True, b) \<Rightarrow> request_page e address (p\<lparr>pl_batch := b\<rparr>)
           | (False, b) \<Rightarrow> request_byte e address (use_words (p\<lparr>pl_batch := b\<rparr>)))
      | FW_BATCH_LEGACY \<Rightarrow> request_byte e address p)"

subsection \<open>Serving the other board\<close>

definition can_serve :: "pull \<Rightarrow> bool" where
  "can_serve p \<longleftrightarrow> \<not> dv_reboot_requested (pl_device p) \<and> \<not> dv_maintenance_reserved (pl_device p)
     \<and> \<not> dv_upgrade_in_progress (pl_device p) \<and> \<not> dv_image_dirty (pl_device p)"

definition source_activity :: "pull_env \<Rightarrow> pull \<Rightarrow> pull" where
  "source_activity e p = p\<lparr>pl_source_seen := True, pl_source_last_us := pe_now e\<rparr>"

definition receive_caps_request :: "pull_env \<Rightarrow> bytes \<Rightarrow> pull \<Rightarrow> pull" where
  "receive_caps_request e payload p =
     (case fw_batch_caps_decode_request payload of
        None \<Rightarrow> p
      | Some (tag, version) \<Rightarrow>
          if \<not> can_serve p \<or> version \<noteq> dv_running_fw_version (pl_device p) then p
          else
            let reply = (case fw_batch_caps_encode_response tag (dv_running_fw_checksum (pl_device p)) of
                           Some x \<Rightarrow> x | None \<Rightarrow> pe_stack e)
            in case send_packet reply (unat FW_BATCH_CAPS_RESPONSE_MSG) p of
              (False, p) \<Rightarrow> p
            | (True, p) \<Rightarrow>
                let b = pl_batch p; fresh = (\<not> fb_source_enabled b \<or> fb_source_caps_tag b \<noteq> tag);
                    new_profile = (\<not> profile_matches p \<or> fresh);
                    p = (if fresh then upd_batch (\<lambda>b. b\<lparr>fb_tx := fw_batch_tx_cancel (fb_tx b), fb_source_last_tag := tag\<rparr>) p else p);
                    p = (if new_profile then note_event e 16 1 0 tag (profile_begin e p) else p)
                in source_activity e (upd_batch (\<lambda>b. b\<lparr>fb_source_caps_tag := tag, fb_source_version := version,
                     fb_source_checksum := dv_running_fw_checksum (pl_device p), fb_source_enabled := True\<rparr>) p))"

definition profile_page :: "pull_env \<Rightarrow> u32 \<Rightarrow> pull \<Rightarrow> pull" where
  "profile_page e address p =
     (let p = (if \<not> profile_matches p then profile_begin e p else p);
          p = profile_mode e 1 address p;
          p = (if sp_last_page (pl_profile p) = address \<and> \<not> sp_retry_recorded (pl_profile p)
               then note_event e 16 4 (sp_mode (pl_profile p)) address (upd_profile (\<lambda>s. s\<lparr>sp_retry_recorded := True\<rparr>) p) else p)
      in if sp_finished (pl_profile p) then p
         else upd_profile (\<lambda>s.
           let s = (if sp_last_page s = address then s\<lparr>sp_retries := saturating_add32 (sp_retries s) 1\<rparr> else s);
               s = profile_page_stop e s;
               s = (if sp_page_ended s then s\<lparr>sp_page_gap_us := saturating_add32 (sp_page_gap_us s) (pe_now e - sp_page_ended_us s)\<rparr> else s)
           in s\<lparr>sp_page_ended := False, sp_page_started_us := pe_now e, sp_page_active := True, sp_last_page := address,
                sp_page_requests := saturating_add32 (sp_page_requests s) 1\<rparr>) p)"

definition receive_page_request :: "pull_env \<Rightarrow> bytes \<Rightarrow> pull \<Rightarrow> pull" where
  "receive_page_request e payload p =
     (let b = pl_batch p in
      if \<not> can_serve p \<or> \<not> fb_source_enabled b \<or> fb_source_version b \<noteq> dv_running_fw_version (pl_device p)
          \<or> fb_source_checksum b \<noteq> dv_running_fw_checksum (pl_device p) then p
      else case fw_batch_request_decode payload of
        None \<Rightarrow> p
      | Some (tag, address) \<Rightarrow>
          if tag \<le> fb_source_last_tag b then p
          else
            let page = read_flash_bytes (pl_store p) (unat address) 256;
                p = upd_batch (\<lambda>b. b\<lparr>fb_source_page := page, fb_tx := snd (fw_batch_tx_begin (fb_tx b) tag address (Some page)),
                  fb_source_last_tag := tag\<rparr>) p
            in source_activity e (profile_page e address p))"

definition profile_end :: "pull_env \<Rightarrow> pull \<Rightarrow> pull" where
  "profile_end e p =
     (if sp_active (pl_profile p) \<and> \<not> sp_finished (pl_profile p) then
        let p = upd_profile (\<lambda>s. (profile_page_stop e s)\<lparr>sp_page_ended := True, sp_page_ended_us := pe_now e\<rparr>) p;
            end_address = tx_address (fb_tx (pl_batch p)) + 256;
            p = profile_progress e end_address p
        in if end_address = 262144 then profile_finish e 6 p else p
      else p)"

definition firmware_batch_next_tx :: "pull_env \<Rightarrow> pull \<Rightarrow> uart_packet option \<times> pull" where
  "firmware_batch_next_tx e p =
     (if \<not> pe_got e then (None, p)
      else
        let p = (if \<not> can_serve p \<or> sp_active (pl_profile p) \<and> \<not> profile_matches p then upd_profile (\<lambda>_. zero_profile) p else p)
        in if \<not> can_serve p \<or> fb_source_version (pl_batch p) \<noteq> dv_running_fw_version (pl_device p)
               \<or> fb_source_checksum (pl_batch p) \<noteq> dv_running_fw_checksum (pl_device p)
           then (None, upd_batch (\<lambda>b. b\<lparr>fb_source_enabled := False, fb_tx := fw_batch_tx_cancel (fb_tx b)\<rparr>) p)
           else case fw_batch_tx_peek (fb_tx (pl_batch p)) of
             None \<Rightarrow> (None, p)
           | Some (kind, data) \<Rightarrow>
               let p = upd_batch (\<lambda>b. b\<lparr>fb_tx := snd (fw_batch_tx_sent (fb_tx b))\<rparr>) p;
                   p = (if kind = FW_BATCH_END then profile_end e p else p)
               in (Some \<lparr>pkt_type = (if kind = FW_BATCH_DATA then FW_BATCH_PAGE_DATA_MSG else FW_BATCH_PAGE_END_MSG), pkt_data = data,
                         pkt_checksum = 0\<rparr>, source_activity e p))"

text \<open>A request for one word. The answer waits for a slot in the transmit queue.\<close>

definition handle_request_byte_msg :: "pull_env \<Rightarrow> uart_packet \<Rightarrow> pull \<Rightarrow> pull" where
  "handle_request_byte_msg e packet p =
     (let address = get32 (pkt_data packet) 0; d = pl_device p in
      if dv_reboot_requested d \<or> dv_upgrade_in_progress d \<or> dv_maintenance_reserved d \<or> address > 262144 then p
      else case (if address < 262144 then read_running_firmware_word (pl_store p) (unat address) else Some 0) of
        None \<Rightarrow> p
      | Some data \<Rightarrow>
          upd_dev (queue_packet_blocking (take 4 (pkt_data packet) @ le32 data) (unat RESPONSE_BYTE_MSG))
            (firmware_source_word_locked e address (source_activity e p)))"

subsection \<open>Receiving\<close>

definition toggle_led :: "pull \<Rightarrow> pull" where
  "toggle_led p = p\<lparr>pl_led := \<not> pl_led p\<rparr>"

definition set_page_buffer :: "bytes \<Rightarrow> pull \<Rightarrow> pull" where
  "set_page_buffer b p = p\<lparr>pl_store := (pl_store p)\<lparr>s_page_buffer := b\<rparr>\<rparr>"

text \<open>The collector writes into the page buffer that it was given.\<close>

definition rx_into_buffer :: "fw_batch_kind \<times> bytes \<Rightarrow> pull \<Rightarrow> fw_batch_rx_result \<times> pull" where
  "rx_into_buffer x p =
     (case fw_batch_rx_receive (fb_rx (pl_batch p)) x of
        (r, rx) \<Rightarrow> (r, set_page_buffer (case rx_page rx of Some b \<Rightarrow> b | None \<Rightarrow> s_page_buffer (pl_store p))
          (upd_batch (\<lambda>b. b\<lparr>fb_rx := rx\<rparr>) p)))"

definition page_received :: "pull_env \<Rightarrow> pull \<Rightarrow> pull" where
  "page_received e p =
     (let address = fu_address (pl_fw p);
          p = (if address AND 0xfff = 0 then toggle_led p else p);
          p = (if address < 258048
               then upd_fw (\<lambda>f. f\<lparr>fu_checksum := foldl crc32_iter (fu_checksum f) (s_page_buffer (pl_store p))\<rparr>) p else p);
          p = upd_fw (\<lambda>f. f\<lparr>fu_address := fu_address f + 256, fu_progressed_at_us := pe_now32 e, fu_request_pending := False,
                fu_byte_done := True, fu_page_pending := True\<rparr>) p;
          p = upd_batch (\<lambda>b. b\<lparr>fb_page_attempts := 0\<rparr>) p
      in note_runtime e (diagnostic_update_progress (pe_now e) (fu_address (pl_fw p))) p)"

definition receive_page_data :: "pull_env \<Rightarrow> uart_packet \<Rightarrow> pull \<Rightarrow> pull" where
  "receive_page_data e packet p =
     (let f = pl_fw p; d = pl_device p in
      if dv_reboot_requested d \<or> dv_maintenance_reserved d \<or> fu_source f \<noteq> FW_UPDATE_SOURCE_PULL \<or> \<not> fu_request_pending f
          \<or> fb_mode (pl_batch p) \<noteq> FW_BATCH_PAGES \<or> rx_address (fb_rx (pl_batch p)) \<noteq> fu_address f then p
      else case rx_into_buffer (if pkt_type packet = FW_BATCH_PAGE_DATA_MSG then FW_BATCH_DATA else FW_BATCH_END, pkt_data packet) p of
        (r, p) \<Rightarrow> if r \<noteq> FW_BATCH_RX_COMPLETE then p else page_received e p)"

definition receive_caps_response :: "bytes \<Rightarrow> pull \<Rightarrow> pull" where
  "receive_caps_response payload p =
     (let f = pl_fw p; d = pl_device p; b = pl_batch p in
      if \<not> dv_reboot_requested d \<and> \<not> dv_maintenance_reserved d \<and> fu_source f = FW_UPDATE_SOURCE_PULL \<and> fu_address f = 0
          \<and> fb_mode b = FW_BATCH_WAIT_CAPS \<and> fw_batch_caps_response_matches payload (fb_caps_tag b) (fu_peer_checksum f)
      then upd_fw (\<lambda>f. f\<lparr>fu_byte_done := True\<rparr>) (upd_batch (\<lambda>b. b\<lparr>fb_mode := FW_BATCH_PAGES\<rparr>) p) else p)"

definition firmware_batch_packet :: "pull_env \<Rightarrow> uart_packet \<Rightarrow> pull \<Rightarrow> pull" where
  "firmware_batch_packet e packet p =
     (if pkt_type packet = FW_BATCH_CAPS_REQUEST_MSG then receive_caps_request e (pkt_data packet) p
      else if pkt_type packet = FW_BATCH_CAPS_RESPONSE_MSG then receive_caps_response (pkt_data packet) p
      else if pkt_type packet = FW_BATCH_PAGE_REQUEST_MSG then receive_page_request e (pkt_data packet) p
      else if pkt_type packet = FW_BATCH_PAGE_DATA_MSG \<or> pkt_type packet = FW_BATCH_PAGE_END_MSG then receive_page_data e packet p
      else p)"

definition handle_response_byte_msg :: "pull_env \<Rightarrow> uart_packet \<Rightarrow> pull \<Rightarrow> pull" where
  "handle_response_byte_msg e packet p =
     (let address = get32 (pkt_data packet) 0; word = slice (pkt_data packet) 4 4; f = pl_fw p in
      if dv_reboot_requested (pl_device p) \<or> \<not> firmware_batch_accepts_word p then p
      else if \<not> fw_update_response_expected (fu_source f) (fu_request_pending f) (fu_address f) address then p
      else if address \<ge> 262144 \<or> address mod 4 \<noteq> 0 then p
      else
        let p = (if address AND 0xfff = 0 then toggle_led p else p);
            p = (if address < 258048 then upd_fw (\<lambda>f. f\<lparr>fu_checksum := foldl crc32_iter (fu_checksum f) word\<rparr>) p else p);
            p = set_page_buffer (blit (s_page_buffer (pl_store p)) (unat address mod 256) word) p;
            p = upd_fw (\<lambda>f. f\<lparr>fu_address := fu_address f + 4\<rparr>) p;
            p = (if fu_address (pl_fw p) mod 256 = 0
                 then note_runtime e (diagnostic_update_progress (pe_now e) (fu_address (pl_fw p))) (upd_fw (\<lambda>f. f\<lparr>fu_page_pending := True\<rparr>) p)
                 else p)
        in upd_fw (\<lambda>f. f\<lparr>fu_progressed_at_us := pe_now32 e, fu_request_pending := False, fu_byte_done := True\<rparr>) p)"

subsection \<open>Heartbeats\<close>

definition fresh_pull :: "u16 \<Rightarrow> u32 \<Rightarrow> u32 \<Rightarrow> bool \<Rightarrow> fw_upgrade" where
  "fresh_pull version peer_checksum now byte_done = zero_fw\<lparr>fu_byte_done := byte_done, fu_source := FW_UPDATE_SOURCE_PULL,
     fu_version := version, fu_peer_checksum := peer_checksum, fu_checksum := 0xffffffff, fu_requested_at_us := now,
     fu_progressed_at_us := now\<rparr>"

definition set_flags :: "bool \<Rightarrow> bool \<Rightarrow> pull \<Rightarrow> pull" where
  "set_flags in_progress dirty = upd_dev (\<lambda>d. d\<lparr>dv_upgrade_in_progress := in_progress, dv_image_dirty := dirty\<rparr>)"

definition begin_firmware_pull :: "pull_env \<Rightarrow> u16 \<Rightarrow> u32 \<Rightarrow> bool \<Rightarrow> bool \<Rightarrow> pull \<Rightarrow> pull" where
  "begin_firmware_pull e version peer_checksum dirty drain_old p =
     firmware_batch_begin_locked
       (note_runtime e (diagnostic_update_begin (pe_now e) DIAGNOSTIC_SOURCE_PEER version)
          (set_flags True dirty (upd_fw (\<lambda>_. fresh_pull version peer_checksum (pe_now32 e) (\<not> drain_old)) p)))"

definition pause_pull :: "pull_env \<Rightarrow> pull \<Rightarrow> pull" where
  "pause_pull e p = note_runtime e (diagnostic_update_phase DIAGNOSTIC_UPDATE_PAUSED)
     (upd_fw (\<lambda>f. f\<lparr>fu_source := FW_UPDATE_SOURCE_PULL_PAUSED, fu_request_pending := False, fu_byte_done := False\<rparr>) p)"

definition abandon_pull :: "pull_env \<Rightarrow> pull \<Rightarrow> pull" where
  "abandon_pull e p = set_flags False False (upd_fw (\<lambda>_. zero_fw) (note_runtime e (diagnostic_update_phase DIAGNOSTIC_UPDATE_ABANDONED) p))"

definition pause_or_abandon :: "pull_env \<Rightarrow> pull \<Rightarrow> pull" where
  "pause_or_abandon e p = (if dv_image_dirty (pl_device p) then pause_pull e p else abandon_pull e p)"

definition handle_heartbeat_msg :: "pull_env \<Rightarrow> uart_packet \<Rightarrow> pull \<Rightarrow> pull" where
  "handle_heartbeat_msg e packet p =
     (let version = get16 (pkt_data packet) 0; checksum = get32 (pkt_data packet) 4; marker = get16 (pkt_data packet) 2;
          d = pl_device p; f = pl_fw p; running = dv_running_fw_version d; dirty = dv_image_dirty d
      in
      if dv_reboot_requested d \<or> dv_maintenance_reserved d then p
      else if \<not> fw_update_peer_compatible marker then
        if fu_source f = FW_UPDATE_SOURCE_PULL then pause_or_abandon e p else p
      else
        let p = p\<lparr>pl_peer_fw_last_seen_us := pe_now32 e\<rparr> in
        if fu_source f = FW_UPDATE_SOURCE_PULL_PAUSED then
          if version \<ge> running then begin_firmware_pull e version checksum dirty True p else p
        else if fu_source f = FW_UPDATE_SOURCE_PULL then
          if version \<noteq> fu_version f \<or> checksum \<noteq> fu_peer_checksum f then
            if version > running \<or> dirty \<and> version = running then begin_firmware_pull e version checksum dirty True p
            else pause_or_abandon e p
          else p
        else if dv_upgrade_in_progress d then p
        else if version \<le> running then p
        else begin_firmware_pull e version checksum False False p)"

subsection \<open>The task\<close>

definition commit_pending_firmware_page :: "pull_env \<Rightarrow> pull \<Rightarrow> pull" where
  "commit_pending_firmware_page e p =
     (if \<not> fu_page_pending (pl_fw p) then p
      else upd_fw (\<lambda>f. f\<lparr>fu_page_pending := False\<rparr>) (upd_dev (\<lambda>d. d\<lparr>dv_image_dirty := True\<rparr>)
        (p\<lparr>pl_store := write_flash_page (pe_hw e) (unat (fu_address (pl_fw p) - 256)) (s_page_buffer (pl_store p)) (pl_store p)\<rparr>)))"

definition finish_pull :: "pull_env \<Rightarrow> pull \<Rightarrow> pull" where
  "finish_pull e p =
     (let p = upd_dev (\<lambda>d. d\<lparr>dv_upgrade_in_progress := False\<rparr>)
            (upd_fw (\<lambda>f. f\<lparr>fu_source := FW_UPDATE_SOURCE_NONE, fu_checksum := NOT (fu_checksum f)\<rparr>) p);
          p = note_runtime e (diagnostic_update_phase DIAGNOSTIC_UPDATE_VALIDATING) p;
          f = pl_fw p
      in if fu_checksum f \<noteq> fu_peer_checksum f \<or> \<not> firmware_image_is_valid (pl_store p) (fu_version f) (fu_checksum f) True then
           let p = note_runtime e (diagnostic_update_phase DIAGNOSTIC_UPDATE_FAILED) p
           in upd_dev (log_call Reset_usb_boot) (p\<lparr>pl_store := enter_firmware_recovery (pe_hw e) (pl_store p)\<rparr>)
         else
           let p = upd_dev (\<lambda>d. d\<lparr>dv_image_dirty := False, dv_running_fw_version := fu_version f, dv_running_fw_checksum := fu_checksum f\<rparr>) p;
               p = note_runtime e (diagnostic_update_phase DIAGNOSTIC_UPDATE_REBOOT_PENDING) p
           in upd_dev (\<lambda>d. d\<lparr>dv_reboot_requested := True\<rparr>) p)"

definition advance_pull :: "pull_env \<Rightarrow> pull \<Rightarrow> pull" where
  "advance_pull e p =
     (if \<not> fu_byte_done (pl_fw p) then snd (firmware_batch_request_locked e (fu_address (pl_fw p)) p)
      else
        let p = (if fb_mode (pl_batch p) = FW_BATCH_PAGES then commit_pending_firmware_page e p else p)
        in if fu_address (pl_fw p) \<ge> 262144 then finish_pull e (commit_pending_firmware_page e p)
           else case firmware_batch_request_locked e (fu_address (pl_fw p)) p of
             (False, p) \<Rightarrow> p
           | (True, p) \<Rightarrow> commit_pending_firmware_page e p)"

definition firmware_upgrade_task :: "pull_env \<Rightarrow> pull \<Rightarrow> pull" where
  "firmware_upgrade_task e p =
     (let f = pl_fw p; d = pl_device p in
      if dv_reboot_requested d \<or> \<not> dv_upgrade_in_progress d then p
      else case fw_update_next_action (fu_source f) (fu_byte_done f) (dv_image_dirty d) (pe_now32 e) (fu_requested_at_us f)
          (fu_progressed_at_us f) (pl_peer_fw_last_seen_us p) of
        FW_UPDATE_WAIT \<Rightarrow> p
      | FW_UPDATE_ABANDON \<Rightarrow> abandon_pull e p
      | FW_UPDATE_RESTART \<Rightarrow>
          firmware_batch_begin_locked
            (note_runtime e (diagnostic_update_begin (pe_now e) DIAGNOSTIC_SOURCE_PEER (fu_version f))
               (set_flags True (dv_image_dirty d) (upd_fw (\<lambda>f. fresh_pull (fu_version f) (fu_peer_checksum f) (pe_now32 e) False) p)))
      | FW_UPDATE_PAUSE \<Rightarrow> pause_pull e p
      | FW_UPDATE_REQUEST \<Rightarrow> advance_pull e p)"

subsection \<open>What bookkeeping leaves alone\<close>

text \<open>Notes, profiles and activity stamps change none of the fields that steer a pull.\<close>

definition steering :: "pull \<Rightarrow> device \<times> fw_upgrade \<times> store \<times> fw_batch_state \<times> u32" where
  "steering p = (pl_device p, pl_fw p, pl_store p, (pl_batch p)\<lparr>fb_profile := zero_profile\<rparr>, pl_peer_fw_last_seen_us p)"

lemma steeringD:
  assumes "steering p = steering q"
  shows "pl_device p = pl_device q" "pl_fw p = pl_fw q" "pl_store p = pl_store q" "pl_peer_fw_last_seen_us p = pl_peer_fw_last_seen_us q"
    "fb_rx (pl_batch p) = fb_rx (pl_batch q)" "fb_tx (pl_batch p) = fb_tx (pl_batch q)" "fb_mode (pl_batch p) = fb_mode (pl_batch q)"
    "fb_tokens (pl_batch p) = fb_tokens (pl_batch q)" "fb_pending_tag (pl_batch p) = fb_pending_tag (pl_batch q)"
    "fb_source_last_tag (pl_batch p) = fb_source_last_tag (pl_batch q)" "fb_source_enabled (pl_batch p) = fb_source_enabled (pl_batch q)"
    "fb_source_version (pl_batch p) = fb_source_version (pl_batch q)" "fb_source_checksum (pl_batch p) = fb_source_checksum (pl_batch q)"
    "fb_page_attempts (pl_batch p) = fb_page_attempts (pl_batch q)"
proof -
  have b: "(pl_batch p)\<lparr>fb_profile := zero_profile\<rparr> = (pl_batch q)\<lparr>fb_profile := zero_profile\<rparr>"
    and "pl_device p = pl_device q" "pl_fw p = pl_fw q" "pl_store p = pl_store q" "pl_peer_fw_last_seen_us p = pl_peer_fw_last_seen_us q"
    using assms by (simp_all add: steering_def)
  then show "pl_device p = pl_device q" "pl_fw p = pl_fw q" "pl_store p = pl_store q" "pl_peer_fw_last_seen_us p = pl_peer_fw_last_seen_us q"
    by simp_all
  show "fb_rx (pl_batch p) = fb_rx (pl_batch q)" "fb_tx (pl_batch p) = fb_tx (pl_batch q)" "fb_mode (pl_batch p) = fb_mode (pl_batch q)"
    "fb_tokens (pl_batch p) = fb_tokens (pl_batch q)" "fb_pending_tag (pl_batch p) = fb_pending_tag (pl_batch q)"
    "fb_source_last_tag (pl_batch p) = fb_source_last_tag (pl_batch q)" "fb_source_enabled (pl_batch p) = fb_source_enabled (pl_batch q)"
    "fb_source_version (pl_batch p) = fb_source_version (pl_batch q)" "fb_source_checksum (pl_batch p) = fb_source_checksum (pl_batch q)"
    "fb_page_attempts (pl_batch p) = fb_page_attempts (pl_batch q)"
    using arg_cong [OF b, of fb_rx] arg_cong [OF b, of fb_tx] arg_cong [OF b, of fb_mode] arg_cong [OF b, of fb_tokens]
      arg_cong [OF b, of fb_pending_tag] arg_cong [OF b, of fb_source_last_tag] arg_cong [OF b, of fb_source_enabled]
      arg_cong [OF b, of fb_source_version] arg_cong [OF b, of fb_source_checksum] arg_cong [OF b, of fb_page_attempts]
    by simp_all
qed

lemma steering_note [simp]: "steering (note_event e type a b v p) = steering p"
  by (simp add: steering_def note_event_def)

lemma steering_fold:
  "(\<And>x q. x \<in> set xs \<Longrightarrow> steering (f x q) = steering q) \<Longrightarrow> steering (fold f xs p) = steering p"
  by (induction xs arbitrary: p) simp_all

lemma steering_runtime [simp]: "steering (note_runtime e g p) = steering p"
proof -
  have "steering (fold (\<lambda>(type, a, b, v). note_event e type a b v) cs q) = steering q" for cs q
    by (rule steering_fold) (auto split: prod.splits)
  then have "steering (note_runtime e g p) = steering (p\<lparr>pl_runtime := fst (g (pl_runtime p))\<rparr>)"
    by (simp add: note_runtime_def split: prod.splits)
  then show ?thesis by (simp add: steering_def)
qed

lemma steering_profile [simp]: "steering (upd_profile g p) = steering p"
  by (simp add: steering_def upd_profile_def upd_batch_def)

lemma steering_profiles [simp]:
  "steering (profile_begin e p) = steering p" "steering (profile_mode e mode a p) = steering p"
  "steering (profile_progress e n p) = steering p" "steering (profile_finish e ph p) = steering p"
  "steering (source_activity e p) = steering p" "steering (toggle_led p) = steering p"
  "steering (profile_page e a p) = steering p" "steering (profile_end e p) = steering p"
  "steering (firmware_source_word_locked e a p) = steering p"
proof -
  show a: "steering (profile_begin e p) = steering p" "steering (profile_mode e mode a p) = steering p"
    "steering (profile_progress e n p) = steering p" for p mode a n
    by (simp_all add: profile_begin_def profile_mode_def profile_progress_def Let_def)
  have "steering (fold (\<lambda>(i, t). note_event e ty i m t) xs q) = steering q" for ty m and xs :: "(u8 \<times> u32) list" and q
    by (rule steering_fold) (auto split: prod.splits)
  then show f: "steering (profile_finish e ph p) = steering p" for p ph
    unfolding profile_finish_def Let_def by (simp del: fold.simps)
  show act: "steering (source_activity e p) = steering p" "steering (toggle_led p) = steering p" for p
    by (simp_all add: source_activity_def toggle_led_def steering_def)
  show "steering (profile_page e a p) = steering p" by (simp add: profile_page_def Let_def a)
  show "steering (profile_end e p) = steering p" by (simp add: profile_end_def Let_def a f)
  show "steering (firmware_source_word_locked e a p) = steering p"
    by (simp add: firmware_source_word_locked_def Let_def a f)
qed

lemma steering_fields [simp]:
  "pl_device (note_runtime e g p) = pl_device p" "pl_fw (note_runtime e g p) = pl_fw p" "pl_store (note_runtime e g p) = pl_store p"
  "pl_device (toggle_led p) = pl_device p" "pl_fw (toggle_led p) = pl_fw p" "pl_store (toggle_led p) = pl_store p"
  "fb_rx (pl_batch (note_runtime e g p)) = fb_rx (pl_batch p)" "fb_mode (pl_batch (note_runtime e g p)) = fb_mode (pl_batch p)"
  "fb_rx (pl_batch (toggle_led p)) = fb_rx (pl_batch p)" "fb_mode (pl_batch (toggle_led p)) = fb_mode (pl_batch p)"
  using steeringD [OF steering_runtime] steeringD [OF steering_profiles(6)] by simp_all

subsection \<open>Events\<close>

text \<open>Packets for the updater, its task and its transmit slot. The rest of the board changes the device, but not the updater's
  fields in it, and never withdraws a reboot.\<close>

datatype pull_event =
    Heartbeat uart_packet
  | Word_request uart_packet
  | Word_response uart_packet
  | Batch_packet uart_packet
  | Next_tx
  | Pull_task
  | Device_changes device

definition device_changed :: "device \<Rightarrow> device \<Rightarrow> device" where
  "device_changed d d' = d'\<lparr>dv_upgrade_in_progress := dv_upgrade_in_progress d, dv_image_dirty := dv_image_dirty d,
     dv_running_fw_version := dv_running_fw_version d, dv_running_fw_checksum := dv_running_fw_checksum d,
     dv_reboot_requested := dv_reboot_requested d \<or> dv_reboot_requested d', dv_calls := dv_calls d @ dv_calls d'\<rparr>"

fun pull_step :: "pull \<Rightarrow> pull_env \<times> pull_event \<Rightarrow> unit \<times> pull" where
  "pull_step p (e, Heartbeat x) = ((), handle_heartbeat_msg e x p)"
| "pull_step p (e, Word_request x) = ((), handle_request_byte_msg e x p)"
| "pull_step p (e, Word_response x) = ((), handle_response_byte_msg e x p)"
| "pull_step p (e, Batch_packet x) = ((), firmware_batch_packet e x p)"
| "pull_step p (e, Next_tx) = ((), snd (firmware_batch_next_tx e p))"
| "pull_step p (e, Pull_task) = ((), firmware_upgrade_task e p)"
| "pull_step p (e, Device_changes d) = ((), upd_dev (\<lambda>old. device_changed old d) p)"

definition advertised :: "pull_event list \<Rightarrow> u16 \<Rightarrow> u32 \<Rightarrow> bool" where
  "advertised H version checksum \<longleftrightarrow> (\<exists>x. Heartbeat x \<in> set H \<and> get16 (pkt_data x) 2 = 0xd485 \<and>
     get16 (pkt_data x) 0 = version \<and> get32 (pkt_data x) 4 = checksum)"

end
