(* ===== verification/Fw_Pull_Inv.thy ===== *)
theory Fw_Pull_Inv
  imports Fw_Pull
begin

text \<open>
  What holds of the updater at every moment: the address stays in the slot, a page waiting to be written blocks further requests, a pull
  is for a version and checksum that a heartbeat advertised, and flash changes only in the slot and only with the image marked dirty.
  Each event keeps this invariant, and a reboot is requested only by the last step of a pull.
\<close>

unbundle bit_operations_syntax

subsection \<open>Invariant\<close>

definition pulling :: "fw_upgrade \<Rightarrow> bool" where
  "pulling f \<longleftrightarrow> fu_source f = FW_UPDATE_SOURCE_PULL \<or> fu_source f = FW_UPDATE_SOURCE_PULL_PAUSED"

text \<open>The address stays in the slot; a pending page ends at it; only a page boundary is asked for in pages.\<close>

definition address_ok :: "fw_upgrade \<Rightarrow> fw_batch_rx \<Rightarrow> fw_batch_mode \<Rightarrow> bool" where
  "address_ok f rx mode \<longleftrightarrow> unat (fu_address f) \<le> 262144 \<and> (fu_page_pending f \<longrightarrow> 256 \<le> unat (fu_address f) \<and> unat (fu_address f) mod 256 = 0)
     \<and> (rx_active rx \<longrightarrow> valid_address (rx_address rx)) \<and> (mode = FW_BATCH_PROBE \<or> mode = FW_BATCH_WAIT_CAPS \<longrightarrow> unat (fu_address f) < 256)"

text \<open>A pending page waits for the task: nothing else is requested meanwhile.\<close>

definition pending_ok :: "fw_upgrade \<Rightarrow> bool" where
  "pending_ok f \<longleftrightarrow> (fu_page_pending f \<longrightarrow> \<not> fu_request_pending f \<and> (fu_source f = FW_UPDATE_SOURCE_PULL \<longrightarrow> fu_byte_done f))"

definition promised :: "pull_event list \<Rightarrow> device \<Rightarrow> fw_upgrade \<Rightarrow> bool" where
  "promised H d f \<longleftrightarrow> (pulling f \<longrightarrow> dv_upgrade_in_progress d \<and>
     advertised H (fu_version f) (fu_peer_checksum f) \<and> dv_running_fw_version d \<le> fu_version f)"

text \<open>Outside the slot flash is as it was; in the slot too while the image is not marked dirty, until the board reboots or leaves for
  its ROM.\<close>

definition left :: "device \<Rightarrow> bool" where
  "left d \<longleftrightarrow> dv_reboot_requested d \<or> Reset_usb_boot \<in> set (dv_calls d)"

definition flash_ok :: "bytes \<Rightarrow> device \<Rightarrow> fw_upgrade \<Rightarrow> store \<Rightarrow> bool" where
  "flash_ok fl d f st \<longleftrightarrow> length (s_flash st) = length fl \<and> (\<forall>i. SLOT_SIZE \<le> i \<longrightarrow> i < length fl \<longrightarrow> s_flash st ! i = fl ! i) \<and>
     (\<not> dv_image_dirty d \<and> \<not> left d \<longrightarrow> s_flash st = fl) \<and>
     (pulling f \<and> 256 \<le> unat (fu_address f) \<longrightarrow> fu_page_pending f \<or> dv_image_dirty d) \<and> (dv_image_dirty d \<longrightarrow> pulling f \<or> left d)"

definition pull_inv :: "bytes \<Rightarrow> pull_event list \<Rightarrow> pull \<Rightarrow> bool" where
  "pull_inv fl H p \<longleftrightarrow> address_ok (pl_fw p) (fb_rx (pl_batch p)) (fb_mode (pl_batch p)) \<and> pending_ok (pl_fw p) \<and>
     promised H (pl_device p) (pl_fw p) \<and> flash_ok fl (pl_device p) (pl_fw p) (pl_store p)"

text \<open>Only these fields of the device matter.\<close>

definition flags_of :: "device \<Rightarrow> bool \<times> bool \<times> bool \<times> bool \<times> u16" where
  "flags_of d = (dv_upgrade_in_progress d, dv_image_dirty d, dv_reboot_requested d, left d, dv_running_fw_version d)"

lemma pull_inv_cong:
  assumes "pl_fw q = pl_fw p" "fb_rx (pl_batch q) = fb_rx (pl_batch p)" "fb_mode (pl_batch q) = fb_mode (pl_batch p)"
    "flags_of (pl_device q) = flags_of (pl_device p)" "s_flash (pl_store q) = s_flash (pl_store p)"
  shows "pull_inv fl H q = pull_inv fl H p"
  using assms by (simp add: pull_inv_def promised_def flash_ok_def flags_of_def)

lemma pull_inv_steering: "steering q = steering p \<Longrightarrow> pull_inv fl H q = pull_inv fl H p"
  using steeringD [of q p] by (intro pull_inv_cong) simp_all

lemma promised_mono: "promised H d f \<Longrightarrow> promised (H @ [x]) d f"
  by (auto simp: promised_def advertised_def)

lemma pull_inv_mono: "pull_inv fl H p \<Longrightarrow> pull_inv fl (H @ [x]) p"
  by (auto simp: pull_inv_def promised_mono)

lemma flags_of_queue [simp]: "flags_of (d\<lparr>dv_uart_tx_queue := q\<rparr>) = flags_of d"
  by (simp add: flags_of_def left_def)

lemma flags_of_send: "send_packet data t p = (ok, q) \<Longrightarrow> flags_of (pl_device q) = flags_of (pl_device p)"
  using queue_packet_dev_frame by (fastforce simp: send_packet_def split: prod.splits)

lemma send_fields:
  assumes "send_packet data t p = (ok, q)"
  shows "pl_fw q = pl_fw p" "pl_batch q = pl_batch p" "pl_store q = pl_store p"
  using assms by (auto simp: send_packet_def split: prod.splits)

text \<open>Requests.\<close>

definition asking :: "fw_upgrade \<Rightarrow> fw_upgrade \<Rightarrow> bool" where
  "asking f f' \<longleftrightarrow> fu_address f' = fu_address f \<and> fu_checksum f' = fu_checksum f \<and> fu_peer_checksum f' = fu_peer_checksum f \<and>
     fu_progressed_at_us f' = fu_progressed_at_us f \<and> fu_version f' = fu_version f \<and> fu_source f' = fu_source f \<and>
     fu_page_pending f' = fu_page_pending f"

lemma asking_refl: "asking f f" and asking_trans: "asking f g \<Longrightarrow> asking g h \<Longrightarrow> asking f h"
  by (simp_all add: asking_def)

lemma request_byte_frame:
  assumes "request_byte e a p = (ok, q)"
  shows "asking (pl_fw p) (pl_fw q)" "pl_batch q = pl_batch p" "pl_store q = pl_store p" "flags_of (pl_device q) = flags_of (pl_device p)"
    "\<not> ok \<Longrightarrow> q = p"
  using assms
  by (auto simp: request_byte_def upd_fw_def upd_dev_def asking_def split: prod.splits bool.splits)

lemma use_words_frame:
  "asking (pl_fw p) (pl_fw (use_words p))" "pl_store (use_words p) = pl_store p" "pl_device (use_words p) = pl_device p"
  "\<not> rx_active (fb_rx (pl_batch (use_words p)))" "fb_mode (pl_batch (use_words p)) = FW_BATCH_LEGACY"
  "fu_request_pending (pl_fw (use_words p)) = False" "fu_byte_done (pl_fw (use_words p)) = fu_byte_done (pl_fw p)"
  by (simp_all add: use_words_def upd_fw_def upd_batch_def fw_batch_rx_cancel_def asking_def)

lemma take_tag_frame:
  "take_tag b = (ok, b') \<Longrightarrow> fb_rx b' = fb_rx b \<and> fb_mode b' = fb_mode b"
  by (auto simp: take_tag_def split: if_splits prod.splits option.splits)

definition request_ok :: "pull \<Rightarrow> bool \<Rightarrow> pull \<Rightarrow> bool" where
  "request_ok p ok q \<longleftrightarrow> asking (pl_fw p) (pl_fw q) \<and> pl_store q = pl_store p \<and> flags_of (pl_device q) = flags_of (pl_device p) \<and>
     (rx_active (fb_rx (pl_batch q)) \<longrightarrow> rx_active (fb_rx (pl_batch p)) \<and> rx_address (fb_rx (pl_batch q)) = rx_address (fb_rx (pl_batch p))
        \<or> valid_address (rx_address (fb_rx (pl_batch q)))) \<and>
     (fb_mode (pl_batch q) = FW_BATCH_PROBE \<or> fb_mode (pl_batch q) = FW_BATCH_WAIT_CAPS \<longrightarrow>
        fb_mode (pl_batch p) = FW_BATCH_PROBE \<or> fb_mode (pl_batch p) = FW_BATCH_WAIT_CAPS) \<and>
     (\<not> ok \<and> fb_mode (pl_batch p) = FW_BATCH_LEGACY \<longrightarrow> q = p)"

lemma words_request_ok:
  assumes "request_byte e a (use_words (p\<lparr>pl_batch := b\<rparr>)) = (ok, q)" "fb_mode (pl_batch p) \<noteq> FW_BATCH_LEGACY"
  shows "request_ok p ok q"
proof -
  note r = request_byte_frame [OF assms(1)] and u = use_words_frame [of "p\<lparr>pl_batch := b\<rparr>"]
  have "asking (pl_fw p) (pl_fw q)" using asking_trans [OF u(1) r(1)] by simp
  then show ?thesis using r(2-4) u(2-5) assms(2) by (simp add: request_ok_def)
qed

lemma request_caps_ok:
  assumes "request_caps e p = (ok, q)" "fb_mode (pl_batch p) = FW_BATCH_PROBE"
  shows "request_ok p ok q"
proof -
  obtain x where x: "request_caps e p = (case send_packet x (unat FW_BATCH_CAPS_REQUEST_MSG) p of
      (False, p) \<Rightarrow> (False, p)
    | (True, p) \<Rightarrow> (False, upd_fw (\<lambda>f. f\<lparr>fu_byte_done := False, fu_request_pending := False, fu_requested_at_us := pe_now32 e\<rparr>)
        (upd_batch (\<lambda>b. b\<lparr>fb_caps_tag := fb_pending_tag b, fb_pending_tag := 0, fb_mode := FW_BATCH_WAIT_CAPS\<rparr>) p)))"
    by (simp add: request_caps_def Let_def)
  obtain s p1 where s: "send_packet x (unat FW_BATCH_CAPS_REQUEST_MSG) p = (s, p1)" by fastforce
  show ?thesis
    using assms x send_fields [OF s] flags_of_send [OF s] asking_refl [of "pl_fw p"]
    by (cases s) (auto simp: s [simplified] request_ok_def upd_fw_def upd_batch_def asking_def)
qed

lemma request_page_ok:
  assumes "request_page e a p = (ok, q)" "fb_mode (pl_batch p) = FW_BATCH_PAGES"
  shows "request_ok p ok q"
proof (cases "fw_batch_request_encode (fb_pending_tag (pl_batch p)) a")
  case None
  then show ?thesis using assms asking_refl by (simp add: request_page_def request_ok_def)
next
  case (Some x)
  obtain s p1 where s: "send_packet x (unat FW_BATCH_PAGE_REQUEST_MSG) p = (s, p1)" by fastforce
  show ?thesis
    using assms Some send_fields [OF s] flags_of_send [OF s] asking_refl [of "pl_fw p"]
    by (cases s) (auto simp: s [simplified] request_page_def request_ok_def upd_fw_def upd_batch_def asking_def fw_batch_rx_begin_def
        split: if_splits)
qed

lemma request_locked_ok:
  assumes "firmware_batch_request_locked e a p = (ok, q)"
  shows "request_ok p ok q"
proof (cases "fb_mode (pl_batch p)")
  case FW_BATCH_LEGACY
  then show ?thesis
    using assms request_byte_frame [of e a p ok q] by (auto simp: firmware_batch_request_locked_def request_ok_def)
next
  case FW_BATCH_PROBE
  obtain s b where t: "take_tag (pl_batch p) = (s, b)" by fastforce
  then have m: "fb_rx b = fb_rx (pl_batch p)" "fb_mode b = FW_BATCH_PROBE" using take_tag_frame [OF t] FW_BATCH_PROBE by simp_all
  show ?thesis
  proof (cases s)
    case True
    then have "request_ok (p\<lparr>pl_batch := b\<rparr>) ok q"
      using assms t m by (intro request_caps_ok [of e]) (simp_all add: firmware_batch_request_locked_def FW_BATCH_PROBE)
    then show ?thesis using m FW_BATCH_PROBE by (simp add: request_ok_def)
  next
    case False
    then show ?thesis
      using assms t by (intro words_request_ok [of e a b p]) (simp_all add: firmware_batch_request_locked_def FW_BATCH_PROBE)
  qed
next
  case FW_BATCH_WAIT_CAPS
  then show ?thesis
    using assms words_request_ok [of e a "pl_batch p" p ok q] by (simp add: firmware_batch_request_locked_def)
next
  case FW_BATCH_PAGES
  obtain s b where t: "take_tag (pl_batch p) = (s, b)" by fastforce
  then have m: "fb_rx b = fb_rx (pl_batch p)" "fb_mode b = FW_BATCH_PAGES" using take_tag_frame [OF t] FW_BATCH_PAGES by simp_all
  show ?thesis
  proof (cases "\<not> fb_page_attempts (pl_batch p) \<ge> 3 \<and> s")
    case True
    then have "request_ok (p\<lparr>pl_batch := b\<rparr>) ok q"
      using assms t m by (intro request_page_ok [of e a]) (simp_all add: firmware_batch_request_locked_def FW_BATCH_PAGES)
    then show ?thesis using m FW_BATCH_PAGES by (simp add: request_ok_def)
  next
    case False
    then show ?thesis
      using assms t words_request_ok [of e a b p ok q] words_request_ok [of e a "pl_batch p" p ok q]
      by (auto simp: firmware_batch_request_locked_def FW_BATCH_PAGES split: if_splits)
  qed
qed

text \<open>A request keeps everything but perhaps the rule for a pending page.\<close>

lemma request_parts:
  assumes "request_ok p ok q" "address_ok (pl_fw p) (fb_rx (pl_batch p)) (fb_mode (pl_batch p))" "promised H (pl_device p) (pl_fw p)"
    "flash_ok fl (pl_device p) (pl_fw p) (pl_store p)"
  shows "address_ok (pl_fw q) (fb_rx (pl_batch q)) (fb_mode (pl_batch q))" "promised H (pl_device q) (pl_fw q)"
    "flash_ok fl (pl_device q) (pl_fw q) (pl_store q)" "fu_page_pending (pl_fw q) = fu_page_pending (pl_fw p)"
    "fu_source (pl_fw q) = fu_source (pl_fw p)" "fu_address (pl_fw q) = fu_address (pl_fw p)"
proof -
  have f: "fu_address (pl_fw q) = fu_address (pl_fw p)" "fu_page_pending (pl_fw q) = fu_page_pending (pl_fw p)"
    "fu_source (pl_fw q) = fu_source (pl_fw p)" "fu_version (pl_fw q) = fu_version (pl_fw p)"
    "fu_peer_checksum (pl_fw q) = fu_peer_checksum (pl_fw p)"
    and d: "dv_image_dirty (pl_device q) = dv_image_dirty (pl_device p)"
    "dv_upgrade_in_progress (pl_device q) = dv_upgrade_in_progress (pl_device p)" "left (pl_device q) = left (pl_device p)"
    "dv_running_fw_version (pl_device q) = dv_running_fw_version (pl_device p)" and st: "pl_store q = pl_store p"
    using assms(1) by (simp_all add: request_ok_def asking_def flags_of_def)
  show "fu_page_pending (pl_fw q) = fu_page_pending (pl_fw p)" "fu_source (pl_fw q) = fu_source (pl_fw p)"
    "fu_address (pl_fw q) = fu_address (pl_fw p)" by (simp_all add: f)
  show "promised H (pl_device q) (pl_fw q)" using assms(3) by (simp add: promised_def pulling_def f d)
  show "flash_ok fl (pl_device q) (pl_fw q) (pl_store q)" using assms(4) by (simp add: flash_ok_def pulling_def f d st)
  have rx: "rx_active (fb_rx (pl_batch q)) \<longrightarrow> valid_address (rx_address (fb_rx (pl_batch q)))"
    using assms(1,2) unfolding request_ok_def address_ok_def by metis
  have mode: "fb_mode (pl_batch q) = FW_BATCH_PROBE \<or> fb_mode (pl_batch q) = FW_BATCH_WAIT_CAPS \<longrightarrow>
        fb_mode (pl_batch p) = FW_BATCH_PROBE \<or> fb_mode (pl_batch p) = FW_BATCH_WAIT_CAPS"
    using assms(1) unfolding request_ok_def by blast
  show "address_ok (pl_fw q) (fb_rx (pl_batch q)) (fb_mode (pl_batch q))"
    using assms(2) rx mode unfolding address_ok_def f by blast
qed

text \<open>Writing a page.\<close>

lemma write_page_confined:
  assumes "nor_flash hw" "a mod 256 = 0" "a < SLOT_SIZE"
  shows "length (s_flash (write_flash_page hw a page st)) = length (s_flash st)"
    "SLOT_SIZE \<le> i \<Longrightarrow> i < length (s_flash st) \<Longrightarrow> s_flash (write_flash_page hw a page st) ! i = s_flash st ! i"
proof -
  define sec where "sec = a div SECTOR_SIZE * SECTOR_SIZE"
  have sec: "sec + SECTOR_SIZE \<le> SLOT_SIZE" using assms(3) unfolding sec_def by (simp add: div_less_iff_less_mult)
  have pg: "a + 256 \<le> SLOT_SIZE" using assms(2,3) by presburger
  define f1 where "f1 = (if a div PAGE_SIZE mod 16 = 0 then flash_range_erase hw (s_flash st) sec SECTOR_SIZE else s_flash st)"
  have fl: "s_flash (write_flash_page hw a page st) = flash_range_program hw f1 a (take PAGE_SIZE page)"
    by (simp add: write_flash_page_def write_flash_page_erasing_def Let_def f1_def sec_def)
  have l1: "length f1 = length (s_flash st)" using assms(1) by (simp add: f1_def erase_nth(2))
  then show "length (s_flash (write_flash_page hw a page st)) = length (s_flash st)" using assms(1) by (simp add: fl program_nth(2))
  assume i: "SLOT_SIZE \<le> i" "i < length (s_flash st)"
  have "f1 ! i = s_flash st ! i" using i sec assms(1) by (simp add: f1_def erase_nth(1))
  moreover have "\<not> i < a + length (take PAGE_SIZE page)" using pg i(1) by simp
  ultimately show "s_flash (write_flash_page hw a page st) ! i = s_flash st ! i"
    using i(2) l1 program_nth(1) [OF assms(1), of i f1 a "take PAGE_SIZE page"] by (simp only: fl if_False simp_thms)
qed

lemma unat_page_start: "256 \<le> unat a \<Longrightarrow> unat (a - 256 :: u32) = unat a - 256"
  using unat_sub [of "256 :: u32" a] by (simp add: word_le_nat_alt)

definition base_ok :: "bytes \<Rightarrow> pull_event list \<Rightarrow> pull \<Rightarrow> bool" where
  "base_ok fl H p \<longleftrightarrow> address_ok (pl_fw p) (fb_rx (pl_batch p)) (fb_mode (pl_batch p)) \<and> promised H (pl_device p) (pl_fw p) \<and>
     flash_ok fl (pl_device p) (pl_fw p) (pl_store p)"

lemma pull_inv_base: "pull_inv fl H p \<longleftrightarrow> base_ok fl H p \<and> pending_ok (pl_fw p)"
  by (auto simp: pull_inv_def base_ok_def)

lemma commit_inv:
  assumes "base_ok fl H p" "nor_flash (pe_hw e)" "pulling (pl_fw p)"
  shows "base_ok fl H (commit_pending_firmware_page e p)" "\<not> fu_page_pending (pl_fw (commit_pending_firmware_page e p))"
    "fu_source (pl_fw (commit_pending_firmware_page e p)) = fu_source (pl_fw p)"
    "fu_address (pl_fw (commit_pending_firmware_page e p)) = fu_address (pl_fw p)"
    "fb_mode (pl_batch (commit_pending_firmware_page e p)) = fb_mode (pl_batch p)"
    "dv_reboot_requested (pl_device (commit_pending_firmware_page e p)) = dv_reboot_requested (pl_device p)"
    "dv_running_fw_version (pl_device (commit_pending_firmware_page e p)) = dv_running_fw_version (pl_device p)"
proof -
  let ?q = "commit_pending_firmware_page e p"
  show "fu_source (pl_fw ?q) = fu_source (pl_fw p)" "fu_address (pl_fw ?q) = fu_address (pl_fw p)"
    "fb_mode (pl_batch ?q) = fb_mode (pl_batch p)" "\<not> fu_page_pending (pl_fw ?q)"
    "dv_reboot_requested (pl_device ?q) = dv_reboot_requested (pl_device p)"
    "dv_running_fw_version (pl_device ?q) = dv_running_fw_version (pl_device p)"
    by (simp_all add: commit_pending_firmware_page_def upd_fw_def upd_dev_def)
  show "base_ok fl H ?q"
  proof (cases "fu_page_pending (pl_fw p)")
    case False
    then show ?thesis using assms(1) by (simp add: commit_pending_firmware_page_def)
  next
    case True
    define a where "a = unat (fu_address (pl_fw p) - 256)"
    have ad: "256 \<le> unat (fu_address (pl_fw p))" "unat (fu_address (pl_fw p)) mod 256 = 0" "unat (fu_address (pl_fw p)) \<le> 262144"
      using assms(1) True by (auto simp: base_ok_def address_ok_def)
    obtain k where "unat (fu_address (pl_fw p)) = 256 * k" using ad(2) by (auto simp: mod_eq_0_iff_dvd)
    then have "a = 256 * (k - 1)" "a < SLOT_SIZE" unfolding a_def unat_page_start [OF ad(1)] using ad by (simp_all add: diff_mult_distrib2)
    then have a: "a mod 256 = 0" "a < SLOT_SIZE" by simp_all
    note w = write_page_confined [OF assms(2) a, where page = "s_page_buffer (pl_store p)" and st = "pl_store p"]
    have q: "?q = upd_fw (\<lambda>f. f\<lparr>fu_page_pending := False\<rparr>) (upd_dev (\<lambda>d. d\<lparr>dv_image_dirty := True\<rparr>)
        (p\<lparr>pl_store := write_flash_page (pe_hw e) a (s_page_buffer (pl_store p)) (pl_store p)\<rparr>))"
      using True by (simp add: commit_pending_firmware_page_def a_def)
    have "address_ok (pl_fw ?q) (fb_rx (pl_batch ?q)) (fb_mode (pl_batch ?q))"
      using assms(1) unfolding q by (simp add: base_ok_def address_ok_def upd_fw_def upd_dev_def)
    moreover have "promised H (pl_device ?q) (pl_fw ?q)"
      using assms(1) unfolding q by (simp add: base_ok_def promised_def upd_fw_def upd_dev_def pulling_def)
    moreover have "flash_ok fl (pl_device ?q) (pl_fw ?q) (pl_store ?q)"
      using assms(1,3) w unfolding q by (simp add: base_ok_def flash_ok_def upd_fw_def upd_dev_def pulling_def)
    ultimately show ?thesis by (simp add: base_ok_def)
  qed
qed

lemma recovery_confined:
  assumes "nor_flash hw"
  shows "length (s_flash (enter_firmware_recovery hw st)) = length (s_flash st)"
    "SLOT_SIZE \<le> i \<Longrightarrow> i < length (s_flash st) \<Longrightarrow> s_flash (enter_firmware_recovery hw st) ! i = s_flash st ! i"
  using assms by (simp_all add: enter_firmware_recovery_def Let_def erase_nth)

lemma finish_fields:
  "pl_fw (finish_pull e p) = (pl_fw p)\<lparr>fu_source := FW_UPDATE_SOURCE_NONE, fu_checksum := NOT (fu_checksum (pl_fw p))\<rparr>"
  "fb_rx (pl_batch (finish_pull e p)) = fb_rx (pl_batch p)" "fb_mode (pl_batch (finish_pull e p)) = fb_mode (pl_batch p)"
  by (simp_all add: finish_pull_def Let_def upd_fw_def upd_dev_def)

lemma finish_store:
  "pl_store (finish_pull e p) = pl_store p \<or> pl_store (finish_pull e p) = enter_firmware_recovery (pe_hw e) (pl_store p)"
  "left (pl_device (finish_pull e p))"
  by (simp_all add: finish_pull_def Let_def upd_fw_def upd_dev_def left_def log_call_def)

lemma finish_pull_inv:
  assumes "base_ok fl H p" "nor_flash (pe_hw e)" "\<not> fu_page_pending (pl_fw p)"
  shows "pull_inv fl H (finish_pull e p)"
proof -
  let ?q = "finish_pull e p"
  have "flash_ok fl (pl_device ?q) (pl_fw ?q) (pl_store ?q)"
    using assms(1) finish_store [of e p] recovery_confined [OF assms(2), where st = "pl_store p"]
    by (auto simp: base_ok_def flash_ok_def finish_fields pulling_def)
  moreover have "address_ok (pl_fw ?q) (fb_rx (pl_batch ?q)) (fb_mode (pl_batch ?q))"
    using assms(1) by (simp add: base_ok_def address_ok_def finish_fields)
  ultimately show ?thesis
    using assms(3) by (simp add: pull_inv_def promised_def pulling_def pending_ok_def finish_fields)
qed

lemma advance_inv:
  assumes inv: "pull_inv fl H p" and hw: "nor_flash (pe_hw e)" and src: "fu_source (pl_fw p) = FW_UPDATE_SOURCE_PULL"
  shows "pull_inv fl H (advance_pull e p)"
proof (cases "fu_byte_done (pl_fw p)")
  case False
  obtain ok q where r: "firmware_batch_request_locked e (fu_address (pl_fw p)) p = (ok, q)" by fastforce
  have "\<not> fu_page_pending (pl_fw p)" using inv src False by (auto simp: pull_inv_def pending_ok_def)
  then show ?thesis
    using False inv request_parts [OF request_locked_ok [OF r], of H fl] r
    by (simp add: advance_pull_def pull_inv_def pending_ok_def)
next
  case True
  have src': "pulling (pl_fw p)" using src by (simp add: pulling_def)
  define p1 where "p1 = (if fb_mode (pl_batch p) = FW_BATCH_PAGES then commit_pending_firmware_page e p else p)"
  have b1: "base_ok fl H p1" using inv commit_inv(1) [OF _ hw src', of fl H] by (simp add: p1_def pull_inv_base)
  have m1: "fb_mode (pl_batch p1) = fb_mode (pl_batch p)" "fu_page_pending (pl_fw p1) \<longrightarrow> fb_mode (pl_batch p1) \<noteq> FW_BATCH_PAGES"
    using inv commit_inv(2,5) [OF _ hw src', of fl H] by (auto simp: p1_def pull_inv_base)
  have s1: "pulling (pl_fw p1)"
    using inv src commit_inv(3) [OF _ hw src', of fl H] by (auto simp: p1_def pull_inv_base pulling_def)
  have pend1: "pending_ok (pl_fw p1)"
    using inv commit_inv(2) [OF _ hw src', of fl H] by (auto simp: p1_def pull_inv_base pending_ok_def)
  show ?thesis
  proof (cases "fu_address (pl_fw p1) \<ge> 262144")
    case fin: True
    have "advance_pull e p = finish_pull e (commit_pending_firmware_page e p1)"
      using True fin by (simp add: advance_pull_def p1_def [symmetric])
    then show ?thesis using finish_pull_inv [OF commit_inv(1) [OF b1 hw s1] hw commit_inv(2) [OF b1 hw s1]] by simp
  next
    case more: False
    obtain ok q where r: "firmware_batch_request_locked e (fu_address (pl_fw p1)) p1 = (ok, q)" by fastforce
    note ro = request_locked_ok [OF r]
    have bq: "base_ok fl H q" "fu_page_pending (pl_fw q) = fu_page_pending (pl_fw p1)" "pulling (pl_fw q)"
      using request_parts [OF ro, of H fl] b1 s1 by (simp_all add: base_ok_def pulling_def)
    show ?thesis
    proof (cases ok)
      case ok: True
      have "advance_pull e p = commit_pending_firmware_page e q"
        using True more r ok by (simp add: advance_pull_def p1_def [symmetric])
      then show ?thesis using commit_inv(1,2) [OF bq(1) hw bq(3)] by (simp add: pull_inv_base pending_ok_def)
    next
      case ok: False
      have adv: "advance_pull e p = q" using True more r ok by (simp add: advance_pull_def p1_def [symmetric])
      have "pending_ok (pl_fw q)"
      proof (cases "fu_page_pending (pl_fw p1)")
        case pend: True
        have "256 \<le> unat (fu_address (pl_fw p1))" using b1 pend by (simp add: base_ok_def address_ok_def)
        then have "fb_mode (pl_batch p1) = FW_BATCH_LEGACY"
          using m1(2) pend b1 by (cases "fb_mode (pl_batch p1)") (auto simp: base_ok_def address_ok_def)
        then have "q = p1" using ro ok by (simp add: request_ok_def)
        then show ?thesis using pend1 by simp
      next
        case False
        then show ?thesis using bq(2) by (simp add: pending_ok_def)
      qed
      then show ?thesis using bq(1) adv by (simp add: pull_inv_base)
    qed
  qed
qed

text \<open>Beginning, pausing and giving up.\<close>

lemma begin_fields:
  "pl_fw (firmware_batch_begin_locked p) = pl_fw p" "pl_device (firmware_batch_begin_locked p) = pl_device p"
  "pl_store (firmware_batch_begin_locked p) = pl_store p" "\<not> rx_active (fb_rx (pl_batch (firmware_batch_begin_locked p)))"
  by (simp_all add: firmware_batch_begin_locked_def upd_batch_def fw_batch_rx_cancel_def)

lemma fresh_inv:
  assumes q: "pl_fw q = fresh_pull version checksum now bd" "\<not> rx_active (fb_rx (pl_batch q))" "pl_store q = pl_store p"
      "left (pl_device q) = left (pl_device p)" "dv_running_fw_version (pl_device q) = dv_running_fw_version (pl_device p)"
    and "flash_ok fl (pl_device p) (pl_fw p) (pl_store p)" "advertised H version checksum" "dv_running_fw_version (pl_device p) \<le> version"
    and "dv_image_dirty (pl_device q) = dv_image_dirty (pl_device p) \<or> \<not> pulling (pl_fw p)" "dv_upgrade_in_progress (pl_device q)"
  shows "pull_inv fl H q"
  using assms by (auto simp: pull_inv_def address_ok_def pending_ok_def promised_def flash_ok_def fresh_pull_def zero_fw_def pulling_def)

lemma begin_pull_inv:
  assumes "flash_ok fl (pl_device p) (pl_fw p) (pl_store p)" "advertised H version checksum" "dv_running_fw_version (pl_device p) \<le> version"
    and "dirty = dv_image_dirty (pl_device p) \<or> \<not> pulling (pl_fw p)"
  shows "pull_inv fl H (begin_firmware_pull e version checksum dirty old p)"
  by (rule fresh_inv [OF _ _ _ _ _ assms(1-3)])
    (use assms(4) in \<open>auto simp: begin_firmware_pull_def begin_fields set_flags_def upd_fw_def upd_dev_def left_def\<close>)

lemma pause_inv:
  assumes "pull_inv fl H p" "fu_source (pl_fw p) = FW_UPDATE_SOURCE_PULL"
  shows "pull_inv fl H (pause_pull e p)"
  using assms
  by (auto simp: pause_pull_def upd_fw_def pull_inv_def address_ok_def pending_ok_def promised_def flash_ok_def pulling_def)

lemma abandon_inv:
  assumes "pull_inv fl H p" "\<not> dv_image_dirty (pl_device p)"
  shows "pull_inv fl H (abandon_pull e p)"
  using assms
  by (auto simp: abandon_pull_def set_flags_def upd_fw_def upd_dev_def pull_inv_def address_ok_def pending_ok_def promised_def flash_ok_def
      pulling_def zero_fw_def left_def)

lemma pause_or_abandon_inv:
  assumes "pull_inv fl H p" "fu_source (pl_fw p) = FW_UPDATE_SOURCE_PULL"
  shows "pull_inv fl H (pause_or_abandon e p)"
  using pause_inv [OF assms] abandon_inv [OF assms(1)] by (simp add: pause_or_abandon_def)

lemma upgrade_task_inv:
  assumes inv: "pull_inv fl H p" and hw: "nor_flash (pe_hw e)"
  shows "pull_inv fl H (firmware_upgrade_task e p)"
proof (cases "dv_reboot_requested (pl_device p) \<or> \<not> dv_upgrade_in_progress (pl_device p)")
  case True
  then show ?thesis using inv by (auto simp: firmware_upgrade_task_def)
next
  case False
  define act where "act = fw_update_next_action (fu_source (pl_fw p)) (fu_byte_done (pl_fw p)) (dv_image_dirty (pl_device p)) (pe_now32 e)
    (fu_requested_at_us (pl_fw p)) (fu_progressed_at_us (pl_fw p)) (pl_peer_fw_last_seen_us p)"
  note eq = firmware_upgrade_task_def [of e p, unfolded Let_def if_not_P [OF False], folded act_def]
  have src: "act \<noteq> FW_UPDATE_WAIT \<Longrightarrow> fu_source (pl_fw p) = FW_UPDATE_SOURCE_PULL"
    and clean: "act = FW_UPDATE_ABANDON \<Longrightarrow> \<not> dv_image_dirty (pl_device p)"
    by (auto simp: act_def fw_update_next_action_def split: if_splits)
  show ?thesis
  proof (cases act)
    case FW_UPDATE_RESTART
    then have "pulling (pl_fw p)" using src by (simp add: pulling_def)
    then have adv: "advertised H (fu_version (pl_fw p)) (fu_peer_checksum (pl_fw p))" "dv_running_fw_version (pl_device p) \<le> fu_version (pl_fw p)"
      and fl: "flash_ok fl (pl_device p) (pl_fw p) (pl_store p)"
      using inv by (auto simp: pull_inv_def promised_def)
    show ?thesis
      unfolding eq FW_UPDATE_RESTART fw_update_action.case
      by (rule fresh_inv [OF _ _ _ _ _ fl adv]) (auto simp: begin_fields set_flags_def upd_fw_def upd_dev_def left_def)
  qed (use inv src clean in \<open>simp_all add: eq advance_inv [OF inv hw] pause_inv abandon_inv\<close>)
qed

text \<open>Heartbeats.\<close>

lemma pull_inv_if:
  "(c \<Longrightarrow> pull_inv fl H p) \<Longrightarrow> (\<not> c \<Longrightarrow> pull_inv fl H q) \<Longrightarrow> pull_inv fl H (if c then p else q)"
  by simp

lemma heartbeat_inv:
  assumes inv: "pull_inv fl H p"
  shows "pull_inv fl (H @ [Heartbeat x]) (handle_heartbeat_msg e x p)"
proof -
  define version checksum where "version = get16 (pkt_data x) 0" and "checksum = get32 (pkt_data x) 4"
  define p1 where "p1 = p\<lparr>pl_peer_fw_last_seen_us := pe_now32 e\<rparr>"
  let ?H = "H @ [Heartbeat x]"
  note inv' = pull_inv_mono [OF inv, of "Heartbeat x"]
  have inv1: "pull_inv fl ?H p1" using inv' by (simp add: p1_def pull_inv_def)
  have p1: "pl_fw p1 = pl_fw p" "pl_device p1 = pl_device p" by (simp_all add: p1_def)
  have adv: "advertised ?H version checksum" if "fw_update_peer_compatible (get16 (pkt_data x) 2)"
    using that by (auto simp: advertised_def version_def checksum_def fw_update_peer_compatible_def)
  have fl1: "flash_ok fl (pl_device p1) (pl_fw p1) (pl_store p1)" using inv1 by (simp add: pull_inv_def)
  have go: "pull_inv fl ?H (begin_firmware_pull e version checksum dirty old p1)"
    if "fw_update_peer_compatible (get16 (pkt_data x) 2)" "dv_running_fw_version (pl_device p1) \<le> version"
      "dirty = dv_image_dirty (pl_device p1) \<or> \<not> pulling (pl_fw p1)" for dirty old
    using begin_pull_inv [OF fl1 adv that(2)] that by blast
  have stop: "pull_inv fl ?H (pause_or_abandon e p)" "pull_inv fl ?H (pause_or_abandon e p1)" if "fu_source (pl_fw p) = FW_UPDATE_SOURCE_PULL"
    using pause_or_abandon_inv [OF inv', of e] pause_or_abandon_inv [OF inv1, of e] that by (simp_all add: p1)
  show ?thesis
    unfolding handle_heartbeat_msg_def Let_def version_def [symmetric] checksum_def [symmetric] p1_def [symmetric]
    by (intro pull_inv_if inv' inv1 stop go) (auto simp: p1 pulling_def intro: less_imp_le)
qed

text \<open>Pages and words.\<close>

lemma rx_receive_keeps:
  assumes "fw_batch_rx_receive s x = (r, s')"
  shows "rx_active s' \<Longrightarrow> rx_active s" "rx_address s' = rx_address s" "r = FW_BATCH_RX_COMPLETE \<Longrightarrow> rx_active s \<and> \<not> rx_active s'"
  using assms
  by (auto simp: fw_batch_rx_receive_def rx_conclude_def invalid_page_def Let_def split: option.splits if_splits fw_batch_kind.splits)

lemma unat_next_page:
  assumes "valid_address a"
  shows "unat (a + 256) = unat a + 256" "unat (a + 256) \<le> 262144" "unat (a + 256) mod 256 = 0"
proof -
  have "unat (a mod 256) = 0" using assms by (simp add: valid_address_def)
  then have a: "unat a < 262144" "unat a mod 256 = 0"
    using assms by (simp_all add: valid_address_def word_less_nat_alt unat_mod)
  have "unat a + 256 \<le> 262144" using a by presburger
  then show "unat (a + 256) = unat a + 256" by (simp add: unat_word_ariths)
  then show "unat (a + 256) \<le> 262144" "unat (a + 256) mod 256 = 0" using a \<open>unat a + 256 \<le> 262144\<close> by simp_all
qed

lemma page_received_fields:
  "pl_store (page_received e p) = pl_store p" "pl_device (page_received e p) = pl_device p"
  "fb_rx (pl_batch (page_received e p)) = fb_rx (pl_batch p)" "fb_mode (pl_batch (page_received e p)) = fb_mode (pl_batch p)"
  "fu_address (pl_fw (page_received e p)) = fu_address (pl_fw p) + 256" "fu_source (pl_fw (page_received e p)) = fu_source (pl_fw p)"
  "fu_version (pl_fw (page_received e p)) = fu_version (pl_fw p)" "fu_peer_checksum (pl_fw (page_received e p)) = fu_peer_checksum (pl_fw p)"
  "fu_page_pending (pl_fw (page_received e p))" "\<not> fu_request_pending (pl_fw (page_received e p))" "fu_byte_done (pl_fw (page_received e p))"
  by (simp_all add: page_received_def Let_def upd_fw_def upd_batch_def)

lemma page_data_inv:
  assumes inv: "pull_inv fl H p"
  shows "pull_inv fl H (receive_page_data e x p)"
proof (cases "receive_page_data e x p = p")
  case True
  then show ?thesis using inv by simp
next
  case False
  define y where "y = (if pkt_type x = FW_BATCH_PAGE_DATA_MSG then FW_BATCH_DATA else FW_BATCH_END, pkt_data x)"
  obtain r rx where rr: "fw_batch_rx_receive (fb_rx (pl_batch p)) y = (r, rx)" by fastforce
  define q where "q = snd (rx_into_buffer y p)"
  have q: "pl_fw q = pl_fw p" "pl_device q = pl_device p" "fb_mode (pl_batch q) = fb_mode (pl_batch p)" "fb_rx (pl_batch q) = rx"
    "s_flash (pl_store q) = s_flash (pl_store p)"
    by (simp_all add: q_def rx_into_buffer_def rr set_page_buffer_def upd_batch_def)
  have src: "fu_source (pl_fw p) = FW_UPDATE_SOURCE_PULL" "fb_mode (pl_batch p) = FW_BATCH_PAGES"
    "rx_address (fb_rx (pl_batch p)) = fu_address (pl_fw p)"
    and res: "receive_page_data e x p = (if r \<noteq> FW_BATCH_RX_COMPLETE then q else page_received e q)"
    using False by (auto simp: receive_page_data_def Let_def y_def [symmetric] q_def rx_into_buffer_def rr split: if_splits)
  note k = rx_receive_keeps [OF rr]
  have inv_q: "pull_inv fl H q"
    using inv q k(1,2) unfolding pull_inv_def address_ok_def flash_ok_def by (simp add: promised_def)
  show ?thesis
  proof (cases "r = FW_BATCH_RX_COMPLETE")
    case False
    then show ?thesis using res inv_q by simp
  next
    case True
    have "valid_address (fu_address (pl_fw q))" using inv k(3) True src(3) q(1) by (auto simp: pull_inv_def address_ok_def)
    note n = unat_next_page [OF this]
    have "pull_inv fl H (page_received e q)"
      using inv_q n k(3) [OF True] q src
      by (simp add: pull_inv_def address_ok_def pending_ok_def promised_def flash_ok_def page_received_fields pulling_def)
    then show ?thesis using res True by simp
  qed
qed

lemma caps_response_inv:
  assumes "pull_inv fl H p"
  shows "pull_inv fl H (receive_caps_response x p)"
  using assms
  by (auto simp: receive_caps_response_def Let_def pull_inv_def address_ok_def pending_ok_def promised_def flash_ok_def upd_fw_def
      upd_batch_def pulling_def)

lemma unat_next_word:
  assumes "a < 262144" "a mod 4 = (0 :: u32)"
  shows "unat (a + 4) = unat a + 4" "unat a mod 4 = 0" "unat a + 4 \<le> 262144" "(a + 4) mod 256 = 0 \<longleftrightarrow> (unat a + 4) mod 256 = 0"
proof -
  have "unat (a mod 4) = 0" using assms(2) by simp
  then have a: "unat a < 262144" "unat a mod 4 = 0" using assms(1) by (simp_all add: word_less_nat_alt unat_mod)
  then show "unat a mod 4 = 0" "unat a + 4 \<le> 262144" by presburger+
  show u: "unat (a + 4) = unat a + 4" using a(1) by (simp add: unat_word_ariths)
  have "(a + 4) mod 256 = 0 \<longleftrightarrow> unat ((a + 4) mod 256) = 0" by (simp add: unat_eq_0)
  then show "(a + 4) mod 256 = 0 \<longleftrightarrow> (unat a + 4) mod 256 = 0" by (simp only: unat_mod u) simp
qed

text \<open>The updater's record after an accepted word.\<close>

definition word_taken :: "pull_env \<Rightarrow> bytes \<Rightarrow> fw_upgrade \<Rightarrow> fw_upgrade" where
  "word_taken e word f = f\<lparr>fu_checksum := (if fu_address f < 258048 then foldl crc32_iter (fu_checksum f) word else fu_checksum f),
     fu_address := fu_address f + 4, fu_page_pending := ((fu_address f + 4) mod 256 = 0 \<or> fu_page_pending f),
     fu_progressed_at_us := pe_now32 e, fu_request_pending := False, fu_byte_done := True\<rparr>"

lemma word_response_fields:
  assumes "handle_response_byte_msg e x p \<noteq> p"
  shows "pl_fw (handle_response_byte_msg e x p) = word_taken e (slice (pkt_data x) 4 4) (pl_fw p)"
    "pl_device (handle_response_byte_msg e x p) = pl_device p"
    "fb_rx (pl_batch (handle_response_byte_msg e x p)) = fb_rx (pl_batch p)"
    "fb_mode (pl_batch (handle_response_byte_msg e x p)) = FW_BATCH_LEGACY"
    "fb_mode (pl_batch p) = FW_BATCH_LEGACY"
    "s_flash (pl_store (handle_response_byte_msg e x p)) = s_flash (pl_store p)"
    "s_page_buffer (pl_store (handle_response_byte_msg e x p)) =
       blit (s_page_buffer (pl_store p)) (unat (fu_address (pl_fw p)) mod 256) (slice (pkt_data x) 4 4)"
    "fu_source (pl_fw p) = FW_UPDATE_SOURCE_PULL" "fu_request_pending (pl_fw p)" "fu_address (pl_fw p) = get32 (pkt_data x) 0"
    "fu_address (pl_fw p) < 262144" "fu_address (pl_fw p) mod 4 = 0"
proof -
  define a where "a = get32 (pkt_data x) 0"
  obtain X where X: "handle_response_byte_msg e x p =
      (if dv_reboot_requested (pl_device p) \<or> \<not> firmware_batch_accepts_word p then p
       else if \<not> fw_update_response_expected (fu_source (pl_fw p)) (fu_request_pending (pl_fw p)) (fu_address (pl_fw p)) a then p
       else if a \<ge> 262144 \<or> a mod 4 \<noteq> 0 then p else X)"
    unfolding handle_response_byte_msg_def Let_def a_def by blast
  have g: "\<not> dv_reboot_requested (pl_device p)" "fb_mode (pl_batch p) = FW_BATCH_LEGACY" "fu_source (pl_fw p) = FW_UPDATE_SOURCE_PULL"
    "fu_request_pending (pl_fw p)" "fu_address (pl_fw p) = a" "a < 262144" "a mod 4 = 0"
    using assms X by (auto simp: firmware_batch_accepts_word_def fw_update_response_expected_def not_le split: if_splits)
  show "fb_mode (pl_batch p) = FW_BATCH_LEGACY" "fu_source (pl_fw p) = FW_UPDATE_SOURCE_PULL" "fu_request_pending (pl_fw p)"
    "fu_address (pl_fw p) = get32 (pkt_data x) 0" "fu_address (pl_fw p) < 262144" "fu_address (pl_fw p) mod 4 = 0"
    using g by (simp_all add: a_def)
  have e: "firmware_batch_accepts_word p" "fw_update_response_expected (fu_source (pl_fw p)) (fu_request_pending (pl_fw p)) (fu_address (pl_fw p)) a"
    "\<not> (a \<ge> 262144 \<or> a mod 4 \<noteq> 0)"
    using g by (simp_all add: firmware_batch_accepts_word_def fw_update_response_expected_def not_le)
  note eq = handle_response_byte_msg_def [of e x p, folded a_def]
  show "pl_fw (handle_response_byte_msg e x p) = word_taken e (slice (pkt_data x) 4 4) (pl_fw p)"
    "pl_device (handle_response_byte_msg e x p) = pl_device p"
    "fb_rx (pl_batch (handle_response_byte_msg e x p)) = fb_rx (pl_batch p)"
    "fb_mode (pl_batch (handle_response_byte_msg e x p)) = FW_BATCH_LEGACY"
    "s_flash (pl_store (handle_response_byte_msg e x p)) = s_flash (pl_store p)"
    "s_page_buffer (pl_store (handle_response_byte_msg e x p)) =
       blit (s_page_buffer (pl_store p)) (unat (fu_address (pl_fw p)) mod 256) (slice (pkt_data x) 4 4)"
    using g e by (simp_all add: eq Let_def word_taken_def upd_fw_def set_page_buffer_def)
qed

lemma word_response_inv:
  assumes inv: "pull_inv fl H p"
  shows "pull_inv fl H (handle_response_byte_msg e x p)"
proof (cases "handle_response_byte_msg e x p = p")
  case True
  then show ?thesis using inv by simp
next
  case False
  note w = word_response_fields [OF False]
  note n = unat_next_word [OF w(11,12)]
  let ?a = "unat (fu_address (pl_fw p))" and ?q = "handle_response_byte_msg e x p"
  have np: "\<not> fu_page_pending (pl_fw p)" using inv w(9) by (auto simp: pull_inv_def pending_ok_def)
  have pend: "fu_page_pending (pl_fw ?q) \<longleftrightarrow> (?a + 4) mod 256 = 0" "unat (fu_address (pl_fw ?q)) = ?a + 4"
    "fu_source (pl_fw ?q) = FW_UPDATE_SOURCE_PULL" "fu_version (pl_fw ?q) = fu_version (pl_fw p)"
    "fu_peer_checksum (pl_fw ?q) = fu_peer_checksum (pl_fw p)" "fu_byte_done (pl_fw ?q)" "\<not> fu_request_pending (pl_fw ?q)"
    using np n w(8) unfolding w(1) by (simp_all add: word_taken_def)
  obtain j where j: "?a = 4 * j" using n(2) by (auto simp: mod_eq_0_iff_dvd)
  have "256 \<le> 4 * j + 4" if "(4 * j + 4) mod 256 = 0" using that dvd_imp_le [of 256 "4 * j + 4"] by (simp add: mod_eq_0_iff_dvd)
  moreover have "(4 * j + 4) mod 256 = 0" if "256 \<le> 4 * j + 4" "\<not> 256 \<le> 4 * j"
  proof -
    have "j = 63" using that by simp
    then show ?thesis by simp
  qed
  ultimately have b: "(?a + 4) mod 256 = 0 \<longrightarrow> 256 \<le> ?a + 4" "256 \<le> ?a + 4 \<longrightarrow> (?a + 4) mod 256 = 0 \<or> 256 \<le> ?a"
    unfolding j by blast+
  have "address_ok (pl_fw ?q) (fb_rx (pl_batch ?q)) (fb_mode (pl_batch ?q))"
    using inv n(3) b by (simp add: pull_inv_def address_ok_def pend w(2-5))
  moreover have "flash_ok fl (pl_device ?q) (pl_fw ?q) (pl_store ?q)"
    using inv np b w(8) unfolding pull_inv_def flash_ok_def by (auto simp: pend w(2,6) pulling_def)
  ultimately show ?thesis
    using inv w(8) by (simp add: pull_inv_def pending_ok_def promised_def pulling_def pend w(2))
qed

text \<open>Serving the other board does not touch the pull.\<close>

lemma queue_blocking_flags: "flags_of (queue_packet_blocking data t d) = flags_of d"
proof -
  have "flags_of (make_room d) = flags_of d"
    by (auto simp: make_room_def log_call_def flags_of_def left_def split: prod.splits option.splits)
  moreover have "flags_of (snd (queue_packet_dev data t d)) = flags_of d" for d
    using queue_packet_dev_frame [of data t d] by (cases "queue_packet_dev data t d") auto
  ultimately show ?thesis by (simp add: queue_packet_blocking_def)
qed

lemma send_inv: "send_packet data t p = (ok, q) \<Longrightarrow> pull_inv fl H q = pull_inv fl H p"
  using send_fields [of data t p ok q] flags_of_send [of data t p ok q] by (intro pull_inv_cong) simp_all

lemma batch_source_inv:
  assumes "fb_rx (g (pl_batch p)) = fb_rx (pl_batch p)" "fb_mode (g (pl_batch p)) = fb_mode (pl_batch p)"
  shows "pull_inv fl H (upd_batch g p) = pull_inv fl H p"
  by (rule pull_inv_cong) (simp_all add: upd_batch_def assms)

lemma bookkeeping_inv [simp]:
  "pull_inv fl H (note_event e ty a b v p) = pull_inv fl H p" "pull_inv fl H (upd_profile g p) = pull_inv fl H p"
  "pull_inv fl H (profile_begin e p) = pull_inv fl H p" "pull_inv fl H (source_activity e p) = pull_inv fl H p"
  "pull_inv fl H (profile_page e w p) = pull_inv fl H p" "pull_inv fl H (profile_end e p) = pull_inv fl H p"
  "pull_inv fl H (firmware_source_word_locked e w p) = pull_inv fl H p"
  by (rule pull_inv_steering; simp)+

lemma caps_request_inv:
  assumes "pull_inv fl H p"
  shows "pull_inv fl H (receive_caps_request e x p)"
  using assms
  by (auto simp: receive_caps_request_def Let_def batch_source_inv dest: send_inv [of _ _ _ _ _ fl H] split: option.splits prod.splits bool.splits)

lemma page_request_inv:
  assumes "pull_inv fl H p"
  shows "pull_inv fl H (receive_page_request e x p)"
  using assms by (auto simp: receive_page_request_def Let_def batch_source_inv split: option.splits prod.splits)

lemma next_tx_inv:
  assumes "pull_inv fl H p"
  shows "pull_inv fl H (snd (firmware_batch_next_tx e p))"
  using assms by (auto simp: firmware_batch_next_tx_def Let_def batch_source_inv split: option.splits prod.splits)

lemma request_byte_msg_inv:
  assumes "pull_inv fl H p"
  shows "pull_inv fl H (handle_request_byte_msg e x p)"
proof -
  have "pull_inv fl H (upd_dev (queue_packet_blocking data t) q) = pull_inv fl H q" for data t q
    by (rule pull_inv_cong) (simp_all add: upd_dev_def queue_blocking_flags)
  then show ?thesis using assms by (simp add: handle_request_byte_msg_def Let_def split: option.splits)
qed

lemma step_inv:
  assumes "pull_inv fl H p" "nor_flash (pe_hw e)"
  shows "pull_inv fl (H @ [x]) (snd (pull_step p (e, x)))"
proof (cases x)
  case (Batch_packet y)
  show ?thesis
    unfolding Batch_packet
    by (simp add: firmware_batch_packet_def pull_inv_mono caps_request_inv caps_response_inv page_request_inv page_data_inv assms(1))
next
  case (Device_changes d)
  have "flash_ok fl (device_changed (pl_device p) d) (pl_fw p) (pl_store p)"
    using assms(1) by (auto simp: pull_inv_def flash_ok_def left_def device_changed_def)
  then have "pull_inv fl H (upd_dev (\<lambda>old. device_changed old d) p)"
    using assms(1) by (simp add: pull_inv_def upd_dev_def promised_def device_changed_def)
  then show ?thesis unfolding Device_changes by (simp add: pull_inv_mono)
qed (simp_all add: pull_inv_mono assms heartbeat_inv request_byte_msg_inv word_response_inv next_tx_inv upgrade_task_inv)

lemma run_pull_inv:
  assumes "pull_inv fl H p" "\<forall>e\<in>set (map fst xs). nor_flash (pe_hw e)"
  shows "pull_inv fl (H @ map snd xs) (snd (run_machine pull_step p xs))"
  using assms
proof (induction xs arbitrary: H p)
  case (Cons x xs)
  obtain e y where x: "x = (e, y)" by fastforce
  obtain u q where s: "pull_step p x = (u, q)" by (cases "pull_step p x")
  have "pull_inv fl (H @ [y]) q" using step_inv [of fl H p e y] Cons.prems s x by simp
  then show ?case
    using Cons.IH [of "H @ [y]" q] Cons.prems(2) s x by (cases "run_machine pull_step q xs") simp
qed simp

definition pull_boot :: "u64 \<Rightarrow> pull \<Rightarrow> bool" where
  "pull_boot boot_session p \<longleftrightarrow> pl_fw p = zero_fw \<and> pl_batch p = firmware_batch_init boot_session \<and>
     \<not> dv_upgrade_in_progress (pl_device p) \<and> \<not> dv_image_dirty (pl_device p) \<and> \<not> left (pl_device p)"

lemma boot_inv: "pull_boot s p \<Longrightarrow> pull_inv (s_flash (pl_store p)) [] p"
  by (simp add: pull_boot_def pull_inv_def address_ok_def pending_ok_def promised_def flash_ok_def zero_fw_def firmware_batch_init_def
      zero_rx_def pulling_def)

lemma commit_keeps:
  "fu_version (pl_fw (commit_pending_firmware_page e p)) = fu_version (pl_fw p)"
  "fu_peer_checksum (pl_fw (commit_pending_firmware_page e p)) = fu_peer_checksum (pl_fw p)"
  "fu_checksum (pl_fw (commit_pending_firmware_page e p)) = fu_checksum (pl_fw p)"
  "dv_reboot_requested (pl_device (commit_pending_firmware_page e p)) = dv_reboot_requested (pl_device p)"
  by (simp_all add: commit_pending_firmware_page_def upd_fw_def upd_dev_def)

lemma request_keeps_reboot:
  "firmware_batch_request_locked e a p = (ok, q) \<Longrightarrow> dv_reboot_requested (pl_device q) = dv_reboot_requested (pl_device p)"
  using request_locked_ok [of e a p ok q] by (simp add: request_ok_def flags_of_def)

definition ready_page :: "pull_env \<Rightarrow> pull \<Rightarrow> pull" where
  "ready_page e p = (if fb_mode (pl_batch p) = FW_BATCH_PAGES then commit_pending_firmware_page e p else p)"

lemma advance_reboots:
  assumes "dv_reboot_requested (pl_device (advance_pull e p))" "\<not> dv_reboot_requested (pl_device p)"
  shows "advance_pull e p = finish_pull e (commit_pending_firmware_page e (ready_page e p))"
proof (rule ccontr)
  assume not_done: "\<not> ?thesis"
  define p1 where "p1 = ready_page e p"
  have k: "\<not> dv_reboot_requested (pl_device p1)" using assms(2) by (simp add: p1_def ready_page_def commit_keeps)
  note eq = advance_pull_def [of e p, folded ready_page_def, folded p1_def, unfolded Let_def]
  show False
  proof (cases "fu_byte_done (pl_fw p)")
    case False
    then show False using assms request_keeps_reboot [of e "fu_address (pl_fw p)" p] by (auto simp: eq split: prod.splits) (metis prod.collapse)
  next
    case True
    then have small: "\<not> fu_address (pl_fw p1) \<ge> 262144" using not_done by (auto simp: eq p1_def)
    obtain ok q where r: "firmware_batch_request_locked e (fu_address (pl_fw p1)) p1 = (ok, q)" by fastforce
    then show False
      using assms(1) True small k request_keeps_reboot [OF r] by (cases ok) (simp_all add: eq commit_keeps)
  qed
qed

lemma task_reboots:
  assumes "dv_reboot_requested (pl_device (firmware_upgrade_task e p))" "\<not> dv_reboot_requested (pl_device p)"
  shows "firmware_upgrade_task e p = finish_pull e (commit_pending_firmware_page e (ready_page e p))"
    "fu_source (pl_fw p) = FW_UPDATE_SOURCE_PULL"
proof -
  have live: "dv_upgrade_in_progress (pl_device p)"
    using assms by (cases "dv_upgrade_in_progress (pl_device p)") (simp_all add: firmware_upgrade_task_def Let_def)
  define act where "act = fw_update_next_action (fu_source (pl_fw p)) (fu_byte_done (pl_fw p)) (dv_image_dirty (pl_device p)) (pe_now32 e)
    (fu_requested_at_us (pl_fw p)) (fu_progressed_at_us (pl_fw p)) (pl_peer_fw_last_seen_us p)"
  have "\<not> (dv_reboot_requested (pl_device p) \<or> \<not> dv_upgrade_in_progress (pl_device p))" using assms(2) live by simp
  note eq = firmware_upgrade_task_def [of e p, unfolded Let_def if_not_P [OF this], folded act_def]
  have act: "act = FW_UPDATE_REQUEST"
    using assms unfolding eq
    by (cases act) (auto simp: abandon_pull_def pause_pull_def set_flags_def upd_fw_def upd_dev_def begin_fields)
  have "firmware_upgrade_task e p = advance_pull e p" using act by (simp add: eq)
  then show "firmware_upgrade_task e p = finish_pull e (commit_pending_firmware_page e (ready_page e p))"
    using assms advance_reboots [of e p] by simp
  show "fu_source (pl_fw p) = FW_UPDATE_SOURCE_PULL"
    using act by (auto simp: act_def fw_update_next_action_def split: if_splits)
qed

lemma finish_reboots:
  assumes "dv_reboot_requested (pl_device (finish_pull e p))" "\<not> dv_reboot_requested (pl_device p)"
  defines "q \<equiv> finish_pull e p"
  shows "NOT (fu_checksum (pl_fw p)) = fu_peer_checksum (pl_fw p)" "pl_store q = pl_store p"
    "firmware_image_is_valid (pl_store p) (fu_version (pl_fw p)) (fu_peer_checksum (pl_fw p)) True"
    "dv_running_fw_version (pl_device q) = fu_version (pl_fw p)" "dv_running_fw_checksum (pl_device q) = fu_peer_checksum (pl_fw p)"
    "\<not> dv_image_dirty (pl_device q)"
  using assms(1,2) unfolding q_def
  by (auto simp: finish_pull_def Let_def upd_fw_def upd_dev_def log_call_def split: if_splits)

lemma valid_image_facts:
  assumes "firmware_image_is_valid st v c True"
  shows "calculate_firmware_crc32 st = c" "get32 (s_flash st) METADATA_ADDR = 0xf00d"
    "get32 (s_flash st) (METADATA_ADDR + 8) = c" "v \<noteq> 0 \<Longrightarrow> get16 (s_flash st) (METADATA_ADDR + 4) = v"
  using assms by (auto simp: firmware_image_is_valid_def fw_update_metadata_matches_def Let_def)

end
