(* ===== verification/Fw_Install.thy ===== *)
theory Fw_Install
  imports Fw_Pull_Inv Mouse
begin

text \<open>
  Two boards on the link: the heartbeat one of them sends (heartbeat\_output\_task in tasks.c), the order in which a transmit slot is filled
  (process\_uart\_tx\_task in uart.c) and the whole copy of an image from the board that serves it to the board that pulls it.
\<close>

unbundle bit_operations_syntax

subsection \<open>The link\<close>

definition fw_heartbeat :: "device \<Rightarrow> uart_packet" where
  "fw_heartbeat d = \<lparr>pkt_type = HEARTBEAT_MSG,
     pkt_data = le16 (dv_running_fw_version d) @ le16 0xd485 @ le32 (dv_running_fw_checksum d), pkt_checksum = 0\<rparr>"

text \<open>\<open>None\<close> is the reset at the end of configuration mode, after which nothing runs.\<close>

definition heartbeat_output_task :: "env \<Rightarrow> fw_update_source \<Rightarrow> device \<Rightarrow> device option" where
  "heartbeat_output_task e source d =
     (if source = FW_UPDATE_SOURCE_DROP then Some d
      else
        let in_config = \<not> dv_upgrade_in_progress d \<and> \<not> dv_maintenance_reserved d \<and> dv_config_mode_active d
        in if in_config \<and> env_now e > dv_config_mode_timer d then None
           else
             let d = (if in_config then blink_led e d else d);
                 d = (if env_now e \<ge> 1000000
                      then d\<lparr>dv_uart_tx_queue := snd (queue_try_add (dv_uart_tx_queue d) (fw_heartbeat d))\<rparr> else d)
             in Some (sync_output_selection (sync_owned_zoom_assist (sync_mouse_buttons (sync_activity e d)))))"

text \<open>A transmit slot. It is \<open>held\<close> while the DMA is busy and when \<open>maintenance_task\<close> or \<open>process_config_bootloader_request\<close> took it;
  \<open>allowed\<close> is \<open>maintenance_packet_allowed\<close> and \<open>clip\<close> the frame \<open>clipboard_next_tx\<close> offers. Queued packets go before page data.\<close>

definition process_uart_tx_task :: "pull_env \<Rightarrow> bool \<Rightarrow> (uart_packet \<Rightarrow> bool) \<Rightarrow> uart_packet option \<Rightarrow> pull \<Rightarrow> uart_packet option \<times> pull" where
  "process_uart_tx_task e held allowed clip p =
     (if held then (None, p)
      else
        let (x, p) = (case queue_try_remove (dv_uart_tx_queue (pl_device p)) of
               (Some x, q) \<Rightarrow> (Some x, upd_dev (\<lambda>d. d\<lparr>dv_uart_tx_queue := q\<rparr>) p)
             | (None, q) \<Rightarrow> (case firmware_batch_next_tx e p of (Some x, p) \<Rightarrow> (Some x, p) | (None, p) \<Rightarrow> (clip, p)))
        in case x of None \<Rightarrow> (None, p) | Some y \<Rightarrow> (if allowed y then Some y else None, p))"

text \<open>A free slot with no clipboard text waiting and no maintenance.\<close>

definition transmit :: "pull_env \<Rightarrow> pull \<Rightarrow> uart_packet option \<times> pull" where
  "transmit e p = process_uart_tx_task e False (\<lambda>_. True) None p"

lemma transmit_eq:
  "transmit e p =
     (case queue_try_remove (dv_uart_tx_queue (pl_device p)) of
        (Some x, q) \<Rightarrow> (Some x, upd_dev (\<lambda>d. d\<lparr>dv_uart_tx_queue := q\<rparr>) p)
      | (None, q) \<Rightarrow> firmware_batch_next_tx e p)"
  by (auto simp: transmit_def process_uart_tx_task_def Let_def split: prod.splits option.splits)

text \<open>The updater's handlers in the dispatch table.\<close>

definition deliver :: "pull_env \<Rightarrow> uart_packet \<Rightarrow> pull \<Rightarrow> pull" where
  "deliver e x p =
     (if pkt_type x = HEARTBEAT_MSG then handle_heartbeat_msg e x p
      else if pkt_type x = REQUEST_BYTE_MSG then handle_request_byte_msg e x p
      else if pkt_type x = RESPONSE_BYTE_MSG then handle_response_byte_msg e x p
      else firmware_batch_packet e x p)"

text \<open>The board that pulls and the board that serves: the heartbeat of either, a run of the puller's task, one transmit slot of either
  and the arrival of its frame (\<open>Up\<close> and \<open>Down\<close>), and any other packet for the puller.\<close>

datatype link_event = Beat pull_env | Beat_back pull_env | Task pull_env | Up pull_env | Down pull_env | Stray pull_env uart_packet

fun link_step :: "link_event \<Rightarrow> pull \<times> pull \<Rightarrow> pull \<times> pull" where
  "link_step (Beat e) (a, b) = (deliver e (fw_heartbeat (pl_device b)) a, b)"
| "link_step (Beat_back e) (a, b) = (a, deliver e (fw_heartbeat (pl_device a)) b)"
| "link_step (Task e) (a, b) = (firmware_upgrade_task e a, b)"
| "link_step (Stray e x) (a, b) = (deliver e x a, b)"
| "link_step (Up e) (a, b) =
     (case transmit e a of (None, a) \<Rightarrow> (a, b) | (Some x, a) \<Rightarrow> (a, deliver e x b))"
| "link_step (Down e) (a, b) =
     (case transmit e b of (None, b) \<Rightarrow> (a, b) | (Some x, b) \<Rightarrow> (deliver e x a, b))"

text \<open>What may happen between the steps of a copy: the heartbeats that either board keeps sending, packets of other kinds and, while an
  answer is awaited that was asked for at \<open>asked\<close> after progress at \<open>progressed\<close>, runs of the task before any time limit is reached.\<close>

definition between :: "(u32 \<times> u32) option \<Rightarrow> link_event \<Rightarrow> bool" where
  "between w x = (case x of
     Beat e \<Rightarrow> True | Beat_back e \<Rightarrow> True
   | Task e \<Rightarrow> (case w of None \<Rightarrow> False | Some (asked, progressed) \<Rightarrow>
       pe_now32 e - asked < 100000 \<and> pe_now32 e - progressed < 30000000)
   | Stray e y \<Rightarrow> pkt_type y \<notin> {HEARTBEAT_MSG, FW_BATCH_CAPS_RESPONSE_MSG, FW_BATCH_PAGE_DATA_MSG, FW_BATCH_PAGE_END_MSG}
   | Up e \<Rightarrow> False | Down e \<Rightarrow> False)"

text \<open>A copy in pages: the heartbeat, the capability exchange, then for each page a request and the 65 frames of its answer, and a last
  run of the task. Clocks are arbitrary, and so are the events \<open>nz\<close> that come before each step.\<close>

definition opening_events :: "(nat \<Rightarrow> pull_env) \<Rightarrow> (nat \<Rightarrow> link_event list) \<Rightarrow> link_event list" where
  "opening_events eo nz = [Beat (eo 0)] @ nz 0 @ [Task (eo 1)] @ nz 1 @ [Up (eo 2)] @ nz 2 @ [Down (eo 3)]"

definition page_round :: "(nat \<Rightarrow> pull_env) \<Rightarrow> (nat \<Rightarrow> link_event list) \<Rightarrow> link_event list" where
  "page_round en nz = nz 0 @ [Task (en 0)] @ nz 1 @ [Up (en 0)] @ concat (map (\<lambda>j. nz (j + 2) @ [Down (en (Suc j))]) [0..<65])"

definition copy_rounds :: "(nat \<Rightarrow> pull_env) \<Rightarrow> (nat \<Rightarrow> link_event list) \<Rightarrow> (nat \<Rightarrow> nat \<Rightarrow> pull_env) \<Rightarrow> (nat \<Rightarrow> nat \<Rightarrow> link_event list) \<Rightarrow>
    nat \<Rightarrow> link_event list" where
  "copy_rounds eo no en nz n = opening_events eo no @ concat (map (\<lambda>k. page_round (en k) (nz k)) [0..<n])"

definition copy_schedule :: "(nat \<Rightarrow> pull_env) \<Rightarrow> (nat \<Rightarrow> link_event list) \<Rightarrow> (nat \<Rightarrow> nat \<Rightarrow> pull_env) \<Rightarrow> (nat \<Rightarrow> nat \<Rightarrow> link_event list) \<Rightarrow>
    link_event list" where
  "copy_schedule eo no en nz = copy_rounds eo no en nz 1024 @ nz 1024 0 @ [Task (en 1024 0)]"

text \<open>When the pull last progressed before page \<open>k\<close>: with the last frame of the page before, or with the heartbeat that began it.\<close>

definition progress_at :: "(nat \<Rightarrow> pull_env) \<Rightarrow> (nat \<Rightarrow> nat \<Rightarrow> pull_env) \<Rightarrow> nat \<Rightarrow> u32" where
  "progress_at eo en k = (if k = 0 then pe_now32 (eo 0) else pe_now32 (en (k - 1) 65))"

text \<open>The copy keeps its time limits: a page is asked for within 30 s of the last progress, and what happens in between is allowed there.\<close>

definition timely :: "(nat \<Rightarrow> pull_env) \<Rightarrow> (nat \<Rightarrow> link_event list) \<Rightarrow> (nat \<Rightarrow> nat \<Rightarrow> pull_env) \<Rightarrow> (nat \<Rightarrow> nat \<Rightarrow> link_event list) \<Rightarrow> bool" where
  "timely eo no en nz \<longleftrightarrow> pe_now32 (eo 1) - pe_now32 (eo 0) < 30000000 \<and> list_all (between None) (no 0) \<and>
     (\<forall>j\<in>{1, 2}. list_all (between (Some (pe_now32 (eo 1), pe_now32 (eo 0)))) (no j)) \<and>
     (\<forall>k. pe_now32 (en k 0) - progress_at eo en k < 30000000 \<and> list_all (between None) (nz k 0) \<and>
        (\<forall>j>0. list_all (between (Some (pe_now32 (en k 0), progress_at eo en k))) (nz k j)))"

subsection \<open>Writing the image\<close>

text \<open>The first \<open>m\<close> pages are the image's, the rest of the sector they end in is erased, and beyond the slot nothing changed.\<close>

definition copied :: "nat \<Rightarrow> bytes \<Rightarrow> bytes \<Rightarrow> bytes \<Rightarrow> bool" where
  "copied m img fl0 fl \<longleftrightarrow> length fl = length fl0 \<and> (\<forall>i<256 * m. fl ! i = img ! i) \<and>
     (\<forall>i. 256 * m \<le> i \<longrightarrow> i < 4096 * ((m + 15) div 16) \<longrightarrow> fl ! i = 0xff) \<and> (\<forall>i. 262144 \<le> i \<longrightarrow> i < length fl0 \<longrightarrow> fl ! i = fl0 ! i)"

lemma copied_0: "copied 0 img fl fl"
  by (simp add: copied_def)

lemma sector_arith:
  fixes m :: nat
  assumes "m < 1024"
  shows "m mod 16 = 0 \<Longrightarrow> 4096 * (m div 16) = 256 * m" "4096 * (m div 16) \<le> 256 * m" "256 * m + 256 \<le> 4096 * (m div 16) + 4096"
    "4096 * (m div 16) + 4096 \<le> 262144" "(Suc m + 15) div 16 = m div 16 + 1" "m mod 16 \<noteq> 0 \<Longrightarrow> (m + 15) div 16 = m div 16 + 1"
proof -
  define q r where "q = m div 16" and "r = m mod 16"
  have m: "m = 16 * q + r" "r < 16" by (simp_all add: q_def r_def)
  have q: "q < 64" using assms m(1) by simp
  show "m mod 16 = 0 \<Longrightarrow> 4096 * (m div 16) = 256 * m" using m(1) unfolding q_def [symmetric] r_def [symmetric] by simp
  show "4096 * (m div 16) \<le> 256 * m" "256 * m + 256 \<le> 4096 * (m div 16) + 4096" "4096 * (m div 16) + 4096 \<le> 262144"
    unfolding q_def [symmetric] using m q by simp_all
  show "(Suc m + 15) div 16 = m div 16 + 1" using div_add_self2 [of 16 m] by (simp add: add.commute)
  assume "m mod 16 \<noteq> 0"
  then have r: "(r + 15) div 16 = 1" using m(2) by (intro div_nat_eqI) (simp_all add: r_def)
  have "(m + 15) div 16 = (16 * q + (r + 15)) div 16" using m(1) by simp
  also have "\<dots> = q + 1" unfolding div_mult_self4 [of 16, simplified] r by (simp add: r)
  finally show "(m + 15) div 16 = m div 16 + 1" by (simp add: q_def)
qed

lemma write_copied:
  assumes c: "copied m img fl0 (s_flash st)" and m: "m < 1024" and hw: "nor_flash hw"
    and len: "262144 \<le> length fl0" "262144 \<le> length img"
  shows "copied (Suc m) img fl0 (s_flash (write_flash_page hw (256 * m) (slice img (256 * m) 256) st))"
proof -
  define fl sec where "fl = s_flash st" and "sec = 4096 * (m div 16)"
  define f1 where "f1 = (if m mod 16 = 0 then flash_range_erase hw fl sec 4096 else fl)"
  have secs: "m div 16 * SECTOR_SIZE = sec" by (simp add: sec_def)
  have eq: "s_flash (write_flash_page hw (256 * m) (slice img (256 * m) 256) st) = flash_range_program hw f1 (256 * m) (slice img (256 * m) 256)"
    (is "_ = ?f2")
    by (simp add: write_flash_page_def write_flash_page_erasing_def Let_def f1_def fl_def secs slice_def)
  have sl: "length (slice img (256 * m) 256) = 256" using m len(2) by simp
  have l: "length fl = length fl0" using c by (simp add: copied_def fl_def)
  have l1: "length f1 = length fl0" by (simp add: f1_def erase_nth(2) [OF hw] l)
  note bounds = sector_arith [OF m, folded sec_def]
  have f1: "f1 ! i = (if m mod 16 = 0 \<and> sec \<le> i \<and> i < sec + 4096 then 0xff else fl ! i)" if "i < length fl0" for i
    using that by (simp add: f1_def erase_nth(1) [OF hw] l)
  have f2: "?f2 ! i = (if 256 * m \<le> i \<and> i < 256 * m + 256 then f1 ! i AND slice img (256 * m) 256 ! (i - 256 * m) else f1 ! i)"
    if "i < length fl0" for i
    using that by (simp add: program_nth(1) [OF hw] l1 sl)
  have ff: "f1 ! i = 0xff" if "256 * m \<le> i" "i < sec + 4096" for i
  proof -
    have i: "i < length fl0" using that bounds(4) len(1) by simp
    show ?thesis
    proof (cases "m mod 16 = 0")
      case True
      then show ?thesis using f1 [OF i] that bounds(1) by simp
    next
      case False
      then have "fl ! i = 0xff" using c that bounds(6) by (simp add: copied_def fl_def sec_def)
      then show ?thesis using f1 [OF i] by simp
    qed
  qed
  show ?thesis
    unfolding copied_def eq
  proof (intro conjI allI impI)
    show "length ?f2 = length fl0" by (simp add: program_nth(2) [OF hw] l1)
    fix i
    show "?f2 ! i = img ! i" if "i < 256 * Suc m"
    proof (cases "256 * m \<le> i")
      case True
      then have "f1 ! i = 0xff" using ff that bounds(3) by simp
      then show ?thesis using True that f2 [of i] m len by (simp add: nth_slice erased_and)
    next
      case False
      then have "fl ! i = img ! i" using c by (simp add: copied_def fl_def)
      then show ?thesis using False f2 [of i] f1 [of i] m len bounds(1) by auto
    qed
    show "?f2 ! i = 0xff" if "256 * Suc m \<le> i" "i < 4096 * ((Suc m + 15) div 16)"
    proof -
      have "i < sec + 4096" using that(2) unfolding bounds(5) by (simp add: sec_def)
      then show ?thesis using that(1) f2 [of i] ff [of i] bounds(4) len(1) by simp
    qed
    show "?f2 ! i = fl0 ! i" if "262144 \<le> i" "i < length fl0"
      using that c f2 [of i] f1 [of i] bounds(3,4) m by (simp add: copied_def fl_def)
  qed
qed

subsection \<open>Queues of the two boards\<close>

definition queued :: "uart_packet list \<Rightarrow> pull \<Rightarrow> bool" where
  "queued xs p \<longleftrightarrow> (let q = dv_uart_tx_queue (pl_device p) in queue_ok q \<and> queue_items q = xs \<and> 0 < q_element_count q)"

lemma send_queued:
  assumes "queued [] p" "length data = 8" "0 < t" "t < 256"
  shows "\<exists>q. send_packet data t p = (True, upd_dev (\<lambda>d. d\<lparr>dv_uart_tx_queue := q\<rparr>) p) \<and>
    queued [\<lparr>pkt_type = of_nat t, pkt_data = data, pkt_checksum = 0\<rparr>] (upd_dev (\<lambda>d. d\<lparr>dv_uart_tx_queue := q\<rparr>) p)"
proof -
  let ?q = "dv_uart_tx_queue (pl_device p)" and ?x = "\<lparr>pkt_type = of_nat t, pkt_data = data, pkt_checksum = 0\<rparr>"
  have q: "queue_ok ?q" "queue_items ?q = []" "0 < q_element_count ?q" using assms(1) by (simp_all add: queued_def Let_def)
  then obtain q' where q': "queue_try_add ?q ?x = (True, q')" "queue_ok q'" "queue_items q' = [?x]" "q_element_count q' = q_element_count ?q"
    using pico_queue.add_room [of ?q ?x] by auto
  have "queue_packet_try ?q (Some data) (int t) (int (length data)) = (True, q')"
    using assms(2-4) q'(1) by (simp add: queue_packet_try_def)
  then show ?thesis
    using q' q(3) by (intro exI [of _ q']) (simp add: send_packet_def queue_packet_dev_def upd_dev_def queued_def)
qed

lemma transmit_queued:
  assumes "queued [x] p"
  shows "\<exists>q. transmit e p = (Some x, upd_dev (\<lambda>d. d\<lparr>dv_uart_tx_queue := q\<rparr>) p) \<and> queued [] (upd_dev (\<lambda>d. d\<lparr>dv_uart_tx_queue := q\<rparr>) p)"
proof -
  let ?q = "dv_uart_tx_queue (pl_device p)"
  have q: "queue_ok ?q" "queue_items ?q = [x]" "0 < q_element_count ?q" using assms by (simp_all add: queued_def Let_def)
  then obtain q' where q': "queue_try_remove ?q = (Some x, q')" "queue_ok q'" "queue_items q' = []" "q_element_count q' = q_element_count ?q"
    using pico_queue.remove_first [of ?q x "[]"] by auto
  then show ?thesis using q(3) by (intro exI [of _ q']) (simp add: transmit_eq upd_dev_def queued_def)
qed

lemma transmit_idle: "queued [] p \<Longrightarrow> transmit e p = firmware_batch_next_tx e p"
  using pico_queue.remove_empty [of "dv_uart_tx_queue (pl_device p)"] by (simp add: queued_def transmit_eq Let_def)

lemma queued_cong: "dv_uart_tx_queue (pl_device p) = dv_uart_tx_queue (pl_device q) \<Longrightarrow> queued xs p = queued xs q"
  by (simp add: queued_def)

subsection \<open>The board that serves\<close>

text \<open>A board that serves the image of its slot, under the tags up to \<open>last\<close>.\<close>

definition serving :: "bytes \<Rightarrow> u16 \<Rightarrow> u32 \<Rightarrow> u32 \<Rightarrow> pull \<Rightarrow> bool" where
  "serving img v c last_tag b \<longleftrightarrow> can_serve b \<and> s_flash (pl_store b) = img \<and> dv_running_fw_version (pl_device b) = v \<and>
     dv_running_fw_checksum (pl_device b) = c \<and> fb_source_enabled (pl_batch b) \<and> fb_source_version (pl_batch b) = v \<and>
     fb_source_checksum (pl_batch b) = c \<and> fb_source_last_tag (pl_batch b) = last_tag \<and> queued [] b \<and>
     fu_source (pl_fw b) = FW_UPDATE_SOURCE_NONE"

lemma serving_steering: "steering q = steering p \<Longrightarrow> serving img v c t q = serving img v c t p"
  using steeringD [of q p] by (simp add: serving_def can_serve_def queued_def)

lemma serve_page_request:
  assumes "serving img v c t b" "valid_tag tag" "valid_address address" "t < tag"
  shows "serving img v c tag (receive_page_request e (le32 tag @ le32 address) b)"
    "tx_sending tag (slice img (unat address) 256) 0 (fb_tx (pl_batch (receive_page_request e (le32 tag @ le32 address) b)))"
proof -
  define page where "page = slice img (unat address) 256"
  define b1 where "b1 = upd_batch (\<lambda>b. b\<lparr>fb_source_page := page, fb_tx := snd (fw_batch_tx_begin (fb_tx b) tag address (Some page)),
                  fb_source_last_tag := tag\<rparr>) b"
  have dec: "fw_batch_request_decode (le32 tag @ le32 address) = Some (tag, address)"
    using assms(2,3) by (simp add: fw_batch_request_decode_def)
  have "receive_page_request e (le32 tag @ le32 address) b = source_activity e (profile_page e address b1)"
    using assms(1,4) by (simp add: receive_page_request_def Let_def dec serving_def b1_def page_def read_flash_bytes_def not_le)
  then have st: "steering (receive_page_request e (le32 tag @ le32 address) b) = steering b1" by simp
  have b1: "serving img v c tag b1" using assms(1) by (simp add: b1_def serving_def can_serve_def upd_batch_def queued_def)
  then show "serving img v c tag (receive_page_request e (le32 tag @ le32 address) b)" using serving_steering [OF st] by simp
  show "tx_sending tag (slice img (unat address) 256) 0 (fb_tx (pl_batch (receive_page_request e (le32 tag @ le32 address) b)))"
    using steeringD(6) [OF st] assms(2,3) by (simp add: b1_def upd_batch_def fw_batch_tx_begin_def tx_sending_def page_def)
qed

definition page_frame :: "fw_batch_kind \<times> bytes \<Rightarrow> uart_packet" where
  "page_frame x = \<lparr>pkt_type = (if fst x = FW_BATCH_DATA then FW_BATCH_PAGE_DATA_MSG else FW_BATCH_PAGE_END_MSG), pkt_data = snd x,
     pkt_checksum = 0\<rparr>"

lemma serve_next_frame:
  assumes "serving img v c t b" "tx_sending tag page j (fb_tx (pl_batch b))" "valid_tag tag" "pe_got e"
  shows "\<exists>b'. firmware_batch_next_tx e b = (Some (page_frame (page_packets tag page ! j)), b') \<and> serving img v c t b' \<and>
    fb_tx (pl_batch b') = snd (fw_batch_tx_sent (fb_tx (pl_batch b)))"
proof -
  define b0 where "b0 = (if \<not> can_serve b \<or> sp_active (pl_profile b) \<and> \<not> profile_matches b then upd_profile (\<lambda>_. zero_profile) b else b)"
  define b1 where "b1 = upd_batch (\<lambda>b. b\<lparr>fb_tx := snd (fw_batch_tx_sent (fb_tx b))\<rparr>) b0"
  obtain kind data where x: "page_packets tag page ! j = (kind, data)" by fastforce
  have st0: "steering b0 = steering b" by (simp add: b0_def)
  have s0: "serving img v c t b0" using serving_steering [OF st0] assms(1) by simp
  have peek: "fw_batch_tx_peek (fb_tx (pl_batch b0)) = Some (kind, data)"
    using tx_peek_sending [OF assms(2,3)] x steeringD(6) [OF st0] by simp
  define b2 where "b2 = source_activity e (if kind = FW_BATCH_END then profile_end e b1 else b1)"
  note eq = firmware_batch_next_tx_def [of e b, unfolded Let_def, folded b0_def]
  have g: "\<not> (\<not> can_serve b0 \<or> fb_source_version (pl_batch b0) \<noteq> dv_running_fw_version (pl_device b0) \<or>
      fb_source_checksum (pl_batch b0) \<noteq> dv_running_fw_checksum (pl_device b0))" using s0 by (simp add: serving_def)
  have "firmware_batch_next_tx e b = (Some (page_frame (kind, data)), b2)"
    unfolding eq if_not_P [OF g] peek option.case prod.case b1_def [symmetric] b2_def page_frame_def
    using assms(4) by simp
  moreover have st2: "steering b2 = steering b1" by (simp add: b2_def)
  moreover have "serving img v c t b1" using s0 by (simp add: b1_def serving_def can_serve_def upd_batch_def queued_def)
  moreover have "fb_tx (pl_batch b1) = snd (fw_batch_tx_sent (fb_tx (pl_batch b)))"
    using steeringD(6) [OF st0] by (simp add: b1_def upd_batch_def)
  ultimately show ?thesis using serving_steering [OF st2] steeringD(6) [OF st2] x by auto
qed

lemma tx_sent_sending:
  assumes "tx_sending tag page j s" "j < 64"
  shows "tx_sending tag page (Suc j) (snd (fw_batch_tx_sent s))"
  using assms by (simp add: tx_sending_def fw_batch_tx_sent_def)

subsection \<open>The board that pulls\<close>

text \<open>In the middle of a pull in pages, at page \<open>k\<close>, with \<open>m\<close> pages in flash.\<close>

definition at_page :: "bytes \<Rightarrow> u16 \<Rightarrow> u32 \<Rightarrow> bytes \<Rightarrow> nat \<Rightarrow> nat \<Rightarrow> pull \<Rightarrow> bool" where
  "at_page img v c fl0 k m a \<longleftrightarrow> fu_source (pl_fw a) = FW_UPDATE_SOURCE_PULL \<and> fu_address (pl_fw a) = of_nat (256 * k) \<and>
     fu_version (pl_fw a) = v \<and> fu_peer_checksum (pl_fw a) = c \<and>
     fu_checksum (pl_fw a) = foldl crc32_iter 0xffffffff (take (256 * min k 1008) img) \<and>
     \<not> dv_reboot_requested (pl_device a) \<and> \<not> dv_maintenance_reserved (pl_device a) \<and> dv_upgrade_in_progress (pl_device a) \<and>
     dv_running_fw_version (pl_device a) < v \<and>
     Reset_usb_boot \<notin> set (dv_calls (pl_device a)) \<and> fb_mode (pl_batch a) = FW_BATCH_PAGES \<and> length (s_page_buffer (pl_store a)) = 256 \<and> copied m img fl0 (s_flash (pl_store a))"

text \<open>The page before has been received and waits to be written.\<close>

definition page_ready :: "bytes \<Rightarrow> u16 \<Rightarrow> u32 \<Rightarrow> bytes \<Rightarrow> u32 \<Rightarrow> nat \<Rightarrow> pull \<Rightarrow> bool" where
  "page_ready img v c fl0 now k a \<longleftrightarrow> at_page img v c fl0 k (k - 1) a \<and> fu_byte_done (pl_fw a) \<and> fu_page_pending (pl_fw a) = (0 < k) \<and>
     (0 < k \<longrightarrow> s_page_buffer (pl_store a) = slice img (256 * (k - 1)) 256) \<and> fu_progressed_at_us (pl_fw a) = now \<and>
     fb_page_attempts (pl_batch a) = 0 \<and> fb_pending_tag (pl_batch a) = 0 \<and> queued [] a"

text \<open>The page is asked for under a tag and the packets \<open>H\<close> of the answer, but not its end, have arrived.\<close>

definition page_asked :: "bytes \<Rightarrow> u16 \<Rightarrow> u32 \<Rightarrow> bytes \<Rightarrow> u32 \<times> u32 \<Rightarrow> u32 \<Rightarrow> (fw_batch_kind \<times> bytes) set \<Rightarrow> nat \<Rightarrow> pull \<Rightarrow> bool" where
  "page_asked img v c fl0 w tag H k a \<longleftrightarrow> at_page img v c fl0 k k a \<and> fu_request_pending (pl_fw a) \<and> \<not> fu_page_pending (pl_fw a) \<and>
     rx_tracks tag (slice img (256 * k) 256) H (fb_rx (pl_batch a)) \<and> rx_open (fb_rx (pl_batch a)) \<and> \<not> rx_have_end (fb_rx (pl_batch a)) \<and>
     rx_address (fb_rx (pl_batch a)) = of_nat (256 * k) \<and> rx_page (fb_rx (pl_batch a)) = Some (s_page_buffer (pl_store a)) \<and>
     fb_pending_tag (pl_batch a) = 0 \<and> \<not> fu_byte_done (pl_fw a) \<and> fu_requested_at_us (pl_fw a) = fst w \<and> fu_progressed_at_us (pl_fw a) = snd w"

text \<open>Tags enough for \<open>n\<close> more requests, all newer than the last one the other board saw.\<close>

definition tags_for :: "nat \<Rightarrow> u32 \<Rightarrow> pull \<Rightarrow> bool" where
  "tags_for n t a \<longleftrightarrow> (let k = fb_tokens (pl_batch a) in token_ok k \<and> n \<le> token_left k \<and> (token_exhausted k \<or> t < token_next k))"

lemma next_tag:
  assumes "tags_for (Suc n) t a" "fb_pending_tag (pl_batch a) = 0"
  shows "\<exists>k. take_tag (pl_batch a) = (True, (pl_batch a)\<lparr>fb_tokens := k, fb_pending_tag := token_next (fb_tokens (pl_batch a))\<rparr>) \<and>
    valid_tag (token_next (fb_tokens (pl_batch a))) \<and> t < token_next (fb_tokens (pl_batch a)) \<and>
    (\<forall>b. fb_tokens (pl_batch b) = k \<longrightarrow> tags_for n (token_next (fb_tokens (pl_batch a))) b)"
proof -
  let ?k = "fb_tokens (pl_batch a)"
  have k: "token_ok ?k" "\<not> token_exhausted ?k" "Suc n \<le> token_left ?k" "t < token_next ?k"
    using assms(1) by (auto simp: tags_for_def Let_def token_left_def)
  from token_step [OF k(1,2)] obtain k' where k': "fw_batch_token_next ?k = (Some (token_next ?k), k')" "token_ok k'"
    "token_exhausted k' \<or> unat (token_next k') = unat (token_next ?k) + 64 \<and> \<not> token_exhausted k'" "token_left ?k = Suc (token_left k')"
    by blast
  then show ?thesis
    using k assms(2)
    by (intro exI [of _ k']) (auto simp: take_tag_def tags_for_def token_ok_def word_less_nat_alt)
qed

lemma page_start_nat:
  assumes "k < 1024"
  shows "unat (of_nat (256 * k) :: u32) = 256 * k" "valid_address (of_nat (256 * k))"
proof -
  show u: "unat (of_nat (256 * k) :: u32) = 256 * k" unfolding unsigned_of_nat of_nat_id using assms by (intro take_bit_nat_eq_self) simp
  have "unat (of_nat (256 * k) mod (256 :: u32)) = 0" by (simp only: unat_mod u) simp
  then have "of_nat (256 * k) mod (256 :: u32) = 0" using unat_eq_0 by blast
  then show "valid_address (of_nat (256 * k))" using u assms by (simp add: valid_address_def word_less_nat_alt)
qed

lemma slot_end_nat: "k \<le> 1024 \<Longrightarrow> unat (of_nat (256 * k) :: u32) = 256 * k"
  unfolding unsigned_of_nat of_nat_id by (intro take_bit_nat_eq_self) simp

lemma commit_ready:
  assumes r: "page_ready img v c fl0 now k a" and k: "k \<le> 1024" and hw: "nor_flash (pe_hw e)"
    and len: "262144 \<le> length fl0" "262144 \<le> length img"
  shows "at_page img v c fl0 k k (commit_pending_firmware_page e a)"
proof (cases "k = 0")
  case True
  then show ?thesis using r by (simp add: page_ready_def commit_pending_firmware_page_def)
next
  case False
  then obtain m where m: "k = Suc m" "m < 1024" using k by (cases k) auto
  have "of_nat (256 * k) - 256 = (of_nat (256 * m) :: u32)" by (simp add: m(1))
  then have a: "unat (fu_address (pl_fw a) - 256) = 256 * m"
    using r page_start_nat(1) [OF m(2)] by (simp only: page_ready_def at_page_def)
  have "copied m img fl0 (s_flash (pl_store a))" using r m(1) by (simp add: page_ready_def at_page_def)
  from write_copied [OF this m(2) hw len] have "copied k img fl0 (s_flash (pl_store (commit_pending_firmware_page e a)))"
    using r m(1) a by (simp add: commit_pending_firmware_page_def page_ready_def upd_fw_def upd_dev_def)
  moreover have "s_page_buffer (pl_store (commit_pending_firmware_page e a)) = s_page_buffer (pl_store a)"
    by (simp add: commit_pending_firmware_page_def upd_fw_def upd_dev_def write_flash_page_def write_flash_page_erasing_def
        firmware_verify_invalidate_range_def Let_def)
  ultimately show ?thesis
    using r by (simp add: page_ready_def at_page_def commit_pending_firmware_page_def upd_fw_def upd_dev_def)
qed

lemma commit_idle: "\<not> fu_page_pending (pl_fw p) \<Longrightarrow> commit_pending_firmware_page e p = p"
  by (simp add: commit_pending_firmware_page_def)

lemma commit_fields:
  "\<not> fu_page_pending (pl_fw (commit_pending_firmware_page e p))" "pl_batch (commit_pending_firmware_page e p) = pl_batch p"
  "dv_uart_tx_queue (pl_device (commit_pending_firmware_page e p)) = dv_uart_tx_queue (pl_device p)"
  by (simp_all add: commit_pending_firmware_page_def upd_fw_def upd_dev_def)

lemma task_advances:
  assumes "page_ready img v c fl0 now k a" "pe_now32 e - now < 30000000"
  shows "firmware_upgrade_task e a = advance_pull e a"
    "advance_pull e a = (let p = commit_pending_firmware_page e a in
       if fu_address (pl_fw p) \<ge> 262144 then finish_pull e p
       else case firmware_batch_request_locked e (fu_address (pl_fw p)) p of
             (False, p) \<Rightarrow> p
           | (True, p) \<Rightarrow> commit_pending_firmware_page e p)"
  using assms
  by (simp_all add: firmware_upgrade_task_def page_ready_def at_page_def fw_update_next_action_def not_le advance_pull_def Let_def
      commit_idle commit_fields)

text \<open>The task asks for the page.\<close>

lemma task_asks:
  assumes r: "page_ready img v c fl0 now k a" and k: "k < 1024" and hw: "nor_flash (pe_hw e)"
    and len: "262144 \<le> length fl0" "262144 \<le> length img" and now: "pe_now32 e - now < 30000000" and tags: "tags_for (Suc n) t a"
  shows "\<exists>tag. valid_tag tag \<and> t < tag \<and> page_asked img v c fl0 (pe_now32 e, now) tag {} k (firmware_upgrade_task e a) \<and> tags_for n tag (firmware_upgrade_task e a) \<and>
    queued [\<lparr>pkt_type = FW_BATCH_PAGE_REQUEST_MSG, pkt_data = le32 tag @ le32 (of_nat (256 * k)), pkt_checksum = 0\<rparr>] (firmware_upgrade_task e a)"
proof -
  define p where "p = commit_pending_firmware_page e a"
  have p: "at_page img v c fl0 k k p" "pl_batch p = pl_batch a" "queued [] p" "\<not> fu_page_pending (pl_fw p)"
    using r commit_ready [OF r _ hw len] k queued_cong [of p a] by (simp_all add: p_def commit_fields page_ready_def)
  define tag where "tag = token_next (fb_tokens (pl_batch a))"
  from next_tag [OF tags] r obtain kk where kk: "take_tag (pl_batch p) = (True, (pl_batch a)\<lparr>fb_tokens := kk, fb_pending_tag := tag\<rparr>)"
    "valid_tag tag" "t < tag" "\<forall>b. fb_tokens (pl_batch b) = kk \<longrightarrow> tags_for n tag b"
    by (auto simp: page_ready_def p(2) tag_def)
  define p1 where "p1 = p\<lparr>pl_batch := (pl_batch a)\<lparr>fb_tokens := kk, fb_pending_tag := tag\<rparr>\<rparr>"
  have q1: "queued [] p1" using p(3) by (simp add: p1_def queued_def)
  let ?data = "le32 tag @ le32 (of_nat (256 * k))"
  from send_queued [OF q1, of ?data "unat FW_BATCH_PAGE_REQUEST_MSG"] obtain q where
    q: "send_packet ?data (unat FW_BATCH_PAGE_REQUEST_MSG) p1 = (True, upd_dev (\<lambda>d. d\<lparr>dv_uart_tx_queue := q\<rparr>) p1)"
    "queued [\<lparr>pkt_type = FW_BATCH_PAGE_REQUEST_MSG, pkt_data = ?data, pkt_checksum = 0\<rparr>] (upd_dev (\<lambda>d. d\<lparr>dv_uart_tx_queue := q\<rparr>) p1)"
    by auto
  define p2 where "p2 = upd_dev (\<lambda>d. d\<lparr>dv_uart_tx_queue := q\<rparr>) p1"
  define p3 where "p3 = upd_fw (\<lambda>f. f\<lparr>fu_byte_done := False, fu_request_pending := True, fu_requested_at_us := pe_now32 e\<rparr>)
                (upd_batch (\<lambda>b. b\<lparr>fb_rx := snd (fw_batch_rx_begin (fb_rx b) (fb_pending_tag b) (of_nat (256 * k)) (Some (s_page_buffer (pl_store p2)))),
                   fb_pending_tag := 0, fb_page_attempts := fb_page_attempts b + 1\<rparr>) p2)"
  have addr: "fu_address (pl_fw p) = of_nat (256 * k)" using p(1) by (simp only: at_page_def)
  have enc: "fw_batch_request_encode (fb_pending_tag (pl_batch p1)) (of_nat (256 * k)) = Some ?data"
    using kk(2) page_start_nat(2) [OF k] by (simp add: p1_def fw_batch_request_encode_def)
  have mode: "fb_mode (pl_batch p) = FW_BATCH_PAGES" "\<not> fb_page_attempts (pl_batch p) \<ge> 3"
    using r by (simp_all add: p(2) page_ready_def at_page_def)
  have "firmware_batch_request_locked e (fu_address (pl_fw p)) p = request_page e (of_nat (256 * k)) p1"
    unfolding firmware_batch_request_locked_def mode(1) fw_batch_mode.case if_not_P [OF mode(2)] kk(1) addr by (simp add: p1_def)
  also have "\<dots> = (True, p3)"
    unfolding request_page_def enc option.case q(1) p2_def [symmetric] by (simp add: p3_def)
  finally have req: "firmware_batch_request_locked e (fu_address (pl_fw p)) p = (True, p3)" .
  have "\<not> fu_address (pl_fw p) \<ge> 262144" using k page_start_nat(1) [OF k] by (simp only: addr word_le_nat_alt) simp
  moreover have np: "\<not> fu_page_pending (pl_fw p3)" using p(4) by (simp add: p3_def p2_def p1_def upd_fw_def upd_batch_def upd_dev_def)
  ultimately have t3: "firmware_upgrade_task e a = p3"
    unfolding task_advances [OF r now] p_def [symmetric] Let_def req by (simp add: commit_idle)
  have rx: "fb_rx (pl_batch p3) = \<lparr>rx_tag = tag, rx_address = of_nat (256 * k), rx_checksum = 0, rx_received = 0,
      rx_page = Some (s_page_buffer (pl_store p)), rx_active = True, rx_have_end = False, rx_invalid = False\<rparr>"
    using kk(2) page_start_nat(2) [OF k]
    by (simp add: p3_def p2_def p1_def upd_fw_def upd_batch_def upd_dev_def fw_batch_rx_begin_def)
  have "at_page img v c fl0 k k p3"
    using p(1,2) by (simp add: at_page_def p3_def p2_def p1_def upd_fw_def upd_batch_def upd_dev_def)
  moreover have prog: "fu_progressed_at_us (pl_fw p3) = now"
    using r by (simp add: p3_def p2_def p1_def p_def upd_fw_def upd_batch_def upd_dev_def commit_pending_firmware_page_def page_ready_def)
  ultimately have "page_asked img v c fl0 (pe_now32 e, now) tag {} k p3"
    using np rx p(1) prog
    by (simp add: page_asked_def rx_tracks_def rx_open_def at_page_def) (simp add: p3_def p2_def p1_def upd_fw_def upd_batch_def upd_dev_def)
  moreover have "queued [\<lparr>pkt_type = FW_BATCH_PAGE_REQUEST_MSG, pkt_data = ?data, pkt_checksum = 0\<rparr>] p3"
    using q(2) queued_cong [of p3 p2] by (simp add: p3_def p2_def upd_fw_def upd_batch_def)
  moreover have "tags_for n tag p3" using kk(4) by (simp add: p3_def p2_def p1_def upd_fw_def upd_batch_def upd_dev_def)
  ultimately show ?thesis using kk(2,3) t3 by auto
qed

text \<open>The frames of the answer.\<close>

lemma hear_frame:
  assumes "page_asked img v c fl0 w tag H k a" and rec: "fw_batch_rx_receive (fb_rx (pl_batch a)) x = (r, rx)"
  defines "q \<equiv> set_page_buffer (case rx_page rx of Some b \<Rightarrow> b | None \<Rightarrow> s_page_buffer (pl_store a)) (upd_batch (\<lambda>b. b\<lparr>fb_rx := rx\<rparr>) a)"
  shows "deliver e (page_frame x) a = (if r \<noteq> FW_BATCH_RX_COMPLETE then q else page_received e q)"
proof -
  have kind: "(if pkt_type (page_frame x) = FW_BATCH_PAGE_DATA_MSG then FW_BATCH_DATA else FW_BATCH_END, pkt_data (page_frame x)) = x"
    by (cases x; cases "fst x") (simp_all add: page_frame_def)
  have del: "deliver e (page_frame x) a = receive_page_data e (page_frame x) a"
    by (simp add: deliver_def firmware_batch_packet_def page_frame_def)
  have g: "\<not> (dv_reboot_requested (pl_device a) \<or> dv_maintenance_reserved (pl_device a) \<or> fu_source (pl_fw a) \<noteq> FW_UPDATE_SOURCE_PULL \<or>
      \<not> fu_request_pending (pl_fw a) \<or> fb_mode (pl_batch a) \<noteq> FW_BATCH_PAGES \<or> rx_address (fb_rx (pl_batch a)) \<noteq> fu_address (pl_fw a))"
    using assms(1) by (simp add: page_asked_def at_page_def)
  show ?thesis
    unfolding del receive_page_data_def Let_def if_not_P [OF g] kind rx_into_buffer_def rec prod.case q_def by simp
qed

lemma frame_own: "262144 \<le> length img \<Longrightarrow> k < 1024 \<Longrightarrow> x \<in> set (page_packets tag (slice img (256 * k) 256)) \<Longrightarrow>
    own_or_foreign tag (slice img (256 * k) 256) x"
  by (rule page_packets_own) simp_all

lemma data_keeps_end:
  assumes "fw_batch_rx_receive s (FW_BATCH_DATA, d) = (r, s')" "\<not> rx_have_end s"
  shows "r \<noteq> FW_BATCH_RX_COMPLETE" "\<not> rx_have_end s'"
  using assms by (auto simp: fw_batch_rx_receive_def rx_conclude_def invalid_page_def Let_def split: option.splits if_splits)

lemma hear_data:
  assumes a: "page_asked img v c fl0 w tag H k a" and tag: "valid_tag tag" and k: "k < 1024" and len: "262144 \<le> length img"
    and j: "j < 64"
  defines "x \<equiv> data_packet tag (slice img (256 * k) 256) j"
  shows "page_asked img v c fl0 w tag (insert x H) k (deliver e (page_frame x) a)"
    "pl_device (deliver e (page_frame x) a) = pl_device a" "fb_tokens (pl_batch (deliver e (page_frame x) a)) = fb_tokens (pl_batch a)"
proof -
  let ?page = "slice img (256 * k) 256" and ?rx = "fb_rx (pl_batch a)"
  obtain r rx where rec: "fw_batch_rx_receive ?rx x = (r, rx)" by fastforce
  define q where "q = set_page_buffer (case rx_page rx of Some b \<Rightarrow> b | None \<Rightarrow> s_page_buffer (pl_store a)) (upd_batch (\<lambda>b. b\<lparr>fb_rx := rx\<rparr>) a)"
  have e: "r \<noteq> FW_BATCH_RX_COMPLETE" "\<not> rx_have_end rx"
    using data_keeps_end [OF rec [unfolded x_def data_packet_def]] a by (simp_all add: page_asked_def)
  have del: "deliver e (page_frame x) a = q" unfolding hear_frame [OF a rec] q_def [symmetric] using e(1) by simp
  have own: "own_or_foreign tag ?page x"
    using j by (intro frame_own [OF len k]) (simp add: x_def page_packets_def)
  have pg: "length ?page = 256" using k len by simp
  have tr: "rx_tracks tag ?page H ?rx" "rx_open ?rx" using a by (simp_all add: page_asked_def)
  have tr': "rx_tracks tag ?page (insert x H) rx" "rx_open rx"
    using rx_receive_tracks [OF tr(1) tag pg own tr(2) rec] e(1) by auto
  obtain buf where buf: "rx_page rx = Some buf" "length buf = 256" using tr'(1) by (auto simp: rx_tracks_def)
  have q: "pl_fw q = pl_fw a" "pl_device q = pl_device a" "s_flash (pl_store q) = s_flash (pl_store a)" "s_page_buffer (pl_store q) = buf"
    "fb_rx (pl_batch q) = rx" "fb_mode (pl_batch q) = fb_mode (pl_batch a)" "fb_pending_tag (pl_batch q) = fb_pending_tag (pl_batch a)"
    "fb_tokens (pl_batch q) = fb_tokens (pl_batch a)"
    by (simp_all add: q_def set_page_buffer_def upd_batch_def buf)
  have "page_asked img v c fl0 w tag (insert x H) k q"
    using a tr' e(2) rx_receive_keeps(2) [OF rec] buf by (simp add: page_asked_def at_page_def q)
  then show "page_asked img v c fl0 w tag (insert x H) k (deliver e (page_frame x) a)"
    "pl_device (deliver e (page_frame x) a) = pl_device a" "fb_tokens (pl_batch (deliver e (page_frame x) a)) = fb_tokens (pl_batch a)"
    by (simp_all add: del q)
qed

lemma take_next_page: "take (n + m) xs = take n xs @ slice xs n m"
  by (simp add: slice_def take_add)

lemma page_received_ready:
  assumes a: "at_page img v c fl0 k k a" and k: "k < 1024" and len: "262144 \<le> length img"
    and buf: "s_page_buffer (pl_store a) = slice img (256 * k) 256" and pend: "fb_pending_tag (pl_batch a) = 0" and q: "queued [] a"
  shows "page_ready img v c fl0 (pe_now32 e) (Suc k) (page_received e a)"
proof -
  note f = page_received_fields [of e a]
  have n: "of_nat (256 * k) + 256 = (of_nat (256 * Suc k) :: u32)" by simp
  have adr: "fu_address (pl_fw a) = of_nat (256 * k)" using a by (simp only: at_page_def)
  have lt: "fu_address (pl_fw a) < 258048 \<longleftrightarrow> k < 1008"
    unfolding adr word_less_nat_alt page_start_nat(1) [OF k] by simp
  have crc: "fu_checksum (pl_fw (page_received e a)) = foldl crc32_iter 0xffffffff (take (256 * min (Suc k) 1008) img)"
  proof (cases "k < 1008")
    case True
    have s: "256 * min (Suc k) 1008 = 256 * k + 256" "min k 1008 = k" using True by simp_all
    have "fu_checksum (pl_fw (page_received e a)) = foldl crc32_iter (fu_checksum (pl_fw a)) (slice img (256 * k) 256)"
      using True buf by (simp add: page_received_def Let_def lt upd_fw_def upd_batch_def)
    also have "\<dots> = foldl crc32_iter 0xffffffff (take (256 * k) img @ slice img (256 * k) 256)"
      using a by (simp add: at_page_def s)
    finally show ?thesis unfolding s take_next_page .
  next
    case False
    then have "fu_checksum (pl_fw (page_received e a)) = fu_checksum (pl_fw a)"
      by (simp add: page_received_def Let_def lt upd_fw_def upd_batch_def)
    then show ?thesis using a False by (simp add: at_page_def min_def)
  qed
  have prog: "fu_progressed_at_us (pl_fw (page_received e a)) = pe_now32 e" "fb_page_attempts (pl_batch (page_received e a)) = 0"
    "fb_pending_tag (pl_batch (page_received e a)) = fb_pending_tag (pl_batch a)"
    using steeringD(9,14) [OF steering_runtime] steeringD(9) [OF steering_profiles(6)]
    by (simp_all add: page_received_def Let_def upd_fw_def upd_batch_def)
  have "at_page img v c fl0 (Suc k) k (page_received e a)"
    unfolding at_page_def crc using a len by (simp only: f at_page_def n simp_thms)
  then show ?thesis
    using f buf pend q queued_cong [of "page_received e a" a] by (simp add: page_ready_def prog)
qed

lemma hear_end:
  assumes a: "page_asked img v c fl0 w tag H k a" and tag: "valid_tag tag" and k: "k < 1024" and len: "262144 \<le> length img"
    and all: "\<forall>j<64. data_packet tag (slice img (256 * k) 256) j \<in> H" and q: "queued [] a"
  defines "x \<equiv> end_packet tag (fw_batch_page_crc (slice img (256 * k) 256))"
  shows "page_ready img v c fl0 (pe_now32 e) (Suc k) (deliver e (page_frame x) a)"
    "fb_tokens (pl_batch (deliver e (page_frame x) a)) = fb_tokens (pl_batch a)"
proof -
  let ?page = "slice img (256 * k) 256" and ?rx = "fb_rx (pl_batch a)"
  obtain r rx where rec: "fw_batch_rx_receive ?rx x = (r, rx)" by fastforce
  define q1 where "q1 = set_page_buffer (case rx_page rx of Some b \<Rightarrow> b | None \<Rightarrow> s_page_buffer (pl_store a)) (upd_batch (\<lambda>b. b\<lparr>fb_rx := rx\<rparr>) a)"
  have own: "own_or_foreign tag ?page x" by (intro frame_own [OF len k]) (simp add: x_def page_packets_def)
  have pg: "length ?page = 256" using k len by simp
  have tr: "rx_tracks tag ?page H ?rx" "rx_open ?rx" using a by (simp_all add: page_asked_def)
  have "\<not> (rx_tracks tag ?page (insert x H) rx \<and> rx_open rx)"
  proof
    assume "rx_tracks tag ?page (insert x H) rx \<and> rx_open rx"
    then have "\<forall>w<64. bit (rx_received rx) w" "rx_have_end rx" "rx_open rx" using all by (simp_all add: rx_tracks_def x_def)
    then show False unfolding rx_open_def all_received by blast
  qed
  then have c: "r = FW_BATCH_RX_COMPLETE" "rx_page rx = Some ?page"
    using rx_receive_tracks [OF tr(1) tag pg own tr(2) rec] by auto
  have del: "deliver e (page_frame x) a = page_received e q1" unfolding hear_frame [OF a rec] q1_def [symmetric] using c(1) by simp
  have "at_page img v c fl0 k k q1"
    using a pg by (simp add: page_asked_def at_page_def q1_def set_page_buffer_def upd_batch_def c)
  then show "page_ready img v c fl0 (pe_now32 e) (Suc k) (deliver e (page_frame x) a)"
    unfolding del using a q queued_cong [of q1 a]
    by (intro page_received_ready [OF _ k len]) (simp_all add: q1_def set_page_buffer_def upd_batch_def c page_asked_def)
  have "fb_tokens (pl_batch (page_received e q1)) = fb_tokens (pl_batch q1)"
    using steeringD(8) [OF steering_runtime] steeringD(8) [OF steering_profiles(6)]
    by (simp add: page_received_def Let_def upd_fw_def upd_batch_def)
  then show "fb_tokens (pl_batch (deliver e (page_frame x) a)) = fb_tokens (pl_batch a)"
    unfolding del by (simp add: q1_def set_page_buffer_def upd_batch_def)
qed

subsection \<open>Between the steps\<close>

text \<open>A board in a pull of version \<open>v\<close>, that awaits an answer if \<open>w\<close> says so, and the board that it pulls from.\<close>

definition in_pull :: "u16 \<Rightarrow> u32 \<Rightarrow> (u32 \<times> u32) option \<Rightarrow> pull \<Rightarrow> bool" where
  "in_pull v c w a \<longleftrightarrow> fu_source (pl_fw a) = FW_UPDATE_SOURCE_PULL \<and> fu_version (pl_fw a) = v \<and> fu_peer_checksum (pl_fw a) = c \<and>
     \<not> dv_reboot_requested (pl_device a) \<and> \<not> dv_maintenance_reserved (pl_device a) \<and> dv_upgrade_in_progress (pl_device a) \<and>
     dv_running_fw_version (pl_device a) < v \<and> fb_mode (pl_batch a) \<noteq> FW_BATCH_LEGACY \<and>
     (case w of None \<Rightarrow> True | Some (asked, progressed) \<Rightarrow>
        \<not> fu_byte_done (pl_fw a) \<and> fu_requested_at_us (pl_fw a) = asked \<and> fu_progressed_at_us (pl_fw a) = progressed)"

definition offers :: "u16 \<Rightarrow> u32 \<Rightarrow> pull \<Rightarrow> bool" where
  "offers v c b \<longleftrightarrow> can_serve b \<and> dv_running_fw_version (pl_device b) = v \<and> dv_running_fw_checksum (pl_device b) = c \<and>
     fu_source (pl_fw b) = FW_UPDATE_SOURCE_NONE"

abbreviation peer_seen :: "u32 \<Rightarrow> pull \<Rightarrow> pull" where
  "peer_seen n p \<equiv> p\<lparr>pl_peer_fw_last_seen_us := n\<rparr>"

lemma fw_heartbeat_fields:
  "get16 (pkt_data (fw_heartbeat d)) 0 = dv_running_fw_version d" "get16 (pkt_data (fw_heartbeat d)) 2 = 0xd485"
  "get32 (pkt_data (fw_heartbeat d)) 4 = dv_running_fw_checksum d"
  using get16_at [of 0 "[]" "dv_running_fw_version d" "le16 0xd485 @ le32 (dv_running_fw_checksum d)"]
    get16_at [of 2 "le16 (dv_running_fw_version d)" "0xd485" "le32 (dv_running_fw_checksum d)"]
    get32_at [of 4 "le16 (dv_running_fw_version d) @ le16 0xd485" "dv_running_fw_checksum d" "[]"]
  by (simp_all add: fw_heartbeat_def)

lemma peer_seen_same: "\<exists>n. p = peer_seen n p"
  by (rule exI [of _ "pl_peer_fw_last_seen_us p"]) simp

lemma stray_ignored:
  assumes "in_pull v c w a" "pkt_type x \<notin> {HEARTBEAT_MSG, FW_BATCH_CAPS_RESPONSE_MSG, FW_BATCH_PAGE_DATA_MSG, FW_BATCH_PAGE_END_MSG}"
  shows "deliver e x a = a"
proof -
  have "\<not> can_serve a" using assms(1) by (simp add: in_pull_def can_serve_def)
  then have "receive_caps_request e y a = a" "receive_page_request e y a = a" for y
    by (auto simp: receive_caps_request_def receive_page_request_def split: option.splits)
  moreover have "handle_request_byte_msg e x a = a" "handle_response_byte_msg e x a = a"
    using assms(1) by (simp_all add: handle_request_byte_msg_def handle_response_byte_msg_def firmware_batch_accepts_word_def in_pull_def Let_def)
  ultimately show ?thesis using assms(2) by (simp add: deliver_def firmware_batch_packet_def)
qed

text \<open>What happens between the steps changes nothing but the time at which the other board was last heard.\<close>

lemma between_step:
  assumes "in_pull v c w a" "offers v c b" "between w x"
  shows "\<exists>n m. link_step x (a, b) = (peer_seen n a, peer_seen m b)"
proof (cases x)
  case (Beat e)
  have "deliver e (fw_heartbeat (pl_device b)) a = handle_heartbeat_msg e (fw_heartbeat (pl_device b)) a"
    by (simp add: deliver_def fw_heartbeat_def)
  also have "\<dots> = peer_seen (pe_now32 e) a"
    using assms(1,2) by (simp add: handle_heartbeat_msg_def Let_def fw_heartbeat_fields in_pull_def offers_def fw_update_peer_compatible_def)
  finally show ?thesis using peer_seen_same [of b] Beat by auto
next
  case (Beat_back e)
  have old: "dv_running_fw_version (pl_device a) \<le> v" using assms(1) by (simp add: in_pull_def order.strict_implies_order)
  have "deliver e (fw_heartbeat (pl_device a)) b = handle_heartbeat_msg e (fw_heartbeat (pl_device a)) b"
    by (simp add: deliver_def fw_heartbeat_def)
  also have "\<dots> = peer_seen (pe_now32 e) b"
    using assms(2) old
    by (simp add: handle_heartbeat_msg_def Let_def fw_heartbeat_fields offers_def can_serve_def fw_update_peer_compatible_def)
  finally show ?thesis using peer_seen_same [of a] Beat_back by auto
next
  case (Task e)
  then obtain asked progressed where w: "w = Some (asked, progressed)" "pe_now32 e - asked < 100000" "pe_now32 e - progressed < 30000000"
    using assms(3) by (auto simp: between_def split: option.splits)
  then have "fw_update_next_action (fu_source (pl_fw a)) (fu_byte_done (pl_fw a)) (dv_image_dirty (pl_device a)) (pe_now32 e)
      (fu_requested_at_us (pl_fw a)) (fu_progressed_at_us (pl_fw a)) (pl_peer_fw_last_seen_us a) = FW_UPDATE_WAIT"
    using assms(1) by (simp add: fw_update_next_action_def in_pull_def not_le)
  then have "firmware_upgrade_task e a = a" by (simp add: firmware_upgrade_task_def Let_def)
  then show ?thesis using peer_seen_same [of a] peer_seen_same [of b] Task by auto
next
  case (Stray e y)
  then show ?thesis using stray_ignored [OF assms(1)] assms(3) peer_seen_same [of a] peer_seen_same [of b] by (auto simp: between_def)
qed (use assms(3) in \<open>simp_all add: between_def\<close>)

lemma between_run:
  assumes "in_pull v c w a" "offers v c b" "list_all (between w) xs"
  shows "\<exists>n m. fold link_step xs (a, b) = (peer_seen n a, peer_seen m b)"
  using assms
proof (induction xs arbitrary: a b)
  case Nil
  then show ?case using peer_seen_same [of a] peer_seen_same [of b] by auto
next
  case (Cons x xs)
  then obtain n m where x: "link_step x (a, b) = (peer_seen n a, peer_seen m b)" using between_step [of v c w a b x] by auto
  have "in_pull v c w (peer_seen n a)" "offers v c (peer_seen m b)" using Cons.prems by (simp_all add: in_pull_def offers_def can_serve_def split: option.splits prod.splits)
  from Cons.IH [OF this] Cons.prems(3) show ?case by (auto simp: x)
qed

lemma ready_in_pull: "page_ready img v c fl0 now k a \<Longrightarrow> in_pull v c None a"
  by (simp add: page_ready_def at_page_def in_pull_def)

lemma asked_in_pull: "page_asked img v c fl0 w tag H k a \<Longrightarrow> in_pull v c (Some w) a"
  by (cases w) (simp add: page_asked_def at_page_def in_pull_def)

lemma serving_offers: "serving img v c t b \<Longrightarrow> offers v c b"
  by (simp add: serving_def offers_def)

lemma seen_irrelevant [simp]:
  "page_ready img v c fl0 now k (peer_seen n a) = page_ready img v c fl0 now k a"
  "page_asked img v c fl0 w tag H k (peer_seen n a) = page_asked img v c fl0 w tag H k a"
  "queued xs (peer_seen n a) = queued xs a" "tags_for j t (peer_seen n a) = tags_for j t a"
  "serving img v c t (peer_seen n a) = serving img v c t a"
  by (simp_all add: page_ready_def page_asked_def at_page_def queued_def tags_for_def serving_def can_serve_def)

subsection \<open>Rounds\<close>

lemma asked_dev: "page_asked img v c fl0 w tag H k (upd_dev (\<lambda>d. d\<lparr>dv_uart_tx_queue := q\<rparr>) a) = page_asked img v c fl0 w tag H k a"
  by (simp add: page_asked_def at_page_def upd_dev_def)

lemma ask_round:
  assumes r: "page_ready img v c fl0 now k a" and b: "serving img v c t b" and tags: "tags_for (Suc n) t a" and k: "k < 1024"
    and hw: "nor_flash (pe_hw e)" and len: "262144 \<le> length fl0" "262144 \<le> length img" and now: "pe_now32 e - now < 30000000"
    and nz: "list_all (between None) nz0" "list_all (between (Some (pe_now32 e, now))) nz1"
  shows "\<exists>tag a' b'. fold link_step (nz0 @ [Task e] @ nz1 @ [Up e]) (a, b) = (a', b') \<and> valid_tag tag \<and>
    page_asked img v c fl0 (pe_now32 e, now) tag {} k a' \<and>
    queued [] a' \<and> tags_for n tag a' \<and> serving img v c tag b' \<and> tx_sending tag (slice img (256 * k) 256) 0 (fb_tx (pl_batch b'))"
proof -
  let ?x = "\<lambda>tag. \<lparr>pkt_type = FW_BATCH_PAGE_REQUEST_MSG, pkt_data = le32 tag @ le32 (of_nat (256 * k)), pkt_checksum = 0\<rparr>"
  from between_run [OF ready_in_pull [OF r] serving_offers [OF b] nz(1)] obtain n0 m0 where
    z0: "fold link_step nz0 (a, b) = (peer_seen n0 a, peer_seen m0 b)" by blast
  define a0 b0 where "a0 = peer_seen n0 a" and "b0 = peer_seen m0 b"
  have ab0: "page_ready img v c fl0 now k a0" "tags_for (Suc n) t a0" "serving img v c t b0" using r b tags by (simp_all add: a0_def b0_def)
  define a1 where "a1 = firmware_upgrade_task e a0"
  from task_asks [OF ab0(1) k hw len now ab0(2)] obtain tag where tag: "valid_tag tag" "t < tag"
    "page_asked img v c fl0 (pe_now32 e, now) tag {} k a1" "tags_for n tag a1" "queued [?x tag] a1" by (auto simp: a1_def)
  from between_run [OF asked_in_pull [OF tag(3)] serving_offers [OF ab0(3)] nz(2)] obtain n1 m1 where
    z1: "fold link_step nz1 (a1, b0) = (peer_seen n1 a1, peer_seen m1 b0)" by blast
  define a2 b1 where "a2 = peer_seen n1 a1" and "b1 = peer_seen m1 b0"
  have ab1: "page_asked img v c fl0 (pe_now32 e, now) tag {} k a2" "tags_for n tag a2" "queued [?x tag] a2" "serving img v c t b1"
    using tag ab0(3) by (simp_all add: a2_def b1_def)
  from transmit_queued [OF ab1(3), of e] obtain q where
    q: "transmit e a2 = (Some (?x tag), upd_dev (\<lambda>d. d\<lparr>dv_uart_tx_queue := q\<rparr>) a2)" "queued [] (upd_dev (\<lambda>d. d\<lparr>dv_uart_tx_queue := q\<rparr>) a2)"
    by blast
  define b2 where "b2 = deliver e (?x tag) b1"
  have b2: "b2 = receive_page_request e (le32 tag @ le32 (of_nat (256 * k))) b1" by (simp add: b2_def deliver_def firmware_batch_packet_def)
  note s = serve_page_request [OF ab1(4) tag(1) page_start_nat(2) [OF k] tag(2), of e, folded b2, unfolded page_start_nat(1) [OF k]]
  have "fold link_step (nz0 @ [Task e] @ nz1 @ [Up e]) (a, b) = (upd_dev (\<lambda>d. d\<lparr>dv_uart_tx_queue := q\<rparr>) a2, b2)"
    using q(1) z1 by (simp add: z0 a0_def [symmetric] b0_def [symmetric] a1_def [symmetric] a2_def [symmetric] b1_def [symmetric] b2_def)
  moreover have "tags_for n tag (upd_dev (\<lambda>d. d\<lparr>dv_uart_tx_queue := q\<rparr>) a2)" using ab1(2) by (simp add: tags_for_def upd_dev_def)
  ultimately show ?thesis using tag(1) ab1(1) s q(2) asked_dev by blast
qed

lemma answer_round:
  assumes a: "page_asked img v c fl0 w tag {} k a" "queued [] a" and tag: "valid_tag tag" and k: "k < 1024"
    and len: "262144 \<le> length img"
    and b: "serving img v c t b" "tx_sending tag (slice img (256 * k) 256) 0 (fb_tx (pl_batch b))" and got: "\<forall>j. pe_got (en j)"
    and nz: "\<forall>j. list_all (between (Some w)) (nz j)"
  shows "j \<le> 64 \<Longrightarrow> \<exists>a' b'. fold link_step (concat (map (\<lambda>j. nz j @ [Down (en j)]) [0..<j])) (a, b) = (a', b') \<and>
    page_asked img v c fl0 w tag (data_packet tag (slice img (256 * k) 256) ` {0..<j}) k a' \<and> queued [] a' \<and>
    fb_tokens (pl_batch a') = fb_tokens (pl_batch a) \<and> serving img v c t b' \<and>
    tx_sending tag (slice img (256 * k) 256) j (fb_tx (pl_batch b'))"
proof (induction j)
  case 0
  then show ?case using a b by simp
next
  case (Suc j)
  let ?page = "slice img (256 * k) 256"
  have j: "j < 64" using Suc.prems by simp
  from Suc.IH j obtain a0 b0 where s0: "fold link_step (concat (map (\<lambda>j. nz j @ [Down (en j)]) [0..<j])) (a, b) = (a0, b0)"
    "page_asked img v c fl0 w tag (data_packet tag ?page ` {0..<j}) k a0" "queued [] a0"
    "fb_tokens (pl_batch a0) = fb_tokens (pl_batch a)" "serving img v c t b0" "tx_sending tag ?page j (fb_tx (pl_batch b0))"
    by (auto simp: less_imp_le)
  from between_run [OF asked_in_pull [OF s0(2)] serving_offers [OF s0(5)] nz [rule_format, of j]] obtain n m where
    z: "fold link_step (nz j) (a0, b0) = (peer_seen n a0, peer_seen m b0)" by blast
  define a1 b1 where "a1 = peer_seen n a0" and "b1 = peer_seen m b0"
  have s: "page_asked img v c fl0 w tag (data_packet tag ?page ` {0..<j}) k a1" "queued [] a1"
    "fb_tokens (pl_batch a1) = fb_tokens (pl_batch a)" "serving img v c t b1" "tx_sending tag ?page j (fb_tx (pl_batch b1))"
    using s0 by (simp_all add: a1_def b1_def)
  from serve_next_frame [OF s(4,5) tag, of "en j"] got obtain b2 where
    b2: "firmware_batch_next_tx (en j) b1 = (Some (page_frame (page_packets tag ?page ! j)), b2)" "serving img v c t b2"
      "fb_tx (pl_batch b2) = snd (fw_batch_tx_sent (fb_tx (pl_batch b1)))" by auto
  have x: "page_packets tag ?page ! j = data_packet tag ?page j" using j by (simp add: page_packets_def nth_append)
  have tr: "transmit (en j) b1 = (Some (page_frame (data_packet tag ?page j)), b2)"
    using transmit_idle [of b1 "en j"] s(4) b2(1) x by (simp add: serving_def)
  define a2 where "a2 = deliver (en j) (page_frame (data_packet tag ?page j)) a1"
  note h = hear_data [OF s(1) tag k len j, of "en j", folded a2_def]
  have st: "fold link_step (concat (map (\<lambda>j. nz j @ [Down (en j)]) [0..<Suc j])) (a, b) = (a2, b2)"
    using s0(1) z tr by (simp add: a1_def [symmetric] b1_def [symmetric] a2_def)
  have ins: "insert (data_packet tag ?page j) (data_packet tag ?page ` {0..<j}) = data_packet tag ?page ` {0..<Suc j}"
    by (simp add: atLeast0_lessThan_Suc)
  have "queued [] a2" using s(2) queued_cong [of a2 a1] h(2) by simp
  moreover have "tx_sending tag ?page (Suc j) (fb_tx (pl_batch b2))" using tx_sent_sending [OF s(5) j] b2(3) by simp
  ultimately show ?case
    using st h(1) [unfolded ins] h(3) s(3) b2(2) by auto
qed

lemma page_round_ok:
  assumes r: "page_ready img v c fl0 now k a" and b: "serving img v c t b" and tags: "tags_for (Suc n) t a" and k: "k < 1024"
    and hw: "nor_flash (pe_hw (en 0))" and len: "262144 \<le> length fl0" "262144 \<le> length img" and now: "pe_now32 (en 0) - now < 30000000"
    and got: "\<forall>j. pe_got (en j)"
    and nz: "list_all (between None) (nz 0)" "\<forall>j>0. list_all (between (Some (pe_now32 (en 0), now))) (nz j)"
  shows "\<exists>t' a' b'. fold link_step (page_round en nz) (a, b) = (a', b') \<and> page_ready img v c fl0 (pe_now32 (en 65)) (Suc k) a' \<and>
    serving img v c t' b' \<and> tags_for n t' a'"
proof -
  let ?page = "slice img (256 * k) 256" and ?w = "(pe_now32 (en 0), now)"
  let ?ev = "\<lambda>j. nz (j + 2) @ [Down (en (Suc j))]"
  have nz1: "list_all (between (Some ?w)) (nz 1)" and nz2: "\<forall>j. list_all (between (Some ?w)) (nz (j + 2))" using nz(2) by simp_all
  from ask_round [OF r b tags k hw len now nz(1) nz1] obtain tag a1 b1 where
    s: "fold link_step (nz 0 @ [Task (en 0)] @ nz 1 @ [Up (en 0)]) (a, b) = (a1, b1)" "valid_tag tag"
    "page_asked img v c fl0 ?w tag {} k a1" "queued [] a1" "tags_for n tag a1" "serving img v c tag b1" "tx_sending tag ?page 0 (fb_tx (pl_batch b1))"
    by blast
  from answer_round [where en = "\<lambda>j. en (Suc j)" and nz = "\<lambda>j. nz (j + 2)" and j = 64, OF s(3,4) s(2) k len(2) s(6,7) _ nz2] got obtain a2 b2 where
    s2: "fold link_step (concat (map ?ev [0..<64])) (a1, b1) = (a2, b2)"
    "page_asked img v c fl0 ?w tag (data_packet tag ?page ` {0..<64}) k a2" "queued [] a2" "fb_tokens (pl_batch a2) = fb_tokens (pl_batch a1)"
    "serving img v c tag b2" "tx_sending tag ?page 64 (fb_tx (pl_batch b2))" by auto
  from between_run [OF asked_in_pull [OF s2(2)] serving_offers [OF s2(5)] nz2 [rule_format, of 64]] obtain i m where
    z: "fold link_step (nz (64 + 2)) (a2, b2) = (peer_seen i a2, peer_seen m b2)" by blast
  define a4 b4 where "a4 = peer_seen i a2" and "b4 = peer_seen m b2"
  have s4: "page_asked img v c fl0 ?w tag (data_packet tag ?page ` {0..<64}) k a4" "queued [] a4" "fb_tokens (pl_batch a4) = fb_tokens (pl_batch a1)"
    "serving img v c tag b4" "tx_sending tag ?page 64 (fb_tx (pl_batch b4))" using s2 by (simp_all add: a4_def b4_def)
  from serve_next_frame [OF s4(4,5) s(2), of "en 65"] got obtain b3 where
    b3: "firmware_batch_next_tx (en 65) b4 = (Some (page_frame (page_packets tag ?page ! 64)), b3)" "serving img v c tag b3" by auto
  have x: "page_packets tag ?page ! 64 = end_packet tag (fw_batch_page_crc ?page)" by (simp add: page_packets_def nth_append)
  have tr: "transmit (en 65) b4 = (Some (page_frame (end_packet tag (fw_batch_page_crc ?page))), b3)"
    using transmit_idle [of b4 "en 65"] s4(4) b3(1) x by (simp add: serving_def)
  define a3 where "a3 = deliver (en 65) (page_frame (end_packet tag (fw_batch_page_crc ?page))) a4"
  have all: "\<forall>j<64. data_packet tag ?page j \<in> data_packet tag ?page ` {0..<64}" by simp
  note h = hear_end [OF s4(1) s(2) k len(2) all s4(2), of "en 65", folded a3_def]
  have upt: "[0..<65] = [0..<64] @ [64 :: nat]" by (simp add: upt_Suc_append [of 0 64, simplified])
  have "fold link_step (page_round en nz) (a, b) = link_step (Down (en 65)) (fold link_step (nz (64 + 2)) (fold link_step (concat (map ?ev [0..<64]))
      (fold link_step (nz 0 @ [Task (en 0)] @ nz 1 @ [Up (en 0)]) (a, b))))"
    unfolding page_round_def upt by simp
  also have "\<dots> = (a3, b3)" unfolding s(1) s2(1) z using tr by (simp add: a3_def a4_def [symmetric] b4_def [symmetric])
  finally have f: "fold link_step (page_round en nz) (a, b) = (a3, b3)" .
  have "tags_for n tag a3" using s(5) h(2) s4(3) by (simp add: tags_for_def)
  then show ?thesis using f h(1) b3(2) by blast
qed

lemma rounds_ok:
  assumes r: "page_ready img v c fl0 (pe_now32 (eo 0)) 0 a" and b: "serving img v c t b" and tags: "tags_for 1024 t a"
    and hw: "\<forall>k. nor_flash (pe_hw (en k 0))" and len: "262144 \<le> length fl0" "262144 \<le> length img"
    and time: "timely eo no en nz" and got: "\<forall>k j. pe_got (en k j)"
  shows "n \<le> 1024 \<Longrightarrow> \<exists>t' a' b'. fold link_step (concat (map (\<lambda>k. page_round (en k) (nz k)) [0..<n])) (a, b) = (a', b') \<and>
    page_ready img v c fl0 (progress_at eo en n) n a' \<and> serving img v c t' b' \<and> tags_for (1024 - n) t' a'"
proof (induction n)
  case 0
  then show ?case using r b tags by (auto simp: progress_at_def)
next
  case (Suc n)
  let ?now = "progress_at eo en n"
  from Suc.IH Suc.prems obtain t1 a1 b1 where s: "fold link_step (concat (map (\<lambda>k. page_round (en k) (nz k)) [0..<n])) (a, b) = (a1, b1)"
    "page_ready img v c fl0 ?now n a1" "serving img v c t1 b1" "tags_for (1024 - n) t1 a1" by (meson Suc_leD)
  have n: "n < 1024" "1024 - n = Suc (1024 - Suc n)" using Suc.prems by simp_all
  have tm: "pe_now32 (en n 0) - ?now < 30000000" "list_all (between None) (nz n 0)"
    "\<forall>j>0. list_all (between (Some (pe_now32 (en n 0), ?now))) (nz n j)" using time by (simp_all add: timely_def)
  from page_round_ok [where en = "en n" and nz = "nz n", OF s(2,3) s(4) [unfolded n(2)] n(1) hw [rule_format] len tm(1) spec [OF got, of n] tm(2,3)]
  show ?case using s(1) by (auto simp: progress_at_def)
qed

subsection \<open>The last page\<close>

lemma same_slot_valid:
  assumes same: "\<forall>i<262144. s_flash st ! i = s_flash st' ! i" and len: "262144 \<le> length (s_flash st)" "262144 \<le> length (s_flash st')"
  shows "firmware_image_is_valid st v c t = firmware_image_is_valid st' v c t"
proof -
  have "slice (s_flash st) 0 (SLOT_SIZE - SECTOR_SIZE) = slice (s_flash st') 0 (SLOT_SIZE - SECTOR_SIZE)"
    using len same by (intro nth_equalityI) (simp_all add: nth_slice)
  then show ?thesis
    using same by (simp add: firmware_image_is_valid_def calculate_firmware_crc32_def get32_def get16_def)
qed

lemma last_task:
  assumes r: "page_ready img v c fl0 now 1024 a" and hw: "nor_flash (pe_hw e)" and len: "262144 \<le> length fl0" "262144 \<le> length img"
    and now: "pe_now32 e - now < 30000000" and st: "s_flash st = img" "firmware_image_is_valid st v c True"
  defines "q \<equiv> firmware_upgrade_task e a"
  shows "dv_reboot_requested (pl_device q)" "\<not> dv_image_dirty (pl_device q)" "dv_running_fw_version (pl_device q) = v"
    "dv_running_fw_checksum (pl_device q) = c" "copied 1024 img fl0 (s_flash (pl_store q))"
proof -
  define p where "p = commit_pending_firmware_page e a"
  have p: "at_page img v c fl0 1024 1024 p" using commit_ready [OF r _ hw len] by (simp add: p_def)
  have adr: "fu_address (pl_fw p) = 262144" using p by (simp add: at_page_def)
  have q: "q = finish_pull e p" unfolding q_def task_advances [OF r now] p_def [symmetric] Let_def adr by simp
  have fl: "\<forall>i<262144. s_flash (pl_store p) ! i = s_flash st ! i" "length (s_flash (pl_store p)) = length fl0"
    using p st(1) by (simp_all add: at_page_def copied_def)
  have valid: "firmware_image_is_valid (pl_store p) v c True"
    using same_slot_valid [OF fl(1)] fl(2) len st by simp
  have "NOT (fu_checksum (pl_fw p)) = calculate_firmware_crc32 st"
    using p st(1) by (simp add: at_page_def calculate_firmware_crc32_def calc_crc32_def slice_def)
  then have crc: "NOT (fu_checksum (pl_fw p)) = c" using valid_image_facts(1) [OF st(2)] by simp
  have f: "fu_peer_checksum (pl_fw p) = c" "fu_version (pl_fw p) = v" "copied 1024 img fl0 (s_flash (pl_store p))"
    using p by (simp_all add: at_page_def)
  show "dv_reboot_requested (pl_device q)" "\<not> dv_image_dirty (pl_device q)" "dv_running_fw_version (pl_device q) = v"
    "dv_running_fw_checksum (pl_device q) = c" "copied 1024 img fl0 (s_flash (pl_store q))"
    unfolding q by (simp_all add: finish_pull_def Let_def upd_fw_def upd_dev_def crc f valid)
qed

subsection \<open>The opening\<close>

text \<open>A freshly booted board that may pull, and a board that may serve a newer image that it verified.\<close>

definition puller_ready :: "u64 \<Rightarrow> pull \<Rightarrow> bool" where
  "puller_ready s a \<longleftrightarrow> pull_boot s a \<and> \<not> dv_maintenance_reserved (pl_device a) \<and> queued [] a \<and> length (s_page_buffer (pl_store a)) = 256 \<and>
     262144 \<le> length (s_flash (pl_store a)) \<and> 1025 \<le> token_left (fw_batch_token_init s)"

definition server_ready :: "pull \<Rightarrow> bool" where
  "server_ready b \<longleftrightarrow> can_serve b \<and> fu_source (pl_fw b) = FW_UPDATE_SOURCE_NONE \<and> queued [] b \<and> \<not> fb_source_enabled (pl_batch b) \<and> 262144 \<le> length (s_flash (pl_store b)) \<and>
     firmware_image_is_valid (pl_store b) (dv_running_fw_version (pl_device b)) (dv_running_fw_checksum (pl_device b)) True"

text \<open>After the heartbeat the pull has begun.\<close>

lemma heartbeat_starts:
  fixes e :: pull_env
  assumes a: "puller_ready s a" and v: "dv_running_fw_version (pl_device a) < dv_running_fw_version (pl_device b)"
  defines "a1 \<equiv> deliver e (fw_heartbeat (pl_device b)) a"
  shows "pl_fw a1 = fresh_pull (dv_running_fw_version (pl_device b)) (dv_running_fw_checksum (pl_device b)) (pe_now32 e) True"
    "pl_store a1 = pl_store a" "pl_device a1 = (pl_device a)\<lparr>dv_upgrade_in_progress := True, dv_image_dirty := False\<rparr>"
    "fb_mode (pl_batch a1) = FW_BATCH_PROBE" "fb_pending_tag (pl_batch a1) = 0" "fb_page_attempts (pl_batch a1) = 0"
    "fb_tokens (pl_batch a1) = fw_batch_token_init s"
proof -
  let ?v = "dv_running_fw_version (pl_device b)" and ?c = "dv_running_fw_checksum (pl_device b)" and ?x = "fw_heartbeat (pl_device b)"
  define p where "p = a\<lparr>pl_peer_fw_last_seen_us := pe_now32 e\<rparr>"
  define r0 where "r0 = set_flags True False (upd_fw (\<lambda>_. fresh_pull ?v ?c (pe_now32 e) True) p)"
  define r where "r = note_runtime e (diagnostic_update_begin (pe_now e) DIAGNOSTIC_SOURCE_PEER ?v) r0"
  have x: "get16 (pkt_data ?x) 0 = ?v" "get16 (pkt_data ?x) 2 = 0xd485" "get32 (pkt_data ?x) 4 = ?c"
    using get16_at [of 0 "[]" ?v "le16 0xd485 @ le32 ?c"] get16_at [of 2 "le16 ?v" "0xd485" "le32 ?c"] get32_at [of 4 "le16 ?v @ le16 0xd485" ?c "[]"]
    by (simp_all add: fw_heartbeat_def)
  have boot: "pl_fw a = zero_fw" "pl_batch a = firmware_batch_init s" "\<not> dv_upgrade_in_progress (pl_device a)"
    "\<not> dv_reboot_requested (pl_device a)" "\<not> dv_maintenance_reserved (pl_device a)"
    using a by (simp_all add: puller_ready_def pull_boot_def left_def)
  have "deliver e ?x a = handle_heartbeat_msg e ?x a" by (simp add: deliver_def fw_heartbeat_def)
  also have "\<dots> = begin_firmware_pull e ?v ?c False False p"
    using boot v unfolding handle_heartbeat_msg_def Let_def x p_def by (simp add: fw_update_peer_compatible_def zero_fw_def not_le)
  also have "\<dots> = firmware_batch_begin_locked r" by (simp add: begin_firmware_pull_def r_def r0_def)
  finally have a1: "a1 = firmware_batch_begin_locked r" by (simp add: a1_def)
  have st: "steering r = steering r0" by (simp add: r_def)
  have b0: "(pl_batch r)\<lparr>fb_profile := zero_profile\<rparr> = (pl_batch r0)\<lparr>fb_profile := zero_profile\<rparr>"
    using st unfolding steering_def by blast
  have prof: "fb_initialized (x\<lparr>fb_profile := z\<rparr>) = fb_initialized x" "fb_tokens (x\<lparr>fb_profile := z\<rparr>) = fb_tokens x" for x z
    by simp_all
  have ini: "fb_initialized (pl_batch r) = fb_initialized (pl_batch r0)"
    using arg_cong [OF b0, of fb_initialized] unfolding prof .
  have tok: "fb_tokens (pl_batch r) = fb_tokens (pl_batch r0)"
    using arg_cong [OF b0, of fb_tokens] unfolding prof .
  have br0: "pl_batch r0 = firmware_batch_init s" using boot(2) by (simp add: r0_def set_flags_def upd_fw_def upd_dev_def p_def)
  have init: "fb_initialized (pl_batch r)" unfolding ini br0 by (simp add: firmware_batch_init_def)
  show "pl_fw a1 = fresh_pull ?v ?c (pe_now32 e) True" "pl_store a1 = pl_store a"
    "pl_device a1 = (pl_device a)\<lparr>dv_upgrade_in_progress := True, dv_image_dirty := False\<rparr>"
    unfolding a1 by (simp_all add: begin_fields r_def r0_def set_flags_def upd_fw_def upd_dev_def p_def)
  show "fb_mode (pl_batch a1) = FW_BATCH_PROBE" "fb_pending_tag (pl_batch a1) = 0" "fb_page_attempts (pl_batch a1) = 0"
    using init unfolding a1 by (simp_all add: firmware_batch_begin_locked_def upd_batch_def)
  show "fb_tokens (pl_batch a1) = fw_batch_token_init s"
    using tok br0 unfolding a1 by (simp add: firmware_batch_begin_locked_def upd_batch_def firmware_batch_init_def)
qed

text \<open>The capability probe.\<close>

definition probing :: "u16 \<Rightarrow> u32 \<Rightarrow> bytes \<Rightarrow> u32 \<times> u32 \<Rightarrow> u32 \<Rightarrow> pull \<Rightarrow> bool" where
  "probing v c fl0 w tag a \<longleftrightarrow> pl_fw a = (fresh_pull v c (snd w) False)\<lparr>fu_requested_at_us := fst w\<rparr> \<and> fb_mode (pl_batch a) = FW_BATCH_WAIT_CAPS \<and>
     fb_caps_tag (pl_batch a) = tag \<and> fb_pending_tag (pl_batch a) = 0 \<and> fb_page_attempts (pl_batch a) = 0 \<and>
     \<not> dv_reboot_requested (pl_device a) \<and> \<not> dv_maintenance_reserved (pl_device a) \<and> dv_upgrade_in_progress (pl_device a) \<and>
     dv_running_fw_version (pl_device a) < v \<and>
     Reset_usb_boot \<notin> set (dv_calls (pl_device a)) \<and> length (s_page_buffer (pl_store a)) = 256 \<and> s_flash (pl_store a) = fl0"

lemma task_probes:
  assumes f: "pl_fw a = fresh_pull v c now True" "pe_now32 e - now < 30000000" and b: "fb_mode (pl_batch a) = FW_BATCH_PROBE" "fb_pending_tag (pl_batch a) = 0"
      "fb_page_attempts (pl_batch a) = 0" "tags_for (Suc n) 0 a"
    and d: "\<not> dv_reboot_requested (pl_device a)" "\<not> dv_maintenance_reserved (pl_device a)" "dv_upgrade_in_progress (pl_device a)"
      "Reset_usb_boot \<notin> set (dv_calls (pl_device a))" "queued [] a"
    and st: "length (s_page_buffer (pl_store a)) = 256" "s_flash (pl_store a) = fl0" and v: "dv_running_fw_version (pl_device a) < v" "v \<noteq> 0"
  shows "\<exists>tag. valid_tag tag \<and> probing v c fl0 (pe_now32 e, now) tag (firmware_upgrade_task e a) \<and> tags_for n tag (firmware_upgrade_task e a) \<and>
    queued [\<lparr>pkt_type = FW_BATCH_CAPS_REQUEST_MSG, pkt_data = le32 tag @ le16 v @ le16 1, pkt_checksum = 0\<rparr>] (firmware_upgrade_task e a)"
proof -
  define tag where "tag = token_next (fb_tokens (pl_batch a))"
  from next_tag [OF b(4,2)] obtain kk where kk: "take_tag (pl_batch a) = (True, (pl_batch a)\<lparr>fb_tokens := kk, fb_pending_tag := tag\<rparr>)"
    "valid_tag tag" "\<forall>b. fb_tokens (pl_batch b) = kk \<longrightarrow> tags_for n tag b" by (auto simp: tag_def)
  define p1 where "p1 = a\<lparr>pl_batch := (pl_batch a)\<lparr>fb_tokens := kk, fb_pending_tag := tag\<rparr>\<rparr>"
  let ?data = "le32 tag @ le16 v @ le16 1"
  have q1: "queued [] p1" using d(5) by (simp add: p1_def queued_def)
  from send_queued [OF q1, of ?data "unat FW_BATCH_CAPS_REQUEST_MSG"] obtain q where
    q: "send_packet ?data (unat FW_BATCH_CAPS_REQUEST_MSG) p1 = (True, upd_dev (\<lambda>d. d\<lparr>dv_uart_tx_queue := q\<rparr>) p1)"
    "queued [\<lparr>pkt_type = FW_BATCH_CAPS_REQUEST_MSG, pkt_data = ?data, pkt_checksum = 0\<rparr>] (upd_dev (\<lambda>d. d\<lparr>dv_uart_tx_queue := q\<rparr>) p1)"
    by auto
  define p2 where "p2 = upd_dev (\<lambda>d. d\<lparr>dv_uart_tx_queue := q\<rparr>) p1"
  define p3 where "p3 = upd_fw (\<lambda>f. f\<lparr>fu_byte_done := False, fu_request_pending := False, fu_requested_at_us := pe_now32 e\<rparr>)
          (upd_batch (\<lambda>b. b\<lparr>fb_caps_tag := fb_pending_tag b, fb_pending_tag := 0, fb_mode := FW_BATCH_WAIT_CAPS\<rparr>) p2)"
  have enc: "fw_batch_caps_encode_request (fb_pending_tag (pl_batch p1)) (fu_version (pl_fw p1)) = Some ?data"
    using kk(2) v f by (simp add: p1_def fw_batch_caps_encode_request_def fresh_pull_def)
  have "firmware_batch_request_locked e (fu_address (pl_fw a)) a = request_caps e p1"
    unfolding firmware_batch_request_locked_def b(1) fw_batch_mode.case kk(1) by (simp add: p1_def)
  also have "\<dots> = (False, p3)" unfolding request_caps_def enc option.case Let_def q(1) p2_def [symmetric] by (simp add: p3_def)
  finally have req: "firmware_batch_request_locked e (fu_address (pl_fw a)) a = (False, p3)" .
  have "advance_pull e a = p3"
    unfolding advance_pull_def Let_def using req b(1) f by (simp add: fresh_pull_def zero_fw_def)
  moreover have "fw_update_next_action (fu_source (pl_fw a)) (fu_byte_done (pl_fw a)) (dv_image_dirty (pl_device a)) (pe_now32 e)
      (fu_requested_at_us (pl_fw a)) (fu_progressed_at_us (pl_fw a)) (pl_peer_fw_last_seen_us a) = FW_UPDATE_REQUEST"
    using f by (simp add: fw_update_next_action_def fresh_pull_def not_le)
  ultimately have t: "firmware_upgrade_task e a = p3"
    using d by (simp add: firmware_upgrade_task_def Let_def)
  have "probing v c fl0 (pe_now32 e, now) tag p3"
    using f b(3) d st v(1) by (simp add: probing_def p3_def p2_def p1_def upd_fw_def upd_batch_def upd_dev_def fresh_pull_def zero_fw_def)
  moreover have "tags_for n tag p3" using kk(3) by (simp add: p3_def p2_def p1_def upd_fw_def upd_batch_def upd_dev_def)
  moreover have "queued [\<lparr>pkt_type = FW_BATCH_CAPS_REQUEST_MSG, pkt_data = ?data, pkt_checksum = 0\<rparr>] p3"
    using q(2) queued_cong [of p3 p2] by (simp add: p3_def p2_def upd_fw_def upd_batch_def)
  ultimately show ?thesis using t kk(2) by auto
qed

lemma caps_answered:
  fixes e :: pull_env
  assumes b: "can_serve b" "queued [] b" "\<not> fb_source_enabled (pl_batch b)" "fu_source (pl_fw b) = FW_UPDATE_SOURCE_NONE" and tag: "valid_tag tag"
    and v: "v = dv_running_fw_version (pl_device b)" "v \<noteq> 0" and c: "c = dv_running_fw_checksum (pl_device b)"
  defines "b' \<equiv> receive_caps_request e (le32 tag @ le16 v @ le16 1) b"
  shows "queued [\<lparr>pkt_type = FW_BATCH_CAPS_RESPONSE_MSG, pkt_data = le32 tag @ le32 c, pkt_checksum = 0\<rparr>] b'"
    "queued [] (upd_dev (\<lambda>d. d\<lparr>dv_uart_tx_queue := q\<rparr>) b') \<Longrightarrow>
     serving (s_flash (pl_store b)) v c tag (upd_dev (\<lambda>d. d\<lparr>dv_uart_tx_queue := q\<rparr>) b')"
proof -
  let ?x = "le32 tag @ le16 v @ le16 1" and ?y = "le32 tag @ le32 c"
  have "get32 ?x 0 = tag" "get16 ?x 4 = v" "get16 ?x 6 = 1"
    using get16_at [of 4 "le32 tag" v "le16 1"] get16_at [of 6 "le32 tag @ le16 v" 1 "[]"] by simp_all
  then have dec: "fw_batch_caps_decode_request ?x = Some (tag, v)" using tag v(2) by (simp add: fw_batch_caps_decode_request_def)
  have enc: "fw_batch_caps_encode_response tag c = Some ?y" using tag by (simp add: fw_batch_caps_encode_response_def)
  from send_queued [OF b(2), of ?y "unat FW_BATCH_CAPS_RESPONSE_MSG"] obtain q1 where
    q1: "send_packet ?y (unat FW_BATCH_CAPS_RESPONSE_MSG) b = (True, upd_dev (\<lambda>d. d\<lparr>dv_uart_tx_queue := q1\<rparr>) b)"
    "queued [\<lparr>pkt_type = FW_BATCH_CAPS_RESPONSE_MSG, pkt_data = ?y, pkt_checksum = 0\<rparr>] (upd_dev (\<lambda>d. d\<lparr>dv_uart_tx_queue := q1\<rparr>) b)"
    by auto
  define b1 where "b1 = upd_dev (\<lambda>d. d\<lparr>dv_uart_tx_queue := q1\<rparr>) b"
  define b2 where "b2 = upd_batch (\<lambda>b. b\<lparr>fb_tx := fw_batch_tx_cancel (fb_tx b), fb_source_last_tag := tag\<rparr>) b1"
  define b3 where "b3 = note_event e 16 1 0 tag (profile_begin e b2)"
  have off: "\<not> fb_source_enabled (pl_batch b1)" "dv_running_fw_checksum (pl_device b1) = c"
    using b(3) c by (simp_all add: b1_def upd_dev_def)
  have g: "\<not> (\<not> can_serve b \<or> v \<noteq> dv_running_fw_version (pl_device b))" using b(1) v(1) by simp
  have "b' = source_activity e (upd_batch (\<lambda>b. b\<lparr>fb_source_caps_tag := tag, fb_source_version := v,
                     fb_source_checksum := dv_running_fw_checksum (pl_device b3), fb_source_enabled := True\<rparr>) b3)"
    unfolding b'_def receive_caps_request_def dec option.case prod.case if_not_P [OF g] c [symmetric] enc Let_def q1(1)
    using off(1) by (simp add: b1_def [symmetric] b2_def [symmetric] b3_def [symmetric])
  moreover have st3: "steering b3 = steering b2" by (simp add: b3_def)
  note st = steeringD [OF st3]
  ultimately have r: "pl_device b' = pl_device b1" "pl_store b' = pl_store b" "pl_fw b' = pl_fw b" "fb_source_enabled (pl_batch b')" "fb_source_version (pl_batch b') = v"
    "fb_source_checksum (pl_batch b') = c" "fb_source_last_tag (pl_batch b') = tag"
    using off(2) st by (simp_all add: source_activity_def upd_batch_def b2_def b1_def upd_dev_def)
  show "queued [\<lparr>pkt_type = FW_BATCH_CAPS_RESPONSE_MSG, pkt_data = ?y, pkt_checksum = 0\<rparr>] b'"
    using q1(2) queued_cong [of b' b1] r(1) by (simp add: b1_def)
  show "serving (s_flash (pl_store b)) v c tag (upd_dev (\<lambda>d. d\<lparr>dv_uart_tx_queue := q\<rparr>) b')"
    if "queued [] (upd_dev (\<lambda>d. d\<lparr>dv_uart_tx_queue := q\<rparr>) b')"
    using that r b(1,4) v(1) off(2) by (simp add: serving_def can_serve_def upd_dev_def b1_def)
qed

lemma caps_accepted:
  assumes "probing v c fl0 w tag a" "valid_tag tag" "queued [] a"
  defines "a' \<equiv> receive_caps_response (le32 tag @ le32 c) a"
  shows "page_ready img v c fl0 (snd w) 0 a'" "fb_tokens (pl_batch a') = fb_tokens (pl_batch a)"
proof -
  have "a' = upd_fw (\<lambda>f. f\<lparr>fu_byte_done := True\<rparr>) (upd_batch (\<lambda>b. b\<lparr>fb_mode := FW_BATCH_PAGES\<rparr>) a)"
    using assms(1,2)
    by (simp add: a'_def receive_caps_response_def Let_def probing_def fresh_pull_def zero_fw_def fw_batch_caps_response_matches_def)
  then show "page_ready img v c fl0 (snd w) 0 a'" "fb_tokens (pl_batch a') = fb_tokens (pl_batch a)"
    using assms(1,3)
    by (simp_all add: page_ready_def at_page_def probing_def fresh_pull_def zero_fw_def copied_0 upd_fw_def upd_batch_def queued_def)
qed

lemma probing_in_pull: "probing v c fl0 w tag a \<Longrightarrow> in_pull v c (Some w) a"
  by (cases w) (simp add: probing_def in_pull_def fresh_pull_def)

lemma probing_seen [simp]: "probing v c fl0 w tag (peer_seen n a) = probing v c fl0 w tag a"
  by (simp add: probing_def)

lemma opening_ok:
  assumes a: "puller_ready s a" and b: "server_ready b"
    and v: "dv_running_fw_version (pl_device a) < dv_running_fw_version (pl_device b)"
    and now: "pe_now32 (eo 1) - pe_now32 (eo 0) < 30000000"
    and nz: "list_all (between None) (nz 0)" "\<forall>j\<in>{1, 2}. list_all (between (Some (pe_now32 (eo 1), pe_now32 (eo 0)))) (nz j)"
  defines "v \<equiv> dv_running_fw_version (pl_device b)" and "c \<equiv> dv_running_fw_checksum (pl_device b)" and "img \<equiv> s_flash (pl_store b)"
  shows "\<exists>t a' b'. fold link_step (opening_events eo nz) (a, b) = (a', b') \<and> page_ready img v c (s_flash (pl_store a)) (pe_now32 (eo 0)) 0 a' \<and>
    serving img v c t b' \<and> tags_for 1024 t a'"
proof -
  define w where "w = (pe_now32 (eo 1), pe_now32 (eo 0))"
  define a1 where "a1 = deliver (eo 0) (fw_heartbeat (pl_device b)) a"
  note h = heartbeat_starts [OF a v, of "eo 0", folded a1_def v_def c_def]
  have v0: "v \<noteq> 0" using v by (auto simp: v_def)
  have tok: "tags_for (Suc 1024) 0 a1"
    using a token_init_ok [of s] by (auto simp: tags_for_def h(7) puller_ready_def Let_def token_ok_def valid_tag_def word_neq_0_conv)
  have dev: "\<not> dv_reboot_requested (pl_device a1)" "\<not> dv_maintenance_reserved (pl_device a1)" "dv_upgrade_in_progress (pl_device a1)"
    "Reset_usb_boot \<notin> set (dv_calls (pl_device a1))" "queued [] a1" "length (s_page_buffer (pl_store a1)) = 256" "s_flash (pl_store a1) = s_flash (pl_store a)"
    "dv_running_fw_version (pl_device a1) < v"
    using a v queued_cong [of a1 a] by (simp_all add: h(2,3) puller_ready_def pull_boot_def left_def v_def)
  have off: "offers v c b" using b by (simp add: offers_def server_ready_def v_def c_def)
  have in1: "in_pull v c None a1" using dev by (simp add: in_pull_def h fresh_pull_def)
  from between_run [OF in1 off nz(1)] obtain n0 m0 where z0: "fold link_step (nz 0) (a1, b) = (peer_seen n0 a1, peer_seen m0 b)" by blast
  define b0 where "b0 = peer_seen m0 b"
  define a2 where "a2 = firmware_upgrade_task (eo 1) (peer_seen n0 a1)"
  have "\<exists>tag. valid_tag tag \<and> probing v c (s_flash (pl_store a)) w tag a2 \<and> tags_for 1024 tag a2 \<and>
    queued [\<lparr>pkt_type = FW_BATCH_CAPS_REQUEST_MSG, pkt_data = le32 tag @ le16 v @ le16 1, pkt_checksum = 0\<rparr>] a2"
    unfolding a2_def w_def by (rule task_probes) (use h tok dev v0 now in simp_all)
  then obtain tag where t: "valid_tag tag" "probing v c (s_flash (pl_store a)) w tag a2" "tags_for 1024 tag a2"
    "queued [\<lparr>pkt_type = FW_BATCH_CAPS_REQUEST_MSG, pkt_data = le32 tag @ le16 v @ le16 1, pkt_checksum = 0\<rparr>] a2" (is "queued [?x] a2")
    by blast
  have off0: "offers v c b0" using off by (simp add: b0_def offers_def can_serve_def)
  have nzw: "list_all (between (Some w)) (nz 1)" "list_all (between (Some w)) (nz 2)" using nz(2) by (simp_all add: w_def)
  from between_run [OF probing_in_pull [OF t(2)] off0 nzw(1)] obtain n1 m1 where
    z1: "fold link_step (nz 1) (a2, b0) = (peer_seen n1 a2, peer_seen m1 b0)" by blast
  define a3 b1 where "a3 = peer_seen n1 a2" and "b1 = peer_seen m1 b0"
  have t3: "probing v c (s_flash (pl_store a)) w tag a3" "tags_for 1024 tag a3" "queued [?x] a3" using t by (simp_all add: a3_def)
  from transmit_queued [OF t3(3), of "eo 2"] obtain qa where
    qa: "transmit (eo 2) a3 = (Some ?x, upd_dev (\<lambda>d. d\<lparr>dv_uart_tx_queue := qa\<rparr>) a3)" "queued [] (upd_dev (\<lambda>d. d\<lparr>dv_uart_tx_queue := qa\<rparr>) a3)"
    by blast
  define a4 where "a4 = upd_dev (\<lambda>d. d\<lparr>dv_uart_tx_queue := qa\<rparr>) a3"
  have t4: "probing v c (s_flash (pl_store a)) w tag a4" "tags_for 1024 tag a4" "queued [] a4"
    using t3 qa(2) by (simp_all add: a4_def probing_def upd_dev_def tags_for_def)
  define b2 where "b2 = receive_caps_request (eo 2) (le32 tag @ le16 v @ le16 1) b1"
  have sb: "can_serve b1" "queued [] b1" "\<not> fb_source_enabled (pl_batch b1)" "fu_source (pl_fw b1) = FW_UPDATE_SOURCE_NONE"
    "v = dv_running_fw_version (pl_device b1)" "c = dv_running_fw_checksum (pl_device b1)" "s_flash (pl_store b1) = img"
    using b by (simp_all add: server_ready_def b1_def b0_def can_serve_def v_def c_def img_def)
  note ans = caps_answered [OF sb(1-4) t(1) sb(5) v0 sb(6), where e = "eo 2", folded b2_def]
  let ?y = "\<lparr>pkt_type = FW_BATCH_CAPS_RESPONSE_MSG, pkt_data = le32 tag @ le32 c, pkt_checksum = 0\<rparr>"
  have dq: "dv_uart_tx_queue (pl_device (peer_seen m b2)) = dv_uart_tx_queue (pl_device b2)" for m by simp
  have off2: "offers v c b2"
  proof -
    obtain q where "queued [] (upd_dev (\<lambda>d. d\<lparr>dv_uart_tx_queue := q\<rparr>) b2)" using transmit_queued [OF ans(1), of "eo 3"] by blast
    from serving_offers [OF ans(2) [OF this]] show ?thesis by (simp add: offers_def can_serve_def upd_dev_def)
  qed
  from between_run [OF probing_in_pull [OF t4(1)] off2 nzw(2)] obtain n2 m2 where
    z2: "fold link_step (nz 2) (a4, b2) = (peer_seen n2 a4, peer_seen m2 b2)" by blast
  define a5 b3 where "a5 = peer_seen n2 a4" and "b3 = peer_seen m2 b2"
  have q3: "queued [?y] b3" using ans(1) by (simp add: b3_def)
  from transmit_queued [OF q3, of "eo 3"] obtain qb where
    qb: "transmit (eo 3) b3 = (Some ?y, upd_dev (\<lambda>d. d\<lparr>dv_uart_tx_queue := qb\<rparr>) b3)" "queued [] (upd_dev (\<lambda>d. d\<lparr>dv_uart_tx_queue := qb\<rparr>) b3)"
    by blast
  define b4 where "b4 = upd_dev (\<lambda>d. d\<lparr>dv_uart_tx_queue := qb\<rparr>) b3"
  define a6 where "a6 = receive_caps_response (le32 tag @ le32 c) a5"
  have p5: "probing v c (s_flash (pl_store a)) w tag a5" "queued [] a5" "tags_for 1024 tag a5" using t4 by (simp_all add: a5_def)
  note acc = caps_accepted [OF p5(1) t(1) p5(2), folded a6_def]
  have up: "deliver (eo 2) ?x b1 = b2" and down: "deliver (eo 3) ?y a5 = a6"
    by (simp_all add: b2_def a6_def deliver_def firmware_batch_packet_def)
  have st: "link_step (Beat (eo 0)) (a, b) = (a1, b)" "link_step (Task (eo 1)) (peer_seen n0 a1, b0) = (a2, b0)"
    "link_step (Up (eo 2)) (a3, b1) = (a4, b2)" "link_step (Down (eo 3)) (a5, b3) = (a6, b4)"
    by (simp_all add: a1_def a2_def qa(1) qb(1) up down a4_def [symmetric] b4_def [symmetric])
  have "fold link_step (opening_events eo nz) (a, b) = (a6, b4)"
    unfolding opening_events_def fold_append comp_apply fold_simps id_apply st(1) z0 b0_def [symmetric] st(2) z1
      a3_def [symmetric] b1_def [symmetric] st(3) z2 a5_def [symmetric] b3_def [symmetric] st(4) ..
  moreover have "tags_for 1024 tag a6" using p5(3) acc(2) by (simp add: tags_for_def)
  moreover have "serving img v c tag b4"
  proof -
    have q: "queued [] (upd_dev (\<lambda>d. d\<lparr>dv_uart_tx_queue := qb\<rparr>) b2)" using qb(2) by (simp add: b3_def upd_dev_def queued_def)
    from ans(2) [OF q] sb(7) show ?thesis by (simp add: b4_def b3_def serving_def can_serve_def upd_dev_def queued_def)
  qed
  ultimately show ?thesis using acc(1) [of img] by (auto simp: w_def)
qed

subsection \<open>Properties\<close>

lemma rounds_from_boot:
  assumes a: "puller_ready s a" and b: "server_ready b"
    and v: "dv_running_fw_version (pl_device a) < dv_running_fw_version (pl_device b)"
    and env: "\<forall>k j. nor_flash (pe_hw (en k j)) \<and> pe_got (en k j)"
    and time: "timely eo no en nz" and n: "n \<le> 1024"
  shows "\<exists>t a' b'. fold link_step (copy_rounds eo no en nz n) (a, b) = (a', b') \<and>
    page_ready (s_flash (pl_store b)) (dv_running_fw_version (pl_device b)) (dv_running_fw_checksum (pl_device b)) (s_flash (pl_store a))
      (progress_at eo en n) n a' \<and>
    serving (s_flash (pl_store b)) (dv_running_fw_version (pl_device b)) (dv_running_fw_checksum (pl_device b)) t b'"
proof -
  have op: "pe_now32 (eo 1) - pe_now32 (eo 0) < 30000000" "list_all (between None) (no 0)"
    "\<forall>j\<in>{1, 2}. list_all (between (Some (pe_now32 (eo 1), pe_now32 (eo 0)))) (no j)" using time by (simp_all add: timely_def)
  from opening_ok [OF a b v op] obtain t a1 b1 where o: "fold link_step (opening_events eo no) (a, b) = (a1, b1)"
    "page_ready (s_flash (pl_store b)) (dv_running_fw_version (pl_device b)) (dv_running_fw_checksum (pl_device b)) (s_flash (pl_store a)) (pe_now32 (eo 0)) 0 a1"
    "serving (s_flash (pl_store b)) (dv_running_fw_version (pl_device b)) (dv_running_fw_checksum (pl_device b)) t b1" "tags_for 1024 t a1"
    by blast
  have len: "262144 \<le> length (s_flash (pl_store a))" "262144 \<le> length (s_flash (pl_store b))"
    using a b by (simp_all add: puller_ready_def server_ready_def)
  show ?thesis
    using rounds_ok [OF o(2,3,4) _ len time _ n] env o(1) by (fastforce simp: copy_rounds_def)
qed

text \<open>What the link does to the pulling board is a run of its updater.\<close>

definition on_run :: "pull \<Rightarrow> pull \<Rightarrow> bool" where
  "on_run a a' \<longleftrightarrow> (\<exists>xs. (\<forall>e\<in>set (map fst xs). nor_flash (pe_hw e)) \<and> a' = snd (run_machine pull_step a xs))"

lemma on_run_refl: "on_run a a"
  unfolding on_run_def by (rule exI [of _ "[]"]) simp

lemma on_run_trans:
  assumes "on_run a b" "on_run b c"
  shows "on_run a c"
proof -
  obtain xs ys where xs: "\<forall>e\<in>set (map fst xs). nor_flash (pe_hw e)" "b = snd (run_machine pull_step a xs)"
    and ys: "\<forall>e\<in>set (map fst ys). nor_flash (pe_hw e)" "c = snd (run_machine pull_step b ys)" using assms by (auto simp: on_run_def)
  then show ?thesis
    unfolding on_run_def by (intro exI [of _ "xs @ ys"]) (auto simp: run_machine_append split: prod.splits)
qed

lemma on_run_step: "nor_flash (pe_hw e) \<Longrightarrow> on_run a (snd (pull_step a (e, x)))"
  unfolding on_run_def by (rule exI [of _ "[(e, x)]"]) (simp split: prod.splits)

lemma deliver_run: "nor_flash (pe_hw e) \<Longrightarrow> on_run a (deliver e x a)"
  using on_run_step [of e a "Heartbeat x"] on_run_step [of e a "Word_request x"] on_run_step [of e a "Word_response x"]
    on_run_step [of e a "Batch_packet x"]
  by (simp add: deliver_def)

lemma transmit_run:
  assumes "nor_flash (pe_hw e)"
  shows "on_run a (snd (transmit e a))"
proof -
  have ch: "device_changed d (d\<lparr>dv_uart_tx_queue := q, dv_calls := []\<rparr>) = d\<lparr>dv_uart_tx_queue := q\<rparr>" for d q
    by (cases d) (simp add: device_changed_def)
  obtain x q where r: "queue_try_remove (dv_uart_tx_queue (pl_device a)) = (x, q)" by fastforce
  show ?thesis
  proof (cases x)
    case None
    then show ?thesis using on_run_step [OF assms, of a Next_tx] r by (simp add: transmit_eq)
  next
    case (Some y)
    then have "snd (transmit e a) = snd (pull_step a (e, Device_changes ((pl_device a)\<lparr>dv_uart_tx_queue := q, dv_calls := []\<rparr>)))"
      using r by (simp add: transmit_eq upd_dev_def ch)
    then show ?thesis
      using on_run_step [OF assms, of a "Device_changes ((pl_device a)\<lparr>dv_uart_tx_queue := q, dv_calls := []\<rparr>)"] by (simp only: )
  qed
qed

definition env_of :: "link_event \<Rightarrow> pull_env" where
  "env_of x = (case x of Beat e \<Rightarrow> e | Beat_back e \<Rightarrow> e | Task e \<Rightarrow> e | Up e \<Rightarrow> e | Down e \<Rightarrow> e | Stray e y \<Rightarrow> e)"

lemma link_run:
  assumes "\<forall>x\<in>set xs. nor_flash (pe_hw (env_of x))"
  shows "on_run (fst s) (fst (fold link_step xs s))"
  using assms
proof (induction xs arbitrary: s)
  case Nil
  then show ?case by (simp add: on_run_refl)
next
  case (Cons x xs)
  obtain a b where s: "s = (a, b)" by fastforce
  have "on_run a (fst (link_step x (a, b)))"
  proof (cases x)
    case (Beat e)
    then show ?thesis using Cons.prems deliver_run by (simp add: env_of_def)
  next
    case (Beat_back e)
    then show ?thesis by (simp add: on_run_refl)
  next
    case (Stray e y)
    then show ?thesis using Cons.prems deliver_run by (simp add: env_of_def)
  next
    case (Task e)
    then show ?thesis using Cons.prems on_run_step [of e a Pull_task] by (simp add: env_of_def)
  next
    case (Up e)
    then show ?thesis using Cons.prems transmit_run [of e a] by (auto simp: env_of_def split: prod.splits option.splits)
  next
    case (Down e)
    then show ?thesis using Cons.prems deliver_run by (auto simp: env_of_def on_run_refl split: prod.splits option.splits)
  qed
  then show ?case using Cons on_run_trans by (fastforce simp: s)
qed

lemma copy_run:
  assumes "\<forall>j. nor_flash (pe_hw (eo j))" "\<forall>k j. nor_flash (pe_hw (en k j)) \<and> pe_got (en k j)"
    "fold link_step (copy_rounds eo (\<lambda>_. []) en (\<lambda>_ _. []) n) (a, b) = (a', b')"
  shows "on_run a a'"
  using link_run [of "copy_rounds eo (\<lambda>_. []) en (\<lambda>_ _. []) n" "(a, b)"] assms
  by (simp add: copy_rounds_def opening_events_def page_round_def env_of_def)

text \<open>Two boards on which the properties are exercised: an empty slot on the one, a small valid image of version 1 on the other.\<close>

definition sample_crc :: u32 where
  "sample_crc = calc_crc32 (replicate METADATA_ADDR 0)"

definition sample_slot :: bytes where
  "sample_slot = replicate METADATA_ADDR 0 @ le32 0xf00d @ le16 1 @ [0, 0] @ le32 sample_crc @ replicate 4084 0"

definition sample_board :: "bytes \<Rightarrow> u16 \<Rightarrow> u32 \<Rightarrow> pull" where
  "sample_board fl v c = \<lparr>pl_device = (device_boot 0)\<lparr>dv_running_fw_version := v, dv_running_fw_checksum := c\<rparr>, pl_fw = zero_fw,
     pl_batch = firmware_batch_init 64, pl_store = sample_store\<lparr>s_flash := fl, s_page_buffer := replicate 256 0\<rparr>, pl_peer_fw_last_seen_us = 0,
     pl_source_seen = False, pl_source_last_us = 0,
     pl_runtime = diagnostic_runtime_init \<lparr>ru_initialized = False, ru_state = zero_runtime, ru_checkpoint_us = [0, 0], ru_progress_us = 0,
       ru_reported_quarter = 0\<rparr>, pl_history = None, pl_led = False\<rparr>"

definition sample_puller :: pull where
  "sample_puller = sample_board (replicate 266240 0xff) 0 0"

definition sample_server :: pull where
  "sample_server = sample_board sample_slot 1 sample_crc"

definition sample_pe :: pull_env where
  "sample_pe = \<lparr>pe_now = 2000000, pe_hw = sample_flash, pe_got = True, pe_stack = replicate 8 0\<rparr>"

lemma sample_queued: "queued [] (sample_board fl v c)"
proof -
  have "q_element_count (queue_init zero_pkt 256) = 256" by (simp add: queue_init_def)
  then show ?thesis by (simp add: queued_def sample_board_def device_boot_def queue_init_ok)
qed

lemma sample_puller_ready: "puller_ready 64 sample_puller"
proof -
  have "pull_boot 64 sample_puller" "\<not> dv_maintenance_reserved (pl_device sample_puller)"
    "length (s_page_buffer (pl_store sample_puller)) = 256" "262144 \<le> length (s_flash (pl_store sample_puller))"
    by (simp_all add: pull_boot_def sample_puller_def sample_board_def device_boot_def left_def)
  moreover have "1025 \<le> token_left (fw_batch_token_init 64)" by (simp add: fw_batch_token_init_def token_left_def)
  ultimately show ?thesis using sample_queued by (simp add: puller_ready_def sample_puller_def)
qed

lemma sample_slot_facts:
  "length sample_slot = SLOT_SIZE" "slice sample_slot 0 METADATA_ADDR = replicate METADATA_ADDR 0"
  "get32 sample_slot METADATA_ADDR = 0xf00d" "get16 sample_slot (METADATA_ADDR + 4) = 1" "get32 sample_slot (METADATA_ADDR + 8) = sample_crc"
proof -
  let ?z = "replicate METADATA_ADDR (0 :: u8)" and ?t = "replicate 4084 (0 :: u8)"
  show "length sample_slot = SLOT_SIZE" by (simp add: sample_slot_def)
  show "slice sample_slot 0 METADATA_ADDR = ?z" by (simp add: sample_slot_def slice_def)
  show "get32 sample_slot METADATA_ADDR = 0xf00d" unfolding sample_slot_def by (rule get32_at) simp
  show "get16 sample_slot (METADATA_ADDR + 4) = 1"
    using get16_at [of "METADATA_ADDR + 4" "?z @ le32 0xf00d" 1 "[0, 0] @ le32 sample_crc @ ?t"] by (simp add: sample_slot_def)
  show "get32 sample_slot (METADATA_ADDR + 8) = sample_crc"
    using get32_at [of "METADATA_ADDR + 8" "?z @ le32 0xf00d @ le16 1 @ [0, 0]" sample_crc ?t] by (simp add: sample_slot_def)
qed

lemma sample_server_ready: "server_ready sample_server"
proof -
  have "s_flash (pl_store sample_server) = sample_slot" by (simp add: sample_server_def sample_board_def)
  then have "firmware_image_is_valid (pl_store sample_server) 1 sample_crc True"
    using sample_slot_facts(2-5)
    by (simp add: firmware_image_is_valid_def calculate_firmware_crc32_def fw_update_metadata_matches_def Let_def sample_crc_def)
  then show ?thesis
    using sample_queued [of sample_slot 1 sample_crc] sample_slot_facts(1)
    by (simp add: server_ready_def can_serve_def sample_server_def sample_board_def device_boot_def firmware_batch_init_def zero_fw_def)
qed

text \<open>A copy in which both boards beat, the task runs and a word request arrives while each answer is awaited.\<close>

definition sample_between :: "nat \<Rightarrow> link_event list" where
  "sample_between j = (if j = 0 then [Beat sample_pe] else [Beat sample_pe, Beat_back sample_pe, Task sample_pe,
     Stray sample_pe \<lparr>pkt_type = REQUEST_BYTE_MSG, pkt_data = replicate 8 0, pkt_checksum = 0\<rparr>])"

lemma sample_pace:
  "\<forall>k j. nor_flash (pe_hw sample_pe) \<and> pe_got sample_pe" "nor_flash (pe_hw sample_pe)" "pe_now32 sample_pe - pe_now32 sample_pe < 30000000"
  "dv_running_fw_version (pl_device sample_puller) < dv_running_fw_version (pl_device sample_server)"
  "timely (\<lambda>_. sample_pe) (\<lambda>_. []) (\<lambda>_ _. sample_pe) (\<lambda>_ _. [])"
  "timely (\<lambda>_. sample_pe) sample_between (\<lambda>_ _. sample_pe) (\<lambda>_. sample_between)"
  using sample_flash_nor
  by (simp_all add: sample_pe_def sample_puller_def sample_server_def sample_board_def timely_def progress_at_def sample_between_def between_def)

text \<open>C1. A newer image is installed. A freshly booted board with enough request tags left hears the heartbeat of a board that runs a
  newer, valid image. If its task then runs within 30 s of the last progress, each request and every frame of each answer are carried,
  and the locks are free and flash behaves as documented, then it ends with a reboot requested, its slot byte for byte the slot of the
  other board, the rest of its flash as before, the new version and checksum as its running firmware, and the image not marked dirty;
  the other board's flash is untouched. Between any two of these steps any number of further heartbeats of either board, of packets
  other than answers, and, while an answer is awaited, of runs of the task within 100 ms of the request may come. Lost frames and the
  retries they cause are not part of this claim.\<close>

theorem pull_installs_image:
  assumes "puller_ready s a" "server_ready b" "dv_running_fw_version (pl_device a) < dv_running_fw_version (pl_device b)"
    and "\<forall>k j. nor_flash (pe_hw (en k j)) \<and> pe_got (en k j)" and "timely eo no en nz"
    and "fold link_step (copy_schedule eo no en nz) (a, b) = (a', b')"
  shows "dv_reboot_requested (pl_device a') \<and> \<not> dv_image_dirty (pl_device a') \<and>
    dv_running_fw_version (pl_device a') = dv_running_fw_version (pl_device b) \<and>
    dv_running_fw_checksum (pl_device a') = dv_running_fw_checksum (pl_device b) \<and>
    take SLOT_SIZE (s_flash (pl_store a')) = take SLOT_SIZE (s_flash (pl_store b)) \<and>
    drop SLOT_SIZE (s_flash (pl_store a')) = drop SLOT_SIZE (s_flash (pl_store a)) \<and>
    s_flash (pl_store b') = s_flash (pl_store b)"
proof -
  let ?img = "s_flash (pl_store b)" and ?v = "dv_running_fw_version (pl_device b)" and ?c = "dv_running_fw_checksum (pl_device b)"
    and ?fl = "s_flash (pl_store a)"
  from rounds_from_boot [OF assms(1-5), of 1024] obtain t a1 b1 where r: "fold link_step (copy_rounds eo no en nz 1024) (a, b) = (a1, b1)"
    "page_ready ?img ?v ?c ?fl (progress_at eo en 1024) 1024 a1" "serving ?img ?v ?c t b1" by auto
  have now: "pe_now32 (en 1024 0) - progress_at eo en 1024 < 30000000" and nz: "list_all (between None) (nz 1024 0)"
    using assms(5) by (simp_all add: timely_def)
  from between_run [OF ready_in_pull [OF r(2)] serving_offers [OF r(3)] nz] obtain n m where
    z: "fold link_step (nz 1024 0) (a1, b1) = (peer_seen n a1, peer_seen m b1)" by blast
  define a2 b2 where "a2 = peer_seen n a1" and "b2 = peer_seen m b1"
  have r2: "page_ready ?img ?v ?c ?fl (progress_at eo en 1024) 1024 a2" "serving ?img ?v ?c t b2" using r by (simp_all add: a2_def b2_def)
  have res: "a' = firmware_upgrade_task (en 1024 0) a2" "b' = b2" using assms(6) r(1) z by (simp_all add: copy_schedule_def a2_def b2_def)
  have len: "262144 \<le> length ?fl" "262144 \<le> length ?img" using assms(1,2) by (simp_all add: puller_ready_def server_ready_def)
  have ok: "firmware_image_is_valid (pl_store b) ?v ?c True" using assms(2) by (simp add: server_ready_def)
  note l = last_task [OF r2(1) _ len now refl ok, folded res(1)]
  have hw: "nor_flash (pe_hw (en 1024 0))" using assms(4) by blast
  have cp: "copied 1024 ?img ?fl (s_flash (pl_store a'))" by (rule l(5) [OF hw])
  have "take SLOT_SIZE (s_flash (pl_store a')) = take SLOT_SIZE ?img"
    using cp len by (intro nth_equalityI) (simp_all add: copied_def)
  moreover have "drop SLOT_SIZE (s_flash (pl_store a')) = drop SLOT_SIZE ?fl"
    using cp len by (intro nth_equalityI) (simp_all add: copied_def)
  moreover have "s_flash (pl_store b') = ?img" using r2(2) res(2) by (simp add: serving_def)
  ultimately show ?thesis using l(1-4) [OF hw] by simp
qed

theorem pull_installs_image_witness:
  "let r = fold link_step (copy_schedule (\<lambda>_. sample_pe) sample_between (\<lambda>_ _. sample_pe) (\<lambda>_. sample_between)) (sample_puller, sample_server) in
   dv_reboot_requested (pl_device (fst r)) \<and> take SLOT_SIZE (s_flash (pl_store (fst r))) = sample_slot"
proof -
  obtain a' b' where r: "fold link_step (copy_schedule (\<lambda>_. sample_pe) sample_between (\<lambda>_ _. sample_pe) (\<lambda>_. sample_between))
    (sample_puller, sample_server) = (a', b')" by fastforce
  have "s_flash (pl_store sample_server) = sample_slot" by (simp add: sample_server_def sample_board_def)
  then show ?thesis
    using pull_installs_image [OF sample_puller_ready sample_server_ready sample_pace(4,1,6) r] sample_slot_facts(1)
    by (simp add: r)
qed

text \<open>C2. A pull reboots only into a verified image. From boot, whatever packets arrive, in whatever order and with whatever clock: when the
  firmware task requests the reboot, the version and checksum it now calls running were advertised together in a heartbeat with the
  current protocol marker, the version is no older than the one that ran before, the slot has exactly that CRC, and the metadata in the
  slot names that checksum and, unless it is zero, that version.\<close>

theorem pull_reboot_verified:
  assumes "pull_boot s p0" "\<forall>e\<in>set (map fst xs). nor_flash (pe_hw e)" "p = snd (run_machine pull_step p0 xs)"
    and "q = firmware_upgrade_task e p" "\<not> dv_reboot_requested (pl_device p)" "dv_reboot_requested (pl_device q)"
  shows "let v = dv_running_fw_version (pl_device q); c = dv_running_fw_checksum (pl_device q) in
    advertised (map snd xs) v c \<and> dv_running_fw_version (pl_device p) \<le> v \<and> calculate_firmware_crc32 (pl_store q) = c \<and>
    get32 (s_flash (pl_store q)) METADATA_ADDR = 0xf00d \<and> get32 (s_flash (pl_store q)) (METADATA_ADDR + 8) = c \<and>
    (v \<noteq> 0 \<longrightarrow> get16 (s_flash (pl_store q)) (METADATA_ADDR + 4) = v) \<and> \<not> dv_image_dirty (pl_device q)"
proof -
  define p2 where "p2 = commit_pending_firmware_page e (ready_page e p)"
  have inv: "pull_inv (s_flash (pl_store p0)) (map snd xs) p"
    using run_pull_inv [OF boot_inv [OF assms(1)] assms(2)] by (simp add: assms(3))
  note t = task_reboots [OF assms(6,5) [unfolded assms(4)], folded assms(4) p2_def]
  have keep: "fu_version (pl_fw p2) = fu_version (pl_fw p)" "fu_peer_checksum (pl_fw p2) = fu_peer_checksum (pl_fw p)"
    "\<not> dv_reboot_requested (pl_device p2)"
    using assms(5) by (simp_all add: p2_def ready_page_def commit_keeps)
  note f = finish_reboots [OF assms(6) [unfolded t(1)] keep(3), folded t(1)]
  have "advertised (map snd xs) (fu_version (pl_fw p)) (fu_peer_checksum (pl_fw p))" "dv_running_fw_version (pl_device p) \<le> fu_version (pl_fw p)"
    using inv t(2) by (simp_all add: pull_inv_def promised_def pulling_def)
  then show ?thesis using valid_image_facts [OF f(3)] f(2,4-6) keep by (simp add: Let_def)
qed

lemma sample_copied:
  assumes "n \<le> 1024"
  shows "\<exists>xs a. (\<forall>e\<in>set (map fst xs). nor_flash (pe_hw e)) \<and> a = snd (run_machine pull_step sample_puller xs) \<and>
    page_ready sample_slot 1 sample_crc (replicate 266240 0xff) (pe_now32 sample_pe) n a"
proof -
  from rounds_from_boot [OF sample_puller_ready sample_server_ready sample_pace(4,1,5) assms] obtain t a b where
    r: "fold link_step (copy_rounds (\<lambda>_. sample_pe) (\<lambda>_. []) (\<lambda>_ _. sample_pe) (\<lambda>_ _. []) n) (sample_puller, sample_server) = (a, b)"
    "page_ready sample_slot 1 sample_crc (replicate 266240 0xff) (pe_now32 sample_pe) n a"
    by (auto simp: sample_server_def sample_puller_def sample_board_def progress_at_def)
  then show ?thesis using copy_run [OF allI [OF sample_pace(2)] sample_pace(1) r(1)] unfolding on_run_def by blast
qed

theorem pull_reboot_verified_witness:
  "\<exists>xs. let q = firmware_upgrade_task sample_pe (snd (run_machine pull_step sample_puller xs)) in
     dv_reboot_requested (pl_device q) \<and> advertised (map snd xs) 1 sample_crc \<and> calculate_firmware_crc32 (pl_store q) = sample_crc"
proof -
  from sample_copied [of 1024] obtain xs a where x: "\<forall>e\<in>set (map fst xs). nor_flash (pe_hw e)" "a = snd (run_machine pull_step sample_puller xs)"
    "page_ready sample_slot 1 sample_crc (replicate 266240 0xff) (pe_now32 sample_pe) 1024 a" by auto
  have st: "s_flash (pl_store sample_server) = sample_slot" "firmware_image_is_valid (pl_store sample_server) 1 sample_crc True"
    using sample_server_ready by (simp_all add: server_ready_def sample_server_def sample_board_def)
  have len: "262144 \<le> length (replicate 266240 (0xff :: u8))" "262144 \<le> length sample_slot" using sample_slot_facts(1) by simp_all
  note l = last_task [OF x(3) sample_pace(2) len sample_pace(3) st]
  have boot: "pull_boot 64 sample_puller" using sample_puller_ready by (simp add: puller_ready_def)
  have nr: "\<not> dv_reboot_requested (pl_device a)" using x(3) by (simp add: page_ready_def at_page_def)
  from pull_reboot_verified [OF boot x(1,2) refl nr l(1)] l(3,4) l(1) show ?thesis
    unfolding x(2) by (intro exI [of _ xs]) (simp add: Let_def)
qed

text \<open>C3. A pull writes its own slot and nothing else, and never passes a half-written image on. From boot, after any events, flash outside
  the slot is as it was; and unless the board has asked for the reboot or gone to its ROM, either the whole flash is as it was or the
  board answers no request for its image: neither words nor pages.\<close>

theorem pull_flash_confined:
  assumes "pull_boot s p0" "\<forall>e\<in>set (map fst xs). nor_flash (pe_hw e)" "p = snd (run_machine pull_step p0 xs)"
  shows "drop SLOT_SIZE (s_flash (pl_store p)) = drop SLOT_SIZE (s_flash (pl_store p0)) \<and>
    (left (pl_device p) \<or> s_flash (pl_store p) = s_flash (pl_store p0) \<or>
     (\<forall>e x y. handle_request_byte_msg e x p = p \<and> receive_caps_request e y p = p \<and> receive_page_request e y p = p \<and>
        fst (firmware_batch_next_tx e p) = None))"
proof -
  have inv: "pull_inv (s_flash (pl_store p0)) (map snd xs) p"
    using run_pull_inv [OF boot_inv [OF assms(1)] assms(2)] by (simp add: assms(3))
  then have fl: "flash_ok (s_flash (pl_store p0)) (pl_device p) (pl_fw p) (pl_store p)" by (simp add: pull_inv_def)
  have "drop SLOT_SIZE (s_flash (pl_store p)) = drop SLOT_SIZE (s_flash (pl_store p0))"
    using fl by (intro nth_equalityI) (simp_all add: flash_ok_def)
  moreover have "\<forall>e x y. handle_request_byte_msg e x p = p \<and> receive_caps_request e y p = p \<and> receive_page_request e y p = p \<and>
        fst (firmware_batch_next_tx e p) = None"
    if "\<not> left (pl_device p)" "s_flash (pl_store p) \<noteq> s_flash (pl_store p0)"
  proof -
    have "dv_image_dirty (pl_device p)" using fl that by (simp add: flash_ok_def)
    moreover from this have "dv_upgrade_in_progress (pl_device p)" using fl inv that by (auto simp: flash_ok_def pull_inv_def promised_def)
    ultimately show ?thesis
      by (auto simp: handle_request_byte_msg_def receive_caps_request_def receive_page_request_def firmware_batch_next_tx_def can_serve_def
          upd_profile_def upd_batch_def Let_def split: option.splits)
  qed
  ultimately show ?thesis by blast
qed

theorem pull_flash_confined_witness:
  "\<exists>xs. let p = snd (run_machine pull_step sample_puller xs) in s_flash (pl_store p) \<noteq> s_flash (pl_store sample_puller) \<and>
     drop SLOT_SIZE (s_flash (pl_store p)) = replicate 4096 0xff \<and> (\<forall>e x. handle_request_byte_msg e x p = p)"
proof -
  from sample_copied [of 2] obtain xs a where x: "\<forall>e\<in>set (map fst xs). nor_flash (pe_hw e)" "a = snd (run_machine pull_step sample_puller xs)"
    "page_ready sample_slot 1 sample_crc (replicate 266240 0xff) (pe_now32 sample_pe) 2 a" by auto
  have fl0: "s_flash (pl_store sample_puller) = replicate 266240 0xff" by (simp add: sample_puller_def sample_board_def)
  have "s_flash (pl_store a) ! 0 = sample_slot ! 0" "\<not> left (pl_device a)"
    using x(3) by (simp_all add: page_ready_def at_page_def copied_def left_def)
  moreover have "sample_slot ! 0 = 0" by (simp add: sample_slot_def nth_append)
  ultimately have ne: "s_flash (pl_store a) \<noteq> s_flash (pl_store sample_puller)" "\<not> left (pl_device a)" unfolding fl0 by auto
  have boot: "pull_boot 64 sample_puller" using sample_puller_ready by (simp add: puller_ready_def)
  from pull_flash_confined [OF boot x(1,2)] ne show ?thesis
    unfolding x(2) fl0 by (intro exI [of _ xs]) (auto simp: Let_def)
qed

end
