(* ===== verification/Uf2_Drop.thy ===== *)
theory Uf2_Drop
  imports Fw_Install
begin

text \<open>
  The disk that configuration mode shows to the computer (ramdisk.c): reads come from the disk image in flash, and a firmware file in UF2
  blocks dropped on it replaces the running image. Each valid block is written once wherever it comes in the sequence, the sector it is in
  is erased with its first block, and when all 1024 have arrived the image is checked and the board reboots or goes to its ROM.
\<close>

unbundle bit_operations_syntax

subsection \<open>The code\<close>

record drop =
  dr_pull :: pull
  dr_blocks :: "u32 list"
  dr_sectors :: "u32 list"
  dr_count :: u16

text \<open>The disk image lies behind the 188 KiB of code; blocks behind its 64 KiB read as zeros.\<close>

definition tud_msc_read10_cb :: "store \<Rightarrow> u32 \<Rightarrow> u32 \<Rightarrow> nat \<Rightarrow> int \<times> bytes" where
  "tud_msc_read10_cb st lba offset bufsize =
     (if lba \<ge> 4096 then (-1, [])
      else if lba \<ge> 128 then (int bufsize, replicate bufsize 0)
      else (int bufsize, read_flash_bytes st (192512 + unat (lba * 512 + offset)) bufsize))"

definition uf2_magic :: "bytes \<Rightarrow> bool" where
  "uf2_magic buffer \<longleftrightarrow> \<not> (length buffer < 512 \<or> get32 buffer 0 \<noteq> 0x0a324655 \<or> get32 buffer 4 \<noteq> 0x9e5d5157 \<or> get32 buffer 508 \<noteq> 0x0ab16f30)"

abbreviation uf2_block_no :: "bytes \<Rightarrow> u32" where
  "uf2_block_no buffer \<equiv> get32 buffer 20"

definition uf2_placed :: "bytes \<Rightarrow> bool" where
  "uf2_placed buffer \<longleftrightarrow> \<not> (get32 buffer 16 \<noteq> 256 \<or> get32 buffer 24 \<noteq> 1024 \<or> uf2_block_no buffer > 1023
     \<or> get32 buffer 12 \<noteq> 0x10000000 + uf2_block_no buffer * 256)"

definition upd_pull :: "(pull \<Rightarrow> pull) \<Rightarrow> drop \<Rightarrow> drop" where
  "upd_pull f s = s\<lparr>dr_pull := f (dr_pull s)\<rparr>"

definition drop_claim :: "pull_env \<Rightarrow> drop \<Rightarrow> drop" where
  "drop_claim e s =
     (if fu_source (pl_fw (dr_pull s)) = FW_UPDATE_SOURCE_DROP then s
      else upd_pull (\<lambda>p. note_runtime e (diagnostic_update_begin (pe_now e) DIAGNOSTIC_SOURCE_USB 0)
             (set_flags True False (upd_fw (\<lambda>_. zero_fw\<lparr>fu_source := FW_UPDATE_SOURCE_DROP, fu_progressed_at_us := pe_now32 e\<rparr>) p)))
           (s\<lparr>dr_blocks := replicate 32 0, dr_sectors := replicate 2 0, dr_count := 0\<rparr>))"

definition drop_block :: "pull_env \<Rightarrow> bytes \<Rightarrow> drop \<Rightarrow> drop" where
  "drop_block e buffer s =
     (case fw_update_mark_block (dr_blocks s) (Some (dr_count s)) (uf2_block_no buffer) of
        (False, blocks, received) \<Rightarrow> s\<lparr>dr_blocks := blocks, dr_count := the received\<rparr>
      | (True, blocks, received) \<Rightarrow>
          case fw_update_mark_block (dr_sectors s) None (uf2_block_no buffer div 16) of
            (erase_sector, sectors, _) \<Rightarrow>
              upd_pull (\<lambda>p. note_runtime e (diagnostic_update_progress (pe_now e) (ucast (the received) * 256))
                  (upd_fw (\<lambda>f. f\<lparr>fu_progressed_at_us := pe_now32 e\<rparr>)
                    (upd_dev (\<lambda>d. d\<lparr>dv_image_dirty := True\<rparr>)
                      (p\<lparr>pl_store := write_flash_page_erasing (pe_hw e) (unat (uf2_block_no buffer * 256)) (drop 32 buffer) erase_sector
                          (pl_store p)\<rparr>))))
                (s\<lparr>dr_blocks := blocks, dr_count := the received, dr_sectors := sectors\<rparr>))"

text \<open>\<open>False\<close>: the board has left for its ROM.\<close>

definition drop_finish :: "pull_env \<Rightarrow> pull \<Rightarrow> bool \<times> pull" where
  "drop_finish e p =
     (let p = note_runtime e (diagnostic_update_phase DIAGNOSTIC_UPDATE_VALIDATING) p
      in if \<not> firmware_image_is_valid (pl_store p) 0 0 False then
           let p = note_runtime e (diagnostic_update_phase DIAGNOSTIC_UPDATE_FAILED) p
           in (False, upd_dev (log_call Reset_usb_boot) (p\<lparr>pl_store := enter_firmware_recovery (pe_hw e) (pl_store p)\<rparr>))
         else
           let p = note_runtime e (diagnostic_update_phase DIAGNOSTIC_UPDATE_REBOOT_PENDING) (upd_dev (\<lambda>d. d\<lparr>dv_image_dirty := False\<rparr>) p)
           in (True, upd_dev (\<lambda>d. d\<lparr>dv_reboot_requested := True\<rparr>) p))"

text \<open>The result \<open>None\<close> is a call that does not return.\<close>

definition tud_msc_write10_cb :: "pull_env \<Rightarrow> u32 \<Rightarrow> bytes \<Rightarrow> drop \<Rightarrow> int option \<times> drop" where
  "tud_msc_write10_cb e lba buffer s =
     (if lba \<ge> 4096 then (Some (-1), s)
      else if \<not> uf2_magic buffer then (Some (int (length buffer)), s)
      else if \<not> uf2_placed buffer then (Some (int (length buffer)), s)
      else if dv_reboot_requested (pl_device (dr_pull s)) \<or> dv_maintenance_reserved (pl_device (dr_pull s)) then (Some (int (length buffer)), s)
      else
        let s = drop_block e buffer (drop_claim e s)
        in if dr_count s = 1024 then
             case drop_finish e (dr_pull s) of
               (False, p) \<Rightarrow> (None, s\<lparr>dr_pull := p\<rparr>)
             | (True, p) \<Rightarrow> (Some (int (length buffer)), s\<lparr>dr_pull := toggle_led p\<rparr>)
           else (Some (int (length buffer)), upd_pull toggle_led s))"

text \<open>A sequence of writes, until one does not return.\<close>

primrec run_drop :: "drop \<Rightarrow> (pull_env \<times> u32 \<times> bytes) list \<Rightarrow> drop" where
  "run_drop s [] = s"
| "run_drop s (w # ws) =
     (case w of (e, lba, buffer) \<Rightarrow>
        case tud_msc_write10_cb e lba buffer s of
          (None, s') \<Rightarrow> s'
        | (Some _, s') \<Rightarrow> run_drop s' ws)"

subsection \<open>Blocks in any order\<close>

text \<open>The blocks of \<open>S\<close> are the image's, what else there is in their sectors is erased, and nothing changed behind the slot.\<close>

definition placed :: "nat set \<Rightarrow> bytes \<Rightarrow> bytes \<Rightarrow> bytes \<Rightarrow> bool" where
  "placed S img fl0 fl \<longleftrightarrow> length fl = length fl0 \<and> (\<forall>i<262144. i div 256 \<in> S \<longrightarrow> fl ! i = img ! i) \<and>
     (\<forall>i<262144. i div 256 \<notin> S \<longrightarrow> i div 4096 \<in> (\<lambda>b. b div 16) ` S \<longrightarrow> fl ! i = 0xff) \<and>
     (\<forall>i. 262144 \<le> i \<longrightarrow> i < length fl0 \<longrightarrow> fl ! i = fl0 ! i)"

lemma placed_write:
  assumes p: "placed S img fl0 (s_flash st)" and b: "b < 1024" "b \<notin> S" and hw: "nor_flash hw"
    and len: "262144 \<le> length fl0" "262144 \<le> length img" and page: "take 256 page = slice img (256 * b) 256"
  shows "placed (insert b S) img fl0 (s_flash (write_flash_page_erasing hw (256 * b) page (b div 16 \<notin> (\<lambda>b. b div 16) ` S) st))"
proof -
  let ?T = "(\<lambda>b. b div 16) ` S"
  define fl where "fl = s_flash st"
  define f1 where "f1 = (if b div 16 \<notin> ?T then flash_range_erase hw fl (4096 * (b div 16)) 4096 else fl)"
  have sec: "256 * b div SECTOR_SIZE * SECTOR_SIZE = 4096 * (b div 16)" by simp
  have eq: "s_flash (write_flash_page_erasing hw (256 * b) page (b div 16 \<notin> ?T) st) = flash_range_program hw f1 (256 * b) (slice img (256 * b) 256)"
    (is "_ = ?f2")
    unfolding write_flash_page_erasing_def sec Let_def by (simp add: f1_def fl_def page)
  have sl: "length (slice img (256 * b) 256) = 256" using b len(2) by simp
  have l: "length fl = length fl0" using p by (simp add: placed_def fl_def)
  have l1: "length f1 = length fl0" by (simp add: f1_def erase_nth(2) [OF hw] l)
  have in_sec: "4096 * (b div 16) \<le> i \<and> i < 4096 * (b div 16) + 4096 \<longleftrightarrow> i div 4096 = b div 16" for i by (auto; presburger)
  have in_page: "256 * b \<le> i \<and> i < 256 * b + 256 \<longleftrightarrow> i div 256 = b" for i by (auto; presburger)
  have page_sec: "i div 256 div 16 = i div 4096" for i :: nat by simp
  have f1: "f1 ! i = (if b div 16 \<notin> ?T \<and> i div 4096 = b div 16 then 0xff else fl ! i)" if "i < length fl0" for i
    using that by (simp add: f1_def erase_nth(1) [OF hw] l in_sec)
  have f2: "?f2 ! i = (if i div 256 = b then f1 ! i AND slice img (256 * b) 256 ! (i - 256 * b) else f1 ! i)" if "i < length fl0" for i
    using that by (simp add: program_nth(1) [OF hw] l1 sl in_page)
  have ff: "f1 ! i = 0xff" if "i < 262144" "i div 256 \<notin> S" "i div 4096 \<in> insert (b div 16) ?T" for i
    using that f1 [of i] p len(1) by (auto simp: placed_def fl_def)
  show ?thesis
    unfolding placed_def eq
  proof (intro conjI allI impI)
    show "length ?f2 = length fl0" by (simp add: program_nth(2) [OF hw] l1)
    fix i
    show "?f2 ! i = img ! i" if "i < 262144" "i div 256 \<in> insert b S"
    proof (cases "i div 256 = b")
      case True
      then have "f1 ! i = 0xff" using ff [of i] that(1) b(2) page_sec [of i] by auto
      moreover have "256 * b \<le> i" "i < 256 * b + 256" using True in_page by blast+
      ultimately show ?thesis using True that(1) f2 [of i] len b(1) by (simp add: nth_slice erased_and)
    next
      case False
      then have s: "i div 256 \<in> S" using that(2) by simp
      then have "i div 4096 \<in> ?T" using imageI [of "i div 256" S "\<lambda>b. b div 16"] page_sec [of i] by simp
      then have "f1 ! i = fl ! i" using f1 [of i] that(1) len(1) by auto
      then show ?thesis using s False that(1) f2 [of i] p len(1) by (simp add: placed_def fl_def)
    qed
    show "?f2 ! i = 0xff" if "i < 262144" "i div 256 \<notin> insert b S" "i div 4096 \<in> (\<lambda>b. b div 16) ` insert b S"
      using that ff [of i] f2 [of i] len(1) by auto
    show "?f2 ! i = fl0 ! i" if "262144 \<le> i" "i < length fl0"
    proof -
      have "i div 256 \<noteq> b" "i div 4096 \<noteq> b div 16" using div_le_mono [OF that(1), of 256] div_le_mono [OF that(1), of 4096] b(1) by auto
      then show ?thesis using that f2 [of i] f1 [of i] p by (simp add: placed_def fl_def)
    qed
  qed
qed

text \<open>A drop in progress with the blocks of \<open>S\<close> received.\<close>

definition dropping :: "bytes \<Rightarrow> bytes \<Rightarrow> nat set \<Rightarrow> drop \<Rightarrow> bool" where
  "dropping img fl0 S s \<longleftrightarrow> fu_source (pl_fw (dr_pull s)) = FW_UPDATE_SOURCE_DROP \<and> \<not> dv_reboot_requested (pl_device (dr_pull s)) \<and>
     \<not> dv_maintenance_reserved (pl_device (dr_pull s)) \<and> length (dr_blocks s) = 32 \<and> block_set (dr_blocks s) = S \<and> S \<subseteq> {..<1024} \<and>
     dr_count s = of_nat (card S) \<and> length (dr_sectors s) = 2 \<and> block_set (dr_sectors s) = (\<lambda>b. b div 16) ` S \<and>
     placed S img fl0 (s_flash (pl_store (dr_pull s)))"

definition drop_idle :: "drop \<Rightarrow> bool" where
  "drop_idle s \<longleftrightarrow> fu_source (pl_fw (dr_pull s)) \<noteq> FW_UPDATE_SOURCE_DROP \<and> \<not> dv_reboot_requested (pl_device (dr_pull s)) \<and>
     \<not> dv_maintenance_reserved (pl_device (dr_pull s)) \<and> 262144 \<le> length (s_flash (pl_store (dr_pull s)))"

lemma block_set_empty: "block_set (replicate n 0) = {}"
  by (auto simp: block_set_def)

lemma claim_idle:
  assumes "drop_idle s"
  shows "dropping img (s_flash (pl_store (dr_pull s))) {} (drop_claim e s)"
  using assms
  by (simp add: drop_idle_def drop_claim_def dropping_def upd_pull_def set_flags_def upd_fw_def upd_dev_def block_set_empty placed_def)

lemma claim_again: "dropping img fl0 S s \<Longrightarrow> drop_claim e s = s"
  by (simp add: dropping_def drop_claim_def)

lemma count_below:
  fixes S :: "nat set"
  assumes "S \<subseteq> {..<1024}"
  shows "card S \<le> 1024" "(of_nat (card S) :: u16) = 1024 \<longleftrightarrow> S = {..<1024}"
proof -
  show c: "card S \<le> 1024" using card_mono [OF _ assms] by simp
  have u: "unat (of_nat (card S) :: u16) = card S"
    unfolding unsigned_of_nat of_nat_id using c by (intro take_bit_nat_eq_self) simp
  have "(of_nat (card S) :: u16) = 1024 \<longleftrightarrow> card S = 1024" unfolding word_unat_eq_iff u by simp
  then show "(of_nat (card S) :: u16) = 1024 \<longleftrightarrow> S = {..<1024}" using card_subset_eq [OF _ assms] by auto
qed

definition block_of :: "bytes \<Rightarrow> bytes \<Rightarrow> bool" where
  "block_of img buffer \<longleftrightarrow> uf2_magic buffer \<and> uf2_placed buffer \<and>
     slice buffer 32 256 = slice img (256 * unat (uf2_block_no buffer)) 256"

lemma block_number:
  assumes "uf2_placed buffer"
  shows "unat (uf2_block_no buffer) < 1024" "unat (uf2_block_no buffer * 256) = 256 * unat (uf2_block_no buffer)"
    "unat (uf2_block_no buffer div 16) = unat (uf2_block_no buffer) div 16"
proof -
  have "uf2_block_no buffer \<le> 1023" using assms by (simp add: uf2_placed_def not_less)
  then show b: "unat (uf2_block_no buffer) < 1024" by (simp add: word_le_nat_alt)
  then show "unat (uf2_block_no buffer * 256) = 256 * unat (uf2_block_no buffer)" by (simp add: unat_word_ariths)
  show "unat (uf2_block_no buffer div 16) = unat (uf2_block_no buffer) div 16" by (simp add: unat_div)
qed

lemma drop_block_step:
  assumes d: "dropping img fl0 S s" and b: "block_of img buffer" and hw: "nor_flash (pe_hw e)"
    and len: "262144 \<le> length fl0" "262144 \<le> length img"
  shows "dropping img fl0 (insert (unat (uf2_block_no buffer)) S) (drop_block e buffer s)"
    "dv_calls (pl_device (dr_pull (drop_block e buffer s))) = dv_calls (pl_device (dr_pull s))"
proof -
  let ?b = "unat (uf2_block_no buffer)"
  have up: "uf2_placed buffer" using b by (simp add: block_of_def)
  note n = block_number [OF up]
  obtain r blocks received where m: "fw_update_mark_block (dr_blocks s) (Some (dr_count s)) (uf2_block_no buffer) = (r, blocks, received)"
    by (metis prod_cases3)
  have lb: "?b < 32 * length (dr_blocks s)" using n(1) d by (simp add: dropping_def)
  note ms = mark_block_set [OF lb m]
  obtain er sectors k where m2: "fw_update_mark_block (dr_sectors s) None (uf2_block_no buffer div 16) = (er, sectors, k)"
    by (metis prod_cases3)
  have ls: "unat (uf2_block_no buffer div 16) < 32 * length (dr_sectors s)" using n d by (simp add: dropping_def)
  note ms2 = mark_block_set [OF ls m2]
  have S: "block_set (dr_blocks s) = S" "dr_count s = of_nat (card S)" "block_set (dr_sectors s) = (\<lambda>b. b div 16) ` S" "S \<subseteq> {..<1024}"
    using d by (simp_all add: dropping_def)
  have fin: "finite S" using S(4) finite_subset by blast
  show "dropping img fl0 (insert ?b S) (drop_block e buffer s)"
  proof (cases "?b \<in> S")
    case True
    then have "drop_block e buffer s = s\<lparr>dr_blocks := blocks\<rparr>" "block_set blocks = S" "length blocks = 32"
      using ms m S d by (auto simp: drop_block_def insert_absorb dropping_def)
    then show ?thesis using d True by (simp add: dropping_def insert_absorb)
  next
    case False
    have r: "r" "the received = of_nat (card (insert ?b S))" using False ms S fin by auto
    have er: "er \<longleftrightarrow> ?b div 16 \<notin> (\<lambda>b. b div 16) ` S" using ms2 S(3) n(3) by simp
    have pg: "take 256 (drop 32 buffer) = slice img (256 * ?b) 256" using b by (simp add: block_of_def slice_def)
    have pl: "placed S img fl0 (s_flash (pl_store (dr_pull s)))" using d by (simp add: dropping_def)
    note w = placed_write [OF pl n(1) False hw len pg, folded er]
    let ?g = "\<lambda>p. note_runtime e (diagnostic_update_progress (pe_now e) (ucast (the received) * 256))
                  (upd_fw (\<lambda>f. f\<lparr>fu_progressed_at_us := pe_now32 e\<rparr>)
                    (upd_dev (\<lambda>d. d\<lparr>dv_image_dirty := True\<rparr>)
                      (p\<lparr>pl_store := write_flash_page_erasing (pe_hw e) (256 * ?b) (drop 32 buffer) er (pl_store p)\<rparr>)))"
    have eq: "drop_block e buffer s = upd_pull ?g (s\<lparr>dr_blocks := blocks, dr_count := the received, dr_sectors := sectors\<rparr>)"
      unfolding drop_block_def m m2 prod.case n(2) using r(1) by simp
    have bl: "block_set blocks = insert ?b S" "length blocks = 32" "block_set sectors = (\<lambda>b. b div 16) ` insert ?b S" "length sectors = 2"
      using ms ms2 S n(3) d by (simp_all add: dropping_def)
    show ?thesis
      unfolding eq dropping_def using d r(2) bl w n(1) by (simp add: dropping_def upd_pull_def upd_fw_def upd_dev_def)
  qed
  show "dv_calls (pl_device (dr_pull (drop_block e buffer s))) = dv_calls (pl_device (dr_pull s))"
    by (cases r) (simp_all add: drop_block_def m m2 upd_pull_def upd_fw_def upd_dev_def)
qed

text \<open>How a drop ends, for a valid and for an invalid image.\<close>

definition drop_ended :: "bytes \<Rightarrow> bytes \<Rightarrow> bool \<Rightarrow> drop \<Rightarrow> bool" where
  "drop_ended img fl0 valid s \<longleftrightarrow> (let p = dr_pull s in
     (if valid then dv_reboot_requested (pl_device p) \<and> \<not> dv_image_dirty (pl_device p) \<and> (\<forall>i<262144. s_flash (pl_store p) ! i = img ! i)
      else \<not> dv_reboot_requested (pl_device p) \<and> Reset_usb_boot \<in> set (dv_calls (pl_device p)) \<and> (\<forall>i<4096. s_flash (pl_store p) ! i = 0xff)) \<and>
     length (s_flash (pl_store p)) = length fl0 \<and> (\<forall>i. 262144 \<le> i \<longrightarrow> i < length fl0 \<longrightarrow> s_flash (pl_store p) ! i = fl0 ! i))"

lemma all_blocks: "i < 262144 \<Longrightarrow> i div 256 \<in> {..<1024 :: nat}"
  by auto

lemma finish_ended:
  assumes d: "dropping img fl0 {..<1024} s" and hw: "nor_flash (pe_hw e)" and len: "262144 \<le> length fl0" "262144 \<le> length img"
    and f: "drop_finish e (dr_pull s) = (ok, p)"
  shows "ok = firmware_image_is_valid (st\<lparr>s_flash := img\<rparr>) 0 0 False" "drop_ended img fl0 ok (s\<lparr>dr_pull := p\<rparr>)"
proof -
  let ?st = "pl_store (dr_pull s)"
  have pl: "placed {..<1024} img fl0 (s_flash ?st)" and nr: "\<not> dv_reboot_requested (pl_device (dr_pull s))" using d by (simp_all add: dropping_def)
  have fl: "\<forall>i<262144. s_flash ?st ! i = img ! i" "length (s_flash ?st) = length fl0"
      "\<forall>i. 262144 \<le> i \<longrightarrow> i < length fl0 \<longrightarrow> s_flash ?st ! i = fl0 ! i"
    using pl all_blocks unfolding placed_def by blast+
  have v: "firmware_image_is_valid ?st 0 0 False = firmware_image_is_valid (st\<lparr>s_flash := img\<rparr>) 0 0 False"
    using fl(1,2) len by (intro same_slot_valid) simp_all
  show "ok = firmware_image_is_valid (st\<lparr>s_flash := img\<rparr>) 0 0 False"
    using f v by (auto simp: drop_finish_def Let_def split: if_splits)
  show "drop_ended img fl0 ok (s\<lparr>dr_pull := p\<rparr>)"
  proof (cases "firmware_image_is_valid ?st 0 0 False")
    case True
    then show ?thesis using f fl by (auto simp: drop_finish_def Let_def drop_ended_def upd_dev_def)
  next
    case False
    then have p: "\<not> ok" "dv_reboot_requested (pl_device p) = dv_reboot_requested (pl_device (dr_pull s))" "Reset_usb_boot \<in> set (dv_calls (pl_device p))"
      "pl_store p = enter_firmware_recovery (pe_hw e) ?st"
      using f by (auto simp: drop_finish_def Let_def upd_dev_def log_call_def)
    have fr: "s_flash (pl_store p) = flash_range_erase (pe_hw e) (s_flash ?st) 0 4096" by (simp add: p(4) enter_firmware_recovery_def Let_def)
    show ?thesis
      using p(1-3) nr fl(2,3) len(1) unfolding drop_ended_def Let_def by (simp add: fr erase_nth [OF hw])
  qed
qed

definition taken :: "pull_env \<times> u32 \<times> bytes \<Rightarrow> bool" where
  "taken w \<longleftrightarrow> (case w of (e, lba, buffer) \<Rightarrow> lba < 4096 \<and> uf2_magic buffer \<and> uf2_placed buffer)"

definition block_number_of :: "pull_env \<times> u32 \<times> bytes \<Rightarrow> nat" where
  "block_number_of w = unat (uf2_block_no (snd (snd w)))"

lemma write_ignored:
  assumes "\<not> taken (e, lba, buffer) \<or> dv_reboot_requested (pl_device (dr_pull s))"
  shows "\<exists>r. tud_msc_write10_cb e lba buffer s = (Some r, s)"
  using assms by (auto simp: tud_msc_write10_cb_def taken_def not_less)

lemma run_after_reboot: "dv_reboot_requested (pl_device (dr_pull s)) \<Longrightarrow> run_drop s ws = s"
proof (induction ws)
  case (Cons w ws)
  obtain e lba buffer where w: "w = (e, lba, buffer)" using prod_cases3 by blast
  obtain r where "tud_msc_write10_cb e lba buffer s = (Some r, s)" using write_ignored Cons.prems by blast
  then show ?case using Cons w by simp
qed simp

definition own_blocks :: "bytes \<Rightarrow> (pull_env \<times> u32 \<times> bytes) list \<Rightarrow> bool" where
  "own_blocks img ws \<longleftrightarrow> (\<forall>(e, lba, buffer)\<in>set ws. nor_flash (pe_hw e) \<and> (taken (e, lba, buffer) \<longrightarrow> block_of img buffer))"

lemma ended_toggle: "drop_ended img fl0 v (s\<lparr>dr_pull := toggle_led p\<rparr>) = drop_ended img fl0 v (s\<lparr>dr_pull := p\<rparr>)"
  by (simp add: drop_ended_def)

lemma run_drop_ends:
  assumes "own_blocks img ws" "262144 \<le> length fl0" "262144 \<le> length img"
    and "\<And>e. dropping img fl0 S (drop_claim e s)" "\<not> dv_reboot_requested (pl_device (dr_pull s))" "\<not> dv_maintenance_reserved (pl_device (dr_pull s))"
    and "S \<noteq> {..<1024}" "S \<union> block_number_of ` {w \<in> set ws. taken w} = {..<1024}"
  shows "drop_ended img fl0 (firmware_image_is_valid (st\<lparr>s_flash := img\<rparr>) 0 0 False) (run_drop s ws)"
  using assms
proof (induction ws arbitrary: S s)
  case Nil
  then show ?case by simp
next
  case (Cons w ws)
  obtain e lba buffer where w: "w = (e, lba, buffer)" using prod_cases3 by blast
  have own: "own_blocks img ws" "nor_flash (pe_hw e)" using Cons.prems(1) by (auto simp: own_blocks_def w)
  show ?case
  proof (cases "taken w")
    case False
    then obtain r where "tud_msc_write10_cb e lba buffer s = (Some r, s)" using write_ignored [of e lba buffer s] w by blast
    moreover have "{x \<in> set (w # ws). taken x} = {x \<in> set ws. taken x}" using False by auto
    ultimately show ?thesis using Cons.IH [OF own(1) Cons.prems(2-7)] Cons.prems(8) w by simp
  next
    case True
    define b where "b = unat (uf2_block_no buffer)"
    define s2 where "s2 = drop_block e buffer (drop_claim e s)"
    have bl: "block_of img buffer" using Cons.prems(1) True by (auto simp: own_blocks_def w)
    have d2: "dropping img fl0 (insert b S) s2"
      unfolding s2_def b_def by (rule drop_block_step(1) [OF Cons.prems(4) bl own(2) Cons.prems(2,3)])
    have sub: "insert b S \<subseteq> {..<1024}" and cnt: "dr_count s2 = of_nat (card (insert b S))" using d2 by (simp_all only: dropping_def)
    have g: "\<not> lba \<ge> 4096" "uf2_magic buffer" "uf2_placed buffer" using True by (simp_all add: taken_def w not_le)
    have eq: "tud_msc_write10_cb e lba buffer s = (if insert b S = {..<1024} then
             case drop_finish e (dr_pull s2) of
               (False, p) \<Rightarrow> (None, s2\<lparr>dr_pull := p\<rparr>)
             | (True, p) \<Rightarrow> (Some (int (length buffer)), s2\<lparr>dr_pull := toggle_led p\<rparr>)
           else (Some (int (length buffer)), upd_pull toggle_led s2))"
      unfolding tud_msc_write10_cb_def Let_def s2_def [symmetric] cnt count_below(2) [OF sub] using g Cons.prems(5,6) by simp
    show ?thesis
    proof (cases "insert b S = {..<1024}")
      case full: True
      obtain ok p where f: "drop_finish e (dr_pull s2) = (ok, p)" by fastforce
      note fe = finish_ended(1) [OF d2 [unfolded full] own(2) Cons.prems(2,3) f, of st]
        finish_ended(2) [OF d2 [unfolded full] own(2) Cons.prems(2,3) f]
      show ?thesis
      proof (cases ok)
        case False
        then show ?thesis using eq full f fe w by simp
      next
        case ok: True
        then have "dv_reboot_requested (pl_device (dr_pull (s2\<lparr>dr_pull := toggle_led p\<rparr>)))" using fe(2) by (simp add: drop_ended_def)
        from run_after_reboot [OF this] show ?thesis using eq full f fe w ok ended_toggle by simp
      qed
    next
      case part: False
      let ?s3 = "upd_pull toggle_led s2"
      have d3: "dropping img fl0 (insert b S) ?s3" using d2 by (simp add: dropping_def upd_pull_def)
      have all: "insert b S \<union> block_number_of ` {w \<in> set ws. taken w} = {..<1024}"
      proof -
        have "{x \<in> set (w # ws). taken x} = insert w {x \<in> set ws. taken x}" using True by auto
        then show ?thesis using Cons.prems(8) by (simp add: block_number_of_def w b_def Un_commute)
      qed
      have "drop_ended img fl0 (firmware_image_is_valid (st\<lparr>s_flash := img\<rparr>) 0 0 False) (run_drop ?s3 ws)"
        using d3 claim_again [OF d3] by (intro Cons.IH [OF own(1) Cons.prems(2,3) _ _ _ part all]) (simp_all add: dropping_def)
      then show ?thesis using eq part w by simp
    qed
  qed
qed

subsection \<open>Any writes\<close>

text \<open>Whatever the computer writes, flash behind the slot stays, and the board asks for a reboot only with a valid image.\<close>

definition behind_kept :: "bytes \<Rightarrow> bytes \<Rightarrow> bool" where
  "behind_kept fl0 fl \<longleftrightarrow> length fl = length fl0 \<and> (\<forall>i. 262144 \<le> i \<longrightarrow> i < length fl0 \<longrightarrow> fl ! i = fl0 ! i)"

definition drop_safe :: "bytes \<Rightarrow> drop \<Rightarrow> bool" where
  "drop_safe fl0 s \<longleftrightarrow> behind_kept fl0 (s_flash (pl_store (dr_pull s))) \<and>
     (dv_reboot_requested (pl_device (dr_pull s)) \<longrightarrow> firmware_image_is_valid (pl_store (dr_pull s)) 0 0 False)"

lemma write_behind:
  assumes "behind_kept fl0 (s_flash st)" "nor_flash hw" "b < 1024"
  shows "behind_kept fl0 (s_flash (write_flash_page_erasing hw (256 * b) page er st))"
proof -
  define f1 where "f1 = (if er then flash_range_erase hw (s_flash st) (256 * b div SECTOR_SIZE * SECTOR_SIZE) SECTOR_SIZE else s_flash st)"
  have s: "256 * b div SECTOR_SIZE * SECTOR_SIZE + SECTOR_SIZE \<le> 262144" "256 * b + 256 \<le> 262144" using assms(3) by simp_all
  have "s_flash (write_flash_page_erasing hw (256 * b) page er st) = flash_range_program hw f1 (256 * b) (take PAGE_SIZE page)"
    by (simp add: write_flash_page_erasing_def Let_def f1_def)
  moreover have f1: "behind_kept fl0 f1"
    using assms(1) s(1) unfolding f1_def behind_kept_def by (auto simp: erase_nth [OF assms(2)] simp del: div_mult_self_is_m)
  ultimately show ?thesis
    using s(2) unfolding behind_kept_def by (auto simp: program_nth [OF assms(2)])
qed

lemma write_safe:
  assumes s: "drop_safe fl0 s" and hw: "nor_flash (pe_hw e)" and len: "262144 \<le> length fl0" and w: "tud_msc_write10_cb e lba buffer s = (r, s')"
  shows "drop_safe fl0 s'"
proof (cases "s' = s")
  case True
  then show ?thesis using s by simp
next
  case False
  then have tk: "taken (e, lba, buffer)" and nr: "\<not> dv_reboot_requested (pl_device (dr_pull s))"
    using write_ignored [of e lba buffer s] w by auto
  define s2 where "s2 = drop_block e buffer (drop_claim e s)"
  have "uf2_placed buffer" using tk by (simp add: taken_def)
  note n = block_number [OF this]
  have s1: "behind_kept fl0 (s_flash (pl_store (dr_pull (drop_claim e s))))" "\<not> dv_reboot_requested (pl_device (dr_pull (drop_claim e s)))"
    using s nr by (simp_all add: drop_safe_def drop_claim_def upd_pull_def set_flags_def upd_fw_def upd_dev_def)
  have s2: "behind_kept fl0 (s_flash (pl_store (dr_pull s2)))" "\<not> dv_reboot_requested (pl_device (dr_pull s2))"
    using s1 write_behind [OF s1(1) hw n(1)] n(2)
    by (auto simp: s2_def drop_block_def upd_pull_def upd_fw_def upd_dev_def split: prod.splits bool.splits)
  have erase: "behind_kept fl0 (flash_range_erase (pe_hw e) (s_flash (pl_store (dr_pull s2))) 0 4096)"
    using s2(1) by (auto simp: behind_kept_def erase_nth [OF hw])
  have "dr_pull s' = toggle_led (dr_pull s2) \<or> (\<exists>ok p. drop_finish e (dr_pull s2) = (ok, p) \<and> (dr_pull s' = p \<or> ok \<and> dr_pull s' = toggle_led p))"
    using w False unfolding tud_msc_write10_cb_def Let_def s2_def [symmetric]
    by (auto simp: upd_pull_def split: if_splits prod.splits bool.splits)
  then show ?thesis
    using s2 erase
    by (auto simp: drop_safe_def drop_finish_def Let_def upd_dev_def log_call_def enter_firmware_recovery_def split: if_splits)
qed

lemma run_safe:
  assumes "drop_safe fl0 s" "\<forall>w\<in>set ws. nor_flash (pe_hw (fst w))" "262144 \<le> length fl0"
  shows "drop_safe fl0 (run_drop s ws)"
  using assms
proof (induction ws arbitrary: s)
  case (Cons w ws)
  obtain e lba buffer where w: "w = (e, lba, buffer)" using prod_cases3 by blast
  obtain r s' where r: "tud_msc_write10_cb e lba buffer s = (r, s')" by fastforce
  have "drop_safe fl0 s'" using write_safe [OF Cons.prems(1) _ Cons.prems(3) r] Cons.prems(2) w by simp
  then show ?case using Cons w r by (cases r) simp_all
qed simp

subsection \<open>Properties\<close>

text \<open>A file of the image of \<open>Fw_Install\<close>, last block first, with a block sent twice and a sector that is no block at all.\<close>

definition uf2_of :: "bytes \<Rightarrow> nat \<Rightarrow> bytes" where
  "uf2_of img k = (le32 0x0a324655 @ le32 0x9e5d5157 @ le32 0 @ le32 (0x10000000 + of_nat k * 256) @ le32 256 @ le32 (of_nat k) @ le32 1024 @ le32 0)
     @ slice img (256 * k) 256 @ replicate 220 0 @ le32 0x0ab16f30"

lemma uf2_of_fields:
  assumes "k < 1024" "262144 \<le> length img"
  shows "length (uf2_of img k) = 512" "get32 (uf2_of img k) 0 = 0x0a324655" "get32 (uf2_of img k) 4 = 0x9e5d5157"
    "get32 (uf2_of img k) 12 = 0x10000000 + of_nat k * 256" "get32 (uf2_of img k) 16 = 256" "get32 (uf2_of img k) 20 = of_nat k"
    "get32 (uf2_of img k) 24 = 1024" "get32 (uf2_of img k) 508 = 0x0ab16f30" "slice (uf2_of img k) 32 256 = slice img (256 * k) 256"
proof -
  let ?h = "le32 0x0a324655 @ le32 0x9e5d5157 @ le32 0 @ le32 (0x10000000 + of_nat k * 256) @ le32 256 @ le32 (of_nat k) @ le32 1024 @ le32 0"
  let ?t = "slice img (256 * k) 256 @ replicate 220 0 @ le32 0x0ab16f30"
  have page: "length (slice img (256 * k) 256) = 256" using assms by simp
  show "length (uf2_of img k) = 512" using page by (simp add: uf2_of_def)
  show "get32 (uf2_of img k) 0 = 0x0a324655" by (simp add: uf2_of_def)
  show "get32 (uf2_of img k) 4 = 0x9e5d5157"
    using get32_at [of 4 "le32 0x0a324655"] by (simp add: uf2_of_def)
  show "get32 (uf2_of img k) 12 = 0x10000000 + of_nat k * 256"
    using get32_at [of 12 "le32 0x0a324655 @ le32 0x9e5d5157 @ le32 0"] by (simp add: uf2_of_def)
  show "get32 (uf2_of img k) 16 = 256"
    using get32_at [of 16 "le32 0x0a324655 @ le32 0x9e5d5157 @ le32 0 @ le32 (0x10000000 + of_nat k * 256)"] by (simp add: uf2_of_def)
  show "get32 (uf2_of img k) 20 = of_nat k"
    using get32_at [of 20 "le32 0x0a324655 @ le32 0x9e5d5157 @ le32 0 @ le32 (0x10000000 + of_nat k * 256) @ le32 256"] by (simp add: uf2_of_def)
  show "get32 (uf2_of img k) 24 = 1024"
    using get32_at [of 24 "le32 0x0a324655 @ le32 0x9e5d5157 @ le32 0 @ le32 (0x10000000 + of_nat k * 256) @ le32 256 @ le32 (of_nat k)"]
    by (simp add: uf2_of_def)
  show "get32 (uf2_of img k) 508 = 0x0ab16f30"
    using get32_at [of 508 "?h @ slice img (256 * k) 256 @ replicate 220 0" "0x0ab16f30" "[]"] page by (simp add: uf2_of_def)
  show "slice (uf2_of img k) 32 256 = slice img (256 * k) 256"
    unfolding uf2_of_def using page by (simp add: slice_def)
qed

lemma uf2_of_block:
  assumes "k < 1024" "262144 \<le> length img"
  shows "block_of img (uf2_of img k)" "unat (uf2_block_no (uf2_of img k)) = k" "taken (e, 0, uf2_of img k)"
proof -
  note f = uf2_of_fields [OF assms]
  show u: "unat (uf2_block_no (uf2_of img k)) = k"
    unfolding f(6) unsigned_of_nat of_nat_id using assms(1) by (intro take_bit_nat_eq_self) simp
  then have "\<not> uf2_block_no (uf2_of img k) > 1023" using assms(1) by (simp add: word_less_nat_alt)
  then have "uf2_magic (uf2_of img k)" "uf2_placed (uf2_of img k)" unfolding uf2_magic_def uf2_placed_def f by simp_all
  then show "block_of img (uf2_of img k)" "taken (e, 0, uf2_of img k)"
    using f(9) u by (simp_all add: block_of_def taken_def)
qed

definition sample_drop :: drop where
  "sample_drop = \<lparr>dr_pull = sample_puller, dr_blocks = replicate 32 0, dr_sectors = replicate 2 0, dr_count = 0\<rparr>"

definition sample_writes :: "(pull_env \<times> u32 \<times> bytes) list" where
  "sample_writes = (sample_pe, 0, replicate 512 0) # map (\<lambda>k. (sample_pe, 0, uf2_of sample_slot k)) (7 # rev [0..<1024])"

lemma junk_ignored: "\<not> taken (e, lba, replicate 512 0)"
  by (simp add: taken_def uf2_magic_def get32_def nth_append)

text \<open>C4. A dropped firmware file is installed whatever the order of its blocks. When every block of an image arrives at least once, in any
  order, any number of times and among writes that are no such blocks, the drop ends with the slot equal to the image and a reboot
  requested if the image is valid, and otherwise with the first sector erased and the board in its ROM; flash behind the slot is
  unchanged.\<close>

theorem drop_any_order:
  assumes "drop_idle s" "262144 \<le> length img" "own_blocks img ws" "\<forall>b<1024. \<exists>w\<in>set ws. taken w \<and> block_number_of w = b"
    and "p = dr_pull (run_drop s ws)" "valid = firmware_image_is_valid ((pl_store (dr_pull s))\<lparr>s_flash := img\<rparr>) 0 0 False"
  shows "dv_reboot_requested (pl_device p) = valid \<and>
    (if valid then take SLOT_SIZE (s_flash (pl_store p)) = take SLOT_SIZE img \<and> \<not> dv_image_dirty (pl_device p)
     else take SECTOR_SIZE (s_flash (pl_store p)) = replicate SECTOR_SIZE 0xff \<and> Reset_usb_boot \<in> set (dv_calls (pl_device p))) \<and>
    drop SLOT_SIZE (s_flash (pl_store p)) = drop SLOT_SIZE (s_flash (pl_store (dr_pull s)))"
proof -
  let ?fl = "s_flash (pl_store (dr_pull s))"
  have idle: "\<not> dv_reboot_requested (pl_device (dr_pull s))" "\<not> dv_maintenance_reserved (pl_device (dr_pull s))" "262144 \<le> length ?fl"
    using assms(1) by (simp_all add: drop_idle_def)
  have "block_number_of w < 1024" if "taken w" for w
    using that block_number(1) by (cases w) (simp add: taken_def block_number_of_def)
  then have all: "{} \<union> block_number_of ` {w \<in> set ws. taken w} = {..<1024}" using assms(4) by auto
  have "(0 :: nat) \<in> {..<1024}" by simp
  then have ne: "{} \<noteq> {..<1024 :: nat}" by blast
  have "drop_ended img ?fl valid (run_drop s ws)"
    unfolding assms(6) by (rule run_drop_ends [OF assms(3) idle(3) assms(2) claim_idle [OF assms(1)] idle(1,2) ne all])
  then have e: "dv_reboot_requested (pl_device p) = valid" "length (s_flash (pl_store p)) = length ?fl"
      "\<forall>i. 262144 \<le> i \<longrightarrow> i < length ?fl \<longrightarrow> s_flash (pl_store p) ! i = ?fl ! i"
      "valid \<Longrightarrow> \<not> dv_image_dirty (pl_device p) \<and> (\<forall>i<262144. s_flash (pl_store p) ! i = img ! i)"
      "\<not> valid \<Longrightarrow> Reset_usb_boot \<in> set (dv_calls (pl_device p)) \<and> (\<forall>i<4096. s_flash (pl_store p) ! i = 0xff)"
    by (auto simp: drop_ended_def Let_def assms(5) split: if_splits)
  have "drop SLOT_SIZE (s_flash (pl_store p)) = drop SLOT_SIZE ?fl" using e(2,3) idle(3) by (intro nth_equalityI) simp_all
  moreover have "take SLOT_SIZE (s_flash (pl_store p)) = take SLOT_SIZE img" if valid
    using e(2) e(4) [OF that] idle(3) assms(2) by (intro nth_equalityI) simp_all
  moreover have "take SECTOR_SIZE (s_flash (pl_store p)) = replicate SECTOR_SIZE 0xff" if "\<not> valid"
    using e(2) e(5) [OF that] idle(3) by (intro nth_equalityI) simp_all
  ultimately show ?thesis using e(1,4,5) by auto
qed

theorem drop_any_order_witness:
  "take SLOT_SIZE (s_flash (pl_store (dr_pull (run_drop sample_drop sample_writes)))) = sample_slot
   \<and> dv_reboot_requested (pl_device (dr_pull (run_drop sample_drop sample_writes)))"
proof -
  have len: "262144 \<le> length sample_slot" using sample_slot_facts(1) by simp
  have idle: "drop_idle sample_drop"
    using sample_puller_ready by (simp add: drop_idle_def sample_drop_def puller_ready_def pull_boot_def zero_fw_def left_def)
  have own: "own_blocks sample_slot sample_writes"
    using sample_pace(2) junk_ignored uf2_of_block(1) [OF _ len] by (auto simp: own_blocks_def sample_writes_def)
  have all: "\<forall>b<1024. \<exists>w\<in>set sample_writes. taken w \<and> block_number_of w = b"
    using uf2_of_block(2,3) [OF _ len] by (auto simp: sample_writes_def block_number_of_def)
  have valid: "firmware_image_is_valid ((pl_store (dr_pull sample_drop))\<lparr>s_flash := sample_slot\<rparr>) 0 0 False"
    using sample_slot_facts(2-5)
    by (simp add: firmware_image_is_valid_def calculate_firmware_crc32_def fw_update_metadata_matches_def Let_def sample_crc_def)
  show ?thesis using drop_any_order [OF idle len own all refl refl] valid sample_slot_facts(1) by simp
qed

text \<open>C5. Whatever the computer writes to the disk, flash behind the slot is unchanged, and a board that had not asked for a reboot asks
  for one only with an image whose metadata carries the CRC of the slot.\<close>

theorem drop_confined:
  assumes "\<not> dv_reboot_requested (pl_device (dr_pull s))" "SLOT_SIZE \<le> length (s_flash (pl_store (dr_pull s)))"
    and "\<forall>w\<in>set ws. nor_flash (pe_hw (fst w))" "p = dr_pull (run_drop s ws)"
  shows "drop SLOT_SIZE (s_flash (pl_store p)) = drop SLOT_SIZE (s_flash (pl_store (dr_pull s))) \<and>
    (dv_reboot_requested (pl_device p) \<longrightarrow> get32 (s_flash (pl_store p)) METADATA_ADDR = 0xf00d \<and>
       calculate_firmware_crc32 (pl_store p) \<in> {get32 (s_flash (pl_store p)) (METADATA_ADDR + 8), get32 (s_flash (pl_store p)) (METADATA_ADDR + 6)})"
proof -
  let ?fl = "s_flash (pl_store (dr_pull s))"
  have "drop_safe ?fl (run_drop s ws)"
    using assms(1) by (intro run_safe [OF _ assms(3,2)]) (simp add: drop_safe_def behind_kept_def)
  then have r: "behind_kept ?fl (s_flash (pl_store p))" "dv_reboot_requested (pl_device p) \<longrightarrow> firmware_image_is_valid (pl_store p) 0 0 False"
    by (simp_all add: drop_safe_def assms(4))
  have "drop SLOT_SIZE (s_flash (pl_store p)) = drop SLOT_SIZE ?fl"
    using r(1) assms(2) by (intro nth_equalityI) (simp_all add: behind_kept_def)
  then show ?thesis
    using r(2) by (auto simp: firmware_image_is_valid_def fw_update_metadata_matches_def Let_def)
qed

theorem drop_confined_witness:
  "drop SLOT_SIZE (s_flash (pl_store (dr_pull (run_drop sample_drop sample_writes)))) = replicate 4096 0xff"
proof -
  have s: "\<not> dv_reboot_requested (pl_device (dr_pull sample_drop))" "s_flash (pl_store (dr_pull sample_drop)) = replicate 266240 0xff"
    using sample_puller_ready by (simp_all add: sample_drop_def puller_ready_def pull_boot_def left_def) (simp add: sample_puller_def sample_board_def)
  have hw: "\<forall>w\<in>set sample_writes. nor_flash (pe_hw (fst w))" using sample_pace(2) by (auto simp: sample_writes_def)
  show ?thesis using drop_confined [OF s(1) _ hw refl] by (simp add: s(2) del: set_map)
qed

end
