(* ===== verification/Spec2Isabelle.thy ===== *)
theory Spec2Isabelle
  imports Selection Uart_Rx Queue Protocol Zoom_Tracker Screensaver_Policy History Fw_Batch
    Reboot_Hotkey Flash_Store Clipboard_State Board
    Peer_Observe Verify_Service Config_Confirm Maintenance Fw_Install Uf2_Drop
begin

text \<open>
  DeskHop: two RP2040 boards, A and B, each plugged into one computer and joined by an isolated UART, share
  one keyboard and one mouse between the two computers. Each board reads the USB devices attached to it,
  parses their descriptors and reports, and sends the resulting input to its own computer or over the UART to
  the other board, depending on which computer is selected. Core 0 of a board runs the USB device side and the
  transmit queue, core 1 the USB host side and the UART receiver; the tasks of both loops are in main.c.

  \<^bold>\<open>How the code is modelled.\<close> One theory per component, one definition per C function, under the C name where HOL
  allows it. Integers of C keep their width as words (\<open>u8\<close>, \<open>u16\<close>, \<open>u32\<close>, \<open>u64\<close>, wrapping arithmetic); signed report
  values are integers narrowed where C narrows them. Structs are records, enumerations datatypes or, where the
  code stores raw bytes, words. A function that changes state takes and returns it. What a function returns to
  signal failure is a \<open>bool\<close>, an \<open>option\<close> or a sum. A call that leaves a component is appended to the call log of the
  state it runs on (\<open>dv_calls\<close>), so its order is part of the result.

  \<^bold>\<open>Shared theories.\<close>
  \<^item> Prelude: words, little-endian access, byte arrays, ring buffers, and the interfaces \<open>packet_codec\<close> (an encoder
    with a validating decoder) and \<open>machine\<close> (a step function with an invariant).
  \<^item> Crc (constants.c, utils.c, fw\_batch.c, config\_packet.h): the table-driven and the bitwise CRC-32 and the
    CRC-8, with \<open>byte_checksum\<close>, the interface from which error detection is proved once.
  \<^item> Queue (pico-sdk queue.c): the ring that carries every message between the cores, with \<open>bounded_fifo\<close>.

  \<^bold>\<open>The link.\<close>
  \<^item> Uart\_Frame (uart.c, utils.c, packet.h, config\_packet.h): the 32-byte frame and the configuration report. The
    accepted frames are exactly the sent ones; one changed byte is always detected.
  \<^item> Uart\_Rx (tasks.c \<open>packet_receiver_task\<close>, utils.c): the scan of the DMA ring: what is delivered is authentic,
    a valid frame behind any junk is delivered, every pass makes progress, erasing spares unread bytes.
  \<^item> Protocol (uart.c, utils.c, protocol.c): the handler table, dispatch and the proxy envelope.
  \<^item> Selection (selection.c): which computer is selected, agreed between the boards by tokens: convergence, the
    start-up handshake, and safety over a link that loses, repeats and reorders.

  \<^bold>\<open>Input.\<close>
  \<^item> Hid\_Report, Hid\_Parser (hid\_report.c, hid\_parser.c): descriptors and report fields. The parser is total and
    stays in its arrays on arbitrary bytes, accepts only complete descriptors, and routes reports to their owner.
  \<^item> Device (structs.h \<open>device_t\<close>, led.c, parts of tasks.c): the state shared by the input components, activity, LEDs.
  \<^item> Keyboard, Keyboard\_Sync (keyboard.c, keyboard\_sync.c): the union of all keyboards, the outgoing queue (order
    and draining), and the challenge and lease by which one board holds the keys of the other.
  \<^item> Reboot\_Hotkey, Zoom\_Tracker, Screensaver\_Policy (same file names): the three-tap shortcut, the zoom assist,
    the idle decision.
  \<^item> Pointer, Mouse (mouse.c, zoom.c, handlers.c): screen geometry, the movement of the pointer, the hop to the
    other computer with all its guards.
  \<^item> Handlers, Board (handlers.c, usb.c, uart.c, tasks.c): hotkeys, packet handlers, USB callbacks, and their
    composition into one machine \<open>board_step\<close> with the invariant \<open>board_inv\<close>.

  \<^bold>\<open>Storage and updates.\<close>
  \<^item> Config (protocol.c, utils.c, defaults.c, config\_migration.c): fields, validation, repair.
  \<^item> Flash\_Store (utils.c): pages, the stored configuration, confirmed saves, and the scan of the image.
  \<^item> Fw\_Update, Fw\_Batch (fw\_update.c, fw\_batch.c): update decisions and the transfer of image pages.

  \<^bold>\<open>Other.\<close>
  \<^item> History (history.c, diagnostic\_history.c): the ring of the last 64 events refines a list.
  \<^item> Clipboard\_State (clipboard\_state.c): text is collected, checked and typed exactly, and no key stays down.

  \<^bold>\<open>Termination and bounds.\<close> Every loop of the code is a total function. The descriptor parser recurses on the bytes
  left, which each item shortens; the receiver's scan on the unread count, at most 32 steps; queue drains on the
  level; all other loops have a constant bound and are folds over an index list. No definition uses fuel.

  \<^bold>\<open>Parameters.\<close> Code that is not in the repository's sources is an argument: the flash routines of the boot ROM
  (\<open>flash_hw\<close>, with the law \<open>nor_flash\<close> of NOR flash), the float routines of the boot ROM (\<open>float_ops\<close>), the clock, and
  what TinyUSB and the other core answer during one call (fields of \<open>env\<close>).

  \<^bold>\<open>Diagnostics between the boards.\<close>
  \<^item> Runtime (diagnostic\_runtime.c): core checkpoints and update progress, with the invariant of a snapshot.
  \<^item> Peer\_Link, Peer\_Status, Peer\_Observe (peer\_status.c, peer\_observation.c): status queries in chunks, with the
    interface \<open>chunked_reply\<close>; a query is answered with what the other board sampled, and an update is reported as
    confirmed only on evidence of its reset and of its running cores.
  \<^item> Verification, Peer\_Verify, Verify\_Service (verification.c, peer\_verify.c, diagnostic\_verify.c): the scan of the
    running image on the flash of Flash\_Store. A PASS holds of the flash at the moment it is published, and an
    undisturbed scan publishes its result after 1028 tasks.

  \<^bold>\<open>Transactions.\<close>
  \<^item> Config\_Confirm (config\_confirm.c): confirmed configuration commands over USB and from the other board. A command is
    performed at most once however often it is resent, and a lost receipt can be fetched again.
  \<^item> Maintenance (maintenance.c): entry into the boot ROM from a console or from the other board. A board resets only
    when it is safe and after the answer has left the wire, and a request on one board takes the other into its ROM.

  \<^bold>\<open>Copying firmware.\<close>
  \<^item> Fw\_Pull (firmware\_batch.c, the firmware handlers of handlers.c, the firmware task of tasks.c): the updater's state, its
    requests in pages or single words, its answers to the other board, heartbeats, flash writes and the last check.
  \<^item> Fw\_Pull\_Inv: the invariant of the updater under any events. Flash changes only inside the slot and with the image
    marked dirty, a board with a half-written slot answers no request for it, and the reboot at the end is into an image whose CRC
    and metadata match a version that a heartbeat advertised.
  \<^item> Fw\_Install (heartbeat\_output\_task in tasks.c, process\_uart\_tx\_task in uart.c): the two boards together. From one heartbeat, 1024
    pages later the slot of the older board is the slot of the newer one and the reboot is requested; the schedule is one request and 65
    frames a page, with arbitrary clocks within the time limits.
  \<^item> Uf2\_Drop (ramdisk.c): a firmware file dropped on the disk of configuration mode. Its blocks may come in any order and more than
    once; the drop ends with the file in the slot and a reboot, or in the ROM if the image is not valid.

  \<^bold>\<open>Not modelled.\<close> The vendored pico-sdk, TinyUSB and Pico-PIO-USB (except the queue), the web configuration page, the
  macOS helper, build scripts, tests and hardware files. Of the firmware: set-up of the hardware (setup.c, main.c),
  USB descriptors (constant tables), the text formatting of the diagnostic console (console.c,
  diagnostic\_transport.c), the clipboard transport (clipboard.c,
  clipboard\_cdc.c), the transfer of the event history (peer\_history.c, diagnostic\_peer\_history.c) and the scheduling of
  the diagnostic services (diagnostic\_peer.c).
\<close>

end
